(* ===== verification/Prelude.thy ===== *)
theory Prelude
  imports Complex_Main "HOL-Library.Word"
begin

text \<open>
  Shared vocabulary of the development: the machine-integer types of the C++ sources, the
  result type that makes every \<open>ASSERT\<close>, every \<open>throw cRuntimeError\<close> and every loop bound a
  value, the sequencing operator on it, and the partial-correctness predicate \<open>okR\<close> with which
  the components state what their operations preserve.
\<close>

section \<open>Types\<close>

type_synonym u8 = "8 word"
type_synonym u16 = "16 word"
type_synonym u32 = "32 word"
type_synonym u64 = "64 word"

text \<open>
  Simulation time (\<open>simtime_t\<close>, a fixed-point number of seconds) is a rational number of
  seconds. Rounding of the fixed-point representation is not modelled.
\<close>

type_synonym simtime = rat

section \<open>Results\<close>

text \<open>
  \<open>AssertFailure\<close> is a failed \<open>ASSERT(...)\<close> of a debug build, \<open>RuntimeError\<close> a thrown
  \<open>cRuntimeError\<close>, \<open>LoopBound\<close> a loop of the model that has used up its iteration bound.
\<close>

datatype sim_error =
    AssertFailure string
  | RuntimeError string
  | LoopBound

type_synonym 'a res = "sim_error + 'a"

definition bindR :: "'a res \<Rightarrow> ('a \<Rightarrow> 'b res) \<Rightarrow> 'b res" where
  "bindR m f = (case m of Inl e \<Rightarrow> Inl e | Inr x \<Rightarrow> f x)"

definition assertR :: "bool \<Rightarrow> string \<Rightarrow> unit res" where
  "assertR b msg = (if b then Inr () else Inl (AssertFailure msg))"

definition whenR :: "bool \<Rightarrow> ('a \<Rightarrow> 'a res) \<Rightarrow> 'a \<Rightarrow> 'a res" where
  "whenR b f x = (if b then f x else Inr x)"

text \<open>\<open>okR P m\<close>: if \<open>m\<close> returns a value, the value satisfies \<open>P\<close>.\<close>

definition okR :: "('a \<Rightarrow> bool) \<Rightarrow> 'a res \<Rightarrow> bool" where
  "okR P m = (case m of Inl e \<Rightarrow> True | Inr x \<Rightarrow> P x)"

definition isOk :: "'a res \<Rightarrow> bool" where
  "isOk m = (case m of Inl e \<Rightarrow> False | Inr x \<Rightarrow> True)"

named_theorems ok_intros \<open>rules that establish okR of an operation\<close>
named_theorems seq_simps \<open>sequence-number comparisons read as offsets in a window\<close>

lemma bindR_Inr [simp]: "bindR (Inr x) f = f x"
  by (simp add: bindR_def)

lemma bindR_Inl [simp]: "bindR (Inl e) f = Inl e"
  by (simp add: bindR_def)

lemma bindR_eq_Inr: "bindR m f = Inr y \<longleftrightarrow> (\<exists>x. m = Inr x \<and> f x = Inr y)"
  by (cases m) auto

lemma bindR_InrE [elim]:
  assumes "bindR m f = Inr y"
  obtains x where "m = Inr x" "f x = Inr y"
  using assms by (auto simp: bindR_eq_Inr)

lemma bindR_assoc: "bindR (bindR m f) g = bindR m (\<lambda>x. bindR (f x) g)"
  by (cases m) auto

lemma assertR_True [simp]: "assertR True msg = Inr ()"
  by (simp add: assertR_def)

lemma assertR_False [simp]: "assertR False msg = Inl (AssertFailure msg)"
  by (simp add: assertR_def)

lemma assertR_eq_Inr [simp]: "assertR b msg = Inr u \<longleftrightarrow> b"
  by (simp add: assertR_def)

lemma whenR_True [simp]: "whenR True f x = f x"
  by (simp add: whenR_def)

lemma whenR_False [simp]: "whenR False f x = Inr x"
  by (simp add: whenR_def)

lemma okR_Inr [simp]: "okR P (Inr x) = P x"
  by (simp add: okR_def)

lemma okR_Inl [simp]: "okR P (Inl e)"
  by (simp add: okR_def)

lemma okR_assertR [simp]: "okR P (assertR b msg) = (b \<longrightarrow> P ())"
  by (simp add: assertR_def)

lemma okR_bind: "okR (\<lambda>x. okR P (f x)) m \<Longrightarrow> okR P (bindR m f)"
  by (cases m) auto

lemma okR_bindI: "okR Q m \<Longrightarrow> (\<And>x. Q x \<Longrightarrow> okR P (f x)) \<Longrightarrow> okR P (bindR m f)"
  by (cases m) auto

lemma okR_whenI: "(b \<Longrightarrow> okR P (f x)) \<Longrightarrow> (\<not> b \<Longrightarrow> P x) \<Longrightarrow> okR P (whenR b f x)"
  by (cases b) auto

lemma okR_mono: "okR P m \<Longrightarrow> (\<And>x. P x \<Longrightarrow> Q x) \<Longrightarrow> okR Q m"
  by (cases m) auto

lemma okR_conj: "okR P m \<Longrightarrow> okR Q m \<Longrightarrow> okR (\<lambda>x. P x \<and> Q x) m"
  by (cases m) auto

lemma okR_D: "okR P m \<Longrightarrow> m = Inr x \<Longrightarrow> P x"
  by simp

lemma okR_iff: "okR P m \<longleftrightarrow> (\<forall>x. m = Inr x \<longrightarrow> P x)"
  by (cases m) auto

lemma isOk_Inr [simp]: "isOk (Inr x)"
  by (simp add: isOk_def)

lemma isOk_Inl [simp]: "\<not> isOk (Inl e)"
  by (simp add: isOk_def)

lemma isOk_iff: "isOk m \<longleftrightarrow> (\<exists>x. m = Inr x)"
  by (cases m) auto

section \<open>Parts of the state that an operation leaves alone\<close>

text \<open>
  \<open>keepsF V c m\<close>: if \<open>m\<close> returns a state, the view \<open>V\<close> of it is that of \<open>c\<close>; \<open>keepsFP\<close> is the
  same for operations that return a value beside the state.
\<close>

definition keepsF :: "('c \<Rightarrow> 'v) \<Rightarrow> 'c \<Rightarrow> 'c res \<Rightarrow> bool" where
  "keepsF V c m \<longleftrightarrow> okR (\<lambda>c'. V c' = V c) m"

definition keepsFP :: "('c \<Rightarrow> 'v) \<Rightarrow> 'c \<Rightarrow> ('a \<times> 'c) res \<Rightarrow> bool" where
  "keepsFP V c m \<longleftrightarrow> okR (\<lambda>(x, c'). V c' = V c) m"

lemma keeps_Inr: "V c' = V c \<Longrightarrow> keepsF V c (Inr c')"
  by (simp add: keepsF_def)

lemma keepsP_Inr: "V c' = V c \<Longrightarrow> keepsFP V c (Inr (x, c'))"
  by (simp add: keepsFP_def)

lemma keeps_Inl [simp]: "keepsF V c (Inl e)" "keepsFP V c (Inl e)"
  by (simp_all add: keepsF_def keepsFP_def)

lemma keeps_view: "V c = V d \<Longrightarrow> keepsF V c m = keepsF V d m" "V c = V d \<Longrightarrow> keepsFP V c m' = keepsFP V d m'"
  by (simp_all add: keepsF_def keepsFP_def)

lemma keeps_iff: "keepsF V c m \<longleftrightarrow> (\<forall>c'. m = Inr c' \<longrightarrow> V c' = V c)"
    "keepsFP V c m' \<longleftrightarrow> (\<forall>x c'. m' = Inr (x, c') \<longrightarrow> V c' = V c)"
  by (auto simp: keepsF_def keepsFP_def okR_iff)

lemma keeps_D: "keepsF V c m \<Longrightarrow> m = Inr c' \<Longrightarrow> V c' = V c" "keepsFP V c m' \<Longrightarrow> m' = Inr (x, c') \<Longrightarrow> V c' = V c"
  by (simp_all add: keeps_iff)

lemma keeps_bind:
  assumes "keepsF V c m" "\<And>x. V x = V c \<Longrightarrow> keepsF V x (f x)"
  shows "keepsF V c (bindR m f)"
proof (cases m)
  case (Inr x)
  then have e: "V x = V c" using assms(1) by (simp add: keepsF_def)
  from assms(2) [OF e] show ?thesis using Inr e by (simp add: keepsF_def)
qed simp

lemma keeps_bindP:
  assumes "keepsFP V c m" "\<And>a x. V x = V c \<Longrightarrow> keepsF V x (f (a, x))"
  shows "keepsF V c (bindR m f)"
proof (cases m)
  case (Inr y)
  obtain a x where y: "y = (a, x)" by (rule prod.exhaust)
  have e: "V x = V c" using assms(1) Inr y by (simp add: keepsFP_def)
  from assms(2) [OF e, of a] show ?thesis using Inr y e by (simp add: keepsF_def)
qed simp

lemma keepsP_bind:
  assumes "keepsF V c m" "\<And>x. V x = V c \<Longrightarrow> keepsFP V x (f x)"
  shows "keepsFP V c (bindR m f)"
proof (cases m)
  case (Inr x)
  then have e: "V x = V c" using assms(1) by (simp add: keepsF_def)
  from assms(2) [OF e] show ?thesis using Inr e by (simp add: keepsFP_def)
qed simp

lemma keepsP_bindP:
  assumes "keepsFP V c m" "\<And>a x. V x = V c \<Longrightarrow> keepsFP V x (f (a, x))"
  shows "keepsFP V c (bindR m f)"
proof (cases m)
  case (Inr y)
  obtain a x where y: "y = (a, x)" by (rule prod.exhaust)
  have e: "V x = V c" using assms(1) Inr y by (simp add: keepsFP_def)
  from assms(2) [OF e, of a] show ?thesis using Inr y e by (simp add: keepsFP_def)
qed simp

lemma keeps_bind_any:
  "(\<And>x. keepsF V c (f x)) \<Longrightarrow> keepsF V c (bindR m f)" "(\<And>x. keepsFP V c (g x)) \<Longrightarrow> keepsFP V c (bindR m' g)"
  by (cases m; simp) (cases m'; simp)

lemma keeps_upd: "keepsF V (f c) m \<Longrightarrow> V (f c) = V c \<Longrightarrow> keepsF V c m"
   "keepsFP V (f c) m' \<Longrightarrow> V (f c) = V c \<Longrightarrow> keepsFP V c m'"
  by (simp_all add: keeps_iff)

section \<open>Word casts\<close>

lemma unat_ucast_narrow:
  fixes w :: u64
  assumes "unat w < 2 ^ 32"
  shows "unat (ucast w :: u32) = unat w"
  using assms by (simp add: unsigned_ucast_eq take_bit_nat_eq_self)

lemma unat_ucast_widen [simp]: "unat (ucast (w :: u32) :: u64) = unat w"
proof -
  have "unat w < 2 ^ 32" using unsigned_less [of w, where ?'a = nat] by simp
  then show ?thesis by (simp add: unsigned_ucast_eq take_bit_nat_eq_self)
qed

lemma ucast_narrow_widen [simp]: "ucast (ucast (w :: u32) :: u64) = w"
proof -
  have "unat w < 2 ^ 32" using unsigned_less [of w, where ?'a = nat] by simp
  then show ?thesis by (simp only: word_unat_eq_iff unat_ucast_narrow unat_ucast_widen)
qed

end
