(* ===== verification/Tcp_Seq.thy ===== *)
theory Tcp_Seq
  imports Prelude
begin

text \<open>
  Sequence-number comparison of \<open>src/inet/transportlayer/tcp_common/TCPSegment.h\<close>, on 32-bit
  words with wrap-around, and its reading as a linear order inside a window of less than
  \<open>2^31\<close> numbers above a base.
\<close>

section \<open>The comparison functions\<close>

definition seqLess :: "u32 \<Rightarrow> u32 \<Rightarrow> bool" where
  "seqLess a b \<longleftrightarrow> a \<noteq> b \<and> b - a < 2 ^ 31"

definition seqLE :: "u32 \<Rightarrow> u32 \<Rightarrow> bool" where
  "seqLE a b \<longleftrightarrow> b - a < 2 ^ 31"

definition seqGreater :: "u32 \<Rightarrow> u32 \<Rightarrow> bool" where
  "seqGreater a b \<longleftrightarrow> a \<noteq> b \<and> a - b < 2 ^ 31"

definition seqGE :: "u32 \<Rightarrow> u32 \<Rightarrow> bool" where
  "seqGE a b \<longleftrightarrow> a - b < 2 ^ 31"

definition seqMin :: "u32 \<Rightarrow> u32 \<Rightarrow> u32" where
  "seqMin a b = (if b - a < 2 ^ 31 then a else b)"

definition seqMax :: "u32 \<Rightarrow> u32 \<Rightarrow> u32" where
  "seqMax a b = (if a - b < 2 ^ 31 then a else b)"

section \<open>Offsets\<close>

text \<open>\<open>off b x\<close>: how many numbers \<open>x\<close> lies after \<open>b\<close>, counting with wrap-around.\<close>

definition off :: "u32 \<Rightarrow> u32 \<Rightarrow> nat" where
  "off b x = unat (x - b)"

lemma off_refl [simp]: "off b b = 0"
  by (simp add: off_def)

lemma off_eq_0 [simp]: "off b x = 0 \<longleftrightarrow> x = b"
  by (auto simp: off_def unat_eq_zero)

lemma off_lt: "off b x < 2 ^ 32"
  using unsigned_less [of "x - b", where ?'a = nat] by (simp add: off_def)

lemma off_inj: "off b x = off b y \<longleftrightarrow> x = y"
  by (metis diff_add_cancel off_def word_unat_eq_iff)

lemma off_add_nat: "off b x + n < 2 ^ 32 \<Longrightarrow> off b (x + of_nat n) = off b x + n"
proof -
  assume h: "off b x + n < 2 ^ 32"
  have eq: "x + of_nat n - b = (x - b) + of_nat n" by simp
  have "unat ((x - b) + of_nat n) = unat (x - b) + n"
    using h by (simp add: off_def unat_word_ariths unat_of_nat)
  then show ?thesis unfolding off_def eq .
qed

text \<open>Offsets add up along a path that does not go round the whole number circle.\<close>

lemma off_trans: "off b x \<le> off b y \<Longrightarrow> off b y = off b x + off x y"
proof -
  assume "off b x \<le> off b y"
  then have le: "x - b \<le> y - b" by (simp add: off_def word_le_nat_alt)
  have eq: "y - x = (y - b) - (x - b)" by simp
  have "unat (y - x) = unat (y - b) - unat (x - b)"
    unfolding eq using le by (rule unat_sub)
  with le show ?thesis by (simp add: off_def word_le_nat_alt)
qed

lemma off_split: "off b x + off x y < 2 ^ 32 \<Longrightarrow> off b y = off b x + off x y"
proof -
  assume h: "off b x + off x y < 2 ^ 32"
  have eq: "y - b = (x - b) + (y - x)" by simp
  have "unat ((x - b) + (y - x)) = unat (x - b) + unat (y - x)"
    by (rule unat_add_lem [THEN iffD1]) (use h in \<open>simp add: off_def\<close>)
  then show ?thesis unfolding off_def eq .
qed

lemma off_swap: "x \<noteq> b \<Longrightarrow> off x b = 2 ^ 32 - off b x"
proof -
  assume "x \<noteq> b"
  then have pos: "0 < off b x" by (metis gr0I off_eq_0)
  have eq: "b - x = 0 - (x - b)" by simp
  have "unat (0 - (x - b)) = 2 ^ 32 - unat (x - b)"
    using pos by (subst unat_sub_if_size) (simp add: off_def word_size)
  then show ?thesis unfolding off_def eq .
qed

section \<open>The comparisons as offset comparisons\<close>

lemma seqLE_off: "seqLE a b \<longleftrightarrow> off a b < 2 ^ 31"
  by (simp add: seqLE_def off_def word_less_nat_alt)

lemma seqLess_off: "seqLess a b \<longleftrightarrow> 0 < off a b \<and> off a b < 2 ^ 31"
  by (auto simp: seqLess_def off_def word_less_nat_alt unat_gt_0)

lemma seqGE_seqLE: "seqGE a b = seqLE b a"
  by (simp add: seqGE_def seqLE_def)

lemma seqGreater_seqLess: "seqGreater a b = seqLess b a"
  by (auto simp: seqGreater_def seqLess_def)

lemma seqLE_refl [simp]: "seqLE a a"
  by (simp add: seqLE_def)

lemma seqLess_irrefl [simp]: "\<not> seqLess a a"
  by (simp add: seqLess_def)

lemma seqLess_iff: "seqLess a b \<longleftrightarrow> a \<noteq> b \<and> seqLE a b"
  by (simp add: seqLess_def seqLE_def)

lemma seqLess_imp_seqLE: "seqLess a b \<Longrightarrow> seqLE a b"
  by (simp add: seqLess_iff)

lemma seqLess_asym: "seqLess a b \<Longrightarrow> \<not> seqLess b a"
proof -
  assume ab: "seqLess a b"
  then have "b \<noteq> a" and "off a b < 2 ^ 31" by (auto simp: seqLess_off)
  moreover from \<open>b \<noteq> a\<close> have "off b a = 2 ^ 32 - off a b" by (rule off_swap)
  ultimately show ?thesis by (simp add: seqLess_off)
qed

lemma seqLE_antisym: "seqLE a b \<Longrightarrow> seqLE b a \<Longrightarrow> a = b"
  using seqLess_asym seqLess_iff by blast

text \<open>
  Two numbers exactly half the circle apart are incomparable; any other two are ordered.
\<close>

lemma seq_total: "b - a \<noteq> 2 ^ 31 \<Longrightarrow> seqLE a b \<or> seqLE b a"
proof -
  assume ne: "b - a \<noteq> 2 ^ 31"
  show ?thesis
  proof (cases "b = a")
    case False
    have "off a b \<noteq> 2 ^ 31"
    proof
      assume "off a b = 2 ^ 31"
      then have "unat (b - a) = unat (2 ^ 31 :: u32)" by (simp add: off_def)
      with ne show False by (metis word_unat_eq_iff)
    qed
    with off_swap [OF False] off_lt [of a b] show ?thesis
      by (auto simp: seqLE_off)
  qed simp
qed

section \<open>A window above a base\<close>

text \<open>
  Inside the window of the \<open>2^31\<close> numbers at and above \<open>b\<close>, the comparisons are the order of
  the offsets. This is what makes the queues of the TCP implementation, whose bounds are
  compared with these functions only, behave as intervals.
\<close>

definition inwin :: "u32 \<Rightarrow> u32 \<Rightarrow> bool" where
  "inwin b x \<longleftrightarrow> off b x < 2 ^ 31"

lemma inwin_seqLE: "inwin b x = seqLE b x"
  by (simp add: inwin_def seqLE_off)

lemma inwin_base [simp]: "inwin b b"
  by (simp add: inwin_def)

lemma seqLE_win [seq_simps]: "inwin b x \<Longrightarrow> inwin b y \<Longrightarrow> seqLE x y \<longleftrightarrow> off b x \<le> off b y"
proof -
  assume x: "inwin b x" and y: "inwin b y"
  show ?thesis
  proof (cases "off b x \<le> off b y")
    case True
    from off_trans [OF this] y have "off x y < 2 ^ 31" by (simp add: inwin_def)
    with True show ?thesis by (simp add: seqLE_off)
  next
    case False
    then have le: "off b y \<le> off b x" and ne: "x \<noteq> y" by auto
    from off_trans [OF le] x have lt: "off y x < 2 ^ 31" by (simp add: inwin_def)
    from ne have "off x y = 2 ^ 32 - off y x" by (intro off_swap) auto
    with lt False show ?thesis by (simp add: seqLE_off)
  qed
qed

lemma seqLess_win [seq_simps]: "inwin b x \<Longrightarrow> inwin b y \<Longrightarrow> seqLess x y \<longleftrightarrow> off b x < off b y"
  by (auto simp: seqLess_iff seqLE_win off_inj order.order_iff_strict)

lemma seqGE_win [seq_simps]: "inwin b x \<Longrightarrow> inwin b y \<Longrightarrow> seqGE x y \<longleftrightarrow> off b y \<le> off b x"
  by (simp add: seqGE_seqLE seqLE_win)

lemma seqGreater_win [seq_simps]:
  "inwin b x \<Longrightarrow> inwin b y \<Longrightarrow> seqGreater x y \<longleftrightarrow> off b y < off b x"
  by (simp add: seqGreater_seqLess seqLess_win)

lemma seqMin_win [seq_simps]:
  "inwin b x \<Longrightarrow> inwin b y \<Longrightarrow> seqMin x y = (if off b x \<le> off b y then x else y)"
  using seqLE_win [of b x y] by (simp add: seqMin_def seqLE_def)

lemma seqMax_win [seq_simps]:
  "inwin b x \<Longrightarrow> inwin b y \<Longrightarrow> seqMax x y = (if off b y \<le> off b x then x else y)"
  using seqLE_win [of b y x] by (simp add: seqMax_def seqLE_def)

lemma eq_win: "x = y \<longleftrightarrow> off b x = off b y"
  by (simp add: off_inj)

end
