(* ===== verification/Tcp_SackQueue.thy ===== *)
theory Tcp_SackQueue
  imports Tcp_Seq
begin

text \<open>
  The retransmission scoreboard, \<open>TCPSACKRexmitQueue\<close>
  (\<open>src/inet/transportlayer/tcp/TCPSACKRexmitQueue.h/.cc\<close>): a list of adjacent regions of sent
  and not yet cumulatively acknowledged bytes, each with a \<open>sacked\<close> and a \<open>rexmitted\<close> mark.
  An iterator \<open>i\<close> into the list is the pair of the list's part before it and the part from it on.
  The abstract view is \<open>byteMarks\<close>, the marks of every single byte.
\<close>

section \<open>Data\<close>

record region =
  beginSeqNum :: u32
  endSeqNum :: u32
  sacked :: bool
  rexmitted :: bool

record rexmit_queue =
  rq_begin :: u32
  rq_end :: u32
  rexmitQueue :: "region list"

definition rq_new :: rexmit_queue where
  "rq_new = \<lparr>rq_begin = 0, rq_end = 0, rexmitQueue = []\<rparr>"

definition rq_init :: "rexmit_queue \<Rightarrow> u32 \<Rightarrow> rexmit_queue" where
  "rq_init q seqNum = q\<lparr>rq_begin := seqNum, rq_end := seqNum\<rparr>"

section \<open>Operations\<close>

text \<open>\<open>checkQueue\<close>: the loop carries the expected next begin \<open>b\<close>.\<close>

fun checkRegions :: "u32 \<Rightarrow> region list \<Rightarrow> u32 \<Rightarrow> bool" where
  "checkRegions b [] e = (b = e)"
| "checkRegions b (r # rs) e =
     (b = beginSeqNum r \<and> seqLess (beginSeqNum r) (endSeqNum r) \<and> checkRegions (endSeqNum r) rs e)"

definition checkQueue :: "rexmit_queue \<Rightarrow> bool" where
  "checkQueue q = checkRegions (rq_begin q) (rexmitQueue q) (rq_end q)"

text \<open>\<open>while (i != end && seqLE(i->endSeqNum, seqNum)) i++\<close>\<close>

definition beforeSeq :: "u32 \<Rightarrow> region list \<Rightarrow> region list" where
  "beforeSeq seqNum rs = takeWhile (\<lambda>r. seqLE (endSeqNum r) seqNum) rs"

definition fromSeq :: "u32 \<Rightarrow> region list \<Rightarrow> region list" where
  "fromSeq seqNum rs = dropWhile (\<lambda>r. seqLE (endSeqNum r) seqNum) rs"

definition covers :: "region \<Rightarrow> u32 \<Rightarrow> bool" where
  "covers r seqNum \<longleftrightarrow> seqLE (beginSeqNum r) seqNum \<and> seqLess seqNum (endSeqNum r)"

definition rq_discardUpTo :: "rexmit_queue \<Rightarrow> u32 \<Rightarrow> rexmit_queue res" where
  "rq_discardUpTo q seqNum =
     bindR (assertR (seqLE (rq_begin q) seqNum \<and> seqLE seqNum (rq_end q)) ''discardUpTo'') (\<lambda>_.
     bindR (case fromSeq seqNum (rexmitQueue q) of
              [] \<Rightarrow> Inr []
            | i # is \<Rightarrow> bindR (assertR (covers i seqNum) ''discardUpTo'') (\<lambda>_.
                Inr (i\<lparr>beginSeqNum := seqNum\<rparr> # is))) (\<lambda>rs.
     let q' = q\<lparr>rq_begin := seqNum, rexmitQueue := rs\<rparr>
     in bindR (assertR (checkQueue q') ''checkQueue'') (\<lambda>_. Inr q')))"

text \<open>
  The chunking step shared by \<open>enqueueSentData\<close> and \<open>setSackedBit\<close>: with \<open>i\<close> the first region
  that ends after \<open>seqNum\<close>, \<open>i\<close> is cut at \<open>seqNum\<close> unless it begins there.
\<close>

definition chunkAt :: "u32 \<Rightarrow> region list \<Rightarrow> region list \<times> region list" where
  "chunkAt seqNum rs =
     (case fromSeq seqNum rs of
        [] \<Rightarrow> (beforeSeq seqNum rs, [])
      | i # is \<Rightarrow>
          if beginSeqNum i \<noteq> seqNum
          then (beforeSeq seqNum rs @ [i\<lparr>endSeqNum := seqNum\<rparr>], i\<lparr>beginSeqNum := seqNum\<rparr> # is)
          else (beforeSeq seqNum rs, i # is))"

definition enqueueRexmit :: "region list \<Rightarrow> u32 \<Rightarrow> u32 \<Rightarrow> region list res" where
  "enqueueRexmit rs fromSeqNum toSeqNum =
     bindR (assertR (fromSeq fromSeqNum rs \<noteq> []) ''enqueueSentData'') (\<lambda>_.
     bindR (assertR (covers (hd (fromSeq fromSeqNum rs)) fromSeqNum) ''enqueueSentData'') (\<lambda>_.
     let (pre, rest) = chunkAt fromSeqNum rs;
         mid = map (\<lambda>r. r\<lparr>rexmitted := True\<rparr>) (beforeSeq toSeqNum rest);
         post = fromSeq toSeqNum rest;
         from' = (if mid = [] then fromSeqNum else endSeqNum (last mid));
         found = (mid \<noteq> [])
     in if from' \<noteq> toSeqNum
        then (case post of
                [] \<Rightarrow> Inr (pre @ mid @ [\<lparr>beginSeqNum = from', endSeqNum = toSeqNum,
                                      sacked = False, rexmitted = False\<rparr>])
              | i # is \<Rightarrow>
                  bindR (assertR (seqLess (beginSeqNum i) toSeqNum) ''enqueueSentData'') (\<lambda>_.
                  Inr (pre @ mid @ [\<lparr>beginSeqNum = from', endSeqNum = toSeqNum,
                                     sacked = sacked i, rexmitted = True\<rparr>]
                       @ i\<lparr>beginSeqNum := toSeqNum\<rparr> # is)))
        else bindR (assertR found ''enqueueSentData'') (\<lambda>_. Inr (pre @ mid @ post))))"

definition enqueueSentData :: "rexmit_queue \<Rightarrow> u32 \<Rightarrow> u32 \<Rightarrow> rexmit_queue res" where
  "enqueueSentData q fromSeqNum toSeqNum =
     bindR (assertR (seqLE (rq_begin q) fromSeqNum \<and> seqLE fromSeqNum (rq_end q)) ''enqueueSentData'') (\<lambda>_.
     bindR (assertR (seqLess fromSeqNum toSeqNum) ''enqueueSentData'') (\<lambda>_.
     bindR (if rexmitQueue q = [] \<or> rq_end q = fromSeqNum
            then Inr (rexmitQueue q @ [\<lparr>beginSeqNum = fromSeqNum, endSeqNum = toSeqNum,
                                        sacked = False, rexmitted = False\<rparr>])
            else enqueueRexmit (rexmitQueue q) fromSeqNum toSeqNum) (\<lambda>rs.
     let q' = q\<lparr>rexmitQueue := rs, rq_begin := beginSeqNum (hd rs), rq_end := endSeqNum (last rs)\<rparr>
     in bindR (assertR (checkQueue q') ''checkQueue'') (\<lambda>_. Inr q'))))"

definition sackRegions :: "region list \<Rightarrow> u32 \<Rightarrow> u32 \<Rightarrow> region list res" where
  "sackRegions rs fromSeqNum toSeqNum =
     bindR (assertR (fromSeq fromSeqNum rs \<noteq> [] \<and> covers (hd (fromSeq fromSeqNum rs)) fromSeqNum)
              ''setSackedBit'') (\<lambda>_.
     let (pre, rest) = chunkAt fromSeqNum rs;
         mid = map (\<lambda>r. if seqGE (beginSeqNum r) fromSeqNum then r\<lparr>sacked := True\<rparr> else r)
                 (beforeSeq toSeqNum rest)
     in case fromSeq toSeqNum rest of
          [] \<Rightarrow> Inr (pre @ mid)
        | i # is \<Rightarrow>
            if seqLess (beginSeqNum i) toSeqNum \<and> seqLess toSeqNum (endSeqNum i)
            then Inr (pre @ mid @ [i\<lparr>endSeqNum := toSeqNum, sacked := True\<rparr>]
                      @ i\<lparr>beginSeqNum := toSeqNum\<rparr> # is)
            else Inr (pre @ mid @ i # is))"

definition setSackedBit :: "rexmit_queue \<Rightarrow> u32 \<Rightarrow> u32 \<Rightarrow> rexmit_queue res" where
  "setSackedBit q fromSeqNum0 toSeqNum =
     (let fromSeqNum = (if seqLess fromSeqNum0 (rq_begin q) then rq_begin q else fromSeqNum0) in
     bindR (assertR (seqLess fromSeqNum (rq_end q)) ''setSackedBit'') (\<lambda>_.
     bindR (assertR (seqLess (rq_begin q) toSeqNum \<and> seqLE toSeqNum (rq_end q)) ''setSackedBit'') (\<lambda>_.
     bindR (assertR (seqLess fromSeqNum toSeqNum) ''setSackedBit'') (\<lambda>_.
     bindR (if rexmitQueue q = [] then Inr []
            else sackRegions (rexmitQueue q) fromSeqNum toSeqNum) (\<lambda>rs.
     let q' = q\<lparr>rexmitQueue := rs\<rparr>
     in bindR (assertR (checkQueue q') ''checkQueue'') (\<lambda>_. Inr q'))))))"

definition getSackedBit :: "rexmit_queue \<Rightarrow> u32 \<Rightarrow> bool res" where
  "getSackedBit q seqNum =
     bindR (assertR (seqLE (rq_begin q) seqNum \<and> seqLE seqNum (rq_end q)) ''getSackedBit'') (\<lambda>_.
     if rq_end q = seqNum then Inr False
     else (case fromSeq seqNum (rexmitQueue q) of
             [] \<Rightarrow> Inl (AssertFailure ''getSackedBit'')
           | i # is \<Rightarrow> bindR (assertR (covers i seqNum) ''getSackedBit'') (\<lambda>_. Inr (sacked i))))"

text \<open>The two reverse scans return the end of the last region that carries the mark.\<close>

fun lastEndWith :: "(region \<Rightarrow> bool) \<Rightarrow> region list \<Rightarrow> u32 \<Rightarrow> u32" where
  "lastEndWith P [] d = d"
| "lastEndWith P (r # revrs) d = (if P r then endSeqNum r else lastEndWith P revrs d)"

definition getHighestSackedSeqNum :: "rexmit_queue \<Rightarrow> u32" where
  "getHighestSackedSeqNum q = lastEndWith sacked (rev (rexmitQueue q)) (rq_begin q)"

definition getHighestRexmittedSeqNum :: "rexmit_queue \<Rightarrow> u32" where
  "getHighestRexmittedSeqNum q = lastEndWith rexmitted (rev (rexmitQueue q)) (rq_begin q)"

fun sumMarked :: "region list \<Rightarrow> u32 \<Rightarrow> u32 \<Rightarrow> u32 res" where
  "sumMarked [] fromSeqNum bytes = Inr bytes"
| "sumMarked (i # is) fromSeqNum bytes =
     (if sacked i \<or> rexmitted i
      then bindR (assertR (covers i fromSeqNum) ''checkRexmitQueueForSackedOrRexmittedSegments'') (\<lambda>_.
             sumMarked is (endSeqNum i) (bytes + (endSeqNum i - fromSeqNum)))
      else Inr bytes)"

definition checkRexmitQueueForSackedOrRexmittedSegments :: "rexmit_queue \<Rightarrow> u32 \<Rightarrow> u32 res" where
  "checkRexmitQueueForSackedOrRexmittedSegments q fromSeqNum =
     bindR (assertR (seqLE (rq_begin q) fromSeqNum \<and> seqLE fromSeqNum (rq_end q))
              ''checkRexmitQueueForSackedOrRexmittedSegments'') (\<lambda>_.
     if rexmitQueue q = [] \<or> rq_end q = fromSeqNum then Inr 0
     else sumMarked (fromSeq fromSeqNum (rexmitQueue q)) fromSeqNum 0)"

definition resetSackedBit :: "rexmit_queue \<Rightarrow> rexmit_queue" where
  "resetSackedBit q = q\<lparr>rexmitQueue := map (\<lambda>r. r\<lparr>sacked := False\<rparr>) (rexmitQueue q)\<rparr>"

definition resetRexmittedBit :: "rexmit_queue \<Rightarrow> rexmit_queue" where
  "resetRexmittedBit q = q\<lparr>rexmitQueue := map (\<lambda>r. r\<lparr>rexmitted := False\<rparr>) (rexmitQueue q)\<rparr>"

definition getTotalAmountOfSackedBytes :: "rexmit_queue \<Rightarrow> u32" where
  "getTotalAmountOfSackedBytes q =
     fold (\<lambda>r bytes. if sacked r then bytes + (endSeqNum r - beginSeqNum r) else bytes) (rexmitQueue q) 0"

text \<open>The reverse scan of \<open>getAmountOfSackedBytes\<close>, with the part still to be visited reversed.\<close>

fun sackedFrom :: "region list \<Rightarrow> u32 \<Rightarrow> u32 \<Rightarrow> u32" where
  "sackedFrom [] fromSeqNum bytes = bytes"
| "sackedFrom (i # revis) fromSeqNum bytes =
     (if seqLE fromSeqNum (beginSeqNum i)
      then sackedFrom revis fromSeqNum (if sacked i then bytes + (endSeqNum i - beginSeqNum i) else bytes)
      else if seqLess (beginSeqNum i) fromSeqNum \<and> seqLess fromSeqNum (endSeqNum i) \<and> sacked i
      then bytes + (endSeqNum i - fromSeqNum)
      else bytes)"

definition getAmountOfSackedBytes :: "rexmit_queue \<Rightarrow> u32 \<Rightarrow> u32 res" where
  "getAmountOfSackedBytes q fromSeqNum =
     bindR (assertR (seqLE (rq_begin q) fromSeqNum \<and> seqLE fromSeqNum (rq_end q)) ''getAmountOfSackedBytes'') (\<lambda>_.
     Inr (sackedFrom (rev (rexmitQueue q)) fromSeqNum 0))"

fun countSackRuns :: "region list \<Rightarrow> bool \<Rightarrow> u32 \<Rightarrow> u32" where
  "countSackRuns [] prevSacked counter = counter"
| "countSackRuns (i # is) prevSacked counter =
     countSackRuns is (sacked i) (if sacked i \<and> \<not> prevSacked then counter + 1 else counter)"

definition getNumOfDiscontiguousSacks :: "rexmit_queue \<Rightarrow> u32 \<Rightarrow> u32 res" where
  "getNumOfDiscontiguousSacks q fromSeqNum =
     bindR (assertR (seqLE (rq_begin q) fromSeqNum \<and> seqLE fromSeqNum (rq_end q)) ''getNumOfDiscontiguousSacks'') (\<lambda>_.
     if rexmitQueue q = [] \<or> fromSeqNum = rq_end q then Inr 0
     else Inr (countSackRuns (fromSeq fromSeqNum (rexmitQueue q)) False 0))"

text \<open>\<open>checkSackBlock\<close> returns its three reference arguments \<open>length\<close>, \<open>sacked\<close>, \<open>rexmitted\<close>.\<close>

definition checkSackBlock :: "rexmit_queue \<Rightarrow> u32 \<Rightarrow> (u32 \<times> bool \<times> bool) res" where
  "checkSackBlock q fromSeqNum =
     bindR (assertR (seqLE (rq_begin q) fromSeqNum \<and> seqLess fromSeqNum (rq_end q)) ''checkSackBlock'') (\<lambda>_.
     case fromSeq fromSeqNum (rexmitQueue q) of
       [] \<Rightarrow> Inl (AssertFailure ''checkSackBlock'')
     | i # is \<Rightarrow> bindR (assertR (covers i fromSeqNum) ''checkSackBlock'') (\<lambda>_.
         Inr (endSeqNum i - fromSeqNum, sacked i, rexmitted i)))"

section \<open>Abstract view and invariant\<close>

definition rlen :: "region \<Rightarrow> nat" where
  "rlen r = off (beginSeqNum r) (endSeqNum r)"

definition qlen :: "region list \<Rightarrow> nat" where
  "qlen rs = sum_list (map rlen rs)"

definition inRegion :: "region \<Rightarrow> u32 \<Rightarrow> bool" where
  "inRegion r x \<longleftrightarrow> off (beginSeqNum r) x < rlen r"

fun byteMarks :: "region list \<Rightarrow> u32 \<Rightarrow> (bool \<times> bool) option" where
  "byteMarks [] x = None"
| "byteMarks (r # rs) x = (if inRegion r x then Some (sacked r, rexmitted r) else byteMarks rs x)"

definition rq_inv :: "rexmit_queue \<Rightarrow> bool" where
  "rq_inv q \<longleftrightarrow> checkQueue q \<and> qlen (rexmitQueue q) < 2 ^ 31"

lemma qlen_simps [simp]:
  "qlen [] = 0" "qlen (r # rs) = rlen r + qlen rs" "qlen (rs @ rs') = qlen rs + qlen rs'"
  by (simp_all add: qlen_def)

lemma byteMarks_append:
  "byteMarks (rs @ rs') x = (case byteMarks rs x of None \<Rightarrow> byteMarks rs' x | Some m \<Rightarrow> Some m)"
  by (induction rs) auto

lemma checkRegions_append:
  "checkRegions b (rs @ rs') e \<longleftrightarrow> (\<exists>m. checkRegions b rs m \<and> checkRegions m rs' e)"
  by (induction rs arbitrary: b) auto

lemma checkRegions_len_pos: "checkRegions b rs e \<Longrightarrow> r \<in> set rs \<Longrightarrow> 0 < rlen r \<and> rlen r < 2 ^ 31"
  by (induction rs arbitrary: b) (auto simp: seqLess_off rlen_def)

lemma off_end:
  "off b (beginSeqNum r) + rlen r < 2 ^ 32 \<Longrightarrow> off b (endSeqNum r) = off b (beginSeqNum r) + rlen r"
  unfolding rlen_def by (rule off_split)

text \<open>The end of a well-formed list of regions lies \<open>qlen\<close> numbers after its beginning.\<close>

lemma checkRegions_off:
  assumes "checkRegions m rs e" "off b m + qlen rs < 2 ^ 32"
  shows "off b e = off b m + qlen rs"
  using assms
proof (induction rs arbitrary: m)
  case (Cons r rs)
  from Cons.prems have m: "m = beginSeqNum r" and c: "checkRegions (endSeqNum r) rs e" by auto
  have "off b (endSeqNum r) = off b m + rlen r"
    using Cons.prems(2) off_end [of b r] by (simp add: m)
  with Cons.IH [OF c] Cons.prems(2) show ?case by simp
qed simp

lemma inRegion_win:
  assumes "off b (beginSeqNum r) + rlen r < 2 ^ 32"
  shows "inRegion r x \<longleftrightarrow> off b (beginSeqNum r) \<le> off b x \<and> off b x < off b (beginSeqNum r) + rlen r"
proof
  assume "inRegion r x"
  then have lt: "off (beginSeqNum r) x < rlen r" by (simp add: inRegion_def)
  then have "off b x = off b (beginSeqNum r) + off (beginSeqNum r) x"
    using assms by (intro off_split) simp
  with lt show "off b (beginSeqNum r) \<le> off b x \<and> off b x < off b (beginSeqNum r) + rlen r" by simp
next
  assume h: "off b (beginSeqNum r) \<le> off b x \<and> off b x < off b (beginSeqNum r) + rlen r"
  then have "off b x = off b (beginSeqNum r) + off (beginSeqNum r) x" by (intro off_trans) simp
  with h show "inRegion r x" by (simp add: inRegion_def)
qed

lemma byteMarks_None_iff:
  assumes "checkRegions m rs e" "off b m + qlen rs < 2 ^ 32"
  shows "byteMarks rs x = None \<longleftrightarrow> off b x < off b m \<or> off b m + qlen rs \<le> off b x"
  using assms
proof (induction rs arbitrary: m)
  case (Cons r rs)
  from Cons.prems have m: "m = beginSeqNum r" and c: "checkRegions (endSeqNum r) rs e" by auto
  have e: "off b (endSeqNum r) = off b m + rlen r"
    using Cons.prems(2) off_end [of b r] by (simp add: m)
  have "inRegion r x \<longleftrightarrow> off b m \<le> off b x \<and> off b x < off b m + rlen r"
    using inRegion_win [of b r x] Cons.prems(2) m by simp
  with Cons.IH [OF c] e Cons.prems(2) show ?case by auto
qed auto

text \<open>Cutting a region in two changes no byte's marks.\<close>

lemma inRegion_cut:
  assumes "off (beginSeqNum r) s \<le> rlen r" "rlen r < 2 ^ 32"
  shows "inRegion r x \<longleftrightarrow> inRegion (r\<lparr>endSeqNum := s\<rparr>) x \<or> inRegion (r\<lparr>beginSeqNum := s\<rparr>) x"
    and "rlen (r\<lparr>endSeqNum := s\<rparr>) + rlen (r\<lparr>beginSeqNum := s\<rparr>) = rlen r"
proof -
  let ?b = "beginSeqNum r"
  have s: "off ?b (endSeqNum r) = off ?b s + off s (endSeqNum r)"
    using assms unfolding rlen_def by (intro off_trans) simp
  then show "rlen (r\<lparr>endSeqNum := s\<rparr>) + rlen (r\<lparr>beginSeqNum := s\<rparr>) = rlen r"
    by (simp add: rlen_def)
  have "inRegion (r\<lparr>beginSeqNum := s\<rparr>) x \<longleftrightarrow> off ?b s \<le> off ?b x \<and> off ?b x < rlen r"
    using inRegion_win [of ?b "r\<lparr>beginSeqNum := s\<rparr>" x] s assms by (simp add: rlen_def)
  then show "inRegion r x \<longleftrightarrow> inRegion (r\<lparr>endSeqNum := s\<rparr>) x \<or> inRegion (r\<lparr>beginSeqNum := s\<rparr>) x"
    using assms by (auto simp: inRegion_def rlen_def)
qed

subsection \<open>The iterator positions\<close>

lemma before_from: "beforeSeq s rs @ fromSeq s rs = rs"
  by (simp add: beforeSeq_def fromSeq_def)

text \<open>
  Scanning a well-formed list for \<open>s\<close>: the skipped part ends at or below \<open>s\<close>, and the region
  the scan stops at ends above it.
\<close>

lemma scan_step:
  assumes "checkRegions m (r # rs) e" "off b m + qlen (r # rs) < 2 ^ 31" "inwin b s"
  shows "off b (endSeqNum r) = off b m + rlen r"
    and "seqLE (endSeqNum r) s \<longleftrightarrow> off b m + rlen r \<le> off b s"
proof -
  from assms have m: "m = beginSeqNum r" by simp
  show e: "off b (endSeqNum r) = off b m + rlen r"
    using assms(2) off_end [of b r] by (simp add: m)
  then have "inwin b (endSeqNum r)" using assms(2) by (simp add: inwin_def)
  with assms(3) e show "seqLE (endSeqNum r) s \<longleftrightarrow> off b m + rlen r \<le> off b s"
    by (simp add: seqLE_win)
qed

lemma scan_skipped:
  assumes "checkRegions m rs e" "off b m + qlen rs < 2 ^ 31" "off b m \<le> off b s" "inwin b s"
  shows "off b m + qlen (beforeSeq s rs) \<le> off b s"
  using assms
proof (induction rs arbitrary: m)
  case (Cons r rs)
  note st = scan_step [OF Cons.prems(1,2,4)]
  show ?case
    using Cons.IH [of "endSeqNum r"] Cons.prems st by (auto simp: beforeSeq_def)
qed (simp add: beforeSeq_def)

lemma scan_stopped:
  assumes "checkRegions m rs e" "off b m + qlen rs < 2 ^ 31" "off b m \<le> off b s" "inwin b s"
    and "fromSeq s rs \<noteq> []"
  shows "off b s < off b m + qlen (beforeSeq s rs) + rlen (hd (fromSeq s rs))"
  using assms
proof (induction rs arbitrary: m)
  case (Cons r rs)
  note st = scan_step [OF Cons.prems(1,2,4)]
  show ?case
    using Cons.IH [of "endSeqNum r"] Cons.prems st by (auto simp: beforeSeq_def fromSeq_def)
qed (simp add: fromSeq_def)

lemma checkRegions_fromSeq:
  assumes "checkRegions m rs e"
  obtains k where "checkRegions m (beforeSeq s rs) k" "checkRegions k (fromSeq s rs) e"
proof -
  have "checkRegions m (beforeSeq s rs @ fromSeq s rs) e" using assms by (simp add: before_from)
  with that show thesis by (auto simp: checkRegions_append)
qed

text \<open>The scan finds the region that holds \<open>s\<close>: the assertions of the source hold.\<close>

lemma scan_covers:
  assumes "checkRegions m rs e" "off b m + qlen rs < 2 ^ 31" "off b m \<le> off b s"
    "off b s < off b m + qlen rs"
  obtains i "is" where "fromSeq s rs = i # is" "covers i s"
    "off b (beginSeqNum i) = off b m + qlen (beforeSeq s rs)"
    "off b (beginSeqNum i) \<le> off b s" "off b s < off b (beginSeqNum i) + rlen i"
    "checkRegions m (beforeSeq s rs) (beginSeqNum i)" "checkRegions (endSeqNum i) is e"
proof -
  have w: "inwin b s" using assms(2,4) by (simp add: inwin_def)
  have q: "qlen rs = qlen (beforeSeq s rs) + qlen (fromSeq s rs)"
    by (metis before_from qlen_simps(3))
  obtain k where k: "checkRegions m (beforeSeq s rs) k" "checkRegions k (fromSeq s rs) e"
    using checkRegions_fromSeq [OF assms(1)] .
  have "fromSeq s rs \<noteq> []"
    using scan_skipped [OF assms(1-3) w] q assms(4) by auto
  then obtain i "is" where i: "fromSeq s rs = i # is" by (cases "fromSeq s rs") auto
  have bi: "off b (beginSeqNum i) = off b m + qlen (beforeSeq s rs)"
    using checkRegions_off [OF k(1), of b] k(2) i q assms(2) by auto
  have lt: "off b s < off b (beginSeqNum i) + rlen i"
    using scan_stopped [OF assms(1-3) w] i bi by simp
  have le: "off b (beginSeqNum i) \<le> off b s" using scan_skipped [OF assms(1-3) w] bi by simp
  have "inwin b (beginSeqNum i)" "inwin b (endSeqNum i)" "off b (endSeqNum i) = off b (beginSeqNum i) + rlen i"
    using bi q i assms(2) off_end [of b i] by (auto simp: inwin_def)
  then have "covers i s" using w le lt by (simp add: covers_def seqLE_win [of b] seqLess_win [of b])
  with i bi le lt k show thesis by (intro that) auto
qed

lemma chunkAt_spec:
  assumes "checkRegions m rs e" "off b m + qlen rs < 2 ^ 31" "off b m \<le> off b s"
    "off b s < off b m + qlen rs"
  obtains pre rest where "chunkAt s rs = (pre, rest)" "rest \<noteq> []" "checkRegions m pre s"
    "checkRegions s rest e" "qlen pre + qlen rest = qlen rs" "off b s = off b m + qlen pre"
    "\<And>x. byteMarks (pre @ rest) x = byteMarks rs x"
proof -
  obtain i "is" where i: "fromSeq s rs = i # is" "covers i s"
      "off b (beginSeqNum i) = off b m + qlen (beforeSeq s rs)"
      "off b (beginSeqNum i) \<le> off b s" "off b s < off b (beginSeqNum i) + rlen i"
      "checkRegions m (beforeSeq s rs) (beginSeqNum i)" "checkRegions (endSeqNum i) is e"
    using scan_covers [OF assms] .
  have rs: "rs = beforeSeq s rs @ i # is" using i(1) before_from [of s rs] by simp
  have q: "qlen rs = qlen (beforeSeq s rs) + rlen i + qlen is" by (subst rs) simp
  have s: "off b s = off b (beginSeqNum i) + off (beginSeqNum i) s" using i(4) by (rule off_trans)
  show thesis
  proof (cases "beginSeqNum i = s")
    case True
    then show ?thesis
      using i q rs seqLess_iff by (intro that [of "beforeSeq s rs" "i # is"])
        (auto simp: chunkAt_def covers_def)
  next
    case False
    let ?pre = "beforeSeq s rs @ [i\<lparr>endSeqNum := s\<rparr>]" and ?rest = "i\<lparr>beginSeqNum := s\<rparr> # is"
    have cut: "off (beginSeqNum i) s \<le> rlen i" "rlen i < 2 ^ 32" using s i(5) q assms(2) by auto
    have lt: "seqLess (beginSeqNum i) s" "seqLess s (endSeqNum i)"
      using False i(2) by (auto simp: covers_def seqLess_iff)
    have "byteMarks (?pre @ ?rest) x = byteMarks rs x" for x
      by (subst (2) rs) (auto simp: byteMarks_append inRegion_cut(1) [OF cut, of x] split: option.splits)
    then show ?thesis
      using i False q lt s inRegion_cut(2) [OF cut]
      by (intro that [of ?pre ?rest])
        (auto simp: chunkAt_def checkRegions_append rlen_def)
  qed
qed

definition inRange :: "u32 \<Rightarrow> u32 \<Rightarrow> u32 \<Rightarrow> bool" where
  "inRange fs ts x \<longleftrightarrow> off fs x < off fs ts"

lemma inRange_win:
  assumes "off b fs \<le> off b ts"
  shows "inRange fs ts x \<longleftrightarrow> off b fs \<le> off b x \<and> off b x < off b ts"
proof -
  have "off b ts = off b fs + off fs ts" using assms by (rule off_trans)
  then show ?thesis
    using inRegion_win [of b "\<lparr>beginSeqNum = fs, endSeqNum = ts, sacked = False, rexmitted = False\<rparr>" x]
      off_lt [of b ts]
    by (simp add: inRange_def inRegion_def rlen_def)
qed

lemma scan_all:
  assumes "checkRegions m rs e" "off b m + qlen rs < 2 ^ 31" "off b m + qlen rs \<le> off b s" "inwin b s"
  shows "beforeSeq s rs = rs" "fromSeq s rs = []"
proof -
  have "\<forall>r\<in>set rs. seqLE (endSeqNum r) s"
    using assms
  proof (induction rs arbitrary: m)
    case (Cons r rs)
    note st = scan_step [OF Cons.prems(1,2,4)]
    with Cons show ?case by auto
  qed simp
  then show "beforeSeq s rs = rs" "fromSeq s rs = []" by (auto simp: beforeSeq_def fromSeq_def)
qed

lemma chunkAt_le:
  assumes "checkRegions m rs e" "off b m + qlen rs < 2 ^ 31" "off b m \<le> off b s"
    "off b s \<le> off b m + qlen rs"
  obtains pre rest where "chunkAt s rs = (pre, rest)" "checkRegions m pre s"
    "checkRegions s rest e" "qlen pre + qlen rest = qlen rs" "off b s = off b m + qlen pre"
    "\<And>x. byteMarks (pre @ rest) x = byteMarks rs x"
proof (cases "off b s = off b m + qlen rs")
  case True
  have w: "inwin b s" using assms(2) True by (simp add: inwin_def)
  have "off b e = off b m + qlen rs" using checkRegions_off [OF assms(1)] assms(2) by simp
  with True have "s = e" by (simp add: off_inj [of b, symmetric])
  with scan_all [OF assms(1,2) _ w] assms(1) True show thesis
    by (intro that [of rs "[]"]) (auto simp: chunkAt_def)
next
  case False
  with assms have "off b s < off b m + qlen rs" by simp
  from chunkAt_spec [OF assms(1-3) this] that show thesis by metis
qed

lemma byteMarks_map:
  assumes "\<And>r. beginSeqNum (f r) = beginSeqNum r" "\<And>r. endSeqNum (f r) = endSeqNum r"
    "\<And>r. (sacked (f r), rexmitted (f r)) = g (sacked r, rexmitted r)"
  shows "byteMarks (map f rs) x = map_option g (byteMarks rs x)"
    and "checkRegions m (map f rs) e = checkRegions m rs e"
    and "qlen (map f rs) = qlen rs"
  using assms by (induction rs arbitrary: m) (auto simp: inRegion_def rlen_def)

text \<open>
  Marking the bytes \<open>fs .. ts\<close>: chunk at both ends and change the marks of the regions
  in between. Both mutating operations of the scoreboard do this.
\<close>

definition markRange :: "(region \<Rightarrow> region) \<Rightarrow> u32 \<Rightarrow> u32 \<Rightarrow> region list \<Rightarrow> region list" where
  "markRange f fs ts rs =
     (let (pre, rest) = chunkAt fs rs; (mid, post) = chunkAt ts rest in pre @ map f mid @ post)"

lemma markRange_spec:
  assumes c: "checkRegions b rs e" and len: "qlen rs < 2 ^ 31"
    and ft: "off b fs \<le> off b ts" "off b ts \<le> qlen rs"
    and f: "\<And>r. beginSeqNum (f r) = beginSeqNum r" "\<And>r. endSeqNum (f r) = endSeqNum r"
      "\<And>r. (sacked (f r), rexmitted (f r)) = g (sacked r, rexmitted r)"
  shows "checkRegions b (markRange f fs ts rs) e"
    and "qlen (markRange f fs ts rs) = qlen rs"
    and "byteMarks (markRange f fs ts rs) x =
           map_option (if inRange fs ts x then g else id) (byteMarks rs x)"
proof -
  have len0: "off b b + qlen rs < 2 ^ 31" using len by simp
  obtain pre rest where 1: "chunkAt fs rs = (pre, rest)" "checkRegions b pre fs"
      "checkRegions fs rest e" "qlen pre + qlen rest = qlen rs" "off b fs = qlen pre"
      "\<And>x. byteMarks (pre @ rest) x = byteMarks rs x"
    using chunkAt_le [OF c len0, of fs] ft by auto
  have len1: "off b fs + qlen rest < 2 ^ 31" using len 1(4,5) by simp
  obtain mid post where 2: "chunkAt ts rest = (mid, post)" "checkRegions fs mid ts"
      "checkRegions ts post e" "qlen mid + qlen post = qlen rest" "off b ts = off b fs + qlen mid"
      "\<And>x. byteMarks (mid @ post) x = byteMarks rest x"
    using chunkAt_le [OF 1(3) len1, of ts] ft 1 by auto
  have eq: "markRange f fs ts rs = pre @ map f mid @ post"
    by (simp add: markRange_def 1 2)
  show "checkRegions b (markRange f fs ts rs) e"
    using 1 2 byteMarks_map(2) [of f, OF f] by (auto simp: eq checkRegions_append)
  show "qlen (markRange f fs ts rs) = qlen rs"
    using 1 2 byteMarks_map(3) [of f, OF f] by (simp add: eq)
  have pre: "byteMarks pre x = None \<longleftrightarrow> qlen pre \<le> off b x"
    using byteMarks_None_iff [OF 1(2), of b x] len 1 by simp
  have mid: "byteMarks mid x = None \<longleftrightarrow> off b x < off b fs \<or> off b ts \<le> off b x"
    using byteMarks_None_iff [OF 2(2), of b x] len 1 2 by simp
  have rs: "byteMarks rs x = (case byteMarks pre x of Some k \<Rightarrow> Some k | None \<Rightarrow>
      (case byteMarks mid x of Some k \<Rightarrow> Some k | None \<Rightarrow> byteMarks post x))"
    by (simp add: 1(6) [symmetric] 2(6) [symmetric] byteMarks_append split: option.splits)
  have mk: "byteMarks (markRange f fs ts rs) x = (case byteMarks pre x of Some k \<Rightarrow> Some k | None \<Rightarrow>
      (case map_option g (byteMarks mid x) of Some k \<Rightarrow> Some k | None \<Rightarrow> byteMarks post x))"
    by (simp add: eq byteMarks_append byteMarks_map(1) [of f, OF f] split: option.splits)
  have r: "inRange fs ts x \<longleftrightarrow> off b fs \<le> off b x \<and> off b x < off b ts"
    by (rule inRange_win [OF ft(1)])
  show "byteMarks (markRange f fs ts rs) x =
      map_option (if inRange fs ts x then g else id) (byteMarks rs x)"
    using pre mid 1(5) by (auto simp: rs mk r option.map_id split: option.splits)
qed

lemma sackRegions_eq:
  assumes c: "checkRegions b rs e" and len: "qlen rs < 2 ^ 31"
    and ft: "off b fs < off b ts" "off b ts \<le> qlen rs"
  shows "sackRegions rs fs ts = Inr (markRange (\<lambda>r. r\<lparr>sacked := True\<rparr>) fs ts rs)"
proof -
  have len0: "off b b + qlen rs < 2 ^ 31" using len by simp
  have fl: "off b fs < off b b + qlen rs" using ft by simp
  obtain pre rest where 1: "chunkAt fs rs = (pre, rest)" "checkRegions b pre fs"
      "checkRegions fs rest e" "qlen pre + qlen rest = qlen rs" "off b fs = qlen pre"
      "\<And>x. byteMarks (pre @ rest) x = byteMarks rs x"
    using chunkAt_le [OF c len0, of fs] fl by auto
  obtain i "is" where i: "fromSeq fs rs = i # is" "covers i fs"
    using scan_covers [OF c len0 _ fl] by (metis off_refl zero_le)
  have len1: "off b fs + qlen rest < 2 ^ 31" using len 1(4,5) by simp
  have ge: "\<forall>r\<in>set (beforeSeq ts rest). seqGE (beginSeqNum r) fs"
  proof
    fix r assume "r \<in> set (beforeSeq ts rest)"
    then have "r \<in> set rest" by (auto simp: beforeSeq_def dest: set_takeWhileD)
    then obtain xs ys where s: "rest = xs @ r # ys" by (meson split_list)
    with 1(3) have "checkRegions fs xs (beginSeqNum r)" by (auto simp: checkRegions_append)
    from checkRegions_off [OF this, of b] len1 s
    have o: "off b (beginSeqNum r) = off b fs + qlen xs" by simp
    then show "seqGE (beginSeqNum r) fs"
      using len1 s by (subst seqGE_win [of b]) (auto simp: inwin_def)
  qed
  then have mid: "map (\<lambda>r. if seqGE (beginSeqNum r) fs then r\<lparr>sacked := True\<rparr> else r)
      (beforeSeq ts rest) = map (\<lambda>r. r\<lparr>sacked := True\<rparr>) (beforeSeq ts rest)" by simp
  show ?thesis
  proof (cases "fromSeq ts rest")
    case Nil
    then show ?thesis using i 1(1) mid by (simp add: sackRegions_def markRange_def chunkAt_def)
  next
    case (Cons j js)
    have w: "inwin b ts" using ft len by (simp add: inwin_def)
    have "off b ts < off b fs + qlen rest"
      using scan_all(2) [OF 1(3) len1 _ w] Cons by force
    then obtain j' js' where "fromSeq ts rest = j' # js'" "covers j' ts"
      using scan_covers [OF 1(3) len1, of ts] ft(1) by (metis less_imp_le)
    with Cons have "covers j ts" by simp
    with Cons i 1(1) mid show ?thesis
      by (auto simp: sackRegions_def markRange_def chunkAt_def covers_def seqLess_iff)
  qed
qed

definition sackStart :: "u32 \<Rightarrow> u32 \<Rightarrow> u32" where
  "sackStart lo fs = (if seqLess fs lo then lo else fs)"

lemma setSackedBit_spec:
  assumes inv: "rq_inv q" and fs: "fs = sackStart (rq_begin q) fs0"
    and pre: "seqLess fs (rq_end q)" "seqLE (rq_begin q) fs" "seqLess fs ts" "seqLE ts (rq_end q)"
      "seqLess (rq_begin q) ts"
  shows "\<exists>q'. setSackedBit q fs0 ts = Inr q' \<and> rq_inv q' \<and>
    rq_begin q' = rq_begin q \<and> rq_end q' = rq_end q \<and>
    (\<forall>x. byteMarks (rexmitQueue q') x =
       map_option (\<lambda>(s, r). (s \<or> inRange fs ts x, r)) (byteMarks (rexmitQueue q) x))"
proof -
  let ?b = "rq_begin q" and ?rs = "rexmitQueue q"
  have c: "checkRegions ?b ?rs (rq_end q)" and len: "qlen ?rs < 2 ^ 31"
    using inv by (auto simp: rq_inv_def checkQueue_def)
  have e: "off ?b (rq_end q) = qlen ?rs" using checkRegions_off [OF c, of ?b] len by simp
  have w: "inwin ?b fs" "inwin ?b ts" "inwin ?b (rq_end q)"
    using pre e len by (auto simp: inwin_seqLE seqLess_iff) (simp add: seqLE_off)
  have ft: "off ?b fs < off ?b ts" "off ?b ts \<le> qlen ?rs"
    using pre w e by (auto simp: seqLE_win [of ?b] seqLess_win [of ?b])
  let ?f = "\<lambda>r::region. r\<lparr>sacked := True\<rparr>"
  let ?rs' = "markRange ?f fs ts ?rs"
  note sp = markRange_spec [OF c len less_imp_le [OF ft(1)] ft(2), of ?f "\<lambda>(s, r). (True, r)"]
  have ne: "?rs \<noteq> []" using ft by auto
  let ?q' = "q\<lparr>rexmitQueue := ?rs'\<rparr>"
  have "setSackedBit q fs0 ts = Inr ?q'"
    using pre ne sackRegions_eq [OF c len ft] sp(1)
    unfolding setSackedBit_def sackStart_def [symmetric] fs [symmetric]
    by (simp add: checkQueue_def)
  moreover have "rq_inv ?q'" using sp(1,2) len by (simp add: rq_inv_def checkQueue_def)
  moreover have "byteMarks ?rs' x =
       map_option (\<lambda>(s, r). (s \<or> inRange fs ts x, r)) (byteMarks ?rs x)" for x
    using sp(3) [of x] by (cases "byteMarks ?rs x") auto
  ultimately show ?thesis by auto
qed

text \<open>
  The rest of the sent data beyond the queue's end is appended as one unmarked region.
\<close>

definition freshRegion :: "u32 \<Rightarrow> u32 \<Rightarrow> region" where
  "freshRegion fs ts = \<lparr>beginSeqNum = fs, endSeqNum = ts, sacked = False, rexmitted = False\<rparr>"

lemma checkRegions_last:
  "checkRegions m rs e \<Longrightarrow> rs \<noteq> [] \<Longrightarrow> endSeqNum (last rs) = e"
  by (induction rs arbitrary: m) auto

lemma checkRegions_hd:
  "checkRegions m rs e \<Longrightarrow> rs \<noteq> [] \<Longrightarrow> beginSeqNum (hd rs) = m"
  by (cases rs) auto

lemma enqueueRexmit_eq:
  assumes c: "checkRegions b rs e" and len: "qlen rs < 2 ^ 31"
    and ft: "off b fs < off b ts" "off b fs < qlen rs" "inwin b ts"
  shows "enqueueRexmit rs fs ts =
     Inr (if off b ts \<le> qlen rs then markRange (\<lambda>r. r\<lparr>rexmitted := True\<rparr>) fs ts rs
          else markRange (\<lambda>r. r\<lparr>rexmitted := True\<rparr>) fs e rs @ [freshRegion e ts])"
proof -
  let ?f = "\<lambda>r::region. r\<lparr>rexmitted := True\<rparr>"
  have len0: "off b b + qlen rs < 2 ^ 31" using len by simp
  have e: "off b e = qlen rs" using checkRegions_off [OF c, of b] len by simp
  have fl: "off b fs < off b b + qlen rs" using ft by simp
  obtain pre rest where 1: "chunkAt fs rs = (pre, rest)" "checkRegions b pre fs"
      "checkRegions fs rest e" "qlen pre + qlen rest = qlen rs" "off b fs = qlen pre"
      "\<And>x. byteMarks (pre @ rest) x = byteMarks rs x"
    using chunkAt_le [OF c len0, of fs] fl by auto
  obtain i "is" where i: "fromSeq fs rs = i # is" "covers i fs"
    using scan_covers [OF c len0 _ fl] by (metis off_refl zero_le)
  have len1: "off b fs + qlen rest < 2 ^ 31" using len 1(4,5) by simp
  have rne: "rest \<noteq> []" using ft 1 by auto
  show ?thesis
  proof (cases "fromSeq ts rest")
    case Nil
    then have bs: "beforeSeq ts rest = rest" using before_from [of ts rest] by simp
    have we: "inwin b e" using e len by (simp add: inwin_def)
    have "fromSeq e rest = []" "beforeSeq e rest = rest"
      using scan_all [OF 1(3) len1 _ we] e 1 by auto
    moreover have "off b ts \<le> qlen rs \<Longrightarrow> ts = e"
    proof -
      assume "off b ts \<le> qlen rs"
      moreover have "\<not> off b ts < off b fs + qlen rest"
        using scan_covers [OF 1(3) len1, of ts] Nil ft(1) by (metis less_imp_le list.distinct(1))
      ultimately have "off b ts = off b e" using e 1 by simp
      then show "ts = e" by (simp add: off_inj)
    qed
    moreover have "ts = e \<Longrightarrow> off b ts \<le> qlen rs" using e by simp
    moreover have "endSeqNum (last (map ?f rest)) = e"
      using checkRegions_last [OF 1(3) rne] rne by (simp add: last_map)
    ultimately show ?thesis
      using Nil bs i 1(1) rne
      by (auto simp: enqueueRexmit_def markRange_def chunkAt_def freshRegion_def Let_def)
  next
    case (Cons j js)
    have "off b ts < off b fs + qlen rest"
      using scan_all(2) [OF 1(3) len1 _ ft(3)] Cons by force
    then obtain j' js' where j: "fromSeq ts rest = j' # js'" "covers j' ts"
        "checkRegions fs (beforeSeq ts rest) (beginSeqNum j')"
      using scan_covers [OF 1(3) len1, of ts] ft(1) by (metis less_imp_le)
    have le: "off b ts \<le> qlen rs" using \<open>off b ts < off b fs + qlen rest\<close> 1 by simp
    have f': "(if beforeSeq ts rest = [] then fs else endSeqNum (last (map ?f (beforeSeq ts rest))))
        = beginSeqNum j"
      using j Cons checkRegions_last [OF j(3)] by (auto simp: last_map)
    have rec: "\<lparr>beginSeqNum = beginSeqNum j, endSeqNum = ts, sacked = sacked j, rexmitted = True\<rparr>
        = ?f (j\<lparr>endSeqNum := ts\<rparr>)" by simp
    have bne: "beginSeqNum j = ts \<Longrightarrow> beforeSeq ts rest \<noteq> []"
      using j Cons ft(1) by auto
    show ?thesis
      using j Cons i 1(1) le f' bne
      by (auto simp: enqueueRexmit_def markRange_def chunkAt_def Let_def rec covers_def seqLess_iff)
  qed
qed

lemma append_fresh:
  assumes c: "checkRegions b rs e" and len: "qlen rs < off b ts" and w: "inwin b ts"
  shows "checkRegions b (rs @ [freshRegion e ts]) ts" "qlen (rs @ [freshRegion e ts]) = off b ts"
    and "byteMarks (rs @ [freshRegion e ts]) x =
      (case byteMarks rs x of Some k \<Rightarrow> Some k
       | None \<Rightarrow> if off b e \<le> off b x \<and> off b x < off b ts then Some (False, False) else None)"
proof -
  have e: "off b e = qlen rs"
    using checkRegions_off [OF c, of b] len w by (simp add: inwin_def)
  have t: "off b ts = off b e + off e ts" using len by (intro off_trans) (simp add: e)
  then have o: "0 < off e ts" "off e ts < 2 ^ 31" using e len w by (auto simp: inwin_def)
  show "checkRegions b (rs @ [freshRegion e ts]) ts"
    using c o by (auto simp: checkRegions_append freshRegion_def seqLess_off)
  show "qlen (rs @ [freshRegion e ts]) = off b ts"
    using t e by (simp add: freshRegion_def rlen_def)
  have "inRegion (freshRegion e ts) x \<longleftrightarrow> off b e \<le> off b x \<and> off b x < off b ts"
    using inRegion_win [of b "freshRegion e ts" x] t w by (simp add: inwin_def freshRegion_def rlen_def)
  then show "byteMarks (rs @ [freshRegion e ts]) x =
      (case byteMarks rs x of Some k \<Rightarrow> Some k
       | None \<Rightarrow> if off b e \<le> off b x \<and> off b x < off b ts then Some (False, False) else None)"
    by (auto simp: byteMarks_append freshRegion_def split: option.splits)
qed

text \<open>The list that \<open>enqueueSentData\<close> leaves: marks where data was sent again, a fresh region beyond.\<close>

definition sentRegions :: "u32 \<Rightarrow> region list \<Rightarrow> u32 \<Rightarrow> u32 \<Rightarrow> u32 \<Rightarrow> region list" where
  "sentRegions b rs e fs ts =
     (if off b ts \<le> off b e then markRange (\<lambda>r. r\<lparr>rexmitted := True\<rparr>) fs ts rs
      else (if fs = e then rs else markRange (\<lambda>r. r\<lparr>rexmitted := True\<rparr>) fs e rs) @ [freshRegion e ts])"

lemma sentRegions_spec:
  assumes c: "checkRegions b rs e" and len: "qlen rs < 2 ^ 31"
    and ft: "off b fs < off b ts" "off b fs \<le> qlen rs" and w: "inwin b ts"
  shows "checkRegions b (sentRegions b rs e fs ts) (if off b ts \<le> off b e then e else ts)"
    and "qlen (sentRegions b rs e fs ts) = max (off b e) (off b ts)"
    and "byteMarks (sentRegions b rs e fs ts) x =
       (case byteMarks rs x of
          Some (s, r) \<Rightarrow> Some (s, r \<or> inRange fs ts x)
        | None \<Rightarrow> if inRange fs ts x then Some (False, False) else None)"
proof -
  let ?f = "\<lambda>r::region. r\<lparr>rexmitted := True\<rparr>"
  have e: "off b e = qlen rs" using checkRegions_off [OF c, of b] len by simp
  have N: "byteMarks rs x = None \<longleftrightarrow> qlen rs \<le> off b x"
    using byteMarks_None_iff [OF c, of b x] len by simp
  have r: "inRange fs ts x \<longleftrightarrow> off b fs \<le> off b x \<and> off b x < off b ts"
    using ft by (intro inRange_win) simp
  have re: "inRange fs e x \<longleftrightarrow> off b fs \<le> off b x \<and> off b x < off b e"
    using ft e by (intro inRange_win) simp
  note m1 = markRange_spec [OF c len less_imp_le [OF ft(1)], of ?f "\<lambda>(s, r). (s, True)"]
  have m2: "checkRegions b (markRange ?f fs e rs) e" "qlen (markRange ?f fs e rs) = qlen rs"
    "\<And>x. byteMarks (markRange ?f fs e rs) x =
           map_option (if inRange fs e x then \<lambda>(s, r). (s, True) else id) (byteMarks rs x)"
    using markRange_spec [OF c len, of fs e ?f "\<lambda>(s, r). (s, True)"] ft e by auto
  show "checkRegions b (sentRegions b rs e fs ts) (if off b ts \<le> off b e then e else ts)"
    using m1(1) m2 append_fresh(1) [OF c _ w] append_fresh(1) [OF m2(1) _ w] e
    by (auto simp: sentRegions_def)
  show "qlen (sentRegions b rs e fs ts) = max (off b e) (off b ts)"
    using m1(2) m2 append_fresh(2) [OF c _ w] append_fresh(2) [OF m2(1) _ w] e
    by (auto simp: sentRegions_def)
  show "byteMarks (sentRegions b rs e fs ts) x =
       (case byteMarks rs x of
          Some (s, r) \<Rightarrow> Some (s, r \<or> inRange fs ts x)
        | None \<Rightarrow> if inRange fs ts x then Some (False, False) else None)"
  proof (cases "off b ts \<le> off b e")
    case True
    then show ?thesis using m1(3) [of x] e N r
      by (auto simp: sentRegions_def split: option.splits)
  next
    case False
    then show ?thesis
      using append_fresh(3) [OF c _ w, of x] append_fresh(3) [OF m2(1) _ w, of x] m2(2,3) e N r re ft
      by (auto simp: sentRegions_def split: option.splits)
  qed
qed

lemma sentRegions_ne: "checkRegions b (sentRegions b rs e fs ts) k \<Longrightarrow> off b fs < off b ts \<Longrightarrow>
    qlen (sentRegions b rs e fs ts) = max (off b e) (off b ts) \<Longrightarrow> sentRegions b rs e fs ts \<noteq> []"
  by auto

lemma enqueueSentData_spec:
  assumes inv: "rq_inv q"
    and pre: "seqLE (rq_begin q) fs" "seqLE fs (rq_end q)" "seqLess fs ts" "seqLE (rq_begin q) ts"
  shows "\<exists>q'. enqueueSentData q fs ts = Inr q' \<and> rq_inv q' \<and>
    rq_begin q' = rq_begin q \<and> rq_end q' = seqMax (rq_end q) ts \<and>
    (\<forall>x. byteMarks (rexmitQueue q') x =
       (case byteMarks (rexmitQueue q) x of
          Some (s, r) \<Rightarrow> Some (s, r \<or> inRange fs ts x)
        | None \<Rightarrow> if inRange fs ts x then Some (False, False) else None))"
proof -
  let ?b = "rq_begin q" and ?rs = "rexmitQueue q" and ?e = "rq_end q"
  have c: "checkRegions ?b ?rs ?e" and len: "qlen ?rs < 2 ^ 31"
    using inv by (auto simp: rq_inv_def checkQueue_def)
  have e: "off ?b ?e = qlen ?rs" using checkRegions_off [OF c, of ?b] len by simp
  have w: "inwin ?b fs" "inwin ?b ts" "inwin ?b ?e"
    using pre e len by (auto simp: inwin_seqLE) (simp add: seqLE_off)
  have ft: "off ?b fs < off ?b ts" "off ?b fs \<le> qlen ?rs"
    using pre w e by (auto simp: seqLE_win [of ?b] seqLess_win [of ?b])
  note sp = sentRegions_spec [OF c len ft w(2)]
  let ?rs' = "sentRegions ?b ?rs ?e fs ts"
  have ne: "?rs' \<noteq> []" using sentRegions_ne [OF sp(1) ft(1) sp(2)] .
  have upd: "(if ?rs = [] \<or> ?e = fs then Inr (?rs @ [freshRegion fs ts]) else enqueueRexmit ?rs fs ts) = Inr ?rs'"
  proof (cases "?e = fs")
    case True
    with ft e show ?thesis by (simp add: sentRegions_def)
  next
    case False
    then have lt: "off ?b fs < qlen ?rs" using ft e by (metis le_neq_implies_less off_inj)
    then have "?rs \<noteq> []" by auto
    then show ?thesis using enqueueRexmit_eq [OF c len ft(1) lt w(2)] False e by (auto simp: sentRegions_def)
  qed
  have h: "beginSeqNum (hd ?rs') = ?b" and l: "endSeqNum (last ?rs') = seqMax ?e ts"
    using checkRegions_hd [OF sp(1) ne] checkRegions_last [OF sp(1) ne] w
    by (auto simp: seqMax_win [of ?b] off_inj)
  have k: "checkRegions ?b ?rs' (seqMax ?e ts)" using sp(1) w by (simp add: seqMax_win [of ?b])
  then have "enqueueSentData q fs ts =
      Inr (q\<lparr>rexmitQueue := ?rs', rq_begin := ?b, rq_end := seqMax ?e ts\<rparr>)"
    unfolding enqueueSentData_def freshRegion_def [symmetric] upd
    using pre h l by (simp add: checkQueue_def)
  moreover have "qlen ?rs' < 2 ^ 31" using sp(2) e len w by (simp add: inwin_def)
  ultimately show ?thesis using k sp(3) by (simp add: rq_inv_def checkQueue_def)
qed

lemma rq_discardUpTo_spec:
  assumes inv: "rq_inv q" and pre: "seqLE (rq_begin q) s" "seqLE s (rq_end q)"
  shows "\<exists>q'. rq_discardUpTo q s = Inr q' \<and> rq_inv q' \<and> rq_begin q' = s \<and> rq_end q' = rq_end q \<and>
    (\<forall>x. byteMarks (rexmitQueue q') x =
       (if inRange (rq_begin q) s x then None else byteMarks (rexmitQueue q) x))"
proof -
  let ?b = "rq_begin q" and ?rs = "rexmitQueue q" and ?e = "rq_end q"
  have c: "checkRegions ?b ?rs ?e" and len: "off ?b ?b + qlen ?rs < 2 ^ 31"
    using inv by (auto simp: rq_inv_def checkQueue_def)
  have e: "off ?b ?e = qlen ?rs" using checkRegions_off [OF c, of ?b] len by simp
  have w: "inwin ?b s" "inwin ?b ?e"
    using pre e len by (auto simp: inwin_seqLE) (simp add: seqLE_off)
  have le: "off ?b s \<le> off ?b ?b + qlen ?rs" using pre(2) w e by (simp add: seqLE_win [of ?b])
  obtain p rest where 1: "chunkAt s ?rs = (p, rest)" "checkRegions ?b p s"
    "checkRegions s rest ?e" "qlen p + qlen rest = qlen ?rs" "off ?b s = off ?b ?b + qlen p"
    "\<And>x. byteMarks (p @ rest) x = byteMarks ?rs x"
    using chunkAt_le [OF c len _ le] by (metis off_refl zero_le)
  have cov: "fromSeq s ?rs = i # is \<Longrightarrow> covers i s" for i "is"
  proof (cases "off ?b s = qlen ?rs")
    case True
    then show "fromSeq s ?rs = i # is \<Longrightarrow> covers i s" using scan_all(2) [OF c len _ w(1)] by simp
  next
    case False
    with le have "off ?b s < off ?b ?b + qlen ?rs" by simp
    then show "fromSeq s ?rs = i # is \<Longrightarrow> covers i s"
      using scan_covers [OF c len _ ] by (metis list.inject off_refl zero_le)
  qed
  have "rest = (case fromSeq s ?rs of [] \<Rightarrow> [] | i # is \<Rightarrow> i\<lparr>beginSeqNum := s\<rparr> # is)"
    using 1(1) by (auto simp: chunkAt_def split: list.splits if_splits)
  then have "rq_discardUpTo q s = Inr (q\<lparr>rq_begin := s, rexmitQueue := rest\<rparr>)"
    using pre cov 1(3) by (cases "fromSeq s ?rs") (auto simp: rq_discardUpTo_def checkQueue_def Let_def)
  moreover have "byteMarks rest x = (if inRange ?b s x then None else byteMarks ?rs x)" for x
  proof -
    have "byteMarks p x = None \<longleftrightarrow> \<not> inRange ?b s x"
      using byteMarks_None_iff [OF 1(2), of ?b x] len 1(4,5) by (auto simp: inRange_def)
    moreover have "inRange ?b s x \<Longrightarrow> byteMarks rest x = None"
      using byteMarks_None_iff [OF 1(3), of ?b x] len 1(4,5) by (auto simp: inRange_def)
    ultimately show ?thesis
      using 1(6) [of x] by (cases "byteMarks p x") (auto simp: byteMarks_append)
  qed
  ultimately show ?thesis using 1(3,4) len by (simp add: rq_inv_def checkQueue_def)
qed

section \<open>The queries\<close>

lemma rq_invD:
  assumes "rq_inv q"
  shows "checkRegions (rq_begin q) (rexmitQueue q) (rq_end q)" "qlen (rexmitQueue q) < 2 ^ 31"
    "off (rq_begin q) (rq_begin q) + qlen (rexmitQueue q) < 2 ^ 31"
    "off (rq_begin q) (rq_end q) = qlen (rexmitQueue q)" "inwin (rq_begin q) (rq_end q)"
proof -
  show c: "checkRegions (rq_begin q) (rexmitQueue q) (rq_end q)" and l: "qlen (rexmitQueue q) < 2 ^ 31"
    using assms by (auto simp: rq_inv_def checkQueue_def)
  then show "off (rq_begin q) (rq_begin q) + qlen (rexmitQueue q) < 2 ^ 31" by simp
  show "off (rq_begin q) (rq_end q) = qlen (rexmitQueue q)"
    using checkRegions_off [OF c, of "rq_begin q"] l by simp
  then show "inwin (rq_begin q) (rq_end q)" using l by (simp add: inwin_def)
qed

text \<open>The region found by the scan for \<open>s\<close>, and the marks of its bytes.\<close>

lemma scan_region:
  assumes inv: "rq_inv q" and s: "seqLE (rq_begin q) s" "seqLess s (rq_end q)"
  obtains i "is" where "fromSeq s (rexmitQueue q) = i # is" "covers i s" "checkRegions (endSeqNum i) is (rq_end q)"
    "i \<in> set (rexmitQueue q)"
    "off (rq_begin q) (beginSeqNum i) \<le> off (rq_begin q) s"
    "off (rq_begin q) s < off (rq_begin q) (endSeqNum i)"
    "off (rq_begin q) (endSeqNum i) + qlen is = qlen (rexmitQueue q)"
    "\<And>x. off (rq_begin q) (beginSeqNum i) \<le> off (rq_begin q) x \<Longrightarrow> off (rq_begin q) x < off (rq_begin q) (endSeqNum i)
       \<Longrightarrow> byteMarks (rexmitQueue q) x = Some (sacked i, rexmitted i)"
    "\<And>x. off (rq_begin q) (endSeqNum i) \<le> off (rq_begin q) x
       \<Longrightarrow> byteMarks (rexmitQueue q) x = byteMarks is x"
proof -
  note i0 = rq_invD [OF inv]
  let ?b = "rq_begin q" and ?rs = "rexmitQueue q"
  have w: "inwin ?b s" using s by (simp add: inwin_seqLE)
  have lt: "off ?b s < off ?b ?b + qlen ?rs" using s(2) w i0 by (simp add: seqLess_win [of ?b])
  obtain i "is" where i: "fromSeq s ?rs = i # is" "covers i s"
    "off ?b (beginSeqNum i) = off ?b ?b + qlen (beforeSeq s ?rs)"
    "off ?b (beginSeqNum i) \<le> off ?b s" "off ?b s < off ?b (beginSeqNum i) + rlen i"
    "checkRegions ?b (beforeSeq s ?rs) (beginSeqNum i)" "checkRegions (endSeqNum i) is (rq_end q)"
    using scan_covers [OF i0(1,3) _ lt] by (metis off_refl zero_le)
  have rs: "?rs = beforeSeq s ?rs @ i # is" using i(1) before_from [of s ?rs] by simp
  have q: "qlen ?rs = qlen (beforeSeq s ?rs) + rlen i + qlen is" by (subst rs) simp
  have e: "off ?b (endSeqNum i) = off ?b (beginSeqNum i) + rlen i" using off_end [of ?b i] i(3) q i0(2) by simp
  have N: "byteMarks (beforeSeq s ?rs) x = None" if "off ?b (beginSeqNum i) \<le> off ?b x" for x
    using byteMarks_None_iff [OF i(6), of ?b x] i(3) q i0(2) that by simp
  have R: "inRegion i x \<longleftrightarrow> off ?b (beginSeqNum i) \<le> off ?b x \<and> off ?b x < off ?b (endSeqNum i)" for x
    using inRegion_win [of ?b i x] e i(3) q i0(2) by simp
  have 1: "byteMarks ?rs x = Some (sacked i, rexmitted i)"
    if "off ?b (beginSeqNum i) \<le> off ?b x" "off ?b x < off ?b (endSeqNum i)" for x
    by (subst rs) (use that N R in \<open>simp add: byteMarks_append\<close>)
  have 2: "byteMarks ?rs x = byteMarks is x" if "off ?b (endSeqNum i) \<le> off ?b x" for x
    by (subst rs) (use that N R e in \<open>simp add: byteMarks_append\<close>)
  have 3: "i \<in> set ?rs" by (subst rs) simp
  show thesis by (rule that [OF i(1,2,7) 3 i(4)]) (use i e q 1 2 in auto)
qed

lemma getSackedBit_spec:
  assumes inv: "rq_inv q" and s: "seqLE (rq_begin q) s" "seqLE s (rq_end q)"
  shows "getSackedBit q s = Inr (case byteMarks (rexmitQueue q) s of Some (sk, rx) \<Rightarrow> sk | None \<Rightarrow> False)"
proof (cases "s = rq_end q")
  case True
  have "byteMarks (rexmitQueue q) s = None"
    using byteMarks_None_iff [OF rq_invD(1) [OF inv], of "rq_begin q" s] rq_invD [OF inv] True by simp
  with True s show ?thesis by (simp add: getSackedBit_def)
next
  case False
  with s have lt: "seqLess s (rq_end q)" by (simp add: seqLess_iff)
  show ?thesis
    by (rule scan_region [OF inv s(1) lt]) (use s False in \<open>simp add: getSackedBit_def\<close>)
qed

lemma checkSackBlock_spec:
  assumes inv: "rq_inv q" and s: "seqLE (rq_begin q) s" "seqLess s (rq_end q)"
  shows "\<exists>len sk rx. checkSackBlock q s = Inr (len, sk, rx) \<and> 0 < len \<and> seqLE (s + len) (rq_end q) \<and>
    (\<forall>x. off s x < unat len \<longrightarrow> byteMarks (rexmitQueue q) x = Some (sk, rx))"
proof -
  let ?b = "rq_begin q"
  note i0 = rq_invD [OF inv]
  obtain i "is" where i: "fromSeq s (rexmitQueue q) = i # is" "covers i s"
    "off ?b (beginSeqNum i) \<le> off ?b s" "off ?b s < off ?b (endSeqNum i)"
    "off ?b (endSeqNum i) + qlen is = qlen (rexmitQueue q)"
    "\<And>x. off ?b (beginSeqNum i) \<le> off ?b x \<Longrightarrow> off ?b x < off ?b (endSeqNum i)
       \<Longrightarrow> byteMarks (rexmitQueue q) x = Some (sacked i, rexmitted i)"
    using scan_region [OF inv s] by metis
  have t: "off ?b (endSeqNum i) = off ?b s + off s (endSeqNum i)" using i(4) by (intro off_trans) simp
  have lt: "off ?b (endSeqNum i) < 2 ^ 31" using i(5) i0(2) by simp
  have le: "seqLE (endSeqNum i) (rq_end q)"
    using i(5) i0(4,5) lt by (subst seqLE_win [of ?b]) (auto simp: inwin_def)
  have m: "byteMarks (rexmitQueue q) x = Some (sacked i, rexmitted i)" if "off s x < off s (endSeqNum i)" for x
  proof -
    have "off ?b x = off ?b s + off s x" using that t lt by (intro off_split) simp
    with that t i(3) show ?thesis by (intro i(6)) auto
  qed
  have pos: "0 < endSeqNum i - s" using i(4) by (auto simp: word_gt_0)
  show ?thesis
    using s i(1,2) le m pos by (simp add: checkSackBlock_def off_def)
qed

text \<open>The bytes that carry a mark.\<close>

definition sackedByteSet :: "rexmit_queue \<Rightarrow> u32 set" where
  "sackedByteSet q = {x. \<exists>rx. byteMarks (rexmitQueue q) x = Some (True, rx)}"

lemma card_inRegion: "rlen r < 2 ^ 32 \<Longrightarrow> card {x. inRegion r x} = rlen r"
proof -
  assume h: "rlen r < 2 ^ 32"
  have "bij_betw (off (beginSeqNum r)) {x. inRegion r x} {..<rlen r}"
  proof (rule bij_betwI')
    fix n assume n: "n \<in> {..<rlen r}"
    have "off (beginSeqNum r) (beginSeqNum r + of_nat n) = n"
      using n h off_add_nat [of "beginSeqNum r" "beginSeqNum r" n] by simp
    with n show "\<exists>x\<in>{x. inRegion r x}. n = off (beginSeqNum r) x"
      by (intro bexI [of _ "beginSeqNum r + of_nat n"]) (auto simp: inRegion_def)
  qed (auto simp: off_inj inRegion_def)
  then show ?thesis by (simp add: bij_betw_same_card)
qed

lemma fold_sacked:
  "fold (\<lambda>r bytes. if sacked r then bytes + (endSeqNum r - beginSeqNum r) else bytes) rs a =
     a + of_nat (qlen (filter sacked rs))"
  by (induction rs arbitrary: a) (auto simp: rlen_def off_def)

lemma qlen_filter: "qlen (filter P rs) \<le> qlen rs"
  by (induction rs) auto

lemma card_sacked:
  assumes "checkRegions m rs e" "off b m + qlen rs < 2 ^ 32"
  shows "card {x. \<exists>rx. byteMarks rs x = Some (True, rx)} = qlen (filter sacked rs)"
  using assms
proof (induction rs arbitrary: m)
  case (Cons r rs)
  let ?S = "{x. \<exists>rx. byteMarks rs x = Some (True, rx)}"
  from Cons.prems have m: "m = beginSeqNum r" and c: "checkRegions (endSeqNum r) rs e" by auto
  have e: "off b (endSeqNum r) = off b m + rlen r"
    using Cons.prems(2) off_end [of b r] by (simp add: m)
  have IH: "card ?S = qlen (filter sacked rs)" using Cons.IH [OF c] e Cons.prems(2) by simp
  have D: "inRegion r x \<Longrightarrow> byteMarks rs x = None" for x
    using inRegion_win [of b r x] byteMarks_None_iff [OF c, of b x] e Cons.prems(2) m by simp
  then have d: "{x. inRegion r x} \<inter> ?S = {}" by auto
  have "{x. \<exists>rx. byteMarks (r # rs) x = Some (True, rx)} = (if sacked r then {x. inRegion r x} else {}) \<union> ?S"
    using D by auto
  then show ?case
    using IH card_Un_disjoint [OF _ _ d] card_inRegion [of r] Cons.prems(2) by auto
qed auto

lemma getTotalAmountOfSackedBytes_spec:
  assumes "rq_inv q"
  shows "unat (getTotalAmountOfSackedBytes q) = card (sackedByteSet q)"
proof -
  have "qlen (filter sacked (rexmitQueue q)) < 2 ^ 32"
    using qlen_filter [of sacked "rexmitQueue q"] rq_invD(2) [OF assms] by simp
  then show ?thesis
    using card_sacked [OF rq_invD(1) [OF assms], of "rq_begin q"] rq_invD(2) [OF assms]
    by (simp add: getTotalAmountOfSackedBytes_def fold_sacked sackedByteSet_def unat_of_nat)
qed

lemma lastEndWith_snoc: "lastEndWith P (rev (rs @ [r])) d = (if P r then endSeqNum r else lastEndWith P (rev rs) d)"
  by simp

text \<open>
  The reverse scan for a mark: no byte at or above the result carries it, and unless the result
  is the beginning of the queue, the byte just below it does.
\<close>

lemma lastEnd_spec:
  assumes "checkRegions b rs e" "qlen rs < 2 ^ 31"
    and P: "\<And>r. P r \<longleftrightarrow> p (sacked r, rexmitted r)"
  shows "let h = lastEndWith P (rev rs) b in
     off b h \<le> qlen rs \<and> (\<forall>x k. byteMarks rs x = Some k \<longrightarrow> off b h \<le> off b x \<longrightarrow> \<not> p k) \<and>
     (h = b \<or> (\<exists>k. byteMarks rs (h - 1) = Some k \<and> p k))"
  using assms(1,2)
proof (induction rs arbitrary: e rule: rev_induct)
  case (snoc r rs)
  then have c: "checkRegions b rs (beginSeqNum r)" and r: "seqLess (beginSeqNum r) (endSeqNum r)"
    by (auto simp: checkRegions_append)
  have bo: "off b (beginSeqNum r) = qlen rs" using checkRegions_off [OF c, of b] snoc.prems by simp
  have eo: "off b (endSeqNum r) = qlen rs + rlen r" using off_end [of b r] bo snoc.prems by simp
  have pos: "0 < rlen r" using r by (simp add: rlen_def seqLess_off)
  have R: "inRegion r x \<longleftrightarrow> qlen rs \<le> off b x \<and> off b x < qlen rs + rlen r" for x
    using inRegion_win [of b r x] bo snoc.prems by simp
  have N: "byteMarks rs x = None \<longleftrightarrow> qlen rs \<le> off b x" for x
    using byteMarks_None_iff [OF c, of b x] snoc.prems by simp
  have IH: "let h = lastEndWith P (rev rs) b in
     off b h \<le> qlen rs \<and> (\<forall>x k. byteMarks rs x = Some k \<longrightarrow> off b h \<le> off b x \<longrightarrow> \<not> p k) \<and>
     (h = b \<or> (\<exists>k. byteMarks rs (h - 1) = Some k \<and> p k))"
    using snoc.IH [OF c] snoc.prems by simp
  show ?case
  proof (cases "P r")
    case True
    have "off b (endSeqNum r - 1) = off b (endSeqNum r) - 1"
    proof -
      have "endSeqNum r - 1 - b = (endSeqNum r - b) - 1" by simp
      moreover have "endSeqNum r - b \<noteq> 0" using eo pos by (metis off_def add_gr_0 less_not_refl2 unat_0)
      ultimately show ?thesis unfolding off_def by (metis unat_minus_one)
    qed
    then have "byteMarks rs (endSeqNum r - 1) = None" "inRegion r (endSeqNum r - 1)"
      using N R eo pos by auto
    then have "byteMarks (rs @ [r]) (endSeqNum r - 1) = Some (sacked r, rexmitted r)"
      by (simp add: byteMarks_append)
    moreover have "byteMarks (rs @ [r]) x = None" if "off b (endSeqNum r) \<le> off b x" for x
      using N [of x] R [of x] that eo by (simp add: byteMarks_append)
    ultimately show ?thesis using True P eo by (auto simp: Let_def)
  next
    case False
    have "byteMarks rs (lastEndWith P (rev rs) b - 1) = Some k \<Longrightarrow>
       byteMarks (rs @ [r]) (lastEndWith P (rev rs) b - 1) = Some k" for k
      by (simp add: byteMarks_append)
    then show ?thesis using False P [of r] IH
      by (auto simp: Let_def byteMarks_append split: option.splits if_splits)
  qed
qed simp

lemma getHighestSackedSeqNum_spec:
  assumes "rq_inv q"
  shows "(\<forall>x\<in>sackedByteSet q. off (rq_begin q) x < off (rq_begin q) (getHighestSackedSeqNum q)) \<and>
    (getHighestSackedSeqNum q = rq_begin q \<or> getHighestSackedSeqNum q - 1 \<in> sackedByteSet q)"
  using lastEnd_spec [OF rq_invD(1,2) [OF assms], of sacked fst]
  by (auto simp: Let_def getHighestSackedSeqNum_def sackedByteSet_def not_less [symmetric])

section \<open>The interface of the scoreboard\<close>

text \<open>
  The scoreboard as the connection sees it: a range \<open>lo .. hi\<close> of sent bytes and the marks of
  every byte. The three events of a connection's life act on this view as \<open>sb_step\<close> says;
  \<open>sb_legal\<close> is what the connection has to ensure before it makes the call.
\<close>

record sb_view =
  sb_lo :: u32
  sb_hi :: u32
  sb_marks :: "u32 \<Rightarrow> (bool \<times> bool) option"

datatype sb_op = SbSent u32 u32 | SbSacked u32 u32 | SbAcked u32

fun sb_legal :: "sb_view \<Rightarrow> sb_op \<Rightarrow> bool" where
  "sb_legal v (SbSent fs ts) =
     (seqLE (sb_lo v) fs \<and> seqLE fs (sb_hi v) \<and> seqLess fs ts \<and> seqLE (sb_lo v) ts)"
| "sb_legal v (SbSacked fs ts) =
     (seqLE (sb_lo v) (sackStart (sb_lo v) fs) \<and> seqLess (sackStart (sb_lo v) fs) ts \<and>
      seqLess (sb_lo v) ts \<and> seqLE ts (sb_hi v) \<and> seqLess (sackStart (sb_lo v) fs) (sb_hi v))"
| "sb_legal v (SbAcked s) = (seqLE (sb_lo v) s \<and> seqLE s (sb_hi v))"

fun sb_step :: "sb_view \<Rightarrow> sb_op \<Rightarrow> sb_view" where
  "sb_step v (SbSent fs ts) =
     v\<lparr>sb_hi := seqMax (sb_hi v) ts,
       sb_marks := (\<lambda>x. case sb_marks v x of
          Some (s, r) \<Rightarrow> Some (s, r \<or> inRange fs ts x)
        | None \<Rightarrow> if inRange fs ts x then Some (False, False) else None)\<rparr>"
| "sb_step v (SbSacked fs ts) =
     v\<lparr>sb_marks := (\<lambda>x. map_option (\<lambda>(s, r). (s \<or> inRange (sackStart (sb_lo v) fs) ts x, r)) (sb_marks v x))\<rparr>"
| "sb_step v (SbAcked s) =
     v\<lparr>sb_lo := s, sb_marks := (\<lambda>x. if inRange (sb_lo v) s x then None else sb_marks v x)\<rparr>"

fun sb_run :: "sb_view \<Rightarrow> sb_op list \<Rightarrow> sb_view" where
  "sb_run v [] = v"
| "sb_run v (a # as) = sb_run (sb_step v a) as"

fun sb_legal_run :: "sb_view \<Rightarrow> sb_op list \<Rightarrow> bool" where
  "sb_legal_run v [] = True"
| "sb_legal_run v (a # as) = (sb_legal v a \<and> sb_legal_run (sb_step v a) as)"

lemma sb_run_append: "sb_run v (as @ bs) = sb_run (sb_run v as) bs"
  by (induction as arbitrary: v) auto

locale scoreboard =
  fixes invar :: "'q \<Rightarrow> bool"
    and view :: "'q \<Rightarrow> sb_view"
    and exec :: "'q \<Rightarrow> sb_op \<Rightarrow> 'q res"
  assumes exec_refines: "invar q \<Longrightarrow> sb_legal (view q) a \<Longrightarrow>
      \<exists>q'. exec q a = Inr q' \<and> invar q' \<and> view q' = sb_step (view q) a"
begin

primrec run :: "'q \<Rightarrow> sb_op list \<Rightarrow> 'q res" where
  "run q [] = Inr q"
| "run q (a # as) = bindR (exec q a) (\<lambda>q'. run q' as)"

lemma run_refines:
  assumes "invar q" "sb_legal_run (view q) as"
  shows "\<exists>q'. run q as = Inr q' \<and> invar q' \<and> view q' = sb_run (view q) as"
  using assms
proof (induction as arbitrary: q)
  case (Cons a as)
  then obtain q1 where "exec q a = Inr q1" "invar q1" "view q1 = sb_step (view q) a"
    using exec_refines by fastforce
  moreover from this have "\<exists>q'. run q1 as = Inr q' \<and> invar q' \<and> view q' = sb_run (view q1) as"
    using Cons.prems by (intro Cons.IH) simp_all
  ultimately show ?case by simp
qed simp

text \<open>Between two cumulative acknowledgements the selective ones are never forgotten.\<close>

lemma sacked_stays:
  assumes "invar q" "sb_legal_run (view q) as" "\<forall>s. SbAcked s \<notin> set as"
    and "sb_marks (view q) x = Some (True, r)"
  shows "\<exists>q' r'. run q as = Inr q' \<and> sb_marks (view q') x = Some (True, r')"
proof -
  have "\<exists>r'. sb_marks (sb_run v as) x = Some (True, r')"
    if "sb_marks v x = Some (True, r)" "\<forall>s. SbAcked s \<notin> set as" for v
    using that
  proof (induction as arbitrary: v r)
    case (Cons a as)
    then show ?case by (cases a) fastforce+
  qed simp
  with run_refines [OF assms(1,2)] assms(3,4) show ?thesis by metis
qed

end

definition rq_view :: "rexmit_queue \<Rightarrow> sb_view" where
  "rq_view q = \<lparr>sb_lo = rq_begin q, sb_hi = rq_end q, sb_marks = byteMarks (rexmitQueue q)\<rparr>"

fun rq_exec :: "rexmit_queue \<Rightarrow> sb_op \<Rightarrow> rexmit_queue res" where
  "rq_exec q (SbSent fs ts) = enqueueSentData q fs ts"
| "rq_exec q (SbSacked fs ts) = setSackedBit q fs ts"
| "rq_exec q (SbAcked s) = rq_discardUpTo q s"

fun rq_run :: "rexmit_queue \<Rightarrow> sb_op list \<Rightarrow> rexmit_queue res" where
  "rq_run q [] = Inr q"
| "rq_run q (a # as) = bindR (rq_exec q a) (\<lambda>q'. rq_run q' as)"

lemma rq_exec_refines:
  assumes "rq_inv q" "sb_legal (rq_view q) a"
  shows "\<exists>q'. rq_exec q a = Inr q' \<and> rq_inv q' \<and> rq_view q' = sb_step (rq_view q) a"
proof (cases a)
  case (SbSent fs ts)
  with assms enqueueSentData_spec [of q fs ts] show ?thesis by (fastforce simp: rq_view_def)
next
  case (SbSacked fs ts)
  with assms setSackedBit_spec [of q _ fs ts] show ?thesis by (fastforce simp: rq_view_def)
next
  case (SbAcked s)
  with assms rq_discardUpTo_spec [of q s] show ?thesis by (fastforce simp: rq_view_def)
qed

interpretation sb: scoreboard rq_inv rq_view rq_exec
  by unfold_locales (rule rq_exec_refines)

lemma rq_run_eq: "sb.run q as = rq_run q as"
  by (induction as arbitrary: q) auto

lemma rq_init_inv: "rexmitQueue q = [] \<Longrightarrow> rq_inv (rq_init q s)"
  by (simp add: rq_inv_def rq_init_def checkQueue_def)

section \<open>Properties\<close>

lemmas seq_eval = seqLE_def seqLess_def seqMax_def seqGE_def seqGreater_def seqMin_def

text \<open>
  The scoreboard used by the witnesses: 16 bytes sent from just below the wrap-around point, the
  first four of the second half selectively acknowledged.
\<close>

definition sampleQueue :: rexmit_queue where
  "sampleQueue = \<lparr>rq_begin = 4294967288, rq_end = 8, rexmitQueue =
     [\<lparr>beginSeqNum = 4294967288, endSeqNum = 0, sacked = False, rexmitted = False\<rparr>,
      \<lparr>beginSeqNum = 0, endSeqNum = 4, sacked = True, rexmitted = False\<rparr>,
      \<lparr>beginSeqNum = 4, endSeqNum = 8, sacked = False, rexmitted = False\<rparr>]\<rparr>"

lemma sampleQueue_inv: "rq_inv sampleQueue"
  by (simp add: rq_inv_def checkQueue_def sampleQueue_def rlen_def off_def seq_eval)

text \<open>
  C4: refinement over whole histories. Any legal sequence of sends, selective and cumulative
  acknowledgements runs on the region list without a failed assertion, keeps it well-formed, and
  leaves the bounds and byte marks that the abstract scoreboard \<open>sb_run\<close> prescribes.
\<close>

theorem scoreboard_refinement:
  assumes "rq_inv q" "sb_legal_run (rq_view q) as"
  shows "\<exists>q'. rq_run q as = Inr q' \<and> rq_inv q' \<and> rq_view q' = sb_run (rq_view q) as"
  using sb.run_refines [OF assms] by (simp add: rq_run_eq)

theorem scoreboard_refinement_witness:
  "\<exists>q'. rq_run (rq_init rq_new 4294967290) [SbSent 4294967290 10, SbSacked 0 4, SbAcked 2] = Inr q' \<and>
   rq_inv q' \<and> rq_view q' = sb_run (rq_view (rq_init rq_new 4294967290)) [SbSent 4294967290 10, SbSacked 0 4, SbAcked 2]"
  by (rule scoreboard_refinement)
    (simp_all add: rq_inv_def checkQueue_def rq_new_def rq_view_def rq_init_def sackStart_def seq_eval)

text \<open>
  A selectively acknowledged byte stays so through any legal sequence of sends and further
  selective acknowledgements: only \<open>discardUpTo\<close> removes the mark.
\<close>

lemma sacked_byte_stays:
  assumes "rq_inv q" "sb_legal_run (rq_view q) as" "\<forall>s. SbAcked s \<notin> set as"
    and "byteMarks (rexmitQueue q) x = Some (True, r)"
  shows "\<exists>q' r'. rq_run q as = Inr q' \<and> byteMarks (rexmitQueue q') x = Some (True, r')"
  using sb.sacked_stays [OF assms(1-3), of x r] assms(4) by (simp add: rq_run_eq rq_view_def)

text \<open>
  The queries agree with the byte marks: \<open>getTotalAmountOfSackedBytes\<close> counts the sacked
  bytes, \<open>getHighestSackedSeqNum\<close> is one past the highest of them (the beginning if there is
  none), and \<open>getSackedBit\<close> reads the mark of one byte.
\<close>

lemma scoreboard_queries:
  assumes "rq_inv q" "seqLE (rq_begin q) s" "seqLE s (rq_end q)"
  shows "unat (getTotalAmountOfSackedBytes q) = card (sackedByteSet q) \<and>
    (\<forall>x\<in>sackedByteSet q. off (rq_begin q) x < off (rq_begin q) (getHighestSackedSeqNum q)) \<and>
    (getHighestSackedSeqNum q = rq_begin q \<or> getHighestSackedSeqNum q - 1 \<in> sackedByteSet q) \<and>
    getSackedBit q s = Inr (case byteMarks (rexmitQueue q) s of Some (sk, rx) \<Rightarrow> sk | None \<Rightarrow> False)"
  using getTotalAmountOfSackedBytes_spec [OF assms(1)] getHighestSackedSeqNum_spec [OF assms(1)]
    getSackedBit_spec [OF assms] by blast

end
