(* ===== verification/Tcp_Segment.thy ===== *)
theory Tcp_Segment
  imports Tcp_Seq
begin

text \<open>
  The TCP segment, \<open>src/inet/transportlayer/tcp_common/TCPSegment.msg\<close> and \<open>TCPSegment.cc\<close>:
  header fields at their widths, header options, the byte count of the payload and the list of
  the messages that travel in it. What only the serializer and the byte-stream transfer mode use (the raw \<open>byteArray\<close>,
  the packet length and the bit error of the base class) is added in \<open>Tcp_Serializer\<close>.
\<close>

section \<open>Header options\<close>

record sack =
  sackStartNo :: u32
  sackEndNo :: u32

definition sack_empty :: "sack \<Rightarrow> bool" where
  "sack_empty s \<longleftrightarrow> sackStartNo s = 0 \<and> sackEndNo s = 0"

definition sack_contains :: "sack \<Rightarrow> sack \<Rightarrow> bool" where
  "sack_contains s other \<longleftrightarrow> seqLE (sackStartNo s) (sackStartNo other) \<and> seqLE (sackEndNo other) (sackEndNo s)"

definition sack_clear :: "sack \<Rightarrow> sack" where
  "sack_clear s = s\<lparr>sackStartNo := 0, sackEndNo := 0\<rparr>"

definition sack_setSegment :: "sack \<Rightarrow> u32 \<Rightarrow> u32 \<Rightarrow> sack" where
  "sack_setSegment s a b = s\<lparr>sackStartNo := a, sackEndNo := b\<rparr>"

datatype opt_body =
    OptEnd
  | OptNop
  | OptMaxSegmentSize u16
  | OptWindowScale u16
  | OptSackPermitted
  | OptSack "sack list"
  | OptTimestamp u32 u32
  | OptUnknown u16 "u8 list"

record tcp_option =
  optLength :: u16
  optBody :: opt_body

text \<open>Freshly created options carry the default length of their class.\<close>

fun defaultLength :: "opt_body \<Rightarrow> u16" where
  "defaultLength OptEnd = 1"
| "defaultLength OptNop = 1"
| "defaultLength (OptMaxSegmentSize v) = 4"
| "defaultLength (OptWindowScale v) = 3"
| "defaultLength OptSackPermitted = 2"
| "defaultLength (OptSack ss) = 2"
| "defaultLength (OptTimestamp a b) = 10"
| "defaultLength (OptUnknown k bs) = 1"

definition mkOption :: "opt_body \<Rightarrow> tcp_option" where
  "mkOption b = \<lparr>optLength = defaultLength b, optBody = b\<rparr>"

section \<open>Segments\<close>

record payload_message =
  endSequenceNo :: u32
  payloadMsg :: nat

record tcp_segment =
  srcPort :: u16
  destPort :: u16
  sequenceNo :: u32
  ackNo :: u32
  headerLength :: u16
  urgBit :: bool
  ackBit :: bool
  pshBit :: bool
  rstBit :: bool
  synBit :: bool
  finBit :: bool
  window :: u16
  urgentPointer :: u16
  headerOptionList :: "tcp_option list"
  payloadLength :: u64
  payloadList :: "payload_message list"

definition newSegment :: tcp_segment where
  "newSegment = \<lparr>srcPort = 0, destPort = 0, sequenceNo = 0, ackNo = 0, headerLength = 20,
     urgBit = False, ackBit = False, pshBit = False, rstBit = False, synBit = False, finBit = False,
     window = 0, urgentPointer = 0, headerOptionList = [], payloadLength = 0, payloadList = []\<rparr>"

definition getSegLen :: "tcp_segment \<Rightarrow> u32" where
  "getSegLen seg = ucast (payloadLength seg + (if finBit seg then 1 else 0) + (if synBit seg then 1 else 0))"

definition getHeaderOptionArrayLength :: "tcp_segment \<Rightarrow> u16" where
  "getHeaderOptionArrayLength seg = fold (\<lambda>opt used. used + optLength opt) (headerOptionList seg) 0"

definition truncateData :: "tcp_segment \<Rightarrow> u32 \<Rightarrow> u32 \<Rightarrow> tcp_segment res" where
  "truncateData seg truncleft truncright =
     bindR (assertR (ucast (truncleft + truncright) \<le> payloadLength seg) ''truncateData'') (\<lambda>_.
     let pl = dropWhile (\<lambda>p. endSequenceNo p - sequenceNo seg \<le> truncleft) (payloadList seg);
         seq = sequenceNo seg + truncleft;
         len = payloadLength seg - ucast (truncleft + truncright);
         pl' = rev (dropWhile (\<lambda>p. len < ucast (endSequenceNo p - seq)) (rev pl))
     in Inr (seg\<lparr>sequenceNo := seq, payloadLength := len, payloadList := pl'\<rparr>))"

definition truncateSegment :: "tcp_segment \<Rightarrow> u32 \<Rightarrow> u32 \<Rightarrow> tcp_segment res" where
  "truncateSegment seg firstSeqNo endSeqNo =
     (let segEnd = sequenceNo seg + ucast (payloadLength seg) in
     bindR (assertR (0 < payloadLength seg) ''truncateSegment'') (\<lambda>_.
     if \<not> (seqLess (sequenceNo seg) endSeqNo \<and> seqLess firstSeqNo segEnd)
     then Inl (RuntimeError ''truncateSegment'')
     else
       let truncleft = (if seqLess (sequenceNo seg) firstSeqNo then firstSeqNo - sequenceNo seg else 0);
           truncright = (if seqGreater segEnd endSeqNo then segEnd - endSeqNo else 0)
       in truncateData seg truncleft truncright))"

definition addPayloadMessage :: "tcp_segment \<Rightarrow> nat \<Rightarrow> u32 \<Rightarrow> tcp_segment" where
  "addPayloadMessage seg msg e =
     seg\<lparr>payloadList := payloadList seg @ [\<lparr>endSequenceNo = e, payloadMsg = msg\<rparr>]\<rparr>"

definition removeFirstPayloadMessage :: "tcp_segment \<Rightarrow> (nat \<times> u32) option \<times> tcp_segment" where
  "removeFirstPayloadMessage seg =
     (case payloadList seg of
        [] \<Rightarrow> (None, seg)
      | p # ps \<Rightarrow> (Some (payloadMsg p, endSequenceNo p), seg\<lparr>payloadList := ps\<rparr>))"

definition addHeaderOption :: "tcp_segment \<Rightarrow> tcp_option \<Rightarrow> tcp_segment" where
  "addHeaderOption seg opt = seg\<lparr>headerOptionList := headerOptionList seg @ [opt]\<rparr>"

section \<open>Truncation to a window\<close>

text \<open>The bytes of the sequence space that a segment's payload occupies.\<close>

definition segBytes :: "tcp_segment \<Rightarrow> u32 set" where
  "segBytes seg = {x. off (sequenceNo seg) x < unat (payloadLength seg)}"

definition byteRange :: "u32 \<Rightarrow> u32 \<Rightarrow> u32 set" where
  "byteRange a b = {x. off a x < off a b}"

lemma byteRange_win:
  assumes "off b fs \<le> off b ts"
  shows "x \<in> byteRange fs ts \<longleftrightarrow> off b fs \<le> off b x \<and> off b x < off b ts"
proof
  assume "x \<in> byteRange fs ts"
  then have lt: "off fs x < off fs ts" by (simp add: byteRange_def)
  have t: "off b ts = off b fs + off fs ts" using assms by (rule off_trans)
  have "off b x = off b fs + off fs x"
    using lt t off_lt [of b ts] by (intro off_split) simp
  with lt t show "off b fs \<le> off b x \<and> off b x < off b ts" by simp
next
  assume h: "off b fs \<le> off b x \<and> off b x < off b ts"
  have "off b ts = off b fs + off fs ts" using assms by (rule off_trans)
  moreover have "off b x = off b fs + off fs x" using h by (intro off_trans) simp
  ultimately show "x \<in> byteRange fs ts" using h by (simp add: byteRange_def)
qed

lemma segBytes_range:
  assumes "unat (payloadLength seg) < 2 ^ 32"
  shows "segBytes seg = byteRange (sequenceNo seg) (sequenceNo seg + ucast (payloadLength seg))"
proof -
  have "unat (ucast (payloadLength seg) :: u32) = unat (payloadLength seg)"
    using assms by (rule unat_ucast_narrow)
  then show ?thesis by (auto simp: segBytes_def byteRange_def off_def)
qed

lemma truncateSegment_spec:
  assumes len: "0 < payloadLength seg" "unat (payloadLength seg) < 2 ^ 31"
    and e: "segEnd = sequenceNo seg + ucast (payloadLength seg)"
    and w: "inwin b (sequenceNo seg)" "inwin b segEnd" "inwin b fs" "inwin b ts"
    and common: "seqLess (sequenceNo seg) ts" "seqLess fs segEnd" "seqLess fs ts"
  shows "\<exists>seg'. truncateSegment seg fs ts = Inr seg' \<and> 0 < payloadLength seg' \<and>
     sequenceNo seg' = seqMax (sequenceNo seg) fs \<and>
     sequenceNo seg' + ucast (payloadLength seg') = seqMin segEnd ts \<and>
     unat (payloadLength seg') \<le> unat (payloadLength seg) \<and>
     segBytes seg' = segBytes seg \<inter> byteRange fs ts"
proof -
  let ?s = "sequenceNo seg" and ?n = "payloadLength seg"
  let ?l = "if seqLess ?s fs then fs - ?s else 0" and ?r = "if seqGreater segEnd ts then segEnd - ts else 0"
  have n: "unat (ucast ?n :: u32) = unat ?n" using len by (intro unat_ucast_narrow) simp
  have pos: "0 < unat ?n" using len(1) by (simp add: unat_gt_0)
  have ls: "off ?s segEnd = unat ?n" using n by (simp add: off_def e)
  have se: "off b ?s < off b segEnd"
  proof -
    have "seqLE ?s segEnd" using ls len by (simp add: seqLE_off)
    then have "off b ?s \<le> off b segEnd" using w by (simp add: seqLE_win [of b])
    moreover have "?s \<noteq> segEnd" using ls pos by auto
    ultimately show ?thesis by (metis le_neq_implies_less off_inj)
  qed
  have o: "off b segEnd = off b ?s + unat ?n" using off_trans [of b ?s segEnd] se ls by simp
  have c: "off b ?s < off b ts" "off b fs < off b segEnd" "off b fs < off b ts"
    using common w by (auto simp: seqLess_win [of b])
  have l: "unat ?l = off b fs - off b ?s"
    using w off_trans [of b ?s fs] by (auto simp: seqLess_win [of b] off_def)
  have r: "unat ?r = off b segEnd - off b ts"
    using w off_trans [of b ts segEnd] by (auto simp: seqGreater_win [of b] off_def)
  have lr: "unat (?l + ?r) = unat ?l + unat ?r"
    using l r w by (intro unat_add_lem [THEN iffD1]) (auto simp: inwin_def)
  let ?lr = "ucast (?l + ?r) :: u64"
  have ulr: "unat ?lr = (off b fs - off b ?s) + (off b segEnd - off b ts)" using lr l r by simp
  have lt: "unat ?lr < unat ?n" using ulr c o pos by arith
  then have le: "?lr \<le> ?n" by (simp add: word_le_nat_alt)
  have un: "unat (?n - ?lr) = unat ?n - unat ?lr" using le by (rule unat_sub)
  let ?len = "?n - ?lr" and ?seq = "?s + ?l"
  have seq: "?seq = seqMax ?s fs" using w by (auto simp: seqMax_win [of b] seqLess_win [of b])
  have oseq: "off b ?seq = max (off b ?s) (off b fs)" using w seq by (auto simp: seqMax_win [of b])
  have end': "?seq + ucast ?len = seqMin segEnd ts"
  proof -
    have nl: "unat (ucast ?len :: u32) = unat ?len" using un len by (intro unat_ucast_narrow) simp
    have sum: "off b ?seq + unat ?len = min (off b segEnd) (off b ts)"
      unfolding oseq un ulr o using c o pos by (simp add: max_def min_def)
    have "off b (?seq + of_nat (unat ?len)) = off b ?seq + unat ?len"
      using w by (intro off_add_nat) (simp add: sum inwin_def)
    moreover have "of_nat (unat ?len) = (ucast ?len :: u32)"
      using nl by (metis of_nat_unat ucast_id)
    ultimately have "off b (?seq + ucast ?len) = min (off b segEnd) (off b ts)"
      using sum by simp
    also have "\<dots> = off b (seqMin segEnd ts)" using w by (auto simp: seqMin_win [of b])
    finally show ?thesis by (simp add: off_inj)
  qed
  obtain seg' where t: "truncateSegment seg fs ts = Inr seg'" and f: "sequenceNo seg' = ?seq" "payloadLength seg' = ?len"
    using common len le by (auto simp: truncateSegment_def truncateData_def Let_def e [symmetric])
  have p': "0 < ?len" using lt un by (metis unat_gt_0 word_gt_0 zero_less_diff)
  have l32: "unat ?n < 2 ^ 32" "unat ?len < 2 ^ 32" using len un by auto
  have "segBytes seg' = byteRange ?seq (seqMin segEnd ts)"
    using segBytes_range [of seg'] f end' l32 by simp
  also have "\<dots> = byteRange ?s segEnd \<inter> byteRange fs ts"
  proof -
    have om: "off b (seqMin segEnd ts) = min (off b segEnd) (off b ts)" using w by (auto simp: seqMin_win [of b])
    show ?thesis
      using oseq om c se
      by (auto simp: byteRange_win [of b ?seq] byteRange_win [of b ?s] byteRange_win [of b fs])
  qed
  also have "byteRange ?s segEnd = segBytes seg" using segBytes_range [of seg] l32 e by simp
  finally show ?thesis using t f p' seq end' un by auto
qed

section \<open>Properties\<close>

text \<open>
  Truncating a segment to a window that has a byte in common with it fails no assertion and
  throws nothing; what is left is non-empty and carries exactly the bytes of the segment that
  lie in the window.
\<close>

lemma truncateSegment_window:
  assumes "0 < payloadLength seg" "unat (payloadLength seg) < 2 ^ 31"
    and "segEnd = sequenceNo seg + ucast (payloadLength seg)"
    and "inwin b (sequenceNo seg)" "inwin b segEnd" "inwin b fs" "inwin b ts"
    and "seqLess (sequenceNo seg) ts" "seqLess fs segEnd" "seqLess fs ts"
  shows "\<exists>seg'. truncateSegment seg fs ts = Inr seg' \<and> 0 < payloadLength seg' \<and>
     segBytes seg' = segBytes seg \<inter> byteRange fs ts"
  using truncateSegment_spec [OF assms] by blast

end
