(* ===== verification/Tcp_RcvQueue.thy ===== *)
theory Tcp_RcvQueue
  imports Tcp_Segment
begin

text \<open>
  The receive queue of virtual bytes, \<open>TCPVirtualDataRcvQueue\<close>
  (\<open>src/inet/transportlayer/tcp/queues/TCPVirtualDataRcvQueue.h/.cc\<close>): the out-of-order
  reassembly buffer, a list of regions, and the next expected sequence number. Its interface to
  the connection is the locale \<open>receive_queue\<close>.
\<close>

section \<open>Regions\<close>

datatype compare_status = BEFORE | BEFORE_TOUCH | OVERLAP | AFTER_TOUCH | AFTER

record rcv_region =
  rr_begin :: u32
  rr_end :: u32

definition region_merge :: "rcv_region \<Rightarrow> rcv_region \<Rightarrow> rcv_region option" where
  "region_merge self other =
     (if seqLess (rr_end self) (rr_begin other) \<or> seqLess (rr_end other) (rr_begin self) then None
      else
        let self1 = (if seqLess (rr_begin other) (rr_begin self) then self\<lparr>rr_begin := rr_begin other\<rparr> else self);
            self2 = (if seqLess (rr_end self1) (rr_end other) then self1\<lparr>rr_end := rr_end other\<rparr> else self1)
        in Some self2)"

text \<open>\<open>split\<close> returns the new region \<open>begin .. seq\<close> and what is left of \<open>self\<close>.\<close>

definition region_split :: "rcv_region \<Rightarrow> u32 \<Rightarrow> (rcv_region \<times> rcv_region) res" where
  "region_split self seq =
     bindR (assertR (seqGreater seq (rr_begin self) \<and> seqLess seq (rr_end self)) ''split'') (\<lambda>_.
     Inr (\<lparr>rr_begin = rr_begin self, rr_end = seq\<rparr>, self\<lparr>rr_begin := seq\<rparr>))"

definition region_compare :: "rcv_region \<Rightarrow> rcv_region \<Rightarrow> compare_status" where
  "region_compare self other =
     (if rr_end self = rr_begin other then BEFORE_TOUCH
      else if rr_begin self = rr_end other then AFTER_TOUCH
      else if seqLess (rr_end self) (rr_begin other) then BEFORE
      else if seqLess (rr_end other) (rr_begin self) then AFTER
      else OVERLAP)"

definition region_getLength :: "rcv_region \<Rightarrow> u64" where
  "region_getLength r = ucast (rr_end r - rr_begin r)"

definition region_getLengthTo :: "rcv_region \<Rightarrow> u32 \<Rightarrow> u64" where
  "region_getLengthTo r seq =
     (if seqLE seq (rr_begin r) then 0
      else if seqLess seq (rr_end r) then ucast (seq - rr_begin r)
      else ucast (rr_end r - rr_begin r))"

section \<open>The queue\<close>

record rcv_queue =
  rcvq_nxt :: u32
  regionList :: "rcv_region list"

definition rcvq_new :: rcv_queue where
  "rcvq_new = \<lparr>rcvq_nxt = -1, regionList = []\<rparr>"

definition rcvq_init :: "rcv_queue \<Rightarrow> u32 \<Rightarrow> rcv_queue" where
  "rcvq_init q startSeq = q\<lparr>rcvq_nxt := startSeq, regionList := []\<rparr>"

definition createRegionFromSegment :: "tcp_segment \<Rightarrow> rcv_region" where
  "createRegionFromSegment seg =
     \<lparr>rr_begin = sequenceNo seg, rr_end = sequenceNo seg + ucast (payloadLength seg)\<rparr>"

text \<open>
  The loop of \<open>merge\<close>. The first argument holds the regions the reverse iterator has still to
  visit, last one first; the second one the regions it has passed, in list order.
\<close>

fun mergeLoop :: "rcv_region list \<Rightarrow> rcv_region list \<Rightarrow> rcv_region \<Rightarrow> rcv_region list res" where
  "mergeLoop [] passed seg = Inr (seg # passed)"
| "mergeLoop (i # revis) passed seg =
     (let cmp = region_compare i seg in
      if cmp = BEFORE then Inr (rev (i # revis) @ seg # passed)
      else if cmp \<noteq> AFTER
      then (case region_merge seg i of
              Some seg' \<Rightarrow> mergeLoop revis passed seg'
            | None \<Rightarrow> Inl (RuntimeError ''merge of region unsuccessful''))
      else mergeLoop revis (i # passed) seg)"

definition rcvq_merge :: "rcv_region list \<Rightarrow> rcv_region \<Rightarrow> rcv_region list res" where
  "rcvq_merge rl seg = mergeLoop (rev rl) [] seg"

definition acceptableRange :: "rcv_region list \<Rightarrow> rcv_region \<Rightarrow> bool" where
  "acceptableRange rl r \<longleftrightarrow> rl = [] \<or>
     (let ob = rr_begin (hd rl); oe = rr_end (last rl); nb = rr_begin r; ne = rr_end r;
          minb = seqMin ob nb; maxe = seqMax oe ne
      in \<not> (seqGE minb oe \<or> seqGE minb ne \<or> seqGE ob maxe \<or> seqGE nb maxe))"

definition insertBytesFromSegment :: "rcv_queue \<Rightarrow> tcp_segment \<Rightarrow> rcv_queue res" where
  "insertBytesFromSegment q seg =
     (let r = createRegionFromSegment seg in
      if \<not> acceptableRange (regionList q) r
      then Inl (RuntimeError ''The new segment is out of the acceptable range at the queue'')
      else bindR (rcvq_merge (regionList q) r) (\<lambda>rl.
        Inr (q\<lparr>regionList := rl,
               rcvq_nxt := (if seqGE (rcvq_nxt q) (rr_begin (hd rl)) then rr_end (hd rl) else rcvq_nxt q)\<rparr>)))"

definition extractTo :: "rcv_queue \<Rightarrow> u32 \<Rightarrow> (rcv_region option \<times> rcv_queue) res" where
  "extractTo q seq =
     bindR (assertR (seqLE seq (rcvq_nxt q)) ''extractTo'') (\<lambda>_.
     case regionList q of
       [] \<Rightarrow> Inr (None, q)
     | reg # rl \<Rightarrow>
         if seqLE seq (rr_begin reg) then Inr (None, q)
         else if seqGE seq (rr_end reg) then Inr (Some reg, q\<lparr>regionList := rl\<rparr>)
         else bindR (region_split reg seq) (\<lambda>(front, rest).
                Inr (Some front, q\<lparr>regionList := rest # rl\<rparr>)))"

text \<open>The extracted packet is represented by its byte length.\<close>

definition extractBytesUpTo :: "rcv_queue \<Rightarrow> u32 \<Rightarrow> (u64 option \<times> rcv_queue) res" where
  "extractBytesUpTo q seq =
     bindR (extractTo q seq) (\<lambda>(reg, q'). Inr (map_option region_getLength reg, q'))"

definition getAmountOfBufferedBytes :: "rcv_queue \<Rightarrow> u32" where
  "getAmountOfBufferedBytes q = fold (\<lambda>r bytes. bytes + ucast (region_getLength r)) (regionList q) 0"

definition getAmountOfFreeBytes :: "rcv_queue \<Rightarrow> u32 \<Rightarrow> u32" where
  "getAmountOfFreeBytes q maxRcvBuffer =
     (let usedRcvBuffer = getAmountOfBufferedBytes q in
      if maxRcvBuffer > usedRcvBuffer then maxRcvBuffer - usedRcvBuffer else 0)"

definition rcvq_getQueueLength :: "rcv_queue \<Rightarrow> u32" where
  "rcvq_getQueueLength q = of_nat (length (regionList q))"

fun leftEdge :: "rcv_region list \<Rightarrow> u32 \<Rightarrow> u32" where
  "leftEdge [] fromSeqNum = fromSeqNum"
| "leftEdge (i # is) fromSeqNum =
     (if seqLE (rr_begin i) fromSeqNum \<and> seqLess fromSeqNum (rr_end i) then rr_begin i
      else leftEdge is fromSeqNum)"

definition getLE :: "rcv_queue \<Rightarrow> u32 \<Rightarrow> u32" where
  "getLE q fromSeqNum = leftEdge (regionList q) fromSeqNum"

fun rightEdge :: "rcv_region list \<Rightarrow> u32 \<Rightarrow> u32" where
  "rightEdge [] toSeqNum = toSeqNum"
| "rightEdge (i # is) toSeqNum =
     (if seqLess (rr_begin i) toSeqNum \<and> seqLE toSeqNum (rr_end i) then rr_end i
      else rightEdge is toSeqNum)"

definition getRE :: "rcv_queue \<Rightarrow> u32 \<Rightarrow> u32" where
  "getRE q toSeqNum = rightEdge (regionList q) toSeqNum"

definition getFirstSeqNo :: "rcv_queue \<Rightarrow> u32" where
  "getFirstSeqNo q = (if regionList q = [] then rcvq_nxt q
     else seqMin (rr_begin (hd (regionList q))) (rcvq_nxt q))"

section \<open>Abstract view and invariant\<close>

definition regionBytes :: "rcv_region \<Rightarrow> u32 set" where
  "regionBytes r = byteRange (rr_begin r) (rr_end r)"

definition rcvBytes :: "rcv_region list \<Rightarrow> u32 set" where
  "rcvBytes rl = (\<Union>r\<in>set rl. regionBytes r)"

text \<open>
  In the window above \<open>b\<close>, the regions are non-empty, ascending, and no two of them touch; the
  first one starts at offset \<open>lo\<close> or later.
\<close>

fun rlOk :: "u32 \<Rightarrow> nat \<Rightarrow> rcv_region list \<Rightarrow> bool" where
  "rlOk b lo [] = True"
| "rlOk b lo (r # rs) =
     (lo \<le> off b (rr_begin r) \<and> off b (rr_begin r) < off b (rr_end r) \<and> off b (rr_end r) < 2 ^ 31 \<and>
      rlOk b (off b (rr_end r) + 1) rs)"

definition rcvq_ok :: "u32 \<Rightarrow> rcv_queue \<Rightarrow> bool" where
  "rcvq_ok b q \<longleftrightarrow> rlOk b 0 (regionList q) \<and> inwin b (rcvq_nxt q) \<and>
     (case regionList q of [] \<Rightarrow> True
      | r # rs \<Rightarrow> off b (rr_begin r) \<le> off b (rcvq_nxt q) \<longrightarrow> rr_end r = rcvq_nxt q)"

lemma rcvBytes_simps [simp]:
  "rcvBytes [] = {}" "rcvBytes (r # rs) = regionBytes r \<union> rcvBytes rs"
  "rcvBytes (rs @ rs') = rcvBytes rs \<union> rcvBytes rs'" "rcvBytes (rev rs) = rcvBytes rs"
  by (auto simp: rcvBytes_def)

lemma regionBytes_win:
  assumes "off b (rr_begin r) \<le> off b (rr_end r)"
  shows "x \<in> regionBytes r \<longleftrightarrow> off b (rr_begin r) \<le> off b x \<and> off b x < off b (rr_end r)"
  unfolding regionBytes_def using assms by (rule byteRange_win)

lemma rlOk_append:
  "rlOk b lo (xs @ r # ys) \<longleftrightarrow> rlOk b lo (xs @ [r]) \<and> rlOk b (off b (rr_end r) + 1) ys"
  by (induction xs arbitrary: lo) auto

lemma rlOk_prefix: "rlOk b lo (xs @ ys) \<Longrightarrow> rlOk b lo xs"
  by (induction xs arbitrary: lo) auto

lemma rlOk_mono: "rlOk b lo rs \<Longrightarrow> lo' \<le> lo \<Longrightarrow> rlOk b lo' rs"
  by (cases rs) auto

lemma rlOk_bytes_ge: "rlOk b lo rs \<Longrightarrow> x \<in> rcvBytes rs \<Longrightarrow> lo \<le> off b x \<and> off b x < 2 ^ 31"
proof (induction rs arbitrary: lo)
  case (Cons r rs)
  then show ?case using regionBytes_win [of b r x] by fastforce
qed simp

lemma rlOk_last: "rlOk b lo (r # rs) \<Longrightarrow> off b (rr_begin r) < off b (rr_end (last (r # rs))) \<and>
    off b (rr_end (last (r # rs))) < 2 ^ 31"
proof (induction rs arbitrary: lo r)
  case (Cons r' rs)
  from Cons.prems have "rlOk b (off b (rr_end r) + 1) (r' # rs)" by simp
  from Cons.IH [OF this] Cons.prems show ?case by auto
qed simp

section \<open>Merging\<close>

definition segOk :: "u32 \<Rightarrow> rcv_region \<Rightarrow> bool" where
  "segOk b r \<longleftrightarrow> off b (rr_begin r) < off b (rr_end r) \<and> off b (rr_end r) < 2 ^ 31"

lemma segOk_win: "segOk b r \<Longrightarrow> inwin b (rr_begin r) \<and> inwin b (rr_end r)"
  by (auto simp: segOk_def inwin_def)

lemma region_compare_win:
  assumes "segOk b i" "segOk b s"
  shows "region_compare i s = BEFORE \<longleftrightarrow> off b (rr_end i) < off b (rr_begin s)"
    and "region_compare i s = AFTER \<longleftrightarrow> off b (rr_end s) < off b (rr_begin i)"
  using assms segOk_win [OF assms(1)] segOk_win [OF assms(2)]
  by (auto simp: region_compare_def segOk_def seqLess_win [of b] off_inj)

lemma region_merge_win:
  assumes "segOk b s" "segOk b i" "\<not> off b (rr_end i) < off b (rr_begin s)"
    "\<not> off b (rr_end s) < off b (rr_begin i)"
  shows "\<exists>s'. region_merge s i = Some s' \<and> off b (rr_begin s') = min (off b (rr_begin s)) (off b (rr_begin i)) \<and>
     off b (rr_end s') = max (off b (rr_end s)) (off b (rr_end i)) \<and> segOk b s' \<and>
     regionBytes s' = regionBytes s \<union> regionBytes i"
proof -
  note w = segOk_win [OF assms(1)] segOk_win [OF assms(2)]
  have "region_merge s i = Some \<lparr>rr_begin = (if off b (rr_begin i) < off b (rr_begin s) then rr_begin i else rr_begin s),
      rr_end = (if off b (rr_end s) < off b (rr_end i) then rr_end i else rr_end s)\<rparr>"
    using w assms by (cases s) (simp add: region_merge_def seqLess_win [of b])
  then obtain s' where s': "region_merge s i = Some s'"
      "off b (rr_begin s') = min (off b (rr_begin s)) (off b (rr_begin i))"
      "off b (rr_end s') = max (off b (rr_end s)) (off b (rr_end i))" by fastforce
  have ok: "segOk b s'" using s' assms by (auto simp: segOk_def)
  moreover have "regionBytes s' = regionBytes s \<union> regionBytes i"
    using s' ok assms
    by (auto simp: set_eq_iff segOk_def regionBytes_win [of b s'] regionBytes_win [of b s] regionBytes_win [of b i])
  ultimately show ?thesis using s' by blast
qed

lemma rlOk_drop: "rlOk b lo (xs @ r # ys) \<Longrightarrow> rlOk b lo (xs @ ys)"
  by (induction xs arbitrary: lo) (auto elim: rlOk_mono)

lemma rlOk_member: "rlOk b lo rs \<Longrightarrow> r \<in> set rs \<Longrightarrow> segOk b r"
  by (induction rs arbitrary: lo) (auto simp: segOk_def)

lemma mergeLoop_spec:
  assumes "rlOk b 0 (rev revis @ passed)" "segOk b s" "rlOk b (off b (rr_end s) + 1) passed"
  shows "\<exists>rl. mergeLoop revis passed s = Inr rl \<and> rlOk b 0 rl \<and> rl \<noteq> [] \<and>
     rcvBytes rl = rcvBytes revis \<union> rcvBytes passed \<union> regionBytes s"
  using assms
proof (induction revis arbitrary: passed s)
  case Nil
  then show ?case by (auto simp: segOk_def)
next
  case (Cons i revis)
  have rl: "rlOk b 0 (rev revis @ i # passed)" using Cons.prems(1) by simp
  then have i: "rlOk b 0 (rev revis @ [i])" "rlOk b (off b (rr_end i) + 1) passed"
    using rlOk_append by blast+
  have si: "segOk b i" using rlOk_member [OF i(1)] by simp
  note cmp = region_compare_win [OF si Cons.prems(2)]
  show ?case
  proof (cases "region_compare i s = BEFORE")
    case True
    then have "rlOk b 0 (rev revis @ i # s # passed)"
      using i(1) Cons.prems(2,3) cmp by (subst rlOk_append) (auto simp: segOk_def)
    with True show ?thesis by auto
  next
    case nb: False
    show ?thesis
    proof (cases "region_compare i s = AFTER")
      case True
      then have "rlOk b (off b (rr_end s) + 1) (i # passed)" using si i(2) cmp by (simp add: segOk_def)
      from Cons.IH [OF rl Cons.prems(2) this] True show ?thesis by auto
    next
      case False
      obtain s' where s': "region_merge s i = Some s'" "off b (rr_end s') = max (off b (rr_end s)) (off b (rr_end i))"
          "segOk b s'" "regionBytes s' = regionBytes s \<union> regionBytes i"
        using region_merge_win [OF Cons.prems(2) si] nb False cmp by blast
      have p: "rlOk b (off b (rr_end s') + 1) passed" using i(2) Cons.prems(3) s'(2) by (cases passed) auto
      have q: "rlOk b 0 (rev revis @ passed)"
        using rl by (rule rlOk_drop)
      from Cons.IH [OF q s'(3) p] s' nb False show ?thesis by auto
    qed
  qed
qed

section \<open>Insertion and extraction\<close>

lemma rlOk_end_gap: "rlOk b lo (r # rs) \<Longrightarrow> rr_end r \<notin> rcvBytes (r # rs)"
  using rlOk_bytes_ge [of b "off b (rr_end r) + 1" rs "rr_end r"]
  by (auto simp: regionBytes_def byteRange_def)

lemma rlOk_front_range:
  "rlOk b lo (r # rs) \<Longrightarrow> off b (rr_begin r) \<le> off b x \<Longrightarrow> off b x < off b (rr_end r) \<Longrightarrow> x \<in> rcvBytes (r # rs)"
  using regionBytes_win [of b r x] by simp

text \<open>Below the front region there is nothing.\<close>

lemma rlOk_below_front: "rlOk b lo (r # rs) \<Longrightarrow> x \<in> rcvBytes (r # rs) \<Longrightarrow> off b (rr_begin r) \<le> off b x"
  using rlOk_bytes_ge [of b "off b (rr_end r) + 1" rs x] regionBytes_win [of b r x] by auto

text \<open>All bytes below the next expected one are in the front region.\<close>

lemma rcvq_ok_below:
  assumes "rcvq_ok b q" "x \<in> rcvBytes (regionList q)" "off b x \<le> off b (rcvq_nxt q)"
  obtains r rs where "regionList q = r # rs" "rr_end r = rcvq_nxt q" "off b (rr_begin r) \<le> off b x"
    "off b x < off b (rcvq_nxt q)"
proof (cases "regionList q")
  case (Cons r rs)
  have ok: "rlOk b 0 (r # rs)" using assms(1) Cons by (simp add: rcvq_ok_def)
  have le: "off b (rr_begin r) \<le> off b x" using rlOk_below_front [OF ok] assms(2) Cons by simp
  then have e: "rr_end r = rcvq_nxt q" using assms(1,3) Cons by (auto simp: rcvq_ok_def)
  have "x \<noteq> rr_end r" using rlOk_end_gap [OF ok] assms(2) Cons by auto
  with e assms(3) have "off b x < off b (rcvq_nxt q)" by (metis le_neq_implies_less off_inj)
  with that [OF Cons e le] show thesis .
qed (use assms in simp)

lemma nxt_not_buffered: "rcvq_ok b q \<Longrightarrow> rcvq_nxt q \<notin> rcvBytes (regionList q)"
  by (rule notI, erule (1) rcvq_ok_below) auto

lemma acceptableRange_ok:
  assumes "rlOk b 0 rl" "segOk b r"
  shows "acceptableRange rl r"
proof (cases rl)
  case (Cons r0 rs)
  have l: "off b (rr_begin r0) < off b (rr_end (last rl))" "off b (rr_end (last rl)) < 2 ^ 31"
    using rlOk_last [of b 0 r0 rs] assms(1) Cons by auto
  then have w: "inwin b (rr_begin r0)" "inwin b (rr_end (last rl))" by (auto simp: inwin_def)
  note w' = segOk_win [OF assms(2)]
  show ?thesis
    using l w w' assms(2) Cons
    by (auto simp: acceptableRange_def Let_def segOk_def seqMin_win [of b] seqMax_win [of b] seqGE_win [of b])
qed (simp add: acceptableRange_def)

definition segInWin :: "u32 \<Rightarrow> tcp_segment \<Rightarrow> bool" where
  "segInWin b seg \<longleftrightarrow> 0 < payloadLength seg \<and> off b (sequenceNo seg) + unat (payloadLength seg) < 2 ^ 31"

lemma createRegion_ok:
  assumes "segInWin b seg"
  shows "segOk b (createRegionFromSegment seg)" "regionBytes (createRegionFromSegment seg) = segBytes seg"
proof -
  have n: "unat (payloadLength seg) < 2 ^ 32" using assms by (simp add: segInWin_def)
  have u: "unat (ucast (payloadLength seg) :: u32) = unat (payloadLength seg)" using n by (rule unat_ucast_narrow)
  have "off b (sequenceNo seg + of_nat (unat (ucast (payloadLength seg) :: u32))) =
      off b (sequenceNo seg) + unat (payloadLength seg)"
    using assms u by (subst off_add_nat) (auto simp: segInWin_def)
  then have "off b (sequenceNo seg + ucast (payloadLength seg)) = off b (sequenceNo seg) + unat (payloadLength seg)"
    by (simp add: of_nat_unat)
  then show "segOk b (createRegionFromSegment seg)"
    using assms by (auto simp: segOk_def createRegionFromSegment_def segInWin_def unat_gt_0)
  show "regionBytes (createRegionFromSegment seg) = segBytes seg"
    using segBytes_range [OF n] by (simp add: regionBytes_def createRegionFromSegment_def)
qed

lemma insert_spec:
  assumes ok: "rcvq_ok b q" and seg: "segInWin b seg" "off b (rcvq_nxt q) \<le> off b (sequenceNo seg)"
  shows "\<exists>q'. insertBytesFromSegment q seg = Inr q' \<and> rcvq_ok b q' \<and>
     rcvBytes (regionList q') = rcvBytes (regionList q) \<union> segBytes seg \<and>
     off b (rcvq_nxt q) \<le> off b (rcvq_nxt q') \<and>
     (\<forall>x. off b (rcvq_nxt q) \<le> off b x \<longrightarrow> off b x < off b (rcvq_nxt q') \<longrightarrow> x \<in> rcvBytes (regionList q'))"
proof -
  let ?r = "createRegionFromSegment seg" and ?rl = "regionList q" and ?n = "rcvq_nxt q"
  note r = createRegion_ok [OF seg(1)]
  have rl: "rlOk b 0 ?rl" and w: "inwin b ?n" using ok by (auto simp: rcvq_ok_def)
  obtain r' rs' where m: "rcvq_merge ?rl ?r = Inr (r' # rs')" and ok': "rlOk b 0 (r' # rs')"
      and un: "rcvBytes (r' # rs') = rcvBytes ?rl \<union> segBytes seg"
    using mergeLoop_spec [of b "rev ?rl" "[]" ?r] rl r
    by (auto simp: rcvq_merge_def neq_Nil_conv)
  have w': "inwin b (rr_begin r')" using ok' by (auto simp: inwin_def)
  let ?n' = "if off b (rr_begin r') \<le> off b ?n then rr_end r' else ?n"
  let ?q' = "q\<lparr>regionList := r' # rs', rcvq_nxt := ?n'\<rparr>"
  have ins: "insertBytesFromSegment q seg = Inr ?q'"
    using acceptableRange_ok [OF rl r(1)] m w w' by (simp add: insertBytesFromSegment_def Let_def seqGE_win [of b])
  have le: "off b ?n \<le> off b ?n'"
  proof (rule ccontr)
    assume h: "\<not> off b ?n \<le> off b ?n'"
    then have c: "off b (rr_begin r') \<le> off b ?n" "off b (rr_end r') < off b ?n" by (auto split: if_splits)
    have "rr_begin r' \<in> rcvBytes (r' # rs')" using ok' by (intro rlOk_front_range [OF ok']) auto
    moreover have "rr_begin r' \<notin> segBytes seg"
    proof
      assume "rr_begin r' \<in> segBytes seg"
      then have "off b (sequenceNo seg) \<le> off b (rr_begin r')"
        using r regionBytes_win [of b ?r "rr_begin r'"] by (auto simp: segOk_def createRegionFromSegment_def)
      then show False using c seg(2) ok' by simp
    qed
    ultimately have "rr_begin r' \<in> rcvBytes ?rl" using un by auto
    then obtain r0 rs where r0: "?rl = r0 # rs" "rr_end r0 = ?n" "off b (rr_begin r0) \<le> off b (rr_begin r')"
      using rcvq_ok_below [OF ok _ c(1)] by metis
    have "rr_end r' \<in> rcvBytes (r0 # rs)"
      using rl r0 c ok' by (intro rlOk_front_range [of b 0]) auto
    then have "rr_end r' \<in> rcvBytes (r' # rs')" using un r0 by simp
    with rlOk_end_gap [OF ok'] show False by simp
  qed
  have inv: "rcvq_ok b ?q'" using ok' w by (auto simp: rcvq_ok_def inwin_def)
  have F: "\<forall>x. off b ?n \<le> off b x \<longrightarrow> off b x < off b ?n' \<longrightarrow> x \<in> rcvBytes (r' # rs')"
    by (intro allI impI rlOk_front_range [OF ok']) (auto split: if_splits)
  show ?thesis
    by (intro exI [of _ ?q'] conjI ins inv) (use un le F in \<open>simp_all del: rcvBytes_simps\<close>)
qed

lemma card_byteRange: "card (byteRange a e) = off a e"
proof -
  have "bij_betw (off a) (byteRange a e) {..<off a e}"
  proof (rule bij_betwI')
    fix n assume n: "n \<in> {..<off a e}"
    have "off a (a + of_nat n) = n"
      using n off_lt [of a e] off_add_nat [of a a n] by simp
    with n show "\<exists>x\<in>byteRange a e. n = off a x"
      by (intro bexI [of _ "a + of_nat n"]) (auto simp: byteRange_def)
  qed (auto simp: off_inj byteRange_def)
  then show ?thesis by (simp add: bij_betw_same_card)
qed

lemma region_length_card: "unat (region_getLength r) = card (regionBytes r)"
  by (simp add: region_getLength_def regionBytes_def card_byteRange off_def)

text \<open>Extraction up to \<open>seq\<close> takes out exactly the bytes below it.\<close>

lemma extract_spec:
  assumes ok: "rcvq_ok b q" and s: "inwin b s" "off b s \<le> off b (rcvq_nxt q)"
  shows "\<exists>n q'. extractBytesUpTo q s = Inr (n, q') \<and> rcvq_ok b q' \<and> rcvq_nxt q' = rcvq_nxt q \<and>
     rcvBytes (regionList q') = {x \<in> rcvBytes (regionList q). off b s \<le> off b x} \<and>
     (case n of None \<Rightarrow> 0 | Some k \<Rightarrow> unat k) = card {x \<in> rcvBytes (regionList q). off b x < off b s}"
proof (cases "regionList q")
  case Nil
  with ok s show ?thesis
    by (auto simp: extractBytesUpTo_def extractTo_def rcvq_ok_def seqLE_win [of b])
next
  case (Cons r rs)
  let ?n = "rcvq_nxt q"
  have rl: "rlOk b 0 (r # rs)" and w: "inwin b ?n" and a: "seqLE s ?n"
    using ok Cons s by (auto simp: rcvq_ok_def seqLE_win [of b])
  have wr: "inwin b (rr_begin r)" "inwin b (rr_end r)" using rl by (auto simp: inwin_def)
  have R: "x \<in> regionBytes r \<longleftrightarrow> off b (rr_begin r) \<le> off b x \<and> off b x < off b (rr_end r)" for x
    using rl by (intro regionBytes_win) auto
  have G: "x \<in> rcvBytes rs \<Longrightarrow> off b (rr_end r) < off b x" for x
    using rlOk_bytes_ge [of b "off b (rr_end r) + 1" rs x] rl by auto
  show ?thesis
  proof (cases "off b s \<le> off b (rr_begin r)")
    case True
    then have e: "{x \<in> rcvBytes (regionList q). off b x < off b s} = {}"
      "{x \<in> rcvBytes (regionList q). off b s \<le> off b x} = rcvBytes (regionList q)"
      using rlOk_below_front [OF rl] Cons by force+
    have "extractBytesUpTo q s = Inr (None, q)"
      using True s a wr Cons by (simp add: extractBytesUpTo_def extractTo_def seqLE_win [of b])
    with ok e show ?thesis by simp
  next
    case False
    then have nx: "rr_end r = ?n" using ok Cons s by (auto simp: rcvq_ok_def)
    have low: "off b s \<le> off b x" if "x \<in> rcvBytes rs" for x using G [OF that] s(2) nx by simp
    show ?thesis
    proof (cases "s = ?n")
      case True
      have "extractBytesUpTo q s = Inr (Some (region_getLength r), q\<lparr>regionList := rs\<rparr>)"
        using False True a s w wr nx Cons by (simp add: extractBytesUpTo_def extractTo_def seqLE_win [of b] seqGE_win [of b])
      moreover have "rcvq_ok b (q\<lparr>regionList := rs\<rparr>)"
        using rl w nx by (cases rs) (auto simp: rcvq_ok_def)
      moreover have "rcvBytes rs = {x \<in> rcvBytes (regionList q). off b s \<le> off b x}"
        "regionBytes r = {x \<in> rcvBytes (regionList q). off b x < off b s}"
        using Cons R low True nx by force+
      ultimately show ?thesis by (simp add: region_length_card)
    next
      case ne: False
      then have lt: "off b s < off b (rr_end r)" using s(2) nx by (metis le_neq_implies_less off_inj)
      let ?f = "\<lparr>rr_begin = rr_begin r, rr_end = s\<rparr>" and ?t = "r\<lparr>rr_begin := s\<rparr>"
      have "extractBytesUpTo q s = Inr (Some (region_getLength ?f), q\<lparr>regionList := ?t # rs\<rparr>)"
        using False lt a s w wr nx Cons
        by (simp add: extractBytesUpTo_def extractTo_def region_split_def seqLE_win [of b] seqGE_win [of b]
              seqGreater_win [of b] seqLess_win [of b])
      moreover have "rcvq_ok b (q\<lparr>regionList := ?t # rs\<rparr>)"
        using rl w nx lt by (auto simp: rcvq_ok_def)
      moreover have "rcvBytes (?t # rs) = {x \<in> rcvBytes (regionList q). off b s \<le> off b x}"
        using Cons R low lt False regionBytes_win [of b ?t] by force
      moreover have "regionBytes ?f = {x \<in> rcvBytes (regionList q). off b x < off b s}"
        using Cons R low lt False regionBytes_win [of b ?f] by force
      ultimately show ?thesis by (simp add: region_length_card)
    qed
  qed
qed

section \<open>The interface to the connection\<close>

text \<open>
  What the connection relies on: a receive queue keeps a set of bytes in a half-circle of
  sequence numbers above \<open>b\<close> and the number of the first byte it lacks; inserting a segment at or
  above that number adds the segment's bytes, and extracting up to it delivers all bytes below.
\<close>

locale receive_queue =
  fixes ok :: "u32 \<Rightarrow> 'q \<Rightarrow> bool"
    and nxt :: "'q \<Rightarrow> u32"
    and buffered :: "'q \<Rightarrow> u32 set"
    and ins :: "'q \<Rightarrow> tcp_segment \<Rightarrow> 'q res"
    and takeOut :: "'q \<Rightarrow> u32 \<Rightarrow> (u64 option \<times> 'q) res"
  assumes ins_law: "ok b q \<Longrightarrow> segInWin b seg \<Longrightarrow> off b (nxt q) \<le> off b (sequenceNo seg) \<Longrightarrow>
      \<exists>q'. ins q seg = Inr q' \<and> ok b q' \<and> buffered q' = buffered q \<union> segBytes seg \<and>
        off b (nxt q) \<le> off b (nxt q') \<and>
        (\<forall>x. off b (nxt q) \<le> off b x \<longrightarrow> off b x < off b (nxt q') \<longrightarrow> x \<in> buffered q')"
    and extract_law: "ok b q \<Longrightarrow>
      \<exists>n q'. takeOut q (nxt q) = Inr (n, q') \<and> ok (nxt q) q' \<and> nxt q' = nxt q \<and>
        buffered q' = {x \<in> buffered q. off b (nxt q) \<le> off b x} \<and>
        (case n of None \<Rightarrow> 0 | Some k \<Rightarrow> unat k) = card {x \<in> buffered q. off b x < off b (nxt q)}"
    and nxt_missing: "ok b q \<Longrightarrow> nxt q \<notin> buffered q"
    and in_window: "ok b q \<Longrightarrow> x \<in> buffered q \<union> {nxt q} \<Longrightarrow> off b x < 2 ^ 31"
begin

text \<open>A segment arrives and everything in order is handed to the application.\<close>

definition deliver :: "'q \<Rightarrow> tcp_segment \<Rightarrow> (nat \<times> 'q) res" where
  "deliver q seg = bindR (ins q seg) (\<lambda>q1. bindR (takeOut q1 (nxt q1)) (\<lambda>(n, q2).
     Inr (case n of None \<Rightarrow> 0 | Some k \<Rightarrow> unat k, q2)))"

primrec deliverAll :: "'q \<Rightarrow> tcp_segment list \<Rightarrow> (nat \<times> 'q) res" where
  "deliverAll q [] = Inr (0, q)"
| "deliverAll q (seg # segs) = bindR (deliver q seg) (\<lambda>(n, q1).
     bindR (deliverAll q1 segs) (\<lambda>(k, q2). Inr (n + k, q2)))"

lemma deliver_spec:
  assumes ok: "ok (nxt q) q" and seg: "segInWin (nxt q) seg"
  shows "\<exists>n q'. deliver q seg = Inr (n, q') \<and> ok (nxt q') q' \<and> n = off (nxt q) (nxt q') \<and> n < 2 ^ 31 \<and>
     byteRange (nxt q) (nxt q') \<subseteq> buffered q \<union> segBytes seg \<and>
     buffered q' = (buffered q \<union> segBytes seg) - byteRange (nxt q) (nxt q')"
proof -
  let ?b = "nxt q"
  obtain q1 where q1: "ins q seg = Inr q1" "ok ?b q1" "buffered q1 = buffered q \<union> segBytes seg"
      "\<And>x. off ?b x < off ?b (nxt q1) \<Longrightarrow> x \<in> buffered q1"
    using ins_law [OF ok seg] by auto
  obtain n q2 where q2: "takeOut q1 (nxt q1) = Inr (n, q2)" "ok (nxt q1) q2" "nxt q2 = nxt q1"
      "buffered q2 = {x \<in> buffered q1. off ?b (nxt q1) \<le> off ?b x}"
      "(case n of None \<Rightarrow> 0 | Some k \<Rightarrow> unat k) = card {x \<in> buffered q1. off ?b x < off ?b (nxt q1)}"
    using extract_law [OF q1(2)] by blast
  have "{x \<in> buffered q1. off ?b x < off ?b (nxt q1)} = byteRange ?b (nxt q1)"
    using q1(4) by (auto simp: byteRange_def)
  then have n: "(case n of None \<Rightarrow> 0 | Some k \<Rightarrow> unat k) = off ?b (nxt q1)"
    using q2(5) by (simp add: card_byteRange)
  have "buffered q2 = (buffered q \<union> segBytes seg) - byteRange ?b (nxt q2)"
    using q2(3,4) q1(3) by (auto simp: byteRange_def)
  moreover have "off ?b (nxt q1) < 2 ^ 31" using in_window [OF q1(2), of "nxt q1"] by simp
  ultimately show ?thesis
    using q1 q2(1-3) n by (auto simp: deliver_def byteRange_def)
qed

text \<open>Every segment starts at or above the next expected byte at the moment it arrives.\<close>

primrec legal :: "'q \<Rightarrow> tcp_segment list \<Rightarrow> bool" where
  "legal q [] = True"
| "legal q (seg # segs) = (segInWin (nxt q) seg \<and>
     (case deliver q seg of Inl e \<Rightarrow> True | Inr (n, q') \<Rightarrow> legal q' segs))"

definition inHalf :: "u32 \<Rightarrow> 'q \<Rightarrow> bool" where
  "inHalf b q \<longleftrightarrow> inwin b (nxt q) \<and> (\<forall>x\<in>buffered q. off b (nxt q) \<le> off b x \<and> off b x + 1 < 2 ^ 31)"

lemma deliver_inHalf:
  assumes ok: "ok (nxt q) q" and seg: "segInWin (nxt q) seg" "segInWin b seg" and w: "inHalf b q"
    and d: "deliver q seg = Inr (n, q')"
  shows "ok (nxt q') q'" "inHalf b q'" "off b (nxt q') = off b (nxt q) + n"
    "byteRange (nxt q) (nxt q') \<subseteq> buffered q \<union> segBytes seg"
    "buffered q' = (buffered q \<union> segBytes seg) - byteRange (nxt q) (nxt q')"
proof -
  let ?c = "nxt q" and ?c' = "nxt q'"
  obtain m q1 where q1: "deliver q seg = Inr (m, q1)" "ok (nxt q1) q1" "m = off ?c (nxt q1)" "m < 2 ^ 31"
     "byteRange ?c (nxt q1) \<subseteq> buffered q \<union> segBytes seg"
     "buffered q1 = (buffered q \<union> segBytes seg) - byteRange ?c (nxt q1)"
    using deliver_spec [OF ok seg(1)] by (elim exE conjE)
  have eq: "m = n" "q1 = q'" using q1(1) d by (simp_all only: sum.inject prod.inject)
  note q' = q1(2-6) [unfolded eq]
  show "ok ?c' q'" "byteRange ?c ?c' \<subseteq> buffered q \<union> segBytes seg"
    "buffered q' = (buffered q \<union> segBytes seg) - byteRange ?c ?c'" by (fact q')+
  have c: "off b ?c < 2 ^ 31" using w by (simp add: inHalf_def inwin_def)
  show o: "off b ?c' = off b ?c + n" using off_split [of b ?c ?c'] q'(2,3) c by simp
  have sb: "off b x + 1 < 2 ^ 31" if "x \<in> segBytes seg" for x
  proof -
    have "off b x = off b (sequenceNo seg) + off (sequenceNo seg) x"
      using that seg(2) by (intro off_split) (auto simp: segBytes_def segInWin_def)
    with that seg(2) show ?thesis by (auto simp: segBytes_def segInWin_def)
  qed
  have sc: "off b ?c \<le> off b x" if "x \<in> segBytes seg" for x
  proof -
    have "off ?c x = off ?c (sequenceNo seg) + off (sequenceNo seg) x"
      using that seg(1) by (intro off_split) (auto simp: segBytes_def segInWin_def)
    then have "off ?c x < 2 ^ 31" using that seg(1) by (auto simp: segBytes_def segInWin_def)
    then have "off b x = off b ?c + off ?c x" using c by (intro off_split) simp
    then show ?thesis by simp
  qed
  have all: "off b ?c \<le> off b x \<and> off b x + 1 < 2 ^ 31" if "x \<in> buffered q \<union> segBytes seg" for x
    using that sb sc w by (auto simp: inHalf_def)
  have "off b ?c' < 2 ^ 31"
  proof (cases n)
    case (Suc k)
    let ?x = "?c + of_nat k"
    have k: "off ?c ?x = k" using Suc q'(3) off_add_nat [of ?c ?c k] by simp
    then have "?x \<in> byteRange ?c ?c'" using Suc q'(2) by (simp add: byteRange_def)
    then have "off b ?x + 1 < 2 ^ 31" using q'(4) all by blast
    moreover have "off b ?x = off b ?c + k" using off_split [of b ?c ?x] k Suc q'(3) c by simp
    ultimately show ?thesis using o Suc by simp
  qed (use o c in simp)
  moreover have "off b ?c' \<le> off b x" if "x \<in> buffered q'" for x
  proof -
    have a: "off b ?c \<le> off b x" "x \<notin> byteRange ?c ?c'" using that q'(5) all by auto
    then show ?thesis using byteRange_win [of b ?c ?c' x] o by simp
  qed
  ultimately show "inHalf b q'" using all q'(5) by (auto simp: inHalf_def inwin_def)
qed

text \<open>
  Whatever the order, the overlaps and the duplicates: the bytes delivered are a gap-free run from
  the first expected byte to the first byte that no segment carried.
\<close>

lemma deliverAll_spec:
  assumes "ok (nxt q) q" "inHalf b q" "\<forall>seg\<in>set segs. segInWin b seg" "legal q segs"
  shows "\<exists>n q'. deliverAll q segs = Inr (n, q') \<and> ok (nxt q') q' \<and> inHalf b q' \<and>
     off b (nxt q') = off b (nxt q) + n \<and>
     byteRange (nxt q) (nxt q') \<subseteq> buffered q \<union> (\<Union>seg\<in>set segs. segBytes seg) \<and>
     nxt q' \<notin> buffered q \<union> (\<Union>seg\<in>set segs. segBytes seg)"
  using assms
proof (induction segs arbitrary: q)
  case Nil
  then show ?case using nxt_missing by (auto simp: byteRange_def)
next
  case (Cons seg segs)
  have seg: "segInWin (nxt q) seg" "segInWin b seg" using Cons.prems(3,4) by auto
  obtain n q1 where d: "deliver q seg = Inr (n, q1)" using deliver_spec [OF Cons.prems(1) seg(1)] by blast
  note 1 = deliver_inHalf [OF Cons.prems(1) seg Cons.prems(2) d]
  have "legal q1 segs" "\<forall>seg\<in>set segs. segInWin b seg" using Cons.prems(3,4) d by auto
  from Cons.IH [OF 1(1,2) this(2,1)] obtain k q2 where
    2: "deliverAll q1 segs = Inr (k, q2)" "ok (nxt q2) q2" "inHalf b q2" "off b (nxt q2) = off b (nxt q1) + k"
     "byteRange (nxt q1) (nxt q2) \<subseteq> buffered q1 \<union> (\<Union>seg\<in>set segs. segBytes seg)"
     "nxt q2 \<notin> buffered q1 \<union> (\<Union>seg\<in>set segs. segBytes seg)" by blast
  have R: "x \<in> byteRange (nxt q) (nxt q1) \<longleftrightarrow> off b (nxt q) \<le> off b x \<and> off b x < off b (nxt q1)"
    "x \<in> byteRange (nxt q1) (nxt q2) \<longleftrightarrow> off b (nxt q1) \<le> off b x \<and> off b x < off b (nxt q2)"
    "x \<in> byteRange (nxt q) (nxt q2) \<longleftrightarrow> off b (nxt q) \<le> off b x \<and> off b x < off b (nxt q2)" for x
    using 1(3) 2(4) by (simp_all add: byteRange_win [of b])
  have "byteRange (nxt q) (nxt q2) \<subseteq> byteRange (nxt q) (nxt q1) \<union> byteRange (nxt q1) (nxt q2)"
    using R by auto
  then have "byteRange (nxt q) (nxt q2) \<subseteq> buffered q \<union> (\<Union>seg\<in>set (seg # segs). segBytes seg)"
    using 1(4,5) 2(5) by auto
  moreover have "nxt q2 \<notin> byteRange (nxt q) (nxt q1)" using R 2(4) by simp
  ultimately show ?case using d 2 1(3,5) by auto
qed

end

lemma rlOk_rebase:
  assumes "rlOk b lo rs" "off b c \<le> lo"
  shows "rlOk c (lo - off b c) rs"
  using assms
proof (induction rs arbitrary: lo)
  case (Cons r rs)
  have o: "off c (rr_begin r) = off b (rr_begin r) - off b c" "off c (rr_end r) = off b (rr_end r) - off b c"
    using Cons.prems off_trans [of b c "rr_begin r"] off_trans [of b c "rr_end r"] by auto
  have "rlOk c (off b (rr_end r) + 1 - off b c) rs" using Cons by (intro Cons.IH) auto
  moreover have "off b (rr_end r) + 1 - off b c = off c (rr_end r) + 1" using o Cons.prems by auto
  ultimately show ?case using o Cons.prems by auto
qed simp

lemma extract_rebase:
  assumes ok: "rcvq_ok b q"
  shows "\<exists>n q'. extractBytesUpTo q (rcvq_nxt q) = Inr (n, q') \<and> rcvq_ok (rcvq_nxt q) q' \<and> rcvq_nxt q' = rcvq_nxt q \<and>
    rcvBytes (regionList q') = {x \<in> rcvBytes (regionList q). off b (rcvq_nxt q) \<le> off b x} \<and>
    (case n of None \<Rightarrow> 0 | Some k \<Rightarrow> unat k) = card {x \<in> rcvBytes (regionList q). off b x < off b (rcvq_nxt q)}"
proof -
  let ?c = "rcvq_nxt q"
  have w: "inwin b ?c" using ok by (simp add: rcvq_ok_def)
  obtain n q' where q': "extractBytesUpTo q ?c = Inr (n, q')" "rcvq_ok b q'" "rcvq_nxt q' = ?c"
    "rcvBytes (regionList q') = {x \<in> rcvBytes (regionList q). off b ?c \<le> off b x}"
    "(case n of None \<Rightarrow> 0 | Some k \<Rightarrow> unat k) = card {x \<in> rcvBytes (regionList q). off b x < off b ?c}"
    using extract_spec [OF ok w] by auto
  have "rcvq_ok ?c q'"
  proof (cases "regionList q'")
    case (Cons r rs)
    have rl: "rlOk b 0 (r # rs)" using q'(2) Cons by (simp add: rcvq_ok_def)
    have "rr_begin r \<in> rcvBytes (regionList q')" using Cons rlOk_front_range [OF rl, of "rr_begin r"] rl by simp
    then have le: "off b ?c \<le> off b (rr_begin r)" using q'(4) by simp
    then have "rlOk b (off b ?c) (r # rs)" using rl by simp
    from rlOk_rebase [OF this] have "rlOk ?c 0 (r # rs)" by simp
    moreover have "rr_begin r \<noteq> ?c" using \<open>rr_begin r \<in> rcvBytes (regionList q')\<close> nxt_not_buffered [OF q'(2)] q'(3) by auto
    ultimately show ?thesis using Cons q'(3) by (simp add: rcvq_ok_def)
  qed (use q'(3) in \<open>simp add: rcvq_ok_def\<close>)
  with q' show ?thesis by blast
qed

interpretation rcvq: receive_queue rcvq_ok rcvq_nxt "\<lambda>q. rcvBytes (regionList q)"
  insertBytesFromSegment extractBytesUpTo
proof
  fix b q x
  assume ok: "rcvq_ok b q"
  show "rcvq_nxt q \<notin> rcvBytes (regionList q)" using ok by (rule nxt_not_buffered)
  show "off b x < 2 ^ 31" if "x \<in> rcvBytes (regionList q) \<union> {rcvq_nxt q}"
    using that ok rlOk_bytes_ge [of b 0 "regionList q" x] by (auto simp: rcvq_ok_def inwin_def)
qed (use insert_spec extract_rebase in blast)+

section \<open>Properties\<close>

text \<open>
  The connection's use of the queue: a segment is inserted and the bytes that are in order are
  extracted up to the next expected one.
\<close>

definition rcvDeliver :: "rcv_queue \<Rightarrow> tcp_segment \<Rightarrow> (nat \<times> rcv_queue) res" where
  "rcvDeliver q seg = bindR (insertBytesFromSegment q seg) (\<lambda>q1. bindR (extractBytesUpTo q1 (rcvq_nxt q1)) (\<lambda>(n, q2).
     Inr (case n of None \<Rightarrow> 0 | Some k \<Rightarrow> unat k, q2)))"

fun rcvDeliverAll :: "rcv_queue \<Rightarrow> tcp_segment list \<Rightarrow> (nat \<times> rcv_queue) res" where
  "rcvDeliverAll q [] = Inr (0, q)"
| "rcvDeliverAll q (seg # segs) = bindR (rcvDeliver q seg) (\<lambda>(n, q1).
     bindR (rcvDeliverAll q1 segs) (\<lambda>(k, q2). Inr (n + k, q2)))"

fun rcvLegal :: "rcv_queue \<Rightarrow> tcp_segment list \<Rightarrow> bool" where
  "rcvLegal q [] = True"
| "rcvLegal q (seg # segs) = (segInWin (rcvq_nxt q) seg \<and>
     (case rcvDeliver q seg of Inl e \<Rightarrow> True | Inr (n, q') \<Rightarrow> rcvLegal q' segs))"

lemma rcvDeliver_eq: "rcvq.deliver q seg = rcvDeliver q seg"
  by (simp add: rcvq.deliver_def rcvDeliver_def)

lemma rcvDeliverAll_eq: "rcvq.deliverAll q segs = rcvDeliverAll q segs"
  by (induction segs arbitrary: q) (auto simp: rcvDeliver_eq)

lemma rcvLegal_eq: "rcvq.legal q segs = rcvLegal q segs"
  by (induction segs arbitrary: q) (auto simp: rcvDeliver_eq split: sum.splits)

lemma fold_buffered:
  "fold (\<lambda>r bytes. bytes + ucast (region_getLength r)) rl (a :: u32) =
     a + of_nat (sum_list (map (\<lambda>r. off (rr_begin r) (rr_end r)) rl))"
  by (induction rl arbitrary: a) (auto simp: region_getLength_def off_def)

lemma card_rcvBytes:
  "rlOk b lo rl \<Longrightarrow> card (rcvBytes rl) = sum_list (map (\<lambda>r. off (rr_begin r) (rr_end r)) rl) \<and>
     (rl \<noteq> [] \<longrightarrow> lo + card (rcvBytes rl) < 2 ^ 31)"
proof (induction rl arbitrary: lo)
  case (Cons r rl)
  from Cons.prems have ok: "rlOk b (off b (rr_end r) + 1) rl"
    and r: "lo \<le> off b (rr_begin r)" "off b (rr_begin r) < off b (rr_end r)" "off b (rr_end r) < 2 ^ 31" by auto
  have IH: "card (rcvBytes rl) = sum_list (map (\<lambda>r. off (rr_begin r) (rr_end r)) rl)"
    "rl \<noteq> [] \<Longrightarrow> off b (rr_end r) + 1 + card (rcvBytes rl) < 2 ^ 31" using Cons.IH [OF ok] by auto
  have t: "off b (rr_end r) = off b (rr_begin r) + off (rr_begin r) (rr_end r)" using r by (intro off_trans) simp
  have "regionBytes r \<inter> rcvBytes rl = {}"
    using rlOk_bytes_ge [OF ok] regionBytes_win [of b r] r by fastforce
  then have c: "card (rcvBytes (r # rl)) = off (rr_begin r) (rr_end r) + card (rcvBytes rl)"
    by (simp add: card_Un_disjoint regionBytes_def card_byteRange)
  have "rl = [] \<Longrightarrow> card (rcvBytes rl) = 0" by simp
  with c IH t r show ?case by (cases "rl = []") auto
qed simp

lemma buffered_card:
  assumes "rcvq_ok b q"
  shows "unat (getAmountOfBufferedBytes q) = card (rcvBytes (regionList q))"
proof -
  note c = card_rcvBytes [of b 0 "regionList q"]
  have "card (rcvBytes (regionList q)) < 2 ^ 32"
    using c assms by (cases "regionList q = []") (auto simp: rcvq_ok_def)
  with c assms show ?thesis
    by (simp add: getAmountOfBufferedBytes_def fold_buffered unat_of_nat rcvq_ok_def)
qed

text \<open>
  The reassembly buffer used by the witnesses: byte 100 is expected next, bytes 110 to 119 and
  130 to 139 have arrived early.
\<close>

definition sampleRcvQueue :: rcv_queue where
  "sampleRcvQueue = \<lparr>rcvq_nxt = 100, regionList =
     [\<lparr>rr_begin = 110, rr_end = 120\<rparr>, \<lparr>rr_begin = 130, rr_end = 140\<rparr>]\<rparr>"

lemma sampleRcvQueue_ok: "rcvq_ok 100 sampleRcvQueue"
  by (simp add: rcvq_ok_def sampleRcvQueue_def off_def)



text \<open>
  The receive buffer accounting. \<open>getAmountOfBufferedBytes\<close> is the number of buffered bytes,
  and \<open>getAmountOfFreeBytes\<close> what is left of the maximum, never below zero.
\<close>

lemma buffer_accounting:
  assumes "rcvq_ok b q"
  shows "unat (getAmountOfBufferedBytes q) = card (rcvBytes (regionList q)) \<and>
     unat (getAmountOfFreeBytes q maxRcvBuffer) = unat maxRcvBuffer - card (rcvBytes (regionList q))"
proof -
  have c: "unat (getAmountOfBufferedBytes q) = card (rcvBytes (regionList q))" using assms by (rule buffered_card)
  moreover have "unat (getAmountOfFreeBytes q maxRcvBuffer) = unat maxRcvBuffer - unat (getAmountOfBufferedBytes q)"
    by (auto simp: getAmountOfFreeBytes_def Let_def word_less_nat_alt unat_sub word_le_nat_alt)
  ultimately show ?thesis by simp
qed

end
