(* ===== verification/Tcp_SendQueue.thy ===== *)
theory Tcp_SendQueue
  imports Tcp_Segment
begin

text \<open>
  The send queue: the abstract base class \<open>TCPSendQueue\<close>
  (\<open>src/inet/transportlayer/tcp/TCPSendQueue.h\<close>) as the locale \<open>tcp_send_queue\<close>, and its
  implementation for virtual bytes, \<open>TCPVirtualDataSendQueue\<close>
  (\<open>queues/TCPVirtualDataSendQueue.cc\<close>), which keeps the bounds of the unacknowledged and unsent
  data only.
\<close>

section \<open>Operations\<close>

record send_queue =
  sq_begin :: u32
  sq_end :: u32

definition sq_new :: send_queue where
  "sq_new = \<lparr>sq_begin = 0, sq_end = 0\<rparr>"

definition sq_init :: "send_queue \<Rightarrow> u32 \<Rightarrow> send_queue" where
  "sq_init q startSeq = q\<lparr>sq_begin := startSeq, sq_end := startSeq\<rparr>"

text \<open>The application message is represented by its byte length (an \<open>int64\<close>).\<close>

definition enqueueAppData :: "send_queue \<Rightarrow> u64 \<Rightarrow> send_queue res" where
  "enqueueAppData q byteLength =
     (let q' = q\<lparr>sq_end := sq_end q + ucast byteLength\<rparr> in
      if seqLess (sq_end q') (sq_begin q') then Inl (RuntimeError ''Send queue is full'') else Inr q')"

definition getBufferStartSeq :: "send_queue \<Rightarrow> u32" where
  "getBufferStartSeq q = sq_begin q"

definition getBufferEndSeq :: "send_queue \<Rightarrow> u32" where
  "getBufferEndSeq q = sq_end q"

text \<open>\<open>getBytesAvailable\<close> of the base class, over the virtual \<open>getBufferEndSeq\<close>.\<close>

definition bytesAvailable :: "u32 \<Rightarrow> u32 \<Rightarrow> u64" where
  "bytesAvailable bufEndSeq fromSeq = (if seqLess fromSeq bufEndSeq then ucast (bufEndSeq - fromSeq) else 0)"

definition getBytesAvailable :: "send_queue \<Rightarrow> u32 \<Rightarrow> u64" where
  "getBytesAvailable q fromSeq = bytesAvailable (getBufferEndSeq q) fromSeq"

definition createSegmentWithBytes :: "send_queue \<Rightarrow> u32 \<Rightarrow> u64 \<Rightarrow> tcp_segment res" where
  "createSegmentWithBytes q fromSeq numBytes =
     bindR (assertR (seqLE (sq_begin q) fromSeq \<and> seqLE (fromSeq + ucast numBytes) (sq_end q))
              ''createSegmentWithBytes'') (\<lambda>_.
     Inr (newSegment\<lparr>sequenceNo := fromSeq, payloadLength := numBytes\<rparr>))"

definition sq_discardUpTo :: "send_queue \<Rightarrow> u32 \<Rightarrow> send_queue res" where
  "sq_discardUpTo q seqNum =
     bindR (assertR (seqLE (sq_begin q) seqNum \<and> seqLE seqNum (sq_end q)) ''discardUpTo'') (\<lambda>_.
     Inr (q\<lparr>sq_begin := seqNum\<rparr>))"

section \<open>The interface\<close>

lemma unat_bytesAvailable:
  "seqLE x e \<Longrightarrow> unat (bytesAvailable e x) = off x e"
  by (auto simp: bytesAvailable_def seqLess_iff off_def)

locale tcp_send_queue =
  fixes ok :: "'q \<Rightarrow> bool"
    and bufStart bufEnd :: "'q \<Rightarrow> u32"
    and create :: "'q \<Rightarrow> u32 \<Rightarrow> u64 \<Rightarrow> tcp_segment res"
    and discard :: "'q \<Rightarrow> u32 \<Rightarrow> 'q res"
  assumes create_law: "ok q \<Longrightarrow> seqLE (bufStart q) x \<Longrightarrow> seqLE (x + ucast n) (bufEnd q) \<Longrightarrow> n \<le> bytesAvailable (bufEnd q) x \<Longrightarrow>
      \<exists>seg. create q x n = Inr seg \<and> sequenceNo seg = x \<and> payloadLength seg = n \<and>
        \<not> synBit seg \<and> \<not> finBit seg \<and> \<not> rstBit seg"
    and discard_law: "ok q \<Longrightarrow> seqLE (bufStart q) s \<Longrightarrow> seqLE s (bufEnd q) \<Longrightarrow>
      \<exists>q'. discard q s = Inr q' \<and> ok q' \<and> bufStart q' = s \<and> bufEnd q' = bufEnd q"
begin

text \<open>No more than the available bytes are asked for: the segment can be made.\<close>

lemma create_available:
  assumes ok: "ok q" and x: "seqLE (bufStart q) x" "seqLE x (bufEnd q)" and n: "n \<le> bytesAvailable (bufEnd q) x"
  shows "\<exists>seg. create q x n = Inr seg \<and> sequenceNo seg = x \<and> payloadLength seg = n \<and>
     segBytes seg \<subseteq> byteRange x (bufEnd q)"
proof -
  let ?e = "bufEnd q"
  have le: "unat n \<le> off x ?e" using n x(2) by (simp add: word_le_nat_alt unat_bytesAvailable)
  have lt: "off x ?e < 2 ^ 31" using x(2) by (simp add: seqLE_off)
  have u: "unat (ucast n :: u32) = unat n" using le lt by (intro unat_ucast_narrow) simp
  have o: "off x (x + ucast n) = unat n" using u by (simp add: off_def)
  have "off x ?e = off x (x + ucast n) + off (x + ucast n) ?e" using le o by (intro off_trans) simp
  then have "seqLE (x + ucast n) ?e" using lt by (simp add: seqLE_off)
  from create_law [OF ok x(1) this n] obtain seg where
    "create q x n = Inr seg" "sequenceNo seg = x" "payloadLength seg = n" by blast
  then show ?thesis using le by (auto simp: segBytes_def byteRange_def)
qed

text \<open>Acknowledged data leave the queue; what is available above them does not change.\<close>

lemma discard_keeps_available:
  assumes "ok q" "seqLE (bufStart q) s" "seqLE s (bufEnd q)"
  shows "\<exists>q'. discard q s = Inr q' \<and> ok q' \<and> bufStart q' = s \<and>
     (\<forall>x. bytesAvailable (bufEnd q') x = bytesAvailable (bufEnd q) x)"
  using discard_law [OF assms] by auto

end

interpretation vsq: tcp_send_queue "\<lambda>_. True" getBufferStartSeq getBufferEndSeq createSegmentWithBytes sq_discardUpTo
  by unfold_locales
    (auto simp: createSegmentWithBytes_def sq_discardUpTo_def getBufferStartSeq_def getBufferEndSeq_def newSegment_def)

section \<open>Properties\<close>

text \<open>
  Any number of bytes up to \<open>getBytesAvailable\<close> can be put into a segment from a position
  inside the send queue: \<open>createSegmentWithBytes\<close> fails no assertion and the segment carries that
  many bytes from that position, none beyond the queue's end.
\<close>

lemma createSegmentWithBytes_available:
  assumes "seqLE (sq_begin q) x" "seqLE x (sq_end q)" "n \<le> getBytesAvailable q x"
  shows "\<exists>seg. createSegmentWithBytes q x n = Inr seg \<and> sequenceNo seg = x \<and> payloadLength seg = n \<and>
     segBytes seg \<subseteq> byteRange x (sq_end q)"
  using vsq.create_available [of q x n] assms
  by (simp add: getBytesAvailable_def getBufferStartSeq_def getBufferEndSeq_def)

text \<open>
  \<open>enqueueAppData\<close> on a queue of less than half the sequence space: a message of at most half
  the space is refused exactly when the queue would then hold more than half of it; otherwise the
  queue grows by the message at its end.
\<close>

lemma enqueueAppData_limit:
  assumes "seqLE (sq_begin q) (sq_end q)" "unat n \<le> 2 ^ 31"
  shows "enqueueAppData q n =
     (if off (sq_begin q) (sq_end q) + unat n \<le> 2 ^ 31 then Inr (q\<lparr>sq_end := sq_end q + ucast n\<rparr>)
      else Inl (RuntimeError ''Send queue is full''))"
proof -
  let ?b = "sq_begin q" and ?e = "sq_end q + ucast n"
  have u: "unat (ucast n :: u32) = unat n" using assms(2) by (intro unat_ucast_narrow) simp
  have lt: "off ?b (sq_end q) < 2 ^ 31" using assms(1) by (simp add: seqLE_off)
  have "off ?b (sq_end q + of_nat (unat (ucast n :: u32))) = off ?b (sq_end q) + unat n"
    using lt assms(2) u by (subst off_add_nat) auto
  then have o: "off ?b ?e = off ?b (sq_end q) + unat n" by (simp add: of_nat_unat)
  have "seqLess ?e ?b \<longleftrightarrow> 2 ^ 31 < off ?b ?e"
  proof (cases "?e = ?b")
    case False
    then show ?thesis using off_swap [OF False] off_lt [of ?b ?e] by (auto simp: seqLess_off)
  next
    case True
    then show ?thesis by simp
  qed
  with o show ?thesis by (simp add: enqueueAppData_def Let_def)
qed

end
