(* ===== verification/Tcp_State.thy ===== *)
theory Tcp_State
  imports Tcp_SackQueue Tcp_RcvQueue Tcp_SendQueue
begin

text \<open>
  The state of a connection: the enumerations and the transmission control block of
  \<open>src/inet/transportlayer/tcp/TCPConnection.h\<close> (\<open>TCPStateVariables\<close>), its extensions by the
  congestion-control classes (\<open>TCPBaseAlgStateVariables\<close>, \<open>TCPTahoeRenoFamilyStateVariables\<close>), the
  connection object with its queues and timers, and the messages it emits. Inheritance of the C++
  classes is record extension. Statistics vectors and log output are left out.
\<close>

section \<open>Enumerations and constants\<close>

datatype tcp_fsm_state =
    TCP_S_INIT | TCP_S_CLOSED | TCP_S_LISTEN | TCP_S_SYN_SENT | TCP_S_SYN_RCVD | TCP_S_ESTABLISHED
  | TCP_S_CLOSE_WAIT | TCP_S_LAST_ACK | TCP_S_FIN_WAIT_1 | TCP_S_FIN_WAIT_2 | TCP_S_CLOSING | TCP_S_TIME_WAIT

datatype tcp_event_code =
    TCP_E_IGNORE
  | TCP_E_OPEN_ACTIVE | TCP_E_OPEN_PASSIVE | TCP_E_SEND | TCP_E_CLOSE | TCP_E_ABORT | TCP_E_STATUS
  | TCP_E_QUEUE_BYTES_LIMIT | TCP_E_READ
  | TCP_E_RCV_DATA | TCP_E_RCV_ACK | TCP_E_RCV_SYN | TCP_E_RCV_SYN_ACK | TCP_E_RCV_FIN
  | TCP_E_RCV_FIN_ACK | TCP_E_RCV_RST | TCP_E_RCV_UNEXP_SYN
  | TCP_E_TIMEOUT_2MSL | TCP_E_TIMEOUT_CONN_ESTAB | TCP_E_TIMEOUT_FIN_WAIT_2

abbreviation "TCP_TIMEOUT_CONN_ESTAB \<equiv> (75 :: simtime)"
abbreviation "TCP_TIMEOUT_FIN_WAIT_2 \<equiv> (600 :: simtime)"
abbreviation "TCP_TIMEOUT_2MSL \<equiv> (240 :: simtime)"
abbreviation "TCP_TIMEOUT_SYN_REXMIT \<equiv> (3 :: simtime)"
abbreviation "TCP_TIMEOUT_SYN_REXMIT_MAX \<equiv> (240 :: simtime)"
abbreviation "MAX_SYN_REXMIT_COUNT \<equiv> (12 :: int)"
abbreviation "TCP_MAX_WIN \<equiv> (65535 :: u32)"
abbreviation "DUPTHRESH \<equiv> (3 :: u32)"
abbreviation "MAX_SACK_BLOCKS \<equiv> (60 :: nat)"
abbreviation "TCP_OPTIONS_MAX_SIZE \<equiv> (40 :: u32)"
abbreviation "TCP_OPTION_SACK_MIN_SIZE \<equiv> (10 :: u32)"
abbreviation "TCP_OPTION_TS_SIZE \<equiv> (12 :: u32)"
abbreviation "PAWS_IDLE_TIME_THRESH \<equiv> (2073600 :: simtime)"
abbreviation "TCP_HEADER_OCTETS \<equiv> (20 :: u16)"
abbreviation "TCP_MAX_HEADER_OCTETS \<equiv> (60 :: u16)"

section \<open>The transmission control block\<close>

record tcp_state_variables =
  active :: bool
  fork :: bool
  snd_mss :: u32
  snd_una :: u32
  snd_nxt :: u32
  snd_max :: u32
  snd_wnd :: u32
  snd_up :: u32
  snd_wl1 :: u32
  snd_wl2 :: u32
  iss :: u32
  rcv_nxt :: u32
  rcv_wnd :: u32
  rcv_up :: u32
  irs :: u32
  rcv_adv :: u32
  syn_rexmit_count :: int
  syn_rexmit_timeout :: simtime
  fin_ack_rcvd :: bool
  send_fin :: bool
  snd_fin_seq :: u32
  fin_rcvd :: bool
  rcv_fin_seq :: u32
  sentBytes :: u32
  nagle_enabled :: bool
  delayed_acks_enabled :: bool
  limited_transmit_enabled :: bool
  increased_IW_enabled :: bool
  full_sized_segment_counter :: u32
  ack_now :: bool
  afterRto :: bool
  ws_support :: bool
  ws_enabled :: bool
  ws_manual_scale :: int
  snd_ws :: bool
  rcv_ws :: bool
  rcv_wnd_scale :: u32
  snd_wnd_scale :: u32
  ts_support :: bool
  ts_enabled :: bool
  snd_initial_ts :: bool
  rcv_initial_ts :: bool
  ts_recent :: u32
  last_ack_sent :: u32
  time_last_data_sent :: simtime
  sack_support :: bool
  sack_enabled :: bool
  snd_sack_perm :: bool
  rcv_sack_perm :: bool
  start_seqno :: u32
  end_seqno :: u32
  snd_sack :: bool
  snd_dsack :: bool
  sacks_array :: "sack list"
  highRxt :: u32
  pipe :: u32
  recoveryPoint :: u32
  sackedBytes :: u32
  sackedBytes_old :: u32
  lossRecovery :: bool
  sendQueueLimit :: u32
  queueUpdate :: bool
  dupacks :: u32
  snd_sacks :: u32
  rcv_sacks :: u32
  rcv_oooseg :: u32
  rcv_naseg :: u32
  maxRcvBuffer :: u32
  usedRcvBuffer :: u32
  freeRcvBuffer :: u32
  tcpRcvQueueDrops :: u32

text \<open>The congestion-control classes add their variables.\<close>

record tcp_alg_state_variables = tcp_state_variables +
  rexmit_count :: int
  rexmit_timeout :: simtime
  persist_factor :: u32
  persist_timeout :: simtime
  snd_cwnd :: u32
  rtseq :: u32
  rtseq_sendtime :: simtime
  srtt :: simtime
  rttvar :: simtime
  numRtos :: u32
  recover :: u32
  firstPartialACK :: bool
  ssthresh :: u32

section \<open>The connection object\<close>

datatype l3_address = Unspecified | Address nat

text \<open>A timer message: deleted, idle, or scheduled at a time.\<close>

datatype timer = NoTimer | IdleTimer | ScheduledAt simtime

definition isScheduled :: "timer \<Rightarrow> bool" where
  "isScheduled t = (case t of ScheduledAt x \<Rightarrow> True | _ \<Rightarrow> False)"

text \<open>\<open>cancelEvent\<close> of a null pointer and \<open>scheduleAt\<close> of a scheduled message are errors of the
  simulation kernel.\<close>

definition cancelEvent :: "timer \<Rightarrow> timer res" where
  "cancelEvent t = (if t = NoTimer then Inl (RuntimeError ''cancelEvent(): message pointer is null'') else Inr IdleTimer)"

definition scheduleAt :: "simtime \<Rightarrow> timer \<Rightarrow> timer res" where
  "scheduleAt time t =
     (case t of
        NoTimer \<Rightarrow> Inl (RuntimeError ''scheduleAt(): message pointer is null'')
      | IdleTimer \<Rightarrow> Inr (ScheduledAt time)
      | ScheduledAt x \<Rightarrow> Inl (RuntimeError ''scheduleAt(): message already scheduled''))"

datatype tcp_indication =
    TCP_I_DATA | TCP_I_URGENT_DATA | TCP_I_ESTABLISHED | TCP_I_PEER_CLOSED | TCP_I_CLOSED
  | TCP_I_CONNECTION_REFUSED | TCP_I_CONNECTION_RESET | TCP_I_TIMED_OUT | TCP_I_STATUS
  | TCP_I_SEND_MSG | TCP_I_DATA_NOTIFICATION

text \<open>What a connection sends: segments to IP with source and destination, indications to the
  application with a user id, data with their byte length, and status replies.\<close>

datatype tcp_action =
    ToIP tcp_segment l3_address l3_address
  | Indicate tcp_indication int
  | IndicateEstablished l3_address l3_address int int
  | DataToApp u64
  | StatusToApp tcp_fsm_state "l3_address \<times> l3_address \<times> int \<times> int" tcp_state_variables

datatype flavour = DumbTCP | TCPNoCongestionControl | TCPTahoe | TCPReno | TCPNewReno

record tcp_par =
  par_advertisedWindow :: int
  par_windowScalingSupport :: bool
  par_windowScalingFactor :: int
  par_delayedAcksEnabled :: bool
  par_nagleEnabled :: bool
  par_limitedTransmitEnabled :: bool
  par_increasedIWEnabled :: bool
  par_mss :: int
  par_timestampSupport :: bool
  par_sackSupport :: bool
  par_tcpAlgorithmClass :: flavour
  par_useDataNotification :: bool

record tcp_conn = tcp_alg_state_variables +
  now :: simtime
  par :: tcp_par
  appGateIndex :: int
  connId :: int
  localAddr :: l3_address
  remoteAddr :: l3_address
  localPort :: int
  remotePort :: int
  fsm :: tcp_fsm_state
  sendQ :: send_queue
  receiveQ :: rcv_queue
  rexmitQ :: rexmit_queue
  tcpAlgorithm :: "flavour option"
  the2MSLTimer :: timer
  connEstabTimer :: timer
  finWait2Timer :: timer
  synRexmitTimer :: timer
  rexmitTimer :: timer
  persistTimer :: timer
  delayedAckTimer :: timer
  keepAliveTimer :: timer
  actions :: "tcp_action list"

end
