(* ===== verification/Tcp_Fsm.thy ===== *)
theory Tcp_Fsm
  imports Tcp_State
begin

text \<open>
  Construction of a connection and the connection state machine
  (\<open>src/inet/transportlayer/tcp/TCPConnectionBase.cc\<close>: \<open>performStateTransition\<close>,
  \<open>stateEntered\<close>), with the timer and notification helpers it uses.
\<close>

section \<open>Construction\<close>

definition newStateVariables :: tcp_state_variables where
  "newStateVariables = \<lparr>active = False, fork = False, snd_mss = 0, snd_una = 0, snd_nxt = 0, snd_max = 0,
     snd_wnd = 0, snd_up = 0, snd_wl1 = 0, snd_wl2 = 0, iss = 0, rcv_nxt = 0, rcv_wnd = 0, rcv_up = 0,
     irs = 0, rcv_adv = 0, syn_rexmit_count = 0, syn_rexmit_timeout = 0, fin_ack_rcvd = False,
     send_fin = False, snd_fin_seq = 0, fin_rcvd = False, rcv_fin_seq = 0, sentBytes = 0,
     nagle_enabled = False, delayed_acks_enabled = False, limited_transmit_enabled = False,
     increased_IW_enabled = False, full_sized_segment_counter = 0, ack_now = False, afterRto = False,
     ws_support = False, ws_enabled = False, ws_manual_scale = -1, snd_ws = False, rcv_ws = False,
     rcv_wnd_scale = 0, snd_wnd_scale = 0, ts_support = False, ts_enabled = False,
     snd_initial_ts = False, rcv_initial_ts = False, ts_recent = 0, last_ack_sent = 0,
     time_last_data_sent = 0, sack_support = False, sack_enabled = False, snd_sack_perm = False,
     rcv_sack_perm = False, start_seqno = 0, end_seqno = 0, snd_sack = False, snd_dsack = False,
     sacks_array = [], highRxt = 0, pipe = 0, recoveryPoint = 0, sackedBytes = 0, sackedBytes_old = 0,
     lossRecovery = False, sendQueueLimit = 0, queueUpdate = True, dupacks = 0, snd_sacks = 0,
     rcv_sacks = 0, rcv_oooseg = 0, rcv_naseg = 0, maxRcvBuffer = 0, usedRcvBuffer = 0,
     freeRcvBuffer = 0, tcpRcvQueueDrops = 0\<rparr>"

text \<open>
  \<open>ssthresh\<close> is the \<open>TCPTahoeRenoFamilyStateVariables\<close> part. \<open>recover = iss\<close> reads the zero that
  the base constructor has just stored.
\<close>

definition newAlgStateVariables :: tcp_alg_state_variables where
  "newAlgStateVariables = tcp_state_variables.extend newStateVariables
     \<lparr>rexmit_count = 0, rexmit_timeout = 3, persist_factor = 0, persist_timeout = 5, snd_cwnd = 0,
      rtseq = 0, rtseq_sendtime = 0, srtt = 0, rttvar = 3 / 4, numRtos = 0,
      recover = iss newStateVariables, firstPartialACK = False, ssthresh = 0xFFFFFFFF\<rparr>"

definition setSendQueueLimit :: "u32 \<Rightarrow> tcp_conn \<Rightarrow> tcp_conn" where
  "setSendQueueLimit newLimit c = c\<lparr>sendQueueLimit := newLimit, ssthresh := newLimit\<rparr>"

definition newConnection :: "tcp_par \<Rightarrow> simtime \<Rightarrow> int \<Rightarrow> int \<Rightarrow> tcp_conn" where
  "newConnection p t g i = tcp_alg_state_variables.extend newAlgStateVariables
     \<lparr>now = t, par = p, appGateIndex = g, connId = i, localAddr = Unspecified, remoteAddr = Unspecified,
      localPort = -1, remotePort = -1, fsm = TCP_S_INIT, sendQ = sq_new, receiveQ = rcvq_new,
      rexmitQ = rq_new, tcpAlgorithm = None, the2MSLTimer = IdleTimer, connEstabTimer = IdleTimer,
      finWait2Timer = IdleTimer, synRexmitTimer = IdleTimer, rexmitTimer = NoTimer,
      persistTimer = NoTimer, delayedAckTimer = NoTimer, keepAliveTimer = NoTimer, actions = []\<rparr>"

section \<open>Notifications and timers\<close>

definition emit :: "tcp_action \<Rightarrow> tcp_conn \<Rightarrow> tcp_conn" where
  "emit a c = c\<lparr>actions := actions c @ [a]\<rparr>"

definition sendIndicationToApp :: "tcp_indication \<Rightarrow> int \<Rightarrow> tcp_conn \<Rightarrow> tcp_conn" where
  "sendIndicationToApp code userId c = emit (Indicate code userId) c"

definition sendEstabIndicationToApp :: "tcp_conn \<Rightarrow> tcp_conn" where
  "sendEstabIndicationToApp c = emit (IndicateEstablished (localAddr c) (remoteAddr c) (localPort c) (remotePort c)) c"

definition signalConnectionTimeout :: "tcp_conn \<Rightarrow> tcp_conn" where
  "signalConnectionTimeout c = sendIndicationToApp TCP_I_TIMED_OUT 0 c"

text \<open>\<open>tcpAlgorithm->connectionClosed()\<close>\<close>

definition algConnectionClosed :: "tcp_conn \<Rightarrow> tcp_conn res" where
  "algConnectionClosed c =
     (case tcpAlgorithm c of
        None \<Rightarrow> Inl (RuntimeError ''null pointer'')
      | Some DumbTCP \<Rightarrow> bindR (cancelEvent (rexmitTimer c)) (\<lambda>t. Inr (c\<lparr>rexmitTimer := t\<rparr>))
      | Some _ \<Rightarrow>
          bindR (cancelEvent (rexmitTimer c)) (\<lambda>t1.
          bindR (cancelEvent (persistTimer c)) (\<lambda>t2.
          bindR (cancelEvent (delayedAckTimer c)) (\<lambda>t3.
          bindR (cancelEvent (keepAliveTimer c)) (\<lambda>t4.
          Inr (c\<lparr>rexmitTimer := t1, persistTimer := t2, delayedAckTimer := t3, keepAliveTimer := t4\<rparr>))))))"

text \<open>\<open>if (timer) cancelEvent(timer)\<close>\<close>

definition cancelIfPresent :: "timer \<Rightarrow> timer" where
  "cancelIfPresent t = (if t = NoTimer then NoTimer else IdleTimer)"

section \<open>The state machine\<close>

definition stateEntered :: "tcp_fsm_state \<Rightarrow> tcp_fsm_state \<Rightarrow> tcp_event_code \<Rightarrow> tcp_conn \<Rightarrow> tcp_conn res" where
  "stateEntered st oldState event c =
     (case st of
        TCP_S_INIT \<Rightarrow> Inr c
      | TCP_S_LISTEN \<Rightarrow>
          bindR (assertR (connEstabTimer c \<noteq> NoTimer \<and> synRexmitTimer c \<noteq> NoTimer) ''stateEntered'') (\<lambda>_.
          bindR (cancelEvent (connEstabTimer c)) (\<lambda>t1.
          bindR (cancelEvent (synRexmitTimer c)) (\<lambda>t2.
          Inr (c\<lparr>connEstabTimer := t1, synRexmitTimer := t2\<rparr>))))
      | TCP_S_SYN_RCVD \<Rightarrow> Inr c
      | TCP_S_SYN_SENT \<Rightarrow> Inr c
      | TCP_S_ESTABLISHED \<Rightarrow>
          bindR (cancelEvent (connEstabTimer c)) (\<lambda>t1.
          bindR (cancelEvent (synRexmitTimer c)) (\<lambda>t2.
          Inr (c\<lparr>connEstabTimer := NoTimer, synRexmitTimer := NoTimer\<rparr>)))
      | TCP_S_TIME_WAIT \<Rightarrow> Inr (sendIndicationToApp TCP_I_CLOSED 0 c)
      | TCP_S_CLOSED \<Rightarrow>
          (let c1 = (if oldState \<noteq> TCP_S_TIME_WAIT \<and> event \<noteq> TCP_E_ABORT
                     then sendIndicationToApp TCP_I_CLOSED 0 c else c);
               c2 = c1\<lparr>the2MSLTimer := cancelIfPresent (the2MSLTimer c1),
                       connEstabTimer := cancelIfPresent (connEstabTimer c1),
                       finWait2Timer := cancelIfPresent (finWait2Timer c1),
                       synRexmitTimer := cancelIfPresent (synRexmitTimer c1)\<rparr>
           in algConnectionClosed c2)
      | _ \<Rightarrow>
          (let c1 = (if st = TCP_S_CLOSE_WAIT then sendIndicationToApp TCP_I_PEER_CLOSED 0 c else c)
           in Inr (c1\<lparr>connEstabTimer := cancelIfPresent (connEstabTimer c1),
                       synRexmitTimer := cancelIfPresent (synRexmitTimer c1)\<rparr>)))"

text \<open>The nested \<open>switch\<close> of \<open>performStateTransition\<close>: the state the machine goes to.\<close>

definition fsmNext :: "bool \<Rightarrow> tcp_fsm_state \<Rightarrow> tcp_event_code \<Rightarrow> tcp_fsm_state" where
  "fsmNext isActive st event =
     (case st of
        TCP_S_INIT \<Rightarrow> (case event of
            TCP_E_OPEN_PASSIVE \<Rightarrow> TCP_S_LISTEN
          | TCP_E_OPEN_ACTIVE \<Rightarrow> TCP_S_SYN_SENT
          | _ \<Rightarrow> st)
      | TCP_S_LISTEN \<Rightarrow> (case event of
            TCP_E_OPEN_ACTIVE \<Rightarrow> TCP_S_SYN_SENT
          | TCP_E_SEND \<Rightarrow> TCP_S_SYN_SENT
          | TCP_E_CLOSE \<Rightarrow> TCP_S_CLOSED
          | TCP_E_ABORT \<Rightarrow> TCP_S_CLOSED
          | TCP_E_RCV_SYN \<Rightarrow> TCP_S_SYN_RCVD
          | _ \<Rightarrow> st)
      | TCP_S_SYN_RCVD \<Rightarrow> (case event of
            TCP_E_CLOSE \<Rightarrow> TCP_S_FIN_WAIT_1
          | TCP_E_ABORT \<Rightarrow> TCP_S_CLOSED
          | TCP_E_TIMEOUT_CONN_ESTAB \<Rightarrow> (if isActive then TCP_S_CLOSED else TCP_S_LISTEN)
          | TCP_E_RCV_RST \<Rightarrow> (if isActive then TCP_S_CLOSED else TCP_S_LISTEN)
          | TCP_E_RCV_ACK \<Rightarrow> TCP_S_ESTABLISHED
          | TCP_E_RCV_FIN \<Rightarrow> TCP_S_CLOSE_WAIT
          | TCP_E_RCV_UNEXP_SYN \<Rightarrow> TCP_S_CLOSED
          | _ \<Rightarrow> st)
      | TCP_S_SYN_SENT \<Rightarrow> (case event of
            TCP_E_CLOSE \<Rightarrow> TCP_S_CLOSED
          | TCP_E_ABORT \<Rightarrow> TCP_S_CLOSED
          | TCP_E_TIMEOUT_CONN_ESTAB \<Rightarrow> TCP_S_CLOSED
          | TCP_E_RCV_RST \<Rightarrow> TCP_S_CLOSED
          | TCP_E_RCV_SYN_ACK \<Rightarrow> TCP_S_ESTABLISHED
          | TCP_E_RCV_SYN \<Rightarrow> TCP_S_SYN_RCVD
          | _ \<Rightarrow> st)
      | TCP_S_ESTABLISHED \<Rightarrow> (case event of
            TCP_E_CLOSE \<Rightarrow> TCP_S_FIN_WAIT_1
          | TCP_E_ABORT \<Rightarrow> TCP_S_CLOSED
          | TCP_E_RCV_FIN \<Rightarrow> TCP_S_CLOSE_WAIT
          | TCP_E_RCV_RST \<Rightarrow> TCP_S_CLOSED
          | TCP_E_RCV_UNEXP_SYN \<Rightarrow> TCP_S_CLOSED
          | _ \<Rightarrow> st)
      | TCP_S_CLOSE_WAIT \<Rightarrow> (case event of
            TCP_E_CLOSE \<Rightarrow> TCP_S_LAST_ACK
          | TCP_E_ABORT \<Rightarrow> TCP_S_CLOSED
          | TCP_E_RCV_RST \<Rightarrow> TCP_S_CLOSED
          | TCP_E_RCV_UNEXP_SYN \<Rightarrow> TCP_S_CLOSED
          | _ \<Rightarrow> st)
      | TCP_S_LAST_ACK \<Rightarrow> (case event of
            TCP_E_ABORT \<Rightarrow> TCP_S_CLOSED
          | TCP_E_RCV_ACK \<Rightarrow> TCP_S_CLOSED
          | TCP_E_RCV_RST \<Rightarrow> TCP_S_CLOSED
          | TCP_E_RCV_UNEXP_SYN \<Rightarrow> TCP_S_CLOSED
          | _ \<Rightarrow> st)
      | TCP_S_FIN_WAIT_1 \<Rightarrow> (case event of
            TCP_E_ABORT \<Rightarrow> TCP_S_CLOSED
          | TCP_E_RCV_FIN \<Rightarrow> TCP_S_CLOSING
          | TCP_E_RCV_ACK \<Rightarrow> TCP_S_FIN_WAIT_2
          | TCP_E_RCV_FIN_ACK \<Rightarrow> TCP_S_TIME_WAIT
          | TCP_E_RCV_RST \<Rightarrow> TCP_S_CLOSED
          | TCP_E_RCV_UNEXP_SYN \<Rightarrow> TCP_S_CLOSED
          | _ \<Rightarrow> st)
      | TCP_S_FIN_WAIT_2 \<Rightarrow> (case event of
            TCP_E_ABORT \<Rightarrow> TCP_S_CLOSED
          | TCP_E_RCV_FIN \<Rightarrow> TCP_S_TIME_WAIT
          | TCP_E_TIMEOUT_FIN_WAIT_2 \<Rightarrow> TCP_S_CLOSED
          | TCP_E_RCV_RST \<Rightarrow> TCP_S_CLOSED
          | TCP_E_RCV_UNEXP_SYN \<Rightarrow> TCP_S_CLOSED
          | _ \<Rightarrow> st)
      | TCP_S_CLOSING \<Rightarrow> (case event of
            TCP_E_ABORT \<Rightarrow> TCP_S_CLOSED
          | TCP_E_RCV_ACK \<Rightarrow> TCP_S_TIME_WAIT
          | TCP_E_RCV_RST \<Rightarrow> TCP_S_CLOSED
          | TCP_E_RCV_UNEXP_SYN \<Rightarrow> TCP_S_CLOSED
          | _ \<Rightarrow> st)
      | TCP_S_TIME_WAIT \<Rightarrow> (case event of
            TCP_E_ABORT \<Rightarrow> TCP_S_CLOSED
          | TCP_E_TIMEOUT_2MSL \<Rightarrow> TCP_S_CLOSED
          | TCP_E_RCV_RST \<Rightarrow> TCP_S_CLOSED
          | TCP_E_RCV_UNEXP_SYN \<Rightarrow> TCP_S_CLOSED
          | _ \<Rightarrow> st)
      | TCP_S_CLOSED \<Rightarrow> st)"

definition performStateTransition :: "tcp_event_code \<Rightarrow> tcp_conn \<Rightarrow> (bool \<times> tcp_conn) res" where
  "performStateTransition event c =
     bindR (assertR (fsm c \<noteq> TCP_S_CLOSED) ''performStateTransition'') (\<lambda>_.
     if event = TCP_E_IGNORE then Inr (True, c)
     else
       let oldState = fsm c; st = fsmNext (active c) oldState event; c1 = c\<lparr>fsm := st\<rparr>
       in bindR (if oldState \<noteq> st then stateEntered st oldState event c1 else Inr c1) (\<lambda>c2.
          Inr (fsm c2 \<noteq> TCP_S_CLOSED, c2)))"

section \<open>Timers and transitions\<close>

text \<open>The timers that the congestion-control object of a live connection owns.\<close>

definition algTimersOk :: "tcp_conn \<Rightarrow> bool" where
  "algTimersOk c \<longleftrightarrow> tcpAlgorithm c \<noteq> None \<and> rexmitTimer c \<noteq> NoTimer \<and>
     (if tcpAlgorithm c = Some DumbTCP
      then persistTimer c = NoTimer \<and> delayedAckTimer c = NoTimer \<and> keepAliveTimer c = NoTimer
      else persistTimer c \<noteq> NoTimer \<and> delayedAckTimer c \<noteq> NoTimer \<and> keepAliveTimer c \<noteq> NoTimer)"

definition handshakeState :: "tcp_fsm_state \<Rightarrow> bool" where
  "handshakeState st \<longleftrightarrow> st \<in> {TCP_S_INIT, TCP_S_LISTEN, TCP_S_SYN_SENT, TCP_S_SYN_RCVD}"

definition connTimersOk :: "tcp_conn \<Rightarrow> bool" where
  "connTimersOk c \<longleftrightarrow> (handshakeState (fsm c) \<longrightarrow> connEstabTimer c \<noteq> NoTimer \<and> synRexmitTimer c \<noteq> NoTimer)"

definition anyTimerScheduled :: "tcp_conn \<Rightarrow> bool" where
  "anyTimerScheduled c \<longleftrightarrow> isScheduled (the2MSLTimer c) \<or> isScheduled (connEstabTimer c) \<or>
     isScheduled (finWait2Timer c) \<or> isScheduled (synRexmitTimer c) \<or> isScheduled (rexmitTimer c) \<or>
     isScheduled (persistTimer c) \<or> isScheduled (delayedAckTimer c) \<or> isScheduled (keepAliveTimer c)"

lemma isScheduled_simps [simp]:
  "\<not> isScheduled NoTimer" "\<not> isScheduled IdleTimer" "isScheduled (ScheduledAt t)"
  by (simp_all add: isScheduled_def)

lemma isScheduled_iff: "isScheduled t \<longleftrightarrow> (\<exists>x. t = ScheduledAt x)"
  by (cases t) auto

lemma cancelIfPresent_simps [simp]:
  "\<not> isScheduled (cancelIfPresent t)" "cancelIfPresent t = NoTimer \<longleftrightarrow> t = NoTimer"
  by (simp_all add: cancelIfPresent_def)

lemma cancelEvent_ok [simp]: "t \<noteq> NoTimer \<Longrightarrow> cancelEvent t = Inr IdleTimer"
  by (simp add: cancelEvent_def)

lemma emit_simps [simp]:
  "fsm (emit a c) = fsm c" "tcpAlgorithm (emit a c) = tcpAlgorithm c" "actions (emit a c) = actions c @ [a]"
  "the2MSLTimer (emit a c) = the2MSLTimer c" "connEstabTimer (emit a c) = connEstabTimer c"
  "finWait2Timer (emit a c) = finWait2Timer c" "synRexmitTimer (emit a c) = synRexmitTimer c"
  "rexmitTimer (emit a c) = rexmitTimer c" "persistTimer (emit a c) = persistTimer c"
  "delayedAckTimer (emit a c) = delayedAckTimer c" "keepAliveTimer (emit a c) = keepAliveTimer c"
  by (simp_all add: emit_def)

lemma algConnectionClosed_spec:
  assumes "algTimersOk c"
  shows "\<exists>c'. algConnectionClosed c = Inr c' \<and> fsm c' = fsm c \<and> actions c' = actions c \<and>
     the2MSLTimer c' = the2MSLTimer c \<and> connEstabTimer c' = connEstabTimer c \<and>
     finWait2Timer c' = finWait2Timer c \<and> synRexmitTimer c' = synRexmitTimer c \<and>
     \<not> isScheduled (rexmitTimer c') \<and> \<not> isScheduled (persistTimer c') \<and>
     \<not> isScheduled (delayedAckTimer c') \<and> \<not> isScheduled (keepAliveTimer c')"
  using assms
  by (auto simp: algConnectionClosed_def algTimersOk_def split: option.splits flavour.splits)

text \<open>Entering \<open>CLOSED\<close> stops every timer and tells the application, except after an abort or
  out of \<open>TIME_WAIT\<close>, where it knows already.\<close>

lemma stateEntered_closed:
  assumes "algTimersOk c"
  shows "\<exists>c'. stateEntered TCP_S_CLOSED oldState event c = Inr c' \<and> fsm c' = fsm c \<and> \<not> anyTimerScheduled c' \<and>
     actions c' = actions c @ (if oldState \<noteq> TCP_S_TIME_WAIT \<and> event \<noteq> TCP_E_ABORT then [Indicate TCP_I_CLOSED 0] else [])"
proof -
  let ?c1 = "if oldState \<noteq> TCP_S_TIME_WAIT \<and> event \<noteq> TCP_E_ABORT then sendIndicationToApp TCP_I_CLOSED 0 c else c"
  let ?c2 = "?c1\<lparr>the2MSLTimer := cancelIfPresent (the2MSLTimer ?c1), connEstabTimer := cancelIfPresent (connEstabTimer ?c1),
       finWait2Timer := cancelIfPresent (finWait2Timer ?c1), synRexmitTimer := cancelIfPresent (synRexmitTimer ?c1)\<rparr>"
  have "algTimersOk ?c2" using assms
    by (auto simp: algTimersOk_def sendIndicationToApp_def split: option.splits flavour.splits)
  from algConnectionClosed_spec [OF this] show ?thesis
    by (auto simp: stateEntered_def Let_def anyTimerScheduled_def sendIndicationToApp_def)
qed

text \<open>Entering any other state keeps the timers that later transitions will need.\<close>

lemma stateEntered_live:
  assumes "st \<noteq> TCP_S_CLOSED" "fsm c = st" "connEstabTimer c \<noteq> NoTimer" "synRexmitTimer c \<noteq> NoTimer"
  shows "\<exists>c'. stateEntered st oldState event c = Inr c' \<and> fsm c' = st \<and> connTimersOk c' \<and>
     (algTimersOk c \<longrightarrow> algTimersOk c')"
  using assms
  by (cases st) (auto simp: stateEntered_def connTimersOk_def handshakeState_def algTimersOk_def
      sendIndicationToApp_def Let_def split: option.splits flavour.splits)

lemma stateEntered_late:
  assumes "st \<noteq> TCP_S_CLOSED" "\<not> handshakeState st" "st \<noteq> TCP_S_ESTABLISHED" "fsm c = st"
  shows "\<exists>c'. stateEntered st oldState event c = Inr c' \<and> fsm c' = st \<and> connTimersOk c' \<and>
     (algTimersOk c \<longrightarrow> algTimersOk c')"
  using assms
  by (cases st) (auto simp: stateEntered_def connTimersOk_def handshakeState_def algTimersOk_def
      sendIndicationToApp_def Let_def split: option.splits flavour.splits)

text \<open>Once the handshake is over, the machine never returns to it.\<close>

lemma fsmNext_late:
  "\<not> handshakeState st \<Longrightarrow> fsmNext a st e \<noteq> st \<Longrightarrow>
     \<not> handshakeState (fsmNext a st e) \<and> fsmNext a st e \<noteq> TCP_S_ESTABLISHED"
  by (cases st; cases e) (auto simp: fsmNext_def handshakeState_def)

section \<open>Reachable states\<close>

text \<open>States the machine can be in after a sequence of events, with the \<open>active\<close> flag at each.\<close>

inductive fsm_reach :: "tcp_fsm_state \<Rightarrow> tcp_event_code list \<Rightarrow> bool" where
  reach_init: "fsm_reach TCP_S_INIT []"
| reach_step: "fsm_reach st es \<Longrightarrow> st \<noteq> TCP_S_CLOSED \<Longrightarrow> fsm_reach (fsmNext a st e) (es @ [e])"

inductive_cases fsm_reach_snocE: "fsm_reach st (es @ [e])"

definition activeClose :: "tcp_fsm_state \<Rightarrow> bool" where
  "activeClose st \<longleftrightarrow> st \<in> {TCP_S_FIN_WAIT_1, TCP_S_FIN_WAIT_2, TCP_S_CLOSING, TCP_S_TIME_WAIT}"

definition passiveClose :: "tcp_fsm_state \<Rightarrow> bool" where
  "passiveClose st \<longleftrightarrow> st \<in> {TCP_S_CLOSE_WAIT, TCP_S_LAST_ACK}"

definition peerFinSeen :: "tcp_fsm_state \<Rightarrow> bool" where
  "peerFinSeen st \<longleftrightarrow> st \<in> {TCP_S_CLOSE_WAIT, TCP_S_LAST_ACK, TCP_S_CLOSING, TCP_S_TIME_WAIT}"

definition synchronized :: "tcp_fsm_state \<Rightarrow> bool" where
  "synchronized st \<longleftrightarrow> \<not> handshakeState st \<and> st \<noteq> TCP_S_CLOSED"

lemmas fsm_class_defs = activeClose_def passiveClose_def peerFinSeen_def synchronized_def handshakeState_def

text \<open>What one step can add.\<close>

lemma fsm_step_history:
  "activeClose (fsmNext a st e) \<or> fsmNext a st e = TCP_S_LAST_ACK \<Longrightarrow>
     activeClose st \<or> st = TCP_S_LAST_ACK \<or> e = TCP_E_CLOSE"
  "peerFinSeen (fsmNext a st e) \<Longrightarrow> peerFinSeen st \<or> e = TCP_E_RCV_FIN \<or> e = TCP_E_RCV_FIN_ACK"
  "synchronized (fsmNext a st e) \<Longrightarrow> synchronized st \<or> st = TCP_S_SYN_RCVD \<or> e = TCP_E_RCV_SYN_ACK"
  "fsmNext a st e = TCP_S_SYN_RCVD \<Longrightarrow> st = TCP_S_SYN_RCVD \<or> e = TCP_E_RCV_SYN"
  by (cases st; cases e; simp add: fsmNext_def fsm_class_defs split: if_splits)+

lemma fsm_history:
  "fsm_reach st es \<Longrightarrow>
     (activeClose st \<or> st = TCP_S_LAST_ACK \<longrightarrow> TCP_E_CLOSE \<in> set es) \<and>
     (peerFinSeen st \<longrightarrow> TCP_E_RCV_FIN \<in> set es \<or> TCP_E_RCV_FIN_ACK \<in> set es) \<and>
     (synchronized st \<longrightarrow> TCP_E_RCV_SYN \<in> set es \<or> TCP_E_RCV_SYN_ACK \<in> set es) \<and>
     (st = TCP_S_SYN_RCVD \<longrightarrow> TCP_E_RCV_SYN \<in> set es)"
proof (induction rule: fsm_reach.induct)
  case reach_init
  then show ?case by (simp add: fsm_class_defs)
next
  case (reach_step st es a e)
  from reach_step.IH fsm_step_history [of a st e] show ?case by auto
qed

text \<open>A measure of how far a connection is from the end of its life.\<close>

fun lifeRank :: "tcp_fsm_state \<Rightarrow> nat" where
  "lifeRank TCP_S_INIT = 0"
| "lifeRank TCP_S_LISTEN = 1"
| "lifeRank TCP_S_SYN_SENT = 2"
| "lifeRank TCP_S_SYN_RCVD = 3"
| "lifeRank TCP_S_ESTABLISHED = 4"
| "lifeRank TCP_S_FIN_WAIT_1 = 5"
| "lifeRank TCP_S_CLOSE_WAIT = 6"
| "lifeRank TCP_S_FIN_WAIT_2 = 6"
| "lifeRank TCP_S_CLOSING = 6"
| "lifeRank TCP_S_LAST_ACK = 7"
| "lifeRank TCP_S_TIME_WAIT = 7"
| "lifeRank TCP_S_CLOSED = 8"

lemma fsmNext_progress:
  "fsmNext a st e = st \<or> lifeRank st < lifeRank (fsmNext a st e) \<or>
     (st = TCP_S_SYN_RCVD \<and> fsmNext a st e = TCP_S_LISTEN \<and> \<not> a)"
  by (cases st; cases e) (auto simp: fsmNext_def)

fun stateChanges :: "tcp_fsm_state \<Rightarrow> (bool \<times> tcp_event_code) list \<Rightarrow> nat" where
  "stateChanges st [] = 0"
| "stateChanges st ((a, e) # es) = (if fsmNext a st e = st then 0 else 1) + stateChanges (fsmNext a st e) es"

lemma stateChanges_bound:
  "\<not> handshakeState st \<Longrightarrow> stateChanges st es + lifeRank st \<le> 8"
proof (induction es arbitrary: st)
  case Nil
  then show ?case by (cases st) auto
next
  case (Cons ae es)
  obtain a e where ae: "ae = (a, e)" by force
  have h: "\<not> handshakeState (fsmNext a st e)" using fsmNext_late [OF Cons.prems, of a e] Cons.prems by metis
  have "st \<noteq> TCP_S_SYN_RCVD" using Cons.prems by (auto simp: handshakeState_def)
  with Cons.IH [OF h] fsmNext_progress [of a st e] ae show ?case by auto
qed

section \<open>Properties\<close>

text \<open>
  C17: the state machine never fails on a live connection whose timers exist: it ends in a live
  state again, with the timers that later transitions will cancel or delete still there, or in
  \<open>CLOSED\<close>; it reports \<open>false\<close> exactly in the latter case, and then no timer of the connection or
  of its congestion control is left scheduled.
\<close>

theorem performStateTransition_total:
  assumes live: "fsm c \<noteq> TCP_S_CLOSED" and tm: "connTimersOk c" and alg: "algTimersOk c"
  shows "\<exists>alive c'. performStateTransition event c = Inr (alive, c') \<and>
     (alive \<longleftrightarrow> fsm c' \<noteq> TCP_S_CLOSED) \<and>
     (alive \<longrightarrow> connTimersOk c' \<and> algTimersOk c') \<and>
     (\<not> alive \<longrightarrow> \<not> anyTimerScheduled c')"
proof -
  let ?st = "fsmNext (active c) (fsm c) event" and ?c1 = "c\<lparr>fsm := fsmNext (active c) (fsm c) event\<rparr>"
  have alg1: "algTimersOk ?c1" using alg by (simp add: algTimersOk_def)
  show ?thesis
  proof (cases "event = TCP_E_IGNORE \<or> ?st = fsm c")
    case True
    then show ?thesis using live tm alg by (auto simp: performStateTransition_def)
  next
    case ch: False
    have pst: "performStateTransition event c =
        bindR (stateEntered ?st (fsm c) event ?c1) (\<lambda>c2. Inr (fsm c2 \<noteq> TCP_S_CLOSED, c2))"
      using ch live by (auto simp: performStateTransition_def Let_def)
    show ?thesis
    proof (cases "?st = TCP_S_CLOSED")
      case True
      then show ?thesis using stateEntered_closed [OF alg1, of "fsm c" event] by (auto simp: pst)
    next
      case False
      have "\<exists>c'. stateEntered ?st (fsm c) event ?c1 = Inr c' \<and> fsm c' = ?st \<and> connTimersOk c' \<and>
          (algTimersOk ?c1 \<longrightarrow> algTimersOk c')"
      proof (cases "handshakeState (fsm c)")
        case True
        then show ?thesis using tm False by (intro stateEntered_live) (auto simp: connTimersOk_def)
      next
        case late: False
        then show ?thesis using fsmNext_late [OF late, of "active c" event] ch False
          by (intro stateEntered_late) auto
      qed
      then show ?thesis using False alg1 by (auto simp: pst)
    qed
  qed
qed

definition sampleConn :: "tcp_fsm_state \<Rightarrow> tcp_conn" where
  "sampleConn st = (newConnection
     \<lparr>par_advertisedWindow = 14336, par_windowScalingSupport = False, par_windowScalingFactor = -1,
      par_delayedAcksEnabled = False, par_nagleEnabled = True, par_limitedTransmitEnabled = False,
      par_increasedIWEnabled = False, par_mss = 536, par_timestampSupport = False, par_sackSupport = False,
      par_tcpAlgorithmClass = TCPReno, par_useDataNotification = False\<rparr> 1 0 7)
     \<lparr>fsm := st, tcpAlgorithm := Some TCPReno, rexmitTimer := ScheduledAt 5, persistTimer := IdleTimer,
      delayedAckTimer := IdleTimer, keepAliveTimer := IdleTimer\<rparr>"

lemma sampleConn_timers: "connTimersOk (sampleConn st)" "algTimersOk (sampleConn st)" "fsm (sampleConn st) = st"
  by (simp_all add: sampleConn_def newConnection_def newAlgStateVariables_def connTimersOk_def algTimersOk_def
      tcp_state_variables.defs tcp_alg_state_variables.defs newStateVariables_def)

theorem performStateTransition_total_witness:
  "\<exists>alive c'. performStateTransition TCP_E_RCV_RST (sampleConn TCP_S_ESTABLISHED) = Inr (alive, c') \<and>
     (alive \<longleftrightarrow> fsm c' \<noteq> TCP_S_CLOSED) \<and>
     (alive \<longrightarrow> connTimersOk c' \<and> algTimersOk c') \<and> (\<not> alive \<longrightarrow> \<not> anyTimerScheduled c')"
  by (rule performStateTransition_total) (simp_all add: sampleConn_timers)


lemma fsm_reach_sample:
  "fsm_reach TCP_S_FIN_WAIT_1 [TCP_E_OPEN_ACTIVE, TCP_E_RCV_SYN_ACK, TCP_E_CLOSE]"
proof -
  have "fsm_reach (fsmNext True TCP_S_INIT TCP_E_OPEN_ACTIVE) ([] @ [TCP_E_OPEN_ACTIVE])"
    by (intro reach_step reach_init) simp
  then have "fsm_reach TCP_S_SYN_SENT [TCP_E_OPEN_ACTIVE]" by (simp add: fsmNext_def)
  from reach_step [OF this, of True TCP_E_RCV_SYN_ACK]
  have "fsm_reach TCP_S_ESTABLISHED [TCP_E_OPEN_ACTIVE, TCP_E_RCV_SYN_ACK]" by (simp add: fsmNext_def)
  from reach_step [OF this, of True TCP_E_CLOSE] show ?thesis by (simp add: fsmNext_def)
qed


text \<open>
  C39: progress. Every event leaves the state alone or moves the connection forward in its life,
  except that a passively opened connection may fall back from \<open>SYN_RCVD\<close> to \<open>LISTEN\<close>; from
  \<open>ESTABLISHED\<close> on, no sequence of events makes more than four state changes.
\<close>

theorem fsm_lifecycle:
  "(fsmNext a st e = st \<or> lifeRank st < lifeRank (fsmNext a st e) \<or>
     (st = TCP_S_SYN_RCVD \<and> fsmNext a st e = TCP_S_LISTEN \<and> \<not> a)) \<and>
   stateChanges TCP_S_ESTABLISHED es \<le> 4"
  using fsmNext_progress stateChanges_bound [of TCP_S_ESTABLISHED es] by (simp add: handshakeState_def)

end
