(* ===== verification/Tcp_Options.thy ===== *)
theory Tcp_Options
  imports Tcp_Fsm
begin

text \<open>
  Receive-window bookkeeping and header options
  (\<open>src/inet/transportlayer/tcp/TCPConnectionUtil.cc\<close>: \<open>isSegmentAcceptable\<close>,
  \<open>updateRcvQueueVars\<close>, \<open>updateRcvWnd\<close>, \<open>updateWndInfo\<close>, \<open>writeHeaderOptions\<close>,
  \<open>readHeaderOptions\<close> and the option handlers; \<open>TCPConnectionSackUtil.cc\<close>: \<open>processSACKOption\<close>,
  \<open>addSacks\<close>).
\<close>

section \<open>Acceptability and windows\<close>

definition isSegmentAcceptable :: "tcp_segment \<Rightarrow> tcp_conn \<Rightarrow> bool" where
  "isSegmentAcceptable seg c =
     (let len = ucast (payloadLength seg) :: u32;
          seqNo = sequenceNo seg;
          rcvWndEnd = rcv_nxt c + rcv_wnd c;
          ret = (if len = 0
                 then (if rcv_wnd c = 0 then seqNo = rcv_nxt c
                       else seqLE (rcv_nxt c) seqNo \<and> seqLE seqNo rcvWndEnd)
                 else (if rcv_wnd c = 0 then False
                       else (seqLE (rcv_nxt c) seqNo \<and> seqLess seqNo rcvWndEnd) \<or>
                            (seqLess (rcv_nxt c) (seqNo + len) \<and> seqLE (seqNo + len) rcvWndEnd)))
      in if \<not> ret \<and> len = 0
         then (if \<not> afterRto c then seqLess (snd_una c) (ackNo seg) \<and> seqLE (ackNo seg) (snd_nxt c)
               else seqLess (snd_una c) (ackNo seg) \<and> seqLE (ackNo seg) (snd_max c))
         else ret)"

definition updateRcvQueueVars :: "tcp_conn \<Rightarrow> tcp_conn" where
  "updateRcvQueueVars c =
     (let free = getAmountOfFreeBytes (receiveQ c) (maxRcvBuffer c)
      in c\<lparr>freeRcvBuffer := free, usedRcvBuffer := maxRcvBuffer c - free\<rparr>)"

text \<open>The window to advertise: no silly window, never less than promised, 16 bits unless scaled.\<close>

definition chooseRcvWnd :: "tcp_conn \<Rightarrow> u32" where
  "chooseRcvWnd c =
     (let win0 = freeRcvBuffer c;
          win1 = (if win0 < maxRcvBuffer c div 4 \<and> win0 < snd_mss c then 0 else win0);
          win2 = (if win1 < rcv_adv c - rcv_nxt c then rcv_adv c - rcv_nxt c else win1)
      in if win2 > TCP_MAX_WIN \<and> \<not> ws_enabled c then TCP_MAX_WIN else win2)"

definition updateRcvWnd :: "tcp_conn \<Rightarrow> (u16 \<times> tcp_conn) res" where
  "updateRcvWnd c0 =
     (let c = updateRcvQueueVars c0;
          win = chooseRcvWnd c;
          c1 = (if win > 0 \<and> seqGE (rcv_nxt c + win) (rcv_adv c) then c\<lparr>rcv_adv := rcv_nxt c + win\<rparr> else c);
          c2 = c1\<lparr>rcv_wnd := win\<rparr>;
          scale = ws_enabled c \<and> rcv_wnd_scale c \<noteq> 0
      in bindR (assertR (scale \<longrightarrow> rcv_wnd_scale c \<le> 14) ''updateRcvWnd'') (\<lambda>_.
         let scaled_rcv_wnd = (if scale then drop_bit (unat (rcv_wnd_scale c)) win else win)
         in bindR (assertR (scaled_rcv_wnd = ucast (ucast scaled_rcv_wnd :: u16)) ''updateRcvWnd'') (\<lambda>_.
            Inr (ucast scaled_rcv_wnd, c2))))"

definition updateWndInfo :: "tcp_segment \<Rightarrow> bool \<Rightarrow> tcp_conn \<Rightarrow> tcp_conn" where
  "updateWndInfo seg doAlways c =
     (let true_window = (if ws_enabled c \<and> \<not> synBit seg
                         then push_bit (unat (snd_wnd_scale c)) (ucast (window seg)) else ucast (window seg)) :: u32
      in if doAlways \<or> (ackBit seg \<and>
             (seqLess (snd_wl1 c) (sequenceNo seg) \<or>
              (snd_wl1 c = sequenceNo seg \<and> seqLE (snd_wl2 c) (ackNo seg)) \<or>
              (snd_wl2 c = ackNo seg \<and> true_window > snd_wnd c)))
         then c\<lparr>snd_wnd := true_window, snd_wl1 := sequenceNo seg, snd_wl2 := ackNo seg\<rparr>
         else c)"

definition convertSimtimeToTS :: "simtime \<Rightarrow> u32" where
  "convertSimtimeToTS t = of_int \<lfloor>t * 1000\<rfloor>"

definition convertTSToSimtime :: "u32 \<Rightarrow> simtime" where
  "convertTSToSimtime ts = of_nat (unat ts) / 1000"

section \<open>Selective acknowledgements sent\<close>

text \<open>The first loop of \<open>addSacks\<close>: old and empty entries are deleted.\<close>

fun purgeSacks :: "u32 \<Rightarrow> sack list \<Rightarrow> sack list res" where
  "purgeSacks nxt [] = Inr []"
| "purgeSacks nxt (s # ss) =
     (if seqLE (sackEndNo s) nxt \<or> sack_empty s then purgeSacks nxt ss
      else bindR (assertR (seqGE (sackStartNo s) nxt) ''seqGE(it->getStart(), state->rcv_nxt)'') (\<lambda>_.
           bindR (purgeSacks nxt ss) (\<lambda>r. Inr (s # r))))"

text \<open>The nested loop that deletes entries contained in an earlier one.\<close>

function dropContained :: "sack list \<Rightarrow> sack list res" where
  "dropContained [] = Inr []"
| "dropContained (s # ss) =
     bindR (assertR (\<not> sack_empty s) ''!it->empty()'') (\<lambda>_.
     bindR (dropContained (filter (\<lambda>t. \<not> sack_contains s t) ss)) (\<lambda>r. Inr (s # r)))"
  by pat_completeness auto
termination
  by (relation "measure length") (auto simp: le_imp_less_Suc length_filter_le)

text \<open>How many NOPs the alignment loop \<open>while (used_options_len % 4 != 2)\<close> adds.\<close>

definition alignNops :: "u32 \<Rightarrow> nat" where
  "alignNops used = (let r = used mod 4 in if r = 2 then 0 else if r = 1 then 1 else if r = 0 then 2 else 3)"

definition resetSackFlags :: "tcp_conn \<Rightarrow> tcp_conn" where
  "resetSackFlags c = c\<lparr>snd_sack := False, snd_dsack := False, start_seqno := 0, end_seqno := 0\<rparr>"

text \<open>The block reported first: a D-SACK, or the whole buffered region around the new segment.\<close>

definition firstSack :: "tcp_conn \<Rightarrow> sack" where
  "firstSack c =
     (let start = start_seqno c; end' = end_seqno c
      in if snd_dsack c
         then \<lparr>sackStartNo = start,
               sackEndNo = (if seqLess start (rcv_nxt c) \<and> seqLess (rcv_nxt c) end' then rcv_nxt c else end')\<rparr>
         else \<lparr>sackStartNo = getLE (receiveQ c) start, sackEndNo = getRE (receiveQ c) end'\<rparr>)"

text \<open>The second half of \<open>addSacks\<close>: as many blocks as fit are written into the option.\<close>

definition attachSacks :: "tcp_segment \<Rightarrow> bool \<Rightarrow> sack list \<Rightarrow> tcp_conn \<Rightarrow> (tcp_segment \<times> tcp_conn) res" where
  "attachSacks seg dsack_inserted sacks c =
     (let used_options_len = ucast (getHeaderOptionArrayLength seg) :: u32;
          n0 = of_nat (length sacks) :: u32;
          maxnode = ((TCP_OPTIONS_MAX_SIZE - used_options_len) - 2) div 8;
          n = (if n0 > maxnode then maxnode else n0);
          rest = (if dsack_inserted then tl sacks else sacks)
      in if n = 0 then Inr (seg, resetSackFlags (c\<lparr>sacks_array := rest\<rparr>))
         else
           let k = alignNops used_options_len;
               used' = used_options_len + of_nat k;
               items = take (unat n) sacks;
               opt = \<lparr>optLength = ucast (8 * n + 2), optBody = OptSack items\<rparr>;
               options_len = used' + 8 * n + 2
           in bindR (assertR (used' mod 4 = 2) ''used_options_len % 4 == 2'') (\<lambda>_.
              bindR (assertR (\<forall>s\<in>set items. sackStartNo s \<noteq> sackEndNo s) ''it->getStart() != it->getEnd()'') (\<lambda>_.
              bindR (assertR (options_len \<le> TCP_OPTIONS_MAX_SIZE) ''options_len <= TCP_OPTIONS_MAX_SIZE'') (\<lambda>_.
              Inr (seg\<lparr>headerOptionList := headerOptionList seg @ replicate k (mkOption OptNop) @ [opt]\<rparr>,
                   resetSackFlags (c\<lparr>sacks_array := rest, snd_sacks := snd_sacks c + n\<rparr>))))))"

definition addSacks :: "tcp_segment \<Rightarrow> tcp_conn \<Rightarrow> (tcp_segment \<times> tcp_conn) res" where
  "addSacks seg c =
     bindR (purgeSacks (rcv_nxt c) (sacks_array c)) (\<lambda>sacks0.
     if (ucast (getHeaderOptionArrayLength seg) :: u32) > TCP_OPTIONS_MAX_SIZE - TCP_OPTION_SACK_MIN_SIZE
     then Inr (seg, resetSackFlags (c\<lparr>sacks_array := sacks0\<rparr>))
     else
       let dsack_inserted = (start_seqno c \<noteq> end_seqno c \<and> snd_dsack c)
       in bindR (if start_seqno c = end_seqno c then Inr sacks0
                 else if dsack_inserted
                 then bindR (dropContained sacks0) (\<lambda>r. Inr (firstSack c # r))
                 else dropContained (firstSack c # sacks0)) (\<lambda>sacks.
          attachSacks seg dsack_inserted sacks c))"

section \<open>Options written\<close>

text \<open>The loop that chooses the receive window scale; the shift count is limited to 14.\<close>

fun wsLoop :: "nat \<Rightarrow> u64 \<Rightarrow> u32 \<Rightarrow> u32" where
  "wsLoop 0 scaled_rcv_wnd scale = scale"
| "wsLoop (Suc k) scaled_rcv_wnd scale =
     (if scaled_rcv_wnd > 65535 \<and> scale < 14 then wsLoop k (drop_bit 1 scaled_rcv_wnd) (scale + 1) else scale)"

definition addNop :: "tcp_segment \<Rightarrow> tcp_segment" where
  "addNop seg = addHeaderOption seg (mkOption OptNop)"

definition firstSyn :: "tcp_conn \<Rightarrow> bool" where
  "firstSyn c \<longleftrightarrow> fsm c = TCP_S_INIT \<or> (fsm c = TCP_S_SYN_SENT \<and> syn_rexmit_count c > 0)"

definition writeSynMss :: "tcp_segment \<times> tcp_conn \<Rightarrow> tcp_segment \<times> tcp_conn" where
  "writeSynMss = (\<lambda>(seg, c).
     if snd_mss c > 0 then (addHeaderOption seg (mkOption (OptMaxSegmentSize (ucast (snd_mss c)))), c) else (seg, c))"

definition writeSynWs :: "tcp_segment \<times> tcp_conn \<Rightarrow> tcp_segment \<times> tcp_conn" where
  "writeSynWs = (\<lambda>(seg, c).
     if ws_support c \<and> (rcv_ws c \<or> firstSyn c)
     then
       let sc = (if ws_manual_scale c > -1 then of_int (ws_manual_scale c)
                 else wsLoop 14 (ucast (getFirstSeqNo (receiveQ c) + maxRcvBuffer c - rcv_nxt c)) 0);
           c1 = c\<lparr>rcv_wnd_scale := sc, snd_ws := True, ws_enabled := ws_support c \<and> rcv_ws c\<rparr>
       in (addHeaderOption (addNop seg) (mkOption (OptWindowScale (ucast sc))), c1)
     else (seg, c))"

definition writeSynSackPerm :: "tcp_segment \<times> tcp_conn \<Rightarrow> tcp_segment \<times> tcp_conn" where
  "writeSynSackPerm = (\<lambda>(seg, c).
     if sack_support c \<and> (rcv_sack_perm c \<or> firstSyn c)
     then
       let seg1 = (if \<not> ts_support c then addNop (addNop seg) else seg)
       in (addHeaderOption seg1 (mkOption OptSackPermitted),
           c\<lparr>snd_sack_perm := True, sack_enabled := sack_support c \<and> rcv_sack_perm c\<rparr>)
     else (seg, c))"

definition timestampOption :: "tcp_segment \<Rightarrow> tcp_conn \<Rightarrow> tcp_option" where
  "timestampOption seg c =
     mkOption (OptTimestamp (convertSimtimeToTS (now c)) (if ackBit seg then ts_recent c else 0))"

definition writeSynTs :: "tcp_segment \<times> tcp_conn \<Rightarrow> tcp_segment \<times> tcp_conn" where
  "writeSynTs = (\<lambda>(seg, c).
     if ts_support c \<and> (rcv_initial_ts c \<or> firstSyn c)
     then
       let seg1 = (if \<not> sack_support c then addNop (addNop seg) else seg)
       in (addHeaderOption seg1 (timestampOption seg c),
           c\<lparr>snd_initial_ts := True, ts_enabled := ts_support c \<and> rcv_initial_ts c\<rparr>)
     else (seg, c))"

definition sacksPending :: "tcp_conn \<Rightarrow> bool" where
  "sacksPending c \<longleftrightarrow> sack_enabled c \<and> (snd_sack c \<or> snd_dsack c)"

definition writeTs :: "tcp_segment \<Rightarrow> tcp_conn \<Rightarrow> tcp_segment" where
  "writeTs seg c =
     (if ts_enabled c
      then addHeaderOption (if \<not> sacksPending c then addNop (addNop seg) else seg) (timestampOption seg c)
      else seg)"

text \<open>The final part: options that do not fit are dropped altogether.\<close>

definition setOptionsLength :: "tcp_segment \<Rightarrow> tcp_segment" where
  "setOptionsLength seg =
     (if headerOptionList seg \<noteq> []
      then
        let options_len = ucast (getHeaderOptionArrayLength seg) :: u32
        in if options_len \<le> TCP_OPTIONS_MAX_SIZE
           then seg\<lparr>headerLength := TCP_HEADER_OCTETS + ucast options_len\<rparr>
           else seg\<lparr>headerLength := TCP_HEADER_OCTETS, headerOptionList := []\<rparr>
      else seg)"

definition writeHeaderOptions :: "tcp_segment \<Rightarrow> tcp_conn \<Rightarrow> (tcp_segment \<times> tcp_conn) res" where
  "writeHeaderOptions seg c =
     bindR
       (if synBit seg \<and> (fsm c = TCP_S_INIT \<or> fsm c = TCP_S_LISTEN \<or>
            ((fsm c = TCP_S_SYN_SENT \<or> fsm c = TCP_S_SYN_RCVD) \<and> syn_rexmit_count c > 0))
        then Inr (writeSynTs (writeSynSackPerm (writeSynWs (writeSynMss (seg, c)))))
        else if fsm c \<in> {TCP_S_SYN_SENT, TCP_S_SYN_RCVD, TCP_S_ESTABLISHED, TCP_S_FIN_WAIT_1, TCP_S_FIN_WAIT_2}
        then (let seg1 = writeTs seg c in if sacksPending c then addSacks seg1 c else Inr (seg1, c))
        else Inr (seg, c))
       (\<lambda>(seg', c'). Inr (setOptionsLength seg', c'))"

section \<open>Options read\<close>

definition processMSSOption :: "u16 \<Rightarrow> u16 \<Rightarrow> tcp_conn \<Rightarrow> bool \<times> tcp_conn" where
  "processMSSOption len maxSegmentSize c =
     (if len \<noteq> 4 then (False, c)
      else if fsm c \<noteq> TCP_S_LISTEN \<and> fsm c \<noteq> TCP_S_SYN_SENT then (False, c)
      else
        let mss = min (snd_mss c) (ucast maxSegmentSize)
        in (True, c\<lparr>snd_mss := (if mss = 0 then 536 else mss)\<rparr>))"

definition processWSOption :: "u16 \<Rightarrow> u16 \<Rightarrow> tcp_conn \<Rightarrow> bool \<times> tcp_conn" where
  "processWSOption len windowScale c =
     (if len \<noteq> 3 then (False, c)
      else if fsm c \<noteq> TCP_S_LISTEN \<and> fsm c \<noteq> TCP_S_SYN_SENT then (False, c)
      else
        (True, c\<lparr>rcv_ws := True, ws_enabled := ws_support c \<and> snd_ws c,
                 snd_wnd_scale := (if (ucast windowScale :: u32) > 14 then 14 else ucast windowScale)\<rparr>))"

definition processTSOption :: "tcp_segment \<Rightarrow> u16 \<Rightarrow> u32 \<Rightarrow> u32 \<Rightarrow> tcp_conn \<Rightarrow> bool \<times> tcp_conn" where
  "processTSOption seg len senderTimestamp echoedTimestamp c =
     (if len \<noteq> 10 then (False, c)
      else if (\<not> ts_enabled c \<and> fsm c \<noteq> TCP_S_LISTEN \<and> fsm c \<noteq> TCP_S_SYN_SENT) \<or>
              (ts_enabled c \<and> fsm c \<noteq> TCP_S_SYN_RCVD \<and> fsm c \<noteq> TCP_S_ESTABLISHED \<and>
               fsm c \<noteq> TCP_S_FIN_WAIT_1 \<and> fsm c \<noteq> TCP_S_FIN_WAIT_2) then (False, c)
      else
        let c1 = (if \<not> ts_enabled c
                  then c\<lparr>rcv_initial_ts := True, ts_enabled := ts_support c \<and> snd_initial_ts c\<rparr> else c)
        in if ts_enabled c1
           then (if seqLess senderTimestamp (ts_recent c1)
                 then (if now c1 - time_last_data_sent c1 > PAWS_IDLE_TIME_THRESH then (False, c1) else (True, c1))
                 else if seqLE (sequenceNo seg) (last_ack_sent c1)
                 then (True, c1\<lparr>ts_recent := senderTimestamp\<rparr>)
                 else (True, c1))
           else (True, c1))"

definition processSACKPermittedOption :: "u16 \<Rightarrow> tcp_conn \<Rightarrow> bool \<times> tcp_conn" where
  "processSACKPermittedOption len c =
     (if len \<noteq> 2 then (False, c)
      else if fsm c \<noteq> TCP_S_LISTEN \<and> fsm c \<noteq> TCP_S_SYN_SENT then (False, c)
      else (True, c\<lparr>rcv_sack_perm := True, sack_enabled := sack_support c \<and> snd_sack_perm c\<rparr>))"

text \<open>The loop over the SACK blocks; the D-SACK tests of the source only write to the log.\<close>

fun markSacks :: "tcp_segment \<Rightarrow> u32 \<Rightarrow> sack list \<Rightarrow> rexmit_queue \<Rightarrow> rexmit_queue res" where
  "markSacks seg una [] q = Inr q"
| "markSacks seg una (s # ss) q =
     bindR (if seqGreater (sackEndNo s) (ackNo seg) \<and> seqGreater (sackEndNo s) una
            then setSackedBit q (sackStartNo s) (sackEndNo s) else Inr q) (\<lambda>q'.
     markSacks seg una ss q')"

definition processSACKOption :: "tcp_segment \<Rightarrow> u16 \<Rightarrow> sack list \<Rightarrow> tcp_conn \<Rightarrow> (bool \<times> tcp_conn) res" where
  "processSACKOption seg len items c =
     (if len mod 8 \<noteq> 2 then Inr (False, c)
      else
        let n = of_nat (length items) :: u32
        in bindR (assertR (ucast len = 2 + n * 8) ''processSACKOption'') (\<lambda>_.
           if \<not> sack_enabled c then Inr (False, c)
           else if fsm c \<noteq> TCP_S_SYN_RCVD \<and> fsm c \<noteq> TCP_S_ESTABLISHED \<and> fsm c \<noteq> TCP_S_FIN_WAIT_1 \<and>
                   fsm c \<noteq> TCP_S_FIN_WAIT_2 then Inr (False, c)
           else if n > 0
           then bindR (markSacks seg (snd_una c) items (rexmitQ c)) (\<lambda>q.
                Inr (True, c\<lparr>rexmitQ := q, rcv_sacks := rcv_sacks c + n, sackedBytes_old := sackedBytes c,
                             sackedBytes := getTotalAmountOfSackedBytes q\<rparr>))
           else Inr (True, c)))"

definition processOption :: "tcp_segment \<Rightarrow> tcp_option \<Rightarrow> tcp_conn \<Rightarrow> tcp_conn res" where
  "processOption seg opt c =
     (case optBody opt of
        OptMaxSegmentSize v \<Rightarrow> Inr (snd (processMSSOption (optLength opt) v c))
      | OptWindowScale v \<Rightarrow> Inr (snd (processWSOption (optLength opt) v c))
      | OptSackPermitted \<Rightarrow> Inr (snd (processSACKPermittedOption (optLength opt) c))
      | OptSack items \<Rightarrow> bindR (processSACKOption seg (optLength opt) items c) (\<lambda>(ok, c'). Inr c')
      | OptTimestamp a b \<Rightarrow> Inr (snd (processTSOption seg (optLength opt) a b c))
      | _ \<Rightarrow> Inr c)"

fun processOptions :: "tcp_segment \<Rightarrow> tcp_option list \<Rightarrow> tcp_conn \<Rightarrow> tcp_conn res" where
  "processOptions seg [] c = Inr c"
| "processOptions seg (opt # opts) c = bindR (processOption seg opt c) (\<lambda>c'. processOptions seg opts c')"

definition readHeaderOptions :: "tcp_segment \<Rightarrow> tcp_conn \<Rightarrow> tcp_conn res" where
  "readHeaderOptions seg c = processOptions seg (headerOptionList seg) c"

fun firstTimestamp :: "tcp_option list \<Rightarrow> (u32 \<times> u32) option" where
  "firstTimestamp [] = None"
| "firstTimestamp (opt # opts) =
     (case optBody opt of OptTimestamp a b \<Rightarrow> Some (a, b) | _ \<Rightarrow> firstTimestamp opts)"

definition getTSval :: "tcp_segment \<Rightarrow> u32" where
  "getTSval seg = (case firstTimestamp (headerOptionList seg) of Some (a, b) \<Rightarrow> a | None \<Rightarrow> 0)"

definition getTSecr :: "tcp_segment \<Rightarrow> u32" where
  "getTSecr seg = (case firstTimestamp (headerOptionList seg) of Some (a, b) \<Rightarrow> b | None \<Rightarrow> 0)"

section \<open>Acceptability and windows: facts\<close>

text \<open>The four rows of the table of RFC 793 for segments that carry data, over byte sets.\<close>

lemma isSegmentAcceptable_data:
  assumes len: "0 < payloadLength seg" "unat (payloadLength seg) < 2 ^ 31" and w: "unat (rcv_wnd c) < 2 ^ 31"
  shows "isSegmentAcceptable seg c \<longleftrightarrow>
     sequenceNo seg \<in> byteRange (rcv_nxt c) (rcv_nxt c + rcv_wnd c) \<or>
     sequenceNo seg + ucast (payloadLength seg) - 1 \<in> byteRange (rcv_nxt c) (rcv_nxt c + rcv_wnd c)"
proof -
  let ?n = "rcv_nxt c" and ?s = "sequenceNo seg" and ?l = "ucast (payloadLength seg) :: u32"
  have l: "unat ?l = unat (payloadLength seg)" using len by (intro unat_ucast_narrow) simp
  have l0: "?l \<noteq> 0" using l len(1) by (metis unat_0 unat_eq_zero word_gt_0)
  have e: "off ?n (?n + rcv_wnd c) = unat (rcv_wnd c)" by (simp add: off_def)
  have we: "inwin ?n (?n + rcv_wnd c)" using e w by (simp add: inwin_def)
  have first: "seqLE ?n x \<and> seqLess x (?n + rcv_wnd c) \<longleftrightarrow> x \<in> byteRange ?n (?n + rcv_wnd c)" for x
    using we e w by (auto simp: byteRange_def inwin_seqLE [symmetric] seqLess_win [of ?n] inwin_def)
  have last: "seqLess ?n x \<and> seqLE x (?n + rcv_wnd c) \<longleftrightarrow> x - 1 \<in> byteRange ?n (?n + rcv_wnd c)" for x
  proof (cases "x = ?n")
    case True
    have "off ?n (?n - 1) = 2 ^ 32 - 1" using off_swap [of ?n "?n - 1"] by (simp add: off_def)
    then show ?thesis using True e w by (simp add: byteRange_def)
  next
    case False
    have "x - 1 - ?n = (x - ?n) - 1" by simp
    moreover have "x - ?n \<noteq> 0" using False by simp
    ultimately have o: "off ?n (x - 1) = off ?n x - 1" unfolding off_def by (metis unat_minus_one)
    have "0 < off ?n x" using False by (metis gr0I off_eq_0)
    then have "off ?n (x - 1) < unat (rcv_wnd c) \<longleftrightarrow> off ?n x \<le> unat (rcv_wnd c)" using o by arith
    moreover have "seqLE ?n x = inwin ?n x" by (simp add: inwin_seqLE)
    moreover have "inwin ?n x \<Longrightarrow> seqLE x (?n + rcv_wnd c) \<longleftrightarrow> off ?n x \<le> unat (rcv_wnd c)"
      using we e by (simp add: seqLE_win [of ?n])
    moreover have "off ?n x \<le> unat (rcv_wnd c) \<Longrightarrow> inwin ?n x" using w by (simp add: inwin_def)
    ultimately show ?thesis using e False by (auto simp: byteRange_def seqLess_iff)
  qed
  show ?thesis
  proof (cases "rcv_wnd c = 0")
    case True
    then show ?thesis using l0 by (simp add: isSegmentAcceptable_def byteRange_def)
  next
    case False
    then show ?thesis using l0 first [of ?s] last [of "?s + ?l"]
      by (simp add: isSegmentAcceptable_def Let_def)
  qed
qed

lemma updateRcvQueueVars_simps [simp]:
  "rcv_nxt (updateRcvQueueVars c) = rcv_nxt c" "rcv_adv (updateRcvQueueVars c) = rcv_adv c"
  "maxRcvBuffer (updateRcvQueueVars c) = maxRcvBuffer c" "snd_mss (updateRcvQueueVars c) = snd_mss c"
  "ws_enabled (updateRcvQueueVars c) = ws_enabled c" "rcv_wnd_scale (updateRcvQueueVars c) = rcv_wnd_scale c"
  "freeRcvBuffer (updateRcvQueueVars c) = getAmountOfFreeBytes (receiveQ c) (maxRcvBuffer c)"
  by (simp_all add: updateRcvQueueVars_def Let_def)

lemma unat_ucast_u16: "unat (w :: u32) < 2 ^ 16 \<Longrightarrow> unat (ucast w :: u16) = unat w"
  by (simp add: unsigned_ucast_eq take_bit_nat_eq_self)

lemma ucast16_id: "(w :: u32) \<le> TCP_MAX_WIN \<Longrightarrow> w = ucast (ucast w :: u16)"
proof -
  assume "w \<le> TCP_MAX_WIN"
  then have "unat w < 2 ^ 16" by (simp add: word_le_nat_alt)
  then have "unat (ucast (ucast w :: u16) :: u32) = unat w"
    by (simp add: unsigned_ucast_eq unsigned_take_bit_eq take_bit_nat_eq_self)
  then show ?thesis by (metis word_unat_eq_iff)
qed

lemma updateRcvWnd_unscaled:
  assumes ws: "\<not> ws_enabled c" and adv: "off (rcv_nxt c) (rcv_adv c) \<le> 65535"
  shows "\<exists>w c'. updateRcvWnd c = Inr (w, c') \<and> rcv_wnd c' \<le> TCP_MAX_WIN \<and> unat w = unat (rcv_wnd c') \<and>
     rcv_nxt c' = rcv_nxt c \<and>
     off (rcv_nxt c) (rcv_adv c) \<le> unat (rcv_wnd c') \<and>
     off (rcv_nxt c) (rcv_adv c) \<le> off (rcv_nxt c) (rcv_adv c') \<and>
     off (rcv_nxt c) (rcv_adv c') = unat (rcv_wnd c') \<and>
     (off (rcv_nxt c) (rcv_adv c) \<le> unat (freeRcvBuffer c') \<longrightarrow> rcv_wnd c' \<le> freeRcvBuffer c')"
proof -
  let ?n = "rcv_nxt c" and ?a = "rcv_adv c" and ?q = "updateRcvQueueVars c"
  define w where "w = chooseRcvWnd ?q"
  have aw: "?a - ?n \<le> TCP_MAX_WIN" using adv by (simp add: off_def word_le_nat_alt)
  have le: "w \<le> TCP_MAX_WIN" using ws by (auto simp: w_def chooseRcvWnd_def Let_def)
  have ge: "?a - ?n \<le> w" using aw by (auto simp: w_def chooseRcvWnd_def Let_def not_less)
  have fr: "off ?n ?a \<le> unat (freeRcvBuffer ?q) \<longrightarrow> w \<le> freeRcvBuffer ?q"
    using ge by (auto simp: w_def chooseRcvWnd_def Let_def off_def word_le_nat_alt word_less_nat_alt)
  have geo: "off ?n ?a \<le> unat w" using ge by (simp add: off_def word_le_nat_alt)
  have on: "off ?n (?n + w) = unat w" by (simp add: off_def)
  have win: "inwin ?n (?n + w)" "inwin ?n ?a" using on le adv by (auto simp: inwin_def word_le_nat_alt)
  have se: "seqGE (?n + w) ?a" using geo on win by (simp add: seqGE_win [of ?n])
  have z: "w = 0 \<Longrightarrow> ?a = ?n" using geo by (metis le_zero_eq off_eq_0 unat_0)
  let ?c' = "(if w > 0 then ?q\<lparr>rcv_adv := ?n + w\<rparr> else ?q)\<lparr>rcv_wnd := w\<rparr>"
  have "updateRcvWnd c = Inr (ucast w, ?c')"
    using ws ucast16_id [OF le] se by (simp add: updateRcvWnd_def Let_def w_def [symmetric])
  moreover have "unat (ucast w :: u16) = unat w"
    using le by (simp add: unsigned_ucast_eq take_bit_nat_eq_self word_le_nat_alt)
  ultimately show ?thesis using le geo on z fr
    by (intro exI [of _ "ucast w"] exI [of _ ?c']) (auto simp: word_gt_0)
qed

section \<open>Option lengths: facts\<close>

definition optionBytes :: "tcp_option list \<Rightarrow> nat" where
  "optionBytes opts = sum_list (map (\<lambda>opt. unat (optLength opt)) opts)"

lemma optionBytes_simps [simp]:
  "optionBytes [] = 0" "optionBytes (p # ps) = unat (optLength p) + optionBytes ps"
  "optionBytes (ps @ qs) = optionBytes ps + optionBytes qs"
  by (simp_all add: optionBytes_def)

lemma optionBytes_nops [simp]: "optionBytes (replicate k (mkOption OptNop)) = k"
  by (induction k) (auto simp: mkOption_def)

lemma optionArrayLength: "getHeaderOptionArrayLength seg = of_nat (optionBytes (headerOptionList seg))"
proof -
  have "fold (\<lambda>opt used. used + optLength opt) opts a = a + of_nat (optionBytes opts)" for opts and a :: u16
    by (induction opts arbitrary: a) (auto simp: algebra_simps)
  from this [of "headerOptionList seg" 0] show ?thesis by (simp add: getHeaderOptionArrayLength_def)
qed

lemma optionArrayLength_small:
  "optionBytes (headerOptionList seg) < 2 ^ 16 \<Longrightarrow>
     unat (ucast (getHeaderOptionArrayLength seg) :: u32) = optionBytes (headerOptionList seg)"
  by (simp add: optionArrayLength unsigned_ucast_eq unat_of_nat take_bit_nat_eq_self)

text \<open>The alignment leaves room for the chosen number of blocks.\<close>

lemma sack_room:
  fixes used :: nat
  assumes "used \<le> 30" "n \<le> (38 - used) div 8"
  defines "k \<equiv> (let r = used mod 4 in if r = 2 then 0 else if r = 1 then 1 else if r = 0 then 2 else 3 :: nat)"
  shows "(used + k) mod 4 = 2" "used + k + 8 * n + 2 \<le> 40"
proof -
  consider "used mod 4 = 0" | "used mod 4 = 1" | "used mod 4 = 2" | "used mod 4 = 3" by linarith
  then show m: "(used + k) mod 4 = 2"
    by cases (simp_all add: k_def, presburger+)
  have "k \<le> 3" by (simp add: k_def Let_def)
  then have le: "used + k + 8 * n + 2 \<le> 43" using assms by auto
  have "(used + k + 8 * n + 2) mod 4 = 0" using m by presburger
  then show "used + k + 8 * n + 2 \<le> 40" using le by presburger
qed

lemma alignNops_nat:
  "unat used < 2 ^ 16 \<Longrightarrow> alignNops used = (let r = unat used mod 4 in if r = 2 then 0 else if r = 1 then 1 else if r = 0 then 2 else 3)"
proof -
  have "unat (used mod 4) = unat used mod 4" by (simp add: unat_mod)
  then have m: "used mod 4 = of_nat (unat used mod 4)" by (metis of_nat_unat ucast_id)
  consider "unat used mod 4 = 0" | "unat used mod 4 = 1" | "unat used mod 4 = 2" | "unat used mod 4 = 3"
    by linarith
  then show ?thesis by cases (simp_all add: alignNops_def m)
qed

lemma addSacks_room:
  assumes u: "unat used \<le> 30" and n: "n \<le> ((TCP_OPTIONS_MAX_SIZE - used) - 2) div 8"
  shows "(used + of_nat (alignNops used)) mod 4 = 2"
    and "used + of_nat (alignNops used) + 8 * n + 2 \<le> TCP_OPTIONS_MAX_SIZE"
    and "unat (8 * n + 2) = 8 * unat n + 2"
    and "unat used + alignNops used + 8 * unat n + 2 \<le> 40"
proof -
  have s1: "unat (TCP_OPTIONS_MAX_SIZE - used) = 40 - unat used"
    using u by (subst unat_sub) (auto simp: word_le_nat_alt)
  then have "unat (TCP_OPTIONS_MAX_SIZE - used - 2) = 38 - unat used"
    using u by (subst unat_sub) (auto simp: word_le_nat_alt)
  then have n': "unat n \<le> (38 - unat used) div 8" using n by (simp add: word_le_nat_alt unat_div)
  have k: "alignNops used = (let r = unat used mod 4 in if r = 2 then 0 else if r = 1 then 1 else if r = 0 then 2 else 3)"
    using u by (intro alignNops_nat) simp
  note room = sack_room [OF u n', folded k]
  show "unat used + alignNops used + 8 * unat n + 2 \<le> 40" by (fact room(2))
  have a: "unat (used + of_nat (alignNops used)) = unat used + alignNops used"
    using room(2) by (simp add: unat_word_ariths unat_of_nat)
  have b: "unat (8 * n) = 8 * unat n" using room(2) by (simp add: unat_word_ariths)
  then show c: "unat (8 * n + 2) = 8 * unat n + 2" using room(2) by (simp add: unat_word_ariths)
  have "unat ((used + of_nat (alignNops used)) mod 4) = 2" using room(1) a by (simp add: unat_mod)
  then show "(used + of_nat (alignNops used)) mod 4 = 2" by (metis of_nat_numeral of_nat_unat ucast_id)
  have "unat (used + of_nat (alignNops used) + 8 * n + 2) = unat used + alignNops used + 8 * unat n + 2"
    using a b room(2) by (simp add: unat_word_ariths)
  then show "used + of_nat (alignNops used) + 8 * n + 2 \<le> TCP_OPTIONS_MAX_SIZE"
    using room(2) by (simp add: word_le_nat_alt)
qed

text \<open>A SACK option is appended after \<open>addSacks\<close> has chosen the blocks; it always fits.\<close>

lemma attachSacks_shape:
  assumes small: "optionBytes (headerOptionList seg) \<le> 30"
  shows "attachSacks seg d sacks c = Inl (AssertFailure ''it->getStart() != it->getEnd()'') \<or>
     (\<exists>seg' c'. attachSacks seg d sacks c = Inr (seg', c') \<and> optionBytes (headerOptionList seg') \<le> 40 \<and>
       (headerOptionList seg' = headerOptionList seg \<or> optionBytes (headerOptionList seg') mod 4 = 0) \<and>
       headerLength seg' = headerLength seg \<and> synBit seg' = synBit seg \<and> payloadLength seg' = payloadLength seg)"
proof -
  let ?u = "ucast (getHeaderOptionArrayLength seg) :: u32"
  let ?n0 = "of_nat (length sacks) :: u32"
  define n where "n = (if ?n0 > ((TCP_OPTIONS_MAX_SIZE - ?u) - 2) div 8 then ((TCP_OPTIONS_MAX_SIZE - ?u) - 2) div 8 else ?n0)"
  have u: "unat ?u = optionBytes (headerOptionList seg)" using small by (intro optionArrayLength_small) simp
  have n: "n \<le> ((TCP_OPTIONS_MAX_SIZE - ?u) - 2) div 8" by (auto simp: n_def not_less)
  have u30: "unat ?u \<le> 30" using u small by simp
  note room = addSacks_room [OF u30 n]
  have l: "unat (ucast (8 * n + 2) :: u16) = 8 * unat n + 2"
    using room(3,4) by (simp add: unsigned_ucast_eq take_bit_nat_eq_self)
  have m: "(unat ?u + alignNops ?u + 8 * unat n + 2) mod 4 = 0"
  proof -
    have "unat ((?u + of_nat (alignNops ?u)) mod 4) = 2" by (simp only: room(1)) simp
    moreover have "unat (?u + of_nat (alignNops ?u)) = unat ?u + alignNops ?u"
      using room(4) by (simp add: unat_word_ariths unat_of_nat)
    ultimately have "(unat ?u + alignNops ?u) mod 4 = 2" by (simp add: unat_mod)
    then show ?thesis by presburger
  qed
  show ?thesis
  proof (cases "n = 0")
    case True
    then show ?thesis unfolding attachSacks_def Let_def n_def [symmetric] using small by simp
  next
    case False
    have e: "attachSacks seg d sacks c =
       bindR (assertR (\<forall>s\<in>set (take (unat n) sacks). sackStartNo s \<noteq> sackEndNo s) ''it->getStart() != it->getEnd()'') (\<lambda>_.
         Inr (seg\<lparr>headerOptionList := headerOptionList seg @ replicate (alignNops ?u) (mkOption OptNop) @
                  [\<lparr>optLength = ucast (8 * n + 2), optBody = OptSack (take (unat n) sacks)\<rparr>]\<rparr>,
              resetSackFlags (c\<lparr>sacks_array := (if d then tl sacks else sacks), snd_sacks := snd_sacks c + n\<rparr>)))"
      unfolding attachSacks_def Let_def n_def [symmetric] using False room(1,2) by simp
    let ?opts = "headerOptionList seg @ replicate (alignNops ?u) (mkOption OptNop) @
        [\<lparr>optLength = ucast (8 * n + 2), optBody = OptSack (take (unat n) sacks)\<rparr>]"
    have "optionBytes ?opts = unat ?u + alignNops ?u + 8 * unat n + 2" using l u by simp
    then have "optionBytes ?opts \<le> 40" "optionBytes ?opts mod 4 = 0" using room(4) m by (simp_all only:)
    then show ?thesis
    proof (cases "\<forall>s\<in>set (take (unat n) sacks). sackStartNo s \<noteq> sackEndNo s")
      case True
      with \<open>optionBytes ?opts \<le> 40\<close> \<open>optionBytes ?opts mod 4 = 0\<close> show ?thesis by (simp add: e)
    next
      case False
      then have "attachSacks seg d sacks c = Inl (AssertFailure ''it->getStart() != it->getEnd()'')"
        by (simp only: e assertR_def if_False bindR_Inl)
      then show ?thesis ..
    qed
  qed
qed

lemma addSacks_shape:
  assumes small: "optionBytes (headerOptionList seg) \<le> 40"
  shows "addSacks seg c \<notin> {Inl (AssertFailure ''used_options_len % 4 == 2''),
       Inl (AssertFailure ''options_len <= TCP_OPTIONS_MAX_SIZE'')}"
    and "addSacks seg c = Inr (seg', c') \<Longrightarrow>
       optionBytes (headerOptionList seg') \<le> 40 \<and>
       (headerOptionList seg' = headerOptionList seg \<or> optionBytes (headerOptionList seg') mod 4 = 0) \<and>
       headerLength seg' = headerLength seg \<and> synBit seg' = synBit seg \<and> payloadLength seg' = payloadLength seg"
proof -
  let ?u = "ucast (getHeaderOptionArrayLength seg) :: u32"
  have u: "unat ?u = optionBytes (headerOptionList seg)" using small by (intro optionArrayLength_small) simp
  have purge: "purgeSacks nxt ss = Inl e \<Longrightarrow> e = AssertFailure ''seqGE(it->getStart(), state->rcv_nxt)''" for nxt ss e
    by (induction ss) (auto simp: bindR_def assertR_def split: if_splits sum.splits)
  have drop: "dropContained ss = Inl e \<Longrightarrow> e = AssertFailure ''!it->empty()''" for ss e
    by (induction ss rule: dropContained.induct) (auto simp: bindR_def assertR_def split: if_splits sum.splits)
  consider (p) e where "purgeSacks (rcv_nxt c) (sacks_array c) = Inl e"
    | (full) ss where "addSacks seg c = Inr (seg, resetSackFlags (c\<lparr>sacks_array := ss\<rparr>))"
    | (d) e where "addSacks seg c = Inl e" "e = AssertFailure ''!it->empty()''"
    | (att) d ss where "addSacks seg c = attachSacks seg d ss c" "unat ?u \<le> 30"
    using drop
    by (cases "purgeSacks (rcv_nxt c) (sacks_array c)")
      (fastforce simp: addSacks_def bindR_def Let_def not_less word_le_nat_alt split: sum.splits if_splits)+
  note c = this
  show "addSacks seg c \<notin> {Inl (AssertFailure ''used_options_len % 4 == 2''),
       Inl (AssertFailure ''options_len <= TCP_OPTIONS_MAX_SIZE'')}"
    using c
  proof cases
    case p
    then show ?thesis using purge [OF p] by (simp add: addSacks_def)
  next
    case (att d ss)
    then show ?thesis using attachSacks_shape [of seg d ss c] u by auto
  qed auto
  show "addSacks seg c = Inr (seg', c') \<Longrightarrow>
       optionBytes (headerOptionList seg') \<le> 40 \<and>
       (headerOptionList seg' = headerOptionList seg \<or> optionBytes (headerOptionList seg') mod 4 = 0) \<and>
       headerLength seg' = headerLength seg \<and> synBit seg' = synBit seg \<and> payloadLength seg' = payloadLength seg"
    using c
  proof cases
    case p
    then show "addSacks seg c = Inr (seg', c') \<Longrightarrow> ?thesis" by (simp add: addSacks_def)
  next
    case (att d ss)
    then show "addSacks seg c = Inr (seg', c') \<Longrightarrow> ?thesis" using attachSacks_shape [of seg d ss c] u by auto
  qed (use small in auto)
qed

lemma addHeaderOption_simps [simp]:
  "headerOptionList (addHeaderOption seg opt) = headerOptionList seg @ [opt]"
  "headerLength (addHeaderOption seg opt) = headerLength seg" "ackBit (addHeaderOption seg opt) = ackBit seg"
  "synBit (addHeaderOption seg opt) = synBit seg" "payloadLength (addHeaderOption seg opt) = payloadLength seg"
  by (simp_all add: addHeaderOption_def)

lemma optionBytes_mk [simp]: "unat (optLength (mkOption b)) = unat (defaultLength b)"
  by (simp add: mkOption_def)

lemma unat_timestampOption [simp]: "unat (optLength (timestampOption seg c)) = 10"
  by (simp add: timestampOption_def)

lemmas synWriters = writeSynMss_def writeSynWs_def writeSynSackPerm_def writeSynTs_def addNop_def

text \<open>How much each of the four writers of SYN options can add.\<close>

lemma synWriters_bytes:
  "optionBytes (headerOptionList (fst (writeSynMss p))) \<le> optionBytes (headerOptionList (fst p)) + 4"
  "optionBytes (headerOptionList (fst (writeSynWs p))) \<le> optionBytes (headerOptionList (fst p)) + 4"
  "optionBytes (headerOptionList (fst (writeSynSackPerm p))) \<le> optionBytes (headerOptionList (fst p)) + 4"
  "optionBytes (headerOptionList (fst (writeSynTs p))) \<le> optionBytes (headerOptionList (fst p)) + 12"
  by (cases p; simp add: synWriters Let_def)+

lemma synWriters_headerLength [simp]:
  "headerLength (fst (writeSynMss p)) = headerLength (fst p)"
  "headerLength (fst (writeSynWs p)) = headerLength (fst p)"
  "headerLength (fst (writeSynSackPerm p)) = headerLength (fst p)"
  "headerLength (fst (writeSynTs p)) = headerLength (fst p)"
  by (cases p; simp add: synWriters Let_def)+

lemma synOptions_bytes:
  assumes "headerOptionList seg = []"
  shows "optionBytes (headerOptionList (fst (writeSynTs (writeSynSackPerm (writeSynWs (writeSynMss (seg, c))))))) \<le> 40"
  using synWriters_bytes(1) [of "(seg, c)"] synWriters_bytes(2) [of "writeSynMss (seg, c)"]
    synWriters_bytes(3) [of "writeSynWs (writeSynMss (seg, c))"]
    synWriters_bytes(4) [of "writeSynSackPerm (writeSynWs (writeSynMss (seg, c)))"] assms
  by simp

lemma setOptionsLength_spec:
  assumes "optionBytes (headerOptionList seg) \<le> 40" "headerLength seg = TCP_HEADER_OCTETS"
  shows "headerOptionList (setOptionsLength seg) = headerOptionList seg"
    and "unat (headerLength (setOptionsLength seg)) = 20 + optionBytes (headerOptionList seg)"
proof -
  let ?u = "ucast (getHeaderOptionArrayLength seg) :: u32"
  have u: "unat ?u = optionBytes (headerOptionList seg)" using assms by (intro optionArrayLength_small) simp
  then have le: "?u \<le> TCP_OPTIONS_MAX_SIZE" using assms by (simp add: word_le_nat_alt)
  have "unat ?u < 2 ^ 16" unfolding u using assms(1) by simp
  then have "unat (ucast ?u :: u16) = unat ?u" by (rule unat_ucast_u16)
  then have "unat (TCP_HEADER_OCTETS + ucast ?u) = 20 + optionBytes (headerOptionList seg)"
    using u assms by (simp add: unat_word_ariths)
  then show "unat (headerLength (setOptionsLength seg)) = 20 + optionBytes (headerOptionList seg)"
    using le assms by (cases "headerOptionList seg = []") (simp_all add: setOptionsLength_def Let_def)
  show "headerOptionList (setOptionsLength seg) = headerOptionList seg"
    using le by (simp add: setOptionsLength_def Let_def)
qed

lemma setOptionsLength_keeps [simp]:
  "payloadLength (setOptionsLength seg) = payloadLength seg" "synBit (setOptionsLength seg) = synBit seg"
  by (simp_all add: setOptionsLength_def Let_def)

lemma writeHeaderOptions_length:
  assumes h: "headerOptionList seg = []" "headerLength seg = TCP_HEADER_OCTETS"
    and w: "writeHeaderOptions seg c = Inr (seg', c')"
  shows "unat (headerLength seg') = 20 + optionBytes (headerOptionList seg')"
    and "optionBytes (headerOptionList seg') \<le> 40"
proof -
  have "\<exists>s. seg' = setOptionsLength s \<and> optionBytes (headerOptionList s) \<le> 40 \<and> headerLength s = TCP_HEADER_OCTETS"
  proof (cases "synBit seg \<and> (fsm c = TCP_S_INIT \<or> fsm c = TCP_S_LISTEN \<or>
            ((fsm c = TCP_S_SYN_SENT \<or> fsm c = TCP_S_SYN_RCVD) \<and> syn_rexmit_count c > 0))")
    case True
    have "seg' = setOptionsLength (fst (writeSynTs (writeSynSackPerm (writeSynWs (writeSynMss (seg, c))))))"
      using w unfolding writeHeaderOptions_def if_P [OF True] by (simp split: prod.splits)
    with synOptions_bytes [OF h(1), of c] h(2) show ?thesis by auto
  next
    case False
    let ?t = "writeTs seg c"
    have t: "optionBytes (headerOptionList ?t) \<le> 12" "headerLength ?t = TCP_HEADER_OCTETS"
      using h by (auto simp: writeTs_def addNop_def)
    show ?thesis
    proof (cases "fsm c \<in> {TCP_S_SYN_SENT, TCP_S_SYN_RCVD, TCP_S_ESTABLISHED, TCP_S_FIN_WAIT_1, TCP_S_FIN_WAIT_2} \<and> sacksPending c")
      case True
      then obtain s k where k: "addSacks ?t c = Inr (s, k)" "seg' = setOptionsLength s"
        using w False unfolding writeHeaderOptions_def if_not_P [OF False] Let_def
        by (auto elim!: bindR_InrE split: if_splits)
      from addSacks_shape(2) [OF _ k(1)] t k(2) show ?thesis by auto
    next
      case ns: False
      then have "seg' = setOptionsLength ?t \<or> seg' = setOptionsLength seg"
        using w unfolding writeHeaderOptions_def if_not_P [OF False] Let_def
        by (auto split: if_splits)
      with t h show ?thesis by auto
    qed
  qed
  with setOptionsLength_spec show "unat (headerLength seg') = 20 + optionBytes (headerOptionList seg')"
    "optionBytes (headerOptionList seg') \<le> 40" by auto
qed

section \<open>Negotiated options: facts\<close>

text \<open>
  An option is in use only when the host supports it and both sides have announced it, and the
  peer's window scale is a legal shift count.
\<close>

definition optInv :: "tcp_conn \<Rightarrow> bool" where
  "optInv c \<longleftrightarrow>
     (ws_enabled c \<longrightarrow> ws_support c \<and> snd_ws c \<and> rcv_ws c) \<and>
     (ts_enabled c \<longrightarrow> ts_support c \<and> snd_initial_ts c \<and> rcv_initial_ts c) \<and>
     (sack_enabled c \<longrightarrow> sack_support c \<and> snd_sack_perm c \<and> rcv_sack_perm c) \<and>
     snd_wnd_scale c \<le> 14"

lemma resetSackFlags_optInv [simp]: "optInv (resetSackFlags c) = optInv c"
  by (simp add: resetSackFlags_def optInv_def)

lemma optInv_sacks [simp]: "optInv (c\<lparr>sacks_array := ss\<rparr>) = optInv c"
  "optInv (c\<lparr>sacks_array := ss, snd_sacks := k\<rparr>) = optInv c"
  "optInv (c\<lparr>rexmitQ := q, rcv_sacks := k, sackedBytes_old := a, sackedBytes := b\<rparr>) = optInv c"
  by (simp_all add: optInv_def)

lemma attachSacks_optInv: "optInv c \<Longrightarrow> attachSacks seg d ss c = Inr (seg', c') \<Longrightarrow> optInv c'"
  unfolding attachSacks_def Let_def by (auto elim!: bindR_InrE split: if_splits)

lemma addSacks_optInv: "optInv c \<Longrightarrow> addSacks seg c = Inr (seg', c') \<Longrightarrow> optInv c'"
  unfolding addSacks_def Let_def
  by (auto elim!: bindR_InrE dest: attachSacks_optInv split: if_splits)

lemma synWriters_optInv:
  "optInv (snd p) \<Longrightarrow> optInv (snd (writeSynMss p))"
  "optInv (snd p) \<Longrightarrow> optInv (snd (writeSynWs p))"
  "optInv (snd p) \<Longrightarrow> optInv (snd (writeSynSackPerm p))"
  "optInv (snd p) \<Longrightarrow> optInv (snd (writeSynTs p))"
  by (cases p; simp add: synWriters Let_def; simp add: optInv_def)+

lemma writeHeaderOptions_optInv:
  assumes "optInv c" "writeHeaderOptions seg c = Inr (seg', c')"
  shows "optInv c'"
proof -
  have syn: "optInv (snd (writeSynTs (writeSynSackPerm (writeSynWs (writeSynMss (seg, c))))))"
    using assms(1) by (intro synWriters_optInv) simp
  show ?thesis
    using assms addSacks_optInv [OF assms(1)] syn unfolding writeHeaderOptions_def Let_def
    by (auto elim!: bindR_InrE split: if_splits prod.splits)
qed

lemma optionHandlers_optInv:
  "optInv c \<Longrightarrow> optInv (snd (processMSSOption l v c))"
  "optInv c \<Longrightarrow> optInv (snd (processWSOption l v c))"
  "optInv c \<Longrightarrow> optInv (snd (processSACKPermittedOption l c))"
  "optInv c \<Longrightarrow> optInv (snd (processTSOption seg l a b c))"
  by (simp_all add: processMSSOption_def processWSOption_def processSACKPermittedOption_def
      processTSOption_def Let_def) (simp_all add: optInv_def not_less)

lemma processSACKOption_optInv: "optInv c \<Longrightarrow> processSACKOption seg l items c = Inr (ok, c') \<Longrightarrow> optInv c'"
  unfolding processSACKOption_def Let_def by (auto elim!: bindR_InrE split: if_splits)

lemma processOption_optInv: "optInv c \<Longrightarrow> processOption seg opt c = Inr c' \<Longrightarrow> optInv c'"
  by (cases "optBody opt")
    (auto simp: processOption_def optionHandlers_optInv elim!: bindR_InrE dest: processSACKOption_optInv)

lemma processOptions_optInv: "optInv c \<Longrightarrow> processOptions seg opts c = Inr c' \<Longrightarrow> optInv c'"
  by (induction opts arbitrary: c) (auto elim!: bindR_InrE dest: processOption_optInv)

section \<open>Properties\<close>





text \<open>
  Header options never overflow the header. After \<open>writeHeaderOptions\<close> on a fresh segment, in any
  state, the header length is 20 plus the bytes of the options, and at most 60, which is what the
  assertions of \<open>sendToIP\<close> demand.
\<close>

lemma writeHeaderOptions_fits:
  assumes "headerOptionList seg = []" "headerLength seg = TCP_HEADER_OCTETS"
    and "writeHeaderOptions seg c = Inr (seg', c')"
  shows "unat (headerLength seg') = 20 + optionBytes (headerOptionList seg') \<and>
     TCP_HEADER_OCTETS \<le> headerLength seg' \<and> headerLength seg' \<le> TCP_MAX_HEADER_OCTETS"
  using writeHeaderOptions_length [OF assms] by (simp add: word_le_nat_alt)

lemma sampleConn_flags [simp]:
  "ws_support (sampleConn st) = False" "ts_support (sampleConn st) = False" "sack_support (sampleConn st) = False"
  "ws_enabled (sampleConn st) = False" "ts_enabled (sampleConn st) = False" "sack_enabled (sampleConn st) = False"
  "snd_wnd_scale (sampleConn st) = 0" "snd_mss (sampleConn st) = 0" "now (sampleConn st) = 1"
  "fsm (sampleConn st) = st"
  by (simp_all add: sampleConn_def newConnection_def newAlgStateVariables_def newStateVariables_def
      tcp_state_variables.defs tcp_alg_state_variables.defs)

text \<open>
  C29: negotiation is sound. Window scaling, timestamps and SACK stay in use only where the host
  supports the option and both sides have announced it, and the peer's window scale never exceeds
  14, through every header written and every list of options received.
\<close>

theorem negotiation_sound:
  assumes "optInv c"
  shows "(\<forall>seg' c'. writeHeaderOptions seg c = Inr (seg', c') \<longrightarrow> optInv c') \<and>
     (\<forall>c'. readHeaderOptions seg c = Inr c' \<longrightarrow> optInv c')"
  using writeHeaderOptions_optInv [OF assms] processOptions_optInv [OF assms]
  by (auto simp: readHeaderOptions_def)

theorem negotiation_sound_witness:
  "\<exists>c'. readHeaderOptions (newSegment\<lparr>headerOptionList := [mkOption (OptWindowScale 200), mkOption OptSackPermitted]\<rparr>)
       ((sampleConn TCP_S_LISTEN)\<lparr>ws_support := True\<rparr>) = Inr c' \<and> optInv c'"
proof -
  let ?seg = "newSegment\<lparr>headerOptionList := [mkOption (OptWindowScale 200), mkOption OptSackPermitted]\<rparr>"
  let ?c = "(sampleConn TCP_S_LISTEN)\<lparr>ws_support := True\<rparr>"
  have "optInv ?c" by (simp add: optInv_def)
  moreover obtain c' where "readHeaderOptions ?seg ?c = Inr c'"
    by (simp add: readHeaderOptions_def processOption_def newSegment_def mkOption_def)
  ultimately show ?thesis using negotiation_sound [of ?c ?seg] by blast
qed

text \<open>
  The NOPs that align the SACK-permitted option are left out when the host supports timestamps, even when no timestamp option is
  written because the peer sent none.
\<close>

lemma synAck_header_unaligned:
  assumes "fsm c = TCP_S_LISTEN" "0 < snd_mss c" "\<not> (ws_support c \<and> rcv_ws c)"
    and "sack_support c" "rcv_sack_perm c" "ts_support c" "\<not> rcv_initial_ts c"
  shows "\<exists>seg' c'. writeHeaderOptions (newSegment\<lparr>synBit := True, ackBit := True\<rparr>) c = Inr (seg', c') \<and>
     headerLength seg' = 26 \<and> unat (headerLength seg') mod 4 = 2"
proof -
  have f: "\<not> firstSyn c" using assms(1) by (simp add: firstSyn_def)
  let ?m = "newSegment\<lparr>synBit := True, ackBit := True,
      headerOptionList := [mkOption (OptMaxSegmentSize (ucast (snd_mss c)))]\<rparr>"
  have 1: "writeSynMss (newSegment\<lparr>synBit := True, ackBit := True\<rparr>, c) = (?m, c)"
    using assms(2) by (simp add: writeSynMss_def newSegment_def addHeaderOption_def)
  have 2: "writeSynWs (?m, c) = (?m, c)"
    using assms(3) f by (simp only: writeSynWs_def prod.case) auto
  let ?p = "?m\<lparr>headerOptionList := headerOptionList ?m @ [mkOption OptSackPermitted]\<rparr>"
  let ?c = "c\<lparr>snd_sack_perm := True, sack_enabled := True\<rparr>"
  have 3: "writeSynSackPerm (?m, c) = (?p, ?c)"
    using assms(4-6) by (simp add: writeSynSackPerm_def addHeaderOption_def)
  have 4: "writeSynTs (?p, ?c) = (?p, ?c)"
    using assms(1,7) by (simp add: writeSynTs_def firstSyn_def)
  have "writeSynTs (writeSynSackPerm (writeSynWs (writeSynMss (newSegment\<lparr>synBit := True, ackBit := True\<rparr>, c)))) = (?p, ?c)"
    by (simp only: 1 2 3 4)
  then show ?thesis
    using assms(1)
    by (simp add: writeHeaderOptions_def setOptionsLength_def newSegment_def getHeaderOptionArrayLength_def mkOption_def)
qed

text \<open>
  SACK blocks are not checked against the data sent. With SACK in use, a block that ends
  above everything on the scoreboard makes \<open>processSACKOption\<close> fail an assertion of \<open>setSackedBit\<close>.
\<close>

lemma sack_block_unchecked:
  assumes "sack_enabled c" "fsm c = TCP_S_ESTABLISHED" "rq_begin (rexmitQ c) = snd_una c"
    and "ackNo seg = snd_una c" "seqLess (snd_una c) (sackEndNo s)" "seqLE (snd_una c) (sackStartNo s)"
    and "seqLess (sackStartNo s) (rq_end (rexmitQ c))" "\<not> seqLE (sackEndNo s) (rq_end (rexmitQ c))"
  shows "processSACKOption seg 10 [s] c = Inl (AssertFailure ''setSackedBit'')"
proof -
  have "\<not> seqLess (sackStartNo s) (snd_una c)" using assms(6) seqLess_asym seqLess_iff by (metis seqLE_antisym)
  then have "setSackedBit (rexmitQ c) (sackStartNo s) (sackEndNo s) = Inl (AssertFailure ''setSackedBit'')"
    using assms(3,7,8) by (simp add: setSackedBit_def)
  then show ?thesis using assms by (simp add: processSACKOption_def seqGreater_seqLess)
qed

end
