(* ===== verification/Tcp_Send.thy ===== *)
theory Tcp_Send
  imports Tcp_Options
begin

text \<open>
  The sending side of a connection (\<open>src/inet/transportlayer/tcp/TCPConnectionUtil.cc\<close>:
  \<open>sendToIP\<close> to \<open>retransmitData\<close>, \<open>sendOneNewSegment\<close>; \<open>TCPConnectionSackUtil.cc\<close>: \<open>isLost\<close>,
  \<open>setPipe\<close>, \<open>nextSeg\<close>, the loss-recovery senders), with the notifications of the
  congestion-control object that these operations call (\<open>flavours/TCPBaseAlg.cc\<close>,
  \<open>flavours/DumbTCP.cc\<close>: \<open>ackSent\<close>, \<open>dataSent\<close>, \<open>restartRexmitTimer\<close>). Loops that the source does
  not bound carry a fuel argument; running out of it is the error \<open>LoopBound\<close>.
\<close>

section \<open>Timers and algorithm notifications\<close>

definition scheduleRexmit :: "simtime \<Rightarrow> tcp_conn \<Rightarrow> tcp_conn res" where
  "scheduleRexmit timeout c =
     bindR (scheduleAt (now c + timeout) (rexmitTimer c)) (\<lambda>t. Inr (c\<lparr>rexmitTimer := t\<rparr>))"

definition startRexmitTimer :: "tcp_conn \<Rightarrow> tcp_conn res" where
  "startRexmitTimer c = scheduleRexmit (rexmit_timeout c) (c\<lparr>rexmit_count := 0\<rparr>)"

text \<open>\<open>if (timer->isScheduled()) cancelEvent(timer)\<close>\<close>

definition cancelIfScheduled :: "timer \<Rightarrow> timer" where
  "cancelIfScheduled t = (if isScheduled t then IdleTimer else t)"

definition isDumb :: "tcp_conn \<Rightarrow> bool" where
  "isDumb c \<longleftrightarrow> tcpAlgorithm c = Some DumbTCP"

definition ackSent :: "tcp_conn \<Rightarrow> tcp_conn" where
  "ackSent c =
     (if isDumb c then c
      else c\<lparr>full_sized_segment_counter := 0, ack_now := False, last_ack_sent := rcv_nxt c,
             delayedAckTimer := cancelIfScheduled (delayedAckTimer c)\<rparr>)"

definition dataSent :: "u32 \<Rightarrow> tcp_conn \<Rightarrow> tcp_conn res" where
  "dataSent fromseq c =
     (if isDumb c
      then scheduleRexmit 2 (c\<lparr>rexmitTimer := cancelIfScheduled (rexmitTimer c)\<rparr>)
      else
        bindR (if \<not> isScheduled (rexmitTimer c) then startRexmitTimer c else Inr c) (\<lambda>c1.
        let c2 = (if \<not> ts_enabled c1 \<and> rtseq_sendtime c1 = 0
                  then c1\<lparr>rtseq := fromseq, rtseq_sendtime := now c1\<rparr> else c1)
        in Inr (c2\<lparr>time_last_data_sent := now c2\<rparr>)))"

definition restartRexmitTimer :: "tcp_conn \<Rightarrow> tcp_conn res" where
  "restartRexmitTimer c =
     (if isDumb c then Inr c
      else startRexmitTimer (c\<lparr>rexmitTimer := cancelIfScheduled (rexmitTimer c)\<rparr>))"

section \<open>Control segments\<close>

definition sendToIP :: "tcp_segment \<Rightarrow> tcp_conn \<Rightarrow> tcp_conn res" where
  "sendToIP seg c =
     (let seg1 = seg\<lparr>srcPort := of_int (localPort c), destPort := of_int (remotePort c)\<rparr>
      in bindR (assertR (headerLength seg1 \<ge> TCP_HEADER_OCTETS) ''sendToIP'') (\<lambda>_.
         bindR (assertR (headerLength seg1 \<le> TCP_MAX_HEADER_OCTETS) ''sendToIP'') (\<lambda>_.
         Inr (emit (ToIP seg1 (localAddr c) (remoteAddr c)) (c\<lparr>sentBytes := ucast (payloadLength seg1)\<rparr>)))))"

definition sendSyn :: "tcp_conn \<Rightarrow> tcp_conn res" where
  "sendSyn c =
     (if remoteAddr c = Unspecified \<or> remotePort c = -1
      then Inl (RuntimeError ''Error processing command OPEN_ACTIVE: foreign socket unspecified'')
      else if localPort c = -1
      then Inl (RuntimeError ''Error processing command OPEN_ACTIVE: local port unspecified'')
      else
        bindR (updateRcvWnd c) (\<lambda>(w, c1).
        let seg = newSegment\<lparr>sequenceNo := iss c, synBit := True, window := ucast (rcv_wnd c1)\<rparr>;
            c2 = c1\<lparr>snd_nxt := iss c1 + 1, snd_max := iss c1 + 1\<rparr>
        in bindR (writeHeaderOptions seg c2) (\<lambda>(seg', c3). sendToIP seg' c3)))"

definition sendSynAck :: "tcp_conn \<Rightarrow> tcp_conn res" where
  "sendSynAck c =
     bindR (updateRcvWnd c) (\<lambda>(w, c1).
     let seg = newSegment\<lparr>sequenceNo := iss c, ackNo := rcv_nxt c, synBit := True, ackBit := True,
                          window := ucast (rcv_wnd c1)\<rparr>;
         c2 = c1\<lparr>snd_nxt := iss c1 + 1, snd_max := iss c1 + 1\<rparr>
     in bindR (writeHeaderOptions seg c2) (\<lambda>(seg', c3).
        bindR (sendToIP seg' c3) (\<lambda>c4. Inr (ackSent c4))))"

text \<open>The static form, also used for segments that belong to no connection.\<close>

definition rstSegment :: "u32 \<Rightarrow> int \<Rightarrow> int \<Rightarrow> tcp_segment" where
  "rstSegment seq srcP destP =
     newSegment\<lparr>srcPort := of_int srcP, destPort := of_int destP, rstBit := True, sequenceNo := seq\<rparr>"

definition rstAckSegment :: "u32 \<Rightarrow> u32 \<Rightarrow> int \<Rightarrow> int \<Rightarrow> tcp_segment" where
  "rstAckSegment seq ack srcP destP =
     newSegment\<lparr>srcPort := of_int srcP, destPort := of_int destP, rstBit := True, ackBit := True,
                sequenceNo := seq, ackNo := ack\<rparr>"

definition sendRstTo :: "u32 \<Rightarrow> l3_address \<Rightarrow> l3_address \<Rightarrow> int \<Rightarrow> int \<Rightarrow> tcp_conn \<Rightarrow> tcp_conn" where
  "sendRstTo seq src dest srcP destP c = emit (ToIP (rstSegment seq srcP destP) src dest) c"

definition sendRst :: "u32 \<Rightarrow> tcp_conn \<Rightarrow> tcp_conn" where
  "sendRst seqNo c = sendRstTo seqNo (localAddr c) (remoteAddr c) (localPort c) (remotePort c) c"

definition sendRstAck :: "u32 \<Rightarrow> u32 \<Rightarrow> l3_address \<Rightarrow> l3_address \<Rightarrow> int \<Rightarrow> int \<Rightarrow> tcp_conn \<Rightarrow> tcp_conn" where
  "sendRstAck seq ack src dest srcP destP c =
     (let c1 = emit (ToIP (rstAckSegment seq ack srcP destP) src dest) c
      in if tcpAlgorithm c1 \<noteq> None then ackSent c1 else c1)"

definition sendAck :: "tcp_conn \<Rightarrow> tcp_conn res" where
  "sendAck c =
     bindR (updateRcvWnd c) (\<lambda>(w, c1).
     let seg = newSegment\<lparr>ackBit := True, sequenceNo := snd_nxt c, ackNo := rcv_nxt c, window := w\<rparr>
     in bindR (writeHeaderOptions seg c1) (\<lambda>(seg', c2).
        bindR (sendToIP seg' c2) (\<lambda>c3. Inr (ackSent c3))))"

definition sendFin :: "tcp_conn \<Rightarrow> tcp_conn res" where
  "sendFin c =
     bindR (updateRcvWnd c) (\<lambda>(w, c1).
     let seg = newSegment\<lparr>finBit := True, ackBit := True, ackNo := rcv_nxt c, sequenceNo := snd_nxt c, window := w\<rparr>
     in bindR (sendToIP seg c1) (\<lambda>c2. Inr (ackSent c2)))"

section \<open>Data segments\<close>

text \<open>After an RTO, \<open>snd_nxt\<close> skips data the peer holds or that have been sent again.\<close>

definition skipSacked :: "tcp_conn \<Rightarrow> tcp_conn res" where
  "skipSacked c =
     (if sack_enabled c \<and> afterRto c
      then bindR (checkRexmitQueueForSackedOrRexmittedSegments (rexmitQ c) (snd_nxt c)) (\<lambda>fwd.
           Inr (c\<lparr>snd_nxt := snd_nxt c + fwd\<rparr>))
      else Inr c)"

text \<open>The readiness indication after a segment has left the send queue limit behind.\<close>

definition requestMoreData :: "tcp_conn \<Rightarrow> tcp_conn" where
  "requestMoreData c =
     (let alreadyQueued = ucast (getBytesAvailable (sendQ c) (getBufferStartSeq (sendQ c))) :: u32;
          abated = (if sendQueueLimit c > alreadyQueued then sendQueueLimit c - alreadyQueued else 0)
      in if sendQueueLimit c > 0 \<and> \<not> queueUpdate c \<and> abated \<ge> snd_mss c
         then (sendIndicationToApp TCP_I_SEND_MSG (sint abated) c)\<lparr>queueUpdate := True\<rparr>
         else c)"

text \<open>No more than is buffered, and no more than fits into a segment beside the options.\<close>

definition clipBytes :: "u32 \<Rightarrow> u64 \<Rightarrow> u32 \<Rightarrow> u32 \<Rightarrow> u32" where
  "clipBytes bytes buffered options_len mss =
     (let bytes1 = (if ucast bytes > buffered then ucast buffered else bytes)
      in if bytes1 + options_len > mss then mss - options_len else bytes1)"

text \<open>\<open>snd_nxt\<close> moves over the bytes sent, and over the FIN where it follows them.\<close>

definition advanceSndNxt :: "u32 \<Rightarrow> tcp_conn \<Rightarrow> bool \<times> tcp_conn" where
  "advanceSndNxt bytes c =
     (let c1 = c\<lparr>snd_nxt := snd_nxt c + bytes\<rparr>;
          c2 = (if afterRto c1 \<and> seqGE (snd_nxt c1) (snd_max c1) then c1\<lparr>afterRto := False\<rparr> else c1)
      in if send_fin c2 \<and> snd_nxt c2 = snd_fin_seq c2
         then (True, c2\<lparr>snd_nxt := snd_fin_seq c2 + 1\<rparr>) else (False, c2))"

text \<open>With SACK in use, the bytes are entered on the scoreboard.\<close>

definition registerSent :: "u32 \<Rightarrow> tcp_conn \<Rightarrow> tcp_conn res" where
  "registerSent bytes c =
     (if sack_enabled c
      then bindR (enqueueSentData (rexmitQ c) (snd_nxt c) (snd_nxt c + bytes)) (\<lambda>q. Inr (c\<lparr>rexmitQ := q\<rparr>))
      else Inr c)"

text \<open>The second half of \<open>sendSegment\<close>: header fields, \<open>snd_nxt\<close>, options and hand-over to IP.\<close>

definition transmitSegment :: "tcp_segment \<Rightarrow> tcp_segment \<Rightarrow> u32 \<Rightarrow> tcp_conn \<Rightarrow> tcp_conn res" where
  "transmitSegment temp seg bytes c =
     bindR (updateRcvWnd c) (\<lambda>(w, c1).
     bindR (assertR (ucast bytes = payloadLength seg) ''bytes == tcpseg->getPayloadLength()'') (\<lambda>_.
     case advanceSndNxt bytes c1 of (isFin, c2) \<Rightarrow>
     let seg' = seg\<lparr>ackNo := rcv_nxt c, ackBit := True, window := w, finBit := isFin,
                    headerOptionList := headerOptionList seg @ headerOptionList temp,
                    headerLength := headerLength temp\<rparr>
     in bindR (sendToIP seg' c2) (\<lambda>c3. Inr (requestMoreData c3))))"

definition sendSegment :: "u32 \<Rightarrow> tcp_conn \<Rightarrow> tcp_conn res" where
  "sendSegment bytes0 c0 =
     bindR (skipSacked c0) (\<lambda>c.
     let buffered = getBytesAvailable (sendQ c) (snd_nxt c)
     in bindR (writeHeaderOptions (newSegment\<lparr>ackBit := True\<rparr>) c) (\<lambda>(temp, c1).
     let options_len = ucast (headerLength temp - TCP_HEADER_OCTETS) :: u32
     in bindR (assertR (options_len < snd_mss c1) ''options_len < state->snd_mss'') (\<lambda>_.
     let bytes = clipBytes bytes0 buffered options_len (snd_mss c1);
         c2 = c1\<lparr>sentBytes := bytes\<rparr>
     in bindR (createSegmentWithBytes (sendQ c2) (snd_nxt c2) (ucast bytes)) (\<lambda>seg.
     bindR (registerSent bytes c2) (\<lambda>c3.
     transmitSegment temp seg bytes c3)))))"

text \<open>\<open>while (bytesToSend >= effectiveMaxBytesSend) { sendSegment(snd_mss); bytesToSend -= sentBytes; }\<close>\<close>

fun sendFullSegments :: "nat \<Rightarrow> u64 \<Rightarrow> u32 \<Rightarrow> tcp_conn \<Rightarrow> (u64 \<times> tcp_conn) res" where
  "sendFullSegments fuel bytesToSend effectiveMaxBytesSend c =
     (if bytesToSend \<ge> ucast effectiveMaxBytesSend
      then (case fuel of
              0 \<Rightarrow> Inl LoopBound
            | Suc k \<Rightarrow> bindR (sendSegment (snd_mss c) c) (\<lambda>c'.
                sendFullSegments k (bytesToSend - ucast (sentBytes c')) effectiveMaxBytesSend c'))
      else Inr (bytesToSend, c))"

declare sendFullSegments.simps [simp del]

definition sendBytes :: "nat \<Rightarrow> u64 \<Rightarrow> u32 \<Rightarrow> tcp_conn \<Rightarrow> tcp_conn res" where
  "sendBytes fuel bytesToSend effectiveMaxBytesSend c =
     bindR (if bytesToSend \<le> ucast (snd_mss c)
            then bindR (sendSegment (ucast bytesToSend) c) (\<lambda>c'. Inr (bytesToSend - ucast (sentBytes c'), c'))
            else sendFullSegments fuel bytesToSend effectiveMaxBytesSend c) (\<lambda>(rest, c1).
     let buffered = getBytesAvailable (sendQ c1) (snd_nxt c1)
     in if rest = buffered \<and> buffered \<noteq> 0 then sendSegment (ucast rest) c1 else Inr c1)"

definition effectiveWindow :: "u32 \<Rightarrow> tcp_conn \<Rightarrow> int" where
  "effectiveWindow congestionWindow c =
     uint (min (snd_wnd c) congestionWindow) - uint (snd_nxt c - snd_una c)"

definition sendData :: "nat \<Rightarrow> bool \<Rightarrow> u32 \<Rightarrow> tcp_conn \<Rightarrow> (bool \<times> tcp_conn) res" where
  "sendData fuel fullSegmentsOnly congestionWindow c0 =
     (let c = (if \<not> afterRto c0 then c0\<lparr>snd_nxt := snd_max c0\<rparr> else c0);
          old_highRxt = (if sack_enabled c then getHighestRexmittedSeqNum (rexmitQ c) else 0);
          buffered = getBytesAvailable (sendQ c) (snd_nxt c);
          effectiveWin = effectiveWindow congestionWindow c
      in if buffered = 0 then Inr (False, c)
         else if effectiveWin \<le> 0 then Inr (False, c)
         else
           let bytesToSend = (if of_int effectiveWin > buffered then buffered else of_int effectiveWin);
               effectiveMaxBytesSend = (if ts_enabled c then snd_mss c - TCP_OPTION_TS_SIZE else snd_mss c)
           in if fullSegmentsOnly \<and> bytesToSend < ucast effectiveMaxBytesSend then Inr (False, c)
              else
                let old_snd_nxt = snd_nxt c
                in bindR (assertR (bytesToSend > 0) ''bytesToSend > 0'') (\<lambda>_.
                   bindR (sendBytes fuel bytesToSend effectiveMaxBytesSend c) (\<lambda>c1.
                   let c2 = (if seqGreater (snd_nxt c1) (snd_max c1) then c1\<lparr>snd_max := snd_nxt c1\<rparr> else c1);
                       c3 = ackSent c2
                   in bindR (if sack_enabled c3 \<and> lossRecovery c3 \<and> old_highRxt \<noteq> highRxt c3
                             then restartRexmitTimer c3 else dataSent old_snd_nxt c3) (\<lambda>c4.
                      Inr (True, c4)))))"

definition isSendQueueEmpty :: "tcp_conn \<Rightarrow> bool" where
  "isSendQueueEmpty c \<longleftrightarrow> getBytesAvailable (sendQ c) (snd_nxt c) = 0"

definition sendProbe :: "tcp_conn \<Rightarrow> (bool \<times> tcp_conn) res" where
  "sendProbe c0 =
     (let c = c0\<lparr>snd_nxt := snd_max c0\<rparr>
      in if getBytesAvailable (sendQ c) (snd_nxt c) = 0 then Inr (False, c)
         else
           let old_snd_nxt = snd_nxt c
           in bindR (sendSegment 1 c) (\<lambda>c1.
              bindR (dataSent old_snd_nxt (ackSent (c1\<lparr>snd_max := snd_nxt c1\<rparr>))) (\<lambda>c2.
              Inr (True, c2))))"

definition sendOneNewSegment :: "bool \<Rightarrow> u32 \<Rightarrow> tcp_conn \<Rightarrow> tcp_conn res" where
  "sendOneNewSegment fullSegmentsOnly congestionWindow c =
     bindR (assertR (limited_transmit_enabled c) ''limited_transmit_enabled'') (\<lambda>_.
     if \<not> sack_enabled c \<or> sackedBytes_old c \<noteq> sackedBytes c
     then
       let buffered = getBytesAvailable (sendQ c) (snd_max c)
       in if buffered \<ge> ucast (snd_mss c) \<or> (\<not> fullSegmentsOnly \<and> buffered > 0)
          then
            let outstandingData = ucast (snd_max c - snd_una c) :: u64
            in if outstandingData + ucast (snd_mss c) \<le> ucast (snd_wnd c) \<and>
                  outstandingData + ucast (snd_mss c) \<le> ucast (congestionWindow + 2 * snd_mss c)
               then
                 let effectiveWin = ucast (ucast (min (snd_wnd c) congestionWindow) - outstandingData +
                                           ucast (2 * snd_mss c)) :: u32;
                     bytes = min effectiveWin (snd_mss c)
                 in if bytes \<ge> snd_mss c \<or> (\<not> fullSegmentsOnly \<and> bytes > 0)
                    then
                      let old_snd_nxt = snd_nxt c
                      in bindR (sendSegment bytes (c\<lparr>snd_nxt := snd_max c\<rparr>)) (\<lambda>c1.
                         let c2 = (if seqGreater (snd_nxt c1) (snd_max c1) then c1\<lparr>snd_max := snd_nxt c1\<rparr> else c1);
                             c3 = (if afterRto c2 then c2\<lparr>snd_nxt := old_snd_nxt + sentBytes c2\<rparr> else c2)
                         in dataSent old_snd_nxt (ackSent c3))
                    else Inr c
               else Inr c
          else Inr c
     else Inr c)"

section \<open>Retransmission\<close>

text \<open>The branch of both retransmission routines that sends a FIN without user data again.\<close>

definition resendFin :: "tcp_conn \<Rightarrow> tcp_conn res" where
  "resendFin c =
     (let e = getBufferEndSeq (sendQ c)
      in bindR (sendFin (c\<lparr>snd_max := e, snd_nxt := e\<rparr>)) (\<lambda>c1.
         Inr (c1\<lparr>snd_nxt := snd_nxt c1 + 1, snd_max := snd_nxt c1 + 1\<rparr>)))"

definition finPending :: "tcp_conn \<Rightarrow> bool" where
  "finPending c \<longleftrightarrow> send_fin c \<and> snd_fin_seq c = getBufferEndSeq (sendQ c)"

definition retransmitOneSegment :: "bool \<Rightarrow> tcp_conn \<Rightarrow> tcp_conn res" where
  "retransmitOneSegment called_at_rto c0 =
     (let old_snd_nxt = snd_nxt c0;
          c = c0\<lparr>snd_nxt := snd_una c0\<rparr>;
          bytes = min (ucast (min (snd_mss c) (snd_max c - snd_nxt c))) (getBytesAvailable (sendQ c) (snd_nxt c))
      in if bytes = 0 \<and> finPending c then resendFin c
         else
           bindR (assertR (bytes \<noteq> 0) ''bytes != 0'') (\<lambda>_.
           bindR (sendSegment (ucast bytes) c) (\<lambda>c1.
           let c2 = (if \<not> called_at_rto \<and> seqGreater old_snd_nxt (snd_nxt c1) then c1\<lparr>snd_nxt := old_snd_nxt\<rparr> else c1);
               c3 = ackSent c2
           in Inr (if sack_enabled c3 then c3\<lparr>highRxt := getHighestRexmittedSeqNum (rexmitQ c3)\<rparr> else c3))))"

fun retransmitLoop :: "nat \<Rightarrow> u32 \<Rightarrow> tcp_conn \<Rightarrow> tcp_conn res" where
  "retransmitLoop fuel bytesToSend c =
     (if bytesToSend > 0
      then (case fuel of
              0 \<Rightarrow> Inl LoopBound
            | Suc k \<Rightarrow>
                let bytes = min (min bytesToSend (snd_mss c)) (ucast (getBytesAvailable (sendQ c) (snd_nxt c)))
                in bindR (sendSegment bytes c) (\<lambda>c'.
                   if send_fin c' \<and> snd_nxt c' = snd_fin_seq c' + 1 then Inr c'
                   else retransmitLoop k (bytesToSend - sentBytes c') c'))
      else Inr c)"

declare retransmitLoop.simps [simp del]

definition retransmitData :: "nat \<Rightarrow> tcp_conn \<Rightarrow> tcp_conn res" where
  "retransmitData fuel c0 =
     (let c = c0\<lparr>snd_nxt := snd_una c0\<rparr>; bytesToSend = snd_max c - snd_nxt c
      in if bytesToSend = 0 \<and> finPending c then resendFin c
         else bindR (assertR (bytesToSend \<noteq> 0) ''bytesToSend != 0'') (\<lambda>_.
              retransmitLoop fuel bytesToSend c))"

section \<open>Loss recovery with SACK\<close>

definition isLost :: "u32 \<Rightarrow> tcp_conn \<Rightarrow> bool res" where
  "isLost seqNum c =
     bindR (assertR (sack_enabled c) ''sack_enabled'') (\<lambda>_.
     bindR (assertR (seqGE seqNum (snd_una c)) ''seqGE(seqNum, state->snd_una)'') (\<lambda>_.
     bindR (getNumOfDiscontiguousSacks (rexmitQ c) seqNum) (\<lambda>n.
     if n \<ge> DUPTHRESH then Inr True
     else bindR (getAmountOfSackedBytes (rexmitQ c) seqNum) (\<lambda>b. Inr (b \<ge> DUPTHRESH * snd_mss c)))))"

text \<open>The loop of \<open>setPipe\<close> over the blocks between \<open>snd_una\<close> and \<open>snd_max\<close>.\<close>

fun setPipeLoop :: "nat \<Rightarrow> u32 \<Rightarrow> u32 \<Rightarrow> tcp_conn \<Rightarrow> u32 res" where
  "setPipeLoop fuel s1 p c =
     (if seqLess s1 (snd_max c)
      then (case fuel of
              0 \<Rightarrow> Inl LoopBound
            | Suc k \<Rightarrow>
                bindR (checkSackBlock (rexmitQ c) s1) (\<lambda>(len, sk, rx).
                bindR (if \<not> sk
                       then bindR (isLost s1 c) (\<lambda>lost.
                            let p1 = (if \<not> lost then p + len else p)
                            in Inr (if seqLess s1 (highRxt c) then p1 + len else p1))
                       else Inr p) (\<lambda>p'.
                setPipeLoop k (s1 + len) p' c)))
      else Inr p)"

declare setPipeLoop.simps [simp del]

definition setPipe :: "tcp_conn \<Rightarrow> tcp_conn res" where
  "setPipe c0 =
     bindR (assertR (sack_enabled c0) ''sack_enabled'') (\<lambda>_.
     let c = c0\<lparr>highRxt := getHighestRexmittedSeqNum (rexmitQ c0)\<rparr>
     in bindR (setPipeLoop (Suc (length (rexmitQueue (rexmitQ c)))) (snd_una c) 0 c) (\<lambda>p.
        Inr (c\<lparr>pipe := p\<rparr>)))"

text \<open>
  Rules (1) and (3) of \<open>nextSeg\<close> scan the scoreboard from \<open>highRxt\<close> for the first block that is not
  sacked. \<open>shift\<close> is passed by reference to \<open>checkSackBlock\<close>, which overwrites it.
\<close>

fun unsackedFrom :: "nat \<Rightarrow> u32 \<Rightarrow> u32 \<Rightarrow> tcp_conn \<Rightarrow> u32 option res" where
  "unsackedFrom fuel s2 highestSacked c =
     (if seqLess s2 (snd_max c) \<and> seqLess s2 highestSacked
      then (case fuel of
              0 \<Rightarrow> Inl LoopBound
            | Suc k \<Rightarrow>
                bindR (checkSackBlock (rexmitQ c) s2) (\<lambda>(len, sk, rx).
                if \<not> sk then Inr (Some s2) else unsackedFrom k (s2 + len) highestSacked c))
      else Inr None)"

declare unsackedFrom.simps [simp del]

definition nextSeg :: "tcp_conn \<Rightarrow> (u32 option \<times> tcp_conn) res" where
  "nextSeg c0 =
     bindR (assertR (sack_enabled c0) ''sack_enabled'') (\<lambda>_.
     let c = c0\<lparr>highRxt := getHighestRexmittedSeqNum (rexmitQ c0)\<rparr>;
         highestSacked = getHighestSackedSeqNum (rexmitQ c);
         fuel = Suc (length (rexmitQueue (rexmitQ c)))
     in bindR (unsackedFrom fuel (highRxt c) highestSacked c) (\<lambda>cand.
        bindR (case cand of None \<Rightarrow> Inr False | Some s2 \<Rightarrow> isLost s2 c) (\<lambda>lost.
        if lost then Inr (cand, c)
        else
          let buffered = getBytesAvailable (sendQ c) (snd_max c);
              effectiveWin = ucast (snd_wnd c) - ucast (pipe c) :: u64
          in if buffered > 0 \<and> effectiveWin \<ge> ucast (snd_mss c) then Inr (Some (snd_max c), c)
             else Inr (cand, c))))"

definition sendSegmentDuringLossRecoveryPhase :: "u32 \<Rightarrow> tcp_conn \<Rightarrow> tcp_conn res" where
  "sendSegmentDuringLossRecoveryPhase seqNum c0 =
     bindR (assertR (sack_enabled c0 \<and> lossRecovery c0) ''sack_enabled && lossRecovery'') (\<lambda>_.
     let c = c0\<lparr>snd_nxt := seqNum\<rparr>; old_highRxt = getHighestRexmittedSeqNum (rexmitQ c)
     in bindR (sendSegment (snd_mss c) c) (\<lambda>c1.
        let sentSeqNum = seqNum + sentBytes c1
        in bindR (assertR (seqLE (snd_nxt c1) (sentSeqNum + 1)) ''seqLE(state->snd_nxt, sentSeqNum + 1)'') (\<lambda>_.
           let c2 = (if seqLess seqNum (snd_max c1) then c1\<lparr>highRxt := getHighestRexmittedSeqNum (rexmitQ c1)\<rparr> else c1);
               c3 = (if seqGreater sentSeqNum (snd_max c2) then c2\<lparr>snd_max := sentSeqNum\<rparr> else c2);
               c4 = ackSent c3
           in if old_highRxt \<noteq> highRxt c4 then restartRexmitTimer c4 else dataSent seqNum c4)))"

fun lossRecoveryLoop :: "nat \<Rightarrow> u32 \<Rightarrow> tcp_conn \<Rightarrow> tcp_conn res" where
  "lossRecoveryLoop fuel congestionWindow c =
     (if sint congestionWindow - sint (pipe c) \<ge> sint (snd_mss c)
      then (case fuel of
              0 \<Rightarrow> Inl LoopBound
            | Suc k \<Rightarrow>
                bindR (nextSeg c) (\<lambda>(cand, c1).
                case cand of
                  None \<Rightarrow> Inr c1
                | Some seqNum \<Rightarrow>
                    bindR (sendSegmentDuringLossRecoveryPhase seqNum c1) (\<lambda>c2.
                    lossRecoveryLoop k congestionWindow (c2\<lparr>pipe := pipe c2 + sentBytes c2\<rparr>))))
      else Inr c)"

declare lossRecoveryLoop.simps [simp del]

definition sendDataDuringLossRecoveryPhase :: "nat \<Rightarrow> u32 \<Rightarrow> tcp_conn \<Rightarrow> tcp_conn res" where
  "sendDataDuringLossRecoveryPhase fuel congestionWindow c =
     bindR (assertR (sack_enabled c \<and> lossRecovery c) ''sack_enabled && lossRecovery'') (\<lambda>_.
     lossRecoveryLoop fuel congestionWindow c)"

section \<open>One data segment without SACK\<close>

definition optionState :: "tcp_fsm_state \<Rightarrow> bool" where
  "optionState st \<longleftrightarrow> st \<in> {TCP_S_SYN_SENT, TCP_S_SYN_RCVD, TCP_S_ESTABLISHED, TCP_S_FIN_WAIT_1, TCP_S_FIN_WAIT_2}"

text \<open>The option bytes of a data segment: a padded timestamp where one is written.\<close>

definition dataOptionBytes :: "tcp_conn \<Rightarrow> u32" where
  "dataOptionBytes c = (if optionState (fsm c) \<and> ts_enabled c then 12 else 0)"

definition sendReady :: "tcp_conn \<Rightarrow> bool" where
  "sendReady c \<longleftrightarrow> \<not> sack_enabled c \<and> \<not> ws_enabled c \<and> off (rcv_nxt c) (rcv_adv c) \<le> 65535 \<and>
     12 < snd_mss c \<and>
     seqLE (sq_begin (sendQ c)) (snd_nxt c) \<and> seqLE (snd_nxt c) (sq_end (sendQ c)) \<and>
     seqLE (sq_begin (sendQ c)) (sq_end (sendQ c))"

text \<open>What sending leaves alone.\<close>

definition sendFrame :: "tcp_conn \<Rightarrow> tcp_conn \<Rightarrow> bool" where
  "sendFrame c c' \<longleftrightarrow> snd_una c' = snd_una c \<and> snd_max c' = snd_max c \<and> snd_wnd c' = snd_wnd c \<and>
     snd_mss c' = snd_mss c \<and> sendQ c' = sendQ c \<and> fsm c' = fsm c \<and> ts_enabled c' = ts_enabled c \<and>
     ws_enabled c' = ws_enabled c \<and> sack_enabled c' = sack_enabled c \<and> send_fin c' = send_fin c \<and>
     snd_fin_seq c' = snd_fin_seq c \<and> rcv_nxt c' = rcv_nxt c \<and> tcpAlgorithm c' = tcpAlgorithm c \<and>
     now c' = now c \<and> rexmitTimer c' = rexmitTimer c \<and> rexmit_timeout c' = rexmit_timeout c \<and>
     snd_cwnd c' = snd_cwnd c \<and> ssthresh c' = ssthresh c \<and> dupacks c' = dupacks c \<and>
     lossRecovery c' = lossRecovery c \<and> receiveQ c' = receiveQ c"

lemma sendFrame_refl [simp]: "sendFrame c c"
  by (simp add: sendFrame_def)

lemma sendFrame_trans: "sendFrame c d \<Longrightarrow> sendFrame d e \<Longrightarrow> sendFrame c e"
  by (simp add: sendFrame_def)

lemma writeHeaderOptions_data:
  assumes "\<not> sacksPending c"
  shows "\<exists>temp. writeHeaderOptions (newSegment\<lparr>ackBit := True\<rparr>) c = Inr (temp, c) \<and>
     ucast (headerLength temp - TCP_HEADER_OCTETS) = dataOptionBytes c \<and>
     headerLength temp = 20 + ucast (dataOptionBytes c) \<and>
     TCP_HEADER_OCTETS \<le> headerLength temp \<and> headerLength temp \<le> TCP_MAX_HEADER_OCTETS"
  using assms
  by (cases "optionState (fsm c) \<and> ts_enabled c")
    (auto simp: writeHeaderOptions_def writeTs_def addNop_def addHeaderOption_def newSegment_def
      setOptionsLength_def getHeaderOptionArrayLength_def mkOption_def timestampOption_def dataOptionBytes_def
      optionState_def)

lemma updateRcvWnd_frame:
  assumes "\<not> ws_enabled c" "off (rcv_nxt c) (rcv_adv c) \<le> 65535"
  shows "\<exists>w c'. updateRcvWnd c = Inr (w, c') \<and> sendFrame c c' \<and> snd_nxt c' = snd_nxt c \<and>
     afterRto c' = afterRto c \<and> off (rcv_nxt c') (rcv_adv c') \<le> 65535 \<and>
     localAddr c' = localAddr c \<and> remoteAddr c' = remoteAddr c"
proof -
  obtain w c' where w: "updateRcvWnd c = Inr (w, c')" "rcv_wnd c' \<le> TCP_MAX_WIN" "rcv_nxt c' = rcv_nxt c"
      "off (rcv_nxt c) (rcv_adv c') = unat (rcv_wnd c')"
    using updateRcvWnd_unscaled [OF assms] by blast
  have "sendFrame c c' \<and> snd_nxt c' = snd_nxt c \<and> afterRto c' = afterRto c \<and>
      localAddr c' = localAddr c \<and> remoteAddr c' = remoteAddr c"
    using w(1) unfolding updateRcvWnd_def Let_def
    by (auto simp: updateRcvQueueVars_def Let_def sendFrame_def elim!: bindR_InrE split: if_splits)
  with w show ?thesis by (auto simp: word_le_nat_alt)
qed

lemma requestMoreData_frame [simp]:
  "sendFrame c (requestMoreData c)" "snd_nxt (requestMoreData c) = snd_nxt c"
  "afterRto (requestMoreData c) = afterRto c" "rcv_adv (requestMoreData c) = rcv_adv c"
  "sentBytes (requestMoreData c) = sentBytes c"
  by (simp_all add: requestMoreData_def Let_def sendIndicationToApp_def emit_def sendFrame_def)


text \<open>How many bytes \<open>sendSegment\<close> puts into the segment.\<close>

definition segmentSize :: "nat \<Rightarrow> tcp_conn \<Rightarrow> nat" where
  "segmentSize bytes c = min bytes (min (off (snd_nxt c) (sq_end (sendQ c))) (unat (snd_mss c) - unat (dataOptionBytes c)))"

definition finAfter :: "nat \<Rightarrow> tcp_conn \<Rightarrow> bool" where
  "finAfter n c \<longleftrightarrow> send_fin c \<and> snd_nxt c + of_nat n = snd_fin_seq c"

lemma dataOptionBytes_cases: "dataOptionBytes c = 0 \<or> dataOptionBytes c = 12"
  by (simp add: dataOptionBytes_def)

lemma segmentSize_word:
  assumes r: "sendReady c"
  shows "unat (clipBytes bytes0 (getBytesAvailable (sendQ c) (snd_nxt c)) (dataOptionBytes c) (snd_mss c)) =
    segmentSize (unat bytes0) c"
proof -
  define b where "b = getBytesAvailable (sendQ c) (snd_nxt c)"
  define bytes1 where "bytes1 = (if ucast bytes0 > b then ucast b else bytes0)"
  let ?o = "off (snd_nxt c) (sq_end (sendQ c))"
  have o: "?o < 2 ^ 31" using r by (simp add: sendReady_def seqLE_off)
  have b: "unat b = ?o" using r
    by (simp add: b_def getBytesAvailable_def getBufferEndSeq_def unat_bytesAvailable sendReady_def)
  have ub: "unat (ucast b :: u32) = ?o" using b o by (subst unat_ucast_narrow) auto
  have b1: "unat bytes1 = min (unat bytes0) ?o"
    using ub b by (auto simp: bytes1_def word_less_nat_alt)
  have d: "unat (dataOptionBytes c) \<le> 12" using dataOptionBytes_cases [of c] by auto
  have s: "unat (bytes1 + dataOptionBytes c) = unat bytes1 + unat (dataOptionBytes c)"
    by (rule unat_add_lem [THEN iffD1]) (use b1 o d in simp)
  have m: "12 < unat (snd_mss c)" using r by (simp add: sendReady_def word_less_nat_alt)
  have dm: "unat (snd_mss c - dataOptionBytes c) = unat (snd_mss c) - unat (dataOptionBytes c)"
    using d m by (intro unat_sub) (simp add: word_le_nat_alt)
  have "unat (if bytes1 + dataOptionBytes c > snd_mss c then snd_mss c - dataOptionBytes c else bytes1) =
    segmentSize (unat bytes0) c"
    using s dm b1 d m by (auto simp: word_less_nat_alt segmentSize_def)
  then show ?thesis by (simp add: clipBytes_def Let_def b_def [symmetric] bytes1_def [symmetric])
qed

lemma advanceSndNxt_spec:
  "snd_nxt (snd (advanceSndNxt w c)) = snd_nxt c + w + (if send_fin c \<and> snd_nxt c + w = snd_fin_seq c then 1 else 0)"
  "sendFrame c (snd (advanceSndNxt w c))" "afterRto (snd (advanceSndNxt w c)) \<longrightarrow> afterRto c"
  "rcv_adv (snd (advanceSndNxt w c)) = rcv_adv c"
  "localAddr (snd (advanceSndNxt w c)) = localAddr c" "remoteAddr (snd (advanceSndNxt w c)) = remoteAddr c"
  by (simp_all add: advanceSndNxt_def Let_def sendFrame_def)

lemma sendSegment_plain:
  fixes bytes0 :: u32
  assumes r: "sendReady c"
  defines "n \<equiv> segmentSize (unat bytes0) c"
  shows "\<exists>c' seg. sendSegment bytes0 c = Inr c' \<and> sendFrame c c' \<and> unat (sentBytes c') = n \<and>
     snd_nxt c' = snd_nxt c + of_nat n + (if finAfter n c then 1 else 0) \<and>
     off (rcv_nxt c') (rcv_adv c') \<le> 65535 \<and> (afterRto c' \<longrightarrow> afterRto c) \<and>
     ToIP seg (localAddr c) (remoteAddr c) \<in> set (actions c') \<and> sequenceNo seg = snd_nxt c \<and>
     unat (payloadLength seg) = n \<and> headerLength seg = 20 + ucast (dataOptionBytes c)"
proof -
  let ?b = "getBytesAvailable (sendQ c) (snd_nxt c)"
  define w where "w = clipBytes bytes0 ?b (dataOptionBytes c) (snd_mss c)"
  have wn: "unat w = n" unfolding w_def n_def by (rule segmentSize_word [OF r])
  have wo: "of_nat n = w" using wn by (metis of_nat_unat ucast_id)
  have sack: "\<not> sack_enabled c" "\<not> ws_enabled c" "off (rcv_nxt c) (rcv_adv c) \<le> 65535"
    using r by (auto simp: sendReady_def)
  obtain temp where temp: "writeHeaderOptions (newSegment\<lparr>ackBit := True\<rparr>) c = Inr (temp, c)"
    "ucast (headerLength temp - TCP_HEADER_OCTETS) = dataOptionBytes c"
    "headerLength temp = 20 + ucast (dataOptionBytes c)"
    "TCP_HEADER_OCTETS \<le> headerLength temp" "headerLength temp \<le> TCP_MAX_HEADER_OCTETS"
    using writeHeaderOptions_data [of c] sack(1) by (auto simp: sacksPending_def)
  have mss: "dataOptionBytes c < snd_mss c"
    using r dataOptionBytes_cases [of c] by (auto simp: sendReady_def word_less_nat_alt)
  have "unat (ucast w :: u64) \<le> unat ?b"
    using wn r by (simp add: n_def segmentSize_def getBytesAvailable_def getBufferEndSeq_def unat_bytesAvailable sendReady_def)
  then have av: "(ucast w :: u64) \<le> ?b" by (simp add: word_le_nat_alt)
  have "\<exists>seg. createSegmentWithBytes (sendQ c) (snd_nxt c) (ucast w) = Inr seg \<and> sequenceNo seg = snd_nxt c \<and>
      payloadLength seg = ucast w \<and> headerOptionList seg = []"
    using vsq.create_available [of "sendQ c" "snd_nxt c" "ucast w"] av r
    by (auto simp: getBytesAvailable_def getBufferStartSeq_def getBufferEndSeq_def sendReady_def
        createSegmentWithBytes_def newSegment_def elim!: bindR_InrE)
  then obtain seg where seg: "createSegmentWithBytes (sendQ c) (snd_nxt c) (ucast w) = Inr seg"
    "sequenceNo seg = snd_nxt c" "payloadLength seg = ucast w" by blast
  obtain wnd c4 where c4: "updateRcvWnd (c\<lparr>sentBytes := w\<rparr>) = Inr (wnd, c4)"
    "sendFrame (c\<lparr>sentBytes := w\<rparr>) c4" "snd_nxt c4 = snd_nxt c"
    "afterRto c4 = afterRto c" "off (rcv_nxt c4) (rcv_adv c4) \<le> 65535"
    "localAddr c4 = localAddr c" "remoteAddr c4 = remoteAddr c"
    using updateRcvWnd_frame [of "c\<lparr>sentBytes := w\<rparr>"] sack by auto
  obtain isFin c5 where adv: "advanceSndNxt w c4 = (isFin, c5)" by (rule prod.exhaust)
  define seg' where "seg' = seg\<lparr>ackNo := rcv_nxt c, ackBit := True, window := wnd, finBit := isFin,
      headerOptionList := headerOptionList seg @ headerOptionList temp, headerLength := headerLength temp,
      srcPort := of_int (localPort c5), destPort := of_int (remotePort c5)\<rparr>"
  define c6 where "c6 = emit (ToIP seg' (localAddr c5) (remoteAddr c5)) (c5\<lparr>sentBytes := w\<rparr>)"
  have eq: "sendSegment bytes0 c = Inr (requestMoreData c6)"
    using sack temp mss seg c4(1) adv
    by (simp add: sendSegment_def skipSacked_def registerSent_def transmitSegment_def sendToIP_def
        w_def [symmetric] seg'_def c6_def)
  have f: "sendFrame c c5" "snd_nxt c5 = snd_nxt c + w + (if finAfter n c then 1 else 0)"
      "rcv_adv c5 = rcv_adv c4" "localAddr c5 = localAddr c" "remoteAddr c5 = remoteAddr c" "afterRto c5 \<longrightarrow> afterRto c"
    using advanceSndNxt_spec [where w = w and c = c4] c4 adv wo
    by (auto simp: sendFrame_def finAfter_def)
  have "sendFrame c c6" "snd_nxt c6 = snd_nxt c5" "afterRto c6 = afterRto c5" "sentBytes c6 = w"
     "rcv_adv c6 = rcv_adv c5"
    using f(1) by (simp_all add: c6_def emit_def sendFrame_def)
  moreover have "rcv_nxt c4 = rcv_nxt c" using c4(2) by (simp add: sendFrame_def)
  moreover have "ToIP seg' (localAddr c) (remoteAddr c) \<in> set (actions (requestMoreData c6))"
    using f by (simp add: c6_def emit_def requestMoreData_def Let_def sendIndicationToApp_def)
  moreover have "sequenceNo seg' = snd_nxt c" "unat (payloadLength seg') = n" "headerLength seg' = 20 + ucast (dataOptionBytes c)"
    using seg temp wn by (simp_all add: seg'_def)
  ultimately show ?thesis
    using eq f wn wo c4 sendFrame_trans [OF _ requestMoreData_frame(1)]
    by (intro exI [of _ "requestMoreData c6"] exI [of _ seg']) (simp add: sendFrame_def)
qed


section \<open>A run of data segments without SACK\<close>

text \<open>The FIN follows the data of the send queue; a timestamp in use is written in this state.\<close>

definition finOk :: "tcp_conn \<Rightarrow> bool" where
  "finOk c \<longleftrightarrow> (send_fin c \<longrightarrow> snd_fin_seq c = sq_end (sendQ c))"

definition tsWritten :: "tcp_conn \<Rightarrow> bool" where
  "tsWritten c \<longleftrightarrow> (ts_enabled c \<longrightarrow> optionState (fsm c))"

text \<open>\<open>sentOver T c c'\<close>: \<open>T\<close> bytes have been sent from \<open>c\<close> to \<open>c'\<close>, and the FIN if it comes next.\<close>

definition sentOver :: "nat \<Rightarrow> tcp_conn \<Rightarrow> tcp_conn \<Rightarrow> bool" where
  "sentOver T c c' \<longleftrightarrow> sendFrame c c' \<and>
     snd_nxt c' = snd_nxt c + of_nat T + (if 0 < T \<and> finAfter T c then 1 else 0) \<and>
     off (rcv_nxt c') (rcv_adv c') \<le> 65535 \<and> (afterRto c' \<longrightarrow> afterRto c)"

definition unsent :: "tcp_conn \<Rightarrow> nat" where
  "unsent c = off (snd_nxt c) (sq_end (sendQ c))"

definition roomPerSegment :: "tcp_conn \<Rightarrow> nat" where
  "roomPerSegment c = unat (snd_mss c) - unat (dataOptionBytes c)"

lemma roomPerSegment_bounds: "sendReady c \<Longrightarrow> 0 < roomPerSegment c \<and> roomPerSegment c \<le> unat (snd_mss c)
    \<and> unat (snd_mss c) \<le> roomPerSegment c + 12"
  using dataOptionBytes_cases [of c] by (auto simp: roomPerSegment_def sendReady_def word_less_nat_alt)

lemma unsent_lt: "sendReady c \<Longrightarrow> unsent c < 2 ^ 31"
  by (simp add: unsent_def sendReady_def seqLE_off)

lemma getBytesAvailable_unsent: "sendReady c \<Longrightarrow> unat (getBytesAvailable (sendQ c) (snd_nxt c)) = unsent c"
  by (simp add: getBytesAvailable_def getBufferEndSeq_def unat_bytesAvailable sendReady_def unsent_def)

lemma off_advance: "n \<le> off x e \<Longrightarrow> off (x + of_nat n) e = off x e - n"
proof -
  assume n: "n \<le> off x e"
  have "n < 2 ^ 32" using n off_lt [of x e] by simp
  then have "off x (x + of_nat n) = n" using off_add_nat [of x x n] by simp
  then show ?thesis using off_trans [of x "x + of_nat n" e] n by simp
qed

lemma add_off: "x + of_nat (off x e) = e"
  by (simp add: off_def of_nat_unat)

lemma sentOver_partial:
  assumes r: "sendReady c" "finOk c" and s: "sentOver n c c'" and n: "n < unsent c"
  shows "sendReady c'" "finOk c'" "unsent c' = unsent c - n" "snd_nxt c' = snd_nxt c + of_nat n"
    "roomPerSegment c' = roomPerSegment c" "snd_mss c' = snd_mss c"
proof -
  have f: "sendFrame c c'" using s by (simp add: sentOver_def)
  have o: "off (snd_nxt c + of_nat n) (sq_end (sendQ c)) = unsent c - n"
    using n off_advance [of n "snd_nxt c" "sq_end (sendQ c)"] by (simp add: unsent_def)
  have "snd_nxt c + of_nat n \<noteq> sq_end (sendQ c)"
  proof
    assume "snd_nxt c + of_nat n = sq_end (sendQ c)"
    then show False using o n by simp
  qed
  then show nx: "snd_nxt c' = snd_nxt c + of_nat n" using s r(2) by (auto simp: sentOver_def finOk_def finAfter_def)
  show u: "unsent c' = unsent c - n" using o nx f by (simp add: unsent_def sendFrame_def)
  have b: "inwin (sq_begin (sendQ c)) (snd_nxt c)" "inwin (sq_begin (sendQ c)) (sq_end (sendQ c))"
    using r by (simp_all add: sendReady_def inwin_seqLE)
  then have le: "off (sq_begin (sendQ c)) (snd_nxt c) \<le> off (sq_begin (sendQ c)) (sq_end (sendQ c))"
    using r by (simp add: sendReady_def seqLE_win)
  have "off (sq_begin (sendQ c)) (snd_nxt c + of_nat n) = off (sq_begin (sendQ c)) (snd_nxt c) + n"
    using off_trans [OF le] n b by (intro off_add_nat) (simp add: inwin_def unsent_def)
  then have "off (sq_begin (sendQ c)) (snd_nxt c + of_nat n) < 2 ^ 31"
    using off_trans [OF le] n b by (simp add: inwin_def unsent_def)
  moreover have "off (snd_nxt c + of_nat n) (sq_end (sendQ c)) < 2 ^ 31" using o unsent_lt [OF r(1)] by simp
  ultimately show "sendReady c'" using r f s nx by (simp add: sendReady_def sendFrame_def sentOver_def seqLE_off)
  show "finOk c'" using r f by (simp add: finOk_def sendFrame_def)
  show "roomPerSegment c' = roomPerSegment c" "snd_mss c' = snd_mss c"
    using f by (simp_all add: roomPerSegment_def dataOptionBytes_def sendFrame_def)
qed

lemma sentOver_refl: "sendReady c \<Longrightarrow> sentOver 0 c c"
  by (simp add: sentOver_def sendReady_def)

lemma sentOver_trans:
  assumes r: "sendReady c" "finOk c" and s: "sentOver n c c'" "sentOver m c' d" and n: "n < unsent c"
  shows "sentOver (n + m) c d"
proof -
  note p = sentOver_partial [OF r s(1) n]
  have f: "finAfter m c' = finAfter (n + m) c"
    using p(4) s by (simp add: finAfter_def sentOver_def sendFrame_def algebra_simps)
  have "m = 0 \<Longrightarrow> \<not> finAfter n c"
    using r(2) n off_advance [of n "snd_nxt c" "sq_end (sendQ c)"] by (auto simp: finAfter_def finOk_def unsent_def)
  then show ?thesis using s f p(4) by (auto simp: sentOver_def intro: sendFrame_trans)
qed

lemma sendSegment_sent:
  assumes "sendReady c" "0 < unat b" "0 < unsent c"
  shows "\<exists>c'. sendSegment b c = Inr c' \<and> sentOver (segmentSize (unat b) c) c c' \<and>
     unat (sentBytes c') = segmentSize (unat b) c \<and> 0 < segmentSize (unat b) c"
proof -
  have "0 < segmentSize (unat b) c" using assms roomPerSegment_bounds [OF assms(1)]
    by (simp add: segmentSize_def unsent_def roomPerSegment_def)
  then show ?thesis using sendSegment_plain [OF assms(1), of b] by (auto simp: sentOver_def)
qed

lemma segmentSize_eq: "segmentSize b c = min b (min (unsent c) (roomPerSegment c))"
  by (simp add: segmentSize_def unsent_def roomPerSegment_def)

lemma sendFullSegments_runs:
  assumes "sendReady c" "finOk c" "unat b \<le> unsent c" "unat eff = roomPerSegment c" "unat b \<le> fuel" 
  shows "\<exists>rest c' T. sendFullSegments fuel b eff c = Inr (rest, c') \<and> sentOver T c c' \<and>
     T + unat rest = unat b \<and> unat rest < unat eff"
  using assms
proof (induction fuel arbitrary: b c)
  case 0
  then show ?case using roomPerSegment_bounds [OF 0(1)] sentOver_refl [OF 0(1)]
    by (auto simp: sendFullSegments.simps word_le_nat_alt intro!: exI [of _ 0])
next
  case (Suc k)
  show ?case
  proof (cases "ucast eff \<le> b")
    case False
    then show ?thesis using sentOver_refl [OF Suc.prems(1)]
      by (auto simp: sendFullSegments.simps word_le_nat_alt intro!: exI [of _ 0])
  next
    case True
    have e: "0 < unat eff" "unat eff \<le> unat b" "unat eff \<le> unat (snd_mss c)"
      using True roomPerSegment_bounds [OF Suc.prems(1)] Suc.prems(4) by (auto simp: word_le_nat_alt)
    have sz: "segmentSize (unat (snd_mss c)) c = unat eff"
      using e Suc.prems by (simp add: segmentSize_eq)
    obtain c1 where c1: "sendSegment (snd_mss c) c = Inr c1" "sentOver (unat eff) c c1" "unat (sentBytes c1) = unat eff"
      using sendSegment_sent [OF Suc.prems(1), of "snd_mss c"] e sz Suc.prems(3) by auto
    have st: "sendFullSegments (Suc k) b eff c = sendFullSegments k (b - ucast (sentBytes c1)) eff c1"
      using True c1 by (subst sendFullSegments.simps) simp
    have d: "unat (b - ucast (sentBytes c1)) = unat b - unat eff"
      using e c1 by (subst unat_sub) (simp_all add: word_le_nat_alt)
    show ?thesis
    proof (cases "unat eff < unsent c")
      case True
      note p = sentOver_partial [OF Suc.prems(1,2) c1(2) True]
      have h: "unat (b - ucast (sentBytes c1)) \<le> unsent c1" "unat eff = roomPerSegment c1"
        "unat (b - ucast (sentBytes c1)) \<le> k" using p d e Suc.prems by linarith+
      from Suc.IH [OF p(1,2) h] d obtain rest c' T where
        "sendFullSegments k (b - ucast (sentBytes c1)) eff c1 = Inr (rest, c')" "sentOver T c1 c'"
        "T + unat rest = unat b - unat eff" "unat rest < unat eff" by auto
      then show ?thesis using st e sentOver_trans [OF Suc.prems(1,2) c1(2) _ True]
        by (intro exI [of _ rest] exI [of _ c'] exI [of _ "unat eff + T"]) auto
    next
      case False
      then have z: "unat (b - ucast (sentBytes c1)) = 0" "unat eff = unat b" using d e Suc.prems by auto
      then have "sendFullSegments k (b - ucast (sentBytes c1)) eff c1 = Inr (b - ucast (sentBytes c1), c1)"
        using e by (subst sendFullSegments.simps) (simp add: word_le_nat_alt)
      then show ?thesis using st z c1 e by (intro exI [of _ "b - ucast (sentBytes c1)"] exI [of _ c1] exI [of _ "unat b"]) auto
    qed
  qed
qed

lemma sentOver_all_unsent:
  assumes "sendReady c" "finOk c" "sentOver T c c'" "T = unsent c"
  shows "getBytesAvailable (sendQ c') (snd_nxt c') = 0"
proof -
  have "snd_nxt c + of_nat T = sq_end (sendQ c)"
    by (simp only: assms(4) unsent_def add_off)
  then have "snd_nxt c' = sq_end (sendQ c') \<or> snd_nxt c' = sq_end (sendQ c') + 1"
    using assms(3) by (auto simp: sentOver_def sendFrame_def)
  moreover have "\<not> seqLess (e + 1) e" for e :: u32
    using off_swap [of "e + 1" e] by (simp add: seqLess_off off_def)
  ultimately show ?thesis by (auto simp: getBytesAvailable_def getBufferEndSeq_def bytesAvailable_def)
qed

lemma sendBytes_runs:
  assumes r: "sendReady c" "finOk c" and b: "0 < unat b" "unat b \<le> unsent c" and eff: "unat eff = roomPerSegment c"
    and fuel: "unat b \<le> fuel"
  shows "\<exists>c' T. sendBytes fuel b eff c = Inr c' \<and> sentOver T c c' \<and> 0 < T \<and> T \<le> unat b \<and>
    unat b < T + unat (snd_mss c)"
proof -
  define first where "first = (if b \<le> ucast (snd_mss c)
            then bindR (sendSegment (ucast b) c) (\<lambda>c'. Inr (b - ucast (sentBytes c'), c'))
            else sendFullSegments fuel b eff c)"
  note rb = roomPerSegment_bounds [OF r(1)]
  have m: "12 < unat (snd_mss c)" using r by (simp add: sendReady_def word_less_nat_alt)
  have "\<exists>rest c1 T. first = Inr (rest, c1) \<and> sentOver T c c1 \<and> T + unat rest = unat b \<and> 0 < T \<and> unat rest < unat (snd_mss c)"
  proof (cases "b \<le> ucast (snd_mss c)")
    case True
    then have bm: "unat b \<le> unat (snd_mss c)" by (simp add: word_le_nat_alt)
    have u: "unat (ucast b :: u32) = unat b" using b unsent_lt [OF r(1)] by (intro unat_ucast_narrow) simp
    obtain c1 where c1: "sendSegment (ucast b) c = Inr c1" "sentOver (segmentSize (unat b) c) c c1"
      "unat (sentBytes c1) = segmentSize (unat b) c" "0 < segmentSize (unat b) c"
      using sendSegment_sent [OF r(1), of "ucast b"] b u by auto
    have "unat (b - ucast (sentBytes c1)) = unat b - segmentSize (unat b) c"
      using c1 by (subst unat_sub) (simp_all add: word_le_nat_alt segmentSize_eq)
    then show ?thesis using True c1 bm rb m
      by (intro exI [of _ "b - ucast (sentBytes c1)"] exI [of _ c1] exI [of _ "segmentSize (unat b) c"])
        (auto simp: first_def segmentSize_eq)
  next
    case False
    then have "unat (snd_mss c) < unat b" by (simp add: word_le_nat_alt)
    then show ?thesis using False sendFullSegments_runs [OF r b(2) eff fuel] rb eff by (fastforce simp: first_def)
  qed
  then obtain rest c1 T where f: "first = Inr (rest, c1)" "sentOver T c c1" "T + unat rest = unat b" "0 < T"
    "unat rest < unat (snd_mss c)" by blast
  have sb: "sendBytes fuel b eff c = (if rest = getBytesAvailable (sendQ c1) (snd_nxt c1) \<and>
      getBytesAvailable (sendQ c1) (snd_nxt c1) \<noteq> 0 then sendSegment (ucast rest) c1 else Inr c1)"
    using f(1) by (simp add: sendBytes_def first_def [symmetric] Let_def)
  show ?thesis
  proof (cases "rest = getBytesAvailable (sendQ c1) (snd_nxt c1) \<and> getBytesAvailable (sendQ c1) (snd_nxt c1) \<noteq> 0")
    case True
    have T: "T < unsent c" using True sentOver_all_unsent [OF r f(2)] f(3) b by fastforce
    note p = sentOver_partial [OF r f(2) T]
    have ur: "unat rest = unsent c1" using True getBytesAvailable_unsent [OF p(1)] by simp
    have u: "unat (ucast rest :: u32) = unat rest" using ur unsent_lt [OF p(1)] by (intro unat_ucast_narrow) simp
    have "0 < unat rest" using p(3) T ur by simp
    then obtain c2 where "sendSegment (ucast rest) c1 = Inr c2" "sentOver (segmentSize (unat rest) c1) c1 c2"
      using sendSegment_sent [OF p(1), of "ucast rest"] u ur by auto
    then show ?thesis using True sb f sentOver_trans [OF r f(2) _ T]
      by (intro exI [of _ c2] exI [of _ "T + segmentSize (unat rest) c1"]) (auto simp: segmentSize_eq)
  next
    case False
    then show ?thesis using sb f by auto
  qed
qed


section \<open>Sending within the window\<close>

text \<open>Where \<open>sendData\<close> starts: at \<open>snd_max\<close>, except after an RTO.\<close>

definition sendStart :: "tcp_conn \<Rightarrow> tcp_conn" where
  "sendStart c = (if \<not> afterRto c then c\<lparr>snd_nxt := snd_max c\<rparr> else c)"

lemma ackSent_frame [simp]:
  "snd_nxt (ackSent c) = snd_nxt c" "snd_max (ackSent c) = snd_max c" "sendFrame c (ackSent c)"
  by (simp_all add: ackSent_def sendFrame_def)

lemma scheduleAt_idle: "t \<noteq> NoTimer \<Longrightarrow> \<not> isScheduled t \<Longrightarrow> scheduleAt x t = Inr (ScheduledAt x)"
  by (cases t) (auto simp: scheduleAt_def)

lemma cancelIfScheduled_simps [simp]:
  "\<not> isScheduled (cancelIfScheduled t)" "cancelIfScheduled t = NoTimer \<longleftrightarrow> t = NoTimer"
  by (cases t; simp add: cancelIfScheduled_def)+

definition sameSeq :: "tcp_conn \<Rightarrow> tcp_conn \<Rightarrow> bool" where
  "sameSeq c c' \<longleftrightarrow> snd_una c' = snd_una c \<and> snd_nxt c' = snd_nxt c \<and> snd_max c' = snd_max c \<and>
     snd_wnd c' = snd_wnd c \<and> sendQ c' = sendQ c \<and> afterRto c' = afterRto c"

lemma startRexmitTimer_ok:
  "rexmitTimer c \<noteq> NoTimer \<Longrightarrow> \<not> isScheduled (rexmitTimer c) \<Longrightarrow>
     \<exists>c'. startRexmitTimer c = Inr c' \<and> sameSeq c c' \<and> isScheduled (rexmitTimer c')"
  by (simp add: startRexmitTimer_def scheduleRexmit_def scheduleAt_idle sameSeq_def)

lemma dataSent_ok:
  assumes "rexmitTimer c \<noteq> NoTimer"
  shows "\<exists>c'. dataSent s c = Inr c' \<and> sameSeq c c' \<and> isScheduled (rexmitTimer c')"
proof (cases "isDumb c")
  case True
  then show ?thesis using assms by (simp add: dataSent_def scheduleRexmit_def scheduleAt_idle sameSeq_def)
next
  case False
  have "\<exists>c1. (if \<not> isScheduled (rexmitTimer c) then startRexmitTimer c else Inr c) = Inr c1 \<and> sameSeq c c1 \<and>
      isScheduled (rexmitTimer c1)"
    using startRexmitTimer_ok [OF assms] by (auto simp: sameSeq_def)
  then show ?thesis using False by (auto simp: dataSent_def Let_def sameSeq_def)
qed

lemma of_int_u64: "0 \<le> i \<Longrightarrow> i < 2 ^ 32 \<Longrightarrow> unat (of_int i :: u64) = nat i"
  by (simp add: unat_eq_nat_uint uint_word_of_int)

lemma effectiveWindow_nat:
  "effectiveWindow w c = int (unat (min (snd_wnd c) w)) - int (off (snd_una c) (snd_nxt c))"
  by (simp add: effectiveWindow_def off_def)


section \<open>A send loop that does not end\<close>

text \<open>
  In \<open>CLOSE_WAIT\<close> timestamps are not written, so a segment carries \<open>snd_mss\<close> bytes although the
  loop counts with \<open>snd_mss - 12\<close>. Once the queue is empty nothing changes any more.
\<close>

lemma sendFullSegments_stuck:
  assumes "sendReady c" "unsent c = 0" "\<not> send_fin c" "ucast eff \<le> b"
  shows "sendFullSegments fuel b eff c = Inl LoopBound"
  using assms
proof (induction fuel arbitrary: c)
  case 0
  then show ?case by (simp add: sendFullSegments.simps)
next
  case (Suc k)
  obtain c' where c': "sendSegment (snd_mss c) c = Inr c'" "sendFrame c c'" "unat (sentBytes c') = 0"
    "snd_nxt c' = snd_nxt c" "off (rcv_nxt c') (rcv_adv c') \<le> 65535"
    using sendSegment_plain [OF Suc.prems(1), of "snd_mss c"] Suc.prems(2,3)
    by (auto simp: segmentSize_eq finAfter_def)
  have "sendReady c'" using c' Suc.prems(1) by (simp add: sendReady_def sendFrame_def)
  moreover have "unsent c' = 0" "\<not> send_fin c'" using c' Suc.prems by (simp_all add: unsent_def sendFrame_def)
  moreover have "sentBytes c' = 0" using c'(3) by (simp add: unat_eq_zero)
  ultimately show ?case using Suc c' by (subst sendFullSegments.simps) simp
qed

lemma unat_sub_wrap:
  fixes a b :: u64
  assumes "unat a < unat b" "unat b < 2 ^ 33"
  shows "2 ^ 32 \<le> unat (a - b)"
proof -
  have "unat (a - b) = 2 ^ 64 + unat a - unat b"
    using assms(1) by (subst unat_sub_if_size) (simp add: word_size)
  then show ?thesis using assms(2) by simp
qed

lemma sendFullSegments_runaway:
  assumes r: "sendReady c" and fin: "\<not> send_fin c" and room: "roomPerSegment c = unat (snd_mss c)"
    and eff: "unat eff < unat (snd_mss c)" and u: "unsent c = 2 * unat (snd_mss c)"
    and b: "unat (snd_mss c) + unat eff \<le> unat b" "unat b < 2 * unat (snd_mss c)"
  shows "sendFullSegments fuel b eff c = Inl LoopBound"
proof -
  let ?m = "unat (snd_mss c)"
  have f: "finOk c" using fin by (simp add: finOk_def)
  have m0: "0 < ?m" using eff by simp
  have ms: "segmentSize ?m c = ?m" using u room by (simp add: segmentSize_eq)
  obtain c1 where c1: "sendSegment (snd_mss c) c = Inr c1" "sentOver ?m c c1" "unat (sentBytes c1) = ?m"
    using sendSegment_sent [OF r, of "snd_mss c"] ms m0 u by auto
  have lt: "?m < unsent c" using u m0 by simp
  note p = sentOver_partial [OF r f c1(2) lt]
  have fin1: "\<not> send_fin c1" using c1(2) fin by (simp add: sentOver_def sendFrame_def)
  have ms1: "segmentSize ?m c1 = ?m" using u p room by (simp add: segmentSize_eq)
  obtain c2 where c2: "sendSegment (snd_mss c1) c1 = Inr c2" "sentOver ?m c1 c2" "unat (sentBytes c2) = ?m"
    using sendSegment_sent [OF p(1), of "snd_mss c1"] ms1 m0 u p by auto
  have nx: "snd_nxt c2 = sq_end (sendQ c2)"
  proof -
    have "unsent c1 = ?m" using p(3) u by simp
    then have "off (snd_nxt c1) (sq_end (sendQ c1)) = ?m" by (simp only: unsent_def)
    from add_off [of "snd_nxt c1" "sq_end (sendQ c1)", unfolded this]
    have "snd_nxt c1 + of_nat ?m = sq_end (sendQ c1)" .
    then show ?thesis using c2(2) fin1 by (simp add: sentOver_def sendFrame_def finAfter_def)
  qed
  have "sendFrame c1 c2" "off (rcv_nxt c2) (rcv_adv c2) \<le> 65535" using c2(2) by (simp_all add: sentOver_def)
  then have r2: "sendReady c2" using p(1) nx by (simp add: sendReady_def sendFrame_def)
  let ?b1 = "b - ucast (sentBytes c1)" and ?b2 = "b - ucast (sentBytes c1) - ucast (sentBytes c2)"
  have b1: "unat ?b1 = unat b - ?m" using b c1(3) by (subst unat_sub) (simp_all add: word_le_nat_alt)
  have "2 ^ 32 \<le> unat ?b2"
    using b b1 c2(3) unsent_lt [OF r] u by (intro unat_sub_wrap) simp_all
  moreover have "unat eff < 2 ^ 32" using unsigned_less [of eff, where ?'a = nat] by simp
  ultimately have s: "sendFullSegments k ?b2 eff c2 = Inl LoopBound" for k
    using sendFullSegments_stuck [OF r2] nx c2(2) fin1
    by (simp add: word_le_nat_alt unsent_def sentOver_def sendFrame_def)
  have 2: "sendFullSegments k ?b1 eff c1 = Inl LoopBound" for k
    using s c2(1) b1 b by (subst sendFullSegments.simps) (auto simp: word_le_nat_alt split: nat.split)
  show ?thesis
    using 2 c1(1) b by (subst sendFullSegments.simps) (auto simp: word_le_nat_alt split: nat.split)
qed


lemma sendData_started:
  assumes r: "sendReady (sendStart c)" and pos: "0 < unsent (sendStart c)"
    and w: "off (snd_una c) (snd_nxt (sendStart c)) < unat (min (snd_wnd c) cwnd)"
  defines "c0 \<equiv> sendStart c"
  defines "b \<equiv> min (unat (min (snd_wnd c) cwnd) - off (snd_una c) (snd_nxt c0)) (unsent c0)"
  defines "eff \<equiv> if ts_enabled c0 then snd_mss c0 - TCP_OPTION_TS_SIZE else snd_mss c0"
  shows "\<exists>n k. unat n = b \<and> sendData fuel False cwnd c = bindR (sendBytes fuel n eff c0) k"
proof -
  define e where "e = effectiveWindow cwnd c0"
  define av where "av = getBytesAvailable (sendQ c0) (snd_nxt c0)"
  define n where "n = (if of_int e > av then av else of_int e)"
  have c0: "snd_una c0 = snd_una c" "snd_wnd c0 = snd_wnd c" unfolding c0_def sendStart_def by simp_all
  have av: "unat av = unsent c0" unfolding av_def c0_def by (rule getBytesAvailable_unsent [OF r])
  define W where "W = unat (min (snd_wnd c) cwnd)"
  have e: "e = int W - int (off (snd_una c) (snd_nxt c0))"
    unfolding e_def effectiveWindow_nat c0 W_def by simp
  have lt: "W < 2 ^ 32" unfolding W_def using unsigned_less [of "min (snd_wnd c) cwnd", where ?'a = nat] by simp
  have ep: "0 < e" using w e unfolding c0_def W_def by linarith
  have n: "unat n = b" using av e ep lt of_int_u64 [of e] unfolding n_def b_def W_def [symmetric]
    by (auto simp: word_less_nat_alt nat_diff_distrib')
  then have "0 < n" using pos w by (auto simp: b_def c0_def word_less_nat_alt)
  moreover have "av \<noteq> 0" using av pos by (auto simp: c0_def)
  ultimately show ?thesis using n ep sendData_def [of fuel False cwnd c, folded sendStart_def, folded c0_def, unfolded Let_def,
      folded av_def e_def eff_def, folded n_def] by auto
qed

section \<open>The pipe estimate\<close>

text \<open>
  The sum that RFC 3517 calls \<open>pipe\<close>, over the blocks of the scoreboard: a block that is not sacked
  counts once unless it is considered lost, and once more if it has been sent again.
\<close>

definition blockPipe :: "tcp_conn \<Rightarrow> region \<Rightarrow> nat" where
  "blockPipe c r =
     (if sacked r then 0
      else (if isLost (beginSeqNum r) c = Inr True then 0 else rlen r) +
           (if seqLess (beginSeqNum r) (highRxt c) then rlen r else 0))"

definition pipeOf :: "tcp_conn \<Rightarrow> region list \<Rightarrow> nat" where
  "pipeOf c rs = sum_list (map (blockPipe c) rs)"

lemma isLost_returns:
  assumes "sack_enabled c" "snd_una c = rq_begin (rexmitQ c)" "seqLE (rq_begin (rexmitQ c)) s" "seqLE s (rq_end (rexmitQ c))"
  shows "\<exists>lost. isLost s c = Inr lost"
proof -
  have "isOk (isLost s c)"
    using assms by (simp add: isLost_def seqGE_seqLE getNumOfDiscontiguousSacks_def getAmountOfSackedBytes_def)
  then show ?thesis by (simp add: isOk_iff)
qed

text \<open>The scan stops at a region that starts where it looks.\<close>

lemma checkSackBlock_at:
  assumes inv: "rq_inv q" and q: "rexmitQueue q = pre @ r # rs"
  shows "checkSackBlock q (beginSeqNum r) = Inr (endSeqNum r - beginSeqNum r, sacked r, rexmitted r)"
    "seqLE (rq_begin q) (beginSeqNum r)" "seqLess (beginSeqNum r) (rq_end q)"
    "seqLE (rq_begin q) (endSeqNum r)" "seqLE (endSeqNum r) (rq_end q)" 
proof -
  let ?b = "rq_begin q"
  note i0 = rq_invD [OF inv]
  obtain m where m: "checkRegions ?b pre m" "checkRegions m (r # rs) (rq_end q)"
    using i0(1) q by (auto simp: checkRegions_append)
  have mb: "m = beginSeqNum r" using m(2) by simp
  have ql: "qlen pre + (rlen r + qlen rs) < 2 ^ 31" using i0(2) q by simp
  have o: "off ?b m = qlen pre" using checkRegions_off [OF m(1), of ?b] ql by simp
  have pos: "0 < rlen r" using checkRegions_len_pos [OF m(2)] by simp
  have w: "inwin ?b m" using o ql by (simp add: inwin_def)
  have e: "off ?b (endSeqNum r) = qlen pre + rlen r" using off_end [of ?b r] o mb ql by simp
  have we: "inwin ?b (endSeqNum r)" using e ql by (simp add: inwin_def)
  have oe: "off ?b (rq_end q) = qlen pre + (rlen r + qlen rs)" using i0(4) q by simp
  show a: "seqLE ?b (beginSeqNum r)" "seqLess (beginSeqNum r) (rq_end q)"
    using w o oe pos i0(5) mb by (simp_all add: inwin_seqLE [symmetric] seqLess_win [of ?b])
  show "seqLE ?b (endSeqNum r)" "seqLE (endSeqNum r) (rq_end q)"
    using we e oe i0(5) seqLE_win [OF we i0(5)] by (auto simp: inwin_seqLE)
  have before: "\<forall>x\<in>set pre. seqLE (endSeqNum x) m"
  proof
    fix x assume "x \<in> set pre"
    then obtain p1 p2 where p: "pre = p1 @ x # p2" by (auto simp: in_set_conv_decomp)
    obtain k where k: "checkRegions ?b p1 k" "checkRegions k (x # p2) m" using m(1) p by (auto simp: checkRegions_append)
    have "off ?b k = qlen p1" using checkRegions_off [OF k(1), of ?b] ql p by simp
    then have ex: "off ?b (endSeqNum x) = qlen p1 + rlen x" using off_end [of ?b x] k(2) ql p by simp
    then have "inwin ?b (endSeqNum x)" using ql p by (simp add: inwin_def)
    then show "seqLE (endSeqNum x) m" using w ex o p by (simp add: seqLE_win [of ?b])
  qed
  have "\<not> seqLE (endSeqNum r) m" using we w e o pos by (simp add: seqLE_win [of ?b])
  then have "fromSeq m (rexmitQueue q) = r # rs" using before q by (simp add: fromSeq_def dropWhile_append3)
  moreover have "covers r m" using m(2) mb by (simp add: covers_def)
  ultimately show "checkSackBlock q (beginSeqNum r) = Inr (endSeqNum r - beginSeqNum r, sacked r, rexmitted r)"
    using a mb by (simp add: checkSackBlock_def)
qed

lemma seqLess_succ: "seqLess (e :: u32) (e + 1)"
  by (simp add: seqLess_def)

lemma not_seqLess_end:
  "\<not> seqLess (e + 1) (e :: u32)"
  using seqLess_asym [OF seqLess_succ] .

lemma setPipeLoop_blocks:
  assumes inv: "rq_inv (rexmitQ c)" and sk: "sack_enabled c" and una: "snd_una c = rq_begin (rexmitQ c)"
    and mx: "snd_max c = rq_end (rexmitQ c) \<or> snd_max c = rq_end (rexmitQ c) + 1"
    and q: "rexmitQueue (rexmitQ c) = pre @ rs" and s: "checkRegions s rs (rq_end (rexmitQ c))"
    and fuel: "length rs < fuel"
    and sm: "qlen rs < 2 ^ 31 - 1"
  shows "setPipeLoop fuel s p c =
     (if snd_max c = rq_end (rexmitQ c) then Inr (p + of_nat (pipeOf c rs))
      else Inl (AssertFailure ''checkSackBlock''))"
  using q s fuel sm
proof (induction rs arbitrary: pre s p fuel)
  case Nil
  then obtain k where k: "fuel = Suc k" by (cases fuel) auto
  have e: "s = rq_end (rexmitQ c)" using Nil by simp
  have "checkSackBlock (rexmitQ c) s = Inl (AssertFailure ''checkSackBlock'')"
    using e by (simp add: checkSackBlock_def)
  then show ?case using mx e k by (auto simp: setPipeLoop.simps pipeOf_def seqLess_succ)
next
  case (Cons r rs)
  then obtain k where k: "fuel = Suc k" "length rs < k" by (cases fuel) auto
  have sb: "s = beginSeqNum r" using Cons.prems(2) by simp
  note cs = checkSackBlock_at [OF inv Cons.prems(1)]
  have le: "off s (rq_end (rexmitQ c)) = qlen (r # rs)"
    using checkRegions_off [OF Cons.prems(2), of s] Cons.prems(4) by simp
  have pos: "0 < qlen (r # rs)" using checkRegions_len_pos [OF Cons.prems(2), of r] by simp
  have lt: "seqLess s (snd_max c)"
  proof (cases "snd_max c = rq_end (rexmitQ c)")
    case True
    then show ?thesis using le pos Cons.prems(4) by (simp add: seqLess_off)
  next
    case False
    then have "snd_max c = rq_end (rexmitQ c) + of_nat 1" using mx by simp
    then have "off s (snd_max c) = qlen (r # rs) + 1"
      using off_add_nat [of s "rq_end (rexmitQ c)" 1] le Cons.prems(4) by simp
    then show ?thesis using Cons.prems(4) by (simp add: seqLess_off)
  qed
  obtain lost where lost: "isLost s c = Inr lost"
    using isLost_returns [OF sk una] cs(2,3) sb seqLess_imp_seqLE by blast
  define w :: u32 where "w = of_nat (rlen r)"
  have rl: "endSeqNum r - beginSeqNum r = w" by (simp add: w_def rlen_def off_def)
  then have er: "beginSeqNum r + w = endSeqNum r" by (metis add.commute diff_add_cancel)
  have st: "setPipeLoop fuel s p c = setPipeLoop k (endSeqNum r) (p + of_nat (blockPipe c r)) c"
    using lt k(1) cs(1) [unfolded rl] lost sb er
    by (subst setPipeLoop.simps) (auto simp: blockPipe_def Let_def w_def [symmetric] add.assoc)
  have q': "rexmitQueue (rexmitQ c) = (pre @ [r]) @ rs" using Cons.prems(1) by simp
  have c': "checkRegions (endSeqNum r) rs (rq_end (rexmitQ c))" "qlen rs < 2 ^ 31 - 1" using Cons.prems by simp_all
  show ?case unfolding st using Cons.IH [OF q' c'(1) k(2) c'(2)] by (simp add: pipeOf_def algebra_simps)
qed

lemma isLost_highRxt [simp]: "isLost s (c\<lparr>highRxt := h\<rparr>) = isLost s c"
  by (simp add: isLost_def cong: if_cong)

lemma setPipe_value:
  assumes inv: "rq_inv (rexmitQ c)" and sk: "sack_enabled c" and una: "snd_una c = rq_begin (rexmitQ c)"
    and mx: "snd_max c = rq_end (rexmitQ c) \<or> snd_max c = rq_end (rexmitQ c) + 1"
    and sm: "qlen (rexmitQueue (rexmitQ c)) < 2 ^ 31 - 1"
  defines "c' \<equiv> c\<lparr>highRxt := getHighestRexmittedSeqNum (rexmitQ c)\<rparr>"
  shows "setPipe c =
     (if snd_max c = rq_end (rexmitQ c) then Inr (c'\<lparr>pipe := of_nat (pipeOf c' (rexmitQueue (rexmitQ c)))\<rparr>)
      else Inl (AssertFailure ''checkSackBlock''))"
proof -
  have "setPipeLoop (Suc (length (rexmitQueue (rexmitQ c')))) (snd_una c') 0 c' =
      (if snd_max c' = rq_end (rexmitQ c') then Inr (0 + of_nat (pipeOf c' (rexmitQueue (rexmitQ c'))))
      else Inl (AssertFailure ''checkSackBlock''))"
    using assms rq_invD(1) [OF inv] by (intro setPipeLoop_blocks [where pre = "[]"]) (simp_all add: c'_def)
  then show ?thesis using sk by (simp add: setPipe_def Let_def c'_def [symmetric]) (simp add: c'_def)
qed


section \<open>Properties\<close>



definition sampleSender :: "tcp_fsm_state \<Rightarrow> tcp_conn" where
  "sampleSender st = (sampleConn st)\<lparr>snd_mss := 536, snd_una := 1000, snd_nxt := 1000, snd_max := 1000,
     snd_wnd := 1060, sendQ := \<lparr>sq_begin = 1000, sq_end = 2072\<rparr>\<rparr>"

lemma sampleConn_more [simp]:
  "rcv_nxt (sampleConn st) = 0" "rcv_adv (sampleConn st) = 0" "afterRto (sampleConn st) = False"
  "send_fin (sampleConn st) = False" "rexmitTimer (sampleConn st) = ScheduledAt 5"
  by (simp_all add: sampleConn_def newConnection_def newAlgStateVariables_def newStateVariables_def
      tcp_state_variables.defs tcp_alg_state_variables.defs)

lemma sampleSender_ready: "sendReady (sendStart (sampleSender st))" "sendReady (sendStart ((sampleSender st)\<lparr>ts_enabled := True\<rparr>))"
  by (simp_all add: sampleSender_def sendReady_def sendStart_def seqLE_def)


text \<open>
  A send loop that does not end. In \<open>CLOSE_WAIT\<close> with timestamps in use, when two full segments
  are queued and the window leaves room for at most twelve bytes less, \<open>bytesToSend\<close> runs below
  zero and wraps around, and \<open>sendData\<close> goes on sending empty segments: no number of iterations is
  enough.
\<close>

lemma sendData_runaway:
  assumes "sendReady (sendStart c)" "fsm c = TCP_S_CLOSE_WAIT" "ts_enabled c" "\<not> send_fin c"
    and "unsent (sendStart c) = 2 * unat (snd_mss c)"
    and "off (snd_una c) (snd_nxt (sendStart c)) + 2 * unat (snd_mss c) - 12 \<le> unat (min (snd_wnd c) cwnd)"
    and "unat (min (snd_wnd c) cwnd) < off (snd_una c) (snd_nxt (sendStart c)) + 2 * unat (snd_mss c)"
  shows "sendData fuel False cwnd c = Inl LoopBound"
proof -
  let ?c0 = "sendStart c" and ?m = "unat (snd_mss c)"
  let ?e = "if ts_enabled ?c0 then snd_mss ?c0 - TCP_OPTION_TS_SIZE else snd_mss ?c0"
  have c0: "snd_mss ?c0 = snd_mss c" "ts_enabled ?c0" "fsm ?c0 = TCP_S_CLOSE_WAIT" "\<not> send_fin ?c0"
    using assms by (simp_all add: sendStart_def)
  have m: "12 < ?m" using assms(1) c0 by (simp add: sendReady_def word_less_nat_alt)
  have e: "unat ?e = ?m - 12" using c0 m unat_sub [of 12 "snd_mss c"] by (simp add: word_le_nat_alt)
  have room: "roomPerSegment ?c0 = ?m" using c0 by (simp add: roomPerSegment_def dataOptionBytes_def optionState_def)
  have "off (snd_una c) (snd_nxt ?c0) < unat (min (snd_wnd c) cwnd)" "0 < unsent ?c0" using assms(5-7) m by linarith+
  from sendData_started [OF assms(1) this(2,1), of fuel] obtain n k where
    n: "unat n = min (unat (min (snd_wnd c) cwnd) - off (snd_una c) (snd_nxt ?c0)) (unsent ?c0)"
    "sendData fuel False cwnd c = bindR (sendBytes fuel n ?e ?c0) k" by blast
  have b: "?m + unat ?e \<le> unat n" "unat n < 2 * ?m" using n(1) assms(5-7) e m by linarith+
  then have "\<not> n \<le> ucast (snd_mss ?c0)" using c0 e m by (simp add: word_le_nat_alt)
  moreover have "sendFullSegments fuel n ?e ?c0 = Inl LoopBound"
    using sendFullSegments_runaway [OF assms(1) c0(4) _ _ _ _ _, of ?e n fuel] room b e m assms(5) c0(1)
    by simp
  ultimately show ?thesis using n(2) by (simp add: sendBytes_def)
qed



lemma dupthresh_one: "\<not> DUPTHRESH \<le> 1"
  by (simp add: word_le_nat_alt)


text \<open>
  \<open>setPipe\<close> and an outstanding FIN. A FIN that has been sent is counted by \<open>snd_max\<close> but is not
  on the scoreboard, so the loop of \<open>setPipe\<close> steps past the scoreboard's end and an assertion of
  \<open>checkSackBlock\<close> fails.
\<close>

lemma setPipe_fin_assertion:
  assumes "rq_inv (rexmitQ c)" "sack_enabled c" "snd_una c = rq_begin (rexmitQ c)" "snd_max c = rq_end (rexmitQ c) + 1"
    and "qlen (rexmitQueue (rexmitQ c)) < 2 ^ 31 - 1"
  shows "setPipe c = Inl (AssertFailure ''checkSackBlock'')"
  using setPipe_value [OF assms(1-3) _ assms(5)] assms(4) by simp

text \<open>
  New data in loss recovery. When no lost block is left and more bytes are in flight than the peer's
  window allows, the unsigned difference of window and \<open>pipe\<close> wraps around, so \<open>nextSeg\<close>
  chooses new data to send although the window is exceeded already.
\<close>

lemma nextSeg_ignores_window:
  assumes "sack_enabled c" "getHighestSackedSeqNum (rexmitQ c) = getHighestRexmittedSeqNum (rexmitQ c)"
    and "0 < getBytesAvailable (sendQ c) (snd_max c)" "snd_wnd c < pipe c"
  shows "nextSeg c = Inr (Some (snd_max c), c\<lparr>highRxt := getHighestRexmittedSeqNum (rexmitQ c)\<rparr>)"
proof -
  let ?w = "ucast (snd_wnd c) :: u64" and ?p = "ucast (pipe c) :: u64"
  have p: "unat (pipe c) < 2 ^ 32" "unat (snd_mss c) < 2 ^ 32"
    using unsigned_less [of "pipe c", where ?'a = nat] unsigned_less [of "snd_mss c", where ?'a = nat] by simp_all
  have "unat (?w - ?p) = 2 ^ 64 + unat (snd_wnd c) - unat (pipe c)"
    using assms(4) by (subst unat_sub_if_size) (simp add: word_size word_less_nat_alt)
  then have "ucast (snd_mss c) \<le> ?w - ?p" using p by (simp add: word_le_nat_alt)
  then show ?thesis using assms by (simp add: nextSeg_def Let_def unsackedFrom.simps)
qed

text \<open>
  A FIN that alone is outstanding is not sent again by \<open>retransmitData\<close> when SACK is in use: the
  count \<open>snd_max - snd_una\<close> is one for the FIN, so the branch that sends a bare FIN is skipped, a
  segment of no bytes is made, and entering it on the scoreboard fails an assertion.
\<close>

lemma retransmitData_lone_fin:
  assumes "sack_enabled c" "\<not> sacksPending c" "sq_end (sendQ c) = snd_una c" "sq_begin (sendQ c) = snd_una c"
    and "rq_begin (rexmitQ c) = snd_una c" "rq_end (rexmitQ c) = snd_una c" "snd_max c = snd_una c + 1" "12 < snd_mss c"
  shows "retransmitData (Suc fuel) c = Inl (AssertFailure ''enqueueSentData'')"
proof -
  let ?c = "c\<lparr>snd_nxt := snd_una c\<rparr>"
  have av: "getBytesAvailable (sendQ c) (snd_una c) = 0"
    using assms(3) by (simp add: getBytesAvailable_def getBufferEndSeq_def bytesAvailable_def)
  have "\<not> sacksPending ?c" using assms(2) by (simp add: sacksPending_def)
  then obtain temp where t: "writeHeaderOptions (newSegment\<lparr>ackBit := True\<rparr>) ?c = Inr (temp, ?c)"
    "ucast (headerLength temp - TCP_HEADER_OCTETS) = dataOptionBytes ?c"
    using writeHeaderOptions_data [of ?c] by blast
  have d: "dataOptionBytes ?c < snd_mss c" using dataOptionBytes_cases [of ?c] assms(8) by (auto simp: word_less_nat_alt)
  have sk: "skipSacked ?c = Inr ?c" using assms(5,6)
    by (simp add: skipSacked_def checkRexmitQueueForSackedOrRexmittedSegments_def)
  have z: "clipBytes 0 0 (dataOptionBytes ?c) (snd_mss c) = 0" using d by (auto simp: clipBytes_def)
  have "sendSegment 0 ?c = Inl (AssertFailure ''enqueueSentData'')"
    using t d av z assms by (simp add: sendSegment_def sk createSegmentWithBytes_def registerSent_def enqueueSentData_def)
  then show ?thesis using assms(7) av
    by (simp add: retransmitData_def Let_def retransmitLoop.simps)
qed

end
