(* ===== verification/Tcp_Alg.thy ===== *)
theory Tcp_Alg
  imports Tcp_Send
begin

text \<open>
  The congestion-control objects (\<open>src/inet/transportlayer/tcp/flavours/\<close>): \<open>TCPBaseAlg\<close> and its
  subclasses \<open>TCPTahoe\<close>, \<open>TCPReno\<close>, \<open>TCPNewReno\<close>, \<open>TCPNoCongestionControl\<close>, and the stand-alone
  \<open>DumbTCP\<close>. A virtual method is a function that dispatches on the flavour of the connection; a call
  of the base-class method is a call of the function with the base-class name. The loops of the
  sending routines get one iteration per byte they may send as their bound.
\<close>

section \<open>Constants\<close>

abbreviation "DELAYED_ACK_TIMEOUT \<equiv> (1 / 5 :: simtime)"
abbreviation "MAX_REXMIT_COUNT \<equiv> (12 :: int)"
abbreviation "MIN_REXMIT_TIMEOUT \<equiv> (1 :: simtime)"
abbreviation "MAX_REXMIT_TIMEOUT \<equiv> (240 :: simtime)"
abbreviation "MIN_PERSIST_TIMEOUT \<equiv> (5 :: simtime)"
abbreviation "MAX_PERSIST_TIMEOUT \<equiv> (60 :: simtime)"

datatype alg_timer = REXMIT | PERSIST | DELAYEDACK | KEEPALIVE

section \<open>The sending routines with their iteration bounds\<close>

definition connSendData :: "bool \<Rightarrow> u32 \<Rightarrow> tcp_conn \<Rightarrow> (bool \<times> tcp_conn) res" where
  "connSendData fullSegmentsOnly congestionWindow c =
     sendData (unat (min (snd_wnd c) congestionWindow)) fullSegmentsOnly congestionWindow c"

definition connRetransmitData :: "tcp_conn \<Rightarrow> tcp_conn res" where
  "connRetransmitData c = retransmitData (Suc (unat (snd_max c - snd_una c))) c"

definition connLossRecovery :: "tcp_conn \<Rightarrow> tcp_conn res" where
  "connLossRecovery c =
     (if sint (snd_cwnd c) - sint (pipe c) \<ge> sint (snd_mss c)
      then sendDataDuringLossRecoveryPhase (Suc (unat (snd_cwnd c))) (snd_cwnd c) c else Inr c)"

section \<open>\<open>TCPBaseAlg\<close>\<close>

definition initialWindow :: "tcp_conn \<Rightarrow> u32" where
  "initialWindow c = min (4 * snd_mss c) (max (2 * snd_mss c) 4380)"

text \<open>The restart of an idle connection inside \<open>TCPBaseAlg::sendData\<close>.\<close>

definition restartIdle :: "tcp_conn \<Rightarrow> tcp_conn" where
  "restartIdle c =
     (if \<not> isSendQueueEmpty c \<and> now c - time_last_data_sent c > rexmit_timeout c
      then c\<lparr>snd_cwnd := (if increased_IW_enabled c then min (initialWindow c) (snd_cwnd c) else snd_mss c)\<rparr>
      else c)"

definition algSendData :: "bool \<Rightarrow> tcp_conn \<Rightarrow> (bool \<times> tcp_conn) res" where
  "algSendData sendCommandInvoked c =
     (let fullSegmentsOnly = (sendCommandInvoked \<and> nagle_enabled c \<and> snd_una c \<noteq> snd_max c);
          c1 = restartIdle c
      in connSendData fullSegmentsOnly (snd_cwnd c1) c1)"

definition trySend :: "bool \<Rightarrow> tcp_conn \<Rightarrow> tcp_conn res" where
  "trySend sendCommandInvoked c = bindR (algSendData sendCommandInvoked c) (\<lambda>(sent, c'). Inr c')"

definition baseInitialize :: "tcp_conn \<Rightarrow> tcp_conn" where
  "baseInitialize c = c\<lparr>rexmitTimer := IdleTimer, persistTimer := IdleTimer, delayedAckTimer := IdleTimer,
     keepAliveTimer := IdleTimer\<rparr>"

definition baseEstablished :: "bool \<Rightarrow> tcp_conn \<Rightarrow> tcp_conn res" where
  "baseEstablished isActive c =
     (let c1 = c\<lparr>snd_cwnd := (if increased_IW_enabled c \<and> syn_rexmit_count c = 0 then initialWindow c else snd_mss c)\<rparr>
      in if isActive
         then bindR (algSendData False c1) (\<lambda>(sent, c2). if \<not> sent then sendAck c2 else Inr c2)
         else Inr c1)"

text \<open>Karn's exponential back-off, and what a timeout resets.\<close>

definition backoffRto :: "tcp_conn \<Rightarrow> tcp_conn" where
  "backoffRto c =
     (let rto = rexmit_timeout c + rexmit_timeout c
      in c\<lparr>rexmit_timeout := (if rto > MAX_REXMIT_TIMEOUT then MAX_REXMIT_TIMEOUT else rto)\<rparr>)"

definition resetAfterTimeout :: "tcp_conn \<Rightarrow> tcp_conn" where
  "resetAfterTimeout c =
     (let c1 = c\<lparr>rtseq_sendtime := 0, numRtos := numRtos c + 1\<rparr>;
          c2 = (if sack_enabled c1
                then c1\<lparr>rexmitQ := resetRexmittedBit (resetSackedBit (rexmitQ c1)),
                        recoveryPoint := (if lossRecovery c1 then snd_max c1 else recoveryPoint c1),
                        lossRecovery := False\<rparr>
                else c1)
      in c2\<lparr>time_last_data_sent := now c2\<rparr>)"

definition baseProcessRexmitTimer :: "tcp_event_code \<Rightarrow> tcp_conn \<Rightarrow> (tcp_event_code \<times> tcp_conn) res" where
  "baseProcessRexmitTimer event c0 =
     (let c = c0\<lparr>rexmit_count := rexmit_count c0 + 1\<rparr>
      in if rexmit_count c > MAX_REXMIT_COUNT
         then Inr (TCP_E_ABORT, signalConnectionTimeout c)
         else
           let c1 = backoffRto c
           in bindR (scheduleRexmit (rexmit_timeout c1) c1) (\<lambda>c2. Inr (event, resetAfterTimeout c2)))"

text \<open>The bounds of the persist interval are assigned to \<open>rexmit_timeout\<close>, as in the source.\<close>

definition persistBackoff :: "tcp_conn \<Rightarrow> tcp_conn" where
  "persistBackoff c =
     (let factor = (if persist_factor c = 0 then 1
                    else if persist_factor c < 64 then persist_factor c * 2 else persist_factor c);
          timeout = of_nat (unat factor) * (3 / 2) :: simtime;
          rto = (if timeout < MIN_PERSIST_TIMEOUT then MIN_PERSIST_TIMEOUT else rexmit_timeout c)
      in c\<lparr>persist_factor := factor, persist_timeout := timeout,
           rexmit_timeout := (if timeout > MAX_PERSIST_TIMEOUT then MAX_PERSIST_TIMEOUT else rto)\<rparr>)"

definition schedulePersist :: "tcp_conn \<Rightarrow> tcp_conn res" where
  "schedulePersist c =
     bindR (scheduleAt (now c + persist_timeout c) (persistTimer c)) (\<lambda>t. Inr (c\<lparr>persistTimer := t\<rparr>))"

definition processPersistTimer :: "tcp_conn \<Rightarrow> tcp_conn res" where
  "processPersistTimer c =
     bindR (schedulePersist (persistBackoff c)) (\<lambda>c1.
     bindR (sendProbe c1) (\<lambda>(sent, c2). Inr c2))"

definition processDelayedAckTimer :: "tcp_conn \<Rightarrow> tcp_conn res" where
  "processDelayedAckTimer c = sendAck (c\<lparr>ack_now := True\<rparr>)"

definition processKeepAliveTimer :: "tcp_conn \<Rightarrow> tcp_conn" where
  "processKeepAliveTimer c = c"

definition rttMeasurementComplete :: "simtime \<Rightarrow> simtime \<Rightarrow> tcp_conn \<Rightarrow> tcp_conn" where
  "rttMeasurementComplete tSent tAcked c =
     (let g = 1 / 8;
          newRTT = tAcked - tSent;
          err = newRTT - srtt c;
          srtt' = srtt c + g * err;
          rttvar' = rttvar c + g * (\<bar>err\<bar> - rttvar c);
          rto = srtt' + 4 * rttvar'
      in c\<lparr>srtt := srtt', rttvar := rttvar',
           rexmit_timeout := (if rto > MAX_REXMIT_TIMEOUT then MAX_REXMIT_TIMEOUT
                              else if rto < MIN_REXMIT_TIMEOUT then MIN_REXMIT_TIMEOUT else rto)\<rparr>)"

definition rttMeasurementCompleteUsingTS :: "u32 \<Rightarrow> tcp_conn \<Rightarrow> tcp_conn res" where
  "rttMeasurementCompleteUsingTS echoedTS c =
     (if isDumb c then Inr c
      else bindR (assertR (ts_enabled c) ''state->ts_enabled'') (\<lambda>_.
           Inr (rttMeasurementComplete (convertTSToSimtime echoedTS)
                  (convertTSToSimtime (convertSimtimeToTS (now c))) c)))"

definition baseReceivedOutOfOrderSegment :: "tcp_conn \<Rightarrow> tcp_conn res" where
  "baseReceivedOutOfOrderSegment c = sendAck (c\<lparr>ack_now := True\<rparr>)"

definition baseReceiveSeqChanged :: "tcp_conn \<Rightarrow> tcp_conn res" where
  "baseReceiveSeqChanged c =
     (if full_sized_segment_counter c = 0 \<and> \<not> ack_now c \<and> last_ack_sent c = rcv_nxt c \<and>
         \<not> isScheduled (delayedAckTimer c)
      then Inr c
      else
        let c1 = (if lossRecovery c then c\<lparr>ack_now := True\<rparr> else c)
        in if \<not> delayed_acks_enabled c1 then sendAck c1
           else if ack_now c1 then sendAck c1
           else if full_sized_segment_counter c1 \<ge> 2 then sendAck c1
           else if \<not> isScheduled (delayedAckTimer c1)
           then bindR (scheduleAt (now c1 + DELAYED_ACK_TIMEOUT) (delayedAckTimer c1)) (\<lambda>t.
                Inr (c1\<lparr>delayedAckTimer := t\<rparr>))
           else Inr c1)"

text \<open>The three parts of \<open>TCPBaseAlg::receivedDataAck\<close>: RTT, retransmission timer, persist timer.\<close>

definition measureRtt :: "tcp_conn \<Rightarrow> tcp_conn" where
  "measureRtt c =
     (if \<not> ts_enabled c \<and> rtseq_sendtime c \<noteq> 0 \<and> seqLess (rtseq c) (snd_una c)
      then (rttMeasurementComplete (rtseq_sendtime c) (now c) c)\<lparr>rtseq_sendtime := 0\<rparr> else c)"

definition manageRexmitTimer :: "tcp_conn \<Rightarrow> tcp_conn res" where
  "manageRexmitTimer c =
     (if snd_una c = snd_max c then Inr (c\<lparr>rexmitTimer := cancelIfScheduled (rexmitTimer c)\<rparr>)
      else bindR (cancelEvent (rexmitTimer c)) (\<lambda>t. startRexmitTimer (c\<lparr>rexmitTimer := t\<rparr>)))"

definition managePersistTimer :: "tcp_conn \<Rightarrow> tcp_conn res" where
  "managePersistTimer c =
     (if snd_wnd c = 0
      then (if isScheduled (rexmitTimer c)
            then (if isScheduled (persistTimer c) then Inr (c\<lparr>persistTimer := IdleTimer, persist_factor := 0\<rparr>) else Inr c)
            else (if \<not> isScheduled (persistTimer c) then schedulePersist c else Inr c))
      else (if isScheduled (persistTimer c) then Inr (c\<lparr>persistTimer := IdleTimer, persist_factor := 0\<rparr>) else Inr c))"

definition baseReceivedDataAck :: "u32 \<Rightarrow> tcp_conn \<Rightarrow> tcp_conn res" where
  "baseReceivedDataAck firstSeqAcked c = bindR (manageRexmitTimer (measureRtt c)) managePersistTimer"

definition baseReceivedDuplicateAck :: "tcp_conn \<Rightarrow> tcp_conn res" where
  "baseReceivedDuplicateAck c =
     (let fullSegmentsOnly = (nagle_enabled c \<and> snd_una c \<noteq> snd_max c)
      in if dupacks c < DUPTHRESH \<and> limited_transmit_enabled c
         then sendOneNewSegment fullSegmentsOnly (snd_cwnd c) c else Inr c)"

section \<open>Windows of the Tahoe/Reno family\<close>

text \<open>The same body in \<open>TCPTahoe\<close>, \<open>TCPReno\<close> and \<open>TCPNewReno\<close>.\<close>

definition recalculateSlowStartThreshold :: "tcp_conn \<Rightarrow> tcp_conn" where
  "recalculateSlowStartThreshold c =
     c\<lparr>ssthresh := max (min (snd_cwnd c) (snd_wnd c) div 2) (2 * snd_mss c)\<rparr>"

text \<open>Slow start and congestion avoidance, the same in the three classes.\<close>

definition growCwnd :: "tcp_conn \<Rightarrow> tcp_conn res" where
  "growCwnd c =
     (if snd_cwnd c < ssthresh c then Inr (c\<lparr>snd_cwnd := snd_cwnd c + snd_mss c\<rparr>)
      else if snd_cwnd c = 0 then Inl (RuntimeError ''division by zero'')
      else
        let incr = snd_mss c * snd_mss c div snd_cwnd c
        in Inr (c\<lparr>snd_cwnd := snd_cwnd c + (if incr = 0 then 1 else incr)\<rparr>))"

text \<open>The common end of \<open>processRexmitTimer\<close>: slow start from one segment.\<close>

definition slowStartAfterRto :: "tcp_conn \<Rightarrow> tcp_conn res" where
  "slowStartAfterRto c =
     (let c1 = recalculateSlowStartThreshold c
      in retransmitOneSegment True (c1\<lparr>snd_cwnd := snd_mss c1, afterRto := True\<rparr>))"

section \<open>\<open>TCPTahoe\<close>\<close>

definition tahoeProcessRexmitTimer :: "tcp_event_code \<Rightarrow> tcp_conn \<Rightarrow> (tcp_event_code \<times> tcp_conn) res" where
  "tahoeProcessRexmitTimer event c =
     bindR (baseProcessRexmitTimer event c) (\<lambda>(event', c1).
     if event' = TCP_E_ABORT then Inr (event', c1)
     else bindR (slowStartAfterRto c1) (\<lambda>c2. Inr (event', c2)))"

definition tahoeReceivedDataAck :: "u32 \<Rightarrow> tcp_conn \<Rightarrow> tcp_conn res" where
  "tahoeReceivedDataAck firstSeqAcked c =
     bindR (baseReceivedDataAck firstSeqAcked c) (\<lambda>c1.
     bindR (growCwnd c1) (\<lambda>c2. trySend False c2))"

definition tahoeReceivedDuplicateAck :: "tcp_conn \<Rightarrow> tcp_conn res" where
  "tahoeReceivedDuplicateAck c =
     bindR (baseReceivedDuplicateAck c) (\<lambda>c1.
     if dupacks c1 = DUPTHRESH
     then let c2 = recalculateSlowStartThreshold c1
          in retransmitOneSegment False (c2\<lparr>snd_cwnd := snd_mss c2\<rparr>)
     else Inr c1)"

section \<open>\<open>TCPReno\<close>\<close>

definition renoProcessRexmitTimer :: "tcp_event_code \<Rightarrow> tcp_conn \<Rightarrow> (tcp_event_code \<times> tcp_conn) res" where
  "renoProcessRexmitTimer event c =
     bindR (baseProcessRexmitTimer event c) (\<lambda>(event', c1).
     if event' = TCP_E_ABORT then Inr (event', c1)
     else bindR (slowStartAfterRto c1) (\<lambda>c2. Inr (event', c2)))"

definition renoReceivedDataAck :: "u32 \<Rightarrow> tcp_conn \<Rightarrow> tcp_conn res" where
  "renoReceivedDataAck firstSeqAcked c =
     bindR (baseReceivedDataAck firstSeqAcked c) (\<lambda>c1.
     bindR (if dupacks c1 \<ge> DUPTHRESH then Inr (c1\<lparr>snd_cwnd := ssthresh c1\<rparr>) else growCwnd c1) (\<lambda>c2.
     bindR (if sack_enabled c2 \<and> lossRecovery c2
            then (if seqGE (snd_una c2) (recoveryPoint c2) then Inr (c2\<lparr>lossRecovery := False\<rparr>)
                  else bindR (setPipe c2) connLossRecovery)
            else Inr c2) (\<lambda>c3.
     trySend False c3)))"

text \<open>Fast retransmit at the third duplicate ACK.\<close>

definition renoFastRetransmit :: "tcp_conn \<Rightarrow> tcp_conn res" where
  "renoFastRetransmit c =
     (let c1 = (if sack_enabled c \<and> (recoveryPoint c = 0 \<or> seqGE (snd_una c) (recoveryPoint c))
                then c\<lparr>recoveryPoint := snd_max c, lossRecovery := True\<rparr> else c);
          c2 = recalculateSlowStartThreshold c1
      in bindR (retransmitOneSegment False (c2\<lparr>snd_cwnd := ssthresh c2 + 3 * snd_mss c2\<rparr>)) (\<lambda>c3.
         bindR (if sack_enabled c3
                then bindR (setPipe c3) (\<lambda>c4.
                     if lossRecovery c4 then bindR (restartRexmitTimer c4) connLossRecovery else Inr c4)
                else Inr c3) (\<lambda>c5.
         trySend False c5)))"

definition renoReceivedDuplicateAck :: "tcp_conn \<Rightarrow> tcp_conn res" where
  "renoReceivedDuplicateAck c =
     bindR (baseReceivedDuplicateAck c) (\<lambda>c1.
     if dupacks c1 = DUPTHRESH then renoFastRetransmit c1
     else if dupacks c1 > DUPTHRESH then trySend False (c1\<lparr>snd_cwnd := snd_cwnd c1 + snd_mss c1\<rparr>)
     else Inr c1)"

section \<open>\<open>TCPNewReno\<close>\<close>

definition newRenoProcessRexmitTimer :: "tcp_event_code \<Rightarrow> tcp_conn \<Rightarrow> (tcp_event_code \<times> tcp_conn) res" where
  "newRenoProcessRexmitTimer event c =
     bindR (baseProcessRexmitTimer event c) (\<lambda>(event', c1).
     if event' = TCP_E_ABORT then Inr (event', c1)
     else bindR (slowStartAfterRto (c1\<lparr>recover := snd_max c1 - 1, lossRecovery := False, firstPartialACK := False\<rparr>)) (\<lambda>c2.
          Inr (event', c2)))"

text \<open>The window after a partial ACK: deflated by the data acknowledged, then inflated by a segment.\<close>

definition partialAckCwnd :: "u32 \<Rightarrow> u32 \<Rightarrow> u32 \<Rightarrow> u32" where
  "partialAckCwnd cwnd acked mss = (let cwnd1 = cwnd - acked in if acked \<ge> mss then cwnd1 + mss else cwnd1)"

definition newRenoPartialAck :: "u32 \<Rightarrow> tcp_conn \<Rightarrow> tcp_conn res" where
  "newRenoPartialAck firstSeqAcked c =
     bindR (retransmitOneSegment False c) (\<lambda>c1.
     let c2 = c1\<lparr>snd_cwnd := partialAckCwnd (snd_cwnd c1) (snd_una c1 - firstSeqAcked) (snd_mss c1)\<rparr>
     in bindR (trySend False c2) (\<lambda>c3.
        if lossRecovery c3 \<and> \<not> firstPartialACK c3
        then restartRexmitTimer (c3\<lparr>firstPartialACK := True\<rparr>) else Inr c3))"

definition newRenoReceivedDataAck :: "u32 \<Rightarrow> tcp_conn \<Rightarrow> tcp_conn res" where
  "newRenoReceivedDataAck firstSeqAcked c =
     bindR (baseReceivedDataAck firstSeqAcked c) (\<lambda>c1.
     bindR (if lossRecovery c1
            then (if seqGE (snd_una c1 - 1) (recover c1)
                  then Inr (c1\<lparr>snd_cwnd := min (ssthresh c1) ((snd_max c1 - snd_una c1) + snd_mss c1),
                               lossRecovery := False, firstPartialACK := False\<rparr>)
                  else newRenoPartialAck firstSeqAcked c1)
            else bindR (growCwnd c1) (\<lambda>c2. Inr (c2\<lparr>recover := snd_una c2 - 2\<rparr>))) (\<lambda>c3.
     trySend False c3))"

text \<open>The test \<open>snd_una - 1 > recover\<close> of the source compares plain unsigned numbers.\<close>

definition newRenoReceivedDuplicateAck :: "tcp_conn \<Rightarrow> tcp_conn res" where
  "newRenoReceivedDuplicateAck c =
     bindR (baseReceivedDuplicateAck c) (\<lambda>c1.
     if dupacks c1 = DUPTHRESH
     then (if \<not> lossRecovery c1 \<and> snd_una c1 - 1 > recover c1
           then let c2 = (recalculateSlowStartThreshold c1)\<lparr>recover := snd_max c1 - 1, firstPartialACK := False,
                           lossRecovery := True\<rparr>
                in bindR (retransmitOneSegment False (c2\<lparr>snd_cwnd := ssthresh c2 + 3 * snd_mss c2\<rparr>)) (trySend False)
           else Inr c1)
     else if dupacks c1 > DUPTHRESH \<and> lossRecovery c1
     then trySend False (c1\<lparr>snd_cwnd := snd_cwnd c1 + snd_mss c1\<rparr>)
     else Inr c1)"

section \<open>\<open>TCPNoCongestionControl\<close>\<close>

definition noCCInitialize :: "tcp_conn \<Rightarrow> tcp_conn" where
  "noCCInitialize c = (baseInitialize c)\<lparr>snd_cwnd := 0x7fffffff\<rparr>"

definition noCCProcessRexmitTimer :: "tcp_event_code \<Rightarrow> tcp_conn \<Rightarrow> (tcp_event_code \<times> tcp_conn) res" where
  "noCCProcessRexmitTimer event c =
     bindR (baseProcessRexmitTimer event c) (\<lambda>(event', c1).
     if event' = TCP_E_ABORT then Inr (event', c1)
     else bindR (retransmitOneSegment True c1) (\<lambda>c2. Inr (event', c2)))"

definition noCCReceivedDataAck :: "u32 \<Rightarrow> tcp_conn \<Rightarrow> tcp_conn res" where
  "noCCReceivedDataAck firstSeqAcked c = bindR (baseReceivedDataAck firstSeqAcked c) (trySend False)"

section \<open>\<open>DumbTCP\<close>\<close>

definition dumbInitialize :: "tcp_conn \<Rightarrow> tcp_conn" where
  "dumbInitialize c = c\<lparr>rexmitTimer := IdleTimer\<rparr>"

definition dumbSend :: "tcp_conn \<Rightarrow> tcp_conn res" where
  "dumbSend c = bindR (connSendData False 65535 c) (\<lambda>(sent, c'). Inr c')"

definition dumbEstablished :: "bool \<Rightarrow> tcp_conn \<Rightarrow> tcp_conn res" where
  "dumbEstablished isActive c =
     (if isActive
      then bindR (connSendData False 65535 c) (\<lambda>(sent, c1). if \<not> sent then sendAck c1 else Inr c1)
      else Inr c)"

definition dumbProcessTimer :: "alg_timer \<Rightarrow> tcp_conn \<Rightarrow> tcp_conn res" where
  "dumbProcessTimer t c =
     (if t \<noteq> REXMIT then Inl (RuntimeError ''unrecognized timer'')
      else bindR (connRetransmitData c) (\<lambda>c1. scheduleRexmit 2 c1))"

section \<open>Dispatch on the flavour\<close>

definition withAlg :: "tcp_conn \<Rightarrow> (flavour \<Rightarrow> 'a res) \<Rightarrow> 'a res" where
  "withAlg c f = (case tcpAlgorithm c of None \<Rightarrow> Inl (RuntimeError ''null pointer'') | Some fl \<Rightarrow> f fl)"

definition algInitialize :: "tcp_conn \<Rightarrow> tcp_conn res" where
  "algInitialize c = withAlg c (\<lambda>fl. Inr (case fl of
       DumbTCP \<Rightarrow> dumbInitialize c | TCPNoCongestionControl \<Rightarrow> noCCInitialize c | _ \<Rightarrow> baseInitialize c))"

definition algEstablished :: "bool \<Rightarrow> tcp_conn \<Rightarrow> tcp_conn res" where
  "algEstablished isActive c = withAlg c (\<lambda>fl. case fl of
       DumbTCP \<Rightarrow> dumbEstablished isActive c | _ \<Rightarrow> baseEstablished isActive c)"

definition algProcessRexmitTimer :: "tcp_event_code \<Rightarrow> tcp_conn \<Rightarrow> (tcp_event_code \<times> tcp_conn) res" where
  "algProcessRexmitTimer event c = withAlg c (\<lambda>fl. case fl of
       DumbTCP \<Rightarrow> bindR (dumbProcessTimer REXMIT c) (\<lambda>c'. Inr (event, c'))
     | TCPNoCongestionControl \<Rightarrow> noCCProcessRexmitTimer event c
     | TCPTahoe \<Rightarrow> tahoeProcessRexmitTimer event c
     | TCPReno \<Rightarrow> renoProcessRexmitTimer event c
     | TCPNewReno \<Rightarrow> newRenoProcessRexmitTimer event c)"

definition algProcessTimer :: "alg_timer \<Rightarrow> tcp_event_code \<Rightarrow> tcp_conn \<Rightarrow> (tcp_event_code \<times> tcp_conn) res" where
  "algProcessTimer t event c = withAlg c (\<lambda>fl.
     if fl = DumbTCP then bindR (dumbProcessTimer t c) (\<lambda>c'. Inr (event, c'))
     else (case t of
             REXMIT \<Rightarrow> algProcessRexmitTimer event c
           | PERSIST \<Rightarrow> bindR (processPersistTimer c) (\<lambda>c'. Inr (event, c'))
           | DELAYEDACK \<Rightarrow> bindR (processDelayedAckTimer c) (\<lambda>c'. Inr (event, c'))
           | KEEPALIVE \<Rightarrow> Inr (event, processKeepAliveTimer c)))"

definition algSendCommandInvoked :: "tcp_conn \<Rightarrow> tcp_conn res" where
  "algSendCommandInvoked c = withAlg c (\<lambda>fl. case fl of DumbTCP \<Rightarrow> dumbSend c | _ \<Rightarrow> trySend True c)"

definition algReceivedOutOfOrderSegment :: "tcp_conn \<Rightarrow> tcp_conn res" where
  "algReceivedOutOfOrderSegment c = withAlg c (\<lambda>fl. case fl of
       DumbTCP \<Rightarrow> sendAck c | _ \<Rightarrow> baseReceivedOutOfOrderSegment c)"

definition algReceiveSeqChanged :: "tcp_conn \<Rightarrow> tcp_conn res" where
  "algReceiveSeqChanged c = withAlg c (\<lambda>fl. case fl of
       DumbTCP \<Rightarrow> sendAck c | _ \<Rightarrow> baseReceiveSeqChanged c)"

definition algReceivedDataAck :: "u32 \<Rightarrow> tcp_conn \<Rightarrow> tcp_conn res" where
  "algReceivedDataAck firstSeqAcked c = withAlg c (\<lambda>fl. case fl of
       DumbTCP \<Rightarrow> dumbSend c
     | TCPNoCongestionControl \<Rightarrow> noCCReceivedDataAck firstSeqAcked c
     | TCPTahoe \<Rightarrow> tahoeReceivedDataAck firstSeqAcked c
     | TCPReno \<Rightarrow> renoReceivedDataAck firstSeqAcked c
     | TCPNewReno \<Rightarrow> newRenoReceivedDataAck firstSeqAcked c)"

definition algReceivedDuplicateAck :: "tcp_conn \<Rightarrow> tcp_conn res" where
  "algReceivedDuplicateAck c = withAlg c (\<lambda>fl. case fl of
       DumbTCP \<Rightarrow> Inr c
     | TCPNoCongestionControl \<Rightarrow> baseReceivedDuplicateAck c
     | TCPTahoe \<Rightarrow> tahoeReceivedDuplicateAck c
     | TCPReno \<Rightarrow> renoReceivedDuplicateAck c
     | TCPNewReno \<Rightarrow> newRenoReceivedDuplicateAck c)"

definition algReceivedAckForDataNotYetSent :: "u32 \<Rightarrow> tcp_conn \<Rightarrow> tcp_conn res" where
  "algReceivedAckForDataNotYetSent seq c = withAlg c (\<lambda>fl. sendAck c)"

section \<open>What sending leaves alone\<close>

text \<open>
  The variables of congestion control, and the state of the connection outside it, that no sending routine
  touches.
\<close>

text \<open>
  The rest of what makes up a connection: its state, both queues and the sequence numbers of the receiver,
  the FIN bookkeeping, its identity, and the timers of the connection itself.
\<close>

type_synonym core_view = "(tcp_fsm_state \<times> u32 \<times> send_queue \<times> rcv_queue \<times> u32) \<times>
  (bool \<times> u32 \<times> bool \<times> u32 \<times> bool) \<times> (u32 \<times> u32 \<times> tcp_par \<times> simtime \<times> int \<times> int \<times> bool \<times> bool \<times> u32) \<times>
  (l3_address \<times> l3_address \<times> int \<times> int) \<times> (timer \<times> timer \<times> timer \<times> timer) \<times> flavour option"

definition coreView :: "tcp_conn \<Rightarrow> core_view" where
  "coreView c = ((fsm c, snd_una c, sendQ c, receiveQ c, rcv_nxt c),
     (fin_rcvd c, rcv_fin_seq c, send_fin c, snd_fin_seq c, fin_ack_rcvd c),
     (iss c, irs c, par c, now c, connId c, appGateIndex c, active c, fork c, maxRcvBuffer c),
     (localAddr c, remoteAddr c, localPort c, remotePort c),
     (the2MSLTimer c, connEstabTimer c, finWait2Timer c, synRexmitTimer c), tcpAlgorithm c)"

definition algView :: "tcp_conn \<Rightarrow> (u32 \<times> u32 \<times> u32 \<times> u32 \<times> u32 \<times> simtime \<times> simtime \<times> simtime \<times> flavour option \<times> u32) \<times> core_view" where
  "algView c = ((snd_cwnd c, ssthresh c, snd_mss c, snd_wnd c, snd_una c, rexmit_timeout c, srtt c, rttvar c, tcpAlgorithm c, dupacks c),
     coreView c)"

abbreviation "keeps \<equiv> keepsF algView"
abbreviation "keepsP \<equiv> keepsFP algView"

named_theorems keeps_intros \<open>operations that keep the congestion-control variables\<close>

lemma keeps_if: "(b \<Longrightarrow> keeps c m) \<Longrightarrow> (\<not> b \<Longrightarrow> keeps c m') \<Longrightarrow> keeps c (if b then m else m')"
  by simp

lemma algView_ackSent [simp]: "algView (ackSent c) = algView c"
  by (simp add: ackSent_def algView_def coreView_def)

lemma algView_requestMoreData [simp]: "algView (requestMoreData c) = algView c"
  by (simp add: requestMoreData_def algView_def coreView_def Let_def sendIndicationToApp_def emit_def)

lemma algView_updates [simp]:
  "algView (c\<lparr>snd_nxt := a\<rparr>) = algView c" "algView (c\<lparr>snd_max := a\<rparr>) = algView c"
  "algView (c\<lparr>sentBytes := a\<rparr>) = algView c" "algView (c\<lparr>afterRto := b\<rparr>) = algView c"
  "algView (c\<lparr>rexmitQ := q\<rparr>) = algView c" "algView (c\<lparr>highRxt := a\<rparr>) = algView c" "algView (c\<lparr>pipe := a\<rparr>) = algView c"
  "algView (c\<lparr>rexmitTimer := t\<rparr>) = algView c" "algView (c\<lparr>rexmit_count := i\<rparr>) = algView c"
  "algView (c\<lparr>snd_nxt := a, snd_max := b'\<rparr>) = algView c"
  "algView (c\<lparr>time_last_data_sent := s\<rparr>) = algView c" "algView (c\<lparr>rtseq := a, rtseq_sendtime := s\<rparr>) = algView c"
  "algView (emit x c) = algView c"
  by (simp_all add: algView_def coreView_def emit_def)

lemma algView_advanceSndNxt [simp]: "algView (snd (advanceSndNxt w c)) = algView c"
  by (simp add: advanceSndNxt_def Let_def)

lemma keeps_updateRcvWnd [keeps_intros]: "keepsP c (updateRcvWnd c)"
  unfolding updateRcvWnd_def Let_def
  by (intro keeps_bind_any) (auto intro!: keepsP_Inr simp: algView_def coreView_def updateRcvQueueVars_def Let_def)

lemma algView_sacks [simp]:
  "algView (resetSackFlags c) = algView c" "algView (c\<lparr>sacks_array := ss\<rparr>) = algView c" 
  "algView (c\<lparr>sacks_array := ss, snd_sacks := k\<rparr>) = algView c"
  by (simp_all add: algView_def coreView_def resetSackFlags_def)

lemma keeps_attachSacks: "keepsP c (attachSacks seg d ss c)"
  unfolding attachSacks_def Let_def by (auto intro!: keeps_bind_any keepsP_Inr)

lemma keeps_addSacks: "keepsP c (addSacks seg c)"
  unfolding addSacks_def Let_def by (auto intro!: keeps_bind_any keepsP_Inr keeps_attachSacks)

lemma algView_synWriters:
  "algView (snd (writeSynMss p)) = algView (snd p)" "algView (snd (writeSynWs p)) = algView (snd p)"
  "algView (snd (writeSynSackPerm p)) = algView (snd p)" "algView (snd (writeSynTs p)) = algView (snd p)"
  by (cases p; simp add: writeSynMss_def writeSynWs_def writeSynSackPerm_def writeSynTs_def Let_def; simp add: algView_def coreView_def)+

lemma keeps_writeHeaderOptions [keeps_intros]: "keepsP c (writeHeaderOptions seg c)"
proof -
  have syn: "keepsP c (Inr (writeSynTs (writeSynSackPerm (writeSynWs (writeSynMss (seg, c))))))"
    using algView_synWriters by (metis keepsP_Inr prod.collapse snd_conv)
  show ?thesis unfolding writeHeaderOptions_def Let_def
    by (rule keepsP_bindP) (auto intro!: keepsP_Inr syn keeps_addSacks)
qed

lemma keeps_sendToIP [keeps_intros]: "keeps c (sendToIP seg c)"
  unfolding sendToIP_def Let_def by (intro keeps_bind_any keeps_Inr) simp

lemma keeps_ackSent: "keeps c m \<Longrightarrow> keeps c (bindR m (\<lambda>c'. Inr (ackSent c')))"
  by (rule keeps_bind) (simp_all add: keeps_Inr)

lemma keeps_sendAck [keeps_intros]: "keeps c (sendAck c)"
  unfolding sendAck_def Let_def
  apply (rule keeps_bindP [OF keeps_updateRcvWnd])
  apply (simp only: prod.case)
  apply (rule keeps_bindP [OF keeps_writeHeaderOptions])
  apply (simp only: prod.case)
  apply (rule keeps_ackSent [OF keeps_sendToIP])
  done

lemma keeps_sendFin [keeps_intros]: "keeps c (sendFin c)"
  unfolding sendFin_def Let_def
  apply (rule keeps_bindP [OF keeps_updateRcvWnd])
  apply (simp only: prod.case)
  apply (rule keeps_ackSent [OF keeps_sendToIP])
  done

lemma keeps_skipSacked [keeps_intros]: "keeps c (skipSacked c)"
  unfolding skipSacked_def by (auto intro!: keeps_bind_any keeps_Inr)

lemma keeps_registerSent: "keeps c (registerSent n c)"
  unfolding registerSent_def by (auto intro!: keeps_bind_any keeps_Inr)

lemma keeps_transmitSegment: "keeps c (transmitSegment temp seg n c)"
proof -
  have send: "keeps c (bindR (sendToIP s c2) (\<lambda>c3. Inr (requestMoreData c3)))" if "algView c2 = algView c" for s c c2
    unfolding keeps_view(1) [where V = algView, OF that [symmetric]] by (rule keeps_bind [OF keeps_sendToIP]) (simp add: keeps_Inr)
  have adv: "keeps c (case advanceSndNxt n c of (i, c2) \<Rightarrow> bindR (sendToIP (g i) c2) (\<lambda>c3. Inr (requestMoreData c3)))" for c g
    using send algView_advanceSndNxt [where w = n and c = c] by (cases "advanceSndNxt n c") simp
  show ?thesis unfolding transmitSegment_def Let_def
    apply (rule keeps_bindP [OF keeps_updateRcvWnd])
    apply (simp only: prod.case)
    apply (rule keeps_bind_any)
    apply (rule adv)
    done
qed

lemma keeps_sendSegment [keeps_intros]: "keeps c (sendSegment b c)"
proof -
  have reg: "keeps c (bindR (registerSent n (c\<lparr>sentBytes := n\<rparr>)) (transmitSegment temp seg n))" for c n temp seg
    unfolding keeps_view(1) [where V = algView, OF algView_updates(3) [symmetric, of c n]]
    by (rule keeps_bind [OF keeps_registerSent keeps_transmitSegment])
  show ?thesis
    unfolding sendSegment_def Let_def
    apply (rule keeps_bind [OF keeps_skipSacked])
    apply (rule keeps_bindP [OF keeps_writeHeaderOptions])
    apply (simp only: prod.case)
    apply (rule keeps_bind_any)
    apply (rule keeps_bind_any)
    apply (rule reg)
    done
qed

lemma keeps_sendFullSegments: "keepsP c (sendFullSegments fuel n eff c)"
proof (induction fuel arbitrary: n c)
  case 0
  show ?case by (subst sendFullSegments.simps) (simp add: keepsP_Inr)
next
  case (Suc k)
  show ?case by (subst sendFullSegments.simps) (simp add: keepsP_Inr keepsP_bind [OF keeps_sendSegment Suc])
qed

lemma keeps_sendBytes: "keeps c (sendBytes fuel n eff c)"
proof -
  have "keepsP c (bindR (sendSegment m c) (\<lambda>c'. Inr (g c', c')))" for m and g :: "tcp_conn \<Rightarrow> u64"
    by (rule keepsP_bind [OF keeps_sendSegment]) (simp add: keepsP_Inr)
  then show ?thesis unfolding sendBytes_def
    by (intro keeps_bindP) (simp_all add: keeps_sendFullSegments Let_def keeps_Inr keeps_sendSegment)
qed

lemma keeps_scheduleRexmit: "keeps c (scheduleRexmit t c)"
  unfolding scheduleRexmit_def by (intro keeps_bind_any keeps_Inr) simp

lemma keeps_startRexmitTimer [keeps_intros]: "keeps c (startRexmitTimer c)"
  unfolding startRexmitTimer_def by (rule keeps_upd(1) [OF keeps_scheduleRexmit]) simp

lemma keeps_restartRexmitTimer [keeps_intros]: "keeps c (restartRexmitTimer c)"
  unfolding restartRexmitTimer_def
  by (auto intro!: keeps_Inr keeps_upd(1) [OF keeps_startRexmitTimer, of "\<lambda>c. c\<lparr>rexmitTimer := cancelIfScheduled (rexmitTimer c)\<rparr>"])

lemma keeps_dataSent [keeps_intros]: "keeps c (dataSent s c)"
proof -
  have 1: "keeps c (scheduleRexmit 2 (c\<lparr>rexmitTimer := cancelIfScheduled (rexmitTimer c)\<rparr>))"
    by (rule keeps_upd(1) [OF keeps_scheduleRexmit]) simp
  have 2: "keeps c (if \<not> isScheduled (rexmitTimer c) then startRexmitTimer c else Inr c)"
    by (simp add: keeps_Inr keeps_startRexmitTimer)
  show ?thesis unfolding dataSent_def Let_def
    by (cases "isDumb c") (simp_all only: if_True if_False 1, rule keeps_bind [OF 2], simp add: keeps_Inr)
qed


lemma keeps_dataSent_after: "algView d = algView c \<Longrightarrow> keeps c (dataSent s d)"
  "algView d = algView c \<Longrightarrow> keeps c (restartRexmitTimer d)"
  using keeps_dataSent keeps_restartRexmitTimer by (simp_all add: keeps_iff)

lemma keepsP_value: "keeps c m \<Longrightarrow> keepsP c (bindR m (\<lambda>c'. Inr (x, c')))"
  by (rule keepsP_bind) (simp_all add: keepsP_Inr)

lemma keeps_sendData [keeps_intros]: "keepsP c (sendData fuel fo cwnd c)"
proof -
  have "keepsP c0 (bindR (assertR b msg) (\<lambda>_. bindR (sendBytes fuel n eff c0) (\<lambda>c1.
     let c2 = (if seqGreater (snd_nxt c1) (snd_max c1) then c1\<lparr>snd_max := snd_nxt c1\<rparr> else c1); c3 = ackSent c2
     in bindR (if sack_enabled c3 \<and> lossRecovery c3 \<and> oldh \<noteq> highRxt c3
           then restartRexmitTimer c3 else dataSent olds c3) (\<lambda>c4. Inr (True, c4)))))" for c0 b msg n eff oldh olds
    by (rule keeps_bind_any, rule keepsP_bind [OF keeps_sendBytes]) (simp add: Let_def keepsP_value keeps_dataSent_after)
  then have "keepsP (sendStart c) (sendData fuel fo cwnd c)"
    by (simp add: sendData_def sendStart_def [symmetric] Let_def keepsP_Inr)
  then show ?thesis by (rule keeps_upd(2)) (simp add: sendStart_def)
qed

lemma keeps_sendSegment_from: "algView d = algView c \<Longrightarrow> keeps c (sendSegment b d)"
  using keeps_sendSegment by (simp add: keeps_iff)

lemma keeps_sendProbe [keeps_intros]: "keepsP c (sendProbe c)"
  unfolding sendProbe_def Let_def
  by (simp add: keepsP_Inr) (intro impI keepsP_bind [OF keeps_sendSegment_from]; simp add: keepsP_value keeps_dataSent_after)

lemma keeps_sendOneNewSegment [keeps_intros]: "keeps c (sendOneNewSegment fo cwnd c)"
  unfolding sendOneNewSegment_def Let_def
  by (rule keeps_bind_any(1), intro keeps_if keeps_bind [OF keeps_sendSegment_from] keeps_Inr)
    (simp_all add: keeps_dataSent_after)

lemma keeps_resendFin: "keeps c (resendFin c)"
proof -
  let ?d = "c\<lparr>snd_max := getBufferEndSeq (sendQ c), snd_nxt := getBufferEndSeq (sendQ c)\<rparr>"
  have "algView ?d = algView c" by (simp add: algView_def coreView_def)
  then have "keeps c (sendFin ?d)" using keeps_sendFin [of ?d] by (simp add: keeps_iff)
  then show ?thesis unfolding resendFin_def Let_def
    by (rule keeps_bind) (simp add: keeps_Inr)
qed

lemma keeps_retransmitOneSegment [keeps_intros]: "keeps c (retransmitOneSegment rto c)"
proof -
  let ?d = "c\<lparr>snd_nxt := snd_una c\<rparr>"
  have fin: "keeps c (resendFin ?d)" using keeps_resendFin [of ?d] by (simp add: keeps_iff)
  show ?thesis unfolding retransmitOneSegment_def Let_def
    by (simp only: fin if_split simp_thms)
      (intro conjI impI keeps_bind_any(1) keeps_bind [OF keeps_sendSegment_from]; simp add: keeps_Inr)
qed

lemma keeps_retransmitLoop: "keeps c (retransmitLoop fuel n c)"
proof (induction fuel arbitrary: n c)
  case 0
  show ?case by (subst retransmitLoop.simps) (simp add: keeps_Inr)
next
  case (Suc k)
  show ?case by (subst retransmitLoop.simps) (simp add: keeps_Inr Let_def keeps_bind [OF keeps_sendSegment] Suc)
qed

lemma keeps_retransmitData [keeps_intros]: "keeps c (retransmitData fuel c)"
proof -
  let ?d = "c\<lparr>snd_nxt := snd_una c\<rparr>"
  have fin: "keeps c (resendFin ?d)" "keeps c (retransmitLoop fuel n ?d)" for n
    using keeps_resendFin [of ?d] keeps_retransmitLoop [of ?d] by (simp_all add: keeps_iff)
  show ?thesis unfolding retransmitData_def Let_def
    by (simp only: fin if_split simp_thms) (intro conjI impI keeps_bind_any(1) fin)
qed

lemma keeps_setPipe [keeps_intros]: "keeps c (setPipe c)"
  unfolding setPipe_def Let_def by (intro keeps_bind_any(1) keeps_Inr) simp

lemma keeps_nextSeg: "keepsP c (nextSeg c)"
  unfolding nextSeg_def Let_def by (intro keeps_bind_any(2)) (simp add: keepsP_Inr)

lemma keeps_sendSegmentDuringLossRecoveryPhase: "keeps c (sendSegmentDuringLossRecoveryPhase s c)"
  unfolding sendSegmentDuringLossRecoveryPhase_def Let_def
    by (rule keeps_bind_any, rule keeps_bind [OF keeps_sendSegment_from], simp)
      (rule keeps_bind_any, simp add: keeps_dataSent_after)

lemma keeps_lossRecoveryLoop: "keeps c (lossRecoveryLoop fuel w c)"
proof (induction fuel arbitrary: c)
  case 0
  show ?case by (subst lossRecoveryLoop.simps) (simp add: keeps_Inr)
next
  case (Suc k)
  have rec: "keeps x (lossRecoveryLoop k w (x\<lparr>pipe := n\<rparr>))" for x n
    by (rule keeps_upd(1) [OF Suc]) simp
  have step: "keeps c1 (case cand of None \<Rightarrow> Inr c1 | Some s \<Rightarrow> bindR (sendSegmentDuringLossRecoveryPhase s c1)
      (\<lambda>c2. lossRecoveryLoop k w (c2\<lparr>pipe := pipe c2 + sentBytes c2\<rparr>)))" for cand c1
    by (cases cand) (simp_all add: keeps_Inr keeps_bind [OF keeps_sendSegmentDuringLossRecoveryPhase] rec)
  show ?case by (subst lossRecoveryLoop.simps) (simp add: keeps_Inr keeps_bindP [OF keeps_nextSeg] step)
qed

lemma keeps_connLossRecovery [keeps_intros]: "keeps c (connLossRecovery c)"
  unfolding connLossRecovery_def sendDataDuringLossRecoveryPhase_def
  by (simp add: keeps_Inr keeps_bind_any(1) keeps_lossRecoveryLoop)

section \<open>The congestion-control interface\<close>

text \<open>The calls a connection makes on its \<open>TCPAlgorithm\<close> object.\<close>

datatype alg_call =
    CallEstablished bool | CallTimer alg_timer | CallSendCommandInvoked | CallReceivedOutOfOrderSegment
  | CallReceiveSeqChanged | CallReceivedDataAck u32 | CallReceivedDuplicateAck
  | CallReceivedAckForDataNotYetSent u32 | CallRttMeasurementCompleteUsingTS u32

fun algCall :: "alg_call \<Rightarrow> tcp_conn \<Rightarrow> tcp_conn res" where
  "algCall (CallEstablished a) c = algEstablished a c"
| "algCall (CallTimer t) c = bindR (algProcessTimer t TCP_E_IGNORE c) (\<lambda>(e, c'). Inr c')"
| "algCall CallSendCommandInvoked c = algSendCommandInvoked c"
| "algCall CallReceivedOutOfOrderSegment c = algReceivedOutOfOrderSegment c"
| "algCall CallReceiveSeqChanged c = algReceiveSeqChanged c"
| "algCall (CallReceivedDataAck s) c = algReceivedDataAck s c"
| "algCall CallReceivedDuplicateAck c = algReceivedDuplicateAck c"
| "algCall (CallReceivedAckForDataNotYetSent s) c = algReceivedAckForDataNotYetSent s c"
| "algCall (CallRttMeasurementCompleteUsingTS s) c = rttMeasurementCompleteUsingTS s c"

text \<open>
  What every implementation of the interface promises: an invariant of the connection survives any
  call. Between two calls the connection may do anything to the part of its state outside \<open>view\<close>.
\<close>

locale tcp_algorithm =
  fixes inv :: "'c \<Rightarrow> bool" and view :: "'c \<Rightarrow> 'v" and call :: "'a \<Rightarrow> 'c \<Rightarrow> 'c res"
  assumes call_inv: "inv c \<Longrightarrow> okR inv (call a c)"
    and view_inv: "view c = view d \<Longrightarrow> inv c = inv d"
begin

inductive served :: "'c \<Rightarrow> 'c \<Rightarrow> bool" where
  served_refl: "served c c"
| served_call: "served c d \<Longrightarrow> call a d = Inr e \<Longrightarrow> served c e"
| served_other: "served c d \<Longrightarrow> view e = view d \<Longrightarrow> served c e"

lemma served_inv: "served c d \<Longrightarrow> inv c \<Longrightarrow> inv d"
proof (induction rule: served.induct)
  case (served_call c d a e)
  then show ?case using call_inv [of d a] by simp
next
  case (served_other c d e)
  then show ?case using view_inv [of e d] by simp
qed

end

text \<open>
  A predicate on connections that depends only on what sending leaves alone and that survives the
  window and timeout updates of the algorithms survives every call of the interface.
\<close>

locale alg_invariant =
  fixes P :: "tcp_conn \<Rightarrow> bool"
  assumes P_view: "algView c = algView d \<Longrightarrow> P c = P d"
    and P_cwnd [simp]: "P (c\<lparr>snd_cwnd := a\<rparr>) = P c"
    and P_ssthresh [simp]: "P (c\<lparr>ssthresh := a\<rparr>) = P c"
    and P_rtt: "P c \<Longrightarrow> P (rttMeasurementComplete s t c)"
    and P_backoff: "P c \<Longrightarrow> P (backoffRto c)"
    and P_persist: "P c \<Longrightarrow> P (persistBackoff c)"
begin

lemma P_updates [simp]:
  "P (c\<lparr>lossRecovery := b\<rparr>) = P c" "P (c\<lparr>recover := a\<rparr>) = P c" "P (c\<lparr>afterRto := b\<rparr>) = P c"
  "P (c\<lparr>firstPartialACK := b\<rparr>) = P c" "P (c\<lparr>ack_now := b\<rparr>) = P c" "P (c\<lparr>recoveryPoint := a\<rparr>) = P c"
  "P (c\<lparr>delayedAckTimer := t\<rparr>) = P c" "P (c\<lparr>persistTimer := t\<rparr>) = P c" "P (c\<lparr>rexmitTimer := t\<rparr>) = P c"
  "P (c\<lparr>persist_factor := a\<rparr>) = P c" "P (c\<lparr>rexmit_count := i\<rparr>) = P c" "P (emit x c) = P c"
  by (rule P_view; simp add: algView_def coreView_def emit_def)+

lemma P_recalculate [simp]: "P (recalculateSlowStartThreshold c) = P c"
  by (simp add: recalculateSlowStartThreshold_def)

lemma P_measureRtt: "P c \<Longrightarrow> P (measureRtt c)"
  using P_rtt [of c "rtseq_sendtime c" "now c"]
    P_view [of "(rttMeasurementComplete (rtseq_sendtime c) (now c) c)\<lparr>rtseq_sendtime := 0\<rparr>" "rttMeasurementComplete (rtseq_sendtime c) (now c) c"]
  by (simp add: measureRtt_def algView_def coreView_def)

lemma P_restartIdle: "P (restartIdle c) = P c"
  by (simp add: restartIdle_def)

lemma okR_keeps: "keeps c m \<Longrightarrow> P c \<Longrightarrow> okR P m"
  unfolding keeps_iff okR_iff using P_view by blast

lemma okR_keepsP: "keepsP c m \<Longrightarrow> P c \<Longrightarrow> okR (\<lambda>(e, c'). P c') m"
  unfolding keeps_iff okR_iff using P_view by blast

lemma okR_connSendData: "P c \<Longrightarrow> okR (\<lambda>(e, c'). P c') (connSendData fo w c)"
  unfolding connSendData_def by (rule okR_keepsP [OF keeps_sendData])

lemma okR_algSendData: "P c \<Longrightarrow> okR (\<lambda>(e, c'). P c') (algSendData b c)"
  unfolding algSendData_def Let_def by (rule okR_connSendData) (simp add: P_restartIdle)

lemma okR_trySend: "P c \<Longrightarrow> okR P (trySend b c)"
  unfolding trySend_def by (rule okR_bindI [OF okR_algSendData]) auto

lemma okR_schedulePersist: "P c \<Longrightarrow> okR P (schedulePersist c)"
  unfolding schedulePersist_def by (rule okR_bindI [where Q = "\<lambda>_. True"]) (auto simp: okR_iff)

lemma okR_baseReceivedDataAck: "P c \<Longrightarrow> okR P (baseReceivedDataAck s c)"
proof -
  assume "P c"
  then have m: "P (measureRtt c)" by (rule P_measureRtt)
  have 1: "okR P (manageRexmitTimer d)" if "P d" for d
  proof -
    have "okR P (bindR (cancelEvent (rexmitTimer d)) (\<lambda>t. startRexmitTimer (d\<lparr>rexmitTimer := t\<rparr>)))"
      by (cases "rexmitTimer d = NoTimer") (simp_all add: cancelEvent_def okR_keeps [OF keeps_startRexmitTimer] that)
    then show ?thesis using that by (simp add: manageRexmitTimer_def)
  qed
  have 2: "okR P (managePersistTimer d)" if "P d" for d
    unfolding managePersistTimer_def using that okR_schedulePersist [OF that] by simp
  show ?thesis unfolding baseReceivedDataAck_def by (rule okR_bindI [OF 1 [OF m] 2])
qed

lemma okR_growCwnd: "P c \<Longrightarrow> okR P (growCwnd c)"
  by (simp add: growCwnd_def Let_def)

lemma okR_baseReceivedDuplicateAck: "P c \<Longrightarrow> okR P (baseReceivedDuplicateAck c)"
  unfolding baseReceivedDuplicateAck_def Let_def using okR_keeps [OF keeps_sendOneNewSegment] by simp

lemma okR_dataAck:
  assumes "P c"
  shows "okR P (tahoeReceivedDataAck s c)" "okR P (renoReceivedDataAck s c)"
    "okR P (newRenoReceivedDataAck s c)" "okR P (noCCReceivedDataAck s c)"
proof -
  note base = okR_baseReceivedDataAck [OF assms, of s]
  have partial: "okR P (newRenoPartialAck s d)" if "P d" for d
    unfolding newRenoPartialAck_def Let_def
    by (rule okR_bindI [OF okR_keeps [OF keeps_retransmitOneSegment that]], rule okR_bindI [OF okR_trySend])
      (simp_all add: okR_keeps [OF keeps_restartRexmitTimer])
  have pipe: "okR P (bindR (setPipe d) connLossRecovery)" if "P d" for d
    by (rule okR_bindI [OF okR_keeps [OF keeps_setPipe that] okR_keeps [OF keeps_connLossRecovery]])
  show "okR P (tahoeReceivedDataAck s c)" unfolding tahoeReceivedDataAck_def
    by (rule okR_bindI [OF base], rule okR_bindI [OF okR_growCwnd okR_trySend])
  show "okR P (noCCReceivedDataAck s c)" unfolding noCCReceivedDataAck_def
    by (rule okR_bindI [OF base okR_trySend])
  show "okR P (renoReceivedDataAck s c)" unfolding renoReceivedDataAck_def
    by (rule okR_bindI [OF base], rule okR_bindI [where Q = P], simp add: okR_growCwnd,
        rule okR_bindI [OF _ okR_trySend]) (simp_all add: pipe)
  show "okR P (newRenoReceivedDataAck s c)" unfolding newRenoReceivedDataAck_def
    by (rule okR_bindI [OF base], rule okR_bindI [OF _ okR_trySend])
      (auto simp: partial intro!: okR_bindI [OF okR_growCwnd])
qed

lemma okR_dupAck:
  assumes "P c"
  shows "okR P (tahoeReceivedDuplicateAck c)" "okR P (renoReceivedDuplicateAck c)"
    "okR P (newRenoReceivedDuplicateAck c)"
proof -
  note base = okR_baseReceivedDuplicateAck [OF assms]
  have fast: "okR P (retransmitOneSegment b d)" if "P d" for b d
    by (rule okR_keeps [OF keeps_retransmitOneSegment that])
  have sackPart: "okR P (bindR (setPipe d) (\<lambda>c4. if lossRecovery c4 then bindR (restartRexmitTimer c4) connLossRecovery else Inr c4))"
    if "P d" for d
    by (rule okR_bindI [OF okR_keeps [OF keeps_setPipe that]])
      (auto intro!: okR_bindI [OF okR_keeps [OF keeps_restartRexmitTimer] okR_keeps [OF keeps_connLossRecovery]])
  have reno: "okR P (renoFastRetransmit d)" if "P d" for d
    unfolding renoFastRetransmit_def Let_def
    by (rule okR_bindI [OF fast], use that in \<open>simp\<close>, rule okR_bindI [OF _ okR_trySend]) (simp_all add: sackPart)
  show "okR P (tahoeReceivedDuplicateAck c)" unfolding tahoeReceivedDuplicateAck_def Let_def
    by (rule okR_bindI [OF base]) (simp add: fast)
  show "okR P (renoReceivedDuplicateAck c)" unfolding renoReceivedDuplicateAck_def
    by (rule okR_bindI [OF base]) (simp add: reno okR_trySend)
  show "okR P (newRenoReceivedDuplicateAck c)" unfolding newRenoReceivedDuplicateAck_def Let_def
    by (rule okR_bindI [OF base]) (auto simp: okR_trySend intro!: okR_bindI [OF fast okR_trySend])
qed

lemma okR_baseProcessRexmitTimer: "P c \<Longrightarrow> okR (\<lambda>(e, c'). P c') (baseProcessRexmitTimer ev c)"
proof -
  assume r: "P c"
  let ?d = "backoffRto (c\<lparr>rexmit_count := rexmit_count c + 1\<rparr>)"
  have "P ?d" using r by (intro P_backoff) simp
  then have s: "okR P (scheduleRexmit t ?d)" for t by (rule okR_keeps [OF keeps_scheduleRexmit])
  have reset: "P (resetAfterTimeout x)" if "P x" for x
    using that by (subst P_view [of _ x]) (simp_all add: resetAfterTimeout_def Let_def algView_def coreView_def)
  have "okR (\<lambda>(e, c'). P c') (bindR (scheduleRexmit t ?d) (\<lambda>c2. Inr (ev, resetAfterTimeout c2)))" for t
    by (rule okR_bindI [OF s]) (simp add: reset)
  then show ?thesis using r
    by (simp add: baseProcessRexmitTimer_def Let_def signalConnectionTimeout_def sendIndicationToApp_def)
qed

lemma okR_slowStartAfterRto: "P c \<Longrightarrow> okR P (slowStartAfterRto c)"
  unfolding slowStartAfterRto_def Let_def by (rule okR_keeps [OF keeps_retransmitOneSegment]) simp

lemma okR_rexmitTimers:
  assumes "P c"
  shows "okR (\<lambda>(e, c'). P c') (tahoeProcessRexmitTimer ev c)" "okR (\<lambda>(e, c'). P c') (renoProcessRexmitTimer ev c)"
    "okR (\<lambda>(e, c'). P c') (newRenoProcessRexmitTimer ev c)" "okR (\<lambda>(e, c'). P c') (noCCProcessRexmitTimer ev c)"
proof -
  note base = okR_baseProcessRexmitTimer [OF assms, of ev]
  have step: "okR (\<lambda>(e, c'). P c') (bindR (baseProcessRexmitTimer ev c) (\<lambda>(e, c1).
      if e = TCP_E_ABORT then Inr (e, c1) else bindR (g c1) (\<lambda>c2. Inr (e, c2))))"
    if "\<And>x. P x \<Longrightarrow> okR P (g x)" for g
  proof (rule okR_bindI [OF base], clarsimp simp: that)
    fix e x assume "P x"
    show "okR (\<lambda>(e, c'). P c') (bindR (g x) (\<lambda>c2. Inr (e, c2)))"
      by (rule okR_bindI [OF that [OF \<open>P x\<close>]]) simp
  qed
  show "okR (\<lambda>(e, c'). P c') (tahoeProcessRexmitTimer ev c)" "okR (\<lambda>(e, c'). P c') (renoProcessRexmitTimer ev c)"
    "okR (\<lambda>(e, c'). P c') (newRenoProcessRexmitTimer ev c)" "okR (\<lambda>(e, c'). P c') (noCCProcessRexmitTimer ev c)"
    unfolding tahoeProcessRexmitTimer_def renoProcessRexmitTimer_def newRenoProcessRexmitTimer_def noCCProcessRexmitTimer_def
    by (rule step; simp add: okR_slowStartAfterRto okR_keeps [OF keeps_retransmitOneSegment])+
qed

lemma okR_snd: "okR P m \<Longrightarrow> okR (\<lambda>(e, c'). P c') (bindR m (\<lambda>c'. Inr (e, c')))"
  by (erule okR_bindI) simp

lemma okR_drop: "okR (\<lambda>(e, c'). P c') m \<Longrightarrow> okR P (bindR m (\<lambda>(e, c'). Inr c'))"
  by (erule okR_bindI) auto

lemma okR_processPersistTimer: "P c \<Longrightarrow> okR P (processPersistTimer c)"
proof -
  assume "P c"
  then have "okR P (schedulePersist (persistBackoff c))" by (intro okR_schedulePersist P_persist)
  moreover have "okR (\<lambda>(e, c'). P c') (sendProbe d)" if "P d" for d
    by (rule okR_keepsP [OF keeps_sendProbe that])
  ultimately show ?thesis unfolding processPersistTimer_def by (rule okR_bindI [OF _ okR_drop])
qed

lemma okR_sendAck: "P c \<Longrightarrow> okR P (sendAck c)"
  by (rule okR_keeps [OF keeps_sendAck])

lemma okR_established:
  assumes "P c"
  shows "okR P (baseEstablished a c)" "okR P (dumbEstablished a c)"
proof -
  have sent: "okR P (bindR m (\<lambda>(sent, c2). if \<not> sent then sendAck c2 else Inr c2))"
    if "okR (\<lambda>(e, c'). P c') m" for m
    by (rule okR_bindI [OF that]) (auto simp: okR_sendAck)
  show "okR P (baseEstablished a c)" "okR P (dumbEstablished a c)"
    using assms by (simp_all add: baseEstablished_def dumbEstablished_def Let_def sent okR_algSendData okR_connSendData)
qed

lemma okR_dumb:
  assumes "P c"
  shows "okR P (dumbSend c)" "okR P (dumbProcessTimer t c)"
proof -
  show "okR P (dumbSend c)" unfolding dumbSend_def by (rule okR_drop [OF okR_connSendData [OF assms]])
  have "okR P (bindR (connRetransmitData c) (scheduleRexmit 2))"
    unfolding connRetransmitData_def
    by (rule okR_bindI [OF okR_keeps [OF keeps_retransmitData assms] okR_keeps [OF keeps_scheduleRexmit]])
  then show "okR P (dumbProcessTimer t c)" by (simp add: dumbProcessTimer_def)
qed

lemma okR_baseReceiveSeqChanged: "P c \<Longrightarrow> okR P (baseReceiveSeqChanged c)"
proof -
  have "okR P (bindR m (\<lambda>t. Inr (d\<lparr>delayedAckTimer := t\<rparr>)))" if "P d" for m d
    using that by (cases m) simp_all
  then show "P c \<Longrightarrow> okR P (baseReceiveSeqChanged c)"
    by (simp add: baseReceiveSeqChanged_def Let_def okR_sendAck)
qed

lemma okR_rttUsingTS: "P c \<Longrightarrow> okR P (rttMeasurementCompleteUsingTS s c)"
  by (simp add: rttMeasurementCompleteUsingTS_def assertR_def P_rtt)

lemma algCall_inv: "P c \<Longrightarrow> okR P (algCall a c)"
proof -
  assume r: "P c"
  have dispatch: "okR P (withAlg c f)" if "\<And>fl. okR P (f fl)" for f
    using that by (simp add: withAlg_def split: option.split)
  have dispatchP: "okR (\<lambda>(e, c'). P c') (withAlg c f)" if "\<And>fl. okR (\<lambda>(e, c'). P c') (f fl)" for f
    using that by (simp add: withAlg_def split: option.split)
  have rex: "okR (\<lambda>(e, c'). P c') (algProcessRexmitTimer ev c)" for ev
    unfolding algProcessRexmitTimer_def
    by (rule dispatchP) (simp add: okR_rexmitTimers [OF r] okR_snd [OF okR_dumb(2) [OF r]] split: flavour.split)
  have timer: "okR (\<lambda>(e, c'). P c') (algProcessTimer t ev c)" for t ev
    unfolding algProcessTimer_def
    by (rule dispatchP) (simp add: rex okR_snd okR_dumb(2) [OF r] okR_processPersistTimer processDelayedAckTimer_def
        processKeepAliveTimer_def okR_sendAck r split: alg_timer.split)
  show ?thesis
    by (cases a)
      (simp_all add: algEstablished_def algSendCommandInvoked_def algReceivedOutOfOrderSegment_def algReceiveSeqChanged_def
        algReceivedDataAck_def algReceivedDuplicateAck_def algReceivedAckForDataNotYetSent_def okR_rttUsingTS
        baseReceivedOutOfOrderSegment_def dispatch okR_drop [OF timer] okR_established okR_dumb okR_trySend okR_sendAck
        okR_baseReceiveSeqChanged okR_dataAck okR_dupAck okR_baseReceivedDuplicateAck r split: flavour.split)
qed

end

text \<open>The contract of the algorithms is a case of the general interface.\<close>

sublocale alg_invariant \<subseteq> calls: tcp_algorithm P algView algCall
  by unfold_locales (fact algCall_inv, fact P_view)

section \<open>The retransmission timeout stays in its bounds\<close>

definition rtoOk :: "tcp_conn \<Rightarrow> bool" where
  "rtoOk c \<longleftrightarrow> MIN_REXMIT_TIMEOUT \<le> rexmit_timeout c \<and> rexmit_timeout c \<le> MAX_REXMIT_TIMEOUT"

interpretation rtoInv: alg_invariant rtoOk
proof
  show "algView c = algView d \<Longrightarrow> rtoOk c = rtoOk d" for c d by (simp add: algView_def rtoOk_def)
qed (auto simp: rtoOk_def rttMeasurementComplete_def backoffRto_def persistBackoff_def Let_def)

interpretation rto: tcp_algorithm rtoOk rexmit_timeout algCall
  by unfold_locales (auto intro: rtoInv.algCall_inv simp: rtoOk_def)

section \<open>Congestion control touches nothing else\<close>

lemma coreView_updates [simp]:
  "coreView (c\<lparr>snd_cwnd := a\<rparr>) = coreView c" "coreView (c\<lparr>ssthresh := a\<rparr>) = coreView c"
  "coreView (rttMeasurementComplete s t c) = coreView c" "coreView (backoffRto c) = coreView c"
  "coreView (persistBackoff c) = coreView c"
  by (simp_all add: coreView_def rttMeasurementComplete_def backoffRto_def persistBackoff_def Let_def)

interpretation core: alg_invariant "\<lambda>c. coreView c = v" for v
  by unfold_locales (simp_all add: algView_def)

lemma algCall_core: "keepsF coreView c (algCall a c)"
  unfolding keepsF_def by (rule core.algCall_inv) (rule refl)

section \<open>Retransmission of one segment\<close>

lemma sendFin_returns:
  assumes "\<not> ws_enabled c" "off (rcv_nxt c) (rcv_adv c) \<le> 65535"
  shows "\<exists>c'. sendFin c = Inr c'"
proof -
  obtain w c1 where "updateRcvWnd c = Inr (w, c1)" using updateRcvWnd_unscaled [OF assms] by blast
  then show ?thesis by (simp add: sendFin_def sendToIP_def newSegment_def)
qed

text \<open>Without SACK, and with data or a FIN outstanding, one segment can always be sent again.\<close>

lemma retransmitOneSegment_returns:
  assumes r: "sendReady (c\<lparr>snd_nxt := snd_una c\<rparr>)" and out: "snd_una c \<noteq> snd_max c"
    and fin: "snd_una c = sq_end (sendQ c) \<longrightarrow> finPending c"
  shows "\<exists>c'. retransmitOneSegment rto c = Inr c'"
proof -
  let ?d = "c\<lparr>snd_nxt := snd_una c\<rparr>"
  let ?av = "getBytesAvailable (sendQ ?d) (snd_nxt ?d)"
  define b where "b = min (ucast (min (snd_mss ?d) (snd_max ?d - snd_nxt ?d))) ?av"
  have u: "unat ?av = unsent ?d" by (rule getBytesAvailable_unsent [OF r])
  have sack: "\<not> sack_enabled ?d" "\<not> ws_enabled ?d" "off (rcv_nxt ?d) (rcv_adv ?d) \<le> 65535" using r by (simp_all add: sendReady_def)
  have m: "snd_mss c \<noteq> 0" using r by (auto simp: sendReady_def)
  have bz: "b = 0 \<longleftrightarrow> snd_una c = sq_end (sendQ c)"
  proof -
    have "unat (min (snd_mss c) (snd_max c - snd_una c)) \<noteq> 0" using m out by (auto simp: min_def unat_eq_zero)
    moreover have "unat b = min (unat (min (snd_mss c) (snd_max c - snd_una c))) (unsent ?d)"
      unfolding b_def u [symmetric] by (simp add: min_def word_le_nat_alt)
    moreover have "unsent ?d = 0 \<longleftrightarrow> snd_una c = sq_end (sendQ c)" by (auto simp: unsent_def)
    ultimately show ?thesis by (metis min_0R min_def unat_eq_zero)
  qed
  show ?thesis
  proof (cases "b = 0")
    case True
    then have "finPending ?d" using bz fin by (simp add: finPending_def)
    moreover have "\<exists>c'. resendFin ?d = Inr c'"
      using sendFin_returns [of "?d\<lparr>snd_max := getBufferEndSeq (sendQ ?d), snd_nxt := getBufferEndSeq (sendQ ?d)\<rparr>"] sack
      by (auto simp: resendFin_def Let_def)
    ultimately show ?thesis using True by (simp add: retransmitOneSegment_def Let_def b_def [simplified])
  next
    case False
    obtain c1 where "sendSegment (ucast b) ?d = Inr c1" using sendSegment_plain [OF r] by blast
    then show ?thesis using False by (simp add: retransmitOneSegment_def Let_def b_def [simplified])
  qed
qed

section \<open>Properties\<close>

text \<open>
  C32: the retransmission timeout stays between one second and four minutes, through every call of the
  congestion-control interface, by any flavour, in any order, whatever else the connection does to
  its other variables in between.
\<close>

theorem rto_stays_bounded:
  assumes "rto.served c d" "rtoOk c"
  shows "MIN_REXMIT_TIMEOUT \<le> rexmit_timeout d \<and> rexmit_timeout d \<le> MAX_REXMIT_TIMEOUT"
  using rto.served_inv [OF assms] by (simp add: rtoOk_def)

lemma rto_sample: "rto.served ((sampleConn TCP_S_ESTABLISHED)\<lparr>rexmit_timeout := 3\<rparr>)
    (rttMeasurementComplete 0 1000 ((sampleConn TCP_S_ESTABLISHED)\<lparr>rexmit_timeout := 3, ts_enabled := True, now := 1000\<rparr>))"
proof -
  let ?c = "(sampleConn TCP_S_ESTABLISHED)\<lparr>rexmit_timeout := 3\<rparr>"
  let ?d = "?c\<lparr>ts_enabled := True, now := 1000\<rparr>"
  have "rto.served ?c ?d" by (rule rto.served_other [OF rto.served_refl]) simp
  moreover have "algCall (CallRttMeasurementCompleteUsingTS 0) ?d = Inr (rttMeasurementComplete 0 1000 ?d)"
    by (simp add: rttMeasurementCompleteUsingTS_def isDumb_def sampleConn_def convertTSToSimtime_def convertSimtimeToTS_def)
  ultimately show ?thesis using rto.served_call by fastforce
qed

theorem rto_stays_bounded_witness:
  "rexmit_timeout (rttMeasurementComplete 0 1000 ((sampleConn TCP_S_ESTABLISHED)\<lparr>rexmit_timeout := 3, ts_enabled := True, now := 1000\<rparr>)) \<le> 240"
  using rto_stays_bounded [OF rto_sample] by (simp add: rtoOk_def)

lemma slowStart_view:
  assumes "slowStartAfterRto d = Inr c'"
  shows "snd_cwnd c' = snd_mss d" "ssthresh c' = max (min (snd_cwnd d) (snd_wnd d) div 2) (2 * snd_mss d)"
    "rexmit_timeout c' = rexmit_timeout d"
proof -
  let ?e = "(recalculateSlowStartThreshold d)\<lparr>snd_cwnd := snd_mss d, afterRto := True\<rparr>"
  have m: "snd_mss (recalculateSlowStartThreshold d) = snd_mss d" by (simp add: recalculateSlowStartThreshold_def)
  have "retransmitOneSegment True ?e = Inr c'" using assms by (simp add: slowStartAfterRto_def Let_def m)
  from keeps_D(1) [OF keeps_retransmitOneSegment this]
  show "snd_cwnd c' = snd_mss d" "ssthresh c' = max (min (snd_cwnd d) (snd_wnd d) div 2) (2 * snd_mss d)"
    "rexmit_timeout c' = rexmit_timeout d"
    by (simp_all add: algView_def coreView_def recalculateSlowStartThreshold_def)
qed

definition rexmitReady :: "tcp_conn \<Rightarrow> bool" where
  "rexmitReady c \<longleftrightarrow> sendReady (c\<lparr>snd_nxt := snd_una c\<rparr>) \<and> snd_una c \<noteq> snd_max c \<and>
     (snd_una c = sq_end (sendQ c) \<longrightarrow> finPending c) \<and> rexmitTimer c = IdleTimer"

lemma baseProcessRexmitTimer_returns:
  assumes "rexmitReady c" "rexmit_count c < MAX_REXMIT_COUNT"
  shows "\<exists>d. baseProcessRexmitTimer ev c = Inr (ev, d) \<and> rexmit_timeout d = min 240 (2 * rexmit_timeout c) \<and>
     snd_cwnd d = snd_cwnd c \<and> snd_wnd d = snd_wnd c \<and> snd_mss d = snd_mss c \<and> isScheduled (rexmitTimer d) \<and>
     sendReady (d\<lparr>snd_nxt := snd_una d\<rparr>) \<and> snd_una d \<noteq> snd_max d \<and> (snd_una d = sq_end (sendQ d) \<longrightarrow> finPending d)"
  using assms
  by (auto simp: baseProcessRexmitTimer_def Let_def backoffRto_def scheduleRexmit_def scheduleAt_def rexmitReady_def
      resetAfterTimeout_def sendReady_def finPending_def)

lemma sendReady_slowStart:
  "sendReady (d\<lparr>snd_nxt := snd_una d\<rparr>) \<Longrightarrow>
     sendReady (d\<lparr>ssthresh := s, snd_cwnd := w, afterRto := b, snd_nxt := snd_una d\<rparr>)"
  by (simp add: sendReady_def)

lemma slowStartAfterRto_returns:
  assumes "sendReady (d\<lparr>snd_nxt := snd_una d\<rparr>)" "snd_una d \<noteq> snd_max d" "snd_una d = sq_end (sendQ d) \<longrightarrow> finPending d"
  shows "\<exists>c'. slowStartAfterRto d = Inr c'"
  unfolding slowStartAfterRto_def Let_def recalculateSlowStartThreshold_def
  by (rule retransmitOneSegment_returns) (use assms in \<open>simp_all add: sendReady_def finPending_def\<close>)

lemma rexmitTimeout_backoff_abort:
  assumes "MAX_REXMIT_COUNT \<le> rexmit_count c"
  shows "baseProcessRexmitTimer ev c = Inr (TCP_E_ABORT, signalConnectionTimeout (c\<lparr>rexmit_count := rexmit_count c + 1\<rparr>))"
  using assms by (simp add: baseProcessRexmitTimer_def Let_def)

text \<open>
  A retransmission timeout of Tahoe, Reno or NewReno without SACK, with data or a FIN
  outstanding. Up to twelve times the handler retransmits: the timeout is doubled up to four minutes,
  \<open>ssthresh\<close> becomes half the smaller of the two windows but at least two segments, the congestion
  window one segment, and the timer event is passed on unchanged. The next time it gives up: the
  application is told of the timeout and the connection is to be aborted.
\<close>

lemma rexmitTimeout_backoff:
  assumes fl: "tcpAlgorithm c \<in> {Some TCPTahoe, Some TCPReno, Some TCPNewReno}" and rdy: "rexmitReady c"
    and ev: "ev \<noteq> TCP_E_ABORT"
  shows "(rexmit_count c < MAX_REXMIT_COUNT \<longrightarrow> (\<exists>c'. algProcessTimer REXMIT ev c = Inr (ev, c') \<and>
       rexmit_timeout c' = min 240 (2 * rexmit_timeout c) \<and> snd_cwnd c' = snd_mss c \<and>
       ssthresh c' = max (min (snd_cwnd c) (snd_wnd c) div 2) (2 * snd_mss c))) \<and>
     (MAX_REXMIT_COUNT \<le> rexmit_count c \<longrightarrow> (\<exists>c'. algProcessTimer REXMIT ev c = Inr (TCP_E_ABORT, c') \<and>
       actions c' = actions c @ [Indicate TCP_I_TIMED_OUT 0]))"
proof (intro conjI impI)
  assume "rexmit_count c < MAX_REXMIT_COUNT"
  from baseProcessRexmitTimer_returns [OF rdy this, of ev] obtain d where
    d: "baseProcessRexmitTimer ev c = Inr (ev, d)" "rexmit_timeout d = min 240 (2 * rexmit_timeout c)"
      "snd_cwnd d = snd_cwnd c" "snd_wnd d = snd_wnd c" "snd_mss d = snd_mss c"
      "sendReady (d\<lparr>snd_nxt := snd_una d\<rparr>)" "snd_una d \<noteq> snd_max d" "snd_una d = sq_end (sendQ d) \<longrightarrow> finPending d" by blast
  define e where "e = (if tcpAlgorithm c = Some TCPNewReno
      then d\<lparr>recover := snd_max d - 1, lossRecovery := False, firstPartialACK := False\<rparr> else d)"
  have alg: "algProcessTimer REXMIT ev c = bindR (slowStartAfterRto e) (\<lambda>c2. Inr (ev, c2))"
    using fl ev d(1) by (auto simp: algProcessTimer_def algProcessRexmitTimer_def withAlg_def tahoeProcessRexmitTimer_def
        renoProcessRexmitTimer_def newRenoProcessRexmitTimer_def e_def)
  have "sendReady (e\<lparr>snd_nxt := snd_una e\<rparr>)" "snd_una e \<noteq> snd_max e" "snd_una e = sq_end (sendQ e) \<longrightarrow> finPending e"
    using d(6-8) by (simp_all add: e_def sendReady_def finPending_def)
  from slowStartAfterRto_returns [OF this] obtain c' where c': "slowStartAfterRto e = Inr c'" by blast
  have "snd_mss e = snd_mss c" "snd_cwnd e = snd_cwnd c" "snd_wnd e = snd_wnd c" "rexmit_timeout e = rexmit_timeout d"
    using d by (simp_all add: e_def)
  then show "\<exists>c'. algProcessTimer REXMIT ev c = Inr (ev, c') \<and>
       rexmit_timeout c' = min 240 (2 * rexmit_timeout c) \<and> snd_cwnd c' = snd_mss c \<and>
       ssthresh c' = max (min (snd_cwnd c) (snd_wnd c) div 2) (2 * snd_mss c)"
    using alg c' slowStart_view [OF c'] d(2) by simp
next
  assume "MAX_REXMIT_COUNT \<le> rexmit_count c"
  note b = rexmitTimeout_backoff_abort [OF this, of ev]
  show "\<exists>c'. algProcessTimer REXMIT ev c = Inr (TCP_E_ABORT, c') \<and> actions c' = actions c @ [Indicate TCP_I_TIMED_OUT 0]"
    using fl b by (auto simp: algProcessTimer_def algProcessRexmitTimer_def withAlg_def tahoeProcessRexmitTimer_def
        renoProcessRexmitTimer_def newRenoProcessRexmitTimer_def signalConnectionTimeout_def sendIndicationToApp_def)
qed

lemma sampleSender_rexmit: "rexmitReady ((sampleSender TCP_S_ESTABLISHED)\<lparr>snd_max := 1536, rexmitTimer := IdleTimer\<rparr>)"
  by (simp add: rexmitReady_def sampleSender_def sendReady_def finPending_def seqLE_def)

text \<open>
  Growth of the congestion window. For an ACK of new data outside recovery the window grows, by at
  most one segment and without wrap-around, by exactly one segment in slow start, and never past
  what \<open>MSS * MSS / cwnd\<close> (at least one byte) gives in congestion avoidance.
\<close>

lemma growCwnd_bounds:
  assumes mss: "0 < snd_mss c" "snd_mss c \<le> 65535" and w: "snd_mss c \<le> snd_cwnd c"
    and nw: "unat (snd_cwnd c) + unat (snd_mss c) < 2 ^ 32"
  shows "\<exists>c'. growCwnd c = Inr c' \<and> unat (snd_cwnd c) < unat (snd_cwnd c') \<and>
     unat (snd_cwnd c') \<le> unat (snd_cwnd c) + unat (snd_mss c) \<and>
     (snd_cwnd c < ssthresh c \<longrightarrow> unat (snd_cwnd c') = unat (snd_cwnd c) + unat (snd_mss c)) \<and>
     (ssthresh c \<le> snd_cwnd c \<longrightarrow>
        unat (snd_cwnd c') = unat (snd_cwnd c) + max 1 (unat (snd_mss c) ^ 2 div unat (snd_cwnd c)))"
proof -
  let ?m = "unat (snd_mss c)" and ?w = "unat (snd_cwnd c)"
  have m: "0 < ?m" "?m \<le> 65535" "?m \<le> ?w" using mss w by (simp_all add: word_le_nat_alt word_less_nat_alt)
  have sq: "unat (snd_mss c * snd_mss c) = ?m * ?m"
  proof -
    have "?m * ?m \<le> 65535 * 65535" using m by (intro mult_le_mono) auto
    then show ?thesis by (intro unat_mult_lem [THEN iffD1]) simp
  qed
  define incr where "incr = snd_mss c * snd_mss c div snd_cwnd c"
  have i: "unat incr = ?m ^ 2 div ?w" by (simp add: incr_def unat_div sq power2_eq_square)
  have le: "?m ^ 2 div ?w \<le> ?m"
    using m by (metis div_le_mono2 div_mult_self_is_m dual_order.strict_trans1 power2_eq_square)
  let ?d = "if incr = 0 then 1 else incr"
  have d: "unat ?d = max 1 (?m ^ 2 div ?w)" "unat ?d \<le> ?m" "0 < unat ?d"
    using i le m by (auto simp: max_def unat_eq_zero [symmetric])
  have plus: "unat (snd_cwnd c + x) = ?w + unat x" if "unat x \<le> ?m" for x
    by (rule unat_add_lem [THEN iffD1]) (use that nw in simp)
  have nz: "snd_cwnd c \<noteq> 0" using m by auto
  show ?thesis
    using plus [of "snd_mss c"] plus [of ?d] d m nz
    by (auto simp: growCwnd_def Let_def incr_def [symmetric] not_less)
qed

text \<open>
  \<open>TCPNoCongestionControl\<close> has a congestion window after all. Its \<open>initialize\<close> sets the window to
  a practically infinite value, but \<open>established\<close> of the base class sets it back to one segment when
  the connection opens.
\<close>

lemma noCongestionControl_window:
  assumes "tcpAlgorithm c = Some TCPNoCongestionControl" "\<not> increased_IW_enabled c"
  shows "\<exists>c1 c2. algInitialize c = Inr c1 \<and> snd_cwnd c1 = 0x7fffffff \<and>
     algEstablished False c1 = Inr c2 \<and> snd_cwnd c2 = snd_mss c"
  using assms
  by (simp add: algInitialize_def withAlg_def noCCInitialize_def baseInitialize_def algEstablished_def baseEstablished_def)

text \<open>
  The persist interval is not kept between 5 and 60 seconds. The two clamps assign
  \<open>rexmit_timeout\<close> instead: the first back-offs wait 1.5 and 3 seconds, the late ones 96 seconds, and
  the retransmission timeout is overwritten with 5 or 60 seconds.
\<close>

lemma persist_clamp_misplaced:
  "(persist_factor c = 0 \<longrightarrow> persist_timeout (persistBackoff c) = 3 / 2 \<and> rexmit_timeout (persistBackoff c) = MIN_PERSIST_TIMEOUT) \<and>
   (persist_factor c = 1 \<longrightarrow> persist_timeout (persistBackoff c) = 3 \<and> rexmit_timeout (persistBackoff c) = MIN_PERSIST_TIMEOUT) \<and>
   (persist_factor c = 64 \<longrightarrow> persist_timeout (persistBackoff c) = 96 \<and> rexmit_timeout (persistBackoff c) = MAX_PERSIST_TIMEOUT)"
  by (simp add: persistBackoff_def Let_def)

text \<open>
  Deflation at a partial ACK can wrap around. When NewReno's partial ACK covers more than the
  congestion window and one segment, subtracting the bytes acknowledged from the unsigned window leaves
  a window of nearly \<open>2^32\<close> bytes instead of a small one.
\<close>

lemma partialAck_wraps:
  assumes "mss \<le> acked" "unat cwnd + unat mss < unat acked"
  shows "unat (partialAckCwnd cwnd acked mss) = 2 ^ 32 - (unat acked - (unat cwnd + unat mss))"
proof -
  have a: "unat acked < 2 ^ 32" using unsigned_less [of acked, where ?'a = nat] by simp
  have s: "unat (cwnd + mss) = unat cwnd + unat mss" by (rule unat_add_lem [THEN iffD1]) (use assms a in simp)
  have "partialAckCwnd cwnd acked mss = cwnd + mss - acked" using assms(1) by (simp add: partialAckCwnd_def)
  moreover have "unat ((cwnd + mss) - acked) = 2 ^ 32 + unat (cwnd + mss) - unat acked"
    using assms(2) s by (subst unat_sub_if_size) (simp add: word_size)
  ultimately show ?thesis using assms a s by simp
qed

end
