(* ===== verification/Tcp_Rcv.thy ===== *)
theory Tcp_Rcv
  imports Tcp_Alg
begin

text \<open>
  Segments that arrive on a synchronized connection
  (\<open>src/inet/transportlayer/tcp/TCPConnectionRcvSegment.cc\<close>: \<open>processSegment1stThru8th\<close>,
  \<open>processAckInEstabEtc\<close>, \<open>processRstInSynReceived\<close>, \<open>hasEnoughSpaceForSegmentInReceiveQueue\<close>, the
  timeout handlers and \<open>segmentArrivalWhileClosed\<close>). The eight steps of RFC 793 are one definition
  each; a step that returns early hands its event code on as the result of the whole.
\<close>

section \<open>Timers of the connection\<close>

definition scheduleTimeout :: "simtime \<Rightarrow> timer \<Rightarrow> tcp_conn \<Rightarrow> timer res" where
  "scheduleTimeout timeout t c = scheduleAt (now c + timeout) t"

definition schedule2MSL :: "tcp_conn \<Rightarrow> tcp_conn res" where
  "schedule2MSL c = bindR (scheduleTimeout TCP_TIMEOUT_2MSL (the2MSLTimer c) c) (\<lambda>t. Inr (c\<lparr>the2MSLTimer := t\<rparr>))"

definition restart2MSL :: "tcp_conn \<Rightarrow> tcp_conn res" where
  "restart2MSL c = bindR (cancelEvent (the2MSLTimer c)) (\<lambda>t. schedule2MSL (c\<lparr>the2MSLTimer := t\<rparr>))"

definition startSynRexmitTimer :: "tcp_conn \<Rightarrow> tcp_conn res" where
  "startSynRexmitTimer c =
     (let c1 = c\<lparr>syn_rexmit_count := 0, syn_rexmit_timeout := TCP_TIMEOUT_SYN_REXMIT,
                 synRexmitTimer := cancelIfScheduled (synRexmitTimer c)\<rparr>
      in bindR (scheduleTimeout (syn_rexmit_timeout c1) (synRexmitTimer c1) c1) (\<lambda>t.
         Inr (c1\<lparr>synRexmitTimer := t\<rparr>)))"

definition process_TIMEOUT_CONN_ESTAB :: "tcp_conn \<Rightarrow> tcp_conn res" where
  "process_TIMEOUT_CONN_ESTAB c =
     (if fsm c = TCP_S_SYN_RCVD \<or> fsm c = TCP_S_SYN_SENT
      then Inr (if active c then sendIndicationToApp TCP_I_TIMED_OUT 0 c else c)
      else Inl (RuntimeError ''Internal error: received CONN_ESTAB timeout''))"

definition process_TIMEOUT_2MSL :: "tcp_conn \<Rightarrow> tcp_conn res" where
  "process_TIMEOUT_2MSL c =
     (if fsm c = TCP_S_TIME_WAIT then Inr c
      else Inl (RuntimeError ''Internal error: received time-wait (2MSL) timeout''))"

definition process_TIMEOUT_FIN_WAIT_2 :: "tcp_conn \<Rightarrow> tcp_conn res" where
  "process_TIMEOUT_FIN_WAIT_2 c =
     (if fsm c = TCP_S_FIN_WAIT_2 then Inr c
      else Inl (RuntimeError ''Internal error: received FIN_WAIT_2 timeout''))"

definition process_TIMEOUT_SYN_REXMIT :: "tcp_event_code \<Rightarrow> tcp_conn \<Rightarrow> (tcp_event_code \<times> tcp_conn) res" where
  "process_TIMEOUT_SYN_REXMIT event c0 =
     (let c = c0\<lparr>syn_rexmit_count := syn_rexmit_count c0 + 1\<rparr>
      in if syn_rexmit_count c > MAX_SYN_REXMIT_COUNT then Inr (TCP_E_ABORT, c)
         else
           bindR (if fsm c = TCP_S_SYN_SENT then sendSyn c
                  else if fsm c = TCP_S_SYN_RCVD then sendSynAck c
                  else Inl (RuntimeError ''Internal error: SYN-REXMIT timer expired'')) (\<lambda>c1.
           let timeout = syn_rexmit_timeout c1 * 2;
               c2 = c1\<lparr>syn_rexmit_timeout :=
                       (if timeout > TCP_TIMEOUT_SYN_REXMIT_MAX then TCP_TIMEOUT_SYN_REXMIT_MAX else timeout)\<rparr>
           in bindR (scheduleTimeout (syn_rexmit_timeout c2) (synRexmitTimer c2) c2) (\<lambda>t.
              Inr (event, c2\<lparr>synRexmitTimer := t\<rparr>))))"

section \<open>Segments that belong to no connection\<close>

definition segmentArrivalWhileClosed :: "tcp_segment \<Rightarrow> l3_address \<Rightarrow> l3_address \<Rightarrow> tcp_action list" where
  "segmentArrivalWhileClosed seg srcAddr destAddr =
     (if rstBit seg then []
      else if \<not> ackBit seg
      then [ToIP (rstAckSegment 0 (sequenceNo seg + getSegLen seg) (uint (destPort seg)) (uint (srcPort seg))) destAddr srcAddr]
      else [ToIP (rstSegment (ackNo seg) (uint (destPort seg)) (uint (srcPort seg))) destAddr srcAddr])"

section \<open>First to fourth step: sequence number, RST, SYN\<close>

definition hasOptions :: "tcp_segment \<Rightarrow> bool" where
  "hasOptions seg \<longleftrightarrow> headerLength seg > TCP_HEADER_OCTETS"

definition pawsRejects :: "tcp_segment \<Rightarrow> tcp_conn \<Rightarrow> bool" where
  "pawsRejects seg c \<longleftrightarrow> hasOptions seg \<and> ts_enabled c \<and> getTSval seg \<noteq> 0 \<and> seqLess (getTSval seg) (ts_recent c) \<and>
     now c - time_last_data_sent c > PAWS_IDLE_TIME_THRESH"

definition segmentEnd :: "tcp_segment \<Rightarrow> u32" where
  "segmentEnd seg = sequenceNo seg + ucast (payloadLength seg)"

definition rejectSegment :: "tcp_segment \<Rightarrow> tcp_conn \<Rightarrow> (tcp_event_code \<times> tcp_conn) res" where
  "rejectSegment seg c =
     bindR (if rstBit seg then Inr c
            else sendAck (if \<not> synBit seg \<and> payloadLength seg > 0 \<and> sack_enabled c \<and> seqLess (segmentEnd seg) (rcv_nxt c)
                          then c\<lparr>start_seqno := sequenceNo seg, end_seqno := segmentEnd seg, snd_dsack := True\<rparr> else c)) (\<lambda>c1.
     Inr (TCP_E_IGNORE, c1\<lparr>rcv_naseg := rcv_naseg c1 + 1\<rparr>))"

definition processRstInSynReceived :: "tcp_conn \<Rightarrow> (tcp_event_code \<times> tcp_conn) res" where
  "processRstInSynReceived c =
     bindR (sq_discardUpTo (sendQ c) (getBufferEndSeq (sendQ c))) (\<lambda>sq.
     bindR (if sack_enabled c then rq_discardUpTo (rexmitQ c) (rq_end (rexmitQ c)) else Inr (rexmitQ c)) (\<lambda>rq.
     let c1 = c\<lparr>sendQ := sq, rexmitQ := rq\<rparr>
     in Inr (TCP_E_RCV_RST, if active c1 then sendIndicationToApp TCP_I_CONNECTION_REFUSED 0 c1 else c1)))"

definition processRst :: "tcp_conn \<Rightarrow> (tcp_event_code \<times> tcp_conn) res" where
  "processRst c =
     (if fsm c = TCP_S_SYN_RCVD then processRstInSynReceived c
      else if fsm c \<in> {TCP_S_ESTABLISHED, TCP_S_FIN_WAIT_1, TCP_S_FIN_WAIT_2, TCP_S_CLOSE_WAIT}
      then Inr (TCP_E_RCV_RST, sendIndicationToApp TCP_I_CONNECTION_RESET 0 c)
      else if fsm c \<in> {TCP_S_CLOSING, TCP_S_LAST_ACK, TCP_S_TIME_WAIT} then Inr (TCP_E_RCV_RST, c)
      else Inl (AssertFailure ''processSegment1stThru8th''))"

definition processUnexpectedSyn :: "tcp_segment \<Rightarrow> tcp_conn \<Rightarrow> (tcp_event_code \<times> tcp_conn) res" where
  "processUnexpectedSyn seg c =
     bindR (assertR (isSegmentAcceptable seg c) ''isSegmentAcceptable(tcpseg)'') (\<lambda>_.
     Inr (TCP_E_RCV_UNEXP_SYN, sendIndicationToApp TCP_I_CONNECTION_RESET 0 c))"

section \<open>Fifth step: the ACK field\<close>

definition duplicateAck :: "tcp_segment \<Rightarrow> tcp_conn \<Rightarrow> bool" where
  "duplicateAck seg c \<longleftrightarrow> snd_una c = ackNo seg \<and> payloadLength seg = 0 \<and> snd_una c \<noteq> snd_max c"

text \<open>The ACK covers new data: the queues drop what is acknowledged.\<close>

definition discardAcked :: "tcp_segment \<Rightarrow> tcp_conn \<Rightarrow> tcp_conn res" where
  "discardAcked seg c =
     (let finAcked = (send_fin c \<and> ackNo seg = snd_fin_seq c + 1);
          c1 = (if finAcked then c\<lparr>fin_ack_rcvd := True\<rparr> else c);
          discardUpToSeq = (if finAcked then snd_una c1 - 1 else snd_una c1)
      in bindR (sq_discardUpTo (sendQ c1) discardUpToSeq) (\<lambda>sq.
         bindR (if sack_enabled c1 then rq_discardUpTo (rexmitQ c1) discardUpToSeq else Inr (rexmitQ c1)) (\<lambda>rq.
         Inr (c1\<lparr>sendQ := sq, rexmitQ := rq\<rparr>))))"

definition acceptAck :: "tcp_segment \<Rightarrow> tcp_conn \<Rightarrow> tcp_conn res" where
  "acceptAck seg c =
     (let old_snd_una = snd_una c;
          c1 = c\<lparr>snd_una := ackNo seg, snd_nxt := (if seqLess (snd_nxt c) (ackNo seg) then ackNo seg else snd_nxt c)\<rparr>
      in bindR (if ts_enabled c1 then withAlg c1 (\<lambda>fl. rttMeasurementCompleteUsingTS (getTSecr seg) c1) else Inr c1) (\<lambda>c2.
         bindR (discardAcked seg c2) (\<lambda>c3.
         let c4 = updateWndInfo seg False c3
         in if payloadLength seg = 0 \<and> fsm c4 \<noteq> TCP_S_SYN_RCVD
            then bindR (algReceivedDataAck old_snd_una c4) (\<lambda>c5. Inr (c5\<lparr>dupacks := 0\<rparr>))
            else Inr c4)))"

definition processAckInEstabEtc :: "tcp_segment \<Rightarrow> tcp_conn \<Rightarrow> (bool \<times> tcp_conn) res" where
  "processAckInEstabEtc seg c =
     (if seqGE (snd_una c) (ackNo seg)
      then (if duplicateAck seg c
            then bindR (algReceivedDuplicateAck (updateWndInfo seg False (c\<lparr>dupacks := dupacks c + 1\<rparr>))) (\<lambda>c1. Inr (True, c1))
            else Inr (True, c\<lparr>dupacks := 0\<rparr>))
      else if seqLE (ackNo seg) (snd_max c) then bindR (acceptAck seg c) (\<lambda>c1. Inr (True, c1))
      else
        bindR (assertR (seqGreater (ackNo seg) (snd_max c)) ''seqGreater(tcpseg->getAckNo(), state->snd_max)'') (\<lambda>_.
        bindR (algReceivedAckForDataNotYetSent (ackNo seg) c) (\<lambda>c1. Inr (False, c1\<lparr>dupacks := 0\<rparr>))))"

text \<open>The states in which the ACK field is processed, and those in which segment text is.\<close>

definition ackState :: "tcp_fsm_state \<Rightarrow> bool" where
  "ackState st \<longleftrightarrow> st \<in> {TCP_S_SYN_RCVD, TCP_S_ESTABLISHED, TCP_S_FIN_WAIT_1, TCP_S_FIN_WAIT_2, TCP_S_CLOSE_WAIT,
     TCP_S_CLOSING, TCP_S_LAST_ACK}"

definition textState :: "tcp_fsm_state \<Rightarrow> bool" where
  "textState st \<longleftrightarrow> st \<in> {TCP_S_SYN_RCVD, TCP_S_ESTABLISHED, TCP_S_FIN_WAIT_1, TCP_S_FIN_WAIT_2}"

text \<open>What the closing states do with an ACK that has been processed; \<open>None\<close> as the event means that the
  function returns \<open>TCP_E_RCV_ACK\<close> at once.\<close>

definition closingStates :: "tcp_segment \<Rightarrow> tcp_event_code \<Rightarrow> tcp_conn \<Rightarrow> (tcp_event_code option \<times> tcp_conn) res" where
  "closingStates seg event c =
     (if fsm c = TCP_S_FIN_WAIT_1 \<and> fin_ack_rcvd c then Inr (Some TCP_E_RCV_ACK, c)
      else if fsm c = TCP_S_CLOSING \<and> fin_ack_rcvd c
      then bindR (schedule2MSL c) (\<lambda>c1. Inr (Some TCP_E_RCV_ACK, c1))
      else if fsm c = TCP_S_LAST_ACK \<and> send_fin c \<and> ackNo seg = snd_fin_seq c + 1 then Inr (None, c)
      else if fsm c = TCP_S_TIME_WAIT
      then bindR (sendAck c) (\<lambda>c1. bindR (restart2MSL c1) (\<lambda>c2. Inr (Some event, c2)))
      else Inr (Some event, c))"

section \<open>Seventh step: the segment text\<close>

definition hasEnoughSpaceForSegmentInReceiveQueue :: "tcp_segment \<Rightarrow> tcp_conn \<Rightarrow> bool" where
  "hasEnoughSpaceForSegmentInReceiveQueue seg c =
     (let firstSeq = getFirstSeqNo (receiveQ c)
      in seqLE firstSeq (sequenceNo seg) \<and> seqLE (segmentEnd seg) (firstSeq + maxRcvBuffer c))"

text \<open>\<open>while ((msg = receiveQueue->extractBytesUpTo(rcv_nxt)) != nullptr) sendToApp(msg)\<close>; every round
  takes one region or a part of it off the queue.\<close>

fun extractLoop :: "nat \<Rightarrow> tcp_conn \<Rightarrow> tcp_conn res" where
  "extractLoop fuel c =
     bindR (extractBytesUpTo (receiveQ c) (rcv_nxt c)) (\<lambda>(n, q).
     case n of
       None \<Rightarrow> Inr (c\<lparr>receiveQ := q\<rparr>)
     | Some k \<Rightarrow> (case fuel of
           0 \<Rightarrow> Inl LoopBound
         | Suc f \<Rightarrow> extractLoop f (emit (DataToApp k) (c\<lparr>receiveQ := q\<rparr>))))"

declare extractLoop.simps [simp del]

definition extractAll :: "tcp_conn \<Rightarrow> tcp_conn res" where
  "extractAll c = extractLoop (Suc (length (regionList (receiveQ c)))) c"

definition forwardToApp :: "tcp_conn \<Rightarrow> tcp_conn res" where
  "forwardToApp c =
     (if par_useDataNotification (par c) then Inr (emit (Indicate TCP_I_DATA_NOTIFICATION (-1)) c) else extractAll c)"

text \<open>A FIN is reached: the event, and the time-wait timer where the connection enters or stays in it.\<close>

definition finReached :: "tcp_conn \<Rightarrow> (tcp_event_code \<times> tcp_conn) res" where
  "finReached c =
     (if fsm c = TCP_S_FIN_WAIT_1 \<and> fin_ack_rcvd c
      then bindR (cancelEvent (finWait2Timer c)) (\<lambda>t.
           bindR (schedule2MSL (c\<lparr>finWait2Timer := t\<rparr>)) (\<lambda>c1. Inr (TCP_E_RCV_FIN_ACK, c1)))
      else if fsm c = TCP_S_FIN_WAIT_2
      then bindR (cancelEvent (finWait2Timer c)) (\<lambda>t.
           bindR (schedule2MSL (c\<lparr>finWait2Timer := t\<rparr>)) (\<lambda>c1. Inr (TCP_E_RCV_FIN, c1)))
      else if fsm c = TCP_S_TIME_WAIT then bindR (restart2MSL c) (\<lambda>c1. Inr (TCP_E_RCV_FIN, c1))
      else Inr (TCP_E_RCV_FIN, c))"

text \<open>A gap remains: the segment is remembered for the SACK option and acknowledged at once.\<close>

definition outOfOrder :: "tcp_segment \<Rightarrow> u32 \<Rightarrow> tcp_conn \<Rightarrow> tcp_conn res" where
  "outOfOrder seg old_usedRcvBuffer c =
     (let c1 = c\<lparr>rcv_oooseg := rcv_oooseg c + 1\<rparr>;
          c2 = (if sack_enabled c1
                then (let c' = c1\<lparr>start_seqno := sequenceNo seg, end_seqno := segmentEnd seg\<rparr>
                      in if old_usedRcvBuffer = getAmountOfBufferedBytes (receiveQ c') then c'\<lparr>snd_dsack := True\<rparr>
                         else c'\<lparr>snd_sack := True\<rparr>)
                else c1)
      in algReceivedOutOfOrderSegment c2)"

definition inOrder :: "tcp_event_code \<Rightarrow> tcp_conn \<Rightarrow> (tcp_event_code \<times> tcp_conn) res" where
  "inOrder event c =
     bindR (forwardToApp c) (\<lambda>c1.
     if fin_rcvd c1 \<and> rcv_nxt c1 = rcv_fin_seq c1
     then finReached (c1\<lparr>ack_now := True, rcv_nxt := rcv_fin_seq c1 + 1\<rparr>)
     else Inr (event, c1))"

definition acceptText :: "u32 \<Rightarrow> tcp_segment \<Rightarrow> tcp_event_code \<Rightarrow> tcp_conn \<Rightarrow> (tcp_event_code \<times> tcp_conn) res" where
  "acceptText old_snd_una seg event c =
     (let old_rcv_nxt = rcv_nxt c; old_usedRcvBuffer = usedRcvBuffer c
      in bindR (insertBytesFromSegment (receiveQ c) seg) (\<lambda>q.
         let c1 = c\<lparr>receiveQ := q, rcv_nxt := rcvq_nxt q\<rparr>
         in bindR (if seqGreater (snd_una c1) old_snd_una
                   then bindR (algReceivedDataAck old_snd_una c1) (\<lambda>c2. Inr (c2\<lparr>dupacks := 0\<rparr>)) else Inr c1) (\<lambda>c3.
            if old_rcv_nxt = rcv_nxt c3
            then bindR (outOfOrder seg old_usedRcvBuffer c3) (\<lambda>c4. Inr (event, c4))
            else inOrder event c3)))"

text \<open>The segment is cut to the window; \<open>None\<close> as the event means that it was dropped for lack of buffer.\<close>

definition countSegment :: "tcp_segment \<Rightarrow> tcp_conn \<Rightarrow> tcp_conn" where
  "countSegment seg c =
     (let c1 = (if payloadLength seg = ucast (snd_mss c) \<or>
                   payloadLength seg + ucast (headerLength seg) - ucast TCP_HEADER_OCTETS = ucast (snd_mss c)
                then c\<lparr>full_sized_segment_counter := full_sized_segment_counter c + 1\<rparr> else c)
      in if payloadLength seg = 1 then c1\<lparr>ack_now := True\<rparr> else c1)"

definition processText :: "u32 \<Rightarrow> tcp_segment \<Rightarrow> tcp_event_code \<Rightarrow> tcp_conn \<Rightarrow> (tcp_segment \<times> tcp_event_code option \<times> tcp_conn) res" where
  "processText old_snd_una seg event c =
     (if textState (fsm c) \<and> payloadLength seg > 0
      then
        let c1 = countSegment seg c
        in bindR (truncateSegment seg (rcv_nxt c1) (rcv_nxt c1 + rcv_wnd c1)) (\<lambda>seg'.
           let c2 = updateRcvQueueVars c1
           in if hasEnoughSpaceForSegmentInReceiveQueue seg' c2
              then bindR (acceptText old_snd_una seg' event c2) (\<lambda>(ev, c3). Inr (seg', Some ev, c3))
              else Inr (seg', None, c2\<lparr>tcpRcvQueueDrops := tcpRcvQueueDrops c2 + 1\<rparr>))
      else Inr (seg, Some event, c))"

section \<open>Eighth step: the FIN bit, and what follows\<close>

definition processFin :: "tcp_segment \<Rightarrow> tcp_event_code \<Rightarrow> tcp_conn \<Rightarrow> (tcp_event_code \<times> tcp_conn) res" where
  "processFin seg event c =
     (if finBit seg
      then
        let c1 = c\<lparr>ack_now := True\<rparr>; fin_seq = segmentEnd seg
        in if rcv_nxt c1 = fin_seq then finReached (c1\<lparr>rcv_nxt := rcv_nxt c1 + 1\<rparr>)
           else Inr (event, c1\<lparr>fin_rcvd := True, rcv_fin_seq := fin_seq\<rparr>)
      else Inr (event, c))"

definition acknowledge :: "u32 \<Rightarrow> tcp_segment \<Rightarrow> tcp_conn \<Rightarrow> tcp_conn res" where
  "acknowledge old_rcv_nxt seg c =
     (if old_rcv_nxt \<noteq> rcv_nxt c
      then algReceiveSeqChanged
             (if sack_enabled c \<and> rcvq_getQueueLength (receiveQ c) \<noteq> 0
              then c\<lparr>start_seqno := sequenceNo seg, end_seqno := segmentEnd seg, snd_sack := True, ack_now := True\<rparr> else c)
      else Inr c)"

text \<open>A \<open>CLOSE\<close> that had to wait for data is carried out when the FIN has gone out.\<close>

definition deferredClose :: "u32 \<Rightarrow> tcp_conn \<Rightarrow> bool" where
  "deferredClose old_snd_nxt c \<longleftrightarrow> send_fin c \<and> snd_nxt c = snd_fin_seq c + 1 \<and>
     (fsm c = TCP_S_ESTABLISHED \<or> fsm c = TCP_S_SYN_RCVD \<or> (fsm c = TCP_S_CLOSE_WAIT \<and> old_snd_nxt \<noteq> snd_nxt c))"

text \<open>Steps six to eight, after the ACK has been processed; \<open>old_snd_una\<close> and \<open>old_snd_nxt\<close> were saved before.\<close>

definition processBody :: "u32 \<Rightarrow> u32 \<Rightarrow> tcp_segment \<Rightarrow> tcp_event_code \<Rightarrow> tcp_conn \<Rightarrow> (tcp_event_code \<times> tcp_conn) res" where
  "processBody old_snd_una old_snd_nxt seg event c =
     (let old_rcv_nxt = rcv_nxt c
      in bindR (processText old_snd_una seg event c) (\<lambda>(seg', ev, c1).
         case ev of
           None \<Rightarrow> Inr (TCP_E_IGNORE, c1)
         | Some event1 \<Rightarrow>
             bindR (processFin seg' event1 c1) (\<lambda>(event2, c2).
             bindR (acknowledge old_rcv_nxt seg' c2) (\<lambda>c3.
             Inr (if deferredClose old_snd_nxt c3 then TCP_E_CLOSE else event2, c3)))))"

definition processAckAndBody :: "tcp_segment \<Rightarrow> u32 \<Rightarrow> tcp_event_code \<Rightarrow> tcp_conn \<Rightarrow> (tcp_event_code \<times> tcp_conn) res" where
  "processAckAndBody seg old_snd_una event c =
     (let old_snd_nxt = snd_nxt c
      in bindR (if ackState (fsm c) then processAckInEstabEtc seg c else Inr (True, c)) (\<lambda>(ok, c1).
         if \<not> ok then Inr (TCP_E_IGNORE, c1)
         else
           bindR (closingStates seg event c1) (\<lambda>(ev, c2).
           case ev of
             None \<Rightarrow> Inr (TCP_E_RCV_ACK, c2)
           | Some event2 \<Rightarrow> processBody old_snd_una old_snd_nxt seg event2 c2)))"

text \<open>The first ACK in \<open>SYN_RCVD\<close> establishes the connection.\<close>

definition processEstablish :: "tcp_segment \<Rightarrow> tcp_conn \<Rightarrow> (tcp_event_code \<times> tcp_conn) res" where
  "processEstablish seg c =
     (if \<not> seqLE (snd_una c) (ackNo seg) \<or> \<not> seqLE (ackNo seg) (snd_nxt c)
      then Inr (TCP_E_IGNORE, sendRst (ackNo seg) c)
      else bindR (algEstablished False c) (\<lambda>c1.
           processAckAndBody seg (snd_una c) TCP_E_RCV_ACK (sendEstabIndicationToApp c1)))"

definition processSegment1stThru8th :: "tcp_segment \<Rightarrow> tcp_conn \<Rightarrow> (tcp_event_code \<times> tcp_conn) res" where
  "processSegment1stThru8th seg c0 =
     bindR (if hasOptions seg then readHeaderOptions seg c0 else Inr c0) (\<lambda>c.
     if pawsRejects seg c0 \<or> \<not> isSegmentAcceptable seg c then rejectSegment seg c
     else if rstBit seg then processRst c
     else if synBit seg then processUnexpectedSyn seg c
     else if \<not> ackBit seg then Inr (TCP_E_IGNORE, c)
     else if fsm c = TCP_S_SYN_RCVD then processEstablish seg c
     else processAckAndBody seg (snd_una c) TCP_E_IGNORE c)"

end
