(* ===== verification/Tcp_Main.thy ===== *)
theory Tcp_Main
  imports Tcp_Fsm "HOL-Library.Multiset"
begin

text \<open>
  The tables of the TCP module (\<open>src/inet/transportlayer/tcp/TCP.h\<close>, \<open>TCP.cc\<close>): the map from socket
  pairs to connections, the map from application keys to connections, and the ephemeral ports in
  use. Connection objects are addressed by references into a store, so that both maps may name the
  same object.
\<close>

section \<open>State\<close>

record sock_pair =
  sp_localAddr :: l3_address
  sp_remoteAddr :: l3_address
  sp_localPort :: int
  sp_remotePort :: int

type_synonym conn_ref = nat

record tcp_main =
  conns :: "conn_ref \<rightharpoonup> tcp_conn"
  tcpConnMap :: "sock_pair \<rightharpoonup> conn_ref"
  tcpAppConnMap :: "int \<times> int \<rightharpoonup> conn_ref"
  lastEphemeralPort :: int
  usedEphemeralPorts :: "int multiset"
  isOperational :: bool
  outbox :: "tcp_action list"

abbreviation "EPHEMERAL_PORTRANGE_START \<equiv> (1024 :: int)"
abbreviation "EPHEMERAL_PORTRANGE_END \<equiv> (5000 :: int)"

definition newMain :: tcp_main where
  "newMain = \<lparr>conns = Map.empty, tcpConnMap = Map.empty, tcpAppConnMap = Map.empty,
     lastEphemeralPort = EPHEMERAL_PORTRANGE_START, usedEphemeralPorts = {#}, isOperational = True, outbox = []\<rparr>"

definition sockPairOf :: "tcp_conn \<Rightarrow> sock_pair" where
  "sockPairOf c = \<lparr>sp_localAddr = localAddr c, sp_remoteAddr = remoteAddr c, sp_localPort = localPort c, sp_remotePort = remotePort c\<rparr>"

definition appKeyOf :: "tcp_conn \<Rightarrow> int \<times> int" where
  "appKeyOf c = (appGateIndex c, connId c)"

text \<open>Access to the object behind a reference.\<close>

definition getConn :: "conn_ref \<Rightarrow> tcp_main \<Rightarrow> tcp_conn res" where
  "getConn r m = (case conns m r of None \<Rightarrow> Inl (RuntimeError ''null pointer'') | Some c \<Rightarrow> Inr c)"

definition putConn :: "conn_ref \<Rightarrow> tcp_conn \<Rightarrow> tcp_main \<Rightarrow> tcp_main" where
  "putConn r c m = m\<lparr>conns := (conns m)(r \<mapsto> c)\<rparr>"

section \<open>Operations\<close>

text \<open>The first of four keys that the map holds, from the most to the least specific.\<close>

definition firstOf :: "'a option list \<Rightarrow> 'a option" where
  "firstOf xs = foldr (\<lambda>x acc. case x of None \<Rightarrow> acc | Some y \<Rightarrow> Some y) xs None"

definition segmentKeys :: "tcp_segment \<Rightarrow> l3_address \<Rightarrow> l3_address \<Rightarrow> sock_pair list" where
  "segmentKeys seg srcAddr destAddr =
     (let key = \<lparr>sp_localAddr = destAddr, sp_remoteAddr = srcAddr, sp_localPort = uint (destPort seg),
                 sp_remotePort = uint (srcPort seg)\<rparr>;
          listening = key\<lparr>sp_remoteAddr := Unspecified, sp_remotePort := -1\<rparr>
      in [key, key\<lparr>sp_localAddr := Unspecified\<rparr>, listening, listening\<lparr>sp_localAddr := Unspecified\<rparr>])"

text \<open>The fully qualified pair of a segment.\<close>

definition segmentKey :: "tcp_segment \<Rightarrow> l3_address \<Rightarrow> l3_address \<Rightarrow> sock_pair" where
  "segmentKey seg srcAddr destAddr = hd (segmentKeys seg srcAddr destAddr)"

definition findConnForSegment :: "tcp_segment \<Rightarrow> l3_address \<Rightarrow> l3_address \<Rightarrow> tcp_main \<Rightarrow> conn_ref option" where
  "findConnForSegment seg srcAddr destAddr m = firstOf (map (tcpConnMap m) (segmentKeys seg srcAddr destAddr))"

definition findConnForApp :: "int \<Rightarrow> int \<Rightarrow> tcp_main \<Rightarrow> conn_ref option" where
  "findConnForApp gateIndex cId m = tcpAppConnMap m (gateIndex, cId)"

definition nextPort :: "int \<Rightarrow> int" where
  "nextPort p = (if p + 1 = EPHEMERAL_PORTRANGE_END then EPHEMERAL_PORTRANGE_START else p + 1)"

fun searchPort :: "nat \<Rightarrow> int multiset \<Rightarrow> int \<Rightarrow> int \<Rightarrow> int res" where
  "searchPort fuel used searchUntil p =
     (if p \<in># used
      then (if p = searchUntil then Inl (RuntimeError ''Ephemeral port range exhausted, all ports occupied'')
            else (case fuel of 0 \<Rightarrow> Inl LoopBound | Suc k \<Rightarrow> searchPort k used searchUntil (nextPort p)))
      else Inr p)"

declare searchPort.simps [simp del]

definition getEphemeralPort :: "tcp_main \<Rightarrow> (int \<times> tcp_main) res" where
  "getEphemeralPort m =
     (let searchUntil = lastEphemeralPort m
      in bindR (searchPort 3976 (usedEphemeralPorts m) searchUntil (nextPort searchUntil)) (\<lambda>p.
         Inr (p, m\<lparr>lastEphemeralPort := p\<rparr>)))"

definition isEphemeral :: "int \<Rightarrow> bool" where
  "isEphemeral p \<longleftrightarrow> EPHEMERAL_PORTRANGE_START \<le> p \<and> p < EPHEMERAL_PORTRANGE_END"

definition setSockPair :: "sock_pair \<Rightarrow> tcp_conn \<Rightarrow> tcp_conn" where
  "setSockPair k c = c\<lparr>localAddr := sp_localAddr k, remoteAddr := sp_remoteAddr k, localPort := sp_localPort k,
     remotePort := sp_remotePort k\<rparr>"

definition addSockPair :: "conn_ref \<Rightarrow> sock_pair \<Rightarrow> tcp_main \<Rightarrow> tcp_main res" where
  "addSockPair r key m =
     bindR (getConn r m) (\<lambda>c.
     let m1 = putConn r (setSockPair key c) m
     in if tcpConnMap m1 key \<noteq> None then Inl (RuntimeError ''Address already in use'')
        else Inr (m1\<lparr>tcpConnMap := (tcpConnMap m1)(key \<mapsto> r),
                     usedEphemeralPorts := (if isEphemeral (sp_localPort key)
                       then add_mset (sp_localPort key) (usedEphemeralPorts m1) else usedEphemeralPorts m1)\<rparr>))"

definition updateSockPair :: "conn_ref \<Rightarrow> sock_pair \<Rightarrow> tcp_main \<Rightarrow> tcp_main res" where
  "updateSockPair r key m =
     bindR (getConn r m) (\<lambda>c.
     bindR (assertR (tcpConnMap m (sockPairOf c) = Some r) ''it != tcpConnMap.end() && it->second == conn'') (\<lambda>_.
     bindR (assertR (localPort c = sp_localPort key) ''conn->localPort == localPort'') (\<lambda>_.
     Inr ((putConn r (setSockPair key c) m)
            \<lparr>tcpConnMap := (tcpConnMap m)(sockPairOf c := None, key \<mapsto> r)\<rparr>))))"

text \<open>\<open>uniqueNumber\<close> is what \<open>getEnvir()->getUniqueNumber()\<close> returns.\<close>

definition addForkedConnection :: "int \<Rightarrow> conn_ref \<Rightarrow> conn_ref \<Rightarrow> sock_pair \<Rightarrow> tcp_main \<Rightarrow> tcp_main res" where
  "addForkedConnection uniqueNumber r newR key m =
     bindR (updateSockPair r key m) (\<lambda>m1.
     bindR (getConn newR m1) (\<lambda>newConn.
     bindR (addSockPair newR (sockPairOf newConn) m1) (\<lambda>m2.
     bindR (getConn r m2) (\<lambda>c.
     let c' = c\<lparr>connId := uniqueNumber\<rparr>
     in Inr ((putConn r c' m2)\<lparr>tcpAppConnMap :=
               (tcpAppConnMap m2)(appKeyOf c := None, appKeyOf c' \<mapsto> r, appKeyOf newConn \<mapsto> newR)\<rparr>)))))"

definition removeConnection :: "conn_ref \<Rightarrow> tcp_main \<Rightarrow> tcp_main res" where
  "removeConnection r m =
     bindR (getConn r m) (\<lambda>c.
     let port = localPort c mod 65536
     in Inr (m\<lparr>tcpAppConnMap := (tcpAppConnMap m)(appKeyOf c := None),
               tcpConnMap := (tcpConnMap m)(sockPairOf c := None),
               usedEphemeralPorts := (if port \<in># usedEphemeralPorts m
                 then usedEphemeralPorts m - {#port#} else usedEphemeralPorts m),
               conns := (conns m)(r := None)\<rparr>))"

definition resetMain :: "tcp_main \<Rightarrow> tcp_main" where
  "resetMain m = m\<lparr>conns := Map.empty, tcpAppConnMap := Map.empty, tcpConnMap := Map.empty, usedEphemeralPorts := {#},
     lastEphemeralPort := EPHEMERAL_PORTRANGE_START\<rparr>"

datatype lifecycle_operation = NodeStart | NodeShutdown | NodeCrash

text \<open>\<open>handleOperationStage\<close> at the stage that concerns the transport layer.\<close>

definition handleOperationStage :: "lifecycle_operation \<Rightarrow> tcp_main \<Rightarrow> tcp_main" where
  "handleOperationStage op m =
     (case op of NodeStart \<Rightarrow> m\<lparr>isOperational := True\<rparr> | _ \<Rightarrow> (resetMain m)\<lparr>isOperational := False\<rparr>)"

section \<open>Ephemeral ports\<close>

text \<open>The \<open>j\<close>-th port after \<open>p\<close>, going round the range.\<close>

definition portAfter :: "int \<Rightarrow> nat \<Rightarrow> int" where
  "portAfter p j = EPHEMERAL_PORTRANGE_START + (p - EPHEMERAL_PORTRANGE_START + int j) mod 3976"

lemma portAfter_ephemeral [simp]: "isEphemeral (portAfter p j)"
  unfolding portAfter_def isEphemeral_def using pos_mod_bound [of 3976 "p - 1024 + int j"] by auto

lemma portAfter_0: "isEphemeral p \<Longrightarrow> portAfter p 0 = p"
  by (simp add: portAfter_def isEphemeral_def)

lemma nextPort_after: "isEphemeral p \<Longrightarrow> nextPort p = portAfter p 1"
proof (cases "p = 4999")
  case False
  assume "isEphemeral p"
  with False have "0 \<le> p - 1023" "p - 1023 < 3976" by (auto simp: isEphemeral_def)
  then show ?thesis using False by (simp add: nextPort_def portAfter_def)
qed (simp add: nextPort_def portAfter_def)

lemma portAfter_add: "portAfter (portAfter p i) j = portAfter p (i + j)"
  unfolding portAfter_def by (simp add: mod_simps algebra_simps)

lemma searchPort_scan:
  assumes "isEphemeral p" "portAfter p n = s" "\<forall>i<n. portAfter p i \<noteq> s" "n \<le> fuel"
  shows "if \<exists>j\<le>n. portAfter p j \<notin># used
     then \<exists>q. searchPort fuel used s p = Inr q \<and> isEphemeral q \<and> q \<notin># used
     else searchPort fuel used s p = Inl (RuntimeError ''Ephemeral port range exhausted, all ports occupied'')"
  using assms
proof (induction n arbitrary: p fuel)
  case 0
  then have "p = s" by (simp add: portAfter_0)
  then show ?case using 0 by (auto simp: searchPort.simps portAfter_0)
next
  case (Suc n)
  obtain k where k: "fuel = Suc k" "n \<le> k" using Suc.prems(4) by (cases fuel) auto
  have ne: "p \<noteq> s" using Suc.prems(1,3) portAfter_0 [of p] by (metis zero_less_Suc)
  let ?p = "portAfter p 1"
  have sh: "portAfter ?p i = portAfter p (Suc i)" for i using portAfter_add [of p 1 i] by (simp only: plus_1_eq_Suc)
  have IH: "if \<exists>j\<le>n. portAfter ?p j \<notin># used
     then \<exists>q. searchPort k used s ?p = Inr q \<and> isEphemeral q \<and> q \<notin># used
     else searchPort k used s ?p = Inl (RuntimeError ''Ephemeral port range exhausted, all ports occupied'')"
  proof (rule Suc.IH)
    show "portAfter ?p n = s" using Suc.prems(2) by (simp only: sh)
    show "\<forall>i<n. portAfter ?p i \<noteq> s" using Suc.prems(3) by (simp only: sh) simp
  qed (use k in simp_all)
  show ?case
  proof (cases "p \<in># used")
    case False
    moreover have "portAfter p 0 \<notin># used" using False Suc.prems(1) by (simp add: portAfter_0)
    ultimately show ?thesis using Suc.prems(1) by (auto simp: searchPort.simps)
  next
    case True
    have "(\<exists>j\<le>Suc n. portAfter p j \<notin># used) \<longleftrightarrow> (\<exists>j\<le>n. portAfter ?p j \<notin># used)"
      unfolding sh using True portAfter_0 [OF Suc.prems(1)] by (metis Suc_le_mono not0_implies_Suc)
    moreover have "searchPort fuel used s p = searchPort k used s ?p"
      using True ne k Suc.prems(1) by (subst searchPort.simps) (simp add: nextPort_after)
    ultimately show ?thesis using IH by (simp only:)
  qed
qed

lemma portAfter_eq_iff:
  assumes "isEphemeral q"
  shows "portAfter s j = q \<longleftrightarrow> (3976::int) dvd s + int j - q"
proof -
  have q: "(q - 1024) mod 3976 = q - 1024" using assms by (simp add: isEphemeral_def)
  have "portAfter s j = q \<longleftrightarrow> (s - 1024 + int j) mod 3976 = (q - 1024) mod 3976"
    unfolding portAfter_def q by auto
  also have "\<dots> \<longleftrightarrow> 3976 dvd s + int j - q" by (simp add: mod_eq_dvd_iff algebra_simps)
  finally show ?thesis .
qed

lemma portAfter_reaches:
  assumes "isEphemeral q"
  shows "\<exists>j\<le>3975. portAfter (portAfter s 1) j = q"
proof -
  let ?j = "nat ((q - s - 1) mod 3976)"
  have "(q - s - 1) mod 3976 < 3976" by (rule pos_mod_bound) simp
  then have "?j \<le> 3975" by linarith
  moreover have "3976 dvd s + (1 + (q - s - 1) mod 3976) - q"
  proof -
    have "s + (1 + (q - s - 1) mod 3976) - q = (q - s - 1) mod 3976 - (q - s - 1)" by simp
    then show ?thesis by (simp only: dvd_diff_commute [of _ "(q - s - 1) mod 3976"] dvd_minus_mod)
  qed
  then have "portAfter (portAfter s 1) ?j = q"
    unfolding portAfter_add portAfter_eq_iff [OF assms] by simp
  ultimately show ?thesis by blast
qed

lemma portAfter_not_yet:
  assumes "isEphemeral s" "i < 3975"
  shows "portAfter (portAfter s 1) i \<noteq> s"
proof
  assume "portAfter (portAfter s 1) i = s"
  then have "(3976::int) dvd 1 + int i" unfolding portAfter_add portAfter_eq_iff [OF assms(1)] by simp
  then show False using assms(2) zdvd_imp_le by fastforce
qed

lemma portAfter_round: "isEphemeral s \<Longrightarrow> portAfter (portAfter s 1) 3975 = s"
  unfolding portAfter_add by (simp only: portAfter_eq_iff) simp

lemma getEphemeralPort_spec:
  assumes "isEphemeral (lastEphemeralPort m)"
  shows "if \<exists>p. isEphemeral p \<and> p \<notin># usedEphemeralPorts m
     then \<exists>p. getEphemeralPort m = Inr (p, m\<lparr>lastEphemeralPort := p\<rparr>) \<and> isEphemeral p \<and> p \<notin># usedEphemeralPorts m
     else getEphemeralPort m = Inl (RuntimeError ''Ephemeral port range exhausted, all ports occupied'')"
proof -
  let ?s = "lastEphemeralPort m" and ?u = "usedEphemeralPorts m"
  note e = portAfter_round [OF assms]
  have "(\<exists>p. isEphemeral p \<and> p \<notin># ?u) \<longleftrightarrow> (\<exists>j\<le>3975. portAfter (portAfter ?s 1) j \<notin># ?u)"
    using portAfter_reaches portAfter_ephemeral by metis
  moreover note searchPort_scan [OF portAfter_ephemeral e, of 3976 ?u]
  moreover have "\<forall>i<3975. portAfter (portAfter ?s 1) i \<noteq> ?s" using portAfter_not_yet [OF assms] by blast
  ultimately show ?thesis using assms
    by (auto simp: getEphemeralPort_def Let_def nextPort_after split: if_splits)
qed

section \<open>The connection table\<close>

definition usedPortsOf :: "sock_pair set \<Rightarrow> int multiset" where
  "usedPortsOf K = image_mset sp_localPort (mset_set {k \<in> K. isEphemeral (sp_localPort k)})"

text \<open>
  Every connection in the socket map is a live object filed under its own socket pair, and the multiset
  of used ports holds the local port of each of them that is in the ephemeral range.
\<close>

definition tableInv :: "tcp_main \<Rightarrow> bool" where
  "tableInv m \<longleftrightarrow> finite (dom (tcpConnMap m)) \<and>
     (\<forall>k r. tcpConnMap m k = Some r \<longrightarrow> -1 \<le> sp_localPort k \<and> sp_localPort k < 65536 \<and>
        (\<exists>c. conns m r = Some c \<and> sockPairOf c = k)) \<and>
     usedEphemeralPorts m = usedPortsOf (dom (tcpConnMap m)) \<and> isEphemeral (lastEphemeralPort m)"

lemma usedPortsOf_insert:
  assumes "finite K" "k \<notin> K"
  shows "usedPortsOf (insert k K) = (if isEphemeral (sp_localPort k) then add_mset (sp_localPort k) (usedPortsOf K) else usedPortsOf K)"
proof -
  have "{x \<in> insert k K. isEphemeral (sp_localPort x)} =
      (if isEphemeral (sp_localPort k) then insert k {x \<in> K. isEphemeral (sp_localPort x)} else {x \<in> K. isEphemeral (sp_localPort x)})"
    by auto
  then show ?thesis using assms by (simp add: usedPortsOf_def)
qed

lemma usedPortsOf_remove:
  assumes "finite K" "k \<in> K"
  shows "usedPortsOf K = (if isEphemeral (sp_localPort k) then add_mset (sp_localPort k) (usedPortsOf (K - {k})) else usedPortsOf (K - {k}))"
  using usedPortsOf_insert [of "K - {k}" k] assms by (simp add: insert_absorb)

lemma usedPortsOf_mem: "finite K \<Longrightarrow> p \<in># usedPortsOf K \<longleftrightarrow> isEphemeral p \<and> (\<exists>k\<in>K. sp_localPort k = p)"
  by (auto simp: usedPortsOf_def)

lemma sockPairOf_set [simp]: "sockPairOf (setSockPair k c) = k"
  by (simp add: sockPairOf_def setSockPair_def)

lemma sockPairOf_inj: "tableInv m \<Longrightarrow> tcpConnMap m k = Some r \<Longrightarrow> tcpConnMap m k' = Some r \<Longrightarrow> k = k'"
  unfolding tableInv_def by (metis option.inject)

lemma addSockPair_inv:
  assumes inv: "tableInv m" and new: "\<forall>k. tcpConnMap m k \<noteq> Some r" and p: "-1 \<le> sp_localPort key" "sp_localPort key < 65536"
    and add: "addSockPair r key m = Inr m'"
  shows "tableInv m' \<and> tcpConnMap m' = (tcpConnMap m)(key \<mapsto> r)"
proof -
  obtain c where c: "conns m r = Some c" "tcpConnMap m key = None"
    and m': "m' = (putConn r (setSockPair key c) m)\<lparr>tcpConnMap := (tcpConnMap m)(key \<mapsto> r),
       usedEphemeralPorts := (if isEphemeral (sp_localPort key)
                       then add_mset (sp_localPort key) (usedEphemeralPorts m) else usedEphemeralPorts m)\<rparr>"
    using add by (auto simp: addSockPair_def getConn_def putConn_def Let_def elim!: bindR_InrE split: option.splits if_splits)
  have "key \<notin> dom (tcpConnMap m)" using c by auto
  then have "usedEphemeralPorts m' = usedPortsOf (dom (tcpConnMap m'))"
    using inv usedPortsOf_insert [of "dom (tcpConnMap m)" key] by (simp add: m' tableInv_def)
  then show ?thesis using inv new p by (auto simp: tableInv_def m' putConn_def)
qed

lemma updateSockPair_inv:
  assumes inv: "tableInv m" and fresh: "tcpConnMap m key = None" and upd: "updateSockPair r key m = Inr m'"
  shows "tableInv m' \<and> (\<exists>k. tcpConnMap m k = Some r \<and> tcpConnMap m' = (tcpConnMap m)(k := None, key \<mapsto> r))"
proof -
  obtain c where c: "conns m r = Some c" "tcpConnMap m (sockPairOf c) = Some r" "localPort c = sp_localPort key"
    and m': "m' = (putConn r (setSockPair key c) m)\<lparr>tcpConnMap := (tcpConnMap m)(sockPairOf c := None, key \<mapsto> r)\<rparr>"
    using upd by (auto simp: updateSockPair_def getConn_def elim!: bindR_InrE split: option.splits)
  let ?K = "dom (tcpConnMap m)" and ?k = "sockPairOf c"
  have fin: "finite ?K" using inv by (simp add: tableInv_def)
  have kd: "?k \<in> ?K" "key \<notin> ?K" "?k \<noteq> key" using c fresh by auto
  have port: "sp_localPort ?k = sp_localPort key" using c(3) by (simp add: sockPairOf_def)
  have dom': "dom (tcpConnMap m') = insert key (?K - {?k})" using kd by (auto simp: m')
  have "usedPortsOf ?K = usedPortsOf (dom (tcpConnMap m'))"
    unfolding dom' using usedPortsOf_remove [OF fin kd(1)] usedPortsOf_insert [of "?K - {?k}" key] fin kd port by simp
  moreover have only: "k = ?k" if "tcpConnMap m k = Some r" for k using sockPairOf_inj [OF inv that c(2)] .
  moreover have "-1 \<le> sp_localPort key" "sp_localPort key < 65536" using inv c(2) port unfolding tableInv_def by metis+
  ultimately have "tableInv m'" using inv kd fin dom' unfolding tableInv_def m' putConn_def
    by (auto split: if_splits)
  then show ?thesis using c m' by (auto simp: putConn_def)
qed

lemma removeConnection_inv:
  assumes inv: "tableInv m" and reg: "tcpConnMap m k = Some r" and rem: "removeConnection r m = Inr m'"
  shows "tableInv m' \<and> tcpConnMap m' = (tcpConnMap m)(k := None) \<and> (\<forall>k'. tcpConnMap m' k' \<noteq> Some r)"
proof -
  obtain c where c: "conns m r = Some c" "sockPairOf c = k" using inv reg by (auto simp: tableInv_def)
  let ?K = "dom (tcpConnMap m)" and ?p = "localPort c mod 65536"
  have fin: "finite ?K" and kd: "k \<in> ?K" using inv reg by (auto simp: tableInv_def)
  have port: "-1 \<le> sp_localPort k" "sp_localPort k < 65536" "localPort c = sp_localPort k"
    using inv reg c by (auto simp: tableInv_def sockPairOf_def)
  have mem: "?p \<in># usedEphemeralPorts m \<longleftrightarrow> isEphemeral (sp_localPort k)"
    (is "?l \<longleftrightarrow> ?r")
  proof
    assume ?r
    then have "?p = sp_localPort k" using port by (simp add: isEphemeral_def)
    then show ?l using inv \<open>?r\<close> kd fin by (auto simp: tableInv_def usedPortsOf_mem)
  next
    assume ?l
    then have "isEphemeral ?p" using inv fin by (simp add: tableInv_def usedPortsOf_mem)
    moreover have "localPort c = -1 \<or> ?p = localPort c"
      using port by (cases "localPort c = -1") (auto simp: mod_pos_pos_trivial)
    ultimately show ?r using port(3) by (auto simp: isEphemeral_def)
  qed
  have m': "m' = m\<lparr>tcpAppConnMap := (tcpAppConnMap m)(appKeyOf c := None), tcpConnMap := (tcpConnMap m)(k := None),
               usedEphemeralPorts := (if isEphemeral (sp_localPort k)
                 then usedEphemeralPorts m - {#?p#} else usedEphemeralPorts m), conns := (conns m)(r := None)\<rparr>"
    using rem c mem by (simp add: removeConnection_def getConn_def Let_def)
  have "isEphemeral (sp_localPort k) \<Longrightarrow> ?p = sp_localPort k" using port by (simp add: isEphemeral_def)
  then have "usedEphemeralPorts m' = usedPortsOf (?K - {k})"
    using usedPortsOf_remove [OF fin kd] inv by (simp add: m' tableInv_def)
  moreover have "dom (tcpConnMap m') = ?K - {k}" by (simp add: m')
  moreover have only: "k' = k" if "tcpConnMap m k' = Some r" for k' using sockPairOf_inj [OF inv that reg] .
  ultimately show ?thesis using inv fin unfolding tableInv_def
    by (auto simp: m' split: if_splits)
qed


section \<open>The table as an interface\<close>

text \<open>
  What the connections rely on: a table with an invariant under which every entry is filed under the key
  of its owner, and an allocator that never hands out a port in use.
\<close>

locale socket_table =
  fixes inv :: "'m \<Rightarrow> bool" and lookup :: "'m \<Rightarrow> 'k \<Rightarrow> 'r option" and keyOf :: "'m \<Rightarrow> 'r \<Rightarrow> 'k option"
    and exec :: "'op \<Rightarrow> 'm \<Rightarrow> 'm res" and legal :: "'op \<Rightarrow> 'm \<Rightarrow> bool"
    and alloc :: "'m \<Rightarrow> ('p \<times> 'm) res" and portOf :: "'k \<Rightarrow> 'p"
  assumes exec_inv: "inv m \<Longrightarrow> legal a m \<Longrightarrow> exec a m = Inr m' \<Longrightarrow> inv m'"
    and filed: "inv m \<Longrightarrow> lookup m k = Some r \<Longrightarrow> keyOf m r = Some k"
    and alloc_free: "inv m \<Longrightarrow> alloc m = Inr (p, m') \<Longrightarrow> lookup m k = Some r \<Longrightarrow> portOf k \<noteq> p"
begin

fun runOps :: "'op list \<Rightarrow> 'm \<Rightarrow> 'm res" where
  "runOps [] m = Inr m"
| "runOps (a # as) m = (if legal a m then bindR (exec a m) (runOps as) else Inl (RuntimeError ''illegal operation''))"

lemma run_inv: "inv m \<Longrightarrow> runOps as m = Inr m' \<Longrightarrow> inv m'"
  by (induction as arbitrary: m) (auto split: if_splits dest: exec_inv elim!: bindR_InrE)

lemma one_key: "inv m \<Longrightarrow> lookup m k = Some r \<Longrightarrow> lookup m k' = Some r \<Longrightarrow> k = k'"
  using filed by (metis option.inject)

lemma run_consistent:
  assumes "inv m" "runOps as m = Inr m'"
  shows "(lookup m' k = Some r \<longrightarrow> keyOf m' r = Some k) \<and>
     (lookup m' k = Some r \<and> lookup m' k' = Some r \<longrightarrow> k = k') \<and>
     (alloc m' = Inr (p, m'') \<and> lookup m' k = Some r \<longrightarrow> portOf k \<noteq> p)"
  using run_inv [OF assms] one_key filed alloc_free by blast

end

text \<open>
  The operations of the module on the table: creation of an object, any change of it that leaves its
  socket pair alone, and the three table operations.
\<close>

datatype table_op =
    TNew conn_ref tcp_conn
  | TPut conn_ref tcp_conn
  | TAdd conn_ref sock_pair
  | TUpdate conn_ref sock_pair
  | TRemove conn_ref

fun tableExec :: "table_op \<Rightarrow> tcp_main \<Rightarrow> tcp_main res" where
  "tableExec (TNew r c) m = Inr (putConn r c m)"
| "tableExec (TPut r c) m = Inr (putConn r c m)"
| "tableExec (TAdd r k) m = addSockPair r k m"
| "tableExec (TUpdate r k) m = updateSockPair r k m"
| "tableExec (TRemove r) m = removeConnection r m"

definition registered :: "conn_ref \<Rightarrow> tcp_main \<Rightarrow> bool" where
  "registered r m \<longleftrightarrow> (\<exists>k\<in>dom (tcpConnMap m). tcpConnMap m k = Some r)"

fun tableLegal :: "table_op \<Rightarrow> tcp_main \<Rightarrow> bool" where
  "tableLegal (TNew r c) m \<longleftrightarrow> conns m r = None"
| "tableLegal (TPut r c) m \<longleftrightarrow> (case conns m r of None \<Rightarrow> False | Some c0 \<Rightarrow> sockPairOf c = sockPairOf c0)"
| "tableLegal (TAdd r k) m \<longleftrightarrow> \<not> registered r m \<and> -1 \<le> sp_localPort k \<and> sp_localPort k < 65536"
| "tableLegal (TUpdate r k) m \<longleftrightarrow> tcpConnMap m k = None"
| "tableLegal (TRemove r) m \<longleftrightarrow> registered r m"

definition keyOfConn :: "tcp_main \<Rightarrow> conn_ref \<Rightarrow> sock_pair option" where
  "keyOfConn m r = map_option sockPairOf (conns m r)"

lemma putConn_inv:
  "tableInv m \<Longrightarrow> (\<And>c0. conns m r = Some c0 \<Longrightarrow> sockPairOf c = sockPairOf c0) \<Longrightarrow> tableInv (putConn r c m)"
  unfolding tableInv_def putConn_def by simp metis

lemma tableExec_inv:
  assumes "tableInv m" "tableLegal a m" "tableExec a m = Inr m'"
  shows "tableInv m'"
proof (cases a)
  case (TNew r c)
  then show ?thesis using assms putConn_inv [of m r c] by simp
next
  case (TPut r c)
  then show ?thesis using assms putConn_inv [of m r c] by (auto split: option.splits)
next
  case (TAdd r k)
  then show ?thesis using assms addSockPair_inv [of m r k m'] by (auto simp: registered_def)
next
  case (TUpdate r k)
  then show ?thesis using assms updateSockPair_inv [of m k r m'] by simp
next
  case (TRemove r)
  then show ?thesis using assms removeConnection_inv [of m _ r m'] by (auto simp: registered_def)
qed

lemma getEphemeralPort_free:
  assumes "tableInv m" "getEphemeralPort m = Inr (p, m')" "tcpConnMap m k = Some r"
  shows "sp_localPort k \<noteq> p"
proof
  assume e: "sp_localPort k = p"
  have le: "isEphemeral (lastEphemeralPort m)" using assms(1) by (simp add: tableInv_def)
  have p: "isEphemeral p \<and> p \<notin># usedEphemeralPorts m"
    using getEphemeralPort_spec [OF le] assms(2) by (auto split: if_splits)
  moreover have "p \<in># usedEphemeralPorts m"
    using assms(1,3) e p by (auto simp: tableInv_def usedPortsOf_mem)
  ultimately show False by simp
qed

interpretation table: socket_table tableInv tcpConnMap keyOfConn tableExec tableLegal getEphemeralPort sp_localPort
proof
  show "tableInv m \<Longrightarrow> tableLegal a m \<Longrightarrow> tableExec a m = Inr m' \<Longrightarrow> tableInv m'" for m a m'
    by (rule tableExec_inv)
  show "tableInv m \<Longrightarrow> tcpConnMap m k = Some r \<Longrightarrow> keyOfConn m r = Some k" for m k r
    by (auto simp: tableInv_def keyOfConn_def)
  show "tableInv m \<Longrightarrow> getEphemeralPort m = Inr (p, m') \<Longrightarrow> tcpConnMap m k = Some r \<Longrightarrow> sp_localPort k \<noteq> p" for m p m' k r
    by (rule getEphemeralPort_free)
qed

lemma newMain_inv: "tableInv newMain"
  by (simp add: tableInv_def newMain_def usedPortsOf_def isEphemeral_def)

section \<open>Dispatch of segments\<close>

lemma firstOf_simps [simp]:
  "firstOf [] = None" "firstOf (None # xs) = firstOf xs" "firstOf (Some y # xs) = Some y"
  by (simp_all add: firstOf_def)

lemma firstOf_cons: "firstOf (x # xs) = (case x of None \<Rightarrow> firstOf xs | Some y \<Rightarrow> Some y)"
  by (cases x) simp_all

lemma segmentKeys_simps:
  "segmentKeys seg src dest = [\<lparr>sp_localAddr = dest, sp_remoteAddr = src, sp_localPort = uint (destPort seg), sp_remotePort = uint (srcPort seg)\<rparr>,
     \<lparr>sp_localAddr = Unspecified, sp_remoteAddr = src, sp_localPort = uint (destPort seg), sp_remotePort = uint (srcPort seg)\<rparr>,
     \<lparr>sp_localAddr = dest, sp_remoteAddr = Unspecified, sp_localPort = uint (destPort seg), sp_remotePort = -1\<rparr>,
     \<lparr>sp_localAddr = Unspecified, sp_remoteAddr = Unspecified, sp_localPort = uint (destPort seg), sp_remotePort = -1\<rparr>]"
  by (simp add: segmentKeys_def)

lemma uint_port_ne [simp]: "uint (p :: u16) \<noteq> -1"
  using uint_ge_0 [of p] by linarith

lemma findConn_listener:
  assumes inv: "tableInv m" and find: "findConnForSegment seg src dest m = Some r"
    and c: "conns m r = Some c" "remotePort c = -1"
  shows "tcpConnMap m (segmentKey seg src dest) = None" "localPort c = uint (destPort seg)"
    "tcpConnMap m (sockPairOf c) = Some r" "remoteAddr c = Unspecified"
    "tcpConnMap m ((segmentKey seg src dest)\<lparr>sp_localAddr := Unspecified\<rparr>) = None"
    "localAddr c = dest \<or> (localAddr c = Unspecified \<and>
       tcpConnMap m \<lparr>sp_localAddr = dest, sp_remoteAddr = Unspecified, sp_localPort = uint (destPort seg), sp_remotePort = -1\<rparr> = None)"
proof -
  have own: "k = sockPairOf c" if "tcpConnMap m k = Some r" for k
    using table.filed [OF inv that] c by (simp add: keyOfConn_def)
  have rp: "sp_remotePort k \<noteq> -1 \<Longrightarrow> tcpConnMap m k \<noteq> Some r" for k using own [of k] c by (auto simp: sockPairOf_def)
  let ?k1 = "segmentKey seg src dest"
  let ?k2 = "?k1\<lparr>sp_localAddr := Unspecified\<rparr>"
  let ?k3 = "\<lparr>sp_localAddr = dest, sp_remoteAddr = Unspecified, sp_localPort = uint (destPort seg), sp_remotePort = -1\<rparr>"
  let ?k4 = "?k3\<lparr>sp_localAddr := Unspecified\<rparr>"
  have f: "firstOf [tcpConnMap m ?k1, tcpConnMap m ?k2, tcpConnMap m ?k3, tcpConnMap m ?k4] = Some r"
    using find by (simp add: findConnForSegment_def segmentKeys_simps segmentKey_def)
  have "sp_remotePort ?k1 \<noteq> -1" "sp_remotePort ?k2 \<noteq> -1" by (simp_all add: segmentKey_def segmentKeys_simps)
  then have "tcpConnMap m ?k1 \<noteq> Some r" "tcpConnMap m ?k2 \<noteq> Some r" using rp by blast+
  with f have n: "tcpConnMap m ?k1 = None" "tcpConnMap m ?k2 = None"
    and l: "tcpConnMap m ?k3 = Some r \<or> (tcpConnMap m ?k3 = None \<and> tcpConnMap m ?k4 = Some r)"
    by (auto simp: firstOf_cons split: option.splits)
  from n show "tcpConnMap m ?k1 = None" "tcpConnMap m ?k2 = None" .
  from l own [of ?k3] own [of ?k4] show "localPort c = uint (destPort seg)" "remoteAddr c = Unspecified"
    "tcpConnMap m (sockPairOf c) = Some r" "localAddr c = dest \<or> (localAddr c = Unspecified \<and> tcpConnMap m ?k3 = None)"
    by (auto simp: sockPairOf_def)
qed

text \<open>A fork files the old object under the full pair and the new one in its place.\<close>

lemma addForkedConnection_effect:
  assumes inv: "tableInv m" and c: "conns m r = Some c" "tcpConnMap m (sockPairOf c) = Some r"
    and key: "tcpConnMap m key = None" "sp_localPort key = localPort c"
    and d: "conns m n = Some d" "sockPairOf d = sockPairOf c" "n \<noteq> r" "\<not> registered n m"
    and app: "appKeyOf d = appKeyOf c" "u \<noteq> connId c"
  shows "\<exists>m'. addForkedConnection u r n key m = Inr m' \<and> tableInv m' \<and>
     tcpConnMap m' = (tcpConnMap m)(key \<mapsto> r, sockPairOf c \<mapsto> n) \<and>
     tcpAppConnMap m' = (tcpAppConnMap m)((appGateIndex c, u) \<mapsto> r, appKeyOf c \<mapsto> n)"
proof -
  have ne: "key \<noteq> sockPairOf c" using c key by auto
  define c1 where "c1 = setSockPair key c"
  define m1 where "m1 = (putConn r c1 m)\<lparr>tcpConnMap := (tcpConnMap m)(sockPairOf c := None, key \<mapsto> r)\<rparr>"
  have u1: "updateSockPair r key m = Inr m1"
    using c key by (simp add: updateSockPair_def getConn_def m1_def c1_def)
  have inv1: "tableInv m1" using updateSockPair_inv [OF inv key(1) u1] by simp
  have d1: "conns m1 n = Some d" using d by (simp add: m1_def putConn_def)
  have reg1: "\<forall>k. tcpConnMap m1 k \<noteq> Some n" using d(3,4) by (auto simp: m1_def registered_def putConn_def)
  have ports: "-1 \<le> sp_localPort (sockPairOf d)" "sp_localPort (sockPairOf d) < 65536"
    using inv c(2) d(2) by (auto simp: tableInv_def)
  define m2 where "m2 = (putConn n (setSockPair (sockPairOf d) d) m1)
    \<lparr>tcpConnMap := (tcpConnMap m1)(sockPairOf d \<mapsto> n), usedEphemeralPorts := (if isEphemeral (sp_localPort (sockPairOf d))
        then add_mset (sp_localPort (sockPairOf d)) (usedEphemeralPorts m1) else usedEphemeralPorts m1)\<rparr>"
  have "tcpConnMap m1 (sockPairOf d) = None" using d(2) ne by (simp add: m1_def putConn_def)
  then have a1: "addSockPair n (sockPairOf d) m1 = Inr m2"
    using d1 by (simp add: addSockPair_def getConn_def m2_def putConn_def Let_def)
  have inv2: "tableInv m2" using addSockPair_inv [OF inv1 reg1 ports a1] by simp
  have c2: "conns m2 r = Some c1" using d(3) by (simp add: m2_def m1_def putConn_def)
  define m3 where "m3 = (putConn r (c1\<lparr>connId := u\<rparr>) m2)\<lparr>tcpAppConnMap :=
      (tcpAppConnMap m2)(appKeyOf c1 := None, (appGateIndex c, u) \<mapsto> r, appKeyOf d \<mapsto> n)\<rparr>"
  have f: "addForkedConnection u r n key m = Inr m3"
    using u1 d1 a1 c2 by (simp add: addForkedConnection_def getConn_def m3_def Let_def appKeyOf_def c1_def setSockPair_def)
  have "tableInv (putConn r (c1\<lparr>connId := u\<rparr>) m2)"
    using c2 by (intro putConn_inv [OF inv2]) (simp add: sockPairOf_def)
  then have inv3: "tableInv m3" by (simp add: m3_def tableInv_def)
  have map3: "tcpConnMap m3 = (tcpConnMap m)(key \<mapsto> r, sockPairOf c \<mapsto> n)"
    using d(2) ne by (auto simp: m3_def m2_def m1_def putConn_def fun_upd_def)
  have "tcpAppConnMap m3 = (tcpAppConnMap m)((appGateIndex c, u) \<mapsto> r, appKeyOf c \<mapsto> n)"
    using app by (auto simp: m3_def m2_def m1_def putConn_def c1_def setSockPair_def appKeyOf_def fun_upd_def)
  with f inv3 map3 show ?thesis by blast
qed

text \<open>Who a segment is dispatched to once a table has a new pair and a new listener.\<close>

lemma findConn_after_fork:
  assumes inv: "tableInv m" and find: "findConnForSegment seg src dest m = Some r"
    and c: "conns m r = Some c" "remotePort c = -1"
    and key: "sp_remotePort key \<noteq> -1" "tcpConnMap m key = None"
    and m': "tcpConnMap m' = (tcpConnMap m)(key \<mapsto> r, sockPairOf c \<mapsto> n)"
  shows "findConnForSegment seg src dest m' =
    (if key = segmentKey seg src dest \<or> key = (segmentKey seg src dest)\<lparr>sp_localAddr := Unspecified\<rparr> then Some r else Some n)"
proof -
  note l = findConn_listener [OF inv find c]
  have sp: "sp_remotePort (sockPairOf c) = -1" "sockPairOf c =
     \<lparr>sp_localAddr = localAddr c, sp_remoteAddr = Unspecified, sp_localPort = uint (destPort seg), sp_remotePort = -1\<rparr>"
    using c l(2,4) by (simp_all add: sockPairOf_def)
  show ?thesis using l(1,3,5,6) key unfolding sp(2)
    by (auto simp: findConnForSegment_def segmentKeys_simps segmentKey_def firstOf_cons m' sp(2) split: option.splits)
qed

section \<open>Properties\<close>

fun tableRun :: "table_op list \<Rightarrow> tcp_main \<Rightarrow> tcp_main res" where
  "tableRun [] m = Inr m"
| "tableRun (a # as) m =
     (if tableLegal a m then bindR (tableExec a m) (tableRun as) else Inl (RuntimeError ''illegal operation''))"

lemma tableRun_eq: "tableRun as m = table.runOps as m"
proof (induction as arbitrary: m)
  case (Cons a as)
  then have "tableRun as = table.runOps as" by auto
  then show ?case by simp
qed simp


definition sampleRun :: "table_op list" where
  "sampleRun = [TNew 0 (newConnection (par (sampleConn TCP_S_INIT)) 1 0 7), TAdd 0 \<lparr>sp_localAddr = Unspecified, sp_remoteAddr = Unspecified, sp_localPort = 1025, sp_remotePort = -1\<rparr>,
     TUpdate 0 \<lparr>sp_localAddr = Address 1, sp_remoteAddr = Address 2, sp_localPort = 1025, sp_remotePort = 80\<rparr>]"

lemma sampleRun_ok: "\<exists>m. tableRun sampleRun newMain = Inr m \<and>
    tcpConnMap m = [\<lparr>sp_localAddr = Address 1, sp_remoteAddr = Address 2, sp_localPort = 1025, sp_remotePort = 80\<rparr> \<mapsto> 0]"
  by (simp add: sampleRun_def newMain_def registered_def addSockPair_def updateSockPair_def getConn_def putConn_def Let_def
      sockPairOf_def setSockPair_def fun_upd_def) (simp add: fun_eq_iff)


text \<open>
  Ephemeral ports. After any such sequence, \<open>getEphemeralPort\<close> returns a port of the range that no
  registered connection has as its local port whenever there is one, however full the range is, and
  otherwise reports that the range is exhausted; its search ends in either case.
\<close>

lemma getEphemeralPort_unused:
  assumes "tableRun ops newMain = Inr m"
  shows "if \<exists>p. isEphemeral p \<and> (\<forall>k\<in>dom (tcpConnMap m). sp_localPort k \<noteq> p)
     then \<exists>p. getEphemeralPort m = Inr (p, m\<lparr>lastEphemeralPort := p\<rparr>) \<and> isEphemeral p \<and>
            (\<forall>k\<in>dom (tcpConnMap m). sp_localPort k \<noteq> p)
     else getEphemeralPort m = Inl (RuntimeError ''Ephemeral port range exhausted, all ports occupied'')"
proof -
  have inv: "tableInv m" by (rule table.run_inv [OF newMain_inv]) (use assms in \<open>simp add: tableRun_eq\<close>)
  have u: "isEphemeral p \<Longrightarrow> (p \<notin># usedEphemeralPorts m) = (\<forall>k\<in>dom (tcpConnMap m). sp_localPort k \<noteq> p)" for p
    using inv by (auto simp: tableInv_def usedPortsOf_mem)
  have "isEphemeral (lastEphemeralPort m)" using inv by (simp add: tableInv_def)
  note spec = getEphemeralPort_spec [OF this]
  have e: "(\<exists>p. isEphemeral p \<and> p \<notin># usedEphemeralPorts m) = (\<exists>p. isEphemeral p \<and> (\<forall>k\<in>dom (tcpConnMap m). sp_localPort k \<noteq> p))"
    using u by blast
  show ?thesis
  proof (cases "\<exists>p. isEphemeral p \<and> (\<forall>k\<in>dom (tcpConnMap m). sp_localPort k \<noteq> p)")
    case True
    with spec show ?thesis unfolding e if_P [OF True] using u by blast
  next
    case False
    from spec show ?thesis unfolding e if_not_P [OF False] .
  qed
qed

text \<open>
  A forking server keeps listening. When a segment reaches a listening connection because no
  connection with its exact pair exists, \<open>addForkedConnection\<close> fails no assertion and meets no
  occupied pair; afterwards further segments of that peer reach the old object, segments of any other
  peer that would have reached the listener reach the new one, which also takes over the application's
  connection id, and the table invariant holds.
\<close>

lemma fork_keeps_listener:
  assumes "tableInv m" "findConnForSegment seg src dest m = Some r" "conns m r = Some c" "remotePort c = -1"
    and "conns m n = Some d" "sockPairOf d = sockPairOf c" "appKeyOf d = appKeyOf c" "n \<noteq> r" "\<not> registered n m"
    and "u \<noteq> connId c"
  shows "\<exists>m'. addForkedConnection u r n (segmentKey seg src dest) m = Inr m' \<and> tableInv m' \<and>
     findConnForSegment seg src dest m' = Some r \<and>
     (\<forall>seg2 src2 dest2. findConnForSegment seg2 src2 dest2 m = Some r \<and> (src2, srcPort seg2) \<noteq> (src, srcPort seg) \<longrightarrow>
        findConnForSegment seg2 src2 dest2 m' = Some n) \<and>
     findConnForApp (appGateIndex c) (connId c) m' = Some n \<and> findConnForApp (appGateIndex c) u m' = Some r"
proof -
  note l = findConn_listener [OF assms(1-4)]
  have kp: "sp_localPort (segmentKey seg src dest) = localPort c" "sp_remotePort (segmentKey seg src dest) \<noteq> -1"
    using l(2) by (simp_all add: segmentKey_def segmentKeys_simps)
  obtain m' where m': "addForkedConnection u r n (segmentKey seg src dest) m = Inr m'" "tableInv m'"
     "tcpConnMap m' = (tcpConnMap m)(segmentKey seg src dest \<mapsto> r, sockPairOf c \<mapsto> n)"
     "tcpAppConnMap m' = (tcpAppConnMap m)((appGateIndex c, u) \<mapsto> r, appKeyOf c \<mapsto> n)"
    using addForkedConnection_effect [OF assms(1,3) l(3,1) kp(1) assms(5,6,8,9,7,10)] by blast
  have same: "findConnForSegment seg src dest m' = Some r"
    using findConn_after_fork [OF assms(1-4) kp(2) l(1) m'(3)] by simp
  have other: "findConnForSegment seg2 src2 dest2 m' = Some n"
    if "findConnForSegment seg2 src2 dest2 m = Some r" "(src2, srcPort seg2) \<noteq> (src, srcPort seg)" for seg2 src2 dest2
    using findConn_after_fork [OF assms(1) that(1) assms(3,4) kp(2) l(1) m'(3)] that(2)
    by (auto simp: segmentKey_def segmentKeys_simps word_uint_eq_iff)
  show ?thesis
    using m'(1,2) same other assms(10) by (auto simp: findConnForApp_def m'(4) appKeyOf_def)
qed

definition sampleListener :: tcp_conn where
  "sampleListener = (newConnection (par (sampleConn TCP_S_INIT)) 1 0 7)\<lparr>fsm := TCP_S_LISTEN, localPort := 80\<rparr>"

definition sampleServer :: tcp_main where
  "sampleServer = newMain\<lparr>conns := [0 \<mapsto> sampleListener, 1 \<mapsto> sampleListener], tcpConnMap := [sockPairOf sampleListener \<mapsto> 0],
     tcpAppConnMap := [(0, 7) \<mapsto> 0]\<rparr>"

lemma sampleListener_simps:
  "sockPairOf sampleListener = \<lparr>sp_localAddr = Unspecified, sp_remoteAddr = Unspecified, sp_localPort = 80, sp_remotePort = -1\<rparr>"
  "remotePort sampleListener = -1" "connId sampleListener = 7" "appGateIndex sampleListener = 0"
  by (simp_all add: sampleListener_def sockPairOf_def newConnection_def tcp_alg_state_variables.defs)

lemma sampleServer_inv: "tableInv sampleServer"
proof -
  have e: "{k. (k = \<lparr>sp_localAddr = Unspecified, sp_remoteAddr = Unspecified, sp_localPort = 80, sp_remotePort = -1\<rparr>) \<and> isEphemeral (sp_localPort k)} = {}"
    by (auto simp: isEphemeral_def)
  show ?thesis
    by (auto simp: tableInv_def sampleServer_def newMain_def sampleListener_simps usedPortsOf_def e split: if_splits)
      (simp_all add: isEphemeral_def)
qed

end
