(* ===== verification/Tcp_Open.thy ===== *)
theory Tcp_Open
  imports Tcp_Rcv Tcp_Main
begin

text \<open>
  Opening of connections: the handlers that change the socket table as well as the connection
  (\<open>src/inet/transportlayer/tcp/TCPConnectionUtil.cc\<close>: \<open>initConnection\<close>, \<open>configureStateVariables\<close>,
  \<open>selectInitialSeqNum\<close>, \<open>cloneListeningConnection\<close>; \<open>TCPConnectionRcvSegment.cc\<close>:
  \<open>processSegmentInListen\<close>, \<open>processSegmentInSynSent\<close>; \<open>TCPConnectionEventProc.cc\<close>:
  \<open>process_OPEN_ACTIVE\<close>, \<open>process_OPEN_PASSIVE\<close>). They work on the module state and a reference to
  the connection. Connections transfer byte counts (\<open>TCP_TRANSFER_BYTECOUNT\<close>).
\<close>

section \<open>Access to the connection\<close>

text \<open>Run an operation on the object behind a reference.\<close>

definition onConn :: "conn_ref \<Rightarrow> (tcp_conn \<Rightarrow> ('a \<times> tcp_conn) res) \<Rightarrow> tcp_main \<Rightarrow> ('a \<times> tcp_main) res" where
  "onConn r f m = bindR (getConn r m) (\<lambda>c. bindR (f c) (\<lambda>(x, c'). Inr (x, putConn r c' m)))"

definition updConn :: "conn_ref \<Rightarrow> (tcp_conn \<Rightarrow> tcp_conn res) \<Rightarrow> tcp_main \<Rightarrow> tcp_main res" where
  "updConn r f m = bindR (getConn r m) (\<lambda>c. bindR (f c) (\<lambda>c'. Inr (putConn r c' m)))"

text \<open>What the runtime system supplies when an object is created: an unused address, and the number that
  \<open>getEnvir()->getUniqueNumber()\<close> returns.\<close>

record runtime_env =
  env_newRef :: conn_ref
  env_uniqueNumber :: int

section \<open>Initialization\<close>

record open_command =
  open_localAddr :: l3_address
  open_remoteAddr :: l3_address
  open_localPort :: int
  open_remotePort :: int
  open_fork :: bool
  open_tcpAlgorithmClass :: "flavour option"

definition configureStateVariables :: "tcp_conn \<Rightarrow> tcp_conn res" where
  "configureStateVariables c =
     (let p = par c; adv = par_advertisedWindow p
      in if \<not> par_windowScalingSupport p \<and> (adv > 65535 \<or> adv \<le> 0)
         then Inl (RuntimeError ''Invalid advertisedWindow parameter'')
         else
           let wnd = (if par_windowScalingSupport p \<and> adv > 65535 then TCP_MAX_WIN else of_int adv);
               c1 = c\<lparr>ws_support := par_windowScalingSupport p, ws_manual_scale := par_windowScalingFactor p,
                      rcv_wnd := wnd, rcv_adv := wnd, maxRcvBuffer := of_int adv,
                      delayed_acks_enabled := par_delayedAcksEnabled p, nagle_enabled := par_nagleEnabled p,
                      limited_transmit_enabled := par_limitedTransmitEnabled p,
                      increased_IW_enabled := par_increasedIWEnabled p, snd_mss := of_int (par_mss p),
                      ts_support := par_timestampSupport p, sack_support := par_sackSupport p\<rparr>
           in bindR (assertR (sack_support c1 \<longrightarrow> par_tcpAlgorithmClass p = TCPReno) ''configureStateVariables'') (\<lambda>_.
              Inr c1))"

text \<open>The state block is created afresh with the algorithm, hence all variables have their initial values.\<close>

definition freshState :: "flavour \<Rightarrow> tcp_conn \<Rightarrow> tcp_conn" where
  "freshState fl c =
     (newConnection (par c) (now c) (appGateIndex c) (connId c))
       \<lparr>localAddr := localAddr c, remoteAddr := remoteAddr c, localPort := localPort c, remotePort := remotePort c,
        fsm := fsm c, the2MSLTimer := the2MSLTimer c, connEstabTimer := connEstabTimer c,
        finWait2Timer := finWait2Timer c, synRexmitTimer := synRexmitTimer c, actions := actions c,
        tcpAlgorithm := Some fl\<rparr>"

definition initConnection :: "open_command \<Rightarrow> tcp_conn \<Rightarrow> tcp_conn res" where
  "initConnection openCmd c =
     (let fl = (case open_tcpAlgorithmClass openCmd of None \<Rightarrow> par_tcpAlgorithmClass (par c) | Some f \<Rightarrow> f)
      in bindR (configureStateVariables (freshState fl c)) algInitialize)"

text \<open>\<open>fmod(simTime() * 250000.0, 2^32)\<close>, truncated.\<close>

definition selectInitialSeqNum :: "tcp_conn \<Rightarrow> tcp_conn" where
  "selectInitialSeqNum c =
     (let s = of_int \<lfloor>now c * 250000\<rfloor>
      in c\<lparr>iss := s, snd_una := s, snd_nxt := s, snd_max := s, sendQ := sq_init (sendQ c) (s + 1),
           rexmitQ := rq_init (rexmitQ c) (s + 1)\<rparr>)"

text \<open>\<open>configureStateVariables()\<close> is called on the forking connection, not on the clone, as in the source.\<close>

definition cloneListeningConnection :: "tcp_conn \<Rightarrow> (tcp_conn \<times> tcp_conn) res" where
  "cloneListeningConnection c = withAlg c (\<lambda>fl.
     let conn = (newConnection (par c) (now c) (appGateIndex c) (connId c))\<lparr>tcpAlgorithm := Some fl\<rparr>
     in bindR (configureStateVariables c) (\<lambda>c1.
        bindR (algInitialize conn) (\<lambda>conn1.
        Inr (conn1\<lparr>active := False, fork := True, localAddr := localAddr c1, localPort := localPort c1,
                   fsm := TCP_S_LISTEN\<rparr>, c1))))"

section \<open>OPEN commands\<close>

definition scheduleConnEstab :: "tcp_conn \<Rightarrow> tcp_conn res" where
  "scheduleConnEstab c =
     bindR (scheduleTimeout TCP_TIMEOUT_CONN_ESTAB (connEstabTimer c) c) (\<lambda>t. Inr (c\<lparr>connEstabTimer := t\<rparr>))"

definition sendInitialSyn :: "tcp_conn \<Rightarrow> tcp_conn res" where
  "sendInitialSyn c =
     bindR (sendSyn (selectInitialSeqNum c)) (\<lambda>c1.
     bindR (startSynRexmitTimer c1) scheduleConnEstab)"

definition choosePort :: "int \<Rightarrow> tcp_main \<Rightarrow> (int \<times> tcp_main) res" where
  "choosePort port m = (if port = -1 then getEphemeralPort m else Inr (port, m))"

definition process_OPEN_ACTIVE :: "open_command \<Rightarrow> conn_ref \<Rightarrow> tcp_main \<Rightarrow> tcp_main res" where
  "process_OPEN_ACTIVE openCmd r m =
     bindR (getConn r m) (\<lambda>c.
     if fsm c \<noteq> TCP_S_INIT
     then Inl (RuntimeError ''Error processing command OPEN_ACTIVE: connection already exists'')
     else
       bindR (initConnection openCmd c) (\<lambda>c1.
       if open_remoteAddr openCmd = Unspecified \<or> open_remotePort openCmd = -1
       then Inl (RuntimeError ''Error processing command OPEN_ACTIVE: remote address and port must be specified'')
       else
         bindR (choosePort (open_localPort openCmd) (putConn r (c1\<lparr>active := True\<rparr>) m)) (\<lambda>(port, m1).
         bindR (addSockPair r \<lparr>sp_localAddr = open_localAddr openCmd, sp_remoteAddr = open_remoteAddr openCmd,
                               sp_localPort = port, sp_remotePort = open_remotePort openCmd\<rparr> m1) (\<lambda>m2.
         updConn r sendInitialSyn m2))))"

definition process_OPEN_PASSIVE :: "open_command \<Rightarrow> conn_ref \<Rightarrow> tcp_main \<Rightarrow> tcp_main res" where
  "process_OPEN_PASSIVE openCmd r m =
     bindR (getConn r m) (\<lambda>c.
     if fsm c \<noteq> TCP_S_INIT
     then Inl (RuntimeError ''Error processing command OPEN_PASSIVE: connection already exists'')
     else
       bindR (initConnection openCmd c) (\<lambda>c1.
       if open_localPort openCmd = -1
       then Inl (RuntimeError ''Error processing command OPEN_PASSIVE: local port must be specified'')
       else
         addSockPair r \<lparr>sp_localAddr = open_localAddr openCmd, sp_remoteAddr = Unspecified,
                        sp_localPort = open_localPort openCmd, sp_remotePort = -1\<rparr>
           (putConn r (c1\<lparr>active := False, fork := open_fork openCmd\<rparr>) m)))"

section \<open>Segments in \<open>LISTEN\<close>\<close>

text \<open>Text that comes with a SYN is queued; \<open>False\<close> if there is no room.\<close>

definition queueSynText :: "tcp_segment \<Rightarrow> tcp_conn \<Rightarrow> (bool \<times> tcp_conn) res" where
  "queueSynText seg c =
     (if payloadLength seg > 0
      then
        let c1 = updateRcvQueueVars c
        in if hasEnoughSpaceForSegmentInReceiveQueue seg c1
           then bindR (insertBytesFromSegment (receiveQ c1) seg) (\<lambda>q. Inr (True, c1\<lparr>receiveQ := q\<rparr>))
           else Inr (False, c1\<lparr>tcpRcvQueueDrops := tcpRcvQueueDrops c1 + 1\<rparr>)
      else Inr (True, c))"

text \<open>The peer's initial sequence number.\<close>

definition synchronizeReceiver :: "tcp_segment \<Rightarrow> tcp_conn \<Rightarrow> tcp_conn" where
  "synchronizeReceiver seg c =
     (let nxt = sequenceNo seg + 1
      in c\<lparr>rcv_nxt := nxt, rcv_adv := nxt + rcv_wnd c, irs := sequenceNo seg, receiveQ := rcvq_init (receiveQ c) nxt\<rparr>)"

definition readOptions :: "tcp_segment \<Rightarrow> tcp_conn \<Rightarrow> tcp_conn res" where
  "readOptions seg c = (if hasOptions seg then readHeaderOptions seg c else Inr c)"

definition answerSyn :: "tcp_segment \<Rightarrow> tcp_conn \<Rightarrow> (tcp_event_code \<times> tcp_conn) res" where
  "answerSyn seg c =
     bindR (readOptions seg (updateWndInfo seg True (selectInitialSeqNum (synchronizeReceiver seg c)))) (\<lambda>c1.
     bindR (sendSynAck (c1\<lparr>ack_now := True\<rparr>)) (\<lambda>c2.
     bindR (startSynRexmitTimer c2) (\<lambda>c3.
     bindR (if \<not> isScheduled (connEstabTimer c3) then scheduleConnEstab c3 else Inr c3) (\<lambda>c4.
     bindR (queueSynText seg c4) (\<lambda>(ok, c5).
     Inr (if ok then TCP_E_RCV_SYN else TCP_E_IGNORE, c5))))))"

definition processSegmentInListen :: "runtime_env \<Rightarrow> tcp_segment \<Rightarrow> l3_address \<Rightarrow> l3_address \<Rightarrow> conn_ref \<Rightarrow> tcp_main \<Rightarrow>
     (tcp_event_code \<times> tcp_main) res" where
  "processSegmentInListen env seg srcAddr destAddr r m =
     bindR (getConn r m) (\<lambda>c.
     if rstBit seg then Inr (TCP_E_IGNORE, m)
     else if ackBit seg
     then Inr (TCP_E_IGNORE, putConn r (sendRstTo (ackNo seg) destAddr srcAddr (uint (destPort seg)) (uint (srcPort seg)) c) m)
     else if synBit seg
     then
       let key = segmentKey seg srcAddr destAddr
       in bindR (if fork c
                 then bindR (cloneListeningConnection c) (\<lambda>(conn, c1).
                      addForkedConnection (env_uniqueNumber env) r (env_newRef env) key
                        (putConn (env_newRef env) conn (putConn r c1 m)))
                 else updateSockPair r key m) (\<lambda>m1.
          onConn r (answerSyn seg) m1)
     else Inr (TCP_E_IGNORE, m))"

section \<open>Segments in \<open>SYN_SENT\<close>\<close>

definition badSynAck :: "tcp_segment \<Rightarrow> tcp_conn \<Rightarrow> bool" where
  "badSynAck seg c \<longleftrightarrow> ackBit seg \<and> (seqLE (ackNo seg) (iss c) \<or> seqGreater (ackNo seg) (snd_nxt c))"

text \<open>The SYN of the peer, with or without an ACK of ours, up to the point where the local address is learnt.\<close>

definition acceptSyn :: "tcp_segment \<Rightarrow> tcp_conn \<Rightarrow> tcp_conn res" where
  "acceptSyn seg c =
     (let c1 = synchronizeReceiver seg c
      in if ackBit seg
         then
           let c2 = c1\<lparr>snd_una := ackNo seg\<rparr>
           in bindR (sq_discardUpTo (sendQ c2) (snd_una c2)) (\<lambda>sq.
              bindR (if sack_enabled c2 then rq_discardUpTo (rexmitQ c2) (snd_una c2) else Inr (rexmitQ c2)) (\<lambda>rq.
              Inr (updateWndInfo seg True (c2\<lparr>sendQ := sq, rexmitQ := rq\<rparr>))))
         else Inr c1)"

definition completeOpen :: "tcp_segment \<Rightarrow> tcp_conn \<Rightarrow> (tcp_event_code \<times> tcp_conn) res" where
  "completeOpen seg c =
     bindR (queueSynText seg c) (\<lambda>(ok, c1).
     if \<not> ok then Inr (TCP_E_IGNORE, c1)
     else
       bindR (readOptions seg c1) (\<lambda>c2.
       bindR (algEstablished True (c2\<lparr>ack_now := True\<rparr>)) (\<lambda>c3.
       Inr (TCP_E_RCV_SYN_ACK, sendEstabIndicationToApp c3))))"

definition simultaneousOpen :: "tcp_segment \<Rightarrow> tcp_conn \<Rightarrow> (tcp_event_code \<times> tcp_conn) res" where
  "simultaneousOpen seg c =
     bindR (sendSynAck (c\<lparr>snd_nxt := iss c, snd_max := iss c\<rparr>)) (\<lambda>c1.
     bindR (startSynRexmitTimer c1) (\<lambda>c2.
     bindR (queueSynText seg c2) (\<lambda>(ok, c3).
     Inr (if ok then TCP_E_RCV_SYN else TCP_E_IGNORE, c3))))"

definition processSegmentInSynSent :: "tcp_segment \<Rightarrow> l3_address \<Rightarrow> l3_address \<Rightarrow> conn_ref \<Rightarrow> tcp_main \<Rightarrow>
     (tcp_event_code \<times> tcp_main) res" where
  "processSegmentInSynSent seg srcAddr destAddr r m =
     bindR (getConn r m) (\<lambda>c.
     if badSynAck seg c
     then (if rstBit seg then Inr (TCP_E_IGNORE, m)
           else Inr (TCP_E_IGNORE, putConn r (sendRstTo (ackNo seg) destAddr srcAddr (uint (destPort seg)) (uint (srcPort seg)) c) m))
     else if rstBit seg
     then (if ackBit seg then Inr (TCP_E_RCV_RST, putConn r (sendIndicationToApp TCP_I_CONNECTION_RESET 0 c) m)
           else Inr (TCP_E_IGNORE, m))
     else if synBit seg
     then
       bindR (acceptSyn seg c) (\<lambda>c1.
       bindR (updateSockPair r (segmentKey seg srcAddr destAddr) (putConn r c1 m)) (\<lambda>m1.
       onConn r (\<lambda>c2. if seqGreater (snd_una c2) (iss c2) then completeOpen seg c2 else simultaneousOpen seg c2) m1))
     else Inr (TCP_E_IGNORE, m))"

end
