(* ===== verification/Tcp_App.thy ===== *)
theory Tcp_App
  imports Tcp_Open
begin

text \<open>
  Application commands, timers and message dispatch
  (\<open>src/inet/transportlayer/tcp/TCPConnectionEventProc.cc\<close>, \<open>TCPConnectionBase.cc\<close>:
  \<open>processTimer\<close>, \<open>processTCPSegment\<close>, \<open>processAppCommand\<close>; \<open>TCP.cc\<close>: \<open>handleMessage\<close>).
  What a handler sends is collected in the connection and moved to the module's outbox when the
  message has been handled.
\<close>

section \<open>Application commands\<close>

datatype app_command =
    OpenActive open_command
  | OpenPassive open_command
  | Send u64
  | Close
  | Abort
  | Status
  | QueueBytesLimit int
  | Read
  | UnknownCommand int

definition updateQueueLimit :: "tcp_conn \<Rightarrow> tcp_conn" where
  "updateQueueLimit c =
     (if sendQueueLimit c > 0 \<and> getBytesAvailable (sendQ c) (snd_una c) > ucast (sendQueueLimit c)
      then c\<lparr>queueUpdate := False\<rparr> else c)"

definition enqueueSend :: "u64 \<Rightarrow> tcp_conn \<Rightarrow> tcp_conn res" where
  "enqueueSend byteLength c = bindR (enqueueAppData (sendQ c) byteLength) (\<lambda>q. Inr (c\<lparr>sendQ := q\<rparr>))"

definition process_SEND :: "u64 \<Rightarrow> tcp_conn \<Rightarrow> tcp_conn res" where
  "process_SEND byteLength c =
     bindR (case fsm c of
              TCP_S_INIT \<Rightarrow> Inl (RuntimeError ''Error processing command SEND: connection not open'')
            | TCP_S_LISTEN \<Rightarrow> bindR (sendInitialSyn (c\<lparr>active := True\<rparr>)) (enqueueSend byteLength)
            | TCP_S_SYN_RCVD \<Rightarrow> enqueueSend byteLength c
            | TCP_S_SYN_SENT \<Rightarrow> enqueueSend byteLength c
            | TCP_S_ESTABLISHED \<Rightarrow> bindR (enqueueSend byteLength c) algSendCommandInvoked
            | TCP_S_CLOSE_WAIT \<Rightarrow> bindR (enqueueSend byteLength c) algSendCommandInvoked
            | TCP_S_CLOSED \<Rightarrow> Inr c
            | _ \<Rightarrow> Inl (RuntimeError ''Error processing command SEND: connection closing'')) (\<lambda>c1.
     Inr (updateQueueLimit c1))"

definition process_READ_REQUEST :: "tcp_conn \<Rightarrow> tcp_conn res" where
  "process_READ_REQUEST c = withAlg c (\<lambda>fl. extractAll c)"

text \<open>With nothing left to send the FIN goes out now; otherwise it is deferred.\<close>

definition closeNow :: "tcp_conn \<Rightarrow> tcp_conn res" where
  "closeNow c =
     bindR (sendFin (c\<lparr>snd_nxt := snd_max c\<rparr>)) (\<lambda>c1.
     bindR (restartRexmitTimer c1) (\<lambda>c2.
     Inr (c2\<lparr>snd_nxt := snd_nxt c2 + 1, snd_max := snd_nxt c2 + 1\<rparr>)))"

definition process_CLOSE :: "tcp_event_code \<Rightarrow> tcp_conn \<Rightarrow> (tcp_event_code \<times> tcp_conn) res" where
  "process_CLOSE event c =
     (case fsm c of
        TCP_S_INIT \<Rightarrow> Inl (RuntimeError ''Error processing command CLOSE: connection not open'')
      | TCP_S_LISTEN \<Rightarrow> Inr (event, c)
      | TCP_S_SYN_SENT \<Rightarrow> Inr (event, c)
      | TCP_S_CLOSED \<Rightarrow> Inr (event, c)
      | _ \<Rightarrow>
         if fsm c \<in> {TCP_S_SYN_RCVD, TCP_S_ESTABLISHED, TCP_S_CLOSE_WAIT}
         then bindR (if snd_max c = getBufferEndSeq (sendQ c)
                     then bindR (closeNow c) (\<lambda>c1. Inr (event, c1))
                     else Inr (TCP_E_IGNORE, c)) (\<lambda>(event', c2).
              Inr (event', c2\<lparr>send_fin := True, snd_fin_seq := getBufferEndSeq (sendQ c2)\<rparr>))
         else Inl (RuntimeError ''Duplicate CLOSE command: connection already closing''))"

definition process_ABORT :: "tcp_conn \<Rightarrow> tcp_conn res" where
  "process_ABORT c =
     (if fsm c = TCP_S_INIT then Inl (RuntimeError ''Error processing command ABORT: connection not open'')
      else if fsm c \<in> {TCP_S_SYN_RCVD, TCP_S_ESTABLISHED, TCP_S_FIN_WAIT_1, TCP_S_FIN_WAIT_2, TCP_S_CLOSE_WAIT}
      then Inr (sendRst (snd_nxt c) c)
      else Inr c)"

definition process_STATUS :: "tcp_conn \<Rightarrow> tcp_conn res" where
  "process_STATUS c =
     (if fsm c = TCP_S_INIT then Inl (RuntimeError ''Error processing command STATUS: connection not open'')
      else Inr (emit (StatusToApp (fsm c) (localAddr c, remoteAddr c, localPort c, remotePort c)
                        (tcp_state_variables.truncate c)) c))"

definition process_QUEUE_BYTES_LIMIT :: "int \<Rightarrow> tcp_conn \<Rightarrow> tcp_conn res" where
  "process_QUEUE_BYTES_LIMIT userId c =
     (if tcpAlgorithm c = None then Inl (RuntimeError ''Called process_QUEUE_BYTES_LIMIT on uninitialized TCPConnection!'')
      else Inr (c\<lparr>sendQueueLimit := of_int userId\<rparr>))"

fun preanalyseAppCommandEvent :: "app_command \<Rightarrow> tcp_event_code res" where
  "preanalyseAppCommandEvent (OpenActive oc) = Inr TCP_E_OPEN_ACTIVE"
| "preanalyseAppCommandEvent (OpenPassive oc) = Inr TCP_E_OPEN_PASSIVE"
| "preanalyseAppCommandEvent (Send n) = Inr TCP_E_SEND"
| "preanalyseAppCommandEvent Close = Inr TCP_E_CLOSE"
| "preanalyseAppCommandEvent Abort = Inr TCP_E_ABORT"
| "preanalyseAppCommandEvent Status = Inr TCP_E_STATUS"
| "preanalyseAppCommandEvent (QueueBytesLimit n) = Inr TCP_E_QUEUE_BYTES_LIMIT"
| "preanalyseAppCommandEvent Read = Inr TCP_E_READ"
| "preanalyseAppCommandEvent (UnknownCommand k) = Inl (RuntimeError ''Unknown message kind in app command'')"

section \<open>The three entry points of a connection\<close>

text \<open>The state transition after the actions.\<close>

definition transition :: "conn_ref \<Rightarrow> tcp_event_code \<Rightarrow> tcp_main \<Rightarrow> (bool \<times> tcp_main) res" where
  "transition r event m = onConn r (performStateTransition event) m"

definition keepEvent :: "tcp_event_code \<Rightarrow> tcp_main res \<Rightarrow> (tcp_event_code \<times> tcp_main) res" where
  "keepEvent event x = bindR x (\<lambda>m. Inr (event, m))"

definition runCommand :: "app_command \<Rightarrow> tcp_event_code \<Rightarrow> conn_ref \<Rightarrow> tcp_main \<Rightarrow> (tcp_event_code \<times> tcp_main) res" where
  "runCommand cmd event r m =
     (case cmd of
        OpenActive oc \<Rightarrow> keepEvent event (process_OPEN_ACTIVE oc r m)
      | OpenPassive oc \<Rightarrow> keepEvent event (process_OPEN_PASSIVE oc r m)
      | Send n \<Rightarrow> keepEvent event (updConn r (process_SEND n) m)
      | Close \<Rightarrow> onConn r (process_CLOSE event) m
      | Abort \<Rightarrow> keepEvent event (updConn r process_ABORT m)
      | Status \<Rightarrow> keepEvent event (updConn r process_STATUS m)
      | QueueBytesLimit n \<Rightarrow> keepEvent event (updConn r (process_QUEUE_BYTES_LIMIT n) m)
      | Read \<Rightarrow> keepEvent event (updConn r process_READ_REQUEST m)
      | UnknownCommand k \<Rightarrow> Inl (RuntimeError ''wrong event code''))"

definition processAppCommand :: "app_command \<Rightarrow> conn_ref \<Rightarrow> tcp_main \<Rightarrow> (bool \<times> tcp_main) res" where
  "processAppCommand cmd r m =
     bindR (preanalyseAppCommandEvent cmd) (\<lambda>event.
     bindR (runCommand cmd event r m) (\<lambda>(event', m1). transition r event' m1))"

datatype conn_timer = T2MSL | TConnEstab | TFinWait2 | TSynRexmit | TAlg alg_timer

definition timerActions :: "conn_timer \<Rightarrow> tcp_conn \<Rightarrow> (tcp_event_code \<times> tcp_conn) res" where
  "timerActions tm c =
     (case tm of
        T2MSL \<Rightarrow> bindR (process_TIMEOUT_2MSL c) (\<lambda>c1. Inr (TCP_E_TIMEOUT_2MSL, c1))
      | TConnEstab \<Rightarrow> bindR (process_TIMEOUT_CONN_ESTAB c) (\<lambda>c1. Inr (TCP_E_TIMEOUT_CONN_ESTAB, c1))
      | TFinWait2 \<Rightarrow> bindR (process_TIMEOUT_FIN_WAIT_2 c) (\<lambda>c1. Inr (TCP_E_TIMEOUT_FIN_WAIT_2, c1))
      | TSynRexmit \<Rightarrow> process_TIMEOUT_SYN_REXMIT TCP_E_IGNORE c
      | TAlg a \<Rightarrow> algProcessTimer a TCP_E_IGNORE c)"

text \<open>A timer message that is delivered is no longer scheduled.\<close>

definition timerFired :: "conn_timer \<Rightarrow> tcp_conn \<Rightarrow> tcp_conn" where
  "timerFired tm c =
     (case tm of
        T2MSL \<Rightarrow> c\<lparr>the2MSLTimer := IdleTimer\<rparr>
      | TConnEstab \<Rightarrow> c\<lparr>connEstabTimer := IdleTimer\<rparr>
      | TFinWait2 \<Rightarrow> c\<lparr>finWait2Timer := IdleTimer\<rparr>
      | TSynRexmit \<Rightarrow> c\<lparr>synRexmitTimer := IdleTimer\<rparr>
      | TAlg REXMIT \<Rightarrow> c\<lparr>rexmitTimer := IdleTimer\<rparr>
      | TAlg PERSIST \<Rightarrow> c\<lparr>persistTimer := IdleTimer\<rparr>
      | TAlg DELAYEDACK \<Rightarrow> c\<lparr>delayedAckTimer := IdleTimer\<rparr>
      | TAlg KEEPALIVE \<Rightarrow> c\<lparr>keepAliveTimer := IdleTimer\<rparr>)"

definition processTimer :: "conn_timer \<Rightarrow> conn_ref \<Rightarrow> tcp_main \<Rightarrow> (bool \<times> tcp_main) res" where
  "processTimer tm r m =
     bindR (onConn r (\<lambda>c. timerActions tm (timerFired tm c)) m) (\<lambda>(event, m1). transition r event m1)"

definition process_RCV_SEGMENT :: "runtime_env \<Rightarrow> tcp_segment \<Rightarrow> l3_address \<Rightarrow> l3_address \<Rightarrow> conn_ref \<Rightarrow> tcp_main \<Rightarrow>
     (tcp_event_code \<times> tcp_main) res" where
  "process_RCV_SEGMENT env seg src dest r m =
     bindR (getConn r m) (\<lambda>c.
     if fsm c = TCP_S_LISTEN then processSegmentInListen env seg src dest r m
     else if fsm c = TCP_S_SYN_SENT then processSegmentInSynSent seg src dest r m
     else onConn r (processSegment1stThru8th seg) m)"

definition addressesMatch :: "tcp_segment \<Rightarrow> l3_address \<Rightarrow> l3_address \<Rightarrow> tcp_conn \<Rightarrow> bool" where
  "addressesMatch seg src dest c \<longleftrightarrow>
     (localAddr c \<noteq> Unspecified \<longrightarrow> localAddr c = dest \<and> localPort c = uint (destPort seg)) \<and>
     (remoteAddr c \<noteq> Unspecified \<longrightarrow> remoteAddr c = src \<and> remotePort c = uint (srcPort seg))"

definition processTCPSegment :: "runtime_env \<Rightarrow> tcp_segment \<Rightarrow> l3_address \<Rightarrow> l3_address \<Rightarrow> conn_ref \<Rightarrow> tcp_main \<Rightarrow>
     (bool \<times> tcp_main) res" where
  "processTCPSegment env seg src dest r m =
     bindR (getConn r m) (\<lambda>c.
     bindR (assertR (addressesMatch seg src dest c) ''processTCPSegment'') (\<lambda>_.
     bindR (process_RCV_SEGMENT env seg src dest r m) (\<lambda>(event, m1). transition r event m1)))"

section \<open>The module\<close>

datatype tcp_input =
    SelfMessage conn_ref conn_timer
  | FromIP tcp_segment l3_address l3_address
  | IcmpError
  | FromApp int int app_command

text \<open>All connections read the same clock.\<close>

definition setNow :: "simtime \<Rightarrow> tcp_main \<Rightarrow> tcp_main" where
  "setNow t m = m\<lparr>conns := (\<lambda>r. map_option (\<lambda>c. c\<lparr>now := t\<rparr>) (conns m r))\<rparr>"

definition flushActions :: "conn_ref \<Rightarrow> tcp_main \<Rightarrow> tcp_main res" where
  "flushActions r m =
     bindR (getConn r m) (\<lambda>c. Inr ((putConn r (c\<lparr>actions := []\<rparr>) m)\<lparr>outbox := outbox m @ actions c\<rparr>))"

text \<open>\<open>if (!ret) removeConnection(conn)\<close>\<close>

definition finishMessage :: "conn_ref \<Rightarrow> bool \<times> tcp_main \<Rightarrow> tcp_main res" where
  "finishMessage r x =
     bindR (flushActions r (snd x)) (\<lambda>m1. if fst x then Inr m1 else removeConnection r m1)"

text \<open>A command for an unknown connection id creates the connection first.\<close>

definition connForApp :: "runtime_env \<Rightarrow> tcp_par \<Rightarrow> simtime \<Rightarrow> int \<Rightarrow> int \<Rightarrow> tcp_main \<Rightarrow> conn_ref \<times> tcp_main" where
  "connForApp env p t gateIndex cId m =
     (case findConnForApp gateIndex cId m of
        Some r \<Rightarrow> (r, m)
      | None \<Rightarrow> (env_newRef env, (putConn (env_newRef env) (newConnection p t gateIndex cId) m)
                   \<lparr>tcpAppConnMap := (tcpAppConnMap m)((gateIndex, cId) \<mapsto> env_newRef env)\<rparr>))"

definition handleMessage :: "runtime_env \<Rightarrow> tcp_par \<Rightarrow> simtime \<Rightarrow> tcp_input \<Rightarrow> tcp_main \<Rightarrow> tcp_main res" where
  "handleMessage env p t inp m0 =
     (let m = setNow t m0
      in if \<not> isOperational m
         then (case inp of SelfMessage r tm \<Rightarrow> Inl (RuntimeError ''Model error: self msg received when isOperational is false'')
               | _ \<Rightarrow> Inr m)
         else (case inp of
             SelfMessage r tm \<Rightarrow> bindR (processTimer tm r m) (finishMessage r)
           | IcmpError \<Rightarrow> Inr m
           | FromIP seg src dest \<Rightarrow>
               (case findConnForSegment seg src dest m of
                  Some r \<Rightarrow> bindR (processTCPSegment env seg src dest r m) (finishMessage r)
                | None \<Rightarrow> Inr (m\<lparr>outbox := outbox m @ segmentArrivalWhileClosed seg src dest\<rparr>))
           | FromApp gateIndex cId cmd \<Rightarrow>
               (case connForApp env p t gateIndex cId m of
                  (r, m1) \<Rightarrow> bindR (processAppCommand cmd r m1) (finishMessage r))))"

end
