(* ===== verification/Tcp_Ack.thy ===== *)
theory Tcp_Ack
  imports Tcp_Rcv
begin

text \<open>
  Acknowledgements (\<open>src/inet/transportlayer/tcp/TCPConnectionRcvSegment.cc\<close>, \<open>processAckInEstabEtc\<close>):
  what reading the header options leaves alone, and what an ACK field does to \<open>snd_una\<close>, the send queue and the
  scoreboard, whether it is new, old or for data never sent. The definitions are those of \<open>Tcp_Rcv\<close>.
\<close>

section \<open>Frames\<close>

text \<open>Reading options changes neither the core of the connection nor what it has sent.\<close>

definition stillView :: "tcp_conn \<Rightarrow> core_view \<times> tcp_action list" where
  "stillView c = (coreView c, actions c)"

lemma optionHandlers_still [simp]:
  "stillView (snd (processMSSOption l v c)) = stillView c" "stillView (snd (processWSOption l w c)) = stillView c"
  "stillView (snd (processSACKPermittedOption l c)) = stillView c"
  "stillView (snd (processTSOption seg l a b c)) = stillView c"
  by (simp_all add: processMSSOption_def processWSOption_def processSACKPermittedOption_def processTSOption_def
      stillView_def coreView_def Let_def)

lemma keeps_processSACKOption: "keepsFP stillView c (processSACKOption seg l items c)"
  unfolding processSACKOption_def Let_def by (auto intro!: keeps_bind_any(2) keepsP_Inr simp: stillView_def coreView_def)

lemma keeps_processOption: "keepsF stillView c (processOption seg opt c)"
proof -
  have "keepsF stillView c (bindR (processSACKOption seg l items c) (\<lambda>(ok, c'). Inr c'))" for l items
    by (rule keeps_bindP [OF keeps_processSACKOption]) (simp add: keeps_Inr)
  then show ?thesis
    unfolding processOption_def by (auto split: opt_body.split intro: keeps_Inr)
qed

lemma keeps_readHeaderOptions: "keepsF stillView c (readHeaderOptions seg c)"
proof -
  have "keepsF stillView c (processOptions seg opts c)" for opts
    by (induction opts arbitrary: c) (auto intro: keeps_Inr keeps_bind keeps_processOption)
  then show ?thesis by (simp add: readHeaderOptions_def)
qed

text \<open>The segments among what a connection has emitted.\<close>

definition isToIP :: "tcp_action \<Rightarrow> bool" where
  "isToIP a = (case a of ToIP seg src dest \<Rightarrow> True | _ \<Rightarrow> False)"

definition segmentsSent :: "tcp_action list \<Rightarrow> tcp_action list" where
  "segmentsSent as = filter isToIP as"

abbreviation sentView :: "tcp_conn \<Rightarrow> tcp_action list" where
  "sentView c \<equiv> segmentsSent (actions c)"

lemma segmentsSent_simps [simp]:
  "segmentsSent [] = []" "segmentsSent (as @ bs) = segmentsSent as @ segmentsSent bs"
  "segmentsSent [Indicate i k] = []"
  by (simp_all add: segmentsSent_def isToIP_def)

lemma sentView_indicate [simp]: "sentView (sendIndicationToApp i k c) = sentView c"
  by (simp add: sendIndicationToApp_def emit_def)

section \<open>Acknowledgements\<close>

text \<open>The end of the data that have been sent, not counting a FIN; and how far an ACK frees the send queue.\<close>

definition sentEnd :: "tcp_conn \<Rightarrow> u32" where
  "sentEnd c = (if send_fin c \<and> snd_max c = snd_fin_seq c + 1 then snd_fin_seq c else snd_max c)"

definition dataAcked :: "u32 \<Rightarrow> tcp_conn \<Rightarrow> u32" where
  "dataAcked ack c = (if send_fin c \<and> ack = snd_fin_seq c + 1 then ack - 1 else ack)"

text \<open>
  How the send queue and the scoreboard lie around \<open>snd_una\<close>: the queue begins there, or one further while
  the SYN is not acknowledged, and holds all data sent; a FIN follows its end.
\<close>

definition ackReady :: "tcp_conn \<Rightarrow> bool" where
  "ackReady c \<longleftrightarrow>
     (let una = snd_una c; b = off una (sq_begin (sendQ c)); e = off una (sq_end (sendQ c)); t = off una (sentEnd c)
      in b \<le> 1 \<and> b \<le> t \<and> t \<le> e \<and> e < 2 ^ 31 - 1 \<and> (send_fin c \<longrightarrow> snd_fin_seq c = sq_end (sendQ c)) \<and>
         (sack_enabled c \<longrightarrow> rq_inv (rexmitQ c) \<and> rq_begin (rexmitQ c) = sq_begin (sendQ c) \<and>
            t \<le> off una (rq_end (rexmitQ c)) \<and> off una (rq_end (rexmitQ c)) < 2 ^ 31))"

lemma off_succ: "off b x + 1 < 2 ^ 32 \<Longrightarrow> off b (x + 1) = off b x + 1"
  using off_add_nat [of b x 1] by simp

lemma dataAcked_between:
  assumes "ackReady c" and new: "seqLess (snd_una c) ack" "seqLE ack (snd_max c)" and una: "u = snd_una c"
  shows "off u (sq_begin (sendQ c)) \<le> off u (dataAcked ack c)" "off u (dataAcked ack c) \<le> off u (sentEnd c)"
proof -
  have r: "off u (sq_begin (sendQ c)) \<le> 1" "off u (sq_begin (sendQ c)) \<le> off u (sentEnd c)"
    "off u (sentEnd c) \<le> off u (sq_end (sendQ c))" "off u (sq_end (sendQ c)) < 2 ^ 31 - 1"
    "send_fin c \<Longrightarrow> snd_fin_seq c = sq_end (sendQ c)"
    using assms by (simp_all add: ackReady_def Let_def)
  have max: "off u (snd_max c) = (if send_fin c \<and> snd_max c = snd_fin_seq c + 1 then off u (sentEnd c) + 1 else off u (sentEnd c))"
    using r(3,4) off_succ [of u "snd_fin_seq c"]
    by (cases "send_fin c"; cases "snd_max c = snd_fin_seq c + 1") (simp_all add: sentEnd_def)
  then have w: "inwin u (snd_max c)" "inwin u ack"
    using r(3,4) new(1) una by (auto simp: inwin_seqLE seqLE_off seqLess_iff)
  have le: "off u ack \<le> off u (snd_max c)" using new(2) w by (simp add: seqLE_win [of u])
  have pos: "1 \<le> off u ack" using new(1) una by (simp add: seqLess_off)
  show "off u (sq_begin (sendQ c)) \<le> off u (dataAcked ack c) " "off u (dataAcked ack c) \<le> off u (sentEnd c)"
  proof -
    consider (fin) "send_fin c" "ack = snd_fin_seq c + 1" | (data) "\<not> (send_fin c \<and> ack = snd_fin_seq c + 1)" by blast
    then have "off u (sq_begin (sendQ c)) \<le> off u (dataAcked ack c) \<and> off u (dataAcked ack c) \<le> off u (sentEnd c)"
    proof cases
      case fin
      have "off u ack = off u (sq_end (sendQ c)) + 1" using fin r(4,5) off_succ [of u "sq_end (sendQ c)"] by simp
      then have "snd_max c = snd_fin_seq c + 1"
        using le max r(3) fin by (auto split: if_splits)
      then have "dataAcked ack c = sentEnd c" using fin by (simp add: dataAcked_def sentEnd_def)
      then show ?thesis using r(2) by simp
    next
      case data
      then have d: "dataAcked ack c = ack" by (auto simp: dataAcked_def)
      have "off u ack \<noteq> off u (snd_max c)" if "send_fin c" "snd_max c = snd_fin_seq c + 1"
        using data that by (auto simp: off_inj)
      then have "off u ack \<le> off u (sentEnd c)" using le max by (auto split: if_splits)
      then show ?thesis using d pos r(1) by simp
    qed
    then show "off u (sq_begin (sendQ c)) \<le> off u (dataAcked ack c) " "off u (dataAcked ack c) \<le> off u (sentEnd c)" by simp_all
  qed
qed

lemma seqLE_offs: "off u x \<le> off u y \<Longrightarrow> off u y < 2 ^ 31 \<Longrightarrow> seqLE x y"
  using off_trans [of u x y] by (simp add: seqLE_off)

lemma discardAcked_returns:
  assumes "ackReady c" "seqLess (snd_una c) ack" "seqLE ack (snd_max c)"
    and d: "sendQ d = sendQ c" "rexmitQ d = rexmitQ c" "sack_enabled d = sack_enabled c" "snd_una d = ack"
      "send_fin d = send_fin c" "snd_fin_seq d = snd_fin_seq c" "ackNo seg = ack"
  shows "\<exists>q. discardAcked seg d = Inr (d\<lparr>fin_ack_rcvd := fin_ack_rcvd d \<or> send_fin c \<and> ack = snd_fin_seq c + 1,
       sendQ := (sendQ c)\<lparr>sq_begin := dataAcked ack c\<rparr>, rexmitQ := q\<rparr>) \<and>
     (sack_enabled c \<longrightarrow> rq_inv q \<and> rq_begin q = dataAcked ack c \<and> rq_end q = rq_end (rexmitQ c))"
proof -
  let ?u = "snd_una c" and ?p = "dataAcked ack c"
  note b = dataAcked_between [OF assms(1-3) refl]
  have r: "off ?u (sentEnd c) \<le> off ?u (sq_end (sendQ c))" "off ?u (sq_end (sendQ c)) < 2 ^ 31"
    "sack_enabled c \<Longrightarrow> rq_inv (rexmitQ c) \<and> rq_begin (rexmitQ c) = sq_begin (sendQ c) \<and>
       off ?u (sentEnd c) \<le> off ?u (rq_end (rexmitQ c)) \<and> off ?u (rq_end (rexmitQ c)) < 2 ^ 31"
    using assms(1) by (auto simp: ackReady_def Let_def)
  have sq: "sq_discardUpTo (sendQ c) ?p = Inr ((sendQ c)\<lparr>sq_begin := ?p\<rparr>)"
  proof -
    have "seqLE (sq_begin (sendQ c)) ?p" "seqLE ?p (sq_end (sendQ c))"
      using b r by (auto intro: seqLE_offs [where u = ?u])
    then show ?thesis by (simp add: sq_discardUpTo_def)
  qed
  obtain q where q: "(if sack_enabled c then rq_discardUpTo (rexmitQ c) ?p else Inr (rexmitQ c)) = Inr q"
    "sack_enabled c \<longrightarrow> rq_inv q \<and> rq_begin q = ?p \<and> rq_end q = rq_end (rexmitQ c)"
  proof (cases "sack_enabled c")
    case True
    with b r have "seqLE (rq_begin (rexmitQ c)) ?p" "seqLE ?p (rq_end (rexmitQ c))"
      by (auto intro: seqLE_offs [where u = ?u])
    with rq_discardUpTo_spec [of "rexmitQ c" ?p] r(3) True show ?thesis using that by auto
  qed (use that in simp)
  have "discardAcked seg d = bindR (sq_discardUpTo (sendQ c) ?p) (\<lambda>sq.
      bindR (if sack_enabled c then rq_discardUpTo (rexmitQ c) ?p else Inr (rexmitQ c)) (\<lambda>rq.
      Inr (d\<lparr>fin_ack_rcvd := fin_ack_rcvd d \<or> send_fin c \<and> ack = snd_fin_seq c + 1, sendQ := sq, rexmitQ := rq\<rparr>)))"
    by (cases "send_fin c"; cases "ack = snd_fin_seq c + 1") (simp_all add: discardAcked_def Let_def d dataAcked_def)
  then show ?thesis using q by (simp only: sq bindR_Inr) blast
qed


lemma updateWndInfo_simps [simp]:
  "coreView (updateWndInfo seg b c) = coreView c" "snd_nxt (updateWndInfo seg b c) = snd_nxt c"
  "snd_max (updateWndInfo seg b c) = snd_max c" "rexmitQ (updateWndInfo seg b c) = rexmitQ c"
  "sack_enabled (updateWndInfo seg b c) = sack_enabled c" "actions (updateWndInfo seg b c) = actions c"
  by (simp_all add: updateWndInfo_def coreView_def Let_def)

lemma updateWndInfo_core [simp]:
  "fsm (updateWndInfo seg b c) = fsm c" "snd_una (updateWndInfo seg b c) = snd_una c"
  "sendQ (updateWndInfo seg b c) = sendQ c" "receiveQ (updateWndInfo seg b c) = receiveQ c"
  "rcv_nxt (updateWndInfo seg b c) = rcv_nxt c" "fin_ack_rcvd (updateWndInfo seg b c) = fin_ack_rcvd c"
  by (simp_all add: updateWndInfo_def Let_def)

lemma rttUsingTS_returns:
  assumes "tcpAlgorithm c \<noteq> None" "ts_enabled c"
  shows "\<exists>s v r. withAlg c (\<lambda>fl. rttMeasurementCompleteUsingTS x c) = Inr (c\<lparr>srtt := s, rttvar := v, rexmit_timeout := r\<rparr>)"
proof (cases "isDumb c")
  case True
  show ?thesis
    by (rule exI [of _ "srtt c"], rule exI [of _ "rttvar c"], rule exI [of _ "rexmit_timeout c"])
      (use assms True in \<open>auto simp: withAlg_def rttMeasurementCompleteUsingTS_def\<close>)
next
  case False
  have "\<exists>s v r. rttMeasurementComplete a b c = c\<lparr>srtt := s, rttvar := v, rexmit_timeout := r\<rparr>" for a b
    unfolding rttMeasurementComplete_def Let_def by blast
  moreover have "withAlg c (\<lambda>fl. rttMeasurementCompleteUsingTS x c) =
      Inr (rttMeasurementComplete (convertTSToSimtime x) (convertTSToSimtime (convertSimtimeToTS (now c))) c)"
    using assms False by (auto simp: withAlg_def rttMeasurementCompleteUsingTS_def)
  ultimately show ?thesis by metis
qed

lemma acceptAck_measured:
  assumes "tcpAlgorithm c \<noteq> None"
  shows "\<exists>s v r. acceptAck seg c = bindR (discardAcked seg (c\<lparr>snd_una := ackNo seg,
       snd_nxt := (if seqLess (snd_nxt c) (ackNo seg) then ackNo seg else snd_nxt c), srtt := s, rttvar := v, rexmit_timeout := r\<rparr>)) (\<lambda>c3.
     let c4 = updateWndInfo seg False c3
     in if payloadLength seg = 0 \<and> fsm c4 \<noteq> TCP_S_SYN_RCVD
        then bindR (algReceivedDataAck (snd_una c) c4) (\<lambda>c5. Inr (c5\<lparr>dupacks := 0\<rparr>)) else Inr c4)"
proof (cases "ts_enabled c")
  case True
  let ?c1 = "c\<lparr>snd_una := ackNo seg, snd_nxt := (if seqLess (snd_nxt c) (ackNo seg) then ackNo seg else snd_nxt c)\<rparr>"
  obtain s v r where "withAlg ?c1 (\<lambda>fl. rttMeasurementCompleteUsingTS (getTSecr seg) ?c1) = Inr (?c1\<lparr>srtt := s, rttvar := v, rexmit_timeout := r\<rparr>)"
  proof -
    have "tcpAlgorithm ?c1 \<noteq> None" "ts_enabled ?c1" using assms True by simp_all
    from rttUsingTS_returns [OF this] show thesis using that by blast
  qed
  then have "acceptAck seg c = bindR (discardAcked seg (?c1\<lparr>srtt := s, rttvar := v, rexmit_timeout := r\<rparr>)) (\<lambda>c3.
     let c4 = updateWndInfo seg False c3
     in if payloadLength seg = 0 \<and> fsm c4 \<noteq> TCP_S_SYN_RCVD
        then bindR (algReceivedDataAck (snd_una c) c4) (\<lambda>c5. Inr (c5\<lparr>dupacks := 0\<rparr>)) else Inr c4)"
    using True by (simp add: acceptAck_def Let_def)
  then show ?thesis by blast
next
  case False
  show ?thesis
    by (rule exI [of _ "srtt c"], rule exI [of _ "rttvar c"], rule exI [of _ "rexmit_timeout c"])
      (simp add: acceptAck_def Let_def False)
qed

text \<open>
  C15: the ACK field. An ACK of outstanding data is never refused by the queues: \<open>snd_una\<close> moves to it,
  the send queue (and with SACK the scoreboard) drops exactly the data it covers, a FIN that it covers is
  recorded, \<open>snd_nxt\<close> is not left behind it, and state and receiver stay as they are. Then the congestion
  control is told the old \<open>snd_una\<close>, except when the segment carries text or in \<open>SYN_RCVD\<close>, where
  processing of the ACK ends here.
\<close>

theorem ack_advances:
  assumes "ackReady c" "tcpAlgorithm c \<noteq> None" "seqLess (snd_una c) (ackNo seg)" "seqLE (ackNo seg) (snd_max c)"
  shows "\<exists>d. processAckInEstabEtc seg c =
       (if payloadLength seg = 0 \<and> fsm c \<noteq> TCP_S_SYN_RCVD
        then bindR (algReceivedDataAck (snd_una c) d) (\<lambda>e. Inr (True, e\<lparr>dupacks := 0\<rparr>)) else Inr (True, d)) \<and>
     snd_una d = ackNo seg \<and> sendQ d = (sendQ c)\<lparr>sq_begin := dataAcked (ackNo seg) c\<rparr> \<and>
     (sack_enabled c \<longrightarrow> rq_inv (rexmitQ d) \<and> rq_begin (rexmitQ d) = dataAcked (ackNo seg) c \<and> rq_end (rexmitQ d) = rq_end (rexmitQ c)) \<and>
     (fin_ack_rcvd d \<longleftrightarrow> fin_ack_rcvd c \<or> (send_fin c \<and> ackNo seg = snd_fin_seq c + 1)) \<and>
     snd_nxt d = (if seqLess (snd_nxt c) (ackNo seg) then ackNo seg else snd_nxt c) \<and>
     snd_max d = snd_max c \<and> fsm d = fsm c \<and> rcv_nxt d = rcv_nxt c \<and> receiveQ d = receiveQ c"
proof -
  obtain s v r where a: "acceptAck seg c = bindR (discardAcked seg (c\<lparr>snd_una := ackNo seg,
       snd_nxt := (if seqLess (snd_nxt c) (ackNo seg) then ackNo seg else snd_nxt c), srtt := s, rttvar := v, rexmit_timeout := r\<rparr>)) (\<lambda>c3.
     let c4 = updateWndInfo seg False c3
     in if payloadLength seg = 0 \<and> fsm c4 \<noteq> TCP_S_SYN_RCVD
        then bindR (algReceivedDataAck (snd_una c) c4) (\<lambda>c5. Inr (c5\<lparr>dupacks := 0\<rparr>)) else Inr c4)"
    using acceptAck_measured [OF assms(2)] by blast
  let ?d = "c\<lparr>snd_una := ackNo seg, snd_nxt := (if seqLess (snd_nxt c) (ackNo seg) then ackNo seg else snd_nxt c),
      srtt := s, rttvar := v, rexmit_timeout := r\<rparr>"
  obtain q where q: "discardAcked seg ?d = Inr (?d\<lparr>fin_ack_rcvd := fin_ack_rcvd ?d \<or> send_fin c \<and> ackNo seg = snd_fin_seq c + 1,
       sendQ := (sendQ c)\<lparr>sq_begin := dataAcked (ackNo seg) c\<rparr>, rexmitQ := q\<rparr>)"
     "sack_enabled c \<longrightarrow> rq_inv q \<and> rq_begin q = dataAcked (ackNo seg) c \<and> rq_end q = rq_end (rexmitQ c)"
    using discardAcked_returns [OF assms(1,3,4), of ?d seg] by auto
  let ?e = "updateWndInfo seg False (?d\<lparr>fin_ack_rcvd := fin_ack_rcvd ?d \<or> send_fin c \<and> ackNo seg = snd_fin_seq c + 1,
       sendQ := (sendQ c)\<lparr>sq_begin := dataAcked (ackNo seg) c\<rparr>, rexmitQ := q\<rparr>)"
  have "\<not> seqGE (snd_una c) (ackNo seg)"
    using assms(3) by (metis seqGE_seqLE seqLE_antisym seqLess_iff)
  then have "processAckInEstabEtc seg c = (if payloadLength seg = 0 \<and> fsm c \<noteq> TCP_S_SYN_RCVD
        then bindR (algReceivedDataAck (snd_una c) ?e) (\<lambda>e. Inr (True, e\<lparr>dupacks := 0\<rparr>)) else Inr (True, ?e))"
    unfolding processAckInEstabEtc_def a q(1) using assms(4) by (simp add: Let_def bindR_assoc)
  then show ?thesis by (intro exI [of _ ?e] conjI) (simp_all add: q(2))
qed

definition sampleAcked :: tcp_conn where
  "sampleAcked = (sampleSender TCP_S_ESTABLISHED)\<lparr>snd_nxt := 1500, snd_max := 1500, sendQ := \<lparr>sq_begin = 1000, sq_end = 1600\<rparr>\<rparr>"

theorem ack_advances_witness:
  "\<exists>d. processAckInEstabEtc (newSegment\<lparr>ackBit := True, ackNo := 1200, payloadLength := 4\<rparr>) sampleAcked = Inr (True, d) \<and>
     snd_una d = 1200 \<and> sq_begin (sendQ d) = 1200 \<and> snd_nxt d = 1500"
proof -
  have "ackReady sampleAcked" "tcpAlgorithm sampleAcked \<noteq> None" "snd_una sampleAcked = 1000" "snd_max sampleAcked = 1500"
     "snd_nxt sampleAcked = 1500" "\<not> send_fin sampleAcked"
    by (simp_all add: ackReady_def sampleAcked_def sampleSender_def off_def sentEnd_def sampleConn_def newConnection_def
        tcp_alg_state_variables.defs newAlgStateVariables_def tcp_state_variables.defs newStateVariables_def)
  then show ?thesis
    using ack_advances [of sampleAcked "newSegment\<lparr>ackBit := True, ackNo := 1200, payloadLength := 4\<rparr>"]
    by (auto simp: newSegment_def seqLess_def seqLE_def dataAcked_def)
qed

text \<open>
  An ACK field that acknowledges nothing new changes nothing it should not: whether it repeats an old value or
  lies beyond what has been sent, \<open>snd_una\<close>, both queues, the state, the FIN flags and the receiver stay
  as they are, whatever the congestion control does about it. Only an ACK beyond \<open>snd_max\<close> makes the
  caller drop the segment.
\<close>

lemma ack_not_new:
  assumes "processAckInEstabEtc seg c = Inr (ok, c')" "seqLE (ackNo seg) (snd_una c) \<or> \<not> seqLE (ackNo seg) (snd_max c)"
  shows "coreView c' = coreView c \<and> ok = seqLE (ackNo seg) (snd_una c)"
proof -
  have call: "coreView e = coreView d" if "algCall a d = Inr e" for a d e
    using algCall_core [of d a] that by (simp add: keeps_iff)
  have dup: "coreView (d\<lparr>dupacks := x\<rparr>) = coreView d" for d x by (simp add: coreView_def)
  show ?thesis
  proof (cases "seqLE (ackNo seg) (snd_una c)")
    case True
    then have "ok" "coreView c' = coreView c"
      using assms(1) call [of CallReceivedDuplicateAck "updateWndInfo seg False (c\<lparr>dupacks := dupacks c + 1\<rparr>)"]
      by (auto simp: processAckInEstabEtc_def seqGE_seqLE dup split: if_splits)
    then show ?thesis using True by simp
  next
    case False
    then have "\<not> ok" "coreView c' = coreView c"
      using assms call [of "CallReceivedAckForDataNotYetSent (ackNo seg)" c]
      by (auto simp: processAckInEstabEtc_def seqGE_seqLE dup bindR_eq_Inr)
    then show ?thesis using False by simp
  qed
qed


end
