(* ===== verification/Tcp_Message.thy ===== *)
theory Tcp_Message
  imports Tcp_App Tcp_Ack
begin

text \<open>
  One message at the level of the module (\<open>TCP.cc\<close>, \<open>handleMessage\<close>; \<open>TCPConnectionBase.cc\<close>,
  \<open>processTCPSegment\<close>): how the handling of a segment by the connection shows in the connection table and in the
  outbox, and that a segment with the RST bit is never answered.
\<close>

section \<open>Messages and the connection table\<close>

lemma getConn_Inr [simp]: "getConn r m = Inr c \<longleftrightarrow> conns m r = Some c"
  by (simp add: getConn_def split: option.split)

lemma setNow_simps [simp]:
  "isOperational (setNow t m) = isOperational m" "tcpConnMap (setNow t m) = tcpConnMap m" "tcpAppConnMap (setNow t m) = tcpAppConnMap m"
  "outbox (setNow t m) = outbox m" "findConnForSegment seg a b (setNow t m) = findConnForSegment seg a b m"
  "findConnForApp g i (setNow t m) = findConnForApp g i m"
  "conns m r = Some c \<Longrightarrow> conns (setNow t m) r = Some (c\<lparr>now := t\<rparr>)"
  by (simp_all add: setNow_def findConnForSegment_def findConnForApp_def)

lemma finishMessage_alive:
  "conns m r = Some c \<Longrightarrow> finishMessage r (True, m) = Inr ((putConn r (c\<lparr>actions := []\<rparr>) m)\<lparr>outbox := outbox m @ actions c\<rparr>)"
  by (simp add: finishMessage_def flushActions_def getConn_def)

lemma putConn_simps [simp]:
  "conns (putConn r c m) = (conns m)(r \<mapsto> c)" "tcpConnMap (putConn r c m) = tcpConnMap m" "outbox (putConn r c m) = outbox m"
  "isOperational (putConn r c m) = isOperational m" "tcpAppConnMap (putConn r c m) = tcpAppConnMap m"
  by (simp_all add: putConn_def)

lemma sockPairOf_simps [simp]:
  "sockPairOf (c\<lparr>fsm := x1\<rparr>) = sockPairOf c" "sockPairOf (c\<lparr>actions := x2\<rparr>) = sockPairOf c" "sockPairOf (c\<lparr>now := x3\<rparr>) = sockPairOf c"
  by (simp_all add: sockPairOf_def)

lemma findConn_exact: "tcpConnMap m (segmentKey seg src dest) = Some r \<Longrightarrow> findConnForSegment seg src dest m = Some r"
  by (simp add: findConnForSegment_def segmentKey_def segmentKeys_def Let_def firstOf_cons)

lemma addressesMatch_exact:
  "sockPairOf c = segmentKey seg src dest \<Longrightarrow> addressesMatch seg src dest c"
  by (simp add: addressesMatch_def sockPairOf_def segmentKey_def segmentKeys_def Let_def)

lemma segment_step:
  assumes m: "isOperational m" "tcpConnMap m (segmentKey seg src dest) = Some r" "conns m r = Some c" "sockPairOf c = segmentKey seg src dest"
    and c: "fsm c \<noteq> TCP_S_LISTEN" "fsm c \<noteq> TCP_S_SYN_SENT"
      "processSegment1stThru8th seg (c\<lparr>now := t\<rparr>) = Inr (e, c1)" "performStateTransition e c1 = Inr (ok, d)"
  shows "handleMessage env p t (FromIP seg src dest) m = finishMessage r (ok, putConn r d (putConn r c1 (setNow t m)))"
proof -
  have cb: "conns (setNow t m) r = Some (c\<lparr>now := t\<rparr>)" using m(3) by simp
  have "process_RCV_SEGMENT env seg src dest r (setNow t m) = Inr (e, putConn r c1 (setNow t m))"
    using cb c by (simp add: process_RCV_SEGMENT_def getConn_def onConn_def)
  moreover have "addressesMatch seg src dest (c\<lparr>now := t\<rparr>)" by (rule addressesMatch_exact) (use m(4) in simp)
  ultimately have "processTCPSegment env seg src dest r (setNow t m) = Inr (ok, putConn r d (putConn r c1 (setNow t m)))"
    using cb c(4) by (simp add: processTCPSegment_def getConn_def transition_def onConn_def)
  then show ?thesis using m(1) findConn_exact [OF m(2)] by (simp add: handleMessage_def Let_def)
qed

text \<open>A message after which the connection lives on, and one after which it is removed.\<close>

lemma finish_step:
  assumes "handleMessage env p t inp m = finishMessage r (True, putConn r d (putConn r c1 (setNow t m)))"
  shows "\<exists>m'. handleMessage env p t inp m = Inr m' \<and> outbox m' = outbox m @ actions d \<and> conns m' r = Some (d\<lparr>actions := []\<rparr>) \<and>
     isOperational m' = isOperational m \<and> tcpConnMap m' = tcpConnMap m \<and> tcpAppConnMap m' = tcpAppConnMap m"
  unfolding assms by (simp add: finishMessage_alive)

lemma finish_removes:
  assumes "handleMessage env p t inp m = finishMessage r (False, putConn r d (putConn r c1 (setNow t m)))"
  shows "\<exists>m'. handleMessage env p t inp m = Inr m' \<and> outbox m' = outbox m @ actions d \<and> conns m' r = None \<and>
     tcpConnMap m' (sockPairOf d) = None"
  unfolding assms by (simp add: finishMessage_def flushActions_def removeConnection_def getConn_def Let_def)

section \<open>Resets are not answered\<close>

lemma keeps_stateEntered: "keepsF sentView c (stateEntered st old ev c)"
proof -
  have closed: "keepsF sentView d (algConnectionClosed d)" for d
    unfolding algConnectionClosed_def
    by (auto intro!: keeps_bind_any(1) keeps_Inr split: option.split flavour.split)
  have "keepsF sentView c (algConnectionClosed d)" if "sentView d = sentView c" for d
    using closed [of d] that by (simp add: keeps_iff)
  then show ?thesis
    unfolding stateEntered_def Let_def
    by (auto split: tcp_fsm_state.split intro!: keeps_bind_any(1) keeps_Inr)
qed

lemma keeps_performStateTransition: "keepsFP sentView c (performStateTransition ev c)"
proof -
  have entered: "keepsFP sentView c (bindR (stateEntered st (fsm c) ev (c\<lparr>fsm := st\<rparr>)) (\<lambda>c2. Inr (fsm c2 \<noteq> TCP_S_CLOSED, c2)))" for st
  proof -
    have "keepsF sentView c (stateEntered st (fsm c) ev (c\<lparr>fsm := st\<rparr>))"
      using keeps_stateEntered [of "c\<lparr>fsm := st\<rparr>" st "fsm c" ev] by (simp add: keeps_iff)
    then show ?thesis by (rule keepsP_bind) (simp add: keepsP_Inr)
  qed
  have "keepsFP sentView c (bindR (if fsm c \<noteq> st then stateEntered st (fsm c) ev (c\<lparr>fsm := st\<rparr>) else Inr (c\<lparr>fsm := st\<rparr>))
      (\<lambda>c2. Inr (fsm c2 \<noteq> TCP_S_CLOSED, c2)))" for st
    using entered [of st] by (simp add: keepsP_Inr)
  then show ?thesis
    unfolding performStateTransition_def Let_def by (intro keeps_bind_any(2)) (simp add: keepsP_Inr)
qed

lemma rst_segment_quiet:
  assumes "rstBit seg"
  shows "keepsFP sentView c (processSegment1stThru8th seg c)"
proof -
  have opts: "keepsF sentView c (if hasOptions seg then readHeaderOptions seg c else Inr c)"
    using keeps_readHeaderOptions [of c seg] by (auto simp: keeps_iff stillView_def)
  have "keepsFP sentView d (rejectSegment seg d)" for d
    using assms by (auto simp: rejectSegment_def intro: keepsP_Inr)
  moreover have "keepsFP sentView d (processRst d)" for d
    unfolding processRst_def processRstInSynReceived_def Let_def
    by (auto intro!: keeps_bind_any(2) keepsP_Inr)
  ultimately show ?thesis
    unfolding processSegment1stThru8th_def
    by (intro keepsP_bind [OF opts]) (simp add: assms)
qed


text \<open>An operation on the module that sends no segment, of its own or through the connection.\<close>

definition quietStep :: "conn_ref \<Rightarrow> tcp_main \<Rightarrow> tcp_main \<Rightarrow> bool" where
  "quietStep r m m' \<longleftrightarrow> outbox m' = outbox m \<and>
     (\<exists>c c'. conns m r = Some c \<and> conns m' r = Some c' \<and> sentView c' = sentView c)"

lemma quietStep_put: "conns m r = Some c \<Longrightarrow> sentView c' = sentView c \<Longrightarrow> quietStep r m (putConn r c' m)"
  by (auto simp: quietStep_def putConn_def)

lemma quietStep_trans: "quietStep r m m' \<Longrightarrow> quietStep r m' m'' \<Longrightarrow> quietStep r m m''"
  by (auto simp: quietStep_def)

lemma onConn_quiet:
  assumes "onConn r f m = Inr (x, m')" "\<And>c. keepsFP sentView c (f c)"
  shows "quietStep r m m'"
proof -
  from assms(1) obtain c c' where c: "conns m r = Some c" "f c = Inr (x, c')" "m' = putConn r c' m"
    unfolding onConn_def by (auto elim!: bindR_InrE)
  then have "sentView c' = sentView c" using assms(2) [of c] by (simp add: keepsFP_def)
  then show ?thesis using c by (simp add: quietStep_put)
qed

lemma finishMessage_quiet:
  assumes "quietStep r m m1" "\<And>c. conns m r = Some c \<Longrightarrow> actions c = []" "finishMessage r (b, m1) = Inr m'"
  shows "segmentsSent (outbox m') = segmentsSent (outbox m)"
proof -
  from assms(1) obtain c c' where c: "conns m r = Some c" "conns m1 r = Some c'" "sentView c' = sentView c"
    "outbox m1 = outbox m" by (auto simp: quietStep_def)
  have "outbox m' = outbox m1 @ actions c'"
    using assms(3) c(2) by (auto simp: finishMessage_def flushActions_def removeConnection_def putConn_def Let_def getConn_def
        split: if_splits)
  then show ?thesis using c assms(2) [OF c(1)] by simp
qed

lemma rst_process_quiet:
  assumes "rstBit seg" "process_RCV_SEGMENT env seg src dest r m = Inr (e, m')"
  shows "quietStep r m m'"
proof -
  from assms(2) obtain c where c: "conns m r = Some c" by (auto simp: process_RCV_SEGMENT_def)
  have self: "quietStep r m m" using c by (auto simp: quietStep_def)
  have ind: "quietStep r m (putConn r (sendIndicationToApp i k c) m)" for i k using c by (simp add: quietStep_put)
  have "quietStep r m m'" if "onConn r (processSegment1stThru8th seg) m = Inr (e, m')"
    using onConn_quiet [OF that] rst_segment_quiet [OF assms(1)] by blast
  then show ?thesis
    using assms(2) c self ind assms(1)
    by (auto simp: process_RCV_SEGMENT_def processSegmentInListen_def processSegmentInSynSent_def getConn_def split: if_splits)
qed

text \<open>
  A segment with the RST bit is never answered: whatever connection it reaches, in whatever state, and also
  when it belongs to none, the module hands no segment to IP (RFC 793, reset processing), given that the
  connections have nothing left to send from earlier messages.
\<close>

lemma rst_never_answered:
  assumes "rstBit seg" "\<And>r c. conns m r = Some c \<Longrightarrow> actions c = []"
    and "handleMessage env p t (FromIP seg src dest) m = Inr m'"
  shows "segmentsSent (outbox m') = segmentsSent (outbox m)"
proof (cases "isOperational m")
  case False
  then show ?thesis using assms(3) by (auto simp: handleMessage_def setNow_def)
next
  case True
  let ?m = "setNow t m"
  have op: "isOperational ?m" "outbox ?m = outbox m" using True by (simp_all add: setNow_def)
  have idle: "actions c = []" if "conns ?m r = Some c" for r c using that assms(2) by (auto simp: setNow_def)
  show ?thesis
  proof (cases "findConnForSegment seg src dest ?m")
    case None
    then show ?thesis using assms op by (auto simp: handleMessage_def Let_def segmentArrivalWhileClosed_def)
  next
    case (Some r)
    with assms(3) op obtain e m1 b m2 where m: "process_RCV_SEGMENT env seg src dest r ?m = Inr (e, m1)"
      "transition r e m1 = Inr (b, m2)" "finishMessage r (b, m2) = Inr m'"
      by (auto simp: handleMessage_def Let_def processTCPSegment_def elim!: bindR_InrE)
    have "quietStep r m1 m2"
      using m(2) unfolding transition_def by (rule onConn_quiet) (rule keeps_performStateTransition)
    then have "quietStep r ?m m2" by (rule quietStep_trans [OF rst_process_quiet [OF assms(1) m(1)]])
    from finishMessage_quiet [OF this idle m(3)] show ?thesis using op(2) by simp
  qed
qed

definition resetConn :: tcp_conn where
  "resetConn = (sampleConn TCP_S_ESTABLISHED)\<lparr>localAddr := Address 2, remoteAddr := Address 1, localPort := 80, remotePort := 1025, rcv_wnd := 1000\<rparr>"

definition resetModule :: tcp_main where
  "resetModule = newMain\<lparr>conns := [3 \<mapsto> resetConn], tcpConnMap := [sockPairOf resetConn \<mapsto> 3]\<rparr>"

end
