(* ===== verification/Tcp_Text.thy ===== *)
theory Tcp_Text
  imports Tcp_Ack
begin

text \<open>
  Segment text and the FIN bit (\<open>src/inet/transportlayer/tcp/TCPConnectionRcvSegment.cc\<close>,
  \<open>processSegment1stThru8th\<close>, steps seven and eight): what the application gets, where \<open>rcv_nxt\<close> stops, what stays
  buffered. The definitions are those of \<open>Tcp_Rcv\<close>, the queue is that of \<open>Tcp_RcvQueue\<close>.
\<close>

section \<open>Segment text\<close>

lemma truncate_bases:
  assumes len: "0 < payloadLength seg" "unat (payloadLength seg) < 2 ^ 30" and w: "unat (rcv_wnd c) < 2 ^ 30"
    and acc: "isSegmentAcceptable seg c"
  shows "\<exists>b. inwin b (sequenceNo seg) \<and> inwin b (segmentEnd seg) \<and> inwin b (rcv_nxt c) \<and> inwin b (rcv_nxt c + rcv_wnd c) \<and>
     seqLess (sequenceNo seg) (rcv_nxt c + rcv_wnd c) \<and> seqLess (rcv_nxt c) (segmentEnd seg) \<and>
     seqLess (rcv_nxt c) (rcv_nxt c + rcv_wnd c)"
proof -
  let ?n = "rcv_nxt c" and ?s = "sequenceNo seg" and ?e = "segmentEnd seg" and ?t = "rcv_nxt c + rcv_wnd c"
  let ?l = "unat (payloadLength seg)" and ?w = "unat (rcv_wnd c)"
  have l: "unat (ucast (payloadLength seg) :: u32) = ?l" using len by (intro unat_ucast_narrow) simp
  have l0: "0 < ?l" using len(1) by (simp add: word_less_nat_alt)
  have se: "off ?s ?e = ?l" by (simp add: segmentEnd_def off_def l)
  have nt: "off ?n ?t = ?w" by (simp add: off_def)
  have eb: "?e = ?s + of_nat ?l" using l by (simp add: segmentEnd_def)
  have "off ?n ?s < ?w \<or> off ?n (?e - 1) < ?w"
    using acc isSegmentAcceptable_data [of seg c] len w nt by (auto simp: byteRange_def segmentEnd_def)
  then show ?thesis
  proof
    assume a: "off ?n ?s < ?w"
    have "off ?n ?e = off ?n ?s + ?l" unfolding eb using a w len(2) by (intro off_add_nat) simp
    then have "inwin ?n ?s" "inwin ?n ?e" "inwin ?n ?t" "off ?n ?s < off ?n ?t" "0 < off ?n ?e" "0 < ?w"
      using a w len nt l0 by (simp_all add: inwin_def)
    then show ?thesis using nt by (intro exI [of _ ?n]) (simp add: seqLess_win [of ?n])
  next
    assume a: "off ?n (?e - 1) < ?w"
    have en: "off ?n ?e = off ?n (?e - 1) + 1" using off_succ [of ?n "?e - 1"] a w by simp
    show ?thesis
    proof (cases "off ?n ?e \<le> ?l")
      case True
      have "off ?s ?n + off ?n ?e = ?l"
      proof -
        have "?n - ?s = of_nat ?l - (?e - ?n)" unfolding eb by simp
        moreover have "unat (of_nat ?l - (?e - ?n)) = ?l - off ?n ?e"
          using True len(2) by (subst unat_sub) (simp_all add: off_def word_le_nat_alt l)
        ultimately have "off ?s ?n = ?l - off ?n ?e" unfolding off_def by (simp only:)
        then show ?thesis using True by simp
      qed
      moreover have "off ?s ?t = off ?s ?n + ?w"
        using calculation w len(2) nt off_split [of ?s ?n ?t] by simp
      ultimately have "inwin ?s ?e" "inwin ?s ?n" "inwin ?s ?t" "0 < off ?s ?t" "off ?s ?n < off ?s ?e" "off ?s ?n < off ?s ?t"
        using se en w len a by (simp_all add: inwin_def)
      then show ?thesis by (intro exI [of _ ?s]) (simp add: seqLess_win [of ?s])
    next
      case False
      have "off ?n ?s + ?l = off ?n ?e"
      proof -
        have "?s - ?n = (?e - ?n) - of_nat ?l" unfolding eb by simp
        moreover have "unat ((?e - ?n) - of_nat ?l) = off ?n ?e - ?l"
          using False len(2) by (subst unat_sub) (simp_all add: off_def word_le_nat_alt l)
        ultimately have "off ?n ?s = off ?n ?e - ?l" unfolding off_def by (simp only:)
        then show ?thesis using False by simp
      qed
      then have "inwin ?n ?s" "inwin ?n ?e" "inwin ?n ?t" "off ?n ?s < off ?n ?t" "0 < off ?n ?e" "0 < ?w"
        using a w len nt l0 en by (simp_all add: inwin_def)
      then show ?thesis using nt by (intro exI [of _ ?n]) (simp add: seqLess_win [of ?n])
    qed
  qed
qed

lemma truncate_acceptable:
  assumes len: "0 < payloadLength seg" "unat (payloadLength seg) < 2 ^ 30" and w: "unat (rcv_wnd c) < 2 ^ 30"
    and acc: "isSegmentAcceptable seg c"
  shows "\<exists>seg'. truncateSegment seg (rcv_nxt c) (rcv_nxt c + rcv_wnd c) = Inr seg' \<and> 0 < payloadLength seg' \<and>
     segBytes seg' = segBytes seg \<inter> byteRange (rcv_nxt c) (rcv_nxt c + rcv_wnd c) \<and>
     off (rcv_nxt c) (sequenceNo seg') + unat (payloadLength seg') \<le> unat (rcv_wnd c)"
proof -
  let ?n = "rcv_nxt c" and ?t = "rcv_nxt c + rcv_wnd c"
  obtain b where b: "inwin b (sequenceNo seg)" "inwin b (segmentEnd seg)" "inwin b ?n" "inwin b ?t"
     "seqLess (sequenceNo seg) ?t" "seqLess ?n (segmentEnd seg)" "seqLess ?n ?t"
    using truncate_bases [OF assms] by blast
  have "unat (payloadLength seg) < 2 ^ 31" using len by simp
  from truncateSegment_spec [OF len(1) this, of "segmentEnd seg" b ?n ?t] b obtain s where
    s: "truncateSegment seg ?n ?t = Inr s" "0 < payloadLength s" "unat (payloadLength s) \<le> unat (payloadLength seg)"
      "segBytes s = segBytes seg \<inter> byteRange ?n ?t" by (auto simp: segmentEnd_def)
  let ?p = "unat (payloadLength s)" and ?q = "sequenceNo s"
  have p: "0 < ?p" "?p < 2 ^ 30" using s len by (simp_all add: word_less_nat_alt)
  have t: "off ?n ?t = unat (rcv_wnd c)" by (simp add: off_def)
  have "off ?q (?q + of_nat (?p - 1)) = ?p - 1" using off_add_nat [of ?q ?q "?p - 1"] p by simp
  then have "?q \<in> segBytes s" "?q + of_nat (?p - 1) \<in> segBytes s" using p by (simp_all add: segBytes_def)
  then have "off ?n ?q < unat (rcv_wnd c)" "off ?n (?q + of_nat (?p - 1)) < unat (rcv_wnd c)"
    using s(4) t by (auto simp: byteRange_def)
  moreover from this have "off ?n (?q + of_nat (?p - 1)) = off ?n ?q + (?p - 1)" using w p by (intro off_add_nat) simp
  ultimately have "off ?n ?q + ?p \<le> unat (rcv_wnd c)" using p by simp
  then show ?thesis using s by blast
qed

text \<open>The number of bytes among what has been passed to the application.\<close>

fun appBytes :: "tcp_action list \<Rightarrow> nat" where
  "appBytes [] = 0"
| "appBytes (a # as) = (case a of DataToApp n \<Rightarrow> unat n | _ \<Rightarrow> 0) + appBytes as"

lemma appBytes_append [simp]: "appBytes (as @ bs) = appBytes as + appBytes bs"
  by (induction as) simp_all

lemma extract_none:
  assumes "rcvq_ok (rcvq_nxt q) q"
  shows "extractBytesUpTo q (rcvq_nxt q) = Inr (None, q)"
  using assms by (auto simp: extractBytesUpTo_def extractTo_def rcvq_ok_def seqLE_off split: list.split)

lemma extractAll_spec:
  assumes ok: "rcvq_ok b (receiveQ c)" and nxt: "rcvq_nxt (receiveQ c) = rcv_nxt c"
  shows "\<exists>q as. extractAll c = Inr (c\<lparr>receiveQ := q, actions := actions c @ as\<rparr>) \<and> rcvq_ok (rcv_nxt c) q \<and> rcvq_nxt q = rcv_nxt c \<and>
     rcvBytes (regionList q) = {x \<in> rcvBytes (regionList (receiveQ c)). off b (rcv_nxt c) \<le> off b x} \<and>
     appBytes as = card {x \<in> rcvBytes (regionList (receiveQ c)). off b x < off b (rcv_nxt c)} \<and> segmentsSent as = []"
proof -
  from extract_rebase [OF ok] nxt obtain n q where q: "extractBytesUpTo (receiveQ c) (rcv_nxt c) = Inr (n, q)"
    "rcvq_ok (rcv_nxt c) q" "rcvq_nxt q = rcv_nxt c"
    "rcvBytes (regionList q) = {x \<in> rcvBytes (regionList (receiveQ c)). off b (rcv_nxt c) \<le> off b x}"
    "(case n of None \<Rightarrow> 0 | Some k \<Rightarrow> unat k) = card {x \<in> rcvBytes (regionList (receiveQ c)). off b x < off b (rcv_nxt c)}" by auto
  have none: "extractBytesUpTo q (rcv_nxt c) = Inr (None, q)" using extract_none [of q] q by simp
  show ?thesis
  proof (cases n)
    case None
    then show ?thesis using q
      by (intro exI [of _ q] exI [of _ "[]"]) (simp add: extractAll_def extractLoop.simps [of "Suc _"])
  next
    case (Some k)
    have "extractLoop f (emit (DataToApp k) (c\<lparr>receiveQ := q\<rparr>)) = Inr (c\<lparr>receiveQ := q, actions := actions c @ [DataToApp k]\<rparr>)" for f
      using none by (subst extractLoop.simps) (simp add: emit_def)
    then show ?thesis using q Some
      by (intro exI [of _ q] exI [of _ "[DataToApp k]"])
        (simp add: extractAll_def extractLoop.simps [of "Suc _"] segmentsSent_def isToIP_def)
  qed
qed


text \<open>
  The receiver between two segments, in a state that takes text: everything below \<open>rcv_nxt\<close> has been passed
  on, the window lies inside the buffer, and the timers that a FIN needs exist.
\<close>

definition rcvReady :: "tcp_conn \<Rightarrow> bool" where
  "rcvReady c \<longleftrightarrow> textState (fsm c) \<and> rcvq_ok (rcv_nxt c) (receiveQ c) \<and> rcvq_nxt (receiveQ c) = rcv_nxt c \<and>
     rcv_wnd c \<le> maxRcvBuffer c \<and> unat (maxRcvBuffer c) < 2 ^ 30 \<and> \<not> par_useDataNotification (par c) \<and>
     finWait2Timer c \<noteq> NoTimer \<and> the2MSLTimer c = IdleTimer"

lemma getFirstSeqNo_ok: "rcvq_ok (rcvq_nxt q) q \<Longrightarrow> getFirstSeqNo q = rcvq_nxt q"
proof (cases "regionList q")
  case (Cons r rs)
  assume "rcvq_ok (rcvq_nxt q) q"
  then have "off (rcvq_nxt q) (rr_begin r) < 2 ^ 31" using Cons by (simp add: rcvq_ok_def)
  then have "seqMin (rr_begin r) (rcvq_nxt q) = rcvq_nxt q"
    using seqMin_win [of "rcvq_nxt q" "rr_begin r" "rcvq_nxt q"] by (simp add: inwin_def)
  then show ?thesis using Cons by (simp add: getFirstSeqNo_def)
qed (simp add: getFirstSeqNo_def)

lemma inserted_range:
  assumes ok: "rcvq_ok n q" "rcvq_nxt q = n" and seg: "segInWin n s" and ins: "insertBytesFromSegment q s = Inr q'"
  shows "rcvq_ok n q'" "rcvBytes (regionList q') = rcvBytes (regionList q) \<union> segBytes s"
    "byteRange n (rcvq_nxt q') \<subseteq> rcvBytes (regionList q')" "rcvq_nxt q' \<notin> rcvBytes (regionList q')"
    "rcvq_nxt q' = n \<longleftrightarrow> n \<notin> segBytes s"
proof -
  show i: "rcvq_ok n q'" "rcvBytes (regionList q') = rcvBytes (regionList q) \<union> segBytes s"
    "byteRange n (rcvq_nxt q') \<subseteq> rcvBytes (regionList q')"
    using insert_spec [OF ok(1) seg] ok(2) ins by (auto simp: byteRange_def)
  show out: "rcvq_nxt q' \<notin> rcvBytes (regionList q')" by (rule nxt_not_buffered [OF i(1)])
  have old: "n \<notin> rcvBytes (regionList q)" using nxt_not_buffered [OF ok(1)] ok(2) by simp
  have "n \<in> segBytes s" if "rcvq_nxt q' \<noteq> n"
  proof -
    have "n \<in> byteRange n (rcvq_nxt q')" using that by (simp add: byteRange_def) (metis gr0I off_eq_0)
    then show ?thesis using i(2,3) old by blast
  qed
  then show "rcvq_nxt q' = n \<longleftrightarrow> n \<notin> segBytes s" using out i(2) by blast
qed

lemma finReached_returns:
  assumes "textState (fsm c)" "finWait2Timer c \<noteq> NoTimer" "the2MSLTimer c = IdleTimer"
  shows "\<exists>ev t u. finReached c = Inr (ev, c\<lparr>finWait2Timer := t, the2MSLTimer := u\<rparr>)"
proof -
  have "\<exists>t u. Inr (e, c) = (Inr (e, c\<lparr>finWait2Timer := t, the2MSLTimer := u\<rparr>) :: (tcp_event_code \<times> tcp_conn) res)" for e
    by (rule exI [of _ "finWait2Timer c"], rule exI [of _ "the2MSLTimer c"]) simp
  then have stay: "\<exists>ev t u. Inr (TCP_E_RCV_FIN, c) = (Inr (ev, c\<lparr>finWait2Timer := t, the2MSLTimer := u\<rparr>) :: (tcp_event_code \<times> tcp_conn) res)"
    by blast
  have wait: "\<exists>t u. bindR (cancelEvent (finWait2Timer c)) (\<lambda>t. bindR (schedule2MSL (c\<lparr>finWait2Timer := t\<rparr>)) (\<lambda>c1. Inr (e, c1))) =
      (Inr (e, c\<lparr>finWait2Timer := t, the2MSLTimer := u\<rparr>) :: (tcp_event_code \<times> tcp_conn) res)" for e
    using assms(2,3) by (simp add: cancelEvent_def schedule2MSL_def scheduleTimeout_def scheduleAt_def) blast
  have tw: "fsm c \<noteq> TCP_S_TIME_WAIT" using assms(1) by (auto simp: textState_def)
  consider "fsm c = TCP_S_FIN_WAIT_1 \<and> fin_ack_rcvd c" | "fsm c = TCP_S_FIN_WAIT_2"
    | "\<not> (fsm c = TCP_S_FIN_WAIT_1 \<and> fin_ack_rcvd c)" "fsm c \<noteq> TCP_S_FIN_WAIT_2" by blast
  then show ?thesis
  proof cases
    case 1
    then show ?thesis unfolding finReached_def if_P [OF 1] using wait by blast
  next
    case 2
    then have "finReached c = bindR (cancelEvent (finWait2Timer c)) (\<lambda>t. bindR (schedule2MSL (c\<lparr>finWait2Timer := t\<rparr>)) (\<lambda>c1. Inr (TCP_E_RCV_FIN, c1)))"
      by (simp add: finReached_def)
    then show ?thesis using wait by (simp only:) blast
  next
    case 3
    show ?thesis unfolding finReached_def if_not_P [OF 3(1)] if_not_P [OF 3(2)] if_not_P [OF tw] by (rule stay)
  qed
qed

lemma inOrder_spec:
  assumes ok: "rcvq_ok b (receiveQ c)" "rcvq_nxt (receiveQ c) = rcv_nxt c" and par: "\<not> par_useDataNotification (par c)"
    and timers: "textState (fsm c)" "finWait2Timer c \<noteq> NoTimer" "the2MSLTimer c = IdleTimer"
  shows "\<exists>ev' c'. inOrder ev c = Inr (ev', c') \<and> rcvq_ok (rcv_nxt c) (receiveQ c') \<and> rcvq_nxt (receiveQ c') = rcv_nxt c \<and>
     rcvBytes (regionList (receiveQ c')) = {x \<in> rcvBytes (regionList (receiveQ c)). off b (rcv_nxt c) \<le> off b x} \<and>
     appBytes (actions c') = appBytes (actions c) + card {x \<in> rcvBytes (regionList (receiveQ c)). off b x < off b (rcv_nxt c)} \<and>
     rcv_nxt c' = (if fin_rcvd c \<and> rcv_nxt c = rcv_fin_seq c then rcv_nxt c + 1 else rcv_nxt c) \<and> fsm c' = fsm c"
proof -
  from extractAll_spec [OF ok] obtain q as where e: "extractAll c = Inr (c\<lparr>receiveQ := q, actions := actions c @ as\<rparr>)"
    "rcvq_ok (rcv_nxt c) q" "rcvq_nxt q = rcv_nxt c"
    "rcvBytes (regionList q) = {x \<in> rcvBytes (regionList (receiveQ c)). off b (rcv_nxt c) \<le> off b x}"
    "appBytes as = card {x \<in> rcvBytes (regionList (receiveQ c)). off b x < off b (rcv_nxt c)}" by blast
  show ?thesis
  proof (cases "fin_rcvd c \<and> rcv_nxt c = rcv_fin_seq c")
    case False
    then have "inOrder ev c = Inr (ev, c\<lparr>receiveQ := q, actions := actions c @ as\<rparr>)"
      using e(1) par by (auto simp: inOrder_def forwardToApp_def)
    then show ?thesis unfolding if_not_P [OF False]
      using e(2-) by (intro exI [of _ ev] exI [of _ "c\<lparr>receiveQ := q, actions := actions c @ as\<rparr>"]) simp
  next
    case True
    let ?d = "c\<lparr>receiveQ := q, actions := actions c @ as, ack_now := True, rcv_nxt := rcv_fin_seq c + 1\<rparr>"
    have "textState (fsm ?d)" "finWait2Timer ?d \<noteq> NoTimer" "the2MSLTimer ?d = IdleTimer" using timers by simp_all
    from finReached_returns [OF this] obtain ev' t u where
      "finReached ?d = Inr (ev', ?d\<lparr>finWait2Timer := t, the2MSLTimer := u\<rparr>)" by blast
    then have "inOrder ev c = Inr (ev', ?d\<lparr>finWait2Timer := t, the2MSLTimer := u\<rparr>)"
      using e(1) par True by (simp add: inOrder_def forwardToApp_def)
    then show ?thesis using e(2-) True by (intro exI [of _ ev'] exI [of _ "?d\<lparr>finWait2Timer := t, the2MSLTimer := u\<rparr>"]) simp
  qed
qed


lemma countSegment_simps [simp]:
  "coreView (countSegment seg c) = coreView c" "actions (countSegment seg c) = actions c"
  "rcv_wnd (countSegment seg c) = rcv_wnd c" "rcv_nxt (countSegment seg c) = rcv_nxt c"
  "maxRcvBuffer (countSegment seg c) = maxRcvBuffer c" "receiveQ (countSegment seg c) = receiveQ c"
  by (simp_all add: countSegment_def coreView_def Let_def)

lemma updateRcvQueueVars_core [simp]:
  "coreView (updateRcvQueueVars c) = coreView c" "actions (updateRcvQueueVars c) = actions c"
  "rcv_wnd (updateRcvQueueVars c) = rcv_wnd c"
  by (simp_all add: updateRcvQueueVars_def coreView_def Let_def)

text \<open>With room in the buffer, the text of an acceptable segment, cut to the window, reaches the queue.\<close>

lemma processText_accepts:
  assumes r: "rcvReady c" and len: "0 < payloadLength seg" "unat (payloadLength seg) < 2 ^ 30" and acc: "isSegmentAcceptable seg c"
  shows "\<exists>s d. segBytes s = segBytes seg \<inter> byteRange (rcv_nxt c) (rcv_nxt c + rcv_wnd c) \<and> segInWin (rcv_nxt c) s \<and>
     stillView d = stillView c \<and>
     processText old seg ev c = bindR (acceptText old s ev d) (\<lambda>(e, c3). Inr (s, Some e, c3))"
proof -
  have rr: "textState (fsm c)" "rcvq_ok (rcv_nxt c) (receiveQ c)" "rcvq_nxt (receiveQ c) = rcv_nxt c"
     "rcv_wnd c \<le> maxRcvBuffer c" "unat (maxRcvBuffer c) < 2 ^ 30" using r by (simp_all add: rcvReady_def)
  have w: "unat (rcv_wnd c) \<le> unat (maxRcvBuffer c)" "unat (rcv_wnd c) < 2 ^ 30" using rr(4,5) by (simp_all add: word_le_nat_alt)
  obtain s where s: "truncateSegment seg (rcv_nxt c) (rcv_nxt c + rcv_wnd c) = Inr s" "0 < payloadLength s"
     "segBytes s = segBytes seg \<inter> byteRange (rcv_nxt c) (rcv_nxt c + rcv_wnd c)"
     "off (rcv_nxt c) (sequenceNo s) + unat (payloadLength s) \<le> unat (rcv_wnd c)"
    using truncate_acceptable [OF len w(2) acc] by blast
  let ?d = "updateRcvQueueVars (countSegment seg c)"
  have view: "stillView ?d = stillView c" by (simp add: stillView_def)
  have win: "segInWin (rcv_nxt c) s" using s(2,4) w by (simp add: segInWin_def)
  have q: "receiveQ ?d = receiveQ c" "maxRcvBuffer ?d = maxRcvBuffer c"
    using view by (simp_all add: stillView_def coreView_def)
  have first: "getFirstSeqNo (receiveQ c) = rcv_nxt c" using getFirstSeqNo_ok [of "receiveQ c"] rr by simp
  have "off (rcv_nxt c) (segmentEnd s) = off (rcv_nxt c) (sequenceNo s) + unat (payloadLength s)"
  proof -
    have p: "unat (ucast (payloadLength s) :: u32) = unat (payloadLength s)" using s(4) w by (intro unat_ucast_narrow) simp
    have "off (rcv_nxt c) (sequenceNo s + of_nat (unat (ucast (payloadLength s) :: u32))) = off (rcv_nxt c) (sequenceNo s) + unat (payloadLength s)"
      unfolding p using s(4) w by (intro off_add_nat) simp
    then show ?thesis by (simp add: segmentEnd_def)
  qed
  moreover have "off (rcv_nxt c) (rcv_nxt c + maxRcvBuffer c) = unat (maxRcvBuffer c)" by (simp add: off_def)
  ultimately have "hasEnoughSpaceForSegmentInReceiveQueue s ?d"
    using s(4) w rr(5) seqLE_offs [of "rcv_nxt c" "segmentEnd s" "rcv_nxt c + maxRcvBuffer c"]
    by (simp add: hasEnoughSpaceForSegmentInReceiveQueue_def q first Let_def seqLE_off)
  then have "processText old seg ev c = bindR (acceptText old s ev ?d) (\<lambda>(e, c3). Inr (s, Some e, c3))"
    using rr(1) len(1) s(1) by (simp add: processText_def Let_def)
  then show ?thesis using s(3) win view by blast
qed

lemma stillView_fields:
  "stillView d = stillView c \<Longrightarrow> fsm d = fsm c \<and> receiveQ d = receiveQ c \<and> rcv_nxt d = rcv_nxt c \<and> par d = par c \<and>
     fin_rcvd d = fin_rcvd c \<and> rcv_fin_seq d = rcv_fin_seq c \<and> finWait2Timer d = finWait2Timer c \<and>
     the2MSLTimer d = the2MSLTimer c \<and> actions d = actions c \<and> snd_una d = snd_una c"
  by (simp add: stillView_def coreView_def)

lemma text_processed:
  assumes "rcvReady c" "0 < payloadLength seg" "unat (payloadLength seg) < 2 ^ 30" "isSegmentAcceptable seg c" "old = snd_una c"
  shows "\<exists>s. segBytes s = segBytes seg \<inter> byteRange (rcv_nxt c) (rcv_nxt c + rcv_wnd c) \<and>
    (if rcv_nxt c \<in> segBytes s
     then \<exists>ev' c' n. processText old seg ev c = Inr (s, Some ev', c') \<and>
       appBytes (actions c') = appBytes (actions c) + off (rcv_nxt c) n \<and>
       byteRange (rcv_nxt c) n \<subseteq> rcvBytes (regionList (receiveQ c)) \<union> segBytes s \<and>
       n \<notin> rcvBytes (regionList (receiveQ c)) \<union> segBytes s \<and>
       rcvBytes (regionList (receiveQ c')) = (rcvBytes (regionList (receiveQ c)) \<union> segBytes s) - byteRange (rcv_nxt c) n \<and>
       rcv_nxt c' = (if fin_rcvd c \<and> n = rcv_fin_seq c then n + 1 else n) \<and>
       rcvq_ok n (receiveQ c') \<and> rcvq_nxt (receiveQ c') = n \<and> fsm c' = fsm c
     else \<exists>d. processText old seg ev c = bindR (algReceivedOutOfOrderSegment d) (\<lambda>e. Inr (s, Some ev, e)) \<and>
       rcvBytes (regionList (receiveQ d)) = rcvBytes (regionList (receiveQ c)) \<union> segBytes s \<and>
       rcv_nxt d = rcv_nxt c \<and> actions d = actions c \<and> rcvq_ok (rcv_nxt c) (receiveQ d))"
proof -
  let ?n = "rcv_nxt c"
  have rr: "textState (fsm c)" "rcvq_ok ?n (receiveQ c)" "rcvq_nxt (receiveQ c) = ?n" "\<not> par_useDataNotification (par c)"
     "finWait2Timer c \<noteq> NoTimer" "the2MSLTimer c = IdleTimer" using assms(1) by (simp_all add: rcvReady_def)
  obtain s d where s: "segBytes s = segBytes seg \<inter> byteRange ?n (?n + rcv_wnd c)" "segInWin ?n s" "stillView d = stillView c"
     "processText old seg ev c = bindR (acceptText old s ev d) (\<lambda>(e, c3). Inr (s, Some e, c3))"
    using processText_accepts [OF assms(1-4)] by blast
  note d = stillView_fields [OF s(3)]
  have "off ?n (rcvq_nxt (receiveQ c)) \<le> off ?n (sequenceNo s)" using rr(3) by simp
  then obtain q where q: "insertBytesFromSegment (receiveQ c) s = Inr q" using insert_spec [OF rr(2) s(2)] by blast
  note i = inserted_range [OF rr(2,3) s(2) q]
  let ?e = "d\<lparr>receiveQ := q, rcv_nxt := rcvq_nxt q\<rparr>"
  have acc: "acceptText old s ev d = (if ?n = rcvq_nxt q then bindR (outOfOrder s (usedRcvBuffer d) ?e) (\<lambda>c4. Inr (ev, c4)) else inOrder ev ?e)"
    using q d assms(5) by (simp add: acceptText_def Let_def seqGreater_seqLess)
  show ?thesis
  proof (cases "?n \<in> segBytes s")
    case True
    then have ne: "?n \<noteq> rcvq_nxt q" using i(5) by metis
    have "rcvq_ok ?n (receiveQ ?e)" "rcvq_nxt (receiveQ ?e) = rcv_nxt ?e" "\<not> par_useDataNotification (par ?e)"
      "textState (fsm ?e)" "finWait2Timer ?e \<noteq> NoTimer" "the2MSLTimer ?e = IdleTimer" using i(1) rr d by simp_all
    from inOrder_spec [OF this, of ev] obtain ev' c' where o: "inOrder ev ?e = Inr (ev', c')" "rcvq_ok (rcvq_nxt q) (receiveQ c')"
      "rcvq_nxt (receiveQ c') = rcvq_nxt q" "rcvBytes (regionList (receiveQ c')) = {x \<in> rcvBytes (regionList q). off ?n (rcvq_nxt q) \<le> off ?n x}"
      "appBytes (actions c') = appBytes (actions c) + card {x \<in> rcvBytes (regionList q). off ?n x < off ?n (rcvq_nxt q)}"
      "rcv_nxt c' = (if fin_rcvd c \<and> rcvq_nxt q = rcv_fin_seq c then rcvq_nxt q + 1 else rcvq_nxt q)" "fsm c' = fsm c"
      using d by auto
    have "{x \<in> rcvBytes (regionList q). off ?n x < off ?n (rcvq_nxt q)} = byteRange ?n (rcvq_nxt q)"
      using i(3) by (auto simp: byteRange_def)
    then have cnt: "appBytes (actions c') = appBytes (actions c) + off ?n (rcvq_nxt q)" using o(5) by (simp add: card_byteRange)
    have rest: "rcvBytes (regionList (receiveQ c')) = (rcvBytes (regionList (receiveQ c)) \<union> segBytes s) - byteRange ?n (rcvq_nxt q)"
      using o(4) i(2) by (auto simp: byteRange_def)
    have "processText old seg ev c = Inr (s, Some ev', c')" unfolding s(4) acc if_not_P [OF ne] o(1) by simp
    then show ?thesis using cnt rest i(2-4) o(2,3,6,7)
      by (intro exI [of _ s] conjI s(1), unfold if_P [OF True], intro exI [of _ ev'] exI [of _ c'] exI [of _ "rcvq_nxt q"]) simp
  next
    case False
    then have eq: "?n = rcvq_nxt q" using i(5) by simp
    obtain g where g: "outOfOrder s (usedRcvBuffer d) ?e = algReceivedOutOfOrderSegment g" "stillView g = stillView ?e"
    proof -
      show thesis by (rule that [OF _ ]) (unfold outOfOrder_def Let_def, rule refl, simp add: stillView_def coreView_def)
    qed
    have "processText old seg ev c = bindR (algReceivedOutOfOrderSegment g) (\<lambda>e. Inr (s, Some ev, e))"
      unfolding s(4) acc if_P [OF eq] g(1) by (simp add: bindR_assoc)
    then show ?thesis using stillView_fields [OF g(2)] d i(1,2) eq
      by (intro exI [of _ s] conjI s(1), unfold if_not_P [OF False], intro exI [of _ g]) simp
  qed
qed

lemma ex_if_then: "\<exists>s. A s \<and> (if B s then P s else Q s) \<Longrightarrow> \<exists>s. A s \<and> (B s \<longrightarrow> P s)"
  by auto

lemma text_accepted:
  assumes "rcvReady c" "0 < payloadLength seg" "unat (payloadLength seg) < 2 ^ 30" "isSegmentAcceptable seg c" "old = snd_una c"
  shows "\<exists>s. segBytes s = segBytes seg \<inter> byteRange (rcv_nxt c) (rcv_nxt c + rcv_wnd c) \<and>
    (rcv_nxt c \<in> segBytes s \<longrightarrow> (\<exists>ev' c' n. processText old seg ev c = Inr (s, Some ev', c') \<and>
       appBytes (actions c') = appBytes (actions c) + off (rcv_nxt c) n \<and>
       byteRange (rcv_nxt c) n \<subseteq> rcvBytes (regionList (receiveQ c)) \<union> segBytes s \<and>
       n \<notin> rcvBytes (regionList (receiveQ c)) \<union> segBytes s \<and>
       rcv_nxt c' = (if fin_rcvd c \<and> n = rcv_fin_seq c then n + 1 else n) \<and> fsm c' = fsm c))"
  by (rule exE [OF ex_if_then [OF text_processed [OF assms, of ev]]], elim conjE, rule exI, rule conjI, assumption) blast

text \<open>
  C14: reception of text. For an acceptable segment that brings no new acknowledgement, on a receiver with
  room in its buffer: if it contains the byte expected next, the segment is accepted, the application
  gets exactly as many bytes as \<open>rcv_nxt\<close> moves over, all of them received, \<open>rcv_nxt\<close> stops at the first byte
  that is missing (or one further, past a FIN that waited there), and what lies above stays buffered. Otherwise
  its text inside the window is buffered, nothing is delivered, and the congestion control is asked for a duplicate
  acknowledgement.
\<close>

theorem text_reassembled:
  assumes "rcvReady c" "0 < payloadLength seg" "unat (payloadLength seg) < 2 ^ 30" "isSegmentAcceptable seg c" "old = snd_una c"
  shows "\<exists>s. segBytes s = segBytes seg \<inter> byteRange (rcv_nxt c) (rcv_nxt c + rcv_wnd c) \<and>
    (if rcv_nxt c \<in> segBytes s
     then \<exists>ev' c' n. processText old seg ev c = Inr (s, Some ev', c') \<and>
       appBytes (actions c') = appBytes (actions c) + off (rcv_nxt c) n \<and>
       byteRange (rcv_nxt c) n \<subseteq> rcvBytes (regionList (receiveQ c)) \<union> segBytes s \<and>
       n \<notin> rcvBytes (regionList (receiveQ c)) \<union> segBytes s \<and>
       rcvBytes (regionList (receiveQ c')) = (rcvBytes (regionList (receiveQ c)) \<union> segBytes s) - byteRange (rcv_nxt c) n \<and>
       rcv_nxt c' = (if fin_rcvd c \<and> n = rcv_fin_seq c then n + 1 else n) \<and>
       rcvq_ok n (receiveQ c') \<and> rcvq_nxt (receiveQ c') = n \<and> fsm c' = fsm c
     else \<exists>d. processText old seg ev c = bindR (algReceivedOutOfOrderSegment d) (\<lambda>e. Inr (s, Some ev, e)) \<and>
       rcvBytes (regionList (receiveQ d)) = rcvBytes (regionList (receiveQ c)) \<union> segBytes s \<and>
       rcv_nxt d = rcv_nxt c \<and> actions d = actions c \<and> rcvq_ok (rcv_nxt c) (receiveQ d))"
  by (rule text_processed [OF assms])

definition sampleReceiver :: tcp_conn where
  "sampleReceiver = (sampleSender TCP_S_ESTABLISHED)\<lparr>rcv_nxt := 100, receiveQ := sampleRcvQueue, rcv_wnd := 1000, maxRcvBuffer := 14336\<rparr>"

lemma sampleReceiver_ready: "rcvReady sampleReceiver"
  by (simp add: rcvReady_def sampleReceiver_def sampleSender_def sampleConn_def newConnection_def sampleRcvQueue_ok textState_def
      tcp_alg_state_variables.defs) (simp add: sampleRcvQueue_def)

theorem text_reassembled_witness:
  "\<exists>s ev' c' n. processText 1000 (newSegment\<lparr>sequenceNo := 95, payloadLength := 20\<rparr>) TCP_E_IGNORE sampleReceiver = Inr (s, Some ev', c') \<and>
     appBytes (actions c') = appBytes (actions sampleReceiver) + off 100 n \<and> n \<notin> segBytes s \<and> rcvq_nxt (receiveQ c') = n"
proof -
  let ?seg = "newSegment\<lparr>sequenceNo := 95, payloadLength := 20\<rparr>"
  have f: "rcv_nxt sampleReceiver = 100" "rcv_wnd sampleReceiver = 1000" "snd_una sampleReceiver = 1000"
    by (simp_all add: sampleReceiver_def sampleSender_def)
  have "isSegmentAcceptable ?seg sampleReceiver"
    using f by (simp add: isSegmentAcceptable_def newSegment_def seqLE_def seqLess_def)
  moreover have "0 < payloadLength ?seg" "unat (payloadLength ?seg) < 2 ^ 30" by (simp_all add: newSegment_def)
  ultimately obtain s where s: "segBytes s = segBytes ?seg \<inter> byteRange 100 (100 + 1000)"
    "100 \<in> segBytes s \<longrightarrow> (\<exists>ev' c' n. processText 1000 ?seg TCP_E_IGNORE sampleReceiver = Inr (s, Some ev', c') \<and>
       appBytes (actions c') = appBytes (actions sampleReceiver) + off 100 n \<and> n \<notin> segBytes s \<and> rcvq_nxt (receiveQ c') = n)"
    using text_reassembled [OF sampleReceiver_ready, of ?seg 1000 TCP_E_IGNORE, unfolded f] by (metis (no_types, lifting) UnCI)
  have "100 \<in> segBytes s" unfolding s(1) by (simp add: segBytes_def byteRange_def off_def newSegment_def)
  with s(2) show ?thesis by blast
qed

lemma truncate_finBit: "truncateSegment seg a b = Inr s \<Longrightarrow> finBit s = finBit seg"
  by (auto simp: truncateSegment_def truncateData_def Let_def elim!: bindR_InrE split: if_splits)

lemma processText_truncates:
  assumes "processText old seg ev c = Inr (s, e, c')" "textState (fsm c)" "0 < payloadLength seg"
  shows "truncateSegment seg (rcv_nxt c) (rcv_nxt c + rcv_wnd c) = Inr s"
  using assms by (auto simp: processText_def Let_def elim!: bindR_InrE split: if_splits)

text \<open>
  A FIN is taken too early. When a segment with FIN reaches beyond the window, \<open>truncateSegment\<close> cuts its text but not the
  FIN, whose position the eighth step computes from the cut length: the receiver moves \<open>rcv_nxt\<close> past a FIN at the
  end of the window, acknowledges it and reports \<open>TCP_E_RCV_FIN\<close>, though the text between the end of the window and the
  FIN was dropped.
\<close>

lemma fin_beyond_window:
  assumes c: "rcvReady c" "fsm c = TCP_S_ESTABLISHED" "regionList (receiveQ c) = []" "\<not> fin_rcvd c" "0 < rcv_wnd c" "old = snd_una c"
    and seg: "finBit seg" "sequenceNo seg = rcv_nxt c" "unat (rcv_wnd c) < unat (payloadLength seg)" "unat (payloadLength seg) < 2 ^ 30"
  shows "\<exists>s ev' c1 c2. processText old seg ev c = Inr (s, Some ev', c1) \<and> processFin s ev' c1 = Inr (TCP_E_RCV_FIN, c2) \<and>
     rcv_nxt c2 = rcv_nxt c + rcv_wnd c + 1 \<and> appBytes (actions c2) = appBytes (actions c) + unat (rcv_wnd c) \<and>
     segmentEnd seg \<noteq> rcv_nxt c + rcv_wnd c"
proof -
  let ?n = "rcv_nxt c" and ?w = "rcv_wnd c"
  have pl: "0 < payloadLength seg" using seg(3) by (simp add: word_less_nat_alt)
  have u: "unat (ucast (payloadLength seg) :: u32) = unat (payloadLength seg)" using seg(4) by (intro unat_ucast_narrow) simp
  have w: "unat ?w < 2 ^ 30" "0 < unat ?w" using seg(3,4) c(5) by (simp_all add: word_less_nat_alt)
  have ots: "off ?n (?n + ?w) = unat ?w" "off ?n (segmentEnd seg) = unat (payloadLength seg)"
    using u seg(2) by (simp_all add: off_def segmentEnd_def)
  have acc: "isSegmentAcceptable seg c"
  proof -
    have "?n \<in> byteRange ?n (?n + ?w)" using ots w by (simp add: byteRange_def)
    then show ?thesis using isSegmentAcceptable_data [of seg c] pl seg(2,4) w by simp
  qed
  have nofin: "(if fin_rcvd c \<and> n = rcv_fin_seq c then n + 1 else n) = n" for n using c(4) by simp
  obtain s where s: "segBytes s = segBytes seg \<inter> byteRange ?n (?n + ?w) \<and>
     (?n \<in> segBytes s \<longrightarrow> (\<exists>ev' c' n. processText old seg ev c = Inr (s, Some ev', c') \<and>
       appBytes (actions c') = appBytes (actions c) + off ?n n \<and> byteRange ?n n \<subseteq> segBytes s \<and> n \<notin> segBytes s \<and>
       rcv_nxt c' = n \<and> fsm c' = fsm c))"
    using text_accepted [OF c(1) pl seg(4) acc c(6), of ev] unfolding c(3) rcvBytes_simps Un_empty_left nofin by (rule exE)
  have sb: "segBytes s = byteRange ?n (?n + ?w)"
    using conjunct1 [OF s] seg(2,3) ots by (auto simp: segBytes_def byteRange_def)
  then have "?n \<in> segBytes s" using ots w by (simp add: byteRange_def)
  from conjunct2 [OF s, rule_format, OF this] obtain ev' c' n where t: "processText old seg ev c = Inr (s, Some ev', c')" "appBytes (actions c') = appBytes (actions c) + off ?n n"
     "byteRange ?n n \<subseteq> segBytes s" "n \<notin> segBytes s" "rcv_nxt c' = n" "fsm c' = TCP_S_ESTABLISHED" using c(2) by auto
  have n: "n = ?n + ?w"
  proof -
    have "?n + ?w \<notin> byteRange ?n n" using t(3) sb by (auto simp: byteRange_def)
    then show ?thesis using t(4) sb off_inj [of ?n n "?n + ?w"] by (simp add: byteRange_def)
  qed
  have tr: "truncateSegment seg ?n (?n + ?w) = Inr s"
    by (rule processText_truncates [OF t(1)]) (use c(1) pl in \<open>simp_all add: rcvReady_def\<close>)
  have win: "inwin ?n (segmentEnd seg)" "inwin ?n (?n + ?w)" using ots seg(4) w by (simp_all add: inwin_def)
  have "segmentEnd s = seqMin (segmentEnd seg) (?n + ?w)"
    using truncateSegment_spec [OF pl, of "segmentEnd seg" ?n ?n "?n + ?w"] seg(2-4) win tr ots w
    by (auto simp: segmentEnd_def seqLess_win [of ?n])
  then have "segmentEnd s = n" using seqMin_win [OF win] ots seg(3) n by auto
  moreover have "finBit s" using truncate_finBit [OF tr] seg(1) by simp
  ultimately have "processFin s ev' c' = Inr (TCP_E_RCV_FIN, c'\<lparr>ack_now := True, rcv_nxt := n + 1\<rparr>)"
    using t(5,6) by (simp add: processFin_def finReached_def Let_def)
  moreover have "segmentEnd seg \<noteq> ?n + ?w" using ots seg(3) by auto
  ultimately show ?thesis using t(1,2) n ots
    by (intro exI [of _ s] exI [of _ ev'] exI [of _ c'] exI [of _ "c'\<lparr>ack_now := True, rcv_nxt := n + 1\<rparr>"]) simp
qed

definition smallReceiver :: tcp_conn where
  "smallReceiver = sampleReceiver\<lparr>receiveQ := \<lparr>rcvq_nxt = 100, regionList = []\<rparr>, rcv_wnd := 50\<rparr>"

end
