(* ===== verification/Tcp_Handshake.thy ===== *)
theory Tcp_Handshake
  imports Tcp_Message Tcp_Text
begin

text \<open>
  The three-way handshake, between two connections and between two modules
  (\<open>TCPConnectionRcvSegment.cc\<close>: \<open>processSegmentInListen\<close>, \<open>processSegmentInSynSent\<close>, \<open>processSegment1stThru8th\<close>;
  \<open>TCPConnectionEventProc.cc\<close>: \<open>process_OPEN_ACTIVE\<close>; \<open>TCP.cc\<close>: \<open>handleMessage\<close>), for connections that negotiate no
  option but the maximum segment size.
\<close>

section \<open>Connections without options\<close>

definition plainConn :: "tcp_conn \<Rightarrow> bool" where
  "plainConn c \<longleftrightarrow> \<not> ws_support c \<and> \<not> ws_enabled c \<and> \<not> ts_support c \<and> \<not> ts_enabled c \<and> \<not> sack_support c \<and> \<not> sack_enabled c"

text \<open>The variables that announcing a window sets.\<close>

definition windowed :: "u32 \<Rightarrow> u32 \<Rightarrow> u32 \<Rightarrow> u32 \<Rightarrow> tcp_conn \<Rightarrow> tcp_conn" where
  "windowed f u a w c = c\<lparr>freeRcvBuffer := f, usedRcvBuffer := u, rcv_adv := a, rcv_wnd := w\<rparr>"

lemma updateRcvWnd_plain:
  assumes "plainConn c"
  shows "\<exists>f u a w. updateRcvWnd c = Inr (ucast w, windowed f u a w c) \<and> w \<le> TCP_MAX_WIN"
proof -
  define q where "q = updateRcvQueueVars c"
  define w where "w = chooseRcvWnd q"
  have q: "q = c\<lparr>freeRcvBuffer := freeRcvBuffer q, usedRcvBuffer := usedRcvBuffer q\<rparr>"
    by (simp add: q_def updateRcvQueueVars_def Let_def)
  have ws: "\<not> ws_enabled q" "rcv_wnd_scale q = rcv_wnd_scale c" using assms by (simp_all add: plainConn_def q_def updateRcvQueueVars_def Let_def)
  have le: "w \<le> TCP_MAX_WIN" using ws by (auto simp: w_def chooseRcvWnd_def Let_def)
  have "updateRcvWnd c = Inr (ucast w, (if w > 0 \<and> seqGE (rcv_nxt q + w) (rcv_adv q) then q\<lparr>rcv_adv := rcv_nxt q + w\<rparr> else q)\<lparr>rcv_wnd := w\<rparr>)"
    using ws ucast16_id [OF le] by (simp add: updateRcvWnd_def Let_def w_def [symmetric] q_def [symmetric])
  also have "(if w > 0 \<and> seqGE (rcv_nxt q + w) (rcv_adv q) then q\<lparr>rcv_adv := rcv_nxt q + w\<rparr> else q)\<lparr>rcv_wnd := w\<rparr> =
      windowed (freeRcvBuffer q) (usedRcvBuffer q) (if w > 0 \<and> seqGE (rcv_nxt q + w) (rcv_adv q) then rcv_nxt q + w else rcv_adv c) w c"
  proof -
    have "rcv_adv q = rcv_adv c" by (simp add: q_def)
    then show ?thesis by (simp add: windowed_def) (subst q, simp)+
  qed
  finally show ?thesis using le by blast
qed

text \<open>A segment of the handshake: no payload, and no option but the maximum segment size.\<close>

definition mssOptions :: "tcp_segment \<Rightarrow> bool" where
  "mssOptions seg \<longleftrightarrow> (\<forall>opt\<in>set (headerOptionList seg). \<exists>v. opt = mkOption (OptMaxSegmentSize v))"

definition mssOnly :: "tcp_segment \<Rightarrow> bool" where
  "mssOnly seg \<longleftrightarrow> payloadLength seg = 0 \<and> \<not> rstBit seg \<and> \<not> finBit seg \<and> mssOptions seg"

lemma mssOnly_read:
  assumes "mssOptions seg"
  shows "\<exists>k. readOptions seg c = Inr (c\<lparr>snd_mss := k\<rparr>)"
proof -
  have one: "\<exists>k. processOption seg (mkOption (OptMaxSegmentSize v)) d = Inr (d\<lparr>snd_mss := k\<rparr>)" for v d
  proof -
    have "\<exists>k. snd (processMSSOption 4 v d) = d\<lparr>snd_mss := k\<rparr>"
    proof (cases "fsm d \<noteq> TCP_S_LISTEN \<and> fsm d \<noteq> TCP_S_SYN_SENT")
      case True
      then show ?thesis by (intro exI [of _ "snd_mss d"]) (simp add: processMSSOption_def)
    next
      case False
      then show ?thesis unfolding processMSSOption_def Let_def by auto
    qed
    then show ?thesis by (auto simp: processOption_def mkOption_def)
  qed
  have "\<exists>k. processOptions seg opts d = Inr (d\<lparr>snd_mss := k\<rparr>)"
    if "\<forall>opt\<in>set opts. \<exists>v. opt = mkOption (OptMaxSegmentSize v)" for opts d
    using that
  proof (induction opts arbitrary: d)
    case Nil
    then show ?case by (intro exI [of _ "snd_mss d"]) simp
  next
    case (Cons opt opts)
    then obtain v where v: "opt = mkOption (OptMaxSegmentSize v)" by auto
    obtain k where k: "processOption seg opt d = Inr (d\<lparr>snd_mss := k\<rparr>)" using one v by blast
    obtain k' where "processOptions seg opts (d\<lparr>snd_mss := k\<rparr>) = Inr (d\<lparr>snd_mss := k\<rparr>\<lparr>snd_mss := k'\<rparr>)"
      using Cons by fastforce
    then show ?case using k by (intro exI [of _ k']) simp
  qed
  then have "\<exists>k. readHeaderOptions seg c = Inr (c\<lparr>snd_mss := k\<rparr>)" using assms by (simp add: readHeaderOptions_def mssOptions_def)
  moreover have "Inr c = (Inr (c\<lparr>snd_mss := snd_mss c\<rparr>) :: tcp_conn res)" by simp
  ultimately show ?thesis unfolding readOptions_def by (cases "hasOptions seg") (simp only: if_True, simp only: if_False, blast)
qed

text \<open>Options written by a connection without options of its own.\<close>

lemma writeHeaderOptions_plain:
  assumes "plainConn c" "headerOptionList seg = []" "headerLength seg = TCP_HEADER_OCTETS"
  shows "\<exists>opts hl. writeHeaderOptions seg c = Inr (seg\<lparr>headerOptionList := opts, headerLength := hl\<rparr>, c) \<and>
     TCP_HEADER_OCTETS \<le> hl \<and> hl \<le> TCP_MAX_HEADER_OCTETS \<and> (\<forall>opt\<in>set opts. \<exists>v. opt = mkOption (OptMaxSegmentSize v))"
proof -
  have p: "\<not> ws_support c" "\<not> ts_support c" "\<not> ts_enabled c" "\<not> sack_support c" "\<not> sack_enabled c"
    using assms(1) by (simp_all add: plainConn_def)
  have none: "setOptionsLength seg = seg\<lparr>headerOptionList := [], headerLength := TCP_HEADER_OCTETS\<rparr>"
    using assms(2,3) by (simp add: setOptionsLength_def)
  let ?o = "mkOption (OptMaxSegmentSize (ucast (snd_mss c)))"
  have one: "setOptionsLength (addHeaderOption seg ?o) = seg\<lparr>headerOptionList := [?o], headerLength := TCP_HEADER_OCTETS + 4\<rparr>"
    using assms(2,3) by (simp add: setOptionsLength_def addHeaderOption_def getHeaderOptionArrayLength_def mkOption_def)
  have "writeHeaderOptions seg c \<in> {Inr (seg\<lparr>headerOptionList := [], headerLength := TCP_HEADER_OCTETS\<rparr>, c),
      Inr (seg\<lparr>headerOptionList := [?o], headerLength := TCP_HEADER_OCTETS + 4\<rparr>, c)}"
    using p none one
    by (simp add: writeHeaderOptions_def writeSynMss_def writeSynWs_def writeSynSackPerm_def writeSynTs_def writeTs_def sacksPending_def Let_def)
  then show ?thesis by (elim insertE emptyE) (force simp: )+
qed


lemma plainConn_updates [simp]:
  "plainConn (windowed f u a w c) = plainConn c" "plainConn (emit e c) = plainConn c"
  "plainConn (c\<lparr>snd_nxt := x0\<rparr>) = plainConn c" "plainConn (c\<lparr>snd_max := x1\<rparr>) = plainConn c" "plainConn (c\<lparr>sentBytes := x2\<rparr>) = plainConn c"
  "plainConn (c\<lparr>actions := x3\<rparr>) = plainConn c" "plainConn (c\<lparr>fsm := x4\<rparr>) = plainConn c" "plainConn (c\<lparr>snd_mss := x5\<rparr>) = plainConn c"
  "plainConn (c\<lparr>ack_now := x6\<rparr>) = plainConn c" "plainConn (c\<lparr>synRexmitTimer := x7\<rparr>) = plainConn c" "plainConn (c\<lparr>connEstabTimer := x8\<rparr>) = plainConn c"
  "plainConn (c\<lparr>syn_rexmit_count := x9\<rparr>) = plainConn c" "plainConn (c\<lparr>syn_rexmit_timeout := x10\<rparr>) = plainConn c" "plainConn (c\<lparr>snd_una := x11\<rparr>) = plainConn c"
  "plainConn (c\<lparr>sendQ := x12\<rparr>) = plainConn c" "plainConn (c\<lparr>receiveQ := x13\<rparr>) = plainConn c" "plainConn (c\<lparr>rcv_nxt := x14\<rparr>) = plainConn c"
  "plainConn (c\<lparr>rcv_adv := x15\<rparr>) = plainConn c" "plainConn (c\<lparr>irs := x16\<rparr>) = plainConn c" "plainConn (c\<lparr>iss := x17\<rparr>) = plainConn c"
  "plainConn (c\<lparr>rexmitQ := x18\<rparr>) = plainConn c" "plainConn (c\<lparr>snd_cwnd := x19\<rparr>) = plainConn c" "plainConn (c\<lparr>dupacks := x20\<rparr>) = plainConn c"
  "plainConn (c\<lparr>fin_ack_rcvd := x21\<rparr>) = plainConn c" "plainConn (c\<lparr>localAddr := x22\<rparr>) = plainConn c" "plainConn (c\<lparr>remoteAddr := x23\<rparr>) = plainConn c"
  "plainConn (c\<lparr>localPort := x24\<rparr>) = plainConn c" "plainConn (c\<lparr>remotePort := x25\<rparr>) = plainConn c" "plainConn (c\<lparr>active := x26\<rparr>) = plainConn c"
  "plainConn (c\<lparr>freeRcvBuffer := y1\<rparr>) = plainConn c" "plainConn (c\<lparr>usedRcvBuffer := y2\<rparr>) = plainConn c" "plainConn (c\<lparr>rcv_wnd := y3\<rparr>) = plainConn c"
  by (simp_all add: plainConn_def windowed_def emit_def)

lemma windowed_simps [simp]:
  "localAddr (windowed f u a w c) = localAddr c" "remoteAddr (windowed f u a w c) = remoteAddr c"
  "localPort (windowed f u a w c) = localPort c" "remotePort (windowed f u a w c) = remotePort c"
  "iss (windowed f u a w c) = iss c" "rcv_nxt (windowed f u a w c) = rcv_nxt c" "snd_nxt (windowed f u a w c) = snd_nxt c"
  by (simp_all add: windowed_def)

text \<open>The three segments of the handshake, as they leave a connection without options.\<close>

definition handshakeSegment :: "bool \<Rightarrow> bool \<Rightarrow> u32 \<Rightarrow> u32 \<Rightarrow> tcp_conn \<Rightarrow> tcp_segment \<Rightarrow> bool" where
  "handshakeSegment syn ack s a c seg \<longleftrightarrow> mssOnly seg \<and> synBit seg = syn \<and> ackBit seg = ack \<and> sequenceNo seg = s \<and>
     (ack \<longrightarrow> ackNo seg = a) \<and> srcPort seg = of_int (localPort c) \<and> destPort seg = of_int (remotePort c)"

lemma sendToIP_plain:
  assumes "TCP_HEADER_OCTETS \<le> headerLength seg" "headerLength seg \<le> TCP_MAX_HEADER_OCTETS" "payloadLength seg = 0"
  shows "sendToIP seg c = Inr (emit (ToIP (seg\<lparr>srcPort := of_int (localPort c), destPort := of_int (remotePort c)\<rparr>) (localAddr c) (remoteAddr c)) (c\<lparr>sentBytes := 0\<rparr>))"
  using assms by (simp add: sendToIP_def)

lemma sendPlain:
  assumes "plainConn c" "headerOptionList seg = []" "headerLength seg = TCP_HEADER_OCTETS" "payloadLength seg = 0" "\<not> rstBit seg" "\<not> finBit seg"
  shows "\<exists>seg'. bindR (writeHeaderOptions seg c) (\<lambda>(s, c3). bindR (sendToIP s c3) g) =
       g (emit (ToIP seg' (localAddr c) (remoteAddr c)) (c\<lparr>sentBytes := 0\<rparr>)) \<and>
     handshakeSegment (synBit seg) (ackBit seg) (sequenceNo seg) (ackNo seg) c seg'"
proof -
  obtain opts hl where o: "writeHeaderOptions seg c = Inr (seg\<lparr>headerOptionList := opts, headerLength := hl\<rparr>, c)"
     "TCP_HEADER_OCTETS \<le> hl" "hl \<le> TCP_MAX_HEADER_OCTETS" "\<forall>opt\<in>set opts. \<exists>v. opt = mkOption (OptMaxSegmentSize v)"
    using writeHeaderOptions_plain [OF assms(1-3)] by blast
  let ?s = "seg\<lparr>headerOptionList := opts, headerLength := hl\<rparr>"
  have "TCP_HEADER_OCTETS \<le> headerLength ?s" "headerLength ?s \<le> TCP_MAX_HEADER_OCTETS" "payloadLength ?s = 0"
    using o assms(4) by simp_all
  note send = sendToIP_plain [OF this, of c]
  have "handshakeSegment (synBit seg) (ackBit seg) (sequenceNo seg) (ackNo seg) c (?s\<lparr>srcPort := of_int (localPort c), destPort := of_int (remotePort c)\<rparr>)"
    using o(4) assms by (simp add: handshakeSegment_def mssOnly_def mssOptions_def)
  then show ?thesis unfolding o(1) using send by (intro exI conjI) simp_all
qed

lemma sendSyn_plain:
  assumes "plainConn c" "remoteAddr c \<noteq> Unspecified" "remotePort c \<noteq> -1" "localPort c \<noteq> -1"
  shows "\<exists>syn f u a w. sendSyn c = Inr (emit (ToIP syn (localAddr c) (remoteAddr c))
       ((windowed f u a w c)\<lparr>snd_nxt := iss c + 1, snd_max := iss c + 1, sentBytes := 0\<rparr>)) \<and>
     handshakeSegment True False (iss c) 0 c syn"
proof -
  obtain f u a w where r: "updateRcvWnd c = Inr (ucast w, windowed f u a w c)" using updateRcvWnd_plain [OF assms(1)] by blast
  let ?c = "(windowed f u a w c)\<lparr>snd_nxt := iss c + 1, snd_max := iss c + 1\<rparr>"
  let ?s = "newSegment\<lparr>sequenceNo := iss c, synBit := True, window := ucast w\<rparr>"
  have "sendSyn c = bindR (writeHeaderOptions ?s ?c) (\<lambda>(s, c3). bindR (sendToIP s c3) Inr)"
    using assms r by (simp add: sendSyn_def Let_def windowed_def bindR_def split: sum.split)
  moreover have "plainConn ?c" using assms(1) by simp
  then obtain seg where "bindR (writeHeaderOptions ?s ?c) (\<lambda>(s, c3). bindR (sendToIP s c3) Inr) =
      Inr (emit (ToIP seg (localAddr ?c) (remoteAddr ?c)) (?c\<lparr>sentBytes := 0\<rparr>))"
      "handshakeSegment (synBit ?s) (ackBit ?s) (sequenceNo ?s) (ackNo ?s) ?c seg"
    using sendPlain [of ?c ?s Inr] by (auto simp: newSegment_def)
  then have "bindR (writeHeaderOptions ?s ?c) (\<lambda>(s, c3). bindR (sendToIP s c3) Inr) =
      Inr (emit (ToIP seg (localAddr c) (remoteAddr c)) (?c\<lparr>sentBytes := 0\<rparr>))" "handshakeSegment True False (iss c) 0 c seg"
    by (simp_all add: newSegment_def handshakeSegment_def)
  ultimately show ?thesis by (intro exI [of _ seg] exI [of _ f] exI [of _ u] exI [of _ a] exI [of _ w]) simp
qed


lemma sendSynAck_plain:
  assumes "plainConn c"
  shows "\<exists>seg f u a w. sendSynAck c = Inr (ackSent (emit (ToIP seg (localAddr c) (remoteAddr c))
       ((windowed f u a w c)\<lparr>snd_nxt := iss c + 1, snd_max := iss c + 1, sentBytes := 0\<rparr>))) \<and> w \<le> TCP_MAX_WIN \<and>
     handshakeSegment True True (iss c) (rcv_nxt c) c seg"
proof -
  obtain f u a w where r: "updateRcvWnd c = Inr (ucast w, windowed f u a w c)" "w \<le> TCP_MAX_WIN" using updateRcvWnd_plain [OF assms] by blast
  let ?c = "(windowed f u a w c)\<lparr>snd_nxt := iss c + 1, snd_max := iss c + 1\<rparr>"
  let ?s = "newSegment\<lparr>sequenceNo := iss c, ackNo := rcv_nxt c, synBit := True, ackBit := True, window := ucast w\<rparr>"
  have "sendSynAck c = bindR (writeHeaderOptions ?s ?c) (\<lambda>(s, c3). bindR (sendToIP s c3) (\<lambda>c4. Inr (ackSent c4)))"
    using r by (simp add: sendSynAck_def Let_def windowed_def)
  moreover have "plainConn ?c" using assms by simp
  then obtain seg where "bindR (writeHeaderOptions ?s ?c) (\<lambda>(s, c3). bindR (sendToIP s c3) (\<lambda>c4. Inr (ackSent c4))) =
      Inr (ackSent (emit (ToIP seg (localAddr ?c) (remoteAddr ?c)) (?c\<lparr>sentBytes := 0\<rparr>)))"
      "handshakeSegment (synBit ?s) (ackBit ?s) (sequenceNo ?s) (ackNo ?s) ?c seg"
    using sendPlain [of ?c ?s "\<lambda>c4. Inr (ackSent c4)"] by (auto simp: newSegment_def)
  then have "bindR (writeHeaderOptions ?s ?c) (\<lambda>(s, c3). bindR (sendToIP s c3) (\<lambda>c4. Inr (ackSent c4))) =
      Inr (ackSent (emit (ToIP seg (localAddr c) (remoteAddr c)) (?c\<lparr>sentBytes := 0\<rparr>)))" "handshakeSegment True True (iss c) (rcv_nxt c) c seg"
    by (simp_all add: newSegment_def handshakeSegment_def)
  ultimately show ?thesis using r(2) by (intro exI [of _ seg] exI [of _ f] exI [of _ u] exI [of _ a] exI [of _ w]) simp
qed

lemma sendAck_plain:
  assumes "plainConn c"
  shows "\<exists>seg f u a w. sendAck c = Inr (ackSent (emit (ToIP seg (localAddr c) (remoteAddr c)) ((windowed f u a w c)\<lparr>sentBytes := 0\<rparr>))) \<and>
     w \<le> TCP_MAX_WIN \<and> handshakeSegment False True (snd_nxt c) (rcv_nxt c) c seg"
proof -
  obtain f u a w where r: "updateRcvWnd c = Inr (ucast w, windowed f u a w c)" "w \<le> TCP_MAX_WIN" using updateRcvWnd_plain [OF assms] by blast
  let ?s = "newSegment\<lparr>ackBit := True, sequenceNo := snd_nxt c, ackNo := rcv_nxt c, window := ucast w\<rparr>"
  have "sendAck c = bindR (writeHeaderOptions ?s (windowed f u a w c)) (\<lambda>(s, c3). bindR (sendToIP s c3) (\<lambda>c4. Inr (ackSent c4)))"
    using r by (simp add: sendAck_def Let_def)
  moreover have "plainConn (windowed f u a w c)" using assms by simp
  then obtain seg where "bindR (writeHeaderOptions ?s (windowed f u a w c)) (\<lambda>(s, c3). bindR (sendToIP s c3) (\<lambda>c4. Inr (ackSent c4))) =
      Inr (ackSent (emit (ToIP seg (localAddr c) (remoteAddr c)) ((windowed f u a w c)\<lparr>sentBytes := 0\<rparr>)))"
      "handshakeSegment (synBit ?s) (ackBit ?s) (sequenceNo ?s) (ackNo ?s) (windowed f u a w c) seg"
    using sendPlain [of "windowed f u a w c" ?s "\<lambda>c4. Inr (ackSent c4)"] by (auto simp: newSegment_def)
  moreover from this(2) have "handshakeSegment False True (snd_nxt c) (rcv_nxt c) c seg"
    by (simp add: newSegment_def handshakeSegment_def)
  ultimately show ?thesis using r(2) by (intro exI [of _ seg] exI [of _ f] exI [of _ u] exI [of _ a] exI [of _ w]) simp
qed

section \<open>The three-way handshake\<close>

text \<open>What matters of a connection during the handshake.\<close>

definition handshaking :: "tcp_fsm_state \<Rightarrow> u32 \<Rightarrow> tcp_conn \<Rightarrow> bool" where
  "handshaking st una c \<longleftrightarrow> fsm c = st \<and> plainConn c \<and> tcpAlgorithm c \<noteq> None \<and> \<not> send_fin c \<and> \<not> afterRto c \<and>
     snd_una c = una \<and> snd_nxt c = iss c + 1 \<and> snd_max c = iss c + 1 \<and> sendQ c = \<lparr>sq_begin = iss c + 1, sq_end = iss c + 1\<rparr> \<and>
     isScheduled (connEstabTimer c) \<and> isScheduled (synRexmitTimer c) \<and> actions c = []"


lemma startTimers:
  assumes "synRexmitTimer c \<noteq> NoTimer" "connEstabTimer c = IdleTimer"
  shows "\<exists>x y. bindR (startSynRexmitTimer c) scheduleConnEstab = Inr (c\<lparr>syn_rexmit_count := 0, syn_rexmit_timeout := TCP_TIMEOUT_SYN_REXMIT,
     synRexmitTimer := ScheduledAt x, connEstabTimer := ScheduledAt y\<rparr>)"
proof -
  have "cancelIfScheduled (synRexmitTimer c) = IdleTimer" using assms(1) by (cases "synRexmitTimer c") (simp_all add: cancelIfScheduled_def)
  then show ?thesis using assms(2)
    by (simp add: startSynRexmitTimer_def scheduleConnEstab_def scheduleTimeout_def scheduleAt_def) blast
qed

lemma client_syn:
  assumes c: "fsm c = TCP_S_INIT" "plainConn c" "tcpAlgorithm c \<noteq> None" "\<not> send_fin c" "\<not> afterRto c" "actions c = []"
    and addr: "remoteAddr c \<noteq> Unspecified" "remotePort c \<noteq> -1" "localPort c \<noteq> -1"
    and timers: "synRexmitTimer c \<noteq> NoTimer" "connEstabTimer c = IdleTimer"
  shows "\<exists>c' syn. sendInitialSyn c = Inr c' \<and> actions c' = [ToIP syn (localAddr c) (remoteAddr c)] \<and>
     handshakeSegment True False (iss c') 0 c syn \<and> performStateTransition TCP_E_OPEN_ACTIVE c' = Inr (True, c'\<lparr>fsm := TCP_S_SYN_SENT\<rparr>) \<and>
     handshaking TCP_S_SYN_SENT (iss c') (c'\<lparr>fsm := TCP_S_SYN_SENT, actions := []\<rparr>) \<and> sockPairOf c' = sockPairOf c"
proof -
  let ?c = "selectInitialSeqNum c"
  have sel: "plainConn ?c" "remoteAddr ?c \<noteq> Unspecified" "remotePort ?c \<noteq> -1" "localPort ?c \<noteq> -1"
    using c addr by (simp_all add: selectInitialSeqNum_def Let_def plainConn_def)
  obtain syn f u a w where s: "sendSyn ?c = Inr (emit (ToIP syn (localAddr ?c) (remoteAddr ?c))
       ((windowed f u a w ?c)\<lparr>snd_nxt := iss ?c + 1, snd_max := iss ?c + 1, sentBytes := 0\<rparr>))" "handshakeSegment True False (iss ?c) 0 ?c syn"
    using sendSyn_plain [OF sel] by blast
  let ?d = "emit (ToIP syn (localAddr ?c) (remoteAddr ?c)) ((windowed f u a w ?c)\<lparr>snd_nxt := iss ?c + 1, snd_max := iss ?c + 1, sentBytes := 0\<rparr>)"
  have "synRexmitTimer ?d \<noteq> NoTimer" "connEstabTimer ?d = IdleTimer"
    using timers by (simp_all add: emit_def windowed_def selectInitialSeqNum_def Let_def)
  from startTimers [OF this] obtain x y where t: "bindR (startSynRexmitTimer ?d) scheduleConnEstab = Inr (?d\<lparr>syn_rexmit_count := 0,
     syn_rexmit_timeout := TCP_TIMEOUT_SYN_REXMIT, synRexmitTimer := ScheduledAt x, connEstabTimer := ScheduledAt y\<rparr>)" by blast
  let ?e = "?d\<lparr>syn_rexmit_count := 0, syn_rexmit_timeout := TCP_TIMEOUT_SYN_REXMIT, synRexmitTimer := ScheduledAt x, connEstabTimer := ScheduledAt y\<rparr>"
  have "sendInitialSyn c = Inr ?e" by (simp add: sendInitialSyn_def s(1) t)
  moreover have "actions ?e = [ToIP syn (localAddr c) (remoteAddr c)]" "handshakeSegment True False (iss ?e) 0 c syn" "sockPairOf ?e = sockPairOf c"
    using c s(2) by (simp_all add: emit_def windowed_def selectInitialSeqNum_def Let_def handshakeSegment_def sockPairOf_def)
  moreover have "performStateTransition TCP_E_OPEN_ACTIVE ?e = Inr (True, ?e\<lparr>fsm := TCP_S_SYN_SENT\<rparr>)"
    using c(1) by (simp add: performStateTransition_def fsmNext_def stateEntered_def emit_def windowed_def selectInitialSeqNum_def Let_def)
  moreover have "handshaking TCP_S_SYN_SENT (iss ?e) (?e\<lparr>fsm := TCP_S_SYN_SENT, actions := []\<rparr>)"
    using c by (simp add: handshaking_def emit_def windowed_def selectInitialSeqNum_def Let_def sq_init_def)
  ultimately show ?thesis by blast
qed


lemma ackSent_simps [simp]:
  "fsm (ackSent c) = fsm c" "iss (ackSent c) = iss c" "snd_una (ackSent c) = snd_una c" "snd_nxt (ackSent c) = snd_nxt c"
  "snd_max (ackSent c) = snd_max c" "sendQ (ackSent c) = sendQ c" "receiveQ (ackSent c) = receiveQ c" "rcv_nxt (ackSent c) = rcv_nxt c"
  "actions (ackSent c) = actions c" "plainConn (ackSent c) = plainConn c" "tcpAlgorithm (ackSent c) = tcpAlgorithm c"
  "send_fin (ackSent c) = send_fin c" "afterRto (ackSent c) = afterRto c" "synRexmitTimer (ackSent c) = synRexmitTimer c"
  "connEstabTimer (ackSent c) = connEstabTimer c" "rcv_wnd (ackSent c) = rcv_wnd c" "localAddr (ackSent c) = localAddr c"
  "remoteAddr (ackSent c) = remoteAddr c" "localPort (ackSent c) = localPort c" "remotePort (ackSent c) = remotePort c" "active (ackSent c) = active c"
  by (simp_all add: ackSent_def plainConn_def)

lemma updateWndInfo_more [simp]:
  "iss (updateWndInfo seg b c) = iss c" "plainConn (updateWndInfo seg b c) = plainConn c" "tcpAlgorithm (updateWndInfo seg b c) = tcpAlgorithm c"
  "send_fin (updateWndInfo seg b c) = send_fin c" "afterRto (updateWndInfo seg b c) = afterRto c" "rcv_wnd (updateWndInfo seg b c) = rcv_wnd c"
  "synRexmitTimer (updateWndInfo seg b c) = synRexmitTimer c" "connEstabTimer (updateWndInfo seg b c) = connEstabTimer c"
  "localAddr (updateWndInfo seg b c) = localAddr c" "remoteAddr (updateWndInfo seg b c) = remoteAddr c"
  "localPort (updateWndInfo seg b c) = localPort c" "remotePort (updateWndInfo seg b c) = remotePort c" "active (updateWndInfo seg b c) = active c"
  by (simp_all add: updateWndInfo_def Let_def plainConn_def)

text \<open>The answer to a SYN, up to the text that the SYN may carry.\<close>

lemma answerSyn_sends:
  assumes c: "fsm c = TCP_S_LISTEN" "plainConn c" "tcpAlgorithm c \<noteq> None" "\<not> send_fin c" "\<not> afterRto c" "actions c = []"
    and timers: "synRexmitTimer c \<noteq> NoTimer" "connEstabTimer c = IdleTimer" and seg: "mssOptions syn"
  shows "\<exists>g synack. answerSyn syn c = bindR (queueSynText syn g) (\<lambda>(ok, c5). Inr (if ok then TCP_E_RCV_SYN else TCP_E_IGNORE, c5)) \<and>
     actions g = [ToIP synack (localAddr c) (remoteAddr c)] \<and> handshakeSegment True True (iss g) (sequenceNo syn + 1) c synack \<and>
     performStateTransition TCP_E_RCV_SYN g = Inr (True, g\<lparr>fsm := TCP_S_SYN_RCVD\<rparr>) \<and> fsm g = TCP_S_LISTEN \<and>
     handshaking TCP_S_SYN_RCVD (iss g) (g\<lparr>fsm := TCP_S_SYN_RCVD, actions := []\<rparr>) \<and> rcv_nxt g = sequenceNo syn + 1 \<and>
     receiveQ g = rcvq_init (receiveQ c) (sequenceNo syn + 1) \<and> rcv_wnd g \<le> TCP_MAX_WIN \<and> sockPairOf g = sockPairOf c"
proof -
  let ?c = "updateWndInfo syn True (selectInitialSeqNum (synchronizeReceiver syn c))"
  obtain k where k: "readOptions syn ?c = Inr (?c\<lparr>snd_mss := k\<rparr>)" using mssOnly_read [OF seg] by blast
  let ?d = "?c\<lparr>snd_mss := k, ack_now := True\<rparr>"
  note d_simps = selectInitialSeqNum_def synchronizeReceiver_def Let_def
  have pd: "plainConn ?d" using c(2) by (simp add: d_simps)
  obtain seg f u a w where s: "sendSynAck ?d = Inr (ackSent (emit (ToIP seg (localAddr ?d) (remoteAddr ?d))
       ((windowed f u a w ?d)\<lparr>snd_nxt := iss ?d + 1, snd_max := iss ?d + 1, sentBytes := 0\<rparr>)))" "w \<le> TCP_MAX_WIN"
     "handshakeSegment True True (iss ?d) (rcv_nxt ?d) ?d seg" using sendSynAck_plain [OF pd] by blast
  let ?e = "ackSent (emit (ToIP seg (localAddr ?d) (remoteAddr ?d)) ((windowed f u a w ?d)\<lparr>snd_nxt := iss ?d + 1, snd_max := iss ?d + 1, sentBytes := 0\<rparr>))"
  have te: "synRexmitTimer ?e \<noteq> NoTimer" "connEstabTimer ?e = IdleTimer"
    using timers by (simp_all add: emit_def windowed_def d_simps)
  from startTimers [OF te] obtain x y where t: "bindR (startSynRexmitTimer ?e) scheduleConnEstab = Inr (?e\<lparr>syn_rexmit_count := 0,
     syn_rexmit_timeout := TCP_TIMEOUT_SYN_REXMIT, synRexmitTimer := ScheduledAt x, connEstabTimer := ScheduledAt y\<rparr>)" by blast
  let ?g = "?e\<lparr>syn_rexmit_count := 0, syn_rexmit_timeout := TCP_TIMEOUT_SYN_REXMIT, synRexmitTimer := ScheduledAt x, connEstabTimer := ScheduledAt y\<rparr>"
  have idle: "bindR (startSynRexmitTimer ?e) (\<lambda>c3. bindR (if \<not> isScheduled (connEstabTimer c3) then scheduleConnEstab c3 else Inr c3) h) = h ?g" for h
  proof -
    obtain c3 where c3: "startSynRexmitTimer ?e = Inr c3" using t by (auto elim!: bindR_InrE)
    then have "connEstabTimer c3 = IdleTimer" using te(2) by (auto simp: startSynRexmitTimer_def Let_def elim!: bindR_InrE)
    then show ?thesis using t c3 by simp
  qed
  have "answerSyn syn c = bindR (queueSynText syn ?g) (\<lambda>(ok, c5). Inr (if ok then TCP_E_RCV_SYN else TCP_E_IGNORE, c5))"
    unfolding answerSyn_def k bindR_Inr s(1) idle ..
  moreover have "actions ?g = [ToIP seg (localAddr c) (remoteAddr c)]" "handshakeSegment True True (iss ?g) (sequenceNo syn + 1) c seg"
     "sockPairOf ?g = sockPairOf c" "rcv_nxt ?g = sequenceNo syn + 1" "rcv_wnd ?g \<le> TCP_MAX_WIN" "fsm ?g = TCP_S_LISTEN"
     "receiveQ ?g = rcvq_init (receiveQ c) (sequenceNo syn + 1)"
    using c s(2,3) by (simp_all add: emit_def windowed_def d_simps handshakeSegment_def sockPairOf_def)
  moreover have "performStateTransition TCP_E_RCV_SYN ?g = Inr (True, ?g\<lparr>fsm := TCP_S_SYN_RCVD\<rparr>)"
    using c(1) by (simp add: performStateTransition_def fsmNext_def stateEntered_def emit_def windowed_def d_simps)
  moreover have "handshaking TCP_S_SYN_RCVD (iss ?g) (?g\<lparr>fsm := TCP_S_SYN_RCVD, actions := []\<rparr>)"
    using c by (simp add: handshaking_def emit_def windowed_def d_simps sq_init_def)
  ultimately show ?thesis by blast
qed


lemma server_syn:
  assumes "fsm c = TCP_S_LISTEN" "plainConn c" "tcpAlgorithm c \<noteq> None" "\<not> send_fin c" "\<not> afterRto c" "actions c = []"
    "synRexmitTimer c \<noteq> NoTimer" "connEstabTimer c = IdleTimer" "mssOnly syn"
  shows "\<exists>c' synack. answerSyn syn c = Inr (TCP_E_RCV_SYN, c') \<and> actions c' = [ToIP synack (localAddr c) (remoteAddr c)] \<and>
     handshakeSegment True True (iss c') (sequenceNo syn + 1) c synack \<and>
     performStateTransition TCP_E_RCV_SYN c' = Inr (True, c'\<lparr>fsm := TCP_S_SYN_RCVD\<rparr>) \<and>
     handshaking TCP_S_SYN_RCVD (iss c') (c'\<lparr>fsm := TCP_S_SYN_RCVD, actions := []\<rparr>) \<and> rcv_nxt c' = sequenceNo syn + 1 \<and>
     rcv_wnd c' \<le> TCP_MAX_WIN \<and> sockPairOf c' = sockPairOf c"
proof -
  have syn: "mssOptions syn" "payloadLength syn = 0" using assms(9) by (simp_all add: mssOnly_def)
  have "queueSynText syn g = Inr (True, g)" for g using syn(2) by (simp add: queueSynText_def)
  then show ?thesis using answerSyn_sends [OF assms(1-8) syn(1)] by (simp only: bindR_Inr case_prod_conv if_True) blast
qed

text \<open>
  Text in a SYN is never accepted. The comment in \<open>processSegmentInListen\<close> says that text that comes with a SYN is accepted, but
  the segment's sequence number, that of the SYN, lies below the first byte of the just initialized receive
  queue, so that \<open>hasEnoughSpaceForSegmentInReceiveQueue\<close> fails: the handler returns \<open>TCP_E_IGNORE\<close> and the
  connection stays in \<open>LISTEN\<close>, although the SYN+ACK has been sent and both timers are running.
\<close>

lemma syn_text_ignored:
  assumes "fsm c = TCP_S_LISTEN" "plainConn c" "tcpAlgorithm c \<noteq> None" "\<not> send_fin c" "\<not> afterRto c" "actions c = []"
    "synRexmitTimer c \<noteq> NoTimer" "connEstabTimer c = IdleTimer" "mssOptions syn" "0 < payloadLength syn"
  shows "\<exists>c' synack. answerSyn syn c = Inr (TCP_E_IGNORE, c') \<and> actions c' = [ToIP synack (localAddr c) (remoteAddr c)] \<and>
     synBit synack \<and> ackBit synack \<and> performStateTransition TCP_E_IGNORE c' = Inr (True, c') \<and> fsm c' = TCP_S_LISTEN \<and>
     isScheduled (connEstabTimer c') \<and> isScheduled (synRexmitTimer c') \<and> regionList (receiveQ c') = []"
proof -
  obtain g synack where g: "answerSyn syn c = bindR (queueSynText syn g) (\<lambda>(ok, c5). Inr (if ok then TCP_E_RCV_SYN else TCP_E_IGNORE, c5))"
     "actions g = [ToIP synack (localAddr c) (remoteAddr c)]" "handshakeSegment True True (iss g) (sequenceNo syn + 1) c synack"
     "fsm g = TCP_S_LISTEN" "handshaking TCP_S_SYN_RCVD (iss g) (g\<lparr>fsm := TCP_S_SYN_RCVD, actions := []\<rparr>)"
     "receiveQ g = rcvq_init (receiveQ c) (sequenceNo syn + 1)"
    using answerSyn_sends [OF assms(1-9)] by blast
  let ?u = "updateRcvQueueVars g"
  let ?d = "?u\<lparr>tcpRcvQueueDrops := tcpRcvQueueDrops ?u + 1\<rparr>"
  have "receiveQ ?u = receiveQ g" by (simp add: updateRcvQueueVars_def Let_def)
  then have "\<not> hasEnoughSpaceForSegmentInReceiveQueue syn ?u"
    using g(6) by (simp add: hasEnoughSpaceForSegmentInReceiveQueue_def getFirstSeqNo_def rcvq_init_def seqLE_def)
  then have q: "queueSynText syn g = Inr (False, ?d)" using assms(10) by (simp add: queueSynText_def Let_def)
  have "answerSyn syn c = Inr (TCP_E_IGNORE, ?d)" unfolding g(1) q by simp
  moreover have "actions ?d = actions g" "fsm ?d = fsm g" "connEstabTimer ?d = connEstabTimer g" "synRexmitTimer ?d = synRexmitTimer g"
     "receiveQ ?d = receiveQ g" by (simp_all add: updateRcvQueueVars_def Let_def)
  moreover have "performStateTransition TCP_E_IGNORE ?d = Inr (True, ?d)" using calculation(3) g(4) by (simp add: performStateTransition_def)
  ultimately show ?thesis using g(2-6)
    by (intro exI [of _ ?d] exI [of _ synack]) (simp add: handshaking_def handshakeSegment_def rcvq_init_def)
qed

lemma established_idle:
  assumes "plainConn c" "tcpAlgorithm c \<noteq> None" "\<not> afterRto c" "snd_nxt c = snd_max c" "sq_end (sendQ c) = snd_max c"
  shows "\<exists>k seg f u a w. algEstablished True c = Inr (ackSent (emit (ToIP seg (localAddr c) (remoteAddr c))
       ((windowed f u a w (c\<lparr>snd_cwnd := k\<rparr>))\<lparr>sentBytes := 0\<rparr>))) \<and> handshakeSegment False True (snd_nxt c) (rcv_nxt c) c seg"
proof -
  have max: "snd_max c = snd_nxt c" using assms(4) by simp
  have drained: "getBytesAvailable (sendQ c) (snd_nxt c) = 0" using assms(5) max by (simp add: getBytesAvailable_def bytesAvailable_def getBufferEndSeq_def)
  have none: "connSendData fo cw (c\<lparr>snd_cwnd := k\<rparr>) = Inr (False, c\<lparr>snd_cwnd := k\<rparr>)" for k fo cw
    by (simp add: connSendData_def sendData_def Let_def assms(3) max drained)
  have idle: "algSendData b (c\<lparr>snd_cwnd := k\<rparr>) = Inr (False, c\<lparr>snd_cwnd := k\<rparr>)" for k b
  proof -
    have "restartIdle (c\<lparr>snd_cwnd := k\<rparr>) = c\<lparr>snd_cwnd := k\<rparr>" by (simp add: restartIdle_def isSendQueueEmpty_def drained)
    then show ?thesis by (simp add: algSendData_def Let_def none)
  qed
  have "\<exists>k. algEstablished True c = sendAck (c\<lparr>snd_cwnd := k\<rparr>)"
  proof (cases "tcpAlgorithm c = Some DumbTCP")
    case True
    have "connSendData False 65535 c = Inr (False, c)" using none [of False 65535 "snd_cwnd c"] by simp
    then show ?thesis
      by (intro exI [of _ "snd_cwnd c"]) (simp add: algEstablished_def withAlg_def True dumbEstablished_def)
  next
    case False
    then have "algEstablished True c = baseEstablished True c" using assms(2) by (auto simp: algEstablished_def withAlg_def split: flavour.split)
    then show ?thesis unfolding baseEstablished_def Let_def idle by (simp only: if_True bindR_Inr case_prod_conv not_False_eq_True) blast
  qed
  then obtain k where k: "algEstablished True c = sendAck (c\<lparr>snd_cwnd := k\<rparr>)" by blast
  have "plainConn (c\<lparr>snd_cwnd := k\<rparr>)" using assms(1) by simp
  from sendAck_plain [OF this] obtain seg f u a w where "sendAck (c\<lparr>snd_cwnd := k\<rparr>) = Inr (ackSent (emit (ToIP seg (localAddr c) (remoteAddr c))
       ((windowed f u a w (c\<lparr>snd_cwnd := k\<rparr>))\<lparr>sentBytes := 0\<rparr>)))" "handshakeSegment False True (snd_nxt c) (rcv_nxt c) c seg"
    by (auto simp: handshakeSegment_def)
  then show ?thesis unfolding k by blast
qed

lemma enter_established:
  assumes "fsm c \<in> {TCP_S_SYN_SENT, TCP_S_SYN_RCVD}" "ev = (if fsm c = TCP_S_SYN_SENT then TCP_E_RCV_SYN_ACK else TCP_E_RCV_ACK)"
    and "isScheduled (connEstabTimer c)" "isScheduled (synRexmitTimer c)"
  shows "performStateTransition ev c = Inr (True, c\<lparr>fsm := TCP_S_ESTABLISHED, connEstabTimer := NoTimer, synRexmitTimer := NoTimer\<rparr>)"
proof -
  have "connEstabTimer c \<noteq> NoTimer" "synRexmitTimer c \<noteq> NoTimer" using assms(3,4) by auto
  moreover have "fsmNext (active c) (fsm c) ev = TCP_S_ESTABLISHED" "ev \<noteq> TCP_E_IGNORE" "fsm c \<noteq> TCP_S_CLOSED" "fsm c \<noteq> TCP_S_ESTABLISHED"
    using assms(1,2) by (auto simp: fsmNext_def)
  ultimately show ?thesis by (simp add: performStateTransition_def stateEntered_def Let_def cancelEvent_def)
qed

text \<open>What both ends have in common in the end.\<close>

definition isOpen :: "u32 \<Rightarrow> u32 \<Rightarrow> tcp_conn \<Rightarrow> bool" where
  "isOpen s r c \<longleftrightarrow> fsm c = TCP_S_ESTABLISHED \<and> snd_una c = s \<and> snd_nxt c = s \<and> snd_max c = s \<and>
     sendQ c = \<lparr>sq_begin = s, sq_end = s\<rparr> \<and> rcv_nxt c = r"

lemma client_synack:
  assumes c: "handshaking TCP_S_SYN_SENT (iss c) c" and seg: "handshakeSegment True True s (iss c + 1) x seg"
  shows "\<not> badSynAck seg c \<and> (\<exists>c1. acceptSyn seg c = Inr c1 \<and> sockPairOf c1 = sockPairOf c \<and>
     seqGreater (snd_una (setSockPair key c1)) (iss (setSockPair key c1)) \<and>
     (\<exists>c3 ack d. completeOpen seg (setSockPair key c1) = Inr (TCP_E_RCV_SYN_ACK, c3) \<and>
        actions c3 = [ToIP ack (sp_localAddr key) (sp_remoteAddr key),
          IndicateEstablished (sp_localAddr key) (sp_remoteAddr key) (sp_localPort key) (sp_remotePort key)] \<and>
        handshakeSegment False True (iss c + 1) (s + 1) (setSockPair key c1) ack \<and>
        performStateTransition TCP_E_RCV_SYN_ACK c3 = Inr (True, d) \<and> actions d = actions c3 \<and> isOpen (iss c + 1) (s + 1) d \<and> iss d = iss c))"
proof -
  have h: "fsm c = TCP_S_SYN_SENT" "plainConn c" "tcpAlgorithm c \<noteq> None" "\<not> afterRto c" "snd_una c = iss c" "snd_nxt c = iss c + 1"
     "snd_max c = iss c + 1" "sendQ c = \<lparr>sq_begin = iss c + 1, sq_end = iss c + 1\<rparr>" "isScheduled (connEstabTimer c)" "isScheduled (synRexmitTimer c)"
     "actions c = []" "\<not> sack_enabled c" using c by (simp_all add: handshaking_def plainConn_def)
  have g: "synBit seg" "ackBit seg" "ackNo seg = iss c + 1" "sequenceNo seg = s" "mssOptions seg" "payloadLength seg = 0"
    using seg by (simp_all add: handshakeSegment_def mssOnly_def)
  have lt: "seqLess (iss c) (iss c + 1)" "\<not> seqLE (iss c + 1) (iss c)" by (simp_all add: seqLess_def seqLE_def)
  have bad: "\<not> badSynAck seg c" using g h lt by (simp add: badSynAck_def seqGreater_seqLess)
  let ?c1 = "updateWndInfo seg True ((synchronizeReceiver seg c)\<lparr>snd_una := iss c + 1, sendQ := \<lparr>sq_begin = iss c + 1, sq_end = iss c + 1\<rparr>\<rparr>)"
  have acc: "acceptSyn seg c = Inr ?c1"
    using g h by (simp add: acceptSyn_def synchronizeReceiver_def Let_def sq_discardUpTo_def)
  let ?c2 = "setSockPair key ?c1"
  obtain k where k: "readOptions seg ?c2 = Inr (?c2\<lparr>snd_mss := k\<rparr>)" using mssOnly_read [OF g(5)] by blast
  let ?e = "?c2\<lparr>snd_mss := k, ack_now := True\<rparr>"
  have e: "plainConn ?e" "tcpAlgorithm ?e \<noteq> None" "\<not> afterRto ?e" "snd_nxt ?e = snd_max ?e" "sq_end (sendQ ?e) = snd_max ?e"
    using h by (simp_all add: setSockPair_def synchronizeReceiver_def Let_def)
  obtain cw ack f u a w where a: "algEstablished True ?e = Inr (ackSent (emit (ToIP ack (localAddr ?e) (remoteAddr ?e))
       ((windowed f u a w (?e\<lparr>snd_cwnd := cw\<rparr>))\<lparr>sentBytes := 0\<rparr>)))" "handshakeSegment False True (snd_nxt ?e) (rcv_nxt ?e) ?e ack"
    using established_idle [OF e] by blast
  let ?g = "ackSent (emit (ToIP ack (localAddr ?e) (remoteAddr ?e)) ((windowed f u a w (?e\<lparr>snd_cwnd := cw\<rparr>))\<lparr>sentBytes := 0\<rparr>))"
  have q: "queueSynText seg ?c2 = Inr (True, ?c2)" using g by (simp add: queueSynText_def)
  have comp: "completeOpen seg ?c2 = Inr (TCP_E_RCV_SYN_ACK, sendEstabIndicationToApp ?g)"
    unfolding completeOpen_def q k bindR_Inr case_prod_conv a(1) by simp
  note defs = sendEstabIndicationToApp_def emit_def windowed_def setSockPair_def synchronizeReceiver_def Let_def
  let ?h = "sendEstabIndicationToApp ?g"
  have "performStateTransition TCP_E_RCV_SYN_ACK ?h = Inr (True, ?h\<lparr>fsm := TCP_S_ESTABLISHED, connEstabTimer := NoTimer, synRexmitTimer := NoTimer\<rparr>)"
    by (rule enter_established) (use h in \<open>simp_all add: defs\<close>)
  moreover have "isOpen (iss c + 1) (s + 1) (?h\<lparr>fsm := TCP_S_ESTABLISHED, connEstabTimer := NoTimer, synRexmitTimer := NoTimer\<rparr>)"
    using h g by (simp add: isOpen_def defs)
  moreover have "actions ?h = [ToIP ack (sp_localAddr key) (sp_remoteAddr key),
          IndicateEstablished (sp_localAddr key) (sp_remoteAddr key) (sp_localPort key) (sp_remotePort key)]" "iss ?h = iss c"
    using h by (simp_all add: defs)
  moreover have "handshakeSegment False True (iss c + 1) (s + 1) ?c2 ack"
    using a(2) h g by (simp add: handshakeSegment_def defs)
  moreover have "sockPairOf ?c1 = sockPairOf c" by (simp add: sockPairOf_def synchronizeReceiver_def Let_def)
  moreover have "seqGreater (snd_una ?c2) (iss ?c2)" using lt by (simp add: seqGreater_seqLess defs)
  ultimately show ?thesis using bad acc comp
    by (intro conjI exI [of _ ?c1] exI [of _ ?h] exI [of _ ack]
        exI [of _ "?h\<lparr>fsm := TCP_S_ESTABLISHED, connEstabTimer := NoTimer, synRexmitTimer := NoTimer\<rparr>"]) simp_all
qed


lemma established_passive:
  "tcpAlgorithm c \<noteq> None \<Longrightarrow> \<exists>k. algEstablished False c = Inr (c\<lparr>snd_cwnd := k\<rparr>)"
proof (cases "tcpAlgorithm c = Some DumbTCP")
  case True
  then show ?thesis by (intro exI [of _ "snd_cwnd c"]) (simp add: algEstablished_def withAlg_def dumbEstablished_def)
next
  case False
  assume "tcpAlgorithm c \<noteq> None"
  then have "algEstablished False c = baseEstablished False c" using False by (auto simp: algEstablished_def withAlg_def split: flavour.split)
  then show ?thesis unfolding baseEstablished_def Let_def by simp blast
qed

lemma server_ack:
  assumes c: "handshaking TCP_S_SYN_RCVD (iss c) c" "rcv_wnd c \<le> TCP_MAX_WIN"
    and seg: "handshakeSegment False True (rcv_nxt c) (iss c + 1) x seg"
  shows "\<exists>c' d. processSegment1stThru8th seg c = Inr (TCP_E_RCV_ACK, c') \<and>
     actions c' = [IndicateEstablished (localAddr c) (remoteAddr c) (localPort c) (remotePort c)] \<and>
     performStateTransition TCP_E_RCV_ACK c' = Inr (True, d) \<and> actions d = actions c' \<and> isOpen (iss c + 1) (rcv_nxt c) d \<and> iss d = iss c"
proof -
  have h: "fsm c = TCP_S_SYN_RCVD" "plainConn c" "tcpAlgorithm c \<noteq> None" "\<not> send_fin c" "snd_una c = iss c" "snd_nxt c = iss c + 1"
     "snd_max c = iss c + 1" "sendQ c = \<lparr>sq_begin = iss c + 1, sq_end = iss c + 1\<rparr>" "isScheduled (connEstabTimer c)" "isScheduled (synRexmitTimer c)"
     "actions c = []" "\<not> sack_enabled c" "\<not> ts_enabled c" "\<not> ws_enabled c" using c by (simp_all add: handshaking_def plainConn_def)
  have g: "\<not> synBit seg" "ackBit seg" "ackNo seg = iss c + 1" "sequenceNo seg = rcv_nxt c" "mssOptions seg" "payloadLength seg = 0" "\<not> rstBit seg" "\<not> finBit seg"
    using seg by (simp_all add: handshakeSegment_def mssOnly_def)
  have lt: "seqLE (iss c) (iss c + 1)" "\<not> seqLE (iss c + 1) (iss c)" "\<not> seqLess (iss c + 1) (iss c + 1)" by (simp_all add: seqLE_def)
  obtain k where k: "readOptions seg c = Inr (c\<lparr>snd_mss := k\<rparr>)" using mssOnly_read [OF g(5)] by blast
  let ?c = "c\<lparr>snd_mss := k\<rparr>"
  have "seqLE (rcv_nxt c) (rcv_nxt c + rcv_wnd c)" using c(2) by (simp add: seqLE_off off_def word_le_nat_alt)
  then have acc: "isSegmentAcceptable seg ?c" using g by (simp add: isSegmentAcceptable_def Let_def)
  have "tcpAlgorithm ?c \<noteq> None" using h by simp
  from established_passive [OF this] obtain cw where e: "algEstablished False ?c = Inr (?c\<lparr>snd_cwnd := cw\<rparr>)" by blast
  let ?d = "sendEstabIndicationToApp (?c\<lparr>snd_cwnd := cw\<rparr>)"
  let ?e = "updateWndInfo seg False (?d\<lparr>snd_una := iss c + 1, snd_nxt := iss c + 1, sendQ := \<lparr>sq_begin = iss c + 1, sq_end = iss c + 1\<rparr>\<rparr>)"
  note defs = sendEstabIndicationToApp_def emit_def
  have ack: "processAckInEstabEtc seg ?d = Inr (True, ?e)"
    using h g lt by (simp add: processAckInEstabEtc_def acceptAck_def discardAcked_def sq_discardUpTo_def seqGE_seqLE defs Let_def)
  have body: "processBody u v seg TCP_E_RCV_ACK ?e = Inr (TCP_E_RCV_ACK, ?e)" for u v
    using g h by (simp add: processBody_def processText_def processFin_def acknowledge_def deferredClose_def defs Let_def)
  have "processAckAndBody seg (snd_una ?c) TCP_E_RCV_ACK ?d = Inr (TCP_E_RCV_ACK, ?e)"
    using h body by (simp add: processAckAndBody_def ack closingStates_def Let_def ackState_def) (simp add: defs)
  then have "processEstablish seg ?c = Inr (TCP_E_RCV_ACK, ?e)"
    using h g lt e by (simp add: processEstablish_def)
  then have p: "processSegment1stThru8th seg c = Inr (TCP_E_RCV_ACK, ?e)"
    using h g acc k by (simp add: processSegment1stThru8th_def readOptions_def pawsRejects_def)
  have "performStateTransition TCP_E_RCV_ACK ?e = Inr (True, ?e\<lparr>fsm := TCP_S_ESTABLISHED, connEstabTimer := NoTimer, synRexmitTimer := NoTimer\<rparr>)"
    by (rule enter_established) (use h in \<open>simp_all add: defs\<close>)
  moreover have "isOpen (iss c + 1) (rcv_nxt c) (?e\<lparr>fsm := TCP_S_ESTABLISHED, connEstabTimer := NoTimer, synRexmitTimer := NoTimer\<rparr>)"
    using h by (simp add: isOpen_def defs)
  ultimately show ?thesis using p h
    by (intro exI [of _ ?e] exI [of _ "?e\<lparr>fsm := TCP_S_ESTABLISHED, connEstabTimer := NoTimer, synRexmitTimer := NoTimer\<rparr>"]) (simp add: defs)
qed


section \<open>The handshake between two modules\<close>

text \<open>Parameters without options, and with a window that needs no scaling.\<close>

definition plainPar :: "tcp_par \<Rightarrow> bool" where
  "plainPar p \<longleftrightarrow> \<not> par_windowScalingSupport p \<and> \<not> par_timestampSupport p \<and> \<not> par_sackSupport p \<and>
     0 < par_advertisedWindow p \<and> par_advertisedWindow p \<le> 65535"

lemma initConnection_plain:
  assumes "plainPar p"
  shows "\<exists>c. initConnection oc (newConnection p t g i) = Inr c \<and> fsm c = TCP_S_INIT \<and> plainConn c \<and> tcpAlgorithm c \<noteq> None \<and>
     \<not> send_fin c \<and> \<not> afterRto c \<and> actions c = [] \<and> synRexmitTimer c = IdleTimer \<and> connEstabTimer c = IdleTimer"
proof -
  let ?fl = "case open_tcpAlgorithmClass oc of None \<Rightarrow> par_tcpAlgorithmClass p | Some f \<Rightarrow> f"
  note new = newConnection_def newAlgStateVariables_def newStateVariables_def tcp_state_variables.defs tcp_alg_state_variables.defs
  define d where "d = freshState ?fl (newConnection p t g i)"
  have d: "par d = p" "fsm d = TCP_S_INIT" "tcpAlgorithm d = Some ?fl" "\<not> send_fin d" "\<not> afterRto d" "actions d = []"
     "synRexmitTimer d = IdleTimer" "connEstabTimer d = IdleTimer" "\<not> ws_enabled d" "\<not> ts_enabled d" "\<not> sack_enabled d"
    by (simp_all add: d_def freshState_def new)
  obtain e where e: "configureStateVariables d = Inr e" "fsm e = TCP_S_INIT" "tcpAlgorithm e = Some ?fl" "\<not> send_fin e" "\<not> afterRto e" "actions e = []"
     "synRexmitTimer e = IdleTimer" "connEstabTimer e = IdleTimer" "plainConn e"
    using assms d by (simp add: configureStateVariables_def plainPar_def plainConn_def Let_def)
  have "algInitialize e = Inr (case ?fl of DumbTCP \<Rightarrow> dumbInitialize e | TCPNoCongestionControl \<Rightarrow> noCCInitialize e | _ \<Rightarrow> baseInitialize e)"
    using e(3) by (simp add: algInitialize_def withAlg_def)
  moreover have "initConnection oc (newConnection p t g i) = bindR (configureStateVariables d) algInitialize"
  proof -
    have "par (newConnection p t g i) = p" by (simp add: newConnection_def tcp_alg_state_variables.defs)
    then show ?thesis by (cases "open_tcpAlgorithmClass oc") (simp_all add: initConnection_def d_def Let_def)
  qed
  ultimately show ?thesis using e
    by (simp add: dumbInitialize_def noCCInitialize_def baseInitialize_def plainConn_def split: flavour.split)
qed


lemma handshaking_now [simp]: "handshaking st una (c\<lparr>now := t\<rparr>) = handshaking st una c"
  by (simp add: handshaking_def plainConn_def)

text \<open>The first message: an \<open>OPEN_ACTIVE\<close> command for a new connection id.\<close>

lemma open_active_step:
  assumes op: "isOperational A" "findConnForApp g i A = None" and p: "plainPar p" and r: "r = env_newRef env"
    and oc: "open_localAddr oc = la" "open_remoteAddr oc = ra" "open_localPort oc = lp" "open_remotePort oc = rp"
      "ra \<noteq> Unspecified" "lp \<noteq> -1" "rp \<noteq> -1"
    and key: "key = \<lparr>sp_localAddr = la, sp_remoteAddr = ra, sp_localPort = lp, sp_remotePort = rp\<rparr>" "tcpConnMap A key = None"
  shows "\<exists>A1 a syn. handleMessage env p t (FromApp g i (OpenActive oc)) A = Inr A1 \<and> outbox A1 = outbox A @ [ToIP syn la ra] \<and>
     isOperational A1 \<and> tcpConnMap A1 = (tcpConnMap A)(key \<mapsto> r) \<and> conns A1 r = Some a \<and> sockPairOf a = key \<and>
     handshaking TCP_S_SYN_SENT (iss a) a \<and> mssOnly syn \<and> synBit syn \<and> \<not> ackBit syn \<and> sequenceNo syn = iss a \<and>
     srcPort syn = of_int lp \<and> destPort syn = of_int rp"
proof -
  let ?A = "setNow t A" and ?n = "newConnection p t g i"
  obtain c where c: "initConnection oc ?n = Inr c" "fsm c = TCP_S_INIT" "plainConn c" "tcpAlgorithm c \<noteq> None" "\<not> send_fin c" "\<not> afterRto c"
     "actions c = []" "synRexmitTimer c = IdleTimer" "connEstabTimer c = IdleTimer" using initConnection_plain [OF p] by blast
  define d where "d = setSockPair key (c\<lparr>active := True\<rparr>)"
  have d: "fsm d = TCP_S_INIT" "plainConn d" "tcpAlgorithm d \<noteq> None" "\<not> send_fin d" "\<not> afterRto d" "actions d = []" "remoteAddr d \<noteq> Unspecified"
     "remotePort d \<noteq> -1" "localPort d \<noteq> -1" "synRexmitTimer d \<noteq> NoTimer" "connEstabTimer d = IdleTimer"
     "localAddr d = la" "remoteAddr d = ra" "localPort d = lp" "remotePort d = rp" "sockPairOf d = key"
    using c oc key(1) by (simp_all add: d_def setSockPair_def sockPairOf_def)
  obtain e syn where e: "sendInitialSyn d = Inr e" "actions e = [ToIP syn la ra]" "handshakeSegment True False (iss e) 0 d syn"
     "performStateTransition TCP_E_OPEN_ACTIVE e = Inr (True, e\<lparr>fsm := TCP_S_SYN_SENT\<rparr>)"
     "handshaking TCP_S_SYN_SENT (iss e) (e\<lparr>fsm := TCP_S_SYN_SENT, actions := []\<rparr>)" "sockPairOf e = key"
    using client_syn [OF d(1-11)] d(12-16) by auto
  define m1 where "m1 = (putConn r ?n ?A)\<lparr>tcpAppConnMap := (tcpAppConnMap A)((g, i) \<mapsto> r)\<rparr>"
  have m1: "conns m1 r = Some ?n" "tcpConnMap m1 = tcpConnMap A" "outbox m1 = outbox A" "isOperational m1" using op by (simp_all add: m1_def)
  have conn: "connForApp env p t g i ?A = (r, m1)" using op r by (simp add: connForApp_def m1_def)
  have new: "fsm ?n = TCP_S_INIT" by (simp add: newConnection_def tcp_alg_state_variables.defs)
  define m2 where "m2 = (putConn r d m1)\<lparr>tcpConnMap := (tcpConnMap A)(key \<mapsto> r),
     usedEphemeralPorts := (if isEphemeral lp then add_mset lp (usedEphemeralPorts m1) else usedEphemeralPorts m1)\<rparr>"
  have add: "addSockPair r key (putConn r (c\<lparr>active := True\<rparr>) m1) = Inr m2"
    using key m1(2) by (simp add: addSockPair_def getConn_def m2_def d_def Let_def) (simp add: putConn_def)
  have open': "process_OPEN_ACTIVE oc r m1 = Inr (putConn r e m2)"
    using m1(1) new c(1) oc add key(1) e(1) by (simp add: process_OPEN_ACTIVE_def getConn_def choosePort_def updConn_def) (simp add: m2_def)
  have "processAppCommand (OpenActive oc) r m1 = Inr (True, putConn r (e\<lparr>fsm := TCP_S_SYN_SENT\<rparr>) (putConn r e m2))"
    using e(4) open' by (simp add: processAppCommand_def runCommand_def keepEvent_def transition_def onConn_def getConn_def)
  then have "handleMessage env p t (FromApp g i (OpenActive oc)) A =
      finishMessage r (True, putConn r (e\<lparr>fsm := TCP_S_SYN_SENT\<rparr>) (putConn r e m2))"
    using op conn by (simp add: handleMessage_def Let_def)
  also have "\<dots> = Inr ((putConn r (e\<lparr>fsm := TCP_S_SYN_SENT, actions := []\<rparr>) (putConn r (e\<lparr>fsm := TCP_S_SYN_SENT\<rparr>) (putConn r e m2)))
      \<lparr>outbox := outbox A @ [ToIP syn la ra]\<rparr>)" (is "_ = Inr ?A1")
    using e(2) m1(3) by (simp add: finishMessage_alive m2_def)
  finally have h: "handleMessage env p t (FromApp g i (OpenActive oc)) A = Inr ?A1" .
  show ?thesis
    by (rule exI [of _ ?A1], rule exI [of _ "e\<lparr>fsm := TCP_S_SYN_SENT, actions := []\<rparr>"], rule exI [of _ syn])
      (use h e(3,5,6) d m1(4) in \<open>simp add: m2_def handshakeSegment_def\<close>)
qed


text \<open>A connection that waits for a peer and accepts one (\<open>listenOnce\<close>).\<close>

definition listening :: "int \<Rightarrow> l3_address \<Rightarrow> tcp_conn \<Rightarrow> bool" where
  "listening port addr c \<longleftrightarrow> fsm c = TCP_S_LISTEN \<and> \<not> fork c \<and> plainConn c \<and> tcpAlgorithm c \<noteq> None \<and> \<not> send_fin c \<and> \<not> afterRto c \<and>
     actions c = [] \<and> synRexmitTimer c \<noteq> NoTimer \<and> connEstabTimer c = IdleTimer \<and>
     localPort c = port \<and> localAddr c \<in> {Unspecified, addr} \<and> remoteAddr c = Unspecified"

lemma listening_now [simp]: "listening port addr (c\<lparr>now := t\<rparr>) = listening port addr c"
  by (simp add: listening_def plainConn_def)

lemma syn_step:
  assumes op: "isOperational B" "findConnForSegment syn src dest B = Some r" "conns B r = Some b" "tcpConnMap B (sockPairOf b) = Some r"
    and b: "listening (uint (destPort syn)) dest b"
    and syn: "mssOnly syn" "synBit syn" "\<not> ackBit syn" and key: "key = segmentKey syn src dest"
  shows "\<exists>B1 b1 synack. handleMessage env p t (FromIP syn src dest) B = Inr B1 \<and> outbox B1 = outbox B @ [ToIP synack dest src] \<and>
     isOperational B1 \<and> tcpConnMap B1 key = Some r \<and> conns B1 r = Some b1 \<and> sockPairOf b1 = key \<and> rcv_wnd b1 \<le> TCP_MAX_WIN \<and>
     handshaking TCP_S_SYN_RCVD (iss b1) b1 \<and> rcv_nxt b1 = sequenceNo syn + 1 \<and>
     (\<exists>x. handshakeSegment True True (iss b1) (sequenceNo syn + 1) x synack \<and> sockPairOf x = key)"
proof -
  let ?B = "setNow t B" and ?b = "b\<lparr>now := t\<rparr>"
  have lb: "listening (uint (destPort syn)) dest ?b" using b by simp
  have cb: "conns ?B r = Some ?b" using op(3) by simp
  have k: "sp_localAddr key = dest" "sp_remoteAddr key = src" "sp_localPort key = uint (destPort syn)" "sp_remotePort key = uint (srcPort syn)"
    using key by (simp_all add: segmentKey_def segmentKeys_def Let_def)
  define d where "d = setSockPair key ?b"
  have d: "fsm d = TCP_S_LISTEN" "plainConn d" "tcpAlgorithm d \<noteq> None" "\<not> send_fin d" "\<not> afterRto d" "actions d = []"
     "synRexmitTimer d \<noteq> NoTimer" "connEstabTimer d = IdleTimer" "sockPairOf d = key" "localAddr d = dest" "remoteAddr d = src"
    using lb k by (simp_all add: d_def setSockPair_def listening_def plainConn_def sockPairOf_def)
  obtain e synack where e: "answerSyn syn d = Inr (TCP_E_RCV_SYN, e)" "actions e = [ToIP synack dest src]"
     "handshakeSegment True True (iss e) (sequenceNo syn + 1) d synack"
     "performStateTransition TCP_E_RCV_SYN e = Inr (True, e\<lparr>fsm := TCP_S_SYN_RCVD\<rparr>)"
     "handshaking TCP_S_SYN_RCVD (iss e) (e\<lparr>fsm := TCP_S_SYN_RCVD, actions := []\<rparr>)" "rcv_nxt e = sequenceNo syn + 1" "rcv_wnd e \<le> TCP_MAX_WIN"
     "sockPairOf e = key"
    using server_syn [OF d(1-8) syn(1)] d(9-11) by auto
  define m1 where "m1 = (putConn r d ?B)\<lparr>tcpConnMap := (tcpConnMap B)(sockPairOf b := None, key \<mapsto> r)\<rparr>"
  have upd: "updateSockPair r key ?B = Inr m1"
    using cb op(4) lb k by (simp add: updateSockPair_def getConn_def m1_def d_def listening_def)
  have rst: "\<not> rstBit syn" using syn(1) by (simp add: mssOnly_def)
  have nf: "fsm ?b = TCP_S_LISTEN" "\<not> fork ?b" using lb by (simp_all add: listening_def)
  have "process_RCV_SEGMENT env syn src dest r ?B = Inr (TCP_E_RCV_SYN, putConn r e m1)"
  proof -
    have "onConn r (answerSyn syn) m1 = Inr (TCP_E_RCV_SYN, putConn r e m1)" using e(1) by (simp add: onConn_def getConn_def m1_def)
    then show ?thesis using cb nf rst syn upd key
      by (simp add: process_RCV_SEGMENT_def processSegmentInListen_def getConn_def Let_def)
  qed
  moreover have "addressesMatch syn src dest ?b" using lb by (auto simp: addressesMatch_def listening_def)
  ultimately have "processTCPSegment env syn src dest r ?B = Inr (True, putConn r (e\<lparr>fsm := TCP_S_SYN_RCVD\<rparr>) (putConn r e m1))"
    using cb e(4) by (simp add: processTCPSegment_def getConn_def transition_def onConn_def)
  then have "handleMessage env p t (FromIP syn src dest) B = finishMessage r (True, putConn r (e\<lparr>fsm := TCP_S_SYN_RCVD\<rparr>) (putConn r e m1))"
    using op(1,2) by (simp add: handleMessage_def Let_def)
  also have "\<dots> = Inr ((putConn r (e\<lparr>fsm := TCP_S_SYN_RCVD, actions := []\<rparr>) (putConn r (e\<lparr>fsm := TCP_S_SYN_RCVD\<rparr>) (putConn r e m1)))
      \<lparr>outbox := outbox B @ [ToIP synack dest src]\<rparr>)" (is "_ = Inr ?B1")
    using e(2) by (simp add: finishMessage_alive m1_def)
  finally have h: "handleMessage env p t (FromIP syn src dest) B = Inr ?B1" .
  show ?thesis
    by (rule exI [of _ ?B1], rule exI [of _ "e\<lparr>fsm := TCP_S_SYN_RCVD, actions := []\<rparr>"], rule exI [of _ synack])
      (use h e(3,5-8) d(9) op(1) in \<open>auto simp: m1_def\<close>)
qed


lemma synack_step:
  assumes op: "isOperational A" "tcpConnMap A key = Some r" "conns A r = Some a" "sockPairOf a = key" and key: "key = segmentKey seg src dest"
    and a: "handshaking TCP_S_SYN_SENT (iss a) a" and seg: "handshakeSegment True True s (iss a + 1) x seg"
  shows "\<exists>A2 a2 ack. handleMessage env p t (FromIP seg src dest) A = Inr A2 \<and> conns A2 r = Some a2 \<and> isOpen (iss a + 1) (s + 1) a2 \<and>
     outbox A2 = outbox A @ [ToIP ack dest src, IndicateEstablished dest src (uint (destPort seg)) (uint (srcPort seg))] \<and>
     (\<exists>y. handshakeSegment False True (iss a + 1) (s + 1) y ack \<and> sockPairOf y = key)"
proof -
  let ?A = "setNow t A" and ?a = "a\<lparr>now := t\<rparr>"
  have ha: "handshaking TCP_S_SYN_SENT (iss ?a) ?a" "handshakeSegment True True s (iss ?a + 1) x seg" using a seg by simp_all
  have ca: "conns ?A r = Some ?a" using op(3) by simp
  have k: "sp_localAddr key = dest" "sp_remoteAddr key = src" "sp_localPort key = uint (destPort seg)" "sp_remotePort key = uint (srcPort seg)"
    using key by (simp_all add: segmentKey_def segmentKeys_def Let_def)
  obtain c1 c3 ack d where c: "\<not> badSynAck seg ?a" "acceptSyn seg ?a = Inr c1" "sockPairOf c1 = key"
     "seqGreater (snd_una (setSockPair key c1)) (iss (setSockPair key c1))" "completeOpen seg (setSockPair key c1) = Inr (TCP_E_RCV_SYN_ACK, c3)"
     "actions c3 = [ToIP ack dest src, IndicateEstablished dest src (uint (destPort seg)) (uint (srcPort seg))]"
     "handshakeSegment False True (iss a + 1) (s + 1) (setSockPair key c1) ack" "performStateTransition TCP_E_RCV_SYN_ACK c3 = Inr (True, d)"
     "actions d = actions c3" "isOpen (iss a + 1) (s + 1) d"
    using client_synack [OF ha, of key] k op(4) by auto
  define m1 where "m1 = (putConn r (setSockPair key c1) (putConn r c1 ?A))\<lparr>tcpConnMap := (tcpConnMap A)(key := None, key \<mapsto> r)\<rparr>"
  have upd: "updateSockPair r key (putConn r c1 ?A) = Inr m1"
    using op(2) c(3) k by (auto simp: updateSockPair_def getConn_def m1_def) (simp add: sockPairOf_def)
  have bits: "\<not> rstBit seg" "synBit seg" using seg by (simp_all add: handshakeSegment_def mssOnly_def)
  have st: "fsm ?a = TCP_S_SYN_SENT" using ha(1) by (simp add: handshaking_def)
  have "process_RCV_SEGMENT env seg src dest r ?A = Inr (TCP_E_RCV_SYN_ACK, putConn r c3 m1)"
  proof -
    have "onConn r (\<lambda>c2. if seqGreater (snd_una c2) (iss c2) then completeOpen seg c2 else simultaneousOpen seg c2) m1 =
        Inr (TCP_E_RCV_SYN_ACK, putConn r c3 m1)" using c(4,5) by (simp add: onConn_def getConn_def m1_def)
    then show ?thesis using ca st bits c(1,2) upd key
      by (simp add: process_RCV_SEGMENT_def processSegmentInSynSent_def getConn_def)
  qed
  moreover have "addressesMatch seg src dest ?a" by (rule addressesMatch_exact) (use op(4) key in simp)
  ultimately have "processTCPSegment env seg src dest r ?A = Inr (True, putConn r d (putConn r c3 m1))"
    using ca c(8) by (simp add: processTCPSegment_def getConn_def transition_def onConn_def)
  then have "handleMessage env p t (FromIP seg src dest) A = finishMessage r (True, putConn r d (putConn r c3 m1))"
    using op(1) findConn_exact [of A seg src dest r] op(2) key by (simp add: handleMessage_def Let_def)
  also have "\<dots> = Inr ((putConn r (d\<lparr>actions := []\<rparr>) (putConn r d (putConn r c3 m1)))\<lparr>outbox := outbox A @ actions c3\<rparr>)" (is "_ = Inr ?A2")
    using c(9) by (simp add: finishMessage_alive m1_def)
  finally have h: "handleMessage env p t (FromIP seg src dest) A = Inr ?A2" .
  have "isOpen (iss a + 1) (s + 1) (d\<lparr>actions := []\<rparr>)" using c(10) by (simp add: isOpen_def)
  then show ?thesis using h c(6,7)
    by (intro exI [of _ ?A2] exI [of _ "d\<lparr>actions := []\<rparr>"] exI [of _ ack]) auto
qed

lemma ack_step:
  assumes op: "isOperational B" "tcpConnMap B key = Some r" "conns B r = Some b" "sockPairOf b = key" and key: "key = segmentKey seg src dest"
    and b: "handshaking TCP_S_SYN_RCVD (iss b) b" "rcv_wnd b \<le> TCP_MAX_WIN" and seg: "handshakeSegment False True (rcv_nxt b) (iss b + 1) x seg"
  shows "\<exists>B2 b2. handleMessage env p t (FromIP seg src dest) B = Inr B2 \<and> conns B2 r = Some b2 \<and> isOpen (iss b + 1) (rcv_nxt b) b2 \<and>
     outbox B2 = outbox B @ [IndicateEstablished dest src (uint (destPort seg)) (uint (srcPort seg))]"
proof -
  let ?B = "setNow t B" and ?b = "b\<lparr>now := t\<rparr>"
  have hb: "handshaking TCP_S_SYN_RCVD (iss ?b) ?b" "rcv_wnd ?b \<le> TCP_MAX_WIN" "handshakeSegment False True (rcv_nxt ?b) (iss ?b + 1) x seg"
    using b seg by simp_all
  have cb: "conns ?B r = Some ?b" using op(3) by simp
  have k: "localAddr b = dest" "remoteAddr b = src" "localPort b = uint (destPort seg)" "remotePort b = uint (srcPort seg)"
    using key op(4) by (simp_all add: segmentKey_def segmentKeys_def Let_def sockPairOf_def)
  obtain c d where c: "processSegment1stThru8th seg ?b = Inr (TCP_E_RCV_ACK, c)"
     "actions c = [IndicateEstablished dest src (uint (destPort seg)) (uint (srcPort seg))]"
     "performStateTransition TCP_E_RCV_ACK c = Inr (True, d)" "actions d = actions c" "isOpen (iss b + 1) (rcv_nxt b) d"
    using server_ack [OF hb] k by auto
  have "handleMessage env p t (FromIP seg src dest) B = finishMessage r (True, putConn r d (putConn r c ?B))"
    by (rule segment_step [OF op(1) _ op(3) _ _ _ c(1,3)]) (use op key b(1) in \<open>simp_all add: handshaking_def\<close>)
  from finish_step [OF this] obtain B2 where B2: "handleMessage env p t (FromIP seg src dest) B = Inr B2" "outbox B2 = outbox B @ actions d"
     "conns B2 r = Some (d\<lparr>actions := []\<rparr>)" by blast
  have "isOpen (iss b + 1) (rcv_nxt b) (d\<lparr>actions := []\<rparr>)" using c(5) by (simp add: isOpen_def)
  then show ?thesis using B2 c(2,4) by (intro exI [of _ B2] exI [of _ "d\<lparr>actions := []\<rparr>"]) simp
qed

text \<open>
  C1: the three-way handshake from end to end. A module whose application opens a connection actively, and one where a
  connection listens on that port, exchange SYN, SYN+ACK and ACK: every message is handled without an error, the
  outboxes grow by exactly these segments and by one notification to each application, and in the end both
  connections are \<open>ESTABLISHED\<close>, with the send variables of either side equal to \<open>rcv_nxt\<close> of the other.
\<close>

theorem three_way_handshake:
  assumes A: "isOperational A" "findConnForApp g i A = None" "plainPar p"
      "tcpConnMap A \<lparr>sp_localAddr = la, sp_remoteAddr = ra, sp_localPort = lp, sp_remotePort = rp\<rparr> = None"
    and oc: "open_localAddr oc = la" "open_remoteAddr oc = ra" "open_localPort oc = lp" "open_remotePort oc = rp" "ra \<noteq> Unspecified"
    and ports: "0 \<le> lp" "lp < 65536" "0 \<le> rp" "rp < 65536"
    and B: "isOperational B" "\<And>seg. srcPort seg = of_int lp \<Longrightarrow> destPort seg = of_int rp \<Longrightarrow> findConnForSegment seg la ra B = Some r"
      "conns B r = Some b" "tcpConnMap B (sockPairOf b) = Some r" "listening rp ra b"
  shows "\<exists>A1 A2 B1 B2 syn synack ack a b' x y.
     handleMessage ea p t1 (FromApp g i (OpenActive oc)) A = Inr A1 \<and> outbox A1 = outbox A @ [ToIP syn la ra] \<and>
     handleMessage eb p t2 (FromIP syn la ra) B = Inr B1 \<and> outbox B1 = outbox B @ [ToIP synack ra la] \<and>
     handleMessage ea p t3 (FromIP synack ra la) A1 = Inr A2 \<and> outbox A2 = outbox A1 @ [ToIP ack la ra, IndicateEstablished la ra lp rp] \<and>
     handleMessage eb p t4 (FromIP ack la ra) B1 = Inr B2 \<and> outbox B2 = outbox B1 @ [IndicateEstablished ra la rp lp] \<and>
     conns A2 (env_newRef ea) = Some a \<and> isOpen x y a \<and> conns B2 r = Some b' \<and> isOpen y x b'"
proof -
  let ?ka = "\<lparr>sp_localAddr = la, sp_remoteAddr = ra, sp_localPort = lp, sp_remotePort = rp\<rparr>"
  let ?kb = "\<lparr>sp_localAddr = ra, sp_remoteAddr = la, sp_localPort = rp, sp_remotePort = lp\<rparr>"
  have port: "uint (of_int lp :: u16) = lp" "uint (of_int rp :: u16) = rp" using ports by (simp_all add: uint_word_of_int)
  have ne: "lp \<noteq> -1" "rp \<noteq> -1" using ports by simp_all
  obtain A1 a syn where 1: "handleMessage ea p t1 (FromApp g i (OpenActive oc)) A = Inr A1" "outbox A1 = outbox A @ [ToIP syn la ra]"
     "isOperational A1" "tcpConnMap A1 = (tcpConnMap A)(?ka \<mapsto> env_newRef ea)" "conns A1 (env_newRef ea) = Some a" "sockPairOf a = ?ka"
     "handshaking TCP_S_SYN_SENT (iss a) a" "mssOnly syn" "synBit syn" "\<not> ackBit syn" "sequenceNo syn = iss a"
     "srcPort syn = of_int lp" "destPort syn = of_int rp"
    using open_active_step [OF A(1-3) refl oc ne refl A(4), of ea t1] by blast
  have kb: "?kb = segmentKey syn la ra" using 1(12,13) port by (simp add: segmentKey_def segmentKeys_def Let_def)
  have lb: "listening (uint (destPort syn)) ra b" using B(5) 1(13) port by simp
  obtain B1 b1 synack z where 2: "handleMessage eb p t2 (FromIP syn la ra) B = Inr B1" "outbox B1 = outbox B @ [ToIP synack ra la]"
     "isOperational B1" "tcpConnMap B1 ?kb = Some r" "conns B1 r = Some b1" "sockPairOf b1 = ?kb" "rcv_wnd b1 \<le> TCP_MAX_WIN"
     "handshaking TCP_S_SYN_RCVD (iss b1) b1" "rcv_nxt b1 = iss a + 1" "handshakeSegment True True (iss b1) (iss a + 1) z synack" "sockPairOf z = ?kb"
    using syn_step [OF B(1) B(2) [OF 1(12,13)] B(3,4) lb 1(8-10) kb, of eb p t2] unfolding 1(11) by blast
  have ka: "?ka = segmentKey synack ra la"
    using 2(10,11) port by (simp add: segmentKey_def segmentKeys_def Let_def handshakeSegment_def sockPairOf_def)
  have p2: "uint (destPort synack) = lp" "uint (srcPort synack) = rp" using ka by (simp_all add: segmentKey_def segmentKeys_def Let_def)
  have "tcpConnMap A1 ?ka = Some (env_newRef ea)" using 1(4) by simp
  from synack_step [OF 1(3) this 1(5,6) ka 1(7) 2(10), of ea p t3] obtain A2 a2 ack y where
    3: "handleMessage ea p t3 (FromIP synack ra la) A1 = Inr A2" "conns A2 (env_newRef ea) = Some a2" "isOpen (iss a + 1) (iss b1 + 1) a2"
     "outbox A2 = outbox A1 @ [ToIP ack la ra, IndicateEstablished la ra lp rp]" "handshakeSegment False True (iss a + 1) (iss b1 + 1) y ack" "sockPairOf y = ?ka"
    unfolding p2 by blast
  have kb2: "?kb = segmentKey ack la ra"
    using 3(5,6) port by (simp add: segmentKey_def segmentKeys_def Let_def handshakeSegment_def sockPairOf_def)
  have p3: "uint (destPort ack) = rp" "uint (srcPort ack) = lp" using kb2 by (simp_all add: segmentKey_def segmentKeys_def Let_def)
  have "handshakeSegment False True (rcv_nxt b1) (iss b1 + 1) y ack" using 3(5) 2(9) by simp
  from ack_step [OF 2(3-6) kb2 2(8,7) this, of eb p t4] obtain B2 b2 where
    4: "handleMessage eb p t4 (FromIP ack la ra) B1 = Inr B2" "conns B2 r = Some b2" "isOpen (iss b1 + 1) (iss a + 1) b2"
     "outbox B2 = outbox B1 @ [IndicateEstablished ra la rp lp]" unfolding p3 2(9) by blast
  show ?thesis using 1(1,2) 2(1,2) 3(1-4) 4 by blast
qed

definition handshakeListener :: tcp_conn where
  "handshakeListener = (sampleConn TCP_S_LISTEN)\<lparr>localPort := 80\<rparr>"

definition handshakeServer :: tcp_main where
  "handshakeServer = newMain\<lparr>conns := [0 \<mapsto> handshakeListener], tcpConnMap := [sockPairOf handshakeListener \<mapsto> 0]\<rparr>"

definition sampleOpen :: open_command where
  "sampleOpen = \<lparr>open_localAddr = Address 1, open_remoteAddr = Address 2, open_localPort = 1025, open_remotePort = 80,
     open_fork = False, open_tcpAlgorithmClass = None\<rparr>"

definition sampleEnv :: runtime_env where
  "sampleEnv = \<lparr>env_newRef = 7, env_uniqueNumber = 1\<rparr>"

theorem three_way_handshake_witness:
  "\<exists>A1 A2 B1 B2 syn synack ack a b x y.
     handleMessage sampleEnv (par handshakeListener) 1 (FromApp 0 7 (OpenActive sampleOpen)) newMain = Inr A1 \<and> outbox A1 = [ToIP syn (Address 1) (Address 2)] \<and>
     handleMessage sampleEnv (par handshakeListener) 2 (FromIP syn (Address 1) (Address 2)) handshakeServer = Inr B1 \<and> outbox B1 = [ToIP synack (Address 2) (Address 1)] \<and>
     handleMessage sampleEnv (par handshakeListener) 3 (FromIP synack (Address 2) (Address 1)) A1 = Inr A2 \<and>
     handleMessage sampleEnv (par handshakeListener) 4 (FromIP ack (Address 1) (Address 2)) B1 = Inr B2 \<and>
     conns A2 7 = Some a \<and> isOpen x y a \<and> conns B2 0 = Some b \<and> isOpen y x b"
proof -
  let ?p = "par handshakeListener"
  have A: "isOperational newMain" "findConnForApp 0 7 newMain = None" "tcpConnMap newMain k = None" "outbox newMain = []" for k
    by (simp_all add: newMain_def findConnForApp_def)
  have p: "plainPar ?p"
    by (simp add: plainPar_def handshakeListener_def sampleConn_def newConnection_def tcp_alg_state_variables.defs)
  have oc: "open_localAddr sampleOpen = Address 1" "open_remoteAddr sampleOpen = Address 2" "open_localPort sampleOpen = 1025"
     "open_remotePort sampleOpen = 80" "Address 2 \<noteq> Unspecified" by (simp_all add: sampleOpen_def)
  have lis: "listening 80 (Address 2) handshakeListener"
    by (simp add: listening_def plainConn_def handshakeListener_def sampleConn_def newConnection_def newAlgStateVariables_def
        newStateVariables_def tcp_state_variables.defs tcp_alg_state_variables.defs)
  have key: "sockPairOf handshakeListener = \<lparr>sp_localAddr = Unspecified, sp_remoteAddr = Unspecified, sp_localPort = 80, sp_remotePort = -1\<rparr>"
    by (simp add: sockPairOf_def handshakeListener_def sampleConn_def newConnection_def tcp_alg_state_variables.defs)
  have B: "isOperational handshakeServer" "conns handshakeServer 0 = Some handshakeListener" "tcpConnMap handshakeServer (sockPairOf handshakeListener) = Some 0" "outbox handshakeServer = []"
    by (simp_all add: handshakeServer_def newMain_def)
  have find: "findConnForSegment seg (Address 1) (Address 2) handshakeServer = Some 0" if "srcPort seg = of_int 1025" "destPort seg = of_int 80" for seg
    using that by (simp add: findConnForSegment_def segmentKeys_def firstOf_def handshakeServer_def newMain_def key Let_def)
  have r: "env_newRef sampleEnv = 7" by (simp add: sampleEnv_def)
  have "0 \<le> (1025 :: int)" "(1025 :: int) < 65536" "0 \<le> (80 :: int)" "(80 :: int) < 65536" by simp_all
  from three_way_handshake [OF A(1,2) p A(3) oc this B(1) find B(2,3) lis, of sampleEnv 1 sampleEnv 2 3 4]
  show ?thesis unfolding A(4) B(4) r append_Nil by blast
qed

section \<open>Retransmission of the SYN\<close>

text \<open>The interval has doubled with every retransmission, up to its bound.\<close>

definition synBackoff :: "tcp_conn \<Rightarrow> bool" where
  "synBackoff c \<longleftrightarrow> 0 \<le> syn_rexmit_count c \<and>
     syn_rexmit_timeout c = min (TCP_TIMEOUT_SYN_REXMIT * 2 ^ nat (syn_rexmit_count c)) TCP_TIMEOUT_SYN_REXMIT_MAX"

lemma synBackoff_start: "startSynRexmitTimer c = Inr c' \<Longrightarrow> synBackoff c'"
  by (auto simp: startSynRexmitTimer_def synBackoff_def Let_def elim!: bindR_InrE)

lemma synBackoff_double:
  assumes "synBackoff c" "syn_rexmit_count d = syn_rexmit_count c + 1"
    "syn_rexmit_timeout d = (if syn_rexmit_timeout c * 2 > TCP_TIMEOUT_SYN_REXMIT_MAX then TCP_TIMEOUT_SYN_REXMIT_MAX else syn_rexmit_timeout c * 2)"
  shows "synBackoff d"
proof -
  have "nat (syn_rexmit_count d) = Suc (nat (syn_rexmit_count c))" using assms(1,2) by (simp add: synBackoff_def nat_add_distrib)
  then show ?thesis using assms by (auto simp: synBackoff_def min_def)
qed

lemma resendSyn:
  assumes c: "plainConn c" "fsm c \<in> {TCP_S_SYN_SENT, TCP_S_SYN_RCVD}" "remoteAddr c \<noteq> Unspecified" "remotePort c \<noteq> -1" "localPort c \<noteq> -1"
  shows "\<exists>d seg. (if fsm c = TCP_S_SYN_SENT then sendSyn c else if fsm c = TCP_S_SYN_RCVD then sendSynAck c
        else Inl (RuntimeError ''Internal error: SYN-REXMIT timer expired'')) = Inr d \<and>
     actions d = actions c @ [ToIP seg (localAddr c) (remoteAddr c)] \<and> handshakeSegment True (fsm c = TCP_S_SYN_RCVD) (iss c) (rcv_nxt c) c seg \<and>
     syn_rexmit_count d = syn_rexmit_count c \<and> syn_rexmit_timeout d = syn_rexmit_timeout c \<and> synRexmitTimer d = synRexmitTimer c \<and>
     now d = now c \<and> fsm d = fsm c"
proof (cases "fsm c = TCP_S_SYN_SENT")
  case True
  obtain seg f u a w where "sendSyn c = Inr (emit (ToIP seg (localAddr c) (remoteAddr c))
       ((windowed f u a w c)\<lparr>snd_nxt := iss c + 1, snd_max := iss c + 1, sentBytes := 0\<rparr>))" "handshakeSegment True False (iss c) 0 c seg"
    using sendSyn_plain [OF c(1,3-5)] by blast
  then show ?thesis using True by (simp add: handshakeSegment_def) (auto simp: emit_def windowed_def)
next
  case False
  then have st: "fsm c = TCP_S_SYN_RCVD" using c(2) by simp
  obtain seg f u a w where "sendSynAck c = Inr (ackSent (emit (ToIP seg (localAddr c) (remoteAddr c))
       ((windowed f u a w c)\<lparr>snd_nxt := iss c + 1, snd_max := iss c + 1, sentBytes := 0\<rparr>)))" "handshakeSegment True True (iss c) (rcv_nxt c) c seg"
    using sendSynAck_plain [OF c(1)] by blast
  then show ?thesis using st by (auto simp: emit_def windowed_def ackSent_def)
qed

text \<open>
  Retransmission of the SYN. When its timer expires in \<open>SYN_SENT\<close> or \<open>SYN_RCVD\<close>, the SYN (or SYN+ACK) goes out again with the
  same initial sequence number and nothing else, and the timer is set again to an interval that has doubled with each of
  the retransmissions and stops at 240 seconds; with the thirteenth expiry nothing is sent and the event
  closes the connection.
\<close>

lemma syn_retransmission:
  assumes c: "plainConn c" "fsm c \<in> {TCP_S_SYN_SENT, TCP_S_SYN_RCVD}" "remoteAddr c \<noteq> Unspecified" "remotePort c \<noteq> -1" "localPort c \<noteq> -1"
    and timer: "synBackoff c" "synRexmitTimer c = IdleTimer"
  shows "if syn_rexmit_count c < MAX_SYN_REXMIT_COUNT
     then \<exists>d seg. process_TIMEOUT_SYN_REXMIT ev c = Inr (ev, d) \<and> actions d = actions c @ [ToIP seg (localAddr c) (remoteAddr c)] \<and>
       handshakeSegment True (fsm c = TCP_S_SYN_RCVD) (iss c) (rcv_nxt c) c seg \<and> fsm d = fsm c \<and> syn_rexmit_count d = syn_rexmit_count c + 1 \<and>
       synBackoff d \<and> synRexmitTimer d = ScheduledAt (now c + syn_rexmit_timeout d)
     else \<exists>d. process_TIMEOUT_SYN_REXMIT ev c = Inr (TCP_E_ABORT, d) \<and> actions d = actions c \<and> fsmNext (active d) (fsm d) TCP_E_ABORT = TCP_S_CLOSED"
proof (cases "syn_rexmit_count c < MAX_SYN_REXMIT_COUNT")
  case True
  let ?c = "c\<lparr>syn_rexmit_count := syn_rexmit_count c + 1\<rparr>"
  have "plainConn ?c" "fsm ?c \<in> {TCP_S_SYN_SENT, TCP_S_SYN_RCVD}" "remoteAddr ?c \<noteq> Unspecified" "remotePort ?c \<noteq> -1" "localPort ?c \<noteq> -1"
    using c by simp_all
  from resendSyn [OF this] obtain d seg where d: "(if fsm ?c = TCP_S_SYN_SENT then sendSyn ?c else if fsm ?c = TCP_S_SYN_RCVD then sendSynAck ?c
        else Inl (RuntimeError ''Internal error: SYN-REXMIT timer expired'')) = Inr d"
     "actions d = actions c @ [ToIP seg (localAddr c) (remoteAddr c)]" "handshakeSegment True (fsm c = TCP_S_SYN_RCVD) (iss c) (rcv_nxt c) c seg"
     "syn_rexmit_count d = syn_rexmit_count c + 1" "syn_rexmit_timeout d = syn_rexmit_timeout c" "synRexmitTimer d = IdleTimer" "now d = now c" "fsm d = fsm c"
    using timer(2) by (auto simp: handshakeSegment_def)
  let ?t = "if syn_rexmit_timeout d * 2 > TCP_TIMEOUT_SYN_REXMIT_MAX then TCP_TIMEOUT_SYN_REXMIT_MAX else syn_rexmit_timeout d * 2"
  let ?e = "d\<lparr>syn_rexmit_timeout := ?t, synRexmitTimer := ScheduledAt (now c + ?t)\<rparr>"
  have small: "\<not> syn_rexmit_count ?c > MAX_SYN_REXMIT_COUNT" using True by simp
  have "process_TIMEOUT_SYN_REXMIT ev c = Inr (ev, ?e)"
    unfolding process_TIMEOUT_SYN_REXMIT_def Let_def if_not_P [OF small] d(1) bindR_Inr
    using d(6,7) by (simp add: scheduleTimeout_def scheduleAt_def)
  moreover have "synBackoff ?e" by (rule synBackoff_double [OF timer(1)]) (use d(4,5) in simp_all)
  ultimately show ?thesis unfolding if_P [OF True] using d(2-4,8)
    by (intro exI [of _ ?e] exI [of _ seg]) simp
next
  case False
  then show ?thesis using c(2) by (auto simp: process_TIMEOUT_SYN_REXMIT_def Let_def fsmNext_def)
qed

end
