(* ===== verification/Tcp_Close.thy ===== *)
theory Tcp_Close
  imports Tcp_Handshake
begin

text \<open>
  Closing a connection (\<open>TCPConnectionEventProc.cc\<close>: \<open>process_CLOSE\<close>; \<open>TCPConnectionRcvSegment.cc\<close>: steps five and eight of
  \<open>processSegment1stThru8th\<close>, \<open>process_TIMEOUT_2MSL\<close>; \<open>TCPConnectionBase.cc\<close>: \<open>performStateTransition\<close>; \<open>TCP.cc\<close>:
  \<open>handleMessage\<close>): the exchange of FIN and ACK between two modules, step by step and as a whole, for any of the five
  congestion-control classes, and the case in which a FIN of the peer is lost.
\<close>

section \<open>An idle connection that closes\<close>

definition settled :: "tcp_fsm_state \<Rightarrow> bool \<Rightarrow> u32 \<Rightarrow> u32 \<Rightarrow> u32 \<Rightarrow> tcp_conn \<Rightarrow> bool" where
  "settled st closing s una r c \<longleftrightarrow> fsm c = st \<and> plainConn c \<and> algTimersOk c \<and> \<not> afterRto c \<and> \<not> lossRecovery c \<and>
     (una = s \<longrightarrow> snd_cwnd c \<noteq> 0) \<and> finWait2Timer c \<noteq> NoTimer \<and> the2MSLTimer c = IdleTimer \<and>
     sendQ c = \<lparr>sq_begin = s, sq_end = s\<rparr> \<and> send_fin c = closing \<and> (closing \<longrightarrow> snd_fin_seq c = s) \<and>
     snd_una c = una \<and> snd_nxt c = (if closing then s + 1 else s) \<and> snd_max c = snd_nxt c \<and>
     rcv_nxt c = r \<and> rcv_wnd c \<le> TCP_MAX_WIN \<and> actions c = []"

definition closeSegment :: "bool \<Rightarrow> u32 \<Rightarrow> u32 \<Rightarrow> tcp_conn \<Rightarrow> tcp_segment \<Rightarrow> bool" where
  "closeSegment fin s a c seg \<longleftrightarrow> payloadLength seg = 0 \<and> \<not> rstBit seg \<and> \<not> synBit seg \<and> ackBit seg \<and> finBit seg = fin \<and>
     mssOptions seg \<and> sequenceNo seg = s \<and> ackNo seg = a \<and> srcPort seg = of_int (localPort c) \<and> destPort seg = of_int (remotePort c)"

lemma handshake_closeSegment: "handshakeSegment False True s a c seg \<Longrightarrow> closeSegment False s a c seg"
  by (simp add: handshakeSegment_def closeSegment_def mssOnly_def)

lemma sendFin_plain:
  assumes "plainConn c"
  shows "\<exists>fin f u a w. sendFin c = Inr (ackSent (emit (ToIP fin (localAddr c) (remoteAddr c)) ((windowed f u a w c)\<lparr>sentBytes := 0\<rparr>))) \<and>
     w \<le> TCP_MAX_WIN \<and> closeSegment True (snd_nxt c) (rcv_nxt c) c fin"
proof -
  obtain f u a w where r: "updateRcvWnd c = Inr (ucast w, windowed f u a w c)" "w \<le> TCP_MAX_WIN" using updateRcvWnd_plain [OF assms] by blast
  let ?s = "newSegment\<lparr>finBit := True, ackBit := True, ackNo := rcv_nxt c, sequenceNo := snd_nxt c, window := ucast w\<rparr>"
  let ?t = "?s\<lparr>srcPort := of_int (localPort c), destPort := of_int (remotePort c)\<rparr>"
  have "TCP_HEADER_OCTETS \<le> headerLength ?s" "headerLength ?s \<le> TCP_MAX_HEADER_OCTETS" "payloadLength ?s = 0" by (simp_all add: newSegment_def)
  from sendToIP_plain [OF this, of "windowed f u a w c"]
  have "sendFin c = Inr (ackSent (emit (ToIP ?t (localAddr c) (remoteAddr c)) ((windowed f u a w c)\<lparr>sentBytes := 0\<rparr>)))"
    using r by (simp add: sendFin_def Let_def)
  moreover have "closeSegment True (snd_nxt c) (rcv_nxt c) c ?t" by (simp add: closeSegment_def newSegment_def mssOptions_def)
  ultimately show ?thesis using r(2) by (intro exI [of _ ?t] exI [of _ f] exI [of _ u] exI [of _ a] exI [of _ w]) simp
qed

lemma algTimersOk_simps [simp]:
  "algTimersOk (ackSent c) = algTimersOk c" "algTimersOk (windowed f u a w c) = algTimersOk c" "algTimersOk (emit e c) = algTimersOk c"
  "algTimersOk (c\<lparr>fsm := x1\<rparr>) = algTimersOk c" "algTimersOk (c\<lparr>snd_nxt := x2\<rparr>) = algTimersOk c" "algTimersOk (c\<lparr>snd_max := x3\<rparr>) = algTimersOk c"
  "algTimersOk (c\<lparr>sentBytes := x4\<rparr>) = algTimersOk c" "algTimersOk (c\<lparr>actions := x5\<rparr>) = algTimersOk c" "algTimersOk (c\<lparr>send_fin := x6\<rparr>) = algTimersOk c"
  "algTimersOk (c\<lparr>snd_fin_seq := x7\<rparr>) = algTimersOk c" "algTimersOk (c\<lparr>connEstabTimer := x8\<rparr>) = algTimersOk c" "algTimersOk (c\<lparr>synRexmitTimer := x9\<rparr>) = algTimersOk c"
  "algTimersOk (c\<lparr>snd_mss := y1\<rparr>) = algTimersOk c" "algTimersOk (c\<lparr>dupacks := y2\<rparr>) = algTimersOk c" "algTimersOk (c\<lparr>ack_now := y3\<rparr>) = algTimersOk c"
  "algTimersOk (c\<lparr>rcv_nxt := y4\<rparr>) = algTimersOk c" "algTimersOk (c\<lparr>the2MSLTimer := y5\<rparr>) = algTimersOk c" "algTimersOk (c\<lparr>finWait2Timer := y6\<rparr>) = algTimersOk c"
  "algTimersOk (c\<lparr>rexmit_count := y7\<rparr>) = algTimersOk c"
  by (simp_all add: algTimersOk_def ackSent_def windowed_def emit_def isDumb_def cancelIfScheduled_def)
    (cases "delayedAckTimer c"; simp)

lemma close_transition:
  assumes "fsm c \<in> {TCP_S_ESTABLISHED, TCP_S_CLOSE_WAIT}"
  shows "performStateTransition TCP_E_CLOSE c = Inr (True, c\<lparr>fsm := (if fsm c = TCP_S_ESTABLISHED then TCP_S_FIN_WAIT_1 else TCP_S_LAST_ACK),
     connEstabTimer := cancelIfPresent (connEstabTimer c), synRexmitTimer := cancelIfPresent (synRexmitTimer c)\<rparr>)"
  using assms by (elim insertE emptyE) (simp_all add: performStateTransition_def fsmNext_def stateEntered_def Let_def)

lemma restartRexmit_returns:
  assumes "algTimersOk c"
  shows "\<exists>n t. restartRexmitTimer c = Inr (c\<lparr>rexmit_count := n, rexmitTimer := t\<rparr>) \<and> t \<noteq> NoTimer"
proof (cases "isDumb c")
  case True
  then show ?thesis using assms
    by (intro exI [of _ "rexmit_count c"] exI [of _ "rexmitTimer c"]) (simp add: restartRexmitTimer_def algTimersOk_def)
next
  case False
  have "cancelIfScheduled (rexmitTimer c) = IdleTimer" using assms by (cases "rexmitTimer c") (simp_all add: algTimersOk_def cancelIfScheduled_def)
  then show ?thesis using False
    by (intro exI [of _ 0] exI [of _ "ScheduledAt (now c + rexmit_timeout c)"])
      (simp add: restartRexmitTimer_def startRexmitTimer_def scheduleRexmit_def scheduleAt_def)
qed

lemma ackSent_more [simp]:
  "lossRecovery (ackSent c) = lossRecovery c" "snd_cwnd (ackSent c) = snd_cwnd c" "finWait2Timer (ackSent c) = finWait2Timer c"
  "the2MSLTimer (ackSent c) = the2MSLTimer c" "snd_fin_seq (ackSent c) = snd_fin_seq c" "rexmitTimer (ackSent c) = rexmitTimer c"
  by (simp_all add: ackSent_def)

lemma settled_close:
  assumes c: "settled st False s s r c" and st: "st \<in> {TCP_S_ESTABLISHED, TCP_S_CLOSE_WAIT}"
  shows "\<exists>c1 d fin. process_CLOSE TCP_E_CLOSE c = Inr (TCP_E_CLOSE, c1) \<and> performStateTransition TCP_E_CLOSE c1 = Inr (True, d) \<and>
     actions d = [ToIP fin (localAddr c) (remoteAddr c)] \<and> closeSegment True s r c fin \<and> sockPairOf d = sockPairOf c \<and>
     settled (if st = TCP_S_ESTABLISHED then TCP_S_FIN_WAIT_1 else TCP_S_LAST_ACK) True s s r (d\<lparr>actions := []\<rparr>)"
proof -
  have h: "fsm c = st" "plainConn c" "algTimersOk c" "\<not> afterRto c" "\<not> lossRecovery c" "snd_cwnd c \<noteq> 0" "finWait2Timer c \<noteq> NoTimer"
     "the2MSLTimer c = IdleTimer" "sendQ c = \<lparr>sq_begin = s, sq_end = s\<rparr>" "snd_una c = s" "snd_nxt c = s" "snd_max c = s" "rcv_nxt c = r" "actions c = []"
    using c by (simp_all add: settled_def)
  have same: "c\<lparr>snd_nxt := snd_max c\<rparr> = c" using h by simp
  obtain fin f u a w where f: "sendFin c = Inr (ackSent (emit (ToIP fin (localAddr c) (remoteAddr c)) ((windowed f u a w c)\<lparr>sentBytes := 0\<rparr>)))"
     "w \<le> TCP_MAX_WIN" "closeSegment True (snd_nxt c) (rcv_nxt c) c fin" using sendFin_plain [OF h(2)] by blast
  let ?d = "ackSent (emit (ToIP fin (localAddr c) (remoteAddr c)) ((windowed f u a w c)\<lparr>sentBytes := 0\<rparr>))"
  have "algTimersOk ?d" using h(3) by simp
  from restartRexmit_returns [OF this] obtain n t where t: "restartRexmitTimer ?d = Inr (?d\<lparr>rexmit_count := n, rexmitTimer := t\<rparr>)" "t \<noteq> NoTimer" by blast
  let ?e = "?d\<lparr>rexmit_count := n, rexmitTimer := t, snd_nxt := s + 1, snd_max := s + 1, send_fin := True, snd_fin_seq := s\<rparr>"
  have "closeNow c = Inr (?d\<lparr>rexmit_count := n, rexmitTimer := t, snd_nxt := s + 1, snd_max := s + 1\<rparr>)"
    unfolding closeNow_def same f(1) bindR_Inr t(1) using h by (simp add: windowed_def emit_def)
  then have p: "process_CLOSE TCP_E_CLOSE c = Inr (TCP_E_CLOSE, ?e)"
    using h st by (auto simp: process_CLOSE_def getBufferEndSeq_def windowed_def emit_def)
  let ?st = "if st = TCP_S_ESTABLISHED then TCP_S_FIN_WAIT_1 else TCP_S_LAST_ACK"
  let ?g = "?e\<lparr>fsm := ?st, connEstabTimer := cancelIfPresent (connEstabTimer ?e), synRexmitTimer := cancelIfPresent (synRexmitTimer ?e)\<rparr>"
  have "fsm ?e = st" using h by (simp add: windowed_def emit_def)
  then have tr: "performStateTransition TCP_E_CLOSE ?e = Inr (True, ?g)"
    using close_transition [of ?e] st by simp
  have g: "actions ?g = [ToIP fin (localAddr c) (remoteAddr c)]" "sockPairOf ?g = sockPairOf c"
    using h by (simp_all add: windowed_def emit_def sockPairOf_def)
  have "algTimersOk ?g" using h(3) t(2) by (simp add: algTimersOk_def ackSent_def windowed_def emit_def isDumb_def cancelIfScheduled_def)
  moreover have "plainConn ?g" using h(2) by (simp add: plainConn_def ackSent_def windowed_def emit_def)
  ultimately have "settled ?st True s s r (?g\<lparr>actions := []\<rparr>)"
    using h f(2) by (simp add: settled_def) (simp add: windowed_def emit_def)
  then show ?thesis using p tr g f(3) h
    by (intro exI [of _ ?e] exI [of _ ?g] exI [of _ fin]) simp
qed

text \<open>An acknowledgement of everything, on a connection with nothing left to send: no flavour sends anything.\<close>

lemma baseDataAck_idle:
  assumes "snd_una c = snd_max c" "rexmitTimer c \<noteq> NoTimer" "persistTimer c \<noteq> NoTimer"
  shows "\<exists>sr rv rt rs xt pt pf. baseReceivedDataAck fs c = Inr (c\<lparr>srtt := sr, rttvar := rv, rexmit_timeout := rt, rtseq_sendtime := rs,
     rexmitTimer := xt, persistTimer := pt, persist_factor := pf\<rparr>) \<and> xt \<noteq> NoTimer \<and> pt \<noteq> NoTimer"
proof -
  obtain sr rv rt rs where m: "measureRtt c = c\<lparr>srtt := sr, rttvar := rv, rexmit_timeout := rt, rtseq_sendtime := rs\<rparr>"
  proof (cases "\<not> ts_enabled c \<and> rtseq_sendtime c \<noteq> 0 \<and> seqLess (rtseq c) (snd_una c)")
    case True
    show ?thesis by (rule that) (simp only: measureRtt_def rttMeasurementComplete_def Let_def if_P [OF True])
  next
    case False
    have "measureRtt c = c\<lparr>srtt := srtt c, rttvar := rttvar c, rexmit_timeout := rexmit_timeout c, rtseq_sendtime := rtseq_sendtime c\<rparr>"
      unfolding measureRtt_def if_not_P [OF False] by simp
    then show ?thesis by (rule that)
  qed
  let ?x = "cancelIfScheduled (rexmitTimer c)"
  let ?d = "c\<lparr>srtt := sr, rttvar := rv, rexmit_timeout := rt, rtseq_sendtime := rs, rexmitTimer := ?x\<rparr>"
  have x: "?x = IdleTimer" using assms(2) by (cases "rexmitTimer c") (simp_all add: cancelIfScheduled_def)
  have "\<exists>pt pf. managePersistTimer ?d = Inr (?d\<lparr>persistTimer := pt, persist_factor := pf\<rparr>) \<and> pt \<noteq> NoTimer"
  proof (cases "persistTimer c")
    case NoTimer
    with assms(3) show ?thesis by simp
  next
    case IdleTimer
    show ?thesis
    proof (cases "snd_wnd c = 0")
      case True
      then show ?thesis using x IdleTimer
        by (intro exI [of _ "ScheduledAt (now c + persist_timeout c)"] exI [of _ "persist_factor c"])
          (simp add: managePersistTimer_def schedulePersist_def scheduleAt_def)
    next
      case False
      then show ?thesis using x IdleTimer
        by (intro exI [of _ IdleTimer] exI [of _ "persist_factor c"]) (simp add: managePersistTimer_def)
    qed
  next
    case (ScheduledAt y)
    show ?thesis
    proof (cases "snd_wnd c = 0")
      case True
      then show ?thesis using x ScheduledAt
        by (intro exI [of _ "ScheduledAt y"] exI [of _ "persist_factor c"]) (simp add: managePersistTimer_def)
    next
      case False
      then show ?thesis using x ScheduledAt
        by (intro exI [of _ IdleTimer] exI [of _ 0]) (simp add: managePersistTimer_def)
    qed
  qed
  then obtain pt pf where p: "managePersistTimer ?d = Inr (?d\<lparr>persistTimer := pt, persist_factor := pf\<rparr>)" "pt \<noteq> NoTimer" by blast
  have b: "baseReceivedDataAck fs c = Inr (?d\<lparr>persistTimer := pt, persist_factor := pf\<rparr>)"
    using assms(1) p(1) by (simp add: baseReceivedDataAck_def m manageRexmitTimer_def)
  show ?thesis
    by (rule exI [of _ sr], rule exI [of _ rv], rule exI [of _ rt], rule exI [of _ rs], rule exI [of _ ?x], rule exI [of _ pt], rule exI [of _ pf]) (use b p(2) x in simp)
qed

text \<open>Nothing is left to send.\<close>

definition drained :: "tcp_conn \<Rightarrow> bool" where
  "drained c \<longleftrightarrow> getBytesAvailable (sendQ c) (snd_max c) = 0 \<and> snd_nxt c = snd_max c \<and> \<not> afterRto c \<and> \<not> sack_enabled c"

lemma drained_simps [simp]:
  "drained (c\<lparr>snd_cwnd := x1\<rparr>) = drained c" "drained (c\<lparr>recover := x2\<rparr>) = drained c"
  "drained (c\<lparr>srtt := sr, rttvar := rv, rexmit_timeout := rt, rtseq_sendtime := rs, rexmitTimer := xt, persistTimer := pt, persist_factor := pf\<rparr>) = drained c"
  by (simp_all add: drained_def)

lemma connSendData_drained: "drained c \<Longrightarrow> connSendData b w c = Inr (False, c)"
  by (simp add: drained_def connSendData_def sendData_def Let_def)

lemma trySend_drained: "drained c \<Longrightarrow> trySend b c = Inr c"
proof -
  assume d: "drained c"
  then have "restartIdle c = c" by (simp add: drained_def restartIdle_def isSendQueueEmpty_def)
  then show ?thesis by (simp add: trySend_def algSendData_def Let_def connSendData_drained [OF d])
qed

lemma growCwnd_returns: "snd_cwnd c \<noteq> 0 \<Longrightarrow> \<exists>w. growCwnd c = Inr (c\<lparr>snd_cwnd := w\<rparr>)"
  by (simp add: growCwnd_def Let_def) blast

lemma dataAck_idle:
  assumes c: "drained c" "snd_una c = snd_max c" "algTimersOk c" "\<not> lossRecovery c" "snd_cwnd c \<noteq> 0"
  shows "\<exists>sr rv rt rs xt pt pf cw rc. algReceivedDataAck fs c = Inr (c\<lparr>srtt := sr, rttvar := rv, rexmit_timeout := rt, rtseq_sendtime := rs,
     rexmitTimer := xt, persistTimer := pt, persist_factor := pf, snd_cwnd := cw, recover := rc\<rparr>) \<and>
     xt \<noteq> NoTimer \<and> (pt = NoTimer \<longleftrightarrow> persistTimer c = NoTimer)"
proof (cases "tcpAlgorithm c = Some DumbTCP")
  case True
  then have n: "algReceivedDataAck fs c = Inr c" using c(1) by (simp add: algReceivedDataAck_def withAlg_def dumbSend_def connSendData_drained)
  show ?thesis
    by (rule exI [of _ "srtt c"], rule exI [of _ "rttvar c"], rule exI [of _ "rexmit_timeout c"], rule exI [of _ "rtseq_sendtime c"],
        rule exI [of _ "rexmitTimer c"], rule exI [of _ "persistTimer c"], rule exI [of _ "persist_factor c"],
        rule exI [of _ "snd_cwnd c"], rule exI [of _ "recover c"]) (use n c(3) in \<open>simp add: algTimersOk_def\<close>)
next
  case False
  then have t: "rexmitTimer c \<noteq> NoTimer" "persistTimer c \<noteq> NoTimer" "tcpAlgorithm c \<noteq> None" using c(3) by (simp_all add: algTimersOk_def)
  obtain sr rv rt rs xt pt pf where b: "baseReceivedDataAck fs c = Inr (c\<lparr>srtt := sr, rttvar := rv, rexmit_timeout := rt, rtseq_sendtime := rs,
     rexmitTimer := xt, persistTimer := pt, persist_factor := pf\<rparr>)" "xt \<noteq> NoTimer" "pt \<noteq> NoTimer"
    using baseDataAck_idle [OF c(2) t(1,2)] by blast
  let ?d = "c\<lparr>srtt := sr, rttvar := rv, rexmit_timeout := rt, rtseq_sendtime := rs, rexmitTimer := xt, persistTimer := pt, persist_factor := pf\<rparr>"
  have d: "drained ?d" "\<not> sack_enabled ?d" "\<not> lossRecovery ?d" using c by (simp_all add: drained_def)
  have "snd_cwnd ?d \<noteq> 0" using c(5) by simp
  from growCwnd_returns [OF this] obtain w where g: "growCwnd ?d = Inr (?d\<lparr>snd_cwnd := w\<rparr>)" by blast
  have "\<exists>cw rc. algReceivedDataAck fs c = Inr (?d\<lparr>snd_cwnd := cw, recover := rc\<rparr>)"
  proof -
    obtain fl where fl: "tcpAlgorithm c = Some fl" using t(3) by blast
    have r1: "noCCReceivedDataAck fs c = Inr ?d" using d(1) by (simp only: noCCReceivedDataAck_def b(1) bindR_Inr trySend_drained)
    have r2: "tahoeReceivedDataAck fs c = Inr (?d\<lparr>snd_cwnd := w\<rparr>)"
      using d(1) by (simp only: tahoeReceivedDataAck_def b(1) bindR_Inr g trySend_drained drained_simps)
    have r3: "newRenoReceivedDataAck fs c = Inr (?d\<lparr>snd_cwnd := w, recover := snd_una c - 2\<rparr>)"
    proof -
      have u: "snd_una (?d\<lparr>snd_cwnd := w\<rparr>) = snd_una c" by simp
      show ?thesis using d(1) unfolding newRenoReceivedDataAck_def b(1) bindR_Inr g
        by (simp only: if_not_P [OF d(3)] bindR_Inr u trySend_drained drained_simps)
    qed
    have r4: "renoReceivedDataAck fs c \<in> {Inr (?d\<lparr>snd_cwnd := w\<rparr>), Inr (?d\<lparr>snd_cwnd := ssthresh c\<rparr>)}"
    proof (cases "dupacks ?d \<ge> DUPTHRESH")
      case True
      have n: "\<not> (sack_enabled (?d\<lparr>snd_cwnd := ssthresh ?d\<rparr>) \<and> lossRecovery (?d\<lparr>snd_cwnd := ssthresh ?d\<rparr>))" using d(2) by simp
      have "renoReceivedDataAck fs c = Inr (?d\<lparr>snd_cwnd := ssthresh ?d\<rparr>)" using d(1) unfolding renoReceivedDataAck_def b(1) bindR_Inr if_P [OF True]
        by (simp only: if_not_P [OF n] bindR_Inr trySend_drained drained_simps)
      then show ?thesis by simp
    next
      case False
      have n: "\<not> (sack_enabled (?d\<lparr>snd_cwnd := w\<rparr>) \<and> lossRecovery (?d\<lparr>snd_cwnd := w\<rparr>))" using d(2) by simp
      have "renoReceivedDataAck fs c = Inr (?d\<lparr>snd_cwnd := w\<rparr>)" using d(1) unfolding renoReceivedDataAck_def b(1) bindR_Inr if_not_P [OF False] g
        by (simp only: if_not_P [OF n] bindR_Inr trySend_drained drained_simps)
      then show ?thesis by simp
    qed
    have e: "?d = ?d\<lparr>snd_cwnd := snd_cwnd c, recover := recover c\<rparr>" by simp
    have r2': "tahoeReceivedDataAck fs c = Inr (?d\<lparr>snd_cwnd := w, recover := recover c\<rparr>)" unfolding r2 by simp
    have f: "Inr (?d\<lparr>snd_cwnd := x\<rparr>) = (Inr (?d\<lparr>snd_cwnd := x, recover := recover c\<rparr>) :: tcp_conn res)" for x by simp
    have r4': "\<exists>x. renoReceivedDataAck fs c = Inr (?d\<lparr>snd_cwnd := x, recover := recover c\<rparr>)"
      using r4 by (elim insertE emptyE) (rule exI, erule trans, rule f)+
    show ?thesis
    proof (cases fl)
      case DumbTCP
      then show ?thesis using fl False by simp
    next
      case TCPNoCongestionControl
      have "algReceivedDataAck fs c = Inr ?d" unfolding algReceivedDataAck_def withAlg_def fl TCPNoCongestionControl option.case flavour.case by (rule r1)
      then show ?thesis by (subst (asm) e) blast
    next
      case TCPTahoe
      then show ?thesis unfolding algReceivedDataAck_def withAlg_def fl TCPTahoe option.case flavour.case using r2' by blast
    next
      case TCPReno
      then show ?thesis unfolding algReceivedDataAck_def withAlg_def fl TCPReno option.case flavour.case using r4' by blast
    next
      case TCPNewReno
      then show ?thesis unfolding algReceivedDataAck_def withAlg_def fl TCPNewReno option.case flavour.case r3 by blast
    qed
  qed
  then obtain cw rc where n: "algReceivedDataAck fs c = Inr (?d\<lparr>snd_cwnd := cw, recover := rc\<rparr>)" by blast
  show ?thesis
    by (rule exI [of _ sr], rule exI [of _ rv], rule exI [of _ rt], rule exI [of _ rs], rule exI [of _ xt], rule exI [of _ pt], rule exI [of _ pf], rule exI [of _ cw], rule exI [of _ rc]) (use n b(2,3) t(2) in simp)
qed

section \<open>Segments of the release\<close>

lemma settled_arrival:
  assumes c: "settled st cl s una r c" and st: "st \<noteq> TCP_S_SYN_RCVD" and seg: "closeSegment f r a x seg"
  shows "\<exists>k. processSegment1stThru8th seg c = processAckAndBody seg una TCP_E_IGNORE (c\<lparr>snd_mss := k\<rparr>)"
proof -
  have h: "fsm c = st" "\<not> ts_enabled c" "rcv_nxt c = r" "rcv_wnd c \<le> TCP_MAX_WIN" "snd_una c = una"
    using c by (simp_all add: settled_def plainConn_def)
  have g: "payloadLength seg = 0" "\<not> rstBit seg" "\<not> synBit seg" "ackBit seg" "sequenceNo seg = r" "mssOptions seg"
    using seg by (simp_all add: closeSegment_def)
  obtain k where k: "readOptions seg c = Inr (c\<lparr>snd_mss := k\<rparr>)" using mssOnly_read [OF g(6)] by blast
  have "seqLE (rcv_nxt c) (rcv_nxt c + rcv_wnd c)" using h(4) by (simp add: seqLE_off off_def word_le_nat_alt)
  then have acc: "isSegmentAcceptable seg (c\<lparr>snd_mss := k\<rparr>)" using g h by (simp add: isSegmentAcceptable_def Let_def)
  have "processSegment1stThru8th seg c = processAckAndBody seg una TCP_E_IGNORE (c\<lparr>snd_mss := k\<rparr>)"
    using h g acc k st by (simp add: processSegment1stThru8th_def readOptions_def pawsRejects_def)
  then show ?thesis by blast
qed

lemma settled_now [simp]: "settled st cl s una r (c\<lparr>now := t\<rparr>) = settled st cl s una r c"
  by (simp add: settled_def plainConn_def algTimersOk_def)

text \<open>An ACK of everything that is outstanding.\<close>

lemma all_acked:
  assumes c: "plainConn c" "algTimersOk c" "\<not> afterRto c" "\<not> lossRecovery c" "snd_cwnd c \<noteq> 0" "snd_nxt c = snd_max c" "fsm c \<noteq> TCP_S_SYN_RCVD"
    and seg: "payloadLength seg = 0" "ackNo seg = snd_max c" "seqLess (snd_una c) (snd_max c)"
    and q: "discardAcked seg (c\<lparr>snd_una := snd_max c\<rparr>) = Inr (c\<lparr>snd_una := snd_max c, fin_ack_rcvd := b, sendQ := q\<rparr>)"
      "getBytesAvailable q (snd_max c) = 0"
  shows "\<exists>e. processAckInEstabEtc seg c = Inr (True, e) \<and> fsm e = fsm c \<and> plainConn e \<and> algTimersOk e \<and> \<not> afterRto e \<and> \<not> lossRecovery e \<and>
     finWait2Timer e = finWait2Timer c \<and> the2MSLTimer e = the2MSLTimer c \<and> sendQ e = q \<and> send_fin e = send_fin c \<and> snd_fin_seq e = snd_fin_seq c \<and>
     snd_una e = snd_max c \<and> snd_nxt e = snd_max c \<and> snd_max e = snd_max c \<and> rcv_nxt e = rcv_nxt c \<and> rcv_wnd e = rcv_wnd c \<and> actions e = actions c \<and>
     fin_ack_rcvd e = b \<and> sockPairOf e = sockPairOf c"
proof -
  have ts: "\<not> ts_enabled c" "\<not> sack_enabled c" using c(1) by (simp_all add: plainConn_def)
  let ?d = "updateWndInfo seg False (c\<lparr>snd_una := snd_max c, fin_ack_rcvd := b, sendQ := q\<rparr>)"
  have d: "drained ?d" "snd_una ?d = snd_max ?d" "algTimersOk ?d" "\<not> lossRecovery ?d" "snd_cwnd ?d \<noteq> 0"
    using c q(2) ts by (simp_all add: drained_def updateWndInfo_def Let_def algTimersOk_def)
  obtain sr rv rt rs xt pt pf cw rc where a: "algReceivedDataAck (snd_una c) ?d = Inr (?d\<lparr>srtt := sr, rttvar := rv, rexmit_timeout := rt, rtseq_sendtime := rs,
     rexmitTimer := xt, persistTimer := pt, persist_factor := pf, snd_cwnd := cw, recover := rc\<rparr>)"
     "xt \<noteq> NoTimer" "pt = NoTimer \<longleftrightarrow> persistTimer ?d = NoTimer" using dataAck_idle [OF d, of "snd_una c"] by blast
  let ?e = "?d\<lparr>srtt := sr, rttvar := rv, rexmit_timeout := rt, rtseq_sendtime := rs,
     rexmitTimer := xt, persistTimer := pt, persist_factor := pf, snd_cwnd := cw, recover := rc, dupacks := 0\<rparr>"
  have ge: "\<not> seqGE (snd_una c) (snd_max c)" using seg(3) by (metis seqGE_seqLE seqLE_antisym seqLess_iff)
  have same: "c\<lparr>snd_una := snd_max c, snd_nxt := if seqLess (snd_nxt c) (snd_max c) then snd_max c else snd_nxt c\<rparr> = c\<lparr>snd_una := snd_max c\<rparr>"
    using c(6) by simp
  have "acceptAck seg c = Inr ?e"
    unfolding acceptAck_def Let_def seg(2) same using ts c(7) seg(1) q(1) a(1) by simp
  then have p: "processAckInEstabEtc seg c = Inr (True, ?e)"
    using seg ge by (simp add: processAckInEstabEtc_def)
  have "algTimersOk ?e" using a(2,3) d(3) by (simp add: algTimersOk_def)
  moreover have "plainConn ?e = plainConn c" "lossRecovery ?e = lossRecovery c" "finWait2Timer ?e = finWait2Timer c" "the2MSLTimer ?e = the2MSLTimer c"
     "snd_fin_seq ?e = snd_fin_seq c" "actions ?e = actions c" "sockPairOf ?e = sockPairOf c" "fin_ack_rcvd ?e = b"
    by (simp_all add: updateWndInfo_def Let_def plainConn_def sockPairOf_def)
  ultimately show ?thesis using p c by (intro exI [of _ ?e]) simp
qed

text \<open>The ACK of the FIN.\<close>

lemma fin_acked:
  assumes c: "settled st True s s r c" and st: "st \<in> {TCP_S_FIN_WAIT_1, TCP_S_LAST_ACK}" and seg: "closeSegment False r (s + 1) x seg"
  shows "\<exists>e. processAckInEstabEtc seg (c\<lparr>snd_mss := k\<rparr>) = Inr (True, e) \<and> settled st True s (s + 1) r e \<and> fin_ack_rcvd e \<and>
     sockPairOf e = sockPairOf c"
proof -
  let ?c = "c\<lparr>snd_mss := k\<rparr>"
  have h: "plainConn ?c" "algTimersOk ?c" "\<not> afterRto ?c" "\<not> lossRecovery ?c" "snd_cwnd ?c \<noteq> 0" "snd_nxt ?c = snd_max ?c" "fsm ?c \<noteq> TCP_S_SYN_RCVD"
     "sendQ c = \<lparr>sq_begin = s, sq_end = s\<rparr>" "send_fin c" "snd_fin_seq c = s" "snd_una c = s" "snd_max c = s + 1" "\<not> sack_enabled c"
    using c st by (auto simp: settled_def plainConn_def)
  have g: "payloadLength seg = 0" "ackNo seg = snd_max ?c" "seqLess (snd_una ?c) (snd_max ?c)"
    using seg h by (simp_all add: closeSegment_def seqLess_succ)
  have q: "discardAcked seg (?c\<lparr>snd_una := snd_max ?c\<rparr>) = Inr (?c\<lparr>snd_una := snd_max ?c, fin_ack_rcvd := True, sendQ := \<lparr>sq_begin = s, sq_end = s\<rparr>\<rparr>)"
    using h g by (simp add: discardAcked_def sq_discardUpTo_def Let_def)
  have "\<not> seqLess (s + 1) s" by (simp add: seqLess_def)
  then have "getBytesAvailable \<lparr>sq_begin = s, sq_end = s\<rparr> (snd_max ?c) = 0"
    using h by (simp add: getBytesAvailable_def bytesAvailable_def getBufferEndSeq_def)
  from all_acked [OF h(1-7) g q this] obtain e where e: "processAckInEstabEtc seg ?c = Inr (True, e)" "fsm e = fsm c" "plainConn e" "algTimersOk e" "\<not> afterRto e"
     "\<not> lossRecovery e" "finWait2Timer e = finWait2Timer c" "the2MSLTimer e = the2MSLTimer c" "sendQ e = \<lparr>sq_begin = s, sq_end = s\<rparr>" "send_fin e = send_fin c"
     "snd_fin_seq e = snd_fin_seq c" "snd_una e = s + 1" "snd_nxt e = s + 1" "snd_max e = s + 1" "rcv_nxt e = rcv_nxt c" "rcv_wnd e = rcv_wnd c"
     "actions e = actions c" "fin_ack_rcvd e" "sockPairOf e = sockPairOf c" using h(12) by (auto simp: sockPairOf_def)
  then have "settled st True s (s + 1) r e" using c by (simp add: settled_def)
  then show ?thesis using e(1,18,19) by blast
qed

lemma ack_in_fin_wait_1:
  assumes c: "settled TCP_S_FIN_WAIT_1 True s s r c" and seg: "closeSegment False r (s + 1) x seg"
  shows "\<exists>c1 d. processSegment1stThru8th seg c = Inr (TCP_E_RCV_ACK, c1) \<and> performStateTransition TCP_E_RCV_ACK c1 = Inr (True, d) \<and>
     settled TCP_S_FIN_WAIT_2 True s (s + 1) r d \<and> sockPairOf d = sockPairOf c"
proof -
  obtain k where k: "processSegment1stThru8th seg c = processAckAndBody seg s TCP_E_IGNORE (c\<lparr>snd_mss := k\<rparr>)"
    using settled_arrival [OF c _ seg] by auto
  obtain e where e: "processAckInEstabEtc seg (c\<lparr>snd_mss := k\<rparr>) = Inr (True, e)" "settled TCP_S_FIN_WAIT_1 True s (s + 1) r e" "fin_ack_rcvd e"
     "sockPairOf e = sockPairOf c" using fin_acked [OF c _ seg, of k] by auto
  have f: "fsm e = TCP_S_FIN_WAIT_1" "fsm c = TCP_S_FIN_WAIT_1" using e(2) c by (simp_all add: settled_def)
  have g: "payloadLength seg = 0" "\<not> finBit seg" using seg by (simp_all add: closeSegment_def)
  have "processBody u v seg TCP_E_RCV_ACK e = Inr (TCP_E_RCV_ACK, e)" for u v
    using g f by (simp add: processBody_def processText_def processFin_def acknowledge_def deferredClose_def Let_def)
  then have p: "processSegment1stThru8th seg c = Inr (TCP_E_RCV_ACK, e)"
    unfolding k using f e by (simp add: processAckAndBody_def ackState_def closingStates_def Let_def)
  let ?d = "e\<lparr>fsm := TCP_S_FIN_WAIT_2, connEstabTimer := cancelIfPresent (connEstabTimer e), synRexmitTimer := cancelIfPresent (synRexmitTimer e)\<rparr>"
  have "performStateTransition TCP_E_RCV_ACK e = Inr (True, ?d)"
    using f by (simp add: performStateTransition_def fsmNext_def stateEntered_def Let_def)
  moreover have "settled TCP_S_FIN_WAIT_2 True s (s + 1) r ?d" "sockPairOf ?d = sockPairOf c" using e(2,4) by (simp_all add: settled_def sockPairOf_def)
  ultimately show ?thesis using p by blast
qed

lemma closed_transition:
  assumes "algTimersOk c" "fsm c = st" "fsmNext (active c) st ev = TCP_S_CLOSED" "st \<noteq> TCP_S_CLOSED" "ev \<noteq> TCP_E_IGNORE" "ev \<noteq> TCP_E_ABORT"
  shows "\<exists>d. performStateTransition ev c = Inr (False, d) \<and> sockPairOf d = sockPairOf c \<and>
     actions d = actions c @ (if st = TCP_S_TIME_WAIT then [] else [Indicate TCP_I_CLOSED 0])"
proof -
  let ?c = "c\<lparr>fsm := TCP_S_CLOSED\<rparr>"
  let ?f = "\<lambda>a. ?c\<lparr>actions := a, the2MSLTimer := cancelIfPresent (the2MSLTimer c), connEstabTimer := cancelIfPresent (connEstabTimer c),
     finWait2Timer := cancelIfPresent (finWait2Timer c), synRexmitTimer := cancelIfPresent (synRexmitTimer c)\<rparr>"
  let ?a = "actions c @ (if st = TCP_S_TIME_WAIT then [] else [Indicate TCP_I_CLOSED 0])"
  have closed: "\<exists>d. algConnectionClosed g = Inr d \<and> sockPairOf d = sockPairOf g \<and> actions d = actions g \<and> fsm d = fsm g" if "algTimersOk g" for g
  proof (cases "tcpAlgorithm g = Some DumbTCP")
    case True
    then show ?thesis using that by (simp add: algConnectionClosed_def algTimersOk_def cancelEvent_def sockPairOf_def)
  next
    case False
    then show ?thesis using that
      by (cases "tcpAlgorithm g") (auto simp: algConnectionClosed_def algTimersOk_def cancelEvent_def sockPairOf_def split: flavour.split)
  qed
  have s: "stateEntered TCP_S_CLOSED st ev ?c = algConnectionClosed (?f ?a)"
    using assms(6) by (cases "st = TCP_S_TIME_WAIT") (simp_all add: stateEntered_def sendIndicationToApp_def emit_def Let_def)
  have "algTimersOk (?f ?a)" using assms(1) by simp
  from closed [OF this] obtain d where "algConnectionClosed (?f ?a) = Inr d" "sockPairOf d = sockPairOf c" "actions d = ?a" "fsm d = TCP_S_CLOSED"
    by (auto simp: sockPairOf_def)
  then show ?thesis using assms(2-5) s by (simp add: performStateTransition_def Let_def)
qed

lemma ack_in_last_ack:
  assumes c: "settled TCP_S_LAST_ACK True s s r c" and seg: "closeSegment False r (s + 1) x seg"
  shows "\<exists>c1 d. processSegment1stThru8th seg c = Inr (TCP_E_RCV_ACK, c1) \<and> performStateTransition TCP_E_RCV_ACK c1 = Inr (False, d) \<and>
     actions d = [Indicate TCP_I_CLOSED 0] \<and> sockPairOf d = sockPairOf c"
proof -
  obtain k where k: "processSegment1stThru8th seg c = processAckAndBody seg s TCP_E_IGNORE (c\<lparr>snd_mss := k\<rparr>)"
    using settled_arrival [OF c _ seg] by auto
  obtain e where e: "processAckInEstabEtc seg (c\<lparr>snd_mss := k\<rparr>) = Inr (True, e)" "settled TCP_S_LAST_ACK True s (s + 1) r e"
     "sockPairOf e = sockPairOf c" using fin_acked [OF c _ seg, of k] by auto
  have f: "fsm e = TCP_S_LAST_ACK" "fsm c = TCP_S_LAST_ACK" "send_fin e" "snd_fin_seq e = s" "algTimersOk e" "actions e = []" using e(2) c by (simp_all add: settled_def)
  have "processSegment1stThru8th seg c = Inr (TCP_E_RCV_ACK, e)"
    unfolding k using f e(1) seg by (simp add: processAckAndBody_def ackState_def closingStates_def closeSegment_def Let_def)
  moreover obtain d where "performStateTransition TCP_E_RCV_ACK e = Inr (False, d)" "sockPairOf d = sockPairOf e" "actions d = [Indicate TCP_I_CLOSED 0]"
    using closed_transition [OF f(5,1), of TCP_E_RCV_ACK] f(6) by (auto simp: fsmNext_def)
  ultimately show ?thesis using e(3) by auto
qed

text \<open>A FIN at \<open>rcv_nxt\<close> is acknowledged at once.\<close>

lemma seqChanged_now: "ack_now c \<Longrightarrow> tcpAlgorithm c \<noteq> None \<Longrightarrow> algReceiveSeqChanged c = sendAck c"
proof -
  assume a: "ack_now c" "tcpAlgorithm c \<noteq> None"
  have same: "c\<lparr>ack_now := True\<rparr> = c" using a(1) by simp
  have "sendAck (c\<lparr>ack_now := True\<rparr>) = sendAck c" by (simp only: same)
  then have "baseReceiveSeqChanged c = sendAck c" using a(1) by (simp add: baseReceiveSeqChanged_def Let_def)
  then show ?thesis using a(2) by (auto simp: algReceiveSeqChanged_def withAlg_def split: flavour.split)
qed

lemma fin_processed:
  assumes c: "plainConn d" "tcpAlgorithm d \<noteq> None" "ack_now d" "rcv_nxt d = rcv_nxt c + 1"
    and seg: "payloadLength seg = 0" "finBit seg" "sequenceNo seg = rcv_nxt c"
    and fin: "finReached (c\<lparr>ack_now := True, rcv_nxt := rcv_nxt c + 1\<rparr>) = Inr (TCP_E_RCV_FIN, d)"
  shows "\<exists>ack f u a w. let e = ackSent (emit (ToIP ack (localAddr d) (remoteAddr d)) ((windowed f u a w d)\<lparr>sentBytes := 0\<rparr>)) in
     processBody old v seg ev c = Inr (if deferredClose v e then TCP_E_CLOSE else TCP_E_RCV_FIN, e) \<and> w \<le> TCP_MAX_WIN \<and>
     closeSegment False (snd_nxt d) (rcv_nxt c + 1) d ack"
proof -
  obtain ack f u a w where s: "sendAck d = Inr (ackSent (emit (ToIP ack (localAddr d) (remoteAddr d)) ((windowed f u a w d)\<lparr>sentBytes := 0\<rparr>)))"
     "w \<le> TCP_MAX_WIN" "handshakeSegment False True (snd_nxt d) (rcv_nxt d) d ack" using sendAck_plain [OF c(1)] by blast
  have "\<not> sack_enabled d" using c(1) by (simp add: plainConn_def)
  then have ak: "acknowledge (rcv_nxt c) seg d = sendAck d"
    using c(3,4) seqChanged_now [OF c(3,2)] by (simp add: acknowledge_def)
  have tx: "processText old seg ev c = Inr (seg, Some ev, c)" using seg(1) by (simp add: processText_def)
  have "processFin seg ev c = Inr (TCP_E_RCV_FIN, d)" using seg fin by (simp add: processFin_def segmentEnd_def Let_def)
  then have "processBody old v seg ev c = bindR (sendAck d) (\<lambda>c3. Inr (if deferredClose v c3 then TCP_E_CLOSE else TCP_E_RCV_FIN, c3))"
    by (simp add: processBody_def tx ak Let_def)
  then show ?thesis using s handshake_closeSegment [OF s(3)] c(4)
    by (intro exI [of _ ack] exI [of _ f] exI [of _ u] exI [of _ a] exI [of _ w]) (simp add: Let_def)
qed

lemma old_ack_settled:
  assumes "settled st cl s una r c" "una = snd_nxt c" "closeSegment f r una x seg" "ackState st" "st \<notin> {TCP_S_FIN_WAIT_1, TCP_S_CLOSING, TCP_S_LAST_ACK, TCP_S_TIME_WAIT}"
  shows "processAckAndBody seg una TCP_E_IGNORE (c\<lparr>snd_mss := k\<rparr>) = processBody una una seg TCP_E_IGNORE (c\<lparr>snd_mss := k, dupacks := 0\<rparr>)"
proof -
  have h: "fsm c = st" "snd_una c = una" "snd_max c = una" "snd_nxt c = una" using assms(1,2) by (simp_all add: settled_def)
  have g: "ackNo seg = una" using assms(3) by (simp add: closeSegment_def)
  have "seqGE una una" by (simp add: seqGE_seqLE)
  then have a: "processAckInEstabEtc seg (c\<lparr>snd_mss := k\<rparr>) = Inr (True, c\<lparr>snd_mss := k, dupacks := 0\<rparr>)"
    using h g by (simp add: processAckInEstabEtc_def duplicateAck_def)
  show ?thesis using h assms(4,5) by (simp add: processAckAndBody_def a closingStates_def Let_def)
qed

lemma fin_in_established:
  assumes c: "settled TCP_S_ESTABLISHED False s s r c" and seg: "closeSegment True r s x seg"
  shows "\<exists>c1 d ack. processSegment1stThru8th seg c = Inr (TCP_E_RCV_FIN, c1) \<and> performStateTransition TCP_E_RCV_FIN c1 = Inr (True, d) \<and>
     actions d = [ToIP ack (localAddr c) (remoteAddr c), Indicate TCP_I_PEER_CLOSED 0] \<and> closeSegment False s (r + 1) c ack \<and>
     settled TCP_S_CLOSE_WAIT False s s (r + 1) (d\<lparr>actions := []\<rparr>) \<and> sockPairOf d = sockPairOf c"
proof -
  obtain k where k: "processSegment1stThru8th seg c = processAckAndBody seg s TCP_E_IGNORE (c\<lparr>snd_mss := k\<rparr>)"
    using settled_arrival [OF c _ seg] by auto
  have h: "fsm c = TCP_S_ESTABLISHED" "plainConn c" "algTimersOk c" "rcv_nxt c = r" "snd_nxt c = s" "\<not> send_fin c" "actions c = []"
    using c by (simp_all add: settled_def)
  let ?c = "c\<lparr>snd_mss := k, dupacks := 0\<rparr>"
  let ?d = "?c\<lparr>ack_now := True, rcv_nxt := rcv_nxt ?c + 1\<rparr>"
  have d: "plainConn ?d" "tcpAlgorithm ?d \<noteq> None" "ack_now ?d" "rcv_nxt ?d = rcv_nxt ?c + 1" using h by (simp_all add: algTimersOk_def)
  have g: "payloadLength seg = 0" "finBit seg" "sequenceNo seg = rcv_nxt ?c" using seg h by (simp_all add: closeSegment_def)
  have fin: "finReached ?d = Inr (TCP_E_RCV_FIN, ?d)" using h(1) by (simp add: finReached_def)
  obtain ack f u a w where e: "processBody s s seg TCP_E_IGNORE ?c = Inr (if deferredClose s
       (ackSent (emit (ToIP ack (localAddr ?d) (remoteAddr ?d)) ((windowed f u a w ?d)\<lparr>sentBytes := 0\<rparr>))) then TCP_E_CLOSE else TCP_E_RCV_FIN,
       ackSent (emit (ToIP ack (localAddr ?d) (remoteAddr ?d)) ((windowed f u a w ?d)\<lparr>sentBytes := 0\<rparr>)))" "w \<le> TCP_MAX_WIN"
     "closeSegment False (snd_nxt ?d) (rcv_nxt ?c + 1) ?d ack" using fin_processed [OF d g fin, of s s TCP_E_IGNORE] unfolding Let_def by blast
  let ?e = "ackSent (emit (ToIP ack (localAddr ?d) (remoteAddr ?d)) ((windowed f u a w ?d)\<lparr>sentBytes := 0\<rparr>))"
  have "\<not> deferredClose s ?e" using h by (simp add: deferredClose_def windowed_def emit_def)
  then have p: "processSegment1stThru8th seg c = Inr (TCP_E_RCV_FIN, ?e)"
    unfolding k using e(1) old_ack_settled [OF c _ seg, of k] h by (simp add: ackState_def)
  let ?g = "?e\<lparr>fsm := TCP_S_CLOSE_WAIT, actions := actions ?e @ [Indicate TCP_I_PEER_CLOSED 0],
     connEstabTimer := cancelIfPresent (connEstabTimer ?e), synRexmitTimer := cancelIfPresent (synRexmitTimer ?e)\<rparr>"
  have fs: "fsm ?e = TCP_S_ESTABLISHED" using h by (simp add: windowed_def emit_def)
  have "performStateTransition TCP_E_RCV_FIN y = Inr (True, y\<lparr>fsm := TCP_S_CLOSE_WAIT, actions := actions y @ [Indicate TCP_I_PEER_CLOSED 0],
     connEstabTimer := cancelIfPresent (connEstabTimer y), synRexmitTimer := cancelIfPresent (synRexmitTimer y)\<rparr>)"
     if "fsm y = TCP_S_ESTABLISHED" for y
    using that by (simp add: performStateTransition_def fsmNext_def stateEntered_def sendIndicationToApp_def emit_def Let_def)
  from this [OF fs] have tr: "performStateTransition TCP_E_RCV_FIN ?e = Inr (True, ?g)" .
  have "algTimersOk (?g\<lparr>actions := []\<rparr>)" "plainConn (?g\<lparr>actions := []\<rparr>)" using h(2,3) d(1) by simp_all
  then have "settled TCP_S_CLOSE_WAIT False s s (r + 1) (?g\<lparr>actions := []\<rparr>)"
    using c e(2) by (simp add: settled_def) (simp add: windowed_def emit_def)
  moreover have "actions ?g = [ToIP ack (localAddr c) (remoteAddr c), Indicate TCP_I_PEER_CLOSED 0]" "sockPairOf ?g = sockPairOf c"
    using h by (simp_all add: windowed_def emit_def sockPairOf_def)
  moreover have "closeSegment False s (r + 1) c ack" using e(3) h by (simp add: closeSegment_def)
  ultimately show ?thesis using p tr by blast
qed

lemma fin_in_fin_wait_2:
  assumes c: "settled TCP_S_FIN_WAIT_2 True s (s + 1) r c" and seg: "closeSegment True r (s + 1) x seg"
  shows "\<exists>c1 d ack y. processSegment1stThru8th seg c = Inr (TCP_E_RCV_FIN, c1) \<and> performStateTransition TCP_E_RCV_FIN c1 = Inr (True, d) \<and>
     actions d = [ToIP ack (localAddr c) (remoteAddr c), Indicate TCP_I_CLOSED 0] \<and> closeSegment False (s + 1) (r + 1) c ack \<and>
     fsm d = TCP_S_TIME_WAIT \<and> the2MSLTimer d = ScheduledAt (now c + TCP_TIMEOUT_2MSL) \<and> algTimersOk d \<and> sockPairOf d = sockPairOf c"
proof -
  obtain k where k: "processSegment1stThru8th seg c = processAckAndBody seg (s + 1) TCP_E_IGNORE (c\<lparr>snd_mss := k\<rparr>)"
    using settled_arrival [OF c _ seg] by auto
  have h: "fsm c = TCP_S_FIN_WAIT_2" "plainConn c" "algTimersOk c" "rcv_nxt c = r" "snd_nxt c = s + 1" "actions c = []" "the2MSLTimer c = IdleTimer"
     "finWait2Timer c \<noteq> NoTimer" using c by (simp_all add: settled_def)
  let ?c = "c\<lparr>snd_mss := k, dupacks := 0\<rparr>"
  let ?d = "?c\<lparr>ack_now := True, rcv_nxt := rcv_nxt ?c + 1, finWait2Timer := IdleTimer, the2MSLTimer := ScheduledAt (now c + TCP_TIMEOUT_2MSL)\<rparr>"
  have "plainConn ?d = plainConn c" by (simp add: plainConn_def)
  then have d: "plainConn ?d" "tcpAlgorithm ?d \<noteq> None" "ack_now ?d" "rcv_nxt ?d = rcv_nxt ?c + 1" using h by (simp_all add: algTimersOk_def)
  have g: "payloadLength seg = 0" "finBit seg" "sequenceNo seg = rcv_nxt ?c" using seg h by (simp_all add: closeSegment_def)
  have fin: "finReached (?c\<lparr>ack_now := True, rcv_nxt := rcv_nxt ?c + 1\<rparr>) = Inr (TCP_E_RCV_FIN, ?d)"
    using h by (simp add: finReached_def cancelEvent_def schedule2MSL_def scheduleTimeout_def scheduleAt_def)
  obtain ack f u a w where e: "processBody (s + 1) (s + 1) seg TCP_E_IGNORE ?c = Inr (if deferredClose (s + 1)
       (ackSent (emit (ToIP ack (localAddr ?d) (remoteAddr ?d)) ((windowed f u a w ?d)\<lparr>sentBytes := 0\<rparr>))) then TCP_E_CLOSE else TCP_E_RCV_FIN,
       ackSent (emit (ToIP ack (localAddr ?d) (remoteAddr ?d)) ((windowed f u a w ?d)\<lparr>sentBytes := 0\<rparr>)))" "w \<le> TCP_MAX_WIN"
     "closeSegment False (snd_nxt ?d) (rcv_nxt ?c + 1) ?d ack" using fin_processed [OF d g fin, of "s + 1" "s + 1" TCP_E_IGNORE] unfolding Let_def by blast
  let ?e = "ackSent (emit (ToIP ack (localAddr ?d) (remoteAddr ?d)) ((windowed f u a w ?d)\<lparr>sentBytes := 0\<rparr>))"
  have "\<not> deferredClose (s + 1) ?e" using h by (simp add: deferredClose_def windowed_def emit_def)
  then have p: "processSegment1stThru8th seg c = Inr (TCP_E_RCV_FIN, ?e)"
    unfolding k using e(1) old_ack_settled [OF c _ seg, of k] h by (simp add: ackState_def)
  have "performStateTransition TCP_E_RCV_FIN y = Inr (True, y\<lparr>fsm := TCP_S_TIME_WAIT, actions := actions y @ [Indicate TCP_I_CLOSED 0]\<rparr>)"
     if "fsm y = TCP_S_FIN_WAIT_2" for y
    using that by (simp add: performStateTransition_def fsmNext_def stateEntered_def sendIndicationToApp_def emit_def Let_def)
  moreover have "fsm ?e = TCP_S_FIN_WAIT_2" using h by (simp add: windowed_def emit_def)
  ultimately have tr: "performStateTransition TCP_E_RCV_FIN ?e = Inr (True, ?e\<lparr>fsm := TCP_S_TIME_WAIT, actions := actions ?e @ [Indicate TCP_I_CLOSED 0]\<rparr>)" .
  let ?g = "?e\<lparr>fsm := TCP_S_TIME_WAIT, actions := actions ?e @ [Indicate TCP_I_CLOSED 0]\<rparr>"
  have "algTimersOk ?g" using h(3) by simp
  moreover have "actions ?g = [ToIP ack (localAddr c) (remoteAddr c), Indicate TCP_I_CLOSED 0]" "sockPairOf ?g = sockPairOf c"
     "fsm ?g = TCP_S_TIME_WAIT" "the2MSLTimer ?g = ScheduledAt (now c + TCP_TIMEOUT_2MSL)" using h by (simp_all add: windowed_def emit_def sockPairOf_def)
  moreover have "closeSegment False (s + 1) (r + 1) c ack" using e(3) h by (simp add: closeSegment_def)
  ultimately show ?thesis using p tr by blast
qed

section \<open>Messages to the module\<close>

lemma close_command_step:
  assumes m: "isOperational m" "findConnForApp g i m = Some r" "conns m r = Some c"
    and c: "process_CLOSE TCP_E_CLOSE (c\<lparr>now := t\<rparr>) = Inr (e, c1)" "performStateTransition e c1 = Inr (ok, d)"
  shows "handleMessage env p t (FromApp g i Close) m = finishMessage r (ok, putConn r d (putConn r c1 (setNow t m)))"
proof -
  have cb: "conns (setNow t m) r = Some (c\<lparr>now := t\<rparr>)" using m(3) by simp
  have "processAppCommand Close r (setNow t m) = Inr (ok, putConn r d (putConn r c1 (setNow t m)))"
    using cb c by (simp add: processAppCommand_def runCommand_def transition_def onConn_def getConn_def)
  then show ?thesis using m by (simp add: handleMessage_def connForApp_def Let_def)
qed

text \<open>A connection registered in its module.\<close>

definition inModule :: "tcp_main \<Rightarrow> conn_ref \<Rightarrow> sock_pair \<Rightarrow> int \<times> int \<Rightarrow> tcp_conn \<Rightarrow> bool" where
  "inModule m r key app c \<longleftrightarrow> isOperational m \<and> tcpConnMap m key = Some r \<and> tcpAppConnMap m app = Some r \<and> conns m r = Some c \<and> sockPairOf c = key"

lemma registered_segment:
  assumes m: "inModule m r key app c" and key: "key = segmentKey seg src dest"
    and c: "fsm c \<noteq> TCP_S_LISTEN" "fsm c \<noteq> TCP_S_SYN_SENT"
      "processSegment1stThru8th seg (c\<lparr>now := t\<rparr>) = Inr (e, c1)" "performStateTransition e c1 = Inr (True, d)" "sockPairOf d = key"
  shows "\<exists>m'. handleMessage env p t (FromIP seg src dest) m = Inr m' \<and> outbox m' = outbox m @ actions d \<and> inModule m' r key app (d\<lparr>actions := []\<rparr>)"
proof -
  have "handleMessage env p t (FromIP seg src dest) m = finishMessage r (True, putConn r d (putConn r c1 (setNow t m)))"
    by (rule segment_step [OF _ _ _ _ c(1-4)]) (use m key in \<open>simp_all add: inModule_def\<close>)
  from finish_step [OF this] show ?thesis using m c(5) by (auto simp: inModule_def)
qed

lemma registered_close:
  assumes m: "inModule m r key (g, i) c"
    and c: "process_CLOSE TCP_E_CLOSE (c\<lparr>now := t\<rparr>) = Inr (e, c1)" "performStateTransition e c1 = Inr (True, d)" "sockPairOf d = key"
  shows "\<exists>m'. handleMessage env p t (FromApp g i Close) m = Inr m' \<and> outbox m' = outbox m @ actions d \<and> inModule m' r key (g, i) (d\<lparr>actions := []\<rparr>)"
proof -
  have "handleMessage env p t (FromApp g i Close) m = finishMessage r (True, putConn r d (putConn r c1 (setNow t m)))"
    by (rule close_command_step [OF _ _ _ c(1,2)]) (use m in \<open>simp_all add: inModule_def findConnForApp_def\<close>)
  from finish_step [OF this] show ?thesis using m c(3) by (auto simp: inModule_def)
qed

lemma closeSegment_key:
  assumes "closeSegment f s a c seg" "sockPairOf c = \<lparr>sp_localAddr = la, sp_remoteAddr = ra, sp_localPort = lp, sp_remotePort = rp\<rparr>"
    "0 \<le> lp" "lp < 65536" "0 \<le> rp" "rp < 65536"
  shows "segmentKey seg la ra = \<lparr>sp_localAddr = ra, sp_remoteAddr = la, sp_localPort = rp, sp_remotePort = lp\<rparr>"
proof -
  have "uint (of_int lp :: u16) = lp" "uint (of_int rp :: u16) = rp" using assms(3-6) by (simp_all add: uint_word_of_int)
  then show ?thesis using assms(1,2) by (simp add: closeSegment_def segmentKey_def segmentKeys_def Let_def sockPairOf_def)
qed

lemma time_wait_expires:
  assumes m: "inModule m r key app c" and c: "fsm c = TCP_S_TIME_WAIT" "algTimersOk c" "actions c = []"
  shows "\<exists>m'. handleMessage env p t (SelfMessage r T2MSL) m = Inr m' \<and> outbox m' = outbox m \<and> conns m' r = None \<and> tcpConnMap m' key = None"
proof -
  let ?c = "c\<lparr>now := t, the2MSLTimer := IdleTimer\<rparr>"
  have "algTimersOk ?c = algTimersOk c" by (simp add: algTimersOk_def)
  then obtain d where d: "performStateTransition TCP_E_TIMEOUT_2MSL ?c = Inr (False, d)" "sockPairOf d = sockPairOf ?c" "actions d = []"
    using closed_transition [of ?c TCP_S_TIME_WAIT TCP_E_TIMEOUT_2MSL] c by (auto simp: fsmNext_def)
  have "conns (setNow t m) r = Some (c\<lparr>now := t\<rparr>)" using m by (simp add: inModule_def)
  then have "processTimer T2MSL r (setNow t m) = Inr (False, putConn r d (putConn r ?c (setNow t m)))"
    using c(1) d(1) by (simp add: processTimer_def onConn_def getConn_def timerActions_def timerFired_def process_TIMEOUT_2MSL_def transition_def)
  then have "handleMessage env p t (SelfMessage r T2MSL) m = finishMessage r (False, putConn r d (putConn r ?c (setNow t m)))"
    using m by (simp add: handleMessage_def Let_def inModule_def)
  from finish_removes [OF this] show ?thesis using d m by (auto simp: inModule_def sockPairOf_def)
qed

lemma last_ack_removes:
  assumes m: "inModule m k key app c" and key: "key = segmentKey seg src dest"
    and c: "settled TCP_S_LAST_ACK True s s r c" and seg: "closeSegment False r (s + 1) x seg"
  shows "\<exists>m'. handleMessage env p t (FromIP seg src dest) m = Inr m' \<and> outbox m' = outbox m @ [Indicate TCP_I_CLOSED 0] \<and>
     conns m' k = None \<and> tcpConnMap m' key = None"
proof -
  have "settled TCP_S_LAST_ACK True s s r (c\<lparr>now := t\<rparr>)" using c by simp
  from ack_in_last_ack [OF this seg] obtain c1 d where d: "processSegment1stThru8th seg (c\<lparr>now := t\<rparr>) = Inr (TCP_E_RCV_ACK, c1)"
     "performStateTransition TCP_E_RCV_ACK c1 = Inr (False, d)" "actions d = [Indicate TCP_I_CLOSED 0]" "sockPairOf d = sockPairOf c" by auto
  have "handleMessage env p t (FromIP seg src dest) m = finishMessage k (False, putConn k d (putConn k c1 (setNow t m)))"
    by (rule segment_step [OF _ _ _ _ _ _ d(1,2)]) (use m key c in \<open>simp_all add: inModule_def settled_def\<close>)
  from finish_removes [OF this] show ?thesis using d m by (auto simp: inModule_def)
qed

text \<open>The four messages that keep the connection, in terms of the pair of addresses.\<close>

lemma closeSegment_pair: "sockPairOf c = sockPairOf d \<Longrightarrow> closeSegment f s a c seg \<Longrightarrow> closeSegment f s a d seg"
  by (simp add: closeSegment_def sockPairOf_def)

lemma sockPairOf_fields: "sockPairOf c = key \<Longrightarrow> localAddr c = sp_localAddr key \<and> remoteAddr c = sp_remoteAddr key"
  by (auto simp: sockPairOf_def)

lemma registered_pair: "inModule m k key app c \<Longrightarrow> sockPairOf c = key"
  by (simp add: inModule_def)

lemma close_message:
  assumes m: "inModule m k key (g, i) c" and c: "settled st False s s r c" "st \<in> {TCP_S_ESTABLISHED, TCP_S_CLOSE_WAIT}"
  shows "\<exists>m' d fin. handleMessage env p t (FromApp g i Close) m = Inr m' \<and>
     outbox m' = outbox m @ [ToIP fin (sp_localAddr key) (sp_remoteAddr key)] \<and> closeSegment True s r d fin \<and> inModule m' k key (g, i) d \<and>
     settled (if st = TCP_S_ESTABLISHED then TCP_S_FIN_WAIT_1 else TCP_S_LAST_ACK) True s s r d"
proof -
  note pair = registered_pair [OF m]
  have "settled st False s s r (c\<lparr>now := t\<rparr>)" using c(1) by simp
  from settled_close [OF this c(2)] obtain c1 d fin where d: "process_CLOSE TCP_E_CLOSE (c\<lparr>now := t\<rparr>) = Inr (TCP_E_CLOSE, c1)"
     "performStateTransition TCP_E_CLOSE c1 = Inr (True, d)" "actions d = [ToIP fin (localAddr c) (remoteAddr c)]" "closeSegment True s r c fin"
     "sockPairOf d = key" "settled (if st = TCP_S_ESTABLISHED then TCP_S_FIN_WAIT_1 else TCP_S_LAST_ACK) True s s r (d\<lparr>actions := []\<rparr>)"
    using pair by (auto simp: closeSegment_def)
  from registered_close [OF m d(1,2,5), of env p] obtain m' where "handleMessage env p t (FromApp g i Close) m = Inr m'"
     "outbox m' = outbox m @ [ToIP fin (sp_localAddr key) (sp_remoteAddr key)]" "inModule m' k key (g, i) (d\<lparr>actions := []\<rparr>)"
    using d(3) sockPairOf_fields [OF pair] by auto
  moreover have "closeSegment True s r (d\<lparr>actions := []\<rparr>) fin" by (rule closeSegment_pair [OF _ d(4)]) (use pair d(5) in simp)
  ultimately show ?thesis using d(6) by blast
qed

lemma fin_message:
  assumes m: "inModule m k key app c" and c: "settled TCP_S_ESTABLISHED False s s r c"
    and seg: "closeSegment True r s x fin" "key = segmentKey fin (sp_remoteAddr key) (sp_localAddr key)"
  shows "\<exists>m' d ack. handleMessage env p t (FromIP fin (sp_remoteAddr key) (sp_localAddr key)) m = Inr m' \<and>
     outbox m' = outbox m @ [ToIP ack (sp_localAddr key) (sp_remoteAddr key), Indicate TCP_I_PEER_CLOSED 0] \<and>
     closeSegment False s (r + 1) d ack \<and> inModule m' k key app d \<and> settled TCP_S_CLOSE_WAIT False s s (r + 1) d"
proof -
  note pair = registered_pair [OF m]
  have "settled TCP_S_ESTABLISHED False s s r (c\<lparr>now := t\<rparr>)" using c by simp
  from fin_in_established [OF this seg(1)] obtain c1 d ack where d: "processSegment1stThru8th fin (c\<lparr>now := t\<rparr>) = Inr (TCP_E_RCV_FIN, c1)"
     "performStateTransition TCP_E_RCV_FIN c1 = Inr (True, d)" "actions d = [ToIP ack (localAddr c) (remoteAddr c), Indicate TCP_I_PEER_CLOSED 0]"
     "closeSegment False s (r + 1) c ack" "sockPairOf d = key" "settled TCP_S_CLOSE_WAIT False s s (r + 1) (d\<lparr>actions := []\<rparr>)"
    using pair by (auto simp: closeSegment_def)
  have "fsm c \<noteq> TCP_S_LISTEN" "fsm c \<noteq> TCP_S_SYN_SENT" using c by (simp_all add: settled_def)
  from registered_segment [OF m seg(2) this d(1,2,5), of env p] obtain m' where "handleMessage env p t (FromIP fin (sp_remoteAddr key) (sp_localAddr key)) m = Inr m'"
     "outbox m' = outbox m @ [ToIP ack (sp_localAddr key) (sp_remoteAddr key), Indicate TCP_I_PEER_CLOSED 0]" "inModule m' k key app (d\<lparr>actions := []\<rparr>)"
    using d(3) sockPairOf_fields [OF pair] by auto
  moreover have "closeSegment False s (r + 1) (d\<lparr>actions := []\<rparr>) ack" by (rule closeSegment_pair [OF _ d(4)]) (use pair d(5) in simp)
  ultimately show ?thesis using d(6) by blast
qed

lemma ack_message:
  assumes m: "inModule m k key app c" and c: "settled TCP_S_FIN_WAIT_1 True s s r c"
    and seg: "closeSegment False r (s + 1) x ack" "key = segmentKey ack (sp_remoteAddr key) (sp_localAddr key)"
  shows "\<exists>m' d. handleMessage env p t (FromIP ack (sp_remoteAddr key) (sp_localAddr key)) m = Inr m' \<and> outbox m' = outbox m \<and>
     inModule m' k key app d \<and> settled TCP_S_FIN_WAIT_2 True s (s + 1) r d"
proof -
  have "settled TCP_S_FIN_WAIT_1 True s s r (c\<lparr>now := t\<rparr>)" using c by simp
  from ack_in_fin_wait_1 [OF this seg(1)] obtain c1 d where d: "processSegment1stThru8th ack (c\<lparr>now := t\<rparr>) = Inr (TCP_E_RCV_ACK, c1)"
     "performStateTransition TCP_E_RCV_ACK c1 = Inr (True, d)" "settled TCP_S_FIN_WAIT_2 True s (s + 1) r d" "sockPairOf d = key"
    using registered_pair [OF m] by auto
  have e: "actions d = []" using d(3) by (simp add: settled_def)
  have "fsm c \<noteq> TCP_S_LISTEN" "fsm c \<noteq> TCP_S_SYN_SENT" using c by (simp_all add: settled_def)
  moreover have "settled TCP_S_FIN_WAIT_2 True s (s + 1) r (d\<lparr>actions := []\<rparr>)" using d(3) by (simp add: settled_def)
  ultimately show ?thesis using registered_segment [OF m seg(2) _ _ d(1,2,4), of env p] unfolding e append_Nil2 by blast
qed

lemma last_fin_message:
  assumes m: "inModule m k key app c" and c: "settled TCP_S_FIN_WAIT_2 True s (s + 1) r c"
    and seg: "closeSegment True r (s + 1) x fin" "key = segmentKey fin (sp_remoteAddr key) (sp_localAddr key)"
  shows "\<exists>m' d ack. handleMessage env p t (FromIP fin (sp_remoteAddr key) (sp_localAddr key)) m = Inr m' \<and>
     outbox m' = outbox m @ [ToIP ack (sp_localAddr key) (sp_remoteAddr key), Indicate TCP_I_CLOSED 0] \<and>
     closeSegment False (s + 1) (r + 1) d ack \<and> inModule m' k key app d \<and> fsm d = TCP_S_TIME_WAIT \<and>
     the2MSLTimer d = ScheduledAt (t + TCP_TIMEOUT_2MSL) \<and> algTimersOk d \<and> actions d = []"
proof -
  note pair = registered_pair [OF m]
  have "settled TCP_S_FIN_WAIT_2 True s (s + 1) r (c\<lparr>now := t\<rparr>)" using c by simp
  from fin_in_fin_wait_2 [OF this seg(1)] obtain c1 d ack where d: "processSegment1stThru8th fin (c\<lparr>now := t\<rparr>) = Inr (TCP_E_RCV_FIN, c1)"
     "performStateTransition TCP_E_RCV_FIN c1 = Inr (True, d)" "actions d = [ToIP ack (localAddr c) (remoteAddr c), Indicate TCP_I_CLOSED 0]"
     "closeSegment False (s + 1) (r + 1) c ack" "fsm d = TCP_S_TIME_WAIT" "the2MSLTimer d = ScheduledAt (t + TCP_TIMEOUT_2MSL)" "algTimersOk d" "sockPairOf d = key"
    using pair by (auto simp: closeSegment_def)
  have "fsm c \<noteq> TCP_S_LISTEN" "fsm c \<noteq> TCP_S_SYN_SENT" using c by (simp_all add: settled_def)
  from registered_segment [OF m seg(2) this d(1,2,8), of env p] obtain m' where "handleMessage env p t (FromIP fin (sp_remoteAddr key) (sp_localAddr key)) m = Inr m'"
     "outbox m' = outbox m @ [ToIP ack (sp_localAddr key) (sp_remoteAddr key), Indicate TCP_I_CLOSED 0]" "inModule m' k key app (d\<lparr>actions := []\<rparr>)"
    using d(3) sockPairOf_fields [OF pair] by auto
  moreover have "closeSegment False (s + 1) (r + 1) (d\<lparr>actions := []\<rparr>) ack" by (rule closeSegment_pair [OF _ d(4)]) (use pair d(8) in simp)
  ultimately show ?thesis using d(5-7)
    by (intro exI [of _ m'] exI [of _ "d\<lparr>actions := []\<rparr>"] exI [of _ ack]) simp
qed

text \<open>
  C2: orderly release. Two modules hold the ends of an established connection on which nothing is left to send. The
  application of one closes it, then that of the other: FIN, ACK, FIN, ACK are exchanged and nothing else, every
  message is handled without an error, each application is notified once of the other's and once of its own
  end, the passive side's connection is removed with the last ACK, and the active side's stays in \<open>TIME_WAIT\<close> until
  its timer, set to twice the maximum segment lifetime, removes it.
\<close>

theorem orderly_release:
  assumes A: "inModule A k \<lparr>sp_localAddr = la, sp_remoteAddr = ra, sp_localPort = lp, sp_remotePort = rp\<rparr> (g, i) a"
      "settled TCP_S_ESTABLISHED False s s r a"
    and B: "inModule B l \<lparr>sp_localAddr = ra, sp_remoteAddr = la, sp_localPort = rp, sp_remotePort = lp\<rparr> (h, j) b"
      "settled TCP_S_ESTABLISHED False r r s b"
    and ports: "0 \<le> lp" "lp < 65536" "0 \<le> rp" "rp < 65536"
  shows "\<exists>A1 A2 A3 A4 B1 B2 B3 fin ack fin' ack' a3.
     handleMessage ea p t1 (FromApp g i Close) A = Inr A1 \<and> outbox A1 = outbox A @ [ToIP fin la ra] \<and>
     handleMessage eb p t2 (FromIP fin la ra) B = Inr B1 \<and> outbox B1 = outbox B @ [ToIP ack ra la, Indicate TCP_I_PEER_CLOSED 0] \<and>
     handleMessage ea p t3 (FromIP ack ra la) A1 = Inr A2 \<and> outbox A2 = outbox A1 \<and>
     handleMessage eb p t4 (FromApp h j Close) B1 = Inr B2 \<and> outbox B2 = outbox B1 @ [ToIP fin' ra la] \<and>
     handleMessage ea p t5 (FromIP fin' ra la) A2 = Inr A3 \<and> outbox A3 = outbox A2 @ [ToIP ack' la ra, Indicate TCP_I_CLOSED 0] \<and>
     conns A3 k = Some a3 \<and> fsm a3 = TCP_S_TIME_WAIT \<and> the2MSLTimer a3 = ScheduledAt (t5 + TCP_TIMEOUT_2MSL) \<and>
     handleMessage eb p t6 (FromIP ack' la ra) B2 = Inr B3 \<and> outbox B3 = outbox B2 @ [Indicate TCP_I_CLOSED 0] \<and> conns B3 l = None \<and>
     handleMessage ea p t7 (SelfMessage k T2MSL) A3 = Inr A4 \<and> outbox A4 = outbox A3 \<and> conns A4 k = None"
proof -
  let ?ka = "\<lparr>sp_localAddr = la, sp_remoteAddr = ra, sp_localPort = lp, sp_remotePort = rp\<rparr>"
  let ?kb = "\<lparr>sp_localAddr = ra, sp_remoteAddr = la, sp_localPort = rp, sp_remotePort = lp\<rparr>"
  have toB: "?kb = segmentKey seg (sp_remoteAddr ?kb) (sp_localAddr ?kb)" if "closeSegment f s' a' x seg" "inModule m k ?ka app x" for f s' a' x seg m app
    using closeSegment_key [OF that(1) registered_pair [OF that(2)] ports] by simp
  have toA: "?ka = segmentKey seg (sp_remoteAddr ?ka) (sp_localAddr ?ka)" if "closeSegment f s' a' x seg" "inModule m l ?kb app x" for f s' a' x seg m app
    using closeSegment_key [OF that(1) registered_pair [OF that(2)] ports(3,4,1,2)] by simp
  have f: "sp_localAddr ?ka = la" "sp_remoteAddr ?ka = ra" "sp_localAddr ?kb = ra" "sp_remoteAddr ?kb = la" by simp_all
  obtain A1 a1 fin where 1: "handleMessage ea p t1 (FromApp g i Close) A = Inr A1" "outbox A1 = outbox A @ [ToIP fin la ra]"
     "closeSegment True s r a1 fin" "inModule A1 k ?ka (g, i) a1" "settled TCP_S_FIN_WAIT_1 True s s r a1"
    using close_message [OF A, of ea p t1] unfolding f by auto
  obtain B1 b1 ack where 2: "handleMessage eb p t2 (FromIP fin la ra) B = Inr B1" "outbox B1 = outbox B @ [ToIP ack ra la, Indicate TCP_I_PEER_CLOSED 0]"
     "closeSegment False r (s + 1) b1 ack" "inModule B1 l ?kb (h, j) b1" "settled TCP_S_CLOSE_WAIT False r r (s + 1) b1"
    using fin_message [OF B 1(3) toB [OF 1(3,4)], of eb p t2] unfolding f by blast
  obtain A2 a2 where 3: "handleMessage ea p t3 (FromIP ack ra la) A1 = Inr A2" "outbox A2 = outbox A1" "inModule A2 k ?ka (g, i) a2"
     "settled TCP_S_FIN_WAIT_2 True s (s + 1) r a2"
    using ack_message [OF 1(4,5) 2(3) toA [OF 2(3,4)], of ea p t3] unfolding f by blast
  obtain B2 b2 fin' where 4: "handleMessage eb p t4 (FromApp h j Close) B1 = Inr B2" "outbox B2 = outbox B1 @ [ToIP fin' ra la]"
     "closeSegment True r (s + 1) b2 fin'" "inModule B2 l ?kb (h, j) b2" "settled TCP_S_LAST_ACK True r r (s + 1) b2"
    using close_message [OF 2(4,5), of eb p t4] unfolding f by auto
  obtain A3 a3 ack' where 5: "handleMessage ea p t5 (FromIP fin' ra la) A2 = Inr A3" "outbox A3 = outbox A2 @ [ToIP ack' la ra, Indicate TCP_I_CLOSED 0]"
     "closeSegment False (s + 1) (r + 1) a3 ack'" "inModule A3 k ?ka (g, i) a3" "fsm a3 = TCP_S_TIME_WAIT"
     "the2MSLTimer a3 = ScheduledAt (t5 + TCP_TIMEOUT_2MSL)" "algTimersOk a3" "actions a3 = []"
    using last_fin_message [OF 3(3,4) 4(3) toA [OF 4(3,4)], of ea p t5] unfolding f by blast
  obtain B3 where 6: "handleMessage eb p t6 (FromIP ack' la ra) B2 = Inr B3" "outbox B3 = outbox B2 @ [Indicate TCP_I_CLOSED 0]" "conns B3 l = None"
    using last_ack_removes [OF 4(4) toB [OF 5(3,4)] 4(5) 5(3), of eb p t6] unfolding f by blast
  obtain A4 where 7: "handleMessage ea p t7 (SelfMessage k T2MSL) A3 = Inr A4" "outbox A4 = outbox A3" "conns A4 k = None"
    using time_wait_expires [OF 5(4,5,7,8), of ea p t7] by blast
  have "conns A3 k = Some a3" using 5(4) by (simp add: inModule_def)
  then show ?thesis using 1(1,2) 2(1,2) 3(1,2) 4(1,2) 5(1,2,5,6) 6 7 by blast
qed

definition sampleSettled :: "l3_address \<Rightarrow> l3_address \<Rightarrow> int \<Rightarrow> int \<Rightarrow> u32 \<Rightarrow> u32 \<Rightarrow> tcp_conn" where
  "sampleSettled la ra lp rp s r = (sampleConn TCP_S_ESTABLISHED)\<lparr>localAddr := la, remoteAddr := ra, localPort := lp, remotePort := rp,
     snd_mss := 536, snd_cwnd := 536, snd_una := s, snd_nxt := s, snd_max := s, sendQ := \<lparr>sq_begin = s, sq_end = s\<rparr>, rcv_nxt := r, rcv_wnd := 14336\<rparr>"

lemma sampleSettled_settled: "settled TCP_S_ESTABLISHED False s s r (sampleSettled la ra lp rp s r)"
  by (simp add: settled_def plainConn_def algTimersOk_def sampleSettled_def sampleConn_def newConnection_def newAlgStateVariables_def
      newStateVariables_def tcp_state_variables.defs tcp_alg_state_variables.defs)

definition sampleModule :: "tcp_conn \<Rightarrow> tcp_main" where
  "sampleModule c = newMain\<lparr>conns := [3 \<mapsto> c], tcpConnMap := [sockPairOf c \<mapsto> 3], tcpAppConnMap := [(0, 7) \<mapsto> 3]\<rparr>"

lemma sampleModule_in:
  "inModule (sampleModule (sampleSettled la ra lp rp s r)) 3 \<lparr>sp_localAddr = la, sp_remoteAddr = ra, sp_localPort = lp, sp_remotePort = rp\<rparr> (0, 7)
     (sampleSettled la ra lp rp s r)"
  by (simp add: inModule_def sampleModule_def newMain_def sampleSettled_def sockPairOf_def)

theorem orderly_release_witness:
  "\<exists>A1 A2 A3 A4 B1 B2 B3 fin ack fin' ack'.
     handleMessage sampleEnv (par handshakeListener) 1 (FromApp 0 7 Close) (sampleModule (sampleSettled (Address 1) (Address 2) 1025 80 1000 500)) = Inr A1 \<and>
     handleMessage sampleEnv (par handshakeListener) 2 (FromIP fin (Address 1) (Address 2)) (sampleModule (sampleSettled (Address 2) (Address 1) 80 1025 500 1000)) = Inr B1 \<and>
     handleMessage sampleEnv (par handshakeListener) 3 (FromIP ack (Address 2) (Address 1)) A1 = Inr A2 \<and> handleMessage sampleEnv (par handshakeListener) 4 (FromApp 0 7 Close) B1 = Inr B2 \<and>
     handleMessage sampleEnv (par handshakeListener) 5 (FromIP fin' (Address 2) (Address 1)) A2 = Inr A3 \<and>
     handleMessage sampleEnv (par handshakeListener) 6 (FromIP ack' (Address 1) (Address 2)) B2 = Inr B3 \<and> conns B3 3 = None \<and>
     handleMessage sampleEnv (par handshakeListener) 250 (SelfMessage 3 T2MSL) A3 = Inr A4 \<and> conns A4 3 = None"
proof -
  have "0 \<le> (1025 :: int)" "(1025 :: int) < 65536" "0 \<le> (80 :: int)" "(80 :: int) < 65536" by simp_all
  from orderly_release [OF sampleModule_in sampleSettled_settled sampleModule_in sampleSettled_settled this, of sampleEnv "par handshakeListener" 1 "Address 1" "Address 2" 1000 500
      sampleEnv 2 3 4 5 6 250]
  show ?thesis by (elim exE conjE) (intro exI conjI, assumption+)
qed

section \<open>A FIN that a deferred close hides\<close>

text \<open>
  A FIN that arrives while a deferred \<open>CLOSE\<close> completes is lost. In \<open>ESTABLISHED\<close>, once the connection's own FIN has gone out
  behind the last data, the end of \<open>processSegment1stThru8th\<close> replaces whatever event the segment caused by \<open>TCP_E_CLOSE\<close>. If the
  segment brought the peer's FIN, it has been acknowledged and \<open>rcv_nxt\<close> lies behind it, but the state machine goes to
  \<open>FIN_WAIT_1\<close> instead of \<open>CLOSING\<close>, with no trace of the FIN; and when the peer repeats it, it is not acceptable.
\<close>

lemma deferred_close_loses_fin:
  assumes c: "fsm c = TCP_S_ESTABLISHED" "plainConn c" "tcpAlgorithm c \<noteq> None" "send_fin c" "snd_nxt c = snd_fin_seq c + 1"
    and seg: "payloadLength seg = 0" "finBit seg" "sequenceNo seg = rcv_nxt c"
  shows "\<exists>e d ack. processBody old v seg ev c = Inr (TCP_E_CLOSE, e) \<and> actions e = actions c @ [ToIP ack (localAddr c) (remoteAddr c)] \<and>
     ackBit ack \<and> ackNo ack = rcv_nxt c + 1 \<and> performStateTransition TCP_E_CLOSE e = Inr (True, d) \<and> fsm d = TCP_S_FIN_WAIT_1 \<and>
     rcv_nxt d = rcv_nxt c + 1 \<and> fin_rcvd d = fin_rcvd c \<and> (ackNo seg = snd_una c \<longrightarrow> \<not> isSegmentAcceptable seg d)"
proof -
  let ?d = "c\<lparr>ack_now := True, rcv_nxt := rcv_nxt c + 1\<rparr>"
  have d: "plainConn ?d" "tcpAlgorithm ?d \<noteq> None" "ack_now ?d" "rcv_nxt ?d = rcv_nxt c + 1" using c by simp_all
  have fin: "finReached ?d = Inr (TCP_E_RCV_FIN, ?d)" using c(1) by (simp add: finReached_def)
  obtain ack f u a w where e: "processBody old v seg ev c = Inr (if deferredClose v
       (ackSent (emit (ToIP ack (localAddr ?d) (remoteAddr ?d)) ((windowed f u a w ?d)\<lparr>sentBytes := 0\<rparr>))) then TCP_E_CLOSE else TCP_E_RCV_FIN,
       ackSent (emit (ToIP ack (localAddr ?d) (remoteAddr ?d)) ((windowed f u a w ?d)\<lparr>sentBytes := 0\<rparr>)))"
     "closeSegment False (snd_nxt ?d) (rcv_nxt c + 1) ?d ack" using fin_processed [OF d seg fin, of old v ev] unfolding Let_def by blast
  let ?e = "ackSent (emit (ToIP ack (localAddr ?d) (remoteAddr ?d)) ((windowed f u a w ?d)\<lparr>sentBytes := 0\<rparr>))"
  have "deferredClose v ?e" using c by (simp add: deferredClose_def windowed_def emit_def)
  then have p: "processBody old v seg ev c = Inr (TCP_E_CLOSE, ?e)" using e(1) by simp
  have f: "fsm ?e = TCP_S_ESTABLISHED" "rcv_nxt ?e = rcv_nxt c + 1" "fin_rcvd ?e = fin_rcvd c" "snd_una ?e = snd_una c"
     "actions ?e = actions c @ [ToIP ack (localAddr c) (remoteAddr c)]"
    using c by (simp_all add: windowed_def emit_def ackSent_def)
  have tr: "performStateTransition TCP_E_CLOSE ?e = Inr (True, ?e\<lparr>fsm := TCP_S_FIN_WAIT_1,
     connEstabTimer := cancelIfPresent (connEstabTimer ?e), synRexmitTimer := cancelIfPresent (synRexmitTimer ?e)\<rparr>)"
    using close_transition [of ?e] f(1) by simp
  let ?g = "?e\<lparr>fsm := TCP_S_FIN_WAIT_1, connEstabTimer := cancelIfPresent (connEstabTimer ?e), synRexmitTimer := cancelIfPresent (synRexmitTimer ?e)\<rparr>"
  have "\<not> seqLE (rcv_nxt c + 1) (rcv_nxt c)" by (simp add: seqLE_def)
  moreover have "rcv_nxt ?g = rcv_nxt c + 1" "snd_una ?g = snd_una c" using f by simp_all
  ultimately have "\<not> isSegmentAcceptable seg ?g" if "ackNo seg = snd_una c"
    using seg that by (simp only: isSegmentAcceptable_def Let_def) (simp add: seqLess_irrefl)
  then show ?thesis using p tr f e(2)
    by (intro exI [of _ ?e] exI [of _ ?g] exI [of _ ack]) (simp add: closeSegment_def)
qed

end
