(* ===== verification/Tcp_Transfer.thy ===== *)
theory Tcp_Transfer
  imports Tcp_Close
begin

text \<open>
  The transfer of data between two modules (\<open>TCPConnectionEventProc.cc\<close>: \<open>process_SEND\<close>; \<open>TCPConnectionUtil.cc\<close>: \<open>sendData\<close>,
  \<open>sendSegment\<close>; \<open>TCPConnectionRcvSegment.cc\<close>: \<open>processSegment1stThru8th\<close>; the algorithms under \<open>flavours\<close>): a message
  that fits into a segment and the windows goes from the application of one side to that of the other and is
  acknowledged.
\<close>

section \<open>The sending side\<close>

text \<open>A segment with \<open>n\<close> bytes, as a connection without options sends it.\<close>

definition dataSegment :: "u64 \<Rightarrow> u32 \<Rightarrow> u32 \<Rightarrow> tcp_conn \<Rightarrow> tcp_segment \<Rightarrow> bool" where
  "dataSegment n s a c seg \<longleftrightarrow> payloadLength seg = n \<and> payloadList seg = [] \<and> \<not> rstBit seg \<and> \<not> synBit seg \<and> ackBit seg \<and> \<not> finBit seg \<and>
     headerOptionList seg = [] \<and> headerLength seg = TCP_HEADER_OCTETS \<and> sequenceNo seg = s \<and> ackNo seg = a \<and>
     srcPort seg = of_int (localPort c) \<and> destPort seg = of_int (remotePort c)"

text \<open>The windows and the segment size leave room for \<open>n\<close> bytes, and no limit is set on the queue.\<close>

definition sendable :: "u64 \<Rightarrow> tcp_conn \<Rightarrow> bool" where
  "sendable n c \<longleftrightarrow> 0 < unat n \<and> unat n \<le> unat (snd_mss c) \<and> unat (snd_mss c) < 2 ^ 16 \<and> unat n \<le> unat (snd_wnd c) \<and> unat n \<le> unat (snd_cwnd c) \<and>
     sendQueueLimit c = 0"

lemma writeHeaderOptions_established:
  assumes "plainConn c" "fsm c = TCP_S_ESTABLISHED"
  shows "writeHeaderOptions (newSegment\<lparr>ackBit := True\<rparr>) c = Inr (newSegment\<lparr>ackBit := True\<rparr>, c)"
  using assms by (simp add: writeHeaderOptions_def writeTs_def sacksPending_def setOptionsLength_def plainConn_def newSegment_def Let_def)

lemma sendSegment_whole:
  assumes c: "plainConn c" "fsm c = TCP_S_ESTABLISHED" "\<not> afterRto c" "\<not> send_fin c" "sendQueueLimit c = 0"
    and q: "sendQ c = \<lparr>sq_begin = s, sq_end = s + ucast n\<rparr>" "snd_nxt c = s"
    and n: "0 < unat n" "unat n \<le> unat (snd_mss c)" "unat (snd_mss c) < 2 ^ 16"
  shows "\<exists>seg f u a w. sendSegment (ucast n) c = Inr (emit (ToIP seg (localAddr c) (remoteAddr c))
       ((windowed f u a w c)\<lparr>sentBytes := ucast n, snd_nxt := s + ucast n\<rparr>)) \<and> w \<le> TCP_MAX_WIN \<and> dataSegment n s (rcv_nxt c) c seg"
proof -
  let ?m = "ucast n :: u32"
  have m: "unat ?m = unat n" using n by (intro unat_ucast_narrow) simp
  have nn: "ucast ?m = n"
  proof (rule word_unat_eq_iff [THEN iffD2])
    show "unat (ucast ?m :: u64) = unat n" by (simp only: unat_ucast_widen m)
  qed
  let ?c2 = "c\<lparr>sentBytes := ?m\<rparr>"
  have "plainConn ?c2" using c(1) by (simp add: plainConn_def)
  then obtain f u a w where r: "updateRcvWnd ?c2 = Inr (ucast w, windowed f u a w ?c2)" "w \<le> TCP_MAX_WIN" using updateRcvWnd_plain by blast
  have ls: "seqLess s (s + ?m)" using m n by (simp add: seqLess_off off_def)
  have av: "getBytesAvailable (sendQ c) s = n"
    using ls q nn by (simp add: getBytesAvailable_def bytesAvailable_def getBufferEndSeq_def)
  have cl: "clipBytes ?m n 0 (snd_mss c) = ?m" using m n nn by (simp add: clipBytes_def word_less_nat_alt)
  have mss: "0 < snd_mss c" using n by (simp add: word_less_nat_alt)
  have sk: "skipSacked c = Inr c" using c(3) by (simp add: skipSacked_def)
  have rg: "registerSent ?m ?c2 = Inr ?c2" using c(1) by (simp add: registerSent_def plainConn_def)
  have cr: "createSegmentWithBytes (sendQ c) s n = Inr (newSegment\<lparr>sequenceNo := s, payloadLength := n\<rparr>)"
    using ls q by (simp add: createSegmentWithBytes_def seqLess_imp_seqLE)
  have h0: "headerLength (newSegment\<lparr>ackBit := True\<rparr>) = TCP_HEADER_OCTETS" by (simp add: newSegment_def)
  have st: "sendSegment ?m c = transmitSegment (newSegment\<lparr>ackBit := True\<rparr>) (newSegment\<lparr>sequenceNo := s, payloadLength := n\<rparr>) ?m ?c2"
    unfolding sendSegment_def sk bindR_Inr Let_def writeHeaderOptions_established [OF c(1,2)] case_prod_conv q(2) av h0
    using mss cl rg cr q(2) nn by simp
  let ?seg = "newSegment\<lparr>sequenceNo := s, payloadLength := n, ackNo := rcv_nxt c, ackBit := True, window := ucast w, finBit := False,
     headerOptionList := [], headerLength := TCP_HEADER_OCTETS, srcPort := of_int (localPort c), destPort := of_int (remotePort c)\<rparr>"
  let ?d = "(windowed f u a w ?c2)\<lparr>snd_nxt := s + ?m\<rparr>"
  have adv: "advanceSndNxt ?m (windowed f u a w ?c2) = (False, ?d)"
    using c q by (simp add: advanceSndNxt_def windowed_def Let_def)
  have "transmitSegment (newSegment\<lparr>ackBit := True\<rparr>) (newSegment\<lparr>sequenceNo := s, payloadLength := n\<rparr>) ?m ?c2 =
      Inr (emit (ToIP ?seg (localAddr c) (remoteAddr c)) (?d\<lparr>sentBytes := ?m\<rparr>))"
    unfolding transmitSegment_def r(1) bindR_Inr case_prod_conv adv
    using nn c(5) by (simp add: sendToIP_def requestMoreData_def newSegment_def windowed_def emit_def Let_def)
  moreover have "?d\<lparr>sentBytes := ?m\<rparr> = (windowed f u a w c)\<lparr>sentBytes := ?m, snd_nxt := s + ?m\<rparr>" by (simp add: windowed_def)
  moreover have "dataSegment n s (rcv_nxt c) c ?seg" by (simp add: dataSegment_def newSegment_def)
  ultimately show ?thesis using st r(2)
    by (intro exI [of _ ?seg] exI [of _ f] exI [of _ u] exI [of _ a] exI [of _ w]) simp
qed

text \<open>A connection that waits for the acknowledgement of \<open>n\<close> bytes.\<close>

definition awaiting :: "u64 \<Rightarrow> u32 \<Rightarrow> u32 \<Rightarrow> tcp_conn \<Rightarrow> bool" where
  "awaiting n s r c \<longleftrightarrow> fsm c = TCP_S_ESTABLISHED \<and> plainConn c \<and> algTimersOk c \<and> \<not> afterRto c \<and> \<not> lossRecovery c \<and> snd_cwnd c \<noteq> 0 \<and>
     finWait2Timer c \<noteq> NoTimer \<and> the2MSLTimer c = IdleTimer \<and> sendQ c = \<lparr>sq_begin = s, sq_end = s + ucast n\<rparr> \<and> \<not> send_fin c \<and>
     snd_una c = s \<and> snd_nxt c = s + ucast n \<and> snd_max c = s + ucast n \<and> rcv_nxt c = r \<and> rcv_wnd c \<le> TCP_MAX_WIN"

lemma dataSent_returns:
  assumes "algTimersOk c"
  shows "\<exists>n x q y z. dataSent fs c = Inr (c\<lparr>rexmit_count := n, rexmitTimer := x, rtseq := q, rtseq_sendtime := y, time_last_data_sent := z\<rparr>) \<and> x \<noteq> NoTimer"
proof -
  have i: "cancelIfScheduled (rexmitTimer c) = IdleTimer" using assms by (cases "rexmitTimer c") (simp_all add: algTimersOk_def cancelIfScheduled_def)
  obtain n x where d: "(if isDumb c then scheduleRexmit 2 (c\<lparr>rexmitTimer := cancelIfScheduled (rexmitTimer c)\<rparr>)
      else if \<not> isScheduled (rexmitTimer c) then startRexmitTimer c else Inr c) = Inr (c\<lparr>rexmit_count := n, rexmitTimer := x\<rparr>)" "x \<noteq> NoTimer"
  proof (cases "isDumb c")
    case True
    show ?thesis by (rule that [of "ScheduledAt (now c + 2)" "rexmit_count c"]) (use True i in \<open>simp_all add: scheduleRexmit_def scheduleAt_def\<close>)
  next
    case False
    show ?thesis
    proof (cases "rexmitTimer c")
      case NoTimer
      then show ?thesis using assms by (simp add: algTimersOk_def)
    next
      case IdleTimer
      show ?thesis by (rule that [of "ScheduledAt (now c + rexmit_timeout c)" 0])
          (use False IdleTimer in \<open>simp_all add: startRexmitTimer_def scheduleRexmit_def scheduleAt_def\<close>)
    next
      case (ScheduledAt y)
      show ?thesis by (rule that [of "ScheduledAt y" "rexmit_count c"]) (use False ScheduledAt in simp_all)
    qed
  qed
  let ?d = "c\<lparr>rexmit_count := n, rexmitTimer := x\<rparr>"
  show ?thesis
  proof (cases "isDumb c")
    case True
    then have "dataSent fs c = Inr (?d\<lparr>rtseq := rtseq c, rtseq_sendtime := rtseq_sendtime c, time_last_data_sent := time_last_data_sent c\<rparr>)"
      using d(1) by (simp add: dataSent_def)
    then show ?thesis using d(2) by blast
  next
    case False
    then have e: "(if \<not> isScheduled (rexmitTimer c) then startRexmitTimer c else Inr c) = Inr ?d" using d(1) by simp
    have "dataSent fs c = Inr (?d\<lparr>rtseq := (if \<not> ts_enabled c \<and> rtseq_sendtime c = 0 then fs else rtseq c),
        rtseq_sendtime := (if \<not> ts_enabled c \<and> rtseq_sendtime c = 0 then now c else rtseq_sendtime c), time_last_data_sent := now c\<rparr>)"
      unfolding dataSent_def e if_not_P [OF False] bindR_Inr Let_def by simp
    then show ?thesis using d(2) by blast
  qed
qed

lemma connSendData_whole:
  assumes c: "plainConn c" "fsm c = TCP_S_ESTABLISHED" "\<not> afterRto c" "\<not> send_fin c" "sendQueueLimit c = 0" "algTimersOk c"
    and q: "sendQ c = \<lparr>sq_begin = s, sq_end = s + ucast n\<rparr>" "snd_una c = s" "snd_nxt c = s" "snd_max c = s"
    and n: "0 < unat n" "unat n \<le> unat (snd_mss c)" "unat (snd_mss c) < 2 ^ 16" "unat n \<le> unat (snd_wnd c)" "unat n \<le> unat cw"
  shows "\<exists>seg f u a w k x rq y z. connSendData False cw c = Inr (True, (ackSent (emit (ToIP seg (localAddr c) (remoteAddr c))
       ((windowed f u a w c)\<lparr>sentBytes := ucast n, snd_nxt := s + ucast n, snd_max := s + ucast n\<rparr>)))
         \<lparr>rexmit_count := k, rexmitTimer := x, rtseq := rq, rtseq_sendtime := y, time_last_data_sent := z\<rparr>) \<and>
     x \<noteq> NoTimer \<and> w \<le> TCP_MAX_WIN \<and> dataSegment n s (rcv_nxt c) c seg"
proof -
  let ?m = "ucast n :: u32"
  have m: "unat ?m = unat n" using n by (intro unat_ucast_narrow) simp
  have nn: "ucast ?m = n" by (rule word_unat_eq_iff [THEN iffD2]) (simp only: unat_ucast_widen m)
  have ls: "seqLess s (s + ?m)" using m n by (simp add: seqLess_off off_def)
  have av: "getBytesAvailable (sendQ c) s = n" using ls q nn by (simp add: getBytesAvailable_def bytesAvailable_def getBufferEndSeq_def)
  have same: "c\<lparr>snd_nxt := s\<rparr> = c" using q by simp
  obtain seg f u a w where g: "sendSegment ?m c = Inr (emit (ToIP seg (localAddr c) (remoteAddr c))
       ((windowed f u a w c)\<lparr>sentBytes := ?m, snd_nxt := s + ?m\<rparr>))" "w \<le> TCP_MAX_WIN" "dataSegment n s (rcv_nxt c) c seg"
    using sendSegment_whole [OF c(1-5) q(1,3) n(1-3)] by blast
  let ?c1 = "emit (ToIP seg (localAddr c) (remoteAddr c)) ((windowed f u a w c)\<lparr>sentBytes := ?m, snd_nxt := s + ?m\<rparr>)"
  let ?c2 = "emit (ToIP seg (localAddr c) (remoteAddr c)) ((windowed f u a w c)\<lparr>sentBytes := ?m, snd_nxt := s + ?m, snd_max := s + ?m\<rparr>)"
  have f1: "sentBytes ?c1 = ?m" "getBytesAvailable (sendQ ?c1) (snd_nxt ?c1) = 0"
    using q by (simp_all add: emit_def windowed_def getBytesAvailable_def bytesAvailable_def getBufferEndSeq_def)
  have le: "n \<le> ucast (snd_mss c)" using n by (simp add: word_le_nat_alt)
  have sb: "sendBytes fuel n (snd_mss c) c = Inr ?c1" for fuel
    using le g(1) f1 nn by (simp add: sendBytes_def Let_def)
  have up: "(if seqGreater (snd_nxt ?c1) (snd_max ?c1) then ?c1\<lparr>snd_max := snd_nxt ?c1\<rparr> else ?c1) = ?c2"
    using ls q by (simp add: seqGreater_seqLess emit_def windowed_def)
  let ?W = "min (snd_wnd c) cw"
  have W: "unat n \<le> unat ?W" using n(4,5) by (simp add: min_def)
  have "0 < unat ?W" using W n(1) by simp
  then have W0: "0 < uint ?W" by (simp only: unat_eq_nat_uint zero_less_nat_eq)
  have ew: "effectiveWindow cw c = uint ?W" using q by (simp add: effectiveWindow_def)
  have bts: "(if of_int (uint ?W) > n then n else of_int (uint ?W)) = n"
  proof -
    have "uint ?W < 2 ^ 32" using uint_bounded [of ?W] by simp
    then have "unat (of_int (uint ?W) :: u64) = nat (uint ?W)" by (intro of_int_u64) simp_all
    then have "unat (of_int (uint ?W) :: u64) = unat ?W" by (simp only: unat_eq_nat_uint)
    then have "n \<le> of_int (uint ?W)" using W by (simp only: word_le_nat_alt)
    then show ?thesis by (auto simp only: not_less split: if_split)
  qed
  have "algTimersOk (ackSent ?c2)" using c(6) by simp
  from dataSent_returns [OF this] obtain k x rq y z where d: "dataSent s (ackSent ?c2) = Inr ((ackSent ?c2)\<lparr>rexmit_count := k, rexmitTimer := x, rtseq := rq,
      rtseq_sendtime := y, time_last_data_sent := z\<rparr>)" "x \<noteq> NoTimer" by blast
  have ns: "\<not> ts_enabled c" "\<not> sack_enabled c" "\<not> sack_enabled (ackSent ?c2)"
    using c(1) by (simp_all add: plainConn_def emit_def windowed_def ackSent_def)
  have "connSendData False cw c = Inr (True, (ackSent ?c2)\<lparr>rexmit_count := k, rexmitTimer := x, rtseq := rq, rtseq_sendtime := y, time_last_data_sent := z\<rparr>)"
  proof -
    have c0: "(if \<not> afterRto c then c\<lparr>snd_nxt := snd_max c\<rparr> else c) = c" using c(3) q(4) same by simp
    have n0: "n \<noteq> 0" "n > 0" using n(1) by (auto simp: word_less_nat_alt)
    show ?thesis unfolding connSendData_def sendData_def Let_def c0 q(3) av ew bts
      using n0 W0 ns sb d(1) by (simp only: if_False bindR_Inr up, simp add: bts up ns)
  qed
  then show ?thesis using d(2) g(2,3) by blast
qed

lemma initialWindow_ge:
  assumes "unat (snd_mss c) < 2 ^ 16"
  shows "unat (snd_mss c) \<le> unat (initialWindow c)"
proof -
  have k: "unat (4 * snd_mss c) = 4 * unat (snd_mss c)" "unat (2 * snd_mss c) = 2 * unat (snd_mss c)"
    using assms unat_mult_lem [of 4 "snd_mss c"] unat_mult_lem [of 2 "snd_mss c"] by simp_all
  have "snd_mss c \<le> 4 * snd_mss c" "snd_mss c \<le> 2 * snd_mss c" using k by (simp_all add: word_le_nat_alt)
  then have "snd_mss c \<le> initialWindow c" by (simp add: initialWindow_def le_max_iff_disj)
  then show ?thesis by (simp only: word_le_nat_alt)
qed

lemma restartIdle_room:
  assumes "unat n \<le> unat (snd_mss c)" "unat (snd_mss c) < 2 ^ 16" "unat n \<le> unat (snd_cwnd c)" "0 < unat n"
  shows "\<exists>k. restartIdle c = c\<lparr>snd_cwnd := k\<rparr> \<and> unat n \<le> unat k"
proof (cases "\<not> isSendQueueEmpty c \<and> now c - time_last_data_sent c > rexmit_timeout c")
  case True
  show ?thesis unfolding restartIdle_def if_P [OF True]
    by (rule exI, rule conjI, rule refl) (use assms initialWindow_ge [OF assms(2)] in \<open>simp add: min_def\<close>)
next
  case False
  have "c = c\<lparr>snd_cwnd := snd_cwnd c\<rparr>" by simp
  then show ?thesis unfolding restartIdle_def if_not_P [OF False] using assms(3) by blast
qed

lemma sendCommand_whole:
  assumes c: "settled TCP_S_ESTABLISHED False s s r c" and n: "sendable n c"
  shows "\<exists>k d seg f u a w rc x rq y z. algSendCommandInvoked (c\<lparr>sendQ := \<lparr>sq_begin = s, sq_end = s + ucast n\<rparr>\<rparr>) = Inr d \<and> d = (ackSent (emit (ToIP seg (localAddr c) (remoteAddr c))
       ((windowed f u a w ((c\<lparr>sendQ := \<lparr>sq_begin = s, sq_end = s + ucast n\<rparr>\<rparr>)\<lparr>snd_cwnd := k\<rparr>))\<lparr>sentBytes := ucast n, snd_nxt := s + ucast n, snd_max := s + ucast n\<rparr>)))
         \<lparr>rexmit_count := rc, rexmitTimer := x, rtseq := rq, rtseq_sendtime := y, time_last_data_sent := z\<rparr> \<and>
     x \<noteq> NoTimer \<and> w \<le> TCP_MAX_WIN \<and> dataSegment n s r c seg \<and> unat n \<le> unat k"
proof -
  let ?m = "ucast n :: u32"
  let ?c = "c\<lparr>sendQ := \<lparr>sq_begin = s, sq_end = s + ?m\<rparr>\<rparr>"
  have h: "fsm c = TCP_S_ESTABLISHED" "plainConn c" "algTimersOk c" "\<not> afterRto c" "\<not> lossRecovery c" "sendQ c = \<lparr>sq_begin = s, sq_end = s\<rparr>"
     "\<not> send_fin c" "snd_una c = s" "snd_nxt c = s" "snd_max c = s" "rcv_nxt c = r" "actions c = []" "finWait2Timer c \<noteq> NoTimer" "the2MSLTimer c = IdleTimer"
    using c by (simp_all add: settled_def)
  have b: "0 < unat n" "unat n \<le> unat (snd_mss c)" "unat (snd_mss c) < 2 ^ 16" "unat n \<le> unat (snd_wnd c)" "unat n \<le> unat (snd_cwnd c)" "sendQueueLimit c = 0"
    using n by (simp_all add: sendable_def)
  have run: "\<exists>seg f u a w rc x rq y z. connSendData False cw (?c\<lparr>snd_cwnd := k\<rparr>) = Inr (True, (ackSent (emit (ToIP seg (localAddr c) (remoteAddr c))
     ((windowed f u a w (?c\<lparr>snd_cwnd := k\<rparr>))\<lparr>sentBytes := ?m, snd_nxt := s + ?m, snd_max := s + ?m\<rparr>)))
       \<lparr>rexmit_count := rc, rexmitTimer := x, rtseq := rq, rtseq_sendtime := y, time_last_data_sent := z\<rparr>) \<and>
     x \<noteq> NoTimer \<and> w \<le> TCP_MAX_WIN \<and> dataSegment n s r c seg" if "unat n \<le> unat cw" for cw k
  proof -
    let ?k = "?c\<lparr>snd_cwnd := k\<rparr>"
    have p: "plainConn ?k" "fsm ?k = TCP_S_ESTABLISHED" "\<not> afterRto ?k" "\<not> send_fin ?k" "sendQueueLimit ?k = 0" "algTimersOk ?k"
       "sendQ ?k = \<lparr>sq_begin = s, sq_end = s + ?m\<rparr>" "snd_una ?k = s" "snd_nxt ?k = s" "snd_max ?k = s"
       "unat n \<le> unat (snd_mss ?k)" "unat (snd_mss ?k) < 2 ^ 16" "unat n \<le> unat (snd_wnd ?k)"
      using h b by (simp_all add: algTimersOk_def)
    have e: "localAddr ?k = localAddr c" "remoteAddr ?k = remoteAddr c" "rcv_nxt ?k = r" "dataSegment n s r ?k seg = dataSegment n s r c seg" for seg
      using h by (simp_all add: dataSegment_def)
    show ?thesis using connSendData_whole [OF p(1-10) b(1) p(11-13) that] unfolding e .
  qed
  show ?thesis
  proof (cases "tcpAlgorithm c = Some DumbTCP")
    case True
    have "unat n \<le> unat (65535 :: u32)" using b by simp
    from run [OF this, of "snd_cwnd c"] obtain seg f u a w rc x rq y z where "connSendData False 65535 (?c\<lparr>snd_cwnd := snd_cwnd c\<rparr>) =
       Inr (True, (ackSent (emit (ToIP seg (localAddr c) (remoteAddr c))
     ((windowed f u a w (?c\<lparr>snd_cwnd := snd_cwnd c\<rparr>))\<lparr>sentBytes := ?m, snd_nxt := s + ?m, snd_max := s + ?m\<rparr>)))
       \<lparr>rexmit_count := rc, rexmitTimer := x, rtseq := rq, rtseq_sendtime := y, time_last_data_sent := z\<rparr>)"
     "x \<noteq> NoTimer" "w \<le> TCP_MAX_WIN" "dataSegment n s r c seg" by blast
    moreover have "algSendCommandInvoked ?c = bindR (connSendData False 65535 (?c\<lparr>snd_cwnd := snd_cwnd c\<rparr>)) (\<lambda>(sent, c'). Inr c')"
      using True by (simp add: algSendCommandInvoked_def withAlg_def dumbSend_def)
    ultimately show ?thesis using b(5) by (simp only: bindR_Inr case_prod_conv) blast
  next
    case False
    obtain k where k: "restartIdle ?c = ?c\<lparr>snd_cwnd := k\<rparr>" "unat n \<le> unat k" using restartIdle_room [of n ?c] b by auto
    from run [OF k(2), of k] obtain seg f u a w rc x rq y z where "connSendData False k (?c\<lparr>snd_cwnd := k\<rparr>) =
       Inr (True, (ackSent (emit (ToIP seg (localAddr c) (remoteAddr c))
     ((windowed f u a w (?c\<lparr>snd_cwnd := k\<rparr>))\<lparr>sentBytes := ?m, snd_nxt := s + ?m, snd_max := s + ?m\<rparr>)))
       \<lparr>rexmit_count := rc, rexmitTimer := x, rtseq := rq, rtseq_sendtime := y, time_last_data_sent := z\<rparr>)"
     "x \<noteq> NoTimer" "w \<le> TCP_MAX_WIN" "dataSegment n s r c seg" by blast
    moreover have "algSendCommandInvoked ?c = bindR (connSendData False k (?c\<lparr>snd_cwnd := k\<rparr>)) (\<lambda>(sent, c'). Inr c')"
    proof -
      have "algSendCommandInvoked ?c = trySend True ?c"
        using False h(3) by (auto simp: algSendCommandInvoked_def withAlg_def algTimersOk_def split: flavour.split)
      also have "\<dots> = bindR (connSendData False k (?c\<lparr>snd_cwnd := k\<rparr>)) (\<lambda>(sent, c'). Inr c')"
        unfolding trySend_def algSendData_def Let_def k(1) using h by simp
      finally show ?thesis .
    qed
    ultimately show ?thesis using k(2) by (simp only: bindR_Inr case_prod_conv) blast
  qed
qed

lemma send_whole:
  assumes c: "settled TCP_S_ESTABLISHED False s s r c" and n: "sendable n c"
  shows "\<exists>d seg. process_SEND n c = Inr d \<and> performStateTransition TCP_E_SEND d = Inr (True, d) \<and>
     actions d = [ToIP seg (localAddr c) (remoteAddr c)] \<and> dataSegment n s r c seg \<and> awaiting n s r d \<and> sockPairOf d = sockPairOf c"
proof -
  let ?m = "ucast n :: u32"
  let ?c = "c\<lparr>sendQ := \<lparr>sq_begin = s, sq_end = s + ?m\<rparr>\<rparr>"
  have h: "fsm c = TCP_S_ESTABLISHED" "plainConn c" "algTimersOk c" "\<not> afterRto c" "\<not> lossRecovery c" "sendQ c = \<lparr>sq_begin = s, sq_end = s\<rparr>"
     "\<not> send_fin c" "snd_una c = s" "snd_nxt c = s" "snd_max c = s" "rcv_nxt c = r" "actions c = []" "finWait2Timer c \<noteq> NoTimer" "the2MSLTimer c = IdleTimer"
    using c by (simp_all add: settled_def)
  have b: "0 < unat n" "unat n \<le> unat (snd_mss c)" "unat (snd_mss c) < 2 ^ 16" "unat n \<le> unat (snd_wnd c)" "unat n \<le> unat (snd_cwnd c)" "sendQueueLimit c = 0"
    using n by (simp_all add: sendable_def)
  have m: "unat ?m = unat n" using b by (intro unat_ucast_narrow) simp
  have "seqLess s (s + ?m)" using m b by (simp add: seqLess_off off_def)
  then have en: "enqueueSend n c = Inr ?c" using h(6) seqLess_asym by (simp add: enqueueSend_def enqueueAppData_def Let_def)
  obtain k d seg f u a w rc x rq y z where d: "algSendCommandInvoked ?c = Inr d" "d = (ackSent (emit (ToIP seg (localAddr c) (remoteAddr c))
       ((windowed f u a w (?c\<lparr>snd_cwnd := k\<rparr>))\<lparr>sentBytes := ?m, snd_nxt := s + ?m, snd_max := s + ?m\<rparr>)))
         \<lparr>rexmit_count := rc, rexmitTimer := x, rtseq := rq, rtseq_sendtime := y, time_last_data_sent := z\<rparr>"
     "x \<noteq> NoTimer" "w \<le> TCP_MAX_WIN" "dataSegment n s r c seg" "unat n \<le> unat k"
    using sendCommand_whole [OF c n] by blast
  have df: "fsm d = TCP_S_ESTABLISHED" "plainConn d" "\<not> afterRto d" "\<not> lossRecovery d" "snd_cwnd d = k" "finWait2Timer d \<noteq> NoTimer" "the2MSLTimer d = IdleTimer"
     "sendQ d = \<lparr>sq_begin = s, sq_end = s + ?m\<rparr>" "\<not> send_fin d" "snd_una d = s" "snd_nxt d = s + ?m" "snd_max d = s + ?m" "rcv_nxt d = r" "rcv_wnd d = w"
     "actions d = [ToIP seg (localAddr c) (remoteAddr c)]" "sockPairOf d = sockPairOf c" "sendQueueLimit d = 0"
    using h b(6) unfolding d(2) by (simp_all add: plainConn_def windowed_def emit_def sockPairOf_def ackSent_def)
  have at: "algTimersOk d" using h(3) d(3) unfolding d(2)
    by (simp add: algTimersOk_def ackSent_def windowed_def emit_def isDumb_def cancelIfScheduled_def)
  have "process_SEND n c = Inr d" using h(1) en d(1) df(17) by (simp add: process_SEND_def updateQueueLimit_def)
  moreover have "performStateTransition TCP_E_SEND d = Inr (True, d)"
  proof -
    have "d\<lparr>fsm := TCP_S_ESTABLISHED\<rparr> = d" using df(1) by simp
    then show ?thesis using df(1) by (simp add: performStateTransition_def fsmNext_def Let_def)
  qed
  moreover have "awaiting n s r d" using df at d(4,6) b(1) by (auto simp: awaiting_def)
  ultimately show ?thesis using df(15,16) d(5) by blast
qed

section \<open>The receiving side\<close>

text \<open>The receiver has room for \<open>n\<close> bytes, nothing is buffered, and everything received has been acknowledged.\<close>

definition receivable :: "u64 \<Rightarrow> tcp_conn \<Rightarrow> bool" where
  "receivable n c \<longleftrightarrow> receiveQ c = \<lparr>rcvq_nxt = rcv_nxt c, regionList = []\<rparr> \<and> \<not> fin_rcvd c \<and> 0 < unat n \<and> unat n \<le> unat (rcv_wnd c) \<and>
     unat n \<le> unat (maxRcvBuffer c) \<and> unat (maxRcvBuffer c) < 2 ^ 31 \<and> \<not> par_useDataNotification (par c) \<and> \<not> delayed_acks_enabled c \<and>
     last_ack_sent c = rcv_nxt c"

lemma extract_single:
  assumes "seqLess s e" "receiveQ c = \<lparr>rcvq_nxt = e, regionList = [\<lparr>rr_begin = s, rr_end = e\<rparr>]\<rparr>" "rcv_nxt c = e"
  shows "extractAll c = Inr (c\<lparr>receiveQ := \<lparr>rcvq_nxt = e, regionList = []\<rparr>, actions := actions c @ [DataToApp (ucast (e - s))]\<rparr>)"
proof -
  have le: "\<not> seqLE e s" using assms(1) by (metis seqLE_antisym seqLess_iff)
  let ?d = "emit (DataToApp (ucast (e - s))) (c\<lparr>receiveQ := \<lparr>rcvq_nxt = e, regionList = []\<rparr>\<rparr>)"
  have 1: "extractBytesUpTo (receiveQ c) (rcv_nxt c) = Inr (Some (ucast (e - s)), \<lparr>rcvq_nxt = e, regionList = []\<rparr>)"
    using assms le by (simp add: extractBytesUpTo_def extractTo_def region_getLength_def seqGE_seqLE)
  have "extractBytesUpTo (receiveQ ?d) (rcv_nxt ?d) = Inr (None, \<lparr>rcvq_nxt = e, regionList = []\<rparr>)"
    using assms(3) by (simp add: extractBytesUpTo_def extractTo_def emit_def)
  then have "extractLoop f ?d = Inr (?d\<lparr>receiveQ := \<lparr>rcvq_nxt = e, regionList = []\<rparr>\<rparr>)" for f
    by (subst extractLoop.simps) simp
  then show ?thesis unfolding extractAll_def by (subst extractLoop.simps) (simp add: 1, simp add: emit_def)
qed

lemma text_whole:
  assumes c: "fsm c = TCP_S_ESTABLISHED" "old = snd_una c" "rcv_wnd c \<le> TCP_MAX_WIN" and n: "receivable n c" and seg: "dataSegment n (rcv_nxt c) a x seg"
  shows "processText old seg ev c = Inr (seg, Some ev, (updateRcvQueueVars (countSegment seg c))
     \<lparr>receiveQ := \<lparr>rcvq_nxt = rcv_nxt c + ucast n, regionList = []\<rparr>, rcv_nxt := rcv_nxt c + ucast n, actions := actions c @ [DataToApp n]\<rparr>)"
proof -
  let ?m = "ucast n :: u32" and ?r = "rcv_nxt c"
  have q: "receiveQ c = \<lparr>rcvq_nxt = ?r, regionList = []\<rparr>" "\<not> fin_rcvd c" "0 < unat n" "unat n \<le> unat (rcv_wnd c)" "unat n \<le> unat (maxRcvBuffer c)"
     "unat (maxRcvBuffer c) < 2 ^ 31" "\<not> par_useDataNotification (par c)" using n by (simp_all add: receivable_def)
  have g: "payloadLength seg = n" "payloadList seg = []" "sequenceNo seg = ?r" using seg by (simp_all add: dataSegment_def)
  have w: "unat (rcv_wnd c) \<le> 65535" using c(3) by (simp add: word_le_nat_alt)
  have m: "unat ?m = unat n" using q w by (intro unat_ucast_narrow) simp
  have nn: "ucast ?m = n" by (rule word_unat_eq_iff [THEN iffD2]) (simp only: unat_ucast_widen m)
  have ls: "seqLess ?r (?r + ?m)" using m q w by (simp add: seqLess_off off_def)
  have offs: "off (?r + ?m) (?r + rcv_wnd c) = unat (rcv_wnd c) - unat n" "off (?r + ?m) (?r + maxRcvBuffer c) = unat (maxRcvBuffer c) - unat n"
    using q m by (simp_all add: off_def unat_sub word_le_nat_alt)
  have win: "seqLess ?r (?r + rcv_wnd c)" "\<not> seqGreater (?r + ?m) (?r + rcv_wnd c)"
  proof -
    show "seqLess ?r (?r + rcv_wnd c)" using q w by (simp add: seqLess_off off_def)
    have "seqLE (?r + ?m) (?r + rcv_wnd c)" using offs(1) w by (simp add: seqLE_off)
    then show "\<not> seqGreater (?r + ?m) (?r + rcv_wnd c)" by (metis seqGreater_seqLess seqLE_antisym seqLess_iff)
  qed
  let ?c1 = "countSegment seg c"
  let ?c2 = "updateRcvQueueVars ?c1"
  have c1: "rcv_nxt ?c1 = ?r" "rcv_wnd ?c1 = rcv_wnd c" by (simp_all add: countSegment_def Let_def)
  have f2: "fsm ?c2 = TCP_S_ESTABLISHED" "rcv_nxt ?c2 = ?r" "receiveQ ?c2 = \<lparr>rcvq_nxt = ?r, regionList = []\<rparr>" "maxRcvBuffer ?c2 = maxRcvBuffer c"
     "snd_una ?c2 = snd_una c" "\<not> fin_rcvd ?c2" "par ?c2 = par c" "actions ?c2 = actions c"
    using c q by (simp_all add: countSegment_def updateRcvQueueVars_def Let_def)
  have tr: "truncateSegment seg (rcv_nxt ?c1) (rcv_nxt ?c1 + rcv_wnd ?c1) = Inr seg"
    using g win ls q(3) unfolding c1 by (simp add: truncateSegment_def truncateData_def Let_def word_less_nat_alt)
  have room: "hasEnoughSpaceForSegmentInReceiveQueue seg ?c2"
    using f2 g offs(2) q(6) by (simp add: hasEnoughSpaceForSegmentInReceiveQueue_def getFirstSeqNo_def segmentEnd_def seqLE_off)
  have ins: "insertBytesFromSegment (receiveQ ?c2) seg = Inr \<lparr>rcvq_nxt = ?r + ?m, regionList = [\<lparr>rr_begin = ?r, rr_end = ?r + ?m\<rparr>]\<rparr>"
    using f2 g by (simp add: insertBytesFromSegment_def acceptableRange_def rcvq_merge_def createRegionFromSegment_def seqGE_seqLE Let_def)
  let ?c3 = "?c2\<lparr>receiveQ := \<lparr>rcvq_nxt = ?r + ?m, regionList = [\<lparr>rr_begin = ?r, rr_end = ?r + ?m\<rparr>]\<rparr>, rcv_nxt := ?r + ?m\<rparr>"
  have ex: "extractAll ?c3 = Inr (?c3\<lparr>receiveQ := \<lparr>rcvq_nxt = ?r + ?m, regionList = []\<rparr>, actions := actions ?c3 @ [DataToApp n]\<rparr>)"
    using extract_single [of ?r "?r + ?m" ?c3] ls nn by simp
  have ne: "?r \<noteq> ?r + ?m" using ls by auto
  have "acceptText old seg ev ?c2 = inOrder ev ?c3"
    using ins f2 c(2) ne by (simp add: acceptText_def Let_def seqGreater_seqLess)
  also have "\<dots> = Inr (ev, ?c3\<lparr>receiveQ := \<lparr>rcvq_nxt = ?r + ?m, regionList = []\<rparr>, actions := actions ?c3 @ [DataToApp n]\<rparr>)"
    using ex f2 q(7) by (simp add: inOrder_def forwardToApp_def)
  finally have "acceptText old seg ev ?c2 = Inr (ev, ?c2\<lparr>receiveQ := \<lparr>rcvq_nxt = ?r + ?m, regionList = []\<rparr>, rcv_nxt := ?r + ?m,
      actions := actions c @ [DataToApp n]\<rparr>)" using f2(8) by simp
  then show ?thesis using c(1) q(3) g(1) tr room by (simp add: processText_def textState_def Let_def word_less_nat_alt)
qed

text \<open>New bytes are acknowledged at once, unless acknowledgements are delayed.\<close>

lemma seqChanged_undelayed:
  assumes "tcpAlgorithm c \<noteq> None" "\<not> delayed_acks_enabled c" "last_ack_sent c \<noteq> rcv_nxt c" "\<not> lossRecovery c"
  shows "algReceiveSeqChanged c = sendAck c"
proof -
  have "baseReceiveSeqChanged c = sendAck c" using assms by (simp add: baseReceiveSeqChanged_def Let_def)
  then show ?thesis using assms(1) by (auto simp: algReceiveSeqChanged_def withAlg_def split: flavour.split)
qed

lemma data_arrives:
  assumes c: "settled TCP_S_ESTABLISHED False s s r c" and n: "receivable n c" and seg: "dataSegment n r s x seg"
  shows "\<exists>e ack. processSegment1stThru8th seg c = Inr (TCP_E_IGNORE, e) \<and> actions e = [DataToApp n, ToIP ack (localAddr c) (remoteAddr c)] \<and>
     closeSegment False s (r + ucast n) c ack \<and> settled TCP_S_ESTABLISHED False s s (r + ucast n) (e\<lparr>actions := []\<rparr>) \<and>
     receiveQ e = \<lparr>rcvq_nxt = r + ucast n, regionList = []\<rparr> \<and> sockPairOf e = sockPairOf c"
proof -
  let ?m = "ucast n :: u32"
  have h: "fsm c = TCP_S_ESTABLISHED" "plainConn c" "algTimersOk c" "\<not> afterRto c" "\<not> lossRecovery c" "\<not> send_fin c" "snd_una c = s" "snd_nxt c = s" "snd_max c = s"
     "rcv_nxt c = r" "rcv_wnd c \<le> TCP_MAX_WIN" "actions c = []" "\<not> ts_enabled c" "\<not> sack_enabled c" using c by (simp_all add: settled_def plainConn_def)
  have q: "0 < unat n" "unat n \<le> unat (rcv_wnd c)" "\<not> delayed_acks_enabled c" "last_ack_sent c = r" using n h by (simp_all add: receivable_def)
  have g: "payloadLength seg = n" "\<not> rstBit seg" "\<not> synBit seg" "ackBit seg" "\<not> finBit seg" "headerLength seg = TCP_HEADER_OCTETS" "sequenceNo seg = r" "ackNo seg = s"
    using seg by (simp_all add: dataSegment_def)
  have w: "unat (rcv_wnd c) \<le> 65535" using h(11) by (simp add: word_le_nat_alt)
  have m: "unat ?m = unat n" using q w by (intro unat_ucast_narrow) simp
  have m0: "?m \<noteq> 0" using m q(1) by auto
  have "rcv_wnd c \<noteq> 0" using q by auto
  moreover have "seqLess r (r + rcv_wnd c)" using q w by (simp add: seqLess_off off_def)
  ultimately have acc: "isSegmentAcceptable seg c" using g h m0 by (simp add: isSegmentAcceptable_def Let_def)
  let ?d = "c\<lparr>dupacks := 0\<rparr>"
  have n0: "n \<noteq> 0" using q(1) by auto
  have ak: "processAckInEstabEtc seg c = Inr (True, ?d)"
    using h g n0 by (simp add: processAckInEstabEtc_def duplicateAck_def seqGE_seqLE)
  have start: "processSegment1stThru8th seg c = processBody s s seg TCP_E_IGNORE ?d"
    using h g acc ak by (simp add: processSegment1stThru8th_def hasOptions_def pawsRejects_def processAckAndBody_def closingStates_def ackState_def Let_def)
  let ?u = "updateRcvQueueVars (countSegment seg ?d)"
  let ?t = "?u\<lparr>receiveQ := \<lparr>rcvq_nxt = r + ?m, regionList = []\<rparr>, rcv_nxt := r + ?m, actions := [DataToApp n]\<rparr>"
  have "receivable n ?d" "dataSegment n (rcv_nxt ?d) s x seg" "rcv_wnd ?d \<le> TCP_MAX_WIN" using n seg h by (simp_all add: receivable_def)
  then have tx: "processText s seg TCP_E_IGNORE ?d = Inr (seg, Some TCP_E_IGNORE, ?t)"
    using text_whole [of ?d s n s x seg TCP_E_IGNORE] h by simp
  have t: "tcpAlgorithm ?t \<noteq> None" "\<not> delayed_acks_enabled ?t" "last_ack_sent ?t \<noteq> rcv_nxt ?t" "\<not> lossRecovery ?t" "plainConn ?t" "\<not> sack_enabled ?t"
    using h q m0 by (simp_all add: countSegment_def updateRcvQueueVars_def Let_def algTimersOk_def plainConn_def)
  obtain ack f u a v where k: "sendAck ?t = Inr (ackSent (emit (ToIP ack (localAddr ?t) (remoteAddr ?t)) ((windowed f u a v ?t)\<lparr>sentBytes := 0\<rparr>)))"
     "v \<le> TCP_MAX_WIN" "handshakeSegment False True (snd_nxt ?t) (rcv_nxt ?t) ?t ack" using sendAck_plain [OF t(5)] by blast
  let ?e = "ackSent (emit (ToIP ack (localAddr ?t) (remoteAddr ?t)) ((windowed f u a v ?t)\<lparr>sentBytes := 0\<rparr>))"
  have "acknowledge r seg ?t = Inr ?e"
    using k(1) t(6) m0 seqChanged_undelayed [OF t(1-4)] by (simp add: acknowledge_def)
  moreover have "\<not> deferredClose s ?e" using h by (simp add: deferredClose_def windowed_def emit_def countSegment_def updateRcvQueueVars_def Let_def)
  ultimately have p: "processSegment1stThru8th seg c = Inr (TCP_E_IGNORE, ?e)"
    unfolding start processBody_def Let_def tx bindR_Inr case_prod_conv using g(5) h(10) by (simp add: processFin_def)
  have tf: "localAddr ?t = localAddr c" "remoteAddr ?t = remoteAddr c" "localPort ?t = localPort c" "remotePort ?t = remotePort c" "snd_nxt ?t = s"
     "finWait2Timer ?t = finWait2Timer c" "the2MSLTimer ?t = the2MSLTimer c" "sendQ ?t = sendQ c" "afterRto ?t = afterRto c" "snd_cwnd ?t = snd_cwnd c"
     "send_fin ?t = send_fin c" "snd_una ?t = snd_una c" "snd_max ?t = snd_max c" "fsm ?t = fsm c" "algTimersOk ?t = algTimersOk c"
    using h by (simp_all add: countSegment_def updateRcvQueueVars_def Let_def algTimersOk_def)
  have "settled TCP_S_ESTABLISHED False s s (r + ?m) (?e\<lparr>actions := []\<rparr>)"
  proof -
    have "algTimersOk (?e\<lparr>actions := []\<rparr>)" "plainConn (?e\<lparr>actions := []\<rparr>)" using h(3) tf(15) t(5) by (simp_all del: updateRcvQueueVars_core)
    then show ?thesis using c k(2) t(4) tf by (simp add: settled_def) (simp add: windowed_def emit_def)
  qed
  moreover have "closeSegment False s (r + ?m) c ack"
    using handshake_closeSegment [OF k(3)] tf by (simp add: closeSegment_def)
  moreover have "actions ?e = [DataToApp n, ToIP ack (localAddr c) (remoteAddr c)]" "receiveQ ?e = \<lparr>rcvq_nxt = r + ?m, regionList = []\<rparr>"
     "sockPairOf ?e = sockPairOf c" using tf by (simp_all add: windowed_def emit_def sockPairOf_def)
  ultimately show ?thesis using p by blast
qed

lemma data_acked:
  assumes c: "awaiting n s r c" "actions c = []" and n: "0 < unat n" "unat n < 2 ^ 16" and seg: "closeSegment False r (s + ucast n) x seg"
  shows "\<exists>e. processSegment1stThru8th seg c = Inr (TCP_E_IGNORE, e) \<and> fsm e = TCP_S_ESTABLISHED \<and> actions e = [] \<and>
     sendQ e = \<lparr>sq_begin = s + ucast n, sq_end = s + ucast n\<rparr> \<and> snd_una e = s + ucast n \<and> snd_nxt e = s + ucast n \<and> snd_max e = s + ucast n \<and>
     rcv_nxt e = r \<and> sockPairOf e = sockPairOf c"
proof -
  let ?m = "ucast n :: u32"
  have h: "fsm c = TCP_S_ESTABLISHED" "sendQ c = \<lparr>sq_begin = s, sq_end = s + ?m\<rparr>" "\<not> send_fin c" "snd_una c = s" "snd_max c = s + ?m" "snd_nxt c = s + ?m"
     "rcv_nxt c = r" "rcv_wnd c \<le> TCP_MAX_WIN" "\<not> ts_enabled c" "\<not> sack_enabled c" using c by (simp_all add: awaiting_def plainConn_def)
  have g: "payloadLength seg = 0" "\<not> rstBit seg" "\<not> synBit seg" "ackBit seg" "\<not> finBit seg" "sequenceNo seg = r" "ackNo seg = s + ?m" "mssOptions seg"
    using seg by (simp_all add: closeSegment_def)
  have m: "unat ?m = unat n" using n by (intro unat_ucast_narrow) simp
  have ls: "seqLess s (s + ?m)" using m n by (simp add: seqLess_off off_def)
  obtain k where k: "readOptions seg c = Inr (c\<lparr>snd_mss := k\<rparr>)" using mssOnly_read [OF g(8)] by blast
  let ?c = "c\<lparr>snd_mss := k\<rparr>"
  have "seqLE (rcv_nxt c) (rcv_nxt c + rcv_wnd c)" using h(8) by (simp add: seqLE_off off_def word_le_nat_alt)
  then have acc: "isSegmentAcceptable seg ?c" using g h by (simp add: isSegmentAcceptable_def Let_def)
  have a: "plainConn ?c" "algTimersOk ?c" "\<not> afterRto ?c" "\<not> lossRecovery ?c" "snd_cwnd ?c \<noteq> 0" "snd_nxt ?c = snd_max ?c" "fsm ?c \<noteq> TCP_S_SYN_RCVD"
    using c(1) by (simp_all add: awaiting_def)
  have b: "ackNo seg = snd_max ?c" "seqLess (snd_una ?c) (snd_max ?c)" using g h ls by simp_all
  have q: "discardAcked seg (?c\<lparr>snd_una := snd_max ?c\<rparr>) = Inr (?c\<lparr>snd_una := snd_max ?c, fin_ack_rcvd := fin_ack_rcvd c, sendQ := \<lparr>sq_begin = s + ?m, sq_end = s + ?m\<rparr>\<rparr>)"
    using h ls by (simp add: discardAcked_def sq_discardUpTo_def Let_def seqLess_imp_seqLE)
  have "getBytesAvailable \<lparr>sq_begin = s + ?m, sq_end = s + ?m\<rparr> (snd_max ?c) = 0"
    using h by (simp add: getBytesAvailable_def bytesAvailable_def getBufferEndSeq_def)
  from all_acked [OF a g(1) b q this] obtain e where e: "processAckInEstabEtc seg ?c = Inr (True, e)" "fsm e = TCP_S_ESTABLISHED" "plainConn e"
     "sendQ e = \<lparr>sq_begin = s + ?m, sq_end = s + ?m\<rparr>" "\<not> send_fin e" "snd_una e = s + ?m" "snd_nxt e = s + ?m" "snd_max e = s + ?m" "rcv_nxt e = r" "actions e = []"
     "sockPairOf e = sockPairOf c" using h c(2) by (auto simp: sockPairOf_def)
  have body: "processBody u v seg TCP_E_IGNORE e = Inr (TCP_E_IGNORE, e)" for u v
    using g e(5) by (simp add: processBody_def processText_def processFin_def acknowledge_def deferredClose_def Let_def)
  have "processSegment1stThru8th seg c = Inr (TCP_E_IGNORE, e)"
    using h g acc k e(1,2) body by (simp add: processSegment1stThru8th_def readOptions_def pawsRejects_def processAckAndBody_def closingStates_def ackState_def Let_def)
  then show ?thesis using e by blast
qed

section \<open>Messages to the two modules\<close>

lemma send_command_step:
  assumes m: "inModule m r key (g, i) c"
    and c: "process_SEND n (c\<lparr>now := t\<rparr>) = Inr c1" "performStateTransition TCP_E_SEND c1 = Inr (True, d)" "sockPairOf d = key"
  shows "\<exists>m'. handleMessage env p t (FromApp g i (Send n)) m = Inr m' \<and> outbox m' = outbox m @ actions d \<and> inModule m' r key (g, i) (d\<lparr>actions := []\<rparr>)"
proof -
  have h: "isOperational m" "findConnForApp g i m = Some r" "conns m r = Some c" using m by (simp_all add: inModule_def findConnForApp_def)
  have cb: "conns (setNow t m) r = Some (c\<lparr>now := t\<rparr>)" using h(3) by simp
  have "processAppCommand (Send n) r (setNow t m) = Inr (True, putConn r d (putConn r c1 (setNow t m)))"
    using cb c by (simp add: processAppCommand_def runCommand_def keepEvent_def updConn_def transition_def onConn_def getConn_def)
  then have "handleMessage env p t (FromApp g i (Send n)) m = finishMessage r (True, putConn r d (putConn r c1 (setNow t m)))"
    using h by (simp add: handleMessage_def connForApp_def Let_def)
  from finish_step [OF this] show ?thesis using m c(3) by (auto simp: inModule_def)
qed

lemma ignore_transition: "fsm c = TCP_S_ESTABLISHED \<Longrightarrow> performStateTransition TCP_E_IGNORE c = Inr (True, c)"
  by (simp add: performStateTransition_def)

lemma dataSegment_key:
  assumes "dataSegment n s a c seg" "sockPairOf c = \<lparr>sp_localAddr = la, sp_remoteAddr = ra, sp_localPort = lp, sp_remotePort = rp\<rparr>"
    "0 \<le> lp" "lp < 65536" "0 \<le> rp" "rp < 65536"
  shows "segmentKey seg la ra = \<lparr>sp_localAddr = ra, sp_remoteAddr = la, sp_localPort = rp, sp_remotePort = lp\<rparr>"
proof -
  have "uint (of_int lp :: u16) = lp" "uint (of_int rp :: u16) = rp" using assms(3-6) by (simp_all add: uint_word_of_int)
  then show ?thesis using assms(1,2) by (simp add: dataSegment_def segmentKey_def segmentKeys_def Let_def sockPairOf_def)
qed

lemma send_message:
  assumes m: "inModule m k key (g, i) c" and c: "settled TCP_S_ESTABLISHED False s s r c" and n: "sendable n c"
  shows "\<exists>m' d seg. handleMessage env p t (FromApp g i (Send n)) m = Inr m' \<and> outbox m' = outbox m @ [ToIP seg (sp_localAddr key) (sp_remoteAddr key)] \<and>
     dataSegment n s r c seg \<and> inModule m' k key (g, i) d \<and> awaiting n s r d \<and> actions d = []"
proof -
  note pair = registered_pair [OF m]
  have "settled TCP_S_ESTABLISHED False s s r (c\<lparr>now := t\<rparr>)" "sendable n (c\<lparr>now := t\<rparr>)" using c n by (simp_all add: sendable_def)
  from send_whole [OF this] obtain d seg where d: "process_SEND n (c\<lparr>now := t\<rparr>) = Inr d" "performStateTransition TCP_E_SEND d = Inr (True, d)"
     "actions d = [ToIP seg (localAddr c) (remoteAddr c)]" "dataSegment n s r c seg" "awaiting n s r d" "sockPairOf d = key"
    using pair by (auto simp: dataSegment_def)
  from send_command_step [OF m d(1,2,6), of env p] obtain m' where "handleMessage env p t (FromApp g i (Send n)) m = Inr m'"
     "outbox m' = outbox m @ [ToIP seg (sp_localAddr key) (sp_remoteAddr key)]" "inModule m' k key (g, i) (d\<lparr>actions := []\<rparr>)"
    using d(3) sockPairOf_fields [OF pair] by auto
  moreover have "awaiting n s r (d\<lparr>actions := []\<rparr>)" "actions (d\<lparr>actions := []\<rparr>) = []" using d(5) by (simp_all add: awaiting_def plainConn_def algTimersOk_def)
  ultimately show ?thesis using d(4) by blast
qed

lemma data_message:
  assumes m: "inModule m k key app c" and c: "settled TCP_S_ESTABLISHED False s s r c" and n: "receivable n c"
    and seg: "dataSegment n r s x seg" "key = segmentKey seg (sp_remoteAddr key) (sp_localAddr key)"
  shows "\<exists>m' d ack. handleMessage env p t (FromIP seg (sp_remoteAddr key) (sp_localAddr key)) m = Inr m' \<and>
     outbox m' = outbox m @ [DataToApp n, ToIP ack (sp_localAddr key) (sp_remoteAddr key)] \<and> closeSegment False s (r + ucast n) c ack \<and>
     inModule m' k key app d \<and> settled TCP_S_ESTABLISHED False s s (r + ucast n) d \<and> receiveQ d = \<lparr>rcvq_nxt = r + ucast n, regionList = []\<rparr>"
proof -
  note pair = registered_pair [OF m]
  have "settled TCP_S_ESTABLISHED False s s r (c\<lparr>now := t\<rparr>)" "receivable n (c\<lparr>now := t\<rparr>)" using c n by (simp_all add: receivable_def)
  from data_arrives [OF this seg(1)] obtain e ack where e: "processSegment1stThru8th seg (c\<lparr>now := t\<rparr>) = Inr (TCP_E_IGNORE, e)"
     "actions e = [DataToApp n, ToIP ack (localAddr c) (remoteAddr c)]" "closeSegment False s (r + ucast n) c ack"
     "settled TCP_S_ESTABLISHED False s s (r + ucast n) (e\<lparr>actions := []\<rparr>)" "receiveQ e = \<lparr>rcvq_nxt = r + ucast n, regionList = []\<rparr>" "sockPairOf e = key"
    using pair by (auto simp: closeSegment_def)
  have "fsm e = TCP_S_ESTABLISHED" using e(4) by (simp add: settled_def)
  note stay = ignore_transition [OF this]
  have "fsm c \<noteq> TCP_S_LISTEN" "fsm c \<noteq> TCP_S_SYN_SENT" using c by (simp_all add: settled_def)
  from registered_segment [OF m seg(2) this e(1) stay e(6), of env p] obtain m' where
     "handleMessage env p t (FromIP seg (sp_remoteAddr key) (sp_localAddr key)) m = Inr m'"
     "outbox m' = outbox m @ [DataToApp n, ToIP ack (sp_localAddr key) (sp_remoteAddr key)]" "inModule m' k key app (e\<lparr>actions := []\<rparr>)"
    using e(2) sockPairOf_fields [OF pair] by auto
  moreover have "receiveQ (e\<lparr>actions := []\<rparr>) = \<lparr>rcvq_nxt = r + ucast n, regionList = []\<rparr>" using e(5) by simp
  ultimately show ?thesis using e(3,4) by blast
qed

lemma data_ack_message:
  assumes m: "inModule m k key app c" and c: "awaiting n s r c" "actions c = []" and n: "0 < unat n" "unat n < 2 ^ 16"
    and seg: "closeSegment False r (s + ucast n) x ack" "key = segmentKey ack (sp_remoteAddr key) (sp_localAddr key)"
  shows "\<exists>m' d. handleMessage env p t (FromIP ack (sp_remoteAddr key) (sp_localAddr key)) m = Inr m' \<and> outbox m' = outbox m \<and>
     inModule m' k key app d \<and> fsm d = TCP_S_ESTABLISHED \<and> sendQ d = \<lparr>sq_begin = s + ucast n, sq_end = s + ucast n\<rparr> \<and>
     snd_una d = s + ucast n \<and> snd_nxt d = s + ucast n \<and> snd_max d = s + ucast n \<and> rcv_nxt d = r"
proof -
  have "awaiting n s r (c\<lparr>now := t\<rparr>)" "actions (c\<lparr>now := t\<rparr>) = []" using c by (simp_all add: awaiting_def plainConn_def algTimersOk_def)
  from data_acked [OF this n seg(1)] obtain e where e: "processSegment1stThru8th ack (c\<lparr>now := t\<rparr>) = Inr (TCP_E_IGNORE, e)" "fsm e = TCP_S_ESTABLISHED" "actions e = []"
     "sendQ e = \<lparr>sq_begin = s + ucast n, sq_end = s + ucast n\<rparr>" "snd_una e = s + ucast n" "snd_nxt e = s + ucast n" "snd_max e = s + ucast n" "rcv_nxt e = r"
     "sockPairOf e = key" using registered_pair [OF m] by auto
  have "fsm c \<noteq> TCP_S_LISTEN" "fsm c \<noteq> TCP_S_SYN_SENT" using c by (simp_all add: awaiting_def)
  from registered_segment [OF m seg(2) this e(1) ignore_transition [OF e(2)] e(9), of env p] obtain m' where
     "handleMessage env p t (FromIP ack (sp_remoteAddr key) (sp_localAddr key)) m = Inr m'" "outbox m' = outbox m" "inModule m' k key app (e\<lparr>actions := []\<rparr>)"
    using e(3) by auto
  then show ?thesis using e by (intro exI [of _ m'] exI [of _ "e\<lparr>actions := []\<rparr>"]) simp
qed

text \<open>
  Data goes from one application to the other and is acknowledged: one segment is sent; the other module hands exactly these
  bytes to its application and acknowledges them; the acknowledgement empties the send queue and leaves the two ends agreeing.
\<close>

lemma data_delivered:
  assumes A: "inModule A k \<lparr>sp_localAddr = la, sp_remoteAddr = ra, sp_localPort = lp, sp_remotePort = rp\<rparr> (g, i) a"
      "settled TCP_S_ESTABLISHED False s s r a" "sendable n a"
    and B: "inModule B l \<lparr>sp_localAddr = ra, sp_remoteAddr = la, sp_localPort = rp, sp_remotePort = lp\<rparr> (h, j) b"
      "settled TCP_S_ESTABLISHED False r r s b" "receivable n b"
    and ports: "0 \<le> lp" "lp < 65536" "0 \<le> rp" "rp < 65536"
  shows "\<exists>A1 A2 B1 seg ack a2 b1.
     handleMessage ea p t1 (FromApp g i (Send n)) A = Inr A1 \<and> outbox A1 = outbox A @ [ToIP seg la ra] \<and> dataSegment n s r a seg \<and>
     handleMessage eb p t2 (FromIP seg la ra) B = Inr B1 \<and> outbox B1 = outbox B @ [DataToApp n, ToIP ack ra la] \<and> payloadLength ack = 0 \<and>
     handleMessage ea p t3 (FromIP ack ra la) A1 = Inr A2 \<and> outbox A2 = outbox A1 \<and>
     conns A2 k = Some a2 \<and> conns B1 l = Some b1 \<and> fsm a2 = TCP_S_ESTABLISHED \<and> fsm b1 = TCP_S_ESTABLISHED \<and>
     sendQ a2 = \<lparr>sq_begin = s + ucast n, sq_end = s + ucast n\<rparr> \<and> receiveQ b1 = \<lparr>rcvq_nxt = s + ucast n, regionList = []\<rparr> \<and>
     snd_una a2 = s + ucast n \<and> snd_nxt a2 = s + ucast n \<and> rcv_nxt b1 = s + ucast n \<and> rcv_nxt a2 = r \<and> snd_nxt b1 = r"
proof -
  let ?ka = "\<lparr>sp_localAddr = la, sp_remoteAddr = ra, sp_localPort = lp, sp_remotePort = rp\<rparr>"
  let ?kb = "\<lparr>sp_localAddr = ra, sp_remoteAddr = la, sp_localPort = rp, sp_remotePort = lp\<rparr>"
  have f: "sp_localAddr ?ka = la" "sp_remoteAddr ?ka = ra" "sp_localAddr ?kb = ra" "sp_remoteAddr ?kb = la" by simp_all
  obtain A1 a1 seg where 1: "handleMessage ea p t1 (FromApp g i (Send n)) A = Inr A1" "outbox A1 = outbox A @ [ToIP seg la ra]"
     "dataSegment n s r a seg" "inModule A1 k ?ka (g, i) a1" "awaiting n s r a1" "actions a1 = []"
    using send_message [OF A, of ea p t1] unfolding f by blast
  have toB: "?kb = segmentKey seg (sp_remoteAddr ?kb) (sp_localAddr ?kb)"
    using dataSegment_key [OF 1(3) registered_pair [OF A(1)] ports] by simp
  obtain B1 b1 ack where 2: "handleMessage eb p t2 (FromIP seg la ra) B = Inr B1" "outbox B1 = outbox B @ [DataToApp n, ToIP ack ra la]"
     "closeSegment False r (s + ucast n) b ack" "inModule B1 l ?kb (h, j) b1" "settled TCP_S_ESTABLISHED False r r (s + ucast n) b1"
     "receiveQ b1 = \<lparr>rcvq_nxt = s + ucast n, regionList = []\<rparr>"
    using data_message [OF B 1(3) toB, of eb p t2] unfolding f by blast
  have toA: "?ka = segmentKey ack (sp_remoteAddr ?ka) (sp_localAddr ?ka)"
    using closeSegment_key [OF 2(3) registered_pair [OF B(1)] ports(3,4,1,2)] by simp
  have n: "0 < unat n" "unat n < 2 ^ 16" using A(3) by (simp_all add: sendable_def)
  obtain A2 a2 where 3: "handleMessage ea p t3 (FromIP ack ra la) A1 = Inr A2" "outbox A2 = outbox A1" "inModule A2 k ?ka (g, i) a2" "fsm a2 = TCP_S_ESTABLISHED"
     "sendQ a2 = \<lparr>sq_begin = s + ucast n, sq_end = s + ucast n\<rparr>" "snd_una a2 = s + ucast n" "snd_nxt a2 = s + ucast n" "rcv_nxt a2 = r"
    using data_ack_message [OF 1(4-6) n 2(3) toA, of ea p t3] unfolding f by blast
  have "conns A2 k = Some a2" "conns B1 l = Some b1" using 2(4) 3(3) by (simp_all add: inModule_def)
  moreover have "dataSegment n s r a seg" "payloadLength ack = 0" using 1(3) 2(3) by (simp_all add: closeSegment_def)
  moreover have "fsm b1 = TCP_S_ESTABLISHED" "rcv_nxt b1 = s + ucast n" "snd_nxt b1 = r" using 2(5) by (simp_all add: settled_def)
  ultimately show ?thesis using 1(1,2) 2(1,2,6) 3(1,2,4-8) by blast
qed

definition transferSender :: tcp_conn where
  "transferSender = (sampleSettled (Address 1) (Address 2) 1025 80 1000 500)\<lparr>snd_wnd := 14336, sendQueueLimit := 0\<rparr>"

definition transferReceiver :: tcp_conn where
  "transferReceiver = (sampleSettled (Address 2) (Address 1) 80 1025 500 1000)
     \<lparr>receiveQ := \<lparr>rcvq_nxt = 1000, regionList = []\<rparr>, fin_rcvd := False, maxRcvBuffer := 14336, delayed_acks_enabled := False, last_ack_sent := 1000\<rparr>"

lemmas transfer_samples = transferSender_def transferReceiver_def sampleSettled_def sampleConn_def newConnection_def newAlgStateVariables_def
  newStateVariables_def tcp_state_variables.defs tcp_alg_state_variables.defs

lemma transferSender_ready:
  "inModule (sampleModule transferSender) 3 \<lparr>sp_localAddr = Address 1, sp_remoteAddr = Address 2, sp_localPort = 1025, sp_remotePort = 80\<rparr> (0, 7) transferSender"
  "settled TCP_S_ESTABLISHED False 1000 1000 500 transferSender" "sendable 100 transferSender"
  by (simp add: inModule_def sampleModule_def newMain_def transferSender_def sampleSettled_def sockPairOf_def,
      simp add: settled_def plainConn_def algTimersOk_def transfer_samples, simp add: sendable_def transfer_samples)

lemma transferReceiver_ready:
  "inModule (sampleModule transferReceiver) 3 \<lparr>sp_localAddr = Address 2, sp_remoteAddr = Address 1, sp_localPort = 80, sp_remotePort = 1025\<rparr> (0, 7) transferReceiver"
  "settled TCP_S_ESTABLISHED False 500 500 1000 transferReceiver" "receivable 100 transferReceiver"
  by (simp add: inModule_def sampleModule_def newMain_def transferReceiver_def sampleSettled_def sockPairOf_def,
      simp add: settled_def plainConn_def algTimersOk_def transfer_samples, simp add: receivable_def transfer_samples)

end
