(* ===== verification/Ser_Buffer.thy ===== *)
theory Ser_Buffer
  imports Prelude
begin

unbundle bit_operations_syntax

text \<open>
  The byte buffer of the packet serializers, \<open>src/inet/common/serializer/Buffer.h\<close> and \<open>Buffer.cc\<close>: a block of bytes, a
  position and an error flag. Reads past the end yield zero bytes and writes past the end are dropped; both set the flag.
  The integers are stored in network byte order.

  A size or position is an \<open>unsigned int\<close> of the code. Positions never exceed the size of the block (\<open>bufOk\<close>, kept by every
  operation below), so the only sum that can wrap around is the one in \<open>accessNBytes\<close>, where \<open>mod\<close> is written out.
\<close>

section \<open>The buffer\<close>

record buffer =
  buf :: "u8 list"
  pos :: nat
  errorFound :: bool

abbreviation bufsize :: "buffer \<Rightarrow> nat" where
  "bufsize b \<equiv> length (buf b)"

definition newBuffer :: "u8 list \<Rightarrow> buffer" where
  "newBuffer xs = \<lparr>buf = xs, pos = 0, errorFound = False\<rparr>"

definition subBuffer :: "buffer \<Rightarrow> nat \<Rightarrow> buffer" where
  "subBuffer base maxLength = newBuffer (take (min (bufsize base - pos base) maxLength) (drop (pos base) (buf base)))"

definition seek :: "nat \<Rightarrow> buffer \<Rightarrow> buffer" where
  "seek newpos b = (if newpos \<le> bufsize b then b\<lparr>pos := newpos\<rparr> else b\<lparr>pos := bufsize b, errorFound := True\<rparr>)"

definition getRemainingSize :: "buffer \<Rightarrow> nat" where
  "getRemainingSize b = bufsize b - pos b"

definition getRemainingSizeReserved :: "nat \<Rightarrow> buffer \<Rightarrow> nat" where
  "getRemainingSizeReserved reservedSize b =
     (if bufsize b - pos b > reservedSize then (bufsize b - pos b) - reservedSize else 0)"

definition setError :: "buffer \<Rightarrow> buffer" where
  "setError b = b\<lparr>errorFound := True\<rparr>"

section \<open>Reading\<close>

definition readByte :: "buffer \<Rightarrow> u8 \<times> buffer" where
  "readByte b = (if pos b \<ge> bufsize b then (0, setError b) else (buf b ! pos b, b\<lparr>pos := pos b + 1\<rparr>))"

fun readNBytes :: "nat \<Rightarrow> buffer \<Rightarrow> u8 list \<times> buffer" where
  "readNBytes 0 b = ([], b)"
| "readNBytes (Suc len) b =
     (let (x, b1) = readByte b; (xs, b2) = readNBytes len b1 in (x # xs, b2))"

text \<open>The line \<open>if (pos < bufsize) ret += (T)(buf[pos++]) << k\<close> of the integer readers, and their last one, which has an \<open>else\<close>.\<close>

definition addByte :: "nat \<Rightarrow> 'a::len word \<times> buffer \<Rightarrow> 'a word \<times> buffer" where
  "addByte k = (\<lambda>(ret, b). if pos b < bufsize b then (ret + push_bit k (ucast (buf b ! pos b)), b\<lparr>pos := pos b + 1\<rparr>) else (ret, b))"

definition addLastByte :: "'a::len word \<times> buffer \<Rightarrow> 'a word \<times> buffer" where
  "addLastByte = (\<lambda>(ret, b). if pos b < bufsize b then (ret + ucast (buf b ! pos b), b\<lparr>pos := pos b + 1\<rparr>) else (ret, setError b))"

definition readUint16 :: "buffer \<Rightarrow> u16 \<times> buffer" where
  "readUint16 b = addLastByte (addByte 8 (0, b))"

definition readUint32 :: "buffer \<Rightarrow> u32 \<times> buffer" where
  "readUint32 b = addLastByte (addByte 8 (addByte 16 (addByte 24 (0, b))))"

definition readUint64 :: "buffer \<Rightarrow> u64 \<times> buffer" where
  "readUint64 b = addLastByte (addByte 8 (addByte 16 (addByte 24 (addByte 32 (addByte 40 (addByte 48 (addByte 56 (0, b))))))))"

definition readIPv6Address :: "buffer \<Rightarrow> (u32 \<times> u32 \<times> u32 \<times> u32) \<times> buffer" where
  "readIPv6Address b =
     (let (d0, b) = readUint32 b; (d1, b) = readUint32 b; (d2, b) = readUint32 b; (d3, b) = readUint32 b
      in ((d0, d1, d2, d3), b))"

section \<open>Writing\<close>

text \<open>\<open>if (pos < bufsize) buf[pos++] = x\<close>\<close>

definition storeByte :: "u8 \<Rightarrow> buffer \<Rightarrow> buffer" where
  "storeByte x b = (if pos b < bufsize b then b\<lparr>buf := (buf b)[pos b := x], pos := pos b + 1\<rparr> else b)"

definition storeLastByte :: "u8 \<Rightarrow> buffer \<Rightarrow> buffer" where
  "storeLastByte x b = (if pos b < bufsize b then storeByte x b else setError b)"

definition writeByte :: "u8 \<Rightarrow> buffer \<Rightarrow> buffer" where
  "writeByte x b = (if pos b \<ge> bufsize b then setError b else b\<lparr>buf := (buf b)[pos b := x], pos := pos b + 1\<rparr>)"

definition writeByteTo :: "nat \<Rightarrow> u8 \<Rightarrow> buffer \<Rightarrow> buffer" where
  "writeByteTo position x b = (if position \<ge> bufsize b then setError b else b\<lparr>buf := (buf b)[position := x]\<rparr>)"

fun writeNBytes :: "u8 list \<Rightarrow> buffer \<Rightarrow> buffer" where
  "writeNBytes [] b = b"
| "writeNBytes (x # xs) b =
     (if pos b < bufsize b then writeNBytes xs (b\<lparr>buf := (buf b)[pos b := x], pos := pos b + 1\<rparr>) else setError b)"

fun writeFromBuffer :: "nat \<Rightarrow> buffer \<Rightarrow> buffer \<Rightarrow> buffer \<times> buffer" where
  "writeFromBuffer 0 inp b = (inp, b)"
| "writeFromBuffer (Suc len) inp b =
     (if pos b < bufsize b
      then (case readByte inp of (x, inp1) \<Rightarrow> writeFromBuffer len inp1 (b\<lparr>buf := (buf b)[pos b := x], pos := pos b + 1\<rparr>))
      else (inp, setError b))"

fun fillNBytes :: "nat \<Rightarrow> u8 \<Rightarrow> buffer \<Rightarrow> buffer" where
  "fillNBytes 0 x b = b"
| "fillNBytes (Suc len) x b =
     (if pos b < bufsize b then fillNBytes len x (b\<lparr>buf := (buf b)[pos b := x], pos := pos b + 1\<rparr>) else setError b)"

definition writeUint16 :: "u16 \<Rightarrow> buffer \<Rightarrow> buffer" where
  "writeUint16 v b = storeLastByte (ucast v) (storeByte (ucast (drop_bit 8 v)) b)"

definition writeUint16To :: "nat \<Rightarrow> u16 \<Rightarrow> buffer \<Rightarrow> buffer" where
  "writeUint16To position v b =
     (let (position', b1) = (if position < bufsize b then (position + 1, b\<lparr>buf := (buf b)[position := ucast (drop_bit 8 v)]\<rparr>) else (position, b))
      in if position' < bufsize b1 then b1\<lparr>buf := (buf b1)[position' := ucast v]\<rparr> else setError b1)"

definition writeUint32 :: "u32 \<Rightarrow> buffer \<Rightarrow> buffer" where
  "writeUint32 v b =
     storeLastByte (ucast v) (storeByte (ucast (drop_bit 8 v)) (storeByte (ucast (drop_bit 16 v)) (storeByte (ucast (drop_bit 24 v)) b)))"

definition writeUint64 :: "u64 \<Rightarrow> buffer \<Rightarrow> buffer" where
  "writeUint64 v b =
     storeLastByte (ucast v) (storeByte (ucast (drop_bit 8 v)) (storeByte (ucast (drop_bit 16 v)) (storeByte (ucast (drop_bit 24 v))
       (storeByte (ucast (drop_bit 32 v)) (storeByte (ucast (drop_bit 40 v)) (storeByte (ucast (drop_bit 48 v)) (storeByte (ucast (drop_bit 56 v)) b)))))))"

definition writeIPv6Address :: "u32 \<times> u32 \<times> u32 \<times> u32 \<Rightarrow> buffer \<Rightarrow> buffer" where
  "writeIPv6Address = (\<lambda>(d0, d1, d2, d3) b. writeUint32 d3 (writeUint32 d2 (writeUint32 d1 (writeUint32 d0 b))))"

text \<open>The pointer that \<open>accessNBytes\<close> returns is represented by the offset it points to.\<close>

definition accessNBytes :: "nat \<Rightarrow> buffer \<Rightarrow> nat option \<times> buffer" where
  "accessNBytes len b =
     (if (pos b + len) mod 2 ^ 32 \<le> bufsize b then (Some (pos b), b\<lparr>pos := (pos b + len) mod 2 ^ 32\<rparr>)
      else (None, b\<lparr>pos := bufsize b, errorFound := True\<rparr>))"

lemma newBuffer_fields [simp]: "buf (newBuffer xs) = xs" "pos (newBuffer xs) = 0" "\<not> errorFound (newBuffer xs)"
  by (simp_all add: newBuffer_def)

section \<open>Positions stay inside the block\<close>

definition bufOk :: "buffer \<Rightarrow> bool" where
  "bufOk b \<longleftrightarrow> pos b \<le> bufsize b"

named_theorems buf_ok \<open>operations on buffers keep the position inside the block\<close>

lemma bufOk_new [buf_ok]: "bufOk (newBuffer xs)" "bufOk (subBuffer b n)"
  by (simp_all add: bufOk_def newBuffer_def subBuffer_def)

lemma bufOk_seek [buf_ok]: "bufOk (seek n b)"
  by (simp add: bufOk_def seek_def)

lemma bufOk_setError [buf_ok]: "bufOk b \<Longrightarrow> bufOk (setError b)"
  by (simp add: bufOk_def setError_def)

lemma bufOk_readByte [buf_ok]: "bufOk b \<Longrightarrow> bufOk (snd (readByte b))"
  by (simp add: bufOk_def readByte_def setError_def)

lemma bufOk_store [buf_ok]:
  "bufOk b \<Longrightarrow> bufOk (storeByte x b)" "bufOk b \<Longrightarrow> bufOk (storeLastByte x b)" "bufOk b \<Longrightarrow> bufOk (writeByte x b)"
  "bufOk b \<Longrightarrow> bufOk (writeByteTo k x b)" "bufOk b \<Longrightarrow> bufOk (writeUint16To k v b)"
  by (simp_all add: bufOk_def storeByte_def storeLastByte_def writeByte_def writeByteTo_def writeUint16To_def setError_def)

lemma bufOk_access [buf_ok]: "bufOk (snd (accessNBytes n b))"
  by (simp add: bufOk_def accessNBytes_def)

lemma bufOk_loops [buf_ok]:
  "bufOk b \<Longrightarrow> bufOk (writeNBytes xs b)" "bufOk b \<Longrightarrow> bufOk (fillNBytes n x b)" "bufOk b \<Longrightarrow> bufOk (snd (readNBytes n b))"
proof -
  show "bufOk b \<Longrightarrow> bufOk (writeNBytes xs b)" by (induction xs b rule: writeNBytes.induct) (auto simp: bufOk_def setError_def)
  show "bufOk b \<Longrightarrow> bufOk (fillNBytes n x b)" by (induction n x b rule: fillNBytes.induct) (auto simp: bufOk_def setError_def)
  show "bufOk b \<Longrightarrow> bufOk (snd (readNBytes n b))"
  proof (induction n arbitrary: b)
    case (Suc n)
    from Suc.IH [OF bufOk_readByte [OF Suc.prems]] show ?case by (auto simp: Let_def split: prod.split)
  qed simp
qed

section \<open>Writing and reading as operations on byte strings\<close>

definition room :: "nat \<Rightarrow> buffer \<Rightarrow> bool" where
  "room n b \<longleftrightarrow> pos b + n \<le> bufsize b"

definition put :: "u8 list \<Rightarrow> buffer \<Rightarrow> buffer" where
  "put xs b = b\<lparr>buf := take (pos b) (buf b) @ xs @ drop (pos b + length xs) (buf b), pos := pos b + length xs\<rparr>"

definition ahead :: "buffer \<Rightarrow> u8 list" where
  "ahead b = drop (pos b) (buf b)"

definition skip :: "nat \<Rightarrow> buffer \<Rightarrow> buffer" where
  "skip n b = b\<lparr>pos := pos b + n\<rparr>"

lemma put_Nil [simp]: "put [] b = b"
  by (simp add: put_def)

lemma put_pos [simp]: "pos (put xs b) = pos b + length xs" "errorFound (put xs b) = errorFound b"
  by (simp_all add: put_def)

lemma put_size: "room (length xs) b \<Longrightarrow> bufsize (put xs b) = bufsize b"
  by (auto simp: room_def put_def)

lemma put_put:
  assumes "room (length xs + length ys) b"
  shows "put ys (put xs b) = put (xs @ ys) b"
  using assms by (simp add: put_def room_def add.assoc add.commute [of "length ys"])

lemma room_put [simp]: "room (length xs + n) b \<Longrightarrow> room n (put xs b)"
  by (auto simp: room_def put_size)

lemma room_less: "room n b \<Longrightarrow> m \<le> n \<Longrightarrow> room m b"
  by (simp add: room_def)

lemma put_one: "room 1 b \<Longrightarrow> b\<lparr>buf := (buf b)[pos b := x], pos := pos b + 1\<rparr> = put [x] b"
  by (simp add: put_def room_def upd_conv_take_nth_drop)

lemma storeByte_put: "room 1 b \<Longrightarrow> storeByte x b = put [x] b" "room 1 b \<Longrightarrow> storeLastByte x b = put [x] b" "room 1 b \<Longrightarrow> writeByte x b = put [x] b"
  using put_one [of b x] by (simp_all add: storeByte_def storeLastByte_def writeByte_def room_def)

lemma writeNBytes_put: "room (length xs) b \<Longrightarrow> writeNBytes xs b = put xs b"
proof (induction xs arbitrary: b)
  case (Cons x xs)
  have r: "room 1 b" "pos b < bufsize b" "room (length xs) (put [x] b)" using Cons.prems by (auto simp: room_def put_size)
  have "writeNBytes (x # xs) b = writeNBytes xs (put [x] b)" using r put_one [OF r(1), of x] by simp
  also have "\<dots> = put (x # xs) b" using Cons.IH [OF r(3)] put_put [of "[x]" xs b] Cons.prems by simp
  finally show ?case .
qed simp

lemma fillNBytes_put: "room n b \<Longrightarrow> fillNBytes n x b = put (replicate n x) b"
proof (induction n arbitrary: b)
  case (Suc n)
  have r: "room 1 b" "pos b < bufsize b" "room n (put [x] b)" using Suc.prems by (auto simp: room_def put_size)
  have "fillNBytes (Suc n) x b = fillNBytes n x (put [x] b)" using r put_one [OF r(1), of x] by simp
  also have "\<dots> = put (replicate (Suc n) x) b" using Suc.IH [OF r(3)] put_put [of "[x]" "replicate n x" b] Suc.prems by simp
  finally show ?case .
qed simp

lemma ahead_skip [simp]: "ahead (skip n b) = drop n (ahead b)"
  by (simp add: ahead_def skip_def add.commute)

lemma skip_skip [simp]: "skip m (skip n b) = skip (n + m) b"
  by (simp add: skip_def)

lemma skip_0 [simp]: "skip 0 b = b"
  by (simp add: skip_def)

lemma skip_fields [simp]: "pos (skip n b) = pos b + n" "buf (skip n b) = buf b" "errorFound (skip n b) = errorFound b"
  by (simp_all add: skip_def)

lemma ahead_Cons: "ahead b = x # xs \<Longrightarrow> pos b < bufsize b \<and> buf b ! pos b = x \<and> ahead (skip 1 b) = xs"
proof -
  assume a: "ahead b = x # xs"
  then have p: "pos b < bufsize b" by (metis ahead_def drop_all linorder_not_less list.distinct(1))
  then have "ahead b = buf b ! pos b # drop (Suc (pos b)) (buf b)" by (simp add: ahead_def Cons_nth_drop_Suc)
  then show ?thesis using a p by (simp add: ahead_def skip_def)
qed

lemma readByte_ahead: "ahead b = x # xs \<Longrightarrow> readByte b = (x, skip 1 b)"
  using ahead_Cons [of b x xs] by (simp add: readByte_def skip_def)

lemma addByte_ahead:
  "ahead b = x # xs \<Longrightarrow> addByte k (ret, b) = (ret + push_bit k (ucast x), skip 1 b)"
  "ahead b = x # xs \<Longrightarrow> addLastByte (ret, b) = (ret + ucast x, skip 1 b)"
  using ahead_Cons [of b x xs] by (simp_all add: addByte_def addLastByte_def skip_def)

lemma readNBytes_ahead: "ahead b = xs @ rest \<Longrightarrow> readNBytes (length xs) b = (xs, skip (length xs) b)"
proof (induction xs arbitrary: b)
  case (Cons x xs)
  from Cons.prems have a: "ahead b = x # (xs @ rest)" by simp
  then have "ahead (skip 1 b) = xs @ rest" by simp
  from Cons.IH [OF this] show ?case using readByte_ahead [OF a] by (simp add: Let_def)
qed simp

section \<open>Fixed-width fields\<close>

text \<open>
  The contract of a field: it occupies the bytes \<open>enc x\<close>; writing it puts them at the position, and reading them gives \<open>x\<close> back,
  for the values \<open>ok x\<close> that the field can carry.
\<close>

locale field =
  fixes enc :: "'a \<Rightarrow> u8 list" and wr :: "'a \<Rightarrow> buffer \<Rightarrow> buffer" and rd :: "buffer \<Rightarrow> 'a \<times> buffer"
  assumes wr_put: "room (length (enc x)) b \<Longrightarrow> wr x b = put (enc x) b"
    and rd_get: "ahead b = enc x @ rest \<Longrightarrow> rd b = (x, skip (length (enc x)) b)"
begin

lemma read_back:
  assumes "room (length (enc x)) b"
  shows "rd (seek (pos b) (wr x b)) = (x, wr x b)"
proof -
  have w: "wr x b = put (enc x) b" by (rule wr_put [OF assms])
  have p: "pos b \<le> bufsize (put (enc x) b)" using assms by (simp add: put_size room_def)
  then have s: "skip (length (enc x)) (seek (pos b) (put (enc x) b)) = put (enc x) b" by (simp add: seek_def skip_def)
  have "length (take (pos b) (buf b)) = pos b" using assms by (simp add: room_def)
  then have "ahead (seek (pos b) (put (enc x) b)) = enc x @ drop (pos b + length (enc x)) (buf b)"
    using p by (simp add: seek_def ahead_def put_def)
  from rd_get [OF this] show ?thesis unfolding w s .
qed

lemma write_after: "room (length xs + length (enc x)) b \<Longrightarrow> wr x (put xs b) = put (xs @ enc x) b"
  using wr_put [of x "put xs b"] put_put [of xs "enc x" b] by simp

lemma write_all: "room (length (concat (map enc xs))) b \<Longrightarrow> fold wr xs b = put (concat (map enc xs)) b"
proof (induction xs arbitrary: b)
  case (Cons x xs)
  have r: "room (length (enc x)) b" using Cons.prems by (simp add: room_def)
  have "room (length (concat (map enc xs))) (put (enc x) b)" using Cons.prems by simp
  from Cons.IH [OF this] show ?case using wr_put [OF r] put_put [of "enc x" "concat (map enc xs)" b] Cons.prems by simp
qed simp

lemma write_all_after: "room (length ys + length (concat (map enc xs))) b \<Longrightarrow> fold wr xs (put ys b) = put (ys @ concat (map enc xs)) b"
  using write_all [of xs "put ys b"] put_put [of ys "concat (map enc xs)" b] by simp

end

text \<open>Two fields in sequence are a field again.\<close>

locale two_fields = fst: field encA wrA rdA + snd: field encB wrB rdB
  for encA :: "'a \<Rightarrow> u8 list" and wrA rdA and encB :: "'b \<Rightarrow> u8 list" and wrB rdB
begin

lemma pair_field:
  "field (\<lambda>(x, y). encA x @ encB y) (\<lambda>(x, y) b. wrB y (wrA x b)) (\<lambda>b. case rdA b of (x, b1) \<Rightarrow> case rdB b1 of (y, b2) \<Rightarrow> ((x, y), b2))"
proof
  fix p :: "'a \<times> 'b" and b
  obtain x y where p: "p = (x, y)" by (rule prod.exhaust)
  assume "room (length (case p of (x, y) \<Rightarrow> encA x @ encB y)) b"
  then have r: "room (length (encA x) + length (encB y)) b" by (simp add: p)
  have "wrA x b = put (encA x) b" by (rule fst.wr_put) (rule room_less [OF r], simp)
  moreover have "wrB y (put (encA x) b) = put (encB y) (put (encA x) b)" by (rule snd.wr_put) (rule room_put [OF r])
  ultimately show "(case p of (x, y) \<Rightarrow> \<lambda>b. wrB y (wrA x b)) b = put (case p of (x, y) \<Rightarrow> encA x @ encB y) b"
    using put_put [OF r] by (simp add: p)
next
  fix p :: "'a \<times> 'b" and b rest
  obtain x y where p: "p = (x, y)" by (rule prod.exhaust)
  assume "ahead b = (case p of (x, y) \<Rightarrow> encA x @ encB y) @ rest"
  then have a: "ahead b = encA x @ (encB y @ rest)" by (simp add: p)
  then have "ahead (skip (length (encA x)) b) = encB y @ rest" by simp
  from fst.rd_get [OF a] snd.rd_get [OF this]
  show "(case rdA b of (x, b1) \<Rightarrow> case rdB b1 of (y, b2) \<Rightarrow> ((x, y), b2)) = (p, skip (length (case p of (x, y) \<Rightarrow> encA x @ encB y)) b)"
    by (simp add: p)
qed

end

definition bytes16 :: "u16 \<Rightarrow> u8 list" where
  "bytes16 v = [ucast (drop_bit 8 v), ucast v]"

definition bytes32 :: "u32 \<Rightarrow> u8 list" where
  "bytes32 v = [ucast (drop_bit 24 v), ucast (drop_bit 16 v), ucast (drop_bit 8 v), ucast v]"

definition bytes64 :: "u64 \<Rightarrow> u8 list" where
  "bytes64 v = [ucast (drop_bit 56 v), ucast (drop_bit 48 v), ucast (drop_bit 40 v), ucast (drop_bit 32 v),
     ucast (drop_bit 24 v), ucast (drop_bit 16 v), ucast (drop_bit 8 v), ucast v]"

lemma bytes_length [simp]: "length (bytes16 v) = 2" "length (bytes32 w) = 4" "length (bytes64 x) = 8"
  by (simp_all add: bytes16_def bytes32_def bytes64_def)

lemma split_byte:
  fixes w :: "'a::len word"
  assumes "k + 8 \<le> LENGTH('a)"
  shows "push_bit k (ucast (ucast (drop_bit k w) :: u8)) + take_bit k w = take_bit (k + 8) w"
proof -
  have "push_bit k (ucast (ucast (drop_bit k w) :: u8)) + take_bit k w = or (push_bit k (ucast (ucast (drop_bit k w) :: u8))) (take_bit k w)"
    by (rule disjunctive_add) (auto simp: bit_simps)
  also have "\<dots> = take_bit (k + 8) w" by (rule bit_eqI) (use assms in \<open>auto simp: bit_simps\<close>)
  finally show ?thesis .
qed

lemma low_byte:
  fixes w :: "'a::len word"
  assumes "8 \<le> LENGTH('a)"
  shows "ucast (ucast w :: u8) = take_bit 8 w"
  by (rule bit_eqI) (use assms in \<open>auto simp: bit_simps\<close>)

lemma join16: "push_bit 8 (ucast (ucast (drop_bit 8 v) :: u8)) + ucast (ucast v :: u8) = (v :: u16)"
  using split_byte [of 8 v] by (simp add: low_byte take_bit_word_eq_self)

lemma join32: "push_bit 24 (ucast (ucast (drop_bit 24 v) :: u8)) + push_bit 16 (ucast (ucast (drop_bit 16 v) :: u8)) +
    push_bit 8 (ucast (ucast (drop_bit 8 v) :: u8)) + ucast (ucast v :: u8) = (v :: u32)"
  using split_byte [of 8 v] split_byte [of 16 v] split_byte [of 24 v] by (simp add: low_byte add.assoc take_bit_word_eq_self)

lemma join64: "push_bit 56 (ucast (ucast (drop_bit 56 v) :: u8)) + push_bit 48 (ucast (ucast (drop_bit 48 v) :: u8)) +
    push_bit 40 (ucast (ucast (drop_bit 40 v) :: u8)) + push_bit 32 (ucast (ucast (drop_bit 32 v) :: u8)) +
    push_bit 24 (ucast (ucast (drop_bit 24 v) :: u8)) + push_bit 16 (ucast (ucast (drop_bit 16 v) :: u8)) +
    push_bit 8 (ucast (ucast (drop_bit 8 v) :: u8)) + ucast (ucast v :: u8) = (v :: u64)"
  using split_byte [of 8 v] split_byte [of 16 v] split_byte [of 24 v] split_byte [of 32 v] split_byte [of 40 v] split_byte [of 48 v]
    split_byte [of 56 v] by (simp add: low_byte add.assoc take_bit_word_eq_self)

lemma field_byte: "field (\<lambda>x. [x]) writeByte readByte"
  by standard (simp_all add: storeByte_put readByte_ahead)

interpretation f8: field "\<lambda>x. [x]" writeByte readByte
  by (rule field_byte)

text \<open>Several bytes stored one after the other, the last one with the error check.\<close>

lemma stores_put: "room (length xs) b \<Longrightarrow> fold storeByte xs b = put xs b"
proof (induction xs arbitrary: b)
  case (Cons x xs)
  have "storeByte x b = put [x] b" by (rule storeByte_put) (rule room_less [OF Cons.prems], simp)
  moreover have "room (length xs) (put [x] b)" using Cons.prems by simp
  ultimately show ?case using Cons.IH put_put [of "[x]" xs b] Cons.prems by simp
qed simp

lemma stores_last_put:
  assumes "room (length xs + 1) b"
  shows "storeLastByte y (fold storeByte xs b) = put (xs @ [y]) b"
proof -
  have "fold storeByte xs b = put xs b" by (rule stores_put) (rule room_less [OF assms], simp)
  moreover have "storeLastByte y (put xs b) = put [y] (put xs b)" by (rule storeByte_put) (rule room_put [OF assms])
  ultimately show ?thesis using put_put [of xs "[y]" b] assms by simp
qed

text \<open>Several bytes added up one after the other.\<close>

lemma adds_ahead:
  "ahead b = map snd xs @ rest \<Longrightarrow> fold (\<lambda>(k, x). addByte k) xs (ret, b) = (fold (\<lambda>(k, x) r. r + push_bit k (ucast x)) xs ret, skip (length xs) b)"
proof (induction xs arbitrary: b ret)
  case (Cons p xs)
  obtain k x where p: "p = (k, x)" by (rule prod.exhaust)
  have a: "ahead b = x # (map snd xs @ rest)" using Cons.prems p by simp
  then have "ahead (skip 1 b) = map snd xs @ rest" by simp
  from Cons.IH [OF this, of "ret + push_bit k (ucast x)"] addByte_ahead(1) [OF a, of k ret] show ?case by (simp add: p)
qed simp

interpretation f16: field bytes16 writeUint16 readUint16
proof
  fix v :: u16 and b rest
  let ?y = "ucast v :: u8" and ?d = "\<lambda>k. ucast (drop_bit k v) :: u8"
  show "room (length (bytes16 v)) b \<Longrightarrow> writeUint16 v b = put (bytes16 v) b"
    using stores_last_put [of "[?d 8]" b ?y] by (simp add: writeUint16_def bytes16_def)
  let ?p = "[(8, ?d 8)] :: (nat \<times> u8) list"
  assume "ahead b = bytes16 v @ rest"
  then have a: "ahead b = map snd ?p @ (?y # rest)" by (simp add: bytes16_def)
  then have "ahead (skip (length ?p) b) = ?y # rest" by simp
  from adds_ahead [OF a, of "0 :: u16"] addByte_ahead(2) [OF this, where 'a = 16] join16 [of v] show "readUint16 b = (v, skip (length (bytes16 v)) b)"
    by (simp add: readUint16_def eval_nat_numeral(2-3))
qed

interpretation f32: field bytes32 writeUint32 readUint32
proof
  fix v :: u32 and b rest
  let ?y = "ucast v :: u8" and ?d = "\<lambda>k. ucast (drop_bit k v) :: u8"
  show "room (length (bytes32 v)) b \<Longrightarrow> writeUint32 v b = put (bytes32 v) b"
    using stores_last_put [of "[?d 24, ?d 16, ?d 8]" b ?y] by (simp add: writeUint32_def bytes32_def)
  let ?p = "[(24, ?d 24), (16, ?d 16), (8, ?d 8)] :: (nat \<times> u8) list"
  assume "ahead b = bytes32 v @ rest"
  then have a: "ahead b = map snd ?p @ (?y # rest)" by (simp add: bytes32_def)
  then have "ahead (skip (length ?p) b) = ?y # rest" by simp
  from adds_ahead [OF a, of "0 :: u32"] addByte_ahead(2) [OF this, where 'a = 32] join32 [of v] show "readUint32 b = (v, skip (length (bytes32 v)) b)"
    by (simp add: readUint32_def eval_nat_numeral(2-3))
qed

interpretation f64: field bytes64 writeUint64 readUint64
proof
  fix v :: u64 and b rest
  let ?y = "ucast v :: u8" and ?d = "\<lambda>k. ucast (drop_bit k v) :: u8"
  show "room (length (bytes64 v)) b \<Longrightarrow> writeUint64 v b = put (bytes64 v) b"
    using stores_last_put [of "[?d 56, ?d 48, ?d 40, ?d 32, ?d 24, ?d 16, ?d 8]" b ?y] by (simp add: writeUint64_def bytes64_def)
  let ?p = "[(56, ?d 56), (48, ?d 48), (40, ?d 40), (32, ?d 32), (24, ?d 24), (16, ?d 16), (8, ?d 8)] :: (nat \<times> u8) list"
  assume "ahead b = bytes64 v @ rest"
  then have a: "ahead b = map snd ?p @ (?y # rest)" by (simp add: bytes64_def)
  then have "ahead (skip (length ?p) b) = ?y # rest" by simp
  from adds_ahead [OF a, of "0 :: u64"] addByte_ahead(2) [OF this, where 'a = 64] join64 [of v] show "readUint64 b = (v, skip (length (bytes64 v)) b)"
    by (simp add: readUint64_def eval_nat_numeral(2-3))
qed

interpretation f32x2: two_fields bytes32 writeUint32 readUint32 bytes32 writeUint32 readUint32
  by unfold_locales

interpretation fPair: field "\<lambda>(x, y). bytes32 x @ bytes32 y" "\<lambda>(x, y) b. writeUint32 y (writeUint32 x b)"
    "\<lambda>b. case readUint32 b of (x, b1) \<Rightarrow> case readUint32 b1 of (y, b2) \<Rightarrow> ((x, y), b2)"
  by (rule f32x2.pair_field)

lemma readPair:
  assumes "ahead b = bytes32 x @ bytes32 y @ rest"
  shows "\<exists>b1. readUint32 b = (x, b1) \<and> readUint32 b1 = (y, skip 8 b)"
  using fPair.rd_get [of b "(x, y)" rest] assms by (auto split: prod.splits)

lemma writeUint16To_put:
  assumes "k + 2 \<le> bufsize b"
  shows "writeUint16To k v b = b\<lparr>buf := take k (buf b) @ bytes16 v @ drop (k + 2) (buf b)\<rparr>"
proof -
  have "(buf b)[k := x, Suc k := y] = take k (buf b) @ [x, y] @ drop (k + 2) (buf b)" for x y
  proof -
    have "(buf b)[k := x] = take k (buf b) @ [x] @ drop (Suc k) (buf b)" using assms by (simp add: upd_conv_take_nth_drop)
    moreover have "drop (Suc k) (buf b) = buf b ! Suc k # drop (k + 2) (buf b)" using assms by (simp add: Cons_nth_drop_Suc)
    ultimately show ?thesis using assms by (simp add: list_update_append)
  qed
  then show ?thesis using assms by (simp add: writeUint16To_def bytes16_def)
qed

lemma accessNBytes_skip: "room n b \<Longrightarrow> bufsize b < 2 ^ 32 \<Longrightarrow> accessNBytes n b = (Some (pos b), skip n b)"
  by (simp add: accessNBytes_def room_def skip_def)

end
