(* ===== verification/Ser_Checksum.thy ===== *)
theory Ser_Checksum
  imports Ser_Buffer
begin

unbundle bit_operations_syntax

text \<open>
  The Internet checksum of the serializers, \<open>src/inet/common/serializer/TCPIPchecksum.cc\<close>, and its agreement with the
  one's-complement sum of RFC 1071.
\<close>

section \<open>The code\<close>

text \<open>\<open>sum = (sum & 0xFFFF) + (sum >> 16)\<close>\<close>

definition foldOnce :: "u32 \<Rightarrow> u32" where
  "foldOnce acc = (acc AND 0xFFFF) + drop_bit 16 acc"

fun sumWords :: "u32 \<Rightarrow> u8 list \<Rightarrow> u32" where
  "sumWords acc (a # b # addr) =
     (let sum1 = acc + (push_bit 8 (ucast a) OR ucast b)
      in sumWords (if sum1 AND 0x80000000 \<noteq> 0 then foldOnce sum1 else sum1) addr)"
| "sumWords acc [a] = acc + push_bit 8 (ucast a)"
| "sumWords acc [] = acc"

lemma unat_take16: "unat ((s :: u32) AND 0xFFFF) = unat s mod 65536"
proof -
  have "s AND 0xFFFF = take_bit 16 s" by (simp add: take_bit_eq_mask mask_eq_exp_minus_1)
  then show ?thesis by (simp add: take_bit_eq_mod unat_mod)
qed

lemma unat_drop16: "unat (drop_bit 16 (s :: u32)) = unat s div 65536"
  by (simp add: drop_bit_eq_div unat_div)

lemma unat32_less: "unat (s :: u32) < 2 ^ 32"
  using unsigned_less [of s, where ?'a = nat] by simp

lemma unat_foldOnce: "unat (foldOnce s) = unat s mod 65536 + unat s div 65536"
proof -
  have "unat s div 65536 < 65536" using unat32_less [of s] by (simp add: less_mult_imp_div_less)
  moreover have "unat s mod 65536 < 65536" by simp
  ultimately have "unat s mod 65536 + unat s div 65536 < 2 ^ 32" by (simp del: mod_less_divisor)
  then show ?thesis unfolding foldOnce_def by (subst unat_add_lem [THEN iffD1]) (simp_all add: unat_take16 unat_drop16)
qed

lemma foldOnce_less:
  assumes "drop_bit 16 s \<noteq> 0"
  shows "unat (foldOnce s) < unat s"
proof -
  have "unat (drop_bit 16 s) \<noteq> 0" using assms by (simp only: unat_eq_zero) simp
  then have "unat s div 65536 \<noteq> 0" unfolding unat_drop16 .
  moreover have "unat s = 65536 * (unat s div 65536) + unat s mod 65536" by simp
  ultimately show ?thesis unfolding unat_foldOnce by linarith
qed

text \<open>\<open>while (sum >> 16) sum = (sum & 0xFFFF) + (sum >> 16)\<close>\<close>

function foldCarry :: "u32 \<Rightarrow> u32" where
  "foldCarry acc = (if drop_bit 16 acc \<noteq> 0 then foldCarry (foldOnce acc) else acc)"
  by auto

termination
  by (relation "measure unat") (simp_all add: foldOnce_less)

declare foldCarry.simps [simp del]

definition checksumRaw :: "u8 list \<Rightarrow> u16" where
  "checksumRaw addr = ucast (foldCarry (sumWords 0 addr))"

definition checksum :: "u32 \<Rightarrow> u8 list \<Rightarrow> u8 list \<Rightarrow> u16" where
  "checksum protocolId packet addr =
     ucast (NOT (foldCarry (ucast (checksumRaw packet) + ucast (checksumRaw addr) + of_nat (length packet) + protocolId)))"

section \<open>One's-complement sums\<close>

text \<open>The sum of the 16-bit words of a byte string, in network order and with a zero byte added to an odd one.\<close>

fun wordSum :: "u8 list \<Rightarrow> nat" where
  "wordSum (a # b # xs) = 256 * unat a + unat b + wordSum xs"
| "wordSum [a] = 256 * unat a"
| "wordSum [] = 0"

text \<open>The one's-complement reading of a sum: carries out of 16 bits are added in again.\<close>

definition onesSum :: "nat \<Rightarrow> nat" where
  "onesSum n = (if n = 0 then 0 else (n - 1) mod 65535 + 1)"

definition sameSum :: "nat \<Rightarrow> nat \<Rightarrow> bool" where
  "sameSum m n \<longleftrightarrow> m mod 65535 = n mod 65535 \<and> (m = 0 \<longleftrightarrow> n = 0)"

lemma sameSum_refl [simp]: "sameSum m m"
  by (simp add: sameSum_def)

lemma sameSum_trans [trans]: "sameSum l m \<Longrightarrow> sameSum m n \<Longrightarrow> sameSum l n"
  by (simp add: sameSum_def)

lemma sameSum_add: "sameSum m n \<Longrightarrow> sameSum k l \<Longrightarrow> sameSum (m + k) (n + l)"
  by (auto simp: sameSum_def intro: mod_add_cong)

lemma sameSum_fold: "sameSum (m mod 65536 + m div 65536) m"
proof -
  have "m = 65535 * (m div 65536) + (m mod 65536 + m div 65536)" using mult_div_mod_eq [of 65536 m] by linarith
  then have "m mod 65535 = (m mod 65536 + m div 65536) mod 65535" by (metis mod_mult_self4)
  moreover have "m mod 65536 + m div 65536 = 0 \<longleftrightarrow> m = 0" 
  proof
    assume "m mod 65536 + m div 65536 = 0"
    then have "m mod 65536 = 0" "m div 65536 = 0" by (simp_all only: add_is_0)
    then show "m = 0" using mult_div_mod_eq [of 65536 m] by (simp only: mult_0_right add_0)
  qed simp
  ultimately show ?thesis by (simp add: sameSum_def)
qed

lemma onesSum_cong:
  assumes "sameSum m n"
  shows "onesSum m = onesSum n"
proof (cases "m = 0")
  case False
  then obtain a b where ab: "m = Suc a" "n = Suc b" using assms by (metis not0_implies_Suc sameSum_def)
  have "Suc a mod 65535 = Suc b mod 65535" using assms ab by (simp add: sameSum_def)
  then have "int (Suc a) mod 65535 = int (Suc b) mod 65535" by (metis of_nat_mod of_nat_numeral)
  then have "(int (Suc a) - 1) mod 65535 = (int (Suc b) - 1) mod 65535" by (rule mod_diff_cong) simp
  then have "int (a mod 65535) = int (b mod 65535)" by (simp add: zmod_int)
  then have "a mod 65535 = b mod 65535" by (simp only: of_nat_eq_iff)
  then show ?thesis by (simp add: onesSum_def ab)
qed (use assms in \<open>simp add: sameSum_def onesSum_def\<close>)

lemma onesSum_le: "onesSum n \<le> 65535"
  using mod_less_divisor [of 65535 "n - 1"] by (simp add: onesSum_def del: mod_less_divisor)

lemma onesSum_small: "n < 65536 \<Longrightarrow> onesSum n = n"
  by (simp add: onesSum_def)

lemma onesSum_same: "sameSum (onesSum n) n"
proof (cases n)
  case (Suc k)
  have "(k mod 65535 + 1) mod 65535 = (k + 1) mod 65535" by (rule mod_add_left_eq)
  then show ?thesis by (simp add: Suc onesSum_def sameSum_def)
qed (simp add: onesSum_def)

section \<open>The code computes it\<close>

lemma unat_word: "unat (push_bit 8 (ucast (a :: u8)) OR ucast (b :: u8) :: u32) = 256 * unat a + unat b"
proof -
  have "(push_bit 8 (ucast a) OR ucast b :: u32) = push_bit 8 (ucast a) + ucast b"
    by (rule disjunctive_add [symmetric]) (auto simp: bit_simps dest: bit_imp_le_length)
  moreover have e: "unat (push_bit 8 (ucast a) :: u32) = 256 * unat a" "unat (ucast b :: u32) = unat b"
    using unsigned_less [of a, where ?'a = nat] unsigned_less [of b, where ?'a = nat]
    by (simp_all add: push_bit_eq_mult unat_word_ariths unsigned_ucast_eq take_bit_nat_eq_self)
  ultimately show ?thesis using unsigned_less [of a, where ?'a = nat] unsigned_less [of b, where ?'a = nat]
    by (simp only: unat_add_lem [THEN iffD1]) (subst unat_add_lem [THEN iffD1], simp_all)
qed

lemma unat_high: "unat (push_bit 8 (ucast (a :: u8)) :: u32) = 256 * unat a"
  using unat_word [of a 0] by simp

lemma top_bit_clear:
  assumes "(s :: u32) AND 0x80000000 = 0"
  shows "unat s < 2 ^ 31"
proof -
  have "\<not> bit s 31"
  proof
    assume "bit s 31"
    then have "bit (s AND 0x80000000) 31" by (simp add: bit_simps)
    then show False using assms by simp
  qed
  then have "take_bit 31 s = s" by (intro bit_eqI) (auto simp: bit_simps less_Suc_eq numeral_eq_Suc)
  then show ?thesis by (metis take_bit_nat_less_exp unsigned_take_bit_eq)
qed

lemma sumWords_same: "unat acc < 2 ^ 31 \<Longrightarrow> sameSum (unat (sumWords acc xs)) (unat acc + wordSum xs)"
proof (induction acc xs rule: sumWords.induct)
  case (1 acc a b xs)
  let ?s = "acc + (push_bit 8 (ucast a) OR ucast b) :: u32"
  let ?t = "if ?s AND 0x80000000 \<noteq> 0 then foldOnce ?s else ?s"
  have ab: "256 * unat a + unat b < 65536" using unsigned_less [of a, where ?'a = nat] unsigned_less [of b, where ?'a = nat] by simp
  then have s: "unat ?s = unat acc + (256 * unat a + unat b)"
    using "1.prems" by (subst unat_add_lem [THEN iffD1]) (simp_all add: unat_word)
  have "unat (foldOnce ?s) < 2 ^ 31"
  proof -
    have "unat ?s div 65536 < 65536" using unat32_less [of ?s] by (simp add: less_mult_imp_div_less)
    moreover have "unat ?s mod 65536 < 65536" by simp
    ultimately show ?thesis unfolding unat_foldOnce by (simp del: mod_less_divisor)
  qed
  then have "unat ?t < 2 ^ 31" using top_bit_clear [of ?s] by simp
  then have "sameSum (unat (sumWords ?t xs)) (unat ?t + wordSum xs)" using "1.IH" by (simp only: Let_def)
  also have "sameSum (unat ?t + wordSum xs) (unat ?s + wordSum xs)"
    by (rule sameSum_add) (use sameSum_fold [of "unat ?s"] in \<open>simp_all add: unat_foldOnce\<close>)
  finally show ?case unfolding s by (simp only: sumWords.simps wordSum.simps Let_def add.assoc)
next
  case (2 acc a)
  have "256 * unat a < 65536" using unsigned_less [of a, where ?'a = nat] by simp
  then have "unat (acc + push_bit 8 (ucast a)) = unat acc + 256 * unat a"
    using "2.prems" by (subst unat_add_lem [THEN iffD1]) (simp_all add: unat_high)
  then show ?case by simp
qed simp

lemma foldCarry_onesSum: "unat (foldCarry s) = onesSum (unat s)"
proof (induction s rule: foldCarry.induct)
  case (1 s)
  show ?case
  proof (cases "drop_bit 16 s = 0")
    case True
    then have "unat s div 65536 = 0" by (simp flip: unat_drop16)
    then have "unat s < 65536" by (simp add: div_eq_0_iff)
    then show ?thesis using True by (subst foldCarry.simps) (simp add: onesSum_small)
  next
    case False
    have "onesSum (unat (foldOnce s)) = onesSum (unat s)" unfolding unat_foldOnce by (rule onesSum_cong) (rule sameSum_fold)
    then show ?thesis using False 1 by (subst foldCarry.simps) simp
  qed
qed

lemma foldCarry_narrow: "unat (ucast (foldCarry s) :: u16) = onesSum (unat s)"
proof -
  have "unat (foldCarry s) < 2 ^ 16" using onesSum_le [of "unat s"] by (simp add: foldCarry_onesSum)
  then show ?thesis by (simp add: unsigned_ucast_eq take_bit_nat_eq_self foldCarry_onesSum)
qed

lemma checksumRaw_onesSum: "unat (checksumRaw xs) = onesSum (wordSum xs)"
  using onesSum_cong [OF sumWords_same [of 0 xs]] by (simp add: checksumRaw_def foldCarry_narrow)

lemma checksum_onesSum:
  assumes "length packet + unat protocolId < 2 ^ 31"
  shows "unat (checksum protocolId packet addr) = 65535 - onesSum (wordSum packet + wordSum addr + length packet + unat protocolId)"
proof -
  let ?p = "ucast (checksumRaw packet) :: u32" and ?a = "ucast (checksumRaw addr) :: u32"
  let ?s = "?p + ?a + of_nat (length packet) + protocolId"
  have w: "unat (ucast (x :: u16) :: u32) = unat x" for x
    using unsigned_less [of x, where ?'a = nat] by (simp add: unsigned_ucast_eq take_bit_nat_eq_self)
  have p: "unat ?p = onesSum (wordSum packet)" "unat ?a = onesSum (wordSum addr)" by (simp_all add: w checksumRaw_onesSum)
  have "onesSum (wordSum packet) \<le> 65535" "onesSum (wordSum addr) \<le> 65535" by (rule onesSum_le)+
  then have s: "unat ?s = onesSum (wordSum packet) + onesSum (wordSum addr) + length packet + unat protocolId"
    using assms p by (simp add: unat_word_ariths unat_of_nat)
  have "sameSum (unat ?s) (wordSum packet + wordSum addr + length packet + unat protocolId)"
    unfolding s by (intro sameSum_add onesSum_same sameSum_refl)
  then have e: "unat (ucast (foldCarry ?s) :: u16) = onesSum (wordSum packet + wordSum addr + length packet + unat protocolId)"
    by (simp only: foldCarry_narrow onesSum_cong)
  have "ucast (NOT (foldCarry ?s)) = (NOT (ucast (foldCarry ?s)) :: u16)" by (rule bit_eqI) (auto simp: bit_simps)
  also have "\<dots> = - 1 - ucast (foldCarry ?s)" by (simp add: not_eq_complement)
  finally have "unat (ucast (NOT (foldCarry ?s)) :: u16) = unat (- 1 - ucast (foldCarry ?s) :: u16)" by simp
  also have "\<dots> = 65535 - unat (ucast (foldCarry ?s) :: u16)" by (subst unat_sub) (simp_all add: unsigned_minus_1_eq_mask mask_eq_exp_minus_1)
  finally show ?thesis unfolding checksum_def e .
qed

section \<open>A checksum that is filled in verifies\<close>

lemma wordSum_append: "even (length xs) \<Longrightarrow> wordSum (xs @ ys) = wordSum xs + wordSum ys"
  by (induction xs rule: wordSum.induct) simp_all

lemma wordSum_bytes16: "wordSum (bytes16 v @ xs) = unat v + wordSum xs"
proof -
  let ?h = "ucast (drop_bit 8 v) :: u8" and ?l = "ucast v :: u8"
  have h: "unat ?h < 256" "unat ?l < 256" using unsigned_less [of ?h, where ?'a = nat] unsigned_less [of ?l, where ?'a = nat] by simp_all
  have "unat (push_bit 8 (ucast ?h) + ucast ?l :: u16) = 256 * unat ?h + unat ?l"
    using h by (simp add: push_bit_eq_mult unat_word_ariths unsigned_ucast_eq [of ?h] unsigned_ucast_eq [of ?l] take_bit_nat_eq_self)
  then show ?thesis unfolding join16 by (simp add: bytes16_def)
qed

lemma checksum_verifies:
  assumes pre: "even (length pre)" and len: "length pre + 2 + length post + unat protocolId < 2 ^ 31"
  shows "checksum protocolId (pre @ bytes16 (checksum protocolId (pre @ bytes16 0 @ post) addr) @ post) addr = 0"
proof -
  let ?v = "checksum protocolId (pre @ bytes16 0 @ post) addr"
  let ?T = "wordSum pre + wordSum post + wordSum addr + (length pre + 2 + length post) + unat protocolId"
  have v: "unat ?v = 65535 - onesSum ?T"
    using checksum_onesSum [of "pre @ bytes16 0 @ post" protocolId addr] len pre by (simp add: wordSum_append wordSum_bytes16 add_ac)
  have "sameSum (?T + unat ?v) (onesSum ?T + unat ?v)"
    by (rule sameSum_add) (use onesSum_same [of ?T] in \<open>simp_all add: sameSum_def\<close>)
  also have "onesSum ?T + unat ?v = 65535" using v onesSum_le [of ?T] by simp
  finally have "onesSum (?T + unat ?v) = 65535" using onesSum_cong [of "?T + unat ?v" 65535] by (simp add: onesSum_small)
  moreover have "unat (checksum protocolId (pre @ bytes16 ?v @ post) addr) = 65535 - onesSum (?T + unat ?v)"
    using checksum_onesSum [of "pre @ bytes16 ?v @ post" protocolId addr] len pre by (simp add: wordSum_append wordSum_bytes16 add_ac)
  ultimately show ?thesis by (simp add: unat_eq_0)
qed

text \<open>
  C38: the checksum is that of RFC 1071 and verifies. Computed over bytes with a zero word in the place of the checksum and over the
  addresses, the length and the protocol number, it is the complement of the one's-complement sum of their 16-bit words, and with it
  filled in the same computation yields 0, whatever the bytes are.
\<close>

theorem checksum_rfc1071:
  assumes "even (length pre)" "length pre + 2 + length post + unat protocolId < 2 ^ 31"
  shows "unat (checksum protocolId (pre @ bytes16 0 @ post) addr) =
       65535 - onesSum (wordSum pre + wordSum post + wordSum addr + (length pre + 2 + length post) + unat protocolId) \<and>
     checksum protocolId (pre @ bytes16 (checksum protocolId (pre @ bytes16 0 @ post) addr) @ post) addr = 0"
  using checksum_onesSum [of "pre @ bytes16 0 @ post" protocolId addr] checksum_verifies [OF assms, of addr] assms
  by (simp add: wordSum_append wordSum_bytes16 add_ac)

theorem checksum_rfc1071_witness:
  "unat (checksum 6 ([0x12, 0x34] @ bytes16 0 @ [0xFF, 0xFE, 0x80]) [10, 0, 0, 1]) = 25534 \<and>
   checksum 6 ([0x12, 0x34] @ bytes16 (checksum 6 ([0x12, 0x34] @ bytes16 0 @ [0xFF, 0xFE, 0x80]) [10, 0, 0, 1]) @ [0xFF, 0xFE, 0x80]) [10, 0, 0, 1] = 0"
proof -
  have h: "even (length [0x12, 0x34 :: u8])" "length [0x12, 0x34 :: u8] + 2 + length [0xFF, 0xFE, 0x80 :: u8] + unat (6 :: u32) < 2 ^ 31" by simp_all
  from checksum_rfc1071 [OF h, of "[10, 0, 0, 1]"] show ?thesis by (simp add: onesSum_def)
qed

end
