(* ===== verification/Tcp_Serializer.thy ===== *)
theory Tcp_Serializer
  imports Tcp_Segment Ser_Checksum
begin

unbundle bit_operations_syntax

text \<open>
  Segments as bytes, \<open>src/inet/common/serializer/tcp/TCPSerializer.cc\<close> with the header layout of \<open>headers/tcphdr.h\<close>: a segment
  and its options are written to a buffer in network byte order, padded, followed by the data and given a checksum; the parser
  reads them back. An option object's \<open>kind\<close> is fixed by its class, so the \<open>check_and_cast\<close>s of the writer and the error for a
  plain \<open>TCPOption\<close> of an unknown kind have no counterpart.
\<close>

section \<open>Writing\<close>

text \<open>What the base classes add to a segment: the packet length, the raw data and the bit error flag.\<close>

record wire_segment = tcp_segment +
  byteLength :: int
  byteArray :: "u8 list"
  bitError :: bool

abbreviation IP_PROT_TCP :: u32 where
  "IP_PROT_TCP \<equiv> 6"

fun optKind :: "opt_body \<Rightarrow> u16" where
  "optKind OptEnd = 0"
| "optKind OptNop = 1"
| "optKind (OptMaxSegmentSize v) = 2"
| "optKind (OptWindowScale v) = 3"
| "optKind OptSackPermitted = 4"
| "optKind (OptSack ss) = 5"
| "optKind (OptTimestamp a b) = 8"
| "optKind (OptUnknown k bs) = k"

definition writeSackItem :: "sack \<Rightarrow> buffer \<Rightarrow> buffer" where
  "writeSackItem si b = writeUint32 (sackEndNo si) (writeUint32 (sackStartNo si) b)"

definition serializeOption :: "tcp_option \<Rightarrow> buffer \<Rightarrow> buffer res" where
  "serializeOption option b =
     (let kind = optKind (optBody option); len = optLength option;
          b1 = writeByte (ucast kind) b;
          b2 = (if len > 1 then writeByte (ucast len) b1 else b1)
      in case optBody option of
           OptUnknown k bs \<Rightarrow>
             bindR (assertR (unat len = 2 + length bs) ''serializeOption'') (\<lambda>_. Inr (fold writeByte bs b2))
         | OptEnd \<Rightarrow> bindR (assertR (len = 1) ''serializeOption'') (\<lambda>_. Inr b2)
         | OptNop \<Rightarrow> bindR (assertR (len = 1) ''serializeOption'') (\<lambda>_. Inr b2)
         | OptMaxSegmentSize v \<Rightarrow> bindR (assertR (len = 4) ''serializeOption'') (\<lambda>_. Inr (writeUint16 v b2))
         | OptWindowScale v \<Rightarrow> bindR (assertR (len = 3) ''serializeOption'') (\<lambda>_. Inr (writeByte (ucast v) b2))
         | OptSackPermitted \<Rightarrow> bindR (assertR (len = 2) ''serializeOption'') (\<lambda>_. Inr b2)
         | OptSack ss \<Rightarrow>
             bindR (assertR (unat len = 2 + length ss * 8) ''serializeOption'') (\<lambda>_. Inr (fold writeSackItem ss b2))
         | OptTimestamp a e \<Rightarrow>
             bindR (assertR (len = 10) ''serializeOption'') (\<lambda>_. Inr (writeUint32 e (writeUint32 a b2))))"

fun serializeOptions :: "tcp_option list \<Rightarrow> buffer \<Rightarrow> buffer res" where
  "serializeOptions [] b = Inr b"
| "serializeOptions (option # rest) b = bindR (serializeOption option b) (serializeOptions rest)"

definition tcpFlags :: "'a tcp_segment_scheme \<Rightarrow> u8" where
  "tcpFlags seg = 0x3F AND
     ((if finBit seg then 0x01 else 0) OR (if synBit seg then 0x02 else 0) OR (if rstBit seg then 0x04 else 0) OR
      (if pshBit seg then 0x08 else 0) OR (if ackBit seg then 0x10 else 0) OR (if urgBit seg then 0x20 else 0))"

text \<open>The structure \<open>tcphdr\<close> as it lies in memory; the data offset is a field of four bits.\<close>

definition tcphdrBytes :: "'a tcp_segment_scheme \<Rightarrow> u8 list" where
  "tcphdrBytes seg =
     bytes16 (srcPort seg) @ bytes16 (destPort seg) @ bytes32 (sequenceNo seg) @ bytes32 (ackNo seg) @
     [push_bit 4 (ucast (headerLength seg div 4)), tcpFlags seg] @ bytes16 (window seg) @ bytes16 0 @ bytes16 (urgentPointer seg)"

definition optionsLength :: "tcp_option list \<Rightarrow> nat" where
  "optionsLength os = sum_list (map (\<lambda>opt. unat (optLength opt)) os)"

definition padOptions :: "tcp_option list \<Rightarrow> buffer \<Rightarrow> buffer" where
  "padOptions os b = (let n = optionsLength os mod 4 in if n \<noteq> 0 then fillNBytes (4 - n) 0 b else b)"

text \<open>\<open>copyDataToBuffer(b.accessNBytes(0), b.getRemainingSize())\<close>\<close>

definition copyDataToBuffer :: "u8 list \<Rightarrow> buffer \<Rightarrow> buffer" where
  "copyDataToBuffer xs b =
     (let ys = take (getRemainingSize b) xs in b\<lparr>buf := take (pos b) (buf b) @ ys @ drop (pos b + length ys) (buf b)\<rparr>)"

definition serializeData :: "wire_segment \<Rightarrow> buffer \<Rightarrow> buffer res" where
  "serializeData seg b =
     (if byteLength seg > uint (headerLength seg)
      then let dataLength = nat (byteLength seg - uint (headerLength seg))
           in if byteArray seg \<noteq> []
              then bindR (assertR (length (byteArray seg) = dataLength) ''serialize'') (\<lambda>_.
                   Inr (snd (accessNBytes dataLength (copyDataToBuffer (byteArray seg) b))))
              else Inr (fillNBytes dataLength 116 b)
      else Inr b)"

definition serialize :: "u8 list \<Rightarrow> wire_segment \<Rightarrow> buffer \<Rightarrow> buffer res" where
  "serialize l3Addresses seg b =
     bindR (assertR (pos b = 0) ''serialize'') (\<lambda>_.
     if headerLength seg mod 4 \<noteq> 0 then Inl (RuntimeError ''invalid TCP header length'')
     else
       bindR (serializeOptions (headerOptionList seg) (writeNBytes (tcphdrBytes seg) b)) (\<lambda>b1.
       bindR (serializeData seg (padOptions (headerOptionList seg) b1)) (\<lambda>b2.
       Inr (writeUint16To 16 (checksum IP_PROT_TCP (take (pos b2) (buf b2)) l3Addresses) b2))))"

section \<open>Parsing\<close>

fun readSackItems :: "nat \<Rightarrow> buffer \<Rightarrow> sack list \<times> buffer" where
  "readSackItems 0 b = ([], b)"
| "readSackItems (Suc n) b =
     (let (s, b1) = readUint32 b; (e, b2) = readUint32 b1; (sis, b3) = readSackItems n b2
      in (\<lparr>sackStartNo = s, sackEndNo = e\<rparr> # sis, b3))"

definition deserializeUnknown :: "u8 \<Rightarrow> u8 \<Rightarrow> buffer \<Rightarrow> tcp_option \<times> buffer" where
  "deserializeUnknown kind len b =
     (let (bs, b1) = readNBytes (unat len - 2) b
      in (\<lparr>optLength = ucast len, optBody = OptUnknown (ucast kind) bs\<rparr>, b1))"

definition deserializeOption :: "buffer \<Rightarrow> tcp_option \<times> buffer" where
  "deserializeOption b =
     (let (kind, b1) = readByte b
      in if kind = 0 then (mkOption OptEnd, b1)
         else if kind = 1 then (mkOption OptNop, b1)
         else
           let (len, b2) = readByte b1
           in if kind = 2 \<and> len = 4
              then let (v, b3) = readUint16 b2 in (\<lparr>optLength = ucast len, optBody = OptMaxSegmentSize v\<rparr>, b3)
              else if kind = 3 \<and> len = 3
              then let (v, b3) = readByte b2 in (\<lparr>optLength = ucast len, optBody = OptWindowScale (ucast v)\<rparr>, b3)
              else if kind = 4 \<and> len = 2 then (\<lparr>optLength = ucast len, optBody = OptSackPermitted\<rparr>, b2)
              else if kind = 5 \<and> len > 2 \<and> len mod 8 = 2
              then let (sis, b3) = readSackItems (unat len div 8) b2 in (\<lparr>optLength = ucast len, optBody = OptSack sis\<rparr>, b3)
              else if kind = 8 \<and> len = 10
              then let (s, b3) = readUint32 b2; (e, b4) = readUint32 b3 in (\<lparr>optLength = ucast len, optBody = OptTimestamp s e\<rparr>, b4)
              else deserializeUnknown kind len b2)"

text \<open>No read moves the position back or changes the bytes, and the first byte of an option is always consumed.\<close>

definition readsOn :: "buffer \<Rightarrow> buffer \<Rightarrow> bool" where
  "readsOn b b' \<longleftrightarrow> buf b' = buf b \<and> pos b \<le> pos b' \<and> (pos b \<le> bufsize b \<longrightarrow> pos b' \<le> bufsize b)"

lemma readsOn_refl [simp]: "readsOn b b"
  by (simp add: readsOn_def)

lemma readsOn_trans [trans]: "readsOn b c \<Longrightarrow> readsOn c d \<Longrightarrow> readsOn b d"
  by (auto simp: readsOn_def)

lemma readsOn_byte: "readByte b = (x, b') \<Longrightarrow> readsOn b b'"
  by (auto simp: readByte_def readsOn_def setError_def split: if_splits)

lemma readsOn_add: "readsOn b (snd p) \<Longrightarrow> readsOn b (snd (addByte k p))" "readsOn b (snd p) \<Longrightarrow> readsOn b (snd (addLastByte p))"
  by (cases p; force simp: addByte_def addLastByte_def readsOn_def setError_def)+

lemma readsOn_16: "readUint16 b = (v, b') \<Longrightarrow> readsOn b b'"
proof -
  have "readsOn b (snd (readUint16 b))" unfolding readUint16_def by (intro readsOn_add) simp
  then show "readUint16 b = (v, b') \<Longrightarrow> readsOn b b'" by simp
qed

lemma readsOn_32: "readUint32 b = (v, b') \<Longrightarrow> readsOn b b'"
proof -
  have "readsOn b (snd (readUint32 b))" unfolding readUint32_def by (intro readsOn_add) simp
  then show "readUint32 b = (v, b') \<Longrightarrow> readsOn b b'" by simp
qed

lemma readsOn_n: "readNBytes n b = (xs, b') \<Longrightarrow> readsOn b b'"
proof (induction n arbitrary: b xs b')
  case (Suc n)
  obtain x b1 where x: "readByte b = (x, b1)" by (rule prod.exhaust)
  obtain ys b2 where y: "readNBytes n b1 = (ys, b2)" by (rule prod.exhaust)
  show ?case using Suc.prems Suc.IH [OF y] readsOn_byte [OF x] by (auto simp: x y intro: readsOn_trans)
qed simp

lemma readsOn_sacks: "readSackItems n b = (xs, b') \<Longrightarrow> readsOn b b'"
proof (induction n arbitrary: b xs b')
  case (Suc n)
  obtain s b1 where s: "readUint32 b = (s, b1)" by (rule prod.exhaust)
  obtain e b2 where e: "readUint32 b1 = (e, b2)" by (rule prod.exhaust)
  obtain ys b3 where y: "readSackItems n b2 = (ys, b3)" by (rule prod.exhaust)
  show ?case using Suc.prems Suc.IH [OF y] readsOn_32 [OF s] readsOn_32 [OF e] by (auto simp: s e y intro: readsOn_trans)
qed simp

lemmas readsOn_all = readsOn_byte readsOn_16 readsOn_32 readsOn_n readsOn_sacks

lemma deserializeOption_readsOn:
  assumes "deserializeOption b = (o1, b')"
  shows "\<exists>kind b1. readByte b = (kind, b1) \<and> readsOn b1 b'"
proof -
  obtain kind b1 where k: "readByte b = (kind, b1)" by (rule prod.exhaust)
  obtain len b2 where l: "readByte b1 = (len, b2)" by (rule prod.exhaust)
  have "b' = b1 \<or> readsOn b2 b'"
    using assms by (auto simp: deserializeOption_def k l deserializeUnknown_def Let_def split: prod.splits if_splits
        intro: readsOn_trans dest: readsOn_all)
  then show ?thesis using k readsOn_byte [OF l] readsOn_trans by auto
qed

lemma deserializeOption_progress:
  assumes "getRemainingSize b \<noteq> 0" "deserializeOption b = (o1, b')"
  shows "getRemainingSize b' < getRemainingSize b"
proof -
  obtain kind b1 where k: "readByte b = (kind, b1)" "readsOn b1 b'" using deserializeOption_readsOn [OF assms(2)] by blast
  then have "buf b1 = buf b" "pos b1 = pos b + 1" using assms(1) by (auto simp: readByte_def getRemainingSize_def split: if_splits)
  then show ?thesis using k(2) assms(1) by (auto simp: readsOn_def getRemainingSize_def)
qed

function deserializeOptions :: "buffer \<Rightarrow> tcp_option list \<times> buffer" where
  "deserializeOptions sb =
     (if getRemainingSize sb \<noteq> 0
      then let (option, sb1) = deserializeOption sb; (rest, sb2) = deserializeOptions sb1 in (option # rest, sb2)
      else ([], sb))"
  by auto

termination
  by (relation "measure getRemainingSize") (auto intro: deserializeOption_progress [OF _ sym])

declare deserializeOptions.simps [simp del]

definition be16 :: "u8 list \<Rightarrow> u16" where
  "be16 xs = push_bit 8 (ucast (xs ! 0)) + ucast (xs ! 1)"

definition be32 :: "u8 list \<Rightarrow> u32" where
  "be32 xs = push_bit 24 (ucast (xs ! 0)) + push_bit 16 (ucast (xs ! 1)) + push_bit 8 (ucast (xs ! 2)) + ucast (xs ! 3)"

definition headerFromBytes :: "u8 list \<Rightarrow> tcp_segment" where
  "headerFromBytes h =
     (let flags = h ! 13
      in newSegment\<lparr>srcPort := be16 h, destPort := be16 (drop 2 h), sequenceNo := be32 (drop 4 h), ackNo := be32 (drop 8 h),
           headerLength := ucast (drop_bit 4 (h ! 12)) * 4,
           finBit := (flags AND 0x01 = 0x01), synBit := (flags AND 0x02 = 0x02), rstBit := (flags AND 0x04 = 0x04),
           pshBit := (flags AND 0x08 = 0x08), ackBit := (flags AND 0x10 = 0x10), urgBit := (flags AND 0x20 = 0x20),
           window := be16 (drop 14 h), urgentPointer := be16 (drop 18 h)\<rparr>)"

definition parseHeaderOptions :: "tcp_segment \<Rightarrow> buffer \<Rightarrow> tcp_segment \<times> buffer" where
  "parseHeaderOptions seg b =
     (if headerLength seg > 20
      then let (os, sb) = deserializeOptions (subBuffer b (unat (headerLength seg - 20)))
           in (seg\<lparr>headerOptionList := headerOptionList seg @ os\<rparr>, if errorFound sb then setError b else b)
      else (seg, b))"

definition deserialize :: "u8 list \<Rightarrow> buffer \<Rightarrow> wire_segment" where
  "deserialize l3Addresses b =
     (let (h, b1) = readNBytes 20 b;
          (seg, b2) = parseHeaderOptions (headerFromBytes h) b1;
          b3 = seek (unat (headerLength seg)) b2;
          len = getRemainingSize b3;
          (ptr, b4) = accessNBytes len b3;
          bs = (case ptr of None \<Rightarrow> [] | Some p \<Rightarrow> take len (drop p (buf b4)));
          sumBad = be16 (drop 16 h) \<noteq> 0 \<and> l3Addresses \<noteq> [] \<and> checksum IP_PROT_TCP (buf b4) l3Addresses \<noteq> 0
      in tcp_segment.extend (seg\<lparr>payloadLength := of_nat len\<rparr>)
           (wire_segment.fields (int (bufsize b4)) bs (errorFound b4 \<or> sumBad)))"

section \<open>The bytes of an option\<close>

definition sackBytes :: "sack \<Rightarrow> u8 list" where
  "sackBytes s = bytes32 (sackStartNo s) @ bytes32 (sackEndNo s)"

fun optData :: "opt_body \<Rightarrow> u8 list" where
  "optData (OptMaxSegmentSize v) = bytes16 v"
| "optData (OptWindowScale v) = [ucast v]"
| "optData (OptSack ss) = concat (map sackBytes ss)"
| "optData (OptTimestamp a e) = bytes32 a @ bytes32 e"
| "optData (OptUnknown k bs) = bs"
| "optData OptEnd = []"
| "optData OptNop = []"
| "optData OptSackPermitted = []"

definition optHead :: "tcp_option \<Rightarrow> u8 list" where
  "optHead opt = ucast (optKind (optBody opt)) # (if optLength opt > 1 then [ucast (optLength opt)] else [])"

definition optBytes :: "tcp_option \<Rightarrow> u8 list" where
  "optBytes opt = optHead opt @ optData (optBody opt)"

text \<open>The options whose bytes determine them: the length is that of the data, the values fit into their bytes, and an
  unknown option does not look like a known one.\<close>

fun bodyOk :: "u16 \<Rightarrow> opt_body \<Rightarrow> bool" where
  "bodyOk len OptEnd = (len = 1)"
| "bodyOk len OptNop = (len = 1)"
| "bodyOk len (OptMaxSegmentSize v) = (len = 4)"
| "bodyOk len (OptWindowScale v) = (len = 3 \<and> unat v < 256)"
| "bodyOk len OptSackPermitted = (len = 2)"
| "bodyOk len (OptSack ss) = (unat len = 2 + length ss * 8 \<and> unat len < 256 \<and> ss \<noteq> [])"
| "bodyOk len (OptTimestamp a e) = (len = 10)"
| "bodyOk len (OptUnknown k bs) = (unat len = 2 + length bs \<and> unat len < 256 \<and> unat k < 256 \<and> unat k \<notin> {0, 1} \<and>
     (unat k, unat len) \<notin> {(2, 4), (3, 3), (4, 2), (8, 10)} \<and> \<not> (unat k = 5 \<and> unat len > 2 \<and> unat len mod 8 = 2))"

definition optionOk :: "tcp_option \<Rightarrow> bool" where
  "optionOk opt = bodyOk (optLength opt) (optBody opt)"

lemma optBytes_length:
  assumes "optionOk opt"
  shows "length (optBytes opt) = unat (optLength opt)"
proof -
  have "length (concat (map sackBytes ss)) = length ss * 8" for ss by (induction ss) (simp_all add: sackBytes_def)
  then show ?thesis using assms by (cases "optBody opt") (auto simp: optionOk_def optBytes_def optHead_def word_less_nat_alt)
qed

lemma sackItem_field: "field sackBytes writeSackItem (\<lambda>b. let (s, b1) = readUint32 b; (e, b2) = readUint32 b1 in (\<lparr>sackStartNo = s, sackEndNo = e\<rparr>, b2))"
proof
  fix s :: sack and b
  assume "room (length (sackBytes s)) b"
  then show "writeSackItem s b = put (sackBytes s) b"
    using fPair.wr_put [of "(sackStartNo s, sackEndNo s)" b] by (simp add: writeSackItem_def sackBytes_def)
next
  fix s :: sack and b rest
  assume "ahead b = sackBytes s @ rest"
  then obtain b1 where "readUint32 b = (sackStartNo s, b1)" "readUint32 b1 = (sackEndNo s, skip 8 b)"
    using readPair [of b "sackStartNo s" "sackEndNo s" rest] by (auto simp: sackBytes_def)
  then show "(let (s, b1) = readUint32 b; (e, b2) = readUint32 b1 in (\<lparr>sackStartNo = s, sackEndNo = e\<rparr>, b2)) = (s, skip (length (sackBytes s)) b)"
    by (simp add: sackBytes_def)
qed

interpretation fSack: field sackBytes writeSackItem "\<lambda>b. let (s, b1) = readUint32 b; (e, b2) = readUint32 b1 in (\<lparr>sackStartNo = s, sackEndNo = e\<rparr>, b2)"
  by (rule sackItem_field)

lemma readSackItems_ahead:
  "ahead b = concat (map sackBytes ss) @ rest \<Longrightarrow> readSackItems (length ss) b = (ss, skip (length (concat (map sackBytes ss))) b)"
proof (induction ss arbitrary: b)
  case (Cons s ss)
  from Cons.prems have a: "ahead b = sackBytes s @ (concat (map sackBytes ss) @ rest)" by simp
  then have n: "ahead (skip (length (sackBytes s)) b) = concat (map sackBytes ss) @ rest" by simp
  show ?case using fSack.rd_get [OF a] Cons.IH [OF n] by (auto simp: Let_def split: prod.splits)
qed simp

lemma optHead_put:
  assumes "room (length (optHead opt)) b"
  shows "(let b1 = writeByte (ucast (optKind (optBody opt))) b in if optLength opt > 1 then writeByte (ucast (optLength opt)) b1 else b1) = put (optHead opt) b"
proof -
  let ?k = "ucast (optKind (optBody opt)) :: u8"
  have "writeByte ?k b = put [?k] b" by (intro f8.wr_put) (use assms in \<open>simp add: optHead_def room_def\<close>)
  then show ?thesis using f8.write_after [of "[?k]" "ucast (optLength opt)" b] assms by (cases "optLength opt > 1") (simp_all add: optHead_def)
qed

lemma serializeOption_put:
  assumes ok: "optionOk opt" and r: "room (length (optBytes opt)) b"
  shows "serializeOption opt b = Inr (put (optBytes opt) b)"
proof -
  let ?h = "optHead opt"
  have "room (length ?h) b" using r by (simp add: optBytes_def room_def)
  note h = optHead_put [OF this, unfolded Let_def]
  have r': "room (length ?h + length (optData (optBody opt))) b" using r by (simp add: optBytes_def)
  have single: "concat (map (\<lambda>x. [x]) bs) = bs" for bs :: "u8 list" by (induction bs) simp_all
  show ?thesis
  proof (cases "optBody opt")
    case (OptTimestamp a e)
    have "writeUint32 a (put ?h b) = put (?h @ bytes32 a) b"
      by (rule f32.write_after) (use r' OptTimestamp in \<open>simp add: room_def\<close>)
    then have "writeUint32 e (writeUint32 a (put ?h b)) = put (?h @ optData (optBody opt)) b"
      using f32.write_after [of "?h @ bytes32 a" e b] r' OptTimestamp by (simp add: add.assoc)
    then show ?thesis using ok OptTimestamp unfolding serializeOption_def Let_def h by (simp add: optionOk_def optBytes_def)
  next
    case (OptMaxSegmentSize v)
    then show ?thesis using ok r' f16.write_after [of ?h v b] unfolding serializeOption_def Let_def h by (simp add: optionOk_def optBytes_def)
  next
    case (OptWindowScale v)
    then show ?thesis using ok r' f8.write_after [of ?h "ucast v" b] unfolding serializeOption_def Let_def h by (simp add: optionOk_def optBytes_def)
  next
    case (OptSack ss)
    then show ?thesis using ok r' fSack.write_all_after [of ?h ss b] unfolding serializeOption_def Let_def h by (simp add: optionOk_def optBytes_def)
  next
    case (OptUnknown k bs)
    then show ?thesis using ok r' f8.write_all_after [of ?h bs b, unfolded single] unfolding serializeOption_def Let_def h by (simp add: optionOk_def optBytes_def)
  next
    case OptEnd
    then show ?thesis using ok unfolding serializeOption_def Let_def h by (simp add: optionOk_def optBytes_def)
  next
    case OptNop
    then show ?thesis using ok unfolding serializeOption_def Let_def h by (simp add: optionOk_def optBytes_def)
  next
    case OptSackPermitted
    then show ?thesis using ok unfolding serializeOption_def Let_def h by (simp add: optionOk_def optBytes_def)
  qed
qed

lemma unat_narrow8: "unat (k :: u16) < 256 \<Longrightarrow> unat (ucast k :: u8) = unat k"
  by (simp add: unsigned_ucast_eq take_bit_nat_eq_self)

lemma ucast_narrow8: "unat (k :: u16) < 256 \<Longrightarrow> ucast (ucast k :: u8) = k"
proof -
  assume "unat k < 256"
  moreover have "unat (ucast x :: u16) = unat x" for x :: u8
    using unsigned_less [of x, where ?'a = nat] by (simp add: unsigned_ucast_eq take_bit_nat_eq_self)
  ultimately show ?thesis by (simp add: word_unat_eq_iff unat_narrow8)
qed

lemma eq_narrow8: "unat (k :: u16) < 256 \<Longrightarrow> (ucast k = (n :: u8)) = (unat k = unat n)"
  by (simp add: word_unat_eq_iff unat_narrow8)

lemma deserializeOption_ahead:
  assumes ok: "optionOk opt" and a: "ahead b = optBytes opt @ rest"
  shows "deserializeOption b = (opt, skip (length (optBytes opt)) b)"
proof -
  let ?k = "ucast (optKind (optBody opt)) :: u8" and ?l = "ucast (optLength opt) :: u8"
  have k: "readByte b = (?k, skip 1 b)" by (rule readByte_ahead) (simp add: a optBytes_def optHead_def)
  have opt: "opt = \<lparr>optLength = optLength opt, optBody = optBody opt\<rparr>" by simp
  have long: "?thesis" if l: "optLength opt > 1" and d: "(let b2 = skip 2 b in
      if ?k = 2 \<and> ?l = 4 then let (v, b3) = readUint16 b2 in (\<lparr>optLength = ucast ?l, optBody = OptMaxSegmentSize v\<rparr>, b3)
      else if ?k = 3 \<and> ?l = 3 then let (v, b3) = readByte b2 in (\<lparr>optLength = ucast ?l, optBody = OptWindowScale (ucast v)\<rparr>, b3)
      else if ?k = 4 \<and> ?l = 2 then (\<lparr>optLength = ucast ?l, optBody = OptSackPermitted\<rparr>, b2)
      else if ?k = 5 \<and> ?l > 2 \<and> ?l mod 8 = 2 then let (sis, b3) = readSackItems (unat ?l div 8) b2 in (\<lparr>optLength = ucast ?l, optBody = OptSack sis\<rparr>, b3)
      else if ?k = 8 \<and> ?l = 10 then let (s, b3) = readUint32 b2; (e, b4) = readUint32 b3 in (\<lparr>optLength = ucast ?l, optBody = OptTimestamp s e\<rparr>, b4)
      else deserializeUnknown ?k ?l b2) = (opt, skip (length (optBytes opt)) b)" and ne: "?k \<noteq> 0" "?k \<noteq> 1"
  proof -
    have "ahead b = [?k, ?l] @ optData (optBody opt) @ rest" using a l by (simp add: optBytes_def optHead_def)
    then have "readByte (skip 1 b) = (?l, skip 2 b)" using readByte_ahead [of "skip 1 b" ?l "optData (optBody opt) @ rest"]
      by (simp add: numeral_2_eq_2)
    then show ?thesis unfolding deserializeOption_def k Let_def prod.case using d ne by (simp only: if_False Let_def prod.case)
  qed
  have b2: "ahead (skip 2 b) = optData (optBody opt) @ rest" if "optLength opt > 1" using a that by (simp add: optBytes_def optHead_def)
  have n: "length (optBytes opt) = 2 + length (optData (optBody opt))" if "optLength opt > 1" using that by (simp add: optBytes_def optHead_def)
  show ?thesis
  proof (cases "optBody opt")
    case OptEnd
    then have "optLength opt = 1" using ok by (simp add: optionOk_def)
    then show ?thesis using OptEnd opt by (simp add: deserializeOption_def k mkOption_def optBytes_def optHead_def)
  next
    case OptNop
    then have "optLength opt = 1" using ok by (simp add: optionOk_def)
    then show ?thesis using OptNop opt by (simp add: deserializeOption_def k mkOption_def optBytes_def optHead_def)
  next
    case (OptMaxSegmentSize v)
    then have l: "optLength opt = 4" using ok by (simp add: optionOk_def)
    have "readUint16 (skip 2 b) = (v, skip 4 b)" using f16.rd_get [of "skip 2 b" v rest] b2 l OptMaxSegmentSize by simp
    then show ?thesis by (intro long) (use l OptMaxSegmentSize opt n in simp_all)
  next
    case (OptWindowScale v)
    then have l: "optLength opt = 3" "unat v < 256" using ok by (simp_all add: optionOk_def)
    have "readByte (skip 2 b) = (ucast v, skip 3 b)" using f8.rd_get [of "skip 2 b" "ucast v" rest] b2 l OptWindowScale by simp
    then show ?thesis by (intro long) (use l OptWindowScale opt n in \<open>simp_all add: ucast_narrow8\<close>)
  next
    case OptSackPermitted
    then have l: "optLength opt = 2" using ok by (simp add: optionOk_def)
    show ?thesis by (intro long) (use l OptSackPermitted opt n in simp_all)
  next
    case (OptTimestamp s e)
    then have l: "optLength opt = 10" using ok by (simp add: optionOk_def)
    obtain b1 where "readUint32 (skip 2 b) = (s, b1)" "readUint32 b1 = (e, skip 10 b)"
      using readPair [of "skip 2 b" s e rest] b2 l OptTimestamp by auto
    then show ?thesis by (intro long) (use l OptTimestamp opt n in simp_all)
  next
    case (OptSack ss)
    then have l: "unat (optLength opt) = 2 + length ss * 8" "unat (optLength opt) < 256" "ss \<noteq> []" using ok by (simp_all add: optionOk_def)
    then have u: "unat ?l = 2 + length ss * 8" using unat_narrow8 by simp
    have "length ss \<noteq> 0" using l(3) by simp
    then have c: "1 < optLength opt" "2 < ?l" using l u by (simp_all add: word_less_nat_alt)
    have "unat ?l mod 8 = 2" unfolding u by (rule trans [OF mod_mult_self1]) simp
    then have "unat (?l mod 8) = unat (2 :: u8)" by (simp add: unat_mod)
    then have m: "?l mod 8 = 2" by (simp only: word_unat_eq_iff)
    have "unat ?l div 8 = length ss" using u by simp
    then have r: "readSackItems (unat ?l div 8) (skip 2 b) = (ss, skip (2 + length (optData (OptSack ss))) b)"
      using readSackItems_ahead [of "skip 2 b" ss rest] b2 [OF c(1)] OptSack by simp
    show ?thesis by (intro long) (use c m l r OptSack opt n in \<open>simp_all add: ucast_narrow8\<close>)
  next
    case (OptUnknown k bs)
    then have "bodyOk (optLength opt) (OptUnknown k bs)" using ok by (simp only: optionOk_def)
    then have l: "unat (optLength opt) = 2 + length bs" "unat (optLength opt) < 256" "unat k < 256" "unat k \<notin> {0, 1}"
        "(unat k, unat (optLength opt)) \<notin> {(2, 4), (3, 3), (4, 2), (8, 10)}"
        "\<not> (unat k = 5 \<and> unat (optLength opt) > 2 \<and> unat (optLength opt) mod 8 = 2)"
      unfolding bodyOk.simps by blast+
    have c: "1 < optLength opt" using l(1) by (simp add: word_less_nat_alt)
    have u: "unat ?l = unat (optLength opt)" "unat ?k = unat k" using l OptUnknown by (simp_all add: unat_narrow8)
    have ne: "\<not> (?k = 2 \<and> ?l = 4)" "\<not> (?k = 3 \<and> ?l = 3)" "\<not> (?k = 4 \<and> ?l = 2)" "\<not> (?k = 5 \<and> ?l > 2 \<and> ?l mod 8 = 2)" "\<not> (?k = 8 \<and> ?l = 10)"
        "?k \<noteq> 0" "?k \<noteq> 1"
      using l(4-6) u by (auto simp: word_unat_eq_iff word_less_nat_alt unat_mod)
    have "readNBytes (unat ?l - 2) (skip 2 b) = (bs, skip (2 + length bs) b)"
      using readNBytes_ahead [of "skip 2 b" bs rest] b2 [OF c] u l(1) OptUnknown by simp
    then have d: "deserializeUnknown ?k ?l (skip 2 b) = (opt, skip (length (optBytes opt)) b)"
      using l(2,3) opt OptUnknown n [OF c] by (simp add: deserializeUnknown_def ucast_narrow8)
    show ?thesis by (rule long [OF c _ ne(6,7)]) (simp only: Let_def ne(1-5) if_False d)
  qed
qed

lemma serializeOptions_put:
  "list_all optionOk os \<Longrightarrow> room (length (concat (map optBytes os))) b \<Longrightarrow> serializeOptions os b = Inr (put (concat (map optBytes os)) b)"
proof (induction os arbitrary: b)
  case (Cons opt os)
  have "serializeOption opt b = Inr (put (optBytes opt) b)" by (rule serializeOption_put) (use Cons.prems in \<open>simp_all add: room_def\<close>)
  moreover have "serializeOptions os (put (optBytes opt) b) = Inr (put (concat (map optBytes os)) (put (optBytes opt) b))"
    by (rule Cons.IH) (use Cons.prems in simp_all)
  ultimately show ?case using put_put [of "optBytes opt" "concat (map optBytes os)" b] Cons.prems by simp
qed simp

lemma deserializeOptions_ahead:
  "list_all optionOk os \<Longrightarrow> ahead b = concat (map optBytes os) \<Longrightarrow> deserializeOptions b = (os, skip (length (ahead b)) b)"
proof (induction os arbitrary: b)
  case Nil
  then show ?case by (subst deserializeOptions.simps) (simp add: ahead_def getRemainingSize_def)
next
  case (Cons opt os)
  have o1: "deserializeOption b = (opt, skip (length (optBytes opt)) b)"
    by (rule deserializeOption_ahead [of _ _ "concat (map optBytes os)"]) (use Cons.prems in simp_all)
  have r: "getRemainingSize b \<noteq> 0" using Cons.prems(2) by (auto simp: ahead_def getRemainingSize_def optBytes_def optHead_def)
  have "deserializeOptions (skip (length (optBytes opt)) b) = (os, skip (length (concat (map optBytes os))) (skip (length (optBytes opt)) b))"
    using Cons.IH [of "skip (length (optBytes opt)) b"] Cons.prems by simp
  then show ?case using r o1 Cons.prems(2) by (subst deserializeOptions.simps) (simp add: Let_def)
qed

section \<open>The header\<close>

lemma be16_bytes [simp]: "be16 (bytes16 v @ xs) = v"
  using join16 [of v] by (simp add: be16_def bytes16_def)

lemma be32_bytes [simp]: "be32 (bytes32 v @ xs) = v"
  using join32 [of v] by (simp add: be32_def bytes32_def)

lemma tcphdrBytes_length [simp]: "length (tcphdrBytes seg) = 20"
  by (simp add: tcphdrBytes_def)

lemma flag_read:
  "(tcpFlags seg AND 0x01 = 0x01) = finBit seg" "(tcpFlags seg AND 0x02 = 0x02) = synBit seg" "(tcpFlags seg AND 0x04 = 0x04) = rstBit seg"
  "(tcpFlags seg AND 0x08 = 0x08) = pshBit seg" "(tcpFlags seg AND 0x10 = 0x10) = ackBit seg" "(tcpFlags seg AND 0x20 = 0x20) = urgBit seg"
  by (simp_all add: tcpFlags_def)

lemma offset_read:
  assumes "unat (h :: u16) mod 4 = 0" "unat h \<le> 60"
  shows "ucast (drop_bit 4 (push_bit 4 (ucast (h div 4)) :: u8)) * 4 = h"
proof -
  obtain k where k: "unat h = 4 * k" "k \<le> 15" using assms by (auto simp: mod_eq_0_iff_dvd elim: dvdE)
  have d: "unat (h div 4) = k" using k by (simp add: unat_div)
  then have "unat (ucast (h div 4) :: u8) = k" using k by (simp add: unat_narrow8)
  then have "unat (push_bit 4 (ucast (h div 4)) :: u8) = 16 * k" using k by (simp add: push_bit_eq_mult unat_word_ariths)
  then have "unat (drop_bit 4 (push_bit 4 (ucast (h div 4)) :: u8)) = k" by (simp add: drop_bit_eq_div unat_div)
  moreover have "unat (ucast x :: u16) = unat x" for x :: u8
    using unsigned_less [of x, where ?'a = nat] by (simp add: unsigned_ucast_eq take_bit_nat_eq_self)
  ultimately show ?thesis using k by (simp add: word_unat_eq_iff unat_word_ariths)
qed

text \<open>The header bytes with the checksum \<open>v\<close> filled in.\<close>

definition hdrWith :: "u16 \<Rightarrow> 'a tcp_segment_scheme \<Rightarrow> u8 list" where
  "hdrWith v seg = take 16 (tcphdrBytes seg) @ bytes16 v @ bytes16 (urgentPointer seg)"

lemma tcphdr_take: "take 16 (tcphdrBytes seg) = bytes16 (srcPort seg) @ bytes16 (destPort seg) @ bytes32 (sequenceNo seg) @ bytes32 (ackNo seg) @
     [push_bit 4 (ucast (headerLength seg div 4)), tcpFlags seg] @ bytes16 (window seg)"
  by (simp add: tcphdrBytes_def)

lemma tcphdr_hdrWith: "tcphdrBytes seg = hdrWith 0 seg"
  by (simp add: hdrWith_def tcphdr_take) (simp add: tcphdrBytes_def)

lemma hdrWith_length [simp]: "length (hdrWith v seg) = 20"
  by (simp add: hdrWith_def)

lemma hdrWith_sum [simp]: "be16 (drop 16 (hdrWith v seg)) = v"
  by (simp add: hdrWith_def)

lemma headerFromBytes_hdrWith:
  assumes "unat (headerLength seg) mod 4 = 0" "unat (headerLength seg) \<le> 60"
  shows "headerFromBytes (hdrWith v seg) = (tcp_segment.truncate seg)\<lparr>headerOptionList := [], payloadLength := 0, payloadList := []\<rparr>"
proof -
  let ?h = "hdrWith v seg"
  have nth: "?h ! 12 = push_bit 4 (ucast (headerLength seg div 4))" "?h ! 13 = tcpFlags seg"
    by (simp_all add: hdrWith_def tcphdr_take nth_append bytes16_def bytes32_def)
  have d: "be16 ?h = srcPort seg" "be16 (drop 2 ?h) = destPort seg" "be32 (drop 4 ?h) = sequenceNo seg" "be32 (drop 8 ?h) = ackNo seg"
      "be16 (drop 14 ?h) = window seg" "be16 (drop 18 ?h) = urgentPointer seg"
    by (simp_all add: hdrWith_def tcphdr_take) (use be16_bytes [of "urgentPointer seg" "[]"] in simp_all)
  show ?thesis unfolding headerFromBytes_def Let_def nth d offset_read [OF assms] flag_read
    by (simp add: newSegment_def tcp_segment.defs)
qed

section \<open>Round trip\<close>

definition padLength :: "tcp_option list \<Rightarrow> nat" where
  "padLength os = (let n = optionsLength os mod 4 in if n \<noteq> 0 then 4 - n else 0)"

text \<open>The data bytes of a segment: its own, or the letter \<open>t\<close> for every byte of a segment that only counts them.\<close>

definition dataBytes :: "wire_segment \<Rightarrow> u8 list" where
  "dataBytes seg = (if byteArray seg \<noteq> [] then byteArray seg else replicate (nat (byteLength seg - uint (headerLength seg))) 116)"

text \<open>A segment whose lengths agree: the options are well-formed and the header length counts them and their padding, at most
  40 bytes; the packet length counts header and data.\<close>

definition wireOk :: "wire_segment \<Rightarrow> bool" where
  "wireOk seg \<longleftrightarrow> list_all optionOk (headerOptionList seg) \<and> unat (headerLength seg) \<le> 60 \<and>
     unat (headerLength seg) = 20 + optionsLength (headerOptionList seg) + padLength (headerOptionList seg) \<and>
     uint (headerLength seg) \<le> byteLength seg \<and> byteLength seg < 2 ^ 30 \<and>
     (byteArray seg \<noteq> [] \<longrightarrow> int (length (byteArray seg)) = byteLength seg - uint (headerLength seg))"

definition segmentWith :: "u16 \<Rightarrow> wire_segment \<Rightarrow> u8 list" where
  "segmentWith v seg = hdrWith v seg @ concat (map optBytes (headerOptionList seg)) @ replicate (padLength (headerOptionList seg)) 0 @ dataBytes seg"

lemma optionsLength_bytes: "list_all optionOk os \<Longrightarrow> length (concat (map optBytes os)) = optionsLength os"
  by (induction os) (simp_all add: optionsLength_def optBytes_length)

lemma padLength_aligned: "(optionsLength os + padLength os) mod 4 = 0"
  by (simp add: padLength_def Let_def) presburger

lemma dataBytes_length: "wireOk seg \<Longrightarrow> int (length (dataBytes seg)) = byteLength seg - uint (headerLength seg)"
  by (simp add: wireOk_def dataBytes_def)

lemma segmentWith_length:
  assumes "wireOk seg"
  shows "length (segmentWith v seg) = nat (byteLength seg)"
proof -
  have "unat (headerLength seg) = 20 + optionsLength (headerOptionList seg) + padLength (headerOptionList seg)" using assms by (simp add: wireOk_def)
  then have "uint (headerLength seg) = int (20 + optionsLength (headerOptionList seg) + padLength (headerOptionList seg))" by (simp only: uint_nat)
  then have "int (length (segmentWith v seg)) = byteLength seg"
    using assms dataBytes_length [OF assms] optionsLength_bytes [of "headerOptionList seg"] by (simp add: segmentWith_def wireOk_def)
  then show ?thesis by simp
qed

lemma padOptions_put: "room (padLength os) b \<Longrightarrow> padOptions os b = put (replicate (padLength os) 0) b"
  by (cases "optionsLength os mod 4 = 0") (simp_all add: padOptions_def padLength_def Let_def fillNBytes_put)

lemma copy_put:
  assumes "room (length xs) b" "bufsize b < 2 ^ 32"
  shows "snd (accessNBytes (length xs) (copyDataToBuffer xs b)) = put xs b"
proof -
  have t: "take (getRemainingSize b) xs = xs" using assms(1) by (simp add: room_def getRemainingSize_def)
  have "copyDataToBuffer xs b = (put xs b)\<lparr>pos := pos b\<rparr>" by (simp add: copyDataToBuffer_def t Let_def put_def)
  moreover have "room (length xs) ((put xs b)\<lparr>pos := pos b\<rparr>)" "bufsize ((put xs b)\<lparr>pos := pos b\<rparr>) < 2 ^ 32"
    using assms put_size [OF assms(1)] by (simp_all add: room_def)
  ultimately show ?thesis by (simp add: accessNBytes_skip skip_def put_def)
qed

lemma serializeData_put:
  assumes w: "wireOk seg" and r: "room (length (dataBytes seg)) b" "bufsize b < 2 ^ 32"
  shows "serializeData seg b = Inr (put (dataBytes seg) b)"
proof (cases "byteArray seg = []")
  case True
  then have d: "dataBytes seg = replicate (nat (byteLength seg - uint (headerLength seg))) 116" by (simp add: dataBytes_def)
  show ?thesis using True r fillNBytes_put [of "nat (byteLength seg - uint (headerLength seg))" b 116] unfolding d by (simp add: serializeData_def Let_def)
next
  case False
  then have "0 < int (length (byteArray seg))" by simp
  then have l: "length (byteArray seg) = nat (byteLength seg - uint (headerLength seg))" "dataBytes seg = byteArray seg" "byteLength seg > uint (headerLength seg)"
    using w False by (auto simp: wireOk_def dataBytes_def simp del: of_nat_0_less_iff length_greater_0_conv)
  have "snd (accessNBytes (length (byteArray seg)) (copyDataToBuffer (byteArray seg) b)) = put (byteArray seg) b"
    by (rule copy_put) (use r l in simp_all)
  then show ?thesis using False l by (simp add: serializeData_def Let_def)
qed

lemma serialize_bytes:
  assumes w: "wireOk seg" and b: "pos b = 0" "nat (byteLength seg) \<le> bufsize b" "bufsize b < 2 ^ 32"
  shows "serialize addrs seg b = Inr (put (segmentWith (checksum IP_PROT_TCP (segmentWith 0 seg) addrs) seg) b)"
proof -
  let ?os = "headerOptionList seg" and ?h = "hdrWith 0 seg" and ?d = "dataBytes seg"
  let ?o = "concat (map optBytes ?os)" and ?p = "replicate (padLength ?os) 0 :: u8 list"
  have len: "length (segmentWith 0 seg) \<le> bufsize b" using segmentWith_length [OF w] b(2) by simp
  have r: "room (length ?h + (length ?o + (length ?p + length ?d))) b" using len b(1) by (simp add: room_def segmentWith_def)
  have ok: "list_all optionOk ?os" "unat (headerLength seg) mod 4 = 0"
    using w padLength_aligned [of ?os] by (simp_all add: wireOk_def add.assoc) presburger
  have al: "headerLength seg mod 4 = 0" using ok(2) by (simp add: word_unat_eq_iff unat_mod)
  have 1: "writeNBytes (tcphdrBytes seg) b = put ?h b"
    unfolding tcphdr_hdrWith by (rule writeNBytes_put) (use r in \<open>simp add: room_def\<close>)
  have r1: "room (length ?o + (length ?p + length ?d)) (put ?h b)" using room_put [OF r] .
  have 2: "serializeOptions ?os (put ?h b) = Inr (put ?o (put ?h b))"
    by (rule serializeOptions_put [OF ok(1)]) (rule room_less [OF r1], simp)
  have r2: "room (length ?p + length ?d) (put ?o (put ?h b))" using room_put [OF r1] .
  have 3: "padOptions ?os (put ?o (put ?h b)) = put ?p (put ?o (put ?h b))"
    by (rule padOptions_put) (rule room_less [OF r2], simp)
  let ?b3 = "put ?p (put ?o (put ?h b))"
  have r3: "room (length ?d) ?b3" using room_put [OF r2] .
  have "put ?d ?b3 = put (?p @ ?d) (put ?o (put ?h b))" by (rule put_put [OF r2])
  also have "\<dots> = put (?o @ ?p @ ?d) (put ?h b)" by (rule put_put) (use r1 in simp)
  also have "\<dots> = put (segmentWith 0 seg) b" unfolding segmentWith_def by (rule put_put) (use r in simp)
  finally have e: "put ?d ?b3 = put (segmentWith 0 seg) b" .
  have "bufsize ?b3 = bufsize b"
    using put_size [OF room_less [OF r]] put_size [OF room_less [OF r1]] put_size [OF room_less [OF r2]] by simp
  then have 4: "serializeData seg ?b3 = Inr (put (segmentWith 0 seg) b)" using serializeData_put [OF w r3] b(3) e by simp
  let ?b4 = "put (segmentWith 0 seg) b" and ?v = "checksum IP_PROT_TCP (segmentWith 0 seg) addrs"
  have t: "take (pos ?b4) (buf ?b4) = segmentWith 0 seg" using b(1) by (simp add: put_def)
  have 5: "writeUint16To 16 ?v ?b4 = put (segmentWith ?v seg) b"
  proof -
    have "writeUint16To 16 ?v ?b4 = ?b4\<lparr>buf := take 16 (buf ?b4) @ bytes16 ?v @ drop (16 + 2) (buf ?b4)\<rparr>"
      by (rule writeUint16To_put) (use len b(1) in \<open>simp add: put_def segmentWith_def\<close>)
    moreover have "take 16 (buf ?b4) @ bytes16 ?v @ drop (16 + 2) (buf ?b4) = buf (put (segmentWith ?v seg) b)"
      using b(1) by (simp add: put_def segmentWith_def hdrWith_def)
    ultimately show ?thesis using segmentWith_length [OF w, of 0] segmentWith_length [OF w, of ?v] by (simp add: put_def)
  qed
  show ?thesis unfolding serialize_def 1 2 bindR_Inr 3 4 t 5 using b(1) al by simp
qed

text \<open>The options that the parser finds: the padding reads as end-of-list options.\<close>

lemma pad_bytes: "concat (map optBytes (os @ replicate n (mkOption OptEnd))) = concat (map optBytes os) @ replicate n 0"
proof -
  have "optBytes (mkOption OptEnd) = [0]" by (simp add: optBytes_def optHead_def mkOption_def)
  then have "concat (map optBytes (replicate n (mkOption OptEnd))) = replicate n 0" by (induction n) simp_all
  then show ?thesis by simp
qed

lemma pad_ok: "list_all optionOk os \<Longrightarrow> list_all optionOk (os @ replicate n (mkOption OptEnd))"
  by (simp add: list_all_iff optionOk_def mkOption_def set_replicate_conv_if)

lemma no_options:
  assumes "list_all optionOk os" "optionsLength os = 0"
  shows "os = []"
proof (cases os)
  case (Cons opt rest)
  have "length (optBytes opt) \<noteq> 0" by (simp add: optBytes_def optHead_def)
  then show ?thesis using assms Cons optBytes_length [of opt] by (simp add: optionsLength_def)
qed simp

lemma parseHeaderOptions_bytes:
  fixes seg :: wire_segment
  assumes w: "wireOk seg" and x: "buf b = segmentWith v seg" "pos b = 20" "\<not> errorFound b"
    and s: "headerLength s = headerLength seg" "headerOptionList s = []"
  shows "parseHeaderOptions s b = (s\<lparr>headerOptionList := headerOptionList seg @ replicate (padLength (headerOptionList seg)) (mkOption OptEnd)\<rparr>, b)"
proof -
  let ?os = "headerOptionList seg" and ?n = "padLength (headerOptionList seg)"
  let ?all = "?os @ replicate ?n (mkOption OptEnd)"
  have ok: "list_all optionOk ?os" "unat (headerLength seg) = 20 + optionsLength ?os + ?n" using w by (simp_all add: wireOk_def)
  have bytes: "length (concat (map optBytes ?all)) = optionsLength ?os + ?n" unfolding pad_bytes using optionsLength_bytes [OF ok(1)] by simp
  show ?thesis
  proof (cases "headerLength seg > 20")
    case True
    then have d: "unat (headerLength seg - 20) = optionsLength ?os + ?n"
      using ok(2) by (subst unat_sub) (simp_all add: word_le_nat_alt word_less_nat_alt)
    have "drop 20 (segmentWith v seg) = concat (map optBytes ?all) @ dataBytes seg" unfolding pad_bytes by (simp add: segmentWith_def)
    then have "subBuffer b (unat (headerLength seg - 20)) = newBuffer (concat (map optBytes ?all))"
      unfolding subBuffer_def d x(1,2) using bytes segmentWith_def by simp
    moreover have "ahead (newBuffer (concat (map optBytes ?all))) = concat (map optBytes ?all)" by (simp add: ahead_def newBuffer_def)
    ultimately have o1: "deserializeOptions (subBuffer b (unat (headerLength seg - 20))) = (?all, skip (length (concat (map optBytes ?all))) (newBuffer (concat (map optBytes ?all))))"
      using deserializeOptions_ahead [OF pad_ok [OF ok(1)]] by metis
    show ?thesis unfolding parseHeaderOptions_def s o1 Let_def using True x(3) by (simp add: newBuffer_def)
  next
    case False
    then have "optionsLength ?os = 0" "?n = 0" using ok(2) by (simp_all add: word_less_nat_alt)
    then have e: "?all = []" using no_options [OF ok(1)] by simp
    have "s\<lparr>headerOptionList := []\<rparr> = s" using s(2) by simp
    then show ?thesis unfolding parseHeaderOptions_def s(1) e using False by simp
  qed
qed

lemma serialized_parses:
  assumes w: "wireOk seg" and b: "pos b = 0" "nat (byteLength seg) \<le> bufsize b" "bufsize b < 2 ^ 32"
  shows "\<exists>b'. serialize addrs seg b = Inr b' \<and> pos b' = nat (byteLength seg) \<and> errorFound b' = errorFound b \<and>
     deserialize addrs (newBuffer (take (pos b') (buf b'))) =
       seg\<lparr>headerOptionList := headerOptionList seg @ replicate (padLength (headerOptionList seg)) (mkOption OptEnd),
           payloadLength := of_nat (length (dataBytes seg)), payloadList := [], byteArray := dataBytes seg, bitError := False\<rparr>"
proof -
  let ?v = "checksum IP_PROT_TCP (segmentWith 0 seg) addrs"
  let ?X = "segmentWith ?v seg" and ?B = "newBuffer (segmentWith ?v seg)" and ?h = "hdrWith ?v seg"
  let ?all = "headerOptionList seg @ replicate (padLength (headerOptionList seg)) (mkOption OptEnd)"
  have ok: "unat (headerLength seg) = 20 + optionsLength (headerOptionList seg) + padLength (headerOptionList seg)" "unat (headerLength seg) \<le> 60"
      "list_all optionOk (headerOptionList seg)" "0 \<le> byteLength seg" "byteLength seg < 2 ^ 30"
    using w uint_ge_0 [of "headerLength seg"] unfolding wireOk_def by linarith+
  have al: "unat (headerLength seg) mod 4 = 0" using ok(1) padLength_aligned [of "headerOptionList seg"] by (simp add: add.assoc) presburger
  have len: "length ?X = nat (byteLength seg)" "length ?X < 2 ^ 30" using segmentWith_length [OF w] ok(4,5) by simp_all
  have h: "readNBytes 20 ?B = (?h, skip 20 ?B)"
    using readNBytes_ahead [of ?B ?h] by (simp add: ahead_def newBuffer_def segmentWith_def)
  let ?s = "(tcp_segment.truncate seg)\<lparr>headerOptionList := [], payloadLength := 0, payloadList := []\<rparr>"
  have f: "headerFromBytes ?h = ?s" by (rule headerFromBytes_hdrWith [OF al ok(2)])
  have o1: "parseHeaderOptions ?s (skip 20 ?B) = (?s\<lparr>headerOptionList := ?all\<rparr>, skip 20 ?B)"
    by (rule parseHeaderOptions_bytes [OF w]) (simp_all add: newBuffer_def tcp_segment.defs)
  have hs: "headerLength (?s\<lparr>headerOptionList := ?all\<rparr>) = headerLength seg" by (simp add: tcp_segment.defs)
  have split: "?X = (?h @ concat (map optBytes (headerOptionList seg)) @ replicate (padLength (headerOptionList seg)) 0) @ dataBytes seg" by (simp add: segmentWith_def)
  have pre: "length (?h @ concat (map optBytes (headerOptionList seg)) @ replicate (padLength (headerOptionList seg)) 0) = unat (headerLength seg)"
    using ok(1) optionsLength_bytes [OF ok(3)] by simp
  then have hl: "unat (headerLength seg) \<le> length ?X" "drop (unat (headerLength seg)) ?X = dataBytes seg"
      "length ?X - unat (headerLength seg) = length (dataBytes seg)" using split by (simp_all del: append_assoc)
  let ?S = "?B\<lparr>pos := unat (headerLength seg)\<rparr>"
  have sk: "seek (unat (headerLength seg)) (skip 20 ?B) = ?S" using hl(1) by (simp add: seek_def newBuffer_def skip_def)
  have rem: "getRemainingSize ?S = length (dataBytes seg)" using hl(3) by (simp add: getRemainingSize_def newBuffer_def)
  have ac: "accessNBytes (length (dataBytes seg)) ?S = (Some (unat (headerLength seg)), skip (length (dataBytes seg)) ?S)"
    using accessNBytes_skip [of "length (dataBytes seg)" ?S] hl len by (simp add: room_def newBuffer_def)
  have ck: "checksum IP_PROT_TCP ?X addrs = 0"
    using checksum_verifies [of "take 16 (tcphdrBytes seg)" "bytes16 (urgentPointer seg) @ concat (map optBytes (headerOptionList seg)) @
        replicate (padLength (headerOptionList seg)) 0 @ dataBytes seg" IP_PROT_TCP addrs] len
    by (simp add: segmentWith_def hdrWith_def)
  have d: "deserialize addrs ?B = seg\<lparr>headerOptionList := ?all, payloadLength := of_nat (length (dataBytes seg)), payloadList := [], byteArray := dataBytes seg, bitError := False\<rparr>"
    unfolding deserialize_def Let_def h prod.case f o1 hs sk rem ac
    using ok(4) len(1) hl(2) ck by (simp add: newBuffer_def tcp_segment.defs wire_segment.defs)
  have t: "take (pos (put ?X b)) (buf (put ?X b)) = ?X" using b(1) by (simp add: put_def)
  have "pos (put ?X b) = nat (byteLength seg)" "errorFound (put ?X b) = errorFound b" using len(1) b(1) by simp_all
  moreover have "deserialize addrs (newBuffer (take (pos (put ?X b)) (buf (put ?X b)))) =
      seg\<lparr>headerOptionList := ?all, payloadLength := of_nat (length (dataBytes seg)), payloadList := [], byteArray := dataBytes seg, bitError := False\<rparr>"
    unfolding t by (rule d)
  ultimately show ?thesis using serialize_bytes [OF w b, of addrs] by blast
qed

text \<open>
  C13: what is serialised parses back. A segment whose lengths agree is written without an error into any buffer that has
  room for its bytes, and parsing the bytes written gives the segment back: every header field, flag and option; the data, in which
  bytes that were only counted appear as the letter \<open>t\<close>; the padding as end-of-list options; and no bit error, so the checksum
  that was filled in verifies.
\<close>

theorem serialize_roundtrip:
  assumes w: "wireOk seg" and b: "pos b = 0" "nat (byteLength seg) \<le> bufsize b" "bufsize b < 2 ^ 32"
  shows "\<exists>b'. serialize addrs seg b = Inr b' \<and> pos b' = nat (byteLength seg) \<and> errorFound b' = errorFound b \<and>
     deserialize addrs (newBuffer (take (pos b') (buf b'))) =
       seg\<lparr>headerOptionList := headerOptionList seg @ replicate (padLength (headerOptionList seg)) (mkOption OptEnd),
           payloadLength := of_nat (length (dataBytes seg)), payloadList := [], byteArray := dataBytes seg, bitError := False\<rparr>"
  by (rule serialized_parses [OF assms])

definition sampleWire :: wire_segment where
  "sampleWire = tcp_segment.extend
     (newSegment\<lparr>srcPort := 1025, destPort := 80, sequenceNo := 0xDEADBEEF, ackNo := 77, headerLength := 44, synBit := True, ackBit := True, window := 14600,
        headerOptionList := [\<lparr>optLength = 4, optBody = OptMaxSegmentSize 1460\<rparr>, \<lparr>optLength = 3, optBody = OptWindowScale 7\<rparr>, \<lparr>optLength = 10, optBody = OptTimestamp 5 6\<rparr>,
          \<lparr>optLength = 5, optBody = OptUnknown 30 [1, 2, 3]\<rparr>]\<rparr>)
     (wire_segment.fields 47 [10, 20, 30] False)"

theorem serialize_roundtrip_witness:
  "\<exists>b'. serialize [1, 2, 3, 4, 5, 6, 7, 8] sampleWire (newBuffer (replicate 60 0)) = Inr b' \<and> pos b' = 47 \<and>
     optBody (headerOptionList (deserialize [1, 2, 3, 4, 5, 6, 7, 8] (newBuffer (take (pos b') (buf b')))) ! 3) = OptUnknown 30 [1, 2, 3] \<and>
     byteArray (deserialize [1, 2, 3, 4, 5, 6, 7, 8] (newBuffer (take (pos b') (buf b')))) = [10, 20, 30]"
proof -
  have w: "wireOk sampleWire" "byteLength sampleWire = 47"
    by (simp_all add: wireOk_def sampleWire_def optionOk_def optionsLength_def padLength_def newSegment_def tcp_segment.defs wire_segment.defs)
  have b: "pos (newBuffer (replicate 60 0)) = 0" "nat (byteLength sampleWire) \<le> bufsize (newBuffer (replicate 60 0))" "bufsize (newBuffer (replicate 60 0)) < 2 ^ 32"
    using w(2) by (simp_all add: newBuffer_def)
  from serialize_roundtrip [OF w(1) b, of "[1, 2, 3, 4, 5, 6, 7, 8]"] obtain b' where
    "serialize [1, 2, 3, 4, 5, 6, 7, 8] sampleWire (newBuffer (replicate 60 0)) = Inr b'" "pos b' = 47"
    "deserialize [1, 2, 3, 4, 5, 6, 7, 8] (newBuffer (take (pos b') (buf b'))) =
       sampleWire\<lparr>headerOptionList := headerOptionList sampleWire @ replicate (padLength (headerOptionList sampleWire)) (mkOption OptEnd),
           payloadLength := of_nat (length (dataBytes sampleWire)), payloadList := [], byteArray := dataBytes sampleWire, bitError := False\<rparr>"
    using w(2) by auto
  then show ?thesis by (intro exI [of _ b']) (simp add: sampleWire_def dataBytes_def newSegment_def tcp_segment.defs wire_segment.defs)
qed

section \<open>Parsing arbitrary bytes\<close>

text \<open>What the parser can return as an option: one that the writer accepts, or an unknown one whose length byte is 0 or 1.\<close>

definition parsedOk :: "tcp_option \<Rightarrow> bool" where
  "parsedOk opt \<longleftrightarrow> unat (optLength opt) < 256 \<and>
     (isOk (serializeOption opt (newBuffer [])) \<or> (\<exists>k. optBody opt = OptUnknown k [] \<and> unat (optLength opt) < 2))"

lemma readNBytes_length: "length (fst (readNBytes n b)) = n"
  by (induction n arbitrary: b) (simp_all add: Let_def split: prod.splits, metis fst_conv)

lemma readSackItems_length: "length (fst (readSackItems n b)) = n"
  by (induction n arbitrary: b) (simp_all add: Let_def split: prod.splits, metis fst_conv)

lemma unat_wide8: "unat (ucast (x :: u8) :: u16) = unat x"
  using unsigned_less [of x, where ?'a = nat] by (simp add: unsigned_ucast_eq take_bit_nat_eq_self)

lemma eq_wide8: "x = n \<Longrightarrow> ucast (x :: u8) = (ucast n :: u16)"
  by simp

lemma parsed_simple: "unat (optLength opt) < 256 \<Longrightarrow> isOk (serializeOption opt (newBuffer [])) \<Longrightarrow> parsedOk opt"
  by (simp add: parsedOk_def)

lemma deserializeOption_parsed: "parsedOk (fst (deserializeOption b))"
proof -
  obtain kind b1 where k: "readByte b = (kind, b1)" by (rule prod.exhaust)
  obtain len b2 where l: "readByte b1 = (len, b2)" by (rule prod.exhaust)
  have small: "unat (ucast len :: u16) < 256" using unsigned_less [of len, where ?'a = nat] by (simp add: unat_wide8)
  have unk: "parsedOk (fst (deserializeUnknown kind len b2))"
  proof -
    obtain bs b3 where r: "readNBytes (unat len - 2) b2 = (bs, b3)" by (rule prod.exhaust)
    have n: "length bs = unat len - 2" using readNBytes_length [of "unat len - 2" b2] r by simp
    show ?thesis
    proof (cases "unat len < 2")
      case True
      then show ?thesis using n r small by (simp add: deserializeUnknown_def parsedOk_def unat_wide8)
    next
      case False
      then have "unat len = 2 + length bs" using n by linarith
      then show ?thesis using r small by (intro parsed_simple) (simp_all add: deserializeUnknown_def serializeOption_def unat_wide8 Let_def)
    qed
  qed
  have sck: "parsedOk (fst (let (sis, b3) = readSackItems (unat len div 8) b2 in (\<lparr>optLength = ucast len, optBody = OptSack sis\<rparr>, b3)))"
    if c: "len > 2" "len mod 8 = 2"
  proof -
    obtain sis b3 where r: "readSackItems (unat len div 8) b2 = (sis, b3)" by (rule prod.exhaust)
    have n: "length sis = unat len div 8" using readSackItems_length [of "unat len div 8" b2] r by simp
    have "unat (len mod 8) = unat (2 :: u8)" using c(2) by (simp only:)
    then have "unat len mod 8 = 2" by (simp add: unat_mod)
    then have "unat len = 2 + length sis * 8" using n mult_div_mod_eq [of 8 "unat len"] by simp
    then show ?thesis using r small by (intro parsed_simple) (simp_all add: serializeOption_def unat_wide8 Let_def)
  qed
  have simple: "parsedOk (mkOption OptEnd)" "parsedOk (mkOption OptNop)" "parsedOk \<lparr>optLength = 4, optBody = OptMaxSegmentSize v\<rparr>"
    "parsedOk \<lparr>optLength = 3, optBody = OptWindowScale v\<rparr>" "parsedOk \<lparr>optLength = 2, optBody = OptSackPermitted\<rparr>"
    "parsedOk \<lparr>optLength = 10, optBody = OptTimestamp s e\<rparr>" for v s e
    by (rule parsed_simple; simp add: mkOption_def serializeOption_def Let_def)+
  show ?thesis unfolding deserializeOption_def k l prod.case Let_def
    using unk sck simple by (auto simp: Let_def split: prod.splits)
qed

lemma deserializeOptions_parsed:
  "list_all parsedOk (fst (deserializeOptions b)) \<and> length (fst (deserializeOptions b)) \<le> getRemainingSize b"
proof (induction b rule: deserializeOptions.induct)
  case (1 b)
  show ?case
  proof (cases "getRemainingSize b = 0")
    case False
    obtain opt b1 where o1: "deserializeOption b = (opt, b1)" by (rule prod.exhaust)
    obtain os b2 where o2: "deserializeOptions b1 = (os, b2)" by (rule prod.exhaust)
    have "list_all parsedOk os" "length os \<le> getRemainingSize b1" using 1 [OF False] o1 o2 by auto
    moreover have "getRemainingSize b1 < getRemainingSize b" by (rule deserializeOption_progress [OF False o1])
    moreover have "parsedOk opt" using deserializeOption_parsed [of b] o1 by simp
    ultimately show ?thesis using False o1 o2 by (subst (1 2) deserializeOptions.simps) simp
  qed (subst (1 2) deserializeOptions.simps, simp)
qed

lemma readNBytes_state: "bufOk b \<Longrightarrow> buf (snd (readNBytes n b)) = buf b \<and> pos (snd (readNBytes n b)) = min (bufsize b) (pos b + n) \<and>
    errorFound (snd (readNBytes n b)) = (errorFound b \<or> bufsize b < pos b + n)"
proof (induction n arbitrary: b)
  case (Suc n)
  obtain x b1 where x: "readByte b = (x, b1)" by (rule prod.exhaust)
  have "bufOk b1" using bufOk_readByte [OF Suc.prems] x by simp
  note ih = Suc.IH [OF this]
  show ?case
  proof (cases "pos b < bufsize b")
    case True
    then have "b1 = b\<lparr>pos := pos b + 1\<rparr>" using x by (auto simp: readByte_def)
    then show ?thesis using ih True by (auto simp: x Let_def split: prod.split)
  next
    case False
    then have "b1 = setError b" "pos b = bufsize b" using x Suc.prems by (auto simp: readByte_def bufOk_def)
    then show ?thesis using ih by (auto simp: x Let_def setError_def split: prod.split)
  qed
qed (simp add: bufOk_def)

lemma headerFromBytes_length:
  "unat (headerLength (headerFromBytes h)) = 4 * unat (drop_bit 4 (h ! 12))" "unat (drop_bit 4 (h ! 12)) \<le> 15"
  "headerOptionList (headerFromBytes h) = []" "payloadList (headerFromBytes h) = []"
proof -
  have "unat (h ! 12) < 256" using unsigned_less [of "h ! 12", where ?'a = nat] by simp
  then have d: "unat (drop_bit 4 (h ! 12)) < 16" by (simp add: drop_bit_eq_div unat_div)
  then show "unat (drop_bit 4 (h ! 12)) \<le> 15" by simp
  have "headerLength (headerFromBytes h) = ucast (drop_bit 4 (h ! 12)) * 4" by (simp add: headerFromBytes_def Let_def)
  then show "unat (headerLength (headerFromBytes h)) = 4 * unat (drop_bit 4 (h ! 12))" using d by (simp add: unat_word_ariths unat_wide8 mult.commute)
qed (simp_all add: headerFromBytes_def newSegment_def Let_def)

lemma parseHeaderOptions_state:
  assumes "parseHeaderOptions s b = (s', b')" "headerOptionList s = []" "unat (headerLength s) \<le> 60"
  shows "buf b' = buf b \<and> pos b' = pos b \<and> (errorFound b \<longrightarrow> errorFound b') \<and> headerLength s' = headerLength s \<and> payloadList s' = payloadList s \<and>
    list_all parsedOk (headerOptionList s') \<and> length (headerOptionList s') \<le> 40 \<and> (headerLength s \<le> 20 \<longrightarrow> s' = s \<and> b' = b)"
proof (cases "headerLength s > 20")
  case True
  let ?sb = "subBuffer b (unat (headerLength s - 20))"
  obtain os sb where o1: "deserializeOptions ?sb = (os, sb)" by (rule prod.exhaust)
  have "unat (headerLength s - 20) \<le> 40" using True assms(3) by (subst unat_sub) (simp_all add: word_le_nat_alt word_less_nat_alt)
  then have "getRemainingSize ?sb \<le> 40" by (simp add: subBuffer_def newBuffer_def getRemainingSize_def)
  then have "list_all parsedOk os" "length os \<le> 40" using deserializeOptions_parsed [of ?sb] o1 by auto
  then show ?thesis using True assms(1,2) o1 by (auto simp: parseHeaderOptions_def setError_def)
next
  case False
  then show ?thesis using assms by (auto simp: parseHeaderOptions_def)
qed

text \<open>The steps of the parser on a buffer at its beginning.\<close>

lemma deserialize_steps:
  assumes len: "length bs < 2 ^ 32"
  obtains h s b2 where "h = fst (readNBytes 20 (newBuffer bs))" "parseHeaderOptions (headerFromBytes h) (snd (readNBytes 20 (newBuffer bs))) = (s, b2)"
    "deserialize addrs (newBuffer bs) = tcp_segment.extend (s\<lparr>payloadLength := of_nat (length (drop (unat (headerLength s)) bs))\<rparr>)
       (wire_segment.fields (int (length bs)) (drop (unat (headerLength s)) bs)
         (errorFound b2 \<or> unat (headerLength s) > length bs \<or> be16 (drop 16 h) \<noteq> 0 \<and> addrs \<noteq> [] \<and> checksum IP_PROT_TCP bs addrs \<noteq> 0))"
    "buf b2 = bs"
proof -
  let ?B = "newBuffer bs"
  obtain h b1 where h: "readNBytes 20 ?B = (h, b1)" by (rule prod.exhaust)
  obtain s b2 where s: "parseHeaderOptions (headerFromBytes h) b1 = (s, b2)" by (rule prod.exhaust)
  have b1: "buf b1 = bs" using readNBytes_state [OF bufOk_new(1), of 20 bs] h by simp
  have b2: "buf b2 = bs" using parseHeaderOptions_state [OF s] headerFromBytes_length [of h] b1 by simp
  let ?n = "unat (headerLength s)"
  let ?b3 = "seek ?n b2"
  have b3: "buf ?b3 = bs" "pos ?b3 = min ?n (length bs)" "errorFound ?b3 = (errorFound b2 \<or> ?n > length bs)" using b2 by (simp_all add: seek_def)
  then have rem: "getRemainingSize ?b3 = length (drop ?n bs)" by (simp add: getRemainingSize_def)
  have ac: "accessNBytes (length (drop ?n bs)) ?b3 = (Some (pos ?b3), skip (length (drop ?n bs)) ?b3)"
    by (rule accessNBytes_skip) (use b3 len in \<open>auto simp: room_def\<close>)
  have "drop (min ?n (length bs)) bs = drop ?n bs" by (simp add: min_def)
  then have "deserialize addrs ?B = tcp_segment.extend (s\<lparr>payloadLength := of_nat (length (drop ?n bs))\<rparr>)
       (wire_segment.fields (int (length bs)) (drop ?n bs)
         (errorFound b2 \<or> ?n > length bs \<or> be16 (drop 16 h) \<noteq> 0 \<and> addrs \<noteq> [] \<and> checksum IP_PROT_TCP bs addrs \<noteq> 0))"
    unfolding deserialize_def Let_def h prod.case s rem ac using b3 by simp
  then show thesis using that [of h s b2] h s b2 by simp
qed



text \<open>
  A data offset below 5 is accepted. The parser does not check that the header length covers the fixed header: with a data
  offset of 0 to 4 it parses the fields, sets no bit error, and goes back to deliver bytes of the header, from the one that
  the offset points to, as the data of the segment.
\<close>

lemma short_offset_accepted:
  assumes "20 \<le> length bs" "length bs < 2 ^ 32" "unat (drop_bit 4 (bs ! 12)) < 5"
  shows "\<not> bitError (deserialize [] (newBuffer bs)) \<and> headerOptionList (deserialize [] (newBuffer bs)) = [] \<and>
     byteArray (deserialize [] (newBuffer bs)) = drop (4 * unat (drop_bit 4 (bs ! 12))) bs"
proof -
  let ?B = "newBuffer bs"
  obtain h s b2 where d: "h = fst (readNBytes 20 ?B)" "parseHeaderOptions (headerFromBytes h) (snd (readNBytes 20 ?B)) = (s, b2)"
    "deserialize [] ?B = tcp_segment.extend (s\<lparr>payloadLength := of_nat (length (drop (unat (headerLength s)) bs))\<rparr>)
       (wire_segment.fields (int (length bs)) (drop (unat (headerLength s)) bs)
         (errorFound b2 \<or> unat (headerLength s) > length bs \<or> be16 (drop 16 h) \<noteq> 0 \<and> [] \<noteq> ([] :: u8 list) \<and> checksum IP_PROT_TCP bs [] \<noteq> 0))"
    by (rule deserialize_steps [OF assms(2), where addrs = "[]"])
  have "ahead ?B = take 20 bs @ drop 20 bs" by (simp add: ahead_def newBuffer_def)
  from readNBytes_ahead [OF this] have r: "readNBytes 20 ?B = (take 20 bs, skip 20 ?B)" using assms(1) by simp
  then have h: "h = take 20 bs" using d(1) by simp
  note hl = headerFromBytes_length [of h]
  have o: "unat (headerLength (headerFromBytes h)) = 4 * unat (drop_bit 4 (bs ! 12))" using hl(1) h by simp
  have "headerLength (headerFromBytes h) \<le> 20" using o assms(3) by (simp add: word_le_nat_alt)
  then have "s = headerFromBytes h" "b2 = skip 20 ?B" using parseHeaderOptions_state [OF d(2) hl(3)] hl(1,2) r by simp_all
  then show ?thesis unfolding d(3) using o hl(3) assms by (simp add: tcp_segment.defs wire_segment.defs)
qed

end
