(* ===== verification/Tcp_ByteQueue.thy ===== *)
theory Tcp_ByteQueue
  imports Tcp_SendQueue Tcp_RcvQueue Tcp_Serializer
begin

text \<open>
  The queues of a connection that carries bytes: \<open>src/inet/common/ByteArray.cc\<close>, \<open>ByteArrayBuffer.cc\<close> and
  \<open>src/inet/transportlayer/tcp/queues/TCPByteStreamSendQueue.cc\<close>, \<open>TCPByteStreamRcvQueue.cc\<close>. The receive queue is a subclass of
  the queue of virtual bytes that overrides the operations of its regions: forgetting the data of the regions maps it to that queue.
\<close>

section \<open>Arrays of bytes\<close>

text \<open>\<open>data_arraysize\<close>, an \<open>unsigned int\<close>\<close>

definition arraySize :: "u8 list \<Rightarrow> u32" where
  "arraySize d = of_nat (length d)"

text \<open>\<open>copyDataToBuffer\<close> returns the bytes that \<open>memcpy\<close> writes; a read past the array, possible only when the sum wraps around, is an error.\<close>

definition copyData :: "u8 list \<Rightarrow> u32 \<Rightarrow> u32 \<Rightarrow> u8 list res" where
  "copyData d len srcOffs =
     (if srcOffs \<ge> arraySize d then Inr []
      else
        let n = (if srcOffs + len > arraySize d then arraySize d - srcOffs else len)
        in if unat srcOffs + unat n \<le> length d then Inr (take (unat n) (drop (unat srcOffs) d)) else Inl (RuntimeError ''read past the array''))"

definition setDataFromByteArray :: "u8 list \<Rightarrow> u32 \<Rightarrow> u32 \<Rightarrow> u8 list res" where
  "setDataFromByteArray other srcOffs len =
     bindR (assertR (srcOffs + len \<le> arraySize other) ''setDataFromByteArray'') (\<lambda>_.
     if unat srcOffs + unat len \<le> length other then Inr (take (unat len) (drop (unat srcOffs) other)) else Inl (RuntimeError ''read past the array''))"

definition truncateArray :: "u8 list \<Rightarrow> u32 \<Rightarrow> u32 \<Rightarrow> u8 list res" where
  "truncateArray d truncleft truncright =
     bindR (assertR (truncleft + truncright \<le> arraySize d) ''truncateData'') (\<lambda>_.
     if truncleft \<noteq> 0 \<or> truncright \<noteq> 0
     then let nlength = arraySize d - (truncleft + truncright)
          in if unat truncleft + unat nlength \<le> length d then Inr (take (unat nlength) (drop (unat truncleft) d)) else Inl (RuntimeError ''read past the array'')
     else Inr d)"

text \<open>Writing into an allocated block.\<close>

definition putAt :: "nat \<Rightarrow> u8 list \<Rightarrow> u8 list \<Rightarrow> u8 list" where
  "putAt k xs block = take k block @ xs @ drop (k + length xs) block"

section \<open>A list of arrays as one buffer\<close>

record byte_buffer =
  dataLengthM :: u64
  dataListM :: "u8 list list"

definition emptyBuffer :: byte_buffer where
  "emptyBuffer = \<lparr>dataLengthM = 0, dataListM = []\<rparr>"

definition buffer_push :: "u8 list \<Rightarrow> byte_buffer \<Rightarrow> byte_buffer" where
  "buffer_push d b = b\<lparr>dataListM := dataListM b @ [d], dataLengthM := dataLengthM b + ucast (arraySize d)\<rparr>"

text \<open>The loop of \<open>getBytesToBuffer\<close>: \<open>n\<close> is \<open>bufferLengthP - copiedBytes\<close>.\<close>

fun getBytes :: "u8 list list \<Rightarrow> u32 \<Rightarrow> u32 \<Rightarrow> u8 list res" where
  "getBytes [] n srcOffs = Inr []"
| "getBytes (d # ds) n srcOffs =
     (if n = 0 then Inr []
      else
        bindR (copyData d n srcOffs) (\<lambda>xs.
        if xs \<noteq> [] then bindR (getBytes ds (n - of_nat (length xs)) 0) (\<lambda>ys. Inr (xs @ ys))
        else getBytes ds n (srcOffs - arraySize d)))"

definition getBytesToBuffer :: "u32 \<Rightarrow> u32 \<Rightarrow> byte_buffer \<Rightarrow> u8 list res" where
  "getBytesToBuffer bufferLength srcOffs b = getBytes (dataListM b) bufferLength srcOffs"

fun dropLoop :: "u32 \<Rightarrow> u8 list list \<Rightarrow> u64 \<Rightarrow> (u8 list list \<times> u64) res" where
  "dropLoop n [] len = (if n = 0 then Inr ([], len) else Inl (RuntimeError ''front of an empty list''))"
| "dropLoop n (d # ds) len =
     (if n = 0 then Inr (d # ds, len)
      else if arraySize d \<le> n then dropLoop (n - arraySize d) ds (len - ucast (arraySize d))
      else bindR (truncateArray d n 0) (\<lambda>d'. Inr (d' # ds, len - ucast n)))"

definition buffer_drop :: "u32 \<Rightarrow> byte_buffer \<Rightarrow> byte_buffer res" where
  "buffer_drop n b =
     bindR (assertR (ucast n \<le> dataLengthM b) ''drop'') (\<lambda>_.
     bindR (dropLoop n (dataListM b) (dataLengthM b)) (\<lambda>(ds, len). Inr (b\<lparr>dataListM := ds, dataLengthM := len\<rparr>)))"

definition popBytesToBuffer :: "u32 \<Rightarrow> byte_buffer \<Rightarrow> (u8 list \<times> byte_buffer) res" where
  "popBytesToBuffer bufferLength b =
     bindR (getBytesToBuffer bufferLength 0 b) (\<lambda>xs. bindR (buffer_drop (of_nat (length xs)) b) (\<lambda>b'. Inr (xs, b')))"

section \<open>The send queue\<close>

record byte_send_queue =
  bs_begin :: u32
  bs_end :: u32
  dataBuffer :: byte_buffer

definition bs_new :: byte_send_queue where
  "bs_new = \<lparr>bs_begin = 0, bs_end = 0, dataBuffer = emptyBuffer\<rparr>"

definition bs_init :: "byte_send_queue \<Rightarrow> u32 \<Rightarrow> byte_send_queue" where
  "bs_init q startSeq = q\<lparr>bs_begin := startSeq, bs_end := startSeq, dataBuffer := emptyBuffer\<rparr>"

text \<open>A \<open>RawPacket\<close> has a byte length and an array of bytes.\<close>

definition bs_enqueueAppData :: "byte_send_queue \<Rightarrow> u64 \<Rightarrow> u8 list \<Rightarrow> byte_send_queue res" where
  "bs_enqueueAppData q bytes msg =
     bindR (assertR (bytes = ucast (arraySize msg)) ''enqueueAppData'') (\<lambda>_.
     Inr (q\<lparr>dataBuffer := buffer_push msg (dataBuffer q), bs_end := bs_end q + ucast bytes\<rparr>))"

text \<open>A segment with an array of bytes; its packet length is set when it is sent.\<close>

definition withBytes :: "tcp_segment \<Rightarrow> u8 list \<Rightarrow> wire_segment" where
  "withBytes seg d = tcp_segment.extend seg (wire_segment.fields 0 d False)"

definition bs_createSegmentWithBytes :: "byte_send_queue \<Rightarrow> u32 \<Rightarrow> u64 \<Rightarrow> wire_segment res" where
  "bs_createSegmentWithBytes q fromSeq numBytes =
     bindR (assertR (seqLE (bs_begin q) fromSeq \<and> seqLE (fromSeq + ucast numBytes) (bs_end q)) ''createSegmentWithBytes'') (\<lambda>_.
     bindR (getBytesToBuffer (ucast numBytes) (fromSeq - bs_begin q) (dataBuffer q)) (\<lambda>buffer.
     bindR (assertR (ucast (arraySize buffer) = numBytes) ''createSegmentWithBytes'') (\<lambda>_.
     Inr (withBytes (newSegment\<lparr>sequenceNo := fromSeq, payloadLength := numBytes\<rparr>) buffer))))"

definition bs_discardUpTo :: "byte_send_queue \<Rightarrow> u32 \<Rightarrow> byte_send_queue res" where
  "bs_discardUpTo q seqNum =
     bindR (assertR (seqLE (bs_begin q) seqNum \<and> seqLE seqNum (bs_end q)) ''discardUpTo'') (\<lambda>_.
     bindR (buffer_drop (seqNum - bs_begin q) (dataBuffer q)) (\<lambda>b.
     Inr (q\<lparr>dataBuffer := b, bs_begin := seqNum\<rparr>)))"

section \<open>Contents of the buffers\<close>

lemma arraySize_nat: "length d < 2 ^ 32 \<Longrightarrow> unat (arraySize d) = length d"
  by (simp add: arraySize_def unat_of_nat)

lemma copyData_take:
  assumes "unat s + unat n < 2 ^ 32" "length d < 2 ^ 32"
  shows "copyData d n s = Inr (take (unat n) (drop (unat s) d))"
proof -
  have a: "unat (arraySize d) = length d" using assms(2) by (rule arraySize_nat)
  have p: "unat (s + n) = unat s + unat n" using assms(1) by (simp add: unat_plus_if_size word_size)
  show ?thesis
  proof (cases "unat s < length d")
    case True
    have "unat (arraySize d - s) = length d - unat s" using True a by (simp add: unat_sub word_le_nat_alt)
    then show ?thesis using True a p by (auto simp: copyData_def Let_def word_le_nat_alt word_less_nat_alt)
  qed (use a in \<open>simp add: copyData_def word_le_nat_alt\<close>)
qed

lemma getBytes_concat:
  assumes "length (concat ds) < 2 ^ 31" "unat s + unat n \<le> length (concat ds)"
  shows "getBytes ds n s = Inr (take (unat n) (drop (unat s) (concat ds)))"
  using assms
proof (induction ds arbitrary: n s)
  case (Cons d ds)
  have l: "length d < 2 ^ 32" "length (concat ds) < 2 ^ 31" using Cons.prems(1) by simp_all
  have c: "copyData d n s = Inr (take (unat n) (drop (unat s) d))" using Cons.prems by (intro copyData_take) simp_all
  have a: "unat (arraySize d) = length d" using l(1) by (rule arraySize_nat)
  show ?case
  proof (cases "n = 0")
    case n: False
    then have "0 < unat n" by (simp add: unat_gt_0)
    show ?thesis
    proof (cases "unat s < length d")
      case True
      let ?k = "min (length d - unat s) (unat n)"
      have k: "length (take (unat n) (drop (unat s) d)) = ?k" by simp
      have ne: "take (unat n) (drop (unat s) d) \<noteq> []" using True \<open>0 < unat n\<close> by simp
      have "unat (of_nat ?k :: u32) = ?k" using l(1) by (simp add: unat_of_nat)
      then have m: "unat (n - of_nat ?k) = unat n - ?k" by (simp add: unat_sub word_le_nat_alt)
      have "getBytes ds (n - of_nat ?k) 0 = Inr (take (unat n - ?k) (concat ds))"
        using Cons.IH [of 0 "n - of_nat ?k"] l(2) m Cons.prems(2) True by simp
      then have g: "getBytes (d # ds) n s = Inr (take (unat n) (drop (unat s) d) @ take (unat n - ?k) (concat ds))"
        using n c ne k by (simp del: take_eq_Nil length_take)
      have "unat n - ?k = unat n - length (drop (unat s) d)" by simp
      then show ?thesis unfolding g using True by simp
    next
      case False
      have "unat (s - arraySize d) = unat s - length d" using False a by (simp add: unat_sub word_le_nat_alt)
      then have "getBytes ds n (s - arraySize d) = Inr (take (unat n) (drop (unat s - length d) (concat ds)))"
        using Cons.IH [of "s - arraySize d" n] l(2) Cons.prems(2) False by simp
      then show ?thesis using n c False by simp
    qed
  qed simp
qed simp

lemma dropLoop_concat:
  assumes "length (concat ds) < 2 ^ 31" "unat n \<le> length (concat ds)" "len = of_nat (length (concat ds))"
  shows "\<exists>ds'. dropLoop n ds len = Inr (ds', of_nat (length (concat ds'))) \<and> concat ds' = drop (unat n) (concat ds)"
  using assms
proof (induction ds arbitrary: n len)
  case (Cons d ds)
  have a: "unat (arraySize d) = length d" using Cons.prems(1) by (intro arraySize_nat) simp
  have ua: "(ucast (arraySize d) :: u64) = of_nat (length d)" using a by (metis of_nat_unat)
  show ?case
  proof (cases "n = 0")
    case n: False
    show ?thesis
    proof (cases "arraySize d \<le> n")
      case True
      have u: "unat (n - arraySize d) = unat n - length d" using True a by (simp add: unat_sub)
      have "len - ucast (arraySize d) = of_nat (length (concat ds))" using Cons.prems(3) ua by simp
      moreover have "length (concat ds) < 2 ^ 31" "unat (n - arraySize d) \<le> length (concat ds)" using Cons.prems(1,2) u by auto
      ultimately obtain ds' where
        "dropLoop (n - arraySize d) ds (len - ucast (arraySize d)) = Inr (ds', of_nat (length (concat ds')))" "concat ds' = drop (unat n - length d) (concat ds)"
        using Cons.IH [of "n - arraySize d"] unfolding u by blast
      then show ?thesis using n True a by (auto simp: word_le_nat_alt)
    next
      case False
      then have lt: "unat n < length d" using a by (simp add: word_le_nat_alt)
      have "unat (arraySize d - n) = length d - unat n" using lt a by (simp add: unat_sub word_le_nat_alt)
      then have "truncateArray d n 0 = Inr (drop (unat n) d)" using lt a n by (simp add: truncateArray_def Let_def word_le_nat_alt)
      moreover have "len - ucast n = of_nat (length (concat (drop (unat n) d # ds)))"
        using Cons.prems(3) lt by (simp add: of_nat_diff)
      ultimately show ?thesis using n False lt by auto
    qed
  qed (use Cons.prems(3) in auto)
qed (simp add: unat_eq_0)

text \<open>The bytes of a send queue, and what its fields say about them.\<close>

definition queued :: "byte_send_queue \<Rightarrow> u8 list" where
  "queued q = concat (dataListM (dataBuffer q))"

definition bsOk :: "byte_send_queue \<Rightarrow> bool" where
  "bsOk q \<longleftrightarrow> length (queued q) = off (bs_begin q) (bs_end q) \<and> length (queued q) < 2 ^ 31 \<and> dataLengthM (dataBuffer q) = of_nat (length (queued q))"

lemma bs_init_ok: "bsOk (bs_init q s) \<and> queued (bs_init q s) = []"
  by (simp add: bsOk_def bs_init_def queued_def emptyBuffer_def)

lemma bs_enqueue:
  assumes "bsOk q" "length (queued q) + length msg < 2 ^ 31"
  shows "\<exists>q'. bs_enqueueAppData q (of_nat (length msg)) msg = Inr q' \<and> bsOk q' \<and> queued q' = queued q @ msg \<and>
    bs_begin q' = bs_begin q \<and> bs_end q' = bs_end q + of_nat (length msg)"
proof -
  have a: "unat (arraySize msg) = length msg" using assms(2) by (intro arraySize_nat) simp
  have ua: "(ucast (arraySize msg) :: u64) = of_nat (length msg)" using a by (metis of_nat_unat)
  have u: "(ucast (of_nat (length msg) :: u64) :: u32) = of_nat (length msg)"
    using assms(2) by (simp add: word_unat_eq_iff unat_of_nat unsigned_ucast_eq take_bit_nat_eq_self)
  have "off (bs_begin q) (bs_end q + of_nat (length msg)) = off (bs_begin q) (bs_end q) + length msg"
    using assms by (intro off_add_nat) (simp add: bsOk_def)
  then show ?thesis using assms ua u
    by (auto simp: bs_enqueueAppData_def buffer_push_def bsOk_def queued_def)
qed

lemma bs_create:
  assumes "bsOk q" "seqLE (bs_begin q) x" "seqLE x (bs_end q)" "unat n \<le> off x (bs_end q)"
  shows "bs_createSegmentWithBytes q x n =
    Inr (withBytes (newSegment\<lparr>sequenceNo := x, payloadLength := n\<rparr>) (take (unat n) (drop (off (bs_begin q) x) (queued q))))"
proof -
  let ?b = "bs_begin q" and ?e = "bs_end q" and ?u = "ucast n :: u32"
  let ?d = "take (unat n) (drop (off ?b x) (queued q))"
  have l: "length (queued q) = off ?b ?e" "off ?b ?e < 2 ^ 31" using assms(1) by (simp_all add: bsOk_def)
  have "inwin ?b x" "inwin ?b ?e" using assms(2) l by (simp_all add: inwin_seqLE seqLE_off)
  then have "off ?b x \<le> off ?b ?e" using assms(3) seqLE_win by blast
  then have t: "off ?b ?e = off ?b x + off x ?e" by (rule off_trans)
  have n: "unat ?u = unat n" using assms(4) l t by (intro unat_ucast_narrow) simp
  have o: "off x (x + ?u) = unat n" by (simp add: off_def n)
  have "off x ?e = off x (x + ?u) + off (x + ?u) ?e" using o assms(4) by (intro off_trans) simp
  then have le: "seqLE (x + ?u) ?e" using l t by (simp add: seqLE_off)
  have "getBytesToBuffer ?u (x - ?b) (dataBuffer q) = Inr ?d"
    using getBytes_concat [of "dataListM (dataBuffer q)" "x - ?b" ?u] l t n assms(4) by (simp add: getBytesToBuffer_def queued_def off_def)
  moreover have ln: "length ?d = unat n" using l t assms(4) by simp
  moreover have "unat (arraySize ?d) = unat n" using arraySize_nat [of ?d] ln l t assms(4) by simp
  then have "(ucast (arraySize ?d) :: u64) = n" by (simp only: word_unat_eq_iff unat_ucast_widen)
  ultimately show ?thesis using assms(2) le by (simp add: bs_createSegmentWithBytes_def del: length_take)
qed

lemma bs_discard:
  assumes "bsOk q" "seqLE (bs_begin q) s" "seqLE s (bs_end q)"
  shows "\<exists>q'. bs_discardUpTo q s = Inr q' \<and> bsOk q' \<and> queued q' = drop (off (bs_begin q) s) (queued q) \<and> bs_begin q' = s \<and> bs_end q' = bs_end q"
proof -
  let ?b = "bs_begin q" and ?e = "bs_end q"
  have l: "length (queued q) = off ?b ?e" "off ?b ?e < 2 ^ 31" and len: "dataLengthM (dataBuffer q) = of_nat (length (queued q))"
    using assms(1) by (simp_all add: bsOk_def)
  have "inwin ?b s" "inwin ?b ?e" using assms(2) l by (simp_all add: inwin_seqLE seqLE_off)
  then have "off ?b s \<le> off ?b ?e" using assms(3) seqLE_win by blast
  then have t: "off ?b ?e = off ?b s + off s ?e" by (rule off_trans)
  obtain ds where ds: "dropLoop (s - ?b) (dataListM (dataBuffer q)) (dataLengthM (dataBuffer q)) = Inr (ds, of_nat (length (concat ds)))"
      "concat ds = drop (unat (s - ?b)) (queued q)"
    using dropLoop_concat [of "dataListM (dataBuffer q)" "s - ?b" "dataLengthM (dataBuffer q)"] l t len by (auto simp: queued_def off_def)
  have "unat (dataLengthM (dataBuffer q)) = off ?b s + off s ?e" unfolding len using l(2) unfolding l(1) t by (subst unat_of_nat) simp
  moreover have "unat (ucast (s - ?b) :: u64) = off ?b s" by (simp add: off_def)
  ultimately have "(ucast (s - ?b) :: u64) \<le> dataLengthM (dataBuffer q)" unfolding word_le_nat_alt by linarith
  then show ?thesis using ds assms l t by (auto simp: bs_discardUpTo_def buffer_drop_def bsOk_def queued_def off_def)
qed

interpretation bsq: tcp_send_queue bsOk bs_begin bs_end "\<lambda>q x n. bindR (bs_createSegmentWithBytes q x n) (\<lambda>s. Inr (tcp_segment.truncate s))" bs_discardUpTo
proof
  fix q x n
  assume q: "bsOk q" "seqLE (bs_begin q) x" "seqLE (x + ucast n) (bs_end q)" "n \<le> bytesAvailable (bs_end q) x"
  show "\<exists>seg. bindR (bs_createSegmentWithBytes q x n) (\<lambda>s. Inr (tcp_segment.truncate s)) = Inr seg \<and> sequenceNo seg = x \<and> payloadLength seg = n \<and>
      \<not> synBit seg \<and> \<not> finBit seg \<and> \<not> rstBit seg"
  proof -
    have x: "seqLE x (bs_end q)" using q(3,4) by (cases "seqLess x (bs_end q)") (auto simp: bytesAvailable_def seqLess_imp_seqLE)
    have "unat n \<le> off x (bs_end q)" using q(4) unat_bytesAvailable [OF x] by (simp add: word_le_nat_alt)
    from bs_create [OF q(1,2) x this] show ?thesis by (simp add: withBytes_def newSegment_def tcp_segment.defs)
  qed
qed (use bs_discard in blast)

end
