(* ===== verification/Tcp_ByteRcvQueue.thy ===== *)
theory Tcp_ByteRcvQueue
  imports Tcp_ByteQueue
begin

text \<open>
  The receive queue of a connection that carries bytes, \<open>src/inet/transportlayer/tcp/queues/TCPByteStreamRcvQueue.cc\<close>. It inherits the queue
  of \<open>TCPVirtualDataRcvQueue.cc\<close> and overrides the operations of its regions; the inherited loops call the overriding ones.
\<close>

section \<open>Regions with data\<close>

record byte_region = rcv_region +
  rr_data :: "u8 list"

abbreviation asRegion :: "byte_region \<Rightarrow> rcv_region" where
  "asRegion \<equiv> rcv_region.truncate"

text \<open>The block that \<open>new char[]\<close> returns has unspecified contents, here zeros; no byte of it is left unwritten (\<open>merge_sized\<close>).\<close>

definition bregion_merge :: "byte_region \<Rightarrow> byte_region \<Rightarrow> byte_region option res" where
  "bregion_merge self other =
     (if seqLess (rr_end self) (rr_begin other) \<or> seqLess (rr_end other) (rr_begin self) then Inr None
      else
        let nbegin = seqMin (rr_begin self) (rr_begin other);
            nend = seqMax (rr_end self) (rr_end other);
            buff = replicate (unat (nend - nbegin)) 0
        in if nbegin \<noteq> rr_begin self \<or> nend \<noteq> rr_end self
           then
             bindR (if nbegin \<noteq> rr_begin self
                    then bindR (copyData (rr_data other) (rr_begin self - nbegin) 0) (\<lambda>xs. Inr (putAt 0 xs buff)) else Inr buff) (\<lambda>b1.
             bindR (copyData (rr_data self) (rr_end self - rr_begin self) 0) (\<lambda>xs.
             let b2 = putAt (unat (rr_begin self - nbegin)) xs b1 in
             bindR (if nend \<noteq> rr_end self
                    then bindR (copyData (rr_data other) (nend - rr_end self) 0) (\<lambda>ys. Inr (putAt (unat (rr_end self - nbegin)) ys b2)) else Inr b2) (\<lambda>b3.
             Inr (Some \<lparr>rr_begin = nbegin, rr_end = nend, rr_data = b3\<rparr>))))
           else Inr (Some self))"

definition bregion_split :: "byte_region \<Rightarrow> u32 \<Rightarrow> (byte_region \<times> byte_region) res" where
  "bregion_split self seq =
     bindR (assertR (seqGreater seq (rr_begin self) \<and> seqLess seq (rr_end self)) ''split'') (\<lambda>_.
     bindR (setDataFromByteArray (rr_data self) 0 (seq - rr_begin self)) (\<lambda>front.
     bindR (truncateArray (rr_data self) (seq - rr_begin self) 0) (\<lambda>rest.
     Inr (\<lparr>rr_begin = rr_begin self, rr_end = seq, rr_data = front\<rparr>, self\<lparr>rr_begin := seq, rr_data := rest\<rparr>))))"

text \<open>The packet has a byte length and the bytes.\<close>

definition bregion_copyTo :: "byte_region \<Rightarrow> (u64 \<times> u8 list) res" where
  "bregion_copyTo r =
     bindR (assertR (region_getLength (asRegion r) = ucast (arraySize (rr_data r))) ''copyTo'') (\<lambda>_.
     Inr (region_getLength (asRegion r), rr_data r))"

definition bcreateRegionFromSegment :: "wire_segment \<Rightarrow> byte_region res" where
  "bcreateRegionFromSegment seg =
     bindR (assertR (payloadLength seg = ucast (arraySize (byteArray seg))) ''createRegionFromSegment'') (\<lambda>_.
     Inr \<lparr>rr_begin = sequenceNo seg, rr_end = sequenceNo seg + ucast (payloadLength seg), rr_data = byteArray seg\<rparr>)"

section \<open>The queue\<close>

record byte_queue =
  bq_nxt :: u32
  bq_regions :: "byte_region list"

definition asQueue :: "byte_queue \<Rightarrow> rcv_queue" where
  "asQueue q = \<lparr>rcvq_nxt = bq_nxt q, regionList = map asRegion (bq_regions q)\<rparr>"

definition bq_init :: "u32 \<Rightarrow> byte_queue" where
  "bq_init startSeq = \<lparr>bq_nxt = startSeq, bq_regions = []\<rparr>"

fun bmergeLoop :: "byte_region list \<Rightarrow> byte_region list \<Rightarrow> byte_region \<Rightarrow> byte_region list res" where
  "bmergeLoop [] passed seg = Inr (seg # passed)"
| "bmergeLoop (i # revis) passed seg =
     (let cmp = region_compare (asRegion i) (asRegion seg) in
      if cmp = BEFORE then Inr (rev (i # revis) @ seg # passed)
      else if cmp \<noteq> AFTER
      then bindR (bregion_merge seg i) (\<lambda>m.
           case m of
              Some seg' \<Rightarrow> bmergeLoop revis passed seg'
            | None \<Rightarrow> Inl (RuntimeError ''merge of region unsuccessful''))
      else bmergeLoop revis (i # passed) seg)"

definition binsertBytesFromSegment :: "byte_queue \<Rightarrow> wire_segment \<Rightarrow> byte_queue res" where
  "binsertBytesFromSegment q seg =
     bindR (bcreateRegionFromSegment seg) (\<lambda>r.
     if \<not> acceptableRange (map asRegion (bq_regions q)) (asRegion r)
     then Inl (RuntimeError ''The new segment is out of the acceptable range at the queue'')
     else bindR (bmergeLoop (rev (bq_regions q)) [] r) (\<lambda>rl.
       Inr (q\<lparr>bq_regions := rl, bq_nxt := (if seqGE (bq_nxt q) (rr_begin (hd rl)) then rr_end (hd rl) else bq_nxt q)\<rparr>)))"

definition bextractTo :: "byte_queue \<Rightarrow> u32 \<Rightarrow> (byte_region option \<times> byte_queue) res" where
  "bextractTo q seq =
     bindR (assertR (seqLE seq (bq_nxt q)) ''extractTo'') (\<lambda>_.
     case bq_regions q of
       [] \<Rightarrow> Inr (None, q)
     | reg # rl \<Rightarrow>
         if seqLE seq (rr_begin reg) then Inr (None, q)
         else if seqGE seq (rr_end reg) then Inr (Some reg, q\<lparr>bq_regions := rl\<rparr>)
         else bindR (bregion_split reg seq) (\<lambda>(front, rest).
                Inr (Some front, q\<lparr>bq_regions := rest # rl\<rparr>)))"

definition bextractBytesUpTo :: "byte_queue \<Rightarrow> u32 \<Rightarrow> ((u64 \<times> u8 list) option \<times> byte_queue) res" where
  "bextractBytesUpTo q seq =
     bindR (bextractTo q seq) (\<lambda>(reg, q').
     case reg of None \<Rightarrow> Inr (None, q') | Some r \<Rightarrow> bindR (bregion_copyTo r) (\<lambda>msg. Inr (Some msg, q')))"

section \<open>Streams\<close>

text \<open>The bytes of a stream from one sequence number to another; a region carries a stream if its data are that part of it.\<close>

definition stretch :: "(u32 \<Rightarrow> u8) \<Rightarrow> u32 \<Rightarrow> u32 \<Rightarrow> u8 list" where
  "stretch f a e = map (\<lambda>i. f (a + of_nat i)) [0..<off a e]"

definition sized :: "byte_region \<Rightarrow> bool" where
  "sized r \<longleftrightarrow> length (rr_data r) = off (rr_begin r) (rr_end r)"

definition carries :: "(u32 \<Rightarrow> u8) \<Rightarrow> byte_region \<Rightarrow> bool" where
  "carries f r \<longleftrightarrow> rr_data r = stretch f (rr_begin r) (rr_end r)"

lemma stretch_length [simp]: "length (stretch f a e) = off a e"
  by (simp add: stretch_def)

lemma carries_sized: "carries f r \<Longrightarrow> sized r"
  by (simp add: carries_def sized_def)

lemma stretch_same [simp]: "stretch f a a = []"
  by (simp add: stretch_def)

lemma stretch_append:
  assumes "off a e = off a m + off m e"
  shows "stretch f a e = stretch f a m @ stretch f m e"
proof -
  have m: "m = a + of_nat (off a m)" by (simp add: off_def)
  have "map (\<lambda>i. f (a + of_nat i)) [off a m..<off a m + off m e] = map (\<lambda>i. f (m + of_nat i)) [0..<off m e]"
    by (rule nth_equalityI) (simp, subst (2) m, simp add: add.assoc)
  then show ?thesis unfolding stretch_def assms upt_add_eq_append [of 0 "off a m" "off m e", simplified] by simp
qed

lemma stretch_take:
  assumes "off a e = off a m + off m e"
  shows "take (off a m) (stretch f a e) = stretch f a m" "drop (off a m) (stretch f a e) = stretch f m e"
  by (simp_all add: stretch_append [OF assms])

section \<open>Merging\<close>

lemma asRegion_simps [simp]: "rr_begin (asRegion r) = rr_begin r" "rr_end (asRegion r) = rr_end r"
  by (simp_all add: rcv_region.defs)

text \<open>The end of \<open>s\<close> is strictly inside \<open>i\<close>.\<close>

definition endInside :: "byte_region \<Rightarrow> byte_region \<Rightarrow> bool" where
  "endInside s i \<longleftrightarrow> seqLess (rr_begin i) (rr_end s) \<and> seqLess (rr_end s) (rr_end i)"

lemma putAt_0: "length xs \<le> n \<Longrightarrow> putAt 0 xs (replicate n 0) = xs @ replicate (n - length xs) 0"
  by (simp add: putAt_def)

lemma putAt_append: "length xs = k \<Longrightarrow> length ys \<le> n \<Longrightarrow> putAt k ys (xs @ replicate n 0) = xs @ ys @ replicate (n - length ys) 0"
  by (simp add: putAt_def)

text \<open>What \<open>merge\<close> computes: the front from the other region, the own data, and then bytes from the front of the other region again.\<close>

definition mergedData :: "nat \<Rightarrow> nat \<Rightarrow> u8 list \<Rightarrow> u8 list \<Rightarrow> u8 list" where
  "mergedData l r own other = take l other @ own @ take r other"

lemma bregion_merge_data:
  assumes ok: "segOk b (asRegion s)" "segOk b (asRegion i)" and z: "sized s" "sized i"
    and touch: "off b (rr_begin s) \<le> off b (rr_end i)" "off b (rr_begin i) \<le> off b (rr_end s)"
  defines "nb \<equiv> (if off b (rr_begin i) < off b (rr_begin s) then rr_begin i else rr_begin s)"
    and "ne \<equiv> (if off b (rr_end s) < off b (rr_end i) then rr_end i else rr_end s)"
  shows "bregion_merge s i = Inr (Some \<lparr>rr_begin = nb, rr_end = ne, rr_data = mergedData (off nb (rr_begin s)) (off (rr_end s) ne) (rr_data s) (rr_data i)\<rparr>)"
    "off nb ne = off nb (rr_begin s) + off (rr_begin s) (rr_end s) + off (rr_end s) ne"
    "off nb (rr_begin s) \<le> length (rr_data i)" "off (rr_end s) ne \<le> length (rr_data i)"
proof -
  let ?l = "off nb (rr_begin s)" and ?r = "off (rr_end s) ne" and ?m = "off (rr_begin s) (rr_end s)"
  note k = ok [unfolded segOk_def asRegion_simps]
  have w: "inwin b (rr_begin s)" "inwin b (rr_end s)" "inwin b (rr_begin i)" "inwin b (rr_end i)" using k by (simp_all add: inwin_def)
  have mn: "seqMin (rr_begin s) (rr_begin i) = nb" "seqMax (rr_end s) (rr_end i) = ne"
    using w by (auto simp: nb_def ne_def seqMin_win [of b] seqMax_win [of b] off_inj)
  have o: "off b nb \<le> off b (rr_begin s)" "off b nb \<le> off b (rr_begin i)" "off b (rr_end s) \<le> off b ne" "off b (rr_end i) \<le> off b ne" by (simp_all add: nb_def ne_def)
  have t: "off b (rr_begin s) = off b nb + ?l" "off b ne = off b (rr_end s) + ?r" "off b (rr_end s) = off b (rr_begin s) + ?m"
      "off b ne = off b nb + off nb ne" "off b (rr_end i) = off b (rr_begin i) + length (rr_data i)"
    using o k z(2) by (auto simp: sized_def intro!: off_trans)
  show len: "off nb ne = ?l + ?m + ?r" using t by linarith
  have nbc: "nb = rr_begin s \<or> nb = rr_begin i" and nec: "ne = rr_end s \<or> ne = rr_end i" by (simp_all add: nb_def ne_def)
  show l: "?l \<le> length (rr_data i)"
    using nbc
  proof
    assume "nb = rr_begin i"
    then have "off b (rr_begin s) = off b (rr_begin i) + ?l" using t(1) by simp
    then show ?thesis using t(5) touch(1) by linarith
  qed simp
  show r: "?r \<le> length (rr_data i)"
    using nec
  proof
    assume "ne = rr_end i"
    then have "off b (rr_end i) = off b (rr_end s) + ?r" using t(2) by simp
    then show ?thesis using t(5) touch(2) by linarith
  qed simp
  have small: "length (rr_data i) < 2 ^ 32" "length (rr_data s) < 2 ^ 32" using z off_lt by (simp_all add: sized_def)
  have c: "copyData (rr_data i) (rr_begin s - nb) 0 = Inr (take ?l (rr_data i))" "copyData (rr_data i) (ne - rr_end s) 0 = Inr (take ?r (rr_data i))"
      "copyData (rr_data s) (rr_end s - rr_begin s) 0 = Inr (rr_data s)"
    using small z(1) off_lt by (simp_all add: copyData_take off_def [symmetric] sized_def)
  have tl: "length (take ?l (rr_data i)) = ?l" "length (take ?r (rr_data i)) = ?r" "length (rr_data s) = ?m" using l r z(1) by (simp_all add: sized_def)
  let ?buff = "replicate (unat (ne - nb)) 0"
  have n: "unat (ne - nb) = ?l + ?m + ?r" using len by (simp add: off_def)
  have b1: "(if nb \<noteq> rr_begin s then putAt 0 (take ?l (rr_data i)) ?buff else ?buff) = take ?l (rr_data i) @ replicate (?m + ?r) 0"
    using tl(1) unfolding n by (simp add: putAt_0)
  have b2: "putAt (unat (rr_begin s - nb)) (rr_data s) (take ?l (rr_data i) @ replicate (?m + ?r) 0) = (take ?l (rr_data i) @ rr_data s) @ replicate ?r 0"
    using putAt_append [of "take ?l (rr_data i)" ?l "rr_data s" "?m + ?r"] tl by (simp add: off_def)
  have "unat (rr_end s - nb) = ?l + ?m"
    using off_trans [of b nb "rr_end s"] o t k by (simp add: off_def)
  then have b3: "(if ne \<noteq> rr_end s then putAt (unat (rr_end s - nb)) (take ?r (rr_data i)) ((take ?l (rr_data i) @ rr_data s) @ replicate ?r 0)
      else (take ?l (rr_data i) @ rr_data s) @ replicate ?r 0) = mergedData ?l ?r (rr_data s) (rr_data i)"
    using putAt_append [of "take ?l (rr_data i) @ rr_data s" "?l + ?m" "take ?r (rr_data i)" ?r] tl by (simp add: mergedData_def)
  have "\<not> (seqLess (rr_end s) (rr_begin i) \<or> seqLess (rr_end i) (rr_begin s))" using touch w by (simp add: seqLess_win [of b])
  then show "bregion_merge s i = Inr (Some \<lparr>rr_begin = nb, rr_end = ne, rr_data = mergedData ?l ?r (rr_data s) (rr_data i)\<rparr>)"
  proof (cases "nb \<noteq> rr_begin s \<or> ne \<noteq> rr_end s")
    case True
    then show ?thesis using \<open>\<not> (seqLess (rr_end s) (rr_begin i) \<or> seqLess (rr_end i) (rr_begin s))\<close> b1 b2 b3 c
      by (cases "nb = rr_begin s"; cases "ne = rr_end s") (simp_all add: bregion_merge_def mn Let_def del: replicate_add)
  next
    case False
    then have "bregion_merge s i = Inr (Some s)" using \<open>\<not> (seqLess (rr_end s) (rr_begin i) \<or> seqLess (rr_end i) (rr_begin s))\<close>
      by (simp add: bregion_merge_def mn)
    then show ?thesis using False by (simp add: mergedData_def)
  qed
qed

lemma merge_sized:
  assumes ok: "segOk b (asRegion s)" "segOk b (asRegion i)" and z: "sized s" "sized i"
    and touch: "off b (rr_begin s) \<le> off b (rr_end i)" "off b (rr_begin i) \<le> off b (rr_end s)"
  shows "\<exists>s'. bregion_merge s i = Inr (Some s') \<and> region_merge (asRegion s) (asRegion i) = Some (asRegion s') \<and> sized s' \<and> segOk b (asRegion s') \<and>
     off b (rr_end s') = max (off b (rr_end s)) (off b (rr_end i)) \<and>
     (carries f s \<and> carries f i \<and> \<not> endInside s i \<longrightarrow> carries f s')"
proof -
  define nb where "nb = (if off b (rr_begin i) < off b (rr_begin s) then rr_begin i else rr_begin s)"
  define ne where "ne = (if off b (rr_end s) < off b (rr_end i) then rr_end i else rr_end s)"
  let ?s = "\<lparr>rr_begin = nb, rr_end = ne, rr_data = mergedData (off nb (rr_begin s)) (off (rr_end s) ne) (rr_data s) (rr_data i)\<rparr>"
  note m = bregion_merge_data [OF assms, folded nb_def ne_def]
  note k = ok [unfolded segOk_def asRegion_simps]
  have w: "inwin b (rr_begin s)" "inwin b (rr_end s)" "inwin b (rr_begin i)" "inwin b (rr_end i)" using k by (simp_all add: inwin_def)
  have "sized ?s" using m(2-4) z(1) by (simp add: sized_def mergedData_def)
  moreover have "region_merge (asRegion s) (asRegion i) = Some (asRegion ?s)"
    using w touch by (simp add: region_merge_def seqLess_win [of b] nb_def ne_def rcv_region.defs)
  moreover have "segOk b (asRegion ?s)" using k by (auto simp: segOk_def nb_def ne_def)
  moreover have "off b (rr_end ?s) = max (off b (rr_end s)) (off b (rr_end i))" by (auto simp: ne_def)
  moreover have "carries f ?s" if c: "carries f s" "carries f i" "\<not> endInside s i"
  proof -
    have l: "take (off nb (rr_begin s)) (rr_data i) = stretch f nb (rr_begin s)"
    proof (cases "nb = rr_begin s")
      case False
      then have nb: "nb = rr_begin i" "off b (rr_begin i) < off b (rr_begin s)" by (auto simp: nb_def split: if_splits)
      have "off (rr_begin i) (rr_end i) = off (rr_begin i) (rr_begin s) + off (rr_begin s) (rr_end i)"
        using off_trans [of b "rr_begin i" "rr_begin s"] off_trans [of b "rr_begin s" "rr_end i"] off_trans [of b "rr_begin i" "rr_end i"] nb k touch by simp
      then show ?thesis using c(2) unfolding nb carries_def by (simp add: stretch_take)
    qed simp
    have r: "take (off (rr_end s) ne) (rr_data i) = stretch f (rr_end s) ne"
    proof (cases "ne = rr_end s")
      case False
      then have ne: "ne = rr_end i" "off b (rr_end s) < off b (rr_end i)" by (auto simp: ne_def split: if_splits)
      then have "rr_begin i = rr_end s" using c(3) touch(2) w by (auto simp: endInside_def seqLess_win [of b] eq_win [of _ _ b])
      then show ?thesis using c(2) unfolding ne(1) carries_def by simp
    qed simp
    have e: "off (rr_begin s) ne = off (rr_begin s) (rr_end s) + off (rr_end s) ne" using m(2) off_lt [of nb ne] by (intro off_split) simp
    then have "stretch f nb ne = stretch f nb (rr_begin s) @ stretch f (rr_begin s) (rr_end s) @ stretch f (rr_end s) ne"
      using m(2) by (subst stretch_append [of _ _ "rr_begin s"]) (simp_all add: stretch_append [OF e])
    then show ?thesis using l r c(1) by (simp add: carries_def mergedData_def)
  qed
  ultimately show ?thesis using m(1) by blast
qed

lemma rlOk_before:
  "rlOk b lo (xs @ i # ys) \<Longrightarrow> j \<in> set xs \<Longrightarrow> off b (rr_end j) < off b (rr_begin i)"
proof (induction xs arbitrary: lo)
  case (Cons x xs)
  have r: "rlOk b (off b (rr_end x) + 1) (xs @ i # ys)" using Cons.prems(1) by simp
  have "off b (rr_end x) < off b (rr_begin i)"
    using r by (induction xs arbitrary: x) fastforce+
  then show ?case using Cons.IH [OF r] Cons.prems(2) by auto
qed simp

lemma bmergeLoop_sim:
  assumes "rlOk b 0 (map asRegion (rev revis @ passed))" "segOk b (asRegion s)" "list_all sized revis" "sized s"
  shows "\<exists>rl. bmergeLoop revis passed s = Inr rl \<and> mergeLoop (map asRegion revis) (map asRegion passed) (asRegion s) = Inr (map asRegion rl) \<and>
     (list_all sized passed \<longrightarrow> list_all sized rl) \<and>
     (list_all (carries f) (revis @ passed) \<and> carries f s \<and> list_all (\<lambda>i. \<not> endInside s i) revis \<longrightarrow> list_all (carries f) rl)"
  using assms
proof (induction revis arbitrary: passed s)
  case (Cons i revis)
  have rl: "rlOk b 0 (map asRegion (rev revis) @ asRegion i # map asRegion passed)" using Cons.prems(1) by simp
  have si: "segOk b (asRegion i)" using rlOk_member [OF rl] by simp
  have z: "sized i" "list_all sized revis" using Cons.prems(3) by simp_all
  note cmp = region_compare_win [OF si Cons.prems(2), unfolded asRegion_simps]
  show ?case
  proof (cases "region_compare (asRegion i) (asRegion s) = BEFORE")
    case True
    then show ?thesis using Cons.prems(3,4) by (auto simp: rev_map)
  next
    case nb: False
    show ?thesis
    proof (cases "region_compare (asRegion i) (asRegion s) = AFTER")
      case True
      from Cons.IH [of "i # passed" s] rl Cons.prems(2,4) z obtain rl' where
        "bmergeLoop revis (i # passed) s = Inr rl'" "mergeLoop (map asRegion revis) (map asRegion (i # passed)) (asRegion s) = Inr (map asRegion rl')"
        "list_all sized (i # passed) \<longrightarrow> list_all sized rl'"
        "list_all (carries f) (revis @ i # passed) \<and> carries f s \<and> list_all (\<lambda>i. \<not> endInside s i) revis \<longrightarrow> list_all (carries f) rl'" by auto
      then show ?thesis using True z by auto
    next
      case False
      have touch: "off b (rr_begin s) \<le> off b (rr_end i)" "off b (rr_begin i) \<le> off b (rr_end s)" using cmp nb False by simp_all
      obtain s' where s': "bregion_merge s i = Inr (Some s')" "region_merge (asRegion s) (asRegion i) = Some (asRegion s')" "sized s'" "segOk b (asRegion s')"
          "off b (rr_end s') = max (off b (rr_end s)) (off b (rr_end i))" "carries f s \<and> carries f i \<and> \<not> endInside s i \<longrightarrow> carries f s'"
        using merge_sized [OF Cons.prems(2) si Cons.prems(4) z(1) touch] by blast
      have clean: "list_all (\<lambda>j. \<not> endInside s' j) revis"
        unfolding list_all_iff
      proof
        fix j assume j: "j \<in> set revis"
        then have "off b (rr_end j) < off b (rr_begin i)" using rlOk_before [OF rl, of "asRegion j"] by simp
        then have lt: "off b (rr_end j) < off b (rr_end s')" using touch(2) s'(5) by simp
        moreover have "inwin b (rr_end j)" "inwin b (rr_end s')"
          using rlOk_member [OF rl, of "asRegion j"] j s'(4) by (auto simp: segOk_def inwin_def)
        ultimately show "\<not> endInside s' j" by (simp add: endInside_def seqLess_win [of b])
      qed
      have "rlOk b 0 (map asRegion (rev revis @ passed))" using rlOk_drop [OF rl] by simp
      from Cons.IH [OF this s'(4) z(2) s'(3)] obtain rl' where
        "bmergeLoop revis passed s' = Inr rl'" "mergeLoop (map asRegion revis) (map asRegion passed) (asRegion s') = Inr (map asRegion rl')"
        "list_all sized passed \<longrightarrow> list_all sized rl'"
        "list_all (carries f) (revis @ passed) \<and> carries f s' \<and> list_all (\<lambda>i. \<not> endInside s' i) revis \<longrightarrow> list_all (carries f) rl'" by blast
      then show ?thesis using nb False s' clean by auto
    qed
  qed
qed simp

section \<open>Insertion and extraction\<close>

definition bqOk :: "u32 \<Rightarrow> byte_queue \<Rightarrow> bool" where
  "bqOk b q \<longleftrightarrow> rcvq_ok b (asQueue q) \<and> list_all sized (bq_regions q)"

text \<open>A segment whose array has the length it announces.\<close>

definition bytesOk :: "wire_segment \<Rightarrow> bool" where
  "bytesOk seg \<longleftrightarrow> unat (payloadLength seg) = length (byteArray seg)"

definition segRegion :: "wire_segment \<Rightarrow> byte_region" where
  "segRegion seg = \<lparr>rr_begin = sequenceNo seg, rr_end = sequenceNo seg + ucast (payloadLength seg), rr_data = byteArray seg\<rparr>"

lemma segRegion_ok:
  assumes "segInWin b (tcp_segment.truncate seg)" "bytesOk seg"
  shows "bcreateRegionFromSegment seg = Inr (segRegion seg)" "sized (segRegion seg)" "segOk b (asRegion (segRegion seg))"
    "asRegion (segRegion seg) = createRegionFromSegment (tcp_segment.truncate seg)"
proof -
  have n: "unat (payloadLength seg) < 2 ^ 31" using assms(1) by (simp add: segInWin_def tcp_segment.defs)
  then have "unat (arraySize (byteArray seg)) = length (byteArray seg)" using assms(2) by (intro arraySize_nat) (simp add: bytesOk_def)
  then have "payloadLength seg = ucast (arraySize (byteArray seg))" using assms(2) by (simp add: word_unat_eq_iff bytesOk_def)
  then show "bcreateRegionFromSegment seg = Inr (segRegion seg)" by (simp add: bcreateRegionFromSegment_def segRegion_def)
  show r: "asRegion (segRegion seg) = createRegionFromSegment (tcp_segment.truncate seg)"
    by (simp add: segRegion_def createRegionFromSegment_def rcv_region.defs tcp_segment.defs)
  then show "segOk b (asRegion (segRegion seg))" using createRegion_ok(1) [OF assms(1)] by simp
  have "unat (ucast (payloadLength seg) :: u32) = unat (payloadLength seg)" using n by (intro unat_ucast_narrow) simp
  then show "sized (segRegion seg)" using assms(2) by (simp add: sized_def segRegion_def off_def bytesOk_def)
qed

lemma binsert_sim:
  assumes q: "bqOk b q" and seg: "segInWin b (tcp_segment.truncate seg)" "bytesOk seg" "off b (bq_nxt q) \<le> off b (sequenceNo seg)"
  shows "\<exists>q'. binsertBytesFromSegment q seg = Inr q' \<and> insertBytesFromSegment (asQueue q) (tcp_segment.truncate seg) = Inr (asQueue q') \<and> bqOk b q' \<and>
     (list_all (carries f) (bq_regions q) \<and> carries f (segRegion seg) \<and> list_all (\<lambda>i. \<not> endInside (segRegion seg) i) (bq_regions q) \<longrightarrow>
       list_all (carries f) (bq_regions q'))"
proof -
  let ?r = "segRegion seg" and ?rl = "bq_regions q"
  note r = segRegion_ok [OF seg(1,2)]
  have ok: "rlOk b 0 (map asRegion ?rl)" using q by (simp add: bqOk_def rcvq_ok_def asQueue_def)
  obtain rl where rl: "bmergeLoop (rev ?rl) [] ?r = Inr rl" "mergeLoop (map asRegion (rev ?rl)) (map asRegion []) (asRegion ?r) = Inr (map asRegion rl)"
      "list_all sized rl" "list_all (carries f) ?rl \<and> carries f ?r \<and> list_all (\<lambda>i. \<not> endInside ?r i) ?rl \<longrightarrow> list_all (carries f) rl"
    using bmergeLoop_sim [of b "rev ?rl" "[]" ?r f] ok r(2,3) q by (auto simp: bqOk_def)
  have ne: "rl \<noteq> []" using mergeLoop_spec [of b "rev (map asRegion ?rl)" "[]" "asRegion ?r"] ok r(3) rl(2) by (auto simp: rev_map)
  obtain v where v: "insertBytesFromSegment (asQueue q) (tcp_segment.truncate seg) = Inr v" "rcvq_ok b v"
    using insert_spec [of b "asQueue q" "tcp_segment.truncate seg"] q seg by (auto simp: bqOk_def asQueue_def tcp_segment.defs)
  have acc: "acceptableRange (map asRegion ?rl) (asRegion ?r)" by (rule acceptableRange_ok [OF ok r(3)])
  define q' where "q' = q\<lparr>bq_regions := rl, bq_nxt := (if seqGE (bq_nxt q) (rr_begin (hd rl)) then rr_end (hd rl) else bq_nxt q)\<rparr>"
  have i: "binsertBytesFromSegment q seg = Inr q'" using r(1) acc rl(1) by (simp add: binsertBytesFromSegment_def q'_def)
  have "insertBytesFromSegment (asQueue q) (tcp_segment.truncate seg) = Inr (asQueue q')"
    using acc rl(2) ne unfolding r(4)
    by (simp add: insertBytesFromSegment_def asQueue_def rcvq_merge_def q'_def hd_map rev_map)
  moreover from this have "bqOk b q'" using v rl(3) by (simp add: bqOk_def q'_def)
  ultimately show ?thesis using i rl(4) by (simp add: q'_def)
qed

lemma bregion_split_sim:
  assumes "sized r" "off (rr_begin r) (rr_end r) = off (rr_begin r) m + off m (rr_end r)" "seqGreater m (rr_begin r)" "seqLess m (rr_end r)"
  shows "\<exists>d e. bregion_split r m = Inr (\<lparr>rr_begin = rr_begin r, rr_end = m, rr_data = d\<rparr>, r\<lparr>rr_begin := m, rr_data := e\<rparr>) \<and>
     length d = off (rr_begin r) m \<and> length e = off m (rr_end r) \<and>
     (carries f r \<longrightarrow> d = stretch f (rr_begin r) m \<and> e = stretch f m (rr_end r))"
proof -
  let ?n = "off (rr_begin r) m" and ?d = "rr_data r"
  have l: "length ?d = ?n + off m (rr_end r)" "length ?d < 2 ^ 32" using assms(1,2) off_lt [of "rr_begin r" "rr_end r"] by (simp_all add: sized_def)
  have a: "unat (arraySize ?d) = length ?d" by (rule arraySize_nat [OF l(2)])
  have n: "unat (m - rr_begin r) = ?n" by (simp add: off_def)
  have "0 < ?n" using assms(3) by (simp add: seqGreater_seqLess seqLess_off)
  then have nz: "m - rr_begin r \<noteq> 0" by (auto simp: off_def)
  have s: "setDataFromByteArray ?d 0 (m - rr_begin r) = Inr (take ?n ?d)" using a l n by (simp add: setDataFromByteArray_def word_le_nat_alt)
  have "unat (arraySize ?d - (m - rr_begin r)) = length ?d - ?n" using a l n by (simp add: unat_sub word_le_nat_alt)
  then have t: "truncateArray ?d (m - rr_begin r) 0 = Inr (drop ?n ?d)" using a l n nz by (simp add: truncateArray_def Let_def word_le_nat_alt)
  have "carries f r \<longrightarrow> take ?n ?d = stretch f (rr_begin r) m \<and> drop ?n ?d = stretch f m (rr_end r)" using stretch_take [OF assms(2)] by (simp add: carries_def)
  then show ?thesis using assms(3,4) s t l
    by (intro exI [of _ "take ?n ?d"] exI [of _ "drop ?n ?d"]) (simp add: bregion_split_def)
qed

lemma copyTo_ok:
  assumes "length (rr_data r) = off (rr_begin r) (rr_end r)"
  shows "bregion_copyTo r = Inr (of_nat (length (rr_data r)), rr_data r)"
proof -
  have "unat (arraySize (rr_data r)) = length (rr_data r)" using off_lt [of "rr_begin r" "rr_end r"] assms by (intro arraySize_nat) simp
  then have "region_getLength (asRegion r) = ucast (arraySize (rr_data r))" using assms by (simp add: word_unat_eq_iff region_getLength_def off_def)
  moreover have "(ucast (rr_end r - rr_begin r) :: u64) = of_nat (off (rr_begin r) (rr_end r))" by (simp add: off_def)
  ultimately show ?thesis using assms by (simp add: bregion_copyTo_def region_getLength_def)
qed

lemma bextract_sim:
  assumes q: "bqOk b q" and s: "inwin b s" "off b s \<le> off b (bq_nxt q)"
  shows "\<exists>m q'. bextractBytesUpTo q s = Inr (m, q') \<and> extractBytesUpTo (asQueue q) s = Inr (map_option fst m, asQueue q') \<and> bq_nxt q' = bq_nxt q \<and>
     list_all sized (bq_regions q') \<and> (list_all (carries f) (bq_regions q) \<longrightarrow> list_all (carries f) (bq_regions q')) \<and>
     (case m of None \<Rightarrow> True | Some (n, d) \<Rightarrow> n = of_nat (length d) \<and> (\<exists>a. length d = off a s \<and> (list_all (carries f) (bq_regions q) \<longrightarrow> d = stretch f a s)))"
proof (cases "bq_regions q")
  case Nil
  have "inwin b (bq_nxt q)" using q by (simp add: bqOk_def rcvq_ok_def asQueue_def)
  then have "seqLE s (bq_nxt q)" using s by (simp add: seqLE_win [of b])
  then show ?thesis using Nil by (simp add: bextractBytesUpTo_def bextractTo_def extractBytesUpTo_def extractTo_def asQueue_def)
next
  case (Cons r rs)
  let ?n = "bq_nxt q"
  have rl: "rlOk b 0 (asRegion r # map asRegion rs)" and w: "inwin b ?n" and nx: "off b (rr_begin r) \<le> off b ?n \<Longrightarrow> rr_end r = ?n"
    and z: "sized r" "list_all sized rs" using q Cons by (auto simp: bqOk_def rcvq_ok_def asQueue_def)
  have wr: "inwin b (rr_begin r)" "inwin b (rr_end r)" using rl by (auto simp: inwin_def)
  have le: "seqLE s ?n" using s w by (simp add: seqLE_win [of b])
  show ?thesis
  proof (cases "off b s \<le> off b (rr_begin r)")
    case True
    then have "seqLE s (rr_begin r)" using s wr by (simp add: seqLE_win [of b])
    then show ?thesis using le Cons z by (simp add: bextractBytesUpTo_def bextractTo_def extractBytesUpTo_def extractTo_def asQueue_def)
  next
    case False
    then have nle: "\<not> seqLE s (rr_begin r)" and en: "rr_end r = ?n" using s wr nx by (simp_all add: seqLE_win [of b])
    show ?thesis
    proof (cases "seqGE s ?n")
      case True
      then have sn: "s = ?n" using s w by (simp add: seqGE_win [of b] eq_win [of _ _ b])
      have "length (rr_data r) = off (rr_begin r) s" using z(1) en sn by (simp add: sized_def)
      then show ?thesis using le nle True Cons z en sn copyTo_ok [of r] z(1)
        by (auto simp: bextractBytesUpTo_def bextractTo_def extractBytesUpTo_def extractTo_def asQueue_def region_getLength_def off_def sized_def carries_def)
    next
      case ge: False
      then have lt: "off b s < off b (rr_end r)" using s w en by (simp add: seqGE_win [of b])
      have g: "seqGreater s (rr_begin r)" "seqLess s (rr_end r)" using False lt s wr by (simp_all add: seqGreater_win [of b] seqLess_win [of b])
      have o: "off (rr_begin r) (rr_end r) = off (rr_begin r) s + off s (rr_end r)"
        using off_trans [of b "rr_begin r" s] off_trans [of b s "rr_end r"] off_trans [of b "rr_begin r" "rr_end r"] lt False by simp
      obtain d e where d: "bregion_split r s = Inr (\<lparr>rr_begin = rr_begin r, rr_end = s, rr_data = d\<rparr>, r\<lparr>rr_begin := s, rr_data := e\<rparr>)"
          "length d = off (rr_begin r) s" "length e = off s (rr_end r)" "carries f r \<longrightarrow> d = stretch f (rr_begin r) s \<and> e = stretch f s (rr_end r)"
        using bregion_split_sim [OF z(1) o g] by blast
      have "bextractBytesUpTo q s = Inr (Some (of_nat (length d), d), q\<lparr>bq_regions := r\<lparr>rr_begin := s, rr_data := e\<rparr> # rs\<rparr>)"
        using le nle ge Cons en d(1,2) copyTo_ok [of "\<lparr>rr_begin = rr_begin r, rr_end = s, rr_data = d\<rparr>"]
        by (simp add: bextractBytesUpTo_def bextractTo_def)
      moreover have "extractBytesUpTo (asQueue q) s = Inr (Some (of_nat (length d)), asQueue (q\<lparr>bq_regions := r\<lparr>rr_begin := s, rr_data := e\<rparr> # rs\<rparr>))"
        using le nle ge Cons en g d(2)
        by (simp add: extractBytesUpTo_def extractTo_def asQueue_def region_split_def region_getLength_def off_def rcv_region.defs)
      ultimately show ?thesis using d z by (auto simp: sized_def carries_def Cons)
    qed
  qed
qed

section \<open>Delivery\<close>

text \<open>As the connection uses the queue: a segment is inserted and the bytes that are in order are extracted.\<close>

definition byteDeliver :: "byte_queue \<Rightarrow> wire_segment \<Rightarrow> (u8 list \<times> byte_queue) res" where
  "byteDeliver q seg = bindR (binsertBytesFromSegment q seg) (\<lambda>q1. bindR (bextractBytesUpTo q1 (bq_nxt q1)) (\<lambda>(m, q2).
     Inr (case m of None \<Rightarrow> [] | Some (n, d) \<Rightarrow> d, q2)))"

fun byteDeliverAll :: "byte_queue \<Rightarrow> wire_segment list \<Rightarrow> (u8 list \<times> byte_queue) res" where
  "byteDeliverAll q [] = Inr ([], q)"
| "byteDeliverAll q (seg # segs) = bindR (byteDeliver q seg) (\<lambda>(d, q1).
     bindR (byteDeliverAll q1 segs) (\<lambda>(e, q2). Inr (d @ e, q2)))"

text \<open>No segment ends strictly inside a region that is buffered when it arrives.\<close>

fun cleanRun :: "byte_queue \<Rightarrow> wire_segment list \<Rightarrow> bool" where
  "cleanRun q [] = True"
| "cleanRun q (seg # segs) = (list_all (\<lambda>i. \<not> endInside (segRegion seg) i) (bq_regions q) \<and>
     (case byteDeliver q seg of Inl e \<Rightarrow> True | Inr (d, q') \<Rightarrow> cleanRun q' segs))"

lemma byteDeliver_sim:
  assumes q: "bqOk (bq_nxt q) q" and seg: "segInWin (bq_nxt q) (tcp_segment.truncate seg)" "bytesOk seg"
  shows "\<exists>d q'. byteDeliver q seg = Inr (d, q') \<and> rcvDeliver (asQueue q) (tcp_segment.truncate seg) = Inr (length d, asQueue q') \<and> bqOk (bq_nxt q') q' \<and>
     (list_all (carries f) (bq_regions q) \<and> carries f (segRegion seg) \<and> list_all (\<lambda>i. \<not> endInside (segRegion seg) i) (bq_regions q) \<longrightarrow>
       d = stretch f (bq_nxt q) (bq_nxt q') \<and> list_all (carries f) (bq_regions q'))"
proof -
  let ?b = "bq_nxt q" and ?seg = "tcp_segment.truncate seg"
  let ?P = "list_all (carries f) (bq_regions q) \<and> carries f (segRegion seg) \<and> list_all (\<lambda>i. \<not> endInside (segRegion seg) i) (bq_regions q)"
  obtain q1 where q1: "binsertBytesFromSegment q seg = Inr q1" "insertBytesFromSegment (asQueue q) ?seg = Inr (asQueue q1)" "bqOk ?b q1"
      "?P \<longrightarrow> list_all (carries f) (bq_regions q1)"
    using binsert_sim [OF q seg] by auto
  have w: "inwin ?b (bq_nxt q1)" using q1(3) by (simp add: bqOk_def rcvq_ok_def asQueue_def)
  obtain m q2 where q2: "bextractBytesUpTo q1 (bq_nxt q1) = Inr (m, q2)" "extractBytesUpTo (asQueue q1) (bq_nxt q1) = Inr (map_option fst m, asQueue q2)"
      "bq_nxt q2 = bq_nxt q1" "list_all sized (bq_regions q2)" "list_all (carries f) (bq_regions q1) \<longrightarrow> list_all (carries f) (bq_regions q2)"
      "case m of None \<Rightarrow> True | Some (n, d) \<Rightarrow> n = of_nat (length d) \<and> (\<exists>a. length d = off a (bq_nxt q1) \<and> (list_all (carries f) (bq_regions q1) \<longrightarrow> d = stretch f a (bq_nxt q1)))"
    using bextract_sim [OF q1(3) w order_refl] by blast
  define d where "d = (case m of None \<Rightarrow> [] | Some (n, d) \<Rightarrow> d)"
  have bd: "byteDeliver q seg = Inr (d, q2)" using q1(1) q2(1) by (simp add: byteDeliver_def d_def)
  have ln: "(case map_option fst m of None \<Rightarrow> 0 | Some k \<Rightarrow> unat k) = length d"
  proof (cases m)
    case (Some p)
    then obtain a where "fst p = of_nat (length (snd p))" "length (snd p) = off a (bq_nxt q1)" using q2(6) by (auto split: prod.splits)
    then show ?thesis using Some off_lt [of a "bq_nxt q1"] by (simp add: d_def unat_of_nat split_beta)
  qed (simp add: d_def)
  then have rd: "rcvDeliver (asQueue q) ?seg = Inr (length d, asQueue q2)"
    using q1(2) q2(2) by (simp add: rcvDeliver_def asQueue_def)
  obtain n v where v: "rcvDeliver (asQueue q) ?seg = Inr (n, v)" "rcvq_ok (rcvq_nxt v) v" "n = off ?b (rcvq_nxt v)"
    using rcvq.deliver_spec [of "asQueue q" ?seg] q seg by (auto simp: rcvDeliver_eq bqOk_def asQueue_def)
  have e: "n = length d" "v = asQueue q2" using v(1) rd by simp_all
  have len: "length d = off ?b (bq_nxt q2)" using v(3) e by (simp add: asQueue_def)
  have "bqOk (bq_nxt q2) q2" using v(2) e q2(4) by (simp add: bqOk_def asQueue_def)
  moreover have "d = stretch f ?b (bq_nxt q2)" if "?P"
  proof (cases m)
    case None
    then show ?thesis using len by (simp add: d_def)
  next
    case (Some p)
    have "list_all (carries f) (bq_regions q1)" using q1(4) that by blast
    then obtain a where a: "length d = off a (bq_nxt q1)" "d = stretch f a (bq_nxt q1)" using q2(6) Some by (auto simp: d_def split: prod.splits)
    then have "off a (bq_nxt q1) = off ?b (bq_nxt q1)" using len q2(3) by simp
    then have "bq_nxt q1 - a = bq_nxt q1 - ?b" by (simp only: off_def word_unat_eq_iff)
    then have "a = ?b" by simp
    then show ?thesis using a(2) q2(3) by simp
  qed
  ultimately show ?thesis using bd rd q1(4) q2(5) by blast
qed

lemma byteDeliverAll_sim:
  assumes "bqOk (bq_nxt q) q" "rcvq.inHalf b (asQueue q)" "\<forall>seg\<in>set segs. segInWin b (tcp_segment.truncate seg) \<and> bytesOk seg"
    "rcvLegal (asQueue q) (map tcp_segment.truncate segs)"
  shows "\<exists>d q'. byteDeliverAll q segs = Inr (d, q') \<and> rcvDeliverAll (asQueue q) (map tcp_segment.truncate segs) = Inr (length d, asQueue q') \<and>
     bqOk (bq_nxt q') q' \<and> off b (bq_nxt q') = off b (bq_nxt q) + length d \<and>
     (list_all (carries f) (bq_regions q) \<and> list_all (\<lambda>seg. carries f (segRegion seg)) segs \<and> cleanRun q segs \<longrightarrow> d = stretch f (bq_nxt q) (bq_nxt q'))"
  using assms
proof (induction segs arbitrary: q)
  case (Cons seg segs)
  let ?seg = "tcp_segment.truncate seg" and ?P = "\<lambda>q segs. list_all (carries f) (bq_regions q) \<and> list_all (\<lambda>seg. carries f (segRegion seg)) segs \<and> cleanRun q segs"
  have seg: "segInWin (bq_nxt q) ?seg" "segInWin b ?seg" "bytesOk seg" using Cons.prems(3,4) by (auto simp: asQueue_def)
  obtain d q1 where q1: "byteDeliver q seg = Inr (d, q1)" "rcvDeliver (asQueue q) ?seg = Inr (length d, asQueue q1)" "bqOk (bq_nxt q1) q1"
      "list_all (carries f) (bq_regions q) \<and> carries f (segRegion seg) \<and> list_all (\<lambda>i. \<not> endInside (segRegion seg) i) (bq_regions q) \<longrightarrow>
       d = stretch f (bq_nxt q) (bq_nxt q1) \<and> list_all (carries f) (bq_regions q1)"
    using byteDeliver_sim [OF Cons.prems(1) seg(1,3)] by blast
  have rd: "rcvq.deliver (asQueue q) ?seg = Inr (length d, asQueue q1)" using q1(2) by (simp add: rcvDeliver_eq)
  have ok: "rcvq_ok (rcvq_nxt (asQueue q)) (asQueue q)" using Cons.prems(1) by (simp add: bqOk_def asQueue_def)
  have sn: "segInWin (rcvq_nxt (asQueue q)) ?seg" using seg(1) by (simp add: asQueue_def)
  note h = rcvq.deliver_inHalf [OF ok sn seg(2) Cons.prems(2) rd]
  have o1: "off b (bq_nxt q1) = off b (bq_nxt q) + length d" using h(3) by (simp add: asQueue_def)
  have "rcvLegal (asQueue q1) (map tcp_segment.truncate segs)" using Cons.prems(4) q1(2) by simp
  from Cons.IH [OF q1(3) h(2) _ this] Cons.prems(3) obtain e q2 where
    q2: "byteDeliverAll q1 segs = Inr (e, q2)" "rcvDeliverAll (asQueue q1) (map tcp_segment.truncate segs) = Inr (length e, asQueue q2)" "bqOk (bq_nxt q2) q2"
      "off b (bq_nxt q2) = off b (bq_nxt q1) + length e" "?P q1 segs \<longrightarrow> e = stretch f (bq_nxt q1) (bq_nxt q2)" by auto
  have "d @ e = stretch f (bq_nxt q) (bq_nxt q2)" if p: "?P q (seg # segs)"
  proof -
    have d: "d = stretch f (bq_nxt q) (bq_nxt q1)" "list_all (carries f) (bq_regions q1)" using q1(4) p by simp_all
    have e: "e = stretch f (bq_nxt q1) (bq_nxt q2)" using q2(5) p d(2) q1(1) by simp
    have "off (bq_nxt q) (bq_nxt q2) = off (bq_nxt q) (bq_nxt q1) + off (bq_nxt q1) (bq_nxt q2)"
      using off_trans [of b "bq_nxt q" "bq_nxt q1"] off_trans [of b "bq_nxt q1" "bq_nxt q2"] off_trans [of b "bq_nxt q" "bq_nxt q2"] o1 q2(4) by simp
    then show ?thesis using d(1) e by (simp add: stretch_append)
  qed
  then show ?case using q1 q2 o1 by simp
qed simp

section \<open>From one application to the other\<close>

lemma created_segment:
  assumes "bsOk s" "seqLE (bs_begin s) x" "seqLE x (bs_end s)" "0 < n" "unat n \<le> off x (bs_end s)" "bs_createSegmentWithBytes s x n = Inr seg"
  shows "segInWin (bs_begin s) (tcp_segment.truncate seg)" "bytesOk seg" "carries (\<lambda>y. queued s ! off (bs_begin s) y) (segRegion seg)"
proof -
  let ?b = "bs_begin s" and ?e = "bs_end s"
  let ?d = "take (unat n) (drop (off ?b x) (queued s))"
  have seg: "seg = withBytes (newSegment\<lparr>sequenceNo := x, payloadLength := n\<rparr>) ?d" using bs_create [OF assms(1-3,5)] assms(6) by simp
  then have f: "sequenceNo seg = x" "payloadLength seg = n" "byteArray seg = ?d" by (simp_all add: withBytes_def tcp_segment.defs wire_segment.defs)
  have l: "length (queued s) = off ?b ?e" "off ?b ?e < 2 ^ 31" using assms(1) by (simp_all add: bsOk_def)
  have "inwin ?b x" "inwin ?b ?e" using assms(2) l by (simp_all add: inwin_seqLE seqLE_off)
  then have "off ?b x \<le> off ?b ?e" using assms(3) seqLE_win by blast
  then have t: "off ?b ?e = off ?b x + off x ?e" by (rule off_trans)
  have ln: "length ?d = unat n" using l t assms(5) by simp
  show "bytesOk seg" using ln by (simp add: bytesOk_def f)
  show "segInWin ?b (tcp_segment.truncate seg)" using f assms(4,5) l t by (simp add: segInWin_def tcp_segment.defs)
  have u: "unat (ucast n :: u32) = unat n" using assms(5) l t by (intro unat_ucast_narrow) simp
  have o: "off x (x + ucast n) = unat n" by (simp add: off_def u)
  have "?d = stretch (\<lambda>y. queued s ! off ?b y) x (x + ucast n)"
  proof (rule nth_equalityI)
    show "length ?d = length (stretch (\<lambda>y. queued s ! off ?b y) x (x + ucast n))" using ln o by simp
    fix i assume "i < length ?d"
    then have i: "i < unat n" using ln by simp
    then have "off ?b (x + of_nat i) = off ?b x + i" using l t assms(5) by (intro off_add_nat) simp
    then show "?d ! i = stretch (\<lambda>y. queued s ! off ?b y) x (x + ucast n) ! i" using i o l t assms(5) by (simp add: stretch_def)
  qed
  then show "carries (\<lambda>y. queued s ! off ?b y) (segRegion seg)" by (simp add: carries_def segRegion_def f)
qed

lemma stretch_queued:
  assumes "bsOk s" "n \<le> length (queued s)" "off (bs_begin s) c = n"
  shows "stretch (\<lambda>y. queued s ! off (bs_begin s) y) (bs_begin s) c = take n (queued s)"
proof (rule nth_equalityI)
  fix i assume "i < length (stretch (\<lambda>y. queued s ! off (bs_begin s) y) (bs_begin s) c)"
  then have i: "i < n" using assms(3) by simp
  have "off (bs_begin s) (bs_begin s + of_nat i) = i" using i assms(1,2) off_add_nat [of "bs_begin s" "bs_begin s" i] by (simp add: bsOk_def)
  then show "stretch (\<lambda>y. queued s ! off (bs_begin s) y) (bs_begin s) c ! i = take n (queued s) ! i" using i assms(3) by (simp add: stretch_def)
qed (use assms in simp)

definition created :: "byte_send_queue \<Rightarrow> u32 \<times> u64 \<Rightarrow> wire_segment \<Rightarrow> bool" where
  "created s xn seg \<longleftrightarrow> (case xn of (x, n) \<Rightarrow>
     seqLE (bs_begin s) x \<and> seqLE x (bs_end s) \<and> 0 < n \<and> unat n \<le> off x (bs_end s) \<and> bs_createSegmentWithBytes s x n = Inr seg)"

lemma created_all:
  assumes "bsOk s" "list_all2 (created s) xns segs"
  shows "\<forall>seg\<in>set segs. segInWin (bs_begin s) (tcp_segment.truncate seg) \<and> bytesOk seg"
    "list_all (\<lambda>seg. carries (\<lambda>y. queued s ! off (bs_begin s) y) (segRegion seg)) segs"
  using assms(2) created_segment [OF assms(1)]
  by (induction rule: list_all2_induct) (auto simp: created_def)

lemma delivered_bound:
  assumes "bsOk s" "list_all2 (created s) xns segs" "byteRange (bs_begin s) c \<subseteq> (\<Union>seg\<in>set segs. segBytes (tcp_segment.truncate seg))"
  shows "off (bs_begin s) c \<le> length (queued s)"
proof (rule ccontr)
  let ?b = "bs_begin s" and ?e = "bs_end s"
  assume "\<not> off ?b c \<le> length (queued s)"
  then have "?e \<in> byteRange ?b c" using assms(1) by (simp add: byteRange_def bsOk_def)
  then obtain seg where seg: "seg \<in> set segs" "?e \<in> segBytes (tcp_segment.truncate seg)" using assms(3) by blast
  then obtain x n where x: "created s (x, n) seg" using assms(2) by (metis list_all2_conv_all_nth in_set_conv_nth prod.collapse)
  then have "bs_createSegmentWithBytes s x n = Inr seg" "unat n \<le> off x ?e" by (simp_all add: created_def)
  moreover from x have "sequenceNo seg = x" "payloadLength seg = n"
    using bs_create [OF assms(1), of x n] by (auto simp: created_def withBytes_def tcp_segment.defs)
  ultimately show False using seg(2) by (simp add: segBytes_def tcp_segment.defs)
qed


text \<open>
  C37: a duplicate of buffered data corrupts the stream. When a region waits behind a gap and a copy of its first part arrives again, \<open>merge\<close>
  fills the rest of the region from the start of the old data instead of from behind the copy: at every sequence number from the end of the
  copy on, the region then holds the byte that belongs as much earlier as the copy is long.
\<close>

theorem duplicate_corrupts:
  assumes "bqOk b q" "bq_regions q = [r]" "carries f r" "off b (bq_nxt q) < off b (rr_begin r)"
    and "segInWin b (tcp_segment.truncate seg)" "sequenceNo seg = rr_begin r" "bytesOk seg" "carries f (segRegion seg)" "endInside (segRegion seg) r"
  shows "\<exists>d. binsertBytesFromSegment q seg = Inr (q\<lparr>bq_regions := [r\<lparr>rr_data := d\<rparr>]\<rparr>) \<and>
     (\<forall>i < off (rr_begin r) (rr_end r). d ! i = (let n = length (byteArray seg) in f (rr_begin r + of_nat (if i < n then i else i - n))))"
proof -
  let ?s = "segRegion seg" and ?a = "rr_begin r" and ?e = "rr_end r"
  note sr = segRegion_ok [OF assms(5,7)]
  have ok: "rlOk b 0 [asRegion r]" and z: "sized r" and wn: "inwin b (bq_nxt q)" using assms(1,2) by (simp_all add: bqOk_def rcvq_ok_def asQueue_def)
  then have sr': "segOk b (asRegion r)" by (simp add: segOk_def)
  have bs: "rr_begin ?s = ?a" "rr_data ?s = byteArray seg" using assms(6) by (simp_all add: segRegion_def)
  let ?m = "rr_end ?s"
  have w: "inwin b ?a" "inwin b ?m" "inwin b ?e" using sr(3) sr' bs by (auto simp: segOk_def inwin_def)
  have in1: "off b ?a < off b ?m" "off b ?m < off b ?e" using assms(9) w by (simp_all add: endInside_def seqLess_win [of b])
  have "bregion_merge ?s r = Inr (Some \<lparr>rr_begin = ?a, rr_end = ?e, rr_data = mergedData 0 (off ?m ?e) (byteArray seg) (rr_data r)\<rparr>)"
    using bregion_merge_data(1) [OF sr(3) sr' sr(2) z] in1 bs by simp
  moreover define d where "d = byteArray seg @ take (off ?m ?e) (rr_data r)"
  ultimately have mg: "bregion_merge ?s r = Inr (Some (r\<lparr>rr_data := d\<rparr>))" by (simp add: mergedData_def)
  note cmp = region_compare_win [OF sr' sr(3), unfolded asRegion_simps bs]
  have ml: "bmergeLoop [r] [] ?s = Inr [r\<lparr>rr_data := d\<rparr>]" using mg cmp in1 by simp
  have acc: "acceptableRange (map asRegion (bq_regions q)) (asRegion ?s)" using acceptableRange_ok [OF ok sr(3)] assms(2) by simp
  have "\<not> seqGE (bq_nxt q) ?a" using assms(4) wn w by (simp add: seqGE_win [of b])
  then have ins: "binsertBytesFromSegment q seg = Inr (q\<lparr>bq_regions := [r\<lparr>rr_data := d\<rparr>]\<rparr>)"
    using sr(1) acc ml assms(2) by (simp add: binsertBytesFromSegment_def)
  have n: "length (byteArray seg) = off ?a ?m" using sr(2) bs by (simp add: sized_def)
  have o: "off ?a ?e = off ?a ?m + off ?m ?e" using off_trans [of b ?a ?m] off_trans [of b ?m ?e] off_trans [of b ?a ?e] in1 by simp
  have "d ! i = f (?a + of_nat (if i < off ?a ?m then i else i - off ?a ?m))" if "i < off ?a ?e" for i
    using that assms(3,8) bs n o by (auto simp: d_def carries_def stretch_def nth_append)
  then show ?thesis using ins n by (intro exI [of _ d]) (simp add: Let_def)
qed

section \<open>Examples\<close>

definition sampleBytes :: byte_send_queue where
  "sampleBytes = \<lparr>bs_begin = 100, bs_end = 106, dataBuffer = \<lparr>dataLengthM = 6, dataListM = [[1, 2], [3, 4, 5, 6]]\<rparr>\<rparr>"

definition sampleBytesSeg :: "u32 \<Rightarrow> u64 \<Rightarrow> u8 list \<Rightarrow> wire_segment" where
  "sampleBytesSeg x n d = withBytes (newSegment\<lparr>sequenceNo := x, payloadLength := n\<rparr>) d"

lemma sampleBytesSeg_truncate: "tcp_segment.truncate (sampleBytesSeg x n d) = newSegment\<lparr>sequenceNo := x, payloadLength := n\<rparr>"
  by (simp add: sampleBytesSeg_def withBytes_def newSegment_def tcp_segment.defs)


theorem duplicate_corrupts_witness:
  "\<exists>d. binsertBytesFromSegment \<lparr>bq_nxt = 100, bq_regions = [\<lparr>rr_begin = 110, rr_end = 116, rr_data = [110, 111, 112, 113, 114, 115]\<rparr>]\<rparr> (sampleBytesSeg 110 3 [110, 111, 112]) =
     Inr \<lparr>bq_nxt = 100, bq_regions = [\<lparr>rr_begin = 110, rr_end = 116, rr_data = d\<rparr>]\<rparr> \<and> d ! 3 = 110"
proof -
  let ?r = "\<lparr>rr_begin = 110, rr_end = 116, rr_data = [110, 111, 112, 113, 114, 115]\<rparr>" and ?f = "\<lambda>y :: u32. ucast y :: u8"
  let ?q = "\<lparr>bq_nxt = 100, bq_regions = [?r]\<rparr>" and ?seg = "sampleBytesSeg 110 3 [110, 111, 112]"
  have 1: "bqOk 100 ?q" "off 100 (bq_nxt ?q) < off 100 (rr_begin ?r)"
    by (simp_all add: bqOk_def sized_def asQueue_def rcvq_ok_def off_def rcv_region.defs)
  have 2: "carries ?f ?r" by (simp add: carries_def stretch_def off_def upt_rec)
  have 3: "segInWin 100 (tcp_segment.truncate ?seg)" "sequenceNo ?seg = rr_begin ?r" "bytesOk ?seg"
    by (simp_all add: segInWin_def sampleBytesSeg_def withBytes_def newSegment_def tcp_segment.defs wire_segment.defs off_def bytesOk_def)
  have 4: "segRegion ?seg = \<lparr>rr_begin = 110, rr_end = 113, rr_data = [110, 111, 112]\<rparr>"
    by (simp add: segRegion_def sampleBytesSeg_def withBytes_def newSegment_def tcp_segment.defs wire_segment.defs)
  have 5: "carries ?f (segRegion ?seg)" "endInside (segRegion ?seg) ?r"
    unfolding 4 by (simp_all add: carries_def stretch_def off_def upt_rec endInside_def seqLess_def)
  from duplicate_corrupts [OF 1(1) _ 2 1(2) 3 5] obtain d where
    d: "binsertBytesFromSegment ?q ?seg = Inr (?q\<lparr>bq_regions := [?r\<lparr>rr_data := d\<rparr>]\<rparr>)"
      "\<forall>i < off (rr_begin ?r) (rr_end ?r). d ! i = (let n = length (byteArray ?seg) in ?f (rr_begin ?r + of_nat (if i < n then i else i - n)))" by auto
  have "length (byteArray ?seg) = 3" "off (rr_begin ?r) (rr_end ?r) = 6" by (simp_all add: sampleBytesSeg_def withBytes_def tcp_segment.defs wire_segment.defs off_def)
  then have "d ! 3 = 110" using d(2) by (simp add: Let_def)
  then show ?thesis using d(1) by auto
qed

end
