(* ===== verification/Tcp_MsgQueue.thy ===== *)
theory Tcp_MsgQueue
  imports Tcp_SendQueue Tcp_RcvQueue
begin

text \<open>
  The queues of a connection that carries message objects, \<open>src/inet/transportlayer/tcp/queues/TCPMsgBasedSendQueue.cc\<close> and
  \<open>TCPMsgBasedRcvQueue.cc\<close>. Every message is known by the sequence number behind its last byte; the receive queue is a subclass of the
  queue of virtual bytes that keeps the messages of the buffered bytes in a list.
\<close>

section \<open>The send queue\<close>

record msg_send_queue =
  ms_begin :: u32
  ms_end :: u32
  payloadQueue :: "payload_message list"

definition ms_new :: msg_send_queue where
  "ms_new = \<lparr>ms_begin = 0, ms_end = 0, payloadQueue = []\<rparr>"

definition ms_init :: "msg_send_queue \<Rightarrow> u32 \<Rightarrow> msg_send_queue" where
  "ms_init q startSeq = q\<lparr>ms_begin := startSeq, ms_end := startSeq\<rparr>"

definition ms_enqueueAppData :: "msg_send_queue \<Rightarrow> u64 \<Rightarrow> nat \<Rightarrow> msg_send_queue res" where
  "ms_enqueueAppData q byteLength msg =
     (let q1 = q\<lparr>ms_end := ms_end q + ucast byteLength\<rparr> in
      if seqLess (ms_end q1) (ms_begin q1) then Inl (RuntimeError ''Send queue is full'')
      else Inr (q1\<lparr>payloadQueue := payloadQueue q1 @ [\<lparr>endSequenceNo = ms_end q1, payloadMsg = msg\<rparr>]\<rparr>))"

definition ms_createSegmentWithBytes :: "msg_send_queue \<Rightarrow> u32 \<Rightarrow> u64 \<Rightarrow> tcp_segment res" where
  "ms_createSegmentWithBytes q fromSeq numBytes =
     bindR (assertR (seqLE (ms_begin q) fromSeq \<and> seqLE (fromSeq + ucast numBytes) (ms_end q)) ''createSegmentWithBytes'') (\<lambda>_.
     let i = dropWhile (\<lambda>p. seqLE (endSequenceNo p) fromSeq) (payloadQueue q);
         toSeq = fromSeq + ucast numBytes
     in Inr (fold (\<lambda>p seg. addPayloadMessage seg (payloadMsg p) (endSequenceNo p)) (takeWhile (\<lambda>p. seqLE (endSequenceNo p) toSeq) i)
          (newSegment\<lparr>sequenceNo := fromSeq, payloadLength := numBytes\<rparr>)))"

definition ms_discardUpTo :: "msg_send_queue \<Rightarrow> u32 \<Rightarrow> msg_send_queue res" where
  "ms_discardUpTo q seqNum =
     bindR (assertR (seqLE (ms_begin q) seqNum \<and> seqLE seqNum (ms_end q)) ''discardUpTo'') (\<lambda>_.
     Inr (q\<lparr>ms_begin := seqNum, payloadQueue := dropWhile (\<lambda>p. seqLE (endSequenceNo p) seqNum) (payloadQueue q)\<rparr>))"

section \<open>The receive queue\<close>

record msg_queue =
  mq_base :: rcv_queue
  mq_msgs :: "payload_message list"

definition mq_init :: "u32 \<Rightarrow> msg_queue" where
  "mq_init startSeq = \<lparr>mq_base = rcvq_init rcvq_new startSeq, mq_msgs = []\<rparr>"

text \<open>
  The loop over the messages of a segment. The iterator into \<open>payloadList\<close> is the pair of the elements before it, last one first, and
  those from it on.
\<close>

fun insertMsgs :: "payload_message list \<Rightarrow> payload_message list \<Rightarrow> payload_message list \<Rightarrow> payload_message list res" where
  "insertMsgs passed rest [] = Inr (rev passed @ rest)"
| "insertMsgs passed rest (m # ms) =
     (let passed1 = rev (takeWhile (\<lambda>i. seqLess (endSequenceNo i) (endSequenceNo m)) rest) @ passed;
          rest1 = dropWhile (\<lambda>i. seqLess (endSequenceNo i) (endSequenceNo m)) rest
      in if rest1 \<noteq> [] \<and> endSequenceNo (hd rest1) = endSequenceNo m then insertMsgs passed1 rest1 ms
         else let payloadList = rev passed1 @ m # rest1 in
           bindR (assertR (seqLE (endSequenceNo (hd payloadList)) (endSequenceNo (last payloadList))) ''insertBytesFromSegment'') (\<lambda>_.
           insertMsgs passed1 (m # rest1) ms))"

definition minsertBytesFromSegment :: "msg_queue \<Rightarrow> tcp_segment \<Rightarrow> msg_queue res" where
  "minsertBytesFromSegment q seg =
     bindR (insertBytesFromSegment (mq_base q) seg) (\<lambda>b.
     bindR (insertMsgs [] (mq_msgs q) (payloadList seg)) (\<lambda>ms.
     Inr \<lparr>mq_base = b, mq_msgs = ms\<rparr>))"

definition mextractBytesUpTo :: "msg_queue \<Rightarrow> u32 \<Rightarrow> (nat option \<times> msg_queue) res" where
  "mextractBytesUpTo q seq =
     (let seq1 = (if mq_msgs q \<noteq> [] \<and> seqLess (endSequenceNo (hd (mq_msgs q))) seq then endSequenceNo (hd (mq_msgs q)) else seq) in
      bindR (extractTo (mq_base q) seq1) (\<lambda>(reg, b).
      case reg of
        None \<Rightarrow> Inr (None, q\<lparr>mq_base := b\<rparr>)
      | Some r \<Rightarrow>
          if mq_msgs q \<noteq> [] \<and> endSequenceNo (hd (mq_msgs q)) = rr_end r
          then Inr (Some (payloadMsg (hd (mq_msgs q))), q\<lparr>mq_base := b, mq_msgs := tl (mq_msgs q)\<rparr>)
          else Inr (None, q\<lparr>mq_base := b\<rparr>)))"

section \<open>Lists of messages in order\<close>

text \<open>Messages in ascending order of their ends, all within half the sequence space above \<open>b\<close>.\<close>

definition msgsIn :: "u32 \<Rightarrow> payload_message list \<Rightarrow> bool" where
  "msgsIn b ms \<longleftrightarrow> sorted_wrt (\<lambda>x y. off b (endSequenceNo x) < off b (endSequenceNo y)) ms \<and> (\<forall>m \<in> set ms. inwin b (endSequenceNo m))"

lemma msgsIn_filter: "msgsIn b ms \<Longrightarrow> msgsIn b (filter P ms)"
  by (simp add: msgsIn_def sorted_wrt_filter)

lemma msgsIn_Cons: "msgsIn b (m # ms) \<longleftrightarrow> inwin b (endSequenceNo m) \<and> (\<forall>x \<in> set ms. off b (endSequenceNo m) < off b (endSequenceNo x)) \<and> msgsIn b ms"
  by (auto simp: msgsIn_def)

lemma msgsIn_append:
  "msgsIn b (xs @ ys) \<longleftrightarrow> msgsIn b xs \<and> msgsIn b ys \<and> (\<forall>x \<in> set xs. \<forall>y \<in> set ys. off b (endSequenceNo x) < off b (endSequenceNo y))"
  by (auto simp: msgsIn_def sorted_wrt_append)

lemma msgsIn_hd_last:
  assumes "msgsIn b l" "l \<noteq> []"
  shows "seqLE (endSequenceNo (hd l)) (endSequenceNo (last l))"
proof (cases l)
  case (Cons m ms)
  then show ?thesis
  proof (cases ms rule: rev_cases)
    case (snoc ys y)
    then have "off b (endSequenceNo m) < off b (endSequenceNo y)" "inwin b (endSequenceNo m)" "inwin b (endSequenceNo y)"
      using assms(1) Cons by (auto simp: msgsIn_def)
    then show ?thesis using Cons snoc by (simp add: seqLE_win [of b])
  qed simp
qed (use assms(2) in simp)

text \<open>Two ascending selections of one ascending list are equal if they have the same elements.\<close>

lemma msgsIn_unique:
  assumes "msgsIn b xs" "msgsIn b ys" "set xs = set ys" "set xs \<subseteq> set ms" "msgsIn b ms"
  shows "xs = ys"
proof -
  let ?k = "\<lambda>m. off b (endSequenceNo m)"
  have s: "sorted_wrt (<) (map ?k xs)" "sorted_wrt (<) (map ?k ys)" using assms(1,2) by (simp_all add: msgsIn_def sorted_wrt_map)
  have "set (map ?k xs) = set (map ?k ys)" using assms(3) by simp
  then have e: "map ?k xs = map ?k ys" using strict_sorted_equal [OF s] by metis
  have "inj_on ?k (set ms)"
  proof -
    have "sorted_wrt (<) (map ?k ms)" using assms(5) by (simp add: msgsIn_def sorted_wrt_map)
    then have "distinct (map ?k ms)" by (simp add: strict_sorted_iff)
    then show ?thesis by (simp add: distinct_map)
  qed
  then have "inj_on ?k (set xs \<union> set ys)" using assms(3,4) by (auto elim: inj_on_subset)
  then show ?thesis using e map_inj_on by blast
qed

lemma dropWhile_upto:
  assumes "msgsIn b ms" "inwin b x"
  shows "dropWhile (\<lambda>p. seqLE (endSequenceNo p) x) ms = filter (\<lambda>p. off b x < off b (endSequenceNo p)) ms \<and>
     takeWhile (\<lambda>p. seqLE (endSequenceNo p) x) ms = filter (\<lambda>p. off b (endSequenceNo p) \<le> off b x) ms"
  using assms(1)
proof (induction ms)
  case (Cons m ms)
  have w: "inwin b (endSequenceNo m)" and s: "\<forall>y \<in> set ms. off b (endSequenceNo m) < off b (endSequenceNo y)" using Cons.prems by (simp_all add: msgsIn_Cons)
  have c: "seqLE (endSequenceNo m) x \<longleftrightarrow> off b (endSequenceNo m) \<le> off b x" using w assms(2) by (rule seqLE_win)
  have "filter (\<lambda>p. off b x < off b (endSequenceNo p)) ms = ms" "filter (\<lambda>p. off b (endSequenceNo p) \<le> off b x) ms = []" if "off b x < off b (endSequenceNo m)"
    using s that by (auto simp: filter_id_conv filter_empty_conv)
  then show ?case using Cons c by (auto simp: not_le msgsIn_Cons)
qed simp

lemma off_pred: "0 < off b e \<Longrightarrow> off b (e - 1) = off b e - 1"
  using unat_minus_one [of "e - b"] by (cases "e = b") (simp_all add: off_def algebra_simps)

section \<open>What the send queue puts into segments\<close>

text \<open>The messages end inside the queue, in order.\<close>

definition msOk :: "msg_send_queue \<Rightarrow> bool" where
  "msOk q \<longleftrightarrow> off (ms_begin q) (ms_end q) < 2 ^ 31 \<and> msgsIn (ms_begin q) (payloadQueue q) \<and>
     (\<forall>m \<in> set (payloadQueue q). 0 < off (ms_begin q) (endSequenceNo m) \<and> off (ms_begin q) (endSequenceNo m) \<le> off (ms_begin q) (ms_end q))"

lemma ms_enqueue:
  assumes "msOk q" "0 < n" "off (ms_begin q) (ms_end q) + unat n < 2 ^ 31"
  shows "\<exists>q'. ms_enqueueAppData q n m = Inr q' \<and> msOk q' \<and> ms_begin q' = ms_begin q \<and> off (ms_begin q) (ms_end q') = off (ms_begin q) (ms_end q) + unat n \<and>
    payloadQueue q' = payloadQueue q @ [\<lparr>endSequenceNo = ms_end q', payloadMsg = m\<rparr>]"
proof -
  let ?b = "ms_begin q" and ?e = "ms_end q"
  have u: "unat (ucast n :: u32) = unat n" using assms(3) by (intro unat_ucast_narrow) simp
  have "off ?b (?e + of_nat (unat (ucast n :: u32))) = off ?b ?e + unat n" using assms(3) u by (subst off_add_nat) simp_all
  then have o: "off ?b (?e + ucast n) = off ?b ?e + unat n" by (simp add: of_nat_unat)
  have "0 < unat n" using assms(2) by (simp add: unat_gt_0)
  have "seqLE ?b (?e + ucast n)" using o assms(3) by (simp add: seqLE_off)
  then have "\<not> seqLess (?e + ucast n) ?b" using seqLE_antisym seqLess_iff by blast
  then show ?thesis using assms o \<open>0 < unat n\<close>
    by (fastforce simp: ms_enqueueAppData_def Let_def msOk_def msgsIn_def sorted_wrt_append inwin_def)
qed

lemma add_messages:
  "fold (\<lambda>p seg. addPayloadMessage seg (payloadMsg p) (endSequenceNo p)) ms seg = seg\<lparr>payloadList := payloadList seg @ ms\<rparr>"
  by (induction ms arbitrary: seg) (simp_all add: addPayloadMessage_def)

lemma ms_create:
  assumes "msOk q" "seqLE (ms_begin q) x" "seqLE x (ms_end q)" "unat n \<le> off x (ms_end q)"
  shows "ms_createSegmentWithBytes q x n = Inr (newSegment\<lparr>sequenceNo := x, payloadLength := n,
     payloadList := filter (\<lambda>p. endSequenceNo p - 1 \<in> segBytes (newSegment\<lparr>sequenceNo := x, payloadLength := n\<rparr>)) (payloadQueue q)\<rparr>)"
proof -
  let ?b = "ms_begin q" and ?e = "ms_end q" and ?to = "x + ucast n" and ?ms = "payloadQueue q"
  have l: "off ?b ?e < 2 ^ 31" and ms: "msgsIn ?b ?ms" using assms(1) by (simp_all add: msOk_def)
  have w: "inwin ?b x" "inwin ?b ?e" using assms(2) l by (simp_all add: inwin_seqLE seqLE_off)
  then have "off ?b x \<le> off ?b ?e" using assms(3) seqLE_win by blast
  then have t: "off ?b ?e = off ?b x + off x ?e" by (rule off_trans)
  have u: "unat (ucast n :: u32) = unat n" using assms(4) l t by (intro unat_ucast_narrow) simp
  have "off ?b (x + of_nat (unat (ucast n :: u32))) = off ?b x + unat n" using assms(4) l t u by (subst off_add_nat) simp_all
  then have o: "off ?b ?to = off ?b x + unat n" by (simp add: of_nat_unat)
  have w2: "inwin ?b ?to" "seqLE ?to ?e" using o l t assms(4) w by (simp_all add: inwin_def seqLE_win [of ?b])
  have "takeWhile (\<lambda>p. seqLE (endSequenceNo p) ?to) (dropWhile (\<lambda>p. seqLE (endSequenceNo p) x) ?ms) =
      filter (\<lambda>p. off ?b (endSequenceNo p) \<le> off ?b ?to) (filter (\<lambda>p. off ?b x < off ?b (endSequenceNo p)) ?ms)"
    using dropWhile_upto [OF ms w(1)] dropWhile_upto [OF msgsIn_filter [OF ms] w2(1)] by simp
  also have "\<dots> = filter (\<lambda>p. endSequenceNo p - 1 \<in> segBytes (newSegment\<lparr>sequenceNo := x, payloadLength := n\<rparr>)) ?ms"
    unfolding filter_filter
  proof (rule filter_cong [OF refl])
    fix p assume "p \<in> set ?ms"
    then have pos: "0 < off ?b (endSequenceNo p)" using assms(1) by (simp add: msOk_def)
    show "(off ?b x < off ?b (endSequenceNo p) \<and> off ?b (endSequenceNo p) \<le> off ?b ?to) = (endSequenceNo p - 1 \<in> segBytes (newSegment\<lparr>sequenceNo := x, payloadLength := n\<rparr>))"
    proof -
      have "segBytes (newSegment\<lparr>sequenceNo := x, payloadLength := n\<rparr>) = byteRange x ?to"
        using segBytes_range [of "newSegment\<lparr>sequenceNo := x, payloadLength := n\<rparr>"] assms(4) l t by simp
      moreover have "endSequenceNo p - 1 \<in> byteRange x ?to \<longleftrightarrow> off ?b x \<le> off ?b (endSequenceNo p - 1) \<and> off ?b (endSequenceNo p - 1) < off ?b ?to"
        by (rule byteRange_win) (simp only: o le_add1)
      ultimately show ?thesis unfolding off_pred [OF pos] using pos by (simp only:) arith
    qed
  qed
  finally show ?thesis using assms(2) w2(2) by (simp add: ms_createSegmentWithBytes_def Let_def add_messages newSegment_def)
qed

lemma ms_discard:
  assumes "msOk q" "seqLE (ms_begin q) s" "seqLE s (ms_end q)"
  shows "\<exists>q'. ms_discardUpTo q s = Inr q' \<and> msOk q' \<and> ms_begin q' = s \<and> ms_end q' = ms_end q \<and>
    payloadQueue q' = filter (\<lambda>p. off (ms_begin q) s < off (ms_begin q) (endSequenceNo p)) (payloadQueue q)"
proof -
  let ?b = "ms_begin q" and ?e = "ms_end q" and ?ms = "filter (\<lambda>p. off (ms_begin q) s < off (ms_begin q) (endSequenceNo p)) (payloadQueue q)"
  have l: "off ?b ?e < 2 ^ 31" and ms: "msgsIn ?b (payloadQueue q)" using assms(1) by (simp_all add: msOk_def)
  have w: "inwin ?b s" "inwin ?b ?e" using assms(2) l by (simp_all add: inwin_seqLE seqLE_off)
  then have le: "off ?b s \<le> off ?b ?e" using assms(3) seqLE_win by blast
  have o: "off s (endSequenceNo m) = off ?b (endSequenceNo m) - off ?b s" "off ?b s < off ?b (endSequenceNo m)" "off ?b (endSequenceNo m) \<le> off ?b ?e" if "m \<in> set ?ms" for m
  proof -
    have m: "m \<in> set (payloadQueue q)" "off ?b s < off ?b (endSequenceNo m)" using that by simp_all
    then show "off ?b s < off ?b (endSequenceNo m)" "off ?b (endSequenceNo m) \<le> off ?b ?e" using assms(1) unfolding msOk_def by blast+
    show "off s (endSequenceNo m) = off ?b (endSequenceNo m) - off ?b s" using off_trans [of ?b s "endSequenceNo m"] m(2) by simp
  qed
  have "sorted_wrt (\<lambda>x y. off ?b (endSequenceNo x) < off ?b (endSequenceNo y)) ?ms" using ms by (simp add: msgsIn_def sorted_wrt_filter)
  then have "sorted_wrt (\<lambda>x y. off s (endSequenceNo x) < off s (endSequenceNo y)) ?ms"
  proof (rule sorted_wrt_mono_rel [rotated])
    fix x y assume "x \<in> set ?ms" "y \<in> set ?ms" "off ?b (endSequenceNo x) < off ?b (endSequenceNo y)"
    with o [of x] o [of y] show "off s (endSequenceNo x) < off s (endSequenceNo y)" by linarith
  qed
  moreover have "off s ?e = off ?b ?e - off ?b s" using off_trans [OF le] by simp
  moreover have "\<forall>m \<in> set ?ms. 0 < off s (endSequenceNo m) \<and> off s (endSequenceNo m) \<le> off s ?e \<and> inwin s (endSequenceNo m)"
  proof
    fix m assume "m \<in> set ?ms"
    from o [OF this] show "0 < off s (endSequenceNo m) \<and> off s (endSequenceNo m) \<le> off s ?e \<and> inwin s (endSequenceNo m)"
      using l \<open>off s ?e = off ?b ?e - off ?b s\<close> by (auto simp: inwin_def)
  qed
  ultimately have "msOk (q\<lparr>ms_begin := s, payloadQueue := ?ms\<rparr>)" using l by (simp add: msOk_def msgsIn_def)
  then show ?thesis using assms(2,3) dropWhile_upto [OF ms w(1)] by (simp add: ms_discardUpTo_def)
qed

interpretation msq: tcp_send_queue msOk ms_begin ms_end ms_createSegmentWithBytes ms_discardUpTo
proof
  fix q x n
  assume q: "msOk q" "seqLE (ms_begin q) x" "seqLE (x + ucast n) (ms_end q)" "n \<le> bytesAvailable (ms_end q) x"
  have x: "seqLE x (ms_end q)" using q(3,4) by (cases "seqLess x (ms_end q)") (auto simp: bytesAvailable_def seqLess_imp_seqLE)
  have "unat n \<le> off x (ms_end q)" using q(4) unat_bytesAvailable [OF x] by (simp add: word_le_nat_alt)
  from ms_create [OF q(1,2) x this] show "\<exists>seg. ms_createSegmentWithBytes q x n = Inr seg \<and> sequenceNo seg = x \<and> payloadLength seg = n \<and> \<not> synBit seg \<and> \<not> finBit seg \<and> \<not> rstBit seg"
    by (simp add: newSegment_def)
qed (use ms_discard in blast)

section \<open>Inserting messages\<close>

lemma takeWhile_less:
  assumes "msgsIn b (xs @ ys)" "inwin b e"
  shows "msgsIn b (xs @ takeWhile (\<lambda>i. seqLess (endSequenceNo i) e) ys @ dropWhile (\<lambda>i. seqLess (endSequenceNo i) e) ys)"
    "i \<in> set (takeWhile (\<lambda>i. seqLess (endSequenceNo i) e) ys) \<Longrightarrow> off b (endSequenceNo i) < off b e"
    "i \<in> set (dropWhile (\<lambda>i. seqLess (endSequenceNo i) e) ys) \<Longrightarrow> off b e \<le> off b (endSequenceNo i)"
proof -
  show "msgsIn b (xs @ takeWhile (\<lambda>i. seqLess (endSequenceNo i) e) ys @ dropWhile (\<lambda>i. seqLess (endSequenceNo i) e) ys)" using assms(1) by simp
  have w: "inwin b (endSequenceNo i)" if "i \<in> set ys" for i using assms(1) that by (simp add: msgsIn_def)
  show "off b (endSequenceNo i) < off b e" if "i \<in> set (takeWhile (\<lambda>i. seqLess (endSequenceNo i) e) ys)"
    using set_takeWhileD [OF that] w [of i] assms(2) seqLess_win [of b "endSequenceNo i" e] by blast
  show "off b e \<le> off b (endSequenceNo i)" if i: "i \<in> set (dropWhile (\<lambda>i. seqLess (endSequenceNo i) e) ys)"
  proof -
    obtain d ds where d: "dropWhile (\<lambda>i. seqLess (endSequenceNo i) e) ys = d # ds" using i by (cases "dropWhile (\<lambda>i. seqLess (endSequenceNo i) e) ys") auto
    have in_ys: "d \<in> set ys" using d by (metis list.set_intros(1) set_dropWhileD)
    have "\<not> seqLess (endSequenceNo d) e" using d by (simp add: dropWhile_eq_Cons_conv)
    then have ge: "off b e \<le> off b (endSequenceNo d)" using w [OF in_ys] assms(2) by (simp add: seqLess_win [of b])
    have "msgsIn b (takeWhile (\<lambda>i. seqLess (endSequenceNo i) e) ys @ dropWhile (\<lambda>i. seqLess (endSequenceNo i) e) ys)" using assms(1) by (simp add: msgsIn_append)
    then have "msgsIn b (d # ds)" unfolding d by (simp only: msgsIn_append)
    then show ?thesis using i d ge by (auto simp: msgsIn_Cons)
  qed
qed

lemma insertMsgs_spec:
  assumes "msgsIn b (rev passed @ rest)" "msgsIn b ms" "\<forall>p \<in> set passed. \<forall>m \<in> set ms. off b (endSequenceNo p) < off b (endSequenceNo m)"
    "\<forall>x \<in> set rest. \<forall>m \<in> set ms. endSequenceNo x = endSequenceNo m \<longrightarrow> x = m"
  shows "\<exists>l. insertMsgs passed rest ms = Inr l \<and> msgsIn b l \<and> set l = set passed \<union> set rest \<union> set ms"
  using assms
proof (induction ms arbitrary: passed rest)
  case (Cons m ms)
  let ?P = "\<lambda>i. seqLess (endSequenceNo i) (endSequenceNo m)"
  let ?t = "takeWhile ?P rest" and ?d = "dropWhile ?P rest"
  have w: "inwin b (endSequenceNo m)" and later: "\<forall>x \<in> set ms. off b (endSequenceNo m) < off b (endSequenceNo x)" and ms: "msgsIn b ms" using Cons.prems(2) by (simp_all add: msgsIn_Cons)
  note s = takeWhile_less [OF Cons.prems(1) w]
  have td: "set ?t \<union> set ?d = set rest" by (metis set_append takeWhile_dropWhile_id)
  have below: "off b (endSequenceNo p) < off b (endSequenceNo x)" if "p \<in> set (rev ?t @ passed)" "x \<in> set (m # ms)" for p x
    using that s(2) [of p] Cons.prems(3) later by (force dest: order_less_trans)
  show ?case
  proof (cases "?d \<noteq> [] \<and> endSequenceNo (hd ?d) = endSequenceNo m")
    case True
    then have hd: "hd ?d \<in> set rest" using td hd_in_set [of ?d] by blast
    then have "hd ?d = m" using True Cons.prems(4) by auto
    then have "m \<in> set ?d" using True hd_in_set by metis
    moreover have "\<forall>x \<in> set ?d. \<forall>m \<in> set ms. endSequenceNo x = endSequenceNo m \<longrightarrow> x = m" using Cons.prems(4) td by auto
    ultimately show ?thesis using True Cons.IH [of "rev ?t @ passed" ?d] s(1) ms below td by (auto simp: Let_def)
  next
    case False
    have gt: "off b (endSequenceNo m) < off b (endSequenceNo x)" if x: "x \<in> set ?d" for x
    proof -
      obtain h t where ht: "?d = h # t" using x by (cases ?d) auto
      have "off b (endSequenceNo m) \<le> off b (endSequenceNo h)" using s(3) [of h] ht by simp
      moreover have "endSequenceNo h \<noteq> endSequenceNo m" using False ht by simp
      ultimately have lt: "off b (endSequenceNo m) < off b (endSequenceNo h)" by (metis le_neq_implies_less off_inj)
      have "msgsIn b ?d" using s(1) unfolding msgsIn_append by blast
      then show ?thesis using x lt unfolding ht msgsIn_Cons by auto
    qed
    have all: "msgsIn b (rev (rev ?t @ passed) @ m # ?d)"
    proof -
      have "msgsIn b ((rev passed @ ?t) @ ?d)" using s(1) by (simp only: append_assoc)
      then have "msgsIn b (rev passed @ ?t)" "msgsIn b ?d" "\<forall>x \<in> set (rev passed @ ?t). \<forall>y \<in> set ?d. off b (endSequenceNo x) < off b (endSequenceNo y)"
        unfolding msgsIn_append [of b "rev passed @ ?t" ?d] by blast+
      then have "msgsIn b ((rev passed @ ?t) @ m # ?d)" unfolding msgsIn_append [of b "rev passed @ ?t" "m # ?d"] msgsIn_Cons using w gt below by auto
      then show ?thesis by simp
    qed
    then have a: "seqLE (endSequenceNo (hd (rev (rev ?t @ passed) @ m # ?d))) (endSequenceNo (last (rev (rev ?t @ passed) @ m # ?d)))"
      by (intro msgsIn_hd_last) simp_all
    have "\<forall>x \<in> set (m # ?d). \<forall>m \<in> set ms. endSequenceNo x = endSequenceNo m \<longrightarrow> x = m" using Cons.prems(4) td later by auto
    with Cons.IH [of "rev ?t @ passed" "m # ?d"] all ms below obtain l where
      "insertMsgs (rev ?t @ passed) (m # ?d) ms = Inr l" "msgsIn b l" "set l = set (rev ?t @ passed) \<union> set (m # ?d) \<union> set ms" by auto
    then show ?thesis using False a td by (auto simp: Let_def)
  qed
qed simp

section \<open>Handing messages to the application\<close>

text \<open>The connection extracts up to the next expected byte until it gets no message; every message obtained leaves the list, so one round
  more than there are messages is enough.\<close>

fun msgDrain :: "nat \<Rightarrow> msg_queue \<Rightarrow> (nat list \<times> msg_queue) res" where
  "msgDrain 0 q = Inl LoopBound"
| "msgDrain (Suc k) q =
     bindR (mextractBytesUpTo q (rcvq_nxt (mq_base q))) (\<lambda>(m, q1).
     case m of None \<Rightarrow> Inr ([], q1) | Some x \<Rightarrow> bindR (msgDrain k q1) (\<lambda>(xs, q2). Inr (x # xs, q2)))"

definition msgDeliver :: "msg_queue \<Rightarrow> tcp_segment \<Rightarrow> (nat list \<times> msg_queue) res" where
  "msgDeliver q seg = bindR (minsertBytesFromSegment q seg) (\<lambda>q1. msgDrain (Suc (length (mq_msgs q1))) q1)"

lemma rlOk_above: "rlOk b lo rs \<Longrightarrow> r \<in> set rs \<Longrightarrow> lo \<le> off b (rr_begin r)"
  by (induction rs arbitrary: lo) fastforce+

text \<open>Nothing in order is buffered.\<close>

lemma drain_done:
  assumes ok: "rcvq_ok b (mq_base q)" and none: "\<forall>r \<in> set (regionList (mq_base q)). off b (rcvq_nxt (mq_base q)) < off b (rr_begin r)"
    and ms: "msgsIn b (mq_msgs q)" "\<forall>m \<in> set (mq_msgs q). off b (rcvq_nxt (mq_base q)) < off b (endSequenceNo m)"
  shows "msgDrain (Suc k) q = Inr ([], q)"
proof -
  let ?n = "rcvq_nxt (mq_base q)"
  have w: "inwin b ?n" using ok by (simp add: rcvq_ok_def)
  have nl: "\<not> (mq_msgs q \<noteq> [] \<and> seqLess (endSequenceNo (hd (mq_msgs q))) ?n)"
  proof (cases "mq_msgs q")
    case (Cons m mm)
    then show ?thesis using ms w by (simp add: msgsIn_Cons seqLess_win [of b])
  qed simp
  have "extractTo (mq_base q) ?n = Inr (None, mq_base q)"
  proof (cases "regionList (mq_base q)")
    case (Cons r rs)
    have "inwin b (rr_begin r)" using ok Cons by (simp add: rcvq_ok_def inwin_def)
    then show ?thesis using none Cons w by (simp add: extractTo_def seqLE_win [of b])
  qed (simp add: extractTo_def)
  then have "mextractBytesUpTo q ?n = Inr (None, q)" unfolding mextractBytesUpTo_def if_not_P [OF nl] Let_def by simp
  then show ?thesis by simp
qed

text \<open>The bytes from \<open>c\<close> up to the next expected one are buffered as the first region.\<close>

lemma drain_region:
  assumes "rcvq_ok b (mq_base q)" "regionList (mq_base q) = \<lparr>rr_begin = c, rr_end = rcvq_nxt (mq_base q)\<rparr> # rs"
    "msgsIn b (mq_msgs q)" "\<forall>m \<in> set (mq_msgs q). off b c < off b (endSequenceNo m)"
  shows "msgDrain (Suc (length (mq_msgs q))) q =
    Inr (map payloadMsg (filter (\<lambda>m. off b (endSequenceNo m) \<le> off b (rcvq_nxt (mq_base q))) (mq_msgs q)),
         \<lparr>mq_base = (mq_base q)\<lparr>regionList := rs\<rparr>, mq_msgs = filter (\<lambda>m. off b (rcvq_nxt (mq_base q)) < off b (endSequenceNo m)) (mq_msgs q)\<rparr>)"
  using assms
proof (induction "mq_msgs q" arbitrary: q c)
  case Nil
  let ?n = "rcvq_nxt (mq_base q)"
  have w: "inwin b ?n" "inwin b c" "off b c < off b ?n" using Nil.prems by (simp_all add: rcvq_ok_def inwin_def)
  then have "extractTo (mq_base q) ?n = Inr (Some \<lparr>rr_begin = c, rr_end = ?n\<rparr>, (mq_base q)\<lparr>regionList := rs\<rparr>)"
    using Nil.prems(2) by (simp add: extractTo_def seqLE_win [of b] seqGE_win [of b])
  then show ?case using Nil.hyps by (cases q) (simp add: mextractBytesUpTo_def Let_def)
next
  case (Cons m ms)
  let ?n = "rcvq_nxt (mq_base q)" and ?e = "endSequenceNo m" and ?B = "(mq_base q)\<lparr>regionList := rs\<rparr>"
  have q: "q = \<lparr>mq_base = mq_base q, mq_msgs = m # ms\<rparr>" using Cons.hyps(2) by (cases q) simp
  have ok: "rlOk b 0 (\<lparr>rr_begin = c, rr_end = ?n\<rparr> # rs)" and w: "inwin b ?n" "inwin b c" "off b c < off b ?n" using Cons.prems(1,2) by (simp_all add: rcvq_ok_def inwin_def)
  have e: "inwin b ?e" "off b c < off b ?e" "\<forall>x \<in> set ms. off b ?e < off b (endSequenceNo x)" "msgsIn b ms"
    using Cons.prems(3,4) unfolding Cons.hyps(2) [symmetric] by (simp_all add: msgsIn_Cons)
  have above: "\<forall>r \<in> set rs. off b ?n < off b (rr_begin r)" using rlOk_above [of b "off b ?n + 1" rs] ok by (auto simp: Suc_le_eq)
  have okB: "rcvq_ok b ?B" using ok w above rlOk_mono [of b "off b ?n + 1" rs 0] by (cases rs) (auto simp: rcvq_ok_def)
  show ?case
  proof (cases "off b ?e < off b ?n")
    case True
    have lt: "seqLess ?e ?n" using True e(1) w by (simp add: seqLess_win [of b])
    let ?b1 = "(mq_base q)\<lparr>regionList := \<lparr>rr_begin = ?e, rr_end = ?n\<rparr> # rs\<rparr>"
    let ?q1 = "\<lparr>mq_base = ?b1, mq_msgs = ms\<rparr>"
    have "extractTo (mq_base q) ?e = Inr (Some \<lparr>rr_begin = c, rr_end = ?e\<rparr>, ?b1)"
      using True Cons.prems(2) w e(1,2) by (simp add: extractTo_def region_split_def seqLE_win [of b] seqGE_win [of b] seqGreater_win [of b] seqLess_win [of b])
    then have x: "mextractBytesUpTo q ?n = Inr (Some (payloadMsg m), ?q1)" using lt q Cons.hyps(2) [symmetric] by (simp add: mextractBytesUpTo_def)
    have ok1: "rcvq_ok b (mq_base ?q1)" using ok w True by (simp add: rcvq_ok_def)
    have "msgDrain (Suc (length ms)) ?q1 = Inr (map payloadMsg (filter (\<lambda>m. off b (endSequenceNo m) \<le> off b ?n) ms),
         \<lparr>mq_base = ?B, mq_msgs = filter (\<lambda>m. off b ?n < off b (endSequenceNo m)) ms\<rparr>)"
      using Cons.hyps(1) [of ?q1 ?e] ok1 e by simp
    then show ?thesis using x True Cons.hyps(2) [symmetric] by simp
  next
    case False
    have nl: "\<not> seqLess ?e ?n" using False e(1) w by (simp add: seqLess_win [of b])
    have x: "extractTo (mq_base q) ?n = Inr (Some \<lparr>rr_begin = c, rr_end = ?n\<rparr>, ?B)"
      using Cons.prems(2) w by (simp add: extractTo_def seqLE_win [of b] seqGE_win [of b])
    have keep: "filter (\<lambda>m. off b (endSequenceNo m) \<le> off b ?n) ms = []" "filter (\<lambda>m. off b ?n < off b (endSequenceNo m)) ms = ms"
      using e(3) False by (auto simp: filter_empty_conv filter_id_conv)
    show ?thesis
    proof (cases "?e = ?n")
      case True
      have "mextractBytesUpTo q ?n = Inr (Some (payloadMsg m), \<lparr>mq_base = ?B, mq_msgs = ms\<rparr>)"
        using nl x q True Cons.hyps(2) [symmetric] by (simp add: mextractBytesUpTo_def)
      moreover have "msgDrain (Suc (length ms)) \<lparr>mq_base = ?B, mq_msgs = ms\<rparr> = Inr ([], \<lparr>mq_base = ?B, mq_msgs = ms\<rparr>)"
        by (rule drain_done [of b]) (use okB above e True in simp_all)
      ultimately show ?thesis using keep True Cons.hyps(2) [symmetric] by simp
    next
      case ne: False
      then have gt: "off b ?n < off b ?e" using False by (metis not_less_iff_gr_or_eq off_inj)
      have "mextractBytesUpTo q ?n = Inr (None, \<lparr>mq_base = ?B, mq_msgs = m # ms\<rparr>)"
        using nl x q ne Cons.hyps(2) [symmetric] by (simp add: mextractBytesUpTo_def)
      then show ?thesis using keep gt Cons.hyps(2) [symmetric] by simp
    qed
  qed
qed

section \<open>Every message once and in order\<close>

text \<open>
  The messages of the sender are \<open>ms\<close>. A segment carries those whose last byte it carries; the receive queue holds those whose last
  byte is buffered.
\<close>

definition carriesMsgs :: "payload_message list \<Rightarrow> tcp_segment \<Rightarrow> bool" where
  "carriesMsgs ms seg \<longleftrightarrow> payloadList seg = filter (\<lambda>m. endSequenceNo m - 1 \<in> segBytes seg) ms"

definition holdsMsgs :: "payload_message list \<Rightarrow> msg_queue \<Rightarrow> bool" where
  "holdsMsgs ms q \<longleftrightarrow> mq_msgs q = filter (\<lambda>m. endSequenceNo m - 1 \<in> rcvBytes (regionList (mq_base q))) ms"

definition sentMsgs :: "u32 \<Rightarrow> payload_message list \<Rightarrow> bool" where
  "sentMsgs b ms \<longleftrightarrow> msgsIn b ms \<and> (\<forall>m \<in> set ms. 0 < off b (endSequenceNo m))"

lemma msgs_by_end: "msgsIn b ms \<Longrightarrow> x \<in> set ms \<Longrightarrow> y \<in> set ms \<Longrightarrow> endSequenceNo x = endSequenceNo y \<Longrightarrow> x = y"
  by (induction ms) (auto simp: msgsIn_Cons)

lemma insert_messages:
  assumes ms: "msgsIn b ms" and q: "holdsMsgs ms q" and seg: "carriesMsgs ms seg"
    and ins: "insertBytesFromSegment (mq_base q) seg = Inr v" "rcvBytes (regionList v) = rcvBytes (regionList (mq_base q)) \<union> segBytes seg"
  shows "\<exists>q1. minsertBytesFromSegment q seg = Inr q1 \<and> mq_base q1 = v \<and> holdsMsgs ms q1"
proof -
  let ?P = "\<lambda>m. endSequenceNo m - 1 \<in> rcvBytes (regionList (mq_base q))" and ?Q = "\<lambda>m. endSequenceNo m - 1 \<in> segBytes seg"
  have "\<forall>x \<in> set (filter ?P ms). \<forall>m \<in> set (filter ?Q ms). endSequenceNo x = endSequenceNo m \<longrightarrow> x = m" using msgs_by_end [OF ms] by simp
  then obtain l where l: "insertMsgs [] (filter ?P ms) (filter ?Q ms) = Inr l" "msgsIn b l" "set l = set (filter ?P ms) \<union> set (filter ?Q ms)"
    using insertMsgs_spec [of b "[]" "filter ?P ms" "filter ?Q ms"] msgsIn_filter [OF ms] by auto
  have "l = filter (\<lambda>m. endSequenceNo m - 1 \<in> rcvBytes (regionList v)) ms"
    by (rule msgsIn_unique [OF l(2) msgsIn_filter [OF ms] _ _ ms]) (use l(3) ins(2) in auto)
  then show ?thesis using ins(1) l(1) q seg by (simp add: minsertBytesFromSegment_def holdsMsgs_def carriesMsgs_def)
qed

lemma drain_after_insert:
  assumes ok: "rcvq_ok b v" and all: "\<forall>x. off b x < off b (rcvq_nxt v) \<longrightarrow> x \<in> rcvBytes (regionList v)"
    and ms: "msgsIn b (mq_msgs q)" "\<forall>m \<in> set (mq_msgs q). 0 < off b (endSequenceNo m)" and q: "mq_base q = v"
  shows "\<exists>n v'. extractBytesUpTo v (rcvq_nxt v) = Inr (n, v') \<and> msgDrain (Suc (length (mq_msgs q))) q =
    Inr (map payloadMsg (filter (\<lambda>m. off b (endSequenceNo m) \<le> off b (rcvq_nxt v)) (mq_msgs q)),
         \<lparr>mq_base = v', mq_msgs = filter (\<lambda>m. off b (rcvq_nxt v) < off b (endSequenceNo m)) (mq_msgs q)\<rparr>)"
proof -
  let ?n = "rcvq_nxt v"
  have w: "inwin b ?n" and rl: "rlOk b 0 (regionList v)" using ok by (simp_all add: rcvq_ok_def)
  show ?thesis
  proof (cases "?n = b")
    case True
    have above: "\<forall>r \<in> set (regionList v). off b ?n < off b (rr_begin r)"
    proof
      fix r assume r: "r \<in> set (regionList v)"
      then have "rr_begin r \<in> rcvBytes (regionList v)" using rlOk_member [OF rl r] regionBytes_win [of b r] by (auto simp: rcvBytes_def segOk_def)
      then have "rr_begin r \<noteq> ?n" using nxt_not_buffered [OF ok] by auto
      then show "off b ?n < off b (rr_begin r)" using True by (metis neq0_conv off_eq_0 off_refl)
    qed
    have "extractTo v ?n = Inr (None, v)"
    proof (cases "regionList v")
      case (Cons r rs)
      have "inwin b (rr_begin r)" using rl Cons by (simp add: inwin_def)
      then show ?thesis using above Cons w by (simp add: extractTo_def seqLE_win [of b])
    qed (simp add: extractTo_def)
    then have x: "extractBytesUpTo v ?n = Inr (None, v)" by (simp add: extractBytesUpTo_def)
    have "msgDrain (Suc (length (mq_msgs q))) q = Inr ([], q)" by (rule drain_done [of b]) (use ok above ms q True in auto)
    moreover have "filter (\<lambda>m. off b (endSequenceNo m) \<le> off b ?n) (mq_msgs q) = []" "filter (\<lambda>m. off b ?n < off b (endSequenceNo m)) (mq_msgs q) = mq_msgs q"
      using ms(2) True by (auto simp: filter_empty_conv filter_id_conv)
    ultimately show ?thesis using x q by (cases q) auto
  next
    case False
    then have "b \<in> rcvBytes (regionList v)" using all by (metis off_eq_0 off_refl neq0_conv)
    then obtain r rs where r: "regionList v = r # rs" by (cases "regionList v") auto
    have "off b (rr_begin r) \<le> off b b" using rlOk_below_front [of b 0 r rs b] rl r \<open>b \<in> rcvBytes (regionList v)\<close> by simp
    then have "rr_begin r = b" by simp
    moreover from this have "rr_end r = ?n" using ok r by (simp add: rcvq_ok_def)
    ultimately have rg: "regionList v = \<lparr>rr_begin = b, rr_end = ?n\<rparr> # rs" using r by (cases r) simp
    have "seqLE b ?n" "\<not> seqLE ?n b" using w False seqLE_win [of b ?n b] by (simp_all add: inwin_seqLE)
    then have "extractBytesUpTo v ?n = Inr (Some (region_getLength \<lparr>rr_begin = b, rr_end = ?n\<rparr>), v\<lparr>regionList := rs\<rparr>)"
      using rg by (simp add: extractBytesUpTo_def extractTo_def seqGE_seqLE)
    moreover note drain_region [of b q b rs] ok rg ms q
    ultimately show ?thesis by simp
  qed
qed

lemma msgDeliver_spec:
  assumes ms: "sentMsgs b0 ms" and ok: "rcvq_ok (rcvq_nxt (mq_base q)) (mq_base q)" and half: "rcvq.inHalf b0 (mq_base q)" and q: "holdsMsgs ms q"
    and seg: "segInWin (rcvq_nxt (mq_base q)) seg" "segInWin b0 seg" "carriesMsgs ms seg"
  shows "\<exists>n q'. rcvDeliver (mq_base q) seg = Inr (n, mq_base q') \<and> holdsMsgs ms q' \<and>
     msgDeliver q seg = Inr (map payloadMsg (filter (\<lambda>m. off b0 (rcvq_nxt (mq_base q)) < off b0 (endSequenceNo m) \<and>
       off b0 (endSequenceNo m) \<le> off b0 (rcvq_nxt (mq_base q'))) ms), q')"
proof -
  let ?b = "rcvq_nxt (mq_base q)"
  obtain v where v: "insertBytesFromSegment (mq_base q) seg = Inr v" "rcvq_ok ?b v" "rcvBytes (regionList v) = rcvBytes (regionList (mq_base q)) \<union> segBytes seg"
      "\<forall>x. off ?b x < off ?b (rcvq_nxt v) \<longrightarrow> x \<in> rcvBytes (regionList v)"
    using insert_spec [OF ok seg(1)] by auto
  let ?n = "rcvq_nxt v"
  obtain q1 where q1: "minsertBytesFromSegment q seg = Inr q1" "mq_base q1 = v" "holdsMsgs ms q1"
    using insert_messages [OF _ q seg(3) v(1,3)] ms by (auto simp: sentMsgs_def)
  obtain n v' where v': "extractBytesUpTo v ?n = Inr (n, v')" "rcvq_nxt v' = ?n" using extract_rebase [OF v(2)] by blast
  have d: "rcvDeliver (mq_base q) seg = Inr (case n of None \<Rightarrow> 0 | Some k \<Rightarrow> unat k, v')" using v(1) v'(1) by (simp add: rcvDeliver_def)
  note h = rcvq.deliver_inHalf [OF ok seg(1,2) half d [folded rcvDeliver_eq], unfolded v'(2), folded v(3)]
  have nx: "off b0 ?b \<le> off b0 ?n" using h(3) by simp
  have R: "x \<in> byteRange ?b ?n \<longleftrightarrow> off b0 ?b \<le> off b0 x \<and> off b0 x < off b0 ?n" for x by (rule byteRange_win [OF nx])
  have low: "off b0 ?b \<le> off b0 x" if "x \<in> rcvBytes (regionList v)" for x
  proof (cases "x \<in> byteRange ?b ?n")
    case False
    then have "x \<in> rcvBytes (regionList v')" using that h(5) by blast
    then have "off b0 ?n \<le> off b0 x" using h(2) v'(2) by (simp add: rcvq.inHalf_def)
    then show ?thesis using nx by simp
  qed (use R in blast)
  have pos: "0 < off b0 (endSequenceNo m)" "off b0 (endSequenceNo m - 1) = off b0 (endSequenceNo m) - 1" "inwin b0 (endSequenceNo m)" if "m \<in> set ms" for m
    using that ms off_pred [of b0 "endSequenceNo m"] by (auto simp: sentMsgs_def msgsIn_def)
  have o: "off ?b (endSequenceNo m) = off b0 (endSequenceNo m) - off b0 ?b" "off b0 ?b < off b0 (endSequenceNo m)" "inwin b0 (endSequenceNo m)" if "m \<in> set (mq_msgs q1)" for m
  proof -
    have m: "m \<in> set ms" "endSequenceNo m - 1 \<in> rcvBytes (regionList v)" using that q1(2,3) by (simp_all add: holdsMsgs_def)
    then show lt: "off b0 ?b < off b0 (endSequenceNo m)" "inwin b0 (endSequenceNo m)" using low [OF m(2)] pos [OF m(1)] by auto
    show "off ?b (endSequenceNo m) = off b0 (endSequenceNo m) - off b0 ?b" using off_trans [of b0 ?b "endSequenceNo m"] lt(1) by simp
  qed
  have on: "off ?b ?n = off b0 ?n - off b0 ?b" using off_trans [OF nx] by simp
  have sorted: "msgsIn ?b (mq_msgs q1)"
  proof -
    have "msgsIn b0 (mq_msgs q1)" using ms q1(3) msgsIn_filter by (simp add: holdsMsgs_def sentMsgs_def)
    then have "sorted_wrt (\<lambda>x y. off b0 (endSequenceNo x) < off b0 (endSequenceNo y)) (mq_msgs q1)" by (simp add: msgsIn_def)
    then have "sorted_wrt (\<lambda>x y. off ?b (endSequenceNo x) < off ?b (endSequenceNo y)) (mq_msgs q1)"
    proof (rule sorted_wrt_mono_rel [rotated])
      fix x y assume "x \<in> set (mq_msgs q1)" "y \<in> set (mq_msgs q1)" "off b0 (endSequenceNo x) < off b0 (endSequenceNo y)"
      with o(1,2) [of x] o(1,2) [of y] show "off ?b (endSequenceNo x) < off ?b (endSequenceNo y)" by linarith
    qed
    moreover have "inwin ?b (endSequenceNo m)" if "m \<in> set (mq_msgs q1)" for m using o [OF that] by (auto simp: inwin_def)
    ultimately show ?thesis by (simp add: msgsIn_def)
  qed
  have gt: "\<forall>m \<in> set (mq_msgs q1). 0 < off ?b (endSequenceNo m)" using o by (metis zero_less_diff)
  obtain n1 v1 where v1: "extractBytesUpTo v ?n = Inr (n1, v1)" "msgDrain (Suc (length (mq_msgs q1))) q1 =
    Inr (map payloadMsg (filter (\<lambda>m. off ?b (endSequenceNo m) \<le> off ?b ?n) (mq_msgs q1)),
         \<lparr>mq_base = v1, mq_msgs = filter (\<lambda>m. off ?b ?n < off ?b (endSequenceNo m)) (mq_msgs q1)\<rparr>)"
    using drain_after_insert [OF v(2,4) sorted gt q1(2)] by blast
  have e: "v1 = v'" using v1(1) v'(1) by simp
  let ?q' = "\<lparr>mq_base = v1, mq_msgs = filter (\<lambda>m. off ?b ?n < off ?b (endSequenceNo m)) (mq_msgs q1)\<rparr>"
  have l: "mq_msgs q1 = filter (\<lambda>m. endSequenceNo m - 1 \<in> rcvBytes (regionList v)) ms" using q1(2,3) by (simp add: holdsMsgs_def)
  have c: "off ?b (endSequenceNo m) \<le> off ?b ?n \<longleftrightarrow> endSequenceNo m - 1 \<in> byteRange ?b ?n" if "m \<in> set ms" "endSequenceNo m - 1 \<in> rcvBytes (regionList v)" for m
    using o [of m] that pos [OF that(1)] R [of "endSequenceNo m - 1"] low [OF that(2)] on nx by (auto simp: l)
  have "holdsMsgs ms ?q'"
    using h(5) c unfolding holdsMsgs_def l e by (auto simp: not_le [symmetric] intro!: filter_cong)
  moreover have "filter (\<lambda>m. off ?b (endSequenceNo m) \<le> off ?b ?n) (mq_msgs q1) =
      filter (\<lambda>m. off b0 ?b < off b0 (endSequenceNo m) \<and> off b0 (endSequenceNo m) \<le> off b0 ?n) ms"
    unfolding l filter_filter
  proof (rule filter_cong [OF refl])
    fix m assume m: "m \<in> set ms"
    have "endSequenceNo m - 1 \<in> byteRange ?b ?n \<longleftrightarrow> off b0 ?b < off b0 (endSequenceNo m) \<and> off b0 (endSequenceNo m) \<le> off b0 ?n"
      using R [of "endSequenceNo m - 1"] pos [OF m] by auto
    then show "(endSequenceNo m - 1 \<in> rcvBytes (regionList v) \<and> off ?b (endSequenceNo m) \<le> off ?b ?n) =
        (off b0 ?b < off b0 (endSequenceNo m) \<and> off b0 (endSequenceNo m) \<le> off b0 ?n)"
      using c [OF m] h(4) by blast
  qed
  ultimately show ?thesis using d q1(1) v1(2) v'(2) e by (intro exI conjI) (auto simp: msgDeliver_def)
qed

fun msgDeliverAll :: "msg_queue \<Rightarrow> tcp_segment list \<Rightarrow> (nat list \<times> msg_queue) res" where
  "msgDeliverAll q [] = Inr ([], q)"
| "msgDeliverAll q (seg # segs) = bindR (msgDeliver q seg) (\<lambda>(xs, q1). bindR (msgDeliverAll q1 segs) (\<lambda>(ys, q2). Inr (xs @ ys, q2)))"

lemma filter_between:
  assumes "msgsIn b ms" "x \<le> y" "y \<le> z"
  shows "filter (\<lambda>m. x < off b (endSequenceNo m) \<and> off b (endSequenceNo m) \<le> y) ms @ filter (\<lambda>m. y < off b (endSequenceNo m) \<and> off b (endSequenceNo m) \<le> z) ms =
     filter (\<lambda>m. x < off b (endSequenceNo m) \<and> off b (endSequenceNo m) \<le> z) ms"
  using assms(1)
proof (induction ms)
  case (Cons m ms)
  have IH: "filter (\<lambda>m. x < off b (endSequenceNo m) \<and> off b (endSequenceNo m) \<le> y) ms @ filter (\<lambda>m. y < off b (endSequenceNo m) \<and> off b (endSequenceNo m) \<le> z) ms =
     filter (\<lambda>m. x < off b (endSequenceNo m) \<and> off b (endSequenceNo m) \<le> z) ms" using Cons by (simp add: msgsIn_Cons)
  have "filter (\<lambda>m. x < off b (endSequenceNo m) \<and> off b (endSequenceNo m) \<le> y) ms = []" if "y < off b (endSequenceNo m)"
    using Cons.prems that by (auto simp: filter_empty_conv msgsIn_Cons)
  then show ?case using IH assms(2,3) by (cases "y < off b (endSequenceNo m)") auto
qed simp

lemma msgDeliverAll_spec:
  assumes ms: "sentMsgs b ms"
    and "rcvq_ok (rcvq_nxt (mq_base q)) (mq_base q)" "rcvq.inHalf b (mq_base q)" "holdsMsgs ms q"
    "\<forall>seg \<in> set segs. segInWin b seg \<and> carriesMsgs ms seg" "rcvLegal (mq_base q) segs"
  shows "\<exists>n q'. rcvDeliverAll (mq_base q) segs = Inr (n, mq_base q') \<and> off b (rcvq_nxt (mq_base q)) \<le> off b (rcvq_nxt (mq_base q')) \<and>
     msgDeliverAll q segs = Inr (map payloadMsg (filter (\<lambda>m. off b (rcvq_nxt (mq_base q)) < off b (endSequenceNo m) \<and>
       off b (endSequenceNo m) \<le> off b (rcvq_nxt (mq_base q'))) ms), q')"
  using assms(2-)
proof (induction segs arbitrary: q)
  case Nil
  then show ?case by (auto simp: filter_empty_conv intro!: exI [of _ q])
next
  case (Cons seg segs)
  let ?R = "\<lambda>x y. filter (\<lambda>m. off b x < off b (endSequenceNo m) \<and> off b (endSequenceNo m) \<le> off b y) ms"
  have seg: "segInWin (rcvq_nxt (mq_base q)) seg" "segInWin b seg" "carriesMsgs ms seg" using Cons.prems(4,5) by auto
  obtain n q1 where q1: "rcvDeliver (mq_base q) seg = Inr (n, mq_base q1)" "holdsMsgs ms q1"
      "msgDeliver q seg = Inr (map payloadMsg (?R (rcvq_nxt (mq_base q)) (rcvq_nxt (mq_base q1))), q1)"
    using msgDeliver_spec [OF ms Cons.prems(1-3) seg] by blast
  note h = rcvq.deliver_inHalf [OF Cons.prems(1) seg(1,2) Cons.prems(2) q1(1) [folded rcvDeliver_eq]]
  have "rcvLegal (mq_base q1) segs" using Cons.prems(5) q1(1) by simp
  from Cons.IH [OF h(1,2) q1(2) _ this] Cons.prems(4) obtain k q2 where
    q2: "rcvDeliverAll (mq_base q1) segs = Inr (k, mq_base q2)" "off b (rcvq_nxt (mq_base q1)) \<le> off b (rcvq_nxt (mq_base q2))"
      "msgDeliverAll q1 segs = Inr (map payloadMsg (?R (rcvq_nxt (mq_base q1)) (rcvq_nxt (mq_base q2))), q2)" by auto
  have "?R (rcvq_nxt (mq_base q)) (rcvq_nxt (mq_base q1)) @ ?R (rcvq_nxt (mq_base q1)) (rcvq_nxt (mq_base q2)) = ?R (rcvq_nxt (mq_base q)) (rcvq_nxt (mq_base q2))"
    using ms h(3) q2(2) by (intro filter_between) (simp_all add: sentMsgs_def)
  then show ?case using q1 q2 h(3) by (intro exI [of _ "n + k"] exI [of _ q2]) (simp flip: map_append)
qed

definition msgCreated :: "msg_send_queue \<Rightarrow> u32 \<times> u64 \<Rightarrow> tcp_segment \<Rightarrow> bool" where
  "msgCreated s xn seg \<longleftrightarrow> (case xn of (x, n) \<Rightarrow>
     seqLE (ms_begin s) x \<and> seqLE x (ms_end s) \<and> 0 < n \<and> unat n \<le> off x (ms_end s) \<and> ms_createSegmentWithBytes s x n = Inr seg)"

lemma msgCreated_segment:
  assumes s: "msOk s" and c: "msgCreated s (x, n) seg"
  shows "segInWin (ms_begin s) seg \<and> carriesMsgs (payloadQueue s) seg"
proof -
  let ?b = "ms_begin s" and ?e = "ms_end s" and ?seg = "newSegment\<lparr>sequenceNo := x, payloadLength := n\<rparr>"
  have x: "seqLE ?b x" "seqLE x ?e" "0 < n" "unat n \<le> off x ?e" using c by (simp_all add: msgCreated_def)
  have seg: "seg = ?seg\<lparr>payloadList := filter (\<lambda>p. endSequenceNo p - 1 \<in> segBytes ?seg) (payloadQueue s)\<rparr>"
    using ms_create [OF s x(1,2,4)] c by (simp add: msgCreated_def newSegment_def)
  then have "segBytes seg = segBytes ?seg" by (simp add: segBytes_def)
  moreover have "off ?b ?e < 2 ^ 31" using s by (simp add: msOk_def)
  moreover from this have "inwin ?b x" "inwin ?b ?e" using x(1) by (simp_all add: inwin_seqLE seqLE_off)
  then have "off ?b x \<le> off ?b ?e" using x(2) seqLE_win by blast
  then have "off ?b ?e = off ?b x + off x ?e" by (rule off_trans)
  ultimately show ?thesis using seg x(3,4) by (simp add: segInWin_def carriesMsgs_def)
qed


definition sampleMsgs :: msg_send_queue where
  "sampleMsgs = \<lparr>ms_begin = 100, ms_end = 110, payloadQueue = [\<lparr>endSequenceNo = 103, payloadMsg = 1\<rparr>, \<lparr>endSequenceNo = 107, payloadMsg = 2\<rparr>, \<lparr>endSequenceNo = 110, payloadMsg = 3\<rparr>]\<rparr>"

definition sampleMsgSeg :: "u32 \<Rightarrow> u64 \<Rightarrow> payload_message list \<Rightarrow> tcp_segment" where
  "sampleMsgSeg x n ms = newSegment\<lparr>sequenceNo := x, payloadLength := n, payloadList := ms\<rparr>"


end
