(* ===== verification/Mac_Address.thy ===== *)
theory Mac_Address
  imports Ser_Buffer
begin

unbundle bit_operations_syntax

text \<open>
  MAC addresses, \<open>src/inet/linklayer/common/MACAddress.h\<close> and \<open>MACAddress.cc\<close>: a 64-bit integer and a flag that tells an EUI-64 from
  a 48-bit address, its bytes, the textual form, and how a packet buffer stores it (\<open>Buffer.cc\<close>). The class compares addresses by
  the integer alone.
\<close>

section \<open>Addresses and their bytes\<close>

record mac_address =
  address :: u64
  macAddress64 :: bool

abbreviation MAC_ADDRESS_SIZE :: nat where
  "MAC_ADDRESS_SIZE \<equiv> 6"

abbreviation MAC_ADDRESS_SIZE64 :: nat where
  "MAC_ADDRESS_SIZE64 \<equiv> 8"

abbreviation MAC_ADDRESS_MASK :: u64 where
  "MAC_ADDRESS_MASK \<equiv> 0xFFFFFFFFFFFF"

abbreviation MAC_ADDRESS_MASK64 :: u64 where
  "MAC_ADDRESS_MASK64 \<equiv> 0xFFFFFFFFFFFFFFFF"

definition newMAC :: mac_address where
  "newMAC = \<lparr>address = 0, macAddress64 = False\<rparr>"

text \<open>The constructor from an integer tests \<open>bits & !MAC_ADDRESS_MASK\<close>, with the logical negation of C++, which is 0 for a non-zero
  constant.\<close>

definition logicalNot :: "u64 \<Rightarrow> u64" where
  "logicalNot x = (if x = 0 then 1 else 0)"

definition macOfInt :: "u64 \<Rightarrow> mac_address" where
  "macOfInt bits = \<lparr>address = bits, macAddress64 = (bits AND logicalNot MAC_ADDRESS_MASK \<noteq> 0)\<rparr>"

definition getAddressSize :: "mac_address \<Rightarrow> nat" where
  "getAddressSize a = (if macAddress64 a then MAC_ADDRESS_SIZE64 else MAC_ADDRESS_SIZE)"

definition getAddressByte :: "nat \<Rightarrow> mac_address \<Rightarrow> u8 res" where
  "getAddressByte k a =
     (if k \<ge> getAddressSize a then Inl (RuntimeError ''Array indexed'')
      else Inr (ucast (0xFF AND drop_bit ((getAddressSize a - k - 1) * 8) (address a))))"

definition setAddressByte :: "nat \<Rightarrow> u8 \<Rightarrow> mac_address \<Rightarrow> mac_address res" where
  "setAddressByte k x a =
     (if k \<ge> getAddressSize a then Inl (RuntimeError ''Array indexed'')
      else let offset = (getAddressSize a - k - 1) * 8
           in Inr (a\<lparr>address := (address a AND NOT (push_bit offset 0xFF)) OR push_bit offset (ucast x)\<rparr>))"

fun bytesFrom :: "nat \<Rightarrow> nat \<Rightarrow> mac_address \<Rightarrow> u8 list res" where
  "bytesFrom i 0 a = Inr []"
| "bytesFrom i (Suc n) a = bindR (getAddressByte i a) (\<lambda>x. bindR (bytesFrom (i + 1) n a) (\<lambda>xs. Inr (x # xs)))"

definition getAddressBytes :: "mac_address \<Rightarrow> u8 list res" where
  "getAddressBytes a = bytesFrom 0 (getAddressSize a) a"

fun setBytesFrom :: "nat \<Rightarrow> u8 list \<Rightarrow> mac_address \<Rightarrow> mac_address res" where
  "setBytesFrom i [] a = Inr a"
| "setBytesFrom i (x # xs) a = bindR (setAddressByte i x a) (setBytesFrom (i + 1) xs)"

definition setAddressBytes :: "u8 list \<Rightarrow> mac_address \<Rightarrow> mac_address res" where
  "setAddressBytes addrbytes a =
     (if macAddress64 a then setBytesFrom 0 (take MAC_ADDRESS_SIZE64 addrbytes) a
      else setBytesFrom 0 (take MAC_ADDRESS_SIZE addrbytes) (a\<lparr>address := 0\<rparr>))"

definition setBroadcast :: "mac_address \<Rightarrow> mac_address" where
  "setBroadcast a = a\<lparr>address := (if macAddress64 a then MAC_ADDRESS_MASK64 else MAC_ADDRESS_MASK)\<rparr>"

definition isBroadcast :: "mac_address \<Rightarrow> bool" where
  "isBroadcast a = (if macAddress64 a then address a = MAC_ADDRESS_MASK64 else address a = MAC_ADDRESS_MASK)"

definition isMulticast :: "mac_address \<Rightarrow> bool res" where
  "isMulticast a = bindR (getAddressByte 0 a) (\<lambda>x. Inr (x AND 1 \<noteq> 0))"

definition isUnspecified :: "mac_address \<Rightarrow> bool" where
  "isUnspecified a \<longleftrightarrow> address a = 0"

definition mac_equals :: "mac_address \<Rightarrow> mac_address \<Rightarrow> bool" where
  "mac_equals a b \<longleftrightarrow> address a = address b"

definition compareTo :: "mac_address \<Rightarrow> mac_address \<Rightarrow> int" where
  "compareTo a b = (if address a < address b then - 1 else if address a = address b then 0 else 1)"

text \<open>The two 32-bit halves, low and high, of the interface token.\<close>

definition formInterfaceIdentifier :: "mac_address \<Rightarrow> u32 \<times> u32" where
  "formInterfaceIdentifier a =
     (if macAddress64 a then (ucast (address a AND 0xFFFFFFFF), ucast (drop_bit 32 (address a)))
      else (ucast (push_bit 24 0xFE OR (address a AND 0xFFFFFF)), ucast (drop_bit 16 (address a) OR 0xFF)))"

text \<open>\<open>generateAutoAddress\<close> increments the global counter (an \<open>unsigned int\<close>).\<close>

definition generateAutoAddress :: "u32 \<Rightarrow> mac_address \<times> u32" where
  "generateAutoAddress autoAddressCtr =
     (let ctr = autoAddressCtr + 1 in (macOfInt (0x0AAA00000000 + (ucast ctr AND 0xFFFFFFFF)), ctr))"

definition makeMulticastAddress :: "u32 \<Rightarrow> mac_address res" where
  "makeMulticastAddress addr =
     bindR (assertR (addr AND 0xF0000000 = 0xE0000000) ''makeMulticastAddress'') (\<lambda>_.
     setBytesFrom 0 [0x01, 0x00, 0x5E, ucast (drop_bit 16 addr) AND 0x7F, ucast (drop_bit 8 addr), ucast addr] newMAC)"

definition convert64 :: "mac_address \<Rightarrow> mac_address res" where
  "convert64 a =
     (if macAddress64 a then Inr a
      else bindR (getAddressBytes a) (\<lambda>bs.
           setAddressBytes [bs ! 0, bs ! 1, bs ! 2, 0xFE, 0xFF, bs ! 3, bs ! 4, bs ! 5] (a\<lparr>macAddress64 := True\<rparr>)))"

definition convert48 :: "mac_address \<Rightarrow> mac_address res" where
  "convert48 a =
     (if \<not> macAddress64 a then Inr a
      else bindR (getAddressBytes a) (\<lambda>bs.
           if bs ! 3 \<noteq> 0xFE \<or> bs ! 4 \<noteq> 0xFF then Inl (RuntimeError ''MACAddress: conversion EUI-64 to EUI-48 impossible'')
           else setAddressBytes [bs ! 0, bs ! 1, bs ! 2, bs ! 5, bs ! 6, bs ! 7] (a\<lparr>macAddress64 := False\<rparr>)))"

section \<open>Text\<close>

definition isdigit :: "char \<Rightarrow> bool" where
  "isdigit c \<longleftrightarrow> 48 \<le> (of_char c :: nat) \<and> (of_char c :: nat) \<le> 57"

definition islower :: "char \<Rightarrow> bool" where
  "islower c \<longleftrightarrow> 97 \<le> (of_char c :: nat) \<and> (of_char c :: nat) \<le> 122"

definition isxdigit :: "char \<Rightarrow> bool" where
  "isxdigit c \<longleftrightarrow> isdigit c \<or> (97 \<le> (of_char c :: nat) \<and> (of_char c :: nat) \<le> 102) \<or> (65 \<le> (of_char c :: nat) \<and> (of_char c :: nat) \<le> 70)"

definition hexValue :: "char \<Rightarrow> u8" where
  "hexValue c = (if isdigit c then of_char c - 48 else if islower c then of_char c - 97 + 10 else of_char c - 65 + 10)"

text \<open>One round of the conversion loop: the next byte and the rest of the string.\<close>

definition parseByte :: "string \<Rightarrow> u8 \<times> string" where
  "parseByte s =
     (let s1 = dropWhile (\<lambda>c. \<not> isxdigit c) s
      in case s1 of
           [] \<Rightarrow> (0, [])
         | c # rest \<Rightarrow>
             (let s2 = dropWhile (\<lambda>c. \<not> isxdigit c) rest
              in case s2 of [] \<Rightarrow> (0, []) | d # rest2 \<Rightarrow> (push_bit 4 (hexValue c) + hexValue d, rest2)))"

fun parseBytes :: "nat \<Rightarrow> nat \<Rightarrow> string \<Rightarrow> mac_address \<Rightarrow> mac_address res" where
  "parseBytes i 0 s a = Inr a"
| "parseBytes i (Suc n) s a = (case parseByte s of (d, s1) \<Rightarrow> bindR (setAddressByte i d a) (parseBytes (i + 1) n s1))"

definition tryParse :: "string \<Rightarrow> mac_address \<Rightarrow> (bool \<times> mac_address) res" where
  "tryParse hexstr a =
     (if \<not> list_all (\<lambda>c. isxdigit c \<or> c = CHR '' '' \<or> c = CHR '':'' \<or> c = CHR ''-'') hexstr then Inr (False, a)
      else
        let numHexDigits = length (filter isxdigit hexstr)
        in if numHexDigits = 2 * MAC_ADDRESS_SIZE
           then bindR (parseBytes 0 MAC_ADDRESS_SIZE hexstr (a\<lparr>macAddress64 := False, address := 0\<rparr>)) (\<lambda>b. Inr (True, b))
           else if numHexDigits = 2 * MAC_ADDRESS_SIZE64
           then bindR (parseBytes 0 MAC_ADDRESS_SIZE64 hexstr (a\<lparr>macAddress64 := True, address := 0\<rparr>)) (\<lambda>b. Inr (True, b))
           else Inr (False, a))"

definition setAddress :: "string \<Rightarrow> mac_address \<Rightarrow> mac_address res" where
  "setAddress hexstr a =
     bindR (tryParse hexstr a) (\<lambda>(ok, b). if ok then Inr b else Inl (RuntimeError ''MACAddress: wrong address syntax''))"

definition hexDigit :: "u8 \<Rightarrow> char" where
  "hexDigit x = ''0123456789ABCDEF'' ! unat x"

text \<open>\<open>sprintf(s, "%2.2X-", byte)\<close>\<close>

definition printByte :: "u8 \<Rightarrow> string" where
  "printByte x = [hexDigit (drop_bit 4 x), hexDigit (x AND 0xF), CHR ''-'']"

definition mac_str :: "mac_address \<Rightarrow> string res" where
  "mac_str a = bindR (getAddressBytes a) (\<lambda>bs. Inr (butlast (concat (map printByte bs))))"

section \<open>In a packet buffer\<close>

fun readMACBytes :: "nat \<Rightarrow> nat \<Rightarrow> mac_address \<Rightarrow> buffer \<Rightarrow> (mac_address \<times> buffer) res" where
  "readMACBytes i 0 a b = Inr (a, b)"
| "readMACBytes i (Suc n) a b =
     (case readByte b of (x, b1) \<Rightarrow> bindR (setAddressByte i x a) (\<lambda>a1. readMACBytes (i + 1) n a1 b1))"

definition readMACAddress :: "buffer \<Rightarrow> (mac_address \<times> buffer) res" where
  "readMACAddress b = readMACBytes 0 MAC_ADDRESS_SIZE newMAC b"

text \<open>The array that \<open>writeMACAddress\<close> lets the address fill has six bytes.\<close>

definition writeMACAddress :: "mac_address \<Rightarrow> buffer \<Rightarrow> buffer res" where
  "writeMACAddress addr b =
     bindR (getAddressBytes addr) (\<lambda>buff.
     if length buff > MAC_ADDRESS_SIZE then Inl (RuntimeError ''stack buffer overflow'') else Inr (writeNBytes buff b))"

section \<open>Bytes and addresses\<close>

text \<open>The comment on the class: the highest two bytes of a 48-bit address are always zero.\<close>

definition macOk :: "mac_address \<Rightarrow> bool" where
  "macOk a \<longleftrightarrow> macAddress64 a \<or> unat (address a) < 2 ^ 48"

definition byteAt :: "nat \<Rightarrow> mac_address \<Rightarrow> u8" where
  "byteAt k a = ucast (drop_bit ((getAddressSize a - k - 1) * 8) (address a))"

lemma getAddressSize_pos: "0 < getAddressSize a" "getAddressSize a \<le> 8"
  by (simp_all add: getAddressSize_def)

lemma getAddressByte_at: "k < getAddressSize a \<Longrightarrow> getAddressByte k a = Inr (byteAt k a)"
proof -
  assume k: "k < getAddressSize a"
  have "ucast (0xFF AND x) = (ucast x :: u8)" for x :: u64
  proof (rule bit_eqI)
    fix n
    have "bit (0xFF :: u64) n \<longleftrightarrow> n < 8" using bit_mask_iff [of 8 n, where 'a = "64 word"] by (auto simp: mask_eq_exp_minus_1)
    then show "bit (ucast (0xFF AND x) :: u8) n = bit (ucast x :: u8) n" by (auto simp: bit_simps)
  qed
  then show ?thesis using k by (simp add: getAddressByte_def byteAt_def)
qed

lemma bytesFrom_at: "i + n \<le> getAddressSize a \<Longrightarrow> bytesFrom i n a = Inr (map (\<lambda>k. byteAt k a) [i..<i + n])"
proof (induction n arbitrary: i)
  case (Suc n)
  then have "bytesFrom (i + 1) n a = Inr (map (\<lambda>k. byteAt k a) [i + 1..<i + 1 + n])" by simp
  moreover have "[i..<i + Suc n] = i # [i + 1..<i + 1 + n]" by (simp add: upt_conv_Cons del: upt_Suc)
  ultimately show ?case using Suc.prems getAddressByte_at [of i a] by (simp del: upt_Suc)
qed simp

lemma getAddressBytes_at: "getAddressBytes a = Inr (map (\<lambda>k. byteAt k a) [0..<getAddressSize a])"
  using bytesFrom_at [of 0 "getAddressSize a" a] by (simp add: getAddressBytes_def)

lemma byteAt_bit: "bit (byteAt k a) j \<longleftrightarrow> j < 8 \<and> bit (address a) ((getAddressSize a - k - 1) * 8 + j)"
  by (auto simp: byteAt_def bit_simps)

lemma in_byte: "m * 8 \<le> n \<and> n < m * 8 + 8 \<longleftrightarrow> n div 8 = (m :: nat)"
proof
  assume "m * 8 \<le> n \<and> n < m * 8 + 8"
  then show "n div 8 = m" by (intro div_nat_eqI) simp_all
next
  assume "n div 8 = m"
  then show "m * 8 \<le> n \<and> n < m * 8 + 8" using div_mult_mod_eq [of n 8] mod_less_divisor [of 8 n] by linarith
qed

lemma setAddressByte_bit:
  assumes "k < getAddressSize a"
  shows "\<exists>v. setAddressByte k x a = Inr (a\<lparr>address := v\<rparr>) \<and>
    (\<forall>n. bit v n \<longleftrightarrow> n < 64 \<and> (if n div 8 = getAddressSize a - k - 1 then bit x (n mod 8) else bit (address a) n))"
proof -
  let ?m = "getAddressSize a - k - 1"
  let ?v = "(address a AND NOT (push_bit (?m * 8) 0xFF)) OR push_bit (?m * 8) (ucast x)"
  have m: "?m < 8" using assms getAddressSize_pos(2) [of a] by linarith
  have "bit ?v n \<longleftrightarrow> n < 64 \<and> (if n div 8 = ?m then bit x (n mod 8) else bit (address a) n)" for n
  proof (cases "n < 64")
    case True
    have mask: "bit (push_bit (?m * 8) (0xFF :: u64)) n \<longleftrightarrow> n div 8 = ?m"
      using in_byte [of ?m n] True bit_mask_iff [of 8 "n - ?m * 8", where 'a = "64 word"]
      by (auto simp: bit_push_bit_iff mask_eq_exp_minus_1)
    have "bit (push_bit (?m * 8) (ucast x :: u64)) n \<longleftrightarrow> ?m * 8 \<le> n \<and> bit x (n - ?m * 8)" using True by (auto simp: bit_simps)
    moreover have "bit x (n - ?m * 8) \<Longrightarrow> n < ?m * 8 + 8" using bit_imp_le_length [of x "n - ?m * 8"] by simp
    moreover have "n div 8 = ?m \<Longrightarrow> n - ?m * 8 = n mod 8" using minus_mult_div_eq_mod [of n 8] by (simp add: mult.commute)
    ultimately have "bit (push_bit (?m * 8) (ucast x :: u64)) n \<longleftrightarrow> n div 8 = ?m \<and> bit x (n mod 8)" using in_byte [of ?m n] by auto
    then show ?thesis using mask True by (auto simp: bit_or_iff bit_and_iff bit_not_iff)
  next
    case False
    then show ?thesis using bit_imp_le_length [of ?v n] by auto
  qed
  then show ?thesis using assms by (intro exI [of _ ?v]) (simp add: setAddressByte_def Let_def)
qed

text \<open>The byte that holds bit \<open>n\<close> of an address of \<open>s\<close> bytes.\<close>

abbreviation byteOf :: "nat \<Rightarrow> nat \<Rightarrow> nat" where
  "byteOf s n \<equiv> s - 1 - n div 8"

lemma setBytesFrom_bit:
  "i + length xs \<le> getAddressSize a \<Longrightarrow> \<exists>v. setBytesFrom i xs a = Inr (a\<lparr>address := v\<rparr>) \<and>
    (\<forall>n. bit v n \<longleftrightarrow> n < 64 \<and> (if n div 8 < getAddressSize a \<and> i \<le> byteOf (getAddressSize a) n \<and> byteOf (getAddressSize a) n < i + length xs
       then bit (xs ! (byteOf (getAddressSize a) n - i)) (n mod 8) else bit (address a) n))"
proof (induction xs arbitrary: i a)
  case Nil
  have "bit (address a) n \<Longrightarrow> n < 64" for n using bit_imp_le_length [of "address a" n] by simp
  then show ?case by (intro exI [of _ "address a"]) auto
next
  case (Cons x xs)
  let ?s = "getAddressSize a"
  have k: "i < ?s" using Cons.prems by simp
  obtain u where u: "setAddressByte i x a = Inr (a\<lparr>address := u\<rparr>)"
     "\<And>n. bit u n \<longleftrightarrow> n < 64 \<and> (if n div 8 = ?s - i - 1 then bit x (n mod 8) else bit (address a) n)"
    using setAddressByte_bit [OF k, of x] by blast
  have s: "getAddressSize (a\<lparr>address := u\<rparr>) = ?s" by (simp add: getAddressSize_def)
  obtain v where v: "setBytesFrom (i + 1) xs (a\<lparr>address := u\<rparr>) = Inr (a\<lparr>address := v\<rparr>)"
     "\<And>n. bit v n \<longleftrightarrow> n < 64 \<and> (if n div 8 < ?s \<and> i + 1 \<le> byteOf ?s n \<and> byteOf ?s n < i + 1 + length xs
       then bit (xs ! (byteOf ?s n - (i + 1))) (n mod 8) else bit u n)"
    using Cons.IH [of "i + 1" "a\<lparr>address := u\<rparr>"] Cons.prems unfolding s by auto
  have "bit v n \<longleftrightarrow> n < 64 \<and> (if n div 8 < ?s \<and> i \<le> byteOf ?s n \<and> byteOf ?s n < i + length (x # xs)
       then bit ((x # xs) ! (byteOf ?s n - i)) (n mod 8) else bit (address a) n)" for n
  proof (cases "n div 8 = ?s - i - 1")
    case True
    then have "byteOf ?s n = i" "n div 8 < ?s" using k by simp_all
    then show ?thesis using True unfolding v(2) u(2) by simp
  next
    case False
    then have "n div 8 < ?s \<Longrightarrow> byteOf ?s n \<noteq> i" using k by linarith
    moreover have "i + 1 \<le> byteOf ?s n \<Longrightarrow> (x # xs) ! (byteOf ?s n - i) = xs ! (byteOf ?s n - (i + 1))" by (subst nth_Cons_pos) simp_all
    ultimately show ?thesis using False unfolding v(2) u(2) by auto
  qed
  then show ?case using u(1) v(1) by (intro exI [of _ v]) simp
qed

lemma setBytes_back:
  assumes ok: "macOk a" and z: "macAddress64 z = macAddress64 a" "\<not> macAddress64 a \<Longrightarrow> address z = 0"
  shows "setBytesFrom 0 (map (\<lambda>k. byteAt k a) [0..<getAddressSize a]) z = Inr a"
proof -
  let ?s = "getAddressSize a"
  have s: "getAddressSize z = ?s" using z(1) by (simp add: getAddressSize_def)
  obtain v where v: "setBytesFrom 0 (map (\<lambda>k. byteAt k a) [0..<?s]) z = Inr (z\<lparr>address := v\<rparr>)"
     "\<And>n. bit v n \<longleftrightarrow> n < 64 \<and> (if n div 8 < ?s \<and> byteOf ?s n < ?s
       then bit (map (\<lambda>k. byteAt k a) [0..<?s] ! byteOf ?s n) (n mod 8) else bit (address z) n)"
    using setBytesFrom_bit [of 0 "map (\<lambda>k. byteAt k a) [0..<?s]" z] unfolding s by auto
  have "bit v n = bit (address a) n" for n
  proof (cases "n div 8 < ?s")
    case True
    then have "bit v n \<longleftrightarrow> n < 64 \<and> bit (byteAt (byteOf ?s n) a) (n mod 8)" unfolding v(2) using getAddressSize_pos(1) [of a] by simp
    moreover have "(?s - byteOf ?s n - 1) * 8 + n mod 8 = n" using True by simp
    ultimately have "bit v n \<longleftrightarrow> n < 64 \<and> bit (address a) n" by (simp add: byteAt_bit)
    then show ?thesis using bit_imp_le_length [of "address a" n] by auto
  next
    case False
    show ?thesis
    proof (cases "macAddress64 a")
      case True
      then have "64 \<le> n" using False by (simp add: getAddressSize_def)
      then show ?thesis using v(2) bit_imp_le_length [of "address a" n] by auto
    next
      case n48: False
      then have "48 \<le> n" using False by (simp add: getAddressSize_def)
      have "unat (address a) < 2 ^ 48" using ok n48 by (simp add: macOk_def)
      then have "take_bit 48 (unat (address a)) = unat (address a)" by (simp add: take_bit_nat_eq_self)
      then have "\<not> bit (unat (address a)) n" using \<open>48 \<le> n\<close> by (metis bit_take_bit_iff linorder_not_less)
      then have "\<not> bit (address a) n" by (simp add: bit_unsigned_iff)
      then show ?thesis using False v(2) z(2) [OF n48] by simp
    qed
  qed
  then have "v = address a" by (intro bit_eqI) simp
  then show ?thesis using v(1) z(1) by simp
qed

lemma setAddressBytes_back:
  assumes "macOk a" "macAddress64 z = macAddress64 a" "getAddressBytes a = Inr bs"
  shows "setAddressBytes bs z = Inr a"
proof -
  have bs: "bs = map (\<lambda>k. byteAt k a) [0..<getAddressSize a]" using assms(3) getAddressBytes_at [of a] by simp
  show ?thesis
  proof (cases "macAddress64 a")
    case True
    then have "take 8 bs = bs" by (simp add: bs getAddressSize_def)
    then show ?thesis using True assms(2) setBytes_back [OF assms(1,2)] by (simp add: setAddressBytes_def bs)
  next
    case False
    then have "take 6 bs = bs" by (simp add: bs getAddressSize_def)
    then show ?thesis using False assms(2) setBytes_back [OF assms(1), of "z\<lparr>address := 0\<rparr>"] by (simp add: setAddressBytes_def bs)
  qed
qed

lemma setBytesFrom_bytes:
  assumes "length xs = getAddressSize a" "setBytesFrom 0 xs a = Inr b"
  shows "getAddressBytes b = Inr xs \<and> macAddress64 b = macAddress64 a \<and> (macAddress64 a \<or> (\<forall>n \<ge> 48. bit (address b) n = bit (address a) n))"
proof -
  let ?s = "getAddressSize a"
  obtain v where v: "setBytesFrom 0 xs a = Inr (a\<lparr>address := v\<rparr>)"
     "\<And>n. bit v n \<longleftrightarrow> n < 64 \<and> (if n div 8 < ?s \<and> byteOf ?s n < length xs then bit (xs ! byteOf ?s n) (n mod 8) else bit (address a) n)"
    using setBytesFrom_bit [of 0 xs a] assms(1) by auto
  have b: "b = a\<lparr>address := v\<rparr>" using v(1) assms(2) by simp
  have s: "getAddressSize b = ?s" by (simp add: b getAddressSize_def)
  have "byteAt k b = xs ! k" if k: "k < ?s" for k
  proof (rule bit_eqI)
    fix j :: nat
    assume "possible_bit TYPE(u8) j"
    then have j: "j < 8" by (simp add: possible_bit_word)
    let ?n = "(?s - k - 1) * 8 + j"
    have d: "?n div 8 = ?s - k - 1" "?n mod 8 = j" using j by simp_all
    then have "byteOf ?s ?n = k" "?n div 8 < ?s" "?n < 64" using k getAddressSize_pos(2) [of a] j by simp_all
    then have "bit v ?n = bit (xs ! k) j" unfolding v(2) using k assms(1) d by simp
    then show "bit (byteAt k b) j = bit (xs ! k) j" using j s unfolding byteAt_bit by (simp add: b)
  qed
  then have "getAddressBytes b = Inr xs" unfolding getAddressBytes_at s using assms(1) by (simp add: list_eq_iff_nth_eq)
  moreover have "bit v n = bit (address a) n" if "\<not> macAddress64 a" "48 \<le> n" for n
  proof -
    have "\<not> n div 8 < ?s" using that by (simp add: getAddressSize_def)
    then show ?thesis using v(2) bit_imp_le_length [of "address a" n] by auto
  qed
  ultimately show ?thesis by (auto simp: b)
qed

lemma convert_back:
  assumes "macOk a" "\<not> macAddress64 a"
  shows "\<exists>b. convert64 a = Inr b \<and> macAddress64 b \<and> convert48 b = Inr a"
proof -
  obtain bs where bs: "getAddressBytes a = Inr bs" using getAddressBytes_at by blast
  have l: "length bs = 6" using bs getAddressBytes_at [of a] assms(2) by (simp add: getAddressSize_def) fastforce
  let ?xs = "[bs ! 0, bs ! 1, bs ! 2, 0xFE, 0xFF, bs ! 3, bs ! 4, bs ! 5]"
  let ?z = "a\<lparr>macAddress64 := True\<rparr>"
  have s: "length ?xs = getAddressSize ?z" by (simp add: getAddressSize_def)
  then obtain b where b: "setBytesFrom 0 ?xs ?z = Inr b" using setBytesFrom_bit [of 0 ?xs ?z] by auto
  have g: "getAddressBytes b = Inr ?xs" "macAddress64 b" using setBytesFrom_bytes [OF s b] by simp_all
  have "convert64 a = Inr b" using assms(2) bs b by (simp add: convert64_def setAddressBytes_def)
  moreover have "[bs ! 0, bs ! 1, bs ! 2, bs ! 3, bs ! 4, bs ! 5] = bs" using l by (auto simp: eval_nat_numeral length_Suc_conv)
  then have "setAddressBytes [bs ! 0, bs ! 1, bs ! 2, bs ! 3, bs ! 4, bs ! 5] (b\<lparr>macAddress64 := False\<rparr>) = Inr a"
    using setAddressBytes_back [OF assms(1) _ bs, of "b\<lparr>macAddress64 := False\<rparr>"] assms(2) by simp
  then have "convert48 b = Inr a" using g by (simp add: convert48_def)
  ultimately show ?thesis using g(2) by blast
qed

section \<open>Printing and parsing\<close>

lemma hex_value:
  assumes "unat x < 16"
  shows "hexValue (hexDigit x) = x" "isxdigit (hexDigit x)"
proof -
  have "list_all (\<lambda>n. hexValue (''0123456789ABCDEF'' ! n) = of_nat n \<and> isxdigit (''0123456789ABCDEF'' ! n)) [0..<16]" by code_simp
  then have "\<forall>n < 16. hexValue (''0123456789ABCDEF'' ! n) = of_nat n \<and> isxdigit (''0123456789ABCDEF'' ! n)" unfolding list_all_iff by simp
  then show "hexValue (hexDigit x) = x" "isxdigit (hexDigit x)" using assms by (simp_all add: hexDigit_def)
qed

definition hexPair :: "u8 \<Rightarrow> string" where
  "hexPair x = [hexDigit (drop_bit 4 x), hexDigit (x AND 0xF)]"

lemma nibbles:
  fixes x :: u8
  shows "unat (drop_bit 4 x) < 16" "unat (x AND 0xF) < 16" "push_bit 4 (drop_bit 4 x) + (x AND 0xF) = x"
proof -
  have "unat x < 256" using unsigned_less [of x, where ?'a = nat] by simp
  then show "unat (drop_bit 4 x) < 16" by (simp add: drop_bit_eq_div unat_div)
  have m: "x AND 0xF = take_bit 4 x" by (simp add: take_bit_eq_mask mask_eq_exp_minus_1)
  then show "unat (x AND 0xF) < 16" by (simp add: take_bit_eq_mod unat_mod)
  show "push_bit 4 (drop_bit 4 x) + (x AND 0xF) = x" unfolding m by (simp add: bits_ident)
qed

lemma parseByte_pair:
  assumes "list_all (\<lambda>c. \<not> isxdigit c) sep"
  shows "parseByte (sep @ hexPair x @ rest) = (x, rest)"
proof -
  note n = nibbles [of x]
  have d: "dropWhile (\<lambda>c. \<not> isxdigit c) (sep @ hexPair x @ rest) = hexPair x @ rest"
    using assms hex_value(2) [OF n(1)] by (induction sep) (simp_all add: hexPair_def)
  show ?thesis unfolding parseByte_def d using hex_value [OF n(1)] hex_value [OF n(2)] n(3) by (simp add: hexPair_def)
qed

text \<open>The printed form: the pairs of digits with a dash between them.\<close>

fun dashed :: "u8 list \<Rightarrow> string" where
  "dashed [] = []"
| "dashed (x # xs) = CHR ''-'' # hexPair x @ dashed xs"

lemma print_dashed: "bs \<noteq> [] \<Longrightarrow> CHR ''-'' # butlast (concat (map printByte bs)) = dashed bs"
proof -
  have p: "CHR ''-'' # concat (map printByte bs) = dashed bs @ ''-''" for bs
    by (induction bs) (simp_all add: printByte_def hexPair_def)
  assume "bs \<noteq> []"
  then have "concat (map printByte bs) \<noteq> []" by (cases bs) (simp_all add: printByte_def)
  then have "CHR ''-'' # butlast (concat (map printByte bs)) = butlast (CHR ''-'' # concat (map printByte bs))" by simp
  then show ?thesis unfolding p by (simp add: butlast_append)
qed

lemma dash_no_digit: "\<not> isxdigit CHR ''-''"
  by code_simp

lemma parseBytes_dashed: "parseBytes i (length bs) (dashed bs) a = setBytesFrom i bs a"
proof (induction bs arbitrary: i a)
  case (Cons x xs)
  have "parseByte (dashed (x # xs)) = (x, dashed xs)" using parseByte_pair [of "''-''" x "dashed xs"] dash_no_digit by simp
  then show ?case using Cons.IH by (cases "setAddressByte i x a") simp_all
qed simp

lemma parseByte_dash: "parseByte (CHR ''-'' # s) = parseByte s"
  using dash_no_digit by (simp add: parseByte_def)

lemma parseBytes_dash: "0 < n \<Longrightarrow> parseBytes i n (CHR ''-'' # s) a = parseBytes i n s a"
  by (cases n) (simp_all add: parseByte_dash)

lemma dashed_syntax:
  "list_all (\<lambda>c. isxdigit c \<or> c = CHR '' '' \<or> c = CHR '':'' \<or> c = CHR ''-'') (dashed bs)" "length (filter isxdigit (dashed bs)) = 2 * length bs"
  by (induction bs) (use nibbles hex_value(2) dash_no_digit in \<open>simp_all add: hexPair_def\<close>)

text \<open>
  C28: MAC addresses survive their representations. An address with the top bytes of its class clear is given back by printing and
  parsing it, by taking its bytes and setting them, and, if it has 48 bits, by widening it to an EUI-64 and narrowing it again.
\<close>

theorem mac_roundtrips:
  assumes "macOk a"
  shows "(\<exists>s. mac_str a = Inr s \<and> tryParse s z = Inr (True, a)) \<and>
     (\<exists>bs. getAddressBytes a = Inr bs \<and> setAddressBytes bs (z\<lparr>macAddress64 := macAddress64 a\<rparr>) = Inr a) \<and>
     (\<not> macAddress64 a \<longrightarrow> (\<exists>b. convert64 a = Inr b \<and> macAddress64 b \<and> convert48 b = Inr a))"
proof -
  let ?bs = "map (\<lambda>k. byteAt k a) [0..<getAddressSize a]" and ?s = "getAddressSize a"
  let ?t = "butlast (concat (map printByte ?bs))" and ?z = "z\<lparr>macAddress64 := macAddress64 a, address := 0\<rparr>"
  have s: "mac_str a = Inr ?t" by (simp add: mac_str_def getAddressBytes_at)
  have ne: "?bs \<noteq> []" using getAddressSize_pos(1) [of a] by simp
  note d = print_dashed [OF ne, symmetric]
  have syn: "list_all (\<lambda>c. isxdigit c \<or> c = CHR '' '' \<or> c = CHR '':'' \<or> c = CHR ''-'') ?t" "length (filter isxdigit ?t) = 2 * ?s"
    using dashed_syntax [of ?bs] dash_no_digit unfolding d by simp_all
  have "parseBytes 0 ?s ?t ?z = parseBytes 0 (length ?bs) (dashed ?bs) ?z"
    unfolding d using parseBytes_dash [of ?s 0 ?t ?z] getAddressSize_pos(1) [of a] by simp
  also have "\<dots> = Inr a" unfolding parseBytes_dashed by (rule setBytes_back [OF assms]) simp_all
  finally have p: "parseBytes 0 ?s ?t ?z = Inr a" .
  have "tryParse ?t z = Inr (True, a)"
  proof (cases "macAddress64 a")
    case True
    then show ?thesis using syn p by (simp add: tryParse_def getAddressSize_def)
  next
    case False
    then show ?thesis using syn p by (simp add: tryParse_def getAddressSize_def)
  qed
  moreover have "setAddressBytes ?bs (z\<lparr>macAddress64 := macAddress64 a\<rparr>) = Inr a"
    by (rule setAddressBytes_back [OF assms _ getAddressBytes_at]) simp
  ultimately show ?thesis using s getAddressBytes_at [of a] convert_back [OF assms] by blast
qed

theorem mac_roundtrips_witness:
  "\<exists>s. mac_str \<lparr>address = 0x0AAA00000001, macAddress64 = False\<rparr> = Inr s \<and>
     tryParse s newMAC = Inr (True, \<lparr>address = 0x0AAA00000001, macAddress64 = False\<rparr>)"
proof -
  have "macOk \<lparr>address = 0x0AAA00000001, macAddress64 = False\<rparr>" by (simp add: macOk_def)
  from mac_roundtrips [OF this] show ?thesis by blast
qed

section \<open>The buffer form\<close>

lemma readMACBytes_ahead:
  "ahead b = xs @ rest \<Longrightarrow> readMACBytes i (length xs) a b = bindR (setBytesFrom i xs a) (\<lambda>a1. Inr (a1, skip (length xs) b))"
proof (induction xs arbitrary: i a b)
  case (Cons x xs)
  from Cons.prems have h: "ahead b = x # (xs @ rest)" by simp
  then have "ahead (skip 1 b) = xs @ rest" by simp
  from Cons.IH [OF this] readByte_ahead [OF h] show ?case by (cases "setAddressByte i x a") simp_all
qed simp

text \<open>An address of 48 bits is written as six bytes and read back; one of 64 bits overruns the array of six bytes.\<close>

lemma mac_in_buffer:
  assumes "macOk a"
  shows "\<not> macAddress64 a \<Longrightarrow> room 6 b \<Longrightarrow> \<exists>bs. length bs = 6 \<and> writeMACAddress a b = Inr (put bs b) \<and>
      (\<forall>c rest. ahead c = bs @ rest \<longrightarrow> readMACAddress c = Inr (a, skip 6 c))"
    "macAddress64 a \<Longrightarrow> writeMACAddress a b = Inl (RuntimeError ''stack buffer overflow'')"
proof -
  let ?bs = "map (\<lambda>k. byteAt k a) [0..<getAddressSize a]"
  show "macAddress64 a \<Longrightarrow> writeMACAddress a b = Inl (RuntimeError ''stack buffer overflow'')"
    by (simp add: writeMACAddress_def getAddressBytes_at getAddressSize_def)
  assume n: "\<not> macAddress64 a" and r: "room 6 b"
  have l: "length ?bs = 6" using n by (simp add: getAddressSize_def)
  have "writeMACAddress a b = Inr (put ?bs b)" using writeNBytes_put [of ?bs b] r l by (simp add: writeMACAddress_def getAddressBytes_at)
  moreover have "setBytesFrom 0 ?bs newMAC = Inr a" by (rule setBytes_back [OF assms]) (use n in \<open>simp_all add: newMAC_def\<close>)
  then have "readMACAddress c = Inr (a, skip 6 c)" if "ahead c = ?bs @ rest" for c rest
    using readMACBytes_ahead [OF that, of 0 newMAC] unfolding l by (simp add: readMACAddress_def)
  ultimately show "\<exists>bs. length bs = 6 \<and> writeMACAddress a b = Inr (put bs b) \<and> (\<forall>c rest. ahead c = bs @ rest \<longrightarrow> readMACAddress c = Inr (a, skip 6 c))"
    using l by blast
qed

end
