(* ===== verification/Eth_Table.thy ===== *)
theory Eth_Table
  imports Mac_Address
begin

text \<open>
  The address table of an Ethernet switch, \<open>src/inet/linklayer/ethernet/switch/MACAddressTable.cc\<close>: per VLAN, the port behind which
  each MAC address was last seen, with aging. The tables are objects that two pointers share, \<open>addressTable\<close> and the entry of
  VLAN 0 in \<open>vlanAddressTable\<close>, so the model has a store of tables and pointers into it.
\<close>

section \<open>The table\<close>

record address_entry =
  vid :: u32
  portno :: int
  insertionTime :: simtime

text \<open>A \<open>std::map\<close> whose keys are compared by the integer of the address.\<close>

type_synonym address_table = "u64 \<Rightarrow> address_entry option"

record mac_table =
  agingTime :: simtime
  lastPurge :: simtime
  addressTable :: "nat option"
  vlanAddressTable :: "(u32 \<times> nat) list"
  tables :: "nat \<Rightarrow> address_table"
  nextTable :: nat

text \<open>The constructor and \<open>initialize\<close> without a file.\<close>

definition newMACTable :: "simtime \<Rightarrow> mac_table" where
  "newMACTable parAgingTime =
     \<lparr>agingTime = parAgingTime, lastPurge = 0, addressTable = Some 0, vlanAddressTable = [(0, 0)], tables = (\<lambda>_ _. None), nextTable = 1\<rparr>"

definition getTableForVid :: "u32 \<Rightarrow> mac_table \<Rightarrow> nat option" where
  "getTableForVid v m = (if v = 0 then addressTable m else map_of (vlanAddressTable m) v)"

text \<open>\<open>entry.insertionTime + agingTime <= simTime()\<close>\<close>

definition aged :: "simtime \<Rightarrow> mac_table \<Rightarrow> address_entry \<Rightarrow> bool" where
  "aged t m e \<longleftrightarrow> insertionTime e + agingTime m \<le> t"

definition getPortForAddress :: "simtime \<Rightarrow> mac_address \<Rightarrow> u32 \<Rightarrow> mac_table \<Rightarrow> int \<times> mac_table" where
  "getPortForAddress t addr v m =
     (case getTableForVid v m of
        None \<Rightarrow> (- 1, m)
      | Some table \<Rightarrow>
          (case tables m table (address addr) of
             None \<Rightarrow> (- 1, m)
           | Some e \<Rightarrow>
               if aged t m e
               then (- 1, m\<lparr>tables := (tables m)(table := (tables m table)(address addr := None))\<rparr>)
               else (portno e, m)))"

text \<open>A loop over all tables of \<open>vlanAddressTable\<close> that changes or erases their entries.\<close>

definition changeTables :: "(address_entry \<Rightarrow> address_entry option) \<Rightarrow> mac_table \<Rightarrow> mac_table" where
  "changeTables f m =
     m\<lparr>tables := (\<lambda>p. if p \<in> set (map snd (vlanAddressTable m))
                     then (\<lambda>a. case tables m p a of None \<Rightarrow> None | Some e \<Rightarrow> f e) else tables m p)\<rparr>"

definition removeAgedEntriesFromAllVlans :: "simtime \<Rightarrow> mac_table \<Rightarrow> mac_table" where
  "removeAgedEntriesFromAllVlans t m = changeTables (\<lambda>e. if aged t m e then None else Some e) m"

definition removeAgedEntriesFromVlan :: "simtime \<Rightarrow> u32 \<Rightarrow> mac_table \<Rightarrow> mac_table" where
  "removeAgedEntriesFromVlan t v m =
     (case getTableForVid v m of
        None \<Rightarrow> m
      | Some table \<Rightarrow>
          m\<lparr>tables := (tables m)(table := (\<lambda>a. case tables m table a of None \<Rightarrow> None | Some e \<Rightarrow> if aged t m e then None else Some e))\<rparr>)"

definition removeAgedEntriesIfNeeded :: "simtime \<Rightarrow> mac_table \<Rightarrow> mac_table" where
  "removeAgedEntriesIfNeeded t m =
     (let m1 = (if t \<ge> lastPurge m + 1 then removeAgedEntriesFromAllVlans t m else m) in m1\<lparr>lastPurge := t\<rparr>)"

definition flush :: "int \<Rightarrow> mac_table \<Rightarrow> mac_table" where
  "flush port m = changeTables (\<lambda>e. if portno e = port then None else Some e) m"

definition copyTable :: "int \<Rightarrow> int \<Rightarrow> mac_table \<Rightarrow> mac_table" where
  "copyTable portA portB m = changeTables (\<lambda>e. Some (if portno e = portA then e\<lparr>portno := portB\<rparr> else e)) m"

text \<open>\<open>vlanAddressTable[v] = table\<close>\<close>

fun setVlan :: "u32 \<Rightarrow> nat \<Rightarrow> (u32 \<times> nat) list \<Rightarrow> (u32 \<times> nat) list" where
  "setVlan v p [] = [(v, p)]"
| "setVlan v p (x # xs) = (if fst x = v then (v, p) # xs else x # setVlan v p xs)"

text \<open>\<open>new AddressTable()\<close>\<close>

definition allocTable :: "mac_table \<Rightarrow> nat \<times> mac_table" where
  "allocTable m = (nextTable m, m\<lparr>tables := (tables m)(nextTable m := (\<lambda>_. None)), nextTable := nextTable m + 1\<rparr>)"

definition updateTableWithAddress :: "simtime \<Rightarrow> int \<Rightarrow> mac_address \<Rightarrow> u32 \<Rightarrow> mac_table \<Rightarrow> bool \<times> mac_table" where
  "updateTableWithAddress t port addr v m =
     (if isBroadcast addr then (False, m)
      else
        let (table, m1) =
              (case getTableForVid v m of
                 None \<Rightarrow>
                   (let (p, m1) = allocTable m; m2 = (if v = 0 then m1\<lparr>addressTable := Some p\<rparr> else m1)
                    in (p, m2\<lparr>vlanAddressTable := setVlan v p (vlanAddressTable m2)\<rparr>))
               | Some p \<Rightarrow> (p, m))
        in case tables m1 table (address addr) of
             None \<Rightarrow>
               (let m2 = removeAgedEntriesIfNeeded t m1
                in (False, m2\<lparr>tables := (tables m2)(table := (tables m2 table)(address addr \<mapsto> \<lparr>vid = v, portno = port, insertionTime = t\<rparr>))\<rparr>))
           | Some e \<Rightarrow>
               (True, m1\<lparr>tables := (tables m1)(table := (tables m1 table)(address addr \<mapsto> e\<lparr>insertionTime := t, portno := port\<rparr>))\<rparr>))"

definition clearTable :: "mac_table \<Rightarrow> mac_table" where
  "clearTable m = m\<lparr>vlanAddressTable := [], addressTable := None\<rparr>"

definition setAgingTime :: "simtime \<Rightarrow> mac_table \<Rightarrow> mac_table" where
  "setAgingTime a m = m\<lparr>agingTime := a\<rparr>"

definition resetDefaultAging :: "simtime \<Rightarrow> mac_table \<Rightarrow> mac_table" where
  "resetDefaultAging parAgingTime m = m\<lparr>agingTime := parAgingTime\<rparr>"

section \<open>Entries from a file\<close>

text \<open>The lines are those that \<open>fgetline\<close> returns. \<open>strtok\<close> splits at blanks and tabs; \<open>atoi\<close> reads an optional sign and digits.\<close>

definition isBlank :: "char \<Rightarrow> bool" where
  "isBlank c \<longleftrightarrow> c = CHR '' '' \<or> c = CHR 0x09"

function tokens :: "string \<Rightarrow> string list" where
  "tokens [] = []"
| "tokens (c # s) =
     (if isBlank c then tokens s
      else (c # takeWhile (\<lambda>x. \<not> isBlank x) s) # tokens (dropWhile (\<lambda>x. \<not> isBlank x) s))"
  by pat_completeness auto

termination
  by (relation "measure length") (simp_all add: le_imp_less_Suc length_dropWhile_le)

definition digitsValue :: "string \<Rightarrow> int" where
  "digitsValue s = foldl (\<lambda>n c. 10 * n + (of_char c - 48)) 0 (takeWhile isdigit s)"

definition atoi :: "string \<Rightarrow> int" where
  "atoi s = (case s of [] \<Rightarrow> 0 | c # r \<Rightarrow> if c = CHR ''-'' then - digitsValue r else if c = CHR ''+'' then digitsValue r else digitsValue s)"

definition addLine :: "string \<Rightarrow> mac_table \<Rightarrow> mac_table res" where
  "addLine line m =
     (if take 1 line = ''#'' then Inr m
      else
        case tokens line of
          [] \<Rightarrow> Inr m
        | vlanID # rest \<Rightarrow>
            (case rest of
               hexaddress # portTok # _ \<Rightarrow>
                 (let entry = \<lparr>vid = of_int (atoi vlanID), portno = atoi portTok, insertionTime = 0\<rparr>;
                      (table, m1) =
                        (case getTableForVid (vid entry) m of
                           None \<Rightarrow> (let (p, m1) = allocTable m in (p, m1\<lparr>vlanAddressTable := setVlan (vid entry) p (vlanAddressTable m1)\<rparr>))
                         | Some p \<Rightarrow> (p, m))
                  in bindR (setAddress hexaddress newMAC) (\<lambda>a.
                     Inr (m1\<lparr>tables := (tables m1)(table := (tables m1 table)(address a \<mapsto> entry))\<rparr>)))
             | _ \<Rightarrow> Inl (RuntimeError ''line invalid in address table file'')))"

fun readAddressTable :: "string list option \<Rightarrow> mac_table \<Rightarrow> mac_table res" where
  "readAddressTable None m = Inl (RuntimeError ''cannot open address table file'')"
| "readAddressTable (Some []) m = Inr m"
| "readAddressTable (Some (line # lines)) m = bindR (addLine line m) (readAddressTable (Some lines))"

section \<open>The store of tables\<close>

text \<open>Different VLANs have different tables, all of them allocated, and the pointer to the table of VLAN 0, when set, is the one in
  \<open>vlanAddressTable\<close>, so that the loops over \<open>vlanAddressTable\<close> reach it.\<close>

definition storeOk :: "mac_table \<Rightarrow> bool" where
  "storeOk m \<longleftrightarrow> distinct (map fst (vlanAddressTable m)) \<and> distinct (map snd (vlanAddressTable m)) \<and>
     (\<forall>p \<in> set (map snd (vlanAddressTable m)). p < nextTable m) \<and>
     (case addressTable m of None \<Rightarrow> True | Some p \<Rightarrow> map_of (vlanAddressTable m) 0 = Some p)"

definition entryOf :: "mac_table \<Rightarrow> u32 \<Rightarrow> u64 \<Rightarrow> address_entry option" where
  "entryOf m v a = (case getTableForVid v m of None \<Rightarrow> None | Some p \<Rightarrow> tables m p a)"

lemma vlan_pointer:
  assumes "storeOk m" "getTableForVid v m = Some p"
  shows "(v, p) \<in> set (vlanAddressTable m)" "p \<in> set (map snd (vlanAddressTable m))" "p < nextTable m"
proof -
  have "map_of (vlanAddressTable m) v = Some p" using assms by (auto simp: getTableForVid_def storeOk_def split: if_splits option.splits)
  then show "(v, p) \<in> set (vlanAddressTable m)" by (rule map_of_SomeD)
  then show "p \<in> set (map snd (vlanAddressTable m))" by force
  then show "p < nextTable m" using assms(1) by (simp only: storeOk_def)
qed

lemma vlan_unshared:
  assumes "storeOk m" "getTableForVid v m = Some p" "getTableForVid w m = Some p"
  shows "v = w"
proof -
  have "(v, p) \<in> set (vlanAddressTable m)" "(w, p) \<in> set (vlanAddressTable m)" using vlan_pointer(1) [OF assms(1)] assms(2,3) by blast+
  moreover have "inj_on snd (set (vlanAddressTable m))" using assms(1) by (simp add: storeOk_def distinct_map)
  ultimately show ?thesis by (metis fst_conv inj_onD snd_conv)
qed

lemma getTable_same:
  "addressTable m' = addressTable m \<Longrightarrow> vlanAddressTable m' = vlanAddressTable m \<Longrightarrow> getTableForVid v m' = getTableForVid v m"
  by (simp add: getTableForVid_def)

lemma storeOk_same:
  assumes "addressTable m' = addressTable m" "vlanAddressTable m' = vlanAddressTable m" "nextTable m' = nextTable m"
  shows "storeOk m' = storeOk m"
  unfolding storeOk_def assms by (rule refl)

text \<open>Writing one key of the table of one VLAN.\<close>

lemma entryOf_write:
  assumes "storeOk m" "getTableForVid v m = Some p" "tables m' = (tables m)(p := (tables m p)(x := y))"
    "addressTable m' = addressTable m" "vlanAddressTable m' = vlanAddressTable m"
  shows "entryOf m' w a = (if w = v \<and> a = x then y else entryOf m w a)"
proof -
  have g: "getTableForVid w m' = getTableForVid w m" by (rule getTable_same [OF assms(4,5)])
  show ?thesis
  proof (cases "getTableForVid w m")
    case (Some q)
    have "w = v" if "q = p" using vlan_unshared [OF assms(1) _ assms(2), of w] Some that by simp
    moreover have "q = p" if "w = v" using that Some assms(2) by simp
    ultimately show ?thesis using Some g assms(2,3) by (auto simp: entryOf_def)
  qed (use g assms(2) in \<open>auto simp: entryOf_def\<close>)
qed

lemma changeTables_entry:
  assumes "storeOk m"
  shows "entryOf (changeTables f m) v a = (case entryOf m v a of None \<Rightarrow> None | Some e \<Rightarrow> f e)"
proof -
  have g: "getTableForVid v (changeTables f m) = getTableForVid v m" by (rule getTable_same) (simp_all add: changeTables_def)
  show ?thesis
  proof (cases "getTableForVid v m")
    case (Some p)
    then show ?thesis using g vlan_pointer(2) [OF assms Some] by (simp add: entryOf_def changeTables_def)
  qed (use g in \<open>simp add: entryOf_def\<close>)
qed

lemma setVlan_set: "map_of xs v = None \<Longrightarrow> setVlan v p xs = xs @ [(v, p)]"
  by (induction xs) (auto split: if_splits)

lemma setVlan_map: "map_of (setVlan v p xs) w = (if w = v then Some p else map_of xs w)"
  by (induction xs) auto

lemma setVlan_keys: "distinct (map fst xs) \<Longrightarrow> distinct (map fst (setVlan v p xs)) \<and> set (map fst (setVlan v p xs)) = insert v (set (map fst xs))"
  by (induction xs) auto

lemma setVlan_pointers: "set (map snd (setVlan v p xs)) \<subseteq> insert p (set (map snd xs))"
  by (induction xs) auto

lemma setVlan_distinct: "distinct (map snd xs) \<Longrightarrow> p \<notin> set (map snd xs) \<Longrightarrow> distinct (map snd (setVlan v p xs))"
proof (induction xs)
  case (Cons x xs)
  then show ?case using setVlan_pointers [of v p xs] by auto
qed simp

text \<open>The table for a VLAN is found or created empty.\<close>

definition tableFor :: "u32 \<Rightarrow> mac_table \<Rightarrow> nat \<times> mac_table" where
  "tableFor v m =
     (case getTableForVid v m of
        None \<Rightarrow>
          (let (p, m1) = allocTable m; m2 = (if v = 0 then m1\<lparr>addressTable := Some p\<rparr> else m1)
           in (p, m2\<lparr>vlanAddressTable := setVlan v p (vlanAddressTable m2)\<rparr>))
      | Some p \<Rightarrow> (p, m))"

lemma tableFor_ok:
  assumes ok: "storeOk m" and t: "tableFor v m = (p, m1)"
  shows "storeOk m1 \<and> getTableForVid v m1 = Some p \<and> (\<forall>w a. entryOf m1 w a = entryOf m w a) \<and> agingTime m1 = agingTime m \<and> lastPurge m1 = lastPurge m"
proof (cases "getTableForVid v m")
  case None
  let ?p = "nextTable m" and ?xs = "vlanAddressTable m"
  have m1: "p = ?p" "vlanAddressTable m1 = setVlan v ?p ?xs" "addressTable m1 = (if v = 0 then Some ?p else addressTable m)" "nextTable m1 = ?p + 1"
      "tables m1 = (tables m)(?p := (\<lambda>_. None))" "agingTime m1 = agingTime m" "lastPurge m1 = lastPurge m"
    using t None by (auto simp: tableFor_def allocTable_def Let_def split: if_splits)
  have d: "distinct (map fst ?xs)" "distinct (map snd ?xs)" "\<forall>q \<in> set (map snd ?xs). q < ?p"
      "case addressTable m of None \<Rightarrow> True | Some q \<Rightarrow> map_of ?xs 0 = Some q" using ok unfolding storeOk_def by blast+
  have fresh: "?p \<notin> set (map snd ?xs)" using d(3) by blast
  have "\<forall>q \<in> set (map snd (vlanAddressTable m1)). q < nextTable m1"
    unfolding m1 by (rule ballI, drule subsetD [OF setVlan_pointers]) (use d(3) in \<open>auto simp: less_Suc_eq\<close>)
  then have "storeOk m1" using setVlan_keys [OF d(1), of v ?p] setVlan_distinct [OF d(2) fresh, of v] d(4) unfolding storeOk_def m1
    by (auto simp: setVlan_map split: option.splits)
  moreover have g: "getTableForVid w m1 = (if w = v then Some ?p else getTableForVid w m)" for w
    by (auto simp: getTableForVid_def m1 setVlan_map)
  moreover have "entryOf m1 w a = entryOf m w a" for w a
  proof (cases "getTableForVid w m")
    case (Some q)
    then have "q \<noteq> ?p" "w \<noteq> v" using vlan_pointer(3) [OF ok Some] None by auto
    then show ?thesis using Some g [of w] by (simp add: entryOf_def m1)
  qed (use None g [of w] in \<open>auto simp: entryOf_def m1\<close>)
  ultimately show ?thesis using m1 by simp
next
  case (Some q)
  then show ?thesis using t ok by (simp add: tableFor_def)
qed

section \<open>Lookup and learning\<close>

definition livePort :: "simtime \<Rightarrow> u64 \<Rightarrow> u32 \<Rightarrow> mac_table \<Rightarrow> int" where
  "livePort t a v m = (case entryOf m v a of None \<Rightarrow> - 1 | Some e \<Rightarrow> if aged t m e then - 1 else portno e)"

lemma lookup_port: "fst (getPortForAddress t addr v m) = livePort t (address addr) v m"
  by (simp add: getPortForAddress_def livePort_def entryOf_def split: option.split)

lemma lookup_entries:
  assumes "storeOk m"
  shows "storeOk (snd (getPortForAddress t addr v m)) \<and> agingTime (snd (getPortForAddress t addr v m)) = agingTime m \<and>
     entryOf (snd (getPortForAddress t addr v m)) w a =
       (if w = v \<and> a = address addr \<and> (\<exists>e. entryOf m v a = Some e \<and> aged t m e) then None else entryOf m w a)"
proof (cases "\<exists>p e. getTableForVid v m = Some p \<and> tables m p (address addr) = Some e \<and> aged t m e")
  case True
  then obtain p e where p: "getTableForVid v m = Some p" "tables m p (address addr) = Some e" "aged t m e" by blast
  let ?m = "m\<lparr>tables := (tables m)(p := (tables m p)(address addr := None))\<rparr>"
  have "getPortForAddress t addr v m = (- 1, ?m)" using p by (simp add: getPortForAddress_def)
  moreover have "entryOf ?m w a = (if w = v \<and> a = address addr then None else entryOf m w a)"
    by (rule entryOf_write [OF assms p(1)]) simp_all
  moreover have "entryOf m v (address addr) = Some e" using p by (simp add: entryOf_def)
  ultimately show ?thesis using assms p(3) by (auto simp: storeOk_same [of ?m m])
next
  case False
  then have "snd (getPortForAddress t addr v m) = m" by (auto simp: getPortForAddress_def split: option.split)
  moreover have "\<not> (\<exists>e. entryOf m v (address addr) = Some e \<and> aged t m e)" using False by (auto simp: entryOf_def split: option.splits)
  ultimately show ?thesis using assms by auto
qed

lemma purge_entries:
  assumes "storeOk m"
  shows "storeOk (removeAgedEntriesIfNeeded t m) \<and> agingTime (removeAgedEntriesIfNeeded t m) = agingTime m \<and>
     (entryOf (removeAgedEntriesIfNeeded t m) w a = entryOf m w a \<or>
      entryOf (removeAgedEntriesIfNeeded t m) w a = None \<and> (\<exists>e. entryOf m w a = Some e \<and> aged t m e)) \<and>
     addressTable (removeAgedEntriesIfNeeded t m) = addressTable m \<and> vlanAddressTable (removeAgedEntriesIfNeeded t m) = vlanAddressTable m"
proof -
  let ?m1 = "if t \<ge> lastPurge m + 1 then removeAgedEntriesFromAllVlans t m else m"
  have f: "addressTable ?m1 = addressTable m" "vlanAddressTable ?m1 = vlanAddressTable m" "nextTable ?m1 = nextTable m" "agingTime ?m1 = agingTime m"
    by (simp_all add: removeAgedEntriesFromAllVlans_def changeTables_def)
  have "entryOf ?m1 w a = entryOf m w a \<or> entryOf ?m1 w a = None \<and> (\<exists>e. entryOf m w a = Some e \<and> aged t m e)"
    using changeTables_entry [OF assms, of "\<lambda>e. if aged t m e then None else Some e" w a]
    by (auto simp: removeAgedEntriesFromAllVlans_def split: option.splits if_splits)
  moreover have "entryOf (x\<lparr>lastPurge := t\<rparr>) w a = entryOf x w a" for x by (simp add: entryOf_def getTableForVid_def split: option.split)
  moreover have "storeOk (?m1\<lparr>lastPurge := t\<rparr>) = storeOk m" by (rule storeOk_same) (use f in simp_all)
  ultimately show ?thesis using assms f by (simp add: removeAgedEntriesIfNeeded_def Let_def)
qed

lemma learn_entries:
  assumes ok: "storeOk m" and b: "\<not> isBroadcast addr"
  shows "storeOk (snd (updateTableWithAddress t port addr v m)) \<and> agingTime (snd (updateTableWithAddress t port addr v m)) = agingTime m \<and>
     (\<exists>e. entryOf (snd (updateTableWithAddress t port addr v m)) v (address addr) = Some e \<and> portno e = port \<and> insertionTime e = t) \<and>
     (\<forall>w a. (w, a) \<noteq> (v, address addr) \<longrightarrow>
       entryOf (snd (updateTableWithAddress t port addr v m)) w a = entryOf m w a \<or>
       entryOf (snd (updateTableWithAddress t port addr v m)) w a = None \<and> (\<exists>e. entryOf m w a = Some e \<and> aged t m e))"
proof -
  obtain p m1 where t: "tableFor v m = (p, m1)" by (rule prod.exhaust)
  note t1 = tableFor_ok [OF ok t]
  have ok1: "storeOk m1" "getTableForVid v m1 = Some p" using t1 by simp_all
  have same: "entryOf m1 w a = entryOf m w a" "aged x m1 e = aged x m e" for w a x e using t1 by (simp_all add: aged_def)
  show ?thesis
  proof (cases "tables m1 p (address addr)")
    case None
    let ?m2 = "removeAgedEntriesIfNeeded t m1"
    let ?n = "\<lparr>vid = v, portno = port, insertionTime = t\<rparr>"
    let ?m3 = "?m2\<lparr>tables := (tables ?m2)(p := (tables ?m2 p)(address addr \<mapsto> ?n))\<rparr>"
    have u: "updateTableWithAddress t port addr v m = (False, ?m3)"
      using b t None by (simp add: updateTableWithAddress_def tableFor_def Let_def split: option.splits)
    note m2 = purge_entries [OF ok1(1), of t]
    have "getTableForVid v ?m2 = getTableForVid v m1" by (rule getTable_same) (use m2 in blast)+
    then have g: "getTableForVid v ?m2 = Some p" using ok1(2) by simp
    have s2: "storeOk ?m2" "agingTime ?m2 = agingTime m" using m2 t1 by simp_all
    have e: "entryOf ?m3 w a = (if w = v \<and> a = address addr then Some ?n else entryOf ?m2 w a)" for w a
      by (rule entryOf_write [OF s2(1) g]) simp_all
    have "storeOk ?m3 = storeOk ?m2" by (rule storeOk_same) simp_all
    moreover have "entryOf ?m2 w a = entryOf m w a \<or> entryOf ?m2 w a = None \<and> (\<exists>e. entryOf m w a = Some e \<and> aged t m e)" for w a
      using m2 unfolding same by blast
    ultimately show ?thesis unfolding u using e s2 by auto
  next
    case (Some e0)
    let ?n = "e0\<lparr>insertionTime := t, portno := port\<rparr>"
    let ?m3 = "m1\<lparr>tables := (tables m1)(p := (tables m1 p)(address addr \<mapsto> ?n))\<rparr>"
    have u: "updateTableWithAddress t port addr v m = (True, ?m3)"
      using b t Some by (simp add: updateTableWithAddress_def tableFor_def Let_def split: option.splits)
    have e: "entryOf ?m3 w a = (if w = v \<and> a = address addr then Some ?n else entryOf m w a)" for w a
      unfolding same(1) [symmetric] by (rule entryOf_write [OF ok1]) simp_all
    have "storeOk ?m3 = storeOk m1" by (rule storeOk_same) simp_all
    then show ?thesis unfolding u using e ok1 t1 by auto
  qed
qed

section \<open>What a switch remembers\<close>

text \<open>
  The contract of a learning table: after an address has been learned, looking it up within the lifetime gives its port, and
  neither learning other addresses nor looking anything up changes that. From it, an address learned is remembered through any
  sequence of such operations.
\<close>

locale learning_table =
  fixes inv :: "'s \<Rightarrow> bool" and ttl :: "'s \<Rightarrow> simtime" and key :: "'k \<Rightarrow> 'i" and ok :: "'k \<Rightarrow> bool"
    and learn :: "simtime \<Rightarrow> int \<Rightarrow> 'k \<Rightarrow> 's \<Rightarrow> 's" and look :: "simtime \<Rightarrow> 'k \<Rightarrow> 's \<Rightarrow> int \<times> 's"
  assumes learn_inv: "inv s \<Longrightarrow> inv (learn t p a s) \<and> ttl (learn t p a s) = ttl s"
    and look_inv: "inv s \<Longrightarrow> inv (snd (look t a s)) \<and> ttl (snd (look t a s)) = ttl s"
    and learn_same: "inv s \<Longrightarrow> ok a \<Longrightarrow> key a = key b \<Longrightarrow> t \<le> t' \<Longrightarrow> t' < t + ttl s \<Longrightarrow> fst (look t' b (learn t p a s)) = p"
    and learn_other: "inv s \<Longrightarrow> key a \<noteq> key b \<Longrightarrow> t \<le> t' \<Longrightarrow> fst (look t' b (learn t p a s)) = fst (look t' b s)"
    and look_other: "inv s \<Longrightarrow> t \<le> t' \<Longrightarrow> fst (look t' b (snd (look t a s))) = fst (look t' b s)"
begin

lemma step_inv:
  "inv s \<Longrightarrow> inv (case d of None \<Rightarrow> learn t p a s | Some x \<Rightarrow> snd (look t x (learn t p a s))) \<and>
     ttl (case d of None \<Rightarrow> learn t p a s | Some x \<Rightarrow> snd (look t x (learn t p a s))) = ttl s"
  using learn_inv look_inv by (cases d) simp_all

lemma step_other:
  "inv s \<Longrightarrow> key a \<noteq> key b \<Longrightarrow> t \<le> t' \<Longrightarrow>
     fst (look t' b (case d of None \<Rightarrow> learn t p a s | Some x \<Rightarrow> snd (look t x (learn t p a s)))) = fst (look t' b s)"
  using learn_inv look_other learn_other by (cases d) simp_all

lemma remembers:
  assumes "inv s" "list_all (\<lambda>(t, p, a, d). t \<le> t' \<and> key a \<noteq> key b) es"
    and step: "\<And>t p a d s. step (t, p, a, d) s = (case d of None \<Rightarrow> learn t p a s | Some x \<Rightarrow> snd (look t x (learn t p a s)))"
  shows "inv (fold step es s) \<and> ttl (fold step es s) = ttl s \<and> fst (look t' b (fold step es s)) = fst (look t' b s)"
  using assms(1,2)
proof (induction es arbitrary: s)
  case (Cons e es)
  obtain t p a d where e: "e = (t, p, a, d)" by (cases e)
  let ?s = "step (t, p, a, d) s"
  have i: "inv ?s" "ttl ?s = ttl s" unfolding step using step_inv [OF Cons.prems(1)] by simp_all
  have "fst (look t' b ?s) = fst (look t' b s)" unfolding step using step_other [OF Cons.prems(1)] Cons.prems(2) by (simp add: e)
  then show ?case using Cons.IH [OF i(1)] Cons.prems(2) i(2) by (simp add: e)
qed simp

end

lemma live_forget:
  assumes "agingTime m' = agingTime m" "t \<le> t'" "entryOf m' v a = entryOf m v a \<or> entryOf m' v a = None \<and> (\<exists>e. entryOf m v a = Some e \<and> aged t m e)"
  shows "livePort t' a v m' = livePort t' a v m"
  using assms by (auto simp: livePort_def aged_def split: option.splits)

interpretation vlan: learning_table storeOk agingTime address "\<lambda>a. \<not> isBroadcast a" "\<lambda>t p a. snd \<circ> updateTableWithAddress t p a v" "\<lambda>t a. getPortForAddress t a v" for v
proof
  fix m :: mac_table and t t' :: simtime and p :: int and a b :: mac_address
  assume i: "storeOk m"
  have bc: "snd (updateTableWithAddress t p a v m) = m" if "isBroadcast a" using that by (simp add: updateTableWithAddress_def)
  show "storeOk ((snd \<circ> updateTableWithAddress t p a v) m) \<and> agingTime ((snd \<circ> updateTableWithAddress t p a v) m) = agingTime m"
    using learn_entries [OF i, of a t p v] bc i by (cases "isBroadcast a") simp_all
  show "storeOk (snd (getPortForAddress t a v m)) \<and> agingTime (snd (getPortForAddress t a v m)) = agingTime m"
    using lookup_entries [OF i] by simp
  show "fst (getPortForAddress t' b v ((snd \<circ> updateTableWithAddress t p a v) m)) = p"
    if "\<not> isBroadcast a" "address a = address b" "t \<le> t'" "t' < t + agingTime m"
    using learn_entries [OF i that(1), of t p v] that by (auto simp: lookup_port livePort_def aged_def)
  show "fst (getPortForAddress t' b v ((snd \<circ> updateTableWithAddress t p a v) m)) = fst (getPortForAddress t' b v m)"
    if "address a \<noteq> address b" "t \<le> t'"
  proof (cases "isBroadcast a")
    case False
    note l = learn_entries [OF i False, of t p v]
    have "livePort t' (address b) v (snd (updateTableWithAddress t p a v m)) = livePort t' (address b) v m"
      by (rule live_forget [OF _ that(2)]) (use l that(1) in auto)
    then show ?thesis by (simp add: lookup_port)
  qed (use bc in simp)
  show "fst (getPortForAddress t' b v (snd (getPortForAddress t a v m))) = fst (getPortForAddress t' b v m)" if "t \<le> t'"
  proof -
    note l = lookup_entries [OF i, of t a v]
    have "livePort t' (address b) v (snd (getPortForAddress t a v m)) = livePort t' (address b) v m"
      by (rule live_forget [OF _ that]) (use l in auto)
    then show ?thesis by (simp add: lookup_port)
  qed
qed

section \<open>Histories of the table\<close>

datatype table_event =
    Learn simtime int mac_address u32
  | Lookup simtime mac_address u32
  | PurgeAll simtime
  | PurgeVlan simtime u32
  | Flush int
  | CopyTable int int
  | Clear
  | SetAging simtime
  | ReadLines "string list"

fun tableEvent :: "table_event \<Rightarrow> mac_table \<Rightarrow> mac_table res" where
  "tableEvent (Learn t p a v) m = Inr (snd (updateTableWithAddress t p a v m))"
| "tableEvent (Lookup t a v) m = Inr (snd (getPortForAddress t a v m))"
| "tableEvent (PurgeAll t) m = Inr (removeAgedEntriesFromAllVlans t m)"
| "tableEvent (PurgeVlan t v) m = Inr (removeAgedEntriesFromVlan t v m)"
| "tableEvent (Flush p) m = Inr (flush p m)"
| "tableEvent (CopyTable p q) m = Inr (copyTable p q m)"
| "tableEvent Clear m = Inr (clearTable m)"
| "tableEvent (SetAging a) m = Inr (setAgingTime a m)"
| "tableEvent (ReadLines ls) m = readAddressTable (Some ls) m"

fun tableEvents :: "table_event list \<Rightarrow> mac_table \<Rightarrow> mac_table res" where
  "tableEvents [] m = Inr m"
| "tableEvents (e # es) m = bindR (tableEvent e m) (tableEvents es)"

lemma storeOk_new: "storeOk (newMACTable a)"
  by (simp add: storeOk_def newMACTable_def)

lemma storeOk_simple:
  assumes "storeOk m"
  shows "storeOk (m\<lparr>tables := ts\<rparr>)" "storeOk (changeTables f m)" "storeOk (removeAgedEntriesFromVlan t v m)" "storeOk (clearTable m)" "storeOk (setAgingTime a m)"
proof -
  have ts: "storeOk (m\<lparr>tables := ts\<rparr>)" for ts using assms storeOk_same [of "m\<lparr>tables := ts\<rparr>" m] by simp
  then show "storeOk (m\<lparr>tables := ts\<rparr>)" "storeOk (changeTables f m)" by (simp_all only: changeTables_def)
  show "storeOk (removeAgedEntriesFromVlan t v m)" using assms ts by (cases "getTableForVid v m") (simp_all add: removeAgedEntriesFromVlan_def)
  show "storeOk (clearTable m)" by (simp add: storeOk_def clearTable_def)
  show "storeOk (setAgingTime a m)" using assms storeOk_same [of "m\<lparr>agingTime := a\<rparr>" m] by (simp add: setAgingTime_def)
qed

lemma storeOk_addVlan:
  assumes "storeOk m" "getTableForVid v m = None" "allocTable m = (p, m1)"
  shows "storeOk (m1\<lparr>vlanAddressTable := setVlan v p (vlanAddressTable m1)\<rparr>)"
proof -
  let ?p = "nextTable m" and ?xs = "vlanAddressTable m"
  have d: "distinct (map fst ?xs)" "distinct (map snd ?xs)" "\<forall>q \<in> set (map snd ?xs). q < ?p"
      "case addressTable m of None \<Rightarrow> True | Some q \<Rightarrow> map_of ?xs 0 = Some q" using assms(1) unfolding storeOk_def by blast+
  have m1: "p = ?p" "vlanAddressTable m1 = ?xs" "addressTable m1 = addressTable m" "nextTable m1 = ?p + 1" using assms(3) by (auto simp: allocTable_def)
  have fresh: "?p \<notin> set (map snd ?xs)" using d(3) by blast
  have "\<forall>q \<in> set (map snd (setVlan v ?p ?xs)). q < ?p + 1"
    by (rule ballI, drule subsetD [OF setVlan_pointers]) (use d(3) in \<open>auto simp: less_Suc_eq\<close>)
  moreover have "v = 0 \<Longrightarrow> addressTable m = None" using assms(2) by (simp add: getTableForVid_def)
  ultimately show ?thesis using setVlan_keys [OF d(1), of v ?p] setVlan_distinct [OF d(2) fresh, of v] d(4) m1 unfolding storeOk_def
    by (auto simp: setVlan_map split: option.splits)
qed

lemma storeOk_addLine: "storeOk m \<Longrightarrow> addLine line m = Inr m' \<Longrightarrow> storeOk m'"
  by (auto simp: addLine_def Let_def split: if_splits list.splits option.splits prod.splits intro!: storeOk_simple(1) intro: storeOk_addVlan)

lemma storeOk_readLines: "storeOk m \<Longrightarrow> readAddressTable (Some ls) m = Inr m' \<Longrightarrow> storeOk m'"
  by (induction ls arbitrary: m) (auto simp: bindR_eq_Inr dest: storeOk_addLine)

lemma storeOk_event:
  assumes "storeOk m" "tableEvent e m = Inr m'"
  shows "storeOk m'"
proof (cases e)
  case (Learn t p a v)
  then show ?thesis using assms vlan.learn_inv [of m t p a v] by simp
next
  case (Lookup t a v)
  then show ?thesis using assms vlan.look_inv [of m t a v] by simp
next
  case (ReadLines ls)
  then show ?thesis using assms storeOk_readLines [of m ls m'] by simp
qed (use assms storeOk_simple in \<open>auto simp: removeAgedEntriesFromAllVlans_def flush_def copyTable_def\<close>)

lemma storeOk_events: "storeOk m \<Longrightarrow> tableEvents es m = Inr m' \<Longrightarrow> storeOk m'"
  by (induction es arbitrary: m) (auto simp: bindR_eq_Inr dest: storeOk_event)

text \<open>
  C19: the address table stays consistent. After any sequence of learning, lookups, purges, flushes, copies, clearing and reading
  entries from a file, different VLANs have different tables and the pointer to the table of VLAN 0 agrees with \<open>vlanAddressTable\<close>; so a
  flush forgets exactly the addresses behind the port, in every VLAN, and copying moves exactly those of one port to the other.
\<close>

theorem table_flush_complete:
  assumes "tableEvents es (newMACTable a) = Inr m"
  shows "storeOk m \<and>
     (\<forall>v x. entryOf (flush p m) v x = (case entryOf m v x of None \<Rightarrow> None | Some e \<Rightarrow> if portno e = p then None else Some e)) \<and>
     (\<forall>v x. entryOf (copyTable p q m) v x = (case entryOf m v x of None \<Rightarrow> None | Some e \<Rightarrow> Some (if portno e = p then e\<lparr>portno := q\<rparr> else e)))"
proof -
  have i: "storeOk m" by (rule storeOk_events [OF storeOk_new assms])
  show ?thesis unfolding flush_def copyTable_def changeTables_entry [OF i] using i by (simp add: option.case_eq_if)
qed

theorem table_flush_complete_witness:
  "\<exists>m. tableEvents [Learn 1 2 (macOfInt 5) 0, Learn 2 3 (macOfInt 6) 7, Clear, Learn 3 2 (macOfInt 5) 0, ReadLines [''7 00-00-00-00-00-09 2'']] (newMACTable 120) = Inr m \<and>
     entryOf (flush 2 m) 0 5 = None \<and> entryOf m 0 5 = Some \<lparr>vid = 0, portno = 2, insertionTime = 3\<rparr>"
proof -
  let ?es = "[Learn 1 2 (macOfInt 5) 0, Learn 2 3 (macOfInt 6) 7, Clear, Learn 3 2 (macOfInt 5) 0, ReadLines [''7 00-00-00-00-00-09 2'']]"
  have "isOk (tableEvents ?es (newMACTable 120)) \<and> (case tableEvents ?es (newMACTable 120) of Inr m \<Rightarrow> entryOf m 0 5 = Some \<lparr>vid = 0, portno = 2, insertionTime = 3\<rparr> | Inl e \<Rightarrow> False)"
    by code_simp
  then obtain m where m: "tableEvents ?es (newMACTable 120) = Inr m" "entryOf m 0 5 = Some \<lparr>vid = 0, portno = 2, insertionTime = 3\<rparr>"
    by (auto split: sum.splits)
  from table_flush_complete [OF m(1), of 2 2] m(2) have "entryOf (flush 2 m) 0 5 = None" by simp
  then show ?thesis using m by blast
qed

section \<open>Purging\<close>

text \<open>
  Under steady load aged entries are never purged. \<open>removeAgedEntriesIfNeeded\<close> sets \<open>lastPurge\<close> also when it does not purge, so if
  it is called at intervals of less than a second it never removes an entry, however old.
\<close>

lemma purge_starved:
  assumes "successively (\<lambda>t t'. t' < t + 1) (lastPurge m # ts)"
  shows "tables (fold removeAgedEntriesIfNeeded ts m) = tables m \<and> lastPurge (fold removeAgedEntriesIfNeeded ts m) = last (lastPurge m # ts)"
  using assms
proof (induction ts arbitrary: m)
  case (Cons t ts)
  have r: "removeAgedEntriesIfNeeded t m = m\<lparr>lastPurge := t\<rparr>" using Cons.prems by (simp add: removeAgedEntriesIfNeeded_def)
  have "successively (\<lambda>t t'. t' < t + 1) (lastPurge (m\<lparr>lastPurge := t\<rparr>) # ts)" using Cons.prems by simp
  from Cons.IH [OF this] show ?case using r by simp
qed simp

end
