(* ===== verification/Eth_Relay.thy ===== *)
theory Eth_Relay
  imports Eth_Table
begin

text \<open>
  The relay unit of an Ethernet switch, \<open>src/inet/linklayer/ethernet/switch/MACRelayUnit.cc\<close>: it learns the port of the source of every
  frame and sends the frame to the port of its destination, or to all other ports.
\<close>

section \<open>The unit\<close>

record ether_frame =
  frameSrc :: mac_address
  frameDest :: mac_address
  frameId :: nat

record relay_unit =
  numPorts :: int
  numProcessedFrames :: nat
  numDiscardedFrames :: nat
  relayOperational :: bool
  macTable :: mac_table

definition broadcastFrame :: "ether_frame \<Rightarrow> int \<Rightarrow> relay_unit \<Rightarrow> (int \<times> ether_frame) list" where
  "broadcastFrame frame inputport r = map (\<lambda>i. (i, frame)) (filter (\<lambda>i. i \<noteq> inputport) [0..numPorts r - 1])"

text \<open>Sending to a gate that does not exist is an error of the simulation kernel.\<close>

definition handleAndDispatchFrame :: "simtime \<Rightarrow> int \<Rightarrow> ether_frame \<Rightarrow> relay_unit \<Rightarrow> ((int \<times> ether_frame) list \<times> relay_unit) res" where
  "handleAndDispatchFrame t inputport frame r =
     (let r1 = r\<lparr>numProcessedFrames := numProcessedFrames r + 1, macTable := snd (updateTableWithAddress t inputport (frameSrc frame) 0 (macTable r))\<rparr>
      in if isBroadcast (frameDest frame) then Inr (broadcastFrame frame inputport r1, r1)
         else
           let (outputport, m2) = getPortForAddress t (frameDest frame) 0 (macTable r1); r2 = r1\<lparr>macTable := m2\<rparr>
           in if inputport = outputport then Inr ([], r2\<lparr>numDiscardedFrames := numDiscardedFrames r2 + 1\<rparr>)
              else if outputport \<ge> 0
              then if outputport < numPorts r2 then Inr ([(outputport, frame)], r2) else Inl (RuntimeError ''gate index out of range'')
              else Inr (broadcastFrame frame inputport r2, r2))"

definition relayMessage :: "simtime \<Rightarrow> int \<Rightarrow> ether_frame \<Rightarrow> relay_unit \<Rightarrow> ((int \<times> ether_frame) list \<times> relay_unit) res" where
  "relayMessage t inputport frame r = (if \<not> relayOperational r then Inr ([], r) else handleAndDispatchFrame t inputport frame r)"

definition relayStart :: "relay_unit \<Rightarrow> relay_unit" where
  "relayStart r = r\<lparr>macTable := clearTable (macTable r), relayOperational := True\<rparr>"

definition relayStop :: "relay_unit \<Rightarrow> relay_unit" where
  "relayStop r = r\<lparr>macTable := clearTable (macTable r), relayOperational := False\<rparr>"

text \<open>The operations of the node, with the stage they have reached: whether it is the one of the link layer (of the crash).\<close>

datatype node_operation = NodeStart bool | NodeShutdown bool | NodeCrash bool | OtherOperation

fun relayOperationStage :: "node_operation \<Rightarrow> relay_unit \<Rightarrow> relay_unit res" where
  "relayOperationStage (NodeStart mine) r = Inr (if mine then relayStart r else r)"
| "relayOperationStage (NodeShutdown mine) r = Inr (if mine then relayStop r else r)"
| "relayOperationStage (NodeCrash mine) r = Inr (if mine then relayStop r else r)"
| "relayOperationStage OtherOperation r = Inl (RuntimeError ''Unsupported operation'')"

section \<open>Where frames go\<close>

lemma broadcastFrame_ports:
  "map fst (broadcastFrame frame inputport r) = filter (\<lambda>i. i \<noteq> inputport) [0..numPorts r - 1]" "snd ` set (broadcastFrame frame inputport r) \<subseteq> {frame}"
  by (auto simp: broadcastFrame_def comp_def)

lemma broadcastFrame_safe:
  "q \<notin> fst ` set (broadcastFrame f q r)" "distinct (map fst (broadcastFrame f q r))" "fst ` set (broadcastFrame f q r) \<subseteq> {0..<numPorts r}"
  unfolding broadcastFrame_ports by (auto simp: broadcastFrame_def)

text \<open>The table after a frame: the source is learned, then, unless the frame is a broadcast, the destination is looked up.\<close>

definition tableStep :: "simtime \<times> int \<times> mac_address \<times> mac_address option \<Rightarrow> mac_table \<Rightarrow> mac_table" where
  "tableStep = (\<lambda>(t, p, a, d) m.
     case d of None \<Rightarrow> snd (updateTableWithAddress t p a 0 m) | Some x \<Rightarrow> snd (getPortForAddress t x 0 (snd (updateTableWithAddress t p a 0 m))))"

definition frameEvent :: "simtime \<times> int \<times> ether_frame \<Rightarrow> simtime \<times> int \<times> mac_address \<times> mac_address option" where
  "frameEvent = (\<lambda>(t, p, f). (t, p, frameSrc f, if isBroadcast (frameDest f) then None else Some (frameDest f)))"

lemma dispatch_cases:
  fixes t q f r
  defines "m \<equiv> snd (updateTableWithAddress t q (frameSrc f) 0 (macTable r))"
  defines "port \<equiv> livePort t (address (frameDest f)) 0 m"
  defines "r2 \<equiv> r\<lparr>numProcessedFrames := numProcessedFrames r + 1, macTable := tableStep (frameEvent (t, q, f)) (macTable r)\<rparr>"
  shows "handleAndDispatchFrame t q f r =
    (if isBroadcast (frameDest f) then Inr (broadcastFrame f q r2, r2)
     else if q = port then Inr ([], r2\<lparr>numDiscardedFrames := numDiscardedFrames r + 1\<rparr>)
     else if port \<ge> 0 then if port < numPorts r then Inr ([(port, f)], r2) else Inl (RuntimeError ''gate index out of range'')
     else Inr (broadcastFrame f q r2, r2))"
  using lookup_port [of t "frameDest f" 0 m]
  by (simp add: handleAndDispatchFrame_def tableStep_def frameEvent_def m_def port_def r2_def Let_def split_beta)

text \<open>
  C20: a switch never sends a frame back, loses none and duplicates none. A frame is sent, unchanged, to the port behind which its
  destination is known, to every other port exactly once if it is a broadcast or the destination is unknown, and nowhere
  only if the destination is behind the port it came from, which is counted; it never goes out where it came in.
\<close>

theorem relay_forwards:
  assumes "handleAndDispatchFrame t q f r = Inr (outs, r')" "0 \<le> q"
  shows "(let port = livePort t (address (frameDest f)) 0 (snd (updateTableWithAddress t q (frameSrc f) 0 (macTable r))) in
       map fst outs = (if isBroadcast (frameDest f) \<or> port < 0 then filter (\<lambda>i. i \<noteq> q) [0..numPorts r - 1] else if port = q then [] else [port]) \<and>
       numDiscardedFrames r' = numDiscardedFrames r + (if \<not> isBroadcast (frameDest f) \<and> port = q then 1 else 0)) \<and>
     q \<notin> fst ` set outs \<and> distinct (map fst outs) \<and> fst ` set outs \<subseteq> {0..<numPorts r} \<and> snd ` set outs \<subseteq> {f} \<and>
     numProcessedFrames r' = numProcessedFrames r + 1 \<and> numPorts r' = numPorts r \<and> relayOperational r' = relayOperational r"
proof -
  define port where "port = livePort t (address (frameDest f)) 0 (snd (updateTableWithAddress t q (frameSrc f) 0 (macTable r)))"
  define r2 where "r2 = r\<lparr>numProcessedFrames := numProcessedFrames r + 1, macTable := tableStep (frameEvent (t, q, f)) (macTable r)\<rparr>"
  have f2: "numPorts r2 = numPorts r" "relayOperational r2 = relayOperational r" "numProcessedFrames r2 = numProcessedFrames r + 1" "numDiscardedFrames r2 = numDiscardedFrames r"
    by (simp_all add: r2_def)
  note d = assms(1) [unfolded dispatch_cases, folded port_def r2_def]
  consider (all) "isBroadcast (frameDest f) \<or> port < 0" "outs = broadcastFrame f q r2" "r' = r2"
    | (same) "\<not> isBroadcast (frameDest f)" "port = q" "outs = []" "r' = r2\<lparr>numDiscardedFrames := numDiscardedFrames r + 1\<rparr>"
    | (one) "\<not> isBroadcast (frameDest f)" "port \<noteq> q" "0 \<le> port" "port < numPorts r" "outs = [(port, f)]" "r' = r2"
  proof (cases "isBroadcast (frameDest f) \<or> (q \<noteq> port \<and> port < 0)")
    case True
    then have "Inr (outs, r') = (Inr (broadcastFrame f q r2, r2) :: ((int \<times> ether_frame) list \<times> relay_unit) res)" using d by (auto split: if_splits)
    then show thesis using all True by blast
  next
    case False
    show thesis
    proof (cases "q = port")
      case True
      then have "Inr (outs, r') = (Inr ([], r2\<lparr>numDiscardedFrames := numDiscardedFrames r + 1\<rparr>) :: ((int \<times> ether_frame) list \<times> relay_unit) res)" using d False by auto
      then show thesis using same False True by blast
    next
      case ne: False
      then have "Inr (outs, r') = (Inr ([(port, f)], r2) :: ((int \<times> ether_frame) list \<times> relay_unit) res) \<and> port < numPorts r" using d False by (auto split: if_splits)
      then show thesis using one False ne by force
    qed
  qed
  then show ?thesis unfolding Let_def port_def [symmetric]
  proof cases
    case all
    have "\<not> (\<not> isBroadcast (frameDest f) \<and> port = q)" using all(1) assms(2) by auto
    then show "(map fst outs = (if isBroadcast (frameDest f) \<or> port < 0 then filter (\<lambda>i. i \<noteq> q) [0..numPorts r - 1] else if port = q then [] else [port]) \<and>
       numDiscardedFrames r' = numDiscardedFrames r + (if \<not> isBroadcast (frameDest f) \<and> port = q then 1 else 0)) \<and>
     q \<notin> fst ` set outs \<and> distinct (map fst outs) \<and> fst ` set outs \<subseteq> {0..<numPorts r} \<and> snd ` set outs \<subseteq> {f} \<and>
     numProcessedFrames r' = numProcessedFrames r + 1 \<and> numPorts r' = numPorts r \<and> relayOperational r' = relayOperational r"
      using broadcastFrame_safe [where q = q and f = f and r = r2] broadcastFrame_ports [where frame = f and inputport = q and r = r2] all f2 by simp
  qed (use f2 assms(2) in auto)
qed

definition sampleRelay :: relay_unit where
  "sampleRelay = \<lparr>numPorts = 4, numProcessedFrames = 0, numDiscardedFrames = 0, relayOperational = True, macTable = newMACTable 120\<rparr>"

definition sampleFrame :: "u64 \<Rightarrow> u64 \<Rightarrow> ether_frame" where
  "sampleFrame s d = \<lparr>frameSrc = macOfInt s, frameDest = macOfInt d, frameId = 7\<rparr>"

lemma sampleFrame_flood:
  "handleAndDispatchFrame 1 2 (sampleFrame 5 6) sampleRelay =
     Inr ([(0, sampleFrame 5 6), (1, sampleFrame 5 6), (3, sampleFrame 5 6)],
          sampleRelay\<lparr>numProcessedFrames := 1, macTable := tableStep (frameEvent (1, 2, sampleFrame 5 6)) (newMACTable 120)\<rparr>)"
proof -
  have "\<not> isBroadcast (frameDest (sampleFrame 5 6))" by code_simp
  moreover have "livePort 1 (address (frameDest (sampleFrame 5 6))) 0 (snd (updateTableWithAddress 1 2 (frameSrc (sampleFrame 5 6)) 0 (newMACTable 120))) = - 1"
    by code_simp
  moreover have "filter (\<lambda>i. i \<noteq> 2) [0..3] = [0, 1, 3::int]" by code_simp
  ultimately show ?thesis unfolding dispatch_cases by (simp add: sampleRelay_def broadcastFrame_def)
qed

theorem relay_forwards_witness:
  "\<exists>outs r'. handleAndDispatchFrame 1 2 (sampleFrame 5 6) sampleRelay = Inr (outs, r') \<and> 2 \<notin> fst ` set outs \<and> length outs = 3"
proof -
  from relay_forwards [OF sampleFrame_flood] have "2 \<notin> fst ` set [(0::int, sampleFrame 5 6), (1, sampleFrame 5 6), (3, sampleFrame 5 6)]" by simp
  with sampleFrame_flood show ?thesis by fastforce
qed

section \<open>A learning switch\<close>

fun relayRun :: "(simtime \<times> int \<times> ether_frame) list \<Rightarrow> relay_unit \<Rightarrow> relay_unit res" where
  "relayRun [] r = Inr r"
| "relayRun (e # es) r = (case e of (t, q, f) \<Rightarrow> bindR (relayMessage t q f r) (\<lambda>(outs, r'). relayRun es r'))"

lemma dispatch_table:
  "handleAndDispatchFrame t q f r = Inr (outs, r') \<Longrightarrow>
     macTable r' = tableStep (frameEvent (t, q, f)) (macTable r) \<and> numPorts r' = numPorts r \<and> relayOperational r' = relayOperational r"
  unfolding dispatch_cases by (auto split: if_splits)

lemma relayRun_table:
  "relayRun es r = Inr r' \<Longrightarrow> relayOperational r \<Longrightarrow>
     macTable r' = fold tableStep (map frameEvent es) (macTable r) \<and> numPorts r' = numPorts r \<and> relayOperational r'"
proof (induction es arbitrary: r)
  case (Cons e es)
  obtain t q f where e: "e = (t, q, f)" by (cases e)
  obtain outs r1 where r1: "handleAndDispatchFrame t q f r = Inr (outs, r1)" "relayRun es r1 = Inr r'"
    using Cons.prems by (auto simp: e bindR_eq_Inr relayMessage_def)
  note d = dispatch_table [OF r1(1)]
  show ?case using Cons.IH [OF r1(2)] d Cons.prems(2) by (simp add: e)
qed simp

lemma tableStep_learning:
  "tableStep (t, p, a, d) m =
     (case d of None \<Rightarrow> (snd \<circ> updateTableWithAddress t p a 0) m | Some x \<Rightarrow> snd (getPortForAddress t x 0 ((snd \<circ> updateTableWithAddress t p a 0) m)))"
  by (simp add: tableStep_def split: option.split)

lemma fold_storeOk: "storeOk m \<Longrightarrow> storeOk (fold tableStep es m) \<and> agingTime (fold tableStep es m) = agingTime m"
proof (induction es arbitrary: m)
  case (Cons e es)
  obtain t p a d where e: "e = (t, p, a, d)" by (cases e)
  have "storeOk (tableStep e m) \<and> agingTime (tableStep e m) = agingTime m"
    unfolding e tableStep_learning by (rule vlan.step_inv [OF Cons.prems])
  then show ?case using Cons.IH by simp
qed simp

text \<open>
  C8: the switch learns. Whatever frames a switch that started empty has relayed, once a station has sent a frame that came in at
  port \<open>p\<close>, a later frame to that station is sent to \<open>p\<close> and to no other port, or to none if it came in at \<open>p\<close>
  itself; this holds until the aging time is over, whatever frames of other stations are relayed in between.
\<close>

theorem switch_learns:
  assumes start: "macTable r0 = newMACTable a" "relayOperational r0" "relayRun es r0 = Inr r"
    and seen: "relayRun [(t0, p, f0)] r = Inr r1" "\<not> isBroadcast (frameSrc f0)" "0 \<le> p" "p < numPorts r0"
    and between: "relayRun fs r1 = Inr r2" "list_all (\<lambda>(t, q, f). t \<le> t1 \<and> address (frameSrc f) \<noteq> address (frameSrc f0)) fs"
    and frame: "frameDest f1 = frameSrc f0" "address (frameSrc f1) \<noteq> address (frameSrc f0)" "t0 \<le> t1" "t1 < t0 + a"
  shows "\<exists>r3. relayMessage t1 q f1 r2 = Inr (if q = p then [] else [(p, f1)], r3)"
proof -
  let ?A = "frameSrc f0" and ?m = "macTable r"
  have m: "?m = fold tableStep (map frameEvent es) (newMACTable a)" "numPorts r = numPorts r0" "relayOperational r" using relayRun_table [OF start(3,2)] start(1) by simp_all
  have ok: "storeOk ?m" "agingTime ?m = a" using fold_storeOk [OF storeOk_new] unfolding m(1) by (simp_all add: newMACTable_def)
  have m1: "macTable r1 = tableStep (frameEvent (t0, p, f0)) ?m" "numPorts r1 = numPorts r0" "relayOperational r1" using relayRun_table [OF seen(1) m(3)] m(2) by simp_all
  have m2: "macTable r2 = fold tableStep (map frameEvent fs) (macTable r1)" "numPorts r2 = numPorts r0" "relayOperational r2" using relayRun_table [OF between(1) m1(3)] m1(2) by simp_all
  define l where "l = (snd \<circ> updateTableWithAddress t0 p ?A 0) ?m"
  have l: "storeOk l" "fst (getPortForAddress t1 ?A 0 l) = p"
    unfolding l_def using vlan.learn_inv [OF ok(1)] vlan.learn_same [OF ok(1) seen(2) refl frame(3)] frame(4) ok(2) by simp_all
  have ok1: "storeOk (macTable r1)" using fold_storeOk [OF ok(1), of "[frameEvent (t0, p, f0)]"] m1(1) by simp
  have p1: "fst (getPortForAddress t1 ?A 0 (macTable r1)) = p"
    unfolding m1(1) frameEvent_def prod.case tableStep_learning l_def [symmetric] using l vlan.look_other [OF l(1) frame(3)] by simp
  define xs where "xs = map frameEvent fs @ [(t1, q, frameSrc f1, None)]"
  have "list_all (\<lambda>(t, p, x, d). t \<le> t1 \<and> address x \<noteq> address ?A) xs"
    using between(2) frame(2) by (fastforce simp: xs_def frameEvent_def list_all_iff)
  from vlan.remembers [OF ok1 this tableStep_learning] have "fst (getPortForAddress t1 ?A 0 (fold tableStep xs (macTable r1))) = p" using p1 by simp
  then have "livePort t1 (address (frameDest f1)) 0 (snd (updateTableWithAddress t1 q (frameSrc f1) 0 (macTable r2))) = p"
    unfolding lookup_port frame(1) m2(1) xs_def by (simp add: tableStep_learning)
  then show ?thesis using m2(2,3) seen(2-4) frame(1) by (auto simp: relayMessage_def dispatch_cases)
qed

theorem switch_learns_witness:
  "\<exists>r1 r2 r3. relayRun [(1, 2, sampleFrame 5 6)] sampleRelay = Inr r1 \<and> relayRun [(2, 1, sampleFrame 6 MAC_ADDRESS_MASK), (3, 3, sampleFrame 7 6)] r1 = Inr r2 \<and>
     relayMessage 4 0 (sampleFrame 8 5) r2 = Inr ([(2, sampleFrame 8 5)], r3)"
proof -
  let ?s = "[(1::simtime, 2::int, sampleFrame 5 6)]" and ?fs = "[(2::simtime, 1::int, sampleFrame 6 MAC_ADDRESS_MASK), (3, 3, sampleFrame 7 6)]"
  have "isOk (relayRun ?s sampleRelay)" "isOk (bindR (relayRun ?s sampleRelay) (relayRun ?fs))" by code_simp+
  then obtain r1 r2 where r: "relayRun ?s sampleRelay = Inr r1" "relayRun ?fs r1 = Inr r2" by (auto simp: isOk_def split: sum.splits)
  have i: "macTable sampleRelay = newMACTable 120" "relayOperational sampleRelay" "numPorts sampleRelay = 4" "relayRun [] sampleRelay = Inr sampleRelay"
    by (simp_all add: sampleRelay_def)
  have d: "\<not> isBroadcast (frameSrc (sampleFrame 5 6))" "list_all (\<lambda>(t, q, f). t \<le> 4 \<and> address (frameSrc f) \<noteq> address (frameSrc (sampleFrame 5 6))) ?fs"
      "frameDest (sampleFrame 8 5) = frameSrc (sampleFrame 5 6)" "address (frameSrc (sampleFrame 8 5)) \<noteq> address (frameSrc (sampleFrame 5 6))" by code_simp+
  from switch_learns [OF i(1,2,4) r(1) d(1) _ _ r(2) d(2,3,4), of 0] i(3) r show ?thesis by auto
qed

end
