(* ===== verification/Ip_Reassembly.thy ===== *)
theory Ip_Reassembly
  imports Prelude
begin

text \<open>
  The reassembly buffer of a fragmented datagram, \<open>src/inet/common/ReassemblyBuffer.cc\<close>: the range of offsets received so far from the start
  on, and the fragments that do not touch it yet.
\<close>

section \<open>The buffer\<close>

record frag_region =
  fr_beg :: u16
  fr_end :: u16
  fr_islast :: bool

text \<open>\<open>fragments\<close> is a null pointer as long as it would be empty.\<close>

record reassembly_buffer =
  rb_main :: frag_region
  rb_fragments :: "frag_region list"

definition rb_new :: reassembly_buffer where
  "rb_new = \<lparr>rb_main = \<lparr>fr_beg = 0, fr_end = 0, fr_islast = False\<rparr>, rb_fragments = []\<rparr>"

text \<open>One pass of the loop over the fragments: the range, the fragments kept, and \<open>oncemore\<close>.\<close>

fun mergePass :: "frag_region \<Rightarrow> frag_region list \<Rightarrow> frag_region \<times> frag_region list \<times> bool" where
  "mergePass main [] = (main, [], False)"
| "mergePass main (frag # frags) =
     (if fr_end main = fr_beg frag
      then case mergePass (main\<lparr>fr_end := fr_end frag, fr_islast := fr_islast main \<or> fr_islast frag\<rparr>) frags of (m, fs, _) \<Rightarrow> (m, fs, True)
      else if fr_beg main = fr_end frag
      then case mergePass (main\<lparr>fr_beg := fr_beg frag\<rparr>) frags of (m, fs, _) \<Rightarrow> (m, fs, True)
      else if fr_beg main \<le> fr_beg frag \<and> fr_end main \<ge> fr_end frag
      then case mergePass main frags of (m, fs, _) \<Rightarrow> (m, fs, True)
      else case mergePass main frags of (m, fs, oncemore) \<Rightarrow> (m, frag # fs, oncemore))"

lemma mergePass_length: "mergePass main frags = (m, fs, oncemore) \<Longrightarrow> length fs \<le> length frags \<and> (oncemore \<longrightarrow> length fs < length frags)"
  by (induction main frags arbitrary: m fs oncemore rule: mergePass.induct) (fastforce split: if_splits prod.splits)+

lemma mergePass_shorter: "mergePass main frags = (m, fs, True) \<Longrightarrow> length fs < length frags"
  using mergePass_length by blast

function mergeFragments :: "frag_region \<Rightarrow> frag_region list \<Rightarrow> frag_region \<times> frag_region list" where
  "mergeFragments main frags = (case mergePass main frags of (m, fs, oncemore) \<Rightarrow> if oncemore then mergeFragments m fs else (m, fs))"
  by pat_completeness auto
termination
  by (relation "measure (length \<circ> snd)") (auto dest: mergePass_shorter [OF sym])

declare mergeFragments.simps [simp del]

definition rb_mergeFragments :: "reassembly_buffer \<Rightarrow> reassembly_buffer" where
  "rb_mergeFragments rb =
     (if rb_fragments rb = [] then rb
      else case mergeFragments (rb_main rb) (rb_fragments rb) of (m, fs) \<Rightarrow> rb\<lparr>rb_main := m, rb_fragments := fs\<rparr>)"

definition rb_merge :: "u16 \<Rightarrow> u16 \<Rightarrow> bool \<Rightarrow> reassembly_buffer \<Rightarrow> reassembly_buffer" where
  "rb_merge b e islast rb =
     (let main = rb_main rb in
      if fr_end main = b then rb_mergeFragments (rb\<lparr>rb_main := main\<lparr>fr_end := e, fr_islast := fr_islast main \<or> islast\<rparr>\<rparr>)
      else if fr_beg main = e then rb_mergeFragments (rb\<lparr>rb_main := main\<lparr>fr_beg := b\<rparr>\<rparr>)
      else if fr_end main < b \<or> fr_beg main > e
      then rb\<lparr>rb_fragments := rb_fragments rb @ [\<lparr>fr_beg = b, fr_end = e, fr_islast = islast\<rparr>]\<rparr>
      else rb)"

definition rb_addFragment :: "u16 \<Rightarrow> u16 \<Rightarrow> bool \<Rightarrow> reassembly_buffer \<Rightarrow> bool \<times> reassembly_buffer" where
  "rb_addFragment b e islast rb = (let rb1 = rb_merge b e islast rb in (fr_beg (rb_main rb1) = 0 \<and> fr_islast (rb_main rb1), rb1))"

definition rb_getTotalLength :: "reassembly_buffer \<Rightarrow> u16" where
  "rb_getTotalLength rb = fr_end (rb_main rb)"

section \<open>Pieces of a datagram\<close>

text \<open>
  A datagram is cut at ascending offsets from 0 on; piece \<open>i\<close> lies between cut \<open>i\<close> and the next one, and the piece that ends at the
  last cut is marked.
\<close>

definition cutsOk :: "nat list \<Rightarrow> bool" where
  "cutsOk cs \<longleftrightarrow> 2 \<le> length cs \<and> hd cs = 0 \<and> sorted_wrt (<) cs \<and> last cs < 2 ^ 16"

definition pieces :: "nat list \<Rightarrow> nat" where
  "pieces cs = length cs - 1"

definition piece :: "nat list \<Rightarrow> nat \<Rightarrow> frag_region" where
  "piece cs i = \<lparr>fr_beg = of_nat (cs ! i), fr_end = of_nat (cs ! (i + 1)), fr_islast = (i + 1 = pieces cs)\<rparr>"

lemma cuts_zero: "cutsOk cs \<Longrightarrow> cs ! 0 = 0"
  by (cases cs) (auto simp: cutsOk_def)

lemma cuts_word:
  assumes "cutsOk cs" "i < length cs" "j < length cs"
  shows "(of_nat (cs ! i) :: u16) = of_nat (cs ! j) \<longleftrightarrow> i = j" "(of_nat (cs ! i) :: u16) < of_nat (cs ! j) \<longleftrightarrow> i < j"
    "(of_nat (cs ! i) :: u16) \<le> of_nat (cs ! j) \<longleftrightarrow> i \<le> j"
proof -
  have s: "sorted_wrt (<) cs" using assms(1) by (simp add: cutsOk_def)
  have "cs ! k < 2 ^ 16" if "k < length cs" for k
  proof -
    have "cs ! k \<le> last cs"
    proof (cases "k = length cs - 1")
      case True
      then show ?thesis using that by (subst last_conv_nth) auto
    next
      case False
      have "cs \<noteq> []" "k < length cs - 1" using that False by auto
      then show ?thesis using sorted_wrt_nth_less [OF s, of k "length cs - 1"] by (simp add: last_conv_nth)
    qed
    then show ?thesis using assms(1) by (simp add: cutsOk_def)
  qed
  then have u: "unat (of_nat (cs ! i) :: u16) = cs ! i" "unat (of_nat (cs ! j) :: u16) = cs ! j" using assms(2,3) by (simp_all add: unat_of_nat)
  have lt: "cs ! a < cs ! b" if "a < b" "b < length cs" for a b using s that by (simp add: sorted_wrt_nth_less)
  show 1: "(of_nat (cs ! i) :: u16) < of_nat (cs ! j) \<longleftrightarrow> i < j"
    unfolding word_less_nat_alt u using lt assms(2,3) by (metis less_asym linorder_neqE_nat less_irrefl)
  show 2: "(of_nat (cs ! i) :: u16) = of_nat (cs ! j) \<longleftrightarrow> i = j"
    unfolding word_unat_eq_iff u using lt assms(2,3) by (metis linorder_neqE_nat less_irrefl)
  show "(of_nat (cs ! i) :: u16) \<le> of_nat (cs ! j) \<longleftrightarrow> i \<le> j" using 1 2 by (auto simp: order_le_less)
qed

text \<open>The range consists of the first \<open>k\<close> pieces.\<close>

definition prefixOf :: "nat \<Rightarrow> frag_region \<Rightarrow> nat list \<Rightarrow> bool" where
  "prefixOf k main cs \<longleftrightarrow> k \<le> pieces cs \<and> main = \<lparr>fr_beg = 0, fr_end = of_nat (cs ! k), fr_islast = (k = pieces cs)\<rparr>"

lemma mergePass_pieces:
  assumes cs: "cutsOk cs" and "prefixOf k main cs" "0 < k" "\<forall>j \<in> set js. j < pieces cs" "mergePass main (map (piece cs) js) = (m, fs, oncemore)"
  shows "\<exists>k' js'. prefixOf k' m cs \<and> k \<le> k' \<and> {k..<k'} \<subseteq> set js \<and> fs = map (piece cs) js' \<and> set js' \<subseteq> set js \<and>
     set js \<subseteq> set js' \<union> {..<k'} \<and> (\<not> oncemore \<longrightarrow> k' = k \<and> (\<forall>j \<in> set js'. k < j))"
  using assms(2-)
proof (induction js arbitrary: k main m fs oncemore)
  case (Cons j js)
  have n: "j < pieces cs" "k \<le> pieces cs" "length cs = pieces cs + 1" using Cons.prems(1,3) cs by (auto simp: prefixOf_def cutsOk_def pieces_def)
  have main: "main = \<lparr>fr_beg = 0, fr_end = of_nat (cs ! k), fr_islast = (k = pieces cs)\<rparr>" using Cons.prems(1) by (simp add: prefixOf_def)
  have zero: "cs ! 0 = 0" by (rule cuts_zero [OF cs])
  note w = cuts_word [OF cs]
  have c: "fr_end main = fr_beg (piece cs j) \<longleftrightarrow> k = j" using w(1) [of k j] n by (simp add: main piece_def)
  have nz: "fr_beg main \<noteq> fr_end (piece cs j)" using w(1) [of 0 "j + 1"] n zero by (simp add: main piece_def)
  have d: "fr_beg main \<le> fr_beg (piece cs j) \<and> fr_end main \<ge> fr_end (piece cs j) \<longleftrightarrow> j < k"
    using w(3) [of "j + 1" k] w(3) [of 0 j] n zero by (auto simp: main piece_def)
  have js: "\<forall>j \<in> set js. j < pieces cs" using Cons.prems(3) by simp
  show ?case
  proof (cases "k = j")
    case True
    obtain m1 f1 o1 where r: "mergePass (main\<lparr>fr_end := fr_end (piece cs j), fr_islast := fr_islast main \<or> fr_islast (piece cs j)\<rparr>) (map (piece cs) js) = (m1, f1, o1)"
      by (metis prod_cases3)
    have p: "prefixOf (Suc k) (main\<lparr>fr_end := fr_end (piece cs j), fr_islast := fr_islast main \<or> fr_islast (piece cs j)\<rparr>) cs"
      using True n by (auto simp: prefixOf_def main piece_def)
    have e: "m = m1" "fs = f1" "oncemore" using Cons.prems(4) c True r by auto
    from Cons.IH [OF p _ js r] obtain k' js' where
      "prefixOf k' m1 cs" "Suc k \<le> k'" "{Suc k..<k'} \<subseteq> set js" "f1 = map (piece cs) js'" "set js' \<subseteq> set js" "set js \<subseteq> set js' \<union> {..<k'}" by auto
    moreover have "{k..<k'} \<subseteq> insert k {Suc k..<k'}" by auto
    ultimately show ?thesis using e True by (intro exI [of _ k'] exI [of _ js']) auto
  next
    case ne: False
    obtain m1 f1 o1 where r: "mergePass main (map (piece cs) js) = (m1, f1, o1)" by (metis prod_cases3)
    from Cons.IH [OF Cons.prems(1,2) js r] obtain k' js' where
      k': "prefixOf k' m1 cs" "k \<le> k'" "{k..<k'} \<subseteq> set js" "f1 = map (piece cs) js'" "set js' \<subseteq> set js" "set js \<subseteq> set js' \<union> {..<k'}"
        "\<not> o1 \<longrightarrow> k' = k \<and> (\<forall>j \<in> set js'. k < j)" by blast
    show ?thesis
    proof (cases "j < k")
      case True
      then have e: "m = m1" "fs = f1" "oncemore" using Cons.prems(4) c ne nz d r by auto
      then show ?thesis using k' True by (intro exI [of _ k'] exI [of _ js']) auto
    next
      case False
      then have e: "m = m1" "fs = piece cs j # f1" "oncemore = o1" using Cons.prems(4) c ne nz d r by auto
      then show ?thesis using k' False ne by (intro exI [of _ k'] exI [of _ "j # js'"]) auto
    qed
  qed
qed auto

lemma mergeFragments_pieces:
  assumes cs: "cutsOk cs" and "prefixOf k main cs" "0 < k" "\<forall>j \<in> set js. j < pieces cs"
  shows "\<exists>m k' js'. mergeFragments main (map (piece cs) js) = (m, map (piece cs) js') \<and> prefixOf k' m cs \<and> k \<le> k' \<and> {k..<k'} \<subseteq> set js \<and>
     set js' \<subseteq> set js \<and> set js \<subseteq> set js' \<union> {..<k'} \<and> (\<forall>j \<in> set js'. k' < j)"
  using assms(2-)
proof (induction "length js" arbitrary: k main js rule: less_induct)
  case less
  obtain m fs once where p: "mergePass main (map (piece cs) js) = (m, fs, once)" by (metis prod_cases3)
  from mergePass_pieces [OF cs less.prems p] obtain k1 js1 where
    k1: "prefixOf k1 m cs" "k \<le> k1" "{k..<k1} \<subseteq> set js" "fs = map (piece cs) js1" "set js1 \<subseteq> set js" "set js \<subseteq> set js1 \<union> {..<k1}"
      "\<not> once \<longrightarrow> k1 = k \<and> (\<forall>j \<in> set js1. k < j)" by blast
  show ?case
  proof (cases once)
    case True
    have "length js1 < length js" using mergePass_shorter [of main "map (piece cs) js" m fs] p k1(4) True by simp
    moreover have "0 < k1" "\<forall>j \<in> set js1. j < pieces cs" using less.prems(2,3) k1(2,5) by auto
    ultimately obtain m2 k2 js2 where
      k2: "mergeFragments m (map (piece cs) js1) = (m2, map (piece cs) js2)" "prefixOf k2 m2 cs" "k1 \<le> k2" "{k1..<k2} \<subseteq> set js1" "set js2 \<subseteq> set js1"
        "set js1 \<subseteq> set js2 \<union> {..<k2}" "\<forall>j \<in> set js2. k2 < j"
      using less.hyps [of js1 k1 m] k1(1) by blast
    have "{k..<k2} \<subseteq> {k..<k1} \<union> {k1..<k2}" by auto
    then have "{k..<k2} \<subseteq> set js" using k1(3,5) k2(4) by blast
    moreover have "set js \<subseteq> set js2 \<union> {..<k2}" using k1(6) k2(3,6) by force
    moreover have "mergeFragments main (map (piece cs) js) = (m2, map (piece cs) js2)" using p True k1(4) k2(1) by (simp add: mergeFragments.simps [of main])
    ultimately show ?thesis using k1(2,5) k2(2,3,5,7) by (intro exI [of _ m2] exI [of _ k2] exI [of _ js2]) auto
  next
    case False
    then have "mergeFragments main (map (piece cs) js) = (m, map (piece cs) js1)" using p k1(4) by (simp add: mergeFragments.simps [of main])
    then show ?thesis using False k1 by blast
  qed
qed

section \<open>What a buffer has received\<close>

definition rbInv :: "nat list \<Rightarrow> nat set \<Rightarrow> reassembly_buffer \<Rightarrow> bool" where
  "rbInv cs R rb \<longleftrightarrow> R \<subseteq> {..<pieces cs} \<and> (\<exists>k js. prefixOf k (rb_main rb) cs \<and> rb_fragments rb = map (piece cs) js \<and>
     {..<k} \<subseteq> R \<and> k \<notin> R \<and> set js = {j \<in> R. k < j})"

lemma rbInv_new: "cutsOk cs \<Longrightarrow> rbInv cs {} rb_new"
  using cuts_zero [of cs] by (auto simp: rbInv_def rb_new_def prefixOf_def cutsOk_def pieces_def intro!: exI [of _ 0])

lemma rb_merge_pieces:
  assumes cs: "cutsOk cs" and r: "rbInv cs R rb" and i: "i < pieces cs"
  shows "rbInv cs (insert i R) (rb_merge (fr_beg (piece cs i)) (fr_end (piece cs i)) (fr_islast (piece cs i)) rb)"
proof -
  obtain k js where k: "prefixOf k (rb_main rb) cs" "rb_fragments rb = map (piece cs) js" "{..<k} \<subseteq> R" "k \<notin> R" "set js = {j \<in> R. k < j}" and R: "R \<subseteq> {..<pieces cs}"
    using r by (auto simp: rbInv_def)
  have main: "rb_main rb = \<lparr>fr_beg = 0, fr_end = of_nat (cs ! k), fr_islast = (k = pieces cs)\<rparr>" and n: "k \<le> pieces cs" "length cs = pieces cs + 1"
    using k(1) cs by (auto simp: prefixOf_def cutsOk_def pieces_def)
  note w = cuts_word [OF cs]
  have nz: "(0 :: u16) \<noteq> of_nat (cs ! (i + 1))" using w(1) [of 0 "i + 1"] n i cuts_zero [OF cs] by simp
  have js: "\<forall>j \<in> set js. j < pieces cs" using k(5) R by auto
  consider (fill) "i = k" | (old) "i < k" | (later) "k < i" by linarith
  then show ?thesis
  proof cases
    case fill
    let ?m = "(rb_main rb)\<lparr>fr_end := fr_end (piece cs i), fr_islast := fr_islast (rb_main rb) \<or> fr_islast (piece cs i)\<rparr>"
    have p: "prefixOf (Suc k) ?m cs" using fill i by (auto simp: prefixOf_def main piece_def)
    obtain m k' js' where m: "mergeFragments ?m (map (piece cs) js) = (m, map (piece cs) js')" "prefixOf k' m cs" "Suc k \<le> k'" "{Suc k..<k'} \<subseteq> set js"
        "set js' \<subseteq> set js" "set js \<subseteq> set js' \<union> {..<k'}" "\<forall>j \<in> set js'. k' < j"
      using mergeFragments_pieces [OF cs p _ js] by auto
    let ?rb = "rb\<lparr>rb_main := m, rb_fragments := map (piece cs) js'\<rparr>"
    have "rb_mergeFragments (rb\<lparr>rb_main := ?m\<rparr>) = ?rb"
    proof (cases js)
      case Nil
      then have "mergeFragments ?m [] = (?m, [])" by (simp add: mergeFragments.simps)
      then show ?thesis using Nil m(1) k(2) by (simp add: rb_mergeFragments_def)
    qed (use m(1) k(2) in \<open>simp add: rb_mergeFragments_def\<close>)
    moreover have "fr_end (rb_main rb) = fr_beg (piece cs i)" using fill by (simp add: main piece_def)
    ultimately have mg: "rb_merge (fr_beg (piece cs i)) (fr_end (piece cs i)) (fr_islast (piece cs i)) rb = ?rb" by (simp add: rb_merge_def)
    have "x \<in> insert i R" if "x < k'" for x
      using that fill k(3,5) m(4) by (cases "x < k"; cases "x = k") (auto simp: subset_iff)
    moreover have "k' \<notin> insert i R"
    proof
      assume "k' \<in> insert i R"
      then have "k' \<in> set js" using fill m(3) k(5) by auto
      then show False using m(6,7) by auto
    qed
    moreover have "set js' = {j \<in> insert i R. k' < j}" using m(3,5-7) k(5) fill by auto
    ultimately show ?thesis unfolding mg rbInv_def using R i m(2) by (auto intro!: exI [of _ k'] exI [of _ js'])
  next
    case old
    have "\<not> fr_end (rb_main rb) = fr_beg (piece cs i)" "\<not> fr_beg (rb_main rb) = fr_end (piece cs i)" "\<not> (fr_end (rb_main rb) < fr_beg (piece cs i) \<or> fr_beg (rb_main rb) > fr_end (piece cs i))"
      using old w [of k i] n i nz by (auto simp: main piece_def)
    then have "rb_merge (fr_beg (piece cs i)) (fr_end (piece cs i)) (fr_islast (piece cs i)) rb = rb" by (simp add: rb_merge_def)
    moreover have "insert i R = R" using old k(3) by auto
    ultimately show ?thesis using r by simp
  next
    case later
    have "\<not> fr_end (rb_main rb) = fr_beg (piece cs i)" "\<not> fr_beg (rb_main rb) = fr_end (piece cs i)" "fr_end (rb_main rb) < fr_beg (piece cs i)"
      using later w [of k i] n i nz by (auto simp: main piece_def)
    then have "rb_merge (fr_beg (piece cs i)) (fr_end (piece cs i)) (fr_islast (piece cs i)) rb = rb\<lparr>rb_fragments := map (piece cs) (js @ [i])\<rparr>"
      using k(2) by (simp add: rb_merge_def piece_def)
    then show ?thesis unfolding rbInv_def using R i k later by (auto intro!: exI [of _ k] exI [of _ "js @ [i]"])
  qed
qed

text \<open>Adding a piece: the datagram is complete exactly when all pieces have been received.\<close>

lemma rb_add_piece:
  assumes "cutsOk cs" "rbInv cs R rb" "i < pieces cs"
  shows "\<exists>rb'. rb_addFragment (fr_beg (piece cs i)) (fr_end (piece cs i)) (fr_islast (piece cs i)) rb = (insert i R = {..<pieces cs}, rb') \<and>
     rbInv cs (insert i R) rb' \<and> (insert i R = {..<pieces cs} \<longrightarrow> unat (rb_getTotalLength rb') = last cs)"
proof -
  let ?rb = "rb_merge (fr_beg (piece cs i)) (fr_end (piece cs i)) (fr_islast (piece cs i)) rb"
  have r: "rbInv cs (insert i R) ?rb" by (rule rb_merge_pieces [OF assms])
  then obtain k js where k: "prefixOf k (rb_main ?rb) cs" "{..<k} \<subseteq> insert i R" "k \<notin> insert i R" "insert i R \<subseteq> {..<pieces cs}" by (auto simp: rbInv_def)
  have "k = pieces cs \<longleftrightarrow> insert i R = {..<pieces cs}" using k by (auto simp: prefixOf_def)
  moreover have "unat (of_nat (cs ! pieces cs) :: u16) = last cs"
  proof -
    have "cs \<noteq> []" "last cs < 2 ^ 16" using assms(1) by (auto simp: cutsOk_def)
    then show ?thesis by (simp add: pieces_def unat_of_nat last_conv_nth)
  qed
  ultimately show ?thesis using k(1) r by (auto simp: rb_addFragment_def Let_def prefixOf_def rb_getTotalLength_def)
qed

end
