(* ===== verification/Ip_Fragment.thy ===== *)
theory Ip_Fragment
  imports Ip_Reassembly
begin

text \<open>
  Fragmentation and reassembly of IPv4 datagrams: \<open>IPv4::fragmentAndSend\<close> and \<open>IPv4::reassembleAndDeliver\<close> of
  \<open>src/inet/networklayer/ipv4/IPv4.cc\<close>, in the variants that \<open>NEWFRAGMENT\<close>, defined at the top of that file, selects, and the fragment
  buffer \<open>IPv4FragBuf.cc\<close>.
\<close>

section \<open>Datagrams\<close>

text \<open>
  A packet is raw bytes or a message object; its length is a field of its own (\<open>cPacket\<close>). Of an ICMP message the type and the transport
  protocol of the datagram it reports about matter here.
\<close>

datatype packet_body = RawBytes "u8 list" | IcmpMessage int int | Message nat

record ip_packet =
  pkLength :: int
  pkBody :: packet_body

record ip_datagram =
  srcAddress :: u32
  destAddress :: u32
  transportProtocol :: int
  timeToLive :: int
  arrivalIf :: "int option"
  identification :: int
  moreFragments :: bool
  dontFragment :: bool
  fragmentOffset :: int
  totalLengthField :: int
  typeOfService :: u8
  totalPayloadLength :: u32
  ipHeaderLength :: int
  ipByteLength :: int
  encapsulated :: "ip_packet option"

text \<open>\<open>cPacket::decapsulate\<close> and \<open>encapsulate\<close> move the length of the inner packet out of and into the outer one.\<close>

definition decapsulate :: "ip_datagram \<Rightarrow> (ip_packet option \<times> ip_datagram) res" where
  "decapsulate dg =
     (case encapsulated dg of
        None \<Rightarrow> Inr (None, dg)
      | Some p \<Rightarrow>
          let n = (if 0 < ipByteLength dg then ipByteLength dg - pkLength p else ipByteLength dg)
          in if n < 0 then Inl (RuntimeError ''packet length is smaller than encapsulated packet'')
             else Inr (Some p, dg\<lparr>ipByteLength := n, encapsulated := None\<rparr>))"

definition encapsulate :: "ip_packet \<Rightarrow> ip_datagram \<Rightarrow> ip_datagram res" where
  "encapsulate p dg =
     (if encapsulated dg \<noteq> None then Inl (RuntimeError ''another packet already encapsulated'')
      else Inr (dg\<lparr>ipByteLength := ipByteLength dg + pkLength p, encapsulated := Some p\<rparr>))"

datatype icmp_error = ICMP_TIME_EXCEEDED | ICMP_DU_FRAGMENTATION_NEEDED

datatype ip_output = ToOutput ip_datagram | IcmpError ip_datagram icmp_error | LocalDeliver ip_datagram

section \<open>Fragmentation\<close>

record ip_interface =
  ifMtu :: int
  ifAddress :: u32

text \<open>Parameters of the module: whether the MANET protocol is DSR and whether the WLAN interface hops frequencies.\<close>

record ip_config =
  isDsr :: bool
  freqHop :: bool
  fragmentTimeoutTime :: simtime

text \<open>One fragment; \<open>datagram\<close> is the one without its payload.\<close>

definition makeFragment :: "ip_config \<Rightarrow> ip_datagram \<Rightarrow> ip_packet \<Rightarrow> int \<Rightarrow> int \<Rightarrow> int \<Rightarrow> ip_datagram res" where
  "makeFragment cfg datagram payload headerLength fragmentLength off1 =
     (let lastFragment = (off1 + fragmentLength \<ge> pkLength payload);
          thisFragmentLength = (if lastFragment then pkLength payload - off1 else fragmentLength);
          payloadFrag = payload\<lparr>pkLength := thisFragmentLength\<rparr>;
          fragment = (if lastFragment then datagram else datagram\<lparr>moreFragments := True\<rparr>)
      in bindR (encapsulate payloadFrag (fragment\<lparr>ipByteLength := headerLength\<rparr>)) (\<lambda>f1.
         let f2 = (if freqHop cfg then f1\<lparr>totalLengthField := headerLength + thisFragmentLength\<rparr> else f1)
         in Inr (f2\<lparr>fragmentOffset := fragmentOffset datagram + off1\<rparr>)))"

function fragmentLoop :: "ip_config \<Rightarrow> ip_datagram \<Rightarrow> ip_packet \<Rightarrow> int \<Rightarrow> int \<Rightarrow> int \<Rightarrow> ip_datagram list res" where
  "fragmentLoop cfg datagram payload headerLength fragmentLength off1 =
     (if off1 < pkLength payload \<and> 0 < fragmentLength
      then bindR (makeFragment cfg datagram payload headerLength fragmentLength off1) (\<lambda>f.
           bindR (fragmentLoop cfg datagram payload headerLength fragmentLength (off1 + fragmentLength)) (\<lambda>fs. Inr (f # fs)))
      else Inr [])"
  by pat_completeness auto
termination
  by (relation "measure (\<lambda>(cfg, d, p, h, l, x). nat (pkLength p - x))") auto

declare fragmentLoop.simps [simp del]

text \<open>The outputs, and by how much \<open>numDropped\<close> grows. Only a positive quotient matters, so the rounding of the division does not.\<close>

definition fragmentAndSend :: "ip_config \<Rightarrow> ip_interface \<Rightarrow> ip_datagram \<Rightarrow> (ip_output list \<times> nat) res" where
  "fragmentAndSend cfg ie datagram =
     (let dg = (if srcAddress datagram = 0 then datagram\<lparr>srcAddress := ifAddress ie\<rparr> else datagram) in
      if timeToLive dg \<le> 0 then Inr ([IcmpError dg ICMP_TIME_EXCEEDED], 1)
      else if ifMtu ie = 0 \<or> ipByteLength dg \<le> ifMtu ie
      then
        let dg1 = (if freqHop cfg
                   then (case encapsulated dg of None \<Rightarrow> dg | Some p \<Rightarrow> dg\<lparr>totalPayloadLength := of_int (pkLength p)\<rparr>)\<lparr>totalLengthField := ipByteLength dg\<rparr>
                   else dg)
        in Inr ([ToOutput dg1], 0)
      else
        let dg1 = (case encapsulated dg of None \<Rightarrow> dg | Some p \<Rightarrow> dg\<lparr>totalPayloadLength := of_int (pkLength p)\<rparr>)
        in if dontFragment dg1 then Inr ([IcmpError dg1 ICMP_DU_FRAGMENTATION_NEEDED], 1)
           else
             bindR (decapsulate dg1) (\<lambda>(p, dg2).
             case p of
               None \<Rightarrow> Inl (RuntimeError ''null payload'')
             | Some payload \<Rightarrow>
                 let headerLength = ipByteLength dg2;
                     mtu = (if isDsr cfg then ifMtu ie - 30 else ifMtu ie);
                     fragmentLength = ((mtu - headerLength) div 8) * 8
                 in if fragmentLength \<le> 0 then Inl (RuntimeError ''Cannot fragment datagram: MTU too small for header size'')
                    else bindR (fragmentLoop cfg dg2 payload headerLength fragmentLength 0) (\<lambda>fs. Inr (map ToOutput fs, 0))))"

section \<open>The fragment buffer\<close>

type_synonym frag_key = "u16 \<times> u32 \<times> u32"

record datagram_buffer =
  db_buf :: reassembly_buffer
  db_datagram :: "ip_datagram option"
  db_lastupdate :: simtime

definition fragKey :: "ip_datagram \<Rightarrow> frag_key" where
  "fragKey dg = (of_int (identification dg), srcAddress dg, destAddress dg)"

definition keyLess :: "frag_key \<Rightarrow> frag_key \<Rightarrow> bool" where
  "keyLess a b = (case (a, b) of ((i, s, d), (j, t, e)) \<Rightarrow> if i \<noteq> j then i < j else if s \<noteq> t then s < t else d < e)"

text \<open>A \<open>std::map\<close>, as the list of its entries in the order of the keys.\<close>

fun putBuf :: "frag_key \<Rightarrow> datagram_buffer \<Rightarrow> (frag_key \<times> datagram_buffer) list \<Rightarrow> (frag_key \<times> datagram_buffer) list" where
  "putBuf k b [] = [(k, b)]"
| "putBuf k b (x # xs) = (if fst x = k then (k, b) # xs else if keyLess k (fst x) then (k, b) # x # xs else x # putBuf k b xs)"

definition eraseBuf :: "frag_key \<Rightarrow> (frag_key \<times> datagram_buffer) list \<Rightarrow> (frag_key \<times> datagram_buffer) list" where
  "eraseBuf k xs = filter (\<lambda>x. fst x \<noteq> k) xs"

text \<open>Offsets are not negative. \<open>expandData\<close> leaves the bytes it adds unfilled, here zero, and \<open>copyDataFromBuffer\<close> those of a gap.\<close>

definition expandData :: "nat \<Rightarrow> nat \<Rightarrow> u8 list \<Rightarrow> u8 list" where
  "expandData addleft addright d = replicate addleft 0 @ d @ replicate addright 0"

definition copyDataFromBuffer :: "nat \<Rightarrow> u8 list \<Rightarrow> u8 list \<Rightarrow> u8 list" where
  "copyDataFromBuffer destOffset ptr d =
     (let nlength = destOffset + length ptr; d1 = (if length d < nlength then d @ replicate (nlength - length d) 0 else d)
      in take destOffset d1 @ ptr @ drop nlength d1)"

definition storeFirst :: "ip_datagram \<Rightarrow> ip_datagram" where
  "storeFirst dg =
     (case encapsulated dg of
        Some p \<Rightarrow> (case pkBody p of
          RawBytes d \<Rightarrow>
            if fragmentOffset dg \<noteq> 0
            then dg\<lparr>encapsulated := Some \<lparr>pkLength = pkLength p + fragmentOffset dg, pkBody = RawBytes (expandData (nat (fragmentOffset dg)) 0 d)\<rparr>\<rparr>
            else dg
        | _ \<Rightarrow> dg)
      | None \<Rightarrow> dg)"

definition storeContent :: "ip_datagram \<Rightarrow> ip_datagram" where
  "storeContent dg =
     (case encapsulated dg of
        Some p \<Rightarrow> (case pkBody p of
          RawBytes d \<Rightarrow>
            if fragmentOffset dg \<noteq> 0
            then (let d1 = expandData (nat (fragmentOffset dg)) 0 d in dg\<lparr>encapsulated := Some \<lparr>pkLength = int (length d1), pkBody = RawBytes d1\<rparr>\<rparr>)
            else dg
        | _ \<Rightarrow> dg)
      | None \<Rightarrow> dg)"

definition mergeRaw :: "ip_datagram \<Rightarrow> ip_datagram \<Rightarrow> ip_datagram" where
  "mergeRaw stored dg =
     (case (encapsulated stored, encapsulated dg) of
        (Some bp, Some p) \<Rightarrow>
          (case (pkBody bp, pkBody p) of
             (RawBytes bd, RawBytes d) \<Rightarrow>
               stored\<lparr>encapsulated := Some \<lparr>pkLength = int (length d), pkBody = RawBytes (copyDataFromBuffer (nat (fragmentOffset dg)) d bd)\<rparr>\<rparr>
           | _ \<Rightarrow> stored)
      | _ \<Rightarrow> stored)"

text \<open>
  \<open>lookupAndDeserialize\<close> is the registry of the serializers: a function from the protocol, the addresses and the bytes to a packet,
  if one is registered.
\<close>

definition deserializeContent :: "(int \<Rightarrow> u32 \<times> u32 \<Rightarrow> u8 list \<Rightarrow> ip_packet option) \<Rightarrow> ip_datagram \<Rightarrow> ip_datagram res" where
  "deserializeContent deser dg =
     (case encapsulated dg of
        Some p \<Rightarrow> (case pkBody p of
          RawBytes d \<Rightarrow>
            (case deser (transportProtocol dg) (srcAddress dg, destAddress dg) d of
               None \<Rightarrow> Inr dg
             | Some enc \<Rightarrow> bindR (decapsulate dg) (\<lambda>(_, dg1). encapsulate enc dg1))
        | _ \<Rightarrow> Inr dg)
      | None \<Rightarrow> Inr dg)"

definition addFragment :: "(int \<Rightarrow> u32 \<times> u32 \<Rightarrow> u8 list \<Rightarrow> ip_packet option) \<Rightarrow> ip_datagram \<Rightarrow> simtime \<Rightarrow>
    (frag_key \<times> datagram_buffer) list \<Rightarrow> (ip_datagram option \<times> (frag_key \<times> datagram_buffer) list) res" where
  "addFragment deser dg now bufs =
     (let key = fragKey dg;
          i = map_of bufs key;
          buf = (case i of None \<Rightarrow> \<lparr>db_buf = rb_new, db_datagram = None, db_lastupdate = 0\<rparr> | Some b \<Rightarrow> b);
          bytes = ipByteLength dg - ipHeaderLength dg;
          (isComplete, rb) = rb_addFragment (of_int (fragmentOffset dg)) (of_int (fragmentOffset dg + bytes)) (\<not> moreFragments dg) (db_buf buf);
          stored = (case db_datagram buf of
                      None \<Rightarrow> storeFirst dg
                    | Some s \<Rightarrow> if encapsulated s = None \<and> encapsulated dg \<noteq> None then storeContent dg else mergeRaw s dg)
      in if isComplete
         then
           if i = None then Inl (RuntimeError ''erase of the end of the map'')
           else
             let ret = stored\<lparr>ipByteLength := ipHeaderLength stored + int (unat (rb_getTotalLength rb)), fragmentOffset := 0, moreFragments := False\<rparr>
             in bindR (deserializeContent deser ret) (\<lambda>ret1. Inr (Some ret1, eraseBuf key bufs))
         else Inr (None, putBuf key (buf\<lparr>db_buf := rb, db_datagram := Some stored, db_lastupdate := now\<rparr>) bufs))"

text \<open>The entries that are too old are removed, with an ICMP message each.\<close>

definition purgeStaleFragments :: "simtime \<Rightarrow> (frag_key \<times> datagram_buffer) list \<Rightarrow> ip_output list \<times> (frag_key \<times> datagram_buffer) list" where
  "purgeStaleFragments lastupdate bufs =
     (concat (map (\<lambda>x. case db_datagram (snd x) of None \<Rightarrow> [] | Some dg \<Rightarrow> [IcmpError dg ICMP_TIME_EXCEEDED])
        (filter (\<lambda>x. db_lastupdate (snd x) < lastupdate) bufs)),
      filter (\<lambda>x. \<not> db_lastupdate (snd x) < lastupdate) bufs)"

section \<open>Delivery\<close>

record ip_layer =
  lastCheckTime :: simtime
  fragbuf :: "(frag_key \<times> datagram_buffer) list"

text \<open>The length of the payload is restored before the fragment is stored.\<close>

definition restorePayload :: "ip_datagram \<Rightarrow> ip_datagram res" where
  "restorePayload dg =
     (if 0 < totalPayloadLength dg
      then case encapsulated dg of
             None \<Rightarrow> Inl (RuntimeError ''null payload'')
           | Some p \<Rightarrow>
               if int (unat (totalPayloadLength dg)) \<noteq> pkLength p
               then bindR (decapsulate dg) (\<lambda>(_, dg1).
                    bindR (encapsulate (p\<lparr>pkLength := int (unat (totalPayloadLength dg))\<rparr>) (dg1\<lparr>ipHeaderLength := ipByteLength dg1\<rparr>)) (\<lambda>dg2.
                    Inr (dg2\<lparr>ipByteLength := ipByteLength dg\<rparr>)))
               else Inr dg
      else Inr dg)"

text \<open>\<open>accept\<close> is the verdict of the netfilter hooks on local input.\<close>

definition reassembleAndDeliver :: "ip_config \<Rightarrow> (int \<Rightarrow> u32 \<times> u32 \<Rightarrow> u8 list \<Rightarrow> ip_packet option) \<Rightarrow> (ip_datagram \<Rightarrow> bool) \<Rightarrow> simtime \<Rightarrow> ip_datagram \<Rightarrow>
    ip_layer \<Rightarrow> (ip_output list \<times> ip_layer) res" where
  "reassembleAndDeliver cfg deser accept t dg l =
     (if fragmentOffset dg \<noteq> 0 \<or> moreFragments dg
      then
        let (outs, l1) = (if t \<ge> lastCheckTime l + 10
                          then case purgeStaleFragments (t - fragmentTimeoutTime cfg) (fragbuf l) of (outs, bufs) \<Rightarrow> (outs, l\<lparr>lastCheckTime := t, fragbuf := bufs\<rparr>)
                          else ([], l))
        in bindR (restorePayload dg) (\<lambda>dg1.
           bindR (addFragment deser dg1 t (fragbuf l1)) (\<lambda>(r, bufs).
           case r of
             None \<Rightarrow> Inr (outs, l1\<lparr>fragbuf := bufs\<rparr>)
           | Some d \<Rightarrow> Inr (outs @ (if accept d then [LocalDeliver d] else []), l1\<lparr>fragbuf := bufs\<rparr>)))
      else Inr (if accept dg then [LocalDeliver dg] else [], l))"

section \<open>The fragments of a datagram\<close>

definition fragOf :: "ip_config \<Rightarrow> ip_datagram \<Rightarrow> ip_packet \<Rightarrow> int \<Rightarrow> int \<Rightarrow> int \<Rightarrow> ip_datagram" where
  "fragOf cfg dg p h n x =
     (let len = (if x + n \<ge> pkLength p then pkLength p - x else n) in
      dg\<lparr>moreFragments := (moreFragments dg \<or> x + n < pkLength p), encapsulated := Some (p\<lparr>pkLength := len\<rparr>), ipByteLength := h + len,
         totalLengthField := (if freqHop cfg then h + len else totalLengthField dg), fragmentOffset := fragmentOffset dg + x\<rparr>)"

lemma makeFragment_fragOf:
  "encapsulated dg = None \<Longrightarrow> makeFragment cfg dg p h n x = Inr (fragOf cfg dg p h n x)"
  by (cases dg) (simp add: makeFragment_def fragOf_def encapsulate_def Let_def)

text \<open>The number of fragments from an offset on.\<close>

definition fragCount :: "int \<Rightarrow> int \<Rightarrow> int \<Rightarrow> nat" where
  "fragCount len n x = nat ((len - x + n - 1) div n)"

lemma fragCount_step:
  assumes "x < len" "0 < n"
  shows "fragCount len n x = Suc (fragCount len n (x + n))"
proof -
  have "(len - x + n - 1) div n = (len - x - 1) div n + 1" using assms(2) div_add_self2 [of n "len - x - 1"] by (simp add: algebra_simps)
  moreover have "len - (x + n) + n - 1 = len - x - 1" by simp
  moreover have "0 \<le> (len - x - 1) div n" using assms by (simp add: pos_imp_zdiv_nonneg_iff)
  ultimately show ?thesis by (simp add: fragCount_def)
qed

lemma fragmentLoop_fragOf:
  assumes "encapsulated dg = None" "0 < n"
  shows "fragmentLoop cfg dg p h n x = Inr (map (\<lambda>k. fragOf cfg dg p h n (x + int k * n)) [0..<fragCount (pkLength p) n x])"
proof (induction "nat (pkLength p - x)" arbitrary: x rule: less_induct)
  case less
  show ?case
  proof (cases "x < pkLength p")
    case True
    have IH: "fragmentLoop cfg dg p h n (x + n) = Inr (map (\<lambda>k. fragOf cfg dg p h n (x + n + int k * n)) [0..<fragCount (pkLength p) n (x + n)])"
      using less.hyps [of "x + n"] True assms(2) by simp
    have "fragmentLoop cfg dg p h n x = Inr (fragOf cfg dg p h n x # map (\<lambda>k. fragOf cfg dg p h n (x + n + int k * n)) [0..<fragCount (pkLength p) n (x + n)])"
      using True assms by (subst fragmentLoop.simps) (simp add: makeFragment_fragOf IH)
    also have "\<dots> = Inr (map (\<lambda>k. fragOf cfg dg p h n (x + int k * n)) [0..<Suc (fragCount (pkLength p) n (x + n))])"
      by (simp add: upt_conv_Cons map_Suc_upt [symmetric] algebra_simps del: upt_Suc)
    finally show ?thesis using fragCount_step [OF True assms(2)] by simp
  next
    case False
    then have "(pkLength p - x + n - 1) div n \<le> 0" using assms(2) div_pos_pos_trivial [of "pkLength p - x + n - 1" n] zdiv_mono1 [of "pkLength p - x + n - 1" "n - 1" n] by simp
    then show ?thesis using False by (subst fragmentLoop.simps) (simp add: fragCount_def)
  qed
qed

text \<open>The offsets at which the datagram is cut.\<close>

definition cutsOf :: "int \<Rightarrow> int \<Rightarrow> nat list" where
  "cutsOf len n = map (\<lambda>k. k * nat n) [0..<fragCount len n 0] @ [nat len]"

lemma le_div_int: "0 < n \<Longrightarrow> a \<le> b div n \<longleftrightarrow> a * n \<le> b" for a b n :: int
proof
  assume n: "0 < n" and "a \<le> b div n"
  then have "a * n \<le> b div n * n" by (intro mult_right_mono) simp_all
  also have "\<dots> \<le> b" using n by (simp add: minus_mod_eq_div_mult [symmetric])
  finally show "a * n \<le> b" .
next
  assume "0 < n" "a * n \<le> b"
  then show "a \<le> b div n" using zdiv_mono1 [of "a * n" b n] by simp
qed

lemma fragCount_bounds:
  assumes "0 < n" "n < len"
  shows "2 \<le> fragCount len n 0" "int k < int (fragCount len n 0) \<longleftrightarrow> int k * n < len"
proof -
  have *: "int k < (len + n - 1) div n \<longleftrightarrow> int k * n < len" for k
  proof -
    have "int k < (len + n - 1) div n \<longleftrightarrow> int k + 1 \<le> (len + n - 1) div n" by linarith
    also have "\<dots> \<longleftrightarrow> (int k + 1) * n \<le> len + n - 1" using assms(1) by (rule le_div_int)
    also have "\<dots> \<longleftrightarrow> int k * n < len" by (simp add: algebra_simps) linarith
    finally show ?thesis .
  qed
  have nn: "0 \<le> (len + n - 1) div n" using assms by (simp add: pos_imp_zdiv_nonneg_iff)
  then show "int k < int (fragCount len n 0) \<longleftrightarrow> int k * n < len" using * [of k] by (simp add: fragCount_def)
  show "2 \<le> fragCount len n 0" using * [of 1] assms(2) nn by (simp add: fragCount_def)
qed

lemma cutsOf_ok:
  assumes "0 < n" "n < len" "len < 2 ^ 16"
  shows "cutsOk (cutsOf len n)" "pieces (cutsOf len n) = fragCount len n 0" "last (cutsOf len n) = nat len"
proof -
  let ?c = "fragCount len n 0"
  note b = fragCount_bounds [OF assms(1,2)]
  have mono: "sorted_wrt (<) (map (\<lambda>k. k * nat n) [0..<?c])" using assms(1) by (simp add: sorted_wrt_map sorted_wrt_upt strict_sorted_simps sorted_wrt_iff_nth_less)
  have "k * nat n < nat len" if "k < ?c" for k
  proof -
    have "int k * n < len" using that b(2) by simp
    then have "int (k * nat n) < len" using assms(1) by simp
    then show ?thesis by linarith
  qed
  then have "sorted_wrt (<) (cutsOf len n)" using mono by (auto simp: cutsOf_def sorted_wrt_append)
  moreover have "hd (cutsOf len n) = 0" using b(1) by (simp add: cutsOf_def hd_append hd_map upt_rec)
  ultimately show "cutsOk (cutsOf len n)" using b(1) assms(2,3) assms(1) by (simp add: cutsOk_def cutsOf_def)
qed (simp_all add: cutsOf_def pieces_def)

lemma piece_cutsOf:
  assumes "0 < n" "n < len" "i < fragCount len n 0"
  shows "piece (cutsOf len n) i = \<lparr>fr_beg = of_int (int i * n), fr_end = of_int (if int i * n + n \<ge> len then len else int i * n + n), fr_islast = (int i * n + n \<ge> len)\<rparr>"
proof -
  let ?c = "fragCount len n 0"
  have l: "int i * n + n \<ge> len \<longleftrightarrow> i + 1 = ?c"
    using fragCount_bounds(2) [OF assms(1,2), of "i + 1"] assms(3) by (auto simp: algebra_simps)
  have w: "(of_nat (k * nat n) :: u16) = of_int (int k * n)" for k
    using of_int_of_nat_eq [of "k * nat n", where ?'a = "16 word"] assms(1) by simp
  have e: "cutsOf len n ! (i + 1) = (if i + 1 = ?c then nat len else (i + 1) * nat n)" using assms(3) by (auto simp: cutsOf_def nth_append)
  have "(of_nat (nat len) :: u16) = of_int len" using of_int_of_nat_eq [of "nat len", where ?'a = "16 word"] assms(1,2) by simp
  then have "(of_nat (cutsOf len n ! (i + 1)) :: u16) = of_int (if int i * n + n \<ge> len then len else int i * n + n)"
    unfolding e using l w [of "i + 1"] by (simp add: algebra_simps)
  moreover have "cutsOf len n ! i = i * nat n" using assms(3) by (simp add: cutsOf_def nth_append)
  ultimately show ?thesis using w [of i] l by (simp add: piece_def pieces_def cutsOf_def)
qed

text \<open>What a datagram without its payload looks like when it is cut up.\<close>

definition fragBase :: "ip_interface \<Rightarrow> ip_datagram \<Rightarrow> ip_packet \<Rightarrow> ip_datagram" where
  "fragBase ie d p = d\<lparr>srcAddress := (if srcAddress d = 0 then ifAddress ie else srcAddress d), totalPayloadLength := of_int (pkLength p),
     ipByteLength := ipByteLength d - pkLength p, encapsulated := None\<rparr>"

definition fragSize :: "ip_config \<Rightarrow> ip_interface \<Rightarrow> ip_datagram \<Rightarrow> ip_packet \<Rightarrow> int" where
  "fragSize cfg ie d p = (((if isDsr cfg then ifMtu ie - 30 else ifMtu ie) - (ipByteLength d - pkLength p)) div 8) * 8"

text \<open>
  A datagram that a router cuts up: it may be fragmented and is too long for the interface. A whole one, not too long for the offsets, is
  \<open>fragmentable\<close>.
\<close>

definition cuttable :: "ip_config \<Rightarrow> ip_interface \<Rightarrow> ip_datagram \<Rightarrow> ip_packet \<Rightarrow> bool" where
  "cuttable cfg ie d p \<longleftrightarrow> encapsulated d = Some p \<and> 0 < timeToLive d \<and> \<not> dontFragment d \<and> 0 \<le> ipHeaderLength d \<and>
     ipByteLength d = ipHeaderLength d + pkLength p \<and> 0 < ifMtu ie \<and> ifMtu ie < ipByteLength d \<and> 0 < fragSize cfg ie d p"

definition fragmentable :: "ip_config \<Rightarrow> ip_interface \<Rightarrow> ip_datagram \<Rightarrow> ip_packet \<Rightarrow> bool" where
  "fragmentable cfg ie d p \<longleftrightarrow> cuttable cfg ie d p \<and> fragmentOffset d = 0 \<and> \<not> moreFragments d \<and> pkLength p < 2 ^ 16"

lemma fragmentable_cuttable: "fragmentable cfg ie d p \<Longrightarrow> cuttable cfg ie d p"
  by (simp add: fragmentable_def)

definition fragmentsOf :: "ip_config \<Rightarrow> ip_interface \<Rightarrow> ip_datagram \<Rightarrow> ip_packet \<Rightarrow> ip_datagram list" where
  "fragmentsOf cfg ie d p = (let n = fragSize cfg ie d p in
     map (\<lambda>k. fragOf cfg (fragBase ie d p) p (ipHeaderLength d) n (int k * n)) [0..<fragCount (pkLength p) n 0])"

lemma fragSize_less:
  assumes "cuttable cfg ie d p"
  shows "0 < fragSize cfg ie d p" "fragSize cfg ie d p < pkLength p"
proof -
  let ?h = "ipByteLength d - pkLength p" and ?m = "if isDsr cfg then ifMtu ie - 30 else ifMtu ie"
  have "(?m - ?h) div 8 * 8 \<le> ?m - ?h" by simp
  then have "fragSize cfg ie d p \<le> ifMtu ie - ?h" unfolding fragSize_def by (auto split: if_splits)
  then show "fragSize cfg ie d p < pkLength p" using assms unfolding cuttable_def by linarith
qed (use assms in \<open>simp add: cuttable_def\<close>)

lemma fragmentAndSend_fragments:
  assumes fr: "cuttable cfg ie d p"
  shows "fragmentAndSend cfg ie d = Inr (map ToOutput (fragmentsOf cfg ie d p), 0)"
proof -
  define s where "s = (if srcAddress d = 0 then d\<lparr>srcAddress := ifAddress ie\<rparr> else d)"
  define n where "n = fragSize cfg ie d p"
  have s: "timeToLive s = timeToLive d" "ipByteLength s = ipByteLength d" "encapsulated s = encapsulated d" "dontFragment s = dontFragment d" by (simp_all add: s_def)
  note f = fr [unfolded cuttable_def]
  have "\<not> timeToLive s \<le> 0" "\<not> (ifMtu ie = 0 \<or> ipByteLength s \<le> ifMtu ie)" "encapsulated s = Some p" "\<not> dontFragment (s\<lparr>totalPayloadLength := of_int (pkLength p)\<rparr>)"
    using f s by auto
  moreover have "decapsulate (s\<lparr>totalPayloadLength := of_int (pkLength p)\<rparr>) = Inr (Some p, fragBase ie d p)"
    using f by (cases d) (auto simp: decapsulate_def fragBase_def s_def)
  moreover have "ipByteLength (fragBase ie d p) = ipHeaderLength d" using f by (simp add: fragBase_def)
  moreover have "((if isDsr cfg then ifMtu ie - 30 else ifMtu ie) - ipHeaderLength d) div 8 * 8 = n" using f by (simp add: n_def fragSize_def)
  moreover have "0 < n" using f by (simp add: n_def)
  moreover from this have "fragmentLoop cfg (fragBase ie d p) p (ipHeaderLength d) n 0 = Inr (fragmentsOf cfg ie d p)"
    using fragmentLoop_fragOf [of "fragBase ie d p" n cfg p "ipHeaderLength d" 0] by (simp add: fragBase_def fragmentsOf_def n_def [symmetric] Let_def)
  ultimately show ?thesis unfolding fragmentAndSend_def Let_def s_def [symmetric] by simp
qed

lemma fragments_sent:
  assumes "cuttable cfg ie d p" "fragmentAndSend cfg ie d = Inr (map ToOutput frags, 0)"
  shows "frags = fragmentsOf cfg ie d p"
proof -
  have "map ToOutput frags = map ToOutput (fragmentsOf cfg ie d p)" using fragmentAndSend_fragments [OF assms(1)] assms(2) by simp
  then show ?thesis by (subst (asm) inj_map_eq_map) (auto simp: inj_on_def)
qed

section \<open>Reassembly\<close>

lemma map_of_putBuf [simp]: "map_of (putBuf k b xs) = (map_of xs)(k \<mapsto> b)"
  by (induction k b xs rule: putBuf.induct) (auto simp: fun_eq_iff)

lemma set_putBuf: "set (putBuf k b xs) \<subseteq> insert (k, b) (set xs)"
  by (induction k b xs rule: putBuf.induct) auto

lemma map_of_eraseBuf [simp]: "map_of (eraseBuf k xs) = (map_of xs)(k := None)"
  by (induction xs) (auto simp: eraseBuf_def fun_eq_iff)

lemma map_of_filter_keep: "map_of xs k = Some b \<Longrightarrow> P (k, b) \<Longrightarrow> map_of (filter P xs) k = Some b"
  by (induction xs) auto

lemma map_of_filter_None: "map_of xs k = None \<Longrightarrow> map_of (filter P xs) k = None"
  by (induction xs) auto

text \<open>Every stored fragment is filed under its own key.\<close>

definition keysOk :: "(frag_key \<times> datagram_buffer) list \<Rightarrow> bool" where
  "keysOk bufs \<longleftrightarrow> (\<forall>(k, b) \<in> set bufs. \<forall>s. db_datagram b = Some s \<longrightarrow> fragKey s = k)"

lemma keysOk_filter: "keysOk bufs \<Longrightarrow> keysOk (filter P bufs)"
  by (auto simp: keysOk_def)

lemma keysOk_erase: "keysOk bufs \<Longrightarrow> keysOk (eraseBuf k bufs)"
  by (simp add: eraseBuf_def keysOk_filter)

lemma keysOk_put: "keysOk bufs \<Longrightarrow> (\<And>s. db_datagram b = Some s \<Longrightarrow> fragKey s = k) \<Longrightarrow> keysOk (putBuf k b bufs)"
  using set_putBuf [of k b bufs] by (fastforce simp: keysOk_def)

lemma keysOk_lookup: "keysOk bufs \<Longrightarrow> map_of bufs k = Some b \<Longrightarrow> db_datagram b = Some s \<Longrightarrow> fragKey s = k"
  using map_of_SomeD [of bufs k b] by (fastforce simp: keysOk_def)

lemma decapsulate_key: "decapsulate dg = Inr (p, dg') \<Longrightarrow> fragKey dg' = fragKey dg"
  by (auto simp: decapsulate_def fragKey_def Let_def split: option.splits if_splits)

lemma encapsulate_key: "encapsulate p dg = Inr dg' \<Longrightarrow> fragKey dg' = fragKey dg"
  by (auto simp: encapsulate_def fragKey_def split: if_splits)

lemma restorePayload_key: "restorePayload dg = Inr dg' \<Longrightarrow> fragKey dg' = fragKey dg"
  by (auto simp: restorePayload_def bindR_eq_Inr fragKey_def dest!: decapsulate_key encapsulate_key split: if_splits option.splits)

lemma deserializeContent_key: "deserializeContent deser dg = Inr dg' \<Longrightarrow> fragKey dg' = fragKey dg"
  by (auto simp: deserializeContent_def bindR_eq_Inr dest!: decapsulate_key encapsulate_key split: option.splits packet_body.splits)

lemma stored_key: "fragKey (storeFirst dg) = fragKey dg" "fragKey (storeContent dg) = fragKey dg" "fragKey (mergeRaw s dg) = fragKey s"
  by (auto simp: storeFirst_def storeContent_def mergeRaw_def fragKey_def Let_def split: option.splits packet_body.splits)

text \<open>A fragment touches only the buffer of its key, and what it completes has that key.\<close>

lemma addFragment_key:
  assumes a: "addFragment deser dg now bufs = Inr (r, bufs')" and k: "keysOk bufs"
  shows "keysOk bufs'" "\<forall>k'. k' \<noteq> fragKey dg \<longrightarrow> map_of bufs' k' = map_of bufs k'" "\<forall>d. r = Some d \<longrightarrow> fragKey d = fragKey dg"
proof -
  define buf where "buf = (case map_of bufs (fragKey dg) of None \<Rightarrow> \<lparr>db_buf = rb_new, db_datagram = None, db_lastupdate = 0\<rparr> | Some b \<Rightarrow> b)"
  define stored where "stored = (case db_datagram buf of None \<Rightarrow> storeFirst dg
    | Some s \<Rightarrow> if encapsulated s = None \<and> encapsulated dg \<noteq> None then storeContent dg else mergeRaw s dg)"
  have "fragKey s = fragKey dg" if "db_datagram buf = Some s" for s
    using that keysOk_lookup [OF k] by (auto simp: buf_def split: option.splits)
  then have st: "fragKey stored = fragKey dg" by (auto simp: stored_def stored_key split: option.splits)
  obtain c rb where rb: "rb_addFragment (of_int (fragmentOffset dg)) (of_int (fragmentOffset dg + (ipByteLength dg - ipHeaderLength dg))) (\<not> moreFragments dg) (db_buf buf) = (c, rb)"
    by fastforce
  note a' = a [unfolded addFragment_def Let_def, folded buf_def, unfolded rb, simplified, folded stored_def]
  have key: "fragKey (stored\<lparr>ipByteLength := x, fragmentOffset := 0, moreFragments := False\<rparr>) = fragKey dg" for x using st by (simp add: fragKey_def)
  show "keysOk bufs'" using a' k st by (auto simp: bindR_eq_Inr split: if_splits intro: keysOk_erase keysOk_put)
  show "\<forall>k'. k' \<noteq> fragKey dg \<longrightarrow> map_of bufs' k' = map_of bufs k'" using a' by (auto simp: bindR_eq_Inr split: if_splits)
  show "\<forall>d. r = Some d \<longrightarrow> fragKey d = fragKey dg" using a' key by (auto simp: bindR_eq_Inr dest!: deserializeContent_key split: if_splits)
qed

text \<open>Datagrams that arrive one after the other, each at its time.\<close>

fun deliverEach :: "ip_config \<Rightarrow> (int \<Rightarrow> u32 \<times> u32 \<Rightarrow> u8 list \<Rightarrow> ip_packet option) \<Rightarrow> (ip_datagram \<Rightarrow> bool) \<Rightarrow> (simtime \<times> ip_datagram) list \<Rightarrow>
    ip_layer \<Rightarrow> (ip_output list \<times> ip_layer) res" where
  "deliverEach cfg deser accept [] l = Inr ([], l)"
| "deliverEach cfg deser accept ((t, dg) # rest) l =
     bindR (reassembleAndDeliver cfg deser accept t dg l) (\<lambda>(o1, l1). bindR (deliverEach cfg deser accept rest l1) (\<lambda>(o2, l2). Inr (o1 @ o2, l2)))"

text \<open>What is delivered under a key.\<close>

definition delivered :: "frag_key \<Rightarrow> ip_output list \<Rightarrow> ip_datagram list" where
  "delivered K outs = concat (map (\<lambda>x. case x of LocalDeliver d \<Rightarrow> if fragKey d = K then [d] else [] | _ \<Rightarrow> []) outs)"

lemma delivered_simps [simp]:
  "delivered K [] = []" "delivered K (xs @ ys) = delivered K xs @ delivered K ys"
  "delivered K (LocalDeliver d # xs) = (if fragKey d = K then [d] else []) @ delivered K xs"
  by (simp_all add: delivered_def)

lemma delivered_purge: "purgeStaleFragments t bufs = (outs, bufs') \<Longrightarrow> delivered K outs = []"
  by (auto simp: delivered_def purgeStaleFragments_def split: option.splits)

text \<open>The purge that precedes a fragment.\<close>

definition purgeStep :: "ip_config \<Rightarrow> simtime \<Rightarrow> ip_layer \<Rightarrow> ip_output list \<times> ip_layer" where
  "purgeStep cfg t l =
     (if t \<ge> lastCheckTime l + 10
      then case purgeStaleFragments (t - fragmentTimeoutTime cfg) (fragbuf l) of (outs, bufs) \<Rightarrow> (outs, l\<lparr>lastCheckTime := t, fragbuf := bufs\<rparr>)
      else ([], l))"

lemma reassemble_fragment:
  assumes "fragmentOffset dg \<noteq> 0 \<or> moreFragments dg" "purgeStep cfg t l = (outs, l1)"
  shows "reassembleAndDeliver cfg deser accept t dg l = bindR (restorePayload dg) (\<lambda>dg1. bindR (addFragment deser dg1 t (fragbuf l1)) (\<lambda>(r, bufs).
     Inr (outs @ (case r of Some d \<Rightarrow> if accept d then [LocalDeliver d] else [] | None \<Rightarrow> []), l1\<lparr>fragbuf := bufs\<rparr>)))"
  using assms unfolding reassembleAndDeliver_def purgeStep_def [symmetric] by (auto simp: bindR_def fun_eq_iff split: sum.splits option.splits)

lemma purgeStep_delivered: "purgeStep cfg t l = (outs, l1) \<Longrightarrow> delivered K outs = []"
  by (auto simp: purgeStep_def dest: delivered_purge split: if_splits prod.splits)

text \<open>
  A datagram of which the fragments \<open>R\<close> have arrived since \<open>t0\<close>; the first of them is stored with the whole payload. Time to live, interface of
  arrival, total length field, offset, flag and length of that fragment are its own.
\<close>

definition storedFor :: "ip_datagram \<Rightarrow> ip_datagram \<Rightarrow> bool" where
  "storedFor D s \<longleftrightarrow> s\<lparr>timeToLive := timeToLive D, arrivalIf := arrivalIf D, totalLengthField := totalLengthField D, moreFragments := moreFragments D,
     fragmentOffset := fragmentOffset D, ipByteLength := ipByteLength D\<rparr> = D"

definition held :: "nat list \<Rightarrow> ip_datagram \<Rightarrow> simtime \<Rightarrow> nat set \<Rightarrow> ip_layer \<Rightarrow> bool" where
  "held cs D t0 R l \<longleftrightarrow> keysOk (fragbuf l) \<and>
     (if R = {} then map_of (fragbuf l) (fragKey D) = None
      else \<exists>b s. map_of (fragbuf l) (fragKey D) = Some b \<and> rbInv cs R (db_buf b) \<and> db_datagram b = Some s \<and> storedFor D s \<and> t0 \<le> db_lastupdate b)"

lemma purgeStep_held:
  assumes "purgeStep cfg t l = (outs, l1)" "held cs D t0 R l" "t \<le> t0 + fragmentTimeoutTime cfg"
  shows "held cs D t0 R l1"
proof (cases "t \<ge> lastCheckTime l + 10")
  case True
  let ?P = "\<lambda>x :: frag_key \<times> datagram_buffer. \<not> db_lastupdate (snd x) < t - fragmentTimeoutTime cfg"
  have l1: "fragbuf l1 = filter ?P (fragbuf l)" using assms(1) True by (auto simp: purgeStep_def purgeStaleFragments_def)
  have "keysOk (fragbuf l1)" using assms(2) by (simp add: l1 held_def keysOk_filter)
  moreover have "map_of (fragbuf l1) (fragKey D) = Some b" if "map_of (fragbuf l) (fragKey D) = Some b" "t0 \<le> db_lastupdate b" for b
    unfolding l1 using that assms(3) by (intro map_of_filter_keep) auto
  moreover have "map_of (fragbuf l1) (fragKey D) = None" if "map_of (fragbuf l) (fragKey D) = None"
    unfolding l1 using that by (rule map_of_filter_None)
  ultimately show ?thesis using assms(2) unfolding held_def by (cases "R = {}") auto
qed (use assms in \<open>simp add: purgeStep_def\<close>)

text \<open>Traffic under other keys leaves the datagram alone.\<close>

lemma foreign_step:
  assumes r: "reassembleAndDeliver cfg deser accept t dg l = Inr (outs, l')" and h: "held cs D t0 R l" and t: "t \<le> t0 + fragmentTimeoutTime cfg"
    and k: "fragKey dg \<noteq> fragKey D"
  shows "delivered (fragKey D) outs = [] \<and> held cs D t0 R l'"
proof (cases "fragmentOffset dg \<noteq> 0 \<or> moreFragments dg")
  case True
  obtain o1 l1 where p: "purgeStep cfg t l = (o1, l1)" by fastforce
  have h1: "held cs D t0 R l1" by (rule purgeStep_held [OF p h t])
  then have ok: "keysOk (fragbuf l1)" by (simp add: held_def)
  from r obtain dg1 r' bufs where
    a: "restorePayload dg = Inr dg1" "addFragment deser dg1 t (fragbuf l1) = Inr (r', bufs)" and
    e: "outs = o1 @ (case r' of Some d \<Rightarrow> if accept d then [LocalDeliver d] else [] | None \<Rightarrow> [])" "l' = l1\<lparr>fragbuf := bufs\<rparr>"
    by (auto simp: reassemble_fragment [OF True p] bindR_eq_Inr)
  have k1: "fragKey dg1 \<noteq> fragKey D" using restorePayload_key [OF a(1)] k by simp
  note ad = addFragment_key [OF a(2) ok]
  have "held cs D t0 R l'" using h1 ad(1) ad(2) [rule_format, of "fragKey D"] k1 unfolding held_def e(2) by (cases "R = {}") simp_all
  moreover have "delivered (fragKey D) outs = []" using ad(3) k1 purgeStep_delivered [OF p] by (auto simp: e(1) split: option.splits)
  ultimately show ?thesis by simp
next
  case False
  then show ?thesis using r h k by (auto simp: reassembleAndDeliver_def split: if_splits)
qed

text \<open>The datagram as its receiver puts it together again.\<close>

definition wholeOf :: "ip_interface \<Rightarrow> ip_datagram \<Rightarrow> ip_packet \<Rightarrow> ip_datagram" where
  "wholeOf ie d p = d\<lparr>srcAddress := (if srcAddress d = 0 then ifAddress ie else srcAddress d), totalPayloadLength := of_int (pkLength p)\<rparr>"

definition fragLen :: "int \<Rightarrow> int \<Rightarrow> int \<Rightarrow> int" where
  "fragLen len n x = (if x + n \<ge> len then len - x else n)"

lemma fragment_nth:
  assumes fr: "fragmentable cfg ie d p" and i: "i < length (fragmentsOf cfg ie d p)"
  defines "n \<equiv> fragSize cfg ie d p" and "f \<equiv> fragmentsOf cfg ie d p ! i"
  shows "fragmentOffset f = int i * n" "moreFragments f \<longleftrightarrow> int i * n + n < pkLength p" "ipByteLength f = ipHeaderLength d + fragLen (pkLength p) n (int i * n)"
    "encapsulated f = Some (p\<lparr>pkLength := fragLen (pkLength p) n (int i * n)\<rparr>)" "totalPayloadLength f = of_int (pkLength p)"
    "fragKey f = fragKey (wholeOf ie d p)" "ipHeaderLength f = ipHeaderLength d" "i < fragCount (pkLength p) n 0"
    "f = (wholeOf ie d p)\<lparr>moreFragments := moreFragments f, encapsulated := encapsulated f, ipByteLength := ipByteLength f,
       totalLengthField := totalLengthField f, fragmentOffset := fragmentOffset f\<rparr>"
proof -
  have f: "f = fragOf cfg (fragBase ie d p) p (ipHeaderLength d) n (int i * n)" and ic: "i < fragCount (pkLength p) n 0"
    using i by (simp_all add: f_def fragmentsOf_def n_def Let_def)
  note fr' = fr [unfolded fragmentable_def cuttable_def]
  show "fragmentOffset f = int i * n" "moreFragments f \<longleftrightarrow> int i * n + n < pkLength p" "ipByteLength f = ipHeaderLength d + fragLen (pkLength p) n (int i * n)"
    "encapsulated f = Some (p\<lparr>pkLength := fragLen (pkLength p) n (int i * n)\<rparr>)" "totalPayloadLength f = of_int (pkLength p)"
    "fragKey f = fragKey (wholeOf ie d p)" "ipHeaderLength f = ipHeaderLength d"
    using fr' by (simp_all add: f fragOf_def fragBase_def fragLen_def wholeOf_def fragKey_def Let_def)
  show "f = (wholeOf ie d p)\<lparr>moreFragments := moreFragments f, encapsulated := encapsulated f, ipByteLength := ipByteLength f,
       totalLengthField := totalLengthField f, fragmentOffset := fragmentOffset f\<rparr>"
    using fr' by (cases d) (simp add: f fragOf_def fragBase_def fragLen_def wholeOf_def Let_def)
  show "i < fragCount (pkLength p) n 0" by (rule ic)
qed

lemma fragLen_range:
  assumes "0 < n" "n < len" "i < fragCount len n 0"
  shows "0 < fragLen len n (int i * n)" "fragLen len n (int i * n) < len"
  using fragCount_bounds(2) [OF assms(1,2), of i] assms by (auto simp: fragLen_def)

lemma payload_word:
  fixes x :: int
  assumes "0 < x" "x < 2 ^ 16"
  shows "int (unat (of_int x :: u32)) = x"
  unfolding uint_nat [symmetric] using assms by (simp add: uint_word_of_int take_bit_int_eq_self)

lemma restorePayload_whole:
  assumes "encapsulated f = Some (p\<lparr>pkLength := len\<rparr>)" "ipByteLength f = h + len" "0 < len" "0 \<le> h" "len \<noteq> pkLength p" "0 < pkLength p"
    "int (unat (totalPayloadLength f)) = pkLength p"
  shows "restorePayload f = Inr (f\<lparr>ipHeaderLength := h, encapsulated := Some p\<rparr>)"
proof -
  have "totalPayloadLength f \<noteq> 0" using assms(6,7) by (rule_tac notI) simp
  then have "0 < totalPayloadLength f" by (simp add: word_neq_0_conv)
  moreover have "decapsulate f = Inr (Some (p\<lparr>pkLength := len\<rparr>), f\<lparr>ipByteLength := h, encapsulated := None\<rparr>)"
    using assms(1-4) by (simp add: decapsulate_def Let_def)
  ultimately show ?thesis unfolding restorePayload_def using assms by (cases f) (simp add: encapsulate_def)
qed

text \<open>A router on the way changes the time to live. The receiver gives each fragment the whole payload back.\<close>

lemma restore_fragment:
  fixes ttl :: int and arr :: "int option"
  assumes fr: "fragmentable cfg ie d p" and i: "i < length (fragmentsOf cfg ie d p)"
  defines "f \<equiv> (fragmentsOf cfg ie d p ! i)\<lparr>timeToLive := ttl, arrivalIf := arr\<rparr>"
  shows "fragmentOffset f \<noteq> 0 \<or> moreFragments f" "restorePayload f = Inr (f\<lparr>encapsulated := Some p\<rparr>)"
proof -
  let ?n = "fragSize cfg ie d p"
  note n = fragSize_less [OF fragmentable_cuttable [OF fr]] and nth = fragment_nth [OF fr i]
  let ?len = "fragLen (pkLength p) ?n (int i * ?n)"
  have l: "0 < ?len" "?len < pkLength p" using fragLen_range [OF n nth(8)] by simp_all
  show "fragmentOffset f \<noteq> 0 \<or> moreFragments f" using nth(1,2) n by (cases "i = 0") (simp_all add: f_def)
  have pl: "0 < pkLength p" "pkLength p < 2 ^ 16" "0 \<le> ipHeaderLength d" using n fr by (auto simp: fragmentable_def cuttable_def)
  have "restorePayload f = Inr (f\<lparr>ipHeaderLength := ipHeaderLength d, encapsulated := Some p\<rparr>)"
    using nth(3-5) l pl payload_word [OF pl(1,2)] by (intro restorePayload_whole) (auto simp: f_def)
  moreover have "f\<lparr>ipHeaderLength := ipHeaderLength d, encapsulated := Some p\<rparr> = f\<lparr>encapsulated := Some p\<rparr>"
  proof -
    have "ipHeaderLength f = ipHeaderLength d" using nth(7) by (simp add: f_def)
    then show ?thesis by (cases f) simp
  qed
  ultimately show "restorePayload f = Inr (f\<lparr>encapsulated := Some p\<rparr>)" by simp
qed

text \<open>A fragment enters its buffer as a piece of the payload.\<close>

lemma fragment_piece:
  fixes ttl :: int and arr :: "int option"
  assumes fr: "fragmentable cfg ie d p" and i: "i < length (fragmentsOf cfg ie d p)"
  defines "g \<equiv> (fragmentsOf cfg ie d p ! i)\<lparr>timeToLive := ttl, arrivalIf := arr, encapsulated := Some p\<rparr>" and "cs \<equiv> cutsOf (pkLength p) (fragSize cfg ie d p)"
  shows "of_int (fragmentOffset g) = fr_beg (piece cs i)" "of_int (fragmentOffset g + (ipByteLength g - ipHeaderLength g)) = fr_end (piece cs i)"
    "(\<not> moreFragments g) = fr_islast (piece cs i)" "i < pieces cs"
proof -
  note n = fragSize_less [OF fragmentable_cuttable [OF fr]] and nth = fragment_nth [OF fr i]
  note pc = piece_cutsOf [OF n nth(8), folded cs_def]
  show "of_int (fragmentOffset g) = fr_beg (piece cs i)" using nth(1) by (simp add: pc g_def)
  have "fragmentOffset g + (ipByteLength g - ipHeaderLength g) =
      (if int i * fragSize cfg ie d p + fragSize cfg ie d p \<ge> pkLength p then pkLength p else int i * fragSize cfg ie d p + fragSize cfg ie d p)"
    using nth(1,3,7) by (simp add: g_def fragLen_def)
  then show "of_int (fragmentOffset g + (ipByteLength g - ipHeaderLength g)) = fr_end (piece cs i)" unfolding pc by simp
  show "(\<not> moreFragments g) = fr_islast (piece cs i)" using nth(2) by (auto simp: pc g_def)
  show "i < pieces cs" using nth(8) by (simp add: cs_def cutsOf_def pieces_def)
qed

lemma fragment_stored:
  fixes ttl :: int and arr :: "int option"
  assumes fr: "fragmentable cfg ie d p" and i: "i < length (fragmentsOf cfg ie d p)"
  shows "storedFor (wholeOf ie d p) ((fragmentsOf cfg ie d p ! i)\<lparr>timeToLive := ttl, arrivalIf := arr, encapsulated := Some p\<rparr>)"
proof -
  have e: "encapsulated (wholeOf ie d p) = Some p" using fr by (simp add: wholeOf_def fragmentable_def cuttable_def)
  show ?thesis unfolding storedFor_def by (subst fragment_nth(9) [OF fr i]) (use e in \<open>cases "wholeOf ie d p", simp\<close>)
qed

lemma storedFor_fields: "storedFor D s \<Longrightarrow> encapsulated s = encapsulated D \<and> ipHeaderLength s = ipHeaderLength D \<and> fragKey s = fragKey D"
  unfolding storedFor_def by (cases D, cases s) (simp add: fragKey_def)

lemma storedFor_message:
  assumes "storedFor D s" "encapsulated D = Some p" "pkBody p = Message m"
  shows "mergeRaw s dg = s" "storeFirst s = s"
  using storedFor_fields [OF assms(1)] assms(2,3) by (auto simp: mergeRaw_def storeFirst_def split: option.splits packet_body.splits)

text \<open>A stored fragment becomes the datagram, up to the time to live, the interface of arrival and the total length field.\<close>

lemma storedFor_complete:
  assumes "storedFor D s" "encapsulated D = Some p" "pkBody p = Message m" "ipByteLength D = ipHeaderLength D + pkLength p" "fragmentOffset D = 0" "\<not> moreFragments D"
  shows "deserializeContent deser (s\<lparr>ipByteLength := ipHeaderLength s + pkLength p, fragmentOffset := 0, moreFragments := False\<rparr>) =
     Inr (D\<lparr>timeToLive := timeToLive s, arrivalIf := arrivalIf s, totalLengthField := totalLengthField s\<rparr>)"
proof -
  have "s\<lparr>ipByteLength := ipHeaderLength s + pkLength p, fragmentOffset := 0, moreFragments := False\<rparr> = D\<lparr>timeToLive := timeToLive s, arrivalIf := arrivalIf s, totalLengthField := totalLengthField s\<rparr>"
    using assms(1,4-6) unfolding storedFor_def by (cases D, cases s) simp
  then show ?thesis using assms(2,3) by (simp add: deserializeContent_def)
qed

lemma add_fragment:
  fixes ttl :: int and arr :: "int option"
  assumes fr: "fragmentable cfg ie d p" and m: "pkBody p = Message m" and i: "i < length (fragmentsOf cfg ie d p)"
    and h: "held cs D t0 R l" and cs: "cs = cutsOf (pkLength p) (fragSize cfg ie d p)" and D: "D = wholeOf ie d p" and t: "t0 \<le> t" and R: "R \<noteq> {..<pieces cs}"
  defines "g \<equiv> (fragmentsOf cfg ie d p ! i)\<lparr>timeToLive := ttl, arrivalIf := arr, encapsulated := Some p\<rparr>"
  shows "\<exists>r bufs. addFragment deser g t (fragbuf l) = Inr (r, bufs) \<and>
     (if insert i R = {..<pieces cs} then \<exists>ttl' arr' tl. r = Some (D\<lparr>timeToLive := ttl', arrivalIf := arr', totalLengthField := tl\<rparr>) \<and> held cs D t0 {} (l\<lparr>fragbuf := bufs\<rparr>)
      else r = None \<and> held cs D t0 (insert i R) (l\<lparr>fragbuf := bufs\<rparr>))"
proof -
  note n = fragSize_less [OF fragmentable_cuttable [OF fr]]
  have fp: "of_int (fragmentOffset g) = fr_beg (piece cs i)" "of_int (fragmentOffset g + (ipByteLength g - ipHeaderLength g)) = fr_end (piece cs i)"
    "(\<not> moreFragments g) = fr_islast (piece cs i)" "i < pieces cs" unfolding g_def cs by (rule fragment_piece [OF fr i])+
  have len: "pkLength p < 2 ^ 16" using fr by (simp add: fragmentable_def cuttable_def)
  note ok = cutsOf_ok [OF n len, folded cs]
  have gs: "storedFor D g" unfolding D g_def by (rule fragment_stored [OF fr i])
  have De: "encapsulated D = Some p" "ipByteLength D = ipHeaderLength D + pkLength p" "fragmentOffset D = 0" "\<not> moreFragments D"
    using fr by (simp_all add: D wholeOf_def fragmentable_def cuttable_def)
  have key: "fragKey g = fragKey D" using storedFor_fields [OF gs] by simp
  define buf where "buf = (case map_of (fragbuf l) (fragKey g) of None \<Rightarrow> \<lparr>db_buf = rb_new, db_datagram = None, db_lastupdate = 0\<rparr> | Some b \<Rightarrow> b)"
  define stored where "stored = (case db_datagram buf of None \<Rightarrow> storeFirst g
    | Some s \<Rightarrow> if encapsulated s = None \<and> encapsulated g \<noteq> None then storeContent g else mergeRaw s g)"
  have rb: "rbInv cs R (db_buf buf)" and st: "storedFor D stored" and keys: "keysOk (fragbuf l)" and none: "map_of (fragbuf l) (fragKey g) = None \<longleftrightarrow> R = {}"
    using h rbInv_new [OF ok(1)] gs storedFor_message [OF _ De(1) m] storedFor_fields De(1)
    by (auto simp: held_def key buf_def stored_def split: if_splits)
  from rb_add_piece [OF ok(1) rb fp(4)] obtain rb' where
    rb': "rb_addFragment (of_int (fragmentOffset g)) (of_int (fragmentOffset g + (ipByteLength g - ipHeaderLength g))) (\<not> moreFragments g) (db_buf buf) = (insert i R = {..<pieces cs}, rb')"
      "rbInv cs (insert i R) rb'" "insert i R = {..<pieces cs} \<longrightarrow> unat (rb_getTotalLength rb') = last cs" unfolding fp by blast
  note unf = addFragment_def [of deser g t "fragbuf l", unfolded Let_def, folded buf_def, unfolded rb'(1), simplified, folded stored_def]
  show ?thesis
  proof (cases "insert i R = {..<pieces cs}")
    case True
    have "R \<noteq> {}"
    proof
      assume "R = {}"
      then have "card {..<pieces cs} = card {i}" using True by simp
      then show False using fragCount_bounds(1) [OF n] ok(2) by simp
    qed
    moreover have "int (unat (rb_getTotalLength rb')) = pkLength p" using rb'(3) True ok(3) n by simp
    ultimately show ?thesis using True none keys storedFor_complete [OF st De(1) m De(2-4), of deser]
      by (simp add: unf held_def key keysOk_erase) blast
  next
    case False
    have "keysOk (putBuf (fragKey g) (buf\<lparr>db_buf := rb', db_datagram := Some stored, db_lastupdate := t\<rparr>) (fragbuf l))"
      by (rule keysOk_put [OF keys]) (use storedFor_fields [OF st] key in simp)
    then show ?thesis using False rb'(2) st t by (simp add: unf held_def key)
  qed
qed

text \<open>
  What arrives at the receiver between \<open>t0\<close> and the timeout: fragments of the datagram, in any order and any number of times, and other
  datagrams, whole ones or fragments, under other keys, which do not make the module raise an error.
\<close>

definition arrivalOk :: "ip_config \<Rightarrow> (int \<Rightarrow> u32 \<times> u32 \<Rightarrow> u8 list \<Rightarrow> ip_packet option) \<Rightarrow> (ip_datagram \<Rightarrow> bool) \<Rightarrow> ip_datagram list \<Rightarrow> frag_key \<Rightarrow> simtime \<Rightarrow>
    simtime \<times> ip_datagram \<Rightarrow> bool" where
  "arrivalOk cfg deser accept frags K t0 x \<longleftrightarrow> (case x of (t, dg) \<Rightarrow> t0 \<le> t \<and> t \<le> t0 + fragmentTimeoutTime cfg \<and>
     ((\<exists>f \<in> set frags. dg = f\<lparr>timeToLive := timeToLive dg, arrivalIf := arrivalIf dg\<rparr>) \<or> fragKey dg \<noteq> K \<and> (\<forall>l. isOk (reassembleAndDeliver cfg deser accept t dg l))))"

definition received :: "ip_datagram list \<Rightarrow> (simtime \<times> ip_datagram) list \<Rightarrow> nat set" where
  "received frags xs = set (filter (\<lambda>i. \<exists>(t, dg) \<in> set xs. dg = (frags ! i)\<lparr>timeToLive := timeToLive dg, arrivalIf := arrivalIf dg\<rparr>) [0..<length frags])"

lemma received_Cons: "received frags (x # xs) = received frags [x] \<union> received frags xs"
  by (auto simp: received_def)

lemma received_Nil [simp]: "received frags [] = {}"
  by (simp add: received_def)

lemma received_append: "received frags (xs @ ys) = received frags xs \<union> received frags ys"
  by (auto simp: received_def)

lemma received_own:
  assumes fr: "fragmentable cfg ie d p" and i: "i < length (fragmentsOf cfg ie d p)"
  shows "received (fragmentsOf cfg ie d p) [(t, (fragmentsOf cfg ie d p ! i)\<lparr>timeToLive := ttl, arrivalIf := arr\<rparr>)] = {i}"
proof -
  let ?n = "fragSize cfg ie d p" and ?fs = "fragmentsOf cfg ie d p"
  have "j = i" if "j < length ?fs" "(?fs ! i)\<lparr>timeToLive := ttl, arrivalIf := arr\<rparr> = (?fs ! j)\<lparr>timeToLive := ttl, arrivalIf := arr\<rparr>" for j
  proof -
    have "fragmentOffset ((?fs ! i)\<lparr>timeToLive := ttl, arrivalIf := arr\<rparr>) = fragmentOffset ((?fs ! j)\<lparr>timeToLive := ttl, arrivalIf := arr\<rparr>)" using that(2) by (rule arg_cong)
    then have "int i * ?n = int j * ?n" using fragment_nth(1) [OF fr i] fragment_nth(1) [OF fr that(1)] by simp
    then show ?thesis using fragSize_less(1) [OF fragmentable_cuttable [OF fr]] by simp
  qed
  then show ?thesis using i by (auto simp: received_def)
qed

lemma fragment_key:
  assumes "fragmentable cfg ie d p" "f \<in> set (fragmentsOf cfg ie d p)"
  shows "fragKey (f\<lparr>timeToLive := ttl, arrivalIf := arr\<rparr>) = fragKey (wholeOf ie d p)"
proof -
  obtain i where "i < length (fragmentsOf cfg ie d p)" "f = fragmentsOf cfg ie d p ! i" using assms(2) by (auto simp: in_set_conv_nth)
  then show ?thesis using fragment_nth(6) [OF assms(1)] by (simp add: fragKey_def)
qed

lemma foreign_no_fragment:
  assumes fr: "fragmentable cfg ie d p" and k: "fragKey dg \<noteq> fragKey (wholeOf ie d p)" and f: "f \<in> set (fragmentsOf cfg ie d p)"
  shows "dg \<noteq> f\<lparr>timeToLive := timeToLive dg, arrivalIf := arrivalIf dg\<rparr>"
  using k fragment_key [OF fr f, where ttl = "timeToLive dg" and arr = "arrivalIf dg"] by (rule_tac notI) simp

lemma received_foreign:
  assumes "fragmentable cfg ie d p" "fragKey dg \<noteq> fragKey (wholeOf ie d p)"
  shows "received (fragmentsOf cfg ie d p) [(t, dg)] = {}"
  using foreign_no_fragment [OF assms] by (simp add: received_def)

lemma arrival_step:
  assumes fr: "fragmentable cfg ie d p" and m: "pkBody p = Message m" and a: "arrivalOk cfg' deser accept frags (fragKey D) t0 (t, dg)"
    and cs: "cs = cutsOf (pkLength p) (fragSize cfg ie d p)" and D: "D = wholeOf ie d p" and frags: "frags = fragmentsOf cfg ie d p"
    and h: "held cs D t0 R l" and R: "R \<noteq> {..<pieces cs}"
  shows "\<exists>outs l'. reassembleAndDeliver cfg' deser accept t dg l = Inr (outs, l') \<and>
     (if R \<union> received frags [(t, dg)] = {..<pieces cs}
      then held cs D t0 {} l' \<and> (\<exists>ttl arr tl. let w = D\<lparr>timeToLive := ttl, arrivalIf := arr, totalLengthField := tl\<rparr> in delivered (fragKey D) outs = (if accept w then [w] else []))
      else delivered (fragKey D) outs = [] \<and> held cs D t0 (R \<union> received frags [(t, dg)]) l')"
proof (cases "fragKey dg = fragKey D")
  case True
  then obtain i where i: "i < length frags" and dg: "dg = (frags ! i)\<lparr>timeToLive := timeToLive dg, arrivalIf := arrivalIf dg\<rparr>" and t: "t0 \<le> t" "t \<le> t0 + fragmentTimeoutTime cfg'"
    using a by (auto simp: arrivalOk_def in_set_conv_nth)
  note i' = i [unfolded frags]
  have rec: "R \<union> received frags [(t, dg)] = insert i R" by (subst dg) (simp add: frags received_own [OF fr i'])
  obtain o1 l1 where p: "purgeStep cfg' t l = (o1, l1)" by fastforce
  have h1: "held cs D t0 R l1" by (rule purgeStep_held [OF p h t(2)])
  note rf = restore_fragment [OF fr i', where ttl = "timeToLive dg" and arr = "arrivalIf dg", folded frags, folded dg]
  have g: "dg\<lparr>encapsulated := Some p\<rparr> = (frags ! i)\<lparr>timeToLive := timeToLive dg, arrivalIf := arrivalIf dg, encapsulated := Some p\<rparr>" by (subst dg) simp
  from add_fragment [OF fr m i' h1 cs D t(1) R, where deser = deser and ttl = "timeToLive dg" and arr = "arrivalIf dg", folded frags, folded g] obtain r bufs where
    ad: "addFragment deser (dg\<lparr>encapsulated := Some p\<rparr>) t (fragbuf l1) = Inr (r, bufs)"
      "if insert i R = {..<pieces cs} then \<exists>ttl' arr' tl. r = Some (D\<lparr>timeToLive := ttl', arrivalIf := arr', totalLengthField := tl\<rparr>) \<and> held cs D t0 {} (l1\<lparr>fragbuf := bufs\<rparr>)
      else r = None \<and> held cs D t0 (insert i R) (l1\<lparr>fragbuf := bufs\<rparr>)" by blast
  have run: "reassembleAndDeliver cfg' deser accept t dg l =
      Inr (o1 @ (case r of Some d \<Rightarrow> if accept d then [LocalDeliver d] else [] | None \<Rightarrow> []), l1\<lparr>fragbuf := bufs\<rparr>)"
    using rf(2) ad(1) by (simp add: reassemble_fragment [OF rf(1) p])
  have key: "fragKey (D\<lparr>timeToLive := ttl, arrivalIf := arr, totalLengthField := tl\<rparr>) = fragKey D" for ttl arr tl by (simp add: fragKey_def)
  show ?thesis
  proof (cases "insert i R = {..<pieces cs}")
    case True
    then obtain ttl arr tl where w: "r = Some (D\<lparr>timeToLive := ttl, arrivalIf := arr, totalLengthField := tl\<rparr>)" "held cs D t0 {} (l1\<lparr>fragbuf := bufs\<rparr>)" using ad(2) by auto
    have "delivered (fragKey D) (o1 @ (case r of Some d \<Rightarrow> if accept d then [LocalDeliver d] else [] | None \<Rightarrow> [])) =
        (if accept (D\<lparr>timeToLive := ttl, arrivalIf := arr, totalLengthField := tl\<rparr>) then [D\<lparr>timeToLive := ttl, arrivalIf := arr, totalLengthField := tl\<rparr>] else [])"
      using w(1) purgeStep_delivered [OF p] key by simp
    then show ?thesis unfolding rec using run w(2) True by (auto simp: Let_def)
  next
    case False
    then show ?thesis unfolding rec using run ad(2) purgeStep_delivered [OF p] by simp
  qed
next
  case False
  have "\<not> (\<exists>f \<in> set frags. dg = f\<lparr>timeToLive := timeToLive dg, arrivalIf := arrivalIf dg\<rparr>)"
    using foreign_no_fragment [OF fr, of dg] False unfolding frags D by blast
  then have t: "t \<le> t0 + fragmentTimeoutTime cfg'" and "isOk (reassembleAndDeliver cfg' deser accept t dg l)"
    using a by (simp_all add: arrivalOk_def)
  then obtain x where "reassembleAndDeliver cfg' deser accept t dg l = Inr x" by (auto simp: isOk_iff)
  then obtain outs l' where r: "reassembleAndDeliver cfg' deser accept t dg l = Inr (outs, l')" by (cases x) simp
  have "received frags [(t, dg)] = {}" using received_foreign [OF fr] False by (simp add: frags D)
  then show ?thesis using r foreign_step [OF r h t False] R by simp
qed

lemma deliverEach_held:
  assumes fr: "fragmentable cfg ie d p" and m: "pkBody p = Message m"
    and cs: "cs = cutsOf (pkLength p) (fragSize cfg ie d p)" and D: "D = wholeOf ie d p" and frags: "frags = fragmentsOf cfg ie d p"
  assumes "\<forall>x \<in> set xs. arrivalOk cfg' deser accept frags (fragKey D) t0 x" "held cs D t0 R l" "R \<union> received frags xs \<noteq> {..<pieces cs}" "R \<subseteq> {..<pieces cs}"
  shows "\<exists>outs l'. deliverEach cfg' deser accept xs l = Inr (outs, l') \<and> delivered (fragKey D) outs = [] \<and> held cs D t0 (R \<union> received frags xs) l'"
  using assms(6-)
proof (induction xs arbitrary: R l)
  case (Cons x xs)
  obtain t dg where x: "x = (t, dg)" by fastforce
  have sub: "received frags ys \<subseteq> {..<pieces cs}" for ys by (auto simp: received_def frags cs fragmentsOf_def cutsOf_def pieces_def Let_def)
  let ?R = "R \<union> received frags [x]"
  have ne: "R \<noteq> {..<pieces cs}" "?R \<noteq> {..<pieces cs}" using Cons.prems(3,4) sub [of "x # xs"] sub [of xs] by (auto simp: received_Cons [of _ x xs])
  have "arrivalOk cfg' deser accept frags (fragKey D) t0 (t, dg)" using Cons.prems(1) x by simp
  from arrival_step [OF fr m this cs D frags Cons.prems(2) ne(1)] ne(2) obtain o1 l1 where
    s: "reassembleAndDeliver cfg' deser accept t dg l = Inr (o1, l1)" "delivered (fragKey D) o1 = []" "held cs D t0 ?R l1" by (auto simp: x)
  have "?R \<union> received frags xs = R \<union> received frags (x # xs)" by (subst received_Cons [of _ x xs]) blast
  moreover have "?R \<subseteq> {..<pieces cs}" using Cons.prems(4) sub [of "[x]"] by blast
  ultimately show ?case using Cons.IH [OF _ s(3)] Cons.prems(1,3) s(1,2) by (auto simp: x)
qed simp


definition exPacket :: ip_packet where
  "exPacket = \<lparr>pkLength = 40, pkBody = Message 7\<rparr>"

definition exDatagram :: ip_datagram where
  "exDatagram = \<lparr>srcAddress = 10, destAddress = 20, transportProtocol = 17, timeToLive = 32, arrivalIf = None, identification = 5, moreFragments = False, dontFragment = False,
     fragmentOffset = 0, totalLengthField = 0, typeOfService = 0, totalPayloadLength = 0, ipHeaderLength = 20, ipByteLength = 60, encapsulated = Some exPacket\<rparr>"

definition exConfig :: ip_config where
  "exConfig = \<lparr>isDsr = False, freqHop = False, fragmentTimeoutTime = 60\<rparr>"

definition exFragment :: "int \<Rightarrow> int \<Rightarrow> bool \<Rightarrow> int \<Rightarrow> ip_datagram" where
  "exFragment x len mf ttl = exDatagram\<lparr>moreFragments := mf, fragmentOffset := x, totalPayloadLength := 40, ipByteLength := 20 + len,
     encapsulated := Some (exPacket\<lparr>pkLength := len\<rparr>), timeToLive := ttl\<rparr>"

lemma exFragments:
  "fragmentable exConfig \<lparr>ifMtu = 40, ifAddress = 1\<rparr> exDatagram exPacket"
  "fragmentAndSend exConfig \<lparr>ifMtu = 40, ifAddress = 1\<rparr> exDatagram = Inr (map ToOutput [exFragment 0 16 True 32, exFragment 16 16 True 32, exFragment 32 8 False 32], 0)"
proof -
  have n: "fragSize exConfig \<lparr>ifMtu = 40, ifAddress = 1\<rparr> exDatagram exPacket = 16" by (simp add: fragSize_def exConfig_def exDatagram_def exPacket_def)
  show f: "fragmentable exConfig \<lparr>ifMtu = 40, ifAddress = 1\<rparr> exDatagram exPacket"
    using n by (simp add: fragmentable_def cuttable_def exDatagram_def exPacket_def)
  have "fragmentsOf exConfig \<lparr>ifMtu = 40, ifAddress = 1\<rparr> exDatagram exPacket = [exFragment 0 16 True 32, exFragment 16 16 True 32, exFragment 32 8 False 32]"
    unfolding fragmentsOf_def n Let_def by (simp add: fragCount_def exPacket_def fragOf_def fragBase_def exConfig_def exDatagram_def exFragment_def upt_rec)
  then show "fragmentAndSend exConfig \<lparr>ifMtu = 40, ifAddress = 1\<rparr> exDatagram = Inr (map ToOutput [exFragment 0 16 True 32, exFragment 16 16 True 32, exFragment 32 8 False 32], 0)"
    using fragmentAndSend_fragments [OF fragmentable_cuttable [OF f]] by simp
qed


text \<open>
  C34: fragments that are cut up again. A router records the length of the payload it finds as the total length of the payload, also when
  that payload is itself only a part. Each of the pieces therefore gets, at the receiver, a payload shorter than the one of the datagram
  they come from, and with one of them the datagram is delivered.
\<close>

theorem refragmented_payload_short:
  assumes "fragmentable cfg ie d p" "fragmentAndSend cfg ie d = Inr (map ToOutput frags, 0)" "f \<in> set frags"
    and "cuttable cfg' ie' (f\<lparr>timeToLive := ttl, arrivalIf := arr\<rparr>) q" "fragmentAndSend cfg' ie' (f\<lparr>timeToLive := ttl, arrivalIf := arr\<rparr>) = Inr (map ToOutput gs, 0)" "g \<in> set gs"
  shows "\<exists>g' q'. restorePayload g = Inr g' \<and> encapsulated g' = Some q' \<and> pkLength q' < pkLength p"
proof -
  let ?f = "f\<lparr>timeToLive := ttl, arrivalIf := arr\<rparr>" and ?n = "fragSize cfg' ie' (f\<lparr>timeToLive := ttl, arrivalIf := arr\<rparr>) q"
  obtain i where i: "i < length (fragmentsOf cfg ie d p)" "f = fragmentsOf cfg ie d p ! i"
    using assms(3) fragments_sent [OF fragmentable_cuttable [OF assms(1)] assms(2)] by (auto simp: in_set_conv_nth)
  note n1 = fragSize_less [OF fragmentable_cuttable [OF assms(1)]] and nth = fragment_nth [OF assms(1) i(1)]
  have q: "encapsulated f = Some q" using assms(4) by (simp add: cuttable_def)
  have lt: "pkLength q < pkLength p" using nth(4) q fragLen_range [OF n1 nth(8)] i(2) by auto
  note n2 = fragSize_less [OF assms(4)]
  obtain k where k: "k < fragCount (pkLength q) ?n 0" and g: "g = fragOf cfg' (fragBase ie' ?f q) q (ipHeaderLength f) ?n (int k * ?n)"
    using assms(6) fragments_sent [OF assms(4,5)] by (auto simp: fragmentsOf_def Let_def)
  let ?len = "fragLen (pkLength q) ?n (int k * ?n)"
  have l: "0 < ?len" "?len < pkLength q" using fragLen_range [OF n2 k] by simp_all
  have u: "int (unat (of_int (pkLength q) :: u32)) = pkLength q" using n2 lt assms(1) by (intro payload_word) (auto simp: fragmentable_def)
  have enc: "encapsulated g = Some (q\<lparr>pkLength := ?len\<rparr>)" "ipByteLength g = ipHeaderLength f + ?len" "totalPayloadLength g = of_int (pkLength q)"
    by (simp_all add: g fragOf_def fragBase_def fragLen_def Let_def)
  have "0 \<le> ipHeaderLength f" using assms(4) by (simp add: cuttable_def)
  then have "restorePayload g = Inr (g\<lparr>ipHeaderLength := ipHeaderLength f, encapsulated := Some q\<rparr>)"
    using l enc u n2 by (intro restorePayload_whole) auto
  then show ?thesis using lt by auto
qed

lemma exFragments_again:
  "cuttable exConfig \<lparr>ifMtu = 30, ifAddress = 2\<rparr> ((exFragment 0 16 True 32)\<lparr>timeToLive := 31, arrivalIf := None\<rparr>) (exPacket\<lparr>pkLength := 16\<rparr>)"
  "fragmentAndSend exConfig \<lparr>ifMtu = 30, ifAddress = 2\<rparr> ((exFragment 0 16 True 32)\<lparr>timeToLive := 31, arrivalIf := None\<rparr>) =
     Inr (map ToOutput [(exFragment 0 8 True 31)\<lparr>totalPayloadLength := 16\<rparr>, (exFragment 8 8 True 31)\<lparr>totalPayloadLength := 16\<rparr>], 0)"
proof -
  let ?f = "(exFragment 0 16 True 32)\<lparr>timeToLive := 31, arrivalIf := None\<rparr>" and ?q = "exPacket\<lparr>pkLength := 16\<rparr>" and ?ie = "\<lparr>ifMtu = 30, ifAddress = 2\<rparr>"
  have n: "fragSize exConfig ?ie ?f ?q = 8" by (simp add: fragSize_def exConfig_def exDatagram_def exPacket_def exFragment_def)
  show c: "cuttable exConfig ?ie ?f ?q" unfolding cuttable_def n by (simp add: exDatagram_def exPacket_def exFragment_def)
  have "fragmentsOf exConfig ?ie ?f ?q = [(exFragment 0 8 True 31)\<lparr>totalPayloadLength := 16\<rparr>, (exFragment 8 8 True 31)\<lparr>totalPayloadLength := 16\<rparr>]"
    unfolding fragmentsOf_def n Let_def by (simp add: fragCount_def exPacket_def fragOf_def fragBase_def exConfig_def exDatagram_def exFragment_def upt_rec)
  then show "fragmentAndSend exConfig ?ie ?f = Inr (map ToOutput [(exFragment 0 8 True 31)\<lparr>totalPayloadLength := 16\<rparr>, (exFragment 8 8 True 31)\<lparr>totalPayloadLength := 16\<rparr>], 0)"
    using fragmentAndSend_fragments [OF c] by simp
qed

theorem refragmented_payload_short_witness:
  "\<exists>g' q'. restorePayload ((exFragment 8 8 True 31)\<lparr>totalPayloadLength := 16\<rparr>) = Inr g' \<and> encapsulated g' = Some q' \<and> pkLength q' < pkLength exPacket"
  by (rule refragmented_payload_short [OF exFragments _ exFragments_again]) simp_all

end
