(* ===== verification/Ip_Address.thy ===== *)
theory Ip_Address
  imports Prelude
begin

unbundle bit_operations_syntax

text \<open>
  IPv4 addresses, \<open>src/inet/networklayer/contract/ipv4/IPv4Address.h\<close> and \<open>IPv4Address.cc\<close>: a 32-bit integer with its bytes, masks,
  prefixes, classes and categories, and its textual form.
\<close>

section \<open>Masks and prefixes\<close>

definition isUnspecifiedAddress :: "u32 \<Rightarrow> bool" where
  "isUnspecifiedAddress a = (a = 0)"

definition getDByte :: "nat \<Rightarrow> u32 \<Rightarrow> u32" where
  "getDByte i a = drop_bit ((3 - i) * 8) a AND 0xFF"

definition setDBytes :: "u32 \<Rightarrow> u32 \<Rightarrow> u32 \<Rightarrow> u32 \<Rightarrow> u32" where
  "setDBytes i0 i1 i2 i3 = push_bit 24 i0 OR push_bit 16 i1 OR push_bit 8 i2 OR i3"

definition makeNetmaskBits :: "nat \<Rightarrow> u32" where
  "makeNetmaskBits n = (if n \<ge> 32 then 0xFFFFFFFF else NOT (drop_bit n 0xFFFFFFFF))"

definition makeNetmask :: "int \<Rightarrow> u32 res" where
  "makeNetmask n = (if n < 0 \<or> n > 32 then Inl (RuntimeError ''IPv4Address: wrong netmask length'') else Inr (makeNetmaskBits (nat n)))"

definition getNetmaskLength :: "u32 \<Rightarrow> nat" where
  "getNetmaskLength a = (case find (\<lambda>i. a AND push_bit i 1 \<noteq> 0) [0..<32] of Some i \<Rightarrow> 32 - i | None \<Rightarrow> 0)"

definition isValidNetmask :: "u32 \<Rightarrow> bool" where
  "isValidNetmask a = (a = makeNetmaskBits (getNetmaskLength a))"

definition maskedAddrAreEqual :: "u32 \<Rightarrow> u32 \<Rightarrow> u32 \<Rightarrow> bool" where
  "maskedAddrAreEqual a b netmask = ((a XOR b) AND netmask = 0)"

definition prefixMatches :: "u32 \<Rightarrow> u32 \<Rightarrow> int \<Rightarrow> bool" where
  "prefixMatches a b n =
     (if n < 1 then True
      else if n > 31 then a = b
      else a AND makeNetmaskBits (nat n) = b AND makeNetmaskBits (nat n))"

definition getNumMatchingPrefixBits :: "u32 \<Rightarrow> u32 \<Rightarrow> nat" where
  "getNumMatchingPrefixBits a b = (case find (\<lambda>i. (a XOR b) AND push_bit i 1 \<noteq> 0) (rev [0..<32]) of Some i \<Rightarrow> 31 - i | None \<Rightarrow> 32)"

definition getPrefix :: "u32 \<Rightarrow> int \<Rightarrow> u32 res" where
  "getPrefix a n = bindR (makeNetmask n) (\<lambda>m. Inr (a AND m))"

definition makeBroadcastAddress :: "u32 \<Rightarrow> u32 \<Rightarrow> u32" where
  "makeBroadcastAddress a netmask = a OR NOT netmask"

section \<open>Classes and categories\<close>

definition isLimitedBroadcastAddress :: "u32 \<Rightarrow> bool" where
  "isLimitedBroadcastAddress a = (a = 0xFFFFFFFF)"

definition isMulticastAddress :: "u32 \<Rightarrow> bool" where
  "isMulticastAddress a = (a AND 0xF0000000 = 0xE0000000)"

definition isLinkLocalMulticast :: "u32 \<Rightarrow> bool" where
  "isLinkLocalMulticast a = (a AND 0xFFFFFF00 = 0xE0000000)"

datatype ip_class = ClassA | ClassB | ClassC | ClassD | ClassE | ClassUnknown

definition getIPClass :: "u32 \<Rightarrow> ip_class" where
  "getIPClass a =
     (let buf = getDByte 0 a in
      if buf AND 0x80 = 0x00 then ClassA
      else if buf AND 0xC0 = 0x80 then ClassB
      else if buf AND 0xE0 = 0xC0 then ClassC
      else if buf AND 0xF0 = 0xE0 then ClassD
      else if buf AND 0xF8 = 0xF0 then ClassE
      else ClassUnknown)"

datatype address_category = UNSPECIFIED | THIS_NETWORK | LOOPBACK | MULTICAST | BROADCAST | IETF | TEST_NET | IPv6_TO_IPv4_RELAY | BENCHMARK
  | RESERVED | LINKLOCAL | PRIVATE_NETWORK | GLOBAL

definition getAddressCategory :: "u32 \<Rightarrow> address_category" where
  "getAddressCategory a =
     (if isUnspecifiedAddress a then UNSPECIFIED
      else if a AND 0xFF000000 = 0 then THIS_NETWORK
      else if a AND 0xFF000000 = 0x7F000000 then LOOPBACK
      else if isMulticastAddress a then MULTICAST
      else if a = 0xFFFFFFFF then BROADCAST
      else let addr24 = a AND 0xFFFFFF00 in
        if addr24 = 0xC0000000 then IETF
        else if addr24 = 0xC0000200 \<or> addr24 = 0xC6336400 \<or> addr24 = 0xCB007100 then TEST_NET
        else if addr24 = 0xC0586300 then IPv6_TO_IPv4_RELAY
        else if a AND 0xFFFE0000 = 0xC6120000 then BENCHMARK
        else if a AND 0xF0000000 = 0xF0000000 then RESERVED
        else if a AND 0xFFFF0000 = 0xA9FE0000 then LINKLOCAL
        else if a AND 0xFF000000 = 0x0A000000 \<or> a AND 0xFFF00000 = 0xAC100000 \<or> a AND 0xFFFF0000 = 0xC0A80000 then PRIVATE_NETWORK
        else GLOBAL)"

definition getNetwork :: "u32 \<Rightarrow> u32" where
  "getNetwork a =
     (case getIPClass a of
        ClassA \<Rightarrow> setDBytes (getDByte 0 a) 0 0 0
      | ClassB \<Rightarrow> setDBytes (getDByte 0 a) (getDByte 1 a) 0 0
      | ClassC \<Rightarrow> setDBytes (getDByte 0 a) (getDByte 1 a) (getDByte 2 a) 0
      | _ \<Rightarrow> 0)"

definition getNetworkMask :: "u32 \<Rightarrow> u32" where
  "getNetworkMask a =
     (case getIPClass a of
        ClassA \<Rightarrow> setDBytes 255 0 0 0
      | ClassB \<Rightarrow> setDBytes 255 255 0 0
      | ClassC \<Rightarrow> setDBytes 255 255 255 0
      | _ \<Rightarrow> 0)"

definition isNetwork :: "u32 \<Rightarrow> u32 \<Rightarrow> bool" where
  "isNetwork a toCmp = (let netmask = getNetworkMask a in if isUnspecifiedAddress netmask then False else maskedAddrAreEqual a toCmp netmask)"

section \<open>Textual form\<close>

text \<open>\<open>sprintf\<close> with \<open>%u\<close>.\<close>

definition digitChar :: "nat \<Rightarrow> char" where
  "digitChar n = char_of (48 + n)"

fun decimalString :: "nat \<Rightarrow> string" where
  "decimalString n = (if n < 10 then [digitChar n] else decimalString (n div 10) @ [digitChar (n mod 10)])"

declare decimalString.simps [simp del]

definition addressString :: "bool \<Rightarrow> u32 \<Rightarrow> string" where
  "addressString printUnspec a =
     (if printUnspec \<and> isUnspecifiedAddress a then ''<unspec>''
      else decimalString (unat (drop_bit 24 a AND 255)) @ ''.'' @ decimalString (unat (drop_bit 16 a AND 255)) @ ''.'' @
           decimalString (unat (drop_bit 8 a AND 255)) @ ''.'' @ decimalString (unat (a AND 255)))"

text \<open>The \<open>int\<close> that collects a number wraps around.\<close>

definition wrapInt :: "int \<Rightarrow> int" where
  "wrapInt x = (x + 2 ^ 31) mod 2 ^ 32 - 2 ^ 31"

definition isDigitChar :: "char \<Rightarrow> bool" where
  "isDigitChar ch = (48 \<le> (of_char ch :: nat) \<and> (of_char ch :: nat) \<le> 57)"

fun readNumber :: "int \<Rightarrow> string \<Rightarrow> int \<times> string" where
  "readNumber num [] = (num, [])"
| "readNumber num (ch # s) = (if isDigitChar ch then readNumber (wrapInt (10 * num + (int (of_char ch :: nat) - 48))) s else (num, ch # s))"

lemma readNumber_length: "length (snd (readNumber num s)) \<le> length s"
  by (induction num s rule: readNumber.induct) (auto simp: le_SucI)

lemma readNumber_shorter: "(num, ch # s2) = readNumber n s \<Longrightarrow> length s2 < length s"
  using readNumber_length [of n s] by (metis length_Cons less_eq_Suc_le snd_conv)

text \<open>The bytes read so far and the rest of the text; the end of the list is the terminating zero.\<close>

function parseNumbers :: "u8 list \<Rightarrow> string \<Rightarrow> u8 list option" where
  "parseNumbers bs s =
     (case s of
        [] \<Rightarrow> None
      | ch # _ \<Rightarrow>
          if \<not> isDigitChar ch then None
          else case readNumber 0 s of (num, s1) \<Rightarrow>
            if num > 255 then None
            else let bs1 = bs @ [of_int num] in
              case s1 of
                [] \<Rightarrow> if length bs1 = 4 then Some bs1 else None
              | dot # s2 \<Rightarrow> if dot \<noteq> CHR ''.'' then None else if length bs1 = 4 then None else parseNumbers bs1 s2)"
  by pat_completeness auto
termination
  by (relation "measure (length \<circ> snd)") (auto simp del: readNumber.simps dest!: readNumber_shorter)

declare parseNumbers.simps [simp del]

definition parseIPAddress :: "string \<Rightarrow> u8 list option" where
  "parseIPAddress text = (if text = ''<unspec>'' then Some [0, 0, 0, 0] else parseNumbers [] text)"

definition setFromText :: "string \<Rightarrow> u32 res" where
  "setFromText text =
     (case parseIPAddress text of
        Some buf \<Rightarrow> Inr (setDBytes (ucast (buf ! 0)) (ucast (buf ! 1)) (ucast (buf ! 2)) (ucast (buf ! 3)))
      | None \<Rightarrow> Inl (RuntimeError ''Invalid IPv4 address string''))"

definition isWellFormed :: "string \<Rightarrow> bool" where
  "isWellFormed text = (parseIPAddress text \<noteq> None)"

section \<open>Prefixes\<close>

lemma bit_allOnes: "bit (0xFFFFFFFF :: u32) i \<longleftrightarrow> i < 32"
proof -
  have "(0xFFFFFFFF :: u32) = - 1" by simp
  then show ?thesis by (simp only: bit_minus_1_iff possible_bit_word) simp
qed

lemma bit_makeNetmask: "bit (makeNetmaskBits n) i \<longleftrightarrow> i < 32 \<and> 32 \<le> i + n"
proof (cases "n \<ge> 32")
  case True
  then have "makeNetmaskBits n = 0xFFFFFFFF" by (simp add: makeNetmaskBits_def)
  then show ?thesis using bit_allOnes [of i] True by (simp only: trans_le_add2 simp_thms)
next
  case False
  have m: "makeNetmaskBits n = NOT (drop_bit n 0xFFFFFFFF)" using False by (simp add: makeNetmaskBits_def)
  have "bit (drop_bit n (0xFFFFFFFF :: u32)) i \<longleftrightarrow> n + i < 32" unfolding bit_drop_bit_eq comp_def by (rule bit_allOnes)
  then show ?thesis unfolding m bit_not_iff by auto
qed

lemma bit_test: "a AND push_bit i 1 \<noteq> 0 \<longleftrightarrow> bit a i" for a :: u32
proof
  assume "bit a i"
  then have "bit (a AND push_bit i 1) i" by (auto simp: bit_simps dest: bit_imp_le_length)
  then show "a AND push_bit i 1 \<noteq> 0" by auto
next
  assume "a AND push_bit i 1 \<noteq> 0"
  then obtain j where "bit (a AND push_bit i 1) j" by (auto simp: bit_eq_iff)
  then show "bit a i" by (auto simp: bit_simps)
qed

lemma netmask_length: "n \<le> 32 \<Longrightarrow> getNetmaskLength (makeNetmaskBits n) = n"
proof (cases n)
  case (Suc k)
  assume n: "n \<le> 32"
  have "find (\<lambda>i. bit (makeNetmaskBits n) i) [0..<32] = Some (32 - n)"
    unfolding find_Some_iff using n Suc by (intro exI [of _ "32 - n"]) (auto simp: bit_makeNetmask)
  then show ?thesis unfolding getNetmaskLength_def bit_test using n by simp
next
  case 0
  have "find (\<lambda>i. bit (makeNetmaskBits n) i) [0..<32] = None" unfolding find_None_iff using 0 by (simp add: bit_makeNetmask)
  then show ?thesis unfolding getNetmaskLength_def bit_test using 0 by simp
qed

lemma netmask_length_le: "getNetmaskLength a \<le> 32"
  by (simp add: getNetmaskLength_def split: option.splits)

lemma validNetmask_iff: "isValidNetmask m \<longleftrightarrow> (\<exists>n \<le> 32. m = makeNetmaskBits n)"
  unfolding isValidNetmask_def using netmask_length netmask_length_le by metis

text \<open>Two masked addresses agree when their first bits do.\<close>

definition samePrefix :: "nat \<Rightarrow> u32 \<Rightarrow> u32 \<Rightarrow> bool" where
  "samePrefix n a b \<longleftrightarrow> (\<forall>i < 32. 32 \<le> i + n \<longrightarrow> bit a i = bit b i)"

lemma masked_iff: "maskedAddrAreEqual a b (makeNetmaskBits n) \<longleftrightarrow> samePrefix n a b"
  by (auto simp: maskedAddrAreEqual_def bit_eq_iff bit_simps bit_makeNetmask samePrefix_def)

lemma and_mask_iff: "a AND makeNetmaskBits n = b AND makeNetmaskBits n \<longleftrightarrow> samePrefix n a b"
  by (auto simp: bit_eq_iff bit_simps bit_makeNetmask samePrefix_def)

lemma samePrefix_32: "samePrefix 32 a b \<longleftrightarrow> a = b"
  by (auto simp: samePrefix_def intro: bit_word_eqI)

lemma netmask_less:
  assumes "m \<le> 32" "n \<le> 32"
  shows "makeNetmaskBits m < makeNetmaskBits n \<longleftrightarrow> m < n" "makeNetmaskBits m = makeNetmaskBits n \<longleftrightarrow> m = n"
proof -
  have lt: "makeNetmaskBits k < makeNetmaskBits l" if "k < l" "l \<le> 32" for k l
  proof -
    have "makeNetmaskBits k = makeNetmaskBits k AND makeNetmaskBits l" using that by (intro bit_word_eqI) (auto simp: bit_simps bit_makeNetmask)
    then have "makeNetmaskBits k \<le> makeNetmaskBits l" by (metis word_and_le1)
    moreover have "makeNetmaskBits k \<noteq> makeNetmaskBits l" using netmask_length [of k] netmask_length [of l] that by auto
    ultimately show ?thesis by simp
  qed
  show "makeNetmaskBits m < makeNetmaskBits n \<longleftrightarrow> m < n"
    using lt [of m n] lt [of n m] assms by (metis less_asym linorder_less_linear order_less_irrefl)
  show "makeNetmaskBits m = makeNetmaskBits n \<longleftrightarrow> m = n" using netmask_length assms by metis
qed

lemma numMatching_iff:
  assumes "n \<le> 32"
  shows "n \<le> getNumMatchingPrefixBits a b \<longleftrightarrow> samePrefix n a b"
proof (cases "find (\<lambda>i. bit (a XOR b) i) (rev [0..<32])")
  case None
  then have "\<forall>i < 32. bit a i = bit b i" by (auto simp: find_None_iff bit_simps)
  then show ?thesis unfolding getNumMatchingPrefixBits_def bit_test None using assms by (simp add: samePrefix_def)
next
  case (Some i)
  then obtain k where k: "k < 32" "bit (a XOR b) (31 - k)" "i = 31 - k" "\<forall>j < k. \<not> bit (a XOR b) (31 - j)"
    unfolding find_Some_iff by (auto simp: rev_nth)
  have above: "bit a j = bit b j" if "i < j" "j < 32" for j
  proof -
    have "31 - j < k" "31 - (31 - j) = j" using that k(1,3) by auto
    then show ?thesis using k(4) that(2) by (metis bit_xor_iff)
  qed
  have "bit a i \<noteq> bit b i" using k(2,3) by (simp add: bit_xor_iff)
  moreover have "i < 32" using k(1,3) by simp
  ultimately have "\<not> samePrefix n a b" if "32 \<le> i + n" using that by (auto simp: samePrefix_def)
  moreover have "samePrefix n a b" if "i + n < 32" unfolding samePrefix_def using that above by auto
  ultimately have "samePrefix n a b \<longleftrightarrow> i + n < 32" by (meson not_le)
  then show ?thesis unfolding getNumMatchingPrefixBits_def bit_test Some using k by auto
qed

text \<open>
  C23: masks and prefixes. For every length from 0 to 32 there is a mask, a valid one from which the length is read back; comparing two
  addresses under the mask, comparing prefixes of that length and counting the matching bits agree.
\<close>

theorem prefix_tests_agree:
  assumes "0 \<le> n" "n \<le> 32"
  shows "\<exists>m. makeNetmask n = Inr m \<and> isValidNetmask m \<and> int (getNetmaskLength m) = n \<and> getPrefix a n = Inr (a AND m) \<and>
     maskedAddrAreEqual a b m = prefixMatches a b n \<and> prefixMatches a b n = (n \<le> int (getNumMatchingPrefixBits a b))"
proof -
  let ?m = "makeNetmaskBits (nat n)"
  have l: "nat n \<le> 32" using assms by simp
  have m: "makeNetmask n = Inr ?m" using assms by (simp add: makeNetmask_def)
  have "samePrefix 0 a b" by (simp add: samePrefix_def)
  moreover have "prefixMatches a b n = samePrefix (nat n) a b"
  proof (cases "n < 1 \<or> n > 31")
    case True
    then have "n = 0 \<or> n = 32" using assms by linarith
    then show ?thesis using \<open>samePrefix 0 a b\<close> by (auto simp: prefixMatches_def samePrefix_32)
  qed (auto simp: prefixMatches_def and_mask_iff)
  moreover have "(n \<le> int (getNumMatchingPrefixBits a b)) = samePrefix (nat n) a b" using numMatching_iff [OF l, of a b] by (simp add: nat_le_iff)
  ultimately show ?thesis using m l netmask_length [OF l] assms by (auto simp: masked_iff validNetmask_iff getPrefix_def)
qed

theorem prefix_tests_agree_witness:
  "\<exists>m. makeNetmask 24 = Inr m \<and> isValidNetmask m \<and> int (getNetmaskLength m) = 24 \<and> getPrefix 0x0A000105 24 = Inr (0x0A000105 AND m) \<and>
     maskedAddrAreEqual 0x0A000105 0x0A0001FE m = prefixMatches 0x0A000105 0x0A0001FE 24 \<and>
     prefixMatches 0x0A000105 0x0A0001FE 24 = (24 \<le> int (getNumMatchingPrefixBits 0x0A000105 0x0A0001FE))"
  by (rule prefix_tests_agree) simp_all

section \<open>Reading back what is printed\<close>

lemma digitChar_digit:
  assumes "n < 10"
  shows "isDigitChar (digitChar n)" "(of_char (digitChar n) :: nat) = 48 + n"
  using assms by (simp_all add: digitChar_def isDigitChar_def)

lemma wrapInt_small: "0 \<le> x \<Longrightarrow> x < 2 ^ 31 \<Longrightarrow> wrapInt x = x"
  by (simp add: wrapInt_def)

lemma readNumber_decimal: "n < 256 \<Longrightarrow> readNumber 0 (decimalString n @ s) = readNumber (int n) s"
proof (induction n arbitrary: s rule: decimalString.induct)
  case (1 n)
  show ?case
  proof (cases "n < 10")
    case True
    then show ?thesis using digitChar_digit [OF True] by (subst decimalString.simps) (simp add: wrapInt_small)
  next
    case False
    have IH: "readNumber 0 (decimalString (n div 10) @ digitChar (n mod 10) # s) = readNumber (int (n div 10)) (digitChar (n mod 10) # s)"
      using "1.IH" [OF False] "1.prems" by simp
    have "10 * int (n div 10) + int (n mod 10) = int n" by (simp add: zdiv_int zmod_int)
    then show ?thesis using False IH digitChar_digit [of "n mod 10"] "1.prems" by (subst decimalString.simps) (simp add: wrapInt_small)
  qed
qed

lemma decimal_head: "\<exists>ch t. decimalString n = ch # t \<and> isDigitChar ch"
proof (induction n rule: decimalString.induct)
  case (1 n)
  then show ?case using digitChar_digit(1) [of n] by (subst (1) decimalString.simps) fastforce
qed

lemma parse_decimal:
  assumes "n < 256"
  shows "length bs = 3 \<Longrightarrow> parseNumbers bs (decimalString n) = Some (bs @ [of_nat n])"
    "length bs < 3 \<Longrightarrow> parseNumbers bs (decimalString n @ CHR ''.'' # s) = parseNumbers (bs @ [of_nat n]) s"
proof -
  obtain ch t where d: "decimalString n = ch # t" "isDigitChar ch" using decimal_head by blast
  have r: "readNumber 0 (decimalString n) = (int n, [])" using readNumber_decimal [OF assms, of "[]"] by simp
  have r': "readNumber 0 (decimalString n @ CHR ''.'' # s) = (int n, CHR ''.'' # s)" using readNumber_decimal [OF assms, of "CHR ''.'' # s"] by (simp add: isDigitChar_def)
  show "length bs = 3 \<Longrightarrow> parseNumbers bs (decimalString n) = Some (bs @ [of_nat n])"
    using assms d r by (subst parseNumbers.simps) (simp del: readNumber.simps)
  show "length bs < 3 \<Longrightarrow> parseNumbers bs (decimalString n @ CHR ''.'' # s) = parseNumbers (bs @ [of_nat n]) s"
    using assms d r' by (subst parseNumbers.simps) (simp del: readNumber.simps)
qed

lemma byte_bound: "unat (x AND 255) < 256" for x :: u32
proof -
  have "x AND 255 \<le> 255" by (rule word_and_le1)
  then show ?thesis by (simp add: word_le_nat_alt)
qed

lemma bit_byte: "bit (x AND 255) i \<longleftrightarrow> i < 8 \<and> bit x i" for x :: u32
proof -
  have "x AND 255 = take_bit 8 x" by (simp add: take_bit_eq_mask mask_numeral)
  then show ?thesis by (simp only: bit_take_bit_iff)
qed

lemma bit_pushed: "bit (push_bit n (x AND 255)) i \<longleftrightarrow> i < 32 \<and> n \<le> i \<and> i < n + 8 \<and> bit x (i - n)" for x :: u32
proof -
  have "i - n < 8 \<longleftrightarrow> i < n + 8" if "n \<le> i" using that by linarith
  then show ?thesis unfolding bit_push_bit_iff bit_byte by auto
qed

lemma setDBytes_bytes: "setDBytes (drop_bit 24 a AND 255) (drop_bit 16 a AND 255) (drop_bit 8 a AND 255) (a AND 255) = a"
proof (rule bit_word_eqI)
  fix i assume "i < LENGTH(32)"
  then have i: "i < 32" by simp
  let ?w = "setDBytes (drop_bit 24 a AND 255) (drop_bit 16 a AND 255) (drop_bit 8 a AND 255) (a AND 255)"
  have w: "bit ?w i \<longleftrightarrow> (i < 32 \<and> 24 \<le> i \<and> i < 24 + 8 \<and> bit a (24 + (i - 24))) \<or> (i < 32 \<and> 16 \<le> i \<and> i < 16 + 8 \<and> bit a (16 + (i - 16))) \<or>
      (i < 32 \<and> 8 \<le> i \<and> i < 8 + 8 \<and> bit a (8 + (i - 8))) \<or> (i < 8 \<and> bit a i)"
    unfolding setDBytes_def bit_or_iff bit_pushed bit_byte bit_drop_bit_eq comp_def by (rule refl)
  consider "i < 8" | "8 \<le> i" "i < 16" | "16 \<le> i" "i < 24" | "24 \<le> i" by linarith
  then show "bit ?w i \<longleftrightarrow> bit a i" unfolding w using i by cases simp_all
qed

lemma ucast_byte: "ucast (ucast (x AND 255) :: u8) = x AND 255" for x :: u32
  by (rule bit_word_eqI) (auto simp: bit_ucast_iff bit_byte simp del: bit_and_iff)

text \<open>
  C24: the text of an address, printed with or without the special form for the unspecified address, is well-formed and is read back as
  the same address.
\<close>

theorem address_roundtrip: "isWellFormed (addressString printUnspec a) \<and> setFromText (addressString printUnspec a) = Inr a"
proof (cases "printUnspec \<and> isUnspecifiedAddress a")
  case True
  then show ?thesis by (simp add: addressString_def isWellFormed_def setFromText_def parseIPAddress_def isUnspecifiedAddress_def setDBytes_def)
next
  case False
  let ?t = "addressString printUnspec a"
  let ?b = "\<lambda>k. ucast (drop_bit k a AND 255) :: u8"
  have t: "?t = decimalString (unat (drop_bit 24 a AND 255)) @ CHR ''.'' # decimalString (unat (drop_bit 16 a AND 255)) @ CHR ''.'' #
      decimalString (unat (drop_bit 8 a AND 255)) @ CHR ''.'' # decimalString (unat (a AND 255))" using False unfolding addressString_def by (simp only: if_False append_Cons append_Nil)
  obtain ch r where "decimalString (unat (drop_bit 24 a AND 255)) = ch # r" "isDigitChar ch" using decimal_head by blast
  then have "?t \<noteq> ''<unspec>''" by (auto simp: t isDigitChar_def)
  then have "parseIPAddress ?t = Some [?b 24, ?b 16, ?b 8, ucast (a AND 255)]"
    unfolding parseIPAddress_def t using byte_bound by (simp add: parse_decimal)
  then show ?thesis using setDBytes_bytes [of a] by (simp add: isWellFormed_def setFromText_def ucast_byte)
qed

text \<open>Numbers that overflow the \<open>int\<close> are accepted.\<close>

lemma parse_overflow: "setFromText ''4294967297.0.0.1'' = Inr 0x01000001"
  by (simp add: setFromText_def parseIPAddress_def parseNumbers.simps isDigitChar_def wrapInt_def setDBytes_def)

end
