(* ===== verification/Ip_Routing.thy ===== *)
theory Ip_Routing
  imports Ip_Address
begin

unbundle bit_operations_syntax

text \<open>
  The IPv4 routing table, \<open>src/inet/networklayer/ipv4/IPv4RoutingTable.cc\<close>, with the unicast and multicast routes
  (\<open>IPv4Route.h\<close>, \<open>IPv4Route.cc\<close>), the filter rules (\<open>IPv4RouteRule.h\<close>) and what it reads of the interfaces
  (\<open>InterfaceEntry\<close>, \<open>IPv4InterfaceData\<close>). A pointer to a route or an interface is its number; a pointer in the routing cache whose route is no
  longer in the table dangles, and following it is an error.
\<close>

section \<open>Data\<close>

text \<open>An interface, with its IPv4 data: joined multicast groups, groups with listeners on the link, and the TTL threshold of routers.\<close>

record interface_entry =
  ieId :: int
  ieName :: string
  ieLoopback :: bool
  ieBroadcast :: bool
  ieMulticast :: bool
  ieMac :: u64
  ieMtu :: int
  ieAddr :: u32
  ieNetmask :: u32
  ieMetric :: int
  ieGroups :: "u32 list"
  ieListeners :: "u32 list"
  ieTtlThreshold :: int

datatype route_source = MANUAL | IFACENETMASK | ROUTER_ADVERTISEMENT | OWN_ADV_PREFIX | ICMP_REDIRECT | RIP | OSPF | BGP | ZEBRA | MANET | MANET2 | DYMO | AODV

record ip_route =
  rtId :: nat
  rtDest :: u32
  rtMask :: u32
  rtGateway :: u32
  rtInterface :: "int option"
  rtSourceType :: route_source
  rtAdminDist :: u32
  rtMetric :: int
  rtValid :: bool

record out_interface =
  oiInterface :: int
  oiLeaf :: bool
  oiEnabled :: bool

record multicast_route =
  mrId :: nat
  mrOrigin :: u32
  mrOriginMask :: u32
  mrGroup :: u32
  mrIn :: "int option"
  mrOut :: "out_interface list"
  mrMetric :: int
  mrValid :: bool

datatype rule_kind = RuleDrop | RuleAccept | RuleNat | RuleNone

record route_rule =
  ruId :: nat
  ruSrc :: u32
  ruSrcMask :: u32
  ruDest :: u32
  ruDestMask :: u32
  ruSrcPort :: int
  ruDestPort :: int
  ruProtocol :: int
  ruKind :: rule_kind
  ruInterface :: "int option"

abbreviation IP_PROT_NONE :: int where
  "IP_PROT_NONE \<equiv> 59"

record routing_table =
  interfaces :: "interface_entry list"
  routes :: "ip_route list"
  multicastRoutes :: "multicast_route list"
  routingCache :: "(u32 \<times> nat option) list"
  localAddresses :: "u32 list"
  localBroadcastAddresses :: "u32 list"
  outputRules :: "route_rule list"
  inputRules :: "route_rule list"
  routerId :: u32
  forwarding :: bool
  multicastForward :: bool
  useAdminDist :: bool
  nextRouteId :: nat

section \<open>Interfaces\<close>

definition getInterfaceById :: "int \<Rightarrow> routing_table \<Rightarrow> interface_entry option" where
  "getInterfaceById i t = find (\<lambda>ie. ieId ie = i) (interfaces t)"

definition getInterfaceByAddress :: "u32 \<Rightarrow> routing_table \<Rightarrow> interface_entry option" where
  "getInterfaceByAddress a t = (if isUnspecifiedAddress a then None else find (\<lambda>ie. ieAddr ie = a) (interfaces t))"

definition isMemberOfMulticastGroup :: "u32 \<Rightarrow> interface_entry \<Rightarrow> bool" where
  "isMemberOfMulticastGroup a ie = (a \<in> set (ieGroups ie))"

definition broadcastOf :: "interface_entry \<Rightarrow> u32" where
  "broadcastOf ie = makeBroadcastAddress (ieAddr ie) (ieNetmask ie)"

text \<open>The sets of local addresses are collected on demand.\<close>

definition isLocalAddress :: "u32 \<Rightarrow> routing_table \<Rightarrow> bool \<times> routing_table" where
  "isLocalAddress dest t =
     (let t1 = (if localAddresses t = [] then t\<lparr>localAddresses := map ieAddr (interfaces t)\<rparr> else t)
      in (dest \<in> set (localAddresses t1), t1))"

definition isLocalBroadcastAddress :: "u32 \<Rightarrow> routing_table \<Rightarrow> bool \<times> routing_table" where
  "isLocalBroadcastAddress dest t =
     (let t1 = (if localBroadcastAddresses t = []
                then t\<lparr>localBroadcastAddresses := filter (\<lambda>a. \<not> isUnspecifiedAddress a) (map broadcastOf (filter ieBroadcast (interfaces t)))\<rparr> else t)
      in (dest \<in> set (localBroadcastAddresses t1), t1))"

definition findInterfaceByLocalBroadcastAddress :: "u32 \<Rightarrow> routing_table \<Rightarrow> interface_entry option" where
  "findInterfaceByLocalBroadcastAddress dest t = find (\<lambda>ie. ieBroadcast ie \<and> broadcastOf ie = dest) (interfaces t)"

definition isLocalMulticastAddress :: "u32 \<Rightarrow> routing_table \<Rightarrow> bool" where
  "isLocalMulticastAddress dest t = (\<exists>ie \<in> set (interfaces t). isMemberOfMulticastGroup dest ie)"

definition gatherAddresses :: "routing_table \<Rightarrow> u32 list" where
  "gatherAddresses t = map ieAddr (interfaces t)"

text \<open>\<open>routerIdAuto\<close> tells that the parameter is \<open>"auto"\<close>.\<close>

definition configureRouterId :: "bool \<Rightarrow> routing_table \<Rightarrow> routing_table res" where
  "configureRouterId routerIdAuto t =
     (if isUnspecifiedAddress (routerId t)
      then Inr (if routerIdAuto
                then t\<lparr>routerId := fold (\<lambda>ie r. if \<not> ieLoopback ie \<and> ieAddr ie > r then ieAddr ie else r) (interfaces t) (routerId t)\<rparr>
                else t)
      else if getInterfaceByAddress (routerId t) t = None
      then case find ieLoopback (interfaces t) of
             None \<Rightarrow> Inl (AssertFailure ''lo0'')
           | Some lo0 \<Rightarrow> Inr (t\<lparr>interfaces := map (\<lambda>ie. if ieId ie = ieId lo0 then ie\<lparr>ieAddr := routerId t, ieNetmask := 0xFFFFFFFF\<rparr> else ie) (interfaces t)\<rparr>)
      else Inr t)"

section \<open>Unicast routes\<close>

definition routeLessThan :: "bool \<Rightarrow> ip_route \<Rightarrow> ip_route \<Rightarrow> bool" where
  "routeLessThan adminDist a b =
     (if rtMask a \<noteq> rtMask b then rtMask a > rtMask b
      else if rtDest a \<noteq> rtDest b then rtDest a < rtDest b
      else if adminDist \<and> rtAdminDist a \<noteq> rtAdminDist b then rtAdminDist a < rtAdminDist b
      else rtMetric a < rtMetric b)"

text \<open>\<open>std::upper_bound\<close> and \<open>insert\<close>: before the first element that is greater.\<close>

definition insertUpper :: "('a \<Rightarrow> 'a \<Rightarrow> bool) \<Rightarrow> 'a \<Rightarrow> 'a list \<Rightarrow> 'a list" where
  "insertUpper lt x xs = takeWhile (\<lambda>y. \<not> lt x y) xs @ x # dropWhile (\<lambda>y. \<not> lt x y) xs"

text \<open>A vector sorted by a comparison function: what insertion keeps and what the first match is.\<close>

locale sorted_vector =
  fixes lt :: "'a \<Rightarrow> 'a \<Rightarrow> bool"
  assumes asym: "lt x y \<Longrightarrow> \<not> lt y x"
    and incomparable_trans: "\<not> lt y x \<Longrightarrow> \<not> lt z y \<Longrightarrow> \<not> lt z x"
begin

abbreviation ascending :: "'a list \<Rightarrow> bool" where
  "ascending \<equiv> sorted_wrt (\<lambda>x y. \<not> lt y x)"

lemma ascending_drop: "ascending xs \<Longrightarrow> y \<in> set (dropWhile (\<lambda>y. \<not> lt x y) xs) \<Longrightarrow> lt x y"
proof (induction xs)
  case (Cons z zs)
  show ?case
  proof (cases "lt x z")
    case True
    then show ?thesis using Cons.prems incomparable_trans [of y z x] by auto
  next
    case False
    then show ?thesis using Cons by simp
  qed
qed simp

lemma ascending_insert:
  assumes "ascending xs"
  shows "ascending (insertUpper lt x xs)"
proof -
  let ?P = "\<lambda>y. \<not> lt x y"
  have sp: "ascending (takeWhile ?P xs @ dropWhile ?P xs)" using assms by simp
  then have 1: "ascending (takeWhile ?P xs)" "ascending (dropWhile ?P xs)" "\<forall>y \<in> set (takeWhile ?P xs). \<forall>z \<in> set (dropWhile ?P xs). \<not> lt z y"
    unfolding sorted_wrt_append by blast+
  have 2: "\<forall>y \<in> set (takeWhile ?P xs). \<not> lt x y" by (auto dest: set_takeWhileD)
  have 3: "\<forall>z \<in> set (dropWhile ?P xs). \<not> lt z x" using ascending_drop [OF assms] asym by blast
  have "ascending (x # dropWhile ?P xs)" using 1(2) 3 by simp
  moreover have "\<forall>y \<in> set (takeWhile ?P xs). \<forall>z \<in> set (x # dropWhile ?P xs). \<not> lt z y" using 1(3) 2 unfolding list.set by blast
  ultimately show ?thesis unfolding insertUpper_def sorted_wrt_append using 1(1) by blast
qed

lemma ascending_first:
  assumes "ascending xs" "find P xs = Some e" "y \<in> set xs" "P y"
  shows "\<not> lt y e"
  using assms
proof (induction xs)
  case (Cons z zs)
  have "\<not> lt e e" using asym by blast
  then show ?case using Cons by (cases "P z") auto
qed simp

lemma ascending_remove: "ascending xs \<Longrightarrow> ascending (remove1 x xs)"
  by (induction xs) (auto dest: set_remove1_subset [THEN subsetD])

lemma ascending_filter: "ascending xs \<Longrightarrow> ascending (filter P xs)"
  by (rule sorted_wrt_filter)

end

interpretation rtv: sorted_vector "routeLessThan adminDist" for adminDist
  by unfold_locales (auto simp: routeLessThan_def split: if_splits)

lemma set_insertUpper [simp]: "set (insertUpper lt x xs) = insert x (set xs)"
proof -
  have "set (takeWhile (\<lambda>y. \<not> lt x y) xs) \<union> set (dropWhile (\<lambda>y. \<not> lt x y) xs) = set xs" by (metis set_append takeWhile_dropWhile_id)
  then show ?thesis by (auto simp: insertUpper_def)
qed

lemma distinct_insertUpper: "distinct (map f xs) \<Longrightarrow> f x \<notin> f ` set xs \<Longrightarrow> distinct (map f (insertUpper lt x xs))"
proof -
  assume d: "distinct (map f xs)" and n: "f x \<notin> f ` set xs"
  let ?a = "takeWhile (\<lambda>y. \<not> lt x y) xs" and ?b = "dropWhile (\<lambda>y. \<not> lt x y) xs"
  have "distinct (map f (?a @ ?b))" using d by simp
  moreover have "set ?a \<subseteq> set xs" "set ?b \<subseteq> set xs" by (auto dest: set_takeWhileD set_dropWhileD)
  then have "f x \<notin> f ` set ?a" "f x \<notin> f ` set ?b" using n by auto
  ultimately show ?thesis unfolding insertUpper_def map_append distinct_append list.map distinct.simps by auto
qed

definition invalidateCache :: "routing_table \<Rightarrow> routing_table" where
  "invalidateCache t = t\<lparr>routingCache := [], localAddresses := [], localBroadcastAddresses := []\<rparr>"

definition findRoute :: "nat \<Rightarrow> routing_table \<Rightarrow> ip_route option" where
  "findRoute i t = find (\<lambda>r. rtId r = i) (routes t)"

definition getDefaultRoute :: "routing_table \<Rightarrow> ip_route option" where
  "getDefaultRoute t = find rtValid (takeWhile (\<lambda>r. isUnspecifiedAddress (rtMask r)) (rev (routes t)))"

definition internalRemoveRoute :: "nat \<Rightarrow> routing_table \<Rightarrow> ip_route option \<times> routing_table" where
  "internalRemoveRoute i t =
     (case findRoute i t of
        None \<Rightarrow> (None, t)
      | Some e \<Rightarrow> (Some e, t\<lparr>routes := remove1 e (routes t)\<rparr>))"

text \<open>\<open>removeRoute\<close> hands the route back, \<open>deleteRoute\<close> deletes it.\<close>

definition removeRoute :: "nat \<Rightarrow> routing_table \<Rightarrow> ip_route option \<times> routing_table" where
  "removeRoute i t = (case internalRemoveRoute i t of (None, t1) \<Rightarrow> (None, t1) | (Some e, t1) \<Rightarrow> (Some e, invalidateCache t1))"

definition deleteRoute :: "nat \<Rightarrow> routing_table \<Rightarrow> bool \<times> routing_table" where
  "deleteRoute i t = (case internalRemoveRoute i t of (None, t1) \<Rightarrow> (False, t1) | (Some e, t1) \<Rightarrow> (True, invalidateCache t1))"

definition internalAddRoute :: "ip_route \<Rightarrow> routing_table \<Rightarrow> routing_table res" where
  "internalAddRoute e t =
     (if \<not> isValidNetmask (rtMask e) then Inl (RuntimeError ''addRoute(): wrong netmask'')
      else if rtMask e \<noteq> 0 \<and> rtDest e AND rtMask e = 0 then Inl (RuntimeError ''addRoute(): all bits of destination address is 0 inside non zero netmask'')
      else if rtDest e AND NOT (rtMask e) \<noteq> 0 then Inl (RuntimeError ''addRoute(): suspicious route: destination IP address has bits set outside netmask'')
      else if rtInterface e = None then Inl (RuntimeError ''addRoute(): interface cannot be nullptr'')
      else let t1 = (if isUnspecifiedAddress (rtMask e)
                     then case getDefaultRoute t of None \<Rightarrow> t | Some old \<Rightarrow> snd (deleteRoute (rtId old) t)
                     else t)
           in Inr (t1\<lparr>routes := insertUpper (routeLessThan (useAdminDist t)) e (routes t1)\<rparr>))"

definition addRoute :: "ip_route \<Rightarrow> routing_table \<Rightarrow> routing_table res" where
  "addRoute e t = bindR (internalAddRoute e t) (\<lambda>t1. Inr (invalidateCache t1))"

definition routeMatches :: "u32 \<Rightarrow> ip_route \<Rightarrow> bool" where
  "routeMatches dest e = maskedAddrAreEqual dest (rtDest e) (rtMask e)"

definition putCache :: "u32 \<Rightarrow> nat option \<Rightarrow> (u32 \<times> nat option) list \<Rightarrow> (u32 \<times> nat option) list" where
  "putCache d r c = (d, r) # filter (\<lambda>x. fst x \<noteq> d) c"

definition searchRoute :: "u32 \<Rightarrow> routing_table \<Rightarrow> ip_route option" where
  "searchRoute dest t = find (\<lambda>e. rtValid e \<and> routeMatches dest e) (routes t)"

definition findBestMatchingRoute :: "u32 \<Rightarrow> routing_table \<Rightarrow> (ip_route option \<times> routing_table) res" where
  "findBestMatchingRoute dest t =
     (let search = (let r = searchRoute dest t in Inr (r, t\<lparr>routingCache := putCache dest (map_option rtId r) (routingCache t)\<rparr>)) in
      case map_of (routingCache t) dest of
        None \<Rightarrow> search
      | Some None \<Rightarrow> Inr (None, t)
      | Some (Some i) \<Rightarrow>
          (case findRoute i t of
             None \<Rightarrow> Inl (RuntimeError ''dangling pointer in the routing cache'')
           | Some e \<Rightarrow> if rtValid e then Inr (Some e, t) else search))"

definition getInterfaceForDestAddr :: "u32 \<Rightarrow> routing_table \<Rightarrow> (int option \<times> routing_table) res" where
  "getInterfaceForDestAddr dest t = bindR (findBestMatchingRoute dest t) (\<lambda>(r, t1). Inr (case r of Some e \<Rightarrow> rtInterface e | None \<Rightarrow> None, t1))"

definition getGatewayForDestAddr :: "u32 \<Rightarrow> routing_table \<Rightarrow> (u32 \<times> routing_table) res" where
  "getGatewayForDestAddr dest t = bindR (findBestMatchingRoute dest t) (\<lambda>(r, t1). Inr (case r of Some e \<Rightarrow> rtGateway e | None \<Rightarrow> 0, t1))"

definition getRoute :: "int \<Rightarrow> routing_table \<Rightarrow> ip_route option" where
  "getRoute k t = (if k < int (length (routes t)) then Some (routes t ! nat k) else None)"

subsection \<open>Changes of a route\<close>

datatype route_field = F_DESTINATION | F_PREFIX_LENGTH | F_NEXTHOP | F_IFACE | F_SOURCE | F_TYPE | F_ADMINDIST | F_METRIC

definition routeChanged :: "nat \<Rightarrow> route_field \<Rightarrow> routing_table \<Rightarrow> routing_table res" where
  "routeChanged i fieldCode t =
     (if fieldCode = F_DESTINATION \<or> fieldCode = F_PREFIX_LENGTH \<or> fieldCode = F_METRIC
      then case internalRemoveRoute i t of
             (None, _) \<Rightarrow> Inl (AssertFailure ''entry != nullptr'')
           | (Some e, t1) \<Rightarrow> bindR (internalAddRoute e t1) (\<lambda>t2. Inr (invalidateCache t2))
      else Inr t)"

text \<open>A setter writes the field in place and reports the change, if there is one.\<close>

definition onRoute :: "nat \<Rightarrow> (ip_route \<Rightarrow> ip_route) \<Rightarrow> ip_route \<Rightarrow> ip_route" where
  "onRoute i upd r = (if rtId r = i then upd r else r)"

definition setRouteField :: "(ip_route \<Rightarrow> ip_route) \<Rightarrow> route_field \<Rightarrow> nat \<Rightarrow> routing_table \<Rightarrow> routing_table res" where
  "setRouteField upd fieldCode i t =
     (case findRoute i t of
        None \<Rightarrow> Inr t
      | Some e \<Rightarrow>
          if upd e = e then Inr t
          else routeChanged i fieldCode (t\<lparr>routes := map (onRoute i upd) (routes t)\<rparr>))"

definition setDestination :: "u32 \<Rightarrow> nat \<Rightarrow> routing_table \<Rightarrow> routing_table res" where
  "setDestination d = setRouteField (\<lambda>r. r\<lparr>rtDest := d\<rparr>) F_DESTINATION"

definition setNetmask :: "u32 \<Rightarrow> nat \<Rightarrow> routing_table \<Rightarrow> routing_table res" where
  "setNetmask m = setRouteField (\<lambda>r. r\<lparr>rtMask := m\<rparr>) F_PREFIX_LENGTH"

definition setGateway :: "u32 \<Rightarrow> nat \<Rightarrow> routing_table \<Rightarrow> routing_table res" where
  "setGateway g = setRouteField (\<lambda>r. r\<lparr>rtGateway := g\<rparr>) F_NEXTHOP"

definition setInterface :: "int option \<Rightarrow> nat \<Rightarrow> routing_table \<Rightarrow> routing_table res" where
  "setInterface ie = setRouteField (\<lambda>r. r\<lparr>rtInterface := ie\<rparr>) F_IFACE"

definition setSourceType :: "route_source \<Rightarrow> nat \<Rightarrow> routing_table \<Rightarrow> routing_table res" where
  "setSourceType s = setRouteField (\<lambda>r. r\<lparr>rtSourceType := s\<rparr>) F_SOURCE"

definition setAdminDist :: "u32 \<Rightarrow> nat \<Rightarrow> routing_table \<Rightarrow> routing_table res" where
  "setAdminDist d = setRouteField (\<lambda>r. r\<lparr>rtAdminDist := d\<rparr>) F_ADMINDIST"

definition setMetric :: "int \<Rightarrow> nat \<Rightarrow> routing_table \<Rightarrow> routing_table res" where
  "setMetric m = setRouteField (\<lambda>r. r\<lparr>rtMetric := m\<rparr>) F_METRIC"

text \<open>A route of a subclass may expire, which no one is told.\<close>

definition expireRoute :: "nat \<Rightarrow> routing_table \<Rightarrow> routing_table" where
  "expireRoute i t = t\<lparr>routes := map (onRoute i (\<lambda>r. r\<lparr>rtValid := False\<rparr>)) (routes t)\<rparr>"

subsection \<open>Removal of many routes\<close>

definition purge :: "routing_table \<Rightarrow> routing_table" where
  "purge t =
     (let t1 = t\<lparr>routes := filter rtValid (routes t), multicastRoutes := filter mrValid (multicastRoutes t)\<rparr>
      in if (\<exists>r \<in> set (routes t). \<not> rtValid r) \<or> (\<exists>r \<in> set (multicastRoutes t). \<not> mrValid r) then invalidateCache t1 else t1)"

fun removeOut :: "int \<Rightarrow> out_interface list \<Rightarrow> bool \<times> out_interface list" where
  "removeOut i [] = (False, [])"
| "removeOut i (x # xs) = (if oiInterface x = i then (True, xs) else case removeOut i xs of (b, ys) \<Rightarrow> (b, x # ys))"

definition removeOutInterface :: "int \<Rightarrow> multicast_route \<Rightarrow> bool \<times> multicast_route" where
  "removeOutInterface i r = (case removeOut i (mrOut r) of (b, xs) \<Rightarrow> (b, r\<lparr>mrOut := xs\<rparr>))"

definition deleteInterfaceRoutes :: "int \<Rightarrow> routing_table \<Rightarrow> routing_table" where
  "deleteInterfaceRoutes i t =
     (let kept = filter (\<lambda>r. rtInterface r \<noteq> Some i) (routes t);
          mkept = filter (\<lambda>r. mrIn r \<noteq> Some i) (multicastRoutes t);
          changed = length kept \<noteq> length (routes t) \<or> length mkept \<noteq> length (multicastRoutes t) \<or> (\<exists>r \<in> set mkept. fst (removeOutInterface i r));
          t1 = t\<lparr>routes := kept, multicastRoutes := map (snd \<circ> removeOutInterface i) mkept\<rparr>
      in if changed then invalidateCache t1 else t1)"

text \<open>Node shutdown: \<open>while (!routes.empty()) delete removeRoute(routes[0])\<close>.\<close>

function removeAllRoutes :: "routing_table \<Rightarrow> routing_table" where
  "removeAllRoutes t = (case routes t of [] \<Rightarrow> t | r # _ \<Rightarrow> removeAllRoutes (snd (removeRoute (rtId r) t)))"
  by pat_completeness auto
termination
  by (relation "measure (length \<circ> routes)") (auto simp: removeRoute_def internalRemoveRoute_def findRoute_def invalidateCache_def split: if_splits)

declare removeAllRoutes.simps [simp del]

text \<open>\<open>nameMatches\<close> is the pattern of the parameter \<open>netmaskRoutes\<close>.\<close>

definition netmaskRoute :: "nat \<Rightarrow> interface_entry \<Rightarrow> ip_route" where
  "netmaskRoute i ie = \<lparr>rtId = i, rtDest = ieAddr ie AND ieNetmask ie, rtMask = ieNetmask ie, rtGateway = 0, rtInterface = Some (ieId ie),
     rtSourceType = IFACENETMASK, rtAdminDist = 0, rtMetric = ieMetric ie, rtValid = True\<rparr>"

definition addNetmaskRoute :: "(string \<Rightarrow> bool) \<Rightarrow> interface_entry \<Rightarrow> routing_table \<Rightarrow> routing_table" where
  "addNetmaskRoute nameMatches ie t =
     (if nameMatches (ieName ie) \<and> ieNetmask ie \<noteq> 0xFFFFFFFF
      then t\<lparr>routes := insertUpper (routeLessThan (useAdminDist t)) (netmaskRoute (nextRouteId t) ie) (routes t), nextRouteId := nextRouteId t + 1\<rparr>
      else t)"

definition updateNetmaskRoutes :: "(string \<Rightarrow> bool) \<Rightarrow> routing_table \<Rightarrow> routing_table" where
  "updateNetmaskRoutes nameMatches t =
     invalidateCache (fold (addNetmaskRoute nameMatches) (interfaces t) (t\<lparr>routes := filter (\<lambda>r. rtSourceType r \<noteq> IFACENETMASK) (routes t)\<rparr>))"

datatype interface_signal = NF_INTERFACE_CREATED | NF_INTERFACE_DELETED int | NF_INTERFACE_STATE_CHANGED | NF_INTERFACE_CONFIG_CHANGED | NF_INTERFACE_IPv4CONFIG_CHANGED

definition receiveSignal :: "(string \<Rightarrow> bool) \<Rightarrow> interface_signal \<Rightarrow> routing_table \<Rightarrow> routing_table" where
  "receiveSignal nameMatches s t =
     (case s of
        NF_INTERFACE_CREATED \<Rightarrow> updateNetmaskRoutes nameMatches t
      | NF_INTERFACE_DELETED i \<Rightarrow> deleteInterfaceRoutes i t
      | NF_INTERFACE_STATE_CHANGED \<Rightarrow> invalidateCache t
      | NF_INTERFACE_CONFIG_CHANGED \<Rightarrow> invalidateCache t
      | NF_INTERFACE_IPv4CONFIG_CHANGED \<Rightarrow> updateNetmaskRoutes nameMatches t)"

section \<open>Multicast routes\<close>

definition multicastRouteLessThan :: "multicast_route \<Rightarrow> multicast_route \<Rightarrow> bool" where
  "multicastRouteLessThan a b =
     (if mrOriginMask a \<noteq> mrOriginMask b then mrOriginMask a > mrOriginMask b
      else if mrOrigin a \<noteq> mrOrigin b then mrOrigin a < mrOrigin b
      else if mrGroup a \<noteq> mrGroup b then mrGroup a > mrGroup b
      else mrMetric a < mrMetric b)"

interpretation mrv: sorted_vector multicastRouteLessThan
  by unfold_locales (auto simp: multicastRouteLessThan_def split: if_splits)

definition multicastMatches :: "u32 \<Rightarrow> u32 \<Rightarrow> multicast_route \<Rightarrow> bool" where
  "multicastMatches origin grp r = ((isUnspecifiedAddress (mrGroup r) \<or> mrGroup r = grp) \<and> maskedAddrAreEqual origin (mrOrigin r) (mrOriginMask r))"

definition findBestMatchingMulticastRoute :: "u32 \<Rightarrow> u32 \<Rightarrow> routing_table \<Rightarrow> multicast_route option" where
  "findBestMatchingMulticastRoute origin grp t = find (\<lambda>e. mrValid e \<and> multicastMatches origin grp e) (multicastRoutes t)"

definition isMulticastInterface :: "int \<Rightarrow> routing_table \<Rightarrow> bool" where
  "isMulticastInterface i t = (case getInterfaceById i t of Some ie \<Rightarrow> ieMulticast ie | None \<Rightarrow> False)"

fun checkOutInterfaces :: "int option \<Rightarrow> out_interface list \<Rightarrow> routing_table \<Rightarrow> unit res" where
  "checkOutInterfaces inIf [] t = Inr ()"
| "checkOutInterfaces inIf (x # xs) t =
     (if \<not> isMulticastInterface (oiInterface x) t then Inl (RuntimeError ''addMulticastRoute(): output interface must be multicast capable'')
      else if inIf = Some (oiInterface x) then Inl (RuntimeError ''addMulticastRoute(): output interface cannot be the same as the input interface'')
      else checkOutInterfaces inIf xs t)"

definition internalAddMulticastRoute :: "multicast_route \<Rightarrow> routing_table \<Rightarrow> routing_table res" where
  "internalAddMulticastRoute e t =
     (if \<not> isValidNetmask (mrOriginMask e) then Inl (RuntimeError ''addMulticastRoute(): wrong netmask'')
      else if mrOrigin e AND NOT (mrOriginMask e) \<noteq> 0 then Inl (RuntimeError ''addMulticastRoute(): suspicious route: origin IP address has bits set outside netmask'')
      else if \<not> isUnspecifiedAddress (mrGroup e) \<and> \<not> isMulticastAddress (mrGroup e) then Inl (RuntimeError ''addMulticastRoute(): group address is not a multicast address'')
      else if (case mrIn e of Some i \<Rightarrow> \<not> isMulticastInterface i t | None \<Rightarrow> False) then Inl (RuntimeError ''addMulticastRoute(): input interface must be multicast capable'')
      else bindR (checkOutInterfaces (mrIn e) (mrOut e) t) (\<lambda>_.
           Inr (t\<lparr>multicastRoutes := insertUpper multicastRouteLessThan e (multicastRoutes t)\<rparr>)))"

definition addMulticastRoute :: "multicast_route \<Rightarrow> routing_table \<Rightarrow> routing_table res" where
  "addMulticastRoute e t = bindR (internalAddMulticastRoute e t) (\<lambda>t1. Inr (invalidateCache t1))"

definition internalRemoveMulticastRoute :: "nat \<Rightarrow> routing_table \<Rightarrow> multicast_route option \<times> routing_table" where
  "internalRemoveMulticastRoute i t =
     (case find (\<lambda>r. mrId r = i) (multicastRoutes t) of
        None \<Rightarrow> (None, t)
      | Some e \<Rightarrow> (Some e, t\<lparr>multicastRoutes := remove1 e (multicastRoutes t)\<rparr>))"

definition removeMulticastRoute :: "nat \<Rightarrow> routing_table \<Rightarrow> multicast_route option \<times> routing_table" where
  "removeMulticastRoute i t = (case internalRemoveMulticastRoute i t of (None, t1) \<Rightarrow> (None, t1) | (Some e, t1) \<Rightarrow> (Some e, invalidateCache t1))"

definition deleteMulticastRoute :: "nat \<Rightarrow> routing_table \<Rightarrow> bool \<times> routing_table" where
  "deleteMulticastRoute i t = (case internalRemoveMulticastRoute i t of (None, t1) \<Rightarrow> (False, t1) | (Some e, t1) \<Rightarrow> (True, invalidateCache t1))"

definition addOutInterface :: "out_interface \<Rightarrow> multicast_route \<Rightarrow> multicast_route" where
  "addOutInterface x r =
     (if \<exists>y \<in> set (mrOut r). oiInterface y = oiInterface x
      then r\<lparr>mrOut := takeWhile (\<lambda>y. oiInterface y \<noteq> oiInterface x) (mrOut r) @ x # tl (dropWhile (\<lambda>y. oiInterface y \<noteq> oiInterface x) (mrOut r))\<rparr>
      else r\<lparr>mrOut := mrOut r @ [x]\<rparr>)"

text \<open>The setters of a multicast route; origin, mask, group and metric determine its place.\<close>

datatype mroute_field = F_ORIGIN | F_ORIGINMASK | F_MULTICASTGROUP | F_IN | F_OUT | F_MSOURCE | F_MMETRIC

definition multicastRouteChanged :: "nat \<Rightarrow> mroute_field \<Rightarrow> routing_table \<Rightarrow> routing_table res" where
  "multicastRouteChanged i fieldCode t =
     (if fieldCode = F_ORIGIN \<or> fieldCode = F_ORIGINMASK \<or> fieldCode = F_MULTICASTGROUP \<or> fieldCode = F_MMETRIC
      then case internalRemoveMulticastRoute i t of
             (None, _) \<Rightarrow> Inl (AssertFailure ''entry != nullptr'')
           | (Some e, t1) \<Rightarrow> bindR (internalAddMulticastRoute e t1) (\<lambda>t2. Inr (invalidateCache t2))
      else Inr t)"

definition setMulticastField :: "(multicast_route \<Rightarrow> multicast_route) \<Rightarrow> mroute_field \<Rightarrow> nat \<Rightarrow> routing_table \<Rightarrow> routing_table res" where
  "setMulticastField upd fieldCode i t =
     (case find (\<lambda>r. mrId r = i) (multicastRoutes t) of
        None \<Rightarrow> Inr t
      | Some e \<Rightarrow>
          if upd e = e then Inr t
          else multicastRouteChanged i fieldCode (t\<lparr>multicastRoutes := map (\<lambda>r. if mrId r = i then upd r else r) (multicastRoutes t)\<rparr>))"

text \<open>The multicast routes stay sorted, so that the first match has the longest origin prefix, and a route of the group itself goes before one of all groups.\<close>

lemma multicast_sorted:
  assumes s: "mrv.ascending (multicastRoutes t)"
  shows "addMulticastRoute e t = Inr t1 \<Longrightarrow> mrv.ascending (multicastRoutes t1)"
    and "mrv.ascending (multicastRoutes (snd (removeMulticastRoute i t)))"
    and "mrv.ascending (multicastRoutes (snd (deleteMulticastRoute i t)))"
    and "mrv.ascending (multicastRoutes (purge t))"
    and "mrv.ascending (multicastRoutes (deleteInterfaceRoutes ie t))"
proof -
  show "addMulticastRoute e t = Inr t1 \<Longrightarrow> mrv.ascending (multicastRoutes t1)"
    using mrv.ascending_insert [OF s, of e] by (auto simp: addMulticastRoute_def internalAddMulticastRoute_def bindR_eq_Inr invalidateCache_def split: if_splits)
  show "mrv.ascending (multicastRoutes (snd (removeMulticastRoute i t)))"
    using mrv.ascending_remove [OF s] s by (simp add: removeMulticastRoute_def internalRemoveMulticastRoute_def invalidateCache_def split: option.split)
  show "mrv.ascending (multicastRoutes (snd (deleteMulticastRoute i t)))"
    using mrv.ascending_remove [OF s] s by (simp add: deleteMulticastRoute_def internalRemoveMulticastRoute_def invalidateCache_def split: option.split)
  show "mrv.ascending (multicastRoutes (purge t))"
    using mrv.ascending_filter [OF s] s by (simp add: purge_def Let_def invalidateCache_def)
  have same: "multicastRouteLessThan (snd (removeOutInterface ie x)) (snd (removeOutInterface ie y)) = multicastRouteLessThan x y" for x y
    by (simp add: removeOutInterface_def multicastRouteLessThan_def split: prod.split)
  show "mrv.ascending (multicastRoutes (deleteInterfaceRoutes ie t))"
    using mrv.ascending_filter [OF s] by (simp add: deleteInterfaceRoutes_def Let_def invalidateCache_def sorted_wrt_map same)
qed

lemma best_multicast_route:
  assumes "mrv.ascending (multicastRoutes t)" "findBestMatchingMulticastRoute origin grp t = Some e"
    and r: "r \<in> set (multicastRoutes t)" "mrValid r" "multicastMatches origin grp r"
  shows "mrOriginMask r \<le> mrOriginMask e \<and>
     (mrOriginMask r = mrOriginMask e \<and> mrOrigin r = mrOrigin e \<longrightarrow> mrGroup r \<le> mrGroup e \<and> (mrGroup r = mrGroup e \<longrightarrow> mrMetric e \<le> mrMetric r))"
proof -
  have "\<not> multicastRouteLessThan r e" using mrv.ascending_first [OF assms(1) assms(2) [unfolded findBestMatchingMulticastRoute_def] r(1)] r by simp
  then show ?thesis by (auto simp: multicastRouteLessThan_def not_less split: if_splits)
qed

section \<open>Rules\<close>

definition delRule :: "nat \<Rightarrow> routing_table \<Rightarrow> routing_table" where
  "delRule i t = t\<lparr>outputRules := filter (\<lambda>r. ruId r \<noteq> i) (outputRules t), inputRules := filter (\<lambda>r. ruId r \<noteq> i) (inputRules t)\<rparr>"

definition addRule :: "bool \<Rightarrow> route_rule \<Rightarrow> routing_table \<Rightarrow> routing_table" where
  "addRule output r t =
     (let t1 = delRule (ruId r) t
      in if output then t1\<lparr>outputRules := outputRules t1 @ [r]\<rparr> else t1\<lparr>inputRules := inputRules t1 @ [r]\<rparr>)"

definition rulesOf :: "bool \<Rightarrow> routing_table \<Rightarrow> route_rule list" where
  "rulesOf output t = (if output then outputRules t else inputRules t)"

text \<open>The tests of the loop body, in order. The test of the destination port compares the source port.\<close>

definition ruleApplies :: "int \<Rightarrow> int \<Rightarrow> u32 \<Rightarrow> int \<Rightarrow> u32 \<Rightarrow> int option \<Rightarrow> route_rule \<Rightarrow> bool" where
  "ruleApplies prot sPort srcAddr dPort destAddr iface e =
     (if \<not> isUnspecifiedAddress srcAddr \<and> \<not> isUnspecifiedAddress (ruSrc e) \<and> \<not> maskedAddrAreEqual srcAddr (ruSrc e) (ruSrcMask e) then False
      else if \<not> isUnspecifiedAddress destAddr \<and> \<not> isUnspecifiedAddress (ruDest e) \<and> \<not> maskedAddrAreEqual destAddr (ruDest e) (ruDestMask e) then False
      else if prot \<noteq> IP_PROT_NONE \<and> ruProtocol e \<noteq> IP_PROT_NONE \<and> prot \<noteq> ruProtocol e then False
      else if sPort \<noteq> - 1 \<and> ruSrcPort e \<noteq> - 1 \<and> sPort \<noteq> ruSrcPort e then False
      else if dPort \<noteq> - 1 \<and> ruDestPort e \<noteq> - 1 \<and> sPort \<noteq> ruDestPort e then False
      else if iface \<noteq> None \<and> ruInterface e \<noteq> None \<and> iface \<noteq> ruInterface e then False
      else True)"

definition findRule :: "bool \<Rightarrow> int \<Rightarrow> int \<Rightarrow> u32 \<Rightarrow> int \<Rightarrow> u32 \<Rightarrow> int option \<Rightarrow> routing_table \<Rightarrow> route_rule option" where
  "findRule output prot sPort srcAddr dPort destAddr iface t = find (ruleApplies prot sPort srcAddr dPort destAddr iface) (rulesOf output t)"

section \<open>Invariant\<close>

definition routeOk :: "ip_route \<Rightarrow> bool" where
  "routeOk r \<longleftrightarrow> isValidNetmask (rtMask r) \<and> rtDest r AND NOT (rtMask r) = 0"

text \<open>A cached answer is the one a search would give, unless its route has expired; no pointer in the cache dangles.\<close>

definition cacheOk :: "routing_table \<Rightarrow> bool" where
  "cacheOk t \<longleftrightarrow> (\<forall>d. map_of (routingCache t) d = Some None \<longrightarrow> searchRoute d t = None) \<and>
     (\<forall>d i. map_of (routingCache t) d = Some (Some i) \<longrightarrow> (\<exists>e. findRoute i t = Some e \<and> (rtValid e \<longrightarrow> searchRoute d t = Some e)))"

definition vectorOk :: "routing_table \<Rightarrow> bool" where
  "vectorOk t \<longleftrightarrow> distinct (map rtId (routes t)) \<and> sorted_wrt (\<lambda>x y. \<not> routeLessThan (useAdminDist t) y x) (routes t) \<and>
     (\<forall>r \<in> set (routes t). routeOk r \<and> rtId r < nextRouteId t)"

definition tableOk :: "routing_table \<Rightarrow> bool" where
  "tableOk t \<longleftrightarrow> vectorOk t \<and> cacheOk t"

lemma tableOk_cong:
  assumes "routes t' = routes t" "routingCache t' = routingCache t" "useAdminDist t' = useAdminDist t" "nextRouteId t \<le> nextRouteId t'" "tableOk t"
  shows "tableOk t'"
proof -
  have "searchRoute d t' = searchRoute d t" "findRoute i t' = findRoute i t" for d i using assms(1) by (simp_all add: searchRoute_def findRoute_def)
  then have "cacheOk t'" using assms(2,5) unfolding tableOk_def cacheOk_def by simp
  moreover have "vectorOk t'"
  proof -
    have v: "vectorOk t" using assms(5) by (simp add: tableOk_def)
    then have "\<forall>r \<in> set (routes t). rtId r < nextRouteId t'" unfolding vectorOk_def using assms(4) less_le_trans by blast
    then show ?thesis using v unfolding vectorOk_def assms(1,3) by blast
  qed
  ultimately show ?thesis by (simp add: tableOk_def)
qed

lemma tableOk_frame:
  assumes "tableOk t"
  shows "tableOk (t\<lparr>localAddresses := a\<rparr>)" "tableOk (t\<lparr>localBroadcastAddresses := a\<rparr>)" "tableOk (t\<lparr>interfaces := ies\<rparr>)"
    "tableOk (t\<lparr>outputRules := ors, inputRules := irs\<rparr>)" "tableOk (t\<lparr>inputRules := irs, outputRules := ors\<rparr>)" "tableOk (t\<lparr>nextRouteId := nextRouteId t + 1\<rparr>)"
  by (rule tableOk_cong [OF _ _ _ _ assms]; simp)+

lemma tableOk_empty: "routes t = [] \<Longrightarrow> routingCache t = [] \<Longrightarrow> tableOk t"
  by (simp add: tableOk_def vectorOk_def cacheOk_def)

lemma invalidate_ok: "vectorOk t \<Longrightarrow> tableOk (invalidateCache t)"
  by (simp add: tableOk_def vectorOk_def cacheOk_def invalidateCache_def)

lemma invalidate_simps [simp]:
  "routes (invalidateCache t) = routes t" "useAdminDist (invalidateCache t) = useAdminDist t" "nextRouteId (invalidateCache t) = nextRouteId t"
  "interfaces (invalidateCache t) = interfaces t"
  by (simp_all add: invalidateCache_def)

lemma vectorOk_filter:
  assumes "vectorOk t" "routes t' = filter P (routes t)" "useAdminDist t' = useAdminDist t" "nextRouteId t' = nextRouteId t"
  shows "vectorOk t'"
  using assms by (auto simp: vectorOk_def rtv.ascending_filter distinct_map_filter)

lemma remove1_filter: "distinct (map rtId rs) \<Longrightarrow> e \<in> set rs \<Longrightarrow> remove1 e rs = filter (\<lambda>r. rtId r \<noteq> rtId e) rs"
proof (induction rs)
  case (Cons r rs)
  show ?case
  proof (cases "r = e")
    case True
    have "rtId e \<notin> rtId ` set rs" using Cons.prems(1) True by simp
    then have "\<forall>x \<in> set rs. rtId x \<noteq> rtId e" by (metis imageI)
    then show ?thesis using True by (simp add: filter_id_conv)
  next
    case False
    then have "e \<in> set rs" using Cons.prems(2) by simp
    moreover from this have "rtId r \<noteq> rtId e" using Cons.prems(1) by (metis distinct.simps(2) imageI list.set_map list.simps(9))
    ultimately show ?thesis using Cons.IH Cons.prems(1) False by simp
  qed
qed simp

lemma findRoute_Some:
  assumes "vectorOk t"
  shows "findRoute i t = Some e \<longleftrightarrow> e \<in> set (routes t) \<and> rtId e = i"
proof -
  have "find (\<lambda>r. rtId r = i) rs = Some e \<longleftrightarrow> e \<in> set rs \<and> rtId e = i" if "distinct (map rtId rs)" for rs
    using that
  proof (induction rs)
    case (Cons r rs)
    have "rtId r \<notin> rtId ` set rs" using Cons.prems by simp
    then have "\<forall>x \<in> set rs. rtId x \<noteq> rtId r" by (metis imageI)
    then show ?case using Cons by (cases "rtId r = i") auto
  qed simp
  then show ?thesis using assms by (simp add: findRoute_def vectorOk_def)
qed

lemma internalRemove_filter:
  assumes "vectorOk t"
  shows "internalRemoveRoute i t = (findRoute i t, t\<lparr>routes := filter (\<lambda>x. rtId x \<noteq> i) (routes t)\<rparr>)"
proof (cases "findRoute i t")
  case None
  then have "filter (\<lambda>x. rtId x \<noteq> i) (routes t) = routes t" by (auto simp: findRoute_def find_None_iff filter_id_conv)
  then show ?thesis using None by (simp add: internalRemoveRoute_def)
next
  case (Some e)
  then have e: "e \<in> set (routes t)" "rtId e = i" using findRoute_Some [OF assms] by auto
  have "remove1 e (routes t) = filter (\<lambda>x. rtId x \<noteq> i) (routes t)" using assms e remove1_filter [of "routes t" e] by (simp add: vectorOk_def)
  then show ?thesis using Some by (simp add: internalRemoveRoute_def)
qed

lemma vectorOk_remove: "vectorOk t \<Longrightarrow> vectorOk (t\<lparr>routes := filter P (routes t)\<rparr>)"
  by (rule vectorOk_filter) simp_all

lemma removeRoute_ok:
  assumes "tableOk t"
  shows "tableOk (snd (deleteRoute i t))" "tableOk (snd (removeRoute i t))"
proof -
  have v: "vectorOk t" using assms by (simp add: tableOk_def)
  show "tableOk (snd (deleteRoute i t))" "tableOk (snd (removeRoute i t))"
    unfolding deleteRoute_def removeRoute_def internalRemove_filter [OF v]
    using assms invalidate_ok [OF vectorOk_remove [OF v, of "\<lambda>x. rtId x \<noteq> i"]]
    by (auto simp: findRoute_def find_None_iff filter_id_conv split: option.splits)
qed

text \<open>Insertion.\<close>

lemma vectorOk_insert:
  assumes "vectorOk t" "routeOk e" "rtId e < nextRouteId t'" "rtId e \<notin> rtId ` set (routes t)"
    and "routes t' = insertUpper (routeLessThan (useAdminDist t)) e (routes t)" "useAdminDist t' = useAdminDist t" "nextRouteId t \<le> nextRouteId t'"
  shows "vectorOk t'"
proof -
  have "distinct (map rtId (routes t'))" unfolding assms(5) using assms(1,4) by (intro distinct_insertUpper) (simp_all add: vectorOk_def)
  moreover have "sorted_wrt (\<lambda>x y. \<not> routeLessThan (useAdminDist t') y x) (routes t')"
    unfolding assms(5,6) using assms(1) by (intro rtv.ascending_insert) (simp add: vectorOk_def)
  moreover have "\<forall>r \<in> set (routes t'). routeOk r \<and> rtId r < nextRouteId t'"
    using assms(1-3,5,7) unfolding vectorOk_def by (auto intro: less_le_trans)
  ultimately show ?thesis by (simp add: vectorOk_def)
qed

lemma deleteRoute_simps [simp]:
  "useAdminDist (snd (deleteRoute i t)) = useAdminDist t" "nextRouteId (snd (deleteRoute i t)) = nextRouteId t" "interfaces (snd (deleteRoute i t)) = interfaces t"
  by (auto simp: deleteRoute_def internalRemoveRoute_def split: option.splits)

lemma deleteRoute_vector:
  assumes "vectorOk t"
  shows "vectorOk (snd (deleteRoute i t))" "set (routes (snd (deleteRoute i t))) \<subseteq> set (routes t)"
  using invalidate_ok [OF vectorOk_remove [OF assms, of "\<lambda>x. rtId x \<noteq> i"]] assms
  by (auto simp: deleteRoute_def internalRemove_filter [OF assms] tableOk_def findRoute_def find_None_iff filter_id_conv split: option.splits)

lemma internalAdd_vector:
  assumes "internalAddRoute e t = Inr t'" "vectorOk t" "rtId e < nextRouteId t" "rtId e \<notin> rtId ` set (routes t)"
  shows "vectorOk t'"
proof -
  let ?t1 = "if isUnspecifiedAddress (rtMask e) then case getDefaultRoute t of None \<Rightarrow> t | Some old \<Rightarrow> snd (deleteRoute (rtId old) t) else t"
  have t': "t' = ?t1\<lparr>routes := insertUpper (routeLessThan (useAdminDist t)) e (routes ?t1)\<rparr>" and e: "routeOk e"
    using assms(1) unfolding internalAddRoute_def Let_def routeOk_def by (simp_all split: if_splits)
  have t1: "useAdminDist ?t1 = useAdminDist t" "nextRouteId ?t1 = nextRouteId t" "vectorOk ?t1" "set (routes ?t1) \<subseteq> set (routes t)"
    using deleteRoute_vector [OF assms(2)] assms(2) by (auto split: option.splits)
  then have "rtId e \<notin> rtId ` set (routes ?t1)" using assms(4) by blast
  then show ?thesis using vectorOk_insert [OF t1(3) e, of t'] t1(1,2) assms(3) by (simp add: t')
qed

lemma addRoute_ok:
  assumes "addRoute e t = Inr t'" "tableOk t" "rtId e < nextRouteId t" "rtId e \<notin> rtId ` set (routes t)"
  shows "tableOk t'"
proof -
  obtain t1 where "internalAddRoute e t = Inr t1" "t' = invalidateCache t1" using assms(1) by (auto simp: addRoute_def)
  then show ?thesis using internalAdd_vector [of e t t1] assms(2-4) invalidate_ok by (simp add: tableOk_def)
qed

text \<open>Changes in place.\<close>

lemma find_map: "(\<And>x. P (f x) = P x) \<Longrightarrow> find P (map f xs) = map_option f (find P xs)"
  by (induction xs) auto

lemma onRoute_id: "(\<And>r. rtId (upd r) = rtId r) \<Longrightarrow> rtId (onRoute i upd r) = rtId r"
  by (simp add: onRoute_def)

lemma map_onRoute_id: "(\<And>r. rtId (upd r) = rtId r) \<Longrightarrow> map rtId (map (onRoute i upd) rs) = map rtId rs"
  by (induction rs) (simp_all add: onRoute_id)

lemma findRoute_onRoute:
  assumes "\<And>r. rtId (upd r) = rtId r"
  shows "findRoute k (t\<lparr>routes := map (onRoute i upd) (routes t)\<rparr>) = map_option (onRoute i upd) (findRoute k t)"
  using find_map [of "\<lambda>e. rtId e = k" "onRoute i upd" "routes t"] onRoute_id [of upd, OF assms] by (simp add: findRoute_def)

lemma vectorOk_onRoute:
  assumes v: "vectorOk t"
    and f: "\<And>r. rtId (upd r) = rtId r" "\<And>r. rtDest (upd r) = rtDest r" "\<And>r. rtMask (upd r) = rtMask r" "\<And>r. rtMetric (upd r) = rtMetric r"
      "\<And>r. useAdminDist t \<Longrightarrow> rtAdminDist (upd r) = rtAdminDist r"
  shows "vectorOk (t\<lparr>routes := map (onRoute i upd) (routes t)\<rparr>)"
proof -
  let ?f = "onRoute i upd"
  have lt: "routeLessThan (useAdminDist t) (?f x) (?f y) = routeLessThan (useAdminDist t) x y" for x y
    using f by (cases "useAdminDist t") (simp_all add: routeLessThan_def onRoute_def)
  have "sorted_wrt (\<lambda>x y. \<not> routeLessThan (useAdminDist t) y x) (map ?f (routes t))"
    using v unfolding sorted_wrt_map lt vectorOk_def by blast
  moreover have "distinct (map rtId (map ?f (routes t)))" unfolding map_onRoute_id [OF f(1)] using v by (simp add: vectorOk_def)
  moreover have "routeOk (?f r) = routeOk r" "rtId (?f r) = rtId r" for r using f by (simp_all add: routeOk_def onRoute_def)
  then have "\<forall>r \<in> set (map ?f (routes t)). routeOk r \<and> rtId r < nextRouteId t" using v by (auto simp: vectorOk_def)
  ultimately show ?thesis by (simp add: vectorOk_def)
qed

lemma cacheOk_onRoute:
  assumes ok: "cacheOk t" and f: "\<And>r. rtId (upd r) = rtId r" "\<And>r. rtDest (upd r) = rtDest r" "\<And>r. rtMask (upd r) = rtMask r" "\<And>r. rtValid (upd r) = rtValid r"
  shows "cacheOk (t\<lparr>routes := map (onRoute i upd) (routes t)\<rparr>)"
    "searchRoute d (t\<lparr>routes := map (onRoute i upd) (routes t)\<rparr>) = map_option (onRoute i upd) (searchRoute d t)"
proof -
  let ?f = "onRoute i upd" and ?t = "t\<lparr>routes := map (onRoute i upd) (routes t)\<rparr>"
  have s: "searchRoute d ?t = map_option ?f (searchRoute d t)" for d
    using find_map [of "\<lambda>e. rtValid e \<and> routeMatches d e" ?f "routes t"] f(2-4) by (simp add: searchRoute_def routeMatches_def onRoute_def)
  show "searchRoute d ?t = map_option ?f (searchRoute d t)" by (rule s)
  have "rtValid (?f e) = rtValid e" for e using f(4) by (simp add: onRoute_def)
  then show "cacheOk ?t" using ok unfolding cacheOk_def s findRoute_onRoute [OF f(1)] by (auto, metis option.simps(9))
qed

lemma setter_frame_ok:
  assumes ok: "tableOk t"
    and f: "\<And>r. rtId (upd r) = rtId r" "\<And>r. rtDest (upd r) = rtDest r" "\<And>r. rtMask (upd r) = rtMask r" "\<And>r. rtMetric (upd r) = rtMetric r"
      "\<And>r. useAdminDist t \<Longrightarrow> rtAdminDist (upd r) = rtAdminDist r" "\<And>r. rtValid (upd r) = rtValid r"
  shows "tableOk (t\<lparr>routes := map (onRoute i upd) (routes t)\<rparr>)" (is "tableOk ?t")
proof -
  let ?f = "onRoute i upd"
  have v: "vectorOk ?t" using vectorOk_onRoute [of t upd i] ok f by (simp add: tableOk_def)
  have "cacheOk ?t" using ok f by (intro cacheOk_onRoute) (simp_all add: tableOk_def)
  then show ?thesis using v by (simp add: tableOk_def)
qed

lemma routeChanged_ok:
  assumes "routeChanged i fieldCode (t\<lparr>routes := map (onRoute i upd) (routes t)\<rparr>) = Inr t'" (is "routeChanged i fieldCode ?t = _")
    and "fieldCode = F_DESTINATION \<or> fieldCode = F_PREFIX_LENGTH \<or> fieldCode = F_METRIC" "tableOk t" "\<And>r. rtId (upd r) = rtId r"
  shows "tableOk t'"
proof -
  have v: "vectorOk t" using assms(3) by (simp add: tableOk_def)
  have d: "distinct (map rtId (routes ?t))" using v map_onRoute_id [OF assms(4), of i "routes t"] by (simp add: vectorOk_def del: map_map)
  obtain e t1 t2 where r: "internalRemoveRoute i ?t = (Some e, t1)" and a: "internalAddRoute e t1 = Inr t2" "t' = invalidateCache t2"
    using assms(1,2) unfolding routeChanged_def by (auto split: prod.splits option.splits)
  have e: "findRoute i ?t = Some e" "t1 = ?t\<lparr>routes := remove1 e (routes ?t)\<rparr>" using r unfolding internalRemoveRoute_def by (auto split: option.splits)
  have "map_option (onRoute i upd) (findRoute i t) = Some e" using e(1) unfolding findRoute_onRoute [OF assms(4)] .
  then obtain e0 where e0: "findRoute i t = Some e0" "e = onRoute i upd e0" by auto
  have i0: "e0 \<in> set (routes t)" "rtId e0 = i" using e0(1) findRoute_Some [OF v] by auto
  have id: "rtId e = i" using e0(2) i0(2) onRoute_id [of upd, OF assms(4)] by simp
  have "e \<in> set (routes ?t)" using e0(2) i0(1) by simp
  then have "routes t1 = filter (\<lambda>x. rtId x \<noteq> i) (map (onRoute i upd) (routes t))" using e(2) remove1_filter [OF d, of e] id by simp
  also have "\<dots> = filter (\<lambda>x. rtId x \<noteq> i) (routes t)"
  proof -
    have "filter (\<lambda>x. rtId x \<noteq> i) (map (onRoute i upd) rs) = filter (\<lambda>x. rtId x \<noteq> i) rs" for rs using assms(4) by (induction rs) (auto simp: onRoute_def)
    then show ?thesis .
  qed
  finally have t1: "routes t1 = filter (\<lambda>x. rtId x \<noteq> i) (routes t)" .
  have fr: "useAdminDist t1 = useAdminDist t" "nextRouteId t1 = nextRouteId t" using e(2) by simp_all
  have v1: "vectorOk t1" by (rule vectorOk_filter [OF v t1 fr])
  have "i < nextRouteId t" using i0 v unfolding vectorOk_def by auto
  moreover have "rtId e \<notin> rtId ` set (routes t1)" unfolding t1 id by auto
  ultimately have "vectorOk t2" using internalAdd_vector [OF a(1) v1] id fr(2) by simp
  then show ?thesis using a(2) invalidate_ok by simp
qed

text \<open>All setters keep the invariant, except that of the administrative distance when distances matter.\<close>

lemma setters_ok:
  assumes "tableOk t"
  shows "setDestination d i t = Inr t' \<Longrightarrow> tableOk t'" "setNetmask m i t = Inr t' \<Longrightarrow> tableOk t'" "setMetric x i t = Inr t' \<Longrightarrow> tableOk t'"
    "setGateway g i t = Inr t' \<Longrightarrow> tableOk t'" "setInterface ie i t = Inr t' \<Longrightarrow> tableOk t'" "setSourceType s i t = Inr t' \<Longrightarrow> tableOk t'"
    "\<not> useAdminDist t \<Longrightarrow> setAdminDist a i t = Inr t' \<Longrightarrow> tableOk t'"
proof -
  have 1: "tableOk t'" if "setRouteField upd c i t = Inr t'" "c = F_DESTINATION \<or> c = F_PREFIX_LENGTH \<or> c = F_METRIC" "\<And>r. rtId (upd r) = rtId r" for upd c
    using that routeChanged_ok [of i c upd t t'] assms by (auto simp: setRouteField_def split: option.splits if_splits)
  show "setDestination d i t = Inr t' \<Longrightarrow> tableOk t'" "setNetmask m i t = Inr t' \<Longrightarrow> tableOk t'" "setMetric x i t = Inr t' \<Longrightarrow> tableOk t'"
    unfolding setDestination_def setNetmask_def setMetric_def by (auto intro: 1)
  have 2: "tableOk t'" if "setRouteField upd c i t = Inr t'" "c \<notin> {F_DESTINATION, F_PREFIX_LENGTH, F_METRIC}"
      "tableOk (t\<lparr>routes := map (onRoute i upd) (routes t)\<rparr>)" for upd c
    using that assms by (auto simp: setRouteField_def routeChanged_def split: option.splits if_splits)
  show "setGateway g i t = Inr t' \<Longrightarrow> tableOk t'" "setInterface ie i t = Inr t' \<Longrightarrow> tableOk t'" "setSourceType s i t = Inr t' \<Longrightarrow> tableOk t'"
    "\<not> useAdminDist t \<Longrightarrow> setAdminDist a i t = Inr t' \<Longrightarrow> tableOk t'"
    unfolding setGateway_def setInterface_def setSourceType_def setAdminDist_def
    by (erule 2; (simp; fail)?; rule setter_frame_ok [OF assms]; simp)+
qed

lemma find_expire:
  assumes "find P xs = Some e" "\<And>x. P (f x) \<Longrightarrow> P x" "f e = e"
  shows "find P (map f xs) = Some e"
  using assms(1,3)
proof (induction xs)
  case (Cons x xs)
  then show ?case using assms(2) [of x] by (cases "P x") (auto split: if_splits)
qed simp

lemma expire_ok:
  assumes "tableOk t"
  shows "tableOk (expireRoute i t)"
proof -
  let ?u = "\<lambda>r :: ip_route. r\<lparr>rtValid := False\<rparr>" and ?t = "expireRoute i t"
  let ?f = "onRoute i ?u"
  have v: "vectorOk ?t" using vectorOk_onRoute [of t ?u i] assms by (simp add: tableOk_def expireRoute_def)
  have valid: "rtValid (?f x) \<and> routeMatches d (?f x) \<Longrightarrow> rtValid x \<and> routeMatches d x" for d x by (auto simp: routeMatches_def onRoute_def split: if_splits)
  have none: "searchRoute d ?t = None" if "searchRoute d t = None" for d
  proof -
    have "\<forall>x \<in> set (routes t). \<not> (rtValid x \<and> routeMatches d x)" using that by (auto simp: searchRoute_def find_None_iff)
    then have "\<forall>x \<in> set (routes t). \<not> (rtValid (?f x) \<and> routeMatches d (?f x))" using valid by blast
    then show ?thesis by (simp add: searchRoute_def expireRoute_def find_None_iff)
  qed
  have some: "searchRoute d ?t = Some e" if "searchRoute d t = Some e" "rtId e \<noteq> i" for d e
    using find_expire [of "\<lambda>e. rtValid e \<and> routeMatches d e" "routes t" e ?f, OF _ valid] that by (simp add: searchRoute_def expireRoute_def onRoute_def)
  have fr: "findRoute k ?t = map_option ?f (findRoute k t)" for k unfolding expireRoute_def by (rule findRoute_onRoute) simp
  have "routingCache ?t = routingCache t" by (simp add: expireRoute_def)
  moreover have "\<exists>e. findRoute k ?t = Some e \<and> (rtValid e \<longrightarrow> searchRoute d ?t = Some e)" if "findRoute k t = Some e" "rtValid e \<longrightarrow> searchRoute d t = Some e" for k d e
  proof (intro exI conjI impI)
    show "findRoute k ?t = Some (?f e)" using that(1) fr by simp
    assume "rtValid (?f e)"
    then have "rtId e \<noteq> i" "rtValid e" by (auto simp: onRoute_def split: if_splits)
    then show "searchRoute d ?t = Some (?f e)" using that(2) some by (simp add: onRoute_def)
  qed
  ultimately have "cacheOk ?t" using assms none unfolding tableOk_def cacheOk_def by (metis (no_types))
  then show ?thesis using v by (simp add: tableOk_def)
qed

text \<open>Removal of many routes, and the routes of the interfaces.\<close>

lemma purge_ok:
  assumes "tableOk t"
  shows "tableOk (purge t)"
proof (cases "(\<exists>r \<in> set (routes t). \<not> rtValid r) \<or> (\<exists>r \<in> set (multicastRoutes t). \<not> mrValid r)")
  case True
  have "vectorOk (t\<lparr>routes := filter rtValid (routes t), multicastRoutes := filter mrValid (multicastRoutes t)\<rparr>)"
    by (rule vectorOk_filter [of t _ rtValid]) (use assms in \<open>simp_all add: tableOk_def\<close>)
  then show ?thesis using True by (simp add: purge_def invalidate_ok)
next
  case False
  then have "filter rtValid (routes t) = routes t" "filter mrValid (multicastRoutes t) = multicastRoutes t" by (auto simp: filter_id_conv)
  then show ?thesis using False assms by (simp add: purge_def Let_def)
qed

lemma filter_same_length: "length (filter P xs) = length xs \<Longrightarrow> filter P xs = xs"
  by (metis filter_id_conv length_filter_conv_card length_filter_less less_irrefl)

lemma deleteInterface_ok:
  assumes "tableOk t"
  shows "tableOk (deleteInterfaceRoutes i t)"
proof -
  let ?k = "filter (\<lambda>r. rtInterface r \<noteq> Some i) (routes t)" and ?mk = "filter (\<lambda>r. mrIn r \<noteq> Some i) (multicastRoutes t)"
  let ?t1 = "t\<lparr>routes := ?k, multicastRoutes := map (snd \<circ> removeOutInterface i) ?mk\<rparr>"
  have v: "vectorOk ?t1" by (rule vectorOk_filter [of t]) (use assms in \<open>simp_all add: tableOk_def\<close>)
  show ?thesis
  proof (cases "length ?k \<noteq> length (routes t) \<or> length ?mk \<noteq> length (multicastRoutes t) \<or> (\<exists>r \<in> set ?mk. fst (removeOutInterface i r))")
    case True
    then show ?thesis using invalidate_ok [OF v] unfolding deleteInterfaceRoutes_def Let_def by (simp only: if_True)
  next
    case False
    then have k: "?k = routes t" using filter_same_length by blast
    have "routes ?t1 = ?k" by simp
    then have r: "routes ?t1 = routes t" using k by (rule trans)
    have "tableOk ?t1" by (rule tableOk_cong [OF r]) (use assms in simp_all)
    then show ?thesis using False unfolding deleteInterfaceRoutes_def Let_def by (simp only: if_False)
  qed
qed

lemma addNetmaskRoute_ok:
  assumes "vectorOk t" "isValidNetmask (ieNetmask ie)"
  shows "vectorOk (addNetmaskRoute nameMatches ie t)" "interfaces (addNetmaskRoute nameMatches ie t) = interfaces t"
proof -
  have "routeOk (netmaskRoute (nextRouteId t) ie)"
    using assms(2) unfolding routeOk_def netmaskRoute_def by (auto simp: bit_eq_iff bit_simps)
  moreover have "nextRouteId t \<notin> rtId ` set (routes t)" using assms(1) unfolding vectorOk_def by auto
  ultimately show "vectorOk (addNetmaskRoute nameMatches ie t)"
    using vectorOk_insert [OF assms(1), of "netmaskRoute (nextRouteId t) ie"] assms(1) by (auto simp: addNetmaskRoute_def netmaskRoute_def)
qed (simp add: addNetmaskRoute_def)

lemma updateNetmask_ok:
  assumes "tableOk t" "\<forall>ie \<in> set (interfaces t). isValidNetmask (ieNetmask ie)"
  shows "tableOk (updateNetmaskRoutes nameMatches t)"
proof -
  have "vectorOk (fold (addNetmaskRoute nameMatches) ies t1)" if "vectorOk t1" "\<forall>ie \<in> set ies. isValidNetmask (ieNetmask ie)" for ies t1
    using that by (induction ies arbitrary: t1) (simp_all add: addNetmaskRoute_ok)
  then show ?thesis unfolding updateNetmaskRoutes_def using assms by (intro invalidate_ok) (simp add: tableOk_def vectorOk_remove)
qed

lemma removeAll_ok: "tableOk t \<Longrightarrow> tableOk (removeAllRoutes t) \<and> routes (removeAllRoutes t) = []"
proof (induction t rule: removeAllRoutes.induct)
  case (1 t)
  show ?case
  proof (cases "routes t")
    case Nil
    then show ?thesis using 1 by (subst (1 2) removeAllRoutes.simps) simp
  next
    case (Cons r rs)
    then show ?thesis using "1.IH" [OF Cons] removeRoute_ok(2) [OF "1.prems", of "rtId r"] by (subst (1 2) removeAllRoutes.simps) simp
  qed
qed

section \<open>Reachable tables\<close>

text \<open>
  The life of a routing table: routes are created, added, removed, changed and purged, interfaces come, change and go, and destinations
  are looked up. The distance of a route is not changed while distances matter.
\<close>

inductive rt_step :: "routing_table \<Rightarrow> routing_table \<Rightarrow> bool" where
  new_route: "rt_step t (t\<lparr>nextRouteId := nextRouteId t + 1\<rparr>)"
| add: "rtId e < nextRouteId t \<Longrightarrow> rtId e \<notin> rtId ` set (routes t) \<Longrightarrow> addRoute e t = Inr t' \<Longrightarrow> rt_step t t'"
| remove: "removeRoute i t = (r, t') \<Longrightarrow> rt_step t t'"
| delete: "deleteRoute i t = (b, t') \<Longrightarrow> rt_step t t'"
| destination: "setDestination d i t = Inr t' \<Longrightarrow> rt_step t t'"
| netmask: "setNetmask d i t = Inr t' \<Longrightarrow> rt_step t t'"
| metric: "setMetric x i t = Inr t' \<Longrightarrow> rt_step t t'"
| gateway: "setGateway d i t = Inr t' \<Longrightarrow> rt_step t t'"
| interface: "setInterface ie i t = Inr t' \<Longrightarrow> rt_step t t'"
| source: "setSourceType s i t = Inr t' \<Longrightarrow> rt_step t t'"
| distance: "\<not> useAdminDist t \<Longrightarrow> setAdminDist a i t = Inr t' \<Longrightarrow> rt_step t t'"
| expire: "rt_step t (expireRoute i t)"
| purge: "rt_step t (purge t)"
| shutdown: "rt_step t (removeAllRoutes t)"
| interfaces_changed: "rt_step t (t\<lparr>interfaces := ies\<rparr>)"
| signal: "\<forall>ie \<in> set (interfaces t). isValidNetmask (ieNetmask ie) \<Longrightarrow> rt_step t (receiveSignal nameMatches s t)"
| lookup: "findBestMatchingRoute d t = Inr (r, t') \<Longrightarrow> rt_step t t'"
| local: "isLocalAddress d t = (b, t') \<Longrightarrow> rt_step t t'"
| broadcast: "isLocalBroadcastAddress d t = (b, t') \<Longrightarrow> rt_step t t'"
| rule: "rt_step t (addRule out ru t)"
| add_multicast: "addMulticastRoute m t = Inr t' \<Longrightarrow> rt_step t t'"
| remove_multicast: "removeMulticastRoute i t = (r, t') \<Longrightarrow> rt_step t t'"
| delete_multicast: "deleteMulticastRoute i t = (b, t') \<Longrightarrow> rt_step t t'"
| change_multicast: "setMulticastField upd fieldCode i t = Inr t' \<Longrightarrow> rt_step t t'"
| configure: "rt_step t (t\<lparr>forwarding := b, multicastForward := c, routerId := a\<rparr>)"

definition emptyTable :: "bool \<Rightarrow> interface_entry list \<Rightarrow> routing_table" where
  "emptyTable adminDist ies = \<lparr>interfaces = ies, routes = [], multicastRoutes = [], routingCache = [], localAddresses = [], localBroadcastAddresses = [],
     outputRules = [], inputRules = [], routerId = 0, forwarding = True, multicastForward = False, useAdminDist = adminDist, nextRouteId = 0\<rparr>"

inductive rt_reachable :: "routing_table \<Rightarrow> bool" where
  start: "rt_reachable (emptyTable adminDist ies)"
| step: "rt_reachable t \<Longrightarrow> rt_step t t' \<Longrightarrow> rt_reachable t'"

lemma lookup_search:
  assumes "cacheOk t"
  shows "\<exists>t'. findBestMatchingRoute d t = Inr (searchRoute d t, t') \<and> t' = t\<lparr>routingCache := routingCache t'\<rparr> \<and>
     (t' = t \<or> t' = t\<lparr>routingCache := putCache d (map_option rtId (searchRoute d t)) (routingCache t)\<rparr>)"
proof (cases "map_of (routingCache t) d")
  case None
  then show ?thesis by (simp add: findBestMatchingRoute_def Let_def)
next
  case (Some ref)
  show ?thesis
  proof (cases ref)
    case None
    then have "searchRoute d t = None" using Some assms by (simp add: cacheOk_def)
    then show ?thesis using Some None by (auto simp: findBestMatchingRoute_def Let_def)
  next
    case (Some i)
    then obtain e where "findRoute i t = Some e" "rtValid e \<longrightarrow> searchRoute d t = Some e" using \<open>map_of (routingCache t) d = Some ref\<close> assms unfolding cacheOk_def by blast
    then show ?thesis using Some \<open>map_of (routingCache t) d = Some ref\<close> by (auto simp: findBestMatchingRoute_def Let_def)
  qed
qed

lemma lookup_result:
  assumes "tableOk t"
  shows "\<exists>t'. findBestMatchingRoute d t = Inr (searchRoute d t, t') \<and> t' = t\<lparr>routingCache := routingCache t'\<rparr> \<and> tableOk t'"
proof -
  let ?s = "t\<lparr>routingCache := putCache d (map_option rtId (searchRoute d t)) (routingCache t)\<rparr>"
  have v: "vectorOk t" "cacheOk t" using assms by (simp_all add: tableOk_def)
  have same: "searchRoute x ?s = searchRoute x t" "findRoute i ?s = findRoute i t" for x i by (simp_all add: searchRoute_def findRoute_def)
  have hit: "findRoute (rtId e) t = Some e" if "searchRoute d t = Some e" for e
    using that findRoute_Some [OF v(1)] by (auto simp: searchRoute_def find_Some_iff)
  have look: "map_of (routingCache ?s) x = (if x = d then Some (map_option rtId (searchRoute d t)) else map_of (routingCache t) x)" for x
  proof -
    have "map_of (filter (\<lambda>y. fst y \<noteq> d) c) x = (if x = d then None else map_of c x)" for c :: "(u32 \<times> nat option) list" by (induction c) auto
    then show ?thesis by (simp add: putCache_def)
  qed
  have "cacheOk ?s" unfolding cacheOk_def same look using v(2) hit unfolding cacheOk_def by auto
  moreover have "vectorOk ?s" using v(1) by (simp add: vectorOk_def)
  ultimately have "tableOk ?s" by (simp add: tableOk_def)
  then show ?thesis using lookup_search [OF v(2), of d] assms by metis
qed

text \<open>Operations on multicast routes empty the cache and leave the unicast routes alone, or change nothing that matters here.\<close>

lemma multicast_ok:
  assumes ok: "tableOk t"
  shows "addMulticastRoute m t = Inr t' \<Longrightarrow> tableOk t'" "removeMulticastRoute i t = (r, t') \<Longrightarrow> tableOk t'" "deleteMulticastRoute i t = (b, t') \<Longrightarrow> tableOk t'"
    "setMulticastField upd fieldCode i t = Inr t' \<Longrightarrow> tableOk t'"
proof -
  have v: "vectorOk (t\<lparr>multicastRoutes := ms\<rparr>)" for ms using ok by (simp add: tableOk_def vectorOk_def)
  have c: "tableOk (t\<lparr>multicastRoutes := ms\<rparr>)" for ms by (rule tableOk_cong [OF _ _ _ _ ok]) simp_all
  note iv = invalidate_ok [OF v]
  show "addMulticastRoute m t = Inr t' \<Longrightarrow> tableOk t'"
    using iv by (auto simp: addMulticastRoute_def internalAddMulticastRoute_def bindR_eq_Inr split: if_splits)
  show "removeMulticastRoute i t = (r, t') \<Longrightarrow> tableOk t'"
    using iv ok by (auto simp: removeMulticastRoute_def internalRemoveMulticastRoute_def split: option.splits)
  show "deleteMulticastRoute i t = (b, t') \<Longrightarrow> tableOk t'"
    using iv ok by (auto simp: deleteMulticastRoute_def internalRemoveMulticastRoute_def split: option.splits)
  show "setMulticastField upd fieldCode i t = Inr t' \<Longrightarrow> tableOk t'"
    using iv ok c by (auto simp: setMulticastField_def multicastRouteChanged_def internalRemoveMulticastRoute_def internalAddMulticastRoute_def bindR_eq_Inr split: option.splits if_splits)
qed

lemma rt_step_ok:
  assumes "rt_step t t'" "tableOk t"
  shows "tableOk t'"
  using assms
proof (cases rule: rt_step.cases)
  case (lookup d r)
  then show ?thesis using lookup_result [OF assms(2), of d] by auto
next
  case (signal nameMatches s)
  then show ?thesis using assms(2) updateNetmask_ok deleteInterface_ok invalidate_ok by (cases s) (simp_all add: receiveSignal_def tableOk_def)
next
  case (remove i r)
  then show ?thesis using removeRoute_ok(2) [OF assms(2), of i] by simp
next
  case (delete i b)
  then show ?thesis using removeRoute_ok(1) [OF assms(2), of i] by simp
next
  case (local d b)
  then show ?thesis using assms(2) tableOk_frame(1) by (auto simp: isLocalAddress_def Let_def split: if_splits)
next
  case (broadcast d b)
  then show ?thesis using assms(2) tableOk_frame(2) by (auto simp: isLocalBroadcastAddress_def Let_def split: if_splits)
next
  case (rule out ru)
  then show ?thesis using tableOk_frame(4,5) [OF assms(2)] by (simp add: addRule_def delRule_def Let_def)
next
  case (add e)
  then show ?thesis using addRoute_ok [OF _ assms(2)] by blast
next
  case (destination d i)
  then show ?thesis using setters_ok(1) [OF assms(2)] by blast
next
  case (netmask d i)
  then show ?thesis using setters_ok(2) [OF assms(2)] by blast
next
  case (metric x i)
  then show ?thesis using setters_ok(3) [OF assms(2)] by blast
next
  case (gateway d i)
  then show ?thesis using setters_ok(4) [OF assms(2)] by blast
next
  case (interface ie i)
  then show ?thesis using setters_ok(5) [OF assms(2)] by blast
next
  case (source s i)
  then show ?thesis using setters_ok(6) [OF assms(2)] by blast
next
  case (distance a i)
  then show ?thesis using setters_ok(7) [OF assms(2)] by blast
next
  case (add_multicast m)
  then show ?thesis by (rule multicast_ok(1) [OF assms(2)])
next
  case (remove_multicast i r)
  then show ?thesis by (rule multicast_ok(2) [OF assms(2)])
next
  case (delete_multicast i b)
  then show ?thesis by (rule multicast_ok(3) [OF assms(2)])
next
  case (change_multicast upd fieldCode i)
  then show ?thesis by (rule multicast_ok(4) [OF assms(2)])
next
  case (configure b c a)
  then show ?thesis by (auto intro: tableOk_cong [OF _ _ _ _ assms(2)])
qed (use assms(2) in \<open>simp_all add: expire_ok purge_ok removeAll_ok tableOk_frame(3) tableOk_frame(6) [simplified]\<close>)

lemma reachable_ok: "rt_reachable t \<Longrightarrow> tableOk t"
proof (induction rule: rt_reachable.induct)
  case (start adminDist ies)
  show ?case by (rule tableOk_empty) (simp_all add: emptyTable_def)
qed (rule rt_step_ok)

section \<open>Longest prefix\<close>

lemma matching_same_mask:
  assumes "routeOk a" "routeOk b" "routeMatches d a" "routeMatches d b" "rtMask a = rtMask b"
  shows "rtDest a = rtDest b"
proof (rule bit_word_eqI)
  fix i assume "i < LENGTH(32)"
  have z: "bit (rtDest a AND NOT (rtMask b)) i = False" "bit (rtDest b AND NOT (rtMask b)) i = False"
    using assms(1,2,5) by (simp_all add: routeOk_def)
  have m: "bit ((d XOR rtDest a) AND rtMask b) i = False" "bit ((d XOR rtDest b) AND rtMask b) i = False"
    using assms(3-5) by (simp_all add: routeMatches_def maskedAddrAreEqual_def)
  show "bit (rtDest a) i = bit (rtDest b) i" using z m \<open>i < LENGTH(32)\<close> unfolding bit_and_iff bit_xor_iff bit_not_iff by auto
qed

text \<open>How good a route is among those with the same prefix.\<close>

definition routeRank :: "bool \<Rightarrow> ip_route \<Rightarrow> nat \<times> int" where
  "routeRank adminDist r = (if adminDist then unat (rtAdminDist r) else 0, rtMetric r)"

definition rankLe :: "nat \<times> int \<Rightarrow> nat \<times> int \<Rightarrow> bool" where
  "rankLe a b \<longleftrightarrow> fst a < fst b \<or> fst a = fst b \<and> snd a \<le> snd b"

definition candidates :: "u32 \<Rightarrow> routing_table \<Rightarrow> ip_route set" where
  "candidates d t = {r \<in> set (routes t). rtValid r \<and> routeMatches d r}"

lemma best_route:
  assumes ok: "vectorOk t" and e: "searchRoute d t = Some e" and r: "r \<in> candidates d t"
  shows "getNetmaskLength (rtMask r) < getNetmaskLength (rtMask e) \<or>
     getNetmaskLength (rtMask r) = getNetmaskLength (rtMask e) \<and> rankLe (routeRank (useAdminDist t) e) (routeRank (useAdminDist t) r)"
proof -
  have s: "sorted_wrt (\<lambda>x y. \<not> routeLessThan (useAdminDist t) y x) (routes t)" and routes: "\<forall>x \<in> set (routes t). routeOk x" using ok by (auto simp: vectorOk_def)
  have nlt: "\<not> routeLessThan (useAdminDist t) r e" using rtv.ascending_first [OF s e [unfolded searchRoute_def]] r by (simp add: candidates_def)
  have ee: "e \<in> candidates d t" using e by (auto simp: searchRoute_def candidates_def find_Some_iff)
  have "isValidNetmask (rtMask r)" "isValidNetmask (rtMask e)" using routes r ee by (auto simp: candidates_def routeOk_def)
  then obtain m n where mn: "rtMask r = makeNetmaskBits m" "m \<le> 32" "rtMask e = makeNetmaskBits n" "n \<le> 32" unfolding validNetmask_iff by blast
  show ?thesis
  proof (cases "rtMask r = rtMask e")
    case True
    then have "rtDest r = rtDest e" using matching_same_mask [of r e d] routes r ee by (simp add: candidates_def)
    then have "rankLe (routeRank (useAdminDist t) e) (routeRank (useAdminDist t) r)"
      using nlt True by (auto simp: routeLessThan_def rankLe_def routeRank_def word_less_nat_alt word_unat_eq_iff split: if_splits)
    then show ?thesis using True by simp
  next
    case False
    then have "rtMask r < rtMask e" using nlt by (auto simp: routeLessThan_def)
    then show ?thesis using mn netmask_less(1) [OF mn(2,4)] by (simp add: netmask_length)
  qed
qed


definition exRoute :: "nat \<Rightarrow> u32 \<Rightarrow> u32 \<Rightarrow> int \<Rightarrow> ip_route" where
  "exRoute i d m ie = \<lparr>rtId = i, rtDest = d, rtMask = m, rtGateway = 0, rtInterface = Some ie, rtSourceType = MANUAL, rtAdminDist = 1, rtMetric = 1, rtValid = True\<rparr>"

definition exTable :: "bool \<Rightarrow> u32 \<Rightarrow> u32 \<Rightarrow> routing_table" where
  "exTable b d m = (emptyTable b [])\<lparr>nextRouteId := 2, routes := insertUpper (routeLessThan b) (exRoute 1 d m 6) [exRoute 0 0x0A000000 0xFF000000 5]\<rparr>"

lemma exTable_reachable:
  assumes "isValidNetmask m" "m \<noteq> 0" "d AND m \<noteq> 0" "d AND NOT m = 0"
  shows "rt_reachable (exTable b d m)"
proof -
  let ?t0 = "(emptyTable b [])\<lparr>nextRouteId := 2\<rparr>" and ?t1 = "(emptyTable b [])\<lparr>nextRouteId := 2, routes := [exRoute 0 0x0A000000 0xFF000000 5]\<rparr>"
  have "rt_reachable ((emptyTable b [])\<lparr>nextRouteId := 1\<rparr>)" using rt_reachable.step [OF rt_reachable.start rt_step.new_route, of b "[]"] by (simp add: emptyTable_def)
  from rt_reachable.step [OF this rt_step.new_route] have 0: "rt_reachable ?t0" by (simp add: emptyTable_def numeral_2_eq_2)
  have "(0xFF000000 :: u32) = makeNetmaskBits 8" by (simp add: makeNetmaskBits_def)
  then have "isValidNetmask 0xFF000000" unfolding validNetmask_iff by (intro exI [of _ 8]) simp
  then have "addRoute (exRoute 0 0x0A000000 0xFF000000 5) ?t0 = Inr ?t1"
    by (simp add: addRoute_def internalAddRoute_def exRoute_def isUnspecifiedAddress_def emptyTable_def insertUpper_def invalidateCache_def)
  then have 1: "rt_reachable ?t1" using rt_reachable.step [OF 0 rt_step.add, of "exRoute 0 0x0A000000 0xFF000000 5"] by (simp add: exRoute_def emptyTable_def)
  have "addRoute (exRoute 1 d m 6) ?t1 = Inr (exTable b d m)"
    using assms by (simp add: addRoute_def internalAddRoute_def exRoute_def isUnspecifiedAddress_def emptyTable_def invalidateCache_def exTable_def)
  then show ?thesis using rt_reachable.step [OF 1 rt_step.add, of "exRoute 1 d m 6"] by (simp add: exRoute_def emptyTable_def)
qed

lemma exMask: "isValidNetmask 0xFFFF0000" "isValidNetmask 0xFF000000"
proof -
  have "(0xFFFF0000 :: u32) = makeNetmaskBits 16" "(0xFF000000 :: u32) = makeNetmaskBits 8" by (simp_all add: makeNetmaskBits_def)
  then show "isValidNetmask 0xFFFF0000" "isValidNetmask 0xFF000000" unfolding validNetmask_iff by (metis le_numeral_extra(4) numeral_le_iff semiring_norm(68,69,71))+
qed


text \<open>
  C36: administrative distances that change. When distances are used and the distance of the route a destination is sent over is raised
  above that of another route with the same prefix, the destination is still sent over the first one: the routes are not sorted again.
\<close>

theorem raised_distance_ignored:
  assumes "rt_reachable t" "useAdminDist t" "findBestMatchingRoute d t = Inr (Some e, t1)"
    and "x \<in> candidates d t" "rtId x \<noteq> rtId e" "rtMask x = rtMask e" "rtAdminDist x < a"
  shows "\<exists>t2 e' t3. setAdminDist a (rtId e) t1 = Inr t2 \<and> findBestMatchingRoute d t2 = Inr (Some e', t3) \<and> rtId e' = rtId e \<and> x \<in> candidates d t2 \<and>
     rtMask x = rtMask e' \<and> rtAdminDist x < rtAdminDist e'"
proof -
  have ok: "tableOk t" by (rule reachable_ok [OF assms(1)])
  have e: "searchRoute d t = Some e" and t1: "t1 = t\<lparr>routingCache := routingCache t1\<rparr>" "tableOk t1" using lookup_result [OF ok, of d] assms(3) by auto
  have r1: "routes t1 = routes t" by (subst t1(1)) simp
  have e1: "searchRoute d t1 = Some e" using e r1 by (simp add: searchRoute_def)
  have v1: "vectorOk t1" "cacheOk t1" using t1(2) by (simp_all add: tableOk_def)
  have f: "findRoute (rtId e) t1 = Some e" using findRoute_Some [OF v1(1)] e1 by (auto simp: searchRoute_def find_Some_iff)
  let ?u = "\<lambda>r :: ip_route. r\<lparr>rtAdminDist := a\<rparr>"
  let ?t2 = "t1\<lparr>routes := map (onRoute (rtId e) ?u) (routes t1)\<rparr>"
  have x: "x \<in> candidates d ?t2"
  proof -
    have "x \<in> set (routes t1)" "onRoute (rtId e) ?u x = x" using assms(4,5) r1 by (simp_all add: candidates_def onRoute_def)
    then have "x \<in> set (routes ?t2)" by (metis image_eqI list.set_map routing_table.select_convs(2) routing_table.surjective routing_table.update_convs(2))
    then show ?thesis using assms(4) by (simp add: candidates_def)
  qed
  have s2: "searchRoute d ?t2 = Some (e\<lparr>rtAdminDist := a\<rparr>)" using cacheOk_onRoute(2) [OF v1(2), of ?u] e1 by (simp add: onRoute_def)
  have "cacheOk ?t2" by (rule cacheOk_onRoute(1) [OF v1(2)]) simp_all
  then obtain t3 where t3: "findBestMatchingRoute d ?t2 = Inr (Some (e\<lparr>rtAdminDist := a\<rparr>), t3)" using lookup_search s2 by metis
  show ?thesis
  proof (cases "e\<lparr>rtAdminDist := a\<rparr> = e")
    case True
    then have "setAdminDist a (rtId e) t1 = Inr t1" using f by (simp add: setAdminDist_def setRouteField_def)
    moreover obtain t4 where "findBestMatchingRoute d t1 = Inr (Some e, t4)" using lookup_result [OF t1(2), of d] e1 by auto
    moreover have "x \<in> candidates d t1" using assms(4) r1 by (simp add: candidates_def)
    moreover have "rtAdminDist e = a" using arg_cong [OF True, of rtAdminDist] by simp
    ultimately show ?thesis using assms(6,7) by blast
  next
    case False
    then have "setAdminDist a (rtId e) t1 = Inr ?t2" using f by (simp add: setAdminDist_def setRouteField_def routeChanged_def)
    then show ?thesis using t3 x assms(6,7) by (intro exI [of _ ?t2] exI [of _ "e\<lparr>rtAdminDist := a\<rparr>"] exI [of _ t3]) simp
  qed
qed

theorem raised_distance_ignored_witness:
  "\<exists>t1 e t2 e' t3. findBestMatchingRoute 0x0A010203 (exTable True 0x0A000000 0xFF000000) = Inr (Some e, t1) \<and> rtAdminDist e = 1 \<and>
     setAdminDist 9 (rtId e) t1 = Inr t2 \<and> findBestMatchingRoute 0x0A010203 t2 = Inr (Some e', t3) \<and> rtId e' = rtId e \<and> exRoute 1 0x0A000000 0xFF000000 6 \<in> candidates 0x0A010203 t2 \<and>
     rtAdminDist (exRoute 1 0x0A000000 0xFF000000 6) < rtAdminDist e'"
proof -
  let ?t = "exTable True 0x0A000000 0xFF000000" and ?e = "exRoute 0 0x0A000000 0xFF000000 5" and ?x = "exRoute 1 0x0A000000 0xFF000000 6"
  have r: "rt_reachable ?t" by (rule exTable_reachable [OF exMask(2)]) simp_all
  have routes: "routes ?t = [?e, ?x]" by (simp add: exTable_def insertUpper_def exRoute_def routeLessThan_def)
  obtain t1 where t1: "findBestMatchingRoute 0x0A010203 ?t = Inr (Some ?e, t1)"
    using lookup_result [OF reachable_ok [OF r], of "0x0A010203"] routes by (auto simp: searchRoute_def exRoute_def routeMatches_def maskedAddrAreEqual_def)
  have x: "?x \<in> candidates 0x0A010203 ?t" using routes by (simp add: candidates_def exRoute_def routeMatches_def maskedAddrAreEqual_def)
  have u: "useAdminDist ?t" by (simp add: exTable_def emptyTable_def)
  show ?thesis using raised_distance_ignored [OF r u t1 x, where a = 9] t1 by (fastforce simp: exRoute_def)
qed

definition portRule :: "int \<Rightarrow> rule_kind \<Rightarrow> route_rule" where
  "portRule p k = \<lparr>ruId = 0, ruSrc = 0, ruSrcMask = 0, ruDest = 0, ruDestMask = 0, ruSrcPort = - 1, ruDestPort = p, ruProtocol = IP_PROT_NONE, ruKind = k, ruInterface = None\<rparr>"

text \<open>
  Rules on the destination port. A rule that asks for a destination port and nothing else applies to a packet with ports exactly when
  the source port is the one asked for; the destination port of the packet does not matter.
\<close>

lemma destination_port_not_tested:
  assumes "rulesOf out t = [portRule p k]" "p \<noteq> - 1" "dPort \<noteq> - 1"
  shows "findRule out prot sPort src dPort dest iface t = (if sPort = p then Some (portRule p k) else None)"
  using assms by (auto simp: findRule_def ruleApplies_def portRule_def isUnspecifiedAddress_def)

end
