(* ===== verification/Ip_Arp.thy ===== *)
theory Ip_Arp
  imports Ip_Routing
begin

unbundle bit_operations_syntax

text \<open>
  Address resolution, \<open>src/inet/networklayer/arp/ipv4/ARP.cc\<close>: the cache of MAC addresses, requests with their retries, and what is done
  with the packets received. MAC addresses are the integers of the class \<open>MACAddress\<close>, 0 the unspecified one. The signals of the module are
  among its outputs, in the order in which they are emitted.
\<close>

section \<open>State\<close>

abbreviation MAC_BROADCAST :: u64 where
  "MAC_BROADCAST \<equiv> 0xFFFFFFFFFFFF"

datatype arp_opcode = ARP_REQUEST | ARP_REPLY | ARP_RARP_REQUEST | ARP_RARP_REPLY

record arp_packet =
  apOpcode :: arp_opcode
  apSrcMac :: u64
  apSrcIp :: u32
  apDestMac :: u64
  apDestIp :: u32

text \<open>The timer of an entry is the time it is scheduled for.\<close>

record arp_entry =
  aeInterface :: int
  aePending :: bool
  aeMac :: u64
  aeLastUpdate :: simtime
  aeRetries :: int
  aeTimer :: "simtime option"

record arp_state =
  arpCache :: "(u32 \<times> arp_entry) list"
  arpUp :: bool
  numRequestsSent :: int
  numRepliesSent :: int
  numResolutions :: int
  numFailedResolutions :: int

record arp_par =
  retryTimeout :: simtime
  retryCount :: int
  cacheTimeout :: simtime
  respondToProxyARP :: bool

datatype arp_output = ArpSend arp_packet int u64 | ArpInitiated u32 int | ArpCompleted u32 u64 int | ArpFailed u32 int

text \<open>A \<open>std::map\<close> from addresses, as the list of its entries in ascending order.\<close>

fun putAddr :: "u32 \<Rightarrow> 'b \<Rightarrow> (u32 \<times> 'b) list \<Rightarrow> (u32 \<times> 'b) list" where
  "putAddr k b [] = [(k, b)]"
| "putAddr k b (x # xs) = (if fst x = k then (k, b) # xs else if k < fst x then (k, b) # x # xs else x # putAddr k b xs)"

definition eraseAddr :: "u32 \<Rightarrow> (u32 \<times> 'b) list \<Rightarrow> (u32 \<times> 'b) list" where
  "eraseAddr k xs = filter (\<lambda>x. fst x \<noteq> k) xs"

lemma map_of_putAddr [simp]: "map_of (putAddr k b xs) = (map_of xs)(k \<mapsto> b)"
  by (induction k b xs rule: putAddr.induct) (auto simp: fun_eq_iff)

lemma map_of_eraseAddr [simp]: "map_of (eraseAddr k xs) = (map_of xs)(k := None)"
  by (induction xs) (auto simp: eraseAddr_def fun_eq_iff)

section \<open>Operations\<close>

definition sendARPRequest :: "int \<Rightarrow> u32 \<Rightarrow> routing_table \<Rightarrow> arp_state \<Rightarrow> (arp_output list \<times> arp_state) res" where
  "sendARPRequest i ipAddress t a =
     (case getInterfaceById i t of
        None \<Rightarrow> Inl (RuntimeError ''null interface'')
      | Some ie \<Rightarrow>
          bindR (assertR (ieMac ie \<noteq> 0) ''!myMACAddress.isUnspecified()'') (\<lambda>_.
          bindR (assertR (\<not> isUnspecifiedAddress (ieAddr ie)) ''!myIPAddress.isUnspecified()'') (\<lambda>_.
          Inr ([ArpSend \<lparr>apOpcode = ARP_REQUEST, apSrcMac = ieMac ie, apSrcIp = ieAddr ie, apDestMac = 0, apDestIp = ipAddress\<rparr> i MAC_BROADCAST],
               a\<lparr>numRequestsSent := numRequestsSent a + 1\<rparr>))))"

text \<open>\<open>entry\<close> has been or will be stored under the address.\<close>

definition initiateARPResolution :: "arp_par \<Rightarrow> simtime \<Rightarrow> u32 \<Rightarrow> arp_entry \<Rightarrow> routing_table \<Rightarrow> arp_state \<Rightarrow> (arp_output list \<times> arp_state) res" where
  "initiateARPResolution par now addr entry t a =
     bindR (sendARPRequest (aeInterface entry) addr t a) (\<lambda>(outs, a1).
     let e = entry\<lparr>aePending := True, aeRetries := 0, aeLastUpdate := 0, aeMac := 0, aeTimer := Some (now + retryTimeout par)\<rparr>
     in Inr (outs @ [ArpInitiated addr (aeInterface entry)], a1\<lparr>arpCache := putAddr addr e (arpCache a1), numResolutions := numResolutions a1 + 1\<rparr>))"

text \<open>The MAC address, unspecified while the resolution is pending.\<close>

definition resolveL3Address :: "arp_par \<Rightarrow> simtime \<Rightarrow> u32 \<Rightarrow> int \<Rightarrow> routing_table \<Rightarrow> arp_state \<Rightarrow> (u64 \<times> arp_output list \<times> arp_state) res" where
  "resolveL3Address par now addr i t a =
     (case map_of (arpCache a) addr of
        None \<Rightarrow>
          bindR (initiateARPResolution par now addr \<lparr>aeInterface = i, aePending = False, aeMac = 0, aeLastUpdate = 0, aeRetries = 0, aeTimer = None\<rparr> t a) (\<lambda>(outs, a1).
          Inr (0, outs, a1))
      | Some e \<Rightarrow>
          if aePending e then Inr (0, [], a)
          else if aeLastUpdate e + cacheTimeout par \<ge> now then Inr (aeMac e, [], a)
          else bindR (initiateARPResolution par now addr (e\<lparr>aeInterface := i\<rparr>) t a) (\<lambda>(outs, a1). Inr (0, outs, a1)))"

text \<open>The timer of the entry of an address expires.\<close>

definition requestTimedOut :: "arp_par \<Rightarrow> simtime \<Rightarrow> u32 \<Rightarrow> routing_table \<Rightarrow> arp_state \<Rightarrow> (arp_output list \<times> arp_state) res" where
  "requestTimedOut par now addr t a =
     (case map_of (arpCache a) addr of
        None \<Rightarrow> Inl (RuntimeError ''dangling cache entry'')
      | Some e \<Rightarrow>
          let e1 = e\<lparr>aeRetries := aeRetries e + 1\<rparr> in
          if aeRetries e1 < retryCount par
          then bindR (sendARPRequest (aeInterface e1) addr t (a\<lparr>arpCache := putAddr addr e1 (arpCache a)\<rparr>)) (\<lambda>(outs, a1).
               Inr (outs, a1\<lparr>arpCache := putAddr addr (e1\<lparr>aeTimer := Some (now + retryTimeout par)\<rparr>) (arpCache a1)\<rparr>))
          else Inr ([ArpFailed addr (aeInterface e1)], a\<lparr>arpCache := eraseAddr addr (arpCache a), numFailedResolutions := numFailedResolutions a + 1\<rparr>))"

definition addressRecognized :: "arp_par \<Rightarrow> u32 \<Rightarrow> int \<Rightarrow> routing_table \<Rightarrow> (bool \<times> routing_table) res" where
  "addressRecognized par destAddr i t =
     (case isLocalAddress destAddr t of (isLocal, t1) \<Rightarrow>
      if isLocal then Inr (True, t1)
      else if respondToProxyARP par
      then bindR (getInterfaceForDestAddr destAddr t1) (\<lambda>(rtie, t2). Inr (rtie \<noteq> None \<and> rtie \<noteq> Some i, t2))
      else Inr (False, t1))"

definition updateARPCache :: "simtime \<Rightarrow> u32 \<Rightarrow> arp_entry \<Rightarrow> u64 \<Rightarrow> arp_state \<Rightarrow> arp_output list \<times> arp_state" where
  "updateARPCache now addr entry mac a =
     (let e = (if aePending entry then entry\<lparr>aePending := False, aeTimer := None, aeRetries := 0\<rparr> else entry);
          e1 = e\<lparr>aeMac := mac, aeLastUpdate := now\<rparr>
      in ([ArpCompleted addr mac (aeInterface e1)], a\<lparr>arpCache := putAddr addr e1 (arpCache a)\<rparr>))"

text \<open>The packet was received on interface \<open>i\<close>.\<close>

definition processARPPacket :: "simtime \<Rightarrow> arp_par \<Rightarrow> arp_packet \<Rightarrow> int \<Rightarrow> routing_table \<Rightarrow> arp_state \<Rightarrow> (arp_output list \<times> routing_table \<times> arp_state) res" where
  "processARPPacket now par arp i t a =
     (case getInterfaceById i t of
        None \<Rightarrow> Inl (RuntimeError ''null interface'')
      | Some ie \<Rightarrow>
          if apSrcMac arp = 0 then Inl (RuntimeError ''wrong ARP packet: source MAC address is empty'')
          else if isUnspecifiedAddress (apSrcIp arp) then Inl (RuntimeError ''wrong ARP packet: source IPv4 address is empty'')
          else
            let it = map_of (arpCache a) (apSrcIp arp);
                (outs1, a1) = (case it of Some e \<Rightarrow> updateARPCache now (apSrcIp arp) e (apSrcMac arp) a | None \<Rightarrow> ([], a))
            in bindR (addressRecognized par (apDestIp arp) i t) (\<lambda>(known, t1).
               if known
               then
                 let (outs2, a2) = (if it = None
                       then updateARPCache now (apSrcIp arp) \<lparr>aeInterface = i, aePending = False, aeMac = 0, aeLastUpdate = 0, aeRetries = 0, aeTimer = None\<rparr> (apSrcMac arp) a1
                       else ([], a1))
                 in case apOpcode arp of
                      ARP_REQUEST \<Rightarrow>
                        Inr (outs1 @ outs2 @ [ArpSend (arp\<lparr>apDestIp := apSrcIp arp, apDestMac := apSrcMac arp, apSrcIp := apDestIp arp, apSrcMac := ieMac ie, apOpcode := ARP_REPLY\<rparr>) i (apSrcMac arp)],
                             t1, a2\<lparr>numRepliesSent := numRepliesSent a2 + 1\<rparr>)
                    | ARP_REPLY \<Rightarrow> Inr (outs1 @ outs2, t1, a2)
                    | ARP_RARP_REQUEST \<Rightarrow> Inl (RuntimeError ''RARP request received: RARP is not supported'')
                    | ARP_RARP_REPLY \<Rightarrow> Inl (RuntimeError ''RARP reply received: RARP is not supported'')
               else Inr (outs1, t1, a1)))"

definition getL3AddressFor :: "arp_par \<Rightarrow> simtime \<Rightarrow> u64 \<Rightarrow> arp_state \<Rightarrow> u32" where
  "getL3AddressFor par now mac a =
     (if mac = 0 then 0
      else case find (\<lambda>x. aeMac (snd x) = mac \<and> aeLastUpdate (snd x) + cacheTimeout par \<ge> now) (arpCache a) of Some x \<Rightarrow> fst x | None \<Rightarrow> 0)"

definition arpStart :: "arp_state \<Rightarrow> arp_state res" where
  "arpStart a = bindR (assertR (arpCache a = []) ''arpCache.empty()'') (\<lambda>_. Inr (a\<lparr>arpUp := True\<rparr>))"

definition arpStop :: "arp_state \<Rightarrow> arp_state" where
  "arpStop a = a\<lparr>arpUp := False, arpCache := []\<rparr>"

text \<open>\<open>handleMessage\<close>: a timer of an address, or a packet from an interface.\<close>

datatype arp_message = ArpTimer u32 | ArpReceived arp_packet int

definition handleArpMessage :: "simtime \<Rightarrow> arp_par \<Rightarrow> arp_message \<Rightarrow> routing_table \<Rightarrow> arp_state \<Rightarrow> (arp_output list \<times> routing_table \<times> arp_state) res" where
  "handleArpMessage now par msg t a =
     (case msg of
        ArpTimer addr \<Rightarrow>
          if \<not> arpUp a then Inl (RuntimeError ''Model error: self msg received when protocol is down'')
          else bindR (requestTimedOut par now addr t a) (\<lambda>(outs, a1). Inr (outs, t, a1))
      | ArpReceived p i \<Rightarrow> if \<not> arpUp a then Inr ([], t, a) else processARPPacket now par p i t a)"

section \<open>Invariant\<close>

text \<open>
  A pending entry has a timer and no address, and fewer requests than the limit were sent for it; any other entry has an address and no
  timer.
\<close>

definition entryOk :: "arp_par \<Rightarrow> arp_entry \<Rightarrow> bool" where
  "entryOk par e \<longleftrightarrow> (if aePending e then aeTimer e \<noteq> None \<and> aeMac e = 0 \<and> 0 \<le> aeRetries e \<and> aeRetries e < retryCount par
     else aeTimer e = None \<and> aeMac e \<noteq> 0 \<and> aeRetries e = 0)"

definition arpOk :: "arp_par \<Rightarrow> arp_state \<Rightarrow> bool" where
  "arpOk par a \<longleftrightarrow> (\<forall>addr e. map_of (arpCache a) addr = Some e \<longrightarrow> entryOk par e)"

lemma arpOk_put: "arpOk par a \<Longrightarrow> entryOk par e \<Longrightarrow> map_of (arpCache a') = (map_of (arpCache a))(addr \<mapsto> e) \<Longrightarrow> arpOk par a'"
  by (simp add: arpOk_def)

lemma arpOk_erase: "arpOk par a \<Longrightarrow> map_of (arpCache a') = (map_of (arpCache a))(addr := None) \<Longrightarrow> arpOk par a'"
  by (simp add: arpOk_def split: if_splits)

lemma arpOk_same: "arpOk par a \<Longrightarrow> arpCache a' = arpCache a \<Longrightarrow> arpOk par a'"
  by (simp add: arpOk_def)

lemma sendARPRequest_cache: "sendARPRequest i addr t a = Inr (outs, a') \<Longrightarrow> arpCache a' = arpCache a"
  by (auto simp: sendARPRequest_def bindR_eq_Inr split: option.splits)

lemma initiate_ok:
  assumes "initiateARPResolution par now addr e t a = Inr (outs, a')" "arpOk par a" "0 < retryCount par"
  shows "arpOk par a'" "\<exists>x. map_of (arpCache a') = (map_of (arpCache a))(addr \<mapsto> x) \<and> aePending x"
proof -
  obtain outs1 a1 where s: "sendARPRequest (aeInterface e) addr t a = Inr (outs1, a1)"
      and a': "a' = a1\<lparr>arpCache := putAddr addr (e\<lparr>aePending := True, aeRetries := 0, aeLastUpdate := 0, aeMac := 0, aeTimer := Some (now + retryTimeout par)\<rparr>) (arpCache a1), numResolutions := numResolutions a1 + 1\<rparr>"
    using assms(1) by (auto simp: initiateARPResolution_def Let_def)
  show "arpOk par a'" using assms(2,3) sendARPRequest_cache [OF s] by (auto simp: a' arpOk_def entryOk_def)
  show "\<exists>x. map_of (arpCache a') = (map_of (arpCache a))(addr \<mapsto> x) \<and> aePending x" using sendARPRequest_cache [OF s] by (auto simp: a' intro!: exI)
qed

text \<open>Resolving an address leaves its entry pending, or returns the address of an entry that is not.\<close>

lemma resolve_ok:
  assumes "resolveL3Address par now addr i t a = Inr (mac, outs, a')" "arpOk par a" "0 < retryCount par"
  shows "arpOk par a'" "\<exists>e. map_of (arpCache a') = (map_of (arpCache a))(addr \<mapsto> e) \<and> (if mac = 0 then aePending e else \<not> aePending e \<and> aeMac e = mac \<and> map_of (arpCache a) addr = Some e)"
proof -
  have "arpOk par a' \<and> (\<exists>e. map_of (arpCache a') = (map_of (arpCache a))(addr \<mapsto> e) \<and> (if mac = 0 then aePending e else \<not> aePending e \<and> aeMac e = mac \<and> map_of (arpCache a) addr = Some e))"
  proof (cases "map_of (arpCache a) addr")
    case None
    then show ?thesis using assms initiate_ok [of par now addr _ t a outs a'] by (auto simp: resolveL3Address_def bindR_eq_Inr)
  next
    case (Some e)
    have ok: "entryOk par e" using Some assms(2) by (simp add: arpOk_def)
    show ?thesis
    proof (cases "aePending e \<or> aeLastUpdate e + cacheTimeout par \<ge> now")
      case True
      have "map_of (arpCache a) = (map_of (arpCache a))(addr \<mapsto> e)" using Some by (simp add: fun_upd_idem)
      then show ?thesis using True Some assms ok by (intro conjI exI [of _ e]) (auto simp: resolveL3Address_def entryOk_def split: if_splits)
    next
      case False
      then show ?thesis using Some assms initiate_ok [of par now addr "e\<lparr>aeInterface := i\<rparr>" t a outs a'] by (auto simp: resolveL3Address_def bindR_eq_Inr)
    qed
  qed
  then show "arpOk par a'" "\<exists>e. map_of (arpCache a') = (map_of (arpCache a))(addr \<mapsto> e) \<and> (if mac = 0 then aePending e else \<not> aePending e \<and> aeMac e = mac \<and> map_of (arpCache a) addr = Some e)"
    by simp_all
qed

lemma sendARPRequest_sends: "sendARPRequest i addr t a = Inr (outs, a') \<Longrightarrow> x \<in> set outs \<Longrightarrow> \<exists>q j m. x = ArpSend q j m"
  by (auto simp: sendARPRequest_def bindR_eq_Inr split: option.splits)

lemma timedOut_ok:
  assumes "requestTimedOut par now addr t a = Inr (outs, a')" "arpOk par a" "map_of (arpCache a) addr = Some e" "aePending e"
  shows "arpOk par a'"
    "(\<exists>e'. map_of (arpCache a') = (map_of (arpCache a))(addr \<mapsto> e') \<and> aePending e' \<and> (\<forall>x \<in> set outs. \<exists>q j m. x = ArpSend q j m)) \<or> map_of (arpCache a') = (map_of (arpCache a))(addr := None) \<and> outs = [ArpFailed addr (aeInterface e)]"
proof -
  have ok: "entryOk par e" using assms(2,3) by (simp add: arpOk_def)
  have "arpOk par a' \<and> ((\<exists>e'. map_of (arpCache a') = (map_of (arpCache a))(addr \<mapsto> e') \<and> aePending e' \<and> (\<forall>x \<in> set outs. \<exists>q j m. x = ArpSend q j m)) \<or>
      map_of (arpCache a') = (map_of (arpCache a))(addr := None) \<and> outs = [ArpFailed addr (aeInterface e)])"
  proof (cases "aeRetries e + 1 < retryCount par")
    case True
    let ?e = "e\<lparr>aeRetries := aeRetries e + 1\<rparr>" and ?e2 = "e\<lparr>aeRetries := aeRetries e + 1, aeTimer := Some (now + retryTimeout par)\<rparr>"
    obtain outs1 a1 where s: "sendARPRequest (aeInterface e) addr t (a\<lparr>arpCache := putAddr addr ?e (arpCache a)\<rparr>) = Inr (outs1, a1)"
        and a': "outs = outs1" "a' = a1\<lparr>arpCache := putAddr addr ?e2 (arpCache a1)\<rparr>"
      using assms(1,3) True by (auto simp: requestTimedOut_def Let_def)
    have m: "map_of (arpCache a') = (map_of (arpCache a))(addr \<mapsto> ?e2)" using sendARPRequest_cache [OF s] by (simp add: a')
    have "entryOk par ?e2" using ok assms(4) True by (simp add: entryOk_def)
    then have "arpOk par a'" using arpOk_put [OF assms(2) _ m] by simp
    then show ?thesis using m assms(4) a'(1) sendARPRequest_sends [OF s] by auto
  next
    case False
    then have m: "map_of (arpCache a') = (map_of (arpCache a))(addr := None)" "outs = [ArpFailed addr (aeInterface e)]"
      using assms(1,3) by (auto simp: requestTimedOut_def Let_def)
    then show ?thesis using arpOk_erase [OF assms(2) m(1)] by simp
  qed
  then show "arpOk par a'" "(\<exists>e'. map_of (arpCache a') = (map_of (arpCache a))(addr \<mapsto> e') \<and> aePending e' \<and> (\<forall>x \<in> set outs. \<exists>q j m. x = ArpSend q j m)) \<or>
      map_of (arpCache a') = (map_of (arpCache a))(addr := None) \<and> outs = [ArpFailed addr (aeInterface e)]" by simp_all
qed

text \<open>A received packet makes at most the entry of its sender known, and tells so.\<close>

lemma update_ok:
  assumes "updateARPCache now addr e mac a = (outs, a')" "arpOk par a" "mac \<noteq> 0" "aePending e \<or> aeTimer e = None \<and> aeRetries e = 0"
  shows "arpOk par a'" "\<exists>e'. map_of (arpCache a') = (map_of (arpCache a))(addr \<mapsto> e') \<and> \<not> aePending e'" "outs = [ArpCompleted addr mac (aeInterface e)]"
proof -
  define e1 where "e1 = (if aePending e then e\<lparr>aePending := False, aeTimer := None, aeRetries := 0\<rparr> else e)\<lparr>aeMac := mac, aeLastUpdate := now\<rparr>"
  have u: "a' = a\<lparr>arpCache := putAddr addr e1 (arpCache a)\<rparr>" "outs = [ArpCompleted addr mac (aeInterface e)]"
    using assms(1) by (auto simp: updateARPCache_def Let_def e1_def)
  then have m: "map_of (arpCache a') = (map_of (arpCache a))(addr \<mapsto> e1)" by simp
  have e1: "entryOk par e1" "\<not> aePending e1" using assms(3,4) by (auto simp: e1_def entryOk_def)
  show "arpOk par a'" by (rule arpOk_put [OF assms(2) e1(1) m])
  show "\<exists>e'. map_of (arpCache a') = (map_of (arpCache a))(addr \<mapsto> e') \<and> \<not> aePending e'" using m e1(2) by blast
  show "outs = [ArpCompleted addr mac (aeInterface e)]" by (rule u(2))
qed

abbreviation freshEntry :: "int \<Rightarrow> arp_entry" where
  "freshEntry i \<equiv> \<lparr>aeInterface = i, aePending = False, aeMac = 0, aeLastUpdate = 0, aeRetries = 0, aeTimer = None\<rparr>"

text \<open>The two places at which the cache is updated, as one.\<close>

lemma process_cases:
  assumes p: "processARPPacket now par arp i t a = Inr (outs, t', a')"
  shows "apSrcMac arp \<noteq> 0" "\<exists>reply e o1 a1. (\<forall>x \<in> set reply. \<exists>q j m. x = ArpSend q j m) \<and>
     ((map_of (arpCache a) (apSrcIp arp) = None \<and> e = freshEntry i \<or> map_of (arpCache a) (apSrcIp arp) = Some e) \<and>
        updateARPCache now (apSrcIp arp) e (apSrcMac arp) a = (o1, a1) \<and> arpCache a' = arpCache a1 \<and> outs = o1 @ reply \<or>
      map_of (arpCache a) (apSrcIp arp) = None \<and> a' = a \<and> outs = [])"
proof -
  obtain ie where ie: "getInterfaceById i t = Some ie" using p by (auto simp: processARPPacket_def split: option.splits)
  show "apSrcMac arp \<noteq> 0" using p ie by (auto simp: processARPPacket_def split: if_splits)
  have ip: "\<not> isUnspecifiedAddress (apSrcIp arp)" using p ie by (auto simp: processARPPacket_def split: if_splits)
  show "\<exists>reply e o1 a1. (\<forall>x \<in> set reply. \<exists>q j m. x = ArpSend q j m) \<and>
     ((map_of (arpCache a) (apSrcIp arp) = None \<and> e = freshEntry i \<or> map_of (arpCache a) (apSrcIp arp) = Some e) \<and>
        updateARPCache now (apSrcIp arp) e (apSrcMac arp) a = (o1, a1) \<and> arpCache a' = arpCache a1 \<and> outs = o1 @ reply \<or>
      map_of (arpCache a) (apSrcIp arp) = None \<and> a' = a \<and> outs = [])"
  proof (cases "map_of (arpCache a) (apSrcIp arp)")
    case None
    obtain o1 a1 where u: "updateARPCache now (apSrcIp arp) (freshEntry i) (apSrcMac arp) a = (o1, a1)" by fastforce
    have "a' = a \<and> outs = [] \<or> (\<exists>reply. (\<forall>x \<in> set reply. \<exists>q j m. x = ArpSend q j m) \<and> arpCache a' = arpCache a1 \<and> outs = o1 @ reply)"
      using p ie ip None u \<open>apSrcMac arp \<noteq> 0\<close> unfolding processARPPacket_def Let_def by (auto simp: bindR_eq_Inr split: if_splits arp_opcode.splits)
    then consider "a' = a" "outs = []" | reply where "\<forall>x \<in> set reply. \<exists>q j m. x = ArpSend q j m" "arpCache a' = arpCache a1" "outs = o1 @ reply" by blast
    then show ?thesis
    proof cases
      case 1
      then show ?thesis using None by (intro exI [of _ "[]"]) simp
    next
      case (2 reply)
      then show ?thesis using None u by (intro exI [of _ reply] exI [of _ "freshEntry i"] exI [of _ o1] exI [of _ a1]) simp
    qed
  next
    case (Some e)
    obtain o1 a1 where u: "updateARPCache now (apSrcIp arp) e (apSrcMac arp) a = (o1, a1)" by fastforce
    have "\<exists>reply. (\<forall>x \<in> set reply. \<exists>q j m. x = ArpSend q j m) \<and> arpCache a' = arpCache a1 \<and> outs = o1 @ reply"
      using p ie ip Some u \<open>apSrcMac arp \<noteq> 0\<close> unfolding processARPPacket_def Let_def by (auto simp: bindR_eq_Inr split: if_splits arp_opcode.splits)
    then show ?thesis using Some u by blast
  qed
qed

lemma process_ok:
  assumes p: "processARPPacket now par arp i t a = Inr (outs, t', a')" and ok: "arpOk par a"
  shows "arpOk par a'" "(arpCache a' = arpCache a \<and> outs = []) \<or>
     (\<exists>e j reply. map_of (arpCache a') = (map_of (arpCache a))(apSrcIp arp \<mapsto> e) \<and> \<not> aePending e \<and> apSrcMac arp \<noteq> 0 \<and>
        outs = ArpCompleted (apSrcIp arp) (apSrcMac arp) j # reply \<and> (\<forall>x \<in> set reply. \<exists>q j m. x = ArpSend q j m))"
proof -
  note pc = process_cases [OF p]
  have "arpOk par a' \<and> ((arpCache a' = arpCache a \<and> outs = []) \<or>
     (\<exists>e j reply. map_of (arpCache a') = (map_of (arpCache a))(apSrcIp arp \<mapsto> e) \<and> \<not> aePending e \<and> apSrcMac arp \<noteq> 0 \<and>
        outs = ArpCompleted (apSrcIp arp) (apSrcMac arp) j # reply \<and> (\<forall>x \<in> set reply. \<exists>q j m. x = ArpSend q j m)))"
  proof (cases "a' = a \<and> outs = []")
    case False
    then obtain reply e o1 a1 where r: "\<forall>x \<in> set reply. \<exists>q j m. x = ArpSend q j m" "arpCache a' = arpCache a1" "outs = o1 @ reply"
        "map_of (arpCache a) (apSrcIp arp) = None \<and> e = freshEntry i \<or> map_of (arpCache a) (apSrcIp arp) = Some e"
        and u: "updateARPCache now (apSrcIp arp) e (apSrcMac arp) a = (o1, a1)" using pc(2) by blast
    have "aePending e \<or> aeTimer e = None \<and> aeRetries e = 0" using r(4) ok by (auto simp: arpOk_def entryOk_def)
    note up = update_ok [OF u ok pc(1) this]
    obtain e' where "map_of (arpCache a') = (map_of (arpCache a))(apSrcIp arp \<mapsto> e')" "\<not> aePending e'" using up(2) r(2) by auto
    moreover have "outs = ArpCompleted (apSrcIp arp) (apSrcMac arp) (aeInterface e) # reply" using up(3) r(3) by simp
    moreover have "arpOk par a'" using arpOk_same [OF up(1) r(2)] .
    ultimately show ?thesis using pc(1) r(1) by blast
  qed (use ok in simp)
  then show "arpOk par a'" "(arpCache a' = arpCache a \<and> outs = []) \<or>
     (\<exists>e j reply. map_of (arpCache a') = (map_of (arpCache a))(apSrcIp arp \<mapsto> e) \<and> \<not> aePending e \<and> apSrcMac arp \<noteq> 0 \<and>
        outs = ArpCompleted (apSrcIp arp) (apSrcMac arp) j # reply \<and> (\<forall>x \<in> set reply. \<exists>q j m. x = ArpSend q j m))" by blast+
qed

section \<open>Giving up\<close>

fun timeouts :: "arp_par \<Rightarrow> u32 \<Rightarrow> routing_table \<Rightarrow> simtime list \<Rightarrow> arp_state \<Rightarrow> (arp_output list \<times> arp_state) res" where
  "timeouts par addr t [] a = Inr ([], a)"
| "timeouts par addr t (now # ts) a =
     bindR (requestTimedOut par now addr t a) (\<lambda>(o1, a1). bindR (timeouts par addr t ts a1) (\<lambda>(o2, a2). Inr (o1 @ o2, a2)))"

definition requestFor :: "u32 \<Rightarrow> interface_entry \<Rightarrow> arp_output" where
  "requestFor addr ie = ArpSend \<lparr>apOpcode = ARP_REQUEST, apSrcMac = ieMac ie, apSrcIp = ieAddr ie, apDestMac = 0, apDestIp = addr\<rparr> (ieId ie) MAC_BROADCAST"

lemma sendARPRequest_ok:
  assumes "getInterfaceById i t = Some ie" "ieMac ie \<noteq> 0" "ieAddr ie \<noteq> 0"
  shows "sendARPRequest i addr t a = Inr ([requestFor addr ie], a\<lparr>numRequestsSent := numRequestsSent a + 1\<rparr>)"
proof -
  have "ieId ie = i" using assms(1) by (auto simp: getInterfaceById_def find_Some_iff)
  then show ?thesis using assms by (simp add: sendARPRequest_def requestFor_def isUnspecifiedAddress_def assertR_def)
qed

lemma timeouts_fail:
  assumes ie: "getInterfaceById i t = Some ie" "ieMac ie \<noteq> 0" "ieAddr ie \<noteq> 0"
    and e: "map_of (arpCache a) addr = Some e" "aeInterface e = i" "0 < length ts" "aeRetries e + int (length ts) = retryCount par"
  shows "\<exists>a'. timeouts par addr t ts a = Inr (replicate (length ts - 1) (requestFor addr ie) @ [ArpFailed addr i], a') \<and>
     map_of (arpCache a') = (map_of (arpCache a))(addr := None) \<and> numFailedResolutions a' = numFailedResolutions a + 1"
  using e
proof (induction ts arbitrary: a e)
  case (Cons now ts)
  show ?case
  proof (cases ts)
    case Nil
    then have "\<not> aeRetries e + 1 < retryCount par" using Cons.prems(4) by simp
    then show ?thesis using Nil Cons.prems(1,2) by (simp add: requestTimedOut_def Let_def fun_upd_def)
  next
    case (Cons now' ts')
    then have lt: "aeRetries e + 1 < retryCount par" using Cons.prems(4) by simp
    let ?e2 = "e\<lparr>aeRetries := aeRetries e + 1, aeTimer := Some (now + retryTimeout par)\<rparr>"
    obtain a1 where s: "requestTimedOut par now addr t a = Inr ([requestFor addr ie], a1)"
        and a1: "map_of (arpCache a1) = (map_of (arpCache a))(addr \<mapsto> ?e2)" "numFailedResolutions a1 = numFailedResolutions a"
      using Cons.prems(1,2) lt sendARPRequest_ok [OF ie] by (simp add: requestTimedOut_def Let_def)
    have pre: "map_of (arpCache a1) addr = Some ?e2" "aeInterface ?e2 = i" "0 < length ts" "aeRetries ?e2 + int (length ts) = retryCount par"
      using a1(1) Cons.prems(2,4) Cons by simp_all
    from Cons.IH [OF pre] obtain a2 where t:
      "timeouts par addr t ts a1 = Inr (replicate (length ts - 1) (requestFor addr ie) @ [ArpFailed addr i], a2)"
      "map_of (arpCache a2) = (map_of (arpCache a1))(addr := None)" "numFailedResolutions a2 = numFailedResolutions a1 + 1" by blast
    have "map_of (arpCache a2) = (map_of (arpCache a))(addr := None)" using t(2) a1(1) by (simp only: fun_upd_upd)
    moreover have "timeouts par addr t (now # ts) a = Inr (replicate (length (now # ts) - 1) (requestFor addr ie) @ [ArpFailed addr i], a2)" using s t(1) Cons by simp
    moreover have "numFailedResolutions a2 = numFailedResolutions a + 1" using t(3) a1(2) by simp
    ultimately show ?thesis by blast
  qed
qed simp

text \<open>
  C25: address resolution gives up. When no one answers, an address that is not in the cache is asked for with exactly \<open>retryCount\<close> requests,
  one at once and one at each timeout but the last; the last timeout removes the entry, counts the failure and reports it, and nothing else
  is sent. All the other entries stay.
\<close>

theorem resolution_gives_up:
  assumes "getInterfaceById i t = Some ie" "ieMac ie \<noteq> 0" "ieAddr ie \<noteq> 0" "map_of (arpCache a) addr = None"
    and "0 < retryCount par" "length ts = nat (retryCount par)"
  shows "\<exists>outs a1 outs' a2. resolveL3Address par now addr i t a = Inr (0, outs, a1) \<and> timeouts par addr t ts a1 = Inr (outs', a2) \<and>
     filter (\<lambda>x. x \<noteq> ArpInitiated addr i) (outs @ outs') = replicate (nat (retryCount par)) (requestFor addr ie) @ [ArpFailed addr i] \<and>
     map_of (arpCache a2) = map_of (arpCache a) \<and> numFailedResolutions a2 = numFailedResolutions a + 1"
proof -
  let ?e = "(freshEntry i)\<lparr>aePending := True, aeTimer := Some (now + retryTimeout par)\<rparr>"
  obtain a1 where r: "resolveL3Address par now addr i t a = Inr (0, [requestFor addr ie, ArpInitiated addr i], a1)"
      and a1: "map_of (arpCache a1) = (map_of (arpCache a))(addr \<mapsto> ?e)" "numFailedResolutions a1 = numFailedResolutions a"
    using assms(4) sendARPRequest_ok [OF assms(1-3)] by (simp add: resolveL3Address_def initiateARPResolution_def Let_def)
  have l: "0 < length ts" "0 + int (length ts) = retryCount par" using assms(5,6) by simp_all
  from timeouts_fail [OF assms(1-3), of a1 addr ?e ts par] obtain a2 where
    t: "timeouts par addr t ts a1 = Inr (replicate (length ts - 1) (requestFor addr ie) @ [ArpFailed addr i], a2)"
      "map_of (arpCache a2) = (map_of (arpCache a1))(addr := None)" "numFailedResolutions a2 = numFailedResolutions a1 + 1"
    using a1(1) l by auto
  have "requestFor addr ie # replicate (length ts - 1) (requestFor addr ie) = replicate (nat (retryCount par)) (requestFor addr ie)"
    using l(1) assms(6) by (metis Suc_diff_1 replicate_Suc)
  moreover have "requestFor addr ie \<noteq> ArpInitiated addr i" by (simp add: requestFor_def)
  ultimately have "filter (\<lambda>x. x \<noteq> ArpInitiated addr i) ([requestFor addr ie, ArpInitiated addr i] @ replicate (length ts - 1) (requestFor addr ie) @ [ArpFailed addr i]) =
      replicate (nat (retryCount par)) (requestFor addr ie) @ [ArpFailed addr i]" by simp
  moreover have "map_of (arpCache a2) = map_of (arpCache a)" using t(2) a1(1) assms(4) by (auto simp: fun_eq_iff)
  ultimately show ?thesis using r t(1,3) a1(2) by (intro exI conjI) (assumption | simp)+
qed

definition exArp :: arp_state where
  "exArp = \<lparr>arpCache = [], arpUp = True, numRequestsSent = 0, numRepliesSent = 0, numResolutions = 0, numFailedResolutions = 0\<rparr>"

definition exArpPar :: arp_par where
  "exArpPar = \<lparr>retryTimeout = 1, retryCount = 3, cacheTimeout = 120, respondToProxyARP = False\<rparr>"

definition exInterface :: interface_entry where
  "exInterface = \<lparr>ieId = 5, ieName = ''eth0'', ieLoopback = False, ieBroadcast = True, ieMulticast = True, ieMac = 0x0AAA00000001, ieMtu = 1500,
     ieAddr = 0x0A000001, ieNetmask = 0xFF000000, ieMetric = 1, ieGroups = [], ieListeners = [], ieTtlThreshold = 0\<rparr>"

theorem resolution_gives_up_witness:
  "\<exists>outs a1 outs' a2. resolveL3Address exArpPar 0 0x0A000002 5 (emptyTable False [exInterface]) exArp = Inr (0, outs, a1) \<and>
     timeouts exArpPar 0x0A000002 (emptyTable False [exInterface]) [1, 2, 3] a1 = Inr (outs', a2) \<and>
     filter (\<lambda>x. x \<noteq> ArpInitiated 0x0A000002 5) (outs @ outs') = replicate 3 (requestFor 0x0A000002 exInterface) @ [ArpFailed 0x0A000002 5] \<and>
     map_of (arpCache a2) = map_of (arpCache exArp) \<and> numFailedResolutions a2 = numFailedResolutions exArp + 1"
proof -
  have "getInterfaceById 5 (emptyTable False [exInterface]) = Some exInterface" by (simp add: getInterfaceById_def emptyTable_def exInterface_def)
  from resolution_gives_up [OF this, where a = exArp and par = exArpPar and ts = "[1, 2, 3]" and addr = "0x0A000002" and now = 0]
  show ?thesis by (simp add: exInterface_def exArp_def exArpPar_def)
qed

end
