(* ===== verification/Ip_Forward.thy ===== *)
theory Ip_Forward
  imports Ip_Fragment Ip_Arp Mac_Address
begin

unbundle bit_operations_syntax

text \<open>
  The IPv4 module, \<open>src/inet/networklayer/ipv4/IPv4.cc\<close>: what is done with datagrams from the network and from the higher layers, routing,
  forwarding, broadcasts and multicasts, netfilter hooks, and the datagrams that wait for an address resolution. Fragmentation and the
  fragment buffer are in \<open>Ip_Fragment\<close>, the routing table in \<open>Ip_Routing\<close>, the ARP module in \<open>Ip_Arp\<close>.
\<close>

section \<open>State\<close>

text \<open>An interface is named by its identifier; a datagram knows the interface on which it arrived. Following a null pointer is an error.\<close>

datatype hook_type = PREROUTING | LOCALIN | FORWARD | POSTROUTING | LOCALOUT

datatype hook_result = HookAccept | HookDrop | HookQueue | HookStolen

record queued_datagram =
  qdDatagram :: ip_datagram
  qdIn :: "int option"
  qdOut :: "int option"
  qdNextHop :: u32
  qdType :: hook_type
  qdLoop :: bool

record control_info =
  ciDest :: u32
  ciSrc :: u32
  ciInterface :: int
  ciMulticastLoop :: bool
  ciProtocol :: int
  ciTypeOfService :: u8
  ciTimeToLive :: int
  ciDontFragment :: bool

record ip_node =
  ndTable :: routing_table
  ndArp :: arp_state
  ndLayer :: ip_layer
  pendingPackets :: "(u32 \<times> ip_datagram list) list"
  ipHooks :: "(int \<times> nat) list"
  queuedDatagrams :: "queued_datagram list"
  protocolMap :: "(int \<times> int) list"
  ipUp :: bool
  curFragmentId :: int
  numMulticast :: int
  numLocalDeliver :: int
  numDropped :: int
  numUnroutable :: int
  numForwarded :: int

record ip_params =
  ipConfig :: ip_config
  arpParams :: arp_par
  defaultTimeToLive :: int
  defaultMCTimeToLive :: int
  forceBroadcast :: bool
  useProxyARP :: bool

text \<open>
  What is outside: the time, the registered serializers, the hooks (the datagram, the output interface and the next hop they leave behind),
  the ports of a transport packet (none if the packet is not of the class that its protocol number promises), whether a transport gate is connected,
  and the multicast routing protocol, which may add a route when it is told of a new stream.
\<close>

record ip_env =
  envNow :: simtime
  envDeserialize :: "int \<Rightarrow> u32 \<times> u32 \<Rightarrow> u8 list \<Rightarrow> ip_packet option"
  envHook :: "nat \<Rightarrow> hook_type \<Rightarrow> ip_datagram \<Rightarrow> int option \<Rightarrow> int option \<Rightarrow> u32 \<Rightarrow> hook_result \<times> ip_datagram \<times> int option \<times> u32"
  envPorts :: "ip_packet \<Rightarrow> (int \<times> int) option"
  envPathOk :: "int \<Rightarrow> bool"
  envNewMulticast :: "ip_datagram \<Rightarrow> routing_table \<Rightarrow> routing_table"

text \<open>
  A datagram for a network interface, with its MAC address on an IEEE 802 LAN; a packet for a transport protocol; an ICMP error about a datagram,
  to its source or to the applications of this node; ARP packets on their way.
\<close>

datatype node_output =
    ToNic ip_datagram int "u64 option"
  | ToTransport int ip_packet control_info ip_datagram
  | IcmpToSource ip_packet int u32 ip_datagram
  | IcmpErrorOut ip_packet int ip_datagram
  | FromArp arp_output
  | ToArp arp_packet int
  | ArpToNic arp_packet int u64

type_synonym node_result = "(node_output list \<times> ip_node) res"

definition thenN :: "node_result \<Rightarrow> (ip_node \<Rightarrow> node_result) \<Rightarrow> node_result" where
  "thenN r f = bindR r (\<lambda>(o1, n1). bindR (f n1) (\<lambda>(o2, n2). Inr (o1 @ o2, n2)))"

abbreviation (input) IP_PROT_ICMP :: int where "IP_PROT_ICMP \<equiv> 1"
abbreviation (input) IP_PROT_IGMP :: int where "IP_PROT_IGMP \<equiv> 2"
abbreviation (input) IP_PROT_IP :: int where "IP_PROT_IP \<equiv> 4"
abbreviation (input) IP_PROT_TCP :: int where "IP_PROT_TCP \<equiv> 6"
abbreviation (input) IP_PROT_UDP :: int where "IP_PROT_UDP \<equiv> 17"
abbreviation (input) TYPE_UNREACHABLE :: int where "TYPE_UNREACHABLE \<equiv> 3"
abbreviation (input) TYPE_REDIRECT :: int where "TYPE_REDIRECT \<equiv> 5"
abbreviation (input) TYPE_TIME_EXCEEDED :: int where "TYPE_TIME_EXCEEDED \<equiv> 11"
abbreviation (input) TYPE_PARAMETER_PROBLEM :: int where "TYPE_PARAMETER_PROBLEM \<equiv> 12"
abbreviation (input) CODE_PROTOCOL_UNREACHABLE :: int where "CODE_PROTOCOL_UNREACHABLE \<equiv> 2"
abbreviation (input) CODE_FRAGMENTATION_NEEDED :: int where "CODE_FRAGMENTATION_NEEDED \<equiv> 4"
abbreviation (input) BROADCAST_NEXT_HOP :: u32 where "BROADCAST_NEXT_HOP \<equiv> 0xFFFFFFFF"

text \<open>A \<open>short\<close>.\<close>

definition toShort :: "int \<Rightarrow> int" where
  "toShort x = (x + 2 ^ 15) mod 2 ^ 16 - 2 ^ 15"

definition interfaceOf :: "int option \<Rightarrow> ip_node \<Rightarrow> interface_entry res" where
  "interfaceOf i n =
     (case i of
        None \<Rightarrow> Inl (RuntimeError ''null interface'')
      | Some k \<Rightarrow> (case getInterfaceById k (ndTable n) of None \<Rightarrow> Inl (RuntimeError ''null interface'') | Some ie \<Rightarrow> Inr ie))"

section \<open>ICMP errors\<close>

text \<open>\<open>ICMP.cc\<close>: which errors are reported, and to whom.\<close>

definition isIcmpInfoType :: "int \<Rightarrow> bool" where
  "isIcmpInfoType ty = (ty \<in> {0, 8, 9, 10, 13, 14, 15, 16, 17, 18})"

definition possiblyLocalBroadcast :: "u32 \<Rightarrow> int \<Rightarrow> ip_node \<Rightarrow> (bool \<times> ip_node) res" where
  "possiblyLocalBroadcast addr interfaceId n =
     (if addr AND 1 = 0 then Inr (False, n)
      else
        case isLocalBroadcastAddress addr (ndTable n) of (b, t) \<Rightarrow>
        let n1 = n\<lparr>ndTable := t\<rparr> in
        if b then Inr (True, n1)
        else if interfaceId \<noteq> - 1 then bindR (interfaceOf (Some interfaceId) n1) (\<lambda>ie. Inr (isUnspecifiedAddress (ieAddr ie), n1))
        else Inr (\<not> (\<forall>ie \<in> set (interfaces t). \<not> isUnspecifiedAddress (ieAddr ie)), n1))"

text \<open>Conditions are tested in turn, until one holds.\<close>

definition orElse :: "(bool \<times> ip_node) res \<Rightarrow> (ip_node \<Rightarrow> (bool \<times> ip_node) res) \<Rightarrow> (bool \<times> ip_node) res" where
  "orElse r f = bindR r (\<lambda>(b, n). if b then Inr (True, n) else f n)"

definition broadcastOrMulticast :: "u32 \<Rightarrow> int \<Rightarrow> ip_node \<Rightarrow> (bool \<times> ip_node) res" where
  "broadcastOrMulticast addr i n = orElse (Inr (isMulticastAddress addr \<or> isLimitedBroadcastAddress addr, n)) (possiblyLocalBroadcast addr i)"

definition aboutIcmpError :: "ip_datagram \<Rightarrow> bool res" where
  "aboutIcmpError orig =
     (if transportProtocol orig = IP_PROT_ICMP
      then case encapsulated orig of
             Some p \<Rightarrow> (case pkBody p of IcmpMessage t _ \<Rightarrow> Inr (\<not> isIcmpInfoType t) | _ \<Rightarrow> Inl (RuntimeError ''check_and_cast: not an ICMPMessage''))
           | None \<Rightarrow> Inl (RuntimeError ''check_and_cast: null packet'')
      else Inr False)"

definition errorSuppressed :: "ip_datagram \<Rightarrow> int \<Rightarrow> ip_node \<Rightarrow> (bool \<times> ip_node) res" where
  "errorSuppressed orig i n =
     orElse (broadcastOrMulticast (destAddress orig) i n) (\<lambda>n1.
     orElse (Inr (i \<noteq> - 1 \<and> isUnspecifiedAddress (srcAddress orig), n1)) (\<lambda>n2.
     orElse (broadcastOrMulticast (srcAddress orig) i n2) (\<lambda>n3.
     bindR (aboutIcmpError orig) (\<lambda>b. Inr (b, n3)))))"

text \<open>An error about a datagram that has no source address yet is processed at once, as if it came from the network.\<close>

definition sendErrorMessage :: "ip_datagram \<Rightarrow> int \<Rightarrow> int \<Rightarrow> int \<Rightarrow> ip_node \<Rightarrow> node_result" where
  "sendErrorMessage orig inputInterfaceId ty code n =
     bindR (errorSuppressed orig inputInterfaceId n) (\<lambda>(suppressed, n1).
     if suppressed then Inr ([], n1)
     else
       let dataLength = ipByteLength orig - ipHeaderLength orig;
           p = \<lparr>pkLength = 8 + ipHeaderLength orig + (if dataLength \<le> 8 then dataLength else 8), pkBody = IcmpMessage ty (transportProtocol orig)\<rparr>
       in Inr ([if isUnspecifiedAddress (srcAddress orig) then IcmpErrorOut p code orig else IcmpToSource p code (srcAddress orig) orig], n1))"

section \<open>Sending\<close>

definition resolveNextHopMacAddress :: "ip_params \<Rightarrow> ip_env \<Rightarrow> u32 \<Rightarrow> interface_entry \<Rightarrow> ip_node \<Rightarrow> (u64 \<times> node_output list \<times> ip_node) res" where
  "resolveNextHopMacAddress par env nextHopAddr ie n =
     (if isLimitedBroadcastAddress nextHopAddr \<or> nextHopAddr = broadcastOf ie then Inr (MAC_BROADCAST, [], n)
      else if isMulticastAddress nextHopAddr then bindR (makeMulticastAddress nextHopAddr) (\<lambda>m. Inr (address m, [], n))
      else bindR (resolveL3Address (arpParams par) (envNow env) nextHopAddr (ieId ie) (ndTable n) (ndArp n)) (\<lambda>(mac, outs, a).
           Inr (mac, map FromArp outs, n\<lparr>ndArp := a\<rparr>)))"

text \<open>The next hop, when none was given: the destination, if it is on the link of the interface or others answer ARP requests for it.\<close>

definition chooseNextHop :: "ip_params \<Rightarrow> ip_datagram \<Rightarrow> interface_entry \<Rightarrow> u32 \<Rightarrow> u32 res" where
  "chooseNextHop par dg ie nextHopAddr =
     (if \<not> isUnspecifiedAddress nextHopAddr then Inr nextHopAddr
      else if maskedAddrAreEqual (destAddress dg) (ieAddr ie) (ieNetmask ie) \<or> useProxyARP par then Inr (destAddress dg)
      else Inl (RuntimeError ''Cannot send datagram on broadcast interface: no next-hop address and Proxy ARP is disabled''))"

definition waiting :: "u32 \<Rightarrow> ip_node \<Rightarrow> ip_datagram list" where
  "waiting addr n = (case map_of (pendingPackets n) addr of None \<Rightarrow> [] | Some q \<Rightarrow> q)"

definition sendDatagramToOutput :: "ip_params \<Rightarrow> ip_env \<Rightarrow> ip_datagram \<Rightarrow> interface_entry \<Rightarrow> u32 \<Rightarrow> ip_node \<Rightarrow> node_result" where
  "sendDatagramToOutput par env dg ie nextHopAddr n =
     (if \<not> (ieBroadcast ie \<and> ieMac ie \<noteq> 0) then Inr ([ToNic dg (ieId ie) None], n)
      else
        bindR (chooseNextHop par dg ie nextHopAddr) (\<lambda>nextHop.
        bindR (resolveNextHopMacAddress par env nextHop ie n) (\<lambda>(mac, outs, n1).
        if mac = 0 then Inr (outs, n1\<lparr>pendingPackets := putAddr nextHop (waiting nextHop n1 @ [dg]) (pendingPackets n1)\<rparr>)
        else
          bindR (assertR (map_of (pendingPackets n1) nextHop = None)
                   ''IPv4-ARP error: nextHopAddr found in ARP table, but IPv4 queue for nextHopAddr not empty'') (\<lambda>_.
          Inr (outs @ [ToNic dg (ieId ie) (Some mac)], n1)))))"

fun sendOutputs :: "ip_params \<Rightarrow> ip_env \<Rightarrow> interface_entry \<Rightarrow> u32 \<Rightarrow> ip_output list \<Rightarrow> ip_node \<Rightarrow> node_result" where
  "sendOutputs par env ie nextHopAddr [] n = Inr ([], n)"
| "sendOutputs par env ie nextHopAddr (x # xs) n =
     thenN (case x of
              ToOutput dg \<Rightarrow> sendDatagramToOutput par env dg ie nextHopAddr n
            | IcmpError dg ICMP_TIME_EXCEEDED \<Rightarrow> sendErrorMessage dg (- 1) TYPE_TIME_EXCEEDED 0 n
            | IcmpError dg ICMP_DU_FRAGMENTATION_NEEDED \<Rightarrow> sendErrorMessage dg (- 1) TYPE_UNREACHABLE CODE_FRAGMENTATION_NEEDED n
            | LocalDeliver dg \<Rightarrow> Inr ([], n))
       (sendOutputs par env ie nextHopAddr xs)"

definition fragmentAndSendTo :: "ip_params \<Rightarrow> ip_env \<Rightarrow> ip_datagram \<Rightarrow> int option \<Rightarrow> u32 \<Rightarrow> ip_node \<Rightarrow> node_result" where
  "fragmentAndSendTo par env dg out nextHopAddr n =
     bindR (interfaceOf out n) (\<lambda>ie.
     bindR (fragmentAndSend (ipConfig par) \<lparr>ifMtu = ieMtu ie, ifAddress = ieAddr ie\<rparr> dg) (\<lambda>(outs, dropped).
     sendOutputs par env ie nextHopAddr outs (n\<lparr>numDropped := numDropped n + int dropped\<rparr>)))"

section \<open>Hooks\<close>

fun runHooks :: "ip_env \<Rightarrow> hook_type \<Rightarrow> (int \<times> nat) list \<Rightarrow> ip_datagram \<Rightarrow> int option \<Rightarrow> int option \<Rightarrow> u32 \<Rightarrow> hook_result \<times> ip_datagram \<times> int option \<times> u32" where
  "runHooks env ty [] dg inIf out nextHop = (HookAccept, dg, out, nextHop)"
| "runHooks env ty (h # hs) dg inIf out nextHop =
     (case envHook env (snd h) ty dg inIf out nextHop of (r, dg1, out1, nextHop1) \<Rightarrow>
      if r = HookAccept then runHooks env ty hs dg1 inIf out1 nextHop1 else (r, dg1, out1, nextHop1))"

text \<open>
  The verdict and the node, in which the datagram is queued if a hook says so. A hook on local input gets no output interface; the control
  information of a datagram from the higher layers stays with it.
\<close>

definition datagramHook :: "ip_env \<Rightarrow> hook_type \<Rightarrow> bool \<Rightarrow> ip_datagram \<Rightarrow> int option \<Rightarrow> int option \<Rightarrow> u32 \<Rightarrow> ip_node \<Rightarrow>
    hook_result \<times> ip_datagram \<times> int option \<times> u32 \<times> ip_node" where
  "datagramHook env ty loop dg inIf out nextHop n =
     (case runHooks env ty (ipHooks n) dg inIf out nextHop of (r, dg1, out1, nextHop1) \<Rightarrow>
      (r, dg1, out1, nextHop1,
       if r = HookQueue
       then n\<lparr>queuedDatagrams := queuedDatagrams n @
              [\<lparr>qdDatagram = dg1, qdIn = inIf, qdOut = (if ty = LOCALIN then None else out1), qdNextHop = (if ty = LOCALIN then 0 else nextHop1), qdType = ty, qdLoop = loop\<rparr>]\<rparr>
       else n))"

definition registerHook :: "int \<Rightarrow> nat \<Rightarrow> ip_node \<Rightarrow> ip_node" where
  "registerHook priority hook n = n\<lparr>ipHooks := insertUpper (\<lambda>a b. fst a < fst b) (priority, hook) (ipHooks n)\<rparr>"

definition unregisterHook :: "int \<Rightarrow> nat \<Rightarrow> ip_node \<Rightarrow> ip_node" where
  "unregisterHook priority hook n = n\<lparr>ipHooks := remove1 (priority, hook) (ipHooks n)\<rparr>"

definition fragmentPostRouting :: "ip_params \<Rightarrow> ip_env \<Rightarrow> ip_datagram \<Rightarrow> int option \<Rightarrow> u32 \<Rightarrow> ip_node \<Rightarrow> node_result" where
  "fragmentPostRouting par env dg out nextHopAddr n =
     (case datagramHook env POSTROUTING True dg (arrivalIf dg) out nextHopAddr n of (r, dg1, out1, nextHop1, n1) \<Rightarrow>
      if r = HookAccept then fragmentAndSendTo par env dg1 out1 nextHop1 n1 else Inr ([], n1))"

section \<open>Local delivery\<close>

definition findOutputGateForProtocol :: "int \<Rightarrow> (int \<times> int) list \<Rightarrow> int" where
  "findOutputGateForProtocol prot m = (case find (\<lambda>e. fst e = prot) m of Some e \<Rightarrow> snd e | None \<Rightarrow> - 2)"

definition getOutputGateForProtocol :: "int \<Rightarrow> (int \<times> int) list \<Rightarrow> int res" where
  "getOutputGateForProtocol prot m =
     (let ret = findOutputGateForProtocol prot m
      in if ret \<ge> - 1 then Inr ret else Inl (RuntimeError ''No output gate defined in protocolMapping for protocol number''))"

definition addProtocolMapping :: "int \<Rightarrow> int \<Rightarrow> (int \<times> int) list \<Rightarrow> (int \<times> int) list res" where
  "addProtocolMapping prot gateIndex m =
     (let registered = findOutputGateForProtocol prot m
      in if registered = - 2 then Inr (m @ [(prot, gateIndex)])
         else if registered = gateIndex then Inr m
         else Inl (RuntimeError ''The protocol should not register to gate index because it already registered''))"

text \<open>The payload with its control information, and the datagram without it.\<close>

definition decapsulateHL :: "ip_datagram \<Rightarrow> (ip_packet \<times> control_info \<times> ip_datagram) res" where
  "decapsulateHL dg =
     bindR (decapsulate dg) (\<lambda>(p, dg1).
     case p of
       None \<Rightarrow> Inl (RuntimeError ''null packet'')
     | Some packet \<Rightarrow>
         Inr (packet,
              \<lparr>ciDest = destAddress dg1, ciSrc = srcAddress dg1, ciInterface = (case arrivalIf dg1 of Some i \<Rightarrow> i | None \<Rightarrow> - 1), ciMulticastLoop = False,
               ciProtocol = transportProtocol dg1, ciTypeOfService = typeOfService dg1, ciTimeToLive = timeToLive dg1, ciDontFragment = False\<rparr>,
              dg1))"

definition handleIncomingICMP :: "ip_packet \<Rightarrow> control_info \<Rightarrow> ip_datagram \<Rightarrow> ip_node \<Rightarrow> node_result" where
  "handleIncomingICMP packet ci dg n =
     (case pkBody packet of
        IcmpMessage ty bogusProtocol \<Rightarrow>
          bindR (getOutputGateForProtocol (if ty = TYPE_REDIRECT \<or> ty = TYPE_UNREACHABLE \<or> ty = TYPE_TIME_EXCEEDED \<or> ty = TYPE_PARAMETER_PROBLEM
                                           then bogusProtocol else IP_PROT_ICMP) (protocolMap n)) (\<lambda>gateindex.
          Inr ([ToTransport gateindex packet ci dg], n))
      | _ \<Rightarrow> Inl (RuntimeError ''check_and_cast: not an ICMPMessage''))"

definition reassembleAndDeliverFinish :: "ip_env \<Rightarrow> ip_datagram \<Rightarrow> ip_node \<Rightarrow> node_result" where
  "reassembleAndDeliverFinish env dg n =
     (if transportProtocol dg = IP_PROT_ICMP
      then bindR (decapsulateHL dg) (\<lambda>(packet, ci, dg1).
           bindR (handleIncomingICMP packet ci dg1 n) (\<lambda>(outs, n1). Inr (outs, n1\<lparr>numLocalDeliver := numLocalDeliver n1 + 1\<rparr>)))
      else if transportProtocol dg = IP_PROT_IP
      then Inl (RuntimeError ''no gate preRoutingOut'')
      else
        let gateindex = findOutputGateForProtocol (transportProtocol dg) (protocolMap n) in
        if gateindex \<ge> 0 \<and> envPathOk env gateindex
        then bindR (decapsulateHL dg) (\<lambda>(packet, ci, dg1). Inr ([ToTransport gateindex packet ci dg1], n\<lparr>numLocalDeliver := numLocalDeliver n + 1\<rparr>))
        else case arrivalIf dg of
               None \<Rightarrow> Inl (RuntimeError ''null interface'')
             | Some i \<Rightarrow> sendErrorMessage dg i TYPE_UNREACHABLE CODE_PROTOCOL_UNREACHABLE n)"

definition localIn :: "ip_env \<Rightarrow> ip_datagram \<Rightarrow> ip_node \<Rightarrow> node_result" where
  "localIn env dg n =
     (case datagramHook env LOCALIN True dg (arrivalIf dg) None 0 n of (r, dg1, _, _, n1) \<Rightarrow>
      if r = HookAccept then reassembleAndDeliverFinish env dg1 n1 else Inr ([], n1))"

fun deliverOutputs :: "ip_env \<Rightarrow> ip_output list \<Rightarrow> ip_node \<Rightarrow> node_result" where
  "deliverOutputs env [] n = Inr ([], n)"
| "deliverOutputs env (x # xs) n =
     thenN (case x of
              LocalDeliver dg \<Rightarrow> localIn env dg n
            | IcmpError dg _ \<Rightarrow> sendErrorMessage dg (- 1) TYPE_TIME_EXCEEDED 0 n
            | ToOutput dg \<Rightarrow> Inr ([], n))
       (deliverOutputs env xs)"

text \<open>The fragment buffer asks for ICMP messages about fragments that are too old; then the hooks judge what is complete.\<close>

definition deliverLocally :: "ip_params \<Rightarrow> ip_env \<Rightarrow> ip_datagram \<Rightarrow> ip_node \<Rightarrow> node_result" where
  "deliverLocally par env dg n =
     bindR (reassembleAndDeliver (ipConfig par) (envDeserialize env) (\<lambda>_. True) (envNow env) dg (ndLayer n)) (\<lambda>(outs, l).
     deliverOutputs env outs (n\<lparr>ndLayer := l\<rparr>))"

section \<open>Routing\<close>

definition packetPorts :: "ip_env \<Rightarrow> ip_datagram \<Rightarrow> (int \<times> int) res" where
  "packetPorts env dg =
     (if transportProtocol dg = IP_PROT_UDP \<or> transportProtocol dg = IP_PROT_TCP
      then case encapsulated dg of
             None \<Rightarrow> Inl (RuntimeError ''null packet'')
           | Some p \<Rightarrow> (case envPorts env p of None \<Rightarrow> Inl (RuntimeError ''null packet'') | Some ports \<Rightarrow> Inr ports)
      else Inr (- 1, - 1))"

definition checkInputRule :: "ip_env \<Rightarrow> ip_datagram \<Rightarrow> ip_node \<Rightarrow> route_rule option res" where
  "checkInputRule env dg n =
     (if rulesOf False (ndTable n) \<noteq> []
      then bindR (packetPorts env dg) (\<lambda>(sport, dport).
           Inr (findRule False (transportProtocol dg) sport (srcAddress dg) dport (destAddress dg) (arrivalIf dg) (ndTable n)))
      else Inr None)"

definition checkOutputRule :: "ip_env \<Rightarrow> ip_datagram \<Rightarrow> int option \<Rightarrow> ip_node \<Rightarrow> (route_rule option \<times> ip_node) res" where
  "checkOutputRule env dg destIE n =
     (if rulesOf True (ndTable n) \<noteq> []
      then bindR (packetPorts env dg) (\<lambda>(sport, dport).
           bindR (if destIE \<noteq> None then Inr (destIE, ndTable n) else getInterfaceForDestAddr (destAddress dg) (ndTable n)) (\<lambda>(iface, t).
           Inr (findRule True (transportProtocol dg) sport (srcAddress dg) dport (destAddress dg) iface t, n\<lparr>ndTable := t\<rparr>)))
      else Inr (None, n))"

definition routeUnicastPacketFinish :: "ip_params \<Rightarrow> ip_env \<Rightarrow> ip_datagram \<Rightarrow> int option \<Rightarrow> u32 \<Rightarrow> ip_node \<Rightarrow> node_result" where
  "routeUnicastPacketFinish par env dg destIE nextHopAddr n = fragmentPostRouting par env dg destIE nextHopAddr (n\<lparr>numForwarded := numForwarded n + 1\<rparr>)"

text \<open>The output interface and the next hop of a datagram: those asked for, completed or found by routing.\<close>

definition unicastRoute :: "ip_datagram \<Rightarrow> int option \<Rightarrow> u32 \<Rightarrow> ip_node \<Rightarrow> (int option \<times> u32 \<times> ip_node) res" where
  "unicastRoute dg destIE requestedNextHop n =
     (case destIE of
        Some i \<Rightarrow>
          if \<not> isUnspecifiedAddress requestedNextHop then Inr (destIE, requestedNextHop, n)
          else bindR (interfaceOf destIE n) (\<lambda>ie.
               if ieBroadcast ie
               then bindR (findBestMatchingRoute (destAddress dg) (ndTable n)) (\<lambda>(re, t).
                    Inr (destIE, (case re of Some e \<Rightarrow> if rtInterface e = destIE then rtGateway e else 0 | None \<Rightarrow> 0), n\<lparr>ndTable := t\<rparr>))
               else Inr (destIE, 0, n))
      | None \<Rightarrow>
          bindR (findBestMatchingRoute (destAddress dg) (ndTable n)) (\<lambda>(re, t).
          Inr (case re of Some e \<Rightarrow> (rtInterface e, rtGateway e, n\<lparr>ndTable := t\<rparr>) | None \<Rightarrow> (None, 0, n\<lparr>ndTable := t\<rparr>))))"

text \<open>No route is an error; a datagram from the network passes the hooks on forwarding.\<close>

definition sendUnicast :: "ip_params \<Rightarrow> ip_env \<Rightarrow> ip_datagram \<Rightarrow> int option \<Rightarrow> int option \<Rightarrow> u32 \<Rightarrow> ip_node \<Rightarrow> node_result" where
  "sendUnicast par env dg fromIE out nextHopAddr n =
     (if out = None
      then sendErrorMessage dg (case fromIE of Some i \<Rightarrow> i | None \<Rightarrow> - 1) TYPE_UNREACHABLE 0 (n\<lparr>numUnroutable := numUnroutable n + 1\<rparr>)
      else if fromIE \<noteq> None
      then case datagramHook env FORWARD True dg fromIE out nextHopAddr n of (r, dg1, out1, nextHop1, n1) \<Rightarrow>
             if r = HookAccept then routeUnicastPacketFinish par env dg1 out1 nextHop1 n1 else Inr ([], n1)
      else routeUnicastPacketFinish par env dg out nextHopAddr n)"

definition routeUnicastPacket :: "ip_params \<Rightarrow> ip_env \<Rightarrow> ip_datagram \<Rightarrow> int option \<Rightarrow> int option \<Rightarrow> u32 \<Rightarrow> ip_node \<Rightarrow> node_result" where
  "routeUnicastPacket par env dg fromIE destIE requestedNextHop n =
     bindR (checkOutputRule env dg destIE n) (\<lambda>(rule, n1).
     if (case rule of Some r \<Rightarrow> ruKind r = RuleDrop | None \<Rightarrow> False) then Inr ([], n1\<lparr>numDropped := numDropped n1 + 1\<rparr>)
     else bindR (unicastRoute dg destIE requestedNextHop n1) (\<lambda>(out, nextHopAddr, n2). sendUnicast par env dg fromIE out nextHopAddr n2))"

fun broadcastToAll :: "ip_params \<Rightarrow> ip_env \<Rightarrow> ip_datagram \<Rightarrow> interface_entry list \<Rightarrow> ip_node \<Rightarrow> node_result" where
  "broadcastToAll par env dg [] n = Inr ([], n)"
| "broadcastToAll par env dg (ie # ies) n = thenN (fragmentPostRouting par env dg (Some (ieId ie)) BROADCAST_NEXT_HOP n) (broadcastToAll par env dg ies)"

definition routeLocalBroadcastPacket :: "ip_params \<Rightarrow> ip_env \<Rightarrow> ip_datagram \<Rightarrow> int option \<Rightarrow> ip_node \<Rightarrow> node_result" where
  "routeLocalBroadcastPacket par env dg destIE n =
     (if destIE \<noteq> None then fragmentPostRouting par env dg destIE BROADCAST_NEXT_HOP n
      else if forceBroadcast par then broadcastToAll par env dg (interfaces (ndTable n)) n
      else Inr ([], n\<lparr>numDropped := numDropped n + 1\<rparr>))"

text \<open>A copy for each output interface of the multicast route.\<close>

fun forwardCopies :: "ip_params \<Rightarrow> ip_env \<Rightarrow> ip_datagram \<Rightarrow> int \<Rightarrow> out_interface list \<Rightarrow> ip_node \<Rightarrow> node_result" where
  "forwardCopies par env dg fromIE [] n = Inr ([], n)"
| "forwardCopies par env dg fromIE (x # xs) n =
     thenN (if oiInterface x \<noteq> fromIE \<and> oiEnabled x
            then bindR (interfaceOf (Some (oiInterface x)) n) (\<lambda>ie.
                 if timeToLive dg \<le> ieTtlThreshold ie then Inr ([], n)
                 else if oiLeaf x \<and> destAddress dg \<notin> set (ieListeners ie) then Inr ([], n)
                 else fragmentPostRouting par env dg (Some (oiInterface x)) (destAddress dg) n)
            else Inr ([], n))
       (forwardCopies par env dg fromIE xs)"

definition forwardMulticastPacket :: "ip_params \<Rightarrow> ip_env \<Rightarrow> ip_datagram \<Rightarrow> int \<Rightarrow> ip_node \<Rightarrow> node_result" where
  "forwardMulticastPacket par env dg fromIE n =
     bindR (assertR (isMulticastAddress (destAddress dg)) ''destAddr.isMulticast()'') (\<lambda>_.
     bindR (assertR (\<not> isLinkLocalMulticast (destAddress dg)) ''!destAddr.isLinkLocalMulticast()'') (\<lambda>_.
     let n1 = n\<lparr>numMulticast := numMulticast n + 1\<rparr>;
         n2 = (if findBestMatchingMulticastRoute (srcAddress dg) (destAddress dg) (ndTable n1) = None
               then n1\<lparr>ndTable := envNewMulticast env dg (ndTable n1)\<rparr> else n1)
     in case findBestMatchingMulticastRoute (srcAddress dg) (destAddress dg) (ndTable n2) of
          None \<Rightarrow> Inr ([], n2\<lparr>numUnroutable := numUnroutable n2 + 1\<rparr>)
        | Some route \<Rightarrow>
            bindR (if mrIn route = None then getInterfaceForDestAddr (srcAddress dg) (ndTable n2) else Inr (mrIn route, ndTable n2)) (\<lambda>(expected, t).
            let n3 = n2\<lparr>ndTable := t\<rparr> in
            if expected \<noteq> Some fromIE then Inr ([], n3\<lparr>numDropped := numDropped n3 + 1\<rparr>)
            else forwardCopies par env dg fromIE (mrOut route) (n3\<lparr>numForwarded := numForwarded n3 + 1\<rparr>))))"

section \<open>Datagrams from the network\<close>

definition preroutingFinish :: "ip_params \<Rightarrow> ip_env \<Rightarrow> ip_datagram \<Rightarrow> int option \<Rightarrow> int option \<Rightarrow> u32 \<Rightarrow> ip_node \<Rightarrow> node_result" where
  "preroutingFinish par env dg fromIE destIE nextHopAddr n =
     bindR (interfaceOf fromIE n) (\<lambda>from1.
     let destAddr = destAddress dg in
     if ieLoopback from1 then deliverLocally par env dg n
     else if isMulticastAddress destAddr
     then
       thenN (if isMemberOfMulticastGroup destAddr from1 \<or> multicastForward (ndTable n) \<and> transportProtocol dg = IP_PROT_IGMP
              then deliverLocally par env dg n else Inr ([], n)) (\<lambda>n1.
       if \<not> multicastForward (ndTable n1) then Inr ([], n1)
       else if isLinkLocalMulticast destAddr then Inr ([], n1)
       else if timeToLive dg = 0 then Inr ([], n1)
       else forwardMulticastPacket par env dg (ieId from1) n1)
     else
       case isLocalAddress destAddr (ndTable n) of (isLocal, t) \<Rightarrow>
       let n1 = n\<lparr>ndTable := t\<rparr> in
       if isLocal \<or> isUnspecifiedAddress (ieAddr from1) then deliverLocally par env dg n1
       else
         let broadcastIE = (if isLimitedBroadcastAddress destAddr then None else findInterfaceByLocalBroadcastAddress destAddr t) in
         if isLimitedBroadcastAddress destAddr \<or> broadcastIE \<noteq> None
         then
           thenN (case broadcastIE of
                    Some b \<Rightarrow> if ieId b \<noteq> ieId from1 \<and> forwarding t then fragmentPostRouting par env dg (Some (ieId b)) BROADCAST_NEXT_HOP n1 else Inr ([], n1)
                  | None \<Rightarrow> Inr ([], n1))
             (deliverLocally par env dg)
         else if \<not> forwarding t then Inr ([], n1\<lparr>numDropped := numDropped n1 + 1\<rparr>)
         else routeUnicastPacket par env dg fromIE destIE nextHopAddr n1)"

text \<open>\<open>bitError\<close> is the error flag of the packet, \<open>rnd\<close> the value of \<open>dblrand()\<close>.\<close>

definition handleIncomingDatagram :: "ip_params \<Rightarrow> ip_env \<Rightarrow> bool \<Rightarrow> rat \<Rightarrow> ip_datagram \<Rightarrow> ip_node \<Rightarrow> node_result" where
  "handleIncomingDatagram par env bitError rnd datagram n =
     (case arrivalIf datagram of
        None \<Rightarrow> Inl (AssertFailure ''fromIE'')
      | Some fromIE \<Rightarrow>
          if bitError \<and> rnd * of_int (ipByteLength datagram) \<le> of_int (ipHeaderLength datagram)
          then sendErrorMessage datagram fromIE TYPE_PARAMETER_PROBLEM 0 n
          else
            let dg = datagram\<lparr>timeToLive := toShort (timeToLive datagram - 1)\<rparr> in
            bindR (checkInputRule env dg n) (\<lambda>rule.
            if map_option ruKind rule = Some RuleDrop then Inr ([], n\<lparr>numDropped := numDropped n + 1\<rparr>)
            else if map_option ruKind rule = Some RuleAccept
            then if \<not> isMulticastAddress (destAddress dg) then preroutingFinish par env dg (Some fromIE) (ruInterface (the rule)) 0 n
                 else forwardMulticastPacket par env dg fromIE n
            else
              case datagramHook env PREROUTING True dg (Some fromIE) None 0 n of (v, dg1, out, nextHop, n1) \<Rightarrow>
              if v = HookAccept then preroutingFinish par env dg1 (Some fromIE) out nextHop n1 else Inr ([], n1)))"

section \<open>Packets from the higher layers\<close>

definition firstLoopback :: "ip_node \<Rightarrow> interface_entry option" where
  "firstLoopback n = find ieLoopback (interfaces (ndTable n))"

definition determineOutgoingInterface :: "ip_datagram \<Rightarrow> int option \<Rightarrow> ip_node \<Rightarrow> (int option \<times> ip_node) res" where
  "determineOutgoingInterface dg multicastIFOption n =
     (if multicastIFOption \<noteq> None then Inr (multicastIFOption, n)
      else
        bindR (getInterfaceForDestAddr (destAddress dg) (ndTable n)) (\<lambda>(ie, t).
        let n1 = n\<lparr>ndTable := t\<rparr> in
        if ie \<noteq> None then Inr (ie, n1)
        else case getInterfaceByAddress (srcAddress dg) t of
               Some e \<Rightarrow> Inr (Some (ieId e), n1)
             | None \<Rightarrow> Inr (map_option ieId (find (\<lambda>e. ieMulticast e \<and> \<not> ieLoopback e) (interfaces t)), n1)))"

definition isLoopbackInterface :: "int option \<Rightarrow> ip_node \<Rightarrow> bool res" where
  "isLoopbackInterface i n = (if i = None then Inr False else bindR (interfaceOf i n) (\<lambda>ie. Inr (ieLoopback ie)))"

definition localOutMulticast :: "ip_params \<Rightarrow> ip_env \<Rightarrow> bool \<Rightarrow> ip_datagram \<Rightarrow> int option \<Rightarrow> ip_node \<Rightarrow> node_result" where
  "localOutMulticast par env multicastLoop dg destIE n =
     bindR (determineOutgoingInterface dg destIE n) (\<lambda>(out, n1).
     bindR (isLoopbackInterface out n1) (\<lambda>outLoopback.
     thenN (case firstLoopback n1 of
              Some lo \<Rightarrow> if multicastLoop \<and> \<not> outLoopback then fragmentPostRouting par env dg (Some (ieId lo)) (destAddress dg) n1 else Inr ([], n1)
            | None \<Rightarrow> Inr ([], n1)) (\<lambda>n2.
     if out \<noteq> None then fragmentPostRouting par env dg out (destAddress dg) (n2\<lparr>numMulticast := numMulticast n2 + 1\<rparr>)
     else Inr ([], n2\<lparr>numUnroutable := numUnroutable n2 + 1\<rparr>))))"

definition datagramLocalOut :: "ip_params \<Rightarrow> ip_env \<Rightarrow> bool \<Rightarrow> ip_datagram \<Rightarrow> int option \<Rightarrow> u32 \<Rightarrow> ip_node \<Rightarrow> node_result" where
  "datagramLocalOut par env multicastLoop dg destIE requestedNextHop n =
     (let destAddr = destAddress dg in
      if isMulticastAddress destAddr then localOutMulticast par env multicastLoop dg destIE n
      else
        case isLocalAddress destAddr (ndTable n) of (isLocal, t) \<Rightarrow>
        let n1 = n\<lparr>ndTable := t\<rparr> in
        if isLocal
        then
          bindR (isLoopbackInterface destIE n1) (\<lambda>outLoopback.
          let out = (if outLoopback then destIE else map_option ieId (firstLoopback n1)) in
          bindR (assertR (out \<noteq> None) ''destIE'') (\<lambda>_. routeUnicastPacket par env dg None out destAddr n1))
        else if isLimitedBroadcastAddress destAddr then routeLocalBroadcastPacket par env dg destIE n1
        else
          case isLocalBroadcastAddress destAddr t of (localBroadcast, t1) \<Rightarrow>
          if localBroadcast then routeLocalBroadcastPacket par env dg destIE (n1\<lparr>ndTable := t1\<rparr>)
          else routeUnicastPacket par env dg None destIE requestedNextHop (n1\<lparr>ndTable := t1\<rparr>))"

definition encapsulateHL :: "ip_params \<Rightarrow> ip_packet \<Rightarrow> control_info \<Rightarrow> ip_node \<Rightarrow> (ip_datagram \<times> ip_node) res" where
  "encapsulateHL par p ci n =
     (if \<not> isUnspecifiedAddress (ciSrc ci) \<and> getInterfaceByAddress (ciSrc ci) (ndTable n) = None
      then Inl (RuntimeError ''Wrong source address: no interface with such address'')
      else
        let ttl = (if ciTimeToLive ci > 0 then ciTimeToLive ci
                   else if isLinkLocalMulticast (ciDest ci) then 1
                   else if isMulticastAddress (ciDest ci) then toShort (defaultMCTimeToLive par)
                   else toShort (defaultTimeToLive par))
        in Inr (\<lparr>srcAddress = ciSrc ci, destAddress = ciDest ci, transportProtocol = ciProtocol ci, timeToLive = ttl, arrivalIf = None,
                 identification = wrapInt (curFragmentId n), moreFragments = False, dontFragment = ciDontFragment ci, fragmentOffset = 0, totalLengthField = - 1,
                 typeOfService = ciTypeOfService ci, totalPayloadLength = 0, ipHeaderLength = 20, ipByteLength = 20 + pkLength p, encapsulated = Some p\<rparr>,
                n\<lparr>curFragmentId := curFragmentId n + 1\<rparr>))"

text \<open>A higher layer hands down a packet with control information, or a datagram of its own.\<close>

datatype hl_packet = HlPacket ip_packet control_info | HlDatagram ip_datagram

definition fromHL :: "ip_params \<Rightarrow> hl_packet \<Rightarrow> ip_node \<Rightarrow> (ip_datagram \<times> int option \<times> bool \<times> ip_node) res" where
  "fromHL par packet n =
     (case packet of
        HlDatagram dg \<Rightarrow> Inr (dg, None, True, n)
      | HlPacket p ci \<Rightarrow>
          bindR (encapsulateHL par p ci n) (\<lambda>(dg, n1). Inr (dg, map_option ieId (getInterfaceById (ciInterface ci) (ndTable n1)), ciMulticastLoop ci, n1)))"

definition handlePacketFromHL :: "ip_params \<Rightarrow> ip_env \<Rightarrow> hl_packet \<Rightarrow> ip_node \<Rightarrow> node_result" where
  "handlePacketFromHL par env packet n =
     (if interfaces (ndTable n) = [] then Inr ([], n\<lparr>numDropped := numDropped n + 1\<rparr>)
      else
        bindR (fromHL par packet n) (\<lambda>(dg, destIE, loop, n1).
        case datagramHook env LOCALOUT loop dg None destIE 0 n1 of (r, dg1, out, nextHop, n2) \<Rightarrow>
        if r = HookAccept then datagramLocalOut par env loop dg1 out nextHop n2 else Inr ([], n2)))"

section \<open>Queued datagrams\<close>

text \<open>The datagram at position \<open>k\<close> of the queue.\<close>

definition removeQueued :: "nat \<Rightarrow> ip_node \<Rightarrow> ip_node" where
  "removeQueued k n = n\<lparr>queuedDatagrams := take k (queuedDatagrams n) @ drop (Suc k) (queuedDatagrams n)\<rparr>"

definition dropQueuedDatagram :: "nat \<Rightarrow> ip_node \<Rightarrow> ip_node" where
  "dropQueuedDatagram k n = (if k < length (queuedDatagrams n) then removeQueued k n else n)"

definition reinjectQueuedDatagram :: "ip_params \<Rightarrow> ip_env \<Rightarrow> nat \<Rightarrow> ip_node \<Rightarrow> node_result" where
  "reinjectQueuedDatagram par env k n =
     (if k < length (queuedDatagrams n)
      then
        let q = queuedDatagrams n ! k in
        bindR (case qdType q of
                 LOCALOUT \<Rightarrow> datagramLocalOut par env (qdLoop q) (qdDatagram q) (qdOut q) (qdNextHop q) n
               | PREROUTING \<Rightarrow> preroutingFinish par env (qdDatagram q) (qdIn q) (qdOut q) (qdNextHop q) n
               | POSTROUTING \<Rightarrow> fragmentAndSendTo par env (qdDatagram q) (qdOut q) (qdNextHop q) n
               | LOCALIN \<Rightarrow> reassembleAndDeliverFinish env (qdDatagram q) n
               | FORWARD \<Rightarrow> routeUnicastPacketFinish par env (qdDatagram q) (qdOut q) (qdNextHop q) n) (\<lambda>(outs, n1).
        Inr (outs, removeQueued k n1))
      else Inr ([], n))"

section \<open>Address resolution\<close>

definition arpResolutionCompleted :: "u32 \<Rightarrow> u64 \<Rightarrow> int \<Rightarrow> ip_node \<Rightarrow> node_output list \<times> ip_node" where
  "arpResolutionCompleted addr mac i n =
     (map (\<lambda>dg. ToNic dg i (Some mac)) (waiting addr n), n\<lparr>pendingPackets := eraseAddr addr (pendingPackets n)\<rparr>)"

definition arpResolutionTimedOut :: "u32 \<Rightarrow> ip_node \<Rightarrow> ip_node" where
  "arpResolutionTimedOut addr n = n\<lparr>pendingPackets := eraseAddr addr (pendingPackets n)\<rparr>"

text \<open>The signals of the ARP module reach \<open>receiveSignal\<close>; its packets come back as messages.\<close>

fun arpSignals :: "arp_output list \<Rightarrow> ip_node \<Rightarrow> node_output list \<times> ip_node" where
  "arpSignals [] n = ([], n)"
| "arpSignals (x # xs) n =
     (let (o1, n1) = (case x of
            ArpCompleted addr mac i \<Rightarrow> arpResolutionCompleted addr mac i n
          | ArpFailed addr i \<Rightarrow> ([], arpResolutionTimedOut addr n)
          | ArpSend p i mac \<Rightarrow> ([FromArp x], n)
          | ArpInitiated addr i \<Rightarrow> ([], n));
          (o2, n2) = arpSignals xs n1
      in (o1 @ o2, n2))"

definition arpMessage :: "ip_params \<Rightarrow> ip_env \<Rightarrow> arp_message \<Rightarrow> ip_node \<Rightarrow> node_result" where
  "arpMessage par env msg n =
     bindR (handleArpMessage (envNow env) (arpParams par) msg (ndTable n) (ndArp n)) (\<lambda>(outs, t, a).
     Inr (arpSignals outs (n\<lparr>ndTable := t, ndArp := a\<rparr>)))"

section \<open>The module\<close>

text \<open>What arrives: a registration of a protocol, a packet from the higher layers, an ARP packet from the ARP module or from the network, a datagram from the network.\<close>

datatype node_message =
    RegisterProtocol int int
  | TransportIn hl_packet
  | ArpIn arp_packet int u64
  | NetworkArp arp_packet int
  | NetworkIn ip_datagram bool rat

definition handleNodeMessage :: "ip_params \<Rightarrow> ip_env \<Rightarrow> node_message \<Rightarrow> ip_node \<Rightarrow> node_result" where
  "handleNodeMessage par env msg n =
     (case msg of
        RegisterProtocol prot gateIndex \<Rightarrow> bindR (addProtocolMapping prot gateIndex (protocolMap n)) (\<lambda>m. Inr ([], n\<lparr>protocolMap := m\<rparr>))
      | TransportIn p \<Rightarrow> if \<not> ipUp n then Inr ([], n) else handlePacketFromHL par env p n
      | ArpIn p i mac \<Rightarrow> if \<not> ipUp n then Inr ([], n) else bindR (interfaceOf (Some i) n) (\<lambda>ie. Inr ([ArpToNic p (ieId ie) mac], n))
      | NetworkArp p i \<Rightarrow> if \<not> ipUp n then Inr ([], n) else Inr ([ToArp p i], n)
      | NetworkIn dg bitError rnd \<Rightarrow> if \<not> ipUp n then Inr ([], n) else handleIncomingDatagram par env bitError rnd dg n)"

definition ipFlush :: "ip_node \<Rightarrow> ip_node" where
  "ipFlush n = n\<lparr>pendingPackets := [], queuedDatagrams := []\<rparr>"

definition ipStart :: "ip_node \<Rightarrow> ip_node" where
  "ipStart n = n\<lparr>ipUp := True\<rparr>"

definition ipStop :: "ip_node \<Rightarrow> ip_node" where
  "ipStop n = ipFlush (n\<lparr>ipUp := False\<rparr>)"

end
