(* ===== verification/Ip_Node.thy ===== *)
theory Ip_Node
  imports Ip_Forward
begin

unbundle bit_operations_syntax

text \<open>
  Properties of the IPv4 module together with the routing table and the ARP module: what waits for an address, what leaves the node, and
  how a datagram is forwarded.
\<close>

section \<open>Invariant\<close>

text \<open>Datagrams wait only for an address whose resolution is under way, and they may still travel.\<close>

definition pendingOk :: "ip_node \<Rightarrow> bool" where
  "pendingOk n \<longleftrightarrow> (\<forall>addr q. map_of (pendingPackets n) addr = Some q \<longrightarrow>
     q \<noteq> [] \<and> (\<forall>dg \<in> set q. 0 < timeToLive dg) \<and> \<not> isMulticastAddress addr \<and> \<not> isLimitedBroadcastAddress addr \<and>
     (\<exists>e. map_of (arpCache (ndArp n)) addr = Some e \<and> aePending e))"

lemma pendingOkD:
  assumes "pendingOk n" "map_of (pendingPackets n) addr = Some q"
  shows "q \<noteq> []" "d \<in> set q \<Longrightarrow> 0 < timeToLive d" "\<exists>e. map_of (arpCache (ndArp n)) addr = Some e \<and> aePending e"
    "\<not> isMulticastAddress addr" "\<not> isLimitedBroadcastAddress addr"
  using assms unfolding pendingOk_def by blast+

definition nodeOk :: "ip_params \<Rightarrow> ip_node \<Rightarrow> bool" where
  "nodeOk par n \<longleftrightarrow> 0 < retryCount (arpParams par) \<and> arpOk (arpParams par) (ndArp n) \<and> pendingOk n"

definition outOk :: "node_output \<Rightarrow> bool" where
  "outOk x = (case x of ToNic dg i mac \<Rightarrow> 0 < timeToLive dg | _ \<Rightarrow> True)"

definition safeN :: "ip_params \<Rightarrow> node_result \<Rightarrow> bool" where
  "safeN par r = okR (\<lambda>(outs, n). nodeOk par n \<and> (\<forall>x \<in> set outs. outOk x)) r"

lemma safeN_Inr [simp]: "safeN par (Inr (outs, n)) \<longleftrightarrow> nodeOk par n \<and> (\<forall>x \<in> set outs. outOk x)"
  by (simp add: safeN_def)

lemma safeN_Inl [simp]: "safeN par (Inl e)"
  by (simp add: safeN_def)

lemma safeN_bind: "(\<And>x. m = Inr x \<Longrightarrow> safeN par (f x)) \<Longrightarrow> safeN par (bindR m f)"
  by (cases m) simp_all

lemma safeN_then: "safeN par r \<Longrightarrow> (\<And>n. nodeOk par n \<Longrightarrow> safeN par (f n)) \<Longrightarrow> safeN par (thenN r f)"
  unfolding thenN_def safeN_def by (cases r) (auto simp: okR_iff bindR_eq_Inr)

lemma nodeOk_frame [simp]:
  "nodeOk par (n\<lparr>ndTable := t\<rparr>) = nodeOk par n" "nodeOk par (n\<lparr>ndLayer := l\<rparr>) = nodeOk par n" "nodeOk par (n\<lparr>ipHooks := hs\<rparr>) = nodeOk par n"
  "nodeOk par (n\<lparr>queuedDatagrams := qs\<rparr>) = nodeOk par n" "nodeOk par (n\<lparr>protocolMap := m\<rparr>) = nodeOk par n" "nodeOk par (n\<lparr>ipUp := b\<rparr>) = nodeOk par n"
  "nodeOk par (n\<lparr>curFragmentId := k\<rparr>) = nodeOk par n" "nodeOk par (n\<lparr>numMulticast := k\<rparr>) = nodeOk par n" "nodeOk par (n\<lparr>numLocalDeliver := k\<rparr>) = nodeOk par n"
  "nodeOk par (n\<lparr>numDropped := k\<rparr>) = nodeOk par n" "nodeOk par (n\<lparr>numUnroutable := k\<rparr>) = nodeOk par n" "nodeOk par (n\<lparr>numForwarded := k\<rparr>) = nodeOk par n"
  by (simp_all add: nodeOk_def pendingOk_def)

lemma outOk_simps [simp]:
  "outOk (ToNic dg i mac) = (0 < timeToLive dg)" "outOk (ToTransport g p c dg)" "outOk (IcmpToSource p k a dg)" "outOk (IcmpErrorOut p k dg)"
  "outOk (FromArp x)" "outOk (ToArp q i)" "outOk (ArpToNic q i m)"
  by (simp_all add: outOk_def)

section \<open>Sending\<close>

lemma multicast_mac:
  assumes "makeMulticastAddress addr = Inr m"
  shows "address m \<noteq> 0"
proof -
  have "bit (address m) 40" using assms
    by (auto simp: makeMulticastAddress_def bindR_eq_Inr newMAC_def setAddressByte_def getAddressSize_def Let_def bit_and_iff bit_or_iff bit_not_iff bit_push_bit_iff)
  then show ?thesis by auto
qed

lemma resolve_node:
  assumes r: "resolveNextHopMacAddress par env nextHop ie n = Inr (mac, outs, n1)" and ok: "nodeOk par n"
  shows "nodeOk par n1" "pendingPackets n1 = pendingPackets n" "\<forall>x \<in> set outs. outOk x"
    "mac = 0 \<Longrightarrow> (\<exists>e. map_of (arpCache (ndArp n1)) nextHop = Some e \<and> aePending e) \<and> \<not> isMulticastAddress nextHop \<and> \<not> isLimitedBroadcastAddress nextHop"
    "mac \<noteq> 0 \<Longrightarrow> map_of (pendingPackets n) nextHop = None \<or> nextHop = broadcastOf ie"
proof -
  have "nodeOk par n1 \<and> pendingPackets n1 = pendingPackets n \<and> (\<forall>x \<in> set outs. outOk x) \<and>
      (mac = 0 \<longrightarrow> (\<exists>e. map_of (arpCache (ndArp n1)) nextHop = Some e \<and> aePending e) \<and> \<not> isMulticastAddress nextHop \<and> \<not> isLimitedBroadcastAddress nextHop) \<and>
      (mac \<noteq> 0 \<longrightarrow> map_of (pendingPackets n) nextHop = None \<or> nextHop = broadcastOf ie)"
  proof (cases "isLimitedBroadcastAddress nextHop \<or> nextHop = broadcastOf ie \<or> isMulticastAddress nextHop")
    case True
    have "isMulticastAddress nextHop \<or> isLimitedBroadcastAddress nextHop \<Longrightarrow> map_of (pendingPackets n) nextHop = None"
      using pendingOkD(4,5) [of n nextHop] ok by (cases "map_of (pendingPackets n) nextHop") (auto simp: nodeOk_def)
    then show ?thesis using True r ok multicast_mac [of nextHop] by (auto simp: resolveNextHopMacAddress_def bindR_eq_Inr split: if_splits)
  next
    case False
    then obtain o1 a where a: "resolveL3Address (arpParams par) (envNow env) nextHop (ieId ie) (ndTable n) (ndArp n) = Inr (mac, o1, a)"
        and n1: "outs = map FromArp o1" "n1 = n\<lparr>ndArp := a\<rparr>"
      using r by (auto simp: resolveNextHopMacAddress_def bindR_eq_Inr)
    note res = resolve_ok [OF a conjunct1 [OF conjunct2 [OF ok [unfolded nodeOk_def]]] conjunct1 [OF ok [unfolded nodeOk_def]]]
    obtain e where e: "map_of (arpCache a) = (map_of (arpCache (ndArp n)))(nextHop \<mapsto> e)"
        "if mac = 0 then aePending e else \<not> aePending e \<and> aeMac e = mac \<and> map_of (arpCache (ndArp n)) nextHop = Some e" using res(2) by blast
    have p: "pendingOk n" using ok by (simp add: nodeOk_def)
    have pn: "mac \<noteq> 0 \<Longrightarrow> map_of (pendingPackets n) nextHop = None"
      using pendingOkD(3) [OF p, of nextHop] e(2) by (cases "map_of (pendingPackets n) nextHop") (auto split: if_splits)
    have "pendingOk n1" unfolding pendingOk_def n1
      using p [unfolded pendingOk_def] e pn by (cases "mac = 0") (auto simp: n1)
    then have "nodeOk par n1" using ok res(1) by (simp add: nodeOk_def n1)
    then show ?thesis using e pn False by (cases "mac = 0") (auto simp: n1)
  qed
  then show "nodeOk par n1" "pendingPackets n1 = pendingPackets n" "\<forall>x \<in> set outs. outOk x"
    "mac = 0 \<Longrightarrow> (\<exists>e. map_of (arpCache (ndArp n1)) nextHop = Some e \<and> aePending e) \<and> \<not> isMulticastAddress nextHop \<and> \<not> isLimitedBroadcastAddress nextHop"
    "mac \<noteq> 0 \<Longrightarrow> map_of (pendingPackets n) nextHop = None \<or> nextHop = broadcastOf ie"
    by blast+
qed

lemma sendDatagram_safe:
  assumes ok: "nodeOk par n" and ttl: "0 < timeToLive dg"
  shows "safeN par (sendDatagramToOutput par env dg ie nextHop n)"
proof (cases "ieBroadcast ie \<and> ieMac ie \<noteq> 0")
  case False
  then show ?thesis using ok ttl by (simp add: sendDatagramToOutput_def)
next
  case True
  have "safeN par (bindR (resolveNextHopMacAddress par env nh ie n) (\<lambda>(mac, outs, n1).
        if mac = 0 then Inr (outs, n1\<lparr>pendingPackets := putAddr nh (waiting nh n1 @ [dg]) (pendingPackets n1)\<rparr>)
        else bindR (assertR (map_of (pendingPackets n1) nh = None) msg) (\<lambda>_. Inr (outs @ [ToNic dg (ieId ie) (Some mac)], n1))))" for nh msg
  proof (rule safeN_bind)
    fix x assume x: "resolveNextHopMacAddress par env nh ie n = Inr x"
    obtain mac outs n1 where xs: "x = (mac, outs, n1)" by (cases x)
    note rn = resolve_node [OF x [unfolded xs] ok]
    show "safeN par (case x of (mac, outs, n1) \<Rightarrow> if mac = 0 then Inr (outs, n1\<lparr>pendingPackets := putAddr nh (waiting nh n1 @ [dg]) (pendingPackets n1)\<rparr>)
        else bindR (assertR (map_of (pendingPackets n1) nh = None) msg) (\<lambda>_. Inr (outs @ [ToNic dg (ieId ie) (Some mac)], n1)))"
    proof (cases "mac = 0")
      case True
      have "\<forall>d \<in> set (waiting nh n1). 0 < timeToLive d" using rn(1) pendingOkD(2) [of n1 nh] by (cases "map_of (pendingPackets n1) nh") (auto simp: nodeOk_def waiting_def)
      then have "nodeOk par (n1\<lparr>pendingPackets := putAddr nh (waiting nh n1 @ [dg]) (pendingPackets n1)\<rparr>)"
        using rn(1) rn(4) [OF True] ttl unfolding nodeOk_def pendingOk_def by auto
      then show ?thesis using True rn(3) by (simp add: xs)
    next
      case False
      then show ?thesis using rn(1,3) ttl by (auto simp: xs assertR_def)
    qed
  qed
  then show ?thesis using True unfolding sendDatagramToOutput_def by (auto intro: safeN_bind)
qed

lemma fragmentLoop_ttl: "fragmentLoop cfg dg p h k x = Inr fs \<Longrightarrow> f \<in> set fs \<Longrightarrow> timeToLive f = timeToLive dg"
proof (induction cfg dg p h k x arbitrary: fs rule: fragmentLoop.induct)
  case (1 cfg dg p h k x)
  show ?case
  proof (cases "x < pkLength p \<and> 0 < k")
    case True
    then obtain g gs where g: "makeFragment cfg dg p h k x = Inr g" "fragmentLoop cfg dg p h k (x + k) = Inr gs" "fs = g # gs"
      using "1.prems"(1) by (subst (asm) fragmentLoop.simps) (auto simp: bindR_eq_Inr)
    have "timeToLive g = timeToLive dg" using g(1) by (auto simp: makeFragment_def Let_def encapsulate_def bindR_eq_Inr split: if_splits)
    then show ?thesis using "1.IH" [OF True g(2)] "1.prems"(2) g(3) by auto
  next
    case False
    then show ?thesis using "1.prems" by (subst (asm) fragmentLoop.simps) auto
  qed
qed

lemma fragmentAndSend_ttl:
  assumes "fragmentAndSend cfg ie dg = Inr (outs, k)" "ToOutput f \<in> set outs"
  shows "0 < timeToLive f" "timeToLive f = timeToLive dg"
proof -
  let ?d = "if srcAddress dg = 0 then dg\<lparr>srcAddress := ifAddress ie\<rparr> else dg"
  have t: "timeToLive ?d = timeToLive dg" by simp
  have "0 < timeToLive f \<and> timeToLive f = timeToLive dg"
  proof (cases "timeToLive dg \<le> 0")
    case True
    then show ?thesis using assms by (auto simp: fragmentAndSend_def Let_def split: if_splits)
  next
    case False
    define d1 where "d1 = (case encapsulated ?d of None \<Rightarrow> ?d | Some p \<Rightarrow> ?d\<lparr>totalPayloadLength := of_int (pkLength p)\<rparr>)"
    have t1: "timeToLive d1 = timeToLive dg" by (simp add: d1_def split: option.split)
    show ?thesis
    proof (cases "ifMtu ie = 0 \<or> ipByteLength ?d \<le> ifMtu ie")
      case True
      then have "\<exists>g. outs = [ToOutput g] \<and> timeToLive g = timeToLive dg"
        using assms(1) False t unfolding fragmentAndSend_def Let_def by (auto simp: t1 split: if_splits option.splits)
      then show ?thesis using assms(2) False by auto
    next
      case big: False
      note u = assms(1) [unfolded fragmentAndSend_def Let_def, folded d1_def, unfolded if_not_P [OF big]]
      show ?thesis
      proof (cases "dontFragment d1")
        case True
        then show ?thesis using u False t assms(2) by auto
      next
        case nf: False
        obtain p d2 where d2: "decapsulate d1 = Inr (Some p, d2)" "\<exists>h k fs. fragmentLoop cfg d2 p h k 0 = Inr fs \<and> outs = map ToOutput fs"
          using u False t nf by (auto simp: bindR_eq_Inr split: option.splits if_splits)
        have "timeToLive d2 = timeToLive d1" using d2(1) by (auto simp: decapsulate_def Let_def split: option.splits if_splits)
        then show ?thesis using d2(2) assms(2) fragmentLoop_ttl t1 False by fastforce
      qed
    qed
  qed
  then show "0 < timeToLive f" "timeToLive f = timeToLive dg" by simp_all
qed

definition keepsOk :: "ip_params \<Rightarrow> (bool \<times> ip_node) res \<Rightarrow> bool" where
  "keepsOk par r = okR (\<lambda>(b, n). nodeOk par n) r"

lemma keepsOk_orElse: "keepsOk par r \<Longrightarrow> (\<And>n. nodeOk par n \<Longrightarrow> keepsOk par (f n)) \<Longrightarrow> keepsOk par (orElse r f)"
  unfolding keepsOk_def orElse_def by (cases r) auto

lemma keepsOk_Inr: "nodeOk par n \<Longrightarrow> keepsOk par (Inr (b, n))"
  by (simp add: keepsOk_def)

lemma possiblyLocalBroadcast_ok: "nodeOk par n \<Longrightarrow> keepsOk par (possiblyLocalBroadcast addr i n)"
  unfolding keepsOk_def possiblyLocalBroadcast_def by (auto simp: Let_def okR_iff bindR_eq_Inr split: prod.splits)

lemma errorSuppressed_ok: "nodeOk par n \<Longrightarrow> keepsOk par (errorSuppressed dg i n)"
  unfolding errorSuppressed_def broadcastOrMulticast_def
  by (intro keepsOk_orElse keepsOk_Inr possiblyLocalBroadcast_ok) (auto simp: keepsOk_def okR_iff)

lemma sendErrorMessage_safe: "nodeOk par n \<Longrightarrow> safeN par (sendErrorMessage dg i ty code n)"
  unfolding sendErrorMessage_def using errorSuppressed_ok [of par n dg i] by (intro safeN_bind) (auto simp: keepsOk_def Let_def)

lemma sendOutputs_safe: "nodeOk par n \<Longrightarrow> (\<And>f. ToOutput f \<in> set outs \<Longrightarrow> 0 < timeToLive f) \<Longrightarrow> safeN par (sendOutputs par env ie nextHop outs n)"
proof (induction outs arbitrary: n)
  case (Cons x xs)
  show ?case
  proof (cases x)
    case (ToOutput f)
    then show ?thesis using Cons.prems by (auto intro!: safeN_then sendDatagram_safe Cons.IH)
  next
    case (IcmpError d e)
    then show ?thesis using Cons.prems by (cases e) (auto intro!: safeN_then sendErrorMessage_safe Cons.IH)
  next
    case (LocalDeliver d)
    then show ?thesis using Cons.prems by (auto intro!: safeN_then Cons.IH)
  qed
qed simp

lemma fragmentAndSendTo_safe: "nodeOk par n \<Longrightarrow> safeN par (fragmentAndSendTo par env dg out nextHop n)"
  unfolding fragmentAndSendTo_def
  by (intro safeN_bind) (auto intro!: sendOutputs_safe safeN_bind dest: fragmentAndSend_ttl split: prod.split)

lemma datagramHook_safe: "datagramHook env ty b dg inIf out nextHop n = (r, dg1, out1, nextHop1, n1) \<Longrightarrow> nodeOk par n \<Longrightarrow> nodeOk par n1"
  by (auto simp: datagramHook_def split: prod.splits if_splits)

lemma safeN_hook:
  assumes "nodeOk par n" "\<And>dg1 out1 nextHop1 n1. nodeOk par n1 \<Longrightarrow> safeN par (f dg1 out1 nextHop1 n1)"
  shows "safeN par (case datagramHook env ty b dg inIf out nextHop n of (r, dg1, out1, nextHop1, n1) \<Rightarrow> if r = HookAccept then f dg1 out1 nextHop1 n1 else Inr ([], n1))"
  using assms datagramHook_safe [of env ty b dg inIf out nextHop n] by (auto split: prod.split)

lemma fragmentPostRouting_safe: "nodeOk par n \<Longrightarrow> safeN par (fragmentPostRouting par env dg out nextHop n)"
  unfolding fragmentPostRouting_def by (intro safeN_hook fragmentAndSendTo_safe)

section \<open>Local delivery\<close>

lemma reassembleAndDeliverFinish_safe: "nodeOk par n \<Longrightarrow> safeN par (reassembleAndDeliverFinish env dg n)"
  unfolding reassembleAndDeliverFinish_def Let_def
  by (auto simp: handleIncomingICMP_def bindR_eq_Inr split: option.split packet_body.splits intro!: safeN_bind sendErrorMessage_safe)

lemma localIn_safe: "nodeOk par n \<Longrightarrow> safeN par (localIn env dg n)"
  unfolding localIn_def by (intro safeN_hook reassembleAndDeliverFinish_safe)

lemma deliverOutputs_safe: "nodeOk par n \<Longrightarrow> safeN par (deliverOutputs env outs n)"
proof (induction outs arbitrary: n)
  case (Cons x xs)
  then show ?case by (cases x) (auto intro!: safeN_then localIn_safe sendErrorMessage_safe)
qed simp

lemma deliverLocally_safe: "nodeOk par n \<Longrightarrow> safeN par (deliverLocally par env dg n)"
  unfolding deliverLocally_def by (intro safeN_bind) (auto intro: deliverOutputs_safe split: prod.split)

section \<open>Routing\<close>

lemma checkOutputRule_ok: "checkOutputRule env dg out n = Inr (r, n1) \<Longrightarrow> nodeOk par n \<Longrightarrow> nodeOk par n1"
  by (auto simp: checkOutputRule_def bindR_eq_Inr split: if_splits)

lemma unicastRoute_ok: "unicastRoute dg out nextHop n = Inr (out1, nextHop1, n1) \<Longrightarrow> nodeOk par n \<Longrightarrow> nodeOk par n1"
  by (auto simp: unicastRoute_def bindR_eq_Inr split: if_splits option.splits)

lemma routeUnicastPacketFinish_safe: "nodeOk par n \<Longrightarrow> safeN par (routeUnicastPacketFinish par env dg out nextHop n)"
  unfolding routeUnicastPacketFinish_def by (rule fragmentPostRouting_safe) simp

lemma sendUnicast_safe: "nodeOk par n \<Longrightarrow> safeN par (sendUnicast par env dg fromIE out nextHop n)"
  unfolding sendUnicast_def using safeN_hook [OF _ routeUnicastPacketFinish_safe] by (simp add: sendErrorMessage_safe routeUnicastPacketFinish_safe)

lemma routeUnicastPacket_safe:
  assumes ok: "nodeOk par n"
  shows "safeN par (routeUnicastPacket par env dg fromIE destIE nextHop n)"
  unfolding routeUnicastPacket_def
  by (auto intro!: safeN_bind sendUnicast_safe dest!: checkOutputRule_ok [OF _ ok] unicastRoute_ok)

lemma broadcastToAll_safe: "nodeOk par n \<Longrightarrow> safeN par (broadcastToAll par env dg ies n)"
  by (induction ies arbitrary: n) (auto intro: safeN_then fragmentPostRouting_safe)

lemma routeLocalBroadcastPacket_safe: "nodeOk par n \<Longrightarrow> safeN par (routeLocalBroadcastPacket par env dg out n)"
  by (simp add: routeLocalBroadcastPacket_def fragmentPostRouting_safe broadcastToAll_safe)

lemma forwardCopies_safe: "nodeOk par n \<Longrightarrow> safeN par (forwardCopies par env dg fromIE xs n)"
proof (induction xs arbitrary: n)
  case (Cons x xs)
  then show ?case by (auto intro!: safeN_then safeN_bind fragmentPostRouting_safe)
qed simp

lemma forwardMulticastPacket_safe: "nodeOk par n \<Longrightarrow> safeN par (forwardMulticastPacket par env dg fromIE n)"
  unfolding forwardMulticastPacket_def Let_def
  by (auto intro!: safeN_bind forwardCopies_safe split: option.split)

section \<open>Messages\<close>

lemma preroutingFinish_safe:
  assumes ok: "nodeOk par n"
  shows "safeN par (preroutingFinish par env dg fromIE destIE nextHop n)"
  unfolding preroutingFinish_def Let_def
  by (rule safeN_bind)
     (auto simp: ok intro!: safeN_then deliverLocally_safe forwardMulticastPacket_safe fragmentPostRouting_safe routeUnicastPacket_safe split: prod.split option.split)

lemma handleIncomingDatagram_safe:
  assumes ok: "nodeOk par n"
  shows "safeN par (handleIncomingDatagram par env bitError rnd dg n)"
proof -
  note hook = safeN_hook [OF ok preroutingFinish_safe]
  show ?thesis unfolding handleIncomingDatagram_def Let_def
    by (auto simp: ok hook intro!: safeN_bind sendErrorMessage_safe preroutingFinish_safe forwardMulticastPacket_safe split: option.split simp del: split_paired_All)
qed

lemma determineOutgoingInterface_ok: "determineOutgoingInterface dg out n = Inr (out1, n1) \<Longrightarrow> nodeOk par n \<Longrightarrow> nodeOk par n1"
  by (auto simp: determineOutgoingInterface_def Let_def bindR_eq_Inr split: if_splits option.splits)

lemma localOutMulticast_safe: "nodeOk par n \<Longrightarrow> safeN par (localOutMulticast par env b dg out n)"
  unfolding localOutMulticast_def
  by (auto intro!: safeN_bind safeN_then fragmentPostRouting_safe dest!: determineOutgoingInterface_ok split: option.split)

lemma datagramLocalOut_safe:
  assumes ok: "nodeOk par n"
  shows "safeN par (datagramLocalOut par env loop dg destIE nextHop n)"
  unfolding datagramLocalOut_def Let_def
  by (auto simp: ok intro!: safeN_bind localOutMulticast_safe routeUnicastPacket_safe routeLocalBroadcastPacket_safe split: prod.split)

lemma fromHL_ok: "fromHL par p n = Inr (dg, out, b, n1) \<Longrightarrow> nodeOk par n \<Longrightarrow> nodeOk par n1"
  by (auto simp: fromHL_def encapsulateHL_def Let_def bindR_eq_Inr split: hl_packet.splits if_splits)

lemma handlePacketFromHL_safe:
  assumes ok: "nodeOk par n"
  shows "safeN par (handlePacketFromHL par env p n)"
proof -
  have hook: "safeN par (case datagramHook env LOCALOUT loop dg None destIE 0 n1 of (r, dg1, out, nextHop, n2) \<Rightarrow>
      if r = HookAccept then datagramLocalOut par env loop dg1 out nextHop n2 else Inr ([], n2))" if "nodeOk par n1" for loop dg destIE n1
    using safeN_hook [OF that datagramLocalOut_safe] .
  show ?thesis unfolding handlePacketFromHL_def by (auto simp: ok intro!: safeN_bind hook dest!: fromHL_ok)
qed

section \<open>Address resolution\<close>

lemma arpSignals_sends: "(\<forall>x \<in> set outs. \<exists>q j m. x = ArpSend q j m) \<Longrightarrow> arpSignals outs n = (map FromArp outs, n)"
  by (induction outs) (auto simp: Let_def)

lemma waiting_ttl: "pendingOk n \<Longrightarrow> d \<in> set (waiting addr n) \<Longrightarrow> 0 < timeToLive d"
  using pendingOkD(2) [of n addr] by (cases "map_of (pendingPackets n) addr") (auto simp: waiting_def)

lemma pendingOk_erase:
  assumes "pendingOk n" "\<And>x. x \<noteq> addr \<Longrightarrow> map_of (arpCache (ndArp n1)) x = map_of (arpCache (ndArp n)) x" "pendingPackets n1 = eraseAddr addr (pendingPackets n)"
  shows "pendingOk n1"
  unfolding pendingOk_def assms(3)
proof (intro allI impI)
  fix x q assume "map_of (eraseAddr addr (pendingPackets n)) x = Some q"
  then have x: "x \<noteq> addr" "map_of (pendingPackets n) x = Some q" by (auto split: if_splits)
  show "q \<noteq> [] \<and> (\<forall>dg \<in> set q. 0 < timeToLive dg) \<and> \<not> isMulticastAddress x \<and> \<not> isLimitedBroadcastAddress x \<and>
      (\<exists>e. map_of (arpCache (ndArp n1)) x = Some e \<and> aePending e)"
    using pendingOkD [OF assms(1) x(2)] assms(2) [OF x(1)] by simp
qed

lemma pendingOk_put:
  assumes "pendingOk n" "map_of (arpCache (ndArp n1)) = (map_of (arpCache (ndArp n)))(addr \<mapsto> e)" "aePending e" "pendingPackets n1 = pendingPackets n"
  shows "pendingOk n1"
  using assms unfolding pendingOk_def by auto

lemma arpPacket_safe:
  assumes ok: "nodeOk par n"
  shows "safeN par (arpMessage par env (ArpReceived p i) n)"
proof (cases "arpUp (ndArp n)")
  case False
  then show ?thesis using ok by (simp add: arpMessage_def handleArpMessage_def)
next
  case up: True
  show ?thesis
  proof (cases "processARPPacket (envNow env) (arpParams par) p i (ndTable n) (ndArp n)")
    case (Inl e)
    then show ?thesis using up by (simp add: arpMessage_def handleArpMessage_def)
  next
    case (Inr x)
    obtain outs t a where x: "x = (outs, t, a)" by (cases x)
    have aok: "arpOk (arpParams par) (ndArp n)" and p: "pendingOk n" and rc: "0 < retryCount (arpParams par)" using ok by (simp_all add: nodeOk_def)
    note pr = process_ok [OF Inr [unfolded x] aok]
    have m: "arpMessage par env (ArpReceived p i) n = Inr (arpSignals outs (n\<lparr>ndTable := t, ndArp := a\<rparr>))"
      using up Inr x by (simp add: arpMessage_def handleArpMessage_def)
    from pr(2) show ?thesis
    proof
      assume "arpCache a = arpCache (ndArp n) \<and> outs = []"
      then show ?thesis using p pr(1) rc m by (simp add: nodeOk_def pendingOk_def)
    next
      assume "\<exists>e j reply. map_of (arpCache a) = (map_of (arpCache (ndArp n)))(apSrcIp p \<mapsto> e) \<and> \<not> aePending e \<and> apSrcMac p \<noteq> 0 \<and>
        outs = ArpCompleted (apSrcIp p) (apSrcMac p) j # reply \<and> (\<forall>x \<in> set reply. \<exists>q j m. x = ArpSend q j m)"
      then obtain e j reply where e: "map_of (arpCache a) = (map_of (arpCache (ndArp n)))(apSrcIp p \<mapsto> e)"
        and o: "outs = ArpCompleted (apSrcIp p) (apSrcMac p) j # reply" and rep: "\<forall>x \<in> set reply. \<exists>q j m. x = ArpSend q j m" by blast
      let ?n1 = "n\<lparr>ndTable := t, ndArp := a, pendingPackets := eraseAddr (apSrcIp p) (pendingPackets n)\<rparr>"
      have "arpMessage par env (ArpReceived p i) n = Inr (map (\<lambda>dg. ToNic dg j (Some (apSrcMac p))) (waiting (apSrcIp p) n) @ map FromArp reply, ?n1)"
        using m o arpSignals_sends [OF rep] by (simp add: arpResolutionCompleted_def waiting_def)
      moreover have "pendingOk ?n1" by (rule pendingOk_erase [OF p]) (use e in auto)
      ultimately show ?thesis using pr(1) rc waiting_ttl [OF p] by (auto simp: nodeOk_def)
    qed
  qed
qed

lemma arpTimer_safe:
  assumes ok: "nodeOk par n" and e: "map_of (arpCache (ndArp n)) addr = Some e" "aeTimer e \<noteq> None"
  shows "safeN par (arpMessage par env (ArpTimer addr) n)"
proof (cases "arpUp (ndArp n) \<and> isOk (requestTimedOut (arpParams par) (envNow env) addr (ndTable n) (ndArp n))")
  case False
  then show ?thesis by (auto simp: arpMessage_def handleArpMessage_def isOk_def split: sum.splits)
next
  case True
  then obtain outs a where r: "requestTimedOut (arpParams par) (envNow env) addr (ndTable n) (ndArp n) = Inr (outs, a)" by (auto simp: isOk_iff)
  have aok: "arpOk (arpParams par) (ndArp n)" and p: "pendingOk n" and rc: "0 < retryCount (arpParams par)" using ok by (simp_all add: nodeOk_def)
  have "entryOk (arpParams par) e" using aok e(1) by (simp add: arpOk_def)
  then have pe: "aePending e" using e(2) by (auto simp: entryOk_def split: if_splits)
  note to = timedOut_ok [OF r aok e(1) pe]
  have m: "arpMessage par env (ArpTimer addr) n = Inr (arpSignals outs (n\<lparr>ndTable := ndTable n, ndArp := a\<rparr>))"
    using True r by (simp add: arpMessage_def handleArpMessage_def)
  from to(2) show ?thesis
  proof
    assume "\<exists>e'. map_of (arpCache a) = (map_of (arpCache (ndArp n)))(addr \<mapsto> e') \<and> aePending e' \<and> (\<forall>x \<in> set outs. \<exists>q j m. x = ArpSend q j m)"
    then obtain e' where e': "map_of (arpCache a) = (map_of (arpCache (ndArp n)))(addr \<mapsto> e')" "aePending e'" "\<forall>x \<in> set outs. \<exists>q j m. x = ArpSend q j m" by blast
    have "pendingOk (n\<lparr>ndTable := ndTable n, ndArp := a\<rparr>)" by (rule pendingOk_put [OF p _ e'(2)]) (use e'(1) in simp_all)
    then show ?thesis using m arpSignals_sends [OF e'(3)] to(1) rc by (auto simp: nodeOk_def)
  next
    assume f: "map_of (arpCache a) = (map_of (arpCache (ndArp n)))(addr := None) \<and> outs = [ArpFailed addr (aeInterface e)]"
    let ?n1 = "n\<lparr>ndTable := ndTable n, ndArp := a, pendingPackets := eraseAddr addr (pendingPackets n)\<rparr>"
    have "pendingOk ?n1" by (rule pendingOk_erase [OF p]) (use f in auto)
    then show ?thesis using m f to(1) rc by (auto simp: nodeOk_def arpResolutionTimedOut_def)
  qed
qed

lemma handleNodeMessage_safe:
  assumes ok: "nodeOk par n"
  shows "safeN par (handleNodeMessage par env msg n)"
  unfolding handleNodeMessage_def
  by (auto simp: ok intro!: safeN_bind handlePacketFromHL_safe handleIncomingDatagram_safe split: node_message.split)

lemma nodeOk_removeQueued [simp]: "nodeOk par (removeQueued k n) = nodeOk par n"
  by (simp add: removeQueued_def)

lemma reinject_safe:
  assumes ok: "nodeOk par n"
  shows "safeN par (reinjectQueuedDatagram par env k n)"
proof -
  let ?q = "queuedDatagrams n ! k"
  let ?r = "case qdType ?q of
       LOCALOUT \<Rightarrow> datagramLocalOut par env (qdLoop ?q) (qdDatagram ?q) (qdOut ?q) (qdNextHop ?q) n
     | PREROUTING \<Rightarrow> preroutingFinish par env (qdDatagram ?q) (qdIn ?q) (qdOut ?q) (qdNextHop ?q) n
     | POSTROUTING \<Rightarrow> fragmentAndSendTo par env (qdDatagram ?q) (qdOut ?q) (qdNextHop ?q) n
     | LOCALIN \<Rightarrow> reassembleAndDeliverFinish env (qdDatagram ?q) n
     | FORWARD \<Rightarrow> routeUnicastPacketFinish par env (qdDatagram ?q) (qdOut ?q) (qdNextHop ?q) n"
  have "safeN par ?r"
    using ok by (simp add: datagramLocalOut_safe preroutingFinish_safe fragmentAndSendTo_safe reassembleAndDeliverFinish_safe routeUnicastPacketFinish_safe split: hook_type.split)
  then show ?thesis using ok unfolding reinjectQueuedDatagram_def Let_def by (cases ?r) auto
qed

section \<open>Steps of a node\<close>

text \<open>
  All that can happen to the module: messages, ARP packets and timers, calls of hooks, changes of the routing table and of the interfaces,
  shutdown and start of the node.
\<close>

inductive node_step :: "ip_params \<Rightarrow> ip_node \<Rightarrow> node_output list \<Rightarrow> ip_node \<Rightarrow> bool" for par where
  message: "handleNodeMessage par env msg n = Inr (outs, n') \<Longrightarrow> node_step par n outs n'"
| arp_packet: "arpMessage par env (ArpReceived p i) n = Inr (outs, n') \<Longrightarrow> node_step par n outs n'"
| arp_timer: "map_of (arpCache (ndArp n)) addr = Some e \<Longrightarrow> aeTimer e \<noteq> None \<Longrightarrow> arpMessage par env (ArpTimer addr) n = Inr (outs, n') \<Longrightarrow> node_step par n outs n'"
| reinject: "reinjectQueuedDatagram par env k n = Inr (outs, n') \<Longrightarrow> node_step par n outs n'"
| drop: "node_step par n [] (dropQueuedDatagram k n)"
| register_hook: "node_step par n [] (registerHook priority hook n)"
| unregister_hook: "node_step par n [] (unregisterHook priority hook n)"
| table: "node_step par n [] (n\<lparr>ndTable := t\<rparr>)"
| stop: "node_step par n [] (ipStop (n\<lparr>ndArp := arpStop (ndArp n)\<rparr>))"
| start: "arpStart (ndArp n) = Inr a \<Longrightarrow> node_step par n [] (ipStart (n\<lparr>ndArp := a\<rparr>))"

inductive node_reachable :: "ip_params \<Rightarrow> ip_node \<Rightarrow> bool" for par where
  initial: "pendingPackets n = [] \<Longrightarrow> arpCache (ndArp n) = [] \<Longrightarrow> node_reachable par n"
| step: "node_reachable par n \<Longrightarrow> node_step par n outs n' \<Longrightarrow> node_reachable par n'"

lemma node_step_ok:
  assumes "node_step par n outs n'" "nodeOk par n"
  shows "nodeOk par n' \<and> (\<forall>x \<in> set outs. outOk x)"
  using assms(1)
proof cases
  case (message env msg)
  then show ?thesis using handleNodeMessage_safe [OF assms(2), of env msg] by simp
next
  case (arp_packet env p i)
  then show ?thesis using arpPacket_safe [OF assms(2), of env p i] by simp
next
  case (arp_timer addr e env)
  then show ?thesis using arpTimer_safe [OF assms(2), of addr e env] by simp
next
  case (reinject env k)
  then show ?thesis using reinject_safe [OF assms(2), of env k] by simp
next
  case (stop)
  then show ?thesis using assms(2) by (simp add: ipStop_def ipFlush_def arpStop_def nodeOk_def pendingOk_def arpOk_def)
next
  case (start a)
  then show ?thesis using assms(2) by (auto simp: ipStart_def arpStart_def nodeOk_def pendingOk_def arpOk_def assertR_def bindR_eq_Inr)
qed (use assms(2) in \<open>simp_all add: dropQueuedDatagram_def registerHook_def unregisterHook_def\<close>)

lemma node_reachable_ok: "node_reachable par n \<Longrightarrow> 0 < retryCount (arpParams par) \<Longrightarrow> nodeOk par n"
proof (induction rule: node_reachable.induct)
  case (initial n)
  then show ?case by (simp add: nodeOk_def pendingOk_def arpOk_def)
qed (use node_step_ok in blast)

section \<open>What waits and what is sent\<close>

text \<open>
  C12: waiting for an address. In every state that can arise, whatever hooks, routing protocols and packets do, datagrams wait only for an
  address that the ARP module is resolving, with a timer running; hence, when a next hop (other than the broadcast address of the interface)
  has a MAC address, no datagram waits for it, and the assertion of \<open>sendDatagramToOutput\<close> holds.
\<close>

theorem waiting_means_pending:
  assumes "0 < retryCount (arpParams par)" "node_reachable par n"
  shows "(\<forall>addr q. map_of (pendingPackets n) addr = Some q \<longrightarrow> q \<noteq> [] \<and> (\<exists>e. map_of (arpCache (ndArp n)) addr = Some e \<and> aePending e \<and> aeTimer e \<noteq> None)) \<and>
     (\<forall>env dg ie nextHop nh x. chooseNextHop par dg ie nextHop = Inr nh \<and> nh \<noteq> broadcastOf ie \<and> resolveNextHopMacAddress par env nh ie n = Inr x \<longrightarrow>
        isOk (sendDatagramToOutput par env dg ie nextHop n))"
proof (intro conjI allI impI)
  have ok: "nodeOk par n" by (rule node_reachable_ok [OF assms(2,1)])
  then have p: "pendingOk n" and a: "arpOk (arpParams par) (ndArp n)" by (simp_all add: nodeOk_def)
  fix addr q assume q: "map_of (pendingPackets n) addr = Some q"
  show "q \<noteq> []" by (rule pendingOkD(1) [OF p q])
  obtain e where e: "map_of (arpCache (ndArp n)) addr = Some e" "aePending e" using pendingOkD(3) [OF p q] by blast
  then have "aeTimer e \<noteq> None" using a by (auto simp: arpOk_def entryOk_def)
  then show "\<exists>e. map_of (arpCache (ndArp n)) addr = Some e \<and> aePending e \<and> aeTimer e \<noteq> None" using e by blast
next
  have ok: "nodeOk par n" by (rule node_reachable_ok [OF assms(2,1)])
  fix env dg ie nextHop nh x
  assume h: "chooseNextHop par dg ie nextHop = Inr nh \<and> nh \<noteq> broadcastOf ie \<and> resolveNextHopMacAddress par env nh ie n = Inr x"
  obtain mac outs n1 where x: "x = (mac, outs, n1)" by (cases x)
  note rn = resolve_node [OF _ ok, of env nh ie mac outs n1]
  show "isOk (sendDatagramToOutput par env dg ie nextHop n)" using h x rn(2,5) by (auto simp: sendDatagramToOutput_def)
qed

text \<open>
  C27: nothing that has expired is sent. Whatever happens in a state that can arise, every datagram that is handed to a network interface
  has a positive time to live, those that waited for an address or were queued and changed by a hook included.
\<close>

theorem sent_datagrams_alive:
  assumes "0 < retryCount (arpParams par)" "node_reachable par n" "node_step par n outs n'" "ToNic dg i mac \<in> set outs"
  shows "0 < timeToLive dg"
  using node_step_ok [OF assms(3) node_reachable_ok [OF assms(2,1)]] assms(4) by fastforce

fun sendEach :: "ip_params \<Rightarrow> ip_env \<Rightarrow> interface_entry \<Rightarrow> u32 \<Rightarrow> ip_datagram list \<Rightarrow> ip_node \<Rightarrow> node_result" where
  "sendEach par env ie nextHop [] n = Inr ([], n)"
| "sendEach par env ie nextHop (dg # dgs) n = thenN (sendDatagramToOutput par env dg ie nextHop n) (sendEach par env ie nextHop dgs)"

text \<open>An interface of an IEEE 802 LAN, and an address of a host on it.\<close>

definition lanHop :: "interface_entry \<Rightarrow> u32 \<Rightarrow> bool" where
  "lanHop ie nh \<longleftrightarrow> ieBroadcast ie \<and> ieMac ie \<noteq> 0 \<and> nh \<noteq> 0 \<and> nh \<noteq> broadcastOf ie \<and> \<not> isLimitedBroadcastAddress nh \<and> \<not> isMulticastAddress nh"

lemma send_lan:
  assumes "lanHop ie nh"
  shows "sendDatagramToOutput par env dg ie nh n =
     bindR (resolveL3Address (arpParams par) (envNow env) nh (ieId ie) (ndTable n) (ndArp n)) (\<lambda>(mac, outs, a).
     if mac = 0 then Inr (map FromArp outs, n\<lparr>ndArp := a, pendingPackets := putAddr nh (waiting nh n @ [dg]) (pendingPackets n)\<rparr>)
     else bindR (assertR (map_of (pendingPackets n) nh = None) ''IPv4-ARP error: nextHopAddr found in ARP table, but IPv4 queue for nextHopAddr not empty'') (\<lambda>_.
          Inr (map FromArp outs @ [ToNic dg (ieId ie) (Some mac)], n\<lparr>ndArp := a\<rparr>)))"
  using assms
  by (cases "resolveL3Address (arpParams par) (envNow env) nh (ieId ie) (ndTable n) (ndArp n)")
     (auto simp: lanHop_def sendDatagramToOutput_def chooseNextHop_def isUnspecifiedAddress_def resolveNextHopMacAddress_def waiting_def split: prod.split)

lemma send_pending:
  assumes "lanHop ie nh" "map_of (arpCache (ndArp n)) nh = Some e" "aePending e"
  shows "sendDatagramToOutput par env dg ie nh n = Inr ([], n\<lparr>pendingPackets := putAddr nh (waiting nh n @ [dg]) (pendingPackets n)\<rparr>)"
  using assms by (simp add: send_lan resolveL3Address_def)

lemma waiting_put [simp]: "waiting nh (n\<lparr>pendingPackets := putAddr nh q ps\<rparr>) = q"
  by (simp add: waiting_def)

lemma sendEach_pending:
  assumes "lanHop ie nh" "map_of (arpCache (ndArp n)) nh = Some e" "aePending e"
  shows "\<exists>ps. sendEach par env ie nh dgs n = Inr ([], n\<lparr>pendingPackets := ps\<rparr>) \<and> waiting nh (n\<lparr>pendingPackets := ps\<rparr>) = waiting nh n @ dgs \<and>
     (\<forall>x. x \<noteq> nh \<longrightarrow> map_of ps x = map_of (pendingPackets n) x)"
  using assms(2)
proof (induction dgs arbitrary: n)
  case Nil
  show ?case by (intro exI [of _ "pendingPackets n"]) simp
next
  case (Cons dg dgs)
  let ?n1 = "n\<lparr>pendingPackets := putAddr nh (waiting nh n @ [dg]) (pendingPackets n)\<rparr>"
  have "map_of (arpCache (ndArp ?n1)) nh = Some e" using Cons.prems by simp
  from Cons.IH [OF this] obtain ps where ps: "sendEach par env ie nh dgs ?n1 = Inr ([], ?n1\<lparr>pendingPackets := ps\<rparr>)"
      "waiting nh (?n1\<lparr>pendingPackets := ps\<rparr>) = waiting nh ?n1 @ dgs" "\<forall>x. x \<noteq> nh \<longrightarrow> map_of ps x = map_of (pendingPackets ?n1) x" by blast
  then show ?case using send_pending [OF assms(1) Cons.prems assms(3)]
    by (intro exI [of _ ps]) (simp add: thenN_def waiting_def)
qed

text \<open>The first datagram for a host that is not known starts the resolution.\<close>

definition requested :: "ip_params \<Rightarrow> ip_env \<Rightarrow> interface_entry \<Rightarrow> u32 \<Rightarrow> arp_state \<Rightarrow> arp_state" where
  "requested par env ie nh a = a\<lparr>numRequestsSent := numRequestsSent a + 1,
     arpCache := putAddr nh \<lparr>aeInterface = ieId ie, aePending = True, aeMac = 0, aeLastUpdate = 0, aeRetries = 0, aeTimer = Some (envNow env + retryTimeout (arpParams par))\<rparr> (arpCache a),
     numResolutions := numResolutions a + 1\<rparr>"

lemma send_first:
  assumes "lanHop ie nh" "ieAddr ie \<noteq> 0" "getInterfaceById (ieId ie) (ndTable n) = Some ie" "map_of (arpCache (ndArp n)) nh = None" "map_of (pendingPackets n) nh = None"
  shows "sendDatagramToOutput par env dg ie nh n =
     Inr ([FromArp (requestFor nh ie), FromArp (ArpInitiated nh (ieId ie))], n\<lparr>ndArp := requested par env ie nh (ndArp n), pendingPackets := putAddr nh [dg] (pendingPackets n)\<rparr>)"
proof -
  have mac: "ieMac ie \<noteq> 0" using assms(1) by (simp add: lanHop_def)
  have "resolveL3Address (arpParams par) (envNow env) nh (ieId ie) (ndTable n) (ndArp n) = Inr (0, [requestFor nh ie, ArpInitiated nh (ieId ie)], requested par env ie nh (ndArp n))"
    using assms(4) sendARPRequest_ok [OF assms(3) mac assms(2)] by (simp add: resolveL3Address_def initiateARPResolution_def Let_def requested_def)
  then show ?thesis using assms(5) by (simp add: send_lan [OF assms(1)] waiting_def)
qed

text \<open>A reply of the host that is asked for, to an address of this node.\<close>

definition replyFrom :: "u32 \<Rightarrow> u64 \<Rightarrow> arp_packet \<Rightarrow> int \<Rightarrow> routing_table \<Rightarrow> bool" where
  "replyFrom nh mac p i t \<longleftrightarrow> apSrcIp p = nh \<and> apSrcMac p = mac \<and> nh \<noteq> 0 \<and> mac \<noteq> 0 \<and> apOpcode p = ARP_REPLY \<and> getInterfaceById i t \<noteq> None \<and> fst (isLocalAddress (apDestIp p) t)"

lemma reply_sends:
  assumes up: "arpUp (ndArp n)" and e: "map_of (arpCache (ndArp n)) nh = Some e" "aePending e" and p: "replyFrom nh mac p i (ndTable n)"
  shows "\<exists>n2. arpMessage par env (ArpReceived p i) n = Inr (map (\<lambda>dg. ToNic dg (aeInterface e) (Some mac)) (waiting nh n), n2) \<and>
     map_of (pendingPackets n2) = (map_of (pendingPackets n))(nh := None) \<and>
     map_of (arpCache (ndArp n2)) = (map_of (arpCache (ndArp n)))(nh \<mapsto> e\<lparr>aePending := False, aeTimer := None, aeRetries := 0, aeMac := mac, aeLastUpdate := envNow env\<rparr>)"
proof -
  obtain t where t: "isLocalAddress (apDestIp p) (ndTable n) = (True, t)" using p by (cases "isLocalAddress (apDestIp p) (ndTable n)") (auto simp: replyFrom_def)
  let ?e = "e\<lparr>aePending := False, aeTimer := None, aeRetries := 0, aeMac := mac, aeLastUpdate := envNow env\<rparr>"
  let ?a = "(ndArp n)\<lparr>arpCache := putAddr nh ?e (arpCache (ndArp n))\<rparr>"
  have "processARPPacket (envNow env) (arpParams par) p i (ndTable n) (ndArp n) = Inr ([ArpCompleted nh mac (aeInterface e)], t, ?a)"
    using p e t by (auto simp: processARPPacket_def replyFrom_def isUnspecifiedAddress_def updateARPCache_def addressRecognized_def Let_def)
  then have "arpMessage par env (ArpReceived p i) n =
      Inr (map (\<lambda>dg. ToNic dg (aeInterface e) (Some mac)) (waiting nh n), n\<lparr>ndTable := t, ndArp := ?a, pendingPackets := eraseAddr nh (pendingPackets n)\<rparr>)"
    using up by (simp add: arpMessage_def handleArpMessage_def arpResolutionCompleted_def waiting_def)
  then show ?thesis by (intro exI [of _ "n\<lparr>ndTable := t, ndArp := ?a, pendingPackets := eraseAddr nh (pendingPackets n)\<rparr>"]) simp
qed

text \<open>
  C26: datagrams that wait are sent in order. Any number of datagrams for a host whose address is not known cause one ARP request and wait; when
  the host answers they are all sent to its MAC address, in the order in which they were handed over, and nothing else is sent; none of them waits any longer,
  those for other hosts still do, and until the entry is too old the next datagram is sent at once.
\<close>

theorem waiting_sent_in_order:
  assumes "0 < retryCount (arpParams par)" "node_reachable par n" "arpUp (ndArp n)"
    and "lanHop ie nh" "ieAddr ie \<noteq> 0" "getInterfaceById (ieId ie) (ndTable n) = Some ie" "map_of (arpCache (ndArp n)) nh = None"
    and "replyFrom nh mac p i (ndTable n)" "envNow env'' \<le> envNow env' + cacheTimeout (arpParams par)"
  shows "\<exists>n1 n2. sendEach par env ie nh (dg # dgs) n = Inr ([FromArp (requestFor nh ie), FromArp (ArpInitiated nh (ieId ie))], n1) \<and>
     arpMessage par env' (ArpReceived p i) n1 = Inr (map (\<lambda>d. ToNic d (ieId ie) (Some mac)) (dg # dgs), n2) \<and>
     map_of (pendingPackets n2) = map_of (pendingPackets n) \<and> map_of (pendingPackets n2) nh = None \<and>
     sendDatagramToOutput par env'' d ie nh n2 = Inr ([ToNic d (ieId ie) (Some mac)], n2)"
proof -
  have ok: "nodeOk par n" by (rule node_reachable_ok [OF assms(2,1)])
  have none: "map_of (pendingPackets n) nh = None"
    using pendingOkD(3) [of n nh] ok assms(7) by (cases "map_of (pendingPackets n) nh") (auto simp: nodeOk_def)
  let ?e = "\<lparr>aeInterface = ieId ie, aePending = True, aeMac = 0, aeLastUpdate = 0, aeRetries = 0, aeTimer = Some (envNow env + retryTimeout (arpParams par))\<rparr>"
  let ?n0 = "n\<lparr>ndArp := requested par env ie nh (ndArp n), pendingPackets := putAddr nh [dg] (pendingPackets n)\<rparr>"
  note first = send_first [OF assms(4-7) none, where par = par and env = env and dg = dg]
  have c0: "map_of (arpCache (ndArp ?n0)) nh = Some ?e" by (simp add: requested_def)
  from sendEach_pending [OF assms(4) c0, where par = par and env = env and dgs = dgs] obtain ps where ps: "sendEach par env ie nh dgs ?n0 = Inr ([], ?n0\<lparr>pendingPackets := ps\<rparr>)"
      "waiting nh (?n0\<lparr>pendingPackets := ps\<rparr>) = dg # dgs" "\<forall>x. x \<noteq> nh \<longrightarrow> map_of ps x = map_of (pendingPackets n) x" by auto
  let ?n1 = "?n0\<lparr>pendingPackets := ps\<rparr>"
  have r: "replyFrom nh mac p i (ndTable ?n1)" "arpUp (ndArp ?n1)" "map_of (arpCache (ndArp ?n1)) nh = Some ?e" "aePending ?e" using assms(3,8) c0 by (simp_all add: requested_def)
  from reply_sends [OF r(2-4) r(1), of par env'] obtain n2 where n2:
    "arpMessage par env' (ArpReceived p i) ?n1 = Inr (map (\<lambda>d. ToNic d (ieId ie) (Some mac)) (dg # dgs), n2)"
    "map_of (pendingPackets n2) = (map_of ps)(nh := None)"
    "map_of (arpCache (ndArp n2)) nh = Some (?e\<lparr>aePending := False, aeTimer := None, aeMac := mac, aeLastUpdate := envNow env'\<rparr>)"
    using ps(2) by auto
  have "map_of (pendingPackets n2) x = map_of (pendingPackets n) x" for x using n2(2) ps(3) none by (cases "x = nh") auto
  moreover have "mac \<noteq> 0" using assms(8) by (simp add: replyFrom_def)
  then have "sendDatagramToOutput par env'' d ie nh n2 = Inr ([ToNic d (ieId ie) (Some mac)], n2)"
    using n2(2,3) assms(9) by (simp add: send_lan [OF assms(4)] resolveL3Address_def)
  ultimately show ?thesis using first ps(1) n2(1) none by (intro exI [of _ ?n1] exI [of _ n2]) (auto simp: thenN_def)
qed

text \<open>
  C35: a next hop on two interfaces. While an address is being resolved on one interface, a datagram that is routed to the same next hop
  over another interface waits with the others, and when the answer comes it is sent over the interface of the request, not over its own.
\<close>

theorem sent_on_other_interface:
  assumes "lanHop ie nh" "map_of (arpCache (ndArp n)) nh = Some e" "aePending e" "aeInterface e \<noteq> ieId ie" "arpUp (ndArp n)" "replyFrom nh mac p i (ndTable n)"
  shows "\<exists>n1 outs n2. sendDatagramToOutput par env dg ie nh n = Inr ([], n1) \<and> arpMessage par env' (ArpReceived p i) n1 = Inr (outs, n2) \<and>
     ToNic dg (aeInterface e) (Some mac) \<in> set outs \<and> (\<forall>d j m. ToNic d j m \<in> set outs \<longrightarrow> j \<noteq> ieId ie) \<and> map_of (pendingPackets n2) nh = None"
proof -
  let ?n1 = "n\<lparr>pendingPackets := putAddr nh (waiting nh n @ [dg]) (pendingPackets n)\<rparr>"
  have r: "arpUp (ndArp ?n1)" "map_of (arpCache (ndArp ?n1)) nh = Some e" "replyFrom nh mac p i (ndTable ?n1)" using assms by simp_all
  from reply_sends [OF r(1,2) assms(3) r(3), of par env'] obtain n2 where n2:
    "arpMessage par env' (ArpReceived p i) ?n1 = Inr (map (\<lambda>dg. ToNic dg (aeInterface e) (Some mac)) (waiting nh n @ [dg]), n2)" "map_of (pendingPackets n2) nh = None" by auto
  then show ?thesis using send_pending [OF assms(1-3)] assms(4)
    by (intro exI [of _ ?n1] exI [of _ "map (\<lambda>dg. ToNic dg (aeInterface e) (Some mac)) (waiting nh n @ [dg])"] exI [of _ n2]) auto
qed

section \<open>Forwarding\<close>

lemma thenN_last [simp]: "thenN r (\<lambda>n. Inr ([], n)) = r"
  by (cases r) (auto simp: thenN_def)

lemma thenN_outputs [simp]: "thenN r (sendOutputs par env ie nextHop []) = r"
  by (cases r) (auto simp: thenN_def)

lemma toShort_small: "- (2 ^ 15) \<le> x \<Longrightarrow> x < 2 ^ 15 \<Longrightarrow> toShort x = x"
  by (simp add: toShort_def)

lemma hook_none [simp]: "ipHooks n = [] \<Longrightarrow> datagramHook env ty b dg inIf out nextHop n = (HookAccept, dg, out, nextHop, n)"
  by (simp add: datagramHook_def)

text \<open>A datagram from another node that is to be forwarded: it came over an ordinary interface, and its destination is neither this node nor a broadcast.\<close>

definition transit :: "ip_datagram \<Rightarrow> ip_node \<Rightarrow> bool" where
  "transit dg n \<longleftrightarrow>
     (\<exists>i from1. arrivalIf dg = Some i \<and> getInterfaceById i (ndTable n) = Some from1 \<and> \<not> ieLoopback from1 \<and> ieAddr from1 \<noteq> 0) \<and>
     \<not> isMulticastAddress (destAddress dg) \<and> \<not> isLimitedBroadcastAddress (destAddress dg) \<and> \<not> fst (isLocalAddress (destAddress dg) (ndTable n)) \<and>
     findInterfaceByLocalBroadcastAddress (destAddress dg) (ndTable n) = None"

definition plainNode :: "ip_node \<Rightarrow> bool" where
  "plainNode n \<longleftrightarrow> ipHooks n = [] \<and> inputRules (ndTable n) = [] \<and> outputRules (ndTable n) = [] \<and> forwarding (ndTable n)"

lemma isLocalAddress_table: "isLocalAddress d t = (b, t1) \<Longrightarrow> t1 = t\<lparr>localAddresses := localAddresses t1\<rparr>"
  by (auto simp: isLocalAddress_def Let_def split: if_splits)

lemma getInterface_cong: "interfaces t = interfaces t1 \<Longrightarrow> getInterfaceById i t = getInterfaceById i t1"
  by (simp add: getInterfaceById_def)

lemma transit_routed:
  assumes "transit dg n" "plainNode n" "tableOk (ndTable n)" "- (2 ^ 15) < timeToLive dg" "timeToLive dg < 2 ^ 15"
  shows "\<exists>t. handleIncomingDatagram par env False rnd dg n =
       sendUnicast par env (dg\<lparr>timeToLive := timeToLive dg - 1\<rparr>) (arrivalIf dg)
         (case searchRoute (destAddress dg) (ndTable n) of Some e \<Rightarrow> rtInterface e | None \<Rightarrow> None)
         (case searchRoute (destAddress dg) (ndTable n) of Some e \<Rightarrow> rtGateway e | None \<Rightarrow> 0) (n\<lparr>ndTable := t\<rparr>) \<and>
     interfaces t = interfaces (ndTable n) \<and> routes t = routes (ndTable n)"
proof -
  let ?d = "dg\<lparr>timeToLive := timeToLive dg - 1\<rparr>" and ?a = "destAddress dg"
  obtain i from1 where i: "arrivalIf dg = Some i" "getInterfaceById i (ndTable n) = Some from1" "\<not> ieLoopback from1" "ieAddr from1 \<noteq> 0"
    using assms(1) by (auto simp: transit_def)
  obtain t1 where t1: "isLocalAddress ?a (ndTable n) = (False, t1)" using assms(1) by (cases "isLocalAddress ?a (ndTable n)") (auto simp: transit_def)
  have tt: "t1 = (ndTable n)\<lparr>localAddresses := localAddresses t1\<rparr>" by (rule isLocalAddress_table [OF t1])
  then have same: "interfaces t1 = interfaces (ndTable n)" "routes t1 = routes (ndTable n)" "forwarding t1 = forwarding (ndTable n)" "outputRules t1 = outputRules (ndTable n)"
    by (metis routing_table.select_convs routing_table.surjective routing_table.update_convs)+
  have "tableOk t1" using assms(3) by (subst tt) (rule tableOk_frame)
  then obtain t where t: "findBestMatchingRoute ?a t1 = Inr (searchRoute ?a t1, t)" "t = t1\<lparr>routingCache := routingCache t\<rparr>" using lookup_result by blast
  have "searchRoute ?a t1 = searchRoute ?a (ndTable n)" using same(2) by (simp add: searchRoute_def)
  moreover have "handleIncomingDatagram par env False rnd dg n = preroutingFinish par env ?d (Some i) None 0 n"
    using i(1) assms(2,4,5) by (simp add: handleIncomingDatagram_def toShort_small checkInputRule_def rulesOf_def plainNode_def Let_def)
  moreover have "findInterfaceByLocalBroadcastAddress ?a t1 = None" using assms(1) same(1) by (simp add: transit_def findInterfaceByLocalBroadcastAddress_def)
  then have "preroutingFinish par env ?d (Some i) None 0 n = routeUnicastPacket par env ?d (Some i) None 0 (n\<lparr>ndTable := t1\<rparr>)"
    using i assms(1,2) t1 same by (simp add: preroutingFinish_def interfaceOf_def transit_def plainNode_def isUnspecifiedAddress_def Let_def)
  moreover have "checkOutputRule env ?d None (n\<lparr>ndTable := t1\<rparr>) = Inr (None, n\<lparr>ndTable := t1\<rparr>)"
    using assms(2) same by (simp add: checkOutputRule_def rulesOf_def plainNode_def)
  ultimately have "handleIncomingDatagram par env False rnd dg n = sendUnicast par env ?d (Some i)
         (case searchRoute ?a (ndTable n) of Some e \<Rightarrow> rtInterface e | None \<Rightarrow> None)
         (case searchRoute ?a (ndTable n) of Some e \<Rightarrow> rtGateway e | None \<Rightarrow> 0) (n\<lparr>ndTable := t\<rparr>)"
    using t(1) by (simp add: routeUnicastPacket_def unicastRoute_def split: option.split)
  moreover have "interfaces t = interfaces t1" "routes t = routes t1" using t(2) by (metis routing_table.select_convs routing_table.surjective routing_table.update_convs)+
  ultimately show ?thesis using i(1) same by auto
qed

definition bestRoute :: "u32 \<Rightarrow> routing_table \<Rightarrow> ip_route \<Rightarrow> bool" where
  "bestRoute d t e \<longleftrightarrow> e \<in> candidates d t \<and> (\<forall>x \<in> candidates d t. getNetmaskLength (rtMask x) < getNetmaskLength (rtMask e) \<or>
     getNetmaskLength (rtMask x) = getNetmaskLength (rtMask e) \<and> rankLe (routeRank (useAdminDist t) e) (routeRank (useAdminDist t) x))"

lemma searchRoute_best:
  assumes "tableOk t"
  shows "searchRoute d t = Some e \<Longrightarrow> bestRoute d t e" "searchRoute d t = None \<longleftrightarrow> candidates d t = {}"
proof -
  have v: "vectorOk t" using assms by (simp add: tableOk_def)
  show "searchRoute d t = Some e \<Longrightarrow> bestRoute d t e"
    using best_route [OF v] unfolding bestRoute_def by (auto simp: searchRoute_def candidates_def find_Some_iff)
  show "searchRoute d t = None \<longleftrightarrow> candidates d t = {}" by (auto simp: searchRoute_def candidates_def find_None_iff)
qed

lemma fragmentAndSendTo_whole:
  assumes "getInterfaceById j (ndTable n) = Some ie" "srcAddress dg \<noteq> 0" "ieMtu ie = 0 \<or> ipByteLength dg \<le> ieMtu ie" "\<not> freqHop (ipConfig par)"
  shows "fragmentAndSendTo par env dg (Some j) nextHop n =
     (if timeToLive dg \<le> 0 then sendErrorMessage dg (- 1) 11 0 (n\<lparr>numDropped := numDropped n + 1\<rparr>) else sendDatagramToOutput par env dg ie nextHop n)"
  using assms by (auto simp: fragmentAndSendTo_def interfaceOf_def fragmentAndSend_def Let_def)


text \<open>A rule that accepts a link-local multicast sends it to \<open>forwardMulticastPacket\<close>, whose assertion then fails.\<close>

lemma linkLocal_multicast: "isLinkLocalMulticast a \<Longrightarrow> isMulticastAddress a"
proof -
  assume "isLinkLocalMulticast a"
  then have "(a AND 0xFFFFFF00) AND 0xF0000000 = 0xE0000000" by (simp add: isLinkLocalMulticast_def)
  then show ?thesis by (simp add: isMulticastAddress_def and.assoc)
qed

lemma accepted_linkLocal_fails:
  assumes "arrivalIf dg = Some i" "checkInputRule env (dg\<lparr>timeToLive := toShort (timeToLive dg - 1)\<rparr>) n = Inr (Some r)" "ruKind r = RuleAccept" "isLinkLocalMulticast (destAddress dg)"
  shows "handleIncomingDatagram par env False rnd dg n = Inl (AssertFailure ''!destAddr.isLinkLocalMulticast()'')"
  using assms linkLocal_multicast [OF assms(4)] by (simp add: handleIncomingDatagram_def forwardMulticastPacket_def Let_def)

section \<open>Witnesses\<close>

definition exSecond :: interface_entry where
  "exSecond = exInterface\<lparr>ieId := 6, ieName := ''eth1'', ieMac := 0x0AAA00000002, ieAddr := 0x0A010001, ieNetmask := 0xFFFF0000\<rparr>"

definition exIpPar :: ip_params where
  "exIpPar = \<lparr>ipConfig = exConfig, arpParams = exArpPar, defaultTimeToLive = 32, defaultMCTimeToLive = 32, forceBroadcast = False, useProxyARP = False\<rparr>"

definition exIpEnv :: "simtime \<Rightarrow> ip_env" where
  "exIpEnv t = \<lparr>envNow = t, envDeserialize = (\<lambda>_ _ _. None), envHook = (\<lambda>_ _ d _ out nextHop. (HookAccept, d, out, nextHop)), envPorts = (\<lambda>_. None),
     envPathOk = (\<lambda>_. True), envNewMulticast = (\<lambda>_ t. t)\<rparr>"

definition exNode :: ip_node where
  "exNode = \<lparr>ndTable = (exTable False 0x0A010000 0xFFFF0000)\<lparr>interfaces := [exInterface, exSecond]\<rparr>, ndArp = exArp, ndLayer = \<lparr>lastCheckTime = 0, fragbuf = []\<rparr>,
     pendingPackets = [], ipHooks = [], queuedDatagrams = [], protocolMap = [], ipUp = True, curFragmentId = 0, numMulticast = 0, numLocalDeliver = 0, numDropped = 0,
     numUnroutable = 0, numForwarded = 0\<rparr>"

definition exTransit :: ip_datagram where
  "exTransit = exDatagram\<lparr>srcAddress := 0x0A000009, destAddress := 0x0A010203, arrivalIf := Some 5\<rparr>"

definition exReply :: arp_packet where
  "exReply = \<lparr>apOpcode = ARP_REPLY, apSrcMac = 0x0AAA00000009, apSrcIp = 0x0A010203, apDestMac = 0x0AAA00000002, apDestIp = 0x0A010001\<rparr>"

lemma ex_simps:
  "lanHop exSecond 0x0A010203" "ieAddr exSecond \<noteq> 0" "getInterfaceById (ieId exSecond) (ndTable exNode) = Some exSecond" "0 < retryCount (arpParams exIpPar)"
  "replyFrom 0x0A010203 0x0AAA00000009 exReply 6 (ndTable exNode)" "node_reachable exIpPar exNode" "arpUp (ndArp exNode)" "map_of (arpCache (ndArp exNode)) 0x0A010203 = None"
  by (simp_all add: lanHop_def exSecond_def exInterface_def broadcastOf_def makeBroadcastAddress_def isLimitedBroadcastAddress_def isMulticastAddress_def exNode_def exTable_def emptyTable_def
      getInterfaceById_def exIpPar_def exArpPar_def replyFrom_def exReply_def isLocalAddress_def node_reachable.initial exArp_def)

theorem waiting_sent_in_order_witness:
  "\<exists>n1 n2. sendEach exIpPar (exIpEnv 1) exSecond 0x0A010203 [exTransit, exTransit\<lparr>identification := 6\<rparr>] exNode =
       Inr ([FromArp (requestFor 0x0A010203 exSecond), FromArp (ArpInitiated 0x0A010203 (ieId exSecond))], n1) \<and>
     arpMessage exIpPar (exIpEnv 2) (ArpReceived exReply 6) n1 =
       Inr (map (\<lambda>d. ToNic d (ieId exSecond) (Some 0x0AAA00000009)) [exTransit, exTransit\<lparr>identification := 6\<rparr>], n2) \<and>
     map_of (pendingPackets n2) = map_of (pendingPackets exNode) \<and> map_of (pendingPackets n2) 0x0A010203 = None \<and>
     sendDatagramToOutput exIpPar (exIpEnv 3) exTransit exSecond 0x0A010203 n2 = Inr ([ToNic exTransit (ieId exSecond) (Some 0x0AAA00000009)], n2)"
  by (rule waiting_sent_in_order [OF ex_simps(4,6,7,1,2,3,8,5)]) (simp add: exIpEnv_def exIpPar_def exArpPar_def)

text \<open>A node in which a datagram waits, after one that a hook had queued was handed back.\<close>

definition exQueued :: ip_node where
  "exQueued = exNode\<lparr>queuedDatagrams := [\<lparr>qdDatagram = exTransit, qdIn = Some 5, qdOut = Some 6, qdNextHop = 0x0A010203, qdType = POSTROUTING, qdLoop = True\<rparr>]\<rparr>"

definition exWaiting :: ip_node where
  "exWaiting = exNode\<lparr>ndArp := requested exIpPar (exIpEnv 1) exSecond 0x0A010203 exArp, pendingPackets := [(0x0A010203, [exTransit])]\<rparr>"

lemma exWaiting_reachable: "node_reachable exIpPar exWaiting"
proof -
  have "node_reachable exIpPar exQueued" by (rule node_reachable.initial) (simp_all add: exQueued_def exNode_def exArp_def)
  moreover have "reinjectQueuedDatagram exIpPar (exIpEnv 1) 0 exQueued = Inr ([FromArp (requestFor 0x0A010203 exSecond), FromArp (ArpInitiated 0x0A010203 (ieId exSecond))], exWaiting)"
  proof -
    have ie: "getInterfaceById 6 (ndTable exQueued) = Some exSecond" using ex_simps(3) by (simp add: exQueued_def exSecond_def)
    have "fragmentAndSendTo exIpPar (exIpEnv 1) exTransit (Some 6) 0x0A010203 exQueued = sendDatagramToOutput exIpPar (exIpEnv 1) exTransit exSecond 0x0A010203 exQueued"
      using fragmentAndSendTo_whole [OF ie, of exTransit exIpPar] by (simp add: exTransit_def exDatagram_def exSecond_def exInterface_def exIpPar_def exConfig_def)
    also have "\<dots> = Inr ([FromArp (requestFor 0x0A010203 exSecond), FromArp (ArpInitiated 0x0A010203 (ieId exSecond))],
        exQueued\<lparr>ndArp := requested exIpPar (exIpEnv 1) exSecond 0x0A010203 (ndArp exQueued), pendingPackets := putAddr 0x0A010203 [exTransit] (pendingPackets exQueued)\<rparr>)"
      using ex_simps by (intro send_first) (simp_all add: exQueued_def exNode_def)
    finally show ?thesis by (simp add: reinjectQueuedDatagram_def removeQueued_def exQueued_def exWaiting_def exNode_def)
  qed
  ultimately show ?thesis using node_step.reinject by (blast intro: node_reachable.step)
qed

theorem waiting_means_pending_witness:
  "map_of (pendingPackets exWaiting) 0x0A010203 = Some [exTransit] \<and>
   (\<exists>e. map_of (arpCache (ndArp exWaiting)) 0x0A010203 = Some e \<and> aePending e \<and> aeTimer e \<noteq> None) \<and>
   isOk (sendDatagramToOutput exIpPar (exIpEnv 2) exTransit exSecond 0x0A010203 exWaiting)"
proof -
  note w = waiting_means_pending [OF ex_simps(4) exWaiting_reachable]
  have q: "map_of (pendingPackets exWaiting) 0x0A010203 = Some [exTransit]" by (simp add: exWaiting_def)
  have hop: "chooseNextHop exIpPar exTransit exSecond 0x0A010203 = Inr 0x0A010203" "0x0A010203 \<noteq> broadcastOf exSecond"
    using ex_simps(1) by (simp_all add: lanHop_def chooseNextHop_def isUnspecifiedAddress_def)
  have "resolveNextHopMacAddress exIpPar (exIpEnv 2) 0x0A010203 exSecond exWaiting = Inr (0, [], exWaiting)"
    using ex_simps(1) by (simp add: lanHop_def resolveNextHopMacAddress_def resolveL3Address_def exWaiting_def requested_def)
  then show ?thesis using q hop w by blast
qed

theorem sent_datagrams_alive_witness:
  "\<exists>n2. node_step exIpPar exWaiting [ToNic exTransit 6 (Some 0x0AAA00000009)] n2 \<and> 0 < timeToLive exTransit"
proof -
  have e: "map_of (arpCache (ndArp exWaiting)) 0x0A010203 =
      Some \<lparr>aeInterface = ieId exSecond, aePending = True, aeMac = 0, aeLastUpdate = 0, aeRetries = 0, aeTimer = Some (envNow (exIpEnv 1) + retryTimeout (arpParams exIpPar))\<rparr>"
    by (simp add: exWaiting_def requested_def)
  have up: "arpUp (ndArp exWaiting)" "replyFrom 0x0A010203 0x0AAA00000009 exReply 6 (ndTable exWaiting)" "ieId exSecond = 6"
    using ex_simps(5) by (simp_all add: exWaiting_def requested_def exArp_def exSecond_def)
  obtain n2 where "arpMessage exIpPar (exIpEnv 2) (ArpReceived exReply 6) exWaiting = Inr ([ToNic exTransit 6 (Some 0x0AAA00000009)], n2)"
    using reply_sends [OF up(1) e _ up(2), of exIpPar "exIpEnv 2"] up(3) by (auto simp: exWaiting_def waiting_def)
  then have st: "node_step exIpPar exWaiting [ToNic exTransit 6 (Some 0x0AAA00000009)] n2" by (rule node_step.arp_packet)
  then show ?thesis using sent_datagrams_alive [OF ex_simps(4) exWaiting_reachable st] by auto
qed

definition exBusy :: ip_node where
  "exBusy = exNode\<lparr>ndArp := requested exIpPar (exIpEnv 1) exInterface 0x0A010203 exArp\<rparr>"

theorem sent_on_other_interface_witness:
  "\<exists>n1 outs n2. sendDatagramToOutput exIpPar (exIpEnv 1) exTransit exSecond 0x0A010203 exBusy = Inr ([], n1) \<and>
     arpMessage exIpPar (exIpEnv 2) (ArpReceived exReply 6) n1 = Inr (outs, n2) \<and> ToNic exTransit 5 (Some 0x0AAA00000009) \<in> set outs \<and>
     ToNic exTransit 6 (Some 0x0AAA00000009) \<notin> set outs \<and> map_of (pendingPackets n2) 0x0A010203 = None"
proof -
  have e: "map_of (arpCache (ndArp exBusy)) 0x0A010203 =
      Some \<lparr>aeInterface = 5, aePending = True, aeMac = 0, aeLastUpdate = 0, aeRetries = 0, aeTimer = Some (envNow (exIpEnv 1) + retryTimeout (arpParams exIpPar))\<rparr>"
    by (simp add: exBusy_def requested_def exInterface_def)
  have up: "arpUp (ndArp exBusy)" "replyFrom 0x0A010203 0x0AAA00000009 exReply 6 (ndTable exBusy)" "ieId exSecond = 6"
    using ex_simps(5) by (simp_all add: exBusy_def requested_def exArp_def exSecond_def)
  show ?thesis using sent_on_other_interface [OF ex_simps(1) e _ _ up(1,2), of exIpPar "exIpEnv 1" exTransit "exIpEnv 2"] up(3) by fastforce
qed

text \<open>Of the two routes that match, the one with the longer prefix is the best.\<close>

lemma exBest: "bestRoute 0x0A010203 (ndTable exNode) e \<longleftrightarrow> e = exRoute 1 0x0A010000 0xFFFF0000 6"
proof -
  have "makeNetmaskBits 16 = 0xFFFF0000" "makeNetmaskBits 8 = 0xFF000000" by (simp_all add: makeNetmaskBits_def)
  then have len: "getNetmaskLength 0xFFFF0000 = 16" "getNetmaskLength 0xFF000000 = 8" using netmask_length [of 16] netmask_length [of 8] by auto
  let ?x = "exRoute 0 0x0A000000 0xFF000000 5" and ?y = "exRoute 1 0x0A010000 0xFFFF0000 6"
  have "set (routes (ndTable exNode)) = {?x, ?y}" by (auto simp: exNode_def exTable_def insertUpper_def)
  moreover have "rtValid ?x" "routeMatches 0x0A010203 ?x" "rtValid ?y" "routeMatches 0x0A010203 ?y" by (simp_all add: exRoute_def routeMatches_def maskedAddrAreEqual_def)
  ultimately have "candidates 0x0A010203 (ndTable exNode) = {?x, ?y}" unfolding candidates_def by blast
  moreover have "getNetmaskLength (rtMask ?x) < getNetmaskLength (rtMask ?y)" using len by (simp add: exRoute_def)
  ultimately show ?thesis unfolding bestRoute_def rankLe_def by auto
qed


end
