(* ===== verification/Spec2Isabelle.thy ===== *)
theory Spec2Isabelle
  imports Tcp_Transfer Tcp_Serializer Tcp_ByteRcvQueue Tcp_MsgQueue Eth_Relay Ip_Node
begin

text \<open>
  TCP, IPv4 and Ethernet switching in the INET framework.

  The program. INET simulates network protocols on the OMNeT++ kernel. This development models the path of data through a node
  and through the network, from the application's bytes to the frames of a switch:

  \<^item> TCP, \<open>src/inet/transportlayer/tcp\<close>: a module (\<open>TCP.cc\<close>) that receives messages from IP, from applications and from its timers and keeps
    a table of connections; a connection (\<open>TCPConnection*.cc\<close>) that follows RFC 793 with a state machine, a send queue, a receive
    queue and a retransmission queue (the SACK scoreboard); an algorithm object (\<open>flavours/*.cc\<close>) to which the connection
    reports ACKs, losses and timeouts and which decides what to send; and the serializer that turns segments into bytes
    (\<open>src/inet/common/serializer\<close>).
  \<^item> IPv4, \<open>src/inet/networklayer\<close>: a module (\<open>ipv4/IPv4.cc\<close>) that routes, forwards, fragments, reassembles and delivers datagrams and calls hooks;
    the routing table (\<open>ipv4/IPv4RoutingTable.cc\<close>), the ARP module (\<open>arp/ipv4/ARP.cc\<close>), the error messages of \<open>ipv4/ICMP.cc\<close>.
  \<^item> The Ethernet switch, \<open>src/inet/linklayer/ethernet/switch\<close>: the MAC address table and the relay unit.

  The parts call each other as the modules of the simulation do: IPv4 asks the routing table for a route and the ARP module for a MAC
  address; the ARP module signals that an address is known or given up; the fragment buffer and the forwarding code ask for ICMP errors; TCP's
  handlers call the algorithm, and the algorithm the sending routines.

  Conventions. \<open>uint32\<close> and \<open>ulong\<close> are words of 32 and 64 bits, so that sequence numbers wrap as in the code; \<open>int\<close> is
  \<open>int\<close>; where a \<open>short\<close> or an \<open>int\<close> may overflow the wrap-around is written out (\<open>toShort\<close>, \<open>wrapInt\<close>); simulation time is a rational number. A function
  that may fail an \<open>ASSERT\<close> or \<open>throw\<close> returns a sum whose left part is the failure (\<open>AssertFailure\<close>, \<open>RuntimeError\<close>; \<open>bindR\<close> is sequencing). A TCP
  connection is one record, made of the base state variables, those of the algorithm, and the members of \<open>TCPConnection\<close>; a handler
  maps it to the connection after it. What a connection sends to IP or to its application is appended to \<open>actions\<close> and
  moved to the module's \<open>outbox\<close> at the end of each message. The operations of the IPv4 module return the list of what leaves it, with the state
  after it. Virtual calls on the algorithm object dispatch on its class. A timer is absent, idle or scheduled at a time; cancelling an
  absent timer and scheduling one twice are the errors of the simulation kernel. Pointers to routes, interfaces and datagrams are
  numbers or positions, and following one that dangles is an error. Of the kernel, \<open>send\<close>, timers, simulation time, the lengths
  of packets and encapsulation (\<open>cPacket\<close>) are modelled as its documentation describes them.

  The theories.

  \<^item> \<open>Prelude\<close>: results with failures, frame rules for them (\<open>keepsF\<close>: an operation leaves a view of the state alone),
    lists and words.
  \<^item> \<open>Tcp_Seq\<close>: \<open>seqLess\<close>, \<open>seqLE\<close> and the rest of \<open>TCPConnection.h\<close>, and the offset \<open>off b x\<close> from a base, in which circular
    comparisons inside half the space become comparisons of naturals.
  \<^item> \<open>Tcp_SackQueue\<close>: \<open>queues/TCPSACKRexmitQueue.cc\<close>. The list of regions refines an abstract scoreboard, a map from bytes to
    two marks, over whole histories of sends, SACKs and ACKs (locale \<open>scoreboard\<close>, interpreted on the queue).
  \<^item> \<open>Tcp_Segment\<close>: \<open>TCPSegment.cc\<close>, in particular the cut of a segment to the window.
  \<^item> \<open>Tcp_RcvQueue\<close>: \<open>queues/TCPVirtualDataRcvQueue.cc\<close>. Segments in any order, overlapping or repeated, are delivered
    exactly once and in order; the buffer accounting.
  \<^item> \<open>Tcp_SendQueue\<close>: \<open>queues/TCPVirtualDataSendQueue.cc\<close>, behind a locale of what the connection relies on.
  \<^item> \<open>Tcp_ByteQueue\<close>, \<open>Tcp_ByteRcvQueue\<close>: the queues of byte streams. The bytes that the sender's queue puts into segments arrive in order
    and complete, whatever the order and the overlaps of the segments, as long as no segment repeats one that is kept; when one does, the
    stream is corrupted (\<open>duplicate_corrupts\<close>).
  \<^item> \<open>Tcp_MsgQueue\<close>: the queues of whole messages; each message is delivered exactly once.
  \<^item> \<open>Tcp_State\<close>: \<open>TCPConnection.h\<close>, the state variables and the types of messages.
  \<^item> \<open>Tcp_Fsm\<close>: \<open>TCPConnectionBase.cc\<close>, \<open>performStateTransition\<close> and \<open>stateEntered\<close>. The machine never fails on a connection
    with its timers in order, keeps them so, ends, and a connection is closed only after the causes that RFC 793 demands.
  \<^item> \<open>Tcp_Options\<close>: \<open>TCPConnectionUtil.cc\<close> and \<open>TCPConnectionSackUtil.cc\<close>, header options and windows: the advertised window never
    shrinks, options never overflow the header, options are used only when both sides offered them.
  \<^item> \<open>Tcp_Send\<close>: the sending routines of the same files. Nothing is sent beyond the window of the peer or the congestion
    window; \<open>setPipe\<close> computes the pipe of RFC 3517.
  \<^item> \<open>Tcp_Alg\<close>: \<open>flavours/TCPBaseAlg.cc\<close>, \<open>TCPTahoe.cc\<close>, \<open>TCPReno.cc\<close>, \<open>TCPNewReno.cc\<close>, \<open>TCPNoCongestionControl.cc\<close>, \<open>DumbTCP.cc\<close>. An
    invariant that one callback keeps is kept by every sequence of callbacks (locale \<open>alg_invariant\<close>); from it, the bounds
    of the retransmission timeout and that no callback touches the rest of the connection.
  \<^item> \<open>Tcp_Main\<close>: the connection table and the ephemeral ports of \<open>TCP.cc\<close>; the table stays consistent over any history.
  \<^item> \<open>Tcp_Rcv\<close>: \<open>TCPConnectionRcvSegment.cc\<close>, the eight steps on an arriving segment and the timeouts.
  \<^item> \<open>Tcp_Open\<close>: the same file and \<open>TCPConnectionEventProc.cc\<close>, active and passive open, \<open>LISTEN\<close> and \<open>SYN_SENT\<close>.
  \<^item> \<open>Tcp_App\<close>: the other commands, \<open>processTimer\<close>, \<open>processTCPSegment\<close>, \<open>processAppCommand\<close> and \<open>TCP::handleMessage\<close>.
  \<^item> \<open>Tcp_Ack\<close>, \<open>Tcp_Text\<close>: what an ACK field does to queue and scoreboard, and what text and FIN do to the receiver and the
    application.
  \<^item> \<open>Tcp_Message\<close>: one message at the level of the module; a RST is never answered.
  \<^item> \<open>Tcp_Handshake\<close>, \<open>Tcp_Transfer\<close>, \<open>Tcp_Close\<close>: two modules establish a connection, move data over it and release it. These theorems
    go through every layer: the module's table, the state machine, the handlers, the queues, the options, the timers and every
    class of congestion control.
  \<^item> \<open>Ser_Buffer\<close>, \<open>Ser_Checksum\<close>, \<open>Tcp_Serializer\<close>: \<open>Buffer.cc\<close>, \<open>TCPIPchecksum.cc\<close> and \<open>TCPSerializer.cc\<close>. The checksum is that of RFC
    1071; a segment whose header is aligned is parsed back as it was; parsing bytes of any kind yields well-formed segments.
  \<^item> \<open>Mac_Address\<close>, \<open>Eth_Table\<close>, \<open>Eth_Relay\<close>: \<open>MACAddress.cc\<close>, \<open>MACAddressTable.cc\<close> and \<open>MACRelayUnit.cc\<close>. Addresses survive text and
    packet buffers; the switch sends a frame to the port on which its destination was seen last, floods it otherwise, and
    never sends it back; flushing and copying of the tables.
  \<^item> \<open>Ip_Address\<close>: \<open>IPv4Address.cc\<close>. The tests of a common prefix agree; text and addresses convert into each other.
  \<^item> \<open>Ip_Reassembly\<close>, \<open>Ip_Fragment\<close>: \<open>ReassemblyBuffer.cc\<close>, \<open>IPv4FragBuf.cc\<close> and the fragmentation of \<open>IPv4.cc\<close>. Fragments in any order and any
    number of copies are put together exactly once, to the datagram that was cut up.
  \<^item> \<open>Ip_Routing\<close>: \<open>IPv4RoutingTable.cc\<close>, \<open>IPv4Route.cc\<close>. Over any history of changes, with expired routes and cached answers, a lookup
    finds a best matching route (locale \<open>sorted_vector\<close>, interpreted on the unicast and the multicast routes).
  \<^item> \<open>Ip_Arp\<close>: \<open>ARP.cc\<close>: entries are resolved or being resolved, and resolution ends.
  \<^item> \<open>Ip_Forward\<close>, \<open>Ip_Node\<close>: the rest of \<open>IPv4.cc\<close>, and the module together with routing table and ARP: how a datagram is forwarded, that
    datagrams wait only while an address is resolved and are then sent in order, and that nothing with an expired time to live
    is sent, whatever the hooks do.
  \<^item> This theory: a connection whose segments travel as bytes.

  Loops. The loops over the queues are recursions on lists. Where a loop of the code has no such structure the definition
  has a bound on its rounds: the sending loops (\<open>connSendData\<close>: as many rounds as the window has bytes, since a round sends at
  least one; the theorem on the window shows that the bound is not reached), retransmission (one round per outstanding byte),
  delivery to the application (one round per region or message and one more; \<open>extractAll_spec\<close> shows that it is enough) and the search for an ephemeral
  port (one round per port of the range; \<open>getEphemeralPort_unused\<close>). Running out of the bound is the
  failure \<open>LoopBound\<close>, which the theorems exclude; \<open>sendData_runaway\<close> shows the one case in which the loop of
  the code really does not stop. The other loops (merging of fragments, cutting up of a datagram, parsing of addresses, removal of all
  routes) are functions with a measure.

  Findings. Where the code does not do what it means to, a theorem or a lemma shows it on the model. In TCP: sending in \<open>CLOSE_WAIT\<close> with
  timestamps, \<open>setPipe\<close> and a FIN in flight, the window test of \<open>nextSeg\<close>, a FIN hidden by a deferred close, a FIN beyond the window,
  text in a SYN, unchecked SACK blocks, an unaligned SYN+ACK header that the serializer cannot write, a data offset that is too small, the clamp of the
  persist timer, the window without congestion control, duplicates in a byte stream. In the network layer: the payload length of a datagram that is fragmented
  twice, the administrative distance that is not sorted again, the destination port of a filter rule, numbers that overflow in
  the text of an address, datagrams that leave on the interface of another one's ARP request, accepted link-local multicasts. In the switch:
  entries that are purged too late.

  Not modelled. Statistics (output vectors), log output and display strings do not affect the protocol. The flavours Vegas and
  Westwood, which estimate bandwidth and round trips in floating point, are not among the classes. For TCP, IP is the sequence of
  messages that \<open>handleMessage\<close> receives, and objects that the kernel creates (a new connection, a unique number) come from the
  parameter \<open>runtime_env\<close>. For IPv4, hooks, the registered deserializers, the ports of transport packets and the multicast routing protocol are the
  parameter \<open>ip_env\<close>; IP options, the processing delay of the module's queue, ICMP echo and the reading of routing files are left out, and every
  interface has IPv4 data. Lifecycle operations are modelled without their stages. The other transports (UDP, SCTP), IPv6, the MAC
  and physical layers, routing protocols and the applications of INET are outside of this development.

  Bounds of the end-to-end theorems. Handshake, transfer and release are stated for connections that negotiate no option but the maximum
  segment size, and the handshake for a listener that does not fork (\<open>fork_keeps_listener\<close> covers the table when it does). The theorems on
  receive queues speak of segments inside half the sequence space, outside of which comparisons of sequence numbers have no meaning.
  The theorem on forwarding is for a node without hooks and rules; those on waiting and on the time to live are for all nodes.
\<close>

section \<open>Connections over a wire\<close>

text \<open>
  Where the simulation meets a real network, segments are serialised to bytes and parsed again. \<open>sendToIP\<close> sets the packet length
  of the segment object; in byte-count mode it carries no data bytes.
\<close>

definition toWire :: "tcp_segment \<Rightarrow> wire_segment" where
  "toWire seg = tcp_segment.extend seg (wire_segment.fields (int (unat (headerLength seg)) + int (unat (payloadLength seg))) [] False)"

lemma wire_transparent:
  assumes w: "wireOk (toWire seg)" and p: "padLength (headerOptionList seg) = 0" "payloadList seg = []"
    and b: "pos b = 0" "unat (headerLength seg) + unat (payloadLength seg) \<le> bufsize b" "bufsize b < 2 ^ 32"
  shows "\<exists>b'. serialize addrs (toWire seg) b = Inr b' \<and> errorFound b' = errorFound b \<and>
     tcp_segment.truncate (deserialize addrs (newBuffer (take (pos b') (buf b')))) = seg"
proof -
  have f: "headerOptionList (toWire seg) = headerOptionList seg" "byteLength (toWire seg) = int (unat (headerLength seg)) + int (unat (payloadLength seg))"
      "byteArray (toWire seg) = []" "headerLength (toWire seg) = headerLength seg" by (simp_all add: toWire_def tcp_segment.defs wire_segment.defs)
  have n: "nat (byteLength (toWire seg)) \<le> bufsize b" using b(2) unfolding f(2) nat_int_add .
  have "length (dataBytes (toWire seg)) = unat (payloadLength seg)" by (simp add: dataBytes_def f)
  then have l: "of_nat (length (dataBytes (toWire seg))) = payloadLength seg" by simp
  obtain b' where "serialize addrs (toWire seg) b = Inr b'" "errorFound b' = errorFound b" "deserialize addrs (newBuffer (take (pos b') (buf b'))) =
       (toWire seg)\<lparr>headerOptionList := headerOptionList seg, payloadLength := payloadLength seg, payloadList := [], byteArray := dataBytes (toWire seg), bitError := False\<rparr>"
    using serialized_parses [OF w b(1) n b(3), of addrs] p(1) unfolding f(1) l by auto
  then show ?thesis using p(2) by (intro exI [of _ b']) (simp add: toWire_def tcp_segment.defs)
qed

lemma dataSegment_wire:
  assumes "dataSegment n s r c seg" "unat n < 65536"
  shows "wireOk (toWire seg)" "padLength (headerOptionList seg) = 0" "payloadList seg = []" "unat (headerLength seg) + unat (payloadLength seg) = 20 + unat n"
proof -
  have g: "payloadLength seg = n" "payloadList seg = []" "headerOptionList seg = []" "headerLength seg = 20" using assms(1) by (simp_all add: dataSegment_def)
  moreover have "uint n < 65536" using assms(2) unfolding uint_nat by linarith
  ultimately show "wireOk (toWire seg)" by (simp add: wireOk_def toWire_def tcp_segment.defs wire_segment.defs optionsLength_def padLength_def)
  show "padLength (headerOptionList seg) = 0" "payloadList seg = []" "unat (headerLength seg) + unat (payloadLength seg) = 20 + unat n"
    using g by (simp_all add: padLength_def optionsLength_def)
qed

text \<open>
  C3: data goes from one application to the other and is acknowledged, over a wire. Two modules hold the ends of an established
  connection on which nothing is outstanding, and the application of one sends a message that fits into a segment, the
  two windows and the receiver's buffer. One segment is sent; it is serialised without an error; the other module, given the
  segment parsed from the bytes, hands exactly as many bytes to its application and acknowledges them; the acknowledgement is accepted
  silently, empties the send queue and leaves the two ends agreeing on the sequence numbers of both directions.
\<close>

theorem data_over_wire:
  assumes A: "inModule A k \<lparr>sp_localAddr = la, sp_remoteAddr = ra, sp_localPort = lp, sp_remotePort = rp\<rparr> (g, i) a"
      "settled TCP_S_ESTABLISHED False s s r a" "sendable n a"
    and B: "inModule B l \<lparr>sp_localAddr = ra, sp_remoteAddr = la, sp_localPort = rp, sp_remotePort = lp\<rparr> (h, j) b"
      "settled TCP_S_ESTABLISHED False r r s b" "receivable n b"
    and ports: "0 \<le> lp" "lp < 65536" "0 \<le> rp" "rp < 65536"
    and buffer: "pos w = 0" "20 + unat n \<le> bufsize w" "bufsize w < 2 ^ 32"
  shows "\<exists>A1 A2 B1 seg w' ack a2 b1.
     handleMessage ea p t1 (FromApp g i (Send n)) A = Inr A1 \<and> outbox A1 = outbox A @ [ToIP seg la ra] \<and>
     serialize addrs (toWire seg) w = Inr w' \<and>
     handleMessage eb p t2 (FromIP (tcp_segment.truncate (deserialize addrs (newBuffer (take (pos w') (buf w'))))) la ra) B = Inr B1 \<and>
     outbox B1 = outbox B @ [DataToApp n, ToIP ack ra la] \<and> payloadLength ack = 0 \<and>
     handleMessage ea p t3 (FromIP ack ra la) A1 = Inr A2 \<and> outbox A2 = outbox A1 \<and>
     conns A2 k = Some a2 \<and> conns B1 l = Some b1 \<and> fsm a2 = TCP_S_ESTABLISHED \<and> fsm b1 = TCP_S_ESTABLISHED \<and>
     sendQ a2 = \<lparr>sq_begin = s + ucast n, sq_end = s + ucast n\<rparr> \<and> receiveQ b1 = \<lparr>rcvq_nxt = s + ucast n, regionList = []\<rparr> \<and>
     snd_una a2 = s + ucast n \<and> snd_nxt a2 = s + ucast n \<and> rcv_nxt b1 = s + ucast n \<and> rcv_nxt a2 = r \<and> snd_nxt b1 = r"
proof -
  obtain A1 A2 B1 seg ack a2 b1 where t:
     "handleMessage ea p t1 (FromApp g i (Send n)) A = Inr A1" "outbox A1 = outbox A @ [ToIP seg la ra]" "dataSegment n s r a seg"
     "handleMessage eb p t2 (FromIP seg la ra) B = Inr B1" "outbox B1 = outbox B @ [DataToApp n, ToIP ack ra la]" "payloadLength ack = 0"
     "handleMessage ea p t3 (FromIP ack ra la) A1 = Inr A2" "outbox A2 = outbox A1"
     "conns A2 k = Some a2" "conns B1 l = Some b1" "fsm a2 = TCP_S_ESTABLISHED" "fsm b1 = TCP_S_ESTABLISHED"
     "sendQ a2 = \<lparr>sq_begin = s + ucast n, sq_end = s + ucast n\<rparr>" "receiveQ b1 = \<lparr>rcvq_nxt = s + ucast n, regionList = []\<rparr>"
     "snd_una a2 = s + ucast n" "snd_nxt a2 = s + ucast n" "rcv_nxt b1 = s + ucast n" "rcv_nxt a2 = r" "snd_nxt b1 = r"
    using data_delivered [OF A B ports, of ea p t1 eb t2 t3] by blast
  have "unat n < 65536" using A(3) by (simp add: sendable_def)
  note g = dataSegment_wire [OF t(3) this]
  obtain w' where w: "serialize addrs (toWire seg) w = Inr w'" "tcp_segment.truncate (deserialize addrs (newBuffer (take (pos w') (buf w')))) = seg"
    using wire_transparent [OF g(1-3) buffer(1) _ buffer(3), of addrs] buffer(2) unfolding g(4) by blast
  have "handleMessage eb p t2 (FromIP (tcp_segment.truncate (deserialize addrs (newBuffer (take (pos w') (buf w'))))) la ra) B = Inr B1"
    unfolding w(2) by (rule t(4))
  with t w(1) show ?thesis by blast
qed

theorem data_over_wire_witness:
  "\<exists>A1 A2 B1 seg w' ack a2 b1.
     handleMessage sampleEnv (par handshakeListener) 1 (FromApp 0 7 (Send 100)) (sampleModule transferSender) = Inr A1 \<and>
     serialize [1, 2, 3, 4] (toWire seg) (newBuffer (replicate 200 0)) = Inr w' \<and>
     handleMessage sampleEnv (par handshakeListener) 2 (FromIP (tcp_segment.truncate (deserialize [1, 2, 3, 4] (newBuffer (take (pos w') (buf w'))))) (Address 1) (Address 2))
       (sampleModule transferReceiver) = Inr B1 \<and>
     outbox B1 = [DataToApp 100, ToIP ack (Address 2) (Address 1)] \<and>
     handleMessage sampleEnv (par handshakeListener) 3 (FromIP ack (Address 2) (Address 1)) A1 = Inr A2 \<and>
     conns A2 3 = Some a2 \<and> conns B1 3 = Some b1 \<and> snd_una a2 = 1100 \<and> rcv_nxt b1 = 1100"
proof -
  have p: "0 \<le> (1025 :: int)" "(1025 :: int) < 65536" "0 \<le> (80 :: int)" "(80 :: int) < 65536" by simp_all
  have w: "pos (newBuffer (replicate 200 0)) = 0" "20 + unat (100 :: u64) \<le> bufsize (newBuffer (replicate 200 0))" "bufsize (newBuffer (replicate 200 0)) < 2 ^ 32"
    by simp_all
  have e: "outbox (sampleModule transferReceiver) = []" "(1000 :: u32) + ucast (100 :: u64) = 1100" by (simp_all add: sampleModule_def newMain_def)
  from data_over_wire [OF transferSender_ready transferReceiver_ready p w, of sampleEnv "par handshakeListener" 1 "[1, 2, 3, 4]" sampleEnv 2 3]
  show ?thesis unfolding e append_Nil by (elim exE conjE) (intro exI conjI, assumption+)
qed

text \<open>
  C40: a SYN+ACK that cannot be serialised. When the host supports timestamps and SACK and the peer offered only SACK, \<open>writeHeaderOptions\<close>
  leaves out the NOPs that would align the SACK-permitted option: the header of the SYN+ACK has 26 bytes, and the serializer
  stops the simulation with an error, whatever the buffer.
\<close>

theorem synAck_unserializable:
  assumes "fsm c = TCP_S_LISTEN" "0 < snd_mss c" "\<not> (ws_support c \<and> rcv_ws c)"
    and "sack_support c" "rcv_sack_perm c" "ts_support c" "\<not> rcv_initial_ts c" "pos b = 0"
  shows "\<exists>seg' c'. writeHeaderOptions (newSegment\<lparr>synBit := True, ackBit := True\<rparr>) c = Inr (seg', c') \<and> headerLength seg' = 26 \<and>
     serialize addrs (toWire seg') b = Inl (RuntimeError ''invalid TCP header length'')"
proof -
  obtain seg' c' where s: "writeHeaderOptions (newSegment\<lparr>synBit := True, ackBit := True\<rparr>) c = Inr (seg', c')" "headerLength seg' = 26"
    using synAck_header_unaligned [OF assms(1-7)] by blast
  have "serialize addrs (toWire seg') b = Inl (RuntimeError ''invalid TCP header length'')"
    using s(2) assms(8) by (simp add: serialize_def toWire_def tcp_segment.defs)
  then show ?thesis using s by blast
qed

theorem synAck_unserializable_witness:
  "\<exists>seg' c'. writeHeaderOptions (newSegment\<lparr>synBit := True, ackBit := True\<rparr>)
       ((sampleConn TCP_S_LISTEN)\<lparr>snd_mss := 536, sack_support := True, rcv_sack_perm := True, ts_support := True, rcv_initial_ts := False\<rparr>)
       = Inr (seg', c') \<and> headerLength seg' = 26 \<and>
     serialize [1, 2, 3, 4] (toWire seg') (newBuffer [0, 0]) = Inl (RuntimeError ''invalid TCP header length'')"
  by (rule synAck_unserializable) simp_all

end
